(* ===== verification/Prelude.thy ===== *)
theory Prelude
  imports Main "HOL-Library.Word"
begin

text \<open>
  Shared vocabulary of the development: the result type of C functions that may report an error
  through \<open>ereport\<close>/\<open>elog\<close> or leave the behaviour the C standard defines, the byte type, signed
  wrap-around to 32 bits, and the list lemmas the components share.
\<close>

unbundle bit_operations_syntax

type_synonym byte = "8 word"
type_synonym int64 = "64 word"

text \<open>
  An aborted call: \<open>Report\<close> stands for \<open>ereport(ERROR, ...)\<close> and \<open>elog(ERROR, ...)\<close>, which never
  return, with a tag for the message; \<open>Undefined\<close> stands for a read or write outside the memory
  the code owns, or the use of an uninitialised variable.
\<close>

datatype err = Report string | Undefined

type_synonym 'a res = "err + 'a"

fun rbind :: "'a res \<Rightarrow> ('a \<Rightarrow> 'b res) \<Rightarrow> 'b res" where
  "rbind (Inl e) f = Inl e"
| "rbind (Inr x) f = f x"

definition check :: "bool \<Rightarrow> string \<Rightarrow> unit res" where
  "check b msg = (if b then Inr () else Inl (Report msg))"

definition guard_mem :: "bool \<Rightarrow> unit res" where
  "guard_mem b = (if b then Inr () else Inl Undefined)"

lemma rbind_eq_Inr_iff: "rbind m f = Inr y \<longleftrightarrow> (\<exists>x. m = Inr x \<and> f x = Inr y)"
  by (cases m) auto

lemma rbind_cong [fundef_cong]:
  "m = m' \<Longrightarrow> (\<And>x. m' = Inr x \<Longrightarrow> f x = f' x) \<Longrightarrow> rbind m f = rbind m' f'"
  by (cases m') auto

lemma check_True [simp]: "b \<Longrightarrow> check b msg = Inr ()"
  by (simp add: check_def)

lemma check_False [simp]: "\<not> b \<Longrightarrow> check b msg = Inl (Report msg)"
  by (simp add: check_def)

lemma guard_mem_True [simp]: "b \<Longrightarrow> guard_mem b = Inr ()"
  by (simp add: guard_mem_def)

lemma guard_mem_False [simp]: "\<not> b \<Longrightarrow> guard_mem b = Inl Undefined"
  by (simp add: guard_mem_def)

text \<open>Reading an array cell; outside the array the C read is undefined.\<close>

definition nth_res :: "'a list \<Rightarrow> int \<Rightarrow> 'a res" where
  "nth_res xs i = (if 0 \<le> i \<and> i < int (length xs) then Inr (xs ! nat i) else Inl Undefined)"

lemma nth_res_Inr [simp]: "i < length xs \<Longrightarrow> nth_res xs (int i) = Inr (xs ! i)"
  by (simp add: nth_res_def)

text \<open>Writing an array cell.\<close>

definition upd_res :: "'a list \<Rightarrow> int \<Rightarrow> 'a \<Rightarrow> 'a list res" where
  "upd_res xs i x = (if 0 \<le> i \<and> i < int (length xs) then Inr (xs[nat i := x]) else Inl Undefined)"

lemma upd_res_Inr [simp]: "i < length xs \<Longrightarrow> upd_res xs (int i) x = Inr (xs[i := x])"
  by (simp add: upd_res_def)

text \<open>A loop over a list that may abort, threading a state.\<close>

fun foldM :: "('a \<Rightarrow> 's \<Rightarrow> 's res) \<Rightarrow> 'a list \<Rightarrow> 's \<Rightarrow> 's res" where
  "foldM f [] s = Inr s"
| "foldM f (x # xs) s = rbind (f x s) (foldM f xs)"

lemma foldM_append: "foldM f (xs @ ys) s = rbind (foldM f xs s) (foldM f ys)"
proof (induction xs arbitrary: s)
  case (Cons x xs)
  then show ?case by (cases "f x s") auto
qed simp

lemma foldM_fold: "(\<And>x s. x \<in> set xs \<Longrightarrow> f x s = Inr (g x s)) \<Longrightarrow> foldM f xs s = Inr (fold g xs s)"
  by (induction xs arbitrary: s) auto

lemma foldM_cong:
  "(\<And>x s. x \<in> set xs \<Longrightarrow> f x s = g x s) \<Longrightarrow> foldM f xs s = foldM g xs s"
proof (induction xs arbitrary: s)
  case (Cons x xs)
  then show ?case by (cases "g x s") auto
qed simp

lemma foldM_map: "foldM f (map h xs) s = foldM (\<lambda>x. f (h x)) xs s"
proof (induction xs arbitrary: s)
  case (Cons x xs)
  then show ?case by (cases "f (h x) s") auto
qed simp

text \<open>A loop over the positions of a list is a loop over its elements.\<close>

lemma foldM_nth: "foldM (\<lambda>i. f (xs ! i)) [0..<length xs] s = foldM f xs s"
  by (simp add: map_nth flip: foldM_map)

text \<open>A loop that replaces every cell of an array.\<close>

lemma foldM_update:
  "foldM (\<lambda>i ys. rbind (nth_res ys (int i)) (\<lambda>y. upd_res ys (int i) (f y))) [0..<length xs] xs = Inr (map f xs)"
proof -
  have "foldM (\<lambda>i ys. rbind (nth_res ys (int i)) (\<lambda>y. upd_res ys (int i) (f y))) [0..<m] xs =
      Inr (map f (take m xs) @ drop m xs)" if "m \<le> length xs" for m
    using that
  proof (induction m)
    case (Suc m)
    then have "drop m xs = xs ! m # drop (Suc m) xs" by (simp add: Cons_nth_drop_Suc)
    with Suc show ?case
      by (simp add: foldM_append nth_append list_update_append take_Suc_conv_app_nth)
  qed simp
  from this[of "length xs"] show ?thesis by simp
qed

fun mapM :: "('a \<Rightarrow> 'b res) \<Rightarrow> 'a list \<Rightarrow> 'b list res" where
  "mapM f [] = Inr []"
| "mapM f (x # xs) = rbind (f x) (\<lambda>y. rbind (mapM f xs) (\<lambda>ys. Inr (y # ys)))"

lemma mapM_map: "(\<And>x. x \<in> set xs \<Longrightarrow> f x = Inr (g x)) \<Longrightarrow> mapM f xs = Inr (map g xs)"
  by (induction xs) auto

lemma mapM_length: "mapM f xs = Inr ys \<Longrightarrow> length ys = length xs"
  by (induction xs arbitrary: ys) (auto simp: rbind_eq_Inr_iff)

text \<open>
  Conversion to a C \<open>int\<close> (32-bit two's complement); \<open>int64\<close> values are stored into \<open>int\<close>
  variables and fields by the code in several places.
\<close>

definition to_int32 :: "int \<Rightarrow> int" where
  "to_int32 x = (x + 2 ^ 31) mod 2 ^ 32 - 2 ^ 31"

lemma to_int32_id [simp]: "- (2 ^ 31) \<le> x \<Longrightarrow> x < 2 ^ 31 \<Longrightarrow> to_int32 x = x"
  by (simp add: to_int32_def)

lemma to_int32_range: "- (2 ^ 31) \<le> to_int32 x" "to_int32 x < 2 ^ 31"
  by (simp_all add: to_int32_def)

end
