(* ===== verification/CompWord.thy ===== *)
theory CompWord
  imports Prelude
begin

text \<open>
  The variable-length encoding of run lengths in the RLE index of a \<open>SparseData\<close>
  (\<open>methods/svec/src/pg_gp/SparseData.h\<close>: \<open>int8_to_compword\<close>, \<open>compword_to_int8\<close>,
  \<open>int8compstoragesize\<close>, \<open>append_to_rle_index\<close>).  A count below 128 is one byte that holds its
  negation; a larger one is a size byte (2, 4 or 8) followed by that many little-endian bytes.

  A pointer into the index is a \<open>cursor\<close>: \<open>None\<close> is the NULL pointer, which stands for an array
  of ones; \<open>Some bs\<close> points at the first byte of \<open>bs\<close>, the rest of the buffer.
\<close>

type_synonym cursor = "byte list option"

fun int8compstoragesize :: "cursor \<Rightarrow> nat res" where
  "int8compstoragesize None = Inr 0"
| "int8compstoragesize (Some []) = Inl Undefined"
| "int8compstoragesize (Some (b # bs)) = Inr (if sint b < 0 then 1 else 1 + nat (sint b))"

definition int8_to_compword :: "int64 \<Rightarrow> byte list \<Rightarrow> byte list" where
  "int8_to_compword num entry =
     (if sint num < 128 then entry[0 := - ucast num]
      else
        let entry = entry[1 := ucast (num AND 0xFF)];
            entry = entry[2 := ucast (drop_bit 8 (num AND 0xFF00))]
        in if sint num < 32768 then entry[0 := 2]
      else
        let entry = entry[3 := ucast (drop_bit 16 (num AND 0xFF0000))];
            entry = entry[4 := ucast (drop_bit 24 (num AND 0xFF000000))]
        in if sint num < 2147483648 then entry[0 := 4]
      else
        let entry = entry[5 := ucast (drop_bit 32 (num AND 0xFF00000000))];
            entry = entry[6 := ucast (drop_bit 40 (num AND 0xFF0000000000))];
            entry = entry[7 := ucast (drop_bit 48 (num AND 0xFF000000000000))];
            entry = entry[8 := ucast (drop_bit 56 (num AND 0xFF00000000000000))]
        in entry[0 := 8])"

text \<open>Little-endian loads of the count word.\<close>

definition load16 :: "byte list \<Rightarrow> 16 word" where
  "load16 bs = ucast (bs ! 0) OR push_bit 8 (ucast (bs ! 1))"

definition load32 :: "byte list \<Rightarrow> 32 word" where
  "load32 bs = ucast (bs ! 0) OR push_bit 8 (ucast (bs ! 1)) OR push_bit 16 (ucast (bs ! 2))
     OR push_bit 24 (ucast (bs ! 3))"

definition load64 :: "byte list \<Rightarrow> 64 word" where
  "load64 bs = ucast (bs ! 0) OR push_bit 8 (ucast (bs ! 1)) OR push_bit 16 (ucast (bs ! 2))
     OR push_bit 24 (ucast (bs ! 3)) OR push_bit 32 (ucast (bs ! 4)) OR push_bit 40 (ucast (bs ! 5))
     OR push_bit 48 (ucast (bs ! 6)) OR push_bit 56 (ucast (bs ! 7))"

definition compword_to_int8 :: "cursor \<Rightarrow> int res" where
  "compword_to_int8 c =
     (case c of
        None \<Rightarrow> Inr 1
      | Some entry \<Rightarrow>
          rbind (int8compstoragesize c) (\<lambda>size.
          rbind (guard_mem (size \<le> length entry)) (\<lambda>_.
            if size = 1 then Inr (- sint (entry ! 0))
            else if size = 3 then Inr (sint (load16 (tl entry)))
            else if size = 5 then Inr (sint (load32 (tl entry)))
            else if size = 9 then Inr (sint (load64 (tl entry)))
            else Inl Undefined)))"

definition append_to_rle_index :: "byte list \<Rightarrow> int \<Rightarrow> byte list res" where
  "append_to_rle_index index run_len =
     (let bytes = int8_to_compword (word_of_int run_len) (replicate 9 0)
      in rbind (int8compstoragesize (Some bytes)) (\<lambda>n.
         rbind (guard_mem (n \<le> 9)) (\<lambda>_.
           Inr (index @ take n bytes))))"

text \<open>The step \<open>ix += int8compstoragesize(ix)\<close> to the next entry of the index.\<close>

definition advance :: "cursor \<Rightarrow> cursor res" where
  "advance c = rbind (int8compstoragesize c) (\<lambda>n.
     case c of
       None \<Rightarrow> Inr None
     | Some bs \<Rightarrow> rbind (guard_mem (n \<le> length bs)) (\<lambda>_. Inr (Some (drop n bs))))"

text \<open>The bytes of one count, and of a whole index.\<close>

definition encode_count :: "int \<Rightarrow> byte list" where
  "encode_count n =
    (let w = word_of_int n :: int64 in
     if n < 128 then [- ucast w]
     else if n < 32768 then [2, ucast w, ucast (drop_bit 8 w)]
     else if n < 2147483648 then [4, ucast w, ucast (drop_bit 8 w), ucast (drop_bit 16 w), ucast (drop_bit 24 w)]
     else [8, ucast w, ucast (drop_bit 8 w), ucast (drop_bit 16 w), ucast (drop_bit 24 w), ucast (drop_bit 32 w), ucast (drop_bit 40 w), ucast (drop_bit 48 w), ucast (drop_bit 56 w)])"

definition encode_index :: "int list \<Rightarrow> byte list" where
  "encode_index ns = concat (map encode_count ns)"

section \<open>Bytes of a word\<close>

lemma byte_masks:
  "(0xFF::64 word) = push_bit 0 (mask 8)" "(0xFF00::64 word) = push_bit 8 (mask 8)"
  "(0xFF0000::64 word) = push_bit 16 (mask 8)" "(0xFF000000::64 word) = push_bit 24 (mask 8)"
  "(0xFF00000000::64 word) = push_bit 32 (mask 8)" "(0xFF0000000000::64 word) = push_bit 40 (mask 8)"
  "(0xFF000000000000::64 word) = push_bit 48 (mask 8)" "(0xFF00000000000000::64 word) = push_bit 56 (mask 8)"
  by (simp_all add: push_bit_eq_mult mask_eq_exp_minus_1)

lemma bit_lt_64: "bit (w::64 word) n \<Longrightarrow> n < 64"
  using bit_imp_le_length[of w n] by simp

lemma byte_of: "ucast (drop_bit k (num AND push_bit k (mask 8))) = (ucast (drop_bit k (num::64 word)) :: byte)"
  by (rule bit_word_eqI) (auto simp: bit_simps dest: bit_lt_64)

lemma byte_of_low: "ucast ((num::64 word) AND 0xFF) = (ucast num :: byte)"
  using byte_of[of 0 num] by (simp add: byte_masks)

lemmas byte_of_simps = byte_of_low byte_of[of 8, folded byte_masks] byte_of[of 16, folded byte_masks] 
  byte_of[of 24, folded byte_masks] byte_of[of 32, folded byte_masks] byte_of[of 40, folded byte_masks]
  byte_of[of 48, folded byte_masks] byte_of[of 56, folded byte_masks]

lemma split64: "n < (64::nat) \<Longrightarrow> \<exists>m<8. n = m \<or> n = 8 + m \<or> n = 16 + m \<or> n = 24 + m \<or> n = 32 + m \<or> n = 40 + m \<or> n = 48 + m \<or> n = 56 + m"
  by presburger

lemma split32: "n < (32::nat) \<Longrightarrow> \<exists>m<8. n = m \<or> n = 8 + m \<or> n = 16 + m \<or> n = 24 + m"
  by presburger

lemma load64_bytes: "load64 (ucast num # ucast (drop_bit 8 num) # ucast (drop_bit 16 num) # ucast (drop_bit 24 num) # ucast (drop_bit 32 num) # ucast (drop_bit 40 num) # ucast (drop_bit 48 num) # ucast (drop_bit 56 num) # bs) = (num::64 word)" (is "?l = _")
proof (rule bit_word_eqI)
  fix n assume "n < LENGTH(64)"
  then have "n < 64" by simp
  from split64[OF this] show "bit ?l n = bit num n"
   by (elim exE disjE conjE) (simp_all add: load64_def bit_simps)
qed

lemma load32_bytes: "load32 (ucast num # ucast (drop_bit 8 num) # ucast (drop_bit 16 num) # ucast (drop_bit 24 num) # bs) = ucast (num::64 word)" (is "?l = _")
proof (rule bit_word_eqI)
  fix n assume "n < LENGTH(32)"
  then have "n < 32" by simp
  from split32[OF this] show "bit ?l n = bit (ucast num :: 32 word) n"
   by (elim exE disjE conjE) (simp_all add: load32_def bit_simps)
qed

lemma load16_bytes: "load16 (ucast num # ucast (drop_bit 8 num) # bs) = ucast (num::64 word)"
  by (rule bit_word_eqI) (auto simp: load16_def bit_simps)

lemma ucast_woi: "ucast (word_of_int n :: int64) = (word_of_int n :: byte)"
  "ucast (word_of_int n :: int64) = (word_of_int n :: 16 word)" "ucast (word_of_int n :: int64) = (word_of_int n :: 32 word)"
  by (rule bit_word_eqI; auto simp: bit_simps)+

lemma sint64: "0 \<le> n \<Longrightarrow> n < 2 ^ 63 \<Longrightarrow> sint (word_of_int n :: int64) = n"
  by (simp add: signed_take_bit_int_eq_self sint_sbintrunc')

lemma sint_w16: "0 \<le> n \<Longrightarrow> n < 32768 \<Longrightarrow> sint (ucast (word_of_int n :: int64) :: 16 word) = n"
  by (simp add: signed_take_bit_int_eq_self ucast_woi sint_sbintrunc')

lemma sint_w32: "0 \<le> n \<Longrightarrow> n < 2147483648 \<Longrightarrow> sint (ucast (word_of_int n :: int64) :: 32 word) = n"
  by (simp add: signed_take_bit_int_eq_self ucast_woi sint_sbintrunc')

lemma replicate_9: "replicate 9 (0::byte) = [0,0,0,0,0,0,0,0,0]" by (simp add: numeral_eq_Suc)

lemma neg_small': "0 \<le> n \<Longrightarrow> n < 128 \<Longrightarrow> sint (- (word_of_int n) :: byte) = - n"
  by (simp only: wi_hom_neg sint_sbintrunc') (simp add: signed_take_bit_int_eq_self)

lemma neg_small: "0 \<le> n \<Longrightarrow> n < 128 \<Longrightarrow> sint (- (ucast (word_of_int n :: int64)) :: byte) = - n"
  by (simp add: neg_small' ucast_woi)

lemma storage_size_encode: "0 \<le> n \<Longrightarrow> n < 2 ^ 63 \<Longrightarrow> int8compstoragesize (Some (encode_count n @ bs)) = Inr (length (encode_count n))"
  by (simp add: encode_count_def Let_def neg_small)

lemma append_to_rle_index_encode: "0 \<le> n \<Longrightarrow> n < 2 ^ 63 \<Longrightarrow> append_to_rle_index ix n = Inr (ix @ encode_count n)"
  using neg_small[of n]
  by (auto simp add: append_to_rle_index_def int8_to_compword_def sint64 Let_def replicate_9 encode_count_def byte_of_simps)

lemma compword_encode: "0 \<le> n \<Longrightarrow> n < 2 ^ 63 \<Longrightarrow> compword_to_int8 (Some (encode_count n @ bs)) = Inr n"
  using storage_size_encode[of n] neg_small[of n]
  by (auto simp add: compword_to_int8_def encode_count_def Let_def load16_bytes load32_bytes load64_bytes sint_w16 sint_w32 sint64)

lemma compword_null: "compword_to_int8 None = Inr 1"
  by (simp add: compword_to_int8_def)

section \<open>Walking an index\<close>

text \<open>
  The loop \<open>for (i in is; ...; ix += int8compstoragesize(ix))\<close> of the code, whose body gets the
  loop counter and the count at the cursor.  It is stated over the two operations on cursors it
  uses, \<open>peek\<close> (\<open>compword_to_int8\<close>) and \<open>step\<close> (\<open>ix += int8compstoragesize(ix)\<close>).
\<close>

fun walk :: "('c \<Rightarrow> int res) \<Rightarrow> ('c \<Rightarrow> 'c res) \<Rightarrow> (nat \<Rightarrow> int \<Rightarrow> 's \<Rightarrow> 's res) \<Rightarrow> nat list \<Rightarrow> 'c \<Rightarrow> 's \<Rightarrow> 's res"
where
  "walk peek step f [] c s = Inr s"
| "walk peek step f (i # is) c s =
     rbind (peek c) (\<lambda>n.
     rbind (f i n s) (\<lambda>s.
     rbind (step c) (\<lambda>c. walk peek step f is c s)))"

abbreviation index_loop :: "(nat \<Rightarrow> int \<Rightarrow> 's \<Rightarrow> 's res) \<Rightarrow> nat list \<Rightarrow> cursor \<Rightarrow> 's \<Rightarrow> 's res" where
  "index_loop \<equiv> walk compword_to_int8 advance"

text \<open>The counts a cursor still has in front of it.\<close>

definition points_at :: "cursor \<Rightarrow> int list \<Rightarrow> bool" where
  "points_at c ns \<longleftrightarrow> (\<forall>n\<in>set ns. 0 \<le> n \<and> n < 2 ^ 63) \<and>
     (case c of None \<Rightarrow> (\<forall>n\<in>set ns. n = 1) | Some bs \<Rightarrow> bs = encode_index ns)"

text \<open>
  The contract of a cursor over a list of counts: what a client of the index relies on, whether
  the index is stored or is the NULL index.
\<close>

locale count_cursor =
  fixes peek :: "'c \<Rightarrow> int res" and step :: "'c \<Rightarrow> 'c res" and at :: "'c \<Rightarrow> int list \<Rightarrow> bool"
  assumes peek_at: "at c (n # ns) \<Longrightarrow> peek c = Inr n"
    and step_at: "at c (n # ns) \<Longrightarrow> \<exists>c'. step c = Inr c' \<and> at c' ns"
begin

lemma walk_foldM:
  assumes "at c ns" "length is = length ns"
  shows "walk peek step f is c s = foldM (\<lambda>(i, n). f i n) (zip is ns) s"
  using assms
proof (induction "is" arbitrary: c ns s)
  case (Cons i js)
  then obtain n ms where ns: "ns = n # ms" by (cases ns) auto
  with Cons.prems obtain c' where c': "step c = Inr c'" "at c' ms"
    using step_at by blast
  have peek: "peek c = Inr n"
    using peek_at Cons.prems ns by blast
  show ?case
    using Cons.IH[OF c'(2)] Cons.prems ns c' peek by (cases "f i n s") simp_all
qed simp

lemma walk_fold:
  assumes "at c ns" "length is = length ns"
    and "\<And>i n s. (i, n) \<in> set (zip is ns) \<Longrightarrow> f i n s = Inr (g (i, n) s)"
  shows "walk peek step f is c s = Inr (fold g (zip is ns) s)"
  unfolding walk_foldM[OF assms(1,2)] by (rule foldM_fold) (use assms(3) in auto)

end

lemma encode_index_simps [simp]:
  "encode_index [] = []"
  "encode_index (n # ns) = encode_count n @ encode_index ns"
  "encode_index (ns @ ms) = encode_index ns @ encode_index ms"
  by (simp_all add: encode_index_def)

interpretation cc: count_cursor compword_to_int8 advance points_at
proof (unfold_locales, goal_cases)
  case (1 c n ns)
  then show ?case
    by (cases c) (auto simp: points_at_def compword_encode compword_null)
next
  case (2 c n ns)
  then show ?case
    by (cases c) (auto simp: points_at_def advance_def storage_size_encode)
qed

lemma points_at_index: "(\<forall>n\<in>set ns. 0 \<le> n \<and> n < 2 ^ 63) \<Longrightarrow> points_at (Some (encode_index ns)) ns"
  by (simp add: points_at_def)

lemma points_at_ones: "points_at None (replicate k 1)"
  by (simp add: points_at_def)

lemma append_index_encode:
  "0 \<le> n \<Longrightarrow> n < 2 ^ 63 \<Longrightarrow>
     append_to_rle_index (encode_index ns) n = Inr (encode_index (ns @ [n]))"
  by (simp add: append_to_rle_index_encode)

section \<open>Properties\<close>

text \<open>
  C1: A run length between 0 and the largest \<open>int64\<close>, appended to an index with
  \<open>append_to_rle_index\<close>, occupies 1, 3, 5 or 9 bytes; at those bytes, whatever follows them,
  \<open>int8compstoragesize\<close> returns their number, \<open>compword_to_int8\<close> returns the run length, and the
  cursor increment of the code lands on the byte that follows.
\<close>

theorem count_roundtrip:
  assumes "0 \<le> n" "n < 2 ^ 63"
  shows "\<exists>bs. append_to_rle_index ix n = Inr (ix @ bs) \<and> length bs \<in> {1, 3, 5, 9} \<and>
           int8compstoragesize (Some (bs @ rest)) = Inr (length bs) \<and>
           compword_to_int8 (Some (bs @ rest)) = Inr n \<and>
           advance (Some (bs @ rest)) = Inr (Some rest)"
proof (intro exI conjI)
  show "length (encode_count n) \<in> {1, 3, 5, 9}"
    by (simp add: encode_count_def Let_def)
qed (use assms in \<open>simp_all add: append_to_rle_index_encode compword_encode storage_size_encode advance_def\<close>)

theorem count_roundtrip_witness:
  "\<exists>bs. append_to_rle_index [253] 300 = Inr (253 # bs) \<and> length bs \<in> {1, 3, 5, 9} \<and>
     int8compstoragesize (Some (bs @ [7])) = Inr (length bs) \<and>
     compword_to_int8 (Some (bs @ [7])) = Inr 300 \<and> advance (Some (bs @ [7])) = Inr (Some [7])"
  using count_roundtrip[of 300 "[253]" "[7]"] by simp

end
