(* ===== verification/Float64.thy ===== *)
theory Float64
  imports Prelude
begin

text \<open>
  The C type \<open>double\<close> (\<open>float8\<close> of the server) as its 64-bit pattern, with the operations the code
  uses: arithmetic rounded to nearest-even, comparison, conversion from and to integers, and
  square root, as IEEE 754 defines them.  A NaN operand of an arithmetic operation is returned
  quieted, the left one first, and an invalid operation gives the default NaN, which is what the
  SSE2 instructions of x86-64 do; the SQL NULL of a sparse vector is the NaN \<open>NVP\<close> of
  \<open>methods/svec/src/pg_gp/float_specials.h\<close>.
\<close>

type_synonym float8 = "64 word"

section \<open>Fields of the representation\<close>

definition f64_sign :: "float8 \<Rightarrow> bool" where
  "f64_sign x \<longleftrightarrow> uint x \<ge> 2 ^ 63"

definition f64_mag :: "float8 \<Rightarrow> int" where
  "f64_mag x = uint x mod 2 ^ 63"

definition f64_inf_bits :: int where
  "f64_inf_bits = 0x7FF0000000000000"

definition f64_is_nan :: "float8 \<Rightarrow> bool" where
  "f64_is_nan x \<longleftrightarrow> f64_mag x > f64_inf_bits"

definition f64_is_inf :: "float8 \<Rightarrow> bool" where
  "f64_is_inf x \<longleftrightarrow> f64_mag x = f64_inf_bits"

text \<open>The significand and the exponent of a finite number of magnitude bits \<open>b\<close>: its value is
  \<open>m * 2 ^ e\<close>.\<close>

definition f64_unpack :: "int \<Rightarrow> int \<times> int" where
  "f64_unpack b = (let e = b div 2 ^ 52; f = b mod 2 ^ 52
                   in if e = 0 then (f, - 1074) else (f + 2 ^ 52, e - 1075))"

definition f64_of_bits :: "bool \<Rightarrow> int \<Rightarrow> float8" where
  "f64_of_bits sg b = word_of_int (b + (if sg then 2 ^ 63 else 0))"

definition f64_quiet :: "float8 \<Rightarrow> float8" where
  "f64_quiet x = x OR 0x0008000000000000"

definition f64_default_nan :: float8 where
  "f64_default_nan = 0xFFF8000000000000"

definition f64_zero :: float8 where "f64_zero = 0"
definition f64_one :: float8 where "f64_one = 0x3FF0000000000000"

text \<open>\<open>NVP\<close> of \<open>float_specials.h\<close>, the representation of a missing value; \<open>IS_NVP\<close> compares bits.\<close>

definition NVP :: float8 where "NVP = 0xFFF8000000000001"
definition IS_NVP :: "float8 \<Rightarrow> bool" where "IS_NVP x \<longleftrightarrow> x = NVP"

section \<open>Rounding\<close>

function bitlen :: "int \<Rightarrow> int" where
  "bitlen m = (if m \<le> 0 then 0 else 1 + bitlen (m div 2))"
  by auto
termination by (relation "measure nat") auto

declare bitlen.simps [simp del]

text \<open>Round \<open>m / 2 ^ s\<close> to the nearest integer, ties to even.\<close>

definition round_shift :: "int \<Rightarrow> nat \<Rightarrow> int" where
  "round_shift m s =
     (let q = m div 2 ^ s; r = m mod 2 ^ s
      in if 2 * r > 2 ^ s \<or> (2 * r = 2 ^ s \<and> odd q) then q + 1 else q)"

text \<open>The double nearest to \<open>(-1) ^ sg * m * 2 ^ e\<close>, for \<open>m \<ge> 0\<close>.\<close>

definition f64_round :: "bool \<Rightarrow> int \<Rightarrow> int \<Rightarrow> float8" where
  "f64_round sg m e =
     (if m = 0 then f64_of_bits sg 0
      else let e' = max (e + bitlen m - 53) (- 1074);
               mant = (if e' \<le> e then m * 2 ^ nat (e - e') else round_shift m (nat (e' - e)));
               bits = (e' + 1074) * 2 ^ 52 + mant
           in f64_of_bits sg (min bits f64_inf_bits))"

section \<open>Arithmetic\<close>

definition f64_neg :: "float8 \<Rightarrow> float8" where
  "f64_neg x = x XOR 0x8000000000000000"

definition f64_fabs :: "float8 \<Rightarrow> float8" where "f64_fabs x = x AND 0x7FFFFFFFFFFFFFFF"

definition f64_add :: "float8 \<Rightarrow> float8 \<Rightarrow> float8" where
  "f64_add x y =
     (if f64_is_nan x then f64_quiet x
      else if f64_is_nan y then f64_quiet y
      else if f64_is_inf x then (if f64_is_inf y \<and> f64_sign x \<noteq> f64_sign y then f64_default_nan else x)
      else if f64_is_inf y then y
      else let (m1, e1) = f64_unpack (f64_mag x); (m2, e2) = f64_unpack (f64_mag y);
               e = min e1 e2;
               a = m1 * 2 ^ nat (e1 - e); b = m2 * 2 ^ nat (e2 - e);
               s = (if f64_sign x then - a else a) + (if f64_sign y then - b else b)
           in if s = 0 then f64_of_bits (f64_sign x \<and> f64_sign y) 0
              else f64_round (s < 0) (abs s) e)"

text \<open>A NaN subtrahend is returned with the sign it has.\<close>

definition f64_sub :: "float8 \<Rightarrow> float8 \<Rightarrow> float8" where
  "f64_sub x y =
     (if f64_is_nan x then f64_quiet x else if f64_is_nan y then f64_quiet y else f64_add x (f64_neg y))"

definition f64_mul :: "float8 \<Rightarrow> float8 \<Rightarrow> float8" where
  "f64_mul x y =
     (let sg = (f64_sign x \<noteq> f64_sign y) in
      if f64_is_nan x then f64_quiet x
      else if f64_is_nan y then f64_quiet y
      else if f64_is_inf x then (if f64_mag y = 0 then f64_default_nan else f64_of_bits sg f64_inf_bits)
      else if f64_is_inf y then (if f64_mag x = 0 then f64_default_nan else f64_of_bits sg f64_inf_bits)
      else let (m1, e1) = f64_unpack (f64_mag x); (m2, e2) = f64_unpack (f64_mag y)
           in f64_round sg (m1 * m2) (e1 + e2))"

text \<open>
  The quotient is computed with 120 further bits and a sticky bit for the remainder: the quotient
  has at least 67 bits, so rounding to 53 sees the exact position of the remainder.
\<close>

definition f64_div :: "float8 \<Rightarrow> float8 \<Rightarrow> float8" where
  "f64_div x y =
     (let sg = (f64_sign x \<noteq> f64_sign y) in
      if f64_is_nan x then f64_quiet x
      else if f64_is_nan y then f64_quiet y
      else if f64_is_inf x then (if f64_is_inf y then f64_default_nan else f64_of_bits sg f64_inf_bits)
      else if f64_is_inf y then f64_of_bits sg 0
      else if f64_mag y = 0 then
        (if f64_mag x = 0 then f64_default_nan else f64_of_bits sg f64_inf_bits)
      else let (m1, e1) = f64_unpack (f64_mag x); (m2, e2) = f64_unpack (f64_mag y);
               n = m1 * 2 ^ 120; q = n div m2; r = n mod m2
           in f64_round sg (2 * q + (if r = 0 then 0 else 1)) (e1 - e2 - 121))"

function isqrt :: "int \<Rightarrow> int" where
  "isqrt n = (if n \<le> 0 then 0
              else let r = 2 * isqrt (n div 4) in if (r + 1) * (r + 1) \<le> n then r + 1 else r)"
  by auto
termination by (relation "measure nat") auto

declare isqrt.simps [simp del]

definition f64_sqrt :: "float8 \<Rightarrow> float8" where
  "f64_sqrt x =
     (if f64_is_nan x then f64_quiet x
      else if f64_mag x = 0 then x
      else if f64_sign x then f64_default_nan
      else if f64_is_inf x then x
      else let (m, e) = f64_unpack (f64_mag x);
               (m', e') = (if even e then (m, e) else (2 * m, e - 1));
               n = m' * 2 ^ 120; r = isqrt n
           in f64_round False (2 * r + (if r * r = n then 0 else 1)) (e' div 2 - 61))"

section \<open>Comparison\<close>

definition f64_key :: "float8 \<Rightarrow> int" where
  "f64_key x = (if f64_sign x then - f64_mag x else f64_mag x)"

definition f64_lt :: "float8 \<Rightarrow> float8 \<Rightarrow> bool" where
  "f64_lt x y \<longleftrightarrow> \<not> f64_is_nan x \<and> \<not> f64_is_nan y \<and> f64_key x < f64_key y"

definition f64_le :: "float8 \<Rightarrow> float8 \<Rightarrow> bool" where
  "f64_le x y \<longleftrightarrow> \<not> f64_is_nan x \<and> \<not> f64_is_nan y \<and> f64_key x \<le> f64_key y"

definition f64_eq :: "float8 \<Rightarrow> float8 \<Rightarrow> bool" where
  "f64_eq x y \<longleftrightarrow> \<not> f64_is_nan x \<and> \<not> f64_is_nan y \<and> f64_key x = f64_key y"

section \<open>Conversions\<close>

definition f64_of_int :: "int \<Rightarrow> float8" where
  "f64_of_int n = f64_round (n < 0) (abs n) 0"

text \<open>Truncation towards zero; \<open>None\<close> for a NaN or an infinity.\<close>

definition f64_trunc :: "float8 \<Rightarrow> int option" where
  "f64_trunc x =
     (if f64_mag x \<ge> f64_inf_bits then None
      else let (m, e) = f64_unpack (f64_mag x);
               a = (if 0 \<le> e then m * 2 ^ nat e else m div 2 ^ nat (- e))
           in Some (if f64_sign x then - a else a))"

text \<open>The conversion of a double to an \<open>int\<close> is undefined outside the range of the type.\<close>

definition f64_to_int :: "float8 \<Rightarrow> int res" where
  "f64_to_int x = (case f64_trunc x of
     None \<Rightarrow> Inl Undefined
   | Some n \<Rightarrow> rbind (guard_mem (- (2 ^ 31) \<le> n \<and> n < 2 ^ 31)) (\<lambda>_. Inr n))"

end
