(* ===== verification/SparseData.thy ===== *)
theory SparseData
  imports CompWord Float64
begin

text \<open>
  The run-length encoded arrays of \<open>methods/svec/src/pg_gp/SparseData.{h,c}\<close>.

  A \<open>SparseDataStruct\<close> is a record.  \<open>vals\<close> is the content of its \<open>vals\<close> StringInfo as the list of
  its 8-byte elements (the code instantiates the type with \<open>FLOAT8OID\<close> only; \<open>memcmp\<close> of two
  elements is equality of their bits); \<open>index\<close> is the content of its \<open>index\<close> StringInfo up to
  \<open>len\<close>, \<open>None\<close> when \<open>index->data\<close> is NULL, which stands for an array of ones.  An \<open>int\<close> of the
  code is an \<open>int\<close> in the range of 32 bits; where an \<open>int64\<close> is stored into one the conversion is
  written out.  Allocation does not fail.
\<close>

definition FLOAT8OID :: nat where "FLOAT8OID = 701"

record sdata =
  type_of_data :: nat
  unique_value_count :: int
  total_value_count :: int
  vals :: "float8 list"
  index :: cursor

section \<open>Constructors\<close>

definition makeSparseData :: sdata where
  "makeSparseData = \<lparr>type_of_data = FLOAT8OID, unique_value_count = 0, total_value_count = 0,
     vals = [], index = Some []\<rparr>"

definition makeEmptySparseData :: sdata where
  "makeEmptySparseData = \<lparr>type_of_data = FLOAT8OID, unique_value_count = 0, total_value_count = 0,
     vals = [], index = Some []\<rparr>"

definition makeInplaceSparseData :: "float8 list \<Rightarrow> cursor \<Rightarrow> nat \<Rightarrow> int \<Rightarrow> int \<Rightarrow> sdata" where
  "makeInplaceSparseData vs ix datatype uvc tvc =
     makeEmptySparseData\<lparr>unique_value_count := uvc, total_value_count := tvc,
       vals := vs, index := ix, type_of_data := datatype\<rparr>"

definition makeSparseDataCopy :: "sdata \<Rightarrow> sdata" where
  "makeSparseDataCopy src = \<lparr>type_of_data = type_of_data src,
     unique_value_count = unique_value_count src, total_value_count = total_value_count src,
     vals = vals src, index = index src\<rparr>"

definition add_run_to_sdata :: "float8 \<Rightarrow> int \<Rightarrow> sdata \<Rightarrow> sdata res" where
  "add_run_to_sdata run_val run_len s =
     (case index s of
        None \<Rightarrow> Inl Undefined
      | Some ix \<Rightarrow> rbind (append_to_rle_index ix run_len) (\<lambda>ix.
          Inr (s\<lparr>vals := vals s @ [run_val], index := Some ix,
                 unique_value_count := unique_value_count s + 1,
                 total_value_count := to_int32 (total_value_count s + run_len)\<rparr>)))"

section \<open>Conversion from and to arrays\<close>

fun arr_loop :: "float8 list \<Rightarrow> float8 \<Rightarrow> int \<Rightarrow> sdata \<Rightarrow> sdata res" where
  "arr_loop [] run_val run_len s = add_run_to_sdata run_val run_len s"
| "arr_loop (curr_val # array) run_val run_len s =
     (if curr_val \<noteq> run_val
      then rbind (add_run_to_sdata run_val run_len s) (arr_loop array curr_val 1)
      else arr_loop array run_val (run_len + 1) s)"

definition arr_to_sdata :: "float8 list \<Rightarrow> nat \<Rightarrow> int \<Rightarrow> sdata res" where
  "arr_to_sdata array type count =
     rbind (guard_mem (0 < length array \<and> count \<le> int (length array))) (\<lambda>_.
     rbind (arr_loop (tl (take (nat count) array)) (hd array) 1
              (makeSparseData\<lparr>type_of_data := type\<rparr>)) (\<lambda>s.
       Inr (s\<lparr>unique_value_count := int (length (vals s)), total_value_count := count\<rparr>)))"

definition float8arr_to_sdata :: "float8 list \<Rightarrow> int \<Rightarrow> sdata res" where
  "float8arr_to_sdata array count = arr_to_sdata array FLOAT8OID count"

definition makeSparseDataFromDouble :: "float8 \<Rightarrow> int \<Rightarrow> sdata res" where
  "makeSparseDataFromDouble constant dimension =
     rbind (float8arr_to_sdata [constant] 1) (\<lambda>s.
     rbind (append_to_rle_index [] dimension) (\<lambda>ix.
       Inr (s\<lparr>index := Some ix, total_value_count := to_int32 dimension\<rparr>)))"

text \<open>The inner loop of \<open>sdata_to_float8arr\<close>: one element of \<open>vals\<close>, written \<open>n\<close> times.\<close>

definition copy_run :: "sdata \<Rightarrow> nat \<Rightarrow> int \<Rightarrow> float8 list \<Rightarrow> float8 list res" where
  "copy_run s i n array =
     (if n \<le> 0 then Inr array
      else rbind (nth_res (vals s) (int i)) (\<lambda>v.
           rbind (guard_mem (int (length array) + n \<le> total_value_count s)) (\<lambda>_.
             Inr (array @ replicate (nat n) v))))"

definition sdata_to_float8arr :: "sdata \<Rightarrow> float8 list res" where
  "sdata_to_float8arr s =
     rbind (check (type_of_data s = FLOAT8OID) ''Data type of SparseData is not FLOAT64'') (\<lambda>_.
     rbind (check (0 \<le> total_value_count s) ''invalid memory alloc request size'') (\<lambda>_.
     rbind (index_loop (copy_run s) [0..<nat (unique_value_count s)] (index s) []) (\<lambda>array.
     rbind (check (int (length array) = total_value_count s) ''Array size is incorrect'') (\<lambda>_.
       Inr array))))"

definition sdata_index_to_int64arr :: "sdata \<Rightarrow> int list res" where
  "sdata_index_to_int64arr s =
     index_loop (\<lambda>_ n array. Inr (array @ [n])) [0..<nat (unique_value_count s)] (index s) []"

text \<open>
  \<open>position_to_sdata\<close> sorts the subscripts with \<open>qsort\<close>; \<open>qs cmp xs\<close> stands for the order it leaves
  (the standard requires a permutation sorted by \<open>cmp\<close>, ties in any order).  The code's
  \<open>compar\<close> casts only its first operand, and its \<open>int64\<close> result is converted to \<open>int\<close>.
\<close>

definition compar :: "int list \<Rightarrow> nat \<Rightarrow> nat \<Rightarrow> int" where
  "compar array_pos i j = to_int32 (to_int32 (array_pos ! i) - array_pos ! j)"

text \<open>
  The loops over the sorted positions, on the list \<open>ps\<close> of (position, value) pairs in sorted
  order: \<open>(p, v) # ps\<close> holds the entries \<open>i\<close>, \<open>i + 1\<close>, ... of the code.  \<open>run_extent\<close> is the
  first inner loop, \<open>skip_duplicates\<close> the second; both advance \<open>i\<close>.
\<close>

fun run_extent :: "int \<Rightarrow> int \<times> float8 \<Rightarrow> (int \<times> float8) list \<Rightarrow>
    int \<times> (int \<times> float8) \<times> (int \<times> float8) list" where
  "run_extent run_len cur [] = (run_len, cur, [])"
| "run_extent run_len cur (nxt # ps) =
     (if fst nxt - fst cur = 1 \<and> snd cur = snd nxt then run_extent (run_len + 1) nxt ps
      else (run_len, cur, nxt # ps))"

fun skip_duplicates :: "int \<times> float8 \<Rightarrow> (int \<times> float8) list \<Rightarrow>
    ((int \<times> float8) \<times> (int \<times> float8) list) res" where
  "skip_duplicates cur [] = Inr (cur, [])"
| "skip_duplicates cur (nxt # ps) =
     (if fst nxt - fst cur = 0 then
        (if snd cur = snd nxt then skip_duplicates nxt ps
         else Inl (Report ''posit_to_sdata conflicting values for the same position''))
      else Inr (cur, nxt # ps))"

lemma run_extent_length: "run_extent n cur ps = (m, cur', ps') \<Longrightarrow> length ps' \<le> length ps"
  by (induction n cur ps rule: run_extent.induct) (auto split: if_splits)

lemma skip_duplicates_length: "skip_duplicates cur ps = Inr (cur', ps') \<Longrightarrow> length ps' \<le> length ps"
  by (induction cur ps rule: skip_duplicates.induct) (auto split: if_splits)

function position_loop :: "int \<Rightarrow> float8 \<Rightarrow> (int \<times> float8) list \<Rightarrow> sdata \<Rightarrow> sdata res" where
  "position_loop end base [] s = Inr s"
| "position_loop end base (cur # ps) s =
     (case run_extent 1 cur ps of (run_len, cur, ps) \<Rightarrow>
      rbind (skip_duplicates cur ps) (\<lambda>(cur, ps).
      rbind (add_run_to_sdata (snd cur) run_len s) (\<lambda>s.
        case ps of
          nxt # _ \<Rightarrow>
            (let run_len = fst nxt - fst cur - 1
             in if run_len > 0
                then rbind (add_run_to_sdata base run_len s) (position_loop end base ps)
                else position_loop end base ps s)
        | [] \<Rightarrow>
            (if fst cur < end then add_run_to_sdata base (end - fst cur) s else Inr s))))"
  by pat_completeness auto
termination
  by (relation "measure (\<lambda>(_, _, ps, _). length ps)")
    (auto dest!: run_extent_length[OF sym] skip_duplicates_length)

definition position_to_sdata :: "((nat \<Rightarrow> nat \<Rightarrow> int) \<Rightarrow> nat list \<Rightarrow> nat list) \<Rightarrow> float8 list \<Rightarrow> int list \<Rightarrow>
    nat \<Rightarrow> int \<Rightarrow> int \<Rightarrow> float8 \<Rightarrow> sdata res" where
  "position_to_sdata qs array_val array_pos type count end default_val =
     rbind (guard_mem (0 < count \<and> count \<le> int (length array_pos) \<and> count \<le> int (length array_val))) (\<lambda>_.
       let ix = qs (compar array_pos) [0..<nat count];
           ps = map (\<lambda>k. (array_pos ! k, array_val ! k)) ix;
           s = makeSparseData\<lparr>type_of_data := type\<rparr>
       in rbind (if fst (hd ps) > 1 then add_run_to_sdata default_val (fst (hd ps) - 1) s else Inr s) (\<lambda>s.
          rbind (position_loop end default_val ps s) (\<lambda>s.
            Inr (s\<lparr>unique_value_count := int (length (vals s)),
                   total_value_count := to_int32 end\<rparr>))))"

section \<open>Access to elements\<close>

lemma advance_Some_length:
  "advance (Some bs) = Inr c \<Longrightarrow> \<exists>bs'. c = Some bs' \<and> length bs' < length bs"
  by (cases bs) (auto simp: advance_def rbind_eq_Inr_iff guard_mem_def split: if_splits)

lemma advance_None [simp]: "advance None = Inr None"
  by (simp add: advance_def)

text \<open>
  The loop of \<open>sd_proj\<close> and \<open>subarr\<close> that moves the cursor to the run of element \<open>idx\<close> (a C
  \<open>int\<close>): it returns the cursor, \<open>read\<close>, and the number of the run.
\<close>

function find_block :: "int \<Rightarrow> cursor \<Rightarrow> int \<Rightarrow> nat \<Rightarrow> (cursor \<times> int \<times> nat) res" where
  "find_block idx c read i =
     (if read < to_int32 idx
      then rbind (advance c) (\<lambda>c.
           rbind (compword_to_int8 c) (\<lambda>n.
             find_block idx c (to_int32 (read + n)) (i + 1)))
      else Inr (c, read, i))"
  by auto
termination
proof (relation "measure (\<lambda>(idx, c, read, i).
    case c of None \<Rightarrow> nat (to_int32 idx - read) | Some bs \<Rightarrow> length bs)", goal_cases)
  case (2 idx c read i c' n)
  have "to_int32 idx < 2 ^ 31" "- (2 ^ 31) \<le> to_int32 (read + 1)" by (rule to_int32_range)+
  with 2(1) have "read < to_int32 (read + 1)"
    by (cases "- (2 ^ 31) \<le> read + 1") auto
  with 2 show ?case
    by (cases c) (auto simp: compword_null dest: advance_Some_length)
qed auto

declare find_block.simps [simp del]

definition sd_proj :: "sdata \<Rightarrow> int \<Rightarrow> float8 res" where
  "sd_proj s idx =
     rbind (check (\<not> (0 \<ge> idx \<or> idx > total_value_count s)) ''Index out of bounds.'') (\<lambda>_.
     rbind (compword_to_int8 (index s)) (\<lambda>n.
     rbind (find_block idx (index s) (to_int32 n) 0) (\<lambda>(_, _, i).
       nth_res (vals s) (int i))))"

section \<open>Reversal, subarrays and concatenation\<close>

text \<open>
  \<open>reverse\<close> moves \<open>ix\<close> both ways, so its cursor is an offset into the index: \<open>cursor_at s off\<close> is
  the cursor there, and reading before the buffer is undefined.
\<close>

definition cursor_at :: "sdata \<Rightarrow> int \<Rightarrow> cursor res" where
  "cursor_at s off =
     rbind (guard_mem (0 \<le> off)) (\<lambda>_. Inr (map_option (drop (nat off)) (index s)))"

definition move_right :: "sdata \<Rightarrow> nat \<Rightarrow> int \<Rightarrow> int res" where
  "move_right s j off =
     rbind (cursor_at s off) (\<lambda>c. rbind (int8compstoragesize c) (\<lambda>n. Inr (off + int n)))"

definition reverse_step :: "sdata \<Rightarrow> nat \<Rightarrow> int \<times> sdata \<Rightarrow> (int \<times> sdata) res" where
  "reverse_step s j = (\<lambda>(off, ret).
     rbind (nth_res (vals s) (int j)) (\<lambda>v.
     rbind (cursor_at s off) (\<lambda>c.
     rbind (compword_to_int8 c) (\<lambda>n.
     rbind (add_run_to_sdata v n ret) (\<lambda>ret.
     rbind (int8compstoragesize c) (\<lambda>size.
       Inr (off - int size, ret)))))))"

definition reverse :: "sdata \<Rightarrow> sdata res" where
  "reverse s =
     rbind (foldM (move_right s) [0..<nat (unique_value_count s - 1)] 0) (\<lambda>off.
     rbind (foldM (reverse_step s) (rev [0..<nat (unique_value_count s)]) (off, makeSparseData))
       (\<lambda>(_, ret). Inr ret))"

text \<open>The loop of \<open>subarr\<close> over the runs after the one that holds \<open>start\<close>.\<close>

fun subarr_loop :: "sdata \<Rightarrow> int \<Rightarrow> nat list \<Rightarrow> cursor \<Rightarrow> int \<Rightarrow> sdata \<Rightarrow> sdata res" where
  "subarr_loop s end [] ix read ret = Inr ret"
| "subarr_loop s end (j # js) ix read ret =
     rbind (advance ix) (\<lambda>ix.
     rbind (compword_to_int8 ix) (\<lambda>n.
     rbind (nth_res (vals s) (int j)) (\<lambda>v.
       let esize = to_int32 n in
       if read + esize > end then add_run_to_sdata v (end - read) ret
       else rbind (add_run_to_sdata v esize ret) (\<lambda>ret.
              if read + esize = end then Inr ret
              else subarr_loop s end js ix (read + esize) ret))))"

definition subarr_fwd :: "sdata \<Rightarrow> int \<Rightarrow> int \<Rightarrow> sdata res" where
  "subarr_fwd s start end =
     rbind (check (\<not> (0 \<ge> start \<or> start > end \<or> end > total_value_count s))
              ''Array index out of bounds.'') (\<lambda>_.
     rbind (compword_to_int8 (index s)) (\<lambda>n.
     rbind (find_block start (index s) (to_int32 n) 0) (\<lambda>(ix, read, i).
     rbind (nth_res (vals s) (int i)) (\<lambda>v.
       if end \<le> read then add_run_to_sdata v (end - start + 1) makeSparseData
       else rbind (add_run_to_sdata v (read - start + 1) makeSparseData) (\<lambda>ret.
              subarr_loop s end [i + 1..<nat (unique_value_count s)] ix read ret)))))"

text \<open>The recursive call of \<open>subarr\<close> has its bounds in order, so it does not recur again.\<close>

definition subarr :: "sdata \<Rightarrow> int \<Rightarrow> int \<Rightarrow> sdata res" where
  "subarr s start end =
     (if start > end then rbind (subarr_fwd s end start) reverse else subarr_fwd s start end)"

text \<open>
  \<open>concat\<close> (called \<open>sdata_concat\<close> here) takes possibly NULL arguments and copies \<open>len\<close> bytes of
  each index; a NULL index has length 0, and the index of the result is never NULL.
\<close>

definition index_bytes :: "cursor \<Rightarrow> byte list" where
  "index_bytes c = (case c of None \<Rightarrow> [] | Some bs \<Rightarrow> bs)"

definition sdata_concat :: "sdata option \<Rightarrow> sdata option \<Rightarrow> sdata option" where
  "sdata_concat l r =
     (case (l, r) of
        (None, None) \<Rightarrow> None
      | (None, Some right) \<Rightarrow> Some (makeSparseDataCopy right)
      | (Some left, None) \<Rightarrow> Some (makeSparseDataCopy left)
      | (Some left, Some right) \<Rightarrow>
          Some (makeEmptySparseData
            \<lparr>vals := vals left @ vals right,
             index := Some (index_bytes (index left) @ index_bytes (index right)),
             type_of_data := type_of_data left,
             unique_value_count := to_int32 (unique_value_count left + unique_value_count right),
             total_value_count := to_int32 (total_value_count left + total_value_count right)\<rparr>))"

definition concat_replicate :: "sdata option \<Rightarrow> int \<Rightarrow> sdata option" where
  "concat_replicate rep multiplier =
     map_option (\<lambda>rep. makeEmptySparseData
       \<lparr>vals := concat (replicate (nat multiplier) (vals rep)),
        index := Some (concat (replicate (nat multiplier) (index_bytes (index rep)))),
        type_of_data := type_of_data rep,
        unique_value_count := to_int32 (multiplier * unique_value_count rep),
        total_value_count := to_int32 (multiplier * total_value_count rep)\<rparr>) rep"

text \<open>
  \<open>lapply\<close> calls a function of the server by name.  \<open>lookup func\<close> stands for
  \<open>LookupFuncName\<close> with one \<open>float8\<close> argument followed by the call: it reports an unknown name, and
  gives the type the function returns and the function otherwise.
\<close>

definition lapply :: "('n \<Rightarrow> (nat \<times> (float8 \<Rightarrow> float8 res)) res) \<Rightarrow> 'n \<Rightarrow> sdata \<Rightarrow> sdata res" where
  "lapply lookup func s =
     rbind (lookup func) (\<lambda>(prorettype, f).
     rbind (check (prorettype = FLOAT8OID) ''return type is not double'') (\<lambda>_.
     rbind (foldM (\<lambda>i vs. rbind (nth_res (vals s) (int i)) (\<lambda>v. rbind (f v) (\<lambda>y. upd_res vs (int i) y)))
              [0..<nat (unique_value_count s)] (vals s)) (\<lambda>vs.
       Inr ((makeSparseDataCopy s)\<lparr>vals := vs\<rparr>))))"

end
