(* ===== verification/Runs.thy ===== *)
theory Runs
  imports Prelude
begin

text \<open>
  The abstract side of the run-length encoding: a list of (length, value) runs, the array it
  stands for, and its canonical form.  The components that keep run-length encoded data are
  specified against these functions.
\<close>

type_synonym 'a runs = "(int \<times> 'a) list"

definition expand :: "'a runs \<Rightarrow> 'a list" where
  "expand rs = concat (map (\<lambda>(n, v). replicate (nat n) v) rs)"

definition runs_total :: "'a runs \<Rightarrow> int" where
  "runs_total rs = sum_list (map fst rs)"

definition wf_runs :: "'a runs \<Rightarrow> bool" where
  "wf_runs rs \<longleftrightarrow> (\<forall>r\<in>set rs. 0 < fst r) \<and> runs_total rs < 2 ^ 31"

lemma expand_simps [simp]:
  "expand [] = []"
  "expand (r # rs) = replicate (nat (fst r)) (snd r) @ expand rs"
  "expand (rs @ qs) = expand rs @ expand qs"
  by (simp_all add: expand_def split_beta)

lemma runs_total_simps [simp]:
  "runs_total [] = 0"
  "runs_total (r # rs) = fst r + runs_total rs"
  "runs_total (rs @ qs) = runs_total rs + runs_total qs"
  by (simp_all add: runs_total_def)

lemma runs_total_nonneg: "\<forall>r\<in>set rs. 0 < fst r \<Longrightarrow> 0 \<le> runs_total rs"
  by (induction rs) auto

lemma length_expand: "\<forall>r\<in>set rs. 0 < fst r \<Longrightarrow> int (length (expand rs)) = runs_total rs"
  by (induction rs) (auto simp: runs_total_nonneg)

lemma wf_runs_Nil [simp]: "wf_runs []"
  by (simp add: wf_runs_def)

lemma wf_runs_pos: "wf_runs rs \<Longrightarrow> r \<in> set rs \<Longrightarrow> 0 < fst r"
  by (simp add: wf_runs_def)

lemma wf_runs_total: "wf_runs rs \<Longrightarrow> 0 \<le> runs_total rs \<and> runs_total rs < 2 ^ 31"
  by (simp add: wf_runs_def runs_total_nonneg)

lemma wf_runs_append: "wf_runs (rs @ qs) \<Longrightarrow> wf_runs rs \<and> wf_runs qs"
  using runs_total_nonneg[of rs] runs_total_nonneg[of qs] by (auto simp: wf_runs_def)

lemma wf_runs_Cons: "wf_runs (r # rs) \<Longrightarrow> 0 < fst r \<and> fst r < 2 ^ 31 \<and> wf_runs rs"
  using runs_total_nonneg[of rs] by (auto simp: wf_runs_def)

lemma wf_runs_rev [simp]: "wf_runs (rev rs) \<longleftrightarrow> wf_runs rs"
  by (simp add: wf_runs_def runs_total_def flip: rev_map)

lemma wf_runs_length: "wf_runs rs \<Longrightarrow> int (length (expand rs)) = runs_total rs"
  by (simp add: wf_runs_def length_expand)

lemma wf_runs_lt: "wf_runs rs \<Longrightarrow> n \<in> fst ` set rs \<Longrightarrow> 0 < n \<and> n < 2 ^ 31"
  by (induction rs) (auto dest: wf_runs_Cons)

lemma wf_runs_eq_Nil: "wf_runs rs \<Longrightarrow> runs_total rs = 0 \<longleftrightarrow> rs = []"
  by (cases rs) (auto dest!: wf_runs_Cons dest: wf_runs_total)

lemma length_runs_le: "\<forall>r\<in>set rs. 0 < fst r \<Longrightarrow> int (length rs) \<le> runs_total rs"
  by (induction rs) auto

lemma expand_rev: "expand (rev rs) = rev (expand rs)"
  by (induction rs) auto

lemma expand_ones: "expand (map (Pair 1) xs) = xs"
  by (induction xs) auto

lemma expand_replicate: "expand (concat (replicate k rs)) = concat (replicate k (expand rs))"
  by (induction k) auto

text \<open>
  The canonical encoding merges equal neighbours; every array has one canonical encoding.
\<close>

definition canonical :: "'a runs \<Rightarrow> bool" where
  "canonical rs \<longleftrightarrow> (\<forall>r\<in>set rs. 0 < fst r) \<and> distinct_adj (map snd rs)"

lemma canonical_Cons:
  "canonical (r # rs) \<longleftrightarrow> 0 < fst r \<and> canonical rs \<and> (\<forall>q qs. rs = q # qs \<longrightarrow> snd q \<noteq> snd r)"
  by (cases rs) (auto simp: canonical_def)

lemma expand_hd: "rs \<noteq> [] \<Longrightarrow> canonical rs \<Longrightarrow> expand rs \<noteq> [] \<and> hd (expand rs) = snd (hd rs)"
  by (cases rs) (auto simp: canonical_Cons hd_append)

lemma expand_takeWhile:
  assumes "canonical (r # rs)"
  shows "takeWhile (\<lambda>x. x = snd r) (expand (r # rs)) = replicate (nat (fst r)) (snd r)"
    and "dropWhile (\<lambda>x. x = snd r) (expand (r # rs)) = expand rs"
proof -
  have *: "expand rs = [] \<or> hd (expand rs) \<noteq> snd r"
    using assms expand_hd[of rs] by (cases rs) (auto simp: canonical_Cons)
  then have "takeWhile (\<lambda>x. x = snd r) (expand rs) = []" "dropWhile (\<lambda>x. x = snd r) (expand rs) = expand rs"
    by (cases "expand rs"; simp)+
  then show "takeWhile (\<lambda>x. x = snd r) (expand (r # rs)) = replicate (nat (fst r)) (snd r)"
    and "dropWhile (\<lambda>x. x = snd r) (expand (r # rs)) = expand rs"
    by (simp_all add: takeWhile_append dropWhile_append takeWhile_replicate dropWhile_replicate)
qed

lemma canonical_unique: "canonical rs \<Longrightarrow> canonical qs \<Longrightarrow> expand rs = expand qs \<Longrightarrow> rs = qs"
proof (induction rs arbitrary: qs)
  case Nil
  then show ?case using expand_hd[of qs] by (cases qs) auto
next
  case (Cons r rs)
  then obtain q qs' where qs: "qs = q # qs'"
    using expand_hd[of "r # rs"] by (cases qs) auto
  have v: "snd r = snd q"
    using Cons.prems expand_hd[of "r # rs"] expand_hd[of qs] qs by simp
  have "replicate (nat (fst r)) (snd r) = replicate (nat (fst q)) (snd q)" "expand rs = expand qs'"
    using expand_takeWhile[of r rs] expand_takeWhile[of q qs'] Cons.prems v qs by simp_all
  moreover have "0 < fst r" "0 < fst q" "canonical rs" "canonical qs'"
    using Cons.prems qs by (simp_all add: canonical_Cons)
  ultimately have "fst r = fst q" "rs = qs'"
    using Cons.IH[of qs'] by (auto simp: replicate_eq_replicate)
  with v qs show ?case by (simp add: prod_eq_iff)
qed

end
