(* ===== verification/SparseDataFacts.thy ===== *)
theory SparseDataFacts
  imports SparseData Runs
begin

text \<open>
  What the operations of \<open>SparseData\<close> compute, stated over runs: \<open>sd_rep s rs\<close> says that the
  structure \<open>s\<close> holds the runs \<open>rs\<close> (its index may be NULL when every run has length one), and
  \<open>sd_of_runs rs\<close> is the structure with a stored index that the code builds for \<open>rs\<close>.
\<close>

definition sd_rep :: "sdata \<Rightarrow> float8 runs \<Rightarrow> bool" where
  "sd_rep s rs \<longleftrightarrow> wf_runs rs \<and> type_of_data s = FLOAT8OID \<and> vals s = map snd rs \<and>
     unique_value_count s = int (length rs) \<and> total_value_count s = runs_total rs \<and>
     points_at (index s) (map fst rs)"

definition sd_of_runs :: "float8 runs \<Rightarrow> sdata" where
  "sd_of_runs rs = \<lparr>type_of_data = FLOAT8OID, unique_value_count = int (length rs),
     total_value_count = runs_total rs, vals = map snd rs, index = Some (encode_index (map fst rs))\<rparr>"

lemma sd_of_runs_simps [simp]:
  "type_of_data (sd_of_runs rs) = FLOAT8OID" "unique_value_count (sd_of_runs rs) = int (length rs)"
  "total_value_count (sd_of_runs rs) = runs_total rs" "vals (sd_of_runs rs) = map snd rs"
  "index (sd_of_runs rs) = Some (encode_index (map fst rs))"
  by (simp_all add: sd_of_runs_def)

lemma wf_runs_points_at: "wf_runs rs \<Longrightarrow> points_at (Some (encode_index (map fst rs))) (map fst rs)"
  using wf_runs_lt[of rs] by (force intro: points_at_index)

lemma sd_rep_of_runs [simp]: "sd_rep (sd_of_runs rs) rs \<longleftrightarrow> wf_runs rs"
  by (auto simp: sd_rep_def wf_runs_points_at)

lemma sd_rep_packed: "sd_rep s rs \<Longrightarrow> index s \<noteq> None \<Longrightarrow> s = sd_of_runs rs"
  by (cases "index s") (auto simp: sd_rep_def points_at_def sd_of_runs_def)

lemma sd_rep_wf: "sd_rep s rs \<Longrightarrow> wf_runs rs"
  by (simp add: sd_rep_def)

lemma makeSparseData_runs: "makeSparseData = sd_of_runs []"
  by (simp add: makeSparseData_def sd_of_runs_def)

lemma makeSparseDataCopy_id [simp]: "makeSparseDataCopy s = s"
  by (simp add: makeSparseDataCopy_def)

lemma add_run_of_runs:
  "wf_runs (rs @ [(n, v)]) \<Longrightarrow> add_run_to_sdata v n (sd_of_runs rs) = Inr (sd_of_runs (rs @ [(n, v)]))"
  using wf_runs_append[of rs "[(n, v)]"] wf_runs_total[of rs] wf_runs_total[of "rs @ [(n, v)]"]
  by (auto simp: add_run_to_sdata_def append_index_encode sd_of_runs_def dest!: wf_runs_Cons)

section \<open>Building from an array\<close>

lemma arr_loop_runs:
  assumes "canonical (rs @ [(n, v)])" "runs_total rs + n + int (length xs) < 2 ^ 31"
  shows "\<exists>qs. arr_loop xs v n (sd_of_runs rs) = Inr (sd_of_runs qs) \<and> canonical qs \<and>
           expand qs = expand rs @ replicate (nat n) v @ xs"
  using assms
proof (induction xs arbitrary: rs n v)
  case Nil
  then have "wf_runs (rs @ [(n, v)])"
    by (simp add: wf_runs_def canonical_def)
  then show ?case
    using Nil add_run_of_runs[of rs n v] by (intro exI[of _ "rs @ [(n, v)]"]) simp
next
  case (Cons x xs)
  show ?case
  proof (cases "x = v")
    case True
    have n: "0 < n" using Cons.prems by (simp add: canonical_def)
    have "canonical (rs @ [(n + 1, v)])" using Cons.prems by (simp add: canonical_def)
    with Cons.IH[of rs "n + 1" v] Cons.prems True n show ?thesis
      by (simp add: nat_add_distrib replicate_app_Cons_same)
  next
    case False
    have wf: "wf_runs (rs @ [(n, v)])"
      using Cons.prems by (simp add: wf_runs_def canonical_def)
    have "canonical ((rs @ [(n, v)]) @ [(1, x)])"
      using Cons.prems False by (auto simp: canonical_def distinct_adj_append_iff)
    with Cons.IH[of "rs @ [(n, v)]" 1 x] Cons.prems False add_run_of_runs[OF wf] show ?thesis
      by simp
  qed
qed

lemma arr_to_sdata_runs:
  assumes "a \<noteq> []" "0 < n" "n \<le> int (length a)" "n < 2 ^ 31"
  shows "\<exists>rs. float8arr_to_sdata a n = Inr (sd_of_runs rs) \<and> wf_runs rs \<and> canonical rs \<and>
           expand rs = take (nat n) a"
proof -
  obtain x xs where a: "take (nat n) a = x # xs" "hd a = x"
    using assms by (cases a; cases "nat n") auto
  then have len: "int (length xs) = n - 1"
    using assms by (metis Suc_eq_plus1 add_diff_cancel_right' int_nat_eq length_Cons length_take
        less_le min.absorb2 nat_le_iff of_nat_1 of_nat_add)
  obtain qs where qs: "arr_loop xs x 1 (sd_of_runs []) = Inr (sd_of_runs qs)" "canonical qs"
    "expand qs = x # xs"
    using arr_loop_runs[of "[]" 1 x xs] len assms by (auto simp: canonical_def)
  have "runs_total qs = n"
    using qs len length_expand[of qs] by (simp add: canonical_def)
  with qs a assms show ?thesis
    by (intro exI[of _ qs])
      (simp add: float8arr_to_sdata_def arr_to_sdata_def makeSparseData_runs wf_runs_def canonical_def
        sd_of_runs_def)
qed

section \<open>Loops over the runs\<close>

lemma zip_upt_map: "zip [0..<length rs] (map f rs) = map (\<lambda>i. (i, f (rs ! i))) [0..<length rs]"
  by (rule nth_equalityI) auto

lemma sd_loop:
  assumes "sd_rep s rs" and "\<And>i st. i < length rs \<Longrightarrow> f i (fst (rs ! i)) st = g (rs ! i) st"
  shows "index_loop f [0..<nat (unique_value_count s)] (index s) st = foldM g rs st"
proof -
  have "index_loop f [0..<length rs] (index s) st = foldM (\<lambda>(i, n). f i n) (zip [0..<length rs] (map fst rs)) st"
    using assms(1) by (intro cc.walk_foldM) (simp_all add: sd_rep_def)
  also have "\<dots> = foldM (\<lambda>i. f i (fst (rs ! i))) [0..<length rs] st"
    by (simp add: zip_upt_map foldM_map)
  also have "\<dots> = foldM (\<lambda>i. g (rs ! i)) [0..<length rs] st"
    using assms(2) by (intro foldM_cong) simp
  finally show ?thesis
    using assms(1) by (simp add: foldM_nth sd_rep_def)
qed

lemma sd_vals_nth: "sd_rep s rs \<Longrightarrow> i < length rs \<Longrightarrow> nth_res (vals s) (int i) = Inr (snd (rs ! i))"
  by (simp add: sd_rep_def)

lemma copy_runs:
  "\<forall>r\<in>set rs. 0 < fst r \<Longrightarrow> int (length array) + runs_total rs \<le> t \<Longrightarrow>
   foldM (\<lambda>r array. rbind (guard_mem (int (length array) + fst r \<le> t))
            (\<lambda>_. Inr (array @ replicate (nat (fst r)) (snd r)))) rs array = Inr (array @ expand rs)"
proof (induction rs arbitrary: array)
  case (Cons r rs)
  then have "0 \<le> runs_total rs" by (simp add: runs_total_nonneg)
  with Cons show ?case by simp
qed simp

lemma sdata_to_float8arr_runs:
  assumes "sd_rep s rs"
  shows "sdata_to_float8arr s = Inr (expand rs)"
proof -
  note wf = sd_rep_wf[OF assms]
  have total: "total_value_count s = runs_total rs"
    using assms by (simp add: sd_rep_def)
  let ?g = "\<lambda>r array. rbind (guard_mem (int (length array) + fst r \<le> runs_total rs))
    (\<lambda>_. Inr (array @ replicate (nat (fst r)) (snd r)))"
  have body: "copy_run s i (fst (rs ! i)) st = ?g (rs ! i) st" if "i < length rs" for i st
    using wf_runs_pos[OF wf, of "rs ! i"] that sd_vals_nth[OF assms that]
    by (simp add: copy_run_def total)
  have loop: "index_loop (copy_run s) [0..<nat (unique_value_count s)] (index s) [] = Inr (expand rs)"
    using sd_loop[of s rs "copy_run s" ?g, OF assms body] copy_runs[of rs "[]"] wf_runs_pos[OF wf]
    by simp
  show ?thesis
    using assms loop wf_runs_length[OF wf] wf_runs_total[OF wf]
    by (simp add: sdata_to_float8arr_def) (simp add: sd_rep_def)
qed

lemma sdata_index_runs:
  assumes "sd_rep s rs"
  shows "sdata_index_to_int64arr s = Inr (map fst rs)"
proof -
  have "foldM (\<lambda>r array. Inr (array @ [fst r])) rs xs = Inr (xs @ map fst rs)" for xs
    by (induction rs arbitrary: xs) auto
  then show ?thesis
    using sd_loop[OF assms, of "\<lambda>_ n array. Inr (array @ [n])" "\<lambda>r array. Inr (array @ [fst r])" "[]"]
    by (simp add: sdata_index_to_int64arr_def)
qed

section \<open>Moving to the run of an element\<close>

lemma find_block_runs:
  assumes "points_at c (n # ns)" "\<forall>m\<in>set (n # ns). 0 < m"
    and "base + sum_list (n # ns) < 2 ^ 31" "0 \<le> base" "base < idx" "idx \<le> base + sum_list (n # ns)"
  shows "\<exists>k c'. find_block idx c (base + n) i = Inr (c', base + sum_list (take (Suc k) (n # ns)), i + k) \<and>
           k < length (n # ns) \<and> points_at c' (drop k (n # ns)) \<and>
           base + sum_list (take k (n # ns)) < idx \<and> idx \<le> base + sum_list (take (Suc k) (n # ns))"
  using assms
proof (induction ns arbitrary: n c base i)
  case Nil
  then show ?case
    by (intro exI[of _ 0] exI[of _ c]) (simp add: find_block.simps)
next
  case (Cons m ns)
  have idx: "to_int32 idx = idx" using Cons.prems by simp
  have nonneg: "0 \<le> sum_list ns" using Cons.prems by (simp add: sum_list_nonneg less_imp_le)
  show ?case
  proof (cases "idx \<le> base + n")
    case True
    then show ?thesis
      using Cons.prems idx by (intro exI[of _ 0] exI[of _ c]) (simp add: find_block.simps)
  next
    case False
    obtain c' where c': "advance c = Inr c'" "points_at c' (m # ns)"
      using cc.step_at[OF Cons.prems(1)] by blast
    have peek: "compword_to_int8 c' = Inr m" using c'(2) by (rule cc.peek_at)
    have step: "find_block idx c (base + n) i = find_block idx c' (base + n + m) (i + 1)"
      using False c' peek Cons.prems idx nonneg by (subst find_block.simps) (simp add: add_ac)
    obtain k c'' where k: "find_block idx c' (base + n + m) (i + 1) =
         Inr (c'', base + n + sum_list (take (Suc k) (m # ns)), i + 1 + k)"
      "k < length (m # ns)" "points_at c'' (drop k (m # ns))"
      "base + n + sum_list (take k (m # ns)) < idx" "idx \<le> base + n + sum_list (take (Suc k) (m # ns))"
      using Cons.IH[OF c'(2), of "base + n" "i + 1"] Cons.prems False by auto
    then show ?thesis
      using step by (intro exI[of _ "Suc k"] exI[of _ c'']) (simp add: add_ac)
  qed
qed

lemma runs_split:
  assumes "wf_runs rs" "k < length rs"
    "runs_total (take k rs) < idx" "idx \<le> runs_total (take (Suc k) rs)"
  shows "expand rs ! nat (idx - 1) = snd (rs ! k)"
    and "drop (nat (idx - 1)) (expand rs) =
         replicate (nat (runs_total (take (Suc k) rs) - idx + 1)) (snd (rs ! k)) @ expand (drop (Suc k) rs)"
proof -
  let ?pre = "take k rs" and ?n = "fst (rs ! k)" and ?v = "snd (rs ! k)"
  have rs: "rs = ?pre @ rs ! k # drop (Suc k) rs"
    using assms(2) by (simp add: id_take_nth_drop)
  have wf: "wf_runs ?pre"
    using assms(1) rs wf_runs_append by metis
  have pre: "length (expand ?pre) = nat (runs_total ?pre)" "0 \<le> runs_total ?pre"
    using wf_runs_length[OF wf] wf_runs_total[OF wf] by linarith+
  have tot: "runs_total (take (Suc k) rs) = runs_total ?pre + ?n"
    using assms(2) by (simp add: take_Suc_conv_app_nth)
  have ex: "expand rs = expand ?pre @ replicate (nat ?n) ?v @ expand (drop (Suc k) rs)"
    using arg_cong[OF rs, of expand] by simp
  have i: "nat (idx - 1) = nat (runs_total ?pre) + nat (idx - 1 - runs_total ?pre)"
    "nat (idx - 1 - runs_total ?pre) < nat ?n"
    using assms(3,4) pre tot by linarith+
  have r: "nat ?n - nat (idx - 1 - runs_total ?pre) = nat (runs_total (take (Suc k) rs) - idx + 1)"
    using assms(3,4) pre tot by linarith
  have z: "nat (idx - 1 - runs_total ?pre) - nat ?n = 0"
    using i(2) by linarith
  show "expand rs ! nat (idx - 1) = ?v"
    unfolding ex i(1) using i(2) pre by (simp add: nth_append)
  show "drop (nat (idx - 1)) (expand rs) =
      replicate (nat (runs_total (take (Suc k) rs) - idx + 1)) ?v @ expand (drop (Suc k) rs)"
    unfolding ex i(1) using i(2) pre r z by simp
qed

lemma find_block_sd:
  assumes "sd_rep s rs" "1 \<le> idx" "idx \<le> runs_total rs"
  obtains n k c where "compword_to_int8 (index s) = Inr n" "to_int32 n = n"
    "find_block idx (index s) n 0 = Inr (c, runs_total (take (Suc k) rs), k)"
    "k < length rs" "points_at c (map fst (drop k rs))"
    "runs_total (take k rs) < idx" "idx \<le> runs_total (take (Suc k) rs)"
proof -
  note wf = sd_rep_wf[OF assms(1)]
  have pts: "points_at (index s) (map fst rs)"
    using assms(1) by (simp add: sd_rep_def)
  obtain m ms where ms: "map fst rs = m # ms"
    using assms by (cases rs) auto
  have "\<forall>n\<in>set (map fst rs). 0 < n" "sum_list (map fst rs) = runs_total rs"
    using wf by (auto simp: wf_runs_def runs_total_def)
  note pos = this[unfolded ms]
  have m: "0 < m" "m < 2 ^ 31"
    using wf_runs_lt[OF wf, of m] arg_cong[OF ms, of set] by auto
  obtain k c where k: "find_block idx (index s) (0 + m) 0 =
      Inr (c, 0 + sum_list (take (Suc k) (m # ms)), 0 + k)"
    "k < length (m # ms)" "points_at c (drop k (m # ms))"
    "0 + sum_list (take k (m # ms)) < idx" "idx \<le> 0 + sum_list (take (Suc k) (m # ms))"
    using find_block_runs[OF pts[unfolded ms] pos(1), of 0 idx 0] assms(2,3) wf pos(2)
    by (auto simp: wf_runs_def)
  have tk: "sum_list (take j (m # ms)) = runs_total (take j rs)" for j
    by (simp add: runs_total_def take_map flip: ms)
  show ?thesis
  proof (rule that)
    show "compword_to_int8 (index s) = Inr m"
      using pts ms by (intro cc.peek_at[of _ m ms]) simp
    show "find_block idx (index s) m 0 = Inr (c, runs_total (take (Suc k) rs), k)"
      using k(1) unfolding tk by simp
    show "k < length rs"
      using k(2) arg_cong[OF ms, of length] by simp
    show "points_at c (map fst (drop k rs))"
      using k(3) by (simp add: drop_map flip: ms)
    show "runs_total (take k rs) < idx" "idx \<le> runs_total (take (Suc k) rs)"
      using k(4,5) unfolding tk by simp_all
  qed (use m in simp)
qed

lemma sd_proj_runs:
  assumes "sd_rep s rs"
  shows "sd_proj s idx = (if 1 \<le> idx \<and> idx \<le> runs_total rs then Inr (expand rs ! nat (idx - 1))
           else Inl (Report ''Index out of bounds.''))"
proof (cases "1 \<le> idx \<and> idx \<le> runs_total rs")
  case True
  with find_block_sd[OF assms, of idx] obtain n k c where k:
    "compword_to_int8 (index s) = Inr n" "to_int32 n = n"
    "find_block idx (index s) n 0 = Inr (c, runs_total (take (Suc k) rs), k)" "k < length rs"
    "runs_total (take k rs) < idx" "idx \<le> runs_total (take (Suc k) rs)"
    by metis
  have "total_value_count s = runs_total rs" using assms by (simp add: sd_rep_def)
  with k True show ?thesis
    using runs_split(1)[OF sd_rep_wf[OF assms] k(4-6)] sd_vals_nth[OF assms k(4)]
    by (simp add: sd_proj_def)
qed (use assms in \<open>auto simp: sd_proj_def sd_rep_def\<close>)

section \<open>Subarrays\<close>

lemma wf_runs_snoc: "wf_runs qs \<Longrightarrow> 0 < n \<Longrightarrow> runs_total qs + n < 2 ^ 31 \<Longrightarrow> wf_runs (qs @ [(n, v)])"
  by (auto simp: wf_runs_def)

lemma subarr_loop_runs:
  assumes "sd_rep s rs" "rs = front @ post" "points_at ix (m # map fst post)"
    and "wf_runs qs" "runs_total qs + (end - read) < 2 ^ 31" "read < end" "end \<le> read + runs_total post"
  shows "\<exists>qs'. subarr_loop s end [length front..<length rs] ix read (sd_of_runs qs) = Inr (sd_of_runs qs') \<and>
           wf_runs qs' \<and> expand qs' = expand qs @ take (nat (end - read)) (expand post)"
  using assms(2-)
proof (induction post arbitrary: front ix m read qs)
  case Nil
  then show ?case by simp
next
  case (Cons r post)
  obtain n v where r: "r = (n, v)" by (cases r)
  have wf: "wf_runs (r # post)"
    using sd_rep_wf[OF assms(1)] Cons.prems(1) wf_runs_append by blast
  then have n: "0 < n" "to_int32 n = n" and post: "0 \<le> runs_total post"
    using wf_runs_Cons[OF wf] wf_runs_total[of post] r by auto
  obtain ix' where ix': "advance ix = Inr ix'" "points_at ix' (n # map fst post)"
    using cc.step_at[OF Cons.prems(2)] r by auto
  have peek: "compword_to_int8 ix' = Inr n" using ix'(2) by (rule cc.peek_at)
  have val: "nth_res (vals s) (int (length front)) = Inr v"
    using sd_vals_nth[OF assms(1), of "length front"] Cons.prems(1) r by simp
  have upt: "[length front..<length rs] = length front # [Suc (length front)..<length rs]"
    using Cons.prems(1) by (simp add: upt_rec)
  show ?case
  proof (cases "read + n > end")
    case True
    then have "wf_runs (qs @ [(end - read, v)])"
      using Cons.prems by (intro wf_runs_snoc) auto
    with True show ?thesis
      using ix'(1) peek val n Cons.prems r post upt
      by (intro exI[of _ "qs @ [(end - read, v)]"]) (simp add: add_run_of_runs)
  next
    case False
    have wf': "wf_runs (qs @ [(n, v)])"
      using Cons.prems n False by (intro wf_runs_snoc) auto
    have split: "nat (end - read) = nat n + nat (end - (read + n))"
      using False n by linarith
    show ?thesis
    proof (cases "read + n = end")
      case True
      then show ?thesis
        using ix'(1) peek val n Cons.prems r upt wf' split
        by (intro exI[of _ "qs @ [(n, v)]"]) (simp add: add_run_of_runs)
    next
      case neq: False
      obtain qs' where "subarr_loop s end [length (front @ [r])..<length rs] ix' (read + n)
          (sd_of_runs (qs @ [(n, v)])) = Inr (sd_of_runs qs')" "wf_runs qs'"
        "expand qs' = expand (qs @ [(n, v)]) @ take (nat (end - (read + n))) (expand post)"
        using Cons.IH[of "front @ [r]" ix' n "qs @ [(n, v)]" "read + n"] Cons.prems ix'(2) wf' False neq r
        by auto
      then show ?thesis
        using ix'(1) peek val n False neq upt wf' split r
        by (intro exI[of _ qs']) (simp add: add_run_of_runs)
    qed
  qed
qed

lemma subarr_fwd_runs:
  assumes "sd_rep s rs" "1 \<le> a" "a \<le> b" "b \<le> runs_total rs"
  shows "\<exists>qs. subarr_fwd s a b = Inr (sd_of_runs qs) \<and> wf_runs qs \<and>
           expand qs = take (nat (b - a + 1)) (drop (nat (a - 1)) (expand rs))"
proof -
  have wf: "wf_runs rs" "total_value_count s = runs_total rs" "unique_value_count s = int (length rs)"
    using assms(1) by (simp_all add: sd_rep_def)
  have "a \<le> runs_total rs" using assms(3,4) by simp
  with assms(1,2) obtain n k c where k: "compword_to_int8 (index s) = Inr n" "to_int32 n = n"
    "find_block a (index s) n 0 = Inr (c, runs_total (take (Suc k) rs), k)" "k < length rs"
    "points_at c (map fst (drop k rs))"
    "runs_total (take k rs) < a" "a \<le> runs_total (take (Suc k) rs)"
    by (rule find_block_sd)
  let ?read = "runs_total (take (Suc k) rs)" and ?v = "snd (rs ! k)"
  have tot: "runs_total rs = ?read + runs_total (drop (Suc k) rs)"
    by (metis append_take_drop_id runs_total_simps(3))
  have lt: "runs_total rs < 2 ^ 31" using wf_runs_total[OF wf(1)] by simp
  note dr = runs_split(2)[OF wf(1) k(4,6,7)]
  have v: "nth_res (vals s) (int k) = Inr ?v" using assms(1) k(4) by (rule sd_vals_nth)
  show ?thesis
  proof (cases "b \<le> ?read")
    case True
    have "wf_runs [(b - a + 1, ?v)]" using assms k lt tot by (auto simp: wf_runs_def)
    moreover have "nat (b - a + 1) \<le> nat (?read - a + 1)" using True by simp
    ultimately show ?thesis
      using True assms k wf v dr add_run_of_runs[of "[]" "b - a + 1" ?v]
      by (intro exI[of _ "[(b - a + 1, ?v)]"])
        (simp add: subarr_fwd_def makeSparseData_runs min_def)
  next
    case False
    have wf1: "wf_runs [(?read - a + 1, ?v)]"
      using assms k lt False by (auto simp: wf_runs_def)
    have rs: "rs = take (Suc k) rs @ drop (Suc k) rs" and len: "length (take (Suc k) rs) = Suc k"
      using k(4) by simp_all
    have pts: "points_at c (fst (rs ! k) # map fst (drop (Suc k) rs))"
      using k(4,5) by (simp flip: Cons_nth_drop_Suc)
    obtain qs where qs: "subarr_loop s b [Suc k..<length rs] c ?read (sd_of_runs [(?read - a + 1, ?v)])
        = Inr (sd_of_runs qs)" "wf_runs qs"
      "expand qs = replicate (nat (?read - a + 1)) ?v @ take (nat (b - ?read)) (expand (drop (Suc k) rs))"
      using subarr_loop_runs[OF assms(1) rs pts wf1, of b ?read] assms False lt tot
      unfolding len by auto
    have sp: "nat (b - a + 1) = nat (?read - a + 1) + nat (b - ?read)"
      using False k(7) by linarith
    show ?thesis
      using False assms k wf v qs dr add_run_of_runs[of "[]" "?read - a + 1" ?v] wf1
      by (intro exI[of _ qs]) (simp add: subarr_fwd_def makeSparseData_runs sp)
  qed
qed

section \<open>Reversal\<close>

text \<open>
  \<open>reverse\<close> steps back over the entry it has just read, by the size of that entry: it lands on the
  previous entry exactly when both have the same size.
\<close>

definition entry_size :: "cursor \<Rightarrow> int \<Rightarrow> nat" where
  "entry_size c n = (case c of None \<Rightarrow> 0 | Some _ \<Rightarrow> length (encode_count n))"

definition uniform_entries :: "sdata \<Rightarrow> bool" where
  "uniform_entries s \<longleftrightarrow> (case sdata_index_to_int64arr s of
     Inr ns \<Rightarrow> (\<forall>n\<in>set ns. entry_size (index s) n = entry_size (index s) (hd ns)) | Inl _ \<Rightarrow> False)"

lemma points_at_drop:
  assumes "points_at c ns" "\<forall>n\<in>set ns. entry_size c n = w" "j \<le> length ns"
  shows "points_at (map_option (drop (j * w)) c) (drop j ns)"
  using assms
proof (induction ns arbitrary: c j)
  case Nil
  then show ?case by (cases c) (auto simp: points_at_def)
next
  case (Cons n ns)
  show ?case
  proof (cases j)
    case 0
    then show ?thesis using Cons.prems by (simp add: option.map_ident)
  next
    case (Suc i)
    show ?thesis
    proof (cases c)
      case None
      then show ?thesis using Cons.prems by (auto simp: points_at_def dest!: in_set_dropD)
    next
      case (Some bs)
      have "points_at (Some (encode_index ns)) ns" "\<forall>n\<in>set ns. entry_size (Some (encode_index ns)) n = w"
        "length (encode_count n) = w" "bs = encode_count n @ encode_index ns"
        using Cons.prems Some by (auto simp: points_at_def entry_size_def)
      then show ?thesis
        using Cons.IH[of "Some (encode_index ns)" i] Cons.prems(3) Suc Some by simp
    qed
  qed
qed

lemma cursor_at_runs:
  assumes "sd_rep s rs" "\<forall>r\<in>set rs. entry_size (index s) (fst r) = w" "j < length rs"
  shows "\<exists>c. cursor_at s (int j * int w) = Inr c \<and> compword_to_int8 c = Inr (fst (rs ! j)) \<and>
           int8compstoragesize c = Inr w"
proof -
  let ?c = "map_option (drop (j * w)) (index s)"
  have "points_at ?c (drop j (map fst rs))"
    using assms by (intro points_at_drop) (auto simp: sd_rep_def)
  then have pts: "points_at ?c (fst (rs ! j) # map fst (drop (Suc j) rs))"
    using assms(3) by (simp add: drop_map flip: Cons_nth_drop_Suc)
  have sz: "entry_size (index s) (fst (rs ! j)) = w" using assms by simp
  have "int8compstoragesize ?c = Inr w"
    using pts sz by (cases "index s") (auto simp: points_at_def entry_size_def storage_size_encode)
  moreover have "cursor_at s (int j * int w) = Inr ?c"
    by (simp add: cursor_at_def nat_mult_distrib)
  ultimately show ?thesis using cc.peek_at[OF pts] by blast
qed

lemma move_right_runs:
  assumes "sd_rep s rs" "\<forall>r\<in>set rs. entry_size (index s) (fst r) = w" "m \<le> length rs"
  shows "foldM (move_right s) [0..<m] 0 = Inr (int m * int w)"
  using assms(3)
proof (induction m)
  case (Suc m)
  obtain c where "cursor_at s (int m * int w) = Inr c" "int8compstoragesize c = Inr w"
    using cursor_at_runs[OF assms(1,2), of m] Suc.prems by auto
  with Suc show ?case by (simp add: foldM_append move_right_def algebra_simps)
qed simp

lemma reverse_step_runs:
  assumes "sd_rep s rs" "\<forall>r\<in>set rs. entry_size (index s) (fst r) = w" "m \<le> length rs"
    and "wf_runs (qs @ rev (take m rs))"
  shows "foldM (reverse_step s) (rev [0..<m]) ((int m - 1) * int w, sd_of_runs qs) =
           Inr (- int w, sd_of_runs (qs @ rev (take m rs)))"
  using assms(3,4)
proof (induction m arbitrary: qs)
  case (Suc m)
  obtain c where c: "cursor_at s (int m * int w) = Inr c" "compword_to_int8 c = Inr (fst (rs ! m))"
    "int8compstoragesize c = Inr w"
    using cursor_at_runs[OF assms(1,2), of m] Suc.prems by auto
  have tk: "qs @ rev (take (Suc m) rs) = (qs @ [rs ! m]) @ rev (take m rs)"
    using Suc.prems by (simp add: take_Suc_conv_app_nth)
  then have wf: "wf_runs (qs @ [(fst (rs ! m), snd (rs ! m))])"
    using Suc.prems(2) wf_runs_append[of "qs @ [rs ! m]"] by simp
  have val: "nth_res (vals s) (int m) = Inr (snd (rs ! m))"
    using sd_vals_nth[OF assms(1)] Suc.prems by simp
  have "reverse_step s m ((int (Suc m) - 1) * int w, sd_of_runs qs) =
      Inr ((int m - 1) * int w, sd_of_runs (qs @ [rs ! m]))"
    using c val add_run_of_runs[OF wf] by (simp add: reverse_step_def algebra_simps)
  then show ?case
    using Suc.IH[of "qs @ [rs ! m]"] Suc.prems tk by simp
qed simp

lemma reverse_runs:
  assumes "sd_rep s rs" "uniform_entries s"
  shows "reverse s = Inr (sd_of_runs (rev rs))"
proof (cases "rs = []")
  case True
  then show ?thesis using assms(1) by (simp add: reverse_def makeSparseData_runs sd_rep_def)
next
  case False
  let ?w = "entry_size (index s) (hd (map fst rs))"
  have w: "\<forall>r\<in>set rs. entry_size (index s) (fst r) = ?w"
    using assms(2) by (simp add: uniform_entries_def sdata_index_runs[OF assms(1)])
  have u: "unique_value_count s = int (length rs)" and wf: "wf_runs rs"
    using assms(1) by (simp_all add: sd_rep_def)
  have "nat (int (length rs) - 1) = length rs - 1" by simp
  then show ?thesis
    using move_right_runs[OF assms(1) w, of "length rs - 1"] False wf
      reverse_step_runs[OF assms(1) w, of "length rs" "[]"]
    by (simp add: reverse_def u makeSparseData_runs of_nat_diff Suc_leI)
qed

section \<open>Concatenation\<close>

lemma to_int32_small: "0 \<le> n \<Longrightarrow> n < 2 ^ 31 \<Longrightarrow> to_int32 n = n"
  by simp

lemma sdata_concat_runs:
  assumes "wf_runs (rs @ qs)"
  shows "sdata_concat (Some (sd_of_runs rs)) (Some (sd_of_runs qs)) = Some (sd_of_runs (rs @ qs))"
proof -
  have "int (length rs) + int (length qs) < 2 ^ 31"
    using length_runs_le[of "rs @ qs"] assms by (simp add: wf_runs_def)
  moreover have "to_int32 (runs_total rs + runs_total qs) = runs_total rs + runs_total qs"
    using wf_runs_total[OF assms] by simp
  ultimately show ?thesis
    by (simp add: sdata_concat_def sd_of_runs_def makeEmptySparseData_def index_bytes_def)
qed

lemma concat_replicate_runs:
  assumes "wf_runs (concat (replicate k rs))"
  shows "concat_replicate (Some (sd_of_runs rs)) (int k) = Some (sd_of_runs (concat (replicate k rs)))"
proof -
  have len: "length (concat (replicate k rs)) = k * length rs"
    by (induction k) auto
  have tot: "runs_total (concat (replicate k rs)) = int k * runs_total rs"
    by (induction k) (auto simp: algebra_simps)
  have enc: "concat (replicate k (encode_index ns)) = encode_index (concat (replicate k ns))" for ns
    by (induction k) auto
  have "int k * int (length rs) < 2 ^ 31"
    using length_runs_le[of "concat (replicate k rs)"] assms len by (simp add: wf_runs_def)
  then have "to_int32 (int k * int (length rs)) = int k * int (length rs)"
    by (intro to_int32_small) simp_all
  moreover have "to_int32 (int k * runs_total rs) = int k * runs_total rs"
    using wf_runs_total[OF assms] tot by (intro to_int32_small) simp_all
  ultimately show ?thesis
    using len tot by (simp add: concat_replicate_def sd_of_runs_def makeEmptySparseData_def
        index_bytes_def enc map_concat map_replicate)
qed

section \<open>Properties\<close>

text \<open>
  C2: \<open>float8arr_to_sdata\<close> compresses every non-empty array of fewer than 2^31 doubles into a
  structure that \<open>sdata_to_float8arr\<close> expands to the same array, bit for bit, in which no two
  neighbouring values are equal; and it is the only structure with a stored index, positive run
  lengths and unequal neighbours that expands to that array.
\<close>

theorem array_roundtrip:
  assumes "a \<noteq> []" "int (length a) < 2 ^ 31"
  shows "\<exists>s. float8arr_to_sdata a (int (length a)) = Inr s \<and> sdata_to_float8arr s = Inr a \<and>
           total_value_count s = int (length a) \<and> distinct_adj (vals s) \<and>
           (\<forall>t rs. sd_rep t rs \<and> index t \<noteq> None \<and> distinct_adj (vals t) \<and> sdata_to_float8arr t = Inr a
              \<longrightarrow> t = s)"
proof -
  obtain rs where rs: "float8arr_to_sdata a (int (length a)) = Inr (sd_of_runs rs)" "wf_runs rs"
    "canonical rs" "expand rs = a"
    using arr_to_sdata_runs[of a "int (length a)"] assms by auto
  have "t = sd_of_runs rs"
    if "sd_rep t qs" "index t \<noteq> None" "distinct_adj (vals t)" "sdata_to_float8arr t = Inr a" for t qs
  proof -
    have "canonical qs" using that by (auto simp: canonical_def sd_rep_def wf_runs_def)
    moreover have "expand qs = a" using that sdata_to_float8arr_runs by auto
    ultimately have "qs = rs" using rs canonical_unique[of qs rs] by simp
    then show ?thesis using sd_rep_packed that by blast
  qed
  moreover have "runs_total rs = int (length a)"
    using wf_runs_length[OF rs(2)] rs(4) by simp
  ultimately show ?thesis
    using rs sdata_to_float8arr_runs[of "sd_of_runs rs" rs] by (auto simp: canonical_def)
qed

theorem array_roundtrip_witness:
  "\<exists>s. float8arr_to_sdata [7, 7, NVP, 0] 4 = Inr s \<and> sdata_to_float8arr s = Inr [7, 7, NVP, 0] \<and>
     total_value_count s = 4 \<and> distinct_adj (vals s)"
  using array_roundtrip[of "[7, 7, NVP, 0]"] by auto

text \<open>
  \<open>sd_proj\<close> returns the element of the expanded array at the 1-based position, whatever the
  runs are and whether the index is stored or NULL, and reports every position outside the array.
\<close>

theorem sd_proj_nth:
  assumes "sd_rep s rs"
  shows "sd_proj s idx = (if 1 \<le> idx \<and> idx \<le> int (length (expand rs)) then Inr (expand rs ! nat (idx - 1))
           else Inl (Report ''Index out of bounds.''))"
  using sd_proj_runs[OF assms] wf_runs_length[OF sd_rep_wf[OF assms]] by simp

theorem sd_proj_nth_witness:
  "sd_proj (sd_of_runs [(200, 5), (3, 6)]) 202 = Inr 6 \<and>
   sd_proj (sd_of_runs [(200, 5), (3, 6)]) 204 = Inl (Report ''Index out of bounds.'')"
  using sd_proj_nth[of "sd_of_runs [(200, 5), (3, 6)]" "[(200, 5), (3, 6)]" 202]
    sd_proj_nth[of "sd_of_runs [(200, 5), (3, 6)]" "[(200, 5), (3, 6)]" 204]
  by (simp add: wf_runs_def nth_append)

text \<open>
  \<open>subarr\<close> from \<open>a\<close> to \<open>b\<close> with \<open>a \<le> b\<close> is a well-formed structure that expands to the elements
  \<open>a\<close> to \<open>b\<close> of the array, and bounds outside the array are reported.
\<close>

theorem subarr_slice:
  assumes "sd_rep s rs" "a \<le> b"
  shows "(if 1 \<le> a \<and> b \<le> int (length (expand rs))
          then \<exists>t qs. subarr s a b = Inr t \<and> sd_rep t qs \<and>
                 sdata_to_float8arr t = Inr (take (nat (b - a + 1)) (drop (nat (a - 1)) (expand rs)))
          else subarr s a b = Inl (Report ''Array index out of bounds.''))"
proof -
  have tot: "runs_total rs = int (length (expand rs))"
    using wf_runs_length[OF sd_rep_wf[OF assms(1)]] by simp
  show ?thesis
  proof (cases "1 \<le> a \<and> b \<le> int (length (expand rs))")
    case True
    then obtain qs where "subarr_fwd s a b = Inr (sd_of_runs qs)" "wf_runs qs"
      "expand qs = take (nat (b - a + 1)) (drop (nat (a - 1)) (expand rs))"
      using subarr_fwd_runs[OF assms(1), of a b] assms(2) tot by auto
    moreover from this have "sd_rep (sd_of_runs qs) qs" by simp
    ultimately show ?thesis
      using True assms(2) sdata_to_float8arr_runs[of "sd_of_runs qs" qs]
      by (auto simp: subarr_def simp del: sd_rep_of_runs)
  next
    case False
    then show ?thesis
      using assms tot by (auto simp: subarr_def subarr_fwd_def sd_rep_def)
  qed
qed

theorem subarr_slice_witness:
  "\<exists>t qs. subarr (sd_of_runs [(2, 5), (2, 6)]) 2 3 = Inr t \<and> sd_rep t qs \<and>
     sdata_to_float8arr t = Inr [5, 6]"
  using subarr_slice[of "sd_of_runs [(2, 5), (2, 6)]" "[(2, 5), (2, 6)]" 2 3]
  by (simp add: wf_runs_def numeral_2_eq_2)

text \<open>
  \<open>reverse\<close> of a structure whose index entries all have the same storage size (in particular
  of one with a NULL index, or with every run shorter than 128) holds the runs in reverse order,
  so it expands to the reversed array.
\<close>

theorem reverse_uniform:
  assumes "sd_rep s rs" "uniform_entries s"
  shows "\<exists>t. reverse s = Inr t \<and> sd_rep t (rev rs) \<and> sdata_to_float8arr t = Inr (rev (expand rs))"
proof -
  have "sd_rep (sd_of_runs (rev rs)) (rev rs)"
    using sd_rep_wf[OF assms(1)] by simp
  then show ?thesis
    using reverse_runs[OF assms] sdata_to_float8arr_runs[of _ "rev rs"] by (auto simp: expand_rev)
qed

theorem reverse_uniform_witness:
  "\<exists>t. reverse (sd_of_runs [(2, 5), (1, 6)]) = Inr t \<and> sdata_to_float8arr t = Inr [6, 5, 5]"
proof -
  have rep: "sd_rep (sd_of_runs [(2, 5), (1, 6)]) [(2, 5), (1, 6)]" by (simp add: wf_runs_def)
  moreover have "uniform_entries (sd_of_runs [(2, 5), (1, 6)])"
    unfolding uniform_entries_def sdata_index_runs[OF rep] by (simp add: entry_size_def encode_count_def)
  ultimately show ?thesis
    using reverse_uniform[of "sd_of_runs [(2, 5), (1, 6)]" "[(2, 5), (1, 6)]"]
    by (auto simp: numeral_2_eq_2)
qed

text \<open>
  \<open>reverse\<close> is wrong when the sizes differ: it reverses 200 values \<open>a\<close> followed by one \<open>b\<close>
  (entries of 3 and 1 bytes) into a structure of a single element, because it steps back by the
  size of the entry it has read and lands inside the entry before.
\<close>

theorem reverse_mixed_sizes:
  "map_sum id (\<lambda>t. (vals t, total_value_count t)) (reverse (sd_of_runs [(200, 5), (1, 6)])) = Inr ([6, 5], 1)"
  by code_simp

text \<open>
  The concatenation of two structures with stored indexes expands to the appended arrays, as
  long as the total fits an \<open>int\<close>.
\<close>

theorem concat_append:
  assumes "sd_rep s rs" "sd_rep t qs" "index s \<noteq> None" "index t \<noteq> None"
    "runs_total rs + runs_total qs < 2 ^ 31"
  shows "\<exists>u. sdata_concat (Some s) (Some t) = Some u \<and> sd_rep u (rs @ qs) \<and>
           sdata_to_float8arr u = Inr (expand rs @ expand qs)"
proof -
  have "wf_runs (rs @ qs)"
    using assms by (auto simp: wf_runs_def sd_rep_def)
  then show ?thesis
    using sdata_concat_runs[of rs qs] sd_rep_packed assms
      sdata_to_float8arr_runs[of "sd_of_runs (rs @ qs)" "rs @ qs"] by auto
qed

theorem concat_append_witness:
  "\<exists>u. sdata_concat (Some (sd_of_runs [(1, 5)])) (Some (sd_of_runs [(1, 6)])) = Some u \<and>
     sdata_to_float8arr u = Inr [5, 6]"
  using concat_append[of "sd_of_runs [(1, 5)]" "[(1, 5)]" "sd_of_runs [(1, 6)]" "[(1, 6)]"]
  by (auto simp: wf_runs_def)

end
