(* ===== verification/SparseOps.thy ===== *)
theory SparseOps
  imports SparseDataFacts
begin

text \<open>
  Arithmetic, comparison and accumulation on \<open>SparseData\<close>, the inline functions of
  \<open>methods/svec/src/pg_gp/SparseData.h\<close>.  The macros that switch on the element type are modelled
  at \<open>FLOAT8OID\<close>, the only type the constructors of the code produce; at another type the model
  gives \<open>Undefined\<close>.
\<close>

datatype operation_t = Subtract | Add | Multiply | Divide

definition float8_op :: "operation_t \<Rightarrow> float8 \<Rightarrow> float8 \<Rightarrow> float8" where
  "float8_op operation x y =
     (case operation of Subtract \<Rightarrow> f64_sub x y | Add \<Rightarrow> f64_add x y
      | Multiply \<Rightarrow> f64_mul x y | Divide \<Rightarrow> f64_div x y)"

definition check_sdata_dimensions :: "sdata \<Rightarrow> sdata \<Rightarrow> unit res" where
  "check_sdata_dimensions left right =
     check (total_value_count left = total_value_count right) ''dimensions of vectors must be the same''"

section \<open>Operations with a scalar\<close>

text \<open>\<open>for (i = 0; i < unique_value_count; i++) vals[i] = f(vals[i])\<close>.\<close>

definition map_sdata_values :: "(float8 \<Rightarrow> float8) \<Rightarrow> sdata \<Rightarrow> sdata res" where
  "map_sdata_values f s =
     rbind (guard_mem (type_of_data s = FLOAT8OID)) (\<lambda>_.
     rbind (foldM (\<lambda>i vs. rbind (nth_res vs (int i)) (\<lambda>v. upd_res vs (int i) (f v)))
              [0..<nat (unique_value_count s)] (vals s)) (\<lambda>vs.
       Inr (s\<lparr>vals := vs\<rparr>)))"

definition op_sdata_by_scalar_inplace :: "operation_t \<Rightarrow> float8 \<Rightarrow> sdata \<Rightarrow> bool \<Rightarrow> sdata res" where
  "op_sdata_by_scalar_inplace operation scalar s scalar_is_right =
     (if scalar_is_right then map_sdata_values (\<lambda>v. float8_op operation v scalar) s
      else map_sdata_values (\<lambda>v. float8_op operation scalar v) s)"

definition op_sdata_by_scalar_copy :: "operation_t \<Rightarrow> float8 \<Rightarrow> sdata \<Rightarrow> bool \<Rightarrow> sdata res" where
  "op_sdata_by_scalar_copy operation scalar source_sdata scalar_is_right =
     op_sdata_by_scalar_inplace operation scalar (makeSparseDataCopy source_sdata) scalar_is_right"

text \<open>\<open>pow\<close> of the C library is a parameter.\<close>

definition pow_sdata_by_scalar :: "(float8 \<Rightarrow> float8 \<Rightarrow> float8) \<Rightarrow> sdata \<Rightarrow> float8 \<Rightarrow> sdata res" where
  "pow_sdata_by_scalar pow s scalar = map_sdata_values (\<lambda>v. pow v scalar) (makeSparseDataCopy s)"

definition valsquare :: "float8 \<Rightarrow> float8" where "valsquare v = f64_mul v v"
definition valcube :: "float8 \<Rightarrow> float8" where "valcube v = f64_mul v (valsquare v)"
definition valquad :: "float8 \<Rightarrow> float8" where "valquad v = valsquare (valsquare v)"

definition square_sdata :: "sdata \<Rightarrow> sdata res" where
  "square_sdata s = map_sdata_values valsquare (makeSparseDataCopy s)"

definition cube_sdata :: "sdata \<Rightarrow> sdata res" where
  "cube_sdata s = map_sdata_values valcube (makeSparseDataCopy s)"

definition quad_sdata :: "sdata \<Rightarrow> sdata res" where
  "quad_sdata s = map_sdata_values valquad (makeSparseDataCopy s)"

section \<open>Comparison\<close>

text \<open>
  \<open>sparsedata_eq\<close>: for one run \<open>v\<close> of the left operand, which ends at \<open>read\<close>, the inner loop
  compares the runs of the right operand that overlap it.  It returns \<open>None\<close> at a difference and
  otherwise the new \<open>rread\<close>, \<open>rvid\<close> and \<open>rix\<close>.  \<open>vals\<close> holds \<open>unique_value_count\<close> elements.
\<close>

function eq_inner :: "sdata \<Rightarrow> float8 \<Rightarrow> int \<Rightarrow> int \<Rightarrow> nat \<Rightarrow> cursor \<Rightarrow> (int \<times> nat \<times> cursor) option res" where
  "eq_inner right v read rread rvid rix =
     rbind (nth_res (take (nat (unique_value_count right)) (vals right)) (int rvid)) (\<lambda>rv.
       if v \<noteq> rv then Inr None
       else rbind (compword_to_int8 rix) (\<lambda>n.
         let rrun_length = to_int32 n in
         if rread + rrun_length > read then Inr (Some (rread, rvid, rix))
         else
           rbind (if int rvid < unique_value_count right
                  then rbind (advance rix) (\<lambda>rix. Inr (rix, rvid + 1)) else Inr (rix, rvid)) (\<lambda>(rix, rvid).
             if rread + rrun_length = read then Inr (Some (rread + rrun_length, rvid, rix))
             else eq_inner right v read (rread + rrun_length) rvid rix)))"
  by auto
termination
  by (relation "measure (\<lambda>(right, v, read, rread, rvid, rix). nat (unique_value_count right) - rvid)")
    (auto simp: nth_res_def rbind_eq_Inr_iff split: if_splits)

declare eq_inner.simps [simp del]

fun eq_outer :: "sdata \<Rightarrow> sdata \<Rightarrow> nat list \<Rightarrow> cursor \<Rightarrow> int \<Rightarrow> int \<times> nat \<times> cursor \<Rightarrow> bool res" where
  "eq_outer left right [] ix read st = Inr True"
| "eq_outer left right (i # is) ix read (rread, rvid, rix) =
     rbind (compword_to_int8 ix) (\<lambda>n.
     let read = to_int32 (read + n) in
     rbind (nth_res (vals left) (int i)) (\<lambda>v.
     rbind (eq_inner right v read rread rvid rix) (\<lambda>r.
       case r of
         None \<Rightarrow> Inr False
       | Some st \<Rightarrow> rbind (advance ix) (\<lambda>ix. eq_outer left right is ix read st))))"

definition sparsedata_eq :: "sdata \<Rightarrow> sdata \<Rightarrow> bool res" where
  "sparsedata_eq left right =
     (if total_value_count left \<noteq> total_value_count right then Inr False
      else eq_outer left right [0..<nat (unique_value_count left)] (index left) 0 (0, 0, index right))"

text \<open>
  The loop of \<open>sparsedata_eq_zero_is_equal\<close> and \<open>sparsedata_contains\<close>, which differ in the test
  \<open>differ\<close> on two overlapping elements.  \<open>i\<close> and \<open>j\<close> are the numbers of the runs read so far, one
  more than the subscripts of the code; reading \<open>vals[-1]\<close> is undefined.
\<close>

definition read_run :: "cursor \<Rightarrow> int \<Rightarrow> (cursor \<times> int) res" where
  "read_run ix read =
     rbind (compword_to_int8 ix) (\<lambda>n. rbind (advance ix) (\<lambda>ix. Inr (ix, to_int32 (read + to_int32 n))))"

definition compare_at :: "(float8 \<Rightarrow> float8 \<Rightarrow> bool) \<Rightarrow> sdata \<Rightarrow> sdata \<Rightarrow> nat \<Rightarrow> nat \<Rightarrow> bool res" where
  "compare_at differ left right i j =
     rbind (nth_res (vals left) (int i - 1)) (\<lambda>v.
     rbind (nth_res (vals right) (int j - 1)) (\<lambda>rv. Inr (differ v rv)))"

lemma read_run_decreases:
  assumes "read_run ix read = Inr (ix', read')" "read < m" "m < 2 ^ 31"
  shows "(case ix' of None \<Rightarrow> nat (m - read') | Some bs \<Rightarrow> length bs)
       < (case ix of None \<Rightarrow> nat (m - read) | Some bs \<Rightarrow> length bs)"
proof (cases ix)
  case None
  have "- (2 ^ 31) \<le> to_int32 (read + 1)" by (rule to_int32_range)
  then have "read < to_int32 (read + 1)"
    using assms(2,3) by (cases "- (2 ^ 31) \<le> read + 1") auto
  then show ?thesis
    using assms None by (auto simp: read_run_def compword_null)
next
  case (Some bs)
  then show ?thesis
    using assms(1) by (auto simp: read_run_def rbind_eq_Inr_iff dest!: advance_Some_length)
qed

function compare_loop :: "(float8 \<Rightarrow> float8 \<Rightarrow> bool) \<Rightarrow> sdata \<Rightarrow> sdata \<Rightarrow> int \<Rightarrow>
    cursor \<Rightarrow> int \<Rightarrow> nat \<Rightarrow> cursor \<Rightarrow> int \<Rightarrow> nat \<Rightarrow> bool res" where
  "compare_loop differ left right minimum ix read i rix rread j =
     (if \<not> (read < to_int32 minimum \<or> rread < to_int32 minimum) then Inr True
      else if read < rread then
        rbind (read_run ix read) (\<lambda>(ix, read).
        rbind (compare_at differ left right (i + 1) j) (\<lambda>d.
          if d then Inr False
          else compare_loop differ left right minimum ix read (i + 1) rix rread j))
      else if read > rread then
        rbind (read_run rix rread) (\<lambda>(rix, rread).
        rbind (compare_at differ left right i (j + 1)) (\<lambda>d.
          if d then Inr False
          else compare_loop differ left right minimum ix read i rix rread (j + 1)))
      else
        rbind (read_run ix read) (\<lambda>(ix, read).
        rbind (read_run rix rread) (\<lambda>(rix, rread).
        rbind (compare_at differ left right (i + 1) (j + 1)) (\<lambda>d.
          if d then Inr False
          else compare_loop differ left right minimum ix read (i + 1) rix rread (j + 1)))))"
  by auto
termination
proof (relation "measure (\<lambda>(differ, left, right, minimum, ix, read, i, rix, rread, j).
    (case ix of None \<Rightarrow> nat (to_int32 minimum - read) | Some bs \<Rightarrow> length bs) +
    (case rix of None \<Rightarrow> nat (to_int32 minimum - rread) | Some bs \<Rightarrow> length bs))", goal_cases)
  case (2 differ left right minimum ix read i rix rread j p ix' read' d)
  then show ?case
    using read_run_decreases[of ix read ix' read' "to_int32 minimum"] to_int32_range[of minimum] by auto
next
  case (3 differ left right minimum ix read i rix rread j p rix' rread' d)
  then show ?case
    using read_run_decreases[of rix rread rix' rread' "to_int32 minimum"] to_int32_range[of minimum] by auto
next
  case (4 differ left right minimum ix read i rix rread j p ix' read' q rix' rread' d)
  then show ?case
    using read_run_decreases[of ix read ix' read' "to_int32 minimum"] to_int32_range[of minimum]
      read_run_decreases[of rix rread rix' rread' "to_int32 minimum"] by auto
qed auto

declare compare_loop.simps [simp del]

definition differ_non_zero :: "float8 \<Rightarrow> float8 \<Rightarrow> bool" where
  "differ_non_zero v rv \<longleftrightarrow> v \<noteq> rv \<and> \<not> f64_eq v f64_zero \<and> \<not> f64_eq rv f64_zero"

definition sparsedata_eq_zero_is_equal :: "sdata \<Rightarrow> sdata \<Rightarrow> bool res" where
  "sparsedata_eq_zero_is_equal left right =
     (let minimum = (if total_value_count left > total_value_count right
                     then total_value_count right else total_value_count left)
      in compare_loop differ_non_zero left right minimum (index left) 0 0 (index right) 0 0)"

definition differ_right_non_zero :: "float8 \<Rightarrow> float8 \<Rightarrow> bool" where
  "differ_right_non_zero v rv \<longleftrightarrow> v \<noteq> rv \<and> \<not> f64_eq rv f64_zero"

definition sparsedata_contains :: "sdata \<Rightarrow> sdata \<Rightarrow> bool res" where
  "sparsedata_contains left right =
     (let lsize = total_value_count left; rsize = total_value_count right in
      rbind (if rsize > lsize
             then rbind (nth_res (vals right) (unique_value_count right - 1))
                    (\<lambda>rv. Inr (\<not> f64_eq rv f64_zero))
             else Inr False) (\<lambda>fails.
        if fails then Inr False
        else compare_loop differ_right_non_zero left right (if lsize > rsize then rsize else lsize)
               (index left) 0 0 (index right) 0 0))"

section \<open>Accumulation\<close>

definition myabs :: "float8 \<Rightarrow> float8" where
  "myabs x = (if f64_lt x f64_zero then f64_neg x else x)"

definition accum_sdata_values_double :: "sdata \<Rightarrow> (float8 \<Rightarrow> float8) \<Rightarrow> float8 res" where
  "accum_sdata_values_double s func =
     index_loop (\<lambda>i run_length accum. rbind (nth_res (vals s) (int i)) (\<lambda>v.
         Inr (f64_add accum (f64_mul (func v) (f64_of_int run_length)))))
       [0..<nat (unique_value_count s)] (index s) f64_zero"

definition sum_sdata_values_double :: "sdata \<Rightarrow> float8 res" where
  "sum_sdata_values_double s = accum_sdata_values_double s (\<lambda>x. x)"

definition l2norm_sdata_values_double :: "sdata \<Rightarrow> float8 res" where
  "l2norm_sdata_values_double s =
     rbind (accum_sdata_values_double s (\<lambda>x. f64_mul x x)) (\<lambda>x. Inr (f64_sqrt x))"

definition l1norm_sdata_values_double :: "sdata \<Rightarrow> float8 res" where
  "l1norm_sdata_values_double s = accum_sdata_values_double s myabs"

section \<open>Operations on two structures\<close>

text \<open>
  The loop of \<open>op_sdata_by_sdata\<close>.  The state holds the subscripts and cursors of both operands,
  where their current runs end (\<open>nxt\<close>), \<open>lastpos\<close>, the pending result value with its run
  length so far, and the result built so far; \<open>nextpos\<close> is \<open>Min(left_nxt, right_nxt)\<close>.
\<close>

record op_state =
  op_i :: nat
  op_j :: nat
  liptr :: cursor
  riptr :: cursor
  left_nxt :: int
  right_nxt :: int
  lastpos :: int
  last_new_value :: float8
  tot_run_length :: int
  op_result :: sdata

text \<open>The part of the body that computes a value and stores the pending run when it changes.\<close>

definition op_emit :: "float8 \<Rightarrow> op_state \<Rightarrow> op_state res" where
  "op_emit new_value st =
     (let st = (if tot_run_length st = -1 then st\<lparr>last_new_value := new_value, tot_run_length := 0\<rparr> else st);
          nextpos = min (left_nxt st) (right_nxt st)
      in rbind (if new_value \<noteq> last_new_value st
                then rbind (add_run_to_sdata (last_new_value st) (tot_run_length st) (op_result st))
                       (\<lambda>r. Inr (st\<lparr>op_result := r, tot_run_length := 0, last_new_value := new_value\<rparr>))
                else Inr st) (\<lambda>st.
           Inr (st\<lparr>tot_run_length := tot_run_length st + (nextpos - lastpos st)\<rparr>)))"

text \<open>The part that moves on to the next run of the left, the right, or both operands.\<close>

definition op_advance :: "op_state \<Rightarrow> op_state res" where
  "op_advance st =
     (let nextpos = min (left_nxt st) (right_nxt st);
          move_left = left_nxt st = right_nxt st \<or> nextpos = left_nxt st;
          move_right = left_nxt st = right_nxt st \<or> nextpos \<noteq> left_nxt st
      in rbind (if move_left then advance (liptr st) else Inr (liptr st)) (\<lambda>l.
         rbind (if move_right then advance (riptr st) else Inr (riptr st)) (\<lambda>r.
         rbind (compword_to_int8 l) (\<lambda>left_run_length.
         rbind (compword_to_int8 r) (\<lambda>right_run_length.
           Inr (st\<lparr>op_i := (if move_left then op_i st + 1 else op_i st),
                  op_j := (if move_right then op_j st + 1 else op_j st), liptr := l, riptr := r,
                  left_nxt := (if move_left then to_int32 left_run_length + left_nxt st else left_nxt st),
                  right_nxt := (if move_right then to_int32 right_run_length + right_nxt st else right_nxt st),
                  lastpos := nextpos\<rparr>))))))"

lemma op_emit_cursor: "op_emit v st = Inr st' \<Longrightarrow> op_i st' = op_i st \<and> op_j st' = op_j st"
  by (auto simp: op_emit_def Let_def rbind_eq_Inr_iff split: if_splits)

lemma op_advance_cursor:
  "op_advance st = Inr st' \<Longrightarrow> op_i st \<le> op_i st' \<and> op_j st \<le> op_j st' \<and>
     op_i st + op_j st < op_i st' + op_j st'"
  by (auto simp: op_advance_def Let_def rbind_eq_Inr_iff split: if_splits)

function op_loop :: "operation_t \<Rightarrow> sdata \<Rightarrow> sdata \<Rightarrow> op_state \<Rightarrow> sdata res" where
  "op_loop operation left right st =
     rbind (nth_res (vals left) (int (op_i st))) (\<lambda>x.
     rbind (nth_res (vals right) (int (op_j st))) (\<lambda>y.
       let new_value = float8_op operation x y in
       rbind (op_emit new_value st) (\<lambda>st.
         if left_nxt st = right_nxt st \<and> left_nxt st = total_value_count left
         then (if tot_run_length st \<noteq> 0
               then add_run_to_sdata new_value (tot_run_length st) (op_result st)
               else Inr (op_result st))
         else rbind (op_advance st) (op_loop operation left right))))"
  by auto
termination
  by (relation "measure (\<lambda>(operation, left, right, st).
      (length (vals left) - op_i st) + (length (vals right) - op_j st))")
    (auto simp: nth_res_def split: if_splits dest!: op_emit_cursor op_advance_cursor)

declare op_loop.simps [simp del]

definition op_sdata_by_sdata :: "operation_t \<Rightarrow> sdata \<Rightarrow> sdata \<Rightarrow> sdata res" where
  "op_sdata_by_sdata operation left right =
     rbind (compword_to_int8 (index left)) (\<lambda>left_run_length.
     rbind (compword_to_int8 (index right)) (\<lambda>right_run_length.
     rbind (check_sdata_dimensions left right) (\<lambda>_.
     rbind (guard_mem (type_of_data left = FLOAT8OID)) (\<lambda>_.
     rbind (op_loop operation left right
       \<lparr>op_i = 0, op_j = 0, liptr = index left, riptr = index right,
        left_nxt = to_int32 left_run_length, right_nxt = to_int32 right_run_length, lastpos = 0,
        last_new_value = f64_zero, tot_run_length = -1, op_result = makeSparseData\<rparr>) (\<lambda>s.
       Inr (s\<lparr>type_of_data := type_of_data left\<rparr>))))))"

end
