(* ===== verification/Svec.thy ===== *)
theory Svec
  imports SparseOps
begin

text \<open>
  The sparse vector type and its input and output, \<open>methods/svec/src/pg_gp/sparse_vector.{h,c}\<close>.

  An \<open>SvecType\<close> is the header field \<open>dimension\<close> (-1 for a scalar) and the serialised
  \<open>SparseData\<close>; of the two serialised StringInfos the \<open>maxlen\<close> and the \<open>cursor\<close> of the index are
  kept because the aggregate \<open>svec_pivot\<close> appends in place.  An argument that may be SQL NULL, and
  a result that may be, is an \<open>option\<close>.
\<close>

record svec =
  dimension :: int
  serial :: sdata
  vals_maxlen :: int
  index_maxlen :: int
  index_cursor :: int

section \<open>Serialisation\<close>

definition vals_len :: "sdata \<Rightarrow> int" where
  "vals_len s = 8 * int (length (vals s))"

definition index_len :: "sdata \<Rightarrow> int" where
  "index_len s = int (length (index_bytes (index s)))"

text \<open>
  \<open>svec_from_sparsedata(sdata, false)\<close> with the \<open>maxlen\<close> of both StringInfos; with \<open>trim\<close> set the
  code first sets them to the lengths.
\<close>

definition svec_from_sparsedata_untrimmed :: "sdata \<Rightarrow> int \<Rightarrow> int \<Rightarrow> int \<Rightarrow> svec" where
  "svec_from_sparsedata_untrimmed s vmax imax cur =
     \<lparr>dimension = (if total_value_count s = 1 then -1 else total_value_count s),
      serial = s, vals_maxlen = vmax, index_maxlen = imax, index_cursor = cur\<rparr>"

definition svec_from_sparsedata :: "sdata \<Rightarrow> svec" where
  "svec_from_sparsedata s = svec_from_sparsedata_untrimmed s (vals_len s) (index_len s) 0"

definition sdata_from_svec :: "svec \<Rightarrow> sdata" where
  "sdata_from_svec sv = (serial sv)
     \<lparr>index := (if index_maxlen sv = 0 then None else Some (index_bytes (index (serial sv))))\<rparr>"

definition IS_SCALAR :: "svec \<Rightarrow> bool" where
  "IS_SCALAR sv \<longleftrightarrow> dimension sv < 0"

definition SDATA_IS_SCALAR :: "sdata \<Rightarrow> bool" where
  "SDATA_IS_SCALAR s \<longleftrightarrow> unique_value_count s = total_value_count s \<and> total_value_count s = 1"

definition check_scalar :: "bool \<Rightarrow> bool \<Rightarrow> nat" where
  "check_scalar i1 i2 = (if \<not> i1 \<and> \<not> i2 then 0 else if i1 \<and> i2 then 3 else if i1 then 1 else 2)"

definition svec_from_float8arr :: "float8 list \<Rightarrow> int \<Rightarrow> svec res" where
  "svec_from_float8arr array dim =
     rbind (float8arr_to_sdata array dim) (\<lambda>s. Inr (svec_from_sparsedata s))"

definition svec_make_scalar :: "float8 \<Rightarrow> svec res" where
  "svec_make_scalar value =
     rbind (float8arr_to_sdata [value] 1) (\<lambda>s. Inr ((svec_from_sparsedata s)\<lparr>dimension := -1\<rparr>))"

definition makeEmptySvec :: "int \<Rightarrow> svec" where
  "makeEmptySvec allocation =
     svec_from_sparsedata_untrimmed makeEmptySparseData (8 * allocation + 1) (9 * allocation + 1) 0"

text \<open>\<open>sizeof(int8)\<close> is 1: the server defines \<open>int8\<close> as \<open>signed char\<close>.\<close>

definition reallocSvec :: "svec \<Rightarrow> svec" where
  "reallocSvec source =
     (let s = sdata_from_svec source;
          val_newmaxlen = max (2 * 8 + 1) (2 * vals_maxlen source);
          ind_newmaxlen = max (2 * 1 + 1) (2 * index_maxlen source)
      in svec_from_sparsedata_untrimmed (s\<lparr>index := Some (index_bytes (index s))\<rparr>)
           val_newmaxlen ind_newmaxlen (index_cursor source))"

definition svec_return_array_internal :: "svec \<Rightarrow> float8 list res" where
  "svec_return_array_internal sv = sdata_to_float8arr (sdata_from_svec sv)"

section \<open>Binary messages\<close>

text \<open>\<open>pq_sendint\<close> of 4 bytes (big-endian), and the bytes of a double in memory (little-endian).\<close>

definition pq_sendint4 :: "int \<Rightarrow> byte list" where
  "pq_sendint4 n = (let w = word_of_int n :: 32 word in
     [ucast (drop_bit 24 w), ucast (drop_bit 16 w), ucast (drop_bit 8 w), ucast w])"

definition float8_bytes :: "float8 \<Rightarrow> byte list" where
  "float8_bytes w = [ucast w, ucast (drop_bit 8 w), ucast (drop_bit 16 w), ucast (drop_bit 24 w),
     ucast (drop_bit 32 w), ucast (drop_bit 40 w), ucast (drop_bit 48 w), ucast (drop_bit 56 w)]"

definition svec_send :: "svec \<Rightarrow> byte list" where
  "svec_send sv = (let s = sdata_from_svec sv in
     pq_sendint4 (int (type_of_data s)) @ pq_sendint4 (unique_value_count s) @
     pq_sendint4 (total_value_count s) @ pq_sendint4 (vals_len s) @ pq_sendint4 (index_len s) @
     concat (map float8_bytes (vals s)) @ index_bytes (index s))"

definition pq_getmsgbytes :: "int \<Rightarrow> byte list \<Rightarrow> (byte list \<times> byte list) res" where
  "pq_getmsgbytes n buf =
     rbind (check (0 \<le> n \<and> n \<le> int (length buf)) ''insufficient data left in message'') (\<lambda>_.
       Inr (take (nat n) buf, drop (nat n) buf))"

definition pq_getmsgint4 :: "byte list \<Rightarrow> (int \<times> byte list) res" where
  "pq_getmsgint4 buf =
     rbind (pq_getmsgbytes 4 buf) (\<lambda>(bs, buf). Inr (sint (load32 (rev bs)), buf))"

text \<open>The \<open>vals\<close> bytes as doubles; a length that is not a multiple of 8 has no such reading.\<close>

fun doubles_of :: "byte list \<Rightarrow> float8 list res" where
  "doubles_of [] = Inr []"
| "doubles_of (a # b # c # d # e # f # g # h # bs) =
     rbind (doubles_of bs) (\<lambda>vs. Inr (load64 [a, b, c, d, e, f, g, h] # vs))"
| "doubles_of _ = Inl Undefined"

definition svec_recv :: "byte list \<Rightarrow> svec res" where
  "svec_recv buf =
     rbind (pq_getmsgint4 buf) (\<lambda>(type, buf).
     rbind (pq_getmsgint4 buf) (\<lambda>(uvc, buf).
     rbind (pq_getmsgint4 buf) (\<lambda>(tvc, buf).
     rbind (pq_getmsgint4 buf) (\<lambda>(vlen, buf).
     rbind (pq_getmsgint4 buf) (\<lambda>(ilen, buf).
     rbind (pq_getmsgbytes vlen buf) (\<lambda>(vbytes, buf).
     rbind (pq_getmsgbytes ilen buf) (\<lambda>(ibytes, buf).
     rbind (doubles_of vbytes) (\<lambda>vs.
       Inr (svec_from_sparsedata (makeEmptySparseData\<lparr>type_of_data := nat (type mod 2 ^ 32),
         unique_value_count := uvc, total_value_count := tvc, vals := vs, index := Some ibytes\<rparr>))))))))))"

section \<open>Minimum and maximum\<close>

text \<open>\<open>Min(x, y)\<close> is \<open>x < y ? x : y\<close> and \<open>Max(x, y)\<close> is \<open>x > y ? x : y\<close>.\<close>

fun float8_min :: "float8 option \<Rightarrow> float8 option \<Rightarrow> float8 option" where
  "float8_min None r = r"
| "float8_min (Some l) None = Some l"
| "float8_min (Some l) (Some r) = Some (if f64_lt l r then l else r)"

fun float8_max :: "float8 option \<Rightarrow> float8 option \<Rightarrow> float8 option" where
  "float8_max None r = r"
| "float8_max (Some l) None = Some l"
| "float8_max (Some l) (Some r) = Some (if f64_lt r l then l else r)"

section \<open>Server arrays\<close>

text \<open>
  A one-dimensional view of a PostgreSQL array: element type, dimensions, the null bitmap when there is one
  (a set bit marks an element that is present; the server stores the present elements only), and
  the stored elements.
\<close>

record 'a pgarray =
  elemtype :: nat
  dims :: "int list"
  nullbitmap :: "byte list option"
  elems :: "'a list"

definition INT8OID :: nat where "INT8OID = 20"

definition ARR_NDIM :: "'a pgarray \<Rightarrow> int" where
  "ARR_NDIM a = int (length (dims a))"

text \<open>\<open>ArrayGetNItems\<close>: the product of the dimensions, 0 for an array of no dimension.\<close>

definition ArrayGetNItems :: "'a pgarray \<Rightarrow> int" where
  "ArrayGetNItems a = (if dims a = [] then 0 else prod_list (dims a))"

text \<open>
  The loop that turns NULL elements into \<open>NVP\<close>, which \<open>svec_in_internal\<close>, \<open>svec_cast_float8arr\<close> and
  \<open>sdata_uncompressed_from_float8arr_internal\<close> repeat: \<open>bitmask\<close> runs over the bits of the byte at
  \<open>bitmap\<close>, \<open>vals_temp\<close> is what is left of the stored elements.
\<close>

fun nulls_to_nvp :: "nat \<Rightarrow> byte list \<Rightarrow> int \<Rightarrow> float8 list \<Rightarrow> float8 list res" where
  "nulls_to_nvp 0 bitmap bitmask vals_temp = Inr []"
| "nulls_to_nvp (Suc n) [] bitmask vals_temp = Inl Undefined"
| "nulls_to_nvp (Suc n) (b # bitmap) bitmask vals_temp =
     (let bitmap' = (if bitmask * 2 = 0x100 then bitmap else b # bitmap);
          bitmask' = (if bitmask * 2 = 0x100 then 1 else bitmask * 2)
      in if uint b AND bitmask = 0
         then rbind (nulls_to_nvp n bitmap' bitmask' vals_temp) (\<lambda>vs. Inr (NVP # vs))
         else case vals_temp of
                [] \<Rightarrow> Inl Undefined
              | v # vs \<Rightarrow> rbind (nulls_to_nvp n bitmap' bitmask' vs) (\<lambda>vs. Inr (v # vs)))"

definition array_values :: "float8 pgarray \<Rightarrow> int \<Rightarrow> float8 list res" where
  "array_values a n =
     (case nullbitmap a of
        Some bitmap \<Rightarrow> nulls_to_nvp (nat n) bitmap 1 (elems a)
      | None \<Rightarrow> rbind (guard_mem (n \<le> int (length (elems a)))) (\<lambda>_. Inr (take (nat n) (elems a))))"

section \<open>Text input and output\<close>

text \<open>
  \<open>svec_in_internal\<close> splits the string at the first colon and gives the two parts to the server's
  \<open>array_in\<close> for \<open>int8\<close> and \<open>float8\<close> elements, the parameters \<open>array_in_int8\<close> and \<open>array_in_float8\<close>.
\<close>

fun count_step :: "int \<Rightarrow> byte list \<times> int \<Rightarrow> (byte list \<times> int) res" where
  "count_step n (ix, tvc) =
     rbind (check (\<not> n \<le> 0) ''Non-positive run length in input'') (\<lambda>_.
     rbind (append_to_rle_index ix n) (\<lambda>ix.
       Inr (ix, to_int32 (tvc + n))))"

definition svec_in_internal :: "(string \<Rightarrow> int pgarray res) \<Rightarrow> (string \<Rightarrow> float8 pgarray res) \<Rightarrow> string \<Rightarrow> svec res" where
  "svec_in_internal array_in_int8 array_in_float8 str =
     rbind (check (CHR '':'' \<in> set str) ''Invalid input string for svec'') (\<lambda>_.
     rbind (array_in_int8 (takeWhile (\<lambda>c. c \<noteq> CHR '':'') str)) (\<lambda>ix.
     rbind (array_in_float8 (tl (dropWhile (\<lambda>c. c \<noteq> CHR '':'') str))) (\<lambda>va.
     rbind (check (\<not> (ARR_NDIM ix = 0 \<or> ARR_NDIM va = 0))
              ''The count and value arrays must be non-empty'') (\<lambda>_.
     let num_values = hd (dims ix) in
     rbind (check (num_values = hd (dims va)) ''Unique value count not equal to run length count'') (\<lambda>_.
     rbind (check (nullbitmap ix = None) ''NULL value in the count array.'') (\<lambda>_.
     rbind (array_values va num_values) (\<lambda>vs.
     rbind (mapM (\<lambda>i. nth_res (elems ix) (int i)) [0..<nat num_values]) (\<lambda>u_index.
     rbind (foldM count_step u_index ([], 0)) (\<lambda>(rle, tvc).
       let sv = svec_from_sparsedata (makeInplaceSparseData vs (Some rle) FLOAT8OID num_values tvc)
       in Inr (if tvc = 1 then sv\<lparr>dimension := -1\<rparr> else sv))))))))))"

text \<open>
  \<open>svec_out_internal\<close> formats the two arrays with the server's \<open>array_out\<close> and overwrites the two
  characters after every \<open>N\<close> of the value string, so that \<open>NaN\<close> prints as \<open>NVP\<close>.
\<close>

fun nan_to_nvp :: "string \<Rightarrow> string res" where
  "nan_to_nvp [] = Inr []"
| "nan_to_nvp (c # cs) =
     (if c = CHR ''N''
      then (case cs of a # b # ds \<Rightarrow> rbind (nan_to_nvp ds) (\<lambda>r. Inr (''NVP'' @ r)) | _ \<Rightarrow> Inl Undefined)
      else rbind (nan_to_nvp cs) (\<lambda>r. Inr (c # r)))"

definition svec_out_internal :: "(int list \<Rightarrow> string) \<Rightarrow> (float8 list \<Rightarrow> string) \<Rightarrow> svec \<Rightarrow> string res" where
  "svec_out_internal array_out_int8 array_out_float8 sv =
     (let s = sdata_from_svec sv in
      rbind (sdata_index_to_int64arr s) (\<lambda>array_ix.
      rbind (guard_mem (unique_value_count s \<le> int (length (vals s)))) (\<lambda>_.
      rbind (nan_to_nvp (array_out_float8 (take (nat (unique_value_count s)) (vals s)))) (\<lambda>vals_string.
        Inr (array_out_int8 array_ix @ '':'' @ vals_string)))))"

section \<open>Unnesting\<close>

text \<open>The context \<open>svec_unnest\<close> keeps between calls; every call returns the next element.\<close>

record unnest_fctx =
  u_sdata :: sdata
  u_dimension :: int
  absolute_value_position :: int
  unique_value_position :: nat
  run_position :: int
  index_position :: cursor

definition unnest_first :: "svec \<Rightarrow> unnest_fctx" where
  "unnest_first sv =
     (let s = sdata_from_svec sv in
      \<lparr>u_sdata = s, u_dimension = (if dimension sv = -1 then 1 else dimension sv),
       absolute_value_position = 0, unique_value_position = 0, run_position = 1,
       index_position = index s\<rparr>)"

definition unnest_next :: "unnest_fctx \<Rightarrow> (float8 option \<times> unnest_fctx) option res" where
  "unnest_next fctx =
     rbind (compword_to_int8 (index_position fctx)) (\<lambda>n.
     let run_length = to_int32 n in
     if u_dimension fctx > absolute_value_position fctx then
       rbind (nth_res (vals (u_sdata fctx)) (int (unique_value_position fctx))) (\<lambda>result.
       let fctx = fctx\<lparr>absolute_value_position := absolute_value_position fctx + 1,
                      run_position := run_position fctx + 1\<rparr> in
       rbind (if run_position fctx > run_length
              then rbind (advance (index_position fctx)) (\<lambda>ix.
                     Inr (fctx\<lparr>run_position := 1,
                               unique_value_position := unique_value_position fctx + 1,
                               index_position := ix\<rparr>))
              else Inr fctx) (\<lambda>fctx.
         Inr (Some (if IS_NVP result then None else Some result, fctx))))
     else Inr None)"

text \<open>The rows produced by the first \<open>n\<close> calls.\<close>

fun unnest_rows :: "nat \<Rightarrow> unnest_fctx \<Rightarrow> (float8 option list \<times> unnest_fctx) res" where
  "unnest_rows 0 fctx = Inr ([], fctx)"
| "unnest_rows (Suc n) fctx =
     rbind (unnest_next fctx) (\<lambda>r.
       case r of
         None \<Rightarrow> Inr ([], fctx)
       | Some (row, fctx) \<Rightarrow> rbind (unnest_rows n fctx) (\<lambda>(rows, fctx). Inr (row # rows, fctx)))"

end
