(* ===== verification/SparseEigen.thy ===== *)
theory SparseEigen
  imports Svec
begin

text \<open>
  The conversions between the run-length encoded sparse vectors and the sparse vectors of Eigen,
  \<open>src/ports/postgres/dbconnector/SparseVector_impl.hpp\<close>.

  Of an \<open>Eigen::SparseVector<double>\<close> the code uses its size, the number of stored entries and
  the two arrays of their positions and values (\<open>None\<close> is the null pointer), and builds one with
  \<open>insertBack\<close>, which appends an entry.  \<open>runLength\<close> and the positions are C \<open>int\<close>s: a position that
  leaves their range is undefined behaviour.
\<close>

record eigen_svec =
  es_size :: int
  nonZeros :: int
  valuePtr :: "float8 list option"
  innerIndexPtr :: "int list option"

definition eigen_svec_new :: "int \<Rightarrow> eigen_svec" where
  "eigen_svec_new n = \<lparr>es_size = n, nonZeros = 0, valuePtr = None, innerIndexPtr = None\<rparr>"

definition es_values :: "eigen_svec \<Rightarrow> float8 list" where
  "es_values e = (case valuePtr e of None \<Rightarrow> [] | Some xs \<Rightarrow> xs)"

definition es_indices :: "eigen_svec \<Rightarrow> int list" where
  "es_indices e = (case innerIndexPtr e of None \<Rightarrow> [] | Some xs \<Rightarrow> xs)"

definition insertBack :: "int \<Rightarrow> float8 \<Rightarrow> eigen_svec \<Rightarrow> eigen_svec" where
  "insertBack i v e = e\<lparr>nonZeros := nonZeros e + 1, valuePtr := Some (es_values e @ [v]),
     innerIndexPtr := Some (es_indices e @ [i])\<rparr>"

section \<open>From run lengths to entries\<close>

text \<open>The inner loop: a nonzero value is inserted at the next \<open>n\<close> positions.\<close>

primrec insert_values :: "float8 \<Rightarrow> nat \<Rightarrow> int \<times> eigen_svec \<Rightarrow> (int \<times> eigen_svec) res" where
  "insert_values v 0 st = Inr st"
| "insert_values v (Suc n) st =
     (case st of (logicalIdx, vec) \<Rightarrow>
        rbind (guard_mem (logicalIdx + 1 < 2 ^ 31)) (\<lambda>_.
          insert_values v n (logicalIdx + 1, insertBack logicalIdx v vec)))"

definition run_to_entries :: "sdata \<Rightarrow> nat \<Rightarrow> int \<Rightarrow> int \<times> eigen_svec \<Rightarrow> (int \<times> eigen_svec) res" where
  "run_to_entries s physicalIdx runLength st =
     rbind (nth_res (vals s) (int physicalIdx)) (\<lambda>v.
       if f64_eq v f64_zero then Inr (to_int32 (fst st + runLength), snd st)
       else insert_values v (nat runLength) st)"

definition LegacySparseVectorToSparseColumnVector :: "svec \<Rightarrow> eigen_svec res" where
  "LegacySparseVectorToSparseColumnVector inVec =
     (let s = sdata_from_svec inVec
      in rbind (index_loop (run_to_entries s) [0..<nat (unique_value_count s)] (index s)
                  (0, eigen_svec_new (total_value_count s))) (\<lambda>(_, vec). Inr vec))"

section \<open>From entries to run lengths\<close>

text \<open>
  \<open>entry_runs\<close> is the loop over the entries from the second on; \<open>runValue\<close> starts a run where its
  bits differ from those of the running value.
\<close>

definition read_ptr :: "'a list option \<Rightarrow> int \<Rightarrow> 'a res" where
  "read_ptr p i = (case p of None \<Rightarrow> Inl Undefined | Some xs \<Rightarrow> nth_res xs i)"

type_synonym run_state = "float8 \<times> int \<times> sdata"

definition first_entry :: "eigen_svec \<Rightarrow> run_state res" where
  "first_entry inVec =
     (if nonZeros inVec > 0 then
        rbind (read_ptr (innerIndexPtr inVec) 0) (\<lambda>i.
        rbind (read_ptr (valuePtr inVec) 0) (\<lambda>v.
          if i = 0 then Inr (v, 0, makeSparseData)
          else if v \<noteq> f64_zero then
            rbind (add_run_to_sdata f64_zero i makeSparseData) (\<lambda>s. Inr (v, i, s))
          else Inr (f64_zero, 0, makeSparseData)))
      else Inr (f64_zero, 0, makeSparseData))"

definition entry_run :: "eigen_svec \<Rightarrow> nat \<Rightarrow> run_state \<Rightarrow> run_state res" where
  "entry_run inVec k st =
     (case st of (runValue, lastIndex, s) \<Rightarrow>
        rbind (read_ptr (valuePtr inVec) (int k)) (\<lambda>v.
        rbind (read_ptr (innerIndexPtr inVec) (int k)) (\<lambda>i.
          if v \<noteq> runValue then
            rbind (add_run_to_sdata runValue (i - lastIndex) s) (\<lambda>s. Inr (v, i, s))
          else Inr (runValue, lastIndex, s))))"

definition SparseColumnVectorToLegacySparseVector :: "eigen_svec \<Rightarrow> svec res" where
  "SparseColumnVectorToLegacySparseVector inVec =
     rbind (check (nonZeros inVec = 0 \<or> innerIndexPtr inVec \<noteq> None \<and> valuePtr inVec \<noteq> None)
              ''Missing values or indices in Eigen sparse vector.'') (\<lambda>_.
     rbind (first_entry inVec) (\<lambda>st.
     rbind (foldM (entry_run inVec) [1..<nat (nonZeros inVec)] st) (\<lambda>(runValue, lastIndex, s).
     rbind (add_run_to_sdata runValue (es_size inVec - lastIndex) s) (\<lambda>s.
       Inr (svec_from_sparsedata
         (s\<lparr>unique_value_count := int (length (vals s)),
            total_value_count := to_int32 (es_size inVec)\<rparr>))))))"

end
