(* ===== verification/SvecOps.thy ===== *)
theory SvecOps
  imports Svec
begin

text \<open>
  The operators on sparse vectors and on \<open>float8[]\<close> of \<open>methods/svec/src/pg_gp/operators.c\<close>, up to
  the hash functions; the aggregates are in \<open>SvecAgg\<close>.  Functions of the C library (\<open>pow\<close>, \<open>log\<close>,
  \<open>acos\<close>) and of the server are parameters.
\<close>

definition null_if_nvp :: "float8 \<Rightarrow> float8 option" where
  "null_if_nvp x = (if IS_NVP x then None else Some x)"

definition check_dimension :: "svec \<Rightarrow> svec \<Rightarrow> string \<Rightarrow> unit res" where
  "check_dimension svec1 svec2 msg =
     check (\<not> (\<not> IS_SCALAR svec1 \<and> \<not> IS_SCALAR svec2 \<and> dimension svec1 \<noteq> dimension svec2)) msg"

definition svec_svec_dot_product :: "svec \<Rightarrow> svec \<Rightarrow> float8 res" where
  "svec_svec_dot_product svec1 svec2 =
     (let left = sdata_from_svec svec1; right = sdata_from_svec svec2 in
      rbind (check_dimension svec1 svec2 ''svec_svec_dot_product'') (\<lambda>_.
      rbind (op_sdata_by_sdata Multiply left right) sum_sdata_values_double))"

definition svec_dimension :: "svec \<Rightarrow> int" where
  "svec_dimension sv = (if dimension sv = -1 then 1 else dimension sv)"

section \<open>Structural functions\<close>

definition svec_lapply :: "('n \<Rightarrow> (nat \<times> (float8 \<Rightarrow> float8 res)) res) \<Rightarrow> 'n option \<Rightarrow> svec option \<Rightarrow> svec option res" where
  "svec_lapply lookup func sv =
     (case (func, sv) of
        (Some f, Some v) \<Rightarrow> rbind (lapply lookup f (sdata_from_svec v)) (\<lambda>s. Inr (Some (svec_from_sparsedata s)))
      | _ \<Rightarrow> Inr None)"

definition svec_concat_replicate :: "int \<Rightarrow> svec \<Rightarrow> svec res" where
  "svec_concat_replicate multiplier sv =
     rbind (check (\<not> multiplier < 0) ''multiplier cannot be negative'') (\<lambda>_.
       case concat_replicate (Some (sdata_from_svec sv)) multiplier of
         Some s \<Rightarrow> Inr (svec_from_sparsedata s) | None \<Rightarrow> Inl Undefined)"

fun svec_concat :: "svec option \<Rightarrow> svec option \<Rightarrow> svec option res" where
  "svec_concat None (Some r) = Inr (Some r)"
| "svec_concat None None = Inr None"
| "svec_concat (Some l) None = Inr (Some l)"
| "svec_concat (Some l) (Some r) =
     (case sdata_concat (Some (sdata_from_svec l)) (Some (sdata_from_svec r)) of
        Some s \<Rightarrow> Inr (Some (svec_from_sparsedata s)) | None \<Rightarrow> Inl Undefined)"

definition svec_append :: "svec option \<Rightarrow> float8 option \<Rightarrow> int option \<Rightarrow> svec res" where
  "svec_append sv newele run_len =
     rbind (check (run_len \<noteq> None) ''count argument cannot be null'') (\<lambda>_.
     let newele = (case newele of None \<Rightarrow> NVP | Some v \<Rightarrow> v);
         s = (case sv of None \<Rightarrow> makeSparseData | Some v \<Rightarrow> makeSparseDataCopy (sdata_from_svec v))
     in rbind (add_run_to_sdata newele (the run_len) s) (\<lambda>s. Inr (svec_from_sparsedata s)))"

definition svec_proj :: "svec option \<Rightarrow> int \<Rightarrow> float8 option res" where
  "svec_proj sv idx =
     (case sv of
        None \<Rightarrow> Inr None
      | Some v \<Rightarrow> rbind (sd_proj (sdata_from_svec v) idx) (\<lambda>ret. Inr (null_if_nvp ret)))"

definition svec_subvec :: "svec option \<Rightarrow> int \<Rightarrow> int \<Rightarrow> svec option res" where
  "svec_subvec sv start end =
     (case sv of
        None \<Rightarrow> Inr None
      | Some v \<Rightarrow> rbind (subarr (sdata_from_svec v) start end) (\<lambda>s. Inr (Some (svec_from_sparsedata s))))"

definition svec_reverse :: "svec option \<Rightarrow> svec option res" where
  "svec_reverse sv =
     (case sv of
        None \<Rightarrow> Inr None
      | Some v \<Rightarrow> rbind (reverse (sdata_from_svec v)) (\<lambda>s. Inr (Some (svec_from_sparsedata s))))"

definition svec_change :: "svec \<Rightarrow> int \<Rightarrow> svec \<Rightarrow> svec res" where
  "svec_change in_svec idx changed =
     (let indata = sdata_from_svec in_svec; middle = sdata_from_svec changed;
          inlen = total_value_count indata; midlen = total_value_count middle
      in rbind (check (\<not> (idx < 1 \<or> idx > inlen)) ''Invalid start index'') (\<lambda>_.
         rbind (check (\<not> idx + midlen - 1 > inlen) ''Change vector is too long'') (\<lambda>_.
         rbind (if idx \<ge> 2 then rbind (subarr indata 1 (idx - 1)) (\<lambda>s. Inr (Some s)) else Inr None) (\<lambda>head.
         rbind (if idx + midlen \<le> inlen
                then rbind (subarr indata (idx + midlen) inlen) (\<lambda>s. Inr (Some s)) else Inr None) (\<lambda>tail.
           let ret = (case (head, tail) of
               (None, None) \<Rightarrow> Some (makeSparseDataCopy middle)
             | (None, Some t) \<Rightarrow> sdata_concat (Some middle) (Some t)
             | (Some h, None) \<Rightarrow> sdata_concat (Some h) (Some middle)
             | (Some h, Some t) \<Rightarrow> sdata_concat (sdata_concat (Some h) (Some middle)) (Some t))
           in case ret of Some s \<Rightarrow> Inr (svec_from_sparsedata s) | None \<Rightarrow> Inl Undefined)))))"

section \<open>Comparison\<close>

definition svec_eq :: "svec \<Rightarrow> svec \<Rightarrow> bool res" where
  "svec_eq svec1 svec2 = sparsedata_eq (sdata_from_svec svec1) (sdata_from_svec svec2)"

definition svec_eq_non_zero :: "svec \<Rightarrow> svec \<Rightarrow> bool res" where
  "svec_eq_non_zero svec1 svec2 = sparsedata_eq_zero_is_equal (sdata_from_svec svec1) (sdata_from_svec svec2)"

definition svec_contains :: "svec \<Rightarrow> svec \<Rightarrow> bool res" where
  "svec_contains svec1 svec2 = sparsedata_contains (sdata_from_svec svec1) (sdata_from_svec svec2)"

text \<open>The comparison by magnitude returns -5 when a magnitude is \<open>NVP\<close>.\<close>

definition svec_l2_cmp_internal :: "svec \<Rightarrow> svec \<Rightarrow> int res" where
  "svec_l2_cmp_internal svec1 svec2 =
     rbind (l2norm_sdata_values_double (sdata_from_svec svec1)) (\<lambda>magleft.
     rbind (l2norm_sdata_values_double (sdata_from_svec svec2)) (\<lambda>magright.
       Inr (if IS_NVP magleft \<or> IS_NVP magright then -5
            else if f64_lt magleft magright then -1
            else if f64_lt magright magleft then 1 else 0)))"

definition svec_l2_cmp :: "svec \<Rightarrow> svec \<Rightarrow> int option res" where
  "svec_l2_cmp svec1 svec2 =
     rbind (svec_l2_cmp_internal svec1 svec2) (\<lambda>r. Inr (if r = -5 then None else Some r))"

definition svec_l2_lt :: "svec \<Rightarrow> svec \<Rightarrow> bool option res" where
  "svec_l2_lt svec1 svec2 =
     rbind (svec_l2_cmp_internal svec1 svec2) (\<lambda>r. Inr (if r = -5 then None else Some (r = -1)))"

definition svec_l2_le :: "svec \<Rightarrow> svec \<Rightarrow> bool option res" where
  "svec_l2_le svec1 svec2 =
     rbind (svec_l2_cmp_internal svec1 svec2) (\<lambda>r. Inr (if r = -5 then None else Some (r = -1 \<or> r = 0)))"

definition svec_l2_eq :: "svec \<Rightarrow> svec \<Rightarrow> bool option res" where
  "svec_l2_eq svec1 svec2 =
     rbind (svec_l2_cmp_internal svec1 svec2) (\<lambda>r. Inr (if r = -5 then None else Some (r = 0)))"

definition svec_l2_ne :: "svec \<Rightarrow> svec \<Rightarrow> bool option res" where
  "svec_l2_ne svec1 svec2 =
     rbind (svec_l2_cmp_internal svec1 svec2) (\<lambda>r. Inr (if r = -5 then None else Some (r \<noteq> 0)))"

definition svec_l2_gt :: "svec \<Rightarrow> svec \<Rightarrow> bool option res" where
  "svec_l2_gt svec1 svec2 =
     rbind (svec_l2_cmp_internal svec1 svec2) (\<lambda>r. Inr (if r = -5 then None else Some (r = 1)))"

definition svec_l2_ge :: "svec \<Rightarrow> svec \<Rightarrow> bool option res" where
  "svec_l2_ge svec1 svec2 =
     rbind (svec_l2_cmp_internal svec1 svec2) (\<lambda>r. Inr (if r = -5 then None else Some (r = 0 \<or> r = 1)))"

section \<open>Arithmetic\<close>

text \<open>\<open>left_vals[0]\<close> and \<open>right_vals[0]\<close> are read where one operand, or both, is a scalar.\<close>

definition svec_operate_on_sdata_pair :: "nat \<Rightarrow> operation_t \<Rightarrow> sdata \<Rightarrow> sdata \<Rightarrow> svec res" where
  "svec_operate_on_sdata_pair scalar_args op left right =
     (if scalar_args = 0 then
        rbind (op_sdata_by_sdata op left right) (\<lambda>s. Inr (svec_from_sparsedata s))
      else if scalar_args = 1 then
        rbind (nth_res (vals left) 0) (\<lambda>v.
        rbind (op_sdata_by_scalar_copy op v right False) (\<lambda>s. Inr (svec_from_sparsedata s)))
      else if scalar_args = 2 then
        rbind (nth_res (vals right) 0) (\<lambda>v.
        rbind (op_sdata_by_scalar_copy op v left True) (\<lambda>s. Inr (svec_from_sparsedata s)))
      else
        rbind (nth_res (vals left) 0) (\<lambda>l.
        rbind (nth_res (vals right) 0) (\<lambda>r. svec_make_scalar (float8_op op l r))))"

definition op_svec_by_svec_internal :: "operation_t \<Rightarrow> svec \<Rightarrow> svec \<Rightarrow> svec res" where
  "op_svec_by_svec_internal op svec1 svec2 =
     svec_operate_on_sdata_pair (check_scalar (IS_SCALAR svec1) (IS_SCALAR svec2)) op
       (sdata_from_svec svec1) (sdata_from_svec svec2)"

definition pow_svec_by_scalar_internal :: "(float8 \<Rightarrow> float8 \<Rightarrow> float8) \<Rightarrow> svec \<Rightarrow> svec \<Rightarrow> svec res" where
  "pow_svec_by_scalar_internal pow svec1 svec2 =
     (let left = sdata_from_svec svec1; right = sdata_from_svec svec2;
          scalar_args = check_scalar (IS_SCALAR svec1) (IS_SCALAR svec2)
      in if scalar_args = 0 \<or> scalar_args = 1
         then Inl (Report ''Svec exponentiation is undefined when the right argument is a vector'')
         else if scalar_args = 2 then
           rbind (nth_res (vals right) 0) (\<lambda>r.
           rbind (if f64_eq r (f64_of_int 2) then square_sdata left
                  else if f64_eq r (f64_of_int 3) then cube_sdata left
                  else if f64_eq r (f64_of_int 4) then quad_sdata left
                  else pow_sdata_by_scalar pow left r) (\<lambda>s. Inr (svec_from_sparsedata s)))
         else
           rbind (nth_res (vals left) 0) (\<lambda>l.
           rbind (nth_res (vals right) 0) (\<lambda>r. svec_make_scalar (pow l r))))"

definition svec_pow :: "(float8 \<Rightarrow> float8 \<Rightarrow> float8) \<Rightarrow> svec \<Rightarrow> svec \<Rightarrow> svec res" where
  "svec_pow pow svec1 svec2 =
     rbind (check_dimension svec1 svec2 ''svec_pow'') (\<lambda>_. pow_svec_by_scalar_internal pow svec1 svec2)"

definition svec_minus :: "svec \<Rightarrow> svec \<Rightarrow> svec res" where
  "svec_minus svec1 svec2 =
     rbind (check_dimension svec1 svec2 ''svec_minus'') (\<lambda>_. op_svec_by_svec_internal Subtract svec1 svec2)"

definition svec_plus :: "svec \<Rightarrow> svec \<Rightarrow> svec res" where
  "svec_plus svec1 svec2 =
     rbind (check_dimension svec1 svec2 ''svec_plus'') (\<lambda>_. op_svec_by_svec_internal Add svec1 svec2)"

definition svec_mult :: "svec \<Rightarrow> svec \<Rightarrow> svec res" where
  "svec_mult svec1 svec2 =
     rbind (check_dimension svec1 svec2 ''svec_mult'') (\<lambda>_. op_svec_by_svec_internal Multiply svec1 svec2)"

definition svec_div :: "svec \<Rightarrow> svec \<Rightarrow> svec res" where
  "svec_div svec1 svec2 =
     rbind (check_dimension svec1 svec2 ''svec_div'') (\<lambda>_. op_svec_by_svec_internal Divide svec1 svec2)"

text \<open>
  \<open>svec_count\<close> adds 1 where the right vector is neither 0 nor NULL; a left \<open>{1}:{0}\<close> stands for the
  zero vector of the right dimension.
\<close>

definition svec_count :: "svec \<Rightarrow> svec \<Rightarrow> svec res" where
  "svec_count svec1 svec2 =
     (let right = sdata_from_svec svec2 in
      rbind (if IS_SCALAR svec1
             then rbind (nth_res (vals (sdata_from_svec svec1)) 0) (\<lambda>l.
                    if f64_eq l f64_zero then makeSparseDataFromDouble f64_zero (total_value_count right)
                    else Inr (sdata_from_svec svec1))
             else Inr (sdata_from_svec svec1)) (\<lambda>left.
      rbind (check (total_value_count left = total_value_count right)
               ''Array dimension of inputs are not the same'') (\<lambda>_.
      rbind (mapM (\<lambda>i. rbind (nth_res (vals right) (int i)) (\<lambda>v.
                    Inr (if \<not> f64_eq v f64_zero \<and> \<not> IS_NVP v then f64_one else f64_zero)))
               [0..<nat (unique_value_count right)]) (\<lambda>clamped_vals.
      rbind (op_sdata_by_sdata Add left
               (makeInplaceSparseData clamped_vals (index right) FLOAT8OID
                  (unique_value_count right) (total_value_count right))) (\<lambda>s.
        Inr (svec_from_sparsedata s))))))"

definition svec_dot :: "svec \<Rightarrow> svec \<Rightarrow> float8 option res" where
  "svec_dot svec1 svec2 =
     rbind (svec_svec_dot_product svec1 svec2) (\<lambda>accum. Inr (null_if_nvp accum))"

definition svec_l2norm :: "svec \<Rightarrow> float8 option res" where
  "svec_l2norm sv =
     rbind (l2norm_sdata_values_double (sdata_from_svec sv)) (\<lambda>accum. Inr (null_if_nvp accum))"

definition svec_svec_l2norm :: "svec \<Rightarrow> svec \<Rightarrow> float8 option res" where
  "svec_svec_l2norm svec1 svec2 =
     rbind (check_dimension svec1 svec2 ''l2norm'') (\<lambda>_.
     rbind (op_svec_by_svec_internal Subtract svec1 svec2) (\<lambda>result.
     rbind (l2norm_sdata_values_double (sdata_from_svec result)) (\<lambda>accum. Inr (null_if_nvp accum))))"

definition svec_svec_l1norm :: "svec \<Rightarrow> svec \<Rightarrow> float8 option res" where
  "svec_svec_l1norm svec1 svec2 =
     rbind (check_dimension svec1 svec2 ''l1norm'') (\<lambda>_.
     rbind (op_svec_by_svec_internal Subtract svec1 svec2) (\<lambda>result.
     rbind (l1norm_sdata_values_double (sdata_from_svec result)) (\<lambda>accum. Inr (null_if_nvp accum))))"

text \<open>The dot product and the two magnitudes that the angle and the Tanimoto distance use.\<close>

definition dot_and_norms :: "svec \<Rightarrow> svec \<Rightarrow> (float8 \<times> float8 \<times> float8) res" where
  "dot_and_norms svec1 svec2 =
     rbind (svec_svec_dot_product svec1 svec2) (\<lambda>dot.
     rbind (l2norm_sdata_values_double (sdata_from_svec svec1)) (\<lambda>m1.
     rbind (l2norm_sdata_values_double (sdata_from_svec svec2)) (\<lambda>m2. Inr (dot, m1, m2))))"

definition svec_svec_angle :: "(float8 \<Rightarrow> float8) \<Rightarrow> svec \<Rightarrow> svec \<Rightarrow> float8 option res" where
  "svec_svec_angle acos svec1 svec2 =
     rbind (dot_and_norms svec1 svec2) (\<lambda>(dot, m1, m2).
       if IS_NVP dot \<or> IS_NVP m1 \<or> IS_NVP m2 then Inr None
       else let result = f64_div dot (f64_mul m1 m2);
                result = (if f64_lt f64_one result then f64_one
                          else if f64_lt result (f64_of_int (-1)) then f64_of_int (-1) else result)
            in Inr (Some (acos result)))"

definition svec_svec_tanimoto_distance :: "svec \<Rightarrow> svec \<Rightarrow> float8 option res" where
  "svec_svec_tanimoto_distance svec1 svec2 =
     rbind (dot_and_norms svec1 svec2) (\<lambda>(dot, m1, m2).
       if IS_NVP dot \<or> IS_NVP m1 \<or> IS_NVP m2 then Inr None
       else let result = f64_div dot (f64_sub (f64_add (f64_mul m1 m1) (f64_mul m2 m2)) dot);
                result = (if f64_lt f64_one result then f64_one
                          else if f64_lt result f64_zero then f64_zero else result)
            in Inr (Some (f64_sub f64_one result)))"

definition svec_normalize :: "svec \<Rightarrow> svec res" where
  "svec_normalize sv =
     (let s = sdata_from_svec sv in
      rbind (l2norm_sdata_values_double s) (\<lambda>norm.
      rbind (op_sdata_by_scalar_inplace Divide norm s True) (\<lambda>s. Inr (svec_from_sparsedata s))))"

definition svec_l1norm :: "svec \<Rightarrow> float8 option res" where
  "svec_l1norm sv =
     rbind (l1norm_sdata_values_double (sdata_from_svec sv)) (\<lambda>accum. Inr (null_if_nvp accum))"

definition svec_summate :: "svec \<Rightarrow> float8 option res" where
  "svec_summate sv =
     rbind (sum_sdata_values_double (sdata_from_svec sv)) (\<lambda>accum. Inr (null_if_nvp accum))"

definition svec_log :: "(float8 \<Rightarrow> float8) \<Rightarrow> svec \<Rightarrow> svec res" where
  "svec_log log sv =
     rbind (foldM (\<lambda>i vs. rbind (nth_res vs (int i)) (\<lambda>v. upd_res vs (int i) (log v)))
              [0..<nat (unique_value_count (serial sv))] (vals (serial sv))) (\<lambda>vs.
       Inr (sv\<lparr>serial := (serial sv)\<lparr>vals := vs\<rparr>\<rparr>))"

section \<open>Casts\<close>

definition svec_cast_int2 :: "int \<Rightarrow> svec res" where
  "svec_cast_int2 n = svec_make_scalar (f64_of_int n)"

definition svec_cast_int4 :: "int \<Rightarrow> svec res" where
  "svec_cast_int4 n = svec_make_scalar (f64_of_int n)"

definition svec_cast_int8 :: "int \<Rightarrow> svec res" where
  "svec_cast_int8 n = svec_make_scalar (f64_of_int n)"

definition svec_cast_float8 :: "float8 \<Rightarrow> svec res" where
  "svec_cast_float8 value = svec_make_scalar value"

definition float8arr_cast_int2 :: "int \<Rightarrow> float8 list res" where
  "float8arr_cast_int2 n = rbind (svec_make_scalar (f64_of_int n)) svec_return_array_internal"

definition float8arr_cast_int4 :: "int \<Rightarrow> float8 list res" where
  "float8arr_cast_int4 n = rbind (svec_make_scalar (f64_of_int n)) svec_return_array_internal"

definition float8arr_cast_int8 :: "int \<Rightarrow> float8 list res" where
  "float8arr_cast_int8 n = rbind (svec_make_scalar (f64_of_int n)) svec_return_array_internal"

definition float8arr_cast_float8 :: "float8 \<Rightarrow> float8 list res" where
  "float8arr_cast_float8 value = rbind (svec_make_scalar value) svec_return_array_internal"

definition svec_cast_float8arr :: "float8 pgarray \<Rightarrow> svec res" where
  "svec_cast_float8arr A_PG =
     rbind (check (elemtype A_PG = FLOAT8OID) ''svec_cast_float8arr only defined over float8[]'') (\<lambda>_.
     rbind (check (ARR_NDIM A_PG = 1) ''svec_cast_float8arr only defined over 1 dimensional arrays'') (\<lambda>_.
     rbind (array_values A_PG (hd (dims A_PG))) (\<lambda>array.
     rbind (float8arr_to_sdata array (hd (dims A_PG))) (\<lambda>s.
       Inr (svec_from_sparsedata s)))))"

definition svec_cast_positions_float8arr :: "((nat \<Rightarrow> nat \<Rightarrow> int) \<Rightarrow> nat list \<Rightarrow> nat list) \<Rightarrow>
    int pgarray \<Rightarrow> float8 pgarray \<Rightarrow> int \<Rightarrow> float8 \<Rightarrow> svec res" where
  "svec_cast_positions_float8arr qs B_PG A_PG sz base_value =
     rbind (check (elemtype A_PG = FLOAT8OID) ''svec_cast_positions_float8arr valeus only defined over float8[]'') (\<lambda>_.
     rbind (check (ARR_NDIM A_PG = 1) ''svec_cast_positions_float8arr only defined over 1 dimensional arrays'') (\<lambda>_.
     rbind (check (nullbitmap A_PG = None) ''svec_cast_positions_float8arr does not allow null bitmaps on arrays'') (\<lambda>_.
     rbind (check (elemtype B_PG = INT8OID) ''svec_cast_positions_float8arr positions only defined over int[]'') (\<lambda>_.
     rbind (check (ARR_NDIM B_PG = 1) ''svec_cast_positions_float8arr only defined over 1 dimensional arrays'') (\<lambda>_.
     rbind (check (nullbitmap B_PG = None) ''svec_cast_positions_float8arr does not allow null bitmaps on arrays'') (\<lambda>_.
     let dim = hd (dims A_PG); dim2 = hd (dims B_PG) in
     rbind (check (dim = dim2) ''svec_cast_positions_float8arr position and value vectors must be of the same size'') (\<lambda>_.
     rbind (nth_res (elems B_PG) (dim - 1)) (\<lambda>last_pos.
     rbind (check (\<not> (last_pos > sz \<and> sz > 0)) ''svec_cast_positions_float8arr some of the position values are larger than maximum array size declared'') (\<lambda>_.
     rbind (foldM (\<lambda>i _. rbind (nth_res (elems B_PG) (int i)) (\<lambda>p.
                check (\<not> p \<le> 0) ''svec_cast_positions_float8arr only accepts position that are positive integers (x > 0)''))
              [0..<nat dim] ()) (\<lambda>_.
     rbind (position_to_sdata qs (elems A_PG) (elems B_PG) FLOAT8OID dim sz base_value) (\<lambda>s.
       Inr (svec_from_sparsedata s))))))))))))"

section \<open>Operators on float8 arrays\<close>

text \<open>
  \<open>same_array\<close> says that both arguments are one object in memory: the code compares the addresses
  of the two dimension arrays.
\<close>

definition float8arr_equals_internal :: "bool \<Rightarrow> float8 pgarray \<Rightarrow> float8 pgarray \<Rightarrow> bool res" where
  "float8arr_equals_internal same_array left right =
     (let numleft = ArrayGetNItems left; numright = ArrayGetNItems right in
      if \<not> same_array \<or> numleft \<noteq> numright then Inr False
      else if (nullbitmap left = None) \<noteq> (nullbitmap right = None) then Inr False
      else foldM (\<lambda>i equal. if \<not> equal then Inr False
                   else rbind (nth_res (elems left) (int i)) (\<lambda>l.
                        rbind (nth_res (elems right) (int i)) (\<lambda>r. Inr (f64_eq l r))))
             [0..<nat numleft] True)"

definition sdata_uncompressed_from_float8arr_internal :: "float8 pgarray \<Rightarrow> sdata res" where
  "sdata_uncompressed_from_float8arr_internal array =
     (let num = ArrayGetNItems array in
      rbind (array_values array num) (\<lambda>vs.
        Inr (makeInplaceSparseData vs None FLOAT8OID num num)))"

definition float8arr_l1norm :: "float8 pgarray \<Rightarrow> float8 option res" where
  "float8arr_l1norm array =
     rbind (sdata_uncompressed_from_float8arr_internal array) (\<lambda>s.
     rbind (l1norm_sdata_values_double s) (\<lambda>result. Inr (null_if_nvp result)))"

definition float8arr_summate :: "float8 pgarray \<Rightarrow> float8 option res" where
  "float8arr_summate array =
     rbind (sdata_uncompressed_from_float8arr_internal array) (\<lambda>s.
     rbind (sum_sdata_values_double s) (\<lambda>result. Inr (null_if_nvp result)))"

definition float8arr_l2norm :: "float8 pgarray \<Rightarrow> float8 option res" where
  "float8arr_l2norm array =
     rbind (sdata_uncompressed_from_float8arr_internal array) (\<lambda>s.
     rbind (l2norm_sdata_values_double s) (\<lambda>result. Inr (null_if_nvp result)))"

definition float8arr_dot :: "float8 pgarray \<Rightarrow> float8 pgarray \<Rightarrow> float8 option res" where
  "float8arr_dot arr_left arr_right =
     rbind (sdata_uncompressed_from_float8arr_internal arr_left) (\<lambda>left.
     rbind (sdata_uncompressed_from_float8arr_internal arr_right) (\<lambda>right.
     rbind (op_sdata_by_sdata Multiply left right) (\<lambda>mult_result.
     rbind (sum_sdata_values_double mult_result) (\<lambda>accum. Inr (null_if_nvp accum)))))"

definition float8arr_minus_float8arr :: "float8 pgarray \<Rightarrow> float8 pgarray \<Rightarrow> svec res" where
  "float8arr_minus_float8arr arr1 arr2 =
     rbind (sdata_uncompressed_from_float8arr_internal arr1) (\<lambda>left.
     rbind (sdata_uncompressed_from_float8arr_internal arr2) (\<lambda>right.
       svec_operate_on_sdata_pair (check_scalar (SDATA_IS_SCALAR left) (SDATA_IS_SCALAR right)) Subtract left right))"

definition svec_minus_float8arr :: "svec \<Rightarrow> float8 pgarray \<Rightarrow> svec res" where
  "svec_minus_float8arr sv arr =
     (let left = sdata_from_svec sv in
      rbind (sdata_uncompressed_from_float8arr_internal arr) (\<lambda>right.
        svec_operate_on_sdata_pair (check_scalar (SDATA_IS_SCALAR left) (SDATA_IS_SCALAR right)) Subtract left right))"

definition float8arr_minus_svec :: "float8 pgarray \<Rightarrow> svec \<Rightarrow> svec res" where
  "float8arr_minus_svec arr sv =
     rbind (sdata_uncompressed_from_float8arr_internal arr) (\<lambda>left.
       let right = sdata_from_svec sv in
       svec_operate_on_sdata_pair (check_scalar (SDATA_IS_SCALAR left) (SDATA_IS_SCALAR right)) Subtract left right)"

definition float8arr_plus_float8arr :: "float8 pgarray \<Rightarrow> float8 pgarray \<Rightarrow> svec res" where
  "float8arr_plus_float8arr arr1 arr2 =
     rbind (sdata_uncompressed_from_float8arr_internal arr1) (\<lambda>left.
     rbind (sdata_uncompressed_from_float8arr_internal arr2) (\<lambda>right.
       svec_operate_on_sdata_pair (check_scalar (SDATA_IS_SCALAR left) (SDATA_IS_SCALAR right)) Add left right))"

definition svec_plus_float8arr :: "svec \<Rightarrow> float8 pgarray \<Rightarrow> svec res" where
  "svec_plus_float8arr sv arr =
     (let left = sdata_from_svec sv in
      rbind (sdata_uncompressed_from_float8arr_internal arr) (\<lambda>right.
        svec_operate_on_sdata_pair (check_scalar (SDATA_IS_SCALAR left) (SDATA_IS_SCALAR right)) Add left right))"

definition float8arr_plus_svec :: "float8 pgarray \<Rightarrow> svec \<Rightarrow> svec res" where
  "float8arr_plus_svec arr sv =
     rbind (sdata_uncompressed_from_float8arr_internal arr) (\<lambda>left.
       let right = sdata_from_svec sv in
       svec_operate_on_sdata_pair (check_scalar (SDATA_IS_SCALAR left) (SDATA_IS_SCALAR right)) Add left right)"

definition float8arr_mult_float8arr :: "float8 pgarray \<Rightarrow> float8 pgarray \<Rightarrow> svec res" where
  "float8arr_mult_float8arr arr1 arr2 =
     rbind (sdata_uncompressed_from_float8arr_internal arr1) (\<lambda>left.
     rbind (sdata_uncompressed_from_float8arr_internal arr2) (\<lambda>right.
       svec_operate_on_sdata_pair (check_scalar (SDATA_IS_SCALAR left) (SDATA_IS_SCALAR right)) Multiply left right))"

definition svec_mult_float8arr :: "svec \<Rightarrow> float8 pgarray \<Rightarrow> svec res" where
  "svec_mult_float8arr sv arr =
     (let left = sdata_from_svec sv in
      rbind (sdata_uncompressed_from_float8arr_internal arr) (\<lambda>right.
        svec_operate_on_sdata_pair (check_scalar (SDATA_IS_SCALAR left) (SDATA_IS_SCALAR right)) Multiply left right))"

definition float8arr_mult_svec :: "float8 pgarray \<Rightarrow> svec \<Rightarrow> svec res" where
  "float8arr_mult_svec arr sv =
     rbind (sdata_uncompressed_from_float8arr_internal arr) (\<lambda>left.
       let right = sdata_from_svec sv in
       svec_operate_on_sdata_pair (check_scalar (SDATA_IS_SCALAR left) (SDATA_IS_SCALAR right)) Multiply left right)"

definition float8arr_div_float8arr :: "float8 pgarray \<Rightarrow> float8 pgarray \<Rightarrow> svec res" where
  "float8arr_div_float8arr arr1 arr2 =
     rbind (sdata_uncompressed_from_float8arr_internal arr1) (\<lambda>left.
     rbind (sdata_uncompressed_from_float8arr_internal arr2) (\<lambda>right.
       svec_operate_on_sdata_pair (check_scalar (SDATA_IS_SCALAR left) (SDATA_IS_SCALAR right)) Divide left right))"

definition svec_div_float8arr :: "svec \<Rightarrow> float8 pgarray \<Rightarrow> svec res" where
  "svec_div_float8arr sv arr =
     (let left = sdata_from_svec sv in
      rbind (sdata_uncompressed_from_float8arr_internal arr) (\<lambda>right.
        svec_operate_on_sdata_pair (check_scalar (SDATA_IS_SCALAR left) (SDATA_IS_SCALAR right)) Divide left right))"

definition float8arr_div_svec :: "float8 pgarray \<Rightarrow> svec \<Rightarrow> svec res" where
  "float8arr_div_svec arr sv =
     rbind (sdata_uncompressed_from_float8arr_internal arr) (\<lambda>left.
       let right = sdata_from_svec sv in
       svec_operate_on_sdata_pair (check_scalar (SDATA_IS_SCALAR left) (SDATA_IS_SCALAR right)) Divide left right)"

definition svec_dot_float8arr :: "svec \<Rightarrow> float8 pgarray \<Rightarrow> float8 option res" where
  "svec_dot_float8arr sv arr =
     rbind (sdata_uncompressed_from_float8arr_internal arr) (\<lambda>right.
     rbind (op_sdata_by_sdata Multiply (sdata_from_svec sv) right) (\<lambda>mult_result.
     rbind (sum_sdata_values_double mult_result) (\<lambda>accum. Inr (null_if_nvp accum))))"

definition float8arr_dot_svec :: "float8 pgarray \<Rightarrow> svec \<Rightarrow> float8 option res" where
  "float8arr_dot_svec arr sv =
     rbind (sdata_uncompressed_from_float8arr_internal arr) (\<lambda>left.
     rbind (op_sdata_by_sdata Multiply left (sdata_from_svec sv)) (\<lambda>mult_result.
     rbind (sum_sdata_values_double mult_result) (\<lambda>accum. Inr (null_if_nvp accum))))"

section \<open>Hashing\<close>

text \<open>\<open>hashfloat8\<close> is a function of the server.\<close>

definition float8arr_hash_internal :: "(float8 \<Rightarrow> int) \<Rightarrow> float8 pgarray \<Rightarrow> int res" where
  "float8arr_hash_internal hashfloat8 array =
     rbind (sdata_uncompressed_from_float8arr_internal array) (\<lambda>s.
     rbind (l1norm_sdata_values_double s) (\<lambda>l1norm. Inr (to_int32 (hashfloat8 l1norm))))"

text \<open>
  \<open>c\<close> is an \<open>unsigned short\<close>: the count is reduced modulo 2^16, and the conversion of a double
  whose integral part is outside its range is undefined.
\<close>

definition hash_mix :: "int \<Rightarrow> 64 word \<Rightarrow> 64 word" where
  "hash_mix c hash = word_of_int c + push_bit 7 hash + push_bit 16 hash - hash"

definition svec_hash :: "svec \<Rightarrow> int res" where
  "svec_hash sv =
     (let s = sdata_from_svec sv in
      rbind (index_loop (\<lambda>i n hash.
          let hash = hash_mix (n mod 2 ^ 16) hash in
          rbind (nth_res (vals s) (int i)) (\<lambda>v.
            case f64_trunc v of
              None \<Rightarrow> Inl Undefined
            | Some c \<Rightarrow> if 0 \<le> c \<and> c < 2 ^ 16 then Inr (hash_mix c hash) else Inl Undefined))
        [0..<nat (unique_value_count s)] (index s) 65599) (\<lambda>hash.
        Inr (to_int32 (uint hash))))"

end
