(* ===== verification/SparseOpsFacts.thy ===== *)
theory SparseOpsFacts
  imports SparseOps
begin

text \<open>
  What the inline functions of \<open>SparseData.h\<close> compute: an operation with a scalar maps the values,
  an operation on two structures computes on the expanded arrays element by element and leaves the
  result in canonical form, and the comparisons decide the pointwise relations on the expanded
  arrays although they only walk the runs.
\<close>

section \<open>Scalar operations\<close>

lemma map_sdata_values_runs:
  assumes "sd_rep s rs"
  shows "\<exists>t. map_sdata_values f s = Inr t \<and> sd_rep t (map (map_prod id f) rs) \<and> index t = index s"
proof -
  have "foldM (\<lambda>i vs. rbind (nth_res vs (int i)) (\<lambda>v. upd_res vs (int i) (f v)))
      [0..<nat (unique_value_count s)] (vals s) = Inr (map f (vals s))"
    using foldM_update[of f "vals s"] assms by (simp add: sd_rep_def)
  then show ?thesis
    using assms by (simp add: map_sdata_values_def sd_rep_def wf_runs_def runs_total_def comp_def)
qed

lemma expand_map: "expand (map (map_prod id f) rs) = map f (expand rs)"
  by (induction rs) auto

section \<open>Two structures\<close>

text \<open>The array the pending run and the result built so far stand for.\<close>

definition pending :: "float8 runs \<Rightarrow> int \<Rightarrow> float8 \<Rightarrow> float8 list" where
  "pending qs tot lst = expand qs @ replicate (nat tot) lst"

definition pending_ok :: "float8 runs \<Rightarrow> int \<Rightarrow> float8 \<Rightarrow> int \<Rightarrow> bool" where
  "pending_ok qs tot lst pos \<longleftrightarrow>
     (tot = -1 \<and> qs = [] \<and> pos = 0) \<or>
     (0 < tot \<and> canonical (qs @ [(tot, lst)]) \<and> runs_total qs + tot = pos)"

lemma op_emit_runs:
  assumes "op_result st = sd_of_runs qs" "pending_ok qs (tot_run_length st) (last_new_value st) (lastpos st)"
    and "lastpos st < min (left_nxt st) (right_nxt st)" "min (left_nxt st) (right_nxt st) < 2 ^ 31"
  shows "\<exists>qs' tot'. op_emit v st =
             Inr (st\<lparr>op_result := sd_of_runs qs', tot_run_length := tot', last_new_value := v\<rparr>) \<and>
           0 < tot' \<and> pending_ok qs' tot' v (min (left_nxt st) (right_nxt st)) \<and>
           pending qs' tot' v = pending qs (tot_run_length st) (last_new_value st) @
             replicate (nat (min (left_nxt st) (right_nxt st) - lastpos st)) v"
proof -
  let ?k = "min (left_nxt st) (right_nxt st) - lastpos st"
  consider (first) "tot_run_length st = -1" "qs = []" "lastpos st = 0"
    | (same) "0 < tot_run_length st" "v = last_new_value st"
    | (diff) "0 < tot_run_length st" "v \<noteq> last_new_value st"
    using assms(2) by (auto simp: pending_ok_def)
  then show ?thesis
  proof cases
    case first
    then show ?thesis
      using assms by (intro exI[of _ "[]"] exI[of _ ?k])
        (simp add: op_emit_def pending_ok_def pending_def canonical_def)
  next
    case same
    then have "replicate (nat (tot_run_length st + ?k)) v = replicate (nat (tot_run_length st)) v @ replicate (nat ?k) v"
      using assms(3) by (simp add: nat_add_distrib replicate_add flip: replicate_add)
    then show ?thesis
      using same assms by (intro exI[of _ qs] exI[of _ "tot_run_length st + ?k"])
        (auto simp: op_emit_def pending_ok_def pending_def canonical_def)
  next
    case diff
    let ?qs = "qs @ [(tot_run_length st, last_new_value st)]"
    have can: "canonical ?qs" "runs_total qs + tot_run_length st = lastpos st"
      using assms(2) diff by (auto simp: pending_ok_def)
    have "lastpos st < 2 ^ 31" using assms(3,4) by linarith
    with can have wf: "wf_runs ?qs" by (simp add: wf_runs_def canonical_def)
    have "canonical (?qs @ [(?k, v)])"
      using can diff assms by (auto simp: canonical_def distinct_adj_append_iff)
    then show ?thesis
      using diff assms wf can(2) by (intro exI[of _ ?qs] exI[of _ ?k])
        (auto simp: op_emit_def pending_ok_def pending_def add_run_of_runs)
  qed
qed

lemma map2_replicate:
  "map2 f (replicate (k + a) v @ xs) (replicate (k + b) w @ ys) =
     replicate k (f v w) @ map2 f (replicate a v @ xs) (replicate b w @ ys)"
  by (induction k) auto

lemma expand_eq_Nil: "\<forall>r\<in>set rs. 0 < fst r \<Longrightarrow> runs_total rs = 0 \<Longrightarrow> rs = []"
  using runs_total_nonneg[of "tl rs"] by (cases rs) auto

lemma wf_runs_suffix: "wf_runs (ps @ qs) \<Longrightarrow> wf_runs qs"
  using wf_runs_append by blast

text \<open>
  Where one operand stands: \<open>x\<close> is the run under the cursor, which ends at \<open>nxt\<close>, and \<open>rest_from\<close>
  is the part of the array from position \<open>pos\<close> on.
\<close>

definition side :: "float8 runs \<Rightarrow> float8 runs \<Rightarrow> int \<times> float8 \<Rightarrow> float8 runs \<Rightarrow> nat \<Rightarrow> cursor \<Rightarrow> int \<Rightarrow> int \<Rightarrow> bool"
where
  "side ls ls1 x ls2 i c nxt pos \<longleftrightarrow> wf_runs ls \<and> ls = ls1 @ x # ls2 \<and> i = length ls1 \<and>
     points_at c (fst x # map fst ls2) \<and> nxt + runs_total ls2 = runs_total ls \<and> pos < nxt"

definition rest_from :: "int \<times> float8 \<Rightarrow> float8 runs \<Rightarrow> int \<Rightarrow> int \<Rightarrow> float8 list" where
  "rest_from x ls2 nxt pos = replicate (nat (nxt - pos)) (snd x) @ expand ls2"

lemma side_end: "side ls ls1 x ls2 i c nxt pos \<Longrightarrow> nxt \<le> runs_total ls"
  using runs_total_nonneg[of ls2] by (auto simp: side_def wf_runs_def)

lemma side_last: "side ls ls1 x ls2 i c nxt pos \<Longrightarrow> nxt = runs_total ls \<Longrightarrow> ls2 = []"
  by (rule expand_eq_Nil) (auto simp: side_def wf_runs_def)

lemma side_stay:
  "side ls ls1 x ls2 i c nxt pos \<Longrightarrow> pos' < nxt \<Longrightarrow>
     side ls ls1 x ls2 i c nxt pos' \<and> compword_to_int8 c = Inr (fst x)"
  using cc.peek_at[of c "fst x" "map fst ls2"] by (auto simp: side_def)

lemma side_next:
  assumes "side ls ls1 x ls2 i c nxt pos" "nxt < runs_total ls"
  obtains x' ls' c' where "ls2 = x' # ls'" "advance c = Inr c'" "compword_to_int8 c' = Inr (fst x')"
    "to_int32 (fst x') = fst x'" "side ls (ls1 @ [x]) x' ls' (Suc i) c' (fst x' + nxt) nxt"
proof -
  obtain x' ls' where ls2: "ls2 = x' # ls'"
    using assms by (cases ls2) (auto simp: side_def)
  obtain c' where c': "advance c = Inr c'" "points_at c' (fst x' # map fst ls')"
    using cc.step_at[of c "fst x" "map fst ls2"] assms(1) ls2 by (auto simp: side_def)
  have "wf_runs (x' # ls')"
    using assms(1) ls2 wf_runs_suffix[of "ls1 @ [x]" "x' # ls'"] by (auto simp: side_def)
  then show ?thesis
    using that[of x' ls' c'] assms(1) ls2 c' cc.peek_at[OF c'(2)] wf_runs_Cons[of x' ls']
    by (auto simp: side_def)
qed

lemma rest_from_split:
  "pos \<le> pos' \<Longrightarrow> pos' \<le> nxt \<Longrightarrow>
     rest_from x ls2 nxt pos = replicate (nat (pos' - pos)) (snd x) @ rest_from x ls2 nxt pos'"
proof -
  assume "pos \<le> pos'" "pos' \<le> nxt"
  then have "nat (nxt - pos) = nat (pos' - pos) + nat (nxt - pos')" by linarith
  then show ?thesis by (simp add: rest_from_def replicate_add)
qed

lemma rest_from_next: "rest_from x (x' # ls') nxt nxt = rest_from x' ls' (fst x' + nxt) nxt"
  by (simp add: rest_from_def)

text \<open>One move of the loop keeps both operands in place and consumes what was processed.\<close>

lemma op_advance_runs:
  assumes "side ls ls1 x ls2 (op_i st) (liptr st) (left_nxt st) (lastpos st)"
    and "side rs rs1 y rs2 (op_j st) (riptr st) (right_nxt st) (lastpos st)"
    and "runs_total ls = runs_total rs" "\<not> (left_nxt st = right_nxt st \<and> left_nxt st = runs_total ls)"
  shows "\<exists>st' ls1' x' ls2' rs1' y' rs2'. op_advance st = Inr st' \<and>
      side ls ls1' x' ls2' (op_i st') (liptr st') (left_nxt st') (lastpos st') \<and>
      side rs rs1' y' rs2' (op_j st') (riptr st') (right_nxt st') (lastpos st') \<and>
      length ls2' + length rs2' < length ls2 + length rs2 \<and>
      lastpos st' = min (left_nxt st) (right_nxt st) \<and> op_result st' = op_result st \<and>
      tot_run_length st' = tot_run_length st \<and> last_new_value st' = last_new_value st \<and>
      rest_from x ls2 (left_nxt st) (lastpos st') = rest_from x' ls2' (left_nxt st') (lastpos st') \<and>
      rest_from y rs2 (right_nxt st) (lastpos st') = rest_from y' rs2' (right_nxt st') (lastpos st')"
proof -
  have le: "left_nxt st \<le> runs_total ls" "right_nxt st \<le> runs_total rs"
    using side_end assms(1,2) by blast+
  consider (both) "left_nxt st = right_nxt st" "left_nxt st < runs_total ls" "right_nxt st < runs_total rs"
    | (left) "left_nxt st < right_nxt st" "left_nxt st < runs_total ls"
    | (right) "right_nxt st < left_nxt st" "right_nxt st < runs_total rs"
    using assms(3,4) le by linarith
  then show ?thesis
  proof cases
    case both
    obtain x' ls' cl where l: "ls2 = x' # ls'" "advance (liptr st) = Inr cl" "compword_to_int8 cl = Inr (fst x')"
      "to_int32 (fst x') = fst x'" "side ls (ls1 @ [x]) x' ls' (Suc (op_i st)) cl (fst x' + left_nxt st) (left_nxt st)"
      using side_next[OF assms(1) both(2)] by blast
    obtain y' rs' cr where r: "rs2 = y' # rs'" "advance (riptr st) = Inr cr" "compword_to_int8 cr = Inr (fst y')"
      "to_int32 (fst y') = fst y'" "side rs (rs1 @ [y]) y' rs' (Suc (op_j st)) cr (fst y' + right_nxt st) (right_nxt st)"
      using side_next[OF assms(2) both(3)] by blast
    let ?st' = "st\<lparr>op_i := Suc (op_i st), op_j := Suc (op_j st), liptr := cl, riptr := cr,
      left_nxt := fst x' + left_nxt st, right_nxt := fst y' + right_nxt st, lastpos := left_nxt st\<rparr>"
    show ?thesis
      by (rule exI[of _ ?st'], rule exI[of _ "ls1 @ [x]"], rule exI[of _ x'], rule exI[of _ ls'],
          rule exI[of _ "rs1 @ [y]"], rule exI[of _ y'], rule exI[of _ rs'])
        (use both l r in \<open>simp add: op_advance_def Let_def rest_from_next\<close>)
  next
    case left
    obtain x' ls' cl where l: "ls2 = x' # ls'" "advance (liptr st) = Inr cl" "compword_to_int8 cl = Inr (fst x')"
      "to_int32 (fst x') = fst x'" "side ls (ls1 @ [x]) x' ls' (Suc (op_i st)) cl (fst x' + left_nxt st) (left_nxt st)"
      using side_next[OF assms(1) left(2)] by blast
    let ?st' = "st\<lparr>op_i := Suc (op_i st), liptr := cl, left_nxt := fst x' + left_nxt st, lastpos := left_nxt st\<rparr>"
    show ?thesis
      by (rule exI[of _ ?st'], rule exI[of _ "ls1 @ [x]"], rule exI[of _ x'], rule exI[of _ ls'],
          rule exI[of _ rs1], rule exI[of _ y], rule exI[of _ rs2])
        (use left l side_stay[OF assms(2) left(1)] in \<open>simp add: op_advance_def Let_def rest_from_next\<close>)
  next
    case right
    obtain y' rs' cr where r: "rs2 = y' # rs'" "advance (riptr st) = Inr cr" "compword_to_int8 cr = Inr (fst y')"
      "to_int32 (fst y') = fst y'" "side rs (rs1 @ [y]) y' rs' (Suc (op_j st)) cr (fst y' + right_nxt st) (right_nxt st)"
      using side_next[OF assms(2) right(2)] by blast
    let ?st' = "st\<lparr>op_j := Suc (op_j st), riptr := cr, right_nxt := fst y' + right_nxt st, lastpos := right_nxt st\<rparr>"
    show ?thesis
      by (rule exI[of _ ?st'], rule exI[of _ ls1], rule exI[of _ x], rule exI[of _ ls2],
          rule exI[of _ "rs1 @ [y]"], rule exI[of _ y'], rule exI[of _ rs'])
        (use right r side_stay[OF assms(1) right(1)] in \<open>simp add: op_advance_def Let_def rest_from_next\<close>)
  qed
qed

lemma map2_rest:
  "map2 f (replicate k v @ xs) (replicate k w @ ys) = replicate k (f v w) @ map2 f xs ys"
  by (induction k) auto

lemma op_loop_runs:
  assumes "sd_rep l ls" "sd_rep r rs" "runs_total ls = runs_total rs"
    and "side ls ls1 x ls2 (op_i st) (liptr st) (left_nxt st) (lastpos st)"
    and "side rs rs1 y rs2 (op_j st) (riptr st) (right_nxt st) (lastpos st)"
    and "op_result st = sd_of_runs qs" "pending_ok qs (tot_run_length st) (last_new_value st) (lastpos st)"
  shows "\<exists>ws. op_loop operation l r st = Inr (sd_of_runs ws) \<and> canonical ws \<and> runs_total ws = runs_total ls \<and>
           expand ws = pending qs (tot_run_length st) (last_new_value st) @ map2 (float8_op operation)
             (rest_from x ls2 (left_nxt st) (lastpos st)) (rest_from y rs2 (right_nxt st) (lastpos st))"
  using assms(4-)
proof (induction "length ls2 + length rs2" arbitrary: ls1 x ls2 rs1 y rs2 st qs rule: less_induct)
  case less
  let ?v = "float8_op operation (snd x) (snd y)" and ?nextpos = "min (left_nxt st) (right_nxt st)"
  have tot: "runs_total ls < 2 ^ 31" "total_value_count l = runs_total ls"
    using assms(1) by (simp_all add: sd_rep_def wf_runs_def)
  have b: "lastpos st < ?nextpos" "?nextpos < 2 ^ 31"
    using less.prems(1,2) side_end[OF less.prems(1)] tot(1) by (auto simp: side_def)
  have vals: "nth_res (vals l) (int (op_i st)) = Inr (snd x)" "nth_res (vals r) (int (op_j st)) = Inr (snd y)"
    using sd_vals_nth[OF assms(1), of "op_i st"] sd_vals_nth[OF assms(2), of "op_j st"] less.prems(1,2)
    by (simp_all add: side_def)
  obtain qs' tot' where emit: "op_emit ?v st =
      Inr (st\<lparr>op_result := sd_of_runs qs', tot_run_length := tot', last_new_value := ?v\<rparr>)" "0 < tot'"
    "pending_ok qs' tot' ?v ?nextpos" "pending qs' tot' ?v =
      pending qs (tot_run_length st) (last_new_value st) @ replicate (nat (?nextpos - lastpos st)) ?v"
    using op_emit_runs[OF less.prems(3,4) b, of ?v] by blast
  let ?st = "st\<lparr>op_result := sd_of_runs qs', tot_run_length := tot', last_new_value := ?v\<rparr>"
  have unfold: "op_loop operation l r st =
      (if left_nxt st = right_nxt st \<and> left_nxt st = runs_total ls
       then add_run_to_sdata ?v tot' (sd_of_runs qs')
       else rbind (op_advance ?st) (op_loop operation l r))"
    using vals emit(1,2) tot(2) by (subst op_loop.simps) (simp add: Let_def)
  have rest: "map2 (float8_op operation) (rest_from x ls2 (left_nxt st) (lastpos st))
        (rest_from y rs2 (right_nxt st) (lastpos st)) =
      replicate (nat (?nextpos - lastpos st)) ?v @ map2 (float8_op operation)
        (rest_from x ls2 (left_nxt st) ?nextpos) (rest_from y rs2 (right_nxt st) ?nextpos)"
    using b(1) rest_from_split[of "lastpos st" ?nextpos "left_nxt st" x ls2]
      rest_from_split[of "lastpos st" ?nextpos "right_nxt st" y rs2] by (simp add: map2_rest)
  show ?case
  proof (cases "left_nxt st = right_nxt st \<and> left_nxt st = runs_total ls")
    case True
    then have Nil: "ls2 = []" "rs2 = []"
      using side_last[OF less.prems(1)] side_last[OF less.prems(2)] assms(3) by auto
    have can: "canonical (qs' @ [(tot', ?v)])" "runs_total qs' + tot' = runs_total ls"
      using emit(2,3) True by (auto simp: pending_ok_def)
    then have "wf_runs (qs' @ [(tot', ?v)])" using tot by (simp add: wf_runs_def canonical_def)
    then show ?thesis
      unfolding rest using True Nil can emit(4) add_run_of_runs unfold
      by (intro exI[of _ "qs' @ [(tot', ?v)]"]) (simp add: pending_def rest_from_def)
  next
    case False
    with op_advance_runs[of ls ls1 x ls2 ?st rs rs1 y rs2] less.prems(1,2) assms(3)
    obtain st' ls1' x' ls2' rs1' y' rs2' where adv: "op_advance ?st = Inr st'"
      "side ls ls1' x' ls2' (op_i st') (liptr st') (left_nxt st') (lastpos st')"
      "side rs rs1' y' rs2' (op_j st') (riptr st') (right_nxt st') (lastpos st')"
      "length ls2' + length rs2' < length ls2 + length rs2"
      "lastpos st' = ?nextpos" "op_result st' = sd_of_runs qs'" "tot_run_length st' = tot'"
      "last_new_value st' = ?v"
      "rest_from x ls2 (left_nxt st) (lastpos st') = rest_from x' ls2' (left_nxt st') (lastpos st')"
      "rest_from y rs2 (right_nxt st) (lastpos st') = rest_from y' rs2' (right_nxt st') (lastpos st')"
      by auto
    have "pending_ok qs' (tot_run_length st') (last_new_value st') (lastpos st')"
      using emit(3) adv(5,7,8) by simp
    from less.hyps[OF adv(4,2,3,6) this] show ?thesis
      unfolding rest using unfold False adv emit(4) by auto
  qed
qed

lemma sd_of_runs_type: "(sd_of_runs ws)\<lparr>type_of_data := FLOAT8OID\<rparr> = sd_of_runs ws"
  by (simp add: sd_of_runs_def)

lemma op_sdata_by_sdata_runs:
  assumes "sd_rep l ls" "sd_rep r rs" "ls \<noteq> []" "runs_total ls = runs_total rs"
  shows "\<exists>ws. op_sdata_by_sdata operation l r = Inr (sd_of_runs ws) \<and> wf_runs ws \<and> canonical ws \<and>
           expand ws = map2 (float8_op operation) (expand ls) (expand rs)"
proof -
  obtain x ls2 where ls: "ls = x # ls2" using assms(3) by (cases ls) auto
  have wf: "wf_runs ls" "wf_runs rs" using assms sd_rep_wf by blast+
  have "rs \<noteq> []" using assms(4) ls wf wf_runs_total[of ls2] wf_runs_Cons[of x ls2] by auto
  then obtain y rs2 where rs: "rs = y # rs2" by (cases rs) auto
  have pts: "points_at (index l) (fst x # map fst ls2)" "points_at (index r) (fst y # map fst rs2)"
    using assms ls rs by (simp_all add: sd_rep_def)
  let ?st = "\<lparr>op_i = 0, op_j = 0, liptr = index l, riptr = index r, left_nxt = fst x, right_nxt = fst y,
    lastpos = 0, last_new_value = f64_zero, tot_run_length = -1, op_result = makeSparseData\<rparr>"
  have x: "0 < fst x \<and> to_int32 (fst x) = fst x" and y: "0 < fst y \<and> to_int32 (fst y) = fst y"
    using wf ls rs wf_runs_Cons[of x ls2] wf_runs_Cons[of y rs2] by simp_all
  obtain ws where ws: "op_loop operation l r ?st = Inr (sd_of_runs ws)" "canonical ws"
    "runs_total ws = runs_total ls" "expand ws = map2 (float8_op operation) (expand ls) (expand rs)"
    using op_loop_runs[OF assms(1,2,4), of "[]" x ls2 ?st "[]" y rs2 "[]" operation] wf ls rs pts x y
    by (auto simp: side_def makeSparseData_runs pending_ok_def pending_def rest_from_def)
  have "wf_runs ws" using ws(2,3) wf(1) by (simp add: wf_runs_def canonical_def)
  moreover have "total_value_count l = total_value_count r" "type_of_data l = FLOAT8OID"
    using assms by (simp_all add: sd_rep_def)
  ultimately show ?thesis
    using ws cc.peek_at[OF pts(1)] cc.peek_at[OF pts(2)] x y
    by (intro exI[of _ ws]) (simp add: op_sdata_by_sdata_def check_sdata_dimensions_def sd_of_runs_type)
qed

lemma op_sdata_by_sdata_dims:
  assumes "sd_rep l ls" "sd_rep r rs" "ls \<noteq> []" "rs \<noteq> []" "runs_total ls \<noteq> runs_total rs"
  shows "op_sdata_by_sdata operation l r = Inl (Report ''dimensions of vectors must be the same'')"
proof -
  have "\<exists>n. compword_to_int8 (index l) = Inr n" "\<exists>n. compword_to_int8 (index r) = Inr n"
    using assms cc.peek_at by (cases ls; cases rs; fastforce simp: sd_rep_def)+
  then show ?thesis
    using assms by (auto simp: op_sdata_by_sdata_def check_sdata_dimensions_def sd_rep_def)
qed

section \<open>Equality\<close>

lemma runs_split_at:
  assumes "wf_runs rs" "rs = rs1 @ x # rs2" "runs_total rs1 \<le> lo" "lo < runs_total rs1 + fst x"
  shows "drop (nat lo) (expand rs) = replicate (nat (runs_total rs1 + fst x - lo)) (snd x) @ expand rs2"
  using runs_split(2)[of rs "length rs1" "lo + 1"] assms by simp

definition right_at :: "float8 runs \<Rightarrow> float8 runs \<Rightarrow> float8 runs \<Rightarrow> int \<Rightarrow> nat \<Rightarrow> cursor \<Rightarrow> bool" where
  "right_at rs rs1 rs2 rread rvid rix \<longleftrightarrow>
     rs = rs1 @ rs2 \<and> rread = runs_total rs1 \<and> rvid = length rs1 \<and> points_at rix (map fst rs2)"

lemma right_at_next:
  assumes "sd_rep r rs" "right_at rs rs1 (x # rs2) rread rvid rix"
  obtains rix' where
    "\<And>v read. eq_inner r v read rread rvid rix =
       (if v \<noteq> snd x then Inr None
        else if rread + fst x > read then Inr (Some (rread, rvid, rix))
        else if rread + fst x = read then Inr (Some (rread + fst x, Suc rvid, rix'))
        else eq_inner r v read (rread + fst x) (Suc rvid) rix')"
    "right_at rs (rs1 @ [x]) rs2 (rread + fst x) (Suc rvid) rix'"
proof -
  have pts: "points_at rix (fst x # map fst rs2)" and rs: "rs = rs1 @ x # rs2" "rvid = length rs1"
    using assms(2) by (simp_all add: right_at_def)
  have wf: "wf_runs (x # rs2)" using sd_rep_wf[OF assms(1)] rs wf_runs_append by blast
  obtain rix' where rix': "advance rix = Inr rix'" "points_at rix' (map fst rs2)"
    using cc.step_at[OF pts] by blast
  have "nth_res (take (nat (unique_value_count r)) (vals r)) (int rvid) = Inr (snd x)"
    "int rvid < unique_value_count r"
    using assms(1) rs by (simp_all add: sd_rep_def nth_append)
  then have "eq_inner r v read rread rvid rix =
       (if v \<noteq> snd x then Inr None
        else if rread + fst x > read then Inr (Some (rread, rvid, rix))
        else if rread + fst x = read then Inr (Some (rread + fst x, Suc rvid, rix'))
        else eq_inner r v read (rread + fst x) (Suc rvid) rix')" for v read
    using cc.peek_at[OF pts] rix'(1) wf_runs_Cons[OF wf] by (subst eq_inner.simps) (simp add: Let_def)
  moreover have "right_at rs (rs1 @ [x]) rs2 (rread + fst x) (Suc rvid) rix'"
    using assms(2) rix'(2) by (simp add: right_at_def)
  ultimately show ?thesis by (rule that)
qed

text \<open>The inner loop of \<open>sparsedata_eq\<close> compares the run \<open>v\<close> up to \<open>read\<close> with the right array from \<open>lo\<close>.\<close>

lemma eq_inner_runs:
  assumes "sd_rep r rs" "right_at rs rs1 (x # rs2) rread rvid rix"
    "rread \<le> lo" "lo < rread + fst x" "lo < read" "read \<le> runs_total rs"
  shows "if take (nat (read - lo)) (drop (nat lo) (expand rs)) = replicate (nat (read - lo)) v
         then \<exists>rread' rvid' rix' rs1' rs2'. eq_inner r v read rread rvid rix = Inr (Some (rread', rvid', rix')) \<and>
                right_at rs rs1' rs2' rread' rvid' rix' \<and> rread' \<le> read \<and>
                (\<forall>x' rs3. rs2' = x' # rs3 \<longrightarrow> read < rread' + fst x')
         else eq_inner r v read rread rvid rix = Inr None"
  using assms(2-)
proof (induction "length rs2" arbitrary: rs1 x rs2 rread rvid rix lo rule: less_induct)
  case less
  note wf = sd_rep_wf[OF assms(1)]
  have rs: "rs = rs1 @ x # rs2" "rread = runs_total rs1"
    using less.prems(1) by (simp_all add: right_at_def)
  have wfx: "wf_runs (x # rs2)" using wf rs wf_runs_append by blast
  have d: "drop (nat lo) (expand rs) = replicate (nat (rread + fst x - lo)) (snd x) @ expand rs2"
    using runs_split_at[OF wf rs(1), of lo] less.prems rs(2) by simp
  obtain rix' where step: "\<And>v read. eq_inner r v read rread rvid rix =
       (if v \<noteq> snd x then Inr None
        else if rread + fst x > read then Inr (Some (rread, rvid, rix))
        else if rread + fst x = read then Inr (Some (rread + fst x, Suc rvid, rix'))
        else eq_inner r v read (rread + fst x) (Suc rvid) rix')"
    and next_at: "right_at rs (rs1 @ [x]) rs2 (rread + fst x) (Suc rvid) rix'"
    using right_at_next[OF assms(1) less.prems(1)] by blast
  consider (diff) "v \<noteq> snd x" | (inside) "v = snd x" "read < rread + fst x"
    | (flush) "v = snd x" "read = rread + fst x" | (beyond) "v = snd x" "rread + fst x < read"
    by linarith
  then show ?case
  proof cases
    case diff
    have "0 < nat (read - lo)" "0 < nat (rread + fst x - lo)" using less.prems by simp_all
    then have "hd (take (nat (read - lo)) (drop (nat lo) (expand rs))) = snd x"
      "hd (replicate (nat (read - lo)) v) = v"
      unfolding d by (auto simp: gr0_conv_Suc)
    then show ?thesis using diff step by auto
  next
    case inside
    then show ?thesis
      using step d less.prems by (simp add: min_def) (use inside less.prems(1) in \<open>force intro: exI[of _ rs1]\<close>)
  next
    case flush
    have "\<forall>x' rs3. rs2 = x' # rs3 \<longrightarrow> 0 < fst x'" using wfx by (auto simp: wf_runs_def)
    then show ?thesis
      using flush step d next_at by force
  next
    case beyond
    then have "runs_total rs2 \<noteq> 0"
      using less.prems(5) rs by auto
    then obtain y rs3 where rs2: "rs2 = y # rs3" by (cases rs2) auto
    have "0 < fst y" using wfx rs2 by (simp add: wf_runs_def)
    then have IH: "if take (nat (read - (rread + fst x))) (drop (nat (rread + fst x)) (expand rs)) =
          replicate (nat (read - (rread + fst x))) v
         then \<exists>rread' rvid' rix'' rs1' rs2'. eq_inner r v read (rread + fst x) (Suc rvid) rix' = Inr (Some (rread', rvid', rix'')) \<and>
                right_at rs rs1' rs2' rread' rvid' rix'' \<and> rread' \<le> read \<and>
                (\<forall>x' rs3. rs2' = x' # rs3 \<longrightarrow> read < rread' + fst x')
         else eq_inner r v read (rread + fst x) (Suc rvid) rix' = Inr None"
      using less.hyps[of rs3 "rs1 @ [x]" y "rread + fst x" "Suc rvid" rix' "rread + fst x"]
        next_at beyond rs2 less.prems(5) by simp
    have "drop (nat (rread + fst x)) (expand rs) = expand rs2"
      using runs_split_at[OF wf, of "rs1 @ [x]" y rs3 "rread + fst x"] rs rs2 \<open>0 < fst y\<close> by simp
    moreover have "nat (read - lo) = nat (rread + fst x - lo) + nat (read - (rread + fst x))"
      using beyond less.prems by linarith
    ultimately have equiv: "(take (nat (read - lo)) (drop (nat lo) (expand rs)) = replicate (nat (read - lo)) v) \<longleftrightarrow>
        (take (nat (read - (rread + fst x))) (drop (nat (rread + fst x)) (expand rs)) =
          replicate (nat (read - (rread + fst x))) v)"
      using d beyond by (simp add: replicate_add)
    have eqi: "eq_inner r v read rread rvid rix = eq_inner r v read (rread + fst x) (Suc rvid) rix'"
      using step beyond by simp
    show ?thesis using IH by (simp only: equiv eqi)
  qed
qed

lemma eq_outer_runs:
  assumes "sd_rep l ls" "sd_rep r rs" "runs_total ls = runs_total rs"
    and "ls = ls1 @ ls2" "points_at ix (map fst ls2)"
    and "right_at rs rs1 rs2 rread rvid rix" "rread \<le> runs_total ls1"
    "\<forall>x rs3. rs2 = x # rs3 \<longrightarrow> runs_total ls1 < rread + fst x"
  shows "eq_outer l r [length ls1..<length ls] ix (runs_total ls1) (rread, rvid, rix) =
           Inr (expand ls2 = drop (nat (runs_total ls1)) (expand rs))"
  using assms(4-)
proof (induction ls2 arbitrary: ls1 ix rs1 rs2 rread rvid rix)
  case Nil
  then show ?case
    using wf_runs_length[OF sd_rep_wf[OF assms(2)]] assms(3) by simp
next
  case (Cons x ls2)
  have wf: "wf_runs ls" "wf_runs rs" using assms sd_rep_wf by blast+
  have wfx: "wf_runs (x # ls2)" using wf(1) Cons.prems(1) wf_runs_append by blast
  let ?lo = "runs_total ls1"
  have x: "0 < fst x" "to_int32 (?lo + fst x) = ?lo + fst x" "?lo + fst x \<le> runs_total rs" "0 \<le> ?lo"
    using wf_runs_Cons[OF wfx] wf_runs_total[OF wf(1)] Cons.prems(1) assms(3)
      wf_runs_total[of ls1] wf_runs_total[of ls2] wf_runs_append[of ls1] wf(1) by auto
  have "rs2 \<noteq> []"
    using Cons.prems(3,4) x by (auto simp: right_at_def)
  then obtain y rs3 where rs2: "rs2 = y # rs3" by (cases rs2) auto
  obtain ix' where ix': "advance ix = Inr ix'" "points_at ix' (map fst ls2)"
    using cc.step_at[of ix "fst x" "map fst ls2"] Cons.prems(2) by auto
  have upt: "[length ls1..<length ls] = length ls1 # [length (ls1 @ [x])..<length ls]"
    using Cons.prems(1) by (simp add: upt_rec)
  have val: "nth_res (vals l) (int (length ls1)) = Inr (snd x)"
    using sd_vals_nth[OF assms(1), of "length ls1"] Cons.prems(1) by simp
  have peek: "compword_to_int8 ix = Inr (fst x)"
    using cc.peek_at[of ix "fst x" "map fst ls2"] Cons.prems(2) by simp
  have n: "nat (?lo + fst x - ?lo) = nat (fst x)" "nat (?lo + fst x) = nat (fst x) + nat ?lo"
    using x by simp_all
  have inner: "if take (nat (fst x)) (drop (nat ?lo) (expand rs)) = replicate (nat (fst x)) (snd x)
         then \<exists>rread' rvid' rix' rs1' rs2'. eq_inner r (snd x) (?lo + fst x) rread rvid rix =
                  Inr (Some (rread', rvid', rix')) \<and>
                right_at rs rs1' rs2' rread' rvid' rix' \<and> rread' \<le> ?lo + fst x \<and>
                (\<forall>x' rs3. rs2' = x' # rs3 \<longrightarrow> ?lo + fst x < rread' + fst x')
         else eq_inner r (snd x) (?lo + fst x) rread rvid rix = Inr None"
    using eq_inner_runs[OF assms(2), of rs1 y rs3 rread rvid rix ?lo "?lo + fst x" "snd x"]
      Cons.prems(3-5) rs2 x unfolding n by simp
  show ?case
  proof (cases "take (nat (fst x)) (drop (nat ?lo) (expand rs)) = replicate (nat (fst x)) (snd x)")
    case True
    with inner obtain rread' rvid' rix' rs1' rs2' where st:
      "eq_inner r (snd x) (?lo + fst x) rread rvid rix = Inr (Some (rread', rvid', rix'))"
      "right_at rs rs1' rs2' rread' rvid' rix'" "rread' \<le> ?lo + fst x"
      "\<forall>x' rs3. rs2' = x' # rs3 \<longrightarrow> ?lo + fst x < rread' + fst x'"
      by auto
    have "drop (nat ?lo) (expand rs) = replicate (nat (fst x)) (snd x) @ drop (nat (?lo + fst x)) (expand rs)"
      using True append_take_drop_id[of "nat (fst x)" "drop (nat ?lo) (expand rs)"] n(2)
      by (simp add: add.commute)
    then show ?thesis
      unfolding upt using Cons.IH[of "ls1 @ [x]" ix', OF _ ix'(2) st(2)] Cons.prems(1) st ix' val peek x
      by (simp add: Let_def)
  next
    case False
    then have "expand (x # ls2) \<noteq> drop (nat ?lo) (expand rs)"
      by (metis append_eq_conv_conj expand_simps(2) length_replicate)
    then show ?thesis
      unfolding upt using False inner val peek x by (simp add: Let_def)
  qed
qed

lemma sparsedata_eq_runs:
  assumes "sd_rep l ls" "sd_rep r rs"
  shows "sparsedata_eq l r = Inr (expand ls = expand rs)"
proof -
  have wf: "wf_runs ls" "wf_runs rs" "total_value_count l = runs_total ls" "total_value_count r = runs_total rs"
    "unique_value_count l = int (length ls)" "points_at (index l) (map fst ls)" "points_at (index r) (map fst rs)"
    using assms by (simp_all add: sd_rep_def)
  show ?thesis
  proof (cases "runs_total ls = runs_total rs")
    case True
    have "\<forall>x rs3. rs = x # rs3 \<longrightarrow> 0 < fst x" using wf(2) by (auto simp: wf_runs_def)
    then show ?thesis
      using eq_outer_runs[OF assms True, of "[]" ls "index l" "[]" rs 0 0 "index r"] True wf
      by (simp add: sparsedata_eq_def right_at_def)
  next
    case False
    then have "expand ls \<noteq> expand rs"
      using wf_runs_length[OF wf(1)] wf_runs_length[OF wf(2)] by auto
    then show ?thesis using False wf by (simp add: sparsedata_eq_def)
  qed
qed

section \<open>The comparison loops\<close>

lemma read_run_runs:
  assumes "wf_runs rs" "right_at rs rs1 (x # rs2) rread rvid rix"
  obtains rix' where "read_run rix rread = Inr (rix', rread + fst x)"
    "right_at rs (rs1 @ [x]) rs2 (rread + fst x) (Suc rvid) rix'"
proof -
  have pts: "points_at rix (fst x # map fst rs2)" and rs: "rs = rs1 @ x # rs2" "rread = runs_total rs1"
    using assms(2) by (simp_all add: right_at_def)
  obtain rix' where rix': "advance rix = Inr rix'" "points_at rix' (map fst rs2)"
    using cc.step_at[OF pts] by blast
  have "wf_runs (rs1 @ [x])" "wf_runs (x # rs2)"
    using assms(1) rs wf_runs_append[of "rs1 @ [x]" rs2] wf_runs_append[of rs1 "x # rs2"] by simp_all
  then have "to_int32 (rread + fst x) = rread + fst x" "to_int32 (fst x) = fst x"
    using wf_runs_total[of "rs1 @ [x]"] wf_runs_Cons[of x rs2] rs by auto
  then show ?thesis
    using that[of rix'] cc.peek_at[OF pts] rix' assms(2) by (simp add: read_run_def right_at_def)
qed

lemma last_run_nth:
  assumes "wf_runs rs" "right_at rs rs1 rs2 rread rvid rix" "rs1 \<noteq> []"
    "runs_total (butlast rs1) \<le> k" "k < rread"
  shows "expand rs ! nat k = snd (last rs1)"
proof -
  obtain zs z where rs1: "rs1 = zs @ [z]" using assms(3) by (cases rs1 rule: rev_cases) auto
  then show ?thesis
    using runs_split(1)[of rs "length zs" "k + 1"] assms(1,2,4,5)
    by (simp add: right_at_def nth_append)
qed

lemma compare_at_runs:
  assumes "sd_rep l ls" "sd_rep r rs" "right_at ls ls1 ls2 read i ix" "right_at rs rs1 rs2 rread j rix"
    "ls1 \<noteq> []" "rs1 \<noteq> []" "runs_total (butlast ls1) \<le> lo" "runs_total (butlast rs1) \<le> lo"
  obtains d where "compare_at differ l r i j = Inr d"
    "\<And>k. lo \<le> k \<Longrightarrow> k < min read rread \<Longrightarrow> differ (expand ls ! nat k) (expand rs ! nat k) = d"
proof -
  have v: "nth_res (vals l) (int i - 1) = Inr (snd (last ls1))" "nth_res (vals r) (int j - 1) = Inr (snd (last rs1))"
    using assms(1-6) by (auto simp: sd_rep_def right_at_def nth_res_def last_conv_nth nth_append Suc_le_eq
        nat_diff_distrib' of_nat_diff)
  show ?thesis
  proof (rule that[of "differ (snd (last ls1)) (snd (last rs1))"])
    show "compare_at differ l r i j = Inr (differ (snd (last ls1)) (snd (last rs1)))"
      using v by (simp add: compare_at_def)
    show "differ (expand ls ! nat k) (expand rs ! nat k) = differ (snd (last ls1)) (snd (last rs1))"
      if "lo \<le> k" "k < min read rread" for k
      using that assms last_run_nth[OF sd_rep_wf[OF assms(1)] assms(3,5), of k]
        last_run_nth[OF sd_rep_wf[OF assms(2)] assms(4,6), of k] by simp
  qed
qed

text \<open>The condition under which the last runs read overlap whatever is read next.\<close>

definition ahead :: "int \<Rightarrow> float8 runs \<Rightarrow> int \<Rightarrow> bool" where
  "ahead rread rs1 read \<longleftrightarrow> (read < rread \<longrightarrow> rs1 \<noteq> [] \<and> runs_total (butlast rs1) \<le> read)"

lemma all_interval_split:
  fixes lo hi m :: int
  assumes "lo < hi" "lo < m" "\<And>k. lo \<le> k \<Longrightarrow> k < hi \<Longrightarrow> P k = d"
  shows "(\<forall>k. lo \<le> k \<and> k < m \<longrightarrow> \<not> P k) \<longleftrightarrow> \<not> d \<and> (\<forall>k. hi \<le> k \<and> k < m \<longrightarrow> \<not> P k)"
proof (cases d)
  case True
  then show ?thesis using assms(3)[of lo] assms(1,2) by auto
next
  case False
  then have "\<not> P k" if "lo \<le> k" "k < hi" for k using assms(3) that by simp
  then have "(lo \<le> k \<and> k < m \<longrightarrow> \<not> P k) \<longleftrightarrow> (hi \<le> k \<and> k < m \<longrightarrow> \<not> P k)" for k
    using assms(1) by (cases "k < hi") auto
  then show ?thesis using False by simp
qed

lemma compare_loop_runs:
  assumes "sd_rep l ls" "sd_rep r rs" "m = min (runs_total ls) (runs_total rs)"
    and "right_at ls ls1 ls2 read i ix" "right_at rs rs1 rs2 rread j rix"
    "ahead read ls1 rread" "ahead rread rs1 read"
  shows "compare_loop differ l r m ix read i rix rread j =
           Inr (\<forall>k. min read rread \<le> k \<and> k < m \<longrightarrow> \<not> differ (expand ls ! nat k) (expand rs ! nat k))"
  using assms(4-)
proof (induction "length ls2 + length rs2" arbitrary: ls1 ls2 read i ix rs1 rs2 rread j rix rule: less_induct)
  case less
  note wf = sd_rep_wf[OF assms(1)] sd_rep_wf[OF assms(2)]
  let ?D = "\<lambda>k. differ (expand ls ! nat k) (expand rs ! nat k)"
  have "0 \<le> m" "m < 2 ^ 31" using wf_runs_total[OF wf(1)] wf_runs_total[OF wf(2)] assms(3) by auto
  then have m: "to_int32 m = m" by simp
  have split: "(\<forall>k. lo \<le> k \<and> k < m \<longrightarrow> \<not> ?D k) \<longleftrightarrow> \<not> d \<and> (\<forall>k. hi \<le> k \<and> k < m \<longrightarrow> \<not> ?D k)"
    if "lo < hi" "lo < m" "\<And>k. lo \<le> k \<Longrightarrow> k < hi \<Longrightarrow> ?D k = d" for lo hi d
    using that by (rule all_interval_split)
  consider (finished) "\<not> (read < m \<or> rread < m)" | (left) "read < rread" "read < m"
    | (right) "rread < read" "rread < m" | (both) "read = rread" "read < m"
    by linarith
  then show ?case
  proof cases
    case finished
    then show ?thesis using m by (subst compare_loop.simps) auto
  next
    case left
    then obtain x ls3 where ls2: "ls2 = x # ls3"
      using less.prems(1) assms(3) by (cases ls2) (auto simp: right_at_def)
    obtain ix' where ix': "read_run ix read = Inr (ix', read + fst x)"
      "right_at ls (ls1 @ [x]) ls3 (read + fst x) (Suc i) ix'"
      using read_run_runs[OF wf(1)] less.prems(1) ls2 by blast
    have x: "0 < fst x" using wf(1) less.prems(1) ls2 by (auto simp: right_at_def wf_runs_def)
    have rs1: "rs1 \<noteq> []" "runs_total (butlast rs1) \<le> read"
      using less.prems(4) left(1) by (simp_all add: ahead_def)
    obtain d where d: "compare_at differ l r (Suc i) j = Inr d"
      "\<And>k. read \<le> k \<Longrightarrow> k < min (read + fst x) rread \<Longrightarrow> ?D k = d"
      using compare_at_runs[OF assms(1,2) ix'(2) less.prems(2) _ rs1(1) _ rs1(2)] less.prems(1)
      by (auto simp: right_at_def)
    have "compare_loop differ l r m ix' (read + fst x) (Suc i) rix rread j =
        Inr (\<forall>k. min (read + fst x) rread \<le> k \<and> k < m \<longrightarrow> \<not> ?D k)"
      using less.hyps[OF _ ix'(2) less.prems(2)] ls2 left x less.prems(1,3,4)
      by (simp add: ahead_def right_at_def)
    then show ?thesis
      using split[of read "min (read + fst x) rread" d] d left x m ix'(1)
      by (subst compare_loop.simps) auto
  next
    case right
    then obtain y rs3 where rs2: "rs2 = y # rs3"
      using less.prems(2) assms(3) by (cases rs2) (auto simp: right_at_def)
    obtain rix' where rix': "read_run rix rread = Inr (rix', rread + fst y)"
      "right_at rs (rs1 @ [y]) rs3 (rread + fst y) (Suc j) rix'"
      using read_run_runs[OF wf(2)] less.prems(2) rs2 by blast
    have y: "0 < fst y" using wf(2) less.prems(2) rs2 by (auto simp: right_at_def wf_runs_def)
    have ls1: "ls1 \<noteq> []" "runs_total (butlast ls1) \<le> rread"
      using less.prems(3) right(1) by (simp_all add: ahead_def)
    obtain d where d: "compare_at differ l r i (Suc j) = Inr d"
      "\<And>k. rread \<le> k \<Longrightarrow> k < min read (rread + fst y) \<Longrightarrow> ?D k = d"
      using compare_at_runs[OF assms(1,2) less.prems(1) rix'(2) ls1(1) _ ls1(2)] less.prems(2)
      by (auto simp: right_at_def)
    have "compare_loop differ l r m ix read i rix' (rread + fst y) (Suc j) =
        Inr (\<forall>k. min read (rread + fst y) \<le> k \<and> k < m \<longrightarrow> \<not> ?D k)"
      using less.hyps[OF _ less.prems(1) rix'(2)] rs2 right y less.prems(2,3,4)
      by (simp add: ahead_def right_at_def)
    then show ?thesis
      using split[of rread "min read (rread + fst y)" d] d right y m rix'(1)
      by (subst compare_loop.simps) auto
  next
    case both
    then obtain x ls3 where ls2: "ls2 = x # ls3"
      using less.prems(1) assms(3) by (cases ls2) (auto simp: right_at_def)
    obtain y rs3 where rs2: "rs2 = y # rs3"
      using less.prems(2) both assms(3) by (cases rs2) (auto simp: right_at_def)
    obtain ix' where ix': "read_run ix read = Inr (ix', read + fst x)"
      "right_at ls (ls1 @ [x]) ls3 (read + fst x) (Suc i) ix'"
      using read_run_runs[OF wf(1)] less.prems(1) ls2 by blast
    obtain rix' where rix': "read_run rix rread = Inr (rix', rread + fst y)"
      "right_at rs (rs1 @ [y]) rs3 (rread + fst y) (Suc j) rix'"
      using read_run_runs[OF wf(2)] less.prems(2) rs2 by blast
    have xy: "0 < fst x" "0 < fst y"
      using wf less.prems(1,2) ls2 rs2 by (auto simp: right_at_def wf_runs_def)
    obtain d where d: "compare_at differ l r (Suc i) (Suc j) = Inr d"
      "\<And>k. read \<le> k \<Longrightarrow> k < min (read + fst x) (rread + fst y) \<Longrightarrow> ?D k = d"
      using compare_at_runs[OF assms(1,2) ix'(2) rix'(2), of read] less.prems(1,2) both
      by (auto simp: right_at_def)
    have "compare_loop differ l r m ix' (read + fst x) (Suc i) rix' (rread + fst y) (Suc j) =
        Inr (\<forall>k. min (read + fst x) (rread + fst y) \<le> k \<and> k < m \<longrightarrow> \<not> ?D k)"
      using less.hyps[OF _ ix'(2) rix'(2)] ls2 rs2 both xy less.prems(1,2)
      by (simp add: ahead_def right_at_def)
    then show ?thesis
      using split[of read "min (read + fst x) (rread + fst y)" d] d both xy m ix'(1) rix'(1)
      by (subst compare_loop.simps) auto
  qed
qed

lemma all_nat_less: "(\<forall>k. 0 \<le> k \<and> k < int n \<longrightarrow> P (nat k)) \<longleftrightarrow> (\<forall>k<n. P k)"
  by (metis nat_int nat_less_iff of_nat_0_le_iff of_nat_less_iff)

lemma compare_loop_start:
  assumes "sd_rep l ls" "sd_rep r rs" "m = min (total_value_count l) (total_value_count r)"
  shows "compare_loop differ l r m (index l) 0 0 (index r) 0 0 =
           Inr (\<forall>k < min (length (expand ls)) (length (expand rs)). \<not> differ (expand ls ! k) (expand rs ! k))"
proof -
  have "m = min (runs_total ls) (runs_total rs)" using assms by (simp add: sd_rep_def)
  moreover have "right_at ls [] ls 0 0 (index l)" "right_at rs [] rs 0 0 (index r)"
    using assms by (simp_all add: sd_rep_def right_at_def)
  ultimately have "compare_loop differ l r m (index l) 0 0 (index r) 0 0 =
      Inr (\<forall>k. 0 \<le> k \<and> k < m \<longrightarrow> \<not> differ (expand ls ! nat k) (expand rs ! nat k))"
    using compare_loop_runs[OF assms(1,2), of m "[]" ls 0 0 "index l" "[]" rs 0 0 "index r"]
    by (simp add: ahead_def)
  moreover have "m = int (min (length (expand ls)) (length (expand rs)))"
    using assms wf_runs_length[OF sd_rep_wf[OF assms(1)]] wf_runs_length[OF sd_rep_wf[OF assms(2)]]
    by (simp add: sd_rep_def)
  ultimately show ?thesis
    using all_nat_less[of "min (length (expand ls)) (length (expand rs))"
        "\<lambda>k. \<not> differ (expand ls ! k) (expand rs ! k)"] by simp
qed

section \<open>Accumulation\<close>

lemma accum_runs:
  assumes "sd_rep s rs"
  shows "accum_sdata_values_double s func =
           Inr (fold (\<lambda>(n, v) accum. f64_add accum (f64_mul (func v) (f64_of_int n))) rs f64_zero)"
proof -
  have "accum_sdata_values_double s func =
      foldM (\<lambda>r accum. Inr (f64_add accum (f64_mul (func (snd r)) (f64_of_int (fst r))))) rs f64_zero"
    unfolding accum_sdata_values_double_def by (rule sd_loop[OF assms]) (simp add: sd_vals_nth[OF assms])
  also have "\<dots> = Inr (fold (\<lambda>(n, v) accum. f64_add accum (f64_mul (func v) (f64_of_int n))) rs f64_zero)"
    by (rule foldM_fold) (simp add: split_beta)
  finally show ?thesis .
qed

section \<open>Properties\<close>

text \<open>
  C3: On two well-formed non-empty structures \<open>op_sdata_by_sdata\<close> reports different dimensions;
  on equal dimensions it computes the operation element by element on the expanded arrays,
  although it only visits each pair of overlapping runs once, and leaves the result well-formed
  with no equal neighbours.
\<close>

theorem op_sdata_by_sdata_pointwise:
  assumes "sd_rep l ls" "sd_rep r rs" "ls \<noteq> []" "rs \<noteq> []"
  shows "if length (expand ls) = length (expand rs)
         then \<exists>t ws. op_sdata_by_sdata operation l r = Inr t \<and> sd_rep t ws \<and> distinct_adj (vals t) \<and>
                sdata_to_float8arr t = Inr (map2 (float8_op operation) (expand ls) (expand rs))
         else op_sdata_by_sdata operation l r = Inl (Report ''dimensions of vectors must be the same'')"
proof -
  have len: "length (expand ls) = length (expand rs) \<longleftrightarrow> runs_total ls = runs_total rs"
    using wf_runs_length[OF sd_rep_wf[OF assms(1)]] wf_runs_length[OF sd_rep_wf[OF assms(2)]] by linarith
  show ?thesis
  proof (cases "runs_total ls = runs_total rs")
    case True
    then obtain ws where ws: "op_sdata_by_sdata operation l r = Inr (sd_of_runs ws)" "wf_runs ws"
      "canonical ws" "expand ws = map2 (float8_op operation) (expand ls) (expand rs)"
      using op_sdata_by_sdata_runs[OF assms(1-3)] by blast
    have "sd_rep (sd_of_runs ws) ws" using ws(2) by simp
    then show ?thesis
      using ws sdata_to_float8arr_runs[of "sd_of_runs ws" ws] len True
      by (auto simp: canonical_def simp del: sd_rep_of_runs)
  qed (use len op_sdata_by_sdata_dims[OF assms] in simp)
qed

theorem op_sdata_by_sdata_pointwise_witness:
  "\<exists>t. op_sdata_by_sdata Add (sd_of_runs [(2, f64_of_int 1)]) (sd_of_runs [(1, f64_of_int 2), (1, f64_of_int 3)]) = Inr t \<and>
     sdata_to_float8arr t = Inr [f64_of_int 3, f64_of_int 4]"
proof -
  have "f64_add (f64_of_int 1) (f64_of_int 2) = f64_of_int 3" "f64_add (f64_of_int 1) (f64_of_int 3) = f64_of_int 4"
    by code_simp+
  then show ?thesis
    using op_sdata_by_sdata_pointwise[of "sd_of_runs [(2, f64_of_int 1)]" "[(2, f64_of_int 1)]"
        "sd_of_runs [(1, f64_of_int 2), (1, f64_of_int 3)]" "[(1, f64_of_int 2), (1, f64_of_int 3)]" Add]
    by (auto simp: wf_runs_def float8_op_def numeral_2_eq_2)
qed

text \<open>
  \<open>op_sdata_by_scalar_copy\<close> applies the operation with the scalar on the requested side to
  every element of the expanded array and keeps the runs.
\<close>

theorem op_sdata_by_scalar_pointwise:
  assumes "sd_rep s rs"
  shows "\<exists>t. op_sdata_by_scalar_copy operation scalar s scalar_is_right = Inr t \<and>
           (\<exists>ws. sd_rep t ws \<and> map fst ws = map fst rs) \<and>
           sdata_to_float8arr t = Inr (map (\<lambda>v. if scalar_is_right then float8_op operation v scalar
                                                else float8_op operation scalar v) (expand rs))"
proof -
  let ?f = "\<lambda>v. if scalar_is_right then float8_op operation v scalar else float8_op operation scalar v"
  obtain t where t: "map_sdata_values ?f s = Inr t" "sd_rep t (map (map_prod id ?f) rs)"
    using map_sdata_values_runs[OF assms] by blast
  have copy: "op_sdata_by_scalar_copy operation scalar s scalar_is_right = map_sdata_values ?f s"
    by (simp add: op_sdata_by_scalar_copy_def op_sdata_by_scalar_inplace_def)
  have "map fst (map (map_prod id ?f) rs) = map fst rs" by simp
  moreover have "sdata_to_float8arr t = Inr (map ?f (expand rs))"
    using sdata_to_float8arr_runs[OF t(2)] unfolding expand_map .
  ultimately show ?thesis
    unfolding copy using t by blast
qed

theorem op_sdata_by_scalar_pointwise_witness:
  "\<exists>t. op_sdata_by_scalar_copy Subtract (f64_of_int 1) (sd_of_runs [(2, f64_of_int 3)]) True = Inr t \<and>
     sdata_to_float8arr t = Inr [f64_of_int 2, f64_of_int 2]"
proof -
  have "f64_sub (f64_of_int 3) (f64_of_int 1) = f64_of_int 2" by code_simp
  then show ?thesis
    using op_sdata_by_scalar_pointwise[of "sd_of_runs [(2, f64_of_int 3)]" "[(2, f64_of_int 3)]"
        Subtract "f64_of_int 1" True]
    by (auto simp: wf_runs_def float8_op_def numeral_2_eq_2)
qed

text \<open>
  C4: \<open>sparsedata_eq\<close> returns true exactly when the two structures expand to the same array, bit
  for bit, even if they are split into runs differently.
\<close>

theorem sparsedata_eq_iff:
  assumes "sd_rep l ls" "sd_rep r rs"
  shows "sparsedata_eq l r = Inr (expand ls = expand rs)"
  by (rule sparsedata_eq_runs[OF assms])

theorem sparsedata_eq_iff_witness:
  "sparsedata_eq (sd_of_runs [(2, 5), (1, 5)]) (sd_of_runs [(3, 5)]) = Inr True"
  using sparsedata_eq_iff[of "sd_of_runs [(2, 5), (1, 5)]" "[(2, 5), (1, 5)]" "sd_of_runs [(3, 5)]" "[(3, 5)]"]
  by (simp add: wf_runs_def numeral_2_eq_2 numeral_3_eq_3)

text \<open>
  \<open>sparsedata_eq_zero_is_equal\<close> compares the common prefix of the two arrays and accepts a
  pair of elements when they are equal or one of them is zero; \<open>sparsedata_contains\<close>, when the
  second array is not longer, accepts a pair when they are equal or the second is zero.
\<close>

theorem zero_comparisons:
  assumes "sd_rep l ls" "sd_rep r rs"
  shows "sparsedata_eq_zero_is_equal l r =
           Inr (\<forall>k < min (length (expand ls)) (length (expand rs)).
                  expand ls ! k = expand rs ! k \<or> f64_eq (expand ls ! k) f64_zero \<or> f64_eq (expand rs ! k) f64_zero) \<and>
         (length (expand rs) \<le> length (expand ls) \<longrightarrow> sparsedata_contains l r =
           Inr (\<forall>k < length (expand rs). expand ls ! k = expand rs ! k \<or> f64_eq (expand rs ! k) f64_zero))"
proof -
  have t: "total_value_count l = int (length (expand ls))" "total_value_count r = int (length (expand rs))"
    using assms wf_runs_length[OF sd_rep_wf[OF assms(1)]] wf_runs_length[OF sd_rep_wf[OF assms(2)]]
    by (simp_all add: sd_rep_def)
  have m: "(if total_value_count l > total_value_count r then total_value_count r else total_value_count l) =
      min (total_value_count l) (total_value_count r)" by simp
  note start = compare_loop_start[OF assms m]
  show ?thesis
  proof (intro conjI impI)
    show "sparsedata_contains l r =
        Inr (\<forall>k < length (expand rs). expand ls ! k = expand rs ! k \<or> f64_eq (expand rs ! k) f64_zero)"
      if "length (expand rs) \<le> length (expand ls)"
    proof -
      have "k < min (length (expand ls)) (length (expand rs)) \<longleftrightarrow> k < length (expand rs)" for k
        using that by auto
      then show ?thesis
        using start[of differ_right_non_zero] t that
        by (cases "length (expand rs) < length (expand ls)")
          (simp_all add: sparsedata_contains_def differ_right_non_zero_def Let_def)
    qed
  qed (use start[of differ_non_zero] in
    \<open>simp add: sparsedata_eq_zero_is_equal_def differ_non_zero_def Let_def\<close>)
qed

theorem zero_comparisons_witness:
  "sparsedata_eq_zero_is_equal (sd_of_runs [(2, 5)]) (sd_of_runs [(1, 0), (1, 5)]) = Inr True \<and>
   sparsedata_contains (sd_of_runs [(1, 5)]) (sd_of_runs [(1, 5)]) = Inr True"
  using zero_comparisons[of "sd_of_runs [(2, 5)]" "[(2, 5)]" "sd_of_runs [(1, 0), (1, 5)]" "[(1, 0), (1, 5)]"]
    zero_comparisons[of "sd_of_runs [(1, 5)]" "[(1, 5)]" "sd_of_runs [(1, 5)]" "[(1, 5)]"]
  by (simp add: wf_runs_def numeral_2_eq_2 less_Suc_eq all_conj_distrib f64_eq_def f64_zero_def f64_is_nan_def
      f64_mag_def f64_inf_bits_def)

text \<open>
  \<open>sparsedata_contains\<close> answers true for a longer second array that holds a non-zero element
  beyond the end of the first, as long as its last element is zero: only the last value is tested.
\<close>

theorem contains_ignores_tail:
  "sparsedata_contains (sd_of_runs [(1, 0)]) (sd_of_runs [(1, 0), (1, f64_of_int 5), (1, 0)]) = Inr True"
  by code_simp

end
