(* ===== verification/SvecFacts.thy ===== *)
theory SvecFacts
  imports SvecOps SparseOpsFacts
begin

text \<open>
  What the svec operators compute on the arrays the vectors stand for: \<open>svec_rep sv rs\<close> says that
  the vector \<open>sv\<close> holds the runs \<open>rs\<close> and that its \<open>dimension\<close> is the one the constructors set.
\<close>

definition svec_rep :: "svec \<Rightarrow> float8 runs \<Rightarrow> bool" where
  "svec_rep sv rs \<longleftrightarrow> sd_rep (sdata_from_svec sv) rs \<and>
     dimension sv = (if runs_total rs = 1 then -1 else runs_total rs)"

lemma encode_count_not_Nil [simp]: "encode_count n \<noteq> []"
  by (simp add: encode_count_def Let_def)

lemma encode_index_Nil_iff [simp]: "encode_index ns = [] \<longleftrightarrow> ns = []"
  by (cases ns) simp_all

lemma sd_rep_serial:
  "sd_rep s rs \<Longrightarrow> sd_rep (sdata_from_svec (svec_from_sparsedata s)) rs"
  by (cases "index s")
    (auto simp: sd_rep_def sdata_from_svec_def svec_from_sparsedata_def svec_from_sparsedata_untrimmed_def
      index_len_def index_bytes_def points_at_def)

lemma svec_rep_from_sparsedata: "sd_rep s rs \<Longrightarrow> svec_rep (svec_from_sparsedata s) rs"
  using sd_rep_serial[of s rs]
  by (simp add: svec_rep_def svec_from_sparsedata_def svec_from_sparsedata_untrimmed_def sd_rep_def)

lemma svec_rep_sd: "svec_rep sv rs \<Longrightarrow> sd_rep (sdata_from_svec sv) rs"
  by (simp add: svec_rep_def)

lemma svec_rep_array: "svec_rep sv rs \<Longrightarrow> svec_return_array_internal sv = Inr (expand rs)"
  by (simp add: svec_rep_def svec_return_array_internal_def sdata_to_float8arr_runs)

lemma svec_rep_scalar: "svec_rep sv rs \<Longrightarrow> IS_SCALAR sv \<longleftrightarrow> length (expand rs) = 1"
  using wf_runs_length[of rs] wf_runs_total[of rs]
  by (auto simp: svec_rep_def IS_SCALAR_def dest: sd_rep_wf)

lemma svec_rep_length:
  "svec_rep sv rs \<Longrightarrow> int (length (expand rs)) = runs_total rs \<and> svec_dimension sv = int (length (expand rs))"
  using wf_runs_length[of rs] wf_runs_total[of rs]
  by (auto simp: svec_rep_def svec_dimension_def dest: sd_rep_wf)

lemma svec_rep_hd:
  assumes "svec_rep sv rs" "rs \<noteq> []"
  shows "nth_res (vals (sdata_from_svec sv)) 0 = Inr (hd (expand rs))" "expand rs \<noteq> []"
proof -
  have "vals (sdata_from_svec sv) = map snd rs" "\<forall>r\<in>set rs. 0 < fst r"
    using assms(1) by (auto simp: svec_rep_def sd_rep_def wf_runs_def)
  then show "nth_res (vals (sdata_from_svec sv)) 0 = Inr (hd (expand rs))" "expand rs \<noteq> []"
    using assms(2) by (cases rs; simp add: nth_res_def hd_append)+
qed

section \<open>Scalars\<close>

lemma svec_make_scalar_rep: "\<exists>sv. svec_make_scalar v = Inr sv \<and> svec_rep sv [(1, v)]"
proof -
  have rep: "sd_rep (sd_of_runs [(1, v)]) [(1, v)]" by (simp add: wf_runs_def)
  have "float8arr_to_sdata [v] 1 = Inr (sd_of_runs [(1, v)])"
    using add_run_of_runs[of "[]" 1 v]
    by (simp add: float8arr_to_sdata_def arr_to_sdata_def makeSparseData_runs wf_runs_def sd_of_runs_def)
  moreover have "(svec_from_sparsedata (sd_of_runs [(1, v)]))\<lparr>dimension := -1\<rparr> = svec_from_sparsedata (sd_of_runs [(1, v)])"
    by (simp add: svec_from_sparsedata_def svec_from_sparsedata_untrimmed_def)
  ultimately show ?thesis
    using svec_rep_from_sparsedata[OF rep] by (simp add: svec_make_scalar_def)
qed

section \<open>Arithmetic\<close>

definition svec_arith :: "operation_t \<Rightarrow> svec \<Rightarrow> svec \<Rightarrow> svec res" where
  "svec_arith op = (case op of Subtract \<Rightarrow> svec_minus | Add \<Rightarrow> svec_plus | Multiply \<Rightarrow> svec_mult | Divide \<Rightarrow> svec_div)"

text \<open>A one-element operand is combined with every element of the other.\<close>

definition broadcast :: "('a \<Rightarrow> 'a \<Rightarrow> 'a) \<Rightarrow> 'a list \<Rightarrow> 'a list \<Rightarrow> 'a list" where
  "broadcast f xs ys =
     (if length xs = 1 then map (f (hd xs)) ys else if length ys = 1 then map (\<lambda>x. f x (hd ys)) xs else map2 f xs ys)"

lemma op_svec_by_svec_rep:
  assumes "svec_rep a rs" "svec_rep b qs" "rs \<noteq> []" "qs \<noteq> []"
    and "length (expand rs) = 1 \<or> length (expand qs) = 1 \<or> length (expand rs) = length (expand qs)"
  shows "\<exists>t ws. op_svec_by_svec_internal op a b = Inr t \<and> svec_rep t ws \<and>
           expand ws = broadcast (float8_op op) (expand rs) (expand qs)"
proof -
  note sd = svec_rep_sd[OF assms(1)] svec_rep_sd[OF assms(2)]
  note sc = svec_rep_scalar[OF assms(1)] svec_rep_scalar[OF assms(2)]
  note v = svec_rep_hd[OF assms(1,3)] svec_rep_hd[OF assms(2,4)]
  have copy: "\<exists>t. op_sdata_by_scalar_copy op x s right = Inr t \<and>
      sd_rep t (map (map_prod id (\<lambda>v. if right then float8_op op v x else float8_op op x v)) us)"
    if "sd_rep s us" for x s us right
    using map_sdata_values_runs[OF that] by (auto simp: op_sdata_by_scalar_copy_def op_sdata_by_scalar_inplace_def)
  consider (both) "length (expand rs) = 1" "length (expand qs) = 1"
    | (left) "length (expand rs) = 1" "length (expand qs) \<noteq> 1"
    | (right) "length (expand rs) \<noteq> 1" "length (expand qs) = 1"
    | (none) "length (expand rs) \<noteq> 1" "length (expand qs) \<noteq> 1" "length (expand rs) = length (expand qs)"
    using assms(5) by blast
  then show ?thesis
  proof cases
    case both
    then obtain x y where xy: "expand rs = [x]" "expand qs = [y]"
      by (metis One_nat_def length_0_conv length_Suc_conv)
    obtain sv where "svec_make_scalar (float8_op op x y) = Inr sv" "svec_rep sv [(1, float8_op op x y)]"
      using svec_make_scalar_rep by blast
    then show ?thesis
      using both v xy sc
      by (intro exI[of _ sv] exI[of _ "[(1, float8_op op x y)]"])
        (simp add: op_svec_by_svec_internal_def svec_operate_on_sdata_pair_def check_scalar_def broadcast_def)
  next
    case left
    obtain t where t: "op_sdata_by_scalar_copy op (hd (expand rs)) (sdata_from_svec b) False = Inr t"
      "sd_rep t (map (map_prod id (float8_op op (hd (expand rs)))) qs)"
      using copy[OF sd(2), of "hd (expand rs)" False] by auto
    then show ?thesis
      using left v sc svec_rep_from_sparsedata[OF t(2)]
      by (intro exI[of _ "svec_from_sparsedata t"] exI)
        (auto simp: op_svec_by_svec_internal_def svec_operate_on_sdata_pair_def check_scalar_def broadcast_def expand_map)
  next
    case right
    obtain t where t: "op_sdata_by_scalar_copy op (hd (expand qs)) (sdata_from_svec a) True = Inr t"
      "sd_rep t (map (map_prod id (\<lambda>v. float8_op op v (hd (expand qs)))) rs)"
      using copy[OF sd(1), of "hd (expand qs)" True] by auto
    then show ?thesis
      using right v sc svec_rep_from_sparsedata[OF t(2)]
      by (intro exI[of _ "svec_from_sparsedata t"] exI)
        (auto simp: op_svec_by_svec_internal_def svec_operate_on_sdata_pair_def check_scalar_def broadcast_def expand_map)
  next
    case none
    have "runs_total rs = runs_total qs"
      using none(3) svec_rep_length[OF assms(1)] svec_rep_length[OF assms(2)] by simp
    then obtain ws where ws: "op_sdata_by_sdata op (sdata_from_svec a) (sdata_from_svec b) = Inr (sd_of_runs ws)"
      "wf_runs ws" "expand ws = map2 (float8_op op) (expand rs) (expand qs)"
      using op_sdata_by_sdata_runs[OF sd assms(3)] by blast
    then show ?thesis
      using none sc svec_rep_from_sparsedata[of "sd_of_runs ws" ws]
      by (intro exI[of _ "svec_from_sparsedata (sd_of_runs ws)"] exI[of _ ws])
        (simp add: op_svec_by_svec_internal_def svec_operate_on_sdata_pair_def check_scalar_def broadcast_def)
  qed
qed

section \<open>Unnesting\<close>

text \<open>\<open>xs\<close> is what the context \<open>f\<close> of \<open>svec_unnest\<close> has still to return.\<close>

definition unnest_rest :: "sdata \<Rightarrow> float8 runs \<Rightarrow> unnest_fctx \<Rightarrow> float8 list \<Rightarrow> bool" where
  "unnest_rest s rs f xs \<longleftrightarrow> u_sdata f = s \<and> u_dimension f = runs_total rs \<and>
     (\<exists>rs1 rs2. rs = rs1 @ rs2 \<and> points_at (index_position f) (map fst rs2) \<and>
        unique_value_position f = length rs1 \<and> absolute_value_position f + int (length xs) = runs_total rs \<and>
        (if rs2 = [] then xs = []
         else 1 \<le> run_position f \<and> run_position f \<le> fst (hd rs2) \<and>
              xs = replicate (nat (fst (hd rs2) - (run_position f - 1))) (snd (hd rs2)) @ expand (tl rs2)) \<and>
        (index_position f = None \<longleftrightarrow> index s = None))"

lemma unnest_restI:
  assumes "rs = rs1 @ rs2" "u_sdata f = s" "u_dimension f = runs_total rs"
    "points_at (index_position f) (map fst rs2)" "unique_value_position f = length rs1"
    "absolute_value_position f + int (length xs) = runs_total rs"
    "rs2 = [] \<Longrightarrow> xs = []"
    "rs2 \<noteq> [] \<Longrightarrow> 1 \<le> run_position f \<and> run_position f \<le> fst (hd rs2) \<and>
       xs = replicate (nat (fst (hd rs2) - (run_position f - 1))) (snd (hd rs2)) @ expand (tl rs2)"
    "index_position f = None \<longleftrightarrow> index s = None"
  shows "unnest_rest s rs f xs"
  unfolding unnest_rest_def using assms by (intro conjI exI[of _ rs1] exI[of _ rs2]) auto

lemma replicate_nat_Cons: "0 < n \<Longrightarrow> replicate (nat n) v = v # replicate (nat (n - 1)) v"
  by (cases "nat n") (auto simp: nat_diff_distrib')

lemma unnest_next_rest:
  assumes "sd_rep s rs" "unnest_rest s rs f (y # ys)"
  shows "\<exists>f'. unnest_next f = Inr (Some (null_if_nvp y, f')) \<and> unnest_rest s rs f' ys"
proof -
  obtain rs1 x rs2 where st: "u_sdata f = s" "u_dimension f = runs_total rs" "rs = rs1 @ x # rs2"
    "points_at (index_position f) (fst x # map fst rs2)" "unique_value_position f = length rs1"
    "absolute_value_position f + 1 + int (length ys) = runs_total rs"
    "1 \<le> run_position f" "run_position f \<le> fst x"
    "y # ys = replicate (nat (fst x - (run_position f - 1))) (snd x) @ expand rs2"
    "index_position f = None \<longleftrightarrow> index s = None"
    using assms(2) by (auto simp: unnest_rest_def neq_Nil_conv split: if_splits)
  have wf: "wf_runs (x # rs2)" using sd_rep_wf[OF assms(1)] st(3) wf_runs_append by blast
  have x: "to_int32 (fst x) = fst x" using wf_runs_Cons[OF wf] by simp
  have yv: "y = snd x" "ys = replicate (nat (fst x - run_position f)) (snd x) @ expand rs2"
    using st(7,8,9) replicate_nat_Cons[of "fst x - (run_position f - 1)" "snd x"] by simp_all
  have val: "nth_res (vals s) (int (length rs1)) = Inr (snd x)"
    using sd_vals_nth[OF assms(1), of "length rs1"] st(3) by simp
  obtain c where c: "advance (index_position f) = Inr c" "points_at c (map fst rs2)"
    "c = None \<longleftrightarrow> index_position f = None"
    using cc.step_at[OF st(4)] by (auto simp: advance_def rbind_eq_Inr_iff split: option.splits)
  note peek = cc.peek_at[OF st(4)]
  show ?thesis
  proof (cases "run_position f = fst x")
    case False
    let ?f = "f\<lparr>absolute_value_position := absolute_value_position f + 1, run_position := run_position f + 1\<rparr>"
    have "unnest_rest s rs ?f ys"
      using st yv False by (intro unnest_restI[of rs rs1 "x # rs2"]) simp_all
    then show ?thesis
      using st peek x val False yv(1) by (simp add: unnest_next_def Let_def null_if_nvp_def)
  next
    case True
    let ?f = "f\<lparr>absolute_value_position := absolute_value_position f + 1, run_position := 1,
      unique_value_position := Suc (length rs1), index_position := c\<rparr>"
    have pos: "rs2 \<noteq> [] \<Longrightarrow> 1 \<le> fst (hd rs2)"
      using wf by (cases rs2) (auto simp: wf_runs_def)
    have ex: "rs2 \<noteq> [] \<Longrightarrow> expand rs2 = replicate (nat (fst (hd rs2))) (snd (hd rs2)) @ expand (tl rs2)"
      by (cases rs2) auto
    have "unnest_rest s rs ?f ys"
      using st yv True c pos ex by (intro unnest_restI[of rs "rs1 @ [x]" rs2]) simp_all
    then show ?thesis
      using st peek x val True yv(1) c(1)
      by (simp add: unnest_next_def Let_def null_if_nvp_def)
  qed
qed

lemma unnest_next_end:
  assumes "sd_rep s rs" "unnest_rest s rs f []"
  shows "unnest_next f = (if index s = None then Inr None else Inl Undefined)"
proof -
  obtain rs2 where st: "u_dimension f = absolute_value_position f" "points_at (index_position f) (map fst rs2)"
    "rs2 = []" "index_position f = None \<longleftrightarrow> index s = None"
    using assms(2) by (auto simp: unnest_rest_def split: if_splits)
  then show ?thesis
    by (cases "index_position f")
      (auto simp: unnest_next_def compword_null points_at_def compword_to_int8_def)
qed

lemma unnest_rows_rest:
  assumes "sd_rep s rs" "unnest_rest s rs f xs"
  shows "\<exists>f'. unnest_rows (length xs) f = Inr (map null_if_nvp xs, f') \<and> unnest_rest s rs f' []"
  using assms(2)
proof (induction xs arbitrary: f)
  case (Cons y ys)
  then show ?case using unnest_next_rest[OF assms(1) Cons.prems] by fastforce
qed simp

lemma unnest_first_rest:
  assumes "svec_rep sv rs"
  shows "unnest_rest (sdata_from_svec sv) rs (unnest_first sv) (expand rs)"
proof -
  note wf = sd_rep_wf[OF svec_rep_sd[OF assms]]
  have "points_at (index (sdata_from_svec sv)) (map fst rs)"
    using svec_rep_sd[OF assms] by (simp add: sd_rep_def)
  moreover have "rs \<noteq> [] \<Longrightarrow> 1 \<le> fst (hd rs) \<and>
      expand rs = replicate (nat (fst (hd rs))) (snd (hd rs)) @ expand (tl rs)"
    using wf by (cases rs) (auto simp: wf_runs_def)
  ultimately show ?thesis
    using wf_runs_length[OF wf] wf_runs_total[OF wf] assms
    by (intro unnest_restI[of rs "[]" rs]) (auto simp: unnest_first_def svec_rep_def Let_def)
qed

section \<open>Binary messages\<close>

lemma load32_word: "load32 [ucast w, ucast (drop_bit 8 w), ucast (drop_bit 16 w), ucast (drop_bit 24 w)] = (w :: 32 word)"
  (is "?l = _")
proof (rule bit_word_eqI)
  fix n assume "n < LENGTH(32)"
  then have "n < 32" by simp
  from split32[OF this] show "bit ?l n = bit w n"
    by (elim exE disjE conjE) (simp_all add: load32_def bit_simps)
qed

lemma getmsgint4: "pq_getmsgint4 (pq_sendint4 n @ buf) = Inr (to_int32 n, buf)"
proof -
  have "sint (word_of_int n :: 32 word) = to_int32 n"
    by (simp add: sint_sbintrunc' signed_take_bit_eq_take_bit_shift take_bit_eq_mod to_int32_def)
  moreover have "rev (pq_sendint4 n) = [ucast (word_of_int n :: 32 word), ucast (drop_bit 8 (word_of_int n :: 32 word)),
      ucast (drop_bit 16 (word_of_int n :: 32 word)), ucast (drop_bit 24 (word_of_int n :: 32 word))]"
    by (simp add: pq_sendint4_def Let_def)
  moreover have "length (pq_sendint4 n) = 4" by (simp add: pq_sendint4_def Let_def)
  ultimately show ?thesis
    using load32_word[of "word_of_int n"] by (simp add: pq_getmsgint4_def pq_getmsgbytes_def)
qed

lemma getmsgbytes: "pq_getmsgbytes (int (length xs)) (xs @ buf) = Inr (xs, buf)"
  by (simp add: pq_getmsgbytes_def)

lemma doubles_of_bytes: "doubles_of (float8_bytes v @ bs) = rbind (doubles_of bs) (\<lambda>vs. Inr (v # vs))"
  using load64_bytes[of v "[]"] by (simp add: float8_bytes_def)

lemma doubles_of_concat: "doubles_of (concat (map float8_bytes vs)) = Inr vs"
  by (induction vs) (simp_all add: doubles_of_bytes)

lemma length_float8_bytes: "length (concat (map float8_bytes vs)) = 8 * length vs"
  by (induction vs) (simp_all add: float8_bytes_def)

lemma svec_recv_send:
  assumes "svec_rep sv rs" "vals_len (sdata_from_svec sv) < 2 ^ 31" "index_len (sdata_from_svec sv) < 2 ^ 31"
  shows "\<exists>t. svec_recv (svec_send sv) = Inr t \<and> svec_rep t rs"
proof -
  let ?s = "sdata_from_svec sv"
  have rep: "sd_rep ?s rs" using assms(1) by (rule svec_rep_sd)
  then have f: "type_of_data ?s = 701" "unique_value_count ?s = int (length rs)" "total_value_count ?s = runs_total rs"
    "vals ?s = map snd rs" "points_at (index ?s) (map fst rs)" "wf_runs rs"
    by (simp_all add: sd_rep_def FLOAT8OID_def)
  have n: "to_int32 701 = 701" "to_int32 (unique_value_count ?s) = unique_value_count ?s"
    "to_int32 (total_value_count ?s) = total_value_count ?s" "to_int32 (vals_len ?s) = vals_len ?s"
    "to_int32 (index_len ?s) = index_len ?s"
    using assms(2,3) wf_runs_total[OF f(6)] length_runs_le[of rs] f(2,3,6)
    by (simp_all add: vals_len_def index_len_def wf_runs_def)
  let ?t = "makeEmptySparseData\<lparr>type_of_data := 701, unique_value_count := unique_value_count ?s,
    total_value_count := total_value_count ?s, vals := vals ?s, index := Some (index_bytes (index ?s))\<rparr>"
  have recv: "svec_recv (svec_send sv) = Inr (svec_from_sparsedata ?t)"
    using getmsgbytes[of "concat (map float8_bytes (vals ?s))" "index_bytes (index ?s)"]
      getmsgbytes[of "index_bytes (index ?s)" "[]"]
    by (simp add: svec_send_def svec_recv_def Let_def getmsgint4 n f(1) vals_len_def[symmetric] index_len_def[symmetric]
        length_float8_bytes doubles_of_concat)
  have "sd_rep (sdata_from_svec (svec_from_sparsedata ?t)) rs"
    using f by (cases "index ?s")
      (auto simp: sdata_from_svec_def svec_from_sparsedata_def svec_from_sparsedata_untrimmed_def index_len_def
        index_bytes_def makeEmptySparseData_def sd_rep_def points_at_def FLOAT8OID_def)
  then show ?thesis
    using recv assms(1)
    by (auto simp: svec_rep_def svec_from_sparsedata_def svec_from_sparsedata_untrimmed_def f)
qed

section \<open>Null bitmaps\<close>

definition bitmap_bits :: "byte list \<Rightarrow> bool list" where
  "bitmap_bits bm = concat (map (\<lambda>b. map (bit b) [0..<8]) bm)"

text \<open>The array with \<open>NVP\<close> where the element is not present and the stored elements elsewhere.\<close>

fun fill_nulls :: "bool list \<Rightarrow> float8 list \<Rightarrow> float8 list" where
  "fill_nulls [] vs = []"
| "fill_nulls (False # ps) vs = NVP # fill_nulls ps vs"
| "fill_nulls (True # ps) vs = hd vs # fill_nulls ps (tl vs)"

lemma bitmap_bits_Cons: "bitmap_bits (b # bm) = map (bit b) [0..<8] @ bitmap_bits bm"
  by (simp add: bitmap_bits_def)

lemma length_bitmap_bits: "length (bitmap_bits bm) = 8 * length bm"
  by (induction bm) (simp_all add: bitmap_bits_def)

lemma drop_bitmap_bits:
  "k < 8 \<Longrightarrow> drop k (bitmap_bits (b # bm)) = bit b k # drop (Suc k) (bitmap_bits (b # bm))"
  by (subst Cons_nth_drop_Suc [symmetric]) (simp_all add: length_bitmap_bits bitmap_bits_Cons nth_append)

lemma uint_and_mask: "uint (b :: byte) AND 2 ^ k = 0 \<longleftrightarrow> \<not> bit b k"
  by (auto simp: and_exp_eq_0_iff_not_bit bit_uint_iff dest: bit_imp_le_length)

lemma nulls_to_nvp_fill:
  assumes "k < 8" "n + k \<le> 8 * length bm" "length (filter id (take n (drop k (bitmap_bits bm)))) \<le> length vs"
  shows "nulls_to_nvp n bm (2 ^ k) vs = Inr (fill_nulls (take n (drop k (bitmap_bits bm))) vs)"
  using assms
proof (induction n arbitrary: k bm vs)
  case (Suc n)
  then obtain b bm' where bm: "bm = b # bm'" by (cases bm) auto
  let ?k = "if k = 7 then 0 else Suc k" and ?bm = "if k = 7 then bm' else bm"
  have mask: "(2 :: int) ^ k * 2 = 0x100 \<longleftrightarrow> k = 7"
    using power_inject_exp[of "2 :: int" "Suc k" 8] by (simp add: mult.commute)
  have d: "drop (Suc k) (bitmap_bits bm) = drop ?k (bitmap_bits ?bm)"
    using bm by (simp add: bitmap_bits_Cons)
  have tk: "take (Suc n) (drop k (bitmap_bits bm)) = bit b k # take n (drop ?k (bitmap_bits ?bm))"
    using drop_bitmap_bits[OF Suc.prems(1), of b bm'] bm d by simp
  have step: "nulls_to_nvp (Suc n) bm (2 ^ k) vs =
      (if \<not> bit b k then rbind (nulls_to_nvp n ?bm (2 ^ ?k) vs) (\<lambda>vs. Inr (NVP # vs))
       else case vs of [] \<Rightarrow> Inl Undefined
            | v # vs \<Rightarrow> rbind (nulls_to_nvp n ?bm (2 ^ ?k) vs) (\<lambda>vs. Inr (v # vs)))"
    using bm mask uint_and_mask[of b k] uint_and_mask[of b 7]
    by (cases vs; cases "k = 7") (simp_all add: Let_def mult.commute[of _ 2])
  have k: "?k < 8" "n + ?k \<le> 8 * length ?bm" using Suc.prems(1,2) bm by auto
  show ?case
    using Suc.IH[OF k] Suc.prems(3) unfolding step tk by (cases vs) auto
qed simp

lemma length_fill_nulls [simp]: "length (fill_nulls ps vs) = length ps"
  by (induction ps vs rule: fill_nulls.induct) auto

section \<open>Casts and updates\<close>

lemma svec_from_array_rep:
  assumes "a \<noteq> []" "int (length a) < 2 ^ 31"
  shows "\<exists>s rs. float8arr_to_sdata a (int (length a)) = Inr s \<and> svec_rep (svec_from_sparsedata s) rs \<and> expand rs = a"
proof -
  obtain rs where "float8arr_to_sdata a (int (length a)) = Inr (sd_of_runs rs)" "wf_runs rs" "expand rs = a"
    using arr_to_sdata_runs[of a "int (length a)"] assms by auto
  then show ?thesis
    using svec_rep_from_sparsedata[of "sd_of_runs rs" rs] by auto
qed

lemma svec_change_rep:
  assumes "svec_rep a rs" "svec_rep b qs" "qs \<noteq> []" "index (sdata_from_svec b) \<noteq> None"
    and "1 \<le> idx" "idx + int (length (expand qs)) - 1 \<le> int (length (expand rs))"
  shows "\<exists>t ws. svec_change a idx b = Inr t \<and> svec_rep t ws \<and>
           expand ws = take (nat (idx - 1)) (expand rs) @ expand qs @
                       drop (nat (idx - 1) + length (expand qs)) (expand rs)"
proof -
  note sd = svec_rep_sd[OF assms(1)] svec_rep_sd[OF assms(2)]
  note wf = sd_rep_wf[OF sd(1)] sd_rep_wf[OF sd(2)]
  let ?in = "sdata_from_svec a" and ?xs = "expand rs" and ?ys = "expand qs"
  have len: "total_value_count ?in = int (length ?xs)" "total_value_count (sdata_from_svec b) = int (length ?ys)"
    using sd wf_runs_length[OF wf(1)] wf_runs_length[OF wf(2)] by (simp_all add: sd_rep_def)
  have lt: "int (length ?xs) < 2 ^ 31"
    using wf_runs_total[OF wf(1)] wf_runs_length[OF wf(1)] by simp
  have mid: "sdata_from_svec b = sd_of_runs qs"
    using sd_rep_packed[OF sd(2) assms(4)] .
  have ys: "0 < length ?ys" using svec_rep_hd(2)[OF assms(2,3)] by simp
  have sub: "\<exists>us. subarr ?in i j = Inr (sd_of_runs us) \<and> wf_runs us \<and>
      expand us = take (nat (j - i + 1)) (drop (nat (i - 1)) ?xs)" if "1 \<le> i" "i \<le> j" "j \<le> int (length ?xs)" for i j
    using subarr_fwd_runs[OF sd(1), of i j] that wf_runs_length[OF wf(1)] by (simp add: subarr_def)
  have "\<exists>hs. (if idx \<ge> 2 then rbind (subarr ?in 1 (idx - 1)) (\<lambda>s. Inr (Some s)) else Inr None) =
      Inr (if idx \<ge> 2 then Some (sd_of_runs hs) else None) \<and>
      expand hs = take (nat (idx - 1)) ?xs \<and> wf_runs hs \<and> (\<not> idx \<ge> 2 \<longrightarrow> hs = [])"
    using sub[of 1 "idx - 1"] assms(5,6) ys by (cases "idx \<ge> 2") (fastforce, intro exI[of _ "[]"], simp)
  then obtain hs where head: "(if idx \<ge> 2 then rbind (subarr ?in 1 (idx - 1)) (\<lambda>s. Inr (Some s)) else Inr None) =
      Inr (if idx \<ge> 2 then Some (sd_of_runs hs) else None)" "expand hs = take (nat (idx - 1)) ?xs" "wf_runs hs"
      "\<not> idx \<ge> 2 \<longrightarrow> hs = []"
    by blast
  let ?e = "idx + int (length ?ys)"
  have "\<exists>ts. (if ?e \<le> int (length ?xs) then rbind (subarr ?in ?e (int (length ?xs))) (\<lambda>s. Inr (Some s)) else Inr None) =
      Inr (if ?e \<le> int (length ?xs) then Some (sd_of_runs ts) else None) \<and>
      expand ts = drop (nat (idx - 1) + length ?ys) ?xs \<and> wf_runs ts \<and> (\<not> ?e \<le> int (length ?xs) \<longrightarrow> ts = [])"
  proof (cases "?e \<le> int (length ?xs)")
    case True
    moreover have "nat (?e - 1) = nat (idx - 1) + length ?ys" using assms(5) by linarith
    ultimately show ?thesis
      using sub[of ?e "int (length ?xs)"] assms(5) by fastforce
  next
    case False
    then show ?thesis using assms(5,6) by (intro exI[of _ "[]"]) auto
  qed
  then obtain ts where tail: "(if ?e \<le> int (length ?xs) then rbind (subarr ?in ?e (int (length ?xs))) (\<lambda>s. Inr (Some s)) else Inr None) =
      Inr (if ?e \<le> int (length ?xs) then Some (sd_of_runs ts) else None)"
      "expand ts = drop (nat (idx - 1) + length ?ys) ?xs" "wf_runs ts" "\<not> ?e \<le> int (length ?xs) \<longrightarrow> ts = []"
    by blast
  let ?ws = "hs @ qs @ ts"
  have ex: "expand ?ws = take (nat (idx - 1)) ?xs @ ?ys @ drop (nat (idx - 1) + length ?ys) ?xs"
    using head(2) tail(2) by simp
  have pos: "\<forall>r\<in>set ?ws. 0 < fst r" using head(3) tail(3) wf by (auto simp: wf_runs_def)
  have "length (expand ?ws) = length ?xs" using assms(5,6) unfolding ex by simp
  then have wfw: "wf_runs ?ws"
    using pos length_expand[OF pos] lt by (simp add: wf_runs_def)
  then have wfs: "wf_runs ((hs @ qs) @ ts)" "wf_runs (hs @ qs)" "wf_runs (qs @ ts)"
    using wf_runs_append[of "hs @ qs" ts] wf_runs_append[of hs "qs @ ts"] by simp_all
  have "idx \<le> int (length ?xs)" using ys assms(6) by linarith
  then have "svec_change a idx b = Inr (svec_from_sparsedata (sd_of_runs ?ws))"
    using assms(5,6) len head(1,4) tail(1,4) mid wfs
    by (cases "idx \<ge> 2"; cases "?e \<le> int (length ?xs)") (simp_all add: svec_change_def Let_def sdata_concat_runs)
  then show ?thesis
    using svec_rep_from_sparsedata[of "sd_of_runs ?ws" ?ws] wfw ex by auto
qed

section \<open>Properties\<close>

text \<open>
  C5: \<open>svec_minus\<close>, \<open>svec_plus\<close>, \<open>svec_mult\<close> and \<open>svec_div\<close> combine a one-element vector with every
  element of the other and otherwise work element by element; two vectors of different dimensions
  that are not scalars are reported.  Every result is again a well-formed vector.
\<close>

theorem svec_arith_broadcast:
  assumes "svec_rep a rs" "svec_rep b qs" "rs \<noteq> []" "qs \<noteq> []"
  shows "if length (expand rs) = 1 \<or> length (expand qs) = 1 \<or> length (expand rs) = length (expand qs)
         then \<exists>t ws. svec_arith op a b = Inr t \<and> svec_rep t ws \<and>
                svec_return_array_internal t = Inr (broadcast (float8_op op) (expand rs) (expand qs))
         else \<exists>msg. svec_arith op a b = Inl (Report msg)"
proof -
  have dims: "IS_SCALAR a \<or> IS_SCALAR b \<or> dimension a = dimension b \<longleftrightarrow>
      length (expand rs) = 1 \<or> length (expand qs) = 1 \<or> length (expand rs) = length (expand qs)"
    using svec_rep_scalar[OF assms(1)] svec_rep_scalar[OF assms(2)] svec_rep_length[OF assms(1)]
      svec_rep_length[OF assms(2)] assms(1,2) by (auto simp: svec_rep_def)
  have arith: "\<exists>msg. svec_arith op a b =
      (if IS_SCALAR a \<or> IS_SCALAR b \<or> dimension a = dimension b then op_svec_by_svec_internal op a b
       else Inl (Report msg))"
    by (cases op) (auto simp: svec_arith_def svec_minus_def svec_plus_def svec_mult_def svec_div_def check_dimension_def)
  show ?thesis
  proof (cases "IS_SCALAR a \<or> IS_SCALAR b \<or> dimension a = dimension b")
    case True
    with op_svec_by_svec_rep[OF assms, of op] obtain t ws where
      "op_svec_by_svec_internal op a b = Inr t" "svec_rep t ws"
      "expand ws = broadcast (float8_op op) (expand rs) (expand qs)"
      by (auto simp: dims)
    with True arith show ?thesis
      using svec_rep_array[of t ws] unfolding dims by auto
  next
    case False
    with arith show ?thesis unfolding dims by auto
  qed
qed

theorem svec_arith_broadcast_witness:
  "\<exists>a b t. svec_make_scalar (f64_of_int 2) = Inr a \<and> svec_from_float8arr [f64_of_int 1, f64_of_int 3] 2 = Inr b \<and>
     svec_plus a b = Inr t \<and> svec_return_array_internal t = Inr [f64_of_int 3, f64_of_int 5]"
proof -
  obtain a where a: "svec_make_scalar (f64_of_int 2) = Inr a" "svec_rep a [(1, f64_of_int 2)]"
    using svec_make_scalar_rep by blast
  obtain s rs where b: "float8arr_to_sdata [f64_of_int 1, f64_of_int 3] 2 = Inr s"
    "svec_rep (svec_from_sparsedata s) rs" "expand rs = [f64_of_int 1, f64_of_int 3]"
    using svec_from_array_rep[of "[f64_of_int 1, f64_of_int 3]"] by auto
  have "f64_add (f64_of_int 2) (f64_of_int 1) = f64_of_int 3" "f64_add (f64_of_int 2) (f64_of_int 3) = f64_of_int 5"
    by code_simp+
  moreover have "rs \<noteq> []" using b(3) by auto
  ultimately show ?thesis
    using svec_arith_broadcast[of a "[(1, f64_of_int 2)]" "svec_from_sparsedata s" rs Add] a b
    by (auto simp: svec_arith_def broadcast_def float8_op_def svec_from_float8arr_def)
qed

text \<open>
  \<open>svec_change\<close> overwrites the elements from position \<open>idx\<close> on with those of the second
  vector, when that is not empty, has a stored index and fits, and changes nothing else.
\<close>

theorem svec_change_update:
  assumes "svec_rep a rs" "svec_rep b qs" "qs \<noteq> []" "index (sdata_from_svec b) \<noteq> None"
    and "1 \<le> idx" "idx + int (length (expand qs)) - 1 \<le> int (length (expand rs))"
  shows "\<exists>t. svec_change a idx b = Inr t \<and>
           svec_return_array_internal t = Inr (take (nat (idx - 1)) (expand rs) @ expand qs @
             drop (nat (idx - 1) + length (expand qs)) (expand rs))"
  using svec_change_rep[OF assms] svec_rep_array by metis

theorem svec_change_update_witness:
  "\<exists>t. svec_change (svec_from_sparsedata (sd_of_runs [(3, 7)])) 2 (svec_from_sparsedata (sd_of_runs [(1, 9)])) = Inr t \<and>
     svec_return_array_internal t = Inr [7, 9, 7]"
proof -
  have "svec_rep (svec_from_sparsedata (sd_of_runs [(3, 7)])) [(3, 7)]"
    "svec_rep (svec_from_sparsedata (sd_of_runs [(1, 9)])) [(1, 9)]"
    by (rule svec_rep_from_sparsedata, simp add: wf_runs_def)+
  then show ?thesis
    using svec_change_update[of "svec_from_sparsedata (sd_of_runs [(3, 7)])" "[(3, 7)]"
        "svec_from_sparsedata (sd_of_runs [(1, 9)])" "[(1, 9)]" 2]
    by (simp add: numeral_2_eq_2 numeral_3_eq_3 sdata_from_svec_def svec_from_sparsedata_def
        svec_from_sparsedata_untrimmed_def index_len_def index_bytes_def)
qed

text \<open>
  \<open>svec_concat\<close> of a vector without a stored index, as the operators on \<open>float8[]\<close> return it,
  and one with a stored index is broken: reading the result runs off the end of the index.
\<close>

theorem concat_mixed_index:
  "rbind (float8arr_mult_float8arr \<lparr>elemtype = FLOAT8OID, dims = [2], nullbitmap = None, elems = [0, f64_one]\<rparr>
            \<lparr>elemtype = FLOAT8OID, dims = [1], nullbitmap = None, elems = [f64_one]\<rparr>) (\<lambda>l.
   rbind (svec_make_scalar f64_one) (\<lambda>r.
   rbind (svec_concat (Some l) (Some r)) (\<lambda>t.
     svec_return_array_internal (the t)))) = Inl Undefined"
  by code_simp

text \<open>
  The set-returning function \<open>svec_unnest\<close> returns the elements of the vector in order, \<open>NVP\<close>
  as NULL; the call after the last element ends the scan for a NULL index, but reads one entry
  beyond the end of a stored index.
\<close>

theorem svec_unnest_rows:
  assumes "svec_rep sv rs"
  shows "\<exists>f. unnest_rows (length (expand rs)) (unnest_first sv) = Inr (map null_if_nvp (expand rs), f) \<and>
           unnest_next f = (if index (sdata_from_svec sv) = None then Inr None else Inl Undefined)"
  using unnest_rows_rest[OF svec_rep_sd[OF assms] unnest_first_rest[OF assms]]
    unnest_next_end[OF svec_rep_sd[OF assms]] by blast

theorem svec_unnest_rows_witness:
  "\<exists>f. unnest_rows 3 (unnest_first (svec_from_sparsedata (sd_of_runs [(2, 7), (1, NVP)]))) =
     Inr ([Some 7, Some 7, None], f)"
proof -
  have "svec_rep (svec_from_sparsedata (sd_of_runs [(2, 7), (1, NVP)])) [(2, 7), (1, NVP)]"
    by (rule svec_rep_from_sparsedata) (simp add: wf_runs_def)
  from svec_unnest_rows[OF this]
  obtain f where "unnest_rows (length (expand [(2, 7), (1, NVP)]))
      (unnest_first (svec_from_sparsedata (sd_of_runs [(2, 7), (1, NVP)]))) =
    Inr (map null_if_nvp (expand [(2, 7), (1, NVP)]), f)" by blast
  moreover have "length (expand [(2, 7), (1, NVP)]) = 3"
    "map null_if_nvp (expand [(2, 7), (1, NVP)]) = [Some 7, Some 7, None]"
    by code_simp+
  ultimately show ?thesis by auto
qed

text \<open>
  C6: A vector whose buffers are shorter than 2^31 bytes is restored by \<open>svec_recv\<close> from the bytes
  \<open>svec_send\<close> writes, with the same runs and dimension.
\<close>

theorem svec_send_recv:
  assumes "svec_rep sv rs" "vals_len (sdata_from_svec sv) < 2 ^ 31" "index_len (sdata_from_svec sv) < 2 ^ 31"
  shows "\<exists>t. svec_recv (svec_send sv) = Inr t \<and> svec_rep t rs \<and> dimension t = dimension sv"
  using svec_recv_send[OF assms] assms(1) by (auto simp: svec_rep_def)

theorem svec_send_recv_witness:
  "\<exists>t. svec_recv (svec_send (svec_from_sparsedata (sd_of_runs [(2, 7)]))) = Inr t \<and> svec_rep t [(2, 7)]"
proof -
  have "svec_rep (svec_from_sparsedata (sd_of_runs [(2, 7)])) [(2, 7)]"
    by (rule svec_rep_from_sparsedata) (simp add: wf_runs_def)
  from svec_send_recv[OF this] show ?thesis
    by (auto simp: vals_len_def index_len_def index_bytes_def sdata_from_svec_def svec_from_sparsedata_def
        svec_from_sparsedata_untrimmed_def encode_count_def)
qed

text \<open>
  \<open>svec_cast_float8arr\<close> of a one-dimensional \<open>float8[]\<close> is a vector that expands to the elements
  of the array, with \<open>NVP\<close> exactly where the null bitmap has a clear bit.
\<close>

theorem cast_float8arr_values:
  assumes "elemtype a = FLOAT8OID" "dims a = [int n]" "0 < n" "int n < 2 ^ 31"
    and "nullbitmap a = None \<Longrightarrow> length (elems a) = n"
    and "\<And>bm. nullbitmap a = Some bm \<Longrightarrow>
           n \<le> 8 * length bm \<and> length (filter id (take n (bitmap_bits bm))) \<le> length (elems a)"
  shows "\<exists>sv. svec_cast_float8arr a = Inr sv \<and> svec_return_array_internal sv =
           Inr (case nullbitmap a of None \<Rightarrow> elems a | Some bm \<Rightarrow> fill_nulls (take n (bitmap_bits bm)) (elems a))"
proof -
  let ?vs = "case nullbitmap a of None \<Rightarrow> elems a | Some bm \<Rightarrow> fill_nulls (take n (bitmap_bits bm)) (elems a)"
  have len: "length ?vs = n"
    using assms(5,6) by (auto split: option.splits simp: length_bitmap_bits)
  have "array_values a (int n) = Inr ?vs"
    using assms(5,6) nulls_to_nvp_fill[of 0 n _ "elems a"]
    by (auto simp: array_values_def split: option.splits)
  moreover obtain s rs where "float8arr_to_sdata ?vs (int n) = Inr s"
    "svec_rep (svec_from_sparsedata s) rs" "expand rs = ?vs"
    using svec_from_array_rep[of ?vs] len assms(3,4) by fastforce
  ultimately show ?thesis
    using assms(1,2) svec_rep_array by (auto simp: svec_cast_float8arr_def ARR_NDIM_def)
qed

theorem cast_float8arr_values_witness:
  "\<exists>sv. svec_cast_float8arr \<lparr>elemtype = FLOAT8OID, dims = [int 3], nullbitmap = Some [5], elems = [7, 9]\<rparr> = Inr sv \<and>
     svec_return_array_internal sv = Inr [7, NVP, 9]"
proof -
  have bits: "take 3 (bitmap_bits [5]) = [True, False, True]" "length (filter id (take 3 (bitmap_bits [5]))) = 2"
    by code_simp+
  show ?thesis
    using cast_float8arr_values[of "\<lparr>elemtype = FLOAT8OID, dims = [int 3], nullbitmap = Some [5], elems = [7, 9]\<rparr>" 3]
    by (simp add: bits)
qed

end
