(* ===== verification/SparseEigenFacts.thy ===== *)
theory SparseEigenFacts
  imports SparseEigen SvecFacts
begin

text \<open>
  The conversions between run lengths and the entries of an Eigen vector, on the arrays they stand for:
  \<open>es_of n es\<close> is the Eigen vector of size \<open>n\<close> with the entries \<open>es\<close>.
\<close>

definition es_of :: "int \<Rightarrow> (int \<times> float8) list \<Rightarrow> eigen_svec" where
  "es_of n es = fold (\<lambda>(i, v). insertBack i v) es (eigen_svec_new n)"

definition es_coeff :: "eigen_svec \<Rightarrow> int \<Rightarrow> float8" where
  "es_coeff e k = (case map_of (zip (es_indices e) (es_values e)) k of None \<Rightarrow> f64_zero | Some v \<Rightarrow> v)"

lemma es_of_simps [simp]:
  "es_size (es_of n es) = n" "nonZeros (es_of n es) = int (length es)"
  "valuePtr (es_of n es) = (if es = [] then None else Some (map snd es))"
  "innerIndexPtr (es_of n es) = (if es = [] then None else Some (map fst es))"
  by (induction es rule: rev_induct)
    (auto simp: es_of_def insertBack_def eigen_svec_new_def es_values_def es_indices_def split_beta)

lemma es_of_contents [simp]: "es_values (es_of n es) = map snd es" "es_indices (es_of n es) = map fst es"
  by (simp_all add: es_values_def es_indices_def)

lemma es_of_snoc: "insertBack i v (es_of n es) = es_of n (es @ [(i, v)])"
  by (simp add: es_of_def)

lemma es_coeff_of: "es_coeff (es_of n es) k = (case map_of es k of None \<Rightarrow> f64_zero | Some v \<Rightarrow> v)"
  by (simp add: es_coeff_def zip_map_fst_snd)

section \<open>The entries of an array\<close>

primrec nonzeros_from :: "int \<Rightarrow> float8 list \<Rightarrow> (int \<times> float8) list" where
  "nonzeros_from k [] = []"
| "nonzeros_from k (x # xs) =
     (if f64_eq x f64_zero then nonzeros_from (k + 1) xs else (k, x) # nonzeros_from (k + 1) xs)"

lemma nonzeros_append:
  "nonzeros_from k (xs @ ys) = nonzeros_from k xs @ nonzeros_from (k + int (length xs)) ys"
  by (induction xs arbitrary: k) (simp_all add: algebra_simps)

lemma nonzeros_zeros: "f64_eq v f64_zero \<Longrightarrow> nonzeros_from k (replicate m v) = []"
  by (induction m arbitrary: k) simp_all

lemma nonzeros_range: "(i, v) \<in> set (nonzeros_from k xs) \<Longrightarrow> k \<le> i \<and> i < k + int (length xs)"
  by (induction xs arbitrary: k) (fastforce split: if_splits)+

lemma map_of_nonzeros:
  "map_of (nonzeros_from k xs) i =
     (if k \<le> i \<and> i < k + int (length xs) \<and> \<not> f64_eq (xs ! nat (i - k)) f64_zero
      then Some (xs ! nat (i - k)) else None)"
proof (induction xs arbitrary: k)
  case (Cons x xs)
  show ?case
  proof (cases "i = k")
    case True
    then show ?thesis using Cons[of "k + 1"] by auto
  next
    case False
    then have "nat (i - k) = Suc (nat (i - (k + 1)))" if "k \<le> i" using that by simp
    with False show ?thesis by (auto simp: Cons)
  qed
qed simp

lemma insert_values_nonzero:
  "k + int m < 2 ^ 31 \<Longrightarrow> \<not> f64_eq v f64_zero \<Longrightarrow>
   insert_values v m (k, es_of n es) = Inr (k + int m, es_of n (es @ nonzeros_from k (replicate m v)))"
  by (induction m arbitrary: k es) (simp_all add: es_of_snoc algebra_simps)

lemma run_entries_fold:
  assumes "\<forall>r\<in>set rs. 0 < fst r" "0 \<le> k" "k + runs_total rs < 2 ^ 31"
  shows "foldM (\<lambda>r st. if f64_eq (snd r) f64_zero then Inr (to_int32 (fst st + fst r), snd st)
             else insert_values (snd r) (nat (fst r)) st) rs (k, es_of n es) =
         Inr (k + runs_total rs, es_of n (es @ nonzeros_from k (expand rs)))"
  using assms
proof (induction rs arbitrary: k es)
  case (Cons r rs)
  then have pos: "0 < fst r" "0 \<le> runs_total rs" by (simp_all add: runs_total_nonneg)
  then have len: "int (nat (fst r)) = fst r" "to_int32 (k + fst r) = k + fst r"
    using Cons.prems by (simp_all add: to_int32_id)
  show ?case
  proof (cases "f64_eq (snd r) f64_zero")
    case True
    then show ?thesis
      using Cons.IH[of "k + fst r" es] Cons.prems pos len
      by (simp add: nonzeros_append nonzeros_zeros add.assoc)
  next
    case False
    then show ?thesis
      using Cons.IH[of "k + fst r" "es @ nonzeros_from k (replicate (nat (fst r)) (snd r))"] Cons.prems pos len
        insert_values_nonzero[of k "nat (fst r)" "snd r" n es]
      by (simp add: nonzeros_append add.assoc)
  qed
qed simp

lemma legacy_to_eigen:
  assumes "svec_rep sv rs"
  shows "LegacySparseVectorToSparseColumnVector sv =
           Inr (es_of (runs_total rs) (nonzeros_from 0 (expand rs)))"
proof -
  let ?s = "sdata_from_svec sv"
  let ?g = "\<lambda>r st. if f64_eq (snd r) f64_zero then Inr (to_int32 (fst st + fst r), snd st)
             else insert_values (snd r) (nat (fst r)) st"
  have rep: "sd_rep ?s rs" using assms by (rule svec_rep_sd)
  note wf = sd_rep_wf[OF rep]
  have body: "run_to_entries ?s i (fst (rs ! i)) st = ?g (rs ! i) st" if "i < length rs" for i st
    using sd_vals_nth[OF rep that] by (simp add: run_to_entries_def)
  have "foldM ?g rs (0, es_of (runs_total rs) []) =
      Inr (runs_total rs, es_of (runs_total rs) (nonzeros_from 0 (expand rs)))"
    using run_entries_fold[of rs 0 "runs_total rs" "[]"] wf_runs_pos[OF wf] wf_runs_total[OF wf] by simp
  then show ?thesis
    using sd_loop[OF rep, of "run_to_entries ?s" ?g "(0, es_of (runs_total rs) [])"] body rep
    by (simp add: LegacySparseVectorToSparseColumnVector_def Let_def es_of_def sd_rep_def)
qed

section \<open>Runs that hold the last value\<close>

fun held :: "float8 \<Rightarrow> int \<Rightarrow> int \<Rightarrow> (int \<times> float8) list \<Rightarrow> float8 list" where
  "held v k n [] = replicate (nat (n - k)) v"
| "held v k n ((i, w) # es) = replicate (nat (i - k)) v @ held w i n es"

fun entries_ok :: "int \<Rightarrow> int \<Rightarrow> (int \<times> float8) list \<Rightarrow> bool" where
  "entries_ok k n [] \<longleftrightarrow> k \<le> n"
| "entries_ok k n ((i, w) # es) \<longleftrightarrow> k \<le> i \<and> i < n \<and> entries_ok (i + 1) n es"

lemma entries_ok_mono: "entries_ok k n es \<Longrightarrow> j \<le> k \<Longrightarrow> entries_ok j n es"
  by (cases es) auto

lemma held_split: "entries_ok i n es \<Longrightarrow> k \<le> i \<Longrightarrow> replicate (nat (i - k)) v @ held v i n es = held v k n es"
proof (cases es)
  case Nil
  assume "entries_ok i n es" "k \<le> i"
  with Nil show ?thesis by (simp flip: replicate_add nat_add_distrib)
next
  case (Cons e es')
  assume "entries_ok i n es" "k \<le> i"
  with Cons show ?thesis
    by (cases e) (simp flip: replicate_add append_assoc nat_add_distrib)
qed

lemma entry_runs_hold:
  assumes "\<forall>r\<in>set rs. 0 < fst r" "runs_total rs = k" "entries_ok (k + 1) n es" "n < 2 ^ 31"
  shows "\<exists>v' k' ws. foldM (\<lambda>(i, w) (v, j, s). if w \<noteq> v
             then rbind (add_run_to_sdata v (i - j) s) (\<lambda>s. Inr (w, i, s)) else Inr (v, j, s))
             es (v, k, sd_of_runs rs) = Inr (v', k', sd_of_runs ws) \<and>
           (\<forall>r\<in>set ws. 0 < fst r) \<and> runs_total ws = k' \<and> k' < n \<and>
           expand ws @ replicate (nat (n - k')) v' = expand rs @ held v k n es"
  using assms
proof (induction es arbitrary: v k rs)
  case Nil
  then show ?case by auto
next
  case (Cons e es)
  obtain i w where e: "e = (i, w)" by (cases e)
  show ?case
  proof (cases "w = v")
    case True
    have "entries_ok (k + 1) n es" "entries_ok i n es"
      using Cons.prems e by (auto elim: entries_ok_mono)
    then show ?thesis
      using Cons.IH[of rs k v] Cons.prems True e held_split[of i n es k v] by auto
  next
    case False
    have wf: "wf_runs (rs @ [(i - k, v)])"
      using Cons.prems e by (auto simp: wf_runs_def)
    have "\<forall>r\<in>set (rs @ [(i - k, v)]). 0 < fst r" "runs_total (rs @ [(i - k, v)]) = i"
      "entries_ok (i + 1) n es"
      using Cons.prems e by auto
    from Cons.IH[OF this \<open>n < 2 ^ 31\<close>, of w] show ?thesis
      using False e add_run_of_runs[OF wf] by simp
  qed
qed

lemma entry_run_nth:
  assumes "Suc j < length es"
  shows "entry_run (es_of n es) (Suc j) =
    (\<lambda>(i, w) (v, k, s). if w \<noteq> v then rbind (add_run_to_sdata v (i - k) s) (\<lambda>s. Inr (w, i, s)) else Inr (v, k, s))
      (tl es ! j)"
proof -
  have "es \<noteq> []" "tl es ! j = es ! Suc j" using assms by (auto simp: nth_tl)
  with assms show ?thesis
    using nth_res_Inr[of "Suc j" "map snd es"] nth_res_Inr[of "Suc j" "map fst es"]
    by (simp add: fun_eq_iff entry_run_def read_ptr_def split_beta del: nth_res_Inr)
qed

lemma eigen_to_legacy:
  assumes "entries_ok 0 n es" "0 < n" "n < 2 ^ 31"
  shows "\<exists>sv ws. SparseColumnVectorToLegacySparseVector (es_of n es) = Inr sv \<and> svec_rep sv ws \<and>
           expand ws = held f64_zero 0 n es"
proof -
  let ?e = "es_of n es"
  let ?f = "\<lambda>(i, w) (v, k, s). if w \<noteq> v
    then rbind (add_run_to_sdata v (i - k) s) (\<lambda>s. Inr (w, i, s)) else Inr (v, k, s)"
  have "\<exists>v k rs. first_entry ?e = Inr (v, k, sd_of_runs rs) \<and> (\<forall>r\<in>set rs. 0 < fst r) \<and>
      runs_total rs = k \<and> entries_ok (k + 1) n (tl es) \<and> expand rs @ held v k n (tl es) = held f64_zero 0 n es"
  proof (cases es)
    case Nil
    then show ?thesis
      using assms by (intro exI[of _ f64_zero] exI[of _ 0] exI[of _ "[]"])
        (simp add: first_entry_def makeSparseData_runs)
  next
    case (Cons e es')
    obtain i w where e: "e = (i, w)" by (cases e)
    have ok: "0 \<le> i" "i < n" "entries_ok (i + 1) n es'" using assms Cons e by auto
    have reads: "read_ptr (innerIndexPtr ?e) 0 = Inr i" "read_ptr (valuePtr ?e) 0 = Inr w"
      using Cons e by (simp_all add: read_ptr_def nth_res_def)
    consider "i = 0" | "i \<noteq> 0" "w \<noteq> f64_zero" | "i \<noteq> 0" "w = f64_zero" by blast
    then show ?thesis
    proof cases
      case 1
      then show ?thesis
        using ok reads Cons e by (intro exI[of _ w] exI[of _ 0] exI[of _ "[]"])
          (simp add: first_entry_def makeSparseData_runs)
    next
      case 2
      have "wf_runs ([] @ [(i, f64_zero)])" using 2 ok assms by (simp add: wf_runs_def)
      from add_run_of_runs[OF this] show ?thesis
        using 2 ok reads Cons e by (intro exI[of _ w] exI[of _ i] exI[of _ "[(i, f64_zero)]"])
          (simp add: first_entry_def makeSparseData_runs)
    next
      case 3
      have "held f64_zero 0 n es = held f64_zero 0 n es'"
        using ok Cons e 3 held_split[of i n es' 0 f64_zero] entries_ok_mono[of "i + 1" n es' i] by simp
      then show ?thesis
        using 3 ok reads Cons e entries_ok_mono[of "i + 1" n es' 1]
        by (intro exI[of _ f64_zero] exI[of _ 0] exI[of _ "[]"])
          (simp add: first_entry_def makeSparseData_runs)
    qed
  qed
  then obtain v k rs where first: "first_entry ?e = Inr (v, k, sd_of_runs rs)"
    and inv: "\<forall>r\<in>set rs. 0 < fst r" "runs_total rs = k" "entries_ok (k + 1) n (tl es)"
    and eq: "expand rs @ held v k n (tl es) = held f64_zero 0 n es" by blast
  have upt: "[1..<length es] = map Suc [0..<length (tl es)]"
    by (cases es) (simp_all add: map_Suc_upt)
  have loop: "foldM (entry_run ?e) [1..<length es] st = foldM ?f (tl es) st" for st
    unfolding upt foldM_map foldM_nth[symmetric, of ?f]
    by (rule foldM_cong) (simp add: entry_run_nth)
  obtain v' k' ws where step: "foldM ?f (tl es) (v, k, sd_of_runs rs) = Inr (v', k', sd_of_runs ws)"
    and ws: "\<forall>r\<in>set ws. 0 < fst r" "runs_total ws = k'" "k' < n"
      "expand ws @ replicate (nat (n - k')) v' = expand rs @ held v k n (tl es)"
    using entry_runs_hold[OF inv assms(3)] by blast
  have wf: "wf_runs (ws @ [(n - k', v')])"
    using ws assms by (auto simp: wf_runs_def)
  have fin: "(sd_of_runs (ws @ [(n - k', v')]))\<lparr>unique_value_count := int (length (ws @ [(n - k', v')])),
      total_value_count := to_int32 n\<rparr> = sd_of_runs (ws @ [(n - k', v')])"
    using ws assms by (simp add: sd_of_runs_def)
  have "SparseColumnVectorToLegacySparseVector ?e = Inr (svec_from_sparsedata (sd_of_runs (ws @ [(n - k', v')])))"
    using first loop step add_run_of_runs[OF wf] fin
    by (simp add: SparseColumnVectorToLegacySparseVector_def)
  then show ?thesis
    using wf ws eq
    by (intro exI[of _ "svec_from_sparsedata (sd_of_runs (ws @ [(n - k', v')]))"] exI[of _ "ws @ [(n - k', v')]"])
      (simp add: svec_rep_from_sparsedata)
qed

section \<open>The round trip\<close>

primrec hold_last :: "float8 \<Rightarrow> float8 list \<Rightarrow> float8 list" where
  "hold_last v [] = []"
| "hold_last v (x # xs) = (let w = if f64_eq x f64_zero then v else x in w # hold_last w xs)"

lemma nonzeros_ok: "entries_ok k (k + int (length xs)) (nonzeros_from k xs)"
proof (induction xs arbitrary: k)
  case (Cons x xs)
  from Cons[of "k + 1"] show ?case
    by (auto simp: algebra_simps elim: entries_ok_mono)
qed simp

lemma held_nonzeros: "held v k (k + int (length xs)) (nonzeros_from k xs) = hold_last v xs"
proof (induction xs arbitrary: k v)
  case (Cons x xs)
  show ?case
    using held_split[OF nonzeros_ok[of "k + 1" xs], of k] Cons[of _ "k + 1"]
    by (simp add: algebra_simps)
qed simp

text \<open>
  C33: An svec converted to an Eigen vector has its elements as coefficients (a negative zero becomes zero).
  Converted back, every zero behind a nonzero element has become the last nonzero element in front of it: the
  conversion to run lengths extends a run to the next stored entry instead of starting a run of zeros.
\<close>

theorem eigen_roundtrip:
  assumes "svec_rep sv rs" "rs \<noteq> []"
  shows "\<exists>e t ws. LegacySparseVectorToSparseColumnVector sv = Inr e \<and>
           es_size e = int (length (expand rs)) \<and>
           (\<forall>k < length (expand rs).
              es_coeff e (int k) = (if f64_eq (expand rs ! k) f64_zero then f64_zero else expand rs ! k)) \<and>
           SparseColumnVectorToLegacySparseVector e = Inr t \<and> svec_rep t ws \<and>
           expand ws = hold_last f64_zero (expand rs)"
proof -
  let ?xs = "expand rs"
  have wf: "wf_runs rs" using assms(1) svec_rep_sd sd_rep_wf by blast
  then have len: "runs_total rs = int (length ?xs)" "runs_total rs < 2 ^ 31" "0 < runs_total rs"
    using wf_runs_length[of rs] wf_runs_total[of rs] wf_runs_eq_Nil[of rs] assms(2) by auto
  have ok: "entries_ok 0 (runs_total rs) (nonzeros_from 0 ?xs)"
    using nonzeros_ok[of 0 ?xs] len by simp
  have "es_coeff (es_of (runs_total rs) (nonzeros_from 0 ?xs)) (int k) =
      (if f64_eq (?xs ! k) f64_zero then f64_zero else ?xs ! k)" if "k < length ?xs" for k
    using that by (simp add: es_coeff_of map_of_nonzeros)
  with legacy_to_eigen[OF assms(1)] eigen_to_legacy[OF ok len(3,2)] held_nonzeros[of f64_zero 0 ?xs] len
  show ?thesis by fastforce
qed

theorem eigen_roundtrip_witness:
  "\<exists>e t ws. LegacySparseVectorToSparseColumnVector
      (svec_from_sparsedata (sd_of_runs [(1, f64_one), (2, f64_zero), (1, 5)])) = Inr e \<and>
     es_coeff e 1 = f64_zero \<and> SparseColumnVectorToLegacySparseVector e = Inr t \<and> svec_rep t ws \<and>
     expand ws = [f64_one, f64_one, f64_one, 5]"
proof -
  let ?rs = "[(1, f64_one), (2, f64_zero), (1, 5)]"
  have xs: "expand ?rs = [f64_one, f64_zero, f64_zero, 5]" by (simp add: numeral_2_eq_2)
  have "svec_rep (svec_from_sparsedata (sd_of_runs ?rs)) ?rs"
    by (rule svec_rep_from_sparsedata) (simp add: wf_runs_def)
  from eigen_roundtrip[OF this] obtain e t ws where
    "LegacySparseVectorToSparseColumnVector (svec_from_sparsedata (sd_of_runs ?rs)) = Inr e"
    "\<forall>k < 4. es_coeff e (int k) = (if f64_eq (expand ?rs ! k) f64_zero then f64_zero else expand ?rs ! k)"
    "SparseColumnVectorToLegacySparseVector e = Inr t" "svec_rep t ws"
    "expand ws = hold_last f64_zero [f64_one, f64_zero, f64_zero, 5]"
    unfolding xs by auto
  moreover have "hold_last f64_zero [f64_one, f64_zero, f64_zero, 5] = [f64_one, f64_one, f64_one, 5]"
    "f64_eq f64_zero f64_zero"
    by code_simp+
  moreover from calculation(2) have "es_coeff e (int 1) = f64_zero"
    by (elim allE[of _ 1]) (use calculation(7) in \<open>simp add: numeral_2_eq_2\<close>)
  ultimately show ?thesis
    by (intro exI[of _ e] exI[of _ t] exI[of _ ws]) simp
qed

end
