(* ===== verification/SvecAgg.thy ===== *)
theory SvecAgg
  imports SvecOps
begin

text \<open>
  The aggregates and the selection algorithm of \<open>methods/svec/src/pg_gp/operators.c\<close>: \<open>svec_pivot\<close>,
  which appends one value to an svec in place, the median by randomised partitioning, the
  positions and values that differ from a base value, and the mean of vectors.
\<close>

section \<open>svec_pivot\<close>

text \<open>\<open>len\<close> of \<open>svec_pivot\<close>: the offset of the last entry of the index.\<close>

definition last_entry_offset :: "sdata \<Rightarrow> int res" where
  "last_entry_offset s =
     rbind (foldM (\<lambda>_ (len, c). rbind (int8compstoragesize c) (\<lambda>n. rbind (advance c) (\<lambda>c. Inr (len + int n, c))))
              [0..<nat (unique_value_count s - 1)] (0, index s)) (\<lambda>(len, _). Inr len)"

text \<open>
  Increment the last count in place: the entry at \<open>cursor\<close> is rewritten (its bytes and, while it
  grows, the unused bytes behind it) and \<open>len\<close> changes by the difference of the sizes.  Writing
  beyond \<open>maxlen\<close> is undefined.
\<close>

definition bump_last_run :: "svec \<Rightarrow> sdata \<Rightarrow> int \<Rightarrow> svec res" where
  "bump_last_run sv s cur =
     (let ix = index_bytes (index s); loc = Some (drop (nat cur) ix) in
      rbind (guard_mem (0 \<le> cur \<and> cur \<le> int (length ix))) (\<lambda>_.
      rbind (int8compstoragesize loc) (\<lambda>old_size.
      rbind (compword_to_int8 loc) (\<lambda>run_count.
      let entry = int8_to_compword (word_of_int (run_count + 1)) (take 9 (drop (nat cur) ix @ replicate 9 0)) in
      rbind (int8compstoragesize (Some entry)) (\<lambda>new_size.
      rbind (guard_mem (new_size \<le> 9 \<and> cur + int new_size \<le> index_maxlen sv)) (\<lambda>_.
        let ix' = take (nat (int (length ix) + int new_size - int old_size))
                    (take (nat cur) ix @ take new_size entry @ drop (nat cur + new_size) ix)
        in Inr (sv\<lparr>index_cursor := cur,
                   serial := s\<lparr>index := Some ix', total_value_count := to_int32 (total_value_count s + 1)\<rparr>\<rparr>)))))))"

text \<open>
  Append a run of one: \<open>appendBinaryStringInfo\<close> needs room for the bytes and a trailing NUL, because
  the buffers are part of the svec and cannot be enlarged.
\<close>

definition append_one :: "svec \<Rightarrow> sdata \<Rightarrow> float8 \<Rightarrow> svec res" where
  "append_one sv s value =
     rbind (add_run_to_sdata value 1 s) (\<lambda>s.
     rbind (guard_mem (vals_len s + 1 \<le> vals_maxlen sv \<and> index_len s + 1 \<le> index_maxlen sv)) (\<lambda>_.
     rbind (last_entry_offset s) (\<lambda>len. Inr (sv\<lparr>index_cursor := len, serial := s\<rparr>))))"

definition svec_pivot :: "svec option \<Rightarrow> float8 option \<Rightarrow> svec res" where
  "svec_pivot state arg =
     (let value = (case arg of None \<Rightarrow> NVP | Some v \<Rightarrow> v);
          sv = (case state of Some sv \<Rightarrow> sv | None \<Rightarrow> makeEmptySvec 1);
          s = sdata_from_svec sv;
          sv = (if vals_len s + 8 + 1 > vals_maxlen sv \<or> index_len s + 9 + 1 > index_maxlen sv
                then reallocSvec sv else sv);
          s = sdata_from_svec sv
      in if index_len s = 0 then append_one (sv\<lparr>index_cursor := 0\<rparr>) s value
         else rbind (if index_cursor sv = 0 then last_entry_offset s else Inr (index_cursor sv)) (\<lambda>cur.
              rbind (nth_res (vals s) (int (length (vals s)) - 1)) (\<lambda>last_value.
                if f64_eq last_value value \<or> (IS_NVP last_value \<and> IS_NVP value)
                then bump_last_run sv s cur
                else append_one (sv\<lparr>index_cursor := cur\<rparr>) s value)))"

section \<open>Selection\<close>

text \<open>
  The parallel lists of \<open>partition_select\<close> (the values and, for a sparse vector, the run lengths)
  are one list of pairs; \<open>SWAPN\<close> exchanges two positions of all of them.
\<close>

definition swapn :: "'a list \<Rightarrow> nat \<Rightarrow> nat \<Rightarrow> 'a list" where
  "swapn xs i j = xs[i := xs ! j, j := xs ! i]"

definition compar_float8 :: "float8 \<Rightarrow> float8 \<Rightarrow> int" where
  "compar_float8 l r = (if f64_lt l r then -1 else if f64_eq l r then 0 else 1)"

text \<open>The loop of \<open>partition_pivot\<close> over \<open>i\<close>, with \<open>storeIndex\<close>.\<close>

definition partition_step :: "float8 \<Rightarrow> nat \<Rightarrow> (float8 \<times> int) list \<times> nat \<Rightarrow> (float8 \<times> int) list \<times> nat" where
  "partition_step pvalue i = (\<lambda>(xs, storeIndex).
     if compar_float8 (fst (xs ! i)) pvalue \<le> 0 then (swapn xs i storeIndex, storeIndex + 1)
     else (xs, storeIndex))"

definition partition_pivot :: "(float8 \<times> int) list \<Rightarrow> nat \<Rightarrow> nat \<Rightarrow> nat \<Rightarrow> (float8 \<times> int) list \<times> nat" where
  "partition_pivot xs left right pivotIndex =
     (let pvalue = fst (xs ! pivotIndex);
          (xs, storeIndex) = fold (partition_step pvalue) [left..<right] (swapn xs pivotIndex right, left)
      in (swapn xs storeIndex right, storeIndex))"

definition real_index_calc_dense :: "nat \<Rightarrow> (float8 \<times> int) list \<Rightarrow> int" where
  "real_index_calc_dense idx xs = int idx"

definition real_index_calc_sparse_RLE :: "nat \<Rightarrow> (float8 \<times> int) list \<Rightarrow> int" where
  "real_index_calc_sparse_RLE idx xs = fold (\<lambda>i ix. to_int32 (ix + snd (xs ! i))) [0..<idx] 0"

text \<open>
  \<open>partition_select\<close>.  \<open>rnd left right\<close> is \<open>RANDOM_INT(left, right)\<close> on the current state of
  \<open>drand48\<close>, given as the list \<open>seeds\<close> of its coming values; every pass of \<open>while (1)\<close> takes one and
  shrinks the interval, or ends.  An empty interval or list is \<open>None\<close>: the code would read outside
  of the lists.
\<close>

definition random_int :: "int \<Rightarrow> int \<Rightarrow> int \<Rightarrow> int" where
  "random_int left right seed = left + seed mod (right + 1 - left)"

fun partition_select :: "(nat \<Rightarrow> (float8 \<times> int) list \<Rightarrow> int) \<Rightarrow> int \<Rightarrow> nat \<Rightarrow> int list \<Rightarrow>
    int \<Rightarrow> int \<Rightarrow> (float8 \<times> int) list \<Rightarrow> (nat \<times> (float8 \<times> int) list) option" where
  "partition_select realIndexCalc k maxlen [] left right xs = None"
| "partition_select realIndexCalc k maxlen (seed # seeds) left right xs =
     (if left < 0 \<or> left > right \<or> right \<ge> int (length xs) then None
      else
        let (xs, pivotNewIndex) =
              partition_pivot xs (nat left) (nat right) (nat (random_int left right seed));
            realIndex = realIndexCalc pivotNewIndex xs;
            nextRealIndex = realIndexCalc (min maxlen (pivotNewIndex + 1)) xs
        in if realIndex \<le> k \<and> k < nextRealIndex then Some (pivotNewIndex, xs)
           else if k < realIndex
           then partition_select realIndexCalc k maxlen seeds left (int pivotNewIndex - 1) xs
           else if int pivotNewIndex + 1 \<ge> int maxlen then Some (maxlen, xs)
           else partition_select realIndexCalc k maxlen seeds (int pivotNewIndex + 1) right xs)"

definition float8arr_partition_internal :: "int list \<Rightarrow> float8 list \<Rightarrow> int \<Rightarrow> int \<Rightarrow>
    (nat \<times> (float8 \<times> int) list) option" where
  "float8arr_partition_internal seeds array len k =
     partition_select real_index_calc_dense k (nat (len - 1)) seeds 0 (len - 1) (map (\<lambda>v. (v, 1)) array)"

definition float8arr_median :: "int list \<Rightarrow> float8 pgarray \<Rightarrow> float8 option res" where
  "float8arr_median seeds array =
     rbind (sdata_uncompressed_from_float8arr_internal array) (\<lambda>s.
       let median_index = (total_value_count s - 1) div 2 in
       if \<exists>v\<in>set (take (nat (unique_value_count s)) (vals s)). IS_NVP v then Inr None
       else case float8arr_partition_internal seeds (vals s) (total_value_count s) median_index of
              None \<Rightarrow> Inl Undefined
            | Some (ix, xs) \<Rightarrow> rbind (nth_res (map fst xs) (int ix)) (\<lambda>ret. Inr (null_if_nvp ret)))"

text \<open>
  \<open>svec_median\<close>: a structure with an index is selected on (value, run length) pairs.  Writing the
  permuted run lengths back into the index of the private copy has no effect on the result.
\<close>

definition svec_median :: "int list \<Rightarrow> svec \<Rightarrow> float8 option res" where
  "svec_median seeds sv =
     (let s = sdata_from_svec sv;
          median_index = (total_value_count s - 1) div 2;
          u = unique_value_count s
      in if \<exists>v\<in>set (take (nat u) (vals s)). IS_NVP v then Inr None
         else rbind (if index s \<noteq> None
                     then rbind (sdata_index_to_int64arr s) (\<lambda>rle_index.
                            Inr (partition_select real_index_calc_sparse_RLE median_index (nat (u - 1)) seeds
                                   0 (u - 1) (zip (vals s) rle_index)))
                     else Inr (float8arr_partition_internal seeds (vals s) (total_value_count s) median_index)) (\<lambda>sel.
           case sel of
             None \<Rightarrow> Inl Undefined
           | Some (ix, xs) \<Rightarrow> rbind (nth_res (map fst xs) (int ix)) (\<lambda>ret. Inr (null_if_nvp ret))))"

section \<open>Elements that differ from a base value\<close>

text \<open>
  \<open>size_tracker\<close> and the positions found so far; a NULL index gives an empty result.  The second loop
  of both functions also advances \<open>i_ptr\<close> from the end of the index on, reading bytes behind it that
  have no effect on the result; that walk is not part of the model.
\<close>

definition nonbase_step :: "float8 \<Rightarrow> int \<times> float8 \<Rightarrow> int list \<times> int \<Rightarrow> int list \<times> int" where
  "nonbase_step base r = (\<lambda>(result, size_tracker).
     if base \<noteq> snd r
     then (result @ map (\<lambda>j. size_tracker + int j + 1) [0..<nat (fst r)], size_tracker + int (nat (fst r)))
     else (result, size_tracker + fst r))"

definition svec_nonbase_positions :: "svec \<Rightarrow> float8 \<Rightarrow> int list res" where
  "svec_nonbase_positions sv base_val =
     (let s = sdata_from_svec sv in
      if index s \<noteq> None
      then rbind (sdata_index_to_int64arr s) (\<lambda>rle_index.
           rbind (guard_mem (unique_value_count s \<le> int (length (vals s)))) (\<lambda>_.
             Inr (fst (fold (nonbase_step base_val) (zip rle_index (vals s)) ([], 0)))))
      else Inr [])"

definition svec_nonbase_values :: "svec \<Rightarrow> float8 \<Rightarrow> float8 list res" where
  "svec_nonbase_values sv base_val =
     (let s = sdata_from_svec sv in
      if index s \<noteq> None
      then rbind (sdata_index_to_int64arr s) (\<lambda>rle_index.
           rbind (guard_mem (unique_value_count s \<le> int (length (vals s)))) (\<lambda>_.
             Inr (concat (map (\<lambda>(n, v). if base_val \<noteq> v then replicate (nat n) v else [])
                    (zip rle_index (vals s))))))
      else Inr [])"

section \<open>Mean\<close>

text \<open>
  The state of \<open>svec_mean_transition\<close> is the array of the element sums with the number of vectors
  as its last element.
\<close>

definition svec_mean_transition :: "float8 list option \<Rightarrow> svec option \<Rightarrow> float8 list option res" where
  "svec_mean_transition state sv =
     (case (state, sv) of
        (None, None) \<Rightarrow> Inr None
      | (Some st, None) \<Rightarrow> Inr (Some st)
      | (state, Some v) \<Rightarrow>
          rbind (sdata_to_float8arr (sdata_from_svec v)) (\<lambda>svec_array.
          let svec_dim = length svec_array in
          case state of
            None \<Rightarrow> Inr (Some (svec_array @ [f64_one]))
          | Some state_array \<Rightarrow>
              rbind (check (length state_array = svec_dim + 1)
                       ''input dimensions should be dim1=dim2+1'') (\<lambda>_.
                Inr (Some (map2 f64_add (take svec_dim state_array) svec_array @
                           [f64_add (state_array ! svec_dim) f64_one])))))"

definition svec_mean_prefunc :: "float8 list option \<Rightarrow> float8 list option \<Rightarrow> float8 list option res" where
  "svec_mean_prefunc s1 s2 =
     (case (s1, s2) of
        (None, None) \<Rightarrow> Inr None
      | (None, Some b) \<Rightarrow> Inr (Some b)
      | (Some a, None) \<Rightarrow> Inr (Some a)
      | (Some a, Some b) \<Rightarrow>
          rbind (check (length a = length b) ''input dimensions should be the same'') (\<lambda>_.
            Inr (Some (map2 f64_add a b))))"

definition svec_mean_final :: "float8 list option \<Rightarrow> svec option res" where
  "svec_mean_final state =
     (case state of
        None \<Rightarrow> Inr None
      | Some array \<Rightarrow>
          rbind (nth_res array (int (length array) - 1)) (\<lambda>n.
          let divided = map (\<lambda>v. f64_div v n) (butlast array) @ [n] in
          rbind (float8arr_to_sdata divided (int (length array) - 1)) (\<lambda>s.
            Inr (Some (svec_from_sparsedata s)))))"

end
