(* ===== verification/SvecAggFacts.thy ===== *)
theory SvecAggFacts
  imports SvecAgg SvecFacts "HOL-Library.Multiset"
begin

text \<open>
  Correctness of the selection algorithm and of the aggregates: \<open>partition_pivot\<close> partitions,
  \<open>partition_select\<close> finds the run that holds the k-th smallest element whatever the random pivots
  are, \<open>svec_pivot\<close> appends within its buffers, and the vectors of the elements that differ from a
  base value.
\<close>

section \<open>Partitioning\<close>

lemma swapn_middle:
  "swapn (P @ h # M @ u # Q) (length P + 1 + length M) (length P) = P @ u # M @ h # Q"
  by (simp add: swapn_def nth_append list_update_append)

lemma swapn_self [simp]: "swapn xs i i = xs"
  by (simp add: swapn_def)

lemma swapn_comm: "swapn xs i j = swapn xs j i"
  by (cases "i = j") (simp_all add: swapn_def list_update_swap)

lemma length_swapn [simp]: "length (swapn xs i j) = length xs"
  by (simp add: swapn_def)

abbreviation below :: "float8 \<Rightarrow> float8 \<times> int \<Rightarrow> bool" where
  "below p x \<equiv> compar_float8 (fst x) p \<le> 0"

lemma partition_loop:
  assumes "\<forall>x\<in>set L. below p x" "\<forall>x\<in>set H. \<not> below p x"
  shows "\<exists>L' H'. fold (partition_step p) [length A + length L + length H..<length A + length L + length H + length U]
           (A @ L @ H @ U @ C, length A + length L) = (A @ L' @ H' @ C, length A + length L') \<and>
         mset (L' @ H') = mset (L @ H @ U) \<and> (\<forall>x\<in>set L'. below p x) \<and> (\<forall>x\<in>set H'. \<not> below p x)"
  using assms
proof (induction U arbitrary: L H)
  case Nil
  then show ?case by (intro exI[of _ L] exI[of _ H]) simp
next
  case (Cons u U)
  let ?i = "length A + length L + length H"
  have upt: "[?i..<?i + length (u # U)] = ?i # [Suc ?i..<Suc ?i + length U]"
    by (subst upt_conv_Cons) simp_all
  have nth: "(A @ L @ H @ (u # U) @ C) ! ?i = u"
    by (simp add: nth_append)
  show ?case
  proof (cases "below p u")
    case False
    then have "partition_step p ?i (A @ L @ H @ (u # U) @ C, length A + length L) =
        (A @ L @ (H @ [u]) @ U @ C, length A + length L)"
      by (simp add: partition_step_def nth del: append_Cons)
    moreover obtain L' H' where "fold (partition_step p) [Suc ?i..<Suc ?i + length U]
        (A @ L @ (H @ [u]) @ U @ C, length A + length L) = (A @ L' @ H' @ C, length A + length L')"
      "mset (L' @ H') = mset (L @ (H @ [u]) @ U)" "\<forall>x\<in>set L'. below p x" "\<forall>x\<in>set H'. \<not> below p x"
      using Cons.IH[of L "H @ [u]"] Cons.prems False by auto
    ultimately show ?thesis
      unfolding upt by (intro exI[of _ L'] exI[of _ H']) simp
  next
    case True
    obtain H' where H': "swapn (A @ L @ H @ (u # U) @ C) ?i (length A + length L) = A @ (L @ [u]) @ H' @ U @ C"
      "mset H' = mset H" "length H' = length H"
    proof (cases H)
      case Nil
      then show ?thesis by (intro that[of "[]"]) simp_all
    next
      case (Cons h M)
      then show ?thesis
        using swapn_middle[of "A @ L" h M u "U @ C"] by (intro that[of "M @ [h]"]) simp_all
    qed
    have "partition_step p ?i (A @ L @ H @ (u # U) @ C, length A + length L) =
        (A @ (L @ [u]) @ H' @ U @ C, length A + length (L @ [u]))"
      using True H'(1) by (simp add: partition_step_def nth del: append_Cons)
    moreover have "\<forall>x\<in>set H'. \<not> below p x"
      using Cons.prems(2) mset_eq_setD[OF H'(2)] by simp
    moreover have "length A + length (L @ [u]) + length H' = Suc ?i" using H'(3) by simp
    moreover obtain L' R where "fold (partition_step p) [length A + length (L @ [u]) + length H'..<
          length A + length (L @ [u]) + length H' + length U]
        (A @ (L @ [u]) @ H' @ U @ C, length A + length (L @ [u])) = (A @ L' @ R @ C, length A + length L')"
      "mset (L' @ R) = mset ((L @ [u]) @ H' @ U)" "\<forall>x\<in>set L'. below p x" "\<forall>x\<in>set R. \<not> below p x"
      using Cons.IH[of "L @ [u]" H'] Cons.prems True \<open>\<forall>x\<in>set H'. \<not> below p x\<close> by auto
    ultimately show ?thesis
      using H'(2) unfolding upt by (intro exI[of _ L'] exI[of _ R]) simp
  qed
qed

lemma partition_swap:
  assumes "B \<noteq> []" "length A \<le> piv" "piv < length A + length B"
  shows "\<exists>U x. swapn (A @ B @ C) piv (length A + length B - 1) = A @ U @ x # C \<and>
           x = (A @ B @ C) ! piv \<and> mset (U @ [x]) = mset B \<and> length B = Suc (length U)"
proof -
  obtain B' z where B: "B = B' @ [z]" using assms(1) by (cases B rule: rev_cases) auto
  show ?thesis
  proof (cases "piv = length A + length B'")
    case True
    then show ?thesis
      using B by (intro exI[of _ B'] exI[of _ z]) (simp add: nth_append)
  next
    case False
    then have "piv - length A < length B'" using assms B by simp
    then obtain P h M where M: "B' = P @ h # M" "length P = piv - length A"
      by (metis id_take_nth_drop length_take min.absorb4)
    have "swapn ((A @ P) @ h # M @ z # C) (length (A @ P) + 1 + length M) (length (A @ P)) =
        (A @ P) @ z # M @ h # C"
      by (rule swapn_middle)
    moreover have "length (A @ P) = piv" using assms M by simp
    ultimately show ?thesis
      using B M assms
      by (intro exI[of _ "P @ z # M"] exI[of _ h]) (simp add: swapn_comm[of _ piv] nth_append)
  qed
qed

lemma partition_pivot_spec:
  assumes "B \<noteq> []" "length A \<le> piv" "piv < length A + length B"
  shows "\<exists>L x R. partition_pivot (A @ B @ C) (length A) (length A + length B - 1) piv =
             (A @ L @ x # R @ C, length A + length L) \<and> mset (L @ x # R) = mset B \<and>
           (\<forall>y\<in>set L. below (fst x) y) \<and> (\<forall>y\<in>set R. \<not> below (fst x) y)"
proof -
  let ?r = "length A + length B - 1"
  obtain U x where U: "swapn (A @ B @ C) piv ?r = A @ U @ x # C" "x = (A @ B @ C) ! piv"
    "mset (U @ [x]) = mset B" "length B = Suc (length U)"
    using partition_swap[OF assms] by blast
  obtain L H where L: "fold (partition_step (fst x)) [length A..<?r] (A @ U @ x # C, length A) =
      (A @ L @ H @ x # C, length A + length L)" "mset (L @ H) = mset U"
    "\<forall>y\<in>set L. below (fst x) y" "\<forall>y\<in>set H. \<not> below (fst x) y"
    using partition_loop[of "[]" "fst x" "[]" A U "x # C"] U(4) by auto
  have r: "?r = length A + length L + length H"
    using U(4) mset_eq_length[OF L(2)] by simp
  obtain R where R: "swapn (A @ L @ H @ x # C) (length A + length L) ?r = A @ L @ x # R @ C"
    "mset R = mset H"
  proof (cases H)
    case Nil
    then show ?thesis using r by (intro that[of "[]"]) simp_all
  next
    case (Cons h M)
    then show ?thesis
      using swapn_middle[of "A @ L" h M x C] r
      by (intro that[of "M @ [h]"]) (simp_all add: swapn_comm[of _ "length A + length L"])
  qed
  have "partition_pivot (A @ B @ C) (length A) ?r piv = (A @ L @ x # R @ C, length A + length L)"
    using U(1,2) L(1) R(1) by (simp add: partition_pivot_def)
  moreover have "mset (L @ x # R) = mset B" using U(3) L(2) R(2) by (simp add: ac_simps)
  moreover have "\<forall>y\<in>set R. \<not> below (fst x) y" using L(4) R(2) by (metis set_mset_mset)
  ultimately show ?thesis using L(3) by blast
qed

section \<open>Selection\<close>

text \<open>
  The position in the expanded array at which run \<open>i\<close> starts, and the statement that every value
  before position \<open>i\<close> of the list is at most every value from there on.
\<close>

definition run_start :: "(float8 \<times> int) list \<Rightarrow> nat \<Rightarrow> int" where
  "run_start xs i = sum_list (map snd (take i xs))"

definition cut :: "nat \<Rightarrow> (float8 \<times> int) list \<Rightarrow> bool" where
  "cut i xs \<longleftrightarrow> (\<forall>x\<in>set (take i xs). \<forall>y\<in>set (drop i xs). f64_key (fst x) \<le> f64_key (fst y))"

lemma cut_append: "cut (length P) (P @ Q) \<longleftrightarrow> (\<forall>x\<in>set P. \<forall>y\<in>set Q. f64_key (fst x) \<le> f64_key (fst y))"
  by (simp add: cut_def)

lemma run_start_append: "run_start (P @ Q) (length P) = sum_list (map snd P)"
  by (simp add: run_start_def)

lemma run_start_mono:
  assumes "\<forall>x\<in>set xs. 0 < snd x" "i \<le> j"
  shows "run_start xs i \<le> run_start xs j"
proof -
  obtain d where d: "j = i + d" using assms(2) le_Suc_ex by blast
  have "0 \<le> sum_list (map snd (take d (drop i xs)))"
    using assms(1) by (intro sum_list_nonneg) (auto dest!: in_set_takeD in_set_dropD intro: less_imp_le)
  then show ?thesis by (simp add: run_start_def d take_add)
qed

lemma compar_float8_le:
  "\<not> f64_is_nan v \<Longrightarrow> \<not> f64_is_nan p \<Longrightarrow> compar_float8 v p \<le> 0 \<longleftrightarrow> f64_key v \<le> f64_key p"
  by (auto simp: compar_float8_def f64_lt_def f64_eq_def)

lemma mset_middle:
  "mset B' = mset B \<Longrightarrow> mset (A @ B' @ C) = mset (A @ B @ C) \<and> length B' = length B \<and> set B' = set B \<and>
     sum_list (map snd B') = (sum_list (map snd B) :: int)"
  using mset_eq_length[of B' B] mset_eq_setD[of B' B] by (simp flip: sum_mset_sum_list add: mset_map)

text \<open>
  The contract \<open>partition_select\<close> puts on \<open>realIndexCalc\<close>: on the lists it is used with it returns
  the position at which a run starts.
\<close>

locale run_index =
  fixes calc :: "nat \<Rightarrow> (float8 \<times> int) list \<Rightarrow> int" and ok :: "(float8 \<times> int) list \<Rightarrow> bool"
  assumes calc_start: "ok xs \<Longrightarrow> i \<le> length xs \<Longrightarrow> calc i xs = run_start xs i"
    and ok_perm: "ok xs \<Longrightarrow> mset ys = mset xs \<Longrightarrow> ok ys"
    and ok_elem: "ok xs \<Longrightarrow> x \<in> set xs \<Longrightarrow> 0 < snd x \<and> \<not> f64_is_nan (fst x)"
begin

lemma pivot_cuts:
  assumes "ok (A @ B @ C)" "B \<noteq> []" "length A \<le> piv" "piv < length A + length B"
    and "cut (length A) (A @ B @ C)" "cut (length A + length B) (A @ B @ C)"
  shows "\<exists>L x R. partition_pivot (A @ B @ C) (length A) (length A + length B - 1) piv =
             (A @ L @ x # R @ C, length A + length L) \<and> mset (L @ x # R) = mset B \<and>
           (let ys = A @ L @ x # R @ C in
            cut (length A) ys \<and> cut (length A + length L) ys \<and> cut (length A + length L + 1) ys \<and>
            cut (length A + length B) ys)"
proof -
  obtain L x R where p: "partition_pivot (A @ B @ C) (length A) (length A + length B - 1) piv =
       (A @ L @ x # R @ C, length A + length L)" "mset (L @ x # R) = mset B"
      "\<forall>y\<in>set L. below (fst x) y" "\<forall>y\<in>set R. \<not> below (fst x) y"
    using partition_pivot_spec[OF assms(2,3,4)] by blast
  note m = mset_middle[OF p(2)]
  have nan: "\<not> f64_is_nan (fst y)" if "y \<in> set (L @ x # R)" for y
    using ok_elem[OF assms(1), of y] m that by auto
  then have L: "\<forall>y\<in>set L. f64_key (fst y) \<le> f64_key (fst x)"
    and R: "\<forall>y\<in>set R. f64_key (fst x) \<le> f64_key (fst y)"
    using p(3,4) by (auto simp: compar_float8_le)
  have a: "\<forall>u\<in>set A. \<forall>v\<in>set (L @ x # R) \<union> set C. f64_key (fst u) \<le> f64_key (fst v)"
    using assms(5) m unfolding cut_append by auto
  have c: "\<forall>u\<in>set A \<union> set (L @ x # R). \<forall>v\<in>set C. f64_key (fst u) \<le> f64_key (fst v)"
    using assms(6) m cut_append[of "A @ B" C] by auto
  have lr: "\<forall>u\<in>set L. \<forall>v\<in>set R. f64_key (fst u) \<le> f64_key (fst v)"
    using L R by (meson order_trans)
  let ?ys = "A @ L @ x # R @ C"
  have "cut (length A) ?ys" using a unfolding cut_append by auto
  moreover have "cut (length A + length L) ?ys"
    using a c L lr cut_append[of "A @ L" "x # R @ C"] by auto
  moreover have "cut (length A + length L + 1) ?ys"
    using a c L R lr cut_append[of "A @ L @ [x]" "R @ C"] by auto
  moreover have "length B = Suc (length L + length R)" using m by simp
  then have "cut (length A + length B) ?ys"
    using c cut_append[of "A @ L @ x # R" C] by simp
  ultimately show ?thesis using p(1,2) by (intro exI[of _ L] exI[of _ x] exI[of _ R]) (simp add: Let_def)
qed


lemma select_correct:
  assumes "ok (A @ B @ C)" "length B \<le> length seeds" "maxlen = length (A @ B @ C) - 1" "0 \<le> k"
    and "cut (length A) (A @ B @ C)" "cut (length A + length B) (A @ B @ C)"
    and "run_start (A @ B @ C) (length A) \<le> k" "k < run_start (A @ B @ C) (length A + length B)"
  shows "\<exists>i ys. partition_select calc k maxlen seeds (int (length A)) (int (length A + length B) - 1) (A @ B @ C) =
             Some (i, ys) \<and> mset ys = mset (A @ B @ C) \<and> i < length ys \<and>
           run_start ys i \<le> k \<and> k < run_start ys (Suc i) \<and> cut i ys \<and> cut (Suc i) ys"
  using assms
proof (induction seeds arbitrary: A B C)
  case Nil
  then show ?case by simp
next
  case (Cons seed seeds)
  let ?xs = "A @ B @ C" and ?l = "int (length A)" and ?r = "int (length A + length B) - 1"
  have "B \<noteq> []" using Cons.prems(7,8) by auto
  then have lr: "?l \<le> ?r" "nat ?r = length A + length B - 1" by (cases B; simp)+
  define piv where "piv = nat (random_int ?l ?r seed)"
  have "length A \<le> piv" "piv < length A + length B"
    using lr pos_mod_bound[of "?r + 1 - ?l" seed] pos_mod_sign[of "?r + 1 - ?l" seed]
    by (simp_all add: piv_def random_int_def nat_less_iff le_nat_iff)
  from pivot_cuts[OF Cons.prems(1) \<open>B \<noteq> []\<close> this Cons.prems(5,6)] obtain L x R where
    p: "partition_pivot ?xs (length A) (length A + length B - 1) piv = (A @ L @ x # R @ C, length A + length L)"
      "mset (L @ x # R) = mset B"
    and cuts: "cut (length A) (A @ L @ x # R @ C)" "cut (length A + length L) (A @ L @ x # R @ C)"
      "cut (length A + length L + 1) (A @ L @ x # R @ C)" "cut (length A + length B) (A @ L @ x # R @ C)"
    by (auto simp: Let_def)
  define ys where "ys = A @ L @ x # R @ C"
  define q where "q = length A + length L"
  define n where "n = length ys"
  have m: "mset ys = mset ?xs" "length B = length (L @ x # R)" "n = length ?xs"
      "sum_list (map snd B) = sum_list (map snd (L @ x # R))"
    using mset_middle[OF p(2), of A C] by (simp_all add: ys_def n_def)
  have ok: "ok ys" using ok_perm[OF Cons.prems(1) m(1)] .
  have start: "run_start ys (length A) \<le> k" "k < run_start ys (length A + length B)"
    using Cons.prems(7,8) run_start_append[of A] run_start_append[of "A @ B" C]
      run_start_append[of "A @ L @ x # R" C] m(2,4) by (simp_all add: ys_def run_start_append)
  have maxlen: "maxlen = n - 1" using Cons.prems(3) m(3) by simp
  have qn: "q < n" "q + 1 \<le> n" by (simp_all add: q_def n_def ys_def)
  have pos: "\<forall>x\<in>set ys. 0 < snd x" using ok_elem[OF ok] by blast
  define nxt where "nxt = run_start ys (min maxlen (q + 1))"
  have real: "calc q ys = run_start ys q" "calc (min maxlen (q + 1)) ys = nxt"
    using calc_start[OF ok] qn by (simp_all add: n_def nxt_def)
  have unfolded: "partition_select calc k maxlen (seed # seeds) ?l ?r ?xs =
      (if run_start ys q \<le> k \<and> k < nxt then Some (q, ys)
       else if k < run_start ys q then partition_select calc k maxlen seeds ?l (int q - 1) ys
       else if int q + 1 \<ge> int maxlen then Some (maxlen, ys)
       else partition_select calc k maxlen seeds (int q + 1) ?r ys)"
    using lr p(1) real by (simp add: ys_def q_def piv_def Let_def)
  consider "run_start ys q \<le> k \<and> k < nxt" | "k < run_start ys q"
    | "run_start ys q \<le> k" "nxt \<le> k" "int q + 1 \<ge> int maxlen"
    | "run_start ys q \<le> k" "nxt \<le> k" "int q + 1 < int maxlen" by linarith
  then show ?case
  proof cases
    case 1
    moreover have "nxt \<le> run_start ys (Suc q)"
      unfolding nxt_def by (rule run_start_mono[OF pos]) simp
    ultimately show ?thesis
      using unfolded cuts(2,3) m(1) qn by (simp add: ys_def q_def n_def)
  next
    case 2
    have xs: "A @ L @ (x # R @ C) = ys" by (simp add: ys_def)
    have "length L \<le> length seeds" using m(2) Cons.prems(2) by simp
    moreover have "\<not> (run_start ys q \<le> k \<and> k < nxt)" using 2 by simp
    ultimately show ?thesis
      using Cons.IH[of A L "x # R @ C"] ok maxlen Cons.prems(4) cuts(1,2) start(1) 2 unfolded m(1)
      unfolding xs by (simp add: n_def q_def flip: ys_def)
  next
    case 3
    have "nxt = run_start ys maxlen" unfolding nxt_def using 3(3) by (simp add: min_def)
    moreover have "run_start ys (length A + length B) \<le> run_start ys n"
      by (rule run_start_mono[OF pos]) (simp add: n_def ys_def m(2))
    moreover have "maxlen = q \<or> maxlen = Suc q" using 3(3) qn maxlen by linarith
    then have "cut maxlen ys" using cuts(2,3) by (auto simp: q_def ys_def)
    moreover have "cut n ys" by (simp add: cut_def n_def)
    moreover have "Suc maxlen = n" using maxlen qn by simp
    moreover have "partition_select calc k maxlen (seed # seeds) ?l ?r ?xs = Some (maxlen, ys)"
      using unfolded 3 by (simp del: partition_select.simps)
    ultimately show ?thesis
      using 3(2) start(2) m(1) by (intro exI[of _ maxlen] exI[of _ ys]) (simp add: n_def)
  next
    case 4
    let ?A = "A @ L @ [x]"
    have xs: "?A @ R @ C = ys" by (simp add: ys_def)
    have len: "length ?A = q + 1" "length ?A + length R = length A + length B"
      using m(2) by (simp_all add: q_def)
    have right: "int (length ?A + length R) - 1 = ?r" using len(2) by simp
    have "nxt = run_start ys (q + 1)" using 4(3) by (simp add: nxt_def)
    then have "\<exists>i ys'. partition_select calc k maxlen seeds (int (length ?A)) (int (length ?A + length R) - 1) ys =
               Some (i, ys') \<and> mset ys' = mset ys \<and> i < length ys' \<and>
             run_start ys' i \<le> k \<and> k < run_start ys' (Suc i) \<and> cut i ys' \<and> cut (Suc i) ys'"
      using Cons.IH[of ?A R C, unfolded xs len] ok maxlen Cons.prems(2,4) cuts(3,4) start(2) 4(1,2) m(2)
      by (simp add: n_def q_def ys_def add.assoc)
    moreover have "partition_select calc k maxlen (seed # seeds) ?l ?r ?xs =
        partition_select calc k maxlen seeds (int (length ?A)) (int (length ?A + length R) - 1) ys"
      using unfolded 4 unfolding right unfolding len(1) by (simp del: partition_select.simps add: add.commute)
    ultimately show ?thesis using m(1) by simp
  qed
qed

lemma select_all:
  assumes "ok xs" "xs \<noteq> []" "length xs \<le> length seeds" "0 \<le> k" "k < run_start xs (length xs)"
  shows "\<exists>i ys. partition_select calc k (length xs - 1) seeds 0 (int (length xs) - 1) xs = Some (i, ys) \<and>
           mset ys = mset xs \<and> i < length ys \<and> run_start ys i \<le> k \<and> k < run_start ys (Suc i) \<and>
           cut i ys \<and> cut (Suc i) ys"
  using select_correct[of "[]" xs "[]" seeds "length xs - 1" k] assms by (simp add: cut_def run_start_def)

end

text \<open>The two functions the code passes as \<open>realIndexCalc\<close>.\<close>

definition dense_ok :: "(float8 \<times> int) list \<Rightarrow> bool" where
  "dense_ok xs \<longleftrightarrow> (\<forall>x\<in>set xs. snd x = 1 \<and> \<not> f64_is_nan (fst x))"

definition sparse_ok :: "(float8 \<times> int) list \<Rightarrow> bool" where
  "sparse_ok xs \<longleftrightarrow> (\<forall>x\<in>set xs. 0 < snd x \<and> \<not> f64_is_nan (fst x)) \<and> sum_list (map snd xs) < 2 ^ 31"

lemma run_start_Suc: "i < length xs \<Longrightarrow> run_start xs (Suc i) = run_start xs i + snd (xs ! i)"
  by (simp add: run_start_def take_Suc_conv_app_nth)

lemma run_start_bounds:
  assumes "sparse_ok xs" "i \<le> length xs"
  shows "0 \<le> run_start xs i" "run_start xs i < 2 ^ 31"
  using run_start_mono[of xs 0 i] run_start_mono[of xs i "length xs"] assms
  by (auto simp: sparse_ok_def run_start_def)

lemma real_index_sparse_start:
  "sparse_ok xs \<Longrightarrow> i \<le> length xs \<Longrightarrow> real_index_calc_sparse_RLE i xs = run_start xs i"
proof (induction i)
  case 0
  then show ?case by (simp add: real_index_calc_sparse_RLE_def run_start_def)
next
  case (Suc i)
  then have "real_index_calc_sparse_RLE (Suc i) xs = to_int32 (run_start xs (Suc i))"
    by (simp add: real_index_calc_sparse_RLE_def run_start_Suc)
  also have "\<dots> = run_start xs (Suc i)"
    using run_start_bounds[OF Suc.prems] by simp
  finally show ?case .
qed

lemma dense_start: "dense_ok xs \<Longrightarrow> i \<le> length xs \<Longrightarrow> run_start xs i = int i"
proof (induction i)
  case (Suc i)
  then show ?case by (simp add: run_start_Suc dense_ok_def)
qed (simp add: run_start_def)

interpretation dense: run_index real_index_calc_dense dense_ok
  by unfold_locales
    (auto simp: real_index_calc_dense_def dense_start dense_ok_def dest: mset_eq_setD)

interpretation sparse: run_index real_index_calc_sparse_RLE sparse_ok
proof (unfold_locales, goal_cases)
  case (2 xs ys)
  then have "sum_list (map snd ys) = sum_list (map snd xs)"
    using mset_middle[of ys xs "[]" "[]"] by simp
  with 2 show ?case by (auto simp: sparse_ok_def dest: mset_eq_setD)
qed (simp_all add: real_index_sparse_start sparse_ok_def)

section \<open>Medians\<close>

text \<open>\<open>v\<close> is the element at position \<open>k\<close> of the array in sorted order.\<close>

definition kth_smallest :: "nat \<Rightarrow> float8 list \<Rightarrow> float8 \<Rightarrow> bool" where
  "kth_smallest k xs v \<longleftrightarrow> v \<in> set xs \<and> length (filter (\<lambda>x. f64_lt x v) xs) \<le> k \<and>
     k < length (filter (\<lambda>x. f64_le x v) xs)"

lemma kth_smallest_mset:
  assumes "mset xs = mset ys"
  shows "kth_smallest k xs v = kth_smallest k ys v"
proof -
  have "length (filter P xs) = length (filter P ys)" for P
    using assms by (metis mset_filter size_mset)
  with mset_eq_setD[OF assms] show ?thesis by (simp add: kth_smallest_def)
qed

lemma mset_expand: "mset (expand rs) = sum_list (map (\<lambda>(n, v). replicate_mset (nat n) v) rs)"
  by (induction rs) auto

lemma expand_mset: "mset rs = mset qs \<Longrightarrow> mset (expand rs) = mset (expand qs)"
  unfolding mset_expand by (simp flip: sum_mset_sum_list)

lemma selected_kth_smallest:
  assumes "mset ys = mset (map prod.swap rs)" "\<forall>r\<in>set rs. 0 < fst r \<and> \<not> f64_is_nan (snd r)"
    and "i < length ys" "run_start ys i \<le> int k" "int k < run_start ys (Suc i)" "cut i ys" "cut (Suc i) ys"
  shows "kth_smallest k (expand rs) (fst (ys ! i))"
proof -
  let ?E = "\<lambda>ys. expand (map prod.swap ys)" and ?v = "fst (ys ! i)"
  have ys: "\<forall>y\<in>set ys. 0 < snd y \<and> \<not> f64_is_nan (fst y)"
    using assms(2) mset_eq_setD[OF assms(1)] by auto
  have mem: "x \<in> set (?E us) \<Longrightarrow> \<exists>y\<in>set us. fst y = x" for us x
    by (force simp: expand_def)
  have len: "int (length (?E (take j ys))) = run_start ys j" for j
  proof -
    have "\<forall>r\<in>set (map prod.swap (take j ys)). 0 < fst r" using ys by (auto dest: in_set_takeD)
    from length_expand[OF this] show ?thesis by (simp add: run_start_def runs_total_def comp_def)
  qed
  have split: "?E ys = ?E (take j ys) @ ?E (drop j ys)" for j
    by (metis append_take_drop_id expand_simps(3) map_append)
  have y: "ys ! i \<in> set (drop i ys)" "ys ! i \<in> set (take (Suc i) ys)"
    using assms(3) by (simp_all add: take_Suc_conv_app_nth flip: Cons_nth_drop_Suc)
  have "filter (\<lambda>x. f64_lt x ?v) (?E (drop i ys)) = []"
  proof -
    have "f64_key ?v \<le> f64_key (fst u)" if "u \<in> set (drop i ys)" for u
      using that assms(3,7) y(2) by (auto simp: cut_def simp flip: Cons_nth_drop_Suc)
    then have "f64_key ?v \<le> f64_key x" if "x \<in> set (?E (drop i ys))" for x
      using mem[OF that] by blast
    then show ?thesis by (auto simp: filter_empty_conv f64_lt_def not_less)
  qed
  then have "length (filter (\<lambda>x. f64_lt x ?v) (?E ys)) \<le> length (?E (take i ys))"
    by (simp add: split[of i])
  moreover have "filter (\<lambda>x. f64_le x ?v) (?E (take (Suc i) ys)) = ?E (take (Suc i) ys)"
  proof -
    have "f64_key (fst u) \<le> f64_key ?v" if "u \<in> set (take (Suc i) ys)" for u
      using that assms(3,6) y(1) by (auto simp: cut_def take_Suc_conv_app_nth)
    moreover have "\<not> f64_is_nan (fst u)" if "u \<in> set ys" for u using ys that by blast
    ultimately have "f64_le x ?v" if "x \<in> set (?E (take (Suc i) ys))" for x
      using mem[OF that] assms(3) by (auto simp: f64_le_def dest: in_set_takeD)
    then show ?thesis by (simp add: filter_id_conv)
  qed
  then have "length (?E (take (Suc i) ys)) \<le> length (filter (\<lambda>x. f64_le x ?v) (?E ys))"
    by (simp add: split[of "Suc i"])
  moreover have "?v \<in> set (?E ys)"
  proof -
    have "ys ! i \<in> set ys" using assms(3) by simp
    moreover from this have "0 < nat (snd (ys ! i))" using ys by auto
    ultimately show ?thesis by (auto simp: expand_def split_beta intro!: bexI[of _ "ys ! i"])
  qed
  ultimately have "kth_smallest k (?E ys) ?v"
    using len[of i] len[of "Suc i"] assms(4,5) by (simp add: kth_smallest_def)
  moreover have "mset (?E ys) = mset (expand rs)"
    using expand_mset[of "map prod.swap ys" rs] assms(1) by (simp add: multiset.map_comp multiset.map_ident)
  ultimately show ?thesis using kth_smallest_mset by blast
qed

text \<open>The median of the runs \<open>us\<close> by either index function, as the two callers read it off.\<close>

lemma median_of_selection:
  assumes "sel = Some (i, ys)" "mset ys = mset (map prod.swap us)" "i < length ys"
    and "run_start ys i \<le> int k" "int k < run_start ys (Suc i)" "cut i ys" "cut (Suc i) ys"
    and "wf_runs us" "\<forall>v\<in>set (expand us). \<not> f64_is_nan v"
  shows "\<exists>v. (case sel of None \<Rightarrow> Inl Undefined
            | Some (ix, xs) \<Rightarrow> rbind (nth_res (map fst xs) (int ix)) (\<lambda>ret. Inr (null_if_nvp ret))) = Inr (Some v) \<and>
           kth_smallest k (expand us) v"
proof -
  have "\<forall>r\<in>set us. 0 < fst r \<and> \<not> f64_is_nan (snd r)"
    using assms(8,9) by (force simp: expand_def dest: wf_runs_pos)
  from selected_kth_smallest[OF assms(2) this assms(3-7)] have kth: "kth_smallest k (expand us) (fst (ys ! i))" .
  have "f64_is_nan NVP" by code_simp
  then have "null_if_nvp (fst (ys ! i)) = Some (fst (ys ! i))"
    using kth assms(9) by (auto simp: null_if_nvp_def IS_NVP_def kth_smallest_def)
  with assms(1,3) kth show ?thesis by (auto simp: nth_map)
qed

lemma no_nvp: "\<forall>v\<in>set (expand rs). \<not> f64_is_nan v \<Longrightarrow> wf_runs rs \<Longrightarrow> \<not> (\<exists>v\<in>snd ` set rs. IS_NVP v)"
proof -
  have "f64_is_nan NVP" by code_simp
  then show "\<forall>v\<in>set (expand rs). \<not> f64_is_nan v \<Longrightarrow> wf_runs rs \<Longrightarrow> \<not> (\<exists>v\<in>snd ` set rs. IS_NVP v)"
    by (force simp: expand_def IS_NVP_def dest: wf_runs_pos)
qed

lemma svec_median_kth:
  assumes rep: "svec_rep sv rs" and "rs \<noteq> []" "\<forall>v\<in>set (expand rs). \<not> f64_is_nan v"
    and seeds: "length (expand rs) \<le> length seeds"
  shows "\<exists>v. svec_median seeds sv = Inr (Some v) \<and> kth_smallest ((length (expand rs) - 1) div 2) (expand rs) v"
proof -
  define s where "s = sdata_from_svec sv"
  define k where "k = (length (expand rs) - 1) div 2"
  have sd: "sd_rep s rs" using svec_rep_sd[OF rep] by (simp add: s_def)
  note wf = sd_rep_wf[OF sd]
  have pos: "\<forall>r\<in>set rs. 0 < fst r \<and> \<not> f64_is_nan (snd r)"
    using wf assms(3) by (force simp: expand_def dest: wf_runs_pos)
  have len: "runs_total rs = int (length (expand rs))" "length rs \<le> length (expand rs)" "0 < length (expand rs)"
    using wf_runs_length[OF wf] length_runs_le[of rs] pos \<open>rs \<noteq> []\<close> wf_runs_eq_Nil[OF wf] wf_runs_total[OF wf] by auto
  then have n: "int (length (expand rs)) - 1 = int (length (expand rs) - 1)" by linarith
  have "k < length (expand rs)" unfolding k_def using len(3) by linarith
  moreover have "(total_value_count s - 1) div 2 = int k"
    using sd len(1) by (simp add: sd_rep_def k_def n zdiv_int)
  ultimately have k: "(total_value_count s - 1) div 2 = int k" "k < length (expand rs)" by simp_all
  have s: "unique_value_count s = int (length rs)" "vals s = map snd rs" using sd by (simp_all add: sd_rep_def)
  have nvp: "\<not> (\<exists>v\<in>set (take (nat (unique_value_count s)) (vals s)). IS_NVP v)"
    using no_nvp[OF assms(3) wf] s by simp
  show ?thesis
  proof (cases "index s")
    case None
    then have ones: "\<forall>r\<in>set rs. fst r = 1" using sd by (auto simp: sd_rep_def points_at_def)
    then have ex: "expand rs = map snd rs" by (induction rs) auto
    have eq: "map (\<lambda>v. (v, 1)) (vals s) = map prod.swap rs"
      using ones s by (auto simp: prod_eq_iff)
    have "dense_ok (map prod.swap rs)" using ones pos by (auto simp: dense_ok_def)
    from dense.select_all[OF this, of seeds "int k"] obtain i ys where
      "partition_select real_index_calc_dense (int k) (length rs - 1) seeds 0 (int (length rs) - 1) (map prod.swap rs) = Some (i, ys)"
      "mset ys = mset (map prod.swap rs)" "i < length ys" "run_start ys i \<le> int k" "int k < run_start ys (Suc i)"
      "cut i ys" "cut (Suc i) ys"
      using \<open>rs \<noteq> []\<close> len k seeds by (auto simp: run_start_def comp_def runs_total_def)
    moreover have "k = (length rs - Suc 0) div 2" using ex by (simp add: k_def)
    moreover have "total_value_count s = int (length rs)" using sd len(1) ex by (simp add: sd_rep_def)
    ultimately show ?thesis
      using nvp None ex eq k(1) median_of_selection[of _ i ys rs k, OF _ _ _ _ _ _ _ wf assms(3)]
      by (simp add: svec_median_def float8arr_partition_internal_def nat_diff_distrib' flip: s_def)
  next
    case (Some ix)
    have "sparse_ok (map prod.swap rs)"
      using pos wf by (auto simp: sparse_ok_def wf_runs_def runs_total_def comp_def)
    from sparse.select_all[OF this, of seeds "int k"] obtain i ys where
      "partition_select real_index_calc_sparse_RLE (int k) (length rs - 1) seeds 0 (int (length rs) - 1) (map prod.swap rs) = Some (i, ys)"
      "mset ys = mset (map prod.swap rs)" "i < length ys" "run_start ys i \<le> int k" "int k < run_start ys (Suc i)"
      "cut i ys" "cut (Suc i) ys"
      using \<open>rs \<noteq> []\<close> len k seeds by (auto simp: run_start_def comp_def runs_total_def)
    moreover have "zip (map snd rs) (map fst rs) = map prod.swap rs"
      by (induction rs) auto
    ultimately show ?thesis
      using nvp Some sdata_index_runs[OF sd] median_of_selection[of _ i ys rs k, OF _ _ _ _ _ _ _ wf assms(3)]
      by (simp add: svec_median_def k(1) s nat_diff_distrib' k_def flip: s_def)
  qed
qed

lemma svec_median_null:
  assumes "svec_rep sv rs" "NVP \<in> set (expand rs)"
  shows "svec_median seeds sv = Inr None"
proof -
  have "\<exists>v\<in>snd ` set rs. IS_NVP v" using assms(2) by (force simp: expand_def IS_NVP_def)
  then show ?thesis
    using svec_rep_sd[OF assms(1)] by (simp add: svec_median_def sd_rep_def)
qed

section \<open>Appending in place\<close>

lemma length_9: "length w = 9 \<Longrightarrow> \<exists>a b c d e f g h i. w = [a, b, c, d, e, f, g, h, i]"
  by (auto simp: numeral_eq_Suc length_Suc_conv)

lemma int8_to_compword_encode:
  assumes "0 \<le> n" "n < 2 ^ 63" "length w = 9"
  shows "int8_to_compword (word_of_int n) w = encode_count n @ drop (length (encode_count n)) w"
proof -
  obtain a b c d e f g h i where "w = [a, b, c, d, e, f, g, h, i]" using length_9[OF assms(3)] by blast
  then show ?thesis
    using assms(1,2)
    by (auto simp add: int8_to_compword_def sint64 Let_def encode_count_def byte_of_simps)
qed

lemma length_encode_count_mono:
  "0 \<le> n \<Longrightarrow> length (encode_count n) \<le> length (encode_count (n + 1)) \<and> length (encode_count n) \<le> 9"
  by (simp add: encode_count_def Let_def)

text \<open>The offset of the last entry of the index of the runs \<open>rs\<close>.\<close>

definition last_offset :: "float8 runs \<Rightarrow> int" where
  "last_offset rs = int (length (encode_index (map fst (butlast rs))))"

lemma last_entry_offset_runs:
  assumes "wf_runs rs" "rs \<noteq> []"
  shows "last_entry_offset (sd_of_runs rs) = Inr (last_offset rs)"
proof -
  let ?body = "\<lambda>_ (len, c). rbind (int8compstoragesize c) (\<lambda>n. rbind (advance c) (\<lambda>c. Inr (len + int n, c)))"
  have "foldM ?body is (len, Some (encode_index ns @ bs)) = Inr (len + int (length (encode_index ns)), Some bs)"
    if "length is = length ns" "\<forall>n\<in>set ns. 0 \<le> n \<and> n < 2 ^ 63" for "is" :: "nat list" and ns bs len
    using that
  proof (induction ns arbitrary: "is" len)
    case (Cons n ns)
    then show ?case
      by (cases "is") (auto simp: storage_size_encode advance_def)
  qed simp
  moreover obtain us r where rs: "rs = us @ [r]" using assms(2) by (cases rs rule: rev_cases) auto
  moreover have "\<forall>n\<in>set (map fst us). 0 \<le> n \<and> n < 2 ^ 63"
  proof
    fix n assume "n \<in> set (map fst us)"
    then have "n \<in> fst ` set rs" using rs by simp
    from wf_runs_lt[OF assms(1) this] show "0 \<le> n \<and> n < 2 ^ 63" by simp
  qed
  ultimately show ?thesis
    by (simp add: last_entry_offset_def last_offset_def)
qed

definition same_run :: "float8 \<Rightarrow> float8 \<Rightarrow> bool" where
  "same_run last_value value \<longleftrightarrow> f64_eq last_value value \<or> (IS_NVP last_value \<and> IS_NVP value)"

definition pivot_runs :: "float8 runs \<Rightarrow> float8 \<Rightarrow> float8 runs" where
  "pivot_runs rs v =
     (if rs \<noteq> [] \<and> same_run (snd (last rs)) v then butlast rs @ [(fst (last rs) + 1, snd (last rs))]
      else rs @ [(1, v)])"

text \<open>The state of the aggregate: the runs so far, within the two buffers, and the index cursor.\<close>

definition pivot_inv :: "svec \<Rightarrow> float8 runs \<Rightarrow> bool" where
  "pivot_inv sv rs \<longleftrightarrow> serial sv = sd_of_runs rs \<and> wf_runs rs \<and>
     9 \<le> vals_maxlen sv \<and> 10 \<le> index_maxlen sv \<and>
     8 * int (length rs) + 1 \<le> vals_maxlen sv \<and>
     int (length (encode_index (map fst rs))) + 1 \<le> index_maxlen sv \<and>
     index_cursor sv \<in> {0, last_offset rs}"

lemma sdata_from_svec_pivot: "pivot_inv sv rs \<Longrightarrow> sdata_from_svec sv = sd_of_runs rs"
  by (simp add: pivot_inv_def sdata_from_svec_def index_bytes_def sd_of_runs_def)

lemma pivot_inv_empty: "pivot_inv (makeEmptySvec 1) []"
  by (simp add: pivot_inv_def makeEmptySvec_def svec_from_sparsedata_untrimmed_def makeEmptySparseData_def
      sd_of_runs_def encode_index_def)

lemma pivot_inv_realloc: "pivot_inv sv rs \<Longrightarrow> pivot_inv (reallocSvec sv) rs"
  by (auto simp: pivot_inv_def reallocSvec_def sdata_from_svec_def svec_from_sparsedata_untrimmed_def
      index_bytes_def sd_of_runs_def Let_def)

lemma append_one_pivot:
  assumes "pivot_inv sv rs" "runs_total rs + 1 < 2 ^ 31"
    and "8 * int (length rs) + 9 \<le> vals_maxlen sv"
    and "int (length (encode_index (map fst rs))) + 10 \<le> index_maxlen sv"
  shows "\<exists>sv'. append_one sv (sd_of_runs rs) v = Inr sv' \<and> pivot_inv sv' (rs @ [(1, v)])"
proof -
  have wf: "wf_runs (rs @ [(1, v)])"
    using assms(1,2) by (auto simp: pivot_inv_def wf_runs_def)
  then show ?thesis
    using assms last_entry_offset_runs[OF wf]
    by (simp add: append_one_def add_run_of_runs vals_len_def index_len_def index_bytes_def)
      (simp add: pivot_inv_def last_offset_def encode_count_def)
qed

lemma bump_last_run_pivot:
  assumes "pivot_inv sv (us @ [(n, v)])" "runs_total us + n + 1 < 2 ^ 31"
    and "int (length (encode_index (map fst (us @ [(n, v)])))) + 10 \<le> index_maxlen sv"
  shows "\<exists>sv'. bump_last_run sv (sd_of_runs (us @ [(n, v)])) (last_offset (us @ [(n, v)])) = Inr sv' \<and>
           pivot_inv sv' (us @ [(n + 1, v)])"
proof -
  let ?rs = "us @ [(n, v)]" and ?pre = "encode_index (map fst us)"
  have wf: "wf_runs ?rs" using assms(1) by (simp add: pivot_inv_def)
  have tot: "0 \<le> runs_total us" using wf_runs_append[OF wf] wf_runs_total by blast
  have n: "0 < n" "n + 1 < 2 ^ 31" using wf tot assms(2) by (auto simp: wf_runs_def)
  have off: "last_offset ?rs = int (length ?pre)" by (simp add: last_offset_def)
  have ix: "index_bytes (index (sd_of_runs ?rs)) = ?pre @ encode_count n"
    by (simp add: index_bytes_def)
  define buf where "buf = encode_count n @ replicate (9 - length (encode_count n)) (0::byte)"
  have "length buf = 9" using length_encode_count_mono[of n] n by (simp add: buf_def)
  from int8_to_compword_encode[OF _ _ this, of "n + 1"] n
  have enc: "int8_to_compword (word_of_int (n + 1)) buf =
      encode_count (n + 1) @ drop (length (encode_count (n + 1))) buf" by simp
  note len = length_encode_count_mono[of n] length_encode_count_mono[of "n + 1"]
  have size: "int8compstoragesize (Some (encode_count n)) = Inr (length (encode_count n))"
    "compword_to_int8 (Some (encode_count n)) = Inr n"
    using storage_size_encode[of n "[]"] compword_encode[of n "[]"] n by simp_all
  have wf': "wf_runs (us @ [(n + 1, v)])" using wf assms(2) n by (auto simp: wf_runs_def)
  have "bump_last_run sv (sd_of_runs ?rs) (last_offset ?rs) =
      Inr (sv\<lparr>index_cursor := last_offset ?rs, serial := sd_of_runs (us @ [(n + 1, v)])\<rparr>)"
    using n len size enc assms(2,3) tot storage_size_encode[of "n + 1"]
    unfolding bump_last_run_def Let_def ix off
    by (simp add: sd_of_runs_def flip: buf_def)
  moreover have "pivot_inv (sv\<lparr>index_cursor := last_offset ?rs, serial := sd_of_runs (us @ [(n + 1, v)])\<rparr>)
      (us @ [(n + 1, v)])"
    using assms(1,3) wf' len n by (simp add: pivot_inv_def last_offset_def)
  ultimately show ?thesis by blast
qed

lemma svec_pivot_step:
  assumes "pivot_inv sv rs" "runs_total rs + 1 < 2 ^ 31"
  shows "\<exists>sv'. svec_pivot (Some sv) arg = Inr sv' \<and>
           pivot_inv sv' (pivot_runs rs (case arg of None \<Rightarrow> NVP | Some v \<Rightarrow> v))"
proof -
  let ?v = "case arg of None \<Rightarrow> NVP | Some v \<Rightarrow> v"
  define sv1 where "sv1 = (if vals_len (sd_of_runs rs) + 8 + 1 > vals_maxlen sv \<or>
      index_len (sd_of_runs rs) + 9 + 1 > index_maxlen sv then reallocSvec sv else sv)"
  have inv: "pivot_inv sv1 rs" using assms(1) pivot_inv_realloc by (simp add: sv1_def)
  have room: "8 * int (length rs) + 9 \<le> vals_maxlen sv1"
    "int (length (encode_index (map fst rs))) + 10 \<le> index_maxlen sv1"
    using assms(1)
    by (auto simp: sv1_def reallocSvec_def svec_from_sparsedata_untrimmed_def Let_def pivot_inv_def
        vals_len_def index_len_def index_bytes_def)
  note sd = sdata_from_svec_pivot[OF assms(1)] sdata_from_svec_pivot[OF inv]
  show ?thesis
  proof (cases rs rule: rev_cases)
    case Nil
    have "pivot_inv (sv1\<lparr>index_cursor := 0\<rparr>) rs" using inv by (simp add: pivot_inv_def)
    from append_one_pivot[OF this assms(2)] room Nil show ?thesis
      unfolding svec_pivot_def Let_def option.case sd sv1_def[symmetric]
      by (simp add: pivot_runs_def index_len_def index_bytes_def)
  next
    case (snoc us r)
    obtain n v where r: "r = (n, v)" by (cases r)
    have wf: "wf_runs rs" using inv by (simp add: pivot_inv_def)
    let ?cur = "last_offset rs"
    have cur: "(if index_cursor sv1 = 0 then last_entry_offset (sd_of_runs rs) else Inr (index_cursor sv1)) = Inr ?cur"
      using inv last_entry_offset_runs[OF wf] snoc by (auto simp: pivot_inv_def)
    have inv': "pivot_inv (sv1\<lparr>index_cursor := ?cur\<rparr>) rs" using inv by (simp add: pivot_inv_def)
    have "0 < length (encode_count (fst r))" by simp
    then have "index_len (sd_of_runs rs) \<noteq> 0"
      using snoc unfolding index_len_def index_bytes_def by (simp del: length_greater_0_conv)
    moreover have "nth_res (vals (sd_of_runs rs)) (int (length (vals (sd_of_runs rs))) - 1) = Inr v"
      using snoc r by (simp add: nth_res_def nat_add_distrib nth_append)
    ultimately have "svec_pivot (Some sv) arg =
        (if same_run v ?v then bump_last_run sv1 (sd_of_runs rs) ?cur
         else append_one (sv1\<lparr>index_cursor := ?cur\<rparr>) (sd_of_runs rs) ?v)"
      unfolding svec_pivot_def Let_def option.case sd sv1_def[symmetric] same_run_def
      by (simp add: cur)
    then show ?thesis
      using append_one_pivot[OF inv' assms(2), of ?v] room bump_last_run_pivot[of sv1 us n v] inv assms(2) snoc r
      by (auto simp: pivot_runs_def)
  qed
qed

text \<open>The aggregate \<open>svec_agg\<close> of \<open>svec.sql_in\<close>: \<open>svec_pivot\<close> folded over the rows, from NULL.\<close>

definition svec_agg :: "float8 option list \<Rightarrow> svec option \<Rightarrow> svec option res" where
  "svec_agg = foldM (\<lambda>arg state. rbind (svec_pivot state arg) (\<lambda>sv. Inr (Some sv)))"

definition pivot_value :: "float8 option \<Rightarrow> float8" where
  "pivot_value arg = (case arg of None \<Rightarrow> NVP | Some v \<Rightarrow> v)"

definition same_value :: "float8 \<Rightarrow> float8 option \<Rightarrow> bool" where
  "same_value x arg \<longleftrightarrow> x = pivot_value arg \<or> f64_eq x (pivot_value arg)"

lemma pivot_runs_expand:
  assumes "wf_runs rs"
  shows "\<exists>x. expand (pivot_runs rs (pivot_value arg)) = expand rs @ [x] \<and> same_value x arg \<and>
           runs_total (pivot_runs rs (pivot_value arg)) = runs_total rs + 1"
proof (cases rs rule: rev_cases)
  case Nil
  then show ?thesis by (simp add: pivot_runs_def same_value_def)
next
  case (snoc us r)
  then have "0 < fst r" using assms by (simp add: wf_runs_def)
  then have "replicate (nat (fst r + 1)) (snd r) = replicate (nat (fst r)) (snd r) @ [snd r]"
    by (simp add: nat_add_distrib replicate_append_same)
  with snoc show ?thesis
    by (auto simp: pivot_runs_def same_value_def same_run_def IS_NVP_def)
qed

lemma svec_agg_rest:
  "pivot_inv sv rs \<Longrightarrow> runs_total rs + int (length args) < 2 ^ 31 \<Longrightarrow>
   \<exists>sv' rs' xs. svec_agg args (Some sv) = Inr (Some sv') \<and> pivot_inv sv' rs' \<and>
     expand rs' = expand rs @ xs \<and> list_all2 same_value xs args"
proof (induction args arbitrary: sv rs)
  case Nil
  then show ?case by (auto simp: svec_agg_def)
next
  case (Cons arg args)
  obtain sv1 where sv1: "svec_pivot (Some sv) arg = Inr sv1" "pivot_inv sv1 (pivot_runs rs (pivot_value arg))"
    using svec_pivot_step[of sv rs arg] Cons.prems by (auto simp: pivot_value_def)
  obtain x where x: "expand (pivot_runs rs (pivot_value arg)) = expand rs @ [x]" "same_value x arg"
    "runs_total (pivot_runs rs (pivot_value arg)) = runs_total rs + 1"
    using pivot_runs_expand[of rs arg] Cons.prems(1) by (auto simp: pivot_inv_def)
  obtain sv' rs' xs where "svec_agg args (Some sv1) = Inr (Some sv')" "pivot_inv sv' rs'"
    "expand rs' = (expand rs @ [x]) @ xs" "list_all2 same_value xs args"
    using Cons.IH[OF sv1(2)] Cons.prems(2) x by auto
  then show ?case
    using sv1(1) x(2) by (intro exI[of _ sv'] exI[of _ rs'] exI[of _ "x # xs"]) (simp add: svec_agg_def)
qed

lemma svec_agg_first:
  "args \<noteq> [] \<Longrightarrow> svec_agg args None = svec_agg args (Some (makeEmptySvec 1))"
  by (cases args) (simp_all add: svec_agg_def svec_pivot_def)

section \<open>Elements that differ from a base value\<close>

text \<open>The positions, counted from \<open>k + 1\<close>, of the elements of an array that are not \<open>b\<close>.\<close>

definition positions_not :: "int \<Rightarrow> 'a \<Rightarrow> 'a list \<Rightarrow> int list" where
  "positions_not k b xs = map (\<lambda>i. k + int i + 1) (filter (\<lambda>i. xs ! i \<noteq> b) [0..<length xs])"

lemma positions_not_append:
  "positions_not k b (xs @ ys) = positions_not k b xs @ positions_not (k + int (length xs)) b ys"
proof -
  have "[length xs..<length xs + length ys] = map (\<lambda>i. i + length xs) [0..<length ys]"
    by (simp add: map_add_upt add.commute)
  then have "[0..<length xs + length ys] = [0..<length xs] @ map (\<lambda>i. i + length xs) [0..<length ys]"
    using upt_add_eq_append[of 0 "length xs" "length ys"] by simp
  moreover have "filter (\<lambda>i. (xs @ ys) ! i \<noteq> b) [0..<length xs] = filter (\<lambda>i. xs ! i \<noteq> b) [0..<length xs]"
    by (rule filter_cong) (auto simp: nth_append)
  ultimately show ?thesis
    by (simp add: positions_not_def filter_map comp_def nth_append ac_simps)
qed

lemma positions_not_replicate:
  "positions_not k b (replicate n v) = (if v \<noteq> b then map (\<lambda>i. k + int i + 1) [0..<n] else [])"
  by (auto simp: positions_not_def filter_empty_conv intro!: filter_True)

lemma nonbase_fold:
  "\<forall>r\<in>set rs. 0 < fst r \<Longrightarrow>
   fst (fold (nonbase_step b) rs (result, k)) = result @ positions_not k b (expand rs)"
proof (induction rs arbitrary: result k)
  case (Cons r rs)
  have "nonbase_step b r (result, k) =
      (result @ positions_not k b (replicate (nat (fst r)) (snd r)), k + int (nat (fst r)))"
    using Cons.prems by (auto simp: nonbase_step_def positions_not_replicate)
  with Cons show ?case by (simp add: positions_not_append)
qed (simp add: positions_not_def)

section \<open>Properties\<close>

text \<open>
  C7: \<open>svec_median\<close> is SQL NULL when an element is \<open>NVP\<close>; otherwise, for elements that are no NaN
  and whatever numbers \<open>drand48\<close> returns, the randomised partitioning ends within as many passes as
  the vector has elements and the result is the element at position \<open>(dimension - 1) / 2\<close> of the
  sorted vector.
\<close>

theorem svec_median_correct:
  assumes "svec_rep sv rs" "rs \<noteq> []" "length (expand rs) \<le> length seeds"
    and "\<forall>v\<in>set (expand rs). f64_is_nan v \<longrightarrow> v = NVP"
  shows "if NVP \<in> set (expand rs) then svec_median seeds sv = Inr None
         else \<exists>v. svec_median seeds sv = Inr (Some v) \<and>
                  kth_smallest ((length (expand rs) - 1) div 2) (expand rs) v"
  using svec_median_kth[of sv rs seeds] svec_median_null[of sv rs] assms by auto

theorem svec_median_correct_witness:
  "\<exists>v. svec_median [0, 1, 2, 3, 4] (svec_from_sparsedata (sd_of_runs [(2, f64_of_int 7), (3, f64_of_int 5)])) = Inr (Some v) \<and>
     kth_smallest 2 [f64_of_int 7, f64_of_int 7, f64_of_int 5, f64_of_int 5, f64_of_int 5] v"
proof -
  let ?rs = "[(2, f64_of_int 7), (3, f64_of_int 5)]"
  have "svec_rep (svec_from_sparsedata (sd_of_runs ?rs)) ?rs"
    by (rule svec_rep_from_sparsedata) (simp add: wf_runs_def)
  moreover have "expand ?rs = [f64_of_int 7, f64_of_int 7, f64_of_int 5, f64_of_int 5, f64_of_int 5]"
    "\<forall>v\<in>set (expand ?rs). \<not> f64_is_nan v" "NVP \<notin> set (expand ?rs)"
    by code_simp+
  ultimately show ?thesis
    using svec_median_correct[of "svec_from_sparsedata (sd_of_runs ?rs)" ?rs "[0, 1, 2, 3, 4]"]
    by (simp add: numeral_2_eq_2[symmetric])
qed

text \<open>
  The aggregate \<open>svec_agg\<close>, which appends the rows to the state in place, never writes outside
  the two buffers of the state, whose growth \<open>reallocSvec\<close> provides for, and returns a vector of the
  rows in order: each element is the row's value (\<open>NVP\<close> for NULL) or compares equal to it.
\<close>

theorem svec_agg_rows:
  assumes "args \<noteq> []" "length args < 2 ^ 31"
  shows "\<exists>sv xs. svec_agg args None = Inr (Some sv) \<and> svec_return_array_internal sv = Inr xs \<and>
           list_all2 same_value xs args"
proof -
  obtain sv rs xs where "svec_agg args None = Inr (Some sv)" "pivot_inv sv rs" "expand rs = xs"
    "list_all2 same_value xs args"
    using svec_agg_rest[OF pivot_inv_empty, of args] svec_agg_first[OF assms(1)] assms(2) by auto
  moreover from this have "svec_return_array_internal sv = Inr xs"
    by (simp add: svec_return_array_internal_def sdata_from_svec_pivot)
      (metis pivot_inv_def sd_rep_of_runs sdata_to_float8arr_runs)
  ultimately show ?thesis by blast
qed

theorem svec_agg_rows_witness:
  "\<exists>sv xs. svec_agg [Some 7, None, Some 7] None = Inr (Some sv) \<and> svec_return_array_internal sv = Inr xs \<and>
     list_all2 same_value xs [Some 7, None, Some 7]"
  using svec_agg_rows[of "[Some 7, None, Some 7]"] by simp

text \<open>
  The vector \<open>svec_agg\<close> returns has a wrong \<open>dimension\<close>: \<open>svec_pivot\<close> does not update the field,
  which holds the value it got when the buffers were last enlarged.  A vector of two elements is
  taken for a scalar: \<open>svec_plus\<close> with a vector of three elements returns a result instead of the
  error for different dimensions.
\<close>

theorem svec_agg_dimension:
  "rbind (svec_agg [Some f64_one, Some f64_zero] None) (\<lambda>sv.
     rbind (svec_return_array_internal (the sv)) (\<lambda>xs.
     rbind (svec_from_float8arr [f64_one, f64_zero, f64_one] 3) (\<lambda>b.
     rbind (svec_plus (the sv) b) (\<lambda>t.
     rbind (svec_return_array_internal t) (\<lambda>ys. Inr (xs, svec_dimension (the sv), ys)))))) =
   Inr ([f64_one, f64_zero], 1, [f64_of_int 2, f64_one, f64_of_int 2])"
  by code_simp

text \<open>
  For a vector with a stored index \<open>svec_nonbase_positions\<close> returns the positions, from 1, of the
  elements whose bits differ from the base value, and \<open>svec_nonbase_values\<close> their values, in order.
\<close>

theorem nonbase_elements:
  assumes "svec_rep sv rs" "index (sdata_from_svec sv) \<noteq> None"
  shows "svec_nonbase_positions sv b = Inr (positions_not 0 b (expand rs)) \<and>
         svec_nonbase_values sv b = Inr (filter (\<lambda>v. v \<noteq> b) (expand rs))"
proof -
  note sd = svec_rep_sd[OF assms(1)]
  have "zip (map fst rs) (map snd rs) = rs" by (rule zip_map_fst_snd)
  moreover have "concat (map (\<lambda>(n, v). if b \<noteq> v then replicate (nat n) v else []) rs) = filter (\<lambda>v. v \<noteq> b) (expand rs)"
    by (induction rs) (auto simp: filter_replicate)
  moreover have "\<forall>r\<in>set rs. 0 < fst r" using sd_rep_wf[OF sd] by (simp add: wf_runs_def)
  moreover have "unique_value_count (sdata_from_svec sv) = int (length rs)" "vals (sdata_from_svec sv) = map snd rs"
    using sd by (simp_all add: sd_rep_def)
  ultimately show ?thesis
    using assms(2) sdata_index_runs[OF sd]
    by (simp add: svec_nonbase_positions_def svec_nonbase_values_def nonbase_fold)
qed

theorem nonbase_elements_witness:
  "svec_nonbase_positions (svec_from_sparsedata (sd_of_runs [(1, 7), (2, 0)])) 0 = Inr [1] \<and>
   svec_nonbase_values (svec_from_sparsedata (sd_of_runs [(1, 7), (2, 0)])) 0 = Inr [7]"
proof -
  let ?sv = "svec_from_sparsedata (sd_of_runs [(1, 7), (2, 0)])"
  have "svec_rep ?sv [(1, 7), (2, 0)]"
    by (rule svec_rep_from_sparsedata) (simp add: wf_runs_def)
  moreover have "index (sdata_from_svec ?sv) \<noteq> None" by code_simp
  moreover have "positions_not 0 (0::float8) (expand [(1, 7), (2, 0)]) = [1]"
    "filter (\<lambda>v. v \<noteq> 0) (expand [(1, 7::float8), (2, 0)]) = [7]"
    by code_simp+
  ultimately show ?thesis
    using nonbase_elements[of ?sv "[(1, 7), (2, 0)]" 0] by simp
qed

end
