(* ===== verification/SketchSupport.thy ===== *)
theory SketchSupport
  imports Prelude
begin

text \<open>
  The support routines of the sketches, \<open>methods/sketch/src/pg_gp/sketch_support.{h,c}\<close>: bitmaps of
  several sketches in one byte array, hexadecimal text, and the hash of a datum.

  A \<open>Datum\<close> is either a word passed by value or a pointer; a pointer is the list of the bytes from
  the address on.  What the server provides is a parameter: \<open>varsize_any\<close> (\<open>VARSIZE_ANY\<close>, the length
  in the header of a variable-length value), \<open>md5_hash\<close> (\<open>pg_md5_hash\<close>, the text of the MD5 hash
  of a byte string, 32 lower-case hexadecimal digits), and the catalog: \<open>typ_lookup\<close> (\<open>get_typlen\<close> and
  \<open>get_typbyval\<close> of an Oid) and \<open>typ_output\<close> (\<open>getTypeOutputInfo\<close>), and \<open>qsort_arg\<close>, which
  sorts an array of numbers with a comparison function.
\<close>

datatype datum = Word int64 | Ptr "byte list"

record typinfo =
  typLen :: int
  typByVal :: bool

record server =
  varsize_any :: "byte list \<Rightarrow> nat"
  md5_hash :: "byte list \<Rightarrow> byte list"
  typ_lookup :: "nat \<Rightarrow> typinfo"
  typ_output :: "nat \<Rightarrow> nat"
  qsort_arg :: "(nat \<Rightarrow> nat \<Rightarrow> int) \<Rightarrow> nat list \<Rightarrow> nat list"

section \<open>Datums\<close>

text \<open>The eight bytes of a word in memory, least significant first.\<close>

definition word64_bytes :: "int64 \<Rightarrow> byte list" where
  "word64_bytes w = map (\<lambda>i. ucast (drop_bit (8 * i) w)) [0..<8]"

definition word64_of_bytes :: "byte list \<Rightarrow> int64" where
  "word64_of_bytes bs = foldr (\<lambda>b w. ucast b OR push_bit 8 w) (take 8 bs) 0"

definition DatumExtractPointer :: "datum \<Rightarrow> byte list" where
  "DatumExtractPointer x = (case x of Word w \<Rightarrow> word64_bytes w | Ptr bs \<Rightarrow> bs)"

text \<open>The datum a marshalled value stands for; a value passed by reference is its address.\<close>

definition PointerExtractDatum :: "byte list \<Rightarrow> bool \<Rightarrow> datum res" where
  "PointerExtractDatum x byVal =
     (if byVal then rbind (guard_mem (8 \<le> length x)) (\<lambda>_. Inr (Word (word64_of_bytes x))) else Inr (Ptr x))"

fun strlen :: "byte list \<Rightarrow> nat res" where
  "strlen [] = Inl Undefined"
| "strlen (b # bs) = (if b = 0 then Inr 0 else rbind (strlen bs) (\<lambda>n. Inr (Suc n)))"

definition ExtractDatumLen :: "server \<Rightarrow> datum \<Rightarrow> int \<Rightarrow> nat res" where
  "ExtractDatumLen srv x len =
     (if len > 0 then Inr (nat len)
      else if len = -1 then Inr (varsize_any srv (DatumExtractPointer x))
      else if len = -2 then strlen (DatumExtractPointer x)
      else Inl (Report ''Datum typelength error in ExtractDatumLen''))"

text \<open>\<open>memcmp\<close> of the standard library: the sign of the first difference of unsigned bytes.\<close>

fun memcmp :: "byte list \<Rightarrow> byte list \<Rightarrow> nat \<Rightarrow> int res" where
  "memcmp xs ys 0 = Inr 0"
| "memcmp (x # xs) (y # ys) (Suc n) =
     (if x = y then memcmp xs ys n else Inr (if x < y then -1 else 1))"
| "memcmp _ _ (Suc n) = Inl Undefined"

section \<open>Hexadecimal text\<close>

definition isdigit :: "byte \<Rightarrow> bool" where
  "isdigit c \<longleftrightarrow> 48 \<le> c \<and> c \<le> 57"

definition hex_digit :: "byte \<Rightarrow> int" where
  "hex_digit c =
     (if isdigit c then uint c - 48
      else if 65 \<le> c \<and> c \<le> 70 then uint c - 65 + 10
      else if 97 \<le> c \<and> c \<le> 102 then uint c - 97 + 10
      else 0)"

fun hex_to_bytes :: "byte list \<Rightarrow> byte list" where
  "hex_to_bytes (c1 # c2 # hex) = word_of_int (hex_digit c1 * 16 + hex_digit c2) # hex_to_bytes hex"
| "hex_to_bytes _ = []"

section \<open>Hashing\<close>

definition MD5_HASHLEN :: nat where "MD5_HASHLEN = 16"
definition MD5_HASHLEN_BITS :: nat where "MD5_HASHLEN_BITS = 8 * MD5_HASHLEN"

text \<open>
  \<open>sketch_md5_bytea\<close> keeps the hash of a zero of eight bytes in static variables: \<open>zero_cached\<close> and
  \<open>md5_of_0\<close>, an option here.  \<open>md5_value\<close> is the hash itself.
\<close>

definition md5_value :: "server \<Rightarrow> datum \<Rightarrow> nat \<Rightarrow> byte list res" where
  "md5_value srv dat typOid =
     rbind (ExtractDatumLen srv dat (typLen (typ_lookup srv typOid))) (\<lambda>len.
     rbind (guard_mem (len \<le> length (DatumExtractPointer dat))) (\<lambda>_.
       Inr (hex_to_bytes (take (2 * MD5_HASHLEN) (md5_hash srv (take len (DatumExtractPointer dat)))))))"

definition is_zero8 :: "server \<Rightarrow> datum \<Rightarrow> nat \<Rightarrow> bool" where
  "is_zero8 srv dat typOid \<longleftrightarrow> typByVal (typ_lookup srv typOid) \<and>
     ExtractDatumLen srv dat (typLen (typ_lookup srv typOid)) = Inr 8 \<and> dat = Word 0"

definition sketch_md5_bytea :: "server \<Rightarrow> byte list option \<Rightarrow> datum \<Rightarrow> nat \<Rightarrow>
    (byte list \<times> byte list option) res" where
  "sketch_md5_bytea srv md5_of_0 dat typOid =
     (if is_zero8 srv dat typOid \<and> md5_of_0 \<noteq> None then Inr (the md5_of_0, md5_of_0)
      else rbind (md5_value srv dat typOid) (\<lambda>out.
             Inr (out, if is_zero8 srv dat typOid \<and> md5_of_0 = None then Some out else md5_of_0)))"

section \<open>Bits\<close>

function count_shifts :: "32 word \<Rightarrow> 32 word \<Rightarrow> 32 word" where
  "count_shifts v c = (if v = 0 then c else count_shifts (drop_bit 1 v) (c + 1))"
  by auto
termination
proof (relation "measure (\<lambda>(v, c). unat v)")
  fix v c :: "32 word" assume "v \<noteq> 0"
  then have "0 < unat v" by (simp add: unat_gt_0)
  then show "((drop_bit 1 v, c + 1), (v, c)) \<in> measure (\<lambda>(v, c). unat v)"
    by (simp add: drop_bit_eq_div unat_div)
qed simp

declare count_shifts.simps [simp del]

definition ui_rightmost_one :: "32 word \<Rightarrow> 32 word" where
  "ui_rightmost_one v = count_shifts (drop_bit 1 (v XOR (v - 1))) 0"

text \<open>The loop of \<open>rightmost_one\<close> over \<open>i\<close>, from the last byte of the sketch \<open>s\<close> down.\<close>

fun rightmost_one_loop :: "byte list \<Rightarrow> nat \<Rightarrow> 32 word \<Rightarrow> 32 word res" where
  "rightmost_one_loop s 0 c = Inr c"
| "rightmost_one_loop s (Suc i) c =
     rbind (nth_res s (int i)) (\<lambda>b.
       let v = ucast b :: 32 word in
       if v = 0 then rightmost_one_loop s i (c + 8) else Inr (c + ui_rightmost_one v))"

definition rightmost_one :: "byte list \<Rightarrow> nat \<Rightarrow> nat \<Rightarrow> 32 word res" where
  "rightmost_one bits sketchsz_bits sketchnum =
     rbind (check (sketchsz_bits mod 32 = 0) ''bits per sketch must be a multiple of sizeof(uint32)'') (\<lambda>_.
       rightmost_one_loop (drop (sketchnum * sketchsz_bits mod 2 ^ 64 div 8) bits) (sketchsz_bits div 8) 0)"

definition reverse_byte :: "byte \<Rightarrow> byte" where
  "reverse_byte b = (let s = ucast b :: 64 word in
     ucast (drop_bit 16 (((s * 0x0802 AND 0x22110) OR (s * 0x8020 AND 0x88440)) * 0x10101)))"

text \<open>The loop of \<open>leftmost_zero\<close>, over the bytes that are left.\<close>

fun leftmost_zero_loop :: "byte list \<Rightarrow> nat \<Rightarrow> 32 word \<Rightarrow> 32 word res" where
  "leftmost_zero_loop s 0 c = Inr c"
| "leftmost_zero_loop [] (Suc n) c = Inl Undefined"
| "leftmost_zero_loop (b # s) (Suc n) c =
     (if ucast b = (0xff :: 32 word) then leftmost_zero_loop s n (c + 8)
      else Inr (c + ui_rightmost_one (ucast (reverse_byte b) XOR 0xff)))"

definition leftmost_zero :: "byte list \<Rightarrow> nat \<Rightarrow> nat \<Rightarrow> nat \<Rightarrow> 32 word res" where
  "leftmost_zero bits numsketches sketchsz_bits sketchnum =
     rbind (check (sketchsz_bits mod 32 = 0) ''bits per sketch must be a multiple of sizeof(uint32)'') (\<lambda>_.
     rbind (check (sketchsz_bits \<le> numsketches * 8 mod 2 ^ 64) ''sketch sz is larger than the bitmap'') (\<lambda>_.
       leftmost_zero_loop (drop (sketchnum * sketchsz_bits mod 2 ^ 64 div 8) bits) (sketchsz_bits div 8) 0))"

text \<open>
  \<open>array_set_bit_in_place\<close>; \<open>bytes_per_sketch\<close> is a \<open>char\<close>.  The size check divides by
  \<open>sizeof(uint32)\<close>, which is 4.
\<close>

definition array_set_bit_in_place :: "byte list \<Rightarrow> int \<Rightarrow> int \<Rightarrow> int \<Rightarrow> int \<Rightarrow> byte list res" where
  "array_set_bit_in_place bitmap numsketches sketchsz_bits sketchnum bitnum =
     (let bytes_per_sketch = sint (word_of_int (sketchsz_bits div 8) :: byte);
          mask = push_bit (nat (bitnum mod 8)) (1 :: byte);
          pos = sketchnum * bytes_per_sketch + ((bytes_per_sketch - 1) - bitnum div 8)
      in rbind (check (0 \<le> sketchnum \<and> sketchnum < numsketches) ''sketch offset exceeds the number of sketches'') (\<lambda>_.
         rbind (check (0 \<le> bitnum \<and> bitnum < sketchsz_bits) ''bit offset exceeds the number of bits per sketch'') (\<lambda>_.
         rbind (check (sketchsz_bits mod 4 = 0) ''bits per sketch must be a multiple of sizeof(uint32)'') (\<lambda>_.
         rbind (nth_res bitmap pos) (\<lambda>b. upd_res bitmap pos (b OR mask))))))"

section \<open>Word order\<close>

text \<open>
  \<open>int64_big_endianize\<close> on the 32-bit halves of the array (\<open>bytes32\<close>), on a machine that is not
  big-endian.
\<close>

definition int64_big_endianize :: "32 word list \<Rightarrow> nat \<Rightarrow> 32 word list res" where
  "int64_big_endianize bytes32 numbytes =
     rbind (check (numbytes mod 8 = 0) ''illegal numbytes argument to big_endianize'') (\<lambda>_.
       foldM (\<lambda>i bytes32.
           rbind (nth_res bytes32 (int i)) (\<lambda>x.
           rbind (nth_res bytes32 (int i + 1)) (\<lambda>y.
             rbind (upd_res bytes32 (int i) y) (\<lambda>bs. upd_res bs (int i + 1) x))))
         (filter even [0..<numbytes div 8]) bytes32)"

end
