(* ===== verification/CountMin.thy ===== *)
theory CountMin
  imports SketchSupport
begin

text \<open>
  The CountMin sketch over dyadic ranges, \<open>methods/sketch/src/pg_gp/countmin.{h,c}\<close>.  A \<open>countmin\<close> is
  the array \<open>uint64[DEPTH][NUMCOUNTERS]\<close>; the transition value \<open>cmtransval\<close> holds one per range.  A
  transition blob that is not initialised (smaller than \<open>CM_TRANSVAL_SZ\<close>) is \<open>None\<close>.
\<close>

section \<open>Data\<close>

definition RANGES :: nat where "RANGES = 64"
definition DEPTH :: nat where "DEPTH = 8"
definition NUMCOUNTERS :: nat where "NUMCOUNTERS = 1024"
definition MAXARGS :: nat where "MAXARGS = 3"
definition INT8OID :: nat where "INT8OID = 20"
definition INT64_MAX :: int where "INT64_MAX = 2 ^ 63 - 1"

type_synonym countmin = "int64 list list"

record cmtransval =
  args :: "datum list"
  nargs :: int
  typOid :: nat
  outFuncOid :: nat
  sketches :: "countmin list"

section \<open>Iterating over the counters of a hash\<close>

text \<open>The column of row \<open>i\<close>: two bytes of the hash, read as an unsigned short.\<close>

definition hash_col :: "byte list \<Rightarrow> nat \<Rightarrow> nat res" where
  "hash_col hashval i =
     rbind (nth_res hashval (int (2 * i))) (\<lambda>lo.
     rbind (nth_res hashval (int (2 * i + 1))) (\<lambda>hi.
       Inr ((unat lo + 256 * unat hi) mod NUMCOUNTERS)))"

definition counter_at :: "countmin \<Rightarrow> nat \<Rightarrow> nat \<Rightarrow> int64 res" where
  "counter_at sketch i col = rbind (nth_res sketch (int i)) (\<lambda>row. nth_res row (int col))"

text \<open>The functions \<open>hash_counters_iterate\<close> calls on row, column, sketch and running value.\<close>

type_synonym counter_fun = "nat \<Rightarrow> nat \<Rightarrow> countmin \<Rightarrow> int \<Rightarrow> (countmin \<times> int) res"

definition increment_counter :: counter_fun where
  "increment_counter i col sketch transval =
     rbind (counter_at sketch i col) (\<lambda>oldval.
     rbind (check (uint oldval \<noteq> INT64_MAX) ''maximum count exceeded in sketch'') (\<lambda>_.
       Inr (sketch[i := (sketch ! i)[col := oldval + 1]], sint (oldval + 1))))"

definition min_counter :: counter_fun where
  "min_counter i col sketch transval =
     rbind (counter_at sketch i col) (\<lambda>thisval.
       Inr (sketch, if sint thisval < transval then sint thisval else transval))"

definition hash_counters_iterate :: "byte list \<Rightarrow> countmin \<Rightarrow> int \<Rightarrow> counter_fun \<Rightarrow> (countmin \<times> int) res" where
  "hash_counters_iterate hashval sketch initial lambdaptr =
     foldM (\<lambda>i (sketch, retval). rbind (hash_col hashval i) (\<lambda>col. lambdaptr i col sketch retval))
       [0..<DEPTH] (sketch, initial)"

section \<open>Transition\<close>

definition countmin_trans_c :: "server \<Rightarrow> countmin \<Rightarrow> datum \<Rightarrow> nat \<Rightarrow> (countmin \<times> byte list) res" where
  "countmin_trans_c srv sketch dat typ =
     rbind (md5_value srv dat typ) (\<lambda>nhash.
     rbind (hash_counters_iterate nhash sketch 0 increment_counter) (\<lambda>(sketch, _). Inr (sketch, nhash)))"

text \<open>One range after the other; the input is halved with an arithmetic shift.\<close>

definition countmin_dyadic_trans_c :: "server \<Rightarrow> cmtransval \<Rightarrow> int64 \<Rightarrow> cmtransval res" where
  "countmin_dyadic_trans_c srv transval input =
     rbind (check (typOid transval = INT8OID) ''cmsketch can only compute ranges for int64'') (\<lambda>_.
     rbind (foldM (\<lambda>j (sketches, input).
                rbind (nth_res sketches (int j)) (\<lambda>sketch.
                rbind (countmin_trans_c srv sketch (Word input) (typOid transval)) (\<lambda>(sketch, _).
                  Inr (sketches[j := sketch], signed_drop_bit 1 input))))
              [0..<RANGES] (sketches transval, input)) (\<lambda>(sketches, _).
       Inr (transval\<lparr>sketches := sketches\<rparr>)))"

definition empty_countmin :: countmin where
  "empty_countmin = replicate DEPTH (replicate NUMCOUNTERS 0)"

definition cmsketch_init_transval :: "server \<Rightarrow> nat \<Rightarrow> cmtransval" where
  "cmsketch_init_transval srv typ =
     \<lparr>args = replicate MAXARGS (Word 0), nargs = 0, typOid = typ, outFuncOid = typ_output srv typ,
      sketches = replicate RANGES empty_countmin\<rparr>"

text \<open>
  \<open>cmsketch_check_transval\<close>: \<open>extra\<close> are the arguments of the call from the third on, \<open>None\<close> for
  SQL NULL.
\<close>

definition copy_args :: "datum option list \<Rightarrow> datum list \<Rightarrow> datum list res" where
  "copy_args extra as =
     foldM (\<lambda>i as. case extra ! i of
                None \<Rightarrow> Inl (Report ''NULL parameter passed to __cmsketch_int8_trans'')
              | Some d \<Rightarrow> upd_res as (int i) d) [0..<length extra] as"

definition cmsketch_check_transval :: "server \<Rightarrow> cmtransval option \<Rightarrow> nat \<Rightarrow> datum option list \<Rightarrow> bool \<Rightarrow> cmtransval res"
where
  "cmsketch_check_transval srv transblob element_type extra initargs =
     (case transblob of
        Some t \<Rightarrow> Inr t
      | None \<Rightarrow>
          let t = cmsketch_init_transval srv element_type in
          if initargs then
            rbind (check (length extra \<le> MAXARGS) ''too many additional arguments'') (\<lambda>_.
            rbind (copy_args extra (args t)) (\<lambda>as.
              Inr (t\<lparr>nargs := int (length extra), args := as\<rparr>)))
          else Inr (t\<lparr>nargs := -1\<rparr>))"

text \<open>\<open>__cmsketch_int8_trans\<close>: a NULL value leaves the transition value as it is.\<close>

definition cmsketch_int8_trans :: "server \<Rightarrow> cmtransval option \<Rightarrow> nat \<Rightarrow> int64 option \<Rightarrow> datum option list \<Rightarrow>
    cmtransval option res" where
  "cmsketch_int8_trans srv transblob element_type input extra =
     (case input of
        None \<Rightarrow> Inr transblob
      | Some v \<Rightarrow>
          rbind (cmsketch_check_transval srv transblob element_type extra True) (\<lambda>t.
          rbind (countmin_dyadic_trans_c srv t v) (\<lambda>t. Inr (Some t))))"

section \<open>Final functions, counts and merging\<close>

definition cmsketch_final :: "cmtransval \<Rightarrow> countmin list" where
  "cmsketch_final blob = sketches blob"

definition cmsketch_count_md5_datum :: "countmin \<Rightarrow> byte list \<Rightarrow> int res" where
  "cmsketch_count_md5_datum sketch md5_bytea =
     rbind (hash_counters_iterate md5_bytea sketch INT64_MAX min_counter) (\<lambda>(_, v). Inr v)"

definition cmsketch_count_c :: "server \<Rightarrow> countmin \<Rightarrow> datum \<Rightarrow> nat \<Rightarrow> int res" where
  "cmsketch_count_c srv sketch arg typ =
     rbind (md5_value srv arg typ) (\<lambda>nhash. cmsketch_count_md5_datum sketch nhash)"

text \<open>The triple loop of \<open>__cmsketch_merge\<close> adds all counters of the two (equally sized) arrays.\<close>

definition add_sketches :: "countmin \<Rightarrow> countmin \<Rightarrow> countmin" where
  "add_sketches = map2 (map2 (+))"

text \<open>
  \<open>__cmsketch_merge\<close>; \<open>None\<close> is an uninitialised transition value.  The pointer \<open>sketches2\<close> is taken from the second
  argument before an uninitialised one is replaced, so that in this case the loop reads past the end of the argument.
\<close>

definition cmsketch_merge :: "server \<Rightarrow> cmtransval option \<Rightarrow> cmtransval option \<Rightarrow> cmtransval option res" where
  "cmsketch_merge srv counterblob1 counterblob2 =
     (if counterblob1 = None \<and> counterblob2 = None then Inr counterblob1
      else
        let transval1 = (case counterblob1 of Some t \<Rightarrow> t
                         | None \<Rightarrow> cmsketch_init_transval srv (typOid (the counterblob2)));
            transval2 = (case counterblob2 of Some t \<Rightarrow> t
                         | None \<Rightarrow> cmsketch_init_transval srv (typOid transval1))
        in rbind (case counterblob2 of Some t \<Rightarrow> Inr (sketches t) | None \<Rightarrow> Inl Undefined) (\<lambda>sketches2.
           let newtrans = transval1\<lparr>sketches := map2 add_sketches (sketches transval1) sketches2\<rparr>
           in Inr (Some (if nargs newtrans = -1
                 then newtrans\<lparr>nargs := nargs transval2,
                        args := take (nat (nargs transval2)) (args transval2) @ drop (nat (nargs transval2)) (args newtrans)\<rparr>
                 else newtrans))))"

end
