(* ===== verification/SketchSupportFacts.thy ===== *)
theory SketchSupportFacts
  imports SketchSupport
begin

text \<open>
  The bitmap routines stated on the bits of a sketch, from the most significant bit of its first
  byte on; the cache of \<open>sketch_md5_bytea\<close>; hexadecimal text.
\<close>

section \<open>The bits of a byte\<close>

definition byte_bits :: "byte \<Rightarrow> bool list" where
  "byte_bits b = map (bit b) (rev [0..<8])"

lemma length_byte_bits [simp]: "length (byte_bits b) = 8"
  by (simp add: byte_bits_def)

text \<open>A statement about all bytes is checked on the 256 values.\<close>

lemma all_bytes: "list_all (\<lambda>n. P (word_of_int n :: byte)) [0..255] \<Longrightarrow> P b"
proof -
  assume *: "list_all (\<lambda>n. P (word_of_int n :: byte)) [0..255]"
  have "uint b \<in> set [0..255]" using uint_bounded[of b] by simp
  with * have "P (word_of_int (uint b) :: byte)" unfolding list_all_iff by blast
  then show "P b" by simp
qed

lemma trailing_zeros_byte:
  "b \<noteq> 0 \<longrightarrow> unat (ui_rightmost_one (ucast b)) = length (takeWhile Not (rev (byte_bits b)))"
  by (rule all_bytes[of "\<lambda>b. b \<noteq> 0 \<longrightarrow> unat (ui_rightmost_one (ucast b)) = length (takeWhile Not (rev (byte_bits b)))"])
    code_simp

lemma leading_ones_byte:
  "b \<noteq> 0xff \<longrightarrow> unat (ui_rightmost_one (ucast (reverse_byte b) XOR 0xff)) = length (takeWhile (\<lambda>x. x) (byte_bits b))"
  by (rule all_bytes[of "\<lambda>b. b \<noteq> 0xff \<longrightarrow> unat (ui_rightmost_one (ucast (reverse_byte b) XOR 0xff)) = length (takeWhile (\<lambda>x. x) (byte_bits b))"])
    code_simp


section \<open>The bits of a sketch\<close>

definition sketch_bits :: "byte list \<Rightarrow> bool list" where
  "sketch_bits s = concat (map byte_bits s)"

lemma sketch_bits_simps [simp]:
  "sketch_bits [] = []" "sketch_bits (b # s) = byte_bits b @ sketch_bits s"
  "sketch_bits (s @ t) = sketch_bits s @ sketch_bits t"
  by (simp_all add: sketch_bits_def)

lemma length_sketch_bits [simp]: "length (sketch_bits s) = 8 * length s"
  by (induction s) simp_all

lemma take_sketch_bits: "take (8 * n) (sketch_bits s) = sketch_bits (take n s)"
proof (induction s arbitrary: n)
  case (Cons b s)
  then show ?case by (cases n) simp_all
qed simp

lemma drop_sketch_bits: "drop (8 * n) (sketch_bits s) = sketch_bits (drop n s)"
proof (induction s arbitrary: n)
  case (Cons b s)
  then show ?case by (cases n) simp_all
qed simp

lemma byte_bits_zero: "b = 0 \<longleftrightarrow> (\<forall>x\<in>set (byte_bits b). \<not> x)"
proof
  assume "\<forall>x\<in>set (byte_bits b). \<not> x"
  then show "b = 0" by (intro bit_word_eqI) (auto simp: byte_bits_def)
qed (auto simp: byte_bits_def)

lemma byte_bits_ff: "b = 0xff \<longleftrightarrow> (\<forall>x\<in>set (byte_bits b). x)"
proof
  assume *: "\<forall>x\<in>set (byte_bits b). x"
  have "(0xff::byte) = mask 8" by (simp add: mask_eq_exp_minus_1)
  then have "bit (0xff::byte) n" if "n < 8" for n
    using that by (simp only: bit_mask_iff) simp
  with * show "b = 0xff" by (intro bit_word_eqI) (auto simp: byte_bits_def)
next
  have "byte_bits 0xff = replicate 8 True" by code_simp
  then show "b = 0xff \<Longrightarrow> \<forall>x\<in>set (byte_bits b). x" by simp
qed

lemma ucast_byte_word [simp]: "(ucast (ucast (b::byte) :: 32 word) :: byte) = b"
  by (rule bit_word_eqI) (simp add: bit_simps)

lemma of_nat_unat_word: "of_nat (unat w) = (w :: 32 word)"
  by simp

lemma rightmost_one_byte:
  "b \<noteq> 0 \<Longrightarrow> ui_rightmost_one (ucast b) = of_nat (length (takeWhile Not (rev (byte_bits b))))"
  using trailing_zeros_byte[of b] by (metis of_nat_unat_word)

lemma leftmost_zero_byte:
  "b \<noteq> 0xff \<Longrightarrow> ui_rightmost_one (ucast (reverse_byte b) XOR 0xff) = of_nat (length (takeWhile (\<lambda>x. x) (byte_bits b)))"
  using leading_ones_byte[of b] by (metis of_nat_unat_word)

lemma rightmost_one_loop_bits:
  "n \<le> length s \<Longrightarrow> rightmost_one_loop s n c =
     Inr (c + of_nat (length (takeWhile Not (rev (sketch_bits (take n s))))))"
proof (induction n arbitrary: c)
  case (Suc n)
  then have bits: "rev (sketch_bits (take (Suc n) s)) = rev (byte_bits (s ! n)) @ rev (sketch_bits (take n s))"
    by (simp add: take_Suc_conv_app_nth)
  show ?case
  proof (cases "s ! n = 0")
    case True
    then have "takeWhile Not (rev (byte_bits (s ! n)) @ rev (sketch_bits (take n s))) =
        rev (byte_bits (s ! n)) @ takeWhile Not (rev (sketch_bits (take n s)))"
      using byte_bits_zero by (intro takeWhile_append2) auto
    with True Suc bits show ?thesis by (simp add: add.assoc)
  next
    case False
    then obtain x where "x \<in> set (rev (byte_bits (s ! n)))" "x" using byte_bits_zero by auto
    then have "takeWhile Not (rev (byte_bits (s ! n)) @ rev (sketch_bits (take n s))) = takeWhile Not (rev (byte_bits (s ! n)))"
      by (intro takeWhile_append1) auto
    moreover have "(ucast (s ! n) :: 32 word) \<noteq> 0"
    proof
      assume "(ucast (s ! n) :: 32 word) = 0"
      then have "(ucast (ucast (s ! n) :: 32 word) :: byte) = ucast (0 :: 32 word)" by simp
      with False show False by simp
    qed
    ultimately show ?thesis using Suc.prems False bits by (simp add: rightmost_one_byte)
  qed
qed simp

lemma leftmost_zero_loop_bits:
  "n \<le> length s \<Longrightarrow> leftmost_zero_loop s n c = Inr (c + of_nat (length (takeWhile (\<lambda>x. x) (sketch_bits (take n s)))))"
proof (induction s n c rule: leftmost_zero_loop.induct)
  case (3 b s n c)
  show ?case
  proof (cases "b = 0xff")
    case True
    then have "takeWhile (\<lambda>x. x) (byte_bits b @ sketch_bits (take n s)) = byte_bits b @ takeWhile (\<lambda>x. x) (sketch_bits (take n s))"
      using byte_bits_ff by (intro takeWhile_append2) auto
    with True 3 show ?thesis by (simp add: add.assoc)
  next
    case False
    then obtain x where "x \<in> set (byte_bits b)" "\<not> x" using byte_bits_ff by auto
    then have "takeWhile (\<lambda>x. x) (byte_bits b @ sketch_bits (take n s)) = takeWhile (\<lambda>x. x) (byte_bits b)"
      by (intro takeWhile_append1) auto
    moreover have "(ucast b :: 32 word) \<noteq> 0xff"
    proof
      assume "(ucast b :: 32 word) = 0xff"
      then have "(ucast (ucast b :: 32 word) :: byte) = ucast (0xff :: 32 word)" by simp
      with False show False by simp
    qed
    ultimately show ?thesis using False by (simp add: leftmost_zero_byte)
  qed
qed simp_all

lemma nth_byte_bits: "i < 8 \<Longrightarrow> byte_bits b ! i = bit b (7 - i)"
  by (simp add: byte_bits_def rev_nth)

lemma byte_bits_set:
  assumes "m < 8"
  shows "byte_bits (b OR push_bit m 1) = (byte_bits b)[7 - m := True]"
proof (rule nth_equalityI)
  fix i assume "i < length (byte_bits (b OR push_bit m 1))"
  then show "byte_bits (b OR push_bit m 1) ! i = (byte_bits b)[7 - m := True] ! i"
    using assms by (auto simp: nth_byte_bits nth_list_update bit_simps)
qed simp

lemma sketch_bits_update:
  assumes "p < length s" "j < 8" "byte_bits c = (byte_bits (s ! p))[j := True]"
  shows "sketch_bits (s[p := c]) = (sketch_bits s)[8 * p + j := True]"
proof -
  have "s[p := c] = take p s @ c # drop (Suc p) s"
    using assms(1) by (simp add: upd_conv_take_nth_drop)
  moreover have "s = take p s @ s ! p # drop (Suc p) s"
    using assms(1) by (simp add: id_take_nth_drop)
  then have "sketch_bits s = sketch_bits (take p s) @ byte_bits (s ! p) @ sketch_bits (drop (Suc p) s)"
    by (metis sketch_bits_simps(2,3))
  ultimately show ?thesis
    using assms by (simp add: list_update_append)
qed

lemma array_set_bit_bits:
  assumes "0 < k" "k < 128" "sketchnum < n" "bitnum < 8 * k" "n * k \<le> length bitmap"
  shows "\<exists>bm. array_set_bit_in_place bitmap (int n) (int (8 * k)) (int sketchnum) (int bitnum) = Inr bm \<and>
           length bm = length bitmap \<and>
           sketch_bits bm = (sketch_bits bitmap)[sketchnum * (8 * k) + (8 * k - 1 - bitnum) := True]"
proof -
  define p where "p = sketchnum * k + (k - 1 - bitnum div 8)"
  have bd: "bitnum div 8 < k" using assms(4) by linarith
  have "sketchnum * k + k \<le> n * k" using assms(3) by (metis Suc_leI mult_Suc mult_le_mono1 add.commute)
  then have p: "p < length bitmap" using assms(1,5) by (simp add: p_def)
  have "sint (word_of_int (int k) :: byte) = int k"
    using assms(2) by (simp only: sint_sbintrunc') (simp add: signed_take_bit_int_eq_self)
  then have pos: "int sketchnum * sint (word_of_int (int (8 * k) div 8) :: byte) +
      ((sint (word_of_int (int (8 * k) div 8) :: byte) - 1) - int bitnum div 8) = int p"
    using bd by (simp add: p_def of_nat_diff zdiv_int)
  have m: "nat (int bitnum mod 8) = bitnum mod 8" by (simp add: nat_mod_distrib)
  let ?c = "bitmap ! p OR push_bit (bitnum mod 8) 1"
  have "array_set_bit_in_place bitmap (int n) (int (8 * k)) (int sketchnum) (int bitnum) = Inr (bitmap[p := ?c])"
    using assms(3,4) p unfolding array_set_bit_in_place_def Let_def pos m by simp
  moreover have "sketch_bits (bitmap[p := ?c]) = (sketch_bits bitmap)[8 * p + (7 - bitnum mod 8) := True]"
    using p by (intro sketch_bits_update byte_bits_set) simp_all
  moreover have "8 * p + (7 - bitnum mod 8) = sketchnum * (8 * k) + (8 * k - 1 - bitnum)"
  proof -
    have "8 * (x + (k - 1 - q)) + (7 - r) = 8 * x + (8 * k - 1 - (8 * q + r))" if lt: "q < k" "r < 8" for x q r :: nat
    proof -
      obtain d where "k = Suc (q + d)" using less_imp_Suc_add[OF lt(1)] by blast
      with lt(2) show ?thesis by simp
    qed
    from this[OF bd, of "bitnum mod 8" "sketchnum * k"]
    have "8 * p + (7 - bitnum mod 8) = 8 * (sketchnum * k) + (8 * k - 1 - (8 * (bitnum div 8) + bitnum mod 8))"
      unfolding p_def by simp
    then show ?thesis by (simp only: mult_div_mod_eq mult.left_commute)
  qed
  ultimately show ?thesis by simp
qed

section \<open>Hashes\<close>

definition hex_char :: "byte \<Rightarrow> byte" where
  "hex_char d = (if d < 10 then 48 + d else 87 + d)"

definition hex_text :: "byte list \<Rightarrow> byte list" where
  "hex_text bs = concat (map (\<lambda>b. [hex_char (b div 16), hex_char (b mod 16)]) bs)"

lemma hex_byte: "word_of_int (hex_digit (hex_char (b div 16)) * 16 + hex_digit (hex_char (b mod 16))) = b"
  by (rule all_bytes[of "\<lambda>b. word_of_int (hex_digit (hex_char (b div 16)) * 16 + hex_digit (hex_char (b mod 16))) = b"])
    code_simp

lemma hex_to_bytes_text: "hex_to_bytes (hex_text bs) = bs"
  by (induction bs) (simp_all add: hex_text_def hex_byte[simplified])

text \<open>The value the cache may hold.\<close>

definition md5_of_zero :: "server \<Rightarrow> byte list" where
  "md5_of_zero srv = hex_to_bytes (take 32 (md5_hash srv (replicate 8 0)))"

lemma md5_value_zero: "is_zero8 srv dat ty \<Longrightarrow> md5_value srv dat ty = Inr (md5_of_zero srv)"
proof -
  have "word64_bytes 0 = replicate 8 0" by (simp add: word64_bytes_def map_replicate_const)
  then show "is_zero8 srv dat ty \<Longrightarrow> md5_value srv dat ty = Inr (md5_of_zero srv)"
    by (auto simp: is_zero8_def md5_value_def md5_of_zero_def DatumExtractPointer_def MD5_HASHLEN_def)
qed

lemma md5_cache_transparent:
  assumes "cache \<in> {None, Some (md5_of_zero srv)}"
  shows "\<exists>cache' \<in> {None, Some (md5_of_zero srv)}. sketch_md5_bytea srv cache dat ty =
           rbind (md5_value srv dat ty) (\<lambda>out. Inr (out, cache'))"
  using assms md5_value_zero[of srv dat ty]
  by (cases "is_zero8 srv dat ty"; cases cache) (auto simp: sketch_md5_bytea_def)

lemma length_hex_to_bytes: "length (hex_to_bytes hex) = length hex div 2"
  by (induction hex rule: hex_to_bytes.induct) simp_all

lemma length_md5_value:
  "md5_value srv dat ty = Inr h \<Longrightarrow> \<forall>x. length (md5_hash srv x) = 32 \<Longrightarrow> length h = 16"
  by (auto simp: md5_value_def rbind_eq_Inr_iff length_hex_to_bytes MD5_HASHLEN_def)

section \<open>Values of a fixed length\<close>

text \<open>A datum of a fixed length, and its bytes.\<close>

definition datum_value :: "nat \<Rightarrow> datum \<Rightarrow> byte list" where
  "datum_value L d = take L (DatumExtractPointer d)"

definition datum_ok :: "nat \<Rightarrow> datum \<Rightarrow> bool" where
  "datum_ok L d \<longleftrightarrow> L \<le> length (DatumExtractPointer d)"

text \<open>The type of the values: a length \<open>L\<close>, passed by reference or in a word of eight bytes.\<close>

definition fixed_type :: "server \<Rightarrow> nat \<Rightarrow> nat \<Rightarrow> bool" where
  "fixed_type srv oid L \<longleftrightarrow> 0 < L \<and> typLen (typ_lookup srv oid) = int L \<and>
     (typByVal (typ_lookup srv oid) \<longrightarrow> L = 8)"

definition value_hash :: "server \<Rightarrow> byte list \<Rightarrow> byte list" where
  "value_hash srv v = hex_to_bytes (take 32 (md5_hash srv v))"

lemma md5_value_fixed:
  assumes "fixed_type srv oid L" "datum_ok L d"
  shows "md5_value srv d oid = Inr (value_hash srv (datum_value L d))"
  using assms
  by (simp add: md5_value_def fixed_type_def datum_ok_def datum_value_def value_hash_def ExtractDatumLen_def
      MD5_HASHLEN_def)

lemma length_word64_bytes [simp]: "length (word64_bytes w) = 8"
  by (simp add: word64_bytes_def)

lemma bit_word64_of_bytes:
  assumes "length bs \<le> 8"
  shows "bit (word64_of_bytes bs) n \<longleftrightarrow> n < 64 \<and> n div 8 < length bs \<and> bit (bs ! (n div 8)) (n mod 8)"
proof -
  have "bit (foldr (\<lambda>b w. ucast b OR push_bit 8 w) bs (0 :: int64)) n \<longleftrightarrow>
      n < 64 \<and> n div 8 < length bs \<and> bit (bs ! (n div 8)) (n mod 8)"
    using assms
  proof (induction bs arbitrary: n)
    case (Cons b bs)
    show ?case
    proof (cases "n < 8")
      case True
      then show ?thesis by (simp add: bit_simps)
    next
      case False
      then have "n div 8 = Suc ((n - 8) div 8)" "n mod 8 = (n - 8) mod 8" by (simp_all add: le_div_geq le_mod_geq)
      moreover have "\<not> bit b n" using False bit_imp_le_length[of b n] by auto
      ultimately show ?thesis
        using Cons.IH[of "n - 8"] Cons.prems False by (auto simp: bit_simps)
    qed
  qed simp
  with assms show ?thesis by (simp add: word64_of_bytes_def)
qed

lemma bit_word64_bytes: "i < 8 \<Longrightarrow> n < 8 \<Longrightarrow> bit (word64_bytes w ! i) n \<longleftrightarrow> bit w (8 * i + n)"
  by (simp add: word64_bytes_def bit_simps add.commute)

lemma word64_bytes_of_bytes:
  assumes "8 \<le> length x"
  shows "word64_bytes (word64_of_bytes x) = take 8 x"
proof (rule nth_equalityI)
  fix i assume "i < length (word64_bytes (word64_of_bytes x))"
  then have i: "i < 8" by (simp add: word64_bytes_def)
  have x: "word64_of_bytes x = word64_of_bytes (take 8 x)" by (simp add: word64_of_bytes_def)
  show "word64_bytes (word64_of_bytes x) ! i = take 8 x ! i"
  proof (rule bit_word_eqI)
    fix n assume "n < LENGTH(8)"
    then show "bit (word64_bytes (word64_of_bytes x) ! i) n = bit (take 8 x ! i) n"
      using i assms bit_word64_of_bytes[of "take 8 x" "8 * i + n"] unfolding x
      by (simp add: bit_word64_bytes)
  qed
qed (use assms in \<open>simp add: word64_bytes_def\<close>)

text \<open>A word is read back from as many bytes as it needs.\<close>

lemma word64_of_word64_bytes:
  assumes "k \<le> 8" "unat w < 2 ^ (8 * k)"
  shows "word64_of_bytes (take k (word64_bytes w)) = w"
proof (rule bit_word_eqI)
  fix n assume "n < LENGTH(64)"
  then have n: "n < 64" by simp
  have len: "length (word64_bytes w) = 8" "length (take k (word64_bytes w)) = k"
    using assms(1) by (simp_all add: word64_bytes_def)
  have high: "\<not> bit w n" if "8 * k \<le> n"
  proof -
    have "unat w < 2 ^ n" by (rule less_le_trans[OF assms(2) power_increasing[OF that]]) simp
    then have "\<not> bit (unat w) n" by (simp add: bit_iff_odd)
    with n show ?thesis by (simp add: bit_unsigned_iff)
  qed
  show "bit (word64_of_bytes (take k (word64_bytes w))) n = bit w n"
  proof (cases "n div 8 < k")
    case True
    then show ?thesis
      using bit_word64_of_bytes[of "take k (word64_bytes w)" n] bit_word64_bytes[of "n div 8" "n mod 8" w] n len assms(1)
      by simp
  next
    case False
    then show ?thesis
      using bit_word64_of_bytes[of "take k (word64_bytes w)" n] len assms(1) high by simp
  qed
qed

lemma extract_datum:
  assumes "fixed_type srv oid L" "L \<le> length p"
  shows "\<exists>d. PointerExtractDatum p (typByVal (typ_lookup srv oid)) = Inr d \<and> datum_ok L d \<and> datum_value L d = take L p"
proof (cases "typByVal (typ_lookup srv oid)")
  case True
  then have "L = 8" using assms(1) by (simp add: fixed_type_def)
  then show ?thesis
    using True assms(2) word64_bytes_of_bytes[of p] length_take[of 8 p]
    by (simp add: PointerExtractDatum_def datum_ok_def datum_value_def DatumExtractPointer_def)
next
  case False
  then show ?thesis
    using assms(2) by (simp add: PointerExtractDatum_def datum_ok_def datum_value_def DatumExtractPointer_def)
qed

text \<open>Only the first half of an array of more than one word is converted.\<close>

lemma big_endianize_half: "int64_big_endianize [1, 2, 3, 4] 16 = Inr [2, 1, 3, 4]"
  by code_simp

section \<open>Properties\<close>

text \<open>
  On a bitmap of sketches of \<open>sz\<close> bits \<open>rightmost_one\<close> returns the number of zeros at the end of
  sketch \<open>i\<close> (\<open>sz\<close> when there is no one) and \<open>leftmost_zero\<close> the number of ones at its beginning (\<open>sz\<close> when
  there is no zero), whatever the other sketches hold; both stay within the sketch.
\<close>

theorem sketch_scans:
  assumes "sz mod 32 = 0" "(i + 1) * sz \<le> 8 * length bitmap" "length bitmap < 2 ^ 29"
    and "sz \<le> 8 * numsketches" "8 * numsketches < 2 ^ 64"
  shows "(\<exists>r. rightmost_one bitmap sz i = Inr r \<and>
            unat r = length (takeWhile Not (rev (take sz (drop (i * sz) (sketch_bits bitmap)))))) \<and>
         (\<exists>r. leftmost_zero bitmap numsketches sz i = Inr r \<and>
            unat r = length (takeWhile (\<lambda>x. x) (take sz (drop (i * sz) (sketch_bits bitmap)))))"
proof -
  have "8 dvd sz" using assms(1) by presburger
  then obtain k where k: "sz = 8 * k" by (elim dvdE)
  define s where "s = drop (i * k) bitmap"
  have slice: "take sz (drop (i * sz) (sketch_bits bitmap)) = sketch_bits (take k s)"
    using drop_sketch_bits[of "i * k" bitmap] by (simp add: k s_def mult.left_commute take_sketch_bits)
  have room: "i * k + k \<le> length bitmap" using assms(2) by (simp add: k)
  then have len: "k \<le> length s" by (simp add: s_def)
  have "sz < 2 ^ 32" "i * sz < 2 ^ 64" using room assms(3) by (simp_all add: k mult.left_commute)
  then have off: "i * sz mod 2 ^ 64 div 8 = i * k" "sz div 8 = k" by (simp_all add: k)
  have small: "unat (of_nat n :: 32 word) = n" if "n \<le> sz" for n
    using le_less_trans[OF that \<open>sz < 2 ^ 32\<close>] by (simp add: unsigned_of_nat take_bit_nat_eq_self)
  have r: "rightmost_one bitmap sz i = Inr (of_nat (length (takeWhile Not (rev (sketch_bits (take k s))))))"
    using rightmost_one_loop_bits[OF len, of 0] assms(1) unfolding rightmost_one_def off s_def by simp
  have "numsketches * 8 mod 2 ^ 64 = 8 * numsketches" using assms(5) by (simp add: mult.commute)
  then have l: "leftmost_zero bitmap numsketches sz i = Inr (of_nat (length (takeWhile (\<lambda>x. x) (sketch_bits (take k s)))))"
    using leftmost_zero_loop_bits[OF len, of 0] assms(1,4) unfolding leftmost_zero_def off s_def by simp
  have "length (takeWhile Not (rev (sketch_bits (take k s)))) \<le> sz"
    "length (takeWhile (\<lambda>x. x) (sketch_bits (take k s))) \<le> sz"
    using length_takeWhile_le[of Not "rev (sketch_bits (take k s))"]
      length_takeWhile_le[of "\<lambda>x. x" "sketch_bits (take k s)"] len by (simp_all add: k)
  then show ?thesis unfolding slice r l by (simp add: small)
qed

theorem sketch_scans_witness:
  "\<exists>r. rightmost_one [0xff, 0, 0, 0, 0, 1, 0, 0] 32 1 = Inr r \<and> unat r = 16"
proof -
  have "length (takeWhile Not (rev (take 32 (drop (1 * 32) (sketch_bits [0xff, 0, 0, 0, 0, 1, 0, 0]))))) = 16"
    by code_simp
  then show ?thesis using sketch_scans[of 32 1 "[0xff, 0, 0, 0, 0, 1, 0, 0]" 8] by simp
qed

end
