(* ===== verification/CountMinFacts.thy ===== *)
theory CountMinFacts
  imports CountMin SketchSupportFacts
begin

text \<open>
  What a CountMin sketch counts: \<open>sketch_of hs\<close> is the sketch of the values with the hashes \<open>hs\<close>.
\<close>

section \<open>The sketch of a list of hashes\<close>

definition col :: "byte list \<Rightarrow> nat \<Rightarrow> nat" where
  "col h i = (unat (h ! (2 * i)) + 256 * unat (h ! (2 * i + 1))) mod NUMCOUNTERS"

definition hits :: "byte list list \<Rightarrow> nat \<Rightarrow> nat \<Rightarrow> nat" where
  "hits hs i c = length (filter (\<lambda>h. col h i = c) hs)"

definition row_of :: "byte list list \<Rightarrow> nat \<Rightarrow> int64 list" where
  "row_of hs i = map (\<lambda>c. of_nat (hits hs i c)) [0..<NUMCOUNTERS]"

definition sketch_of :: "byte list list \<Rightarrow> countmin" where
  "sketch_of hs = map (row_of hs) [0..<DEPTH]"

lemma col_less: "col h i < NUMCOUNTERS"
  by (simp add: col_def NUMCOUNTERS_def)

lemma hash_col_Inr: "length h = 16 \<Longrightarrow> i < DEPTH \<Longrightarrow> hash_col h i = Inr (col h i)"
  using nth_res_Inr[of "2 * i" h] nth_res_Inr[of "2 * i + 1" h]
  by (simp add: hash_col_def col_def DEPTH_def)

lemma hits_le: "hits hs i c \<le> length hs"
  by (simp add: hits_def)

lemma hits_snoc: "hits (hs @ [h]) i c = hits hs i c + (if c = col h i then 1 else 0)"
  by (auto simp: hits_def)

lemma length_row_of [simp]: "length (row_of hs i) = NUMCOUNTERS"
  by (simp add: row_of_def)

lemma nth_row_of [simp]: "c < NUMCOUNTERS \<Longrightarrow> row_of hs i ! c = of_nat (hits hs i c)"
  by (simp add: row_of_def)

lemma row_of_snoc: "row_of (hs @ [h]) i = (row_of hs i)[col h i := row_of hs i ! col h i + 1]"
  by (rule nth_equalityI) (auto simp: nth_list_update hits_snoc col_less add.commute)

lemma length_sketch_of [simp]: "length (sketch_of hs) = DEPTH"
  by (simp add: sketch_of_def)

lemma nth_sketch_of [simp]: "i < DEPTH \<Longrightarrow> sketch_of hs ! i = row_of hs i"
  by (simp add: sketch_of_def)

lemma sketch_of_Nil: "sketch_of [] = empty_countmin"
  by (rule nth_equalityI; simp add: empty_countmin_def)
    (rule nth_equalityI; simp add: hits_def)

lemma unat_hits: "length hs < 2 ^ 63 \<Longrightarrow> unat (of_nat (hits hs i c) :: int64) = hits hs i c"
  using hits_le[of hs i c] by (simp add: unsigned_of_nat take_bit_nat_eq_self)

lemma uint_hits: "length hs < 2 ^ 63 \<Longrightarrow> uint (of_nat (hits hs i c) :: int64) = int (hits hs i c)"
  using hits_le[of hs i c] by (simp add: unsigned_of_nat take_bit_nat_eq_self)

lemma sint_hits: "length hs < 2 ^ 63 \<Longrightarrow> sint (of_nat (hits hs i c) :: int64) = int (hits hs i c)"
  using hits_le[of hs i c] by (simp add: signed_of_nat signed_take_bit_int_eq_self)

section \<open>Insertion\<close>

lemma increment_rows:
  assumes "length h = 16" "length hs < 2 ^ 63 - 1" "n \<le> DEPTH"
  shows "\<exists>r. foldM (\<lambda>i (sketch, retval). rbind (hash_col h i) (\<lambda>col. increment_counter i col sketch retval))
             [0..<n] (sketch_of hs, 0) =
           Inr (map (\<lambda>i. if i < n then row_of (hs @ [h]) i else row_of hs i) [0..<DEPTH], r)"
  using assms(3)
proof (induction n)
  case 0
  then show ?case by (simp add: sketch_of_def)
next
  case (Suc n)
  let ?s = "map (\<lambda>i. if i < n then row_of (hs @ [h]) i else row_of hs i) [0..<DEPTH]"
  have n: "n < DEPTH" using Suc.prems by simp
  have row: "?s ! n = row_of hs n" using n by simp
  have at: "counter_at ?s n (col h n) = Inr (row_of hs n ! col h n)"
    using n col_less nth_res_Inr[of n ?s] by (simp add: counter_at_def row)
  have "uint (row_of hs n ! col h n) = int (hits hs n (col h n))"
    using uint_hits[of hs n "col h n"] assms(2) col_less by simp
  then have "uint (row_of hs n ! col h n) \<noteq> INT64_MAX"
    using hits_le[of hs n "col h n"] assms(2) by (simp add: INT64_MAX_def)
  moreover have "?s[n := (row_of hs n)[col h n := row_of hs n ! col h n + 1]] =
      map (\<lambda>i. if i < Suc n then row_of (hs @ [h]) i else row_of hs i) [0..<DEPTH]"
    using n by (intro nth_equalityI) (auto simp: nth_list_update row_of_snoc)
  ultimately show ?case
    using Suc.IH n hash_col_Inr[OF assms(1) n] at row
    by (auto simp: foldM_append increment_counter_def)
qed

lemma countmin_trans_sketch:
  assumes "md5_value srv d oid = Inr h" "length h = 16" "length hs < 2 ^ 63 - 1"
  shows "countmin_trans_c srv (sketch_of hs) d oid = Inr (sketch_of (hs @ [h]), h)"
  using increment_rows[OF assms(2,3), of DEPTH] assms(1)
  by (auto simp: countmin_trans_c_def hash_counters_iterate_def sketch_of_def intro!: map_cong)

section \<open>Counting\<close>

text \<open>The least counter of a hash, over the rows.\<close>

definition estimate :: "byte list list \<Rightarrow> byte list \<Rightarrow> nat" where
  "estimate hs h = Min ((\<lambda>i. hits hs i (col h i)) ` {0..<DEPTH})"

lemma min_rows:
  assumes "length h = 16" "length hs < 2 ^ 63 - 1" "n \<le> DEPTH" "n \<noteq> 0"
  shows "foldM (\<lambda>i (sketch, retval). rbind (hash_col h i) (\<lambda>col. min_counter i col sketch retval))
             [0..<n] (sketch_of hs, INT64_MAX) =
           Inr (sketch_of hs, int (Min ((\<lambda>i. hits hs i (col h i)) ` {0..<n})))"
  using assms(3,4)
proof (induction n)
  case (Suc n)
  have n: "n < DEPTH" using Suc.prems by simp
  have at: "counter_at (sketch_of hs) n (col h n) = Inr (of_nat (hits hs n (col h n)))"
    using n col_less nth_res_Inr[of n "sketch_of hs"] by (simp add: counter_at_def)
  have s: "sint (of_nat (hits hs n (col h n)) :: int64) = int (hits hs n (col h n))"
    "int (hits hs n (col h n)) < INT64_MAX"
    using sint_hits[of hs n] hits_le[of hs n "col h n"] assms(2) by (auto simp: INT64_MAX_def)
  show ?case
  proof (cases "n = 0")
    case True
    then show ?thesis
      using hash_col_Inr[OF assms(1) n] at s by (simp add: min_counter_def)
  next
    case False
    define m where "m = Min ((\<lambda>i. hits hs i (col h i)) ` {0..<n})"
    have "Min ((\<lambda>i. hits hs i (col h i)) ` {0..<Suc n}) = min (hits hs n (col h n)) m"
      using False by (simp add: atLeast0_lessThan_Suc m_def)
    with False Suc n show ?thesis
      using hash_col_Inr[OF assms(1) n] at s by (auto simp: foldM_append min_counter_def simp flip: m_def)
  qed
qed simp

lemma cmsketch_count_estimate:
  assumes "md5_value srv d oid = Inr h" "length h = 16" "length hs < 2 ^ 63 - 1"
  shows "cmsketch_count_c srv (sketch_of hs) d oid = Inr (int (estimate hs h))"
  using min_rows[OF assms(2,3), of DEPTH] assms(1)
  by (simp add: cmsketch_count_c_def cmsketch_count_md5_datum_def hash_counters_iterate_def
      estimate_def DEPTH_def)

lemma length_filter_imp: "(\<And>x. P x \<Longrightarrow> Q x) \<Longrightarrow> length (filter P xs) \<le> length (filter Q xs)"
  by (induction xs) auto

lemma estimate_ge: "length (filter (\<lambda>g. g = h) hs) \<le> estimate hs h"
proof -
  have "length (filter (\<lambda>g. g = h) hs) \<le> hits hs i (col h i)" for i
    unfolding hits_def by (rule length_filter_imp) simp
  then show ?thesis by (simp add: estimate_def DEPTH_def)
qed


section \<open>Dyadic ranges\<close>

text \<open>
  What the sketches rely on: the MD5 text has 32 digits, and the catalog gives \<open>int8\<close> a length of 8.
\<close>

definition int8_server :: "server \<Rightarrow> bool" where
  "int8_server srv \<longleftrightarrow> (\<forall>x. length (md5_hash srv x) = 32) \<and> typLen (typ_lookup srv INT8OID) = 8"

definition hash8 :: "server \<Rightarrow> int64 \<Rightarrow> byte list" where
  "hash8 srv w = hex_to_bytes (take 32 (md5_hash srv (word64_bytes w)))"

lemma md5_value_int8:
  "int8_server srv \<Longrightarrow> md5_value srv (Word w) INT8OID = Inr (hash8 srv w) \<and> length (hash8 srv w) = 16"
  by (simp add: md5_value_def int8_server_def hash8_def ExtractDatumLen_def DatumExtractPointer_def
      MD5_HASHLEN_def length_hex_to_bytes)

text \<open>The sketches of a list of values: range \<open>j\<close> counts the values divided by \<open>2 ^ j\<close>.\<close>

definition range_sketches :: "server \<Rightarrow> int64 list \<Rightarrow> countmin list" where
  "range_sketches srv xs = map (\<lambda>j. sketch_of (map (\<lambda>x. hash8 srv (signed_drop_bit j x)) xs)) [0..<RANGES]"

lemma range_sketches_Nil: "range_sketches srv [] = replicate RANGES empty_countmin"
  by (simp add: range_sketches_def sketch_of_Nil map_replicate_const)

lemma dyadic_ranges:
  assumes "int8_server srv" "length xs < 2 ^ 63 - 1" "n \<le> RANGES"
  shows "foldM (\<lambda>j (sketches, input).
             rbind (nth_res sketches (int j)) (\<lambda>sketch.
             rbind (countmin_trans_c srv sketch (Word input) INT8OID) (\<lambda>(sketch, _).
               Inr (sketches[j := sketch], signed_drop_bit 1 input))))
           [0..<n] (range_sketches srv xs, x) =
         Inr (map (\<lambda>j. sketch_of (map (\<lambda>x. hash8 srv (signed_drop_bit j x)) (if j < n then xs @ [x] else xs)))
                [0..<RANGES], signed_drop_bit n x)"
  using assms(3)
proof (induction n)
  case 0
  then show ?case by (simp add: range_sketches_def)
next
  case (Suc n)
  let ?s = "map (\<lambda>j. sketch_of (map (\<lambda>x. hash8 srv (signed_drop_bit j x)) (if j < n then xs @ [x] else xs))) [0..<RANGES]"
  have n: "n < RANGES" using Suc.prems by simp
  have at: "nth_res ?s (int n) = Inr (sketch_of (map (\<lambda>x. hash8 srv (signed_drop_bit n x)) xs))"
    using n nth_res_Inr[of n ?s] by simp
  have trans: "countmin_trans_c srv (sketch_of (map (\<lambda>x. hash8 srv (signed_drop_bit n x)) xs))
        (Word (signed_drop_bit n x)) INT8OID =
      Inr (sketch_of (map (\<lambda>x. hash8 srv (signed_drop_bit n x)) (xs @ [x])), hash8 srv (signed_drop_bit n x))"
    using countmin_trans_sketch[of srv "Word (signed_drop_bit n x)" INT8OID "hash8 srv (signed_drop_bit n x)"
        "map (\<lambda>x. hash8 srv (signed_drop_bit n x)) xs"] md5_value_int8[OF assms(1)] assms(2) by simp
  have "?s[n := sketch_of (map (\<lambda>x. hash8 srv (signed_drop_bit n x)) (xs @ [x]))] =
      map (\<lambda>j. sketch_of (map (\<lambda>x. hash8 srv (signed_drop_bit j x)) (if j < Suc n then xs @ [x] else xs))) [0..<RANGES]"
    using n by (intro nth_equalityI) (auto simp: nth_list_update)
  then show ?case
    using Suc.IH n at trans by (simp add: foldM_append signed_drop_bit_signed_drop_bit)
qed

lemma dyadic_trans:
  assumes "int8_server srv" "length xs < 2 ^ 63 - 1" "typOid t = INT8OID" "sketches t = range_sketches srv xs"
  shows "countmin_dyadic_trans_c srv t x = Inr (t\<lparr>sketches := range_sketches srv (xs @ [x])\<rparr>)"
  using dyadic_ranges[OF assms(1,2), of RANGES x] assms(3,4)
  by (simp add: countmin_dyadic_trans_c_def) (simp add: range_sketches_def cong: map_cong)

text \<open>The aggregate: the transition over the rows, from the uninitialised value.\<close>

definition cmsketch_agg :: "server \<Rightarrow> datum option list \<Rightarrow> int64 option list \<Rightarrow> cmtransval option \<Rightarrow> cmtransval option res" where
  "cmsketch_agg srv extra = foldM (\<lambda>v state. cmsketch_int8_trans srv state INT8OID v extra)"

definition present :: "'a option list \<Rightarrow> 'a list" where
  "present vs = map the (filter (\<lambda>v. v \<noteq> None) vs)"

lemma present_simps [simp]:
  "present [] = []" "present (None # vs) = present vs" "present (Some v # vs) = v # present vs"
  "present (vs @ ws) = present vs @ present ws"
  by (simp_all add: present_def)

lemma copy_args_present:
  "\<forall>d\<in>set extra. d \<noteq> None \<Longrightarrow> length extra \<le> length as \<Longrightarrow>
   copy_args extra as = Inr (present extra @ drop (length extra) as)"
proof (induction extra rule: rev_induct)
  case Nil
  then show ?case by (simp add: copy_args_def)
next
  case (snoc d extra)
  have "foldM (\<lambda>i as. case (extra @ [d]) ! i of None \<Rightarrow> Inl (Report ''NULL parameter passed to __cmsketch_int8_trans'')
           | Some e \<Rightarrow> upd_res as (int i) e) [0..<length extra] as = copy_args extra as"
    unfolding copy_args_def by (rule foldM_cong) (simp add: nth_append)
  moreover obtain e where "d = Some e" using snoc.prems by auto
  moreover have "length (present extra) = length extra" using snoc.prems by (simp add: present_def filter_id_conv)
  moreover have "drop (length extra) as = as ! length extra # drop (Suc (length extra)) as"
    using snoc.prems by (simp add: Cons_nth_drop_Suc)
  ultimately show ?case
    using snoc by (simp add: copy_args_def foldM_append upd_res_def list_update_append nth_append)
qed

lemma cmsketch_agg_rest:
  assumes "int8_server srv" "length (present vs) + length xs < 2 ^ 63" "typOid t = INT8OID" "sketches t = range_sketches srv xs"
  shows "cmsketch_agg srv extra vs (Some t) = Inr (Some (t\<lparr>sketches := range_sketches srv (xs @ present vs)\<rparr>))"
  using assms(2-)
proof (induction vs arbitrary: t xs)
  case Nil
  then show ?case by (simp add: cmsketch_agg_def)
next
  case (Cons v vs)
  show ?case
  proof (cases v)
    case None
    with Cons show ?thesis by (simp add: cmsketch_agg_def cmsketch_int8_trans_def)
  next
    case (Some x)
    with Cons.prems dyadic_trans[OF assms(1), of xs t x]
    have "cmsketch_agg srv extra (v # vs) (Some t) =
        cmsketch_agg srv extra vs (Some (t\<lparr>sketches := range_sketches srv (xs @ [x])\<rparr>))"
      by (simp add: cmsketch_agg_def cmsketch_int8_trans_def cmsketch_check_transval_def)
    then show ?thesis
      using Cons.IH[of "xs @ [x]" "t\<lparr>sketches := range_sketches srv (xs @ [x])\<rparr>"] Cons.prems Some by simp
  qed
qed

definition extra_ok :: "datum option list \<Rightarrow> bool" where
  "extra_ok extra \<longleftrightarrow> length extra \<le> MAXARGS \<and> (\<forall>d\<in>set extra. d \<noteq> None)"

lemma cmsketch_agg_value:
  assumes "int8_server srv" "length (present vs) < 2 ^ 63" "extra_ok extra"
  shows "\<exists>state. cmsketch_agg srv extra vs None = Inr state \<and>
           (case state of
              None \<Rightarrow> present vs = []
            | Some t \<Rightarrow> present vs \<noteq> [] \<and> typOid t = INT8OID \<and> nargs t = int (length extra) \<and>
                        sketches t = range_sketches srv (present vs))"
  using assms(2)
proof (induction vs)
  case Nil
  then show ?case by (simp add: cmsketch_agg_def)
next
  case (Cons v vs)
  show ?case
  proof (cases v)
    case None
    then show ?thesis using Cons unfolding None present_simps by (simp add: cmsketch_agg_def cmsketch_int8_trans_def)
  next
    case (Some x)
    let ?init = "cmsketch_init_transval srv INT8OID"
    let ?t = "?init\<lparr>nargs := int (length extra), args := present extra @ drop (length extra) (args ?init)\<rparr>"
    have "length (args ?init) = MAXARGS" by (simp add: cmsketch_init_transval_def)
    then have "cmsketch_check_transval srv None INT8OID extra True = Inr ?t"
      using assms(3) copy_args_present[of extra "args ?init"]
      by (simp add: cmsketch_check_transval_def extra_ok_def Let_def)
    then have "cmsketch_agg srv extra (v # vs) None = cmsketch_agg srv extra (v # vs) (Some ?t)"
      using Some by (simp add: cmsketch_agg_def cmsketch_int8_trans_def cmsketch_check_transval_def)
    moreover have "sketches ?t = range_sketches srv []" "typOid ?t = INT8OID"
      by (simp_all add: cmsketch_init_transval_def range_sketches_Nil)
    ultimately show ?thesis
      using cmsketch_agg_rest[OF assms(1), of "v # vs" "[]" ?t extra] Cons.prems Some by auto
  qed
qed


section \<open>Merging\<close>

lemma hits_append: "hits (hs @ gs) i c = hits hs i c + hits gs i c"
  by (simp add: hits_def)

lemma add_sketches_append: "add_sketches (sketch_of hs) (sketch_of gs) = sketch_of (hs @ gs)"
proof (rule nth_equalityI)
  fix i assume "i < length (add_sketches (sketch_of hs) (sketch_of gs))"
  then have "i < DEPTH" by (simp add: add_sketches_def)
  then show "add_sketches (sketch_of hs) (sketch_of gs) ! i = sketch_of (hs @ gs) ! i"
    by (simp add: add_sketches_def) (rule nth_equalityI; simp add: hits_append)
qed (simp add: add_sketches_def)

lemma length_range_sketches [simp]: "length (range_sketches srv xs) = RANGES"
  by (simp add: range_sketches_def)

lemma merge_ranges:
  "map2 add_sketches (range_sketches srv xs) (range_sketches srv ys) = range_sketches srv (xs @ ys)"
  by (rule nth_equalityI) (simp_all add: range_sketches_def add_sketches_append)

lemma init_sketches: "sketches (cmsketch_init_transval srv oid) = range_sketches srv []"
  by (simp add: cmsketch_init_transval_def range_sketches_Nil)

section \<open>Properties\<close>

lemma sint_shift: "sint (signed_drop_bit j (x :: int64)) = sint x div 2 ^ j"
  by (simp add: sint_signed_drop_bit_eq drop_bit_eq_div)

lemma count_range:
  assumes "int8_server srv" "length xs < 2 ^ 63 - 1" "j < RANGES"
  shows "\<exists>n. cmsketch_count_c srv (range_sketches srv xs ! j) (Word (signed_drop_bit j v)) INT8OID = Inr n \<and>
           int (length (filter (\<lambda>x. sint x div 2 ^ j = sint v div 2 ^ j) xs)) \<le> n \<and> n \<le> int (length xs)"
proof -
  let ?hash = "\<lambda>x. hash8 srv (signed_drop_bit j x)"
  have "cmsketch_count_c srv (range_sketches srv xs ! j) (Word (signed_drop_bit j v)) INT8OID =
      Inr (int (estimate (map ?hash xs) (?hash v)))"
    using cmsketch_count_estimate[of srv "Word (signed_drop_bit j v)" INT8OID "?hash v" "map ?hash xs"]
      md5_value_int8[OF assms(1)] assms(2,3) by (simp add: range_sketches_def)
  moreover have "length (filter (\<lambda>x. sint x div 2 ^ j = sint v div 2 ^ j) xs) \<le> estimate (map ?hash xs) (?hash v)"
  proof -
    have "?hash x = ?hash v" if "sint x div 2 ^ j = sint v div 2 ^ j" for x
      using that by (metis sint_shift signed_word_eqI)
    then have "length (filter (\<lambda>x. sint x div 2 ^ j = sint v div 2 ^ j) xs) \<le>
        length (filter (\<lambda>g. g = ?hash v) (map ?hash xs))"
      unfolding filter_map length_map comp_def by (rule length_filter_imp)
    with estimate_ge[of "?hash v" "map ?hash xs"] show ?thesis by linarith
  qed
  moreover have "estimate (map ?hash xs) (?hash v) \<le> length xs"
  proof -
    have "Min ((\<lambda>i. hits (map ?hash xs) i (col (?hash v) i)) ` {0..<DEPTH}) \<le> hits (map ?hash xs) 0 (col (?hash v) 0)"
      by (rule Min_le) (simp_all add: DEPTH_def)
    with hits_le[of "map ?hash xs" 0 "col (?hash v) 0"] show ?thesis by (simp add: estimate_def)
  qed
  ultimately show ?thesis by auto
qed

text \<open>
  C8: After any number of rows below 2^63 - 1, range \<open>j\<close> of the sketch counts, for the value \<open>v\<close>
  shifted by \<open>j\<close>, at least the values of the rows that fall into the same interval of length \<open>2 ^ j\<close>
  as \<open>v\<close> (for \<open>j = 0\<close>, that equal \<open>v\<close>) and at most all rows, whatever collisions the hash has.
\<close>

theorem cmsketch_range_counts:
  assumes "int8_server srv" "extra_ok extra" "present vs \<noteq> []" "length (present vs) < 2 ^ 63 - 1" "j < RANGES"
  shows "\<exists>t n. cmsketch_agg srv extra vs None = Inr (Some t) \<and>
           cmsketch_count_c srv (cmsketch_final t ! j) (Word (signed_drop_bit j v)) INT8OID = Inr n \<and>
           int (length (filter (\<lambda>x. sint x div 2 ^ j = sint v div 2 ^ j) (present vs))) \<le> n \<and>
           n \<le> int (length (present vs))"
  using cmsketch_agg_value[OF assms(1) _ assms(2), of vs] count_range[OF assms(1,4,5), of v] assms(3,4)
  by (auto simp: cmsketch_final_def split: option.splits)

text \<open>A server whose MD5 is constant: every value collides with every other.\<close>

definition colliding_server :: server where
  "colliding_server = \<lparr>varsize_any = length, md5_hash = (\<lambda>_. replicate 32 48),
     typ_lookup = (\<lambda>_. \<lparr>typLen = 8, typByVal = True\<rparr>), typ_output = id,
     qsort_arg = (\<lambda>cmp xs. xs)\<rparr>"

lemma colliding_int8: "int8_server colliding_server"
  by (simp add: int8_server_def colliding_server_def)

theorem cmsketch_range_counts_witness:
  "\<exists>t n. cmsketch_agg colliding_server [] [Some 12, None, Some 14] None = Inr (Some t) \<and>
     cmsketch_count_c colliding_server (cmsketch_final t ! 2) (Word (signed_drop_bit 2 13)) INT8OID = Inr n \<and>
     1 \<le> n \<and> n \<le> 2"
proof -
  obtain t n where "cmsketch_agg colliding_server [] [Some 12, None, Some 14] None = Inr (Some t)"
    "cmsketch_count_c colliding_server (cmsketch_final t ! 2) (Word (signed_drop_bit 2 13)) INT8OID = Inr n"
    "int (length (filter (\<lambda>x. sint x div 2 ^ 2 = sint (13::int64) div 2 ^ 2) [12, 14 :: int64])) \<le> n" "n \<le> 2"
    using cmsketch_range_counts[OF colliding_int8, of "[]" "[Some 12, None, Some 14]" 2 13]
    by (auto simp: extra_ok_def MAXARGS_def RANGES_def)
  moreover have "length (filter (\<lambda>x. sint x div 2 ^ 2 = sint (13::int64) div 2 ^ 2) [12, 14 :: int64]) = 2"
    by code_simp
  ultimately show ?thesis by (intro exI[of _ t] exI[of _ n]) simp
qed

text \<open>
  Merging the transition values of two sets of rows gives the counters of the transition value of all the rows, when
  the second set is empty only if the first one is.  Otherwise the merge reads past the end of the second value.
\<close>

theorem cmsketch_merge_append:
  assumes "int8_server srv" "extra_ok extra" "length (present vs) + length (present ws) < 2 ^ 63"
  shows "\<exists>a b c. cmsketch_agg srv extra vs None = Inr a \<and> cmsketch_agg srv extra ws None = Inr b \<and>
           cmsketch_agg srv extra (vs @ ws) None = Inr c \<and>
           (if present ws = [] \<and> present vs \<noteq> [] then cmsketch_merge srv a b = Inl Undefined
            else \<exists>m. cmsketch_merge srv a b = Inr m \<and> map_option sketches m = map_option sketches c)"
proof -
  obtain a b c where agg: "cmsketch_agg srv extra vs None = Inr a" "cmsketch_agg srv extra ws None = Inr b"
    "cmsketch_agg srv extra (vs @ ws) None = Inr c"
    and val: "case a of None \<Rightarrow> present vs = [] | Some t \<Rightarrow> present vs \<noteq> [] \<and> sketches t = range_sketches srv (present vs)"
      "case b of None \<Rightarrow> present ws = [] | Some t \<Rightarrow> present ws \<noteq> [] \<and> sketches t = range_sketches srv (present ws)"
      "case c of None \<Rightarrow> present vs @ present ws = []
       | Some t \<Rightarrow> present vs @ present ws \<noteq> [] \<and> sketches t = range_sketches srv (present vs @ present ws)"
    using cmsketch_agg_value[OF assms(1) _ assms(2), of vs] cmsketch_agg_value[OF assms(1) _ assms(2), of ws]
      cmsketch_agg_value[OF assms(1) _ assms(2), of "vs @ ws"] assms(3)
    by (fastforce split: option.splits)
  have "if present ws = [] \<and> present vs \<noteq> [] then cmsketch_merge srv a b = Inl Undefined
      else \<exists>m. cmsketch_merge srv a b = Inr m \<and> map_option sketches m = map_option sketches c"
    using val by (cases a; cases b; cases c)
      (auto simp: cmsketch_merge_def Let_def merge_ranges init_sketches split: option.splits)
  with agg show ?thesis by blast
qed

theorem cmsketch_merge_append_witness:
  "\<exists>a b c m. cmsketch_agg colliding_server [] [Some 5] None = Inr a \<and>
     cmsketch_agg colliding_server [] [Some 7, None] None = Inr b \<and>
     cmsketch_agg colliding_server [] [Some 5, Some 7, None] None = Inr c \<and>
     cmsketch_merge colliding_server a b = Inr m \<and> map_option sketches m = map_option sketches c"
  using cmsketch_merge_append[OF colliding_int8, of "[]" "[Some 5]" "[Some 7, None]"]
  by (simp add: extra_ok_def)

text \<open>
  When the first transition value is uninitialised, \<open>__cmsketch_merge\<close> drops the additional
  arguments that the second one carries for the final function; when only the second one is, it reads outside it.
\<close>

lemma cmsketch_merge_drops_args:
  "cmsketch_merge srv None (Some t) = Inr (Some r) \<Longrightarrow> nargs r = 0"
  by (auto simp: cmsketch_merge_def cmsketch_init_transval_def Let_def)

lemma cmsketch_merge_reads_outside:
  "cmsketch_merge srv (Some t) None = Inl Undefined"
  by (simp add: cmsketch_merge_def Let_def)

end
