(* ===== verification/Sortasort.thy ===== *)
theory Sortasort
  imports SketchSupport
begin

text \<open>
  The \<open>sortasort\<close> dictionary of \<open>methods/sketch/src/pg_gp/sortasort.{h,c}\<close>: a directory of offsets into
  a storage area, sorted up to the last multiple of \<open>SORTA_SLOP\<close> entries.

  \<open>num_vals\<close> is the length of \<open>dir\<close>.  \<open>data\<close> are the bytes at \<open>SORTASORT_DATA\<close> that have been
  initialised; \<open>storage_sz\<close> bytes may be written.
\<close>

definition SORTA_SLOP :: nat where "SORTA_SLOP = 100"

record sortasort =
  storage_sz :: nat
  capacity :: nat
  s_typLen :: int
  s_typByVal :: bool
  storage_cur :: nat
  dir :: "nat list"
  data :: "byte list"

definition num_vals :: "sortasort \<Rightarrow> nat" where
  "num_vals s = length (dir s)"

text \<open>\<open>sizeof(sortasort)\<close> on a 64-bit machine; a directory entry has four bytes.\<close>

definition sizeof_sortasort :: nat where "sizeof_sortasort = 48"

text \<open>\<open>sortasort_init\<close> on a zeroed area of \<open>s_sz\<close> bytes.\<close>

definition sortasort_init :: "nat \<Rightarrow> nat \<Rightarrow> int \<Rightarrow> bool \<Rightarrow> sortasort res" where
  "sortasort_init cap s_sz len byval =
     rbind (check (\<not> (int s_sz - int sizeof_sortasort) mod 2 ^ 64 \<le> int cap * 4)
              ''sortasort initialized too small to hold its own directory'') (\<lambda>_.
       let sz = nat ((int s_sz - int sizeof_sortasort - int cap * 4) mod 2 ^ 64)
       in Inr \<lparr>storage_sz = sz, capacity = cap, s_typLen = len, s_typByVal = byval,
               storage_cur = 0, dir = [], data = replicate sz 0\<rparr>)"

definition SORTASORT_GETVAL :: "sortasort \<Rightarrow> nat \<Rightarrow> byte list" where
  "SORTASORT_GETVAL s i = drop (dir s ! i) (data s)"

text \<open>
  The comparison of two entries.  For a type of variable length the variable \<open>len\<close> is overwritten by the length
  of the first value before it is passed on to the second \<open>ExtractDatumLen\<close>: a positive length comes back
  unchanged, and the first value of length 0 is an unknown \<open>typlen\<close>, which is an error.
\<close>

definition sorta_cmp :: "server \<Rightarrow> sortasort \<Rightarrow> nat \<Rightarrow> nat \<Rightarrow> int res" where
  "sorta_cmp srv s first second =
     (let dat1 = drop first (data s); dat2 = drop second (data s); len = s_typLen s in
      if len < 0 then
        rbind (ExtractDatumLen srv (Ptr dat1) len) (\<lambda>l. let len = int l in
        rbind (ExtractDatumLen srv (Ptr dat2) len) (\<lambda>len2.
          let shorter = len - int len2 in
          if shorter \<noteq> 0 then Inr shorter else memcmp dat1 dat2 (nat len)))
      else memcmp dat1 dat2 (nat len))"

text \<open>
  The binary search.  Every pass but the last shrinks the interval, so \<open>num_vals\<close> passes are
  enough fuel; \<open>Some\<close> is a position, \<open>None\<close> falls through to the linear search.
\<close>

fun find_loop :: "nat \<Rightarrow> (int \<Rightarrow> int res) \<Rightarrow> int \<Rightarrow> int \<Rightarrow> int \<Rightarrow> int option res" where
  "find_loop 0 diff_at themin themax theguess = Inl Undefined"
| "find_loop (Suc fuel) diff_at themin themax theguess =
     (if themin < themax then
        rbind (diff_at theguess) (\<lambda>diff.
          if diff = 0 then Inr (Some theguess)
          else if themin = themax - 1 then Inr None
          else if diff < 0 then
            let addend = (themax - theguess) div 2;
                addend = (if addend = 0 then 1 else addend)
            in find_loop fuel diff_at theguess themax (theguess + addend)
          else
            let subtrahend = (theguess - themin) div 2;
                subtrahend = (if subtrahend = 0 then 1 else subtrahend)
            in find_loop fuel diff_at themin theguess (theguess - subtrahend))
      else Inr None)"

text \<open>The linear search on the tail.\<close>

fun find_tail :: "(int \<Rightarrow> int res) \<Rightarrow> nat list \<Rightarrow> int res" where
  "find_tail diff_at [] = Inr (-1)"
| "find_tail diff_at (i # is) =
     rbind (diff_at (int i)) (\<lambda>diff. if diff = 0 then Inr (int i) else find_tail diff_at is)"

definition sortasort_find :: "server \<Rightarrow> sortasort \<Rightarrow> datum \<Rightarrow> int res" where
  "sortasort_find srv s dat =
     (let hi = num_vals s div SORTA_SLOP * SORTA_SLOP in
      rbind (ExtractDatumLen srv dat (s_typLen s)) (\<lambda>len.
      let diff_at = (\<lambda>i. memcmp (SORTASORT_GETVAL s (nat i)) (DatumExtractPointer dat) len) in
      rbind (find_loop (num_vals s + 1) diff_at 0 (int hi - 1) (int hi div 2)) (\<lambda>found.
        case found of
          Some i \<Rightarrow> Inr i
        | None \<Rightarrow> find_tail diff_at [hi..<num_vals s])))"

text \<open>
  The directory after the sort.  Which entries \<open>qsort_arg\<close> compares is its own choice: when the comparison of
  some two entries fails (it reads outside the storage, or reports an error), the outcome is left undefined.
\<close>

definition sort_dir :: "server \<Rightarrow> sortasort \<Rightarrow> sortasort res" where
  "sort_dir srv s =
     (let cmp = (\<lambda>i j. case sorta_cmp srv s i j of Inr c \<Rightarrow> c | Inl _ \<Rightarrow> 0) in
      rbind (guard_mem (list_all (\<lambda>i. list_all (\<lambda>j. case sorta_cmp srv s i j of Inr _ \<Rightarrow> True | Inl _ \<Rightarrow> False)
                          (dir s)) (dir s))) (\<lambda>_.
        Inr (s\<lparr>dir := qsort_arg srv cmp (dir s)\<rparr>)))"

text \<open>\<open>sortasort_try_insert\<close> returns 1 (TRUE), 0 (FALSE, no room in the storage) or -1.\<close>

definition sortasort_try_insert :: "server \<Rightarrow> sortasort \<Rightarrow> datum \<Rightarrow> int \<Rightarrow> (int \<times> sortasort) res" where
  "sortasort_try_insert srv s dat typ_len =
     rbind (sortasort_find srv s dat) (\<lambda>found.
       if 0 \<le> found \<and> found < int (num_vals s) then Inr (1, s)
       else
         rbind (ExtractDatumLen srv dat typ_len) (\<lambda>len.
         rbind (check (\<not> (found < -1 \<or> found \<ge> int (num_vals s))) ''invalid offset returned by sortasort_find'') (\<lambda>_.
           if storage_cur s + len \<ge> storage_sz s then Inr (0, s)
           else if num_vals s \<ge> capacity s then Inr (-1, s)
           else
             rbind (guard_mem (len \<le> length (DatumExtractPointer dat))) (\<lambda>_.
             let cur = storage_cur s;
                 s = s\<lparr>data := take cur (data s) @ take len (DatumExtractPointer dat) @ drop (cur + len) (data s),
                       dir := dir s @ [cur], storage_cur := cur + len\<rparr>
             in rbind (check (storage_cur s \<le> storage_sz s) ''went off the end of sortasort storage'') (\<lambda>_.
                rbind (if num_vals s mod SORTA_SLOP = 0 then sort_dir srv s else Inr s) (\<lambda>s. Inr (1, s)))))))"

end
