(* ===== verification/Fm.thy ===== *)
theory Fm
  imports Sortasort Float64
begin

text \<open>
  The Flajolet-Martin sketch for distinct counts, \<open>methods/sketch/src/pg_gp/fm.c\<close>.  A transition value
  is \<open>SMALL\<close>, a sortasort of the values, or \<open>BIG\<close>, \<open>NMAP\<close> bitmaps of 128 bits; \<open>storage\<close> is one or
  the other.  The initial empty byte string is \<open>None\<close>.
\<close>

section \<open>Data\<close>

definition NMAP :: nat where "NMAP = 256"
definition MINVALS :: nat where "MINVALS = 1024 * 12"

definition SORTASORT_INITIAL_STORAGE :: nat where
  "SORTASORT_INITIAL_STORAGE = sizeof_sortasort + MINVALS * 4 + 8 * MINVALS"

datatype fm_storage = SMALL sortasort | BIG "byte list"

record fmtransval =
  fm_typOid :: nat
  fm_typLen :: int
  fm_typByVal :: bool
  storage :: fm_storage

text \<open>\<open>fm_new\<close>: zeroed bitmaps, the other fields copied from the template.\<close>

definition fm_new :: "fmtransval \<Rightarrow> fmtransval" where
  "fm_new template = template\<lparr>storage := BIG (replicate (NMAP * MD5_HASHLEN_BITS div 8) 0)\<rparr>"

section \<open>Sketching one value\<close>

text \<open>\<open>__fmsketch_trans_c\<close> on the bitmaps of a transition value for the type \<open>typ\<close>.\<close>

definition fmsketch_bitmaps :: "server \<Rightarrow> nat \<Rightarrow> byte list \<Rightarrow> datum \<Rightarrow> byte list res" where
  "fmsketch_bitmaps srv typ bitmaps indat =
     rbind (md5_value srv indat typ) (\<lambda>c.
     rbind (guard_mem (8 \<le> length c)) (\<lambda>_.
       let index = unat (word64_of_bytes c) mod NMAP in
       rbind (rightmost_one c MD5_HASHLEN_BITS 0) (\<lambda>rmost.
         array_set_bit_in_place bitmaps (int NMAP) (int MD5_HASHLEN_BITS) (int index)
           ((int MD5_HASHLEN_BITS - 1) - uint rmost))))"

definition fmsketch_trans_c :: "server \<Rightarrow> fmtransval \<Rightarrow> datum \<Rightarrow> fmtransval res" where
  "fmsketch_trans_c srv t indat =
     (case storage t of
        BIG bitmaps \<Rightarrow>
          rbind (fmsketch_bitmaps srv (fm_typOid t) bitmaps indat) (\<lambda>bm. Inr (t\<lparr>storage := BIG bm\<rparr>))
      | SMALL _ \<Rightarrow> Inl Undefined)"

section \<open>Insertion into the sortasort\<close>

text \<open>
  The loop \<open>while (!success)\<close>: the storage is more than doubled and the insertion is tried again.
  Each unit of fuel is one pass; the first pass succeeds.
\<close>

fun grow_and_insert :: "nat \<Rightarrow> server \<Rightarrow> sortasort \<Rightarrow> datum \<Rightarrow> int \<Rightarrow> nat \<Rightarrow> sortasort res" where
  "grow_and_insert 0 srv s dat typ_len len = Inl Undefined"
| "grow_and_insert (Suc fuel) srv s dat typ_len len =
     rbind (sortasort_try_insert srv (s\<lparr>storage_sz := storage_sz s * 2 + len\<rparr>) dat typ_len) (\<lambda>(success, s).
       if success \<noteq> 0 then Inr s else grow_and_insert fuel srv s dat typ_len len)"

definition fmsketch_sortasort_insert :: "server \<Rightarrow> fmtransval \<Rightarrow> datum \<Rightarrow> nat \<Rightarrow> fmtransval res" where
  "fmsketch_sortasort_insert srv t dat len =
     (case storage t of
        BIG _ \<Rightarrow> Inl Undefined
      | SMALL s \<Rightarrow>
          rbind (check (num_vals s < capacity s) ''attempt to insert into full sortasort'') (\<lambda>_.
          rbind (sortasort_try_insert srv s dat (fm_typLen t)) (\<lambda>(success, s).
          rbind (check (0 \<le> success) ''insufficient directory capacity in sortasort'') (\<lambda>_.
            if success = 1 then Inr (t\<lparr>storage := SMALL s\<rparr>)
            else rbind (grow_and_insert 1 srv s dat (fm_typLen t) len) (\<lambda>s. Inr (t\<lparr>storage := SMALL s\<rparr>))))))"

section \<open>Transition\<close>

text \<open>A value stored in the sortasort, as the datum the callers read back.\<close>

definition stored_datum :: "sortasort \<Rightarrow> bool \<Rightarrow> nat \<Rightarrow> datum res" where
  "stored_datum s byVal i = PointerExtractDatum (SORTASORT_GETVAL s i) byVal"

text \<open>The loop that sketches the values of a sortasort, the catch-up loop of the code.\<close>

definition sketch_stored :: "server \<Rightarrow> sortasort \<Rightarrow> bool \<Rightarrow> nat \<Rightarrow> fmtransval \<Rightarrow> fmtransval res" where
  "sketch_stored srv s byVal n =
     foldM (\<lambda>i t. rbind (stored_datum s byVal i) (\<lambda>d. fmsketch_trans_c srv t d)) [0..<n]"

definition fmsketch_init :: "server \<Rightarrow> nat \<Rightarrow> fmtransval res" where
  "fmsketch_init srv element_type =
     (let ty = typ_lookup srv element_type in
      rbind (sortasort_init MINVALS SORTASORT_INITIAL_STORAGE (typLen ty) (typByVal ty)) (\<lambda>s.
        Inr \<lparr>fm_typOid = element_type, fm_typLen = typLen ty, fm_typByVal = typByVal ty, storage = SMALL s\<rparr>))"

definition fmsketch_trans :: "server \<Rightarrow> fmtransval option \<Rightarrow> nat \<Rightarrow> datum \<Rightarrow> fmtransval option res" where
  "fmsketch_trans srv transblob element_type inval =
     rbind (case transblob of None \<Rightarrow> fmsketch_init srv element_type | Some t \<Rightarrow> Inr t) (\<lambda>t.
     rbind (case storage t of
              SMALL s \<Rightarrow>
                if num_vals s < MINVALS then
                  rbind (ExtractDatumLen srv inval (fm_typLen t)) (\<lambda>len.
                    fmsketch_sortasort_insert srv t inval len)
                else if num_vals s = MINVALS then
                  rbind (sketch_stored srv s (s_typByVal s) MINVALS (fm_new t)) (\<lambda>t. fmsketch_trans_c srv t inval)
                else Inl (Report ''FM sketch failed internal sanity check'')
            | BIG _ \<Rightarrow> fmsketch_trans_c srv t inval) (\<lambda>t. Inr (Some t)))"

section \<open>Estimate\<close>

text \<open>
  The magic formula on the sum \<open>S\<close> of the leading ones; \<open>pow\<close> of the C library is a parameter, and
  \<open>ceil\<close> followed by the conversion to an integer is \<open>f64_ceil\<close>.
\<close>

definition phi :: float8 where "phi = 0x3FE8C0980B242071"

definition f64_ceil :: "float8 \<Rightarrow> int option" where
  "f64_ceil x = map_option (\<lambda>t. if f64_lt (f64_of_int t) x then t + 1 else t) (f64_trunc x)"

definition fmsketch_count_distinct_c :: "(float8 \<Rightarrow> float8 \<Rightarrow> float8) \<Rightarrow> byte list \<Rightarrow> int res" where
  "fmsketch_count_distinct_c pow bitmaps =
     rbind (foldM (\<lambda>i S. rbind (leftmost_zero bitmaps NMAP MD5_HASHLEN_BITS i) (\<lambda>lz. Inr (S + lz)))
              [0..<NMAP] (0 :: 32 word)) (\<lambda>S.
     let x = f64_mul (f64_div (f64_of_int (int NMAP)) phi)
               (pow (f64_of_int 2) (f64_div (f64_of_int (uint S)) (f64_of_int (int NMAP))))
     in case f64_ceil x of Some n \<Rightarrow> Inr n | None \<Rightarrow> Inl Undefined)"

definition fmsketch_count_distinct :: "(float8 \<Rightarrow> float8 \<Rightarrow> float8) \<Rightarrow> fmtransval option \<Rightarrow> int res" where
  "fmsketch_count_distinct pow transblob =
     (case transblob of
        None \<Rightarrow> Inr 0
      | Some t \<Rightarrow>
          (case storage t of
             SMALL s \<Rightarrow> Inr (int (num_vals s))
           | BIG bitmaps \<Rightarrow> fmsketch_count_distinct_c pow bitmaps))"

section \<open>Merging\<close>

text \<open>
  \<open>big_or\<close> assigns a new allocation to its parameter \<open>out\<close> and writes every eighth byte of the
  disjunction there; the buffer of the caller, the result here, is not changed.
\<close>

definition big_or :: "byte list \<Rightarrow> byte list \<Rightarrow> byte list \<Rightarrow> byte list res" where
  "big_or bitmap1 bitmap2 out =
     rbind (check (length bitmap1 = length bitmap2) ''attempting to OR two different-sized bitmaps'') (\<lambda>_. Inr out)"

definition merge_small :: "server \<Rightarrow> fmtransval \<Rightarrow> sortasort \<Rightarrow> fmtransval \<Rightarrow> fmtransval res" where
  "merge_small srv transval1 sortashort tblob_big =
     foldM (\<lambda>i t.
        rbind (stored_datum sortashort (fm_typByVal transval1) i) (\<lambda>the_val.
        rbind (ExtractDatumLen srv the_val (fm_typLen transval1)) (\<lambda>the_len.
          fmsketch_sortasort_insert srv t the_val the_len))) [0..<num_vals sortashort] tblob_big"

definition fmsketch_merge :: "server \<Rightarrow> fmtransval option \<Rightarrow> fmtransval option \<Rightarrow> fmtransval option res" where
  "fmsketch_merge srv transblob1 transblob2 =
     (case (transblob1, transblob2) of
        (None, _) \<Rightarrow> Inr transblob2
      | (_, None) \<Rightarrow> Inr transblob1
      | (Some t1, Some t2) \<Rightarrow>
          let bigs = (\<lambda>tblob_big.
                rbind (case storage t1 of
                         SMALL s1 \<Rightarrow> sketch_stored srv s1 (fm_typByVal t1) (num_vals s1) tblob_big
                       | BIG _ \<Rightarrow> Inr tblob_big) (\<lambda>tblob_big.
                rbind (case storage t2 of
                         SMALL s2 \<Rightarrow> sketch_stored srv s2 (fm_typByVal t1) (num_vals s2) tblob_big
                       | BIG _ \<Rightarrow> Inr tblob_big) (\<lambda>t. Inr (Some t))))
          in (case (storage t1, storage t2) of
                (BIG b1, BIG b2) \<Rightarrow>
                  let new = fm_new t1 in
                  (case storage new of
                     BIG out \<Rightarrow> rbind (big_or b1 b2 out) (\<lambda>out. Inr (Some (new\<lparr>storage := BIG out\<rparr>)))
                   | SMALL _ \<Rightarrow> Inl Undefined)
              | (SMALL s1, SMALL s2) \<Rightarrow>
                  let (big, sortabig, sortashort) =
                        (if num_vals s1 > num_vals s2 then (t1, s1, s2) else (t2, s2, s1))
                  in if num_vals sortabig + num_vals sortashort \<le> capacity sortabig
                     then rbind (merge_small srv t1 sortashort big) (\<lambda>t. Inr (Some t))
                     else bigs (fm_new t1)
              | (BIG _, SMALL _) \<Rightarrow> bigs t1
              | (SMALL _, BIG _) \<Rightarrow> bigs t2))"

end
