(* ===== verification/SortasortFacts.thy ===== *)
theory SortasortFacts
  imports Sortasort SketchSupportFacts "HOL-Library.List_Lexorder" "HOL-Library.Multiset"
begin

text \<open>
  The sortasort of values of a fixed length: \<open>sortasort_find\<close> finds a value exactly when it is there,
  \<open>sortasort_try_insert\<close> keeps the dictionary a set with a sorted prefix.
\<close>

section \<open>Comparing bytes\<close>

definition sign3 :: "'a::linorder \<Rightarrow> 'a \<Rightarrow> int" where
  "sign3 x y = (if x < y then -1 else if x = y then 0 else 1)"

lemma sign3_simps [simp]: "sign3 x y = 0 \<longleftrightarrow> x = y" "sign3 x y < 0 \<longleftrightarrow> x < y" "sign3 x y \<le> 0 \<longleftrightarrow> x \<le> y"
  by (auto simp: sign3_def)

lemma memcmp_sign3:
  "n \<le> length xs \<Longrightarrow> n \<le> length ys \<Longrightarrow> memcmp xs ys n = Inr (sign3 (take n xs) (take n ys))"
  by (induction xs ys n rule: memcmp.induct) (auto simp: sign3_def)

section \<open>Binary search\<close>

text \<open>
  The state of the search in the strictly increasing sequence \<open>f\<close>: the guess is strictly inside the
  interval, or the interval has two elements and the other one has been compared.
\<close>

definition search_inv :: "(int \<Rightarrow> 'a::linorder) \<Rightarrow> 'a \<Rightarrow> int \<Rightarrow> int \<Rightarrow> int \<Rightarrow> bool" where
  "search_inv f v themin themax theguess \<longleftrightarrow>
     themin < theguess \<and> theguess < themax \<or>
     themax = themin + 1 \<and> (theguess = themin \<and> v < f themax \<or> theguess = themax \<and> f themin < v)"

lemma find_loop_correct:
  fixes f :: "int \<Rightarrow> 'a::linorder"
  assumes diff: "\<And>i. 0 \<le> i \<Longrightarrow> i < hi \<Longrightarrow> diff_at i = Inr (sign3 (f i) v)"
    and mono: "\<And>i j. 0 \<le> i \<Longrightarrow> i < j \<Longrightarrow> j < hi \<Longrightarrow> f i < f j"
    and "0 \<le> themin" "themax < hi" "themax - themin < int fuel" "search_inv f v themin themax theguess"
  shows "\<exists>r. find_loop fuel diff_at themin themax theguess = Inr r \<and>
           (case r of Some i \<Rightarrow> 0 \<le> i \<and> i < hi \<and> f i = v
            | None \<Rightarrow> \<forall>k. themin \<le> k \<and> k \<le> themax \<longrightarrow> f k \<noteq> v)"
  using assms(3-)
proof (induction fuel arbitrary: themin themax theguess)
  case 0
  then show ?case by (auto simp: search_inv_def)
next
  case (Suc fuel)
  have guess: "themin \<le> theguess" "theguess \<le> themax" "themin < themax"
    using Suc.prems(4) by (auto simp: search_inv_def)
  then have d: "diff_at theguess = Inr (sign3 (f theguess) v)"
    using diff[of theguess] Suc.prems(1,2) by simp
  consider "f theguess = v" | "f theguess \<noteq> v" "themin = themax - 1"
    | "f theguess < v" "themin \<noteq> themax - 1" | "v < f theguess" "themin \<noteq> themax - 1"
    by (meson not_less_iff_gr_or_eq)
  then show ?case
  proof cases
    case 1
    then show ?thesis using d guess Suc.prems by simp
  next
    case 2
    then have "\<forall>k. themin \<le> k \<and> k \<le> themax \<longrightarrow> f k \<noteq> v"
    proof (intro allI impI)
      fix k assume "themin \<le> k \<and> k \<le> themax"
      then have "k = themin \<or> k = themax" using 2(2) by auto
      then show "f k \<noteq> v" using Suc.prems(4) 2 by (auto simp: search_inv_def)
    qed
    then show ?thesis using 2 d guess by simp
  next
    case 3
    define g where "g = theguess + (if (themax - theguess) div 2 = 0 then 1 else (themax - theguess) div 2)"
    have bet: "themin < theguess" "theguess < themax" using Suc.prems(4) 3(2) by (auto simp: search_inv_def)
    have "search_inv f v theguess themax g"
    proof (cases "themax - theguess = 1")
      case True
      then have "g = themax" by (simp add: g_def)
      with True 3 show ?thesis by (simp add: search_inv_def)
    next
      case False
      then have "1 \<le> (themax - theguess) div 2" "(themax - theguess) div 2 < themax - theguess" using bet by simp_all
      then show ?thesis by (simp add: search_inv_def g_def)
    qed
    then obtain r where r: "find_loop fuel diff_at theguess themax g = Inr r"
      "case r of Some i \<Rightarrow> 0 \<le> i \<and> i < hi \<and> f i = v | None \<Rightarrow> \<forall>k. theguess \<le> k \<and> k \<le> themax \<longrightarrow> f k \<noteq> v"
      using Suc.IH[of theguess themax g] Suc.prems bet by auto
    have low: "f k \<noteq> v" if "themin \<le> k" "k < theguess" for k
      using mono[of k theguess] that 3(1) Suc.prems(1,2) bet by fastforce
    have "\<forall>k. themin \<le> k \<and> k \<le> themax \<longrightarrow> f k \<noteq> v" if "r = None"
    proof (intro allI impI)
      fix k assume "themin \<le> k \<and> k \<le> themax"
      then show "f k \<noteq> v" using low[of k] r(2) that by (cases "k < theguess") auto
    qed
    then show ?thesis using r 3 d guess by (auto simp: g_def Let_def split: option.splits)
  next
    case 4
    define g where "g = theguess - (if (theguess - themin) div 2 = 0 then 1 else (theguess - themin) div 2)"
    have bet: "themin < theguess" "theguess < themax" using Suc.prems(4) 4(2) by (auto simp: search_inv_def)
    have "search_inv f v themin theguess g"
    proof (cases "theguess - themin = 1")
      case True
      then have "g = themin" by (simp add: g_def)
      with True 4 show ?thesis by (simp add: search_inv_def)
    next
      case False
      then have "1 \<le> (theguess - themin) div 2" "(theguess - themin) div 2 < theguess - themin" using bet by simp_all
      then show ?thesis by (simp add: search_inv_def g_def)
    qed
    then obtain r where r: "find_loop fuel diff_at themin theguess g = Inr r"
      "case r of Some i \<Rightarrow> 0 \<le> i \<and> i < hi \<and> f i = v | None \<Rightarrow> \<forall>k. themin \<le> k \<and> k \<le> theguess \<longrightarrow> f k \<noteq> v"
      using Suc.IH[of themin theguess g] Suc.prems bet by auto
    have high: "f k \<noteq> v" if "theguess < k" "k \<le> themax" for k
      using mono[of theguess k] that 4(1) Suc.prems(1,2) bet by fastforce
    have "\<forall>k. themin \<le> k \<and> k \<le> themax \<longrightarrow> f k \<noteq> v" if "r = None"
    proof (intro allI impI)
      fix k assume "themin \<le> k \<and> k \<le> themax"
      then show "f k \<noteq> v" using high[of k] r(2) that by (cases "theguess < k") auto
    qed
    moreover have "\<not> sign3 (f theguess) v < 0" "sign3 (f theguess) v \<noteq> 0" using 4(1) by auto
    ultimately show ?thesis using r 4 d guess by (auto simp: g_def Let_def split: option.splits)
  qed
qed

lemma find_tail_correct:
  assumes "\<And>i. i \<in> set is \<Longrightarrow> diff_at (int i) = Inr (sign3 (f i) v)"
  shows "\<exists>r. find_tail diff_at is = Inr r \<and>
           ((\<exists>i\<in>set is. f i = v) \<and> (\<exists>i\<in>set is. r = int i \<and> f i = v) \<or> (\<forall>i\<in>set is. f i \<noteq> v) \<and> r = -1)"
  using assms by (induction "is") auto


section \<open>The dictionary\<close>

text \<open>The values of length \<open>L\<close> the directory points to, and the length of its sorted prefix.\<close>

definition sorta_values :: "nat \<Rightarrow> sortasort \<Rightarrow> byte list list" where
  "sorta_values L s = map (\<lambda>off. take L (drop off (data s))) (dir s)"

definition sorted_prefix :: "nat \<Rightarrow> nat" where
  "sorted_prefix n = n div SORTA_SLOP * SORTA_SLOP"

definition sorta_inv :: "nat \<Rightarrow> sortasort \<Rightarrow> bool" where
  "sorta_inv L s \<longleftrightarrow> 0 < L \<and> s_typLen s = int L \<and> num_vals s \<le> capacity s \<and> storage_cur s \<le> storage_sz s \<and> storage_cur s \<le> length (data s) \<and>
     (\<forall>off\<in>set (dir s). off + L \<le> storage_cur s) \<and> distinct (sorta_values L s) \<and>
     sorted (take (sorted_prefix (num_vals s)) (sorta_values L s))"

lemma length_sorta_values [simp]: "length (sorta_values L s) = num_vals s"
  by (simp add: sorta_values_def num_vals_def)

lemma sorted_prefix_le: "sorted_prefix n \<le> n"
  by (simp add: sorted_prefix_def)

lemma sorta_getval:
  assumes "sorta_inv L s" "i < num_vals s"
  shows "L \<le> length (SORTASORT_GETVAL s i)" "take L (SORTASORT_GETVAL s i) = sorta_values L s ! i"
proof -
  have "dir s ! i + L \<le> storage_cur s" using assms by (auto simp: sorta_inv_def num_vals_def)
  moreover have "storage_cur s \<le> length (data s)" using assms(1) by (simp add: sorta_inv_def)
  ultimately have "dir s ! i + L \<le> length (data s)" by linarith
  then show "L \<le> length (SORTASORT_GETVAL s i)" by (simp add: SORTASORT_GETVAL_def)
  show "take L (SORTASORT_GETVAL s i) = sorta_values L s ! i"
    using assms(2) by (simp add: SORTASORT_GETVAL_def sorta_values_def num_vals_def)
qed

lemma sorta_memcmp:
  assumes "sorta_inv L s" "i < num_vals s" "datum_ok L d"
  shows "memcmp (SORTASORT_GETVAL s i) (DatumExtractPointer d) L = Inr (sign3 (sorta_values L s ! i) (datum_value L d))"
  using sorta_getval[OF assms(1,2)] assms(3) by (simp add: memcmp_sign3 datum_ok_def datum_value_def)

lemma sorted_prefix_mono:
  assumes "sorta_inv L s" "i < j" "j < sorted_prefix (num_vals s)"
  shows "sorta_values L s ! i < sorta_values L s ! j"
proof -
  let ?p = "take (sorted_prefix (num_vals s)) (sorta_values L s)"
  have j: "j < num_vals s" using assms(3) sorted_prefix_le[of "num_vals s"] by simp
  have "?p ! i \<le> ?p ! j"
    using assms j by (intro sorted_nth_mono) (auto simp: sorta_inv_def)
  moreover have "sorta_values L s ! i \<noteq> sorta_values L s ! j"
    using assms j by (auto simp: sorta_inv_def nth_eq_iff_index_eq)
  ultimately show ?thesis using assms by simp
qed

lemma sortasort_find_value:
  assumes inv: "sorta_inv L s" and d: "datum_ok L d"
  shows "\<exists>r. sortasort_find srv s d = Inr r \<and>
           (if datum_value L d \<in> set (sorta_values L s)
            then 0 \<le> r \<and> r < int (num_vals s) \<and> sorta_values L s ! nat r = datum_value L d else r = -1)"
proof -
  let ?n = "num_vals s" and ?v = "datum_value L d" and ?vs = "sorta_values L s"
  define hi where "hi = sorted_prefix ?n"
  define diff_at where "diff_at = (\<lambda>i. memcmp (SORTASORT_GETVAL s (nat i)) (DatumExtractPointer d) L)"
  have hi: "hi \<le> ?n" by (simp add: hi_def sorted_prefix_le)
  have L: "ExtractDatumLen srv d (s_typLen s) = Inr L"
    using inv by (simp add: sorta_inv_def ExtractDatumLen_def)
  have diff: "diff_at i = Inr (sign3 (?vs ! nat i) ?v)" if "0 \<le> i" "i < int ?n" for i
    using sorta_memcmp[OF inv _ d, of "nat i"] that by (simp add: diff_at_def)
  obtain r where r: "find_loop (?n + 1) diff_at 0 (int hi - 1) (int hi div 2) = Inr r"
    "case r of Some i \<Rightarrow> 0 \<le> i \<and> i < int hi \<and> ?vs ! nat i = ?v | None \<Rightarrow> \<forall>k<hi. ?vs ! k \<noteq> ?v"
  proof (cases "hi = 0")
    case True
    then show ?thesis by (intro that[of None]) simp_all
  next
    case False
    then have "100 \<le> hi" by (auto simp: hi_def sorted_prefix_def SORTA_SLOP_def)
    then have "0 < int hi div 2" "int hi div 2 < int hi - 1" by linarith+
    then have "search_inv (\<lambda>i. ?vs ! nat i) ?v 0 (int hi - 1) (int hi div 2)"
      by (simp add: search_inv_def)
    then have "\<exists>r. find_loop (?n + 1) diff_at 0 (int hi - 1) (int hi div 2) = Inr r \<and>
        (case r of Some i \<Rightarrow> 0 \<le> i \<and> i < int hi \<and> ?vs ! nat i = ?v
         | None \<Rightarrow> \<forall>k. 0 \<le> k \<and> k \<le> int hi - 1 \<longrightarrow> ?vs ! nat k \<noteq> ?v)"
      using hi diff sorted_prefix_mono[OF inv]
      by (intro find_loop_correct[of "int hi" diff_at]) (auto simp: hi_def nat_less_iff)
    then obtain r where r: "find_loop (?n + 1) diff_at 0 (int hi - 1) (int hi div 2) = Inr r"
      "case r of Some i \<Rightarrow> 0 \<le> i \<and> i < int hi \<and> ?vs ! nat i = ?v
       | None \<Rightarrow> \<forall>k. 0 \<le> k \<and> k \<le> int hi - 1 \<longrightarrow> ?vs ! nat k \<noteq> ?v" by blast
    have "\<forall>k<hi. ?vs ! k \<noteq> ?v" if "r = None"
    proof (intro allI impI)
      fix k assume "k < hi"
      then show "?vs ! k \<noteq> ?v" using r(2) that by (auto dest: spec[of _ "int k"])
    qed
    then show ?thesis using that[of r] r by (cases r) auto
  qed
  have find: "sortasort_find srv s d = (case r of Some i \<Rightarrow> Inr i | None \<Rightarrow> find_tail diff_at [hi..<?n])"
    using r(1) L unfolding sortasort_find_def Let_def diff_at_def hi_def sorted_prefix_def
    by (simp del: find_loop.simps)
  show ?thesis
  proof (cases r)
    case (Some i)
    then have "?v \<in> set ?vs" "0 \<le> i" "i < int ?n"
      using r(2) hi by (auto simp: in_set_conv_nth intro!: exI[of _ "nat i"])
    then show ?thesis using Some find r(2) by simp
  next
    case None
    obtain t where t: "find_tail diff_at [hi..<?n] = Inr t"
      "(\<exists>i\<in>{hi..<?n}. ?vs ! i = ?v) \<and> (\<exists>i\<in>{hi..<?n}. t = int i \<and> ?vs ! i = ?v) \<or> (\<forall>i\<in>{hi..<?n}. ?vs ! i \<noteq> ?v) \<and> t = -1"
      using find_tail_correct[of "[hi..<?n]" diff_at "\<lambda>i. ?vs ! i" ?v] diff by auto
    show ?thesis
    proof (cases "?v \<in> set ?vs")
      case True
      then obtain k where k: "k < ?n" "?vs ! k = ?v" by (auto simp: in_set_conv_nth)
      then have "hi \<le> k" using r(2) None by (auto simp: not_less[symmetric])
      with k t(2) have "\<exists>i\<in>{hi..<?n}. t = int i \<and> ?vs ! i = ?v" by auto
      with True t(1) None find show ?thesis by auto
    next
      case False
      then have "\<forall>i\<in>{hi..<?n}. ?vs ! i \<noteq> ?v" by (auto simp: in_set_conv_nth)
      with t(2) have "t = -1" by auto
      with False t(1) None find show ?thesis by simp
    qed
  qed
qed


section \<open>Insertion\<close>

text \<open>
  What the code relies on in \<open>qsort_arg\<close> and \<open>qsort\<close>: they permute the array, and sort it when the
  comparison is an order.
\<close>

definition sorts :: "(('a \<Rightarrow> 'a \<Rightarrow> int) \<Rightarrow> 'a list \<Rightarrow> 'a list) \<Rightarrow> bool" where
  "sorts qs \<longleftrightarrow> (\<forall>cmp xs. mset (qs cmp xs) = mset xs \<and>
     ((\<forall>x\<in>set xs. \<forall>y\<in>set xs. \<forall>z\<in>set xs. (cmp x y \<le> 0 \<or> cmp y x \<le> 0) \<and>
          (cmp x y \<le> 0 \<longrightarrow> cmp y z \<le> 0 \<longrightarrow> cmp x z \<le> 0)) \<longrightarrow>
      sorted_wrt (\<lambda>x y. cmp x y \<le> 0) (qs cmp xs)))"

definition qsort_ok :: "server \<Rightarrow> bool" where
  "qsort_ok srv \<longleftrightarrow> sorts (qsort_arg srv)"

lemma sorts_mset: "sorts qs \<Longrightarrow> mset (qs cmp xs) = mset xs"
  by (simp add: sorts_def)

lemma sorts_sorted:
  assumes "sorts qs"
    and "\<And>x y. x \<in> set xs \<Longrightarrow> y \<in> set xs \<Longrightarrow> cmp x y \<le> 0 \<or> cmp y x \<le> 0"
    and "\<And>x y z. x \<in> set xs \<Longrightarrow> y \<in> set xs \<Longrightarrow> z \<in> set xs \<Longrightarrow> cmp x y \<le> 0 \<Longrightarrow> cmp y z \<le> 0 \<Longrightarrow> cmp x z \<le> 0"
  shows "sorted_wrt (\<lambda>x y. cmp x y \<le> 0) (qs cmp xs)"
  using assms unfolding sorts_def by blast

lemma qsort_arg_key:
  fixes key :: "nat \<Rightarrow> 'a::linorder"
  assumes "qsort_ok srv" "\<And>x y. x \<in> set xs \<Longrightarrow> y \<in> set xs \<Longrightarrow> cmp x y = sign3 (key x) (key y)"
  shows "mset (qsort_arg srv cmp xs) = mset xs" "sorted (map key (qsort_arg srv cmp xs))"
proof -
  have ok: "sorts (qsort_arg srv)" using assms(1) by (simp add: qsort_ok_def)
  show m: "mset (qsort_arg srv cmp xs) = mset xs" by (rule sorts_mset[OF ok])
  have "sorted_wrt (\<lambda>x y. cmp x y \<le> 0) (qsort_arg srv cmp xs)"
    by (rule sorts_sorted[OF ok]) (use assms(2) in auto)
  then have "sorted_wrt (\<lambda>x y. key x \<le> key y) (qsort_arg srv cmp xs)"
    by (rule sorted_wrt_mono_rel[rotated]) (use assms(2) mset_eq_setD[OF m] in auto)
  then show "sorted (map key (qsort_arg srv cmp xs))" by (simp add: sorted_wrt_map)
qed

lemma sort_dir_sorted:
  assumes "qsort_ok srv" "0 < L" "s_typLen s = int L" "\<forall>off\<in>set (dir s). off + L \<le> length (data s)"
  shows "\<exists>s'. sort_dir srv s = Inr s' \<and> mset (sorta_values L s') = mset (sorta_values L s) \<and>
           sorted (sorta_values L s') \<and> s' = s\<lparr>dir := dir s'\<rparr> \<and> mset (dir s') = mset (dir s)"
proof -
  let ?key = "\<lambda>off. take L (drop off (data s))"
  define cmp where "cmp = (\<lambda>i j. case sorta_cmp srv s i j of Inr c \<Rightarrow> c | Inl _ \<Rightarrow> 0)"
  have c: "sorta_cmp srv s i j = Inr (sign3 (?key i) (?key j))" if "i \<in> set (dir s)" "j \<in> set (dir s)" for i j
  proof -
    have "L \<le> length (drop i (data s))" "L \<le> length (drop j (data s))"
      using assms(4) that by fastforce+
    then show ?thesis using assms(2,3) by (simp add: sorta_cmp_def Let_def memcmp_sign3)
  qed
  note q = qsort_arg_key[OF assms(1), of "dir s" cmp ?key]
  have "list_all (\<lambda>i. list_all (\<lambda>j. case sorta_cmp srv s i j of Inr _ \<Rightarrow> True | Inl _ \<Rightarrow> False) (dir s)) (dir s)"
    using c by (simp add: list_all_iff)
  then have "sort_dir srv s = Inr (s\<lparr>dir := qsort_arg srv cmp (dir s)\<rparr>)"
    by (simp add: sort_dir_def cmp_def)
  moreover have "mset (qsort_arg srv cmp (dir s)) = mset (dir s)" "sorted (map ?key (qsort_arg srv cmp (dir s)))"
    using q c by (simp_all add: cmp_def)
  ultimately show ?thesis by (simp add: sorta_values_def)
qed

lemma sorted_prefix_Suc:
  "Suc n mod SORTA_SLOP \<noteq> 0 \<Longrightarrow> sorted_prefix (Suc n) = sorted_prefix n"
  by (simp add: sorted_prefix_def div_Suc)

lemma sortasort_insert_new:
  assumes inv: "sorta_inv L s" and d: "datum_ok L d" and "qsort_ok srv"
    and new: "datum_value L d \<notin> set (sorta_values L s)"
    and room: "storage_cur s + L < storage_sz s" "num_vals s < capacity s"
  shows "\<exists>s'. sortasort_try_insert srv s d (int L) = Inr (1, s') \<and> sorta_inv L s' \<and>
           set (sorta_values L s') = insert (datum_value L d) (set (sorta_values L s)) \<and>
           num_vals s' = Suc (num_vals s) \<and> storage_cur s' = storage_cur s + L \<and>
           storage_sz s' = storage_sz s \<and> capacity s' = capacity s \<and> s_typByVal s' = s_typByVal s"
proof -
  let ?v = "datum_value L d" and ?cur = "storage_cur s"
  define t where "t = s\<lparr>data := take ?cur (data s) @ take L (DatumExtractPointer d) @ drop (?cur + L) (data s),
      dir := dir s @ [?cur], storage_cur := ?cur + L\<rparr>"
  have cur: "?cur \<le> length (data s)" using inv by (simp add: sorta_inv_def)
  have L: "0 < L" "s_typLen s = int L" using inv by (simp_all add: sorta_inv_def)
  have old: "take L (drop off (data t)) = take L (drop off (data s))" if "off \<in> set (dir s)" for off
  proof -
    have "off + L \<le> ?cur" using inv that by (simp add: sorta_inv_def)
    then show ?thesis using cur by (simp add: t_def) (simp add: drop_take min_def)
  qed
  have "take L (drop ?cur (data t)) = ?v" using cur d by (simp add: t_def datum_value_def datum_ok_def)
  then have vals: "sorta_values L t = sorta_values L s @ [?v]"
    using old by (simp add: sorta_values_def) (simp add: t_def)
  have dirs: "\<forall>off\<in>set (dir t). off + L \<le> storage_cur t" "storage_cur t \<le> length (data t)" "num_vals t = Suc (num_vals s)"
    using inv cur d by (auto simp: t_def sorta_inv_def datum_ok_def num_vals_def)
  have simple: "s_typLen t = int L" "storage_sz t = storage_sz s" "capacity t = capacity s" "storage_cur t = ?cur + L"
    "s_typByVal t = s_typByVal s"
    using L by (simp_all add: t_def)
  have dist: "distinct (sorta_values L t)" using inv new vals by (simp add: sorta_inv_def)
  obtain u where u: "(if num_vals t mod SORTA_SLOP = 0 then sort_dir srv t else Inr t) = Inr u"
    "mset (sorta_values L u) = mset (sorta_values L t)" "u = t\<lparr>dir := dir u\<rparr>" "mset (dir u) = mset (dir t)"
    "sorted (take (sorted_prefix (num_vals t)) (sorta_values L u))"
  proof (cases "num_vals t mod SORTA_SLOP = 0")
    case True
    have "\<forall>off\<in>set (dir t). off + L \<le> length (data t)" using dirs by fastforce
    from sort_dir_sorted[OF assms(3) L(1) simple(1) this] show ?thesis
      using True that by (auto simp: sorted_wrt_take)
  next
    case False
    then have "sorted (take (sorted_prefix (num_vals t)) (sorta_values L t))"
      using inv dirs(3) vals sorted_prefix_Suc[of "num_vals s"] sorted_prefix_le[of "num_vals s"]
      by (simp add: sorta_inv_def)
    with False show ?thesis by (intro that[of t]) simp_all
  qed
  have nv: "num_vals u = num_vals t" using mset_eq_length[OF u(4)] by (simp add: num_vals_def)
  have fields: "storage_cur u = storage_cur t" "storage_sz u = storage_sz t" "capacity u = capacity t"
    "s_typLen u = s_typLen t" "data u = data t" "s_typByVal u = s_typByVal t"
    by (subst u(3); simp)+
  have "sorta_inv L u"
    using L room dist dirs simple u(5) mset_eq_setD[OF u(4)] mset_eq_imp_distinct_iff[OF u(2)] fields nv
    by (simp add: sorta_inv_def)
  moreover have "sortasort_try_insert srv s d (int L) = Inr (1, u)"
    using sortasort_find_value[OF inv d, of srv] new room L d simple u(1)
    by (auto simp: sortasort_try_insert_def ExtractDatumLen_def datum_ok_def Let_def simp flip: t_def)
  moreover have "set (sorta_values L u) = insert ?v (set (sorta_values L s))"
    using mset_eq_setD[OF u(2)] vals by simp
  ultimately show ?thesis using fields simple dirs(3) nv by auto
qed

lemma sortasort_insert_old:
  assumes "sorta_inv L s" "datum_ok L d" "datum_value L d \<in> set (sorta_values L s)"
  shows "sortasort_try_insert srv s d len = Inr (1, s)"
  using sortasort_find_value[OF assms(1,2), of srv] assms(3) by (auto simp: sortasort_try_insert_def)

lemma sortasort_insert_full:
  assumes "sorta_inv L s" "datum_ok L d" "datum_value L d \<notin> set (sorta_values L s)"
    and "storage_sz s \<le> storage_cur s + L"
  shows "sortasort_try_insert srv s d (int L) = Inr (0, s)"
  using sortasort_find_value[OF assms(1,2), of srv] assms
  by (auto simp: sortasort_try_insert_def ExtractDatumLen_def sorta_inv_def)


section \<open>A server\<close>

text \<open>
  An instance of the server, used to apply the properties: insertion sort, a constant MD5, and one
  type of two bytes passed by reference.
\<close>

fun insert_by :: "('a \<Rightarrow> 'a \<Rightarrow> int) \<Rightarrow> 'a \<Rightarrow> 'a list \<Rightarrow> 'a list" where
  "insert_by cmp x [] = [x]"
| "insert_by cmp x (y # ys) = (if cmp x y \<le> 0 then x # y # ys else y # insert_by cmp x ys)"

definition insertion_sort :: "('a \<Rightarrow> 'a \<Rightarrow> int) \<Rightarrow> 'a list \<Rightarrow> 'a list" where
  "insertion_sort cmp xs = foldr (insert_by cmp) xs []"

definition example_server :: server where
  "example_server = \<lparr>varsize_any = length, md5_hash = (\<lambda>_. replicate 32 49),
     typ_lookup = (\<lambda>_. \<lparr>typLen = 2, typByVal = False\<rparr>), typ_output = id,
     qsort_arg = insertion_sort\<rparr>"

lemma mset_insert_by: "mset (insert_by cmp x ys) = add_mset x (mset ys)"
  by (induction ys) auto

lemma sorted_insert_by:
  assumes "\<forall>x\<in>A. \<forall>y\<in>A. \<forall>z\<in>A. (cmp x y \<le> 0 \<or> cmp y x \<le> 0) \<and> (cmp x y \<le> 0 \<longrightarrow> cmp y z \<le> 0 \<longrightarrow> cmp x z \<le> 0)"
    and "x \<in> A" "set ys \<subseteq> A" "sorted_wrt (\<lambda>x y. cmp x y \<le> 0) ys"
  shows "sorted_wrt (\<lambda>x y. cmp x y \<le> 0) (insert_by cmp x ys)"
  using assms(3,4)
proof (induction ys)
  case (Cons y ys)
  have set: "set (insert_by cmp x ys) = insert x (set ys)"
    using mset_insert_by[of cmp x ys] by (metis set_mset_mset set_mset_add_mset_insert)
  have y: "y \<in> A" "\<forall>z\<in>set ys. cmp y z \<le> 0" "set ys \<subseteq> A" using Cons.prems by simp_all
  show ?case
  proof (cases "cmp x y \<le> 0")
    case True
    have "cmp x z \<le> 0" if "z \<in> set ys" for z
      using assms(1,2) y that True by (meson subsetD)
    with True Cons.prems show ?thesis by simp
  next
    case False
    then have "cmp y x \<le> 0" using assms(1,2) y(1) by blast
    with False Cons y set show ?thesis by simp
  qed
qed simp

lemma insertion_sort_sorts: "sorts insertion_sort"
proof -
  have m: "mset (foldr (insert_by cmp) xs []) = mset xs" for cmp :: "'a \<Rightarrow> 'a \<Rightarrow> int" and xs
    by (induction xs) (simp_all add: mset_insert_by)
  have "sorted_wrt (\<lambda>x y. cmp x y \<le> 0) (foldr (insert_by cmp) xs [])"
    if "\<forall>x\<in>A. \<forall>y\<in>A. \<forall>z\<in>A. (cmp x y \<le> 0 \<or> cmp y x \<le> 0) \<and> (cmp x y \<le> 0 \<longrightarrow> cmp y z \<le> 0 \<longrightarrow> cmp x z \<le> 0)"
      "set xs \<subseteq> A" for cmp :: "'a \<Rightarrow> 'a \<Rightarrow> int" and xs A
    using that(2)
  proof (induction xs)
    case (Cons x xs)
    then show ?case
      using sorted_insert_by[OF that(1), of x "foldr (insert_by cmp) xs []"] mset_eq_setD[OF m] by simp
  qed simp
  then show ?thesis by (simp add: sorts_def insertion_sort_def m)
qed

lemma qsort_example: "qsort_ok example_server"
  by (simp add: qsort_ok_def example_server_def insertion_sort_sorts)


section \<open>Properties\<close>

text \<open>
  C9: In a dictionary of values of a fixed length (\<open>typLen\<close> is positive) an insertion keeps the invariant of the dictionary (offsets
  inside the storage, no duplicates, sorted prefix).  It returns TRUE, and then the contents are the old
  ones and the value, or FALSE for lack of storage or -1 for lack of directory entries, and then
  nothing has changed.
\<close>

theorem sortasort_insert_set:
  assumes "sorta_inv L s" "datum_ok L d" "qsort_ok srv"
  shows "\<exists>r s'. sortasort_try_insert srv s d (int L) = Inr (r, s') \<and> sorta_inv L s' \<and>
           (r = 1 \<and> set (sorta_values L s') = insert (datum_value L d) (set (sorta_values L s)) \<or>
            r = 0 \<and> s' = s \<and> storage_sz s \<le> storage_cur s + L \<or>
            r = -1 \<and> s' = s \<and> num_vals s = capacity s)"
proof -
  consider "datum_value L d \<in> set (sorta_values L s)"
    | "datum_value L d \<notin> set (sorta_values L s)" "storage_sz s \<le> storage_cur s + L"
    | "datum_value L d \<notin> set (sorta_values L s)" "storage_cur s + L < storage_sz s" "num_vals s < capacity s"
    | "datum_value L d \<notin> set (sorta_values L s)" "storage_cur s + L < storage_sz s" "capacity s \<le> num_vals s"
    by linarith
  then show ?thesis
  proof cases
    case 1
    with sortasort_insert_old[OF assms(1,2) 1] assms(1) show ?thesis by (simp add: insert_absorb)
  next
    case 2
    with sortasort_insert_full[OF assms(1,2) 2] assms(1) show ?thesis by simp
  next
    case 3
    with sortasort_insert_new[OF assms 3] show ?thesis by auto
  next
    case 4
    moreover from this have "num_vals s = capacity s" using assms(1) by (simp add: sorta_inv_def)
    moreover have "0 < L" using assms(1) by (simp add: sorta_inv_def)
    ultimately show ?thesis
      using sortasort_find_value[OF assms(1,2), of srv] assms(1)
      by (auto simp: sortasort_try_insert_def ExtractDatumLen_def)
  qed
qed

theorem sortasort_insert_set_witness:
  "\<exists>s s'. sortasort_init 100 600 2 False = Inr s \<and> sortasort_try_insert example_server s (Ptr [7, 8, 9]) 2 = Inr (1, s') \<and>
     set (sorta_values 2 s') = {[7, 8]}"
proof -
  define s where "s = \<lparr>storage_sz = 152, capacity = 100, s_typLen = 2, s_typByVal = False,
      storage_cur = 0, dir = [], data = replicate 152 0\<rparr>"
  have init: "sortasort_init 100 600 2 False = Inr s"
    by (simp add: sortasort_init_def sizeof_sortasort_def s_def)
  have inv: "sorta_inv 2 s" "sorta_values 2 s = []" "storage_cur s = 0" "storage_sz s = 152" "num_vals s = 0" "capacity s = 100"
    by (simp_all add: sorta_inv_def s_def num_vals_def sorta_values_def sorted_prefix_def)
  have d: "datum_ok 2 (Ptr [7, 8, 9])" "datum_value 2 (Ptr [7, 8, 9]) = [7, 8]"
    by (simp_all add: datum_ok_def datum_value_def DatumExtractPointer_def numeral_2_eq_2)
  obtain s' where "sortasort_try_insert example_server s (Ptr [7, 8, 9]) 2 = Inr (1, s')"
    "set (sorta_values 2 s') = {[7, 8]}"
    using sortasort_insert_set[OF inv(1) d(1) qsort_example] inv d(2) by auto
  with init show ?thesis by blast
qed

text \<open>
  For a type of variable length without a length header (cstring) the search compares only as many
  bytes as the searched value has: with "ab" stored, "a" counts as present.
\<close>

lemma find_matches_prefix:
  "rbind (sortasort_init 2 70 (-2) False) (\<lambda>s.
   rbind (sortasort_try_insert example_server s (Ptr [97, 98, 0]) (-2)) (\<lambda>(r, s).
   rbind (sortasort_try_insert example_server s (Ptr [97, 0]) (-2)) (\<lambda>(r', s). Inr (r, r', num_vals s)))) = Inr (1, 1, 1)"
  by code_simp

text \<open>
  The sort of such a type does not order by length either: when the first value is not empty its length stands for
  both, so that a value and its proper extensions compare equal, and an empty first value is an error.
\<close>

lemma sorta_cmp_first_length:
  assumes "s_typLen s < 0" "ExtractDatumLen srv (Ptr (drop i (data s))) (s_typLen s) = Inr l"
  shows "sorta_cmp srv s i j =
     (if l = 0 then Inl (Report ''Datum typelength error in ExtractDatumLen'')
      else memcmp (drop i (data s)) (drop j (data s)) l)"
  using assms by (simp add: sorta_cmp_def ExtractDatumLen_def [of srv "Ptr (drop j (data s))" "int l"])

lemma sorta_cmp_prefix_equal:
  "sorta_cmp example_server \<lparr>storage_sz = 8, capacity = 2, s_typLen = -2, s_typByVal = False, storage_cur = 7,
     dir = [0, 3], data = [97, 98, 0, 97, 98, 99, 0, 0]\<rparr> 0 3 = Inr 0"
  "sorta_cmp example_server \<lparr>storage_sz = 8, capacity = 2, s_typLen = -2, s_typByVal = False, storage_cur = 7,
     dir = [0, 3], data = [97, 98, 0, 97, 98, 99, 0, 0]\<rparr> 3 0 = Inr 1"
  by code_simp+

section \<open>The search ends\<close>

text \<open>
  The binary search relies on the order of the directory only for its result: whatever the comparisons say, the guess stays inside
  the interval, which shrinks in every pass.
\<close>

definition guess_inside :: "int \<Rightarrow> int \<Rightarrow> int \<Rightarrow> bool" where
  "guess_inside themin themax theguess \<longleftrightarrow>
     themin < theguess \<and> theguess < themax \<or> themax = themin + 1 \<and> (theguess = themin \<or> theguess = themax)"

lemma find_loop_ends:
  assumes "\<And>i. 0 \<le> i \<Longrightarrow> i < hi \<Longrightarrow> \<exists>d. diff_at i = Inr d"
    and "0 \<le> themin" "themax < hi" "themax - themin < int fuel" "0 < fuel" "themin < themax \<longrightarrow> guess_inside themin themax theguess"
  shows "\<exists>r. find_loop fuel diff_at themin themax theguess = Inr r \<and>
           (case r of None \<Rightarrow> True | Some i \<Rightarrow> 0 \<le> i \<and> i < hi \<and> diff_at i = Inr 0)"
  using assms(2-)
proof (induction fuel arbitrary: themin themax theguess)
  case 0
  then show ?case by simp
next
  case (Suc fuel)
  show ?case
  proof (cases "themin < themax")
    case True
    then have inside: "guess_inside themin themax theguess" using Suc.prems(5) by simp
    then have range: "0 \<le> theguess" "theguess < hi" using Suc.prems(1,2) by (auto simp: guess_inside_def)
    then obtain d where d: "diff_at theguess = Inr d" using assms(1) by blast
    consider "d = 0" | "d \<noteq> 0" "themin = themax - 1" | "d < 0" "themin \<noteq> themax - 1" | "0 < d" "themin \<noteq> themax - 1" by linarith
    then show ?thesis
    proof cases
      case 3
      then have strict: "themin < theguess" "theguess < themax" using inside by (auto simp: guess_inside_def)
      define a where "a = (if (themax - theguess) div 2 = 0 then 1 else (themax - theguess) div 2)"
      have "1 \<le> a \<and> (a < themax - theguess \<or> themax = theguess + 1 \<and> a = 1)"
        using strict by (auto simp: a_def)
      then have "guess_inside theguess themax (theguess + a)" by (auto simp: guess_inside_def)
      with Suc.IH[of theguess themax "theguess + a"] Suc.prems strict d 3 True show ?thesis
        by (simp add: Let_def flip: a_def)
    next
      case 4
      then have strict: "themin < theguess" "theguess < themax" using inside by (auto simp: guess_inside_def)
      define a where "a = (if (theguess - themin) div 2 = 0 then 1 else (theguess - themin) div 2)"
      have "1 \<le> a \<and> (a < theguess - themin \<or> theguess = themin + 1 \<and> a = 1)"
        using strict by (auto simp: a_def)
      then have "guess_inside themin theguess (theguess - a)" by (auto simp: guess_inside_def)
      with Suc.IH[of themin theguess "theguess - a"] Suc.prems strict d 4 True show ?thesis
        by (simp add: Let_def flip: a_def)
    qed (use d True range in simp_all)
  qed simp
qed

lemma find_tail_ends:
  "\<forall>i\<in>set js. \<exists>d. diff_at (int i) = Inr d \<Longrightarrow>
   \<exists>r. find_tail diff_at js = Inr r \<and> (r = -1 \<or> (\<exists>i\<in>set js. r = int i \<and> diff_at r = Inr 0))"
  by (induction js) auto

text \<open>
  C40: The search of a value ends, with -1 or with the position of an entry that compares equal, for every content of the dictionary
  whose entries can be read, in whatever order: as many passes as there are entries are enough.
\<close>

theorem sortasort_find_ends:
  assumes "ExtractDatumLen srv dat (s_typLen s) = Inr len"
    and "\<forall>i<num_vals s. \<exists>d. memcmp (SORTASORT_GETVAL s i) (DatumExtractPointer dat) len = Inr d"
  shows "\<exists>r. sortasort_find srv s dat = Inr r \<and>
     (r = -1 \<or> 0 \<le> r \<and> r < int (num_vals s) \<and> memcmp (SORTASORT_GETVAL s (nat r)) (DatumExtractPointer dat) len = Inr 0)"
proof -
  define hi where "hi = num_vals s div SORTA_SLOP * SORTA_SLOP"
  define diff_at where "diff_at = (\<lambda>i. memcmp (SORTASORT_GETVAL s (nat i)) (DatumExtractPointer dat) len)"
  have hi: "hi \<le> num_vals s" by (simp add: hi_def)
  have reads: "\<exists>d. diff_at i = Inr d" if "0 \<le> i" "i < int (num_vals s)" for i
    using assms(2) that by (auto simp: diff_at_def nat_less_iff)
  have "guess_inside 0 (int hi - 1) (int hi div 2)" if "0 < int hi - 1"
    using that unfolding guess_inside_def by linarith
  then obtain r where r: "find_loop (num_vals s + 1) diff_at 0 (int hi - 1) (int hi div 2) = Inr r"
    "case r of None \<Rightarrow> True | Some i \<Rightarrow> 0 \<le> i \<and> i < int hi \<and> diff_at i = Inr 0"
    using find_loop_ends[of "int hi" diff_at 0 "int hi - 1" "num_vals s + 1" "int hi div 2"] reads hi by auto
  have run: "sortasort_find srv s dat =
      (case r of Some i \<Rightarrow> Inr i | None \<Rightarrow> find_tail diff_at [hi..<num_vals s])"
    using assms(1) r(1) unfolding sortasort_find_def by (simp add: Let_def del: find_loop.simps flip: hi_def diff_at_def)
  show ?thesis
  proof (cases r)
    case None
    obtain q where "find_tail diff_at [hi..<num_vals s] = Inr q"
      "q = -1 \<or> (\<exists>i\<in>{hi..<num_vals s}. q = int i \<and> diff_at q = Inr 0)"
      using find_tail_ends[of "[hi..<num_vals s]" diff_at] reads by auto
    with None run show ?thesis by (auto simp: diff_at_def)
  next
    case (Some i)
    with run r(2) hi show ?thesis by (simp add: diff_at_def)
  qed
qed

theorem sortasort_find_ends_witness:
  "\<exists>r. sortasort_find example_server \<lparr>storage_sz = 6, capacity = 3, s_typLen = 2, s_typByVal = False, storage_cur = 6,
      dir = [4, 0, 2], data = [1, 1, 2, 2, 3, 3]\<rparr> (Ptr [2, 2]) = Inr r \<and> r \<le> 2"
proof -
  let ?s = "\<lparr>storage_sz = 6, capacity = 3, s_typLen = 2, s_typByVal = False, storage_cur = 6,
      dir = [4, 0, 2], data = [1, 1, 2, 2, 3, 3]\<rparr>"
  have n: "num_vals ?s = 3" by code_simp
  have len: "ExtractDatumLen example_server (Ptr [2, 2]) (s_typLen ?s) = Inr 2" by code_simp
  have "memcmp (SORTASORT_GETVAL ?s 0) (DatumExtractPointer (Ptr [2, 2])) 2 = Inr 1"
    "memcmp (SORTASORT_GETVAL ?s 1) (DatumExtractPointer (Ptr [2, 2])) 2 = Inr (-1)"
    "memcmp (SORTASORT_GETVAL ?s 2) (DatumExtractPointer (Ptr [2, 2])) 2 = Inr 0"
    by code_simp+
  moreover have "i = 0 \<or> i = 1 \<or> i = 2" if "i < 3" for i :: nat using that by linarith
  ultimately have "\<forall>i<num_vals ?s. \<exists>d. memcmp (SORTASORT_GETVAL ?s i) (DatumExtractPointer (Ptr [2, 2])) 2 = Inr d"
    unfolding n by blast
  from sortasort_find_ends[OF len this] show ?thesis unfolding n by auto
qed

end
