(* ===== verification/FmFacts.thy ===== *)
theory FmFacts
  imports Fm SortasortFacts SketchSupportFacts
begin

text \<open>
  The Flajolet-Martin aggregate on values of a fixed length: while it is \<open>SMALL\<close> it holds the set of
  the values, and \<open>BIG\<close> it holds the bits of their hashes, so its state depends on the set of the
  values only.
\<close>

section \<open>Stores of distinct values\<close>

text \<open>
  The contract of a store of distinct values with a limited capacity, as the transition and the
  merge use it: an insertion adds the value to the contents, and the size is their number.
\<close>

locale value_store =
  fixes ok :: "'s \<Rightarrow> bool" and contents :: "'s \<Rightarrow> 'v set" and size_of :: "'s \<Rightarrow> nat"
    and ins :: "'d \<Rightarrow> 's \<Rightarrow> 's res" and val :: "'d \<Rightarrow> 'v" and admissible :: "'d \<Rightarrow> bool" and cap :: nat
  assumes size_card: "ok s \<Longrightarrow> finite (contents s) \<and> size_of s = card (contents s)"
    and ins_contents: "ok s \<Longrightarrow> admissible d \<Longrightarrow> size_of s < cap \<Longrightarrow>
          \<exists>s'. ins d s = Inr s' \<and> ok s' \<and> contents s' = insert (val d) (contents s)"
begin

lemma ins_all:
  assumes "ok s" "\<forall>d\<in>set ds. admissible d" "size_of s + length ds \<le> cap"
  shows "\<exists>s'. foldM ins ds s = Inr s' \<and> ok s' \<and> contents s' = contents s \<union> val ` set ds"
  using assms
proof (induction ds arbitrary: s)
  case (Cons d ds)
  obtain s1 where s1: "ins d s = Inr s1" "ok s1" "contents s1 = insert (val d) (contents s)"
    using ins_contents[of s d] Cons.prems by auto
  have "size_of s1 \<le> Suc (size_of s)"
    using size_card[OF s1(2)] size_card[OF Cons.prems(1)] s1(3) by (simp add: card_insert_le_m1 card_insert_if)
  then obtain s' where "foldM ins ds s1 = Inr s'" "ok s'" "contents s' = contents s1 \<union> val ` set ds"
    using Cons.IH[OF s1(2)] Cons.prems by auto
  then show ?case using s1 by auto
qed simp

end

section \<open>The small representation\<close>

text \<open>A transition value of that type in its small representation, with room for \<open>MINVALS\<close> values.\<close>

definition small_ok :: "server \<Rightarrow> nat \<Rightarrow> nat \<Rightarrow> fmtransval \<Rightarrow> bool" where
  "small_ok srv oid L t \<longleftrightarrow> fixed_type srv oid L \<and> fm_typOid t = oid \<and> fm_typLen t = int L \<and>
     fm_typByVal t = typByVal (typ_lookup srv oid) \<and>
     (case storage t of
        SMALL s \<Rightarrow> sorta_inv L s \<and> 0 < storage_sz s \<and> capacity s = MINVALS \<and> s_typByVal s = fm_typByVal t
      | BIG _ \<Rightarrow> False)"

definition small_values :: "nat \<Rightarrow> fmtransval \<Rightarrow> byte list set" where
  "small_values L t = (case storage t of SMALL s \<Rightarrow> set (sorta_values L s) | BIG _ \<Rightarrow> {})"

definition small_size :: "fmtransval \<Rightarrow> nat" where
  "small_size t = (case storage t of SMALL s \<Rightarrow> num_vals s | BIG _ \<Rightarrow> 0)"

lemma small_size_card:
  "small_ok srv oid L t \<Longrightarrow> finite (small_values L t) \<and> small_size t = card (small_values L t)"
  by (auto simp: small_ok_def small_values_def small_size_def sorta_inv_def distinct_card
      split: fm_storage.splits)

lemma grow_once:
  assumes "sorta_inv L s" "0 < storage_sz s" "datum_ok L d" "qsort_ok srv"
    and "datum_value L d \<notin> set (sorta_values L s)" "num_vals s < capacity s"
  shows "\<exists>s'. grow_and_insert 1 srv s d (int L) L = Inr s' \<and> sorta_inv L s' \<and>
           set (sorta_values L s') = insert (datum_value L d) (set (sorta_values L s)) \<and>
           0 < storage_sz s' \<and> capacity s' = capacity s \<and> s_typByVal s' = s_typByVal s"
proof -
  let ?s = "s\<lparr>storage_sz := storage_sz s * 2 + L\<rparr>"
  have same: "sorta_values L ?s = sorta_values L s" "num_vals ?s = num_vals s"
    by (simp_all add: sorta_values_def num_vals_def)
  have "sorta_inv L ?s" using assms(1) same by (simp add: sorta_inv_def)
  moreover have "storage_cur ?s + L < storage_sz ?s"
    using assms(1,2) by (simp add: sorta_inv_def)
  ultimately obtain s' where s': "sortasort_try_insert srv ?s d (int L) = Inr (1, s')" "sorta_inv L s'"
    "set (sorta_values L s') = insert (datum_value L d) (set (sorta_values L s))"
    "storage_sz s' = storage_sz ?s" "capacity s' = capacity ?s" "s_typByVal s' = s_typByVal ?s"
    using sortasort_insert_new[of L ?s d srv] assms(3-6) same by auto
  then show ?thesis
    using assms(2) by (intro exI[of _ s']) simp
qed

lemma small_insert:
  assumes ok: "small_ok srv oid L t" and "datum_ok L d" "qsort_ok srv" "small_size t < MINVALS"
  shows "\<exists>t'. fmsketch_sortasort_insert srv t d L = Inr t' \<and> small_ok srv oid L t' \<and>
           small_values L t' = insert (datum_value L d) (small_values L t)"
proof -
  obtain s where s: "storage t = SMALL s" "sorta_inv L s" "0 < storage_sz s" "capacity s = MINVALS"
    "s_typByVal s = fm_typByVal t"
    using ok by (auto simp: small_ok_def split: fm_storage.splits)
  have n: "num_vals s < capacity s" using assms(4) s by (simp add: small_size_def)
  have len: "fm_typLen t = int L" using ok by (simp add: small_ok_def)
  have result: ?thesis if "fmsketch_sortasort_insert srv t d L = Inr (t\<lparr>storage := SMALL s'\<rparr>)" "sorta_inv L s'"
    "set (sorta_values L s') = insert (datum_value L d) (set (sorta_values L s))" "0 < storage_sz s'"
    "capacity s' = capacity s" "s_typByVal s' = s_typByVal s" for s'
    using that ok s by (simp add: small_ok_def small_values_def)
  consider (old) "datum_value L d \<in> set (sorta_values L s)"
    | (new) "datum_value L d \<notin> set (sorta_values L s)" "storage_cur s + L < storage_sz s"
    | (grow) "datum_value L d \<notin> set (sorta_values L s)" "storage_sz s \<le> storage_cur s + L" by linarith
  then show ?thesis
  proof cases
    case old
    then have "fmsketch_sortasort_insert srv t d L = Inr (t\<lparr>storage := SMALL s\<rparr>)"
      using sortasort_insert_old[OF s(2) assms(2) old] n s(1) by (simp add: fmsketch_sortasort_insert_def)
    then show ?thesis by (rule result) (use s old in auto)
  next
    case new
    then obtain s' where s': "sortasort_try_insert srv s d (int L) = Inr (1, s')" "sorta_inv L s'"
      "set (sorta_values L s') = insert (datum_value L d) (set (sorta_values L s))"
      "storage_sz s' = storage_sz s" "capacity s' = capacity s" "s_typByVal s' = s_typByVal s"
      using sortasort_insert_new[OF s(2) assms(2,3)] n by auto
    then have "fmsketch_sortasort_insert srv t d L = Inr (t\<lparr>storage := SMALL s'\<rparr>)"
      using n s(1) len by (simp add: fmsketch_sortasort_insert_def)
    then show ?thesis by (rule result) (use s s' in simp_all)
  next
    case grow
    then obtain s' where s': "grow_and_insert 1 srv s d (int L) L = Inr s'" "sorta_inv L s'"
      "set (sorta_values L s') = insert (datum_value L d) (set (sorta_values L s))"
      "0 < storage_sz s'" "capacity s' = capacity s" "s_typByVal s' = s_typByVal s"
      using grow_once[OF s(2,3) assms(2,3) _ n] by auto
    then have "fmsketch_sortasort_insert srv t d L = Inr (t\<lparr>storage := SMALL s'\<rparr>)"
      using n s(1) len sortasort_insert_full[OF s(2) assms(2) grow, of srv]
      by (simp add: fmsketch_sortasort_insert_def del: grow_and_insert.simps)
    then show ?thesis by (rule result) (use s' in simp_all)
  qed
qed


section \<open>The bitmaps\<close>

text \<open>The bit a hash sets: a bitmap chosen by its first eight bytes, and its trailing zeros.\<close>

definition trailing_zeros :: "byte list \<Rightarrow> nat" where
  "trailing_zeros h = length (takeWhile Not (rev (sketch_bits h)))"

definition fm_pos :: "byte list \<Rightarrow> nat" where
  "fm_pos h = unat (word64_of_bytes h) mod NMAP * MD5_HASHLEN_BITS + trailing_zeros h"

definition hash_ok :: "byte list \<Rightarrow> bool" where
  "hash_ok h \<longleftrightarrow> length h = 16 \<and> True \<in> set (sketch_bits h)"

lemma length_takeWhile_less: "\<exists>x\<in>set xs. \<not> P x \<Longrightarrow> length (takeWhile P xs) < length xs"
  by (induction xs) auto

lemma trailing_zeros_less: "hash_ok h \<Longrightarrow> trailing_zeros h < 128"
  using length_takeWhile_less[of "rev (sketch_bits h)" Not]
  by (auto simp: hash_ok_def trailing_zeros_def)

lemma fm_pos_less: "hash_ok h \<Longrightarrow> fm_pos h < 32768"
  using trailing_zeros_less[of h] mod_less_divisor[of NMAP "unat (word64_of_bytes h)"]
  by (simp add: fm_pos_def NMAP_def MD5_HASHLEN_BITS_def MD5_HASHLEN_def)

lemma fmsketch_bitmaps_set:
  assumes "fixed_type srv oid L" "datum_ok L d" "hash_ok (value_hash srv (datum_value L d))" "length bm = 4096"
  shows "\<exists>bm'. fmsketch_bitmaps srv oid bm d = Inr bm' \<and> length bm' = 4096 \<and>
           sketch_bits bm' = (sketch_bits bm)[fm_pos (value_hash srv (datum_value L d)) := True]"
proof -
  define h where "h = value_hash srv (datum_value L d)"
  have h: "hash_ok h" "length h = 16" using assms(3) by (simp_all add: h_def hash_ok_def)
  note tz = trailing_zeros_less[OF h(1)]
  define ix where "ix = unat (word64_of_bytes h) mod NMAP"
  have ix: "ix < 256" by (simp add: ix_def NMAP_def)
  have bits: "MD5_HASHLEN_BITS = 128" "NMAP = 256"
    by (simp_all add: MD5_HASHLEN_BITS_def MD5_HASHLEN_def NMAP_def)
  have r: "rightmost_one h MD5_HASHLEN_BITS 0 = Inr (of_nat (trailing_zeros h))"
    using rightmost_one_loop_bits[of 16 h 0] h(2) by (simp add: rightmost_one_def trailing_zeros_def bits)
  have "fmsketch_bitmaps srv oid bm d = array_set_bit_in_place bm (int NMAP) (int MD5_HASHLEN_BITS) (int ix)
      ((int MD5_HASHLEN_BITS - 1) - uint (of_nat (trailing_zeros h) :: 32 word))"
    unfolding fmsketch_bitmaps_def md5_value_fixed[OF assms(1,2)] h_def[symmetric] rbind.simps Let_def ix_def[symmetric] r
    using h(2) by simp
  moreover have "uint (of_nat (trailing_zeros h) :: 32 word) = int (trailing_zeros h)"
    using tz by (simp add: unsigned_of_nat take_bit_nat_eq_self)
  moreover have "int MD5_HASHLEN_BITS - 1 - int (trailing_zeros h) = int (127 - trailing_zeros h)"
    using tz by (simp add: bits)
  moreover have "int NMAP = int 256" "int MD5_HASHLEN_BITS = int (8 * 16)" by (simp_all add: bits)
  ultimately have "fmsketch_bitmaps srv oid bm d =
      array_set_bit_in_place bm (int 256) (int (8 * 16)) (int ix) (int (127 - trailing_zeros h))"
    by metis
  moreover have "fm_pos h = ix * (8 * 16) + (8 * 16 - 1 - (127 - trailing_zeros h))"
    using tz by (simp add: fm_pos_def ix_def MD5_HASHLEN_BITS_def MD5_HASHLEN_def)
  moreover have "\<exists>bm'. array_set_bit_in_place bm (int 256) (int (8 * 16)) (int ix) (int (127 - trailing_zeros h)) = Inr bm' \<and>
      length bm' = length bm \<and>
      sketch_bits bm' = (sketch_bits bm)[ix * (8 * 16) + (8 * 16 - 1 - (127 - trailing_zeros h)) := True]"
    using ix assms(4) by (intro array_set_bit_bits) simp_all
  ultimately show ?thesis using assms(4) unfolding h_def[symmetric] by metis
qed

text \<open>The bits of bitmaps that hold the set \<open>P\<close> of positions.\<close>

definition bits_of :: "nat set \<Rightarrow> bool list" where
  "bits_of P = map (\<lambda>i. i \<in> P) [0..<32768]"

lemma bits_of_insert: "p < 32768 \<Longrightarrow> (bits_of P)[p := True] = bits_of (insert p P)"
  by (rule nth_equalityI) (auto simp: bits_of_def nth_list_update)

lemma sketch_bits_zero: "sketch_bits (replicate n 0) = replicate (8 * n) False"
proof (induction n)
  case (Suc n)
  have "byte_bits 0 = replicate 8 False" by code_simp
  with Suc show ?case by (simp add: replicate_add[symmetric])
qed simp

definition big_ok :: "server \<Rightarrow> nat \<Rightarrow> nat \<Rightarrow> fmtransval \<Rightarrow> byte list set \<Rightarrow> bool" where
  "big_ok srv oid L t V \<longleftrightarrow> fixed_type srv oid L \<and> fm_typOid t = oid \<and> fm_typLen t = int L \<and>
     fm_typByVal t = typByVal (typ_lookup srv oid) \<and>
     (\<exists>bm. storage t = BIG bm \<and> length bm = 4096 \<and> sketch_bits bm = bits_of (fm_pos ` value_hash srv ` V))"

lemma fm_new_big:
  "small_ok srv oid L t \<Longrightarrow> big_ok srv oid L (fm_new t) {}"
proof -
  have "bits_of {} = replicate 32768 False" by (simp add: bits_of_def map_replicate_const)
  then show "small_ok srv oid L t \<Longrightarrow> big_ok srv oid L (fm_new t) {}"
    using sketch_bits_zero[of 4096]
    by (auto simp: small_ok_def big_ok_def fm_new_def NMAP_def MD5_HASHLEN_BITS_def MD5_HASHLEN_def)
qed

lemma big_insert:
  assumes "big_ok srv oid L t V" "datum_ok L d" "hash_ok (value_hash srv (datum_value L d))"
  shows "\<exists>t'. fmsketch_trans_c srv t d = Inr t' \<and> big_ok srv oid L t' (insert (datum_value L d) V)"
proof -
  obtain bm where bm: "storage t = BIG bm" "length bm = 4096" "sketch_bits bm = bits_of (fm_pos ` value_hash srv ` V)"
    and t: "fixed_type srv oid L" "fm_typOid t = oid"
    using assms(1) by (auto simp: big_ok_def)
  obtain bm' where "fmsketch_bitmaps srv oid bm d = Inr bm'" "length bm' = 4096"
    "sketch_bits bm' = (sketch_bits bm)[fm_pos (value_hash srv (datum_value L d)) := True]"
    using fmsketch_bitmaps_set[OF t(1) assms(2,3) bm(2)] by blast
  then show ?thesis
    using assms(1) bm t bits_of_insert[OF fm_pos_less[OF assms(3)]]
    by (auto simp: fmsketch_trans_c_def big_ok_def)
qed

section \<open>Reading values back\<close>

lemma stored_datum_value:
  assumes "fixed_type srv oid L" "sorta_inv L s" "i < num_vals s" "byVal = typByVal (typ_lookup srv oid)"
  shows "\<exists>d. stored_datum s byVal i = Inr d \<and> datum_ok L d \<and> datum_value L d = sorta_values L s ! i"
  using extract_datum[OF assms(1), of "SORTASORT_GETVAL s i"] sorta_getval[OF assms(2,3)] assms(4)
  by (simp add: stored_datum_def)

lemma sketch_stored_big:
  assumes "big_ok srv oid L t V" "sorta_inv L s" "byVal = typByVal (typ_lookup srv oid)" "n \<le> num_vals s"
    and "\<forall>v\<in>set (sorta_values L s). hash_ok (value_hash srv v)"
  shows "\<exists>t'. sketch_stored srv s byVal n t = Inr t' \<and> big_ok srv oid L t' (V \<union> set (take n (sorta_values L s)))"
  using assms(4)
proof (induction n)
  case 0
  then show ?case using assms(1) by (simp add: sketch_stored_def)
next
  case (Suc n)
  then obtain u where u: "sketch_stored srv s byVal n t = Inr u"
    "big_ok srv oid L u (V \<union> set (take n (sorta_values L s)))" by auto
  have fixed: "fixed_type srv oid L" using assms(1) by (simp add: big_ok_def)
  obtain d where d: "stored_datum s byVal n = Inr d" "datum_ok L d" "datum_value L d = sorta_values L s ! n"
    using stored_datum_value[OF fixed assms(2) _ assms(3), of n] Suc.prems by auto
  have "hash_ok (value_hash srv (datum_value L d))" using assms(5) d(3) Suc.prems by simp
  from big_insert[OF u(2) d(2) this] obtain u' where "fmsketch_trans_c srv u d = Inr u'"
    "big_ok srv oid L u' (insert (datum_value L d) (V \<union> set (take n (sorta_values L s))))" by blast
  then show ?case
    using u(1) d Suc.prems by (simp add: sketch_stored_def foldM_append take_Suc_conv_app_nth)
qed


section \<open>Transition and merge\<close>

text \<open>
  A server that sorts, and a type of a fixed length: the small representation is a store of
  distinct values.
\<close>

locale fm_type =
  fixes srv :: server and oid :: nat and L :: nat
  assumes fixed: "fixed_type srv oid L" and sorts: "qsort_ok srv"

sublocale fm_type \<subseteq> small: value_store "small_ok srv oid L" "small_values L" small_size
    "\<lambda>d t. fmsketch_sortasort_insert srv t d L" "datum_value L" "datum_ok L" MINVALS
  by unfold_locales (use small_size_card small_insert sorts in auto)

text \<open>The state after values with the set \<open>V\<close> of bytes; \<open>fm_repr\<close> leaves the representation open.\<close>

definition fm_repr :: "server \<Rightarrow> nat \<Rightarrow> nat \<Rightarrow> fmtransval option \<Rightarrow> byte list set \<Rightarrow> bool" where
  "fm_repr srv oid L st V \<longleftrightarrow> finite V \<and>
     (case st of
        None \<Rightarrow> V = {}
      | Some t \<Rightarrow> small_ok srv oid L t \<and> small_values L t = V \<or> big_ok srv oid L t V)"

definition fm_exact :: "fmtransval option \<Rightarrow> byte list set \<Rightarrow> bool" where
  "fm_exact st V \<longleftrightarrow> card V < MINVALS \<longrightarrow>
     (case st of None \<Rightarrow> True | Some t \<Rightarrow> (case storage t of SMALL _ \<Rightarrow> True | BIG _ \<Rightarrow> False))"

lemma fmsketch_init_small:
  assumes "fixed_type srv oid L"
  shows "\<exists>t. fmsketch_init srv oid = Inr t \<and> small_ok srv oid L t \<and> small_values L t = {}"
proof -
  have "\<exists>s. sortasort_init MINVALS SORTASORT_INITIAL_STORAGE (int L) bv = Inr s \<and> storage_sz s = 98304 \<and>
      capacity s = MINVALS \<and> s_typLen s = int L \<and> s_typByVal s = bv \<and> storage_cur s = 0 \<and> dir s = []" for bv
    by (simp add: sortasort_init_def SORTASORT_INITIAL_STORAGE_def MINVALS_def sizeof_sortasort_def Let_def)
  then obtain s where "sortasort_init MINVALS SORTASORT_INITIAL_STORAGE (int L) (typByVal (typ_lookup srv oid)) = Inr s"
    "storage_sz s = 98304" "capacity s = MINVALS" "s_typLen s = int L" "s_typByVal s = typByVal (typ_lookup srv oid)"
    "storage_cur s = 0" "dir s = []" by blast
  then show ?thesis
    using assms
    by (simp add: fmsketch_init_def small_ok_def small_values_def sorta_inv_def sorta_values_def num_vals_def
        fixed_type_def Let_def)
qed

context fm_type
begin

lemma trans_big:
  assumes "big_ok srv oid L t V" "datum_ok L d" "hash_ok (value_hash srv (datum_value L d))"
  shows "\<exists>t'. fmsketch_trans srv (Some t) oid d = Inr (Some t') \<and> big_ok srv oid L t' (insert (datum_value L d) V)"
proof -
  obtain bm where "storage t = BIG bm" using assms(1) by (auto simp: big_ok_def)
  with big_insert[OF assms] show ?thesis by (auto simp: fmsketch_trans_def)
qed

lemma trans_small:
  assumes ok: "small_ok srv oid L t" and d: "datum_ok L d"
    and hash: "\<forall>v\<in>insert (datum_value L d) (small_values L t). hash_ok (value_hash srv v)"
  shows "\<exists>t'. fmsketch_trans srv (Some t) oid d = Inr (Some t') \<and>
           fm_repr srv oid L (Some t') (insert (datum_value L d) (small_values L t)) \<and>
           (small_size t < MINVALS \<longrightarrow> (case storage t' of SMALL _ \<Rightarrow> True | BIG _ \<Rightarrow> False))"
proof -
  obtain s where s: "storage t = SMALL s" "sorta_inv L s" "s_typByVal s = fm_typByVal t" "small_values L t = set (sorta_values L s)"
    using ok by (auto simp: small_ok_def small_values_def split: fm_storage.splits)
  have t: "fm_typLen t = int L" "0 < L" "fm_typByVal t = typByVal (typ_lookup srv oid)"
    using ok by (auto simp: small_ok_def fixed_type_def)
  have fin: "finite (small_values L t)" using small_size_card[OF ok] by simp
  show ?thesis
  proof (cases "small_size t < MINVALS")
    case True
    from small_insert[OF ok d sorts this] obtain t' where t': "fmsketch_sortasort_insert srv t d L = Inr t'"
      "small_ok srv oid L t'" "small_values L t' = insert (datum_value L d) (small_values L t)" by blast
    then have "fmsketch_trans srv (Some t) oid d = Inr (Some t')"
      using True s(1) t by (simp add: fmsketch_trans_def small_size_def ExtractDatumLen_def)
    then show ?thesis
      using t' fin by (auto simp: fm_repr_def small_ok_def split: fm_storage.splits)
  next
    case False
    have n: "num_vals s = MINVALS"
      using ok s(1) False by (auto simp: small_ok_def small_size_def sorta_inv_def)
    have "fixed_type srv oid L" by (rule fixed)
    obtain u where u: "sketch_stored srv s (s_typByVal s) MINVALS (fm_new t) = Inr u"
      "big_ok srv oid L u ({} \<union> set (take MINVALS (sorta_values L s)))"
      using sketch_stored_big[OF fm_new_big[OF ok] s(2), of "s_typByVal s" MINVALS] s t n hash by auto
    then have "big_ok srv oid L u (small_values L t)" using s(4) n by simp
    from big_insert[OF this d] hash obtain t' where "fmsketch_trans_c srv u d = Inr t'"
      "big_ok srv oid L t' (insert (datum_value L d) (small_values L t))" by auto
    then show ?thesis
      using u(1) s(1) n fin False by (auto simp: fmsketch_trans_def fm_repr_def)
  qed
qed

lemma trans_repr:
  assumes "fm_repr srv oid L st V" "datum_ok L d" "\<forall>v\<in>insert (datum_value L d) V. hash_ok (value_hash srv v)"
  shows "\<exists>t. fmsketch_trans srv st oid d = Inr (Some t) \<and> fm_repr srv oid L (Some t) (insert (datum_value L d) V) \<and>
           (fm_exact st V \<longrightarrow> fm_exact (Some t) (insert (datum_value L d) V))"
proof (cases st)
  case None
  obtain t where t: "fmsketch_init srv oid = Inr t" "small_ok srv oid L t" "small_values L t = {}"
    using fmsketch_init_small[OF fixed] by blast
  have "V = {}" using assms(1) None by (simp add: fm_repr_def)
  moreover have "fmsketch_trans srv None oid d = fmsketch_trans srv (Some t) oid d"
    using t(1) by (simp add: fmsketch_trans_def)
  moreover have "small_size t < MINVALS" using small_size_card[OF t(2)] t(3) by (simp add: MINVALS_def)
  ultimately show ?thesis
    using trans_small[OF t(2) assms(2)] t(3) assms(3) None by (fastforce simp: fm_exact_def)
next
  case (Some t)
  then consider (small) "small_ok srv oid L t" "small_values L t = V" | (big) "big_ok srv oid L t V"
    using assms(1) by (auto simp: fm_repr_def)
  then show ?thesis
  proof cases
    case small
    have "small_size t = card V" "finite V" using small_size_card[OF small(1)] small(2) by simp_all
    then have "card (insert (datum_value L d) V) < MINVALS \<longrightarrow> small_size t < MINVALS"
      using card_insert_le[of V "datum_value L d"] by auto
    then show ?thesis
      using trans_small[OF small(1) assms(2)] small(2) assms(3) Some by (fastforce simp: fm_exact_def)
  next
    case big
    from trans_big[OF big assms(2)] assms(3) obtain t' where t': "fmsketch_trans srv (Some t) oid d = Inr (Some t')"
      "big_ok srv oid L t' (insert (datum_value L d) V)" by auto
    have "finite V" using assms(1) by (simp add: fm_repr_def)
    then have "\<not> fm_exact st V \<or> MINVALS \<le> card (insert (datum_value L d) V)"
      using big Some card_insert_le[of V "datum_value L d"] by (auto simp: fm_exact_def big_ok_def)
    with t' \<open>finite V\<close> Some show ?thesis by (auto simp: fm_repr_def fm_exact_def)
  qed
qed

lemma trans_all:
  assumes "fm_repr srv oid L st V" "fm_exact st V" "\<forall>d\<in>set ds. datum_ok L d"
    and "\<forall>v\<in>V \<union> datum_value L ` set ds. hash_ok (value_hash srv v)"
  shows "\<exists>st'. foldM (\<lambda>d st. fmsketch_trans srv st oid d) ds st = Inr st' \<and>
           fm_repr srv oid L st' (V \<union> datum_value L ` set ds) \<and> fm_exact st' (V \<union> datum_value L ` set ds)"
  using assms
proof (induction ds arbitrary: st V)
  case (Cons d ds)
  let ?V = "insert (datum_value L d) V"
  obtain t where t: "fmsketch_trans srv st oid d = Inr (Some t)" "fm_repr srv oid L (Some t) ?V" "fm_exact (Some t) ?V"
    using trans_repr[OF Cons.prems(1), of d] Cons.prems by auto
  then show ?case using Cons.IH[OF t(2,3)] Cons.prems by simp
qed auto

lemma merge_small_store:
  assumes big: "small_ok srv oid L t" and s: "sorta_inv L s" and "small_size t + num_vals s \<le> MINVALS"
    and t1: "fm_typByVal t1 = typByVal (typ_lookup srv oid)" "fm_typLen t1 = int L"
  shows "\<exists>t'. merge_small srv t1 s t = Inr t' \<and> small_ok srv oid L t' \<and>
           small_values L t' = small_values L t \<union> set (sorta_values L s)"
proof -
  have "\<forall>i<num_vals s. \<exists>d. stored_datum s (fm_typByVal t1) i = Inr d \<and> datum_ok L d \<and> datum_value L d = sorta_values L s ! i"
    using stored_datum_value[OF fixed s _ t1(1)] by blast
  then obtain f where f: "\<And>i. i < num_vals s \<Longrightarrow> stored_datum s (fm_typByVal t1) i = Inr (f i) \<and> datum_ok L (f i) \<and>
      datum_value L (f i) = sorta_values L s ! i" by metis
  let ?ds = "map f [0..<num_vals s]"
  have "0 < L" using fixed by (simp add: fixed_type_def)
  then have "merge_small srv t1 s t = foldM (\<lambda>i t. fmsketch_sortasort_insert srv t (f i) L) [0..<num_vals s] t"
    unfolding merge_small_def using f t1(2) by (intro foldM_cong) (simp add: ExtractDatumLen_def)
  also have "\<dots> = foldM (\<lambda>d t. fmsketch_sortasort_insert srv t d L) ?ds t"
    by (simp add: foldM_map)
  finally have "merge_small srv t1 s t = foldM (\<lambda>d t. fmsketch_sortasort_insert srv t d L) ?ds t" .
  moreover have "datum_value L ` set ?ds = set (sorta_values L s)"
    using f by (force simp: set_conv_nth)
  ultimately show ?thesis
    using small.ins_all[OF big, of ?ds] assms(3) f by auto
qed

lemma sketch_both:
  assumes "big_ok srv oid L t U" "fm_repr srv oid L (Some t1) V" "fm_repr srv oid L (Some t2) W"
    and "fm_typByVal tb = typByVal (typ_lookup srv oid)"
    and "\<forall>v\<in>V \<union> W. hash_ok (value_hash srv v)"
    and "\<And>b. storage t1 = BIG b \<Longrightarrow> V \<subseteq> U" "\<And>b. storage t2 = BIG b \<Longrightarrow> W \<subseteq> U"
  shows "\<exists>t'. rbind (case storage t1 of SMALL s1 \<Rightarrow> sketch_stored srv s1 (fm_typByVal tb) (num_vals s1) t | BIG _ \<Rightarrow> Inr t)
             (\<lambda>t. rbind (case storage t2 of SMALL s2 \<Rightarrow> sketch_stored srv s2 (fm_typByVal tb) (num_vals s2) t | BIG _ \<Rightarrow> Inr t)
                (\<lambda>t. Inr (Some t))) = Inr (Some t') \<and> big_ok srv oid L t' (U \<union> V \<union> W)"
proof -
  have add: "\<exists>u'. (case storage x of SMALL s \<Rightarrow> sketch_stored srv s (fm_typByVal tb) (num_vals s) u | BIG _ \<Rightarrow> Inr u) = Inr u' \<and>
      big_ok srv oid L u' (Y \<union> X)"
    if "big_ok srv oid L u Y" "fm_repr srv oid L (Some x) X" "\<forall>v\<in>X. hash_ok (value_hash srv v)" "\<And>b. storage x = BIG b \<Longrightarrow> X \<subseteq> Y"
    for u x X Y
  proof (cases "storage x")
    case (SMALL s)
    then have "sorta_inv L s" "X = set (sorta_values L s)"
      using that(2) by (auto simp: fm_repr_def small_ok_def small_values_def big_ok_def)
    then show ?thesis
      using sketch_stored_big[OF that(1), of s "fm_typByVal tb" "num_vals s"] that(3) assms(4) SMALL by simp
  next
    case (BIG b)
    then have "Y \<union> X = Y" using that(4) by auto
    with that(1) BIG show ?thesis by simp
  qed
  obtain u where u: "(case storage t1 of SMALL s1 \<Rightarrow> sketch_stored srv s1 (fm_typByVal tb) (num_vals s1) t | BIG _ \<Rightarrow> Inr t) = Inr u"
    "big_ok srv oid L u (U \<union> V)"
    using add[OF assms(1,2)] assms(5,6) by auto
  obtain u' where "(case storage t2 of SMALL s2 \<Rightarrow> sketch_stored srv s2 (fm_typByVal tb) (num_vals s2) u | BIG _ \<Rightarrow> Inr u) = Inr u'"
    "big_ok srv oid L u' (U \<union> V \<union> W)"
    using add[OF u(2) assms(3)] assms(5,7) by auto
  with u(1) show ?thesis by auto
qed

lemma repr_storage:
  assumes "fm_repr srv oid L (Some t) V"
  shows "storage t = SMALL s \<Longrightarrow> small_ok srv oid L t \<and> V = set (sorta_values L s) \<and> card V = num_vals s \<and>
           sorta_inv L s \<and> num_vals s \<le> MINVALS \<and> capacity s = MINVALS"
    and "storage t = BIG b \<Longrightarrow> big_ok srv oid L t V"
    and "fm_typByVal t = typByVal (typ_lookup srv oid)" "fm_typLen t = int L"
proof -
  show "storage t = BIG b \<Longrightarrow> big_ok srv oid L t V" "fm_typByVal t = typByVal (typ_lookup srv oid)" "fm_typLen t = int L"
    using assms by (auto simp: fm_repr_def small_ok_def big_ok_def)
  assume "storage t = SMALL s"
  with assms show "small_ok srv oid L t \<and> V = set (sorta_values L s) \<and> card V = num_vals s \<and>
      sorta_inv L s \<and> num_vals s \<le> MINVALS \<and> capacity s = MINVALS"
    using small_size_card[of srv oid L t]
    by (auto simp: fm_repr_def small_ok_def small_values_def small_size_def big_ok_def sorta_inv_def)
qed

lemma merge_small_small:
  assumes "fm_repr srv oid L (Some t1) V" "fm_repr srv oid L (Some t2) W" "storage t1 = SMALL s1" "storage t2 = SMALL s2"
    and "\<forall>v\<in>V \<union> W. hash_ok (value_hash srv v)"
  shows "\<exists>t. fmsketch_merge srv (Some t1) (Some t2) = Inr (Some t) \<and> fm_repr srv oid L (Some t) (V \<union> W) \<and>
           (card V + card W \<le> MINVALS \<longrightarrow> small_ok srv oid L t)"
proof -
  note r1 = repr_storage[OF assms(1)] note r2 = repr_storage[OF assms(2)]
  have fin: "finite V" "finite W" using assms(1,2) by (auto simp: fm_repr_def)
  show ?thesis
  proof (cases "num_vals s1 + num_vals s2 \<le> MINVALS")
    case True
    have "\<exists>t. merge_small srv t1 s2 t1 = Inr t \<and> small_ok srv oid L t \<and> small_values L t = V \<union> W"
      using merge_small_store[of t1 s2 t1] r1(1,3,4) r2(1) assms(3,4) True by (auto simp: small_size_def small_values_def)
    moreover have "\<exists>t. merge_small srv t1 s1 t2 = Inr t \<and> small_ok srv oid L t \<and> small_values L t = V \<union> W"
      using merge_small_store[of t2 s1 t1] r1(1,3,4) r2(1) assms(3,4) True
      by (auto simp: small_size_def small_values_def)
    ultimately show ?thesis
      using assms(3,4) r1(1) r2(1) True fin by (auto simp: fmsketch_merge_def fm_repr_def Let_def)
  next
    case False
    then have "fmsketch_merge srv (Some t1) (Some t2) =
        rbind (case storage t1 of SMALL s1 \<Rightarrow> sketch_stored srv s1 (fm_typByVal t1) (num_vals s1) (fm_new t1) | BIG _ \<Rightarrow> Inr (fm_new t1))
          (\<lambda>t. rbind (case storage t2 of SMALL s2 \<Rightarrow> sketch_stored srv s2 (fm_typByVal t1) (num_vals s2) t | BIG _ \<Rightarrow> Inr t)
             (\<lambda>t. Inr (Some t)))"
      using assms(3,4) r1(1) r2(1) by (simp add: fmsketch_merge_def Let_def add.commute)
    moreover have "big_ok srv oid L (fm_new t1) {}" using fm_new_big r1(1) assms(3) by blast
    ultimately show ?thesis
      using sketch_both[OF _ assms(1,2) r1(3) assms(5), of "fm_new t1" "{}"] assms(3,4) fin r1(1) r2(1) False
      by (auto simp: fm_repr_def)
  qed
qed

lemma merge_mixed:
  assumes "fm_repr srv oid L (Some t1) V" "fm_repr srv oid L (Some t2) W"
    and "storage t1 = BIG b \<and> storage t2 = SMALL s \<or> storage t1 = SMALL s \<and> storage t2 = BIG b"
    and "\<forall>v\<in>V \<union> W. hash_ok (value_hash srv v)"
  shows "\<exists>t. fmsketch_merge srv (Some t1) (Some t2) = Inr (Some t) \<and> fm_repr srv oid L (Some t) (V \<union> W)"
proof -
  have fin: "finite (V \<union> W)" using assms(1,2) by (auto simp: fm_repr_def)
  let ?bigs = "\<lambda>t. rbind (case storage t1 of SMALL s1 \<Rightarrow> sketch_stored srv s1 (fm_typByVal t1) (num_vals s1) t | BIG _ \<Rightarrow> Inr t)
          (\<lambda>t. rbind (case storage t2 of SMALL s2 \<Rightarrow> sketch_stored srv s2 (fm_typByVal t1) (num_vals s2) t | BIG _ \<Rightarrow> Inr t)
             (\<lambda>t. Inr (Some t)))"
  from assms(3) show ?thesis
  proof (elim disjE conjE)
    assume st: "storage t1 = BIG b" "storage t2 = SMALL s"
    then have "fmsketch_merge srv (Some t1) (Some t2) = ?bigs t1" by (simp add: fmsketch_merge_def)
    then show ?thesis
      using sketch_both[OF repr_storage(2)[OF assms(1) st(1)] assms(1,2) repr_storage(3)[OF assms(1)] assms(4)] st fin
      by (auto simp: fm_repr_def)
  next
    assume st: "storage t1 = SMALL s" "storage t2 = BIG b"
    then have "fmsketch_merge srv (Some t1) (Some t2) = ?bigs t2" by (simp add: fmsketch_merge_def)
    moreover have "W \<union> V \<union> W = V \<union> W" by blast
    ultimately show ?thesis
      using sketch_both[OF repr_storage(2)[OF assms(2) st(2)] assms(1,2) repr_storage(3)[OF assms(1)] assms(4)] st fin
      by (auto simp: fm_repr_def)
  qed
qed

end

section \<open>The example server\<close>

lemma fixed_example: "fixed_type example_server 0 2"
  by (simp add: fixed_type_def example_server_def)

interpretation example: fm_type example_server 0 2
  by unfold_locales (rule fixed_example, rule qsort_example)

lemma hash_example: "hash_ok (value_hash example_server v)"
proof -
  have "hash_ok (hex_to_bytes (take 32 (replicate 32 49)))" by code_simp
  then show ?thesis by (simp add: value_hash_def example_server_def)
qed


lemma small_count:
  assumes "small_ok srv oid L t"
  shows "fmsketch_count_distinct pow (Some t) = Inr (int (card (small_values L t)))"
  using assms small_size_card[OF assms]
  by (auto simp: fmsketch_count_distinct_def small_size_def small_ok_def split: fm_storage.splits)

lemma example_values:
  "datum_value 2 ` set [Ptr [1, 2], Ptr [3, 4]] = {[1, 2], [3, 4]}"
  "datum_value 2 ` set [Ptr [3, 4], Ptr [5, 6]] = {[3, 4], [5, 6]}"
  "datum_value 2 ` set [Ptr [1, 2], Ptr [3, 4], Ptr [1, 2, 9]] = {[1, 2], [3, 4]}"
  by (auto simp: datum_value_def DatumExtractPointer_def numeral_2_eq_2)

section \<open>Properties\<close>

text \<open>
  C10: On values of a fixed length, in any order and with any repetitions, the aggregate succeeds and
  its state is determined by the set \<open>V\<close> of the values: the sortasort that holds \<open>V\<close>, or the bitmaps
  in which exactly the bits of the hashes of \<open>V\<close> are set, the values seen before the switch included.
  With fewer than \<open>MINVALS\<close> distinct values the count is exact.
\<close>

theorem fm_distinct:
  assumes "fixed_type srv oid L" "qsort_ok srv" "\<forall>d\<in>set ds. datum_ok L d"
    and "\<forall>d\<in>set ds. hash_ok (value_hash srv (datum_value L d))"
  shows "\<exists>st. foldM (\<lambda>d st. fmsketch_trans srv st oid d) ds None = Inr st \<and>
           fm_repr srv oid L st (datum_value L ` set ds) \<and>
           (card (datum_value L ` set ds) < MINVALS \<longrightarrow>
              fmsketch_count_distinct pow st = Inr (int (card (datum_value L ` set ds))))"
proof -
  let ?V = "datum_value L ` set ds"
  have "fm_repr srv oid L None {}" "fm_exact None {}" by (simp_all add: fm_repr_def fm_exact_def)
  from fm_type.trans_all[OF fm_type.intro[OF assms(1,2)] this assms(3)] assms(4) obtain st where
    st: "foldM (\<lambda>d st. fmsketch_trans srv st oid d) ds None = Inr st" "fm_repr srv oid L st ?V" "fm_exact st ?V"
    by auto
  have "fmsketch_count_distinct pow st = Inr (int (card ?V))" if "card ?V < MINVALS"
  proof (cases st)
    case None
    with st(2) show ?thesis by (simp add: fm_repr_def fmsketch_count_distinct_def)
  next
    case (Some t)
    with st(2,3) that have "small_ok srv oid L t" "small_values L t = ?V"
      by (auto simp: fm_repr_def fm_exact_def big_ok_def)
    with Some small_count show ?thesis by metis
  qed
  with st show ?thesis by blast
qed

theorem fm_distinct_witness:
  "\<exists>st. foldM (\<lambda>d st. fmsketch_trans example_server st 0 d) [Ptr [1, 2], Ptr [3, 4], Ptr [1, 2, 9]] None = Inr st \<and>
     fmsketch_count_distinct (\<lambda>x y. x) st = Inr 2"
  using fm_distinct[OF fixed_example qsort_example, of "[Ptr [1, 2], Ptr [3, 4], Ptr [1, 2, 9]]" "\<lambda>x y. x",
      unfolded example_values]
  by (auto simp: hash_example datum_ok_def DatumExtractPointer_def MINVALS_def)

text \<open>
  C11: Unless both are in the big representation, merging two states for the values \<open>V\<close> and \<open>W\<close> gives
  a state for their union; two small states that fit into one sortasort give the exact count.
\<close>

theorem fm_merge_union:
  assumes "fixed_type srv oid L" "qsort_ok srv" "fm_repr srv oid L a V" "fm_repr srv oid L b W"
    and "\<forall>v\<in>V \<union> W. hash_ok (value_hash srv v)"
    and "\<not> (\<exists>s t bs cs. a = Some s \<and> b = Some t \<and> storage s = BIG bs \<and> storage t = BIG cs)"
  shows "\<exists>st. fmsketch_merge srv a b = Inr st \<and> fm_repr srv oid L st (V \<union> W) \<and>
           (fm_exact a V \<and> fm_exact b W \<and> card V + card W < MINVALS \<longrightarrow>
              fmsketch_count_distinct pow st = Inr (int (card (V \<union> W))))"
proof -
  note ty = fm_type.intro[OF assms(1,2)]
  have count: "fmsketch_count_distinct pow st = Inr (int (card X))"
    if "fm_repr srv oid L st X" "\<And>t. st = Some t \<Longrightarrow> small_ok srv oid L t" for st X
  proof (cases st)
    case None
    with that(1) show ?thesis by (simp add: fm_repr_def fmsketch_count_distinct_def)
  next
    case (Some t)
    with that have "small_ok srv oid L t" "small_values L t = X"
      by (auto simp: fm_repr_def big_ok_def small_ok_def split: fm_storage.splits)
    with Some small_count show ?thesis by metis
  qed
  have exact: "small_ok srv oid L t" if "fm_repr srv oid L (Some t) X" "fm_exact (Some t) X" "card X < MINVALS" for t X
    using that by (auto simp: fm_repr_def fm_exact_def big_ok_def)
  show ?thesis
  proof (cases a)
    case None
    then have "V = {}" using assms(3) by (simp add: fm_repr_def)
    with None assms(4) count[of b W] exact show ?thesis by (cases b) (auto simp: fmsketch_merge_def)
  next
    case (Some t1)
    show ?thesis
    proof (cases b)
      case None
      then have "W = {}" using assms(4) by (simp add: fm_repr_def)
      with None Some assms(3) count[of a V] exact show ?thesis by (auto simp: fmsketch_merge_def)
    next
      case b: (Some t2)
      have r: "fm_repr srv oid L (Some t1) V" "fm_repr srv oid L (Some t2) W" using assms(3,4) Some b by simp_all
      show ?thesis
      proof (cases "storage t1")
        case (SMALL s1)
        show ?thesis
        proof (cases "storage t2")
          case s2: (SMALL s2)
          from fm_type.merge_small_small[OF ty r SMALL s2 assms(5)] obtain t where
            t: "fmsketch_merge srv (Some t1) (Some t2) = Inr (Some t)" "fm_repr srv oid L (Some t) (V \<union> W)"
            "card V + card W \<le> MINVALS \<longrightarrow> small_ok srv oid L t" by blast
          then show ?thesis using Some b count[OF t(2)] by auto
        next
          case (BIG c)
          from fm_type.merge_mixed[OF ty r _ assms(5), of c s1] SMALL BIG obtain t where
            t: "fmsketch_merge srv (Some t1) (Some t2) = Inr (Some t)" "fm_repr srv oid L (Some t) (V \<union> W)" by blast
          then show ?thesis using Some b BIG by (auto simp: fm_exact_def)
        qed
      next
        case (BIG c)
        then obtain s2 where s2: "storage t2 = SMALL s2" using assms(6) Some b by (cases "storage t2") auto
        from fm_type.merge_mixed[OF ty r _ assms(5), of c s2] s2 BIG obtain t where
          t: "fmsketch_merge srv (Some t1) (Some t2) = Inr (Some t)" "fm_repr srv oid L (Some t) (V \<union> W)" by blast
        then show ?thesis using Some b BIG by (auto simp: fm_exact_def)
      qed
    qed
  qed
qed

theorem fm_merge_union_witness:
  "\<exists>a b st. foldM (\<lambda>d st. fmsketch_trans example_server st 0 d) [Ptr [1, 2], Ptr [3, 4]] None = Inr a \<and>
     foldM (\<lambda>d st. fmsketch_trans example_server st 0 d) [Ptr [3, 4], Ptr [5, 6]] None = Inr b \<and>
     fmsketch_merge example_server a b = Inr st \<and> fmsketch_count_distinct (\<lambda>x y. x) st = Inr 3"
proof -
  have empty: "fm_repr example_server 0 2 None {}" "fm_exact None {}" by (simp_all add: fm_repr_def fm_exact_def)
  obtain a where a: "foldM (\<lambda>d st. fmsketch_trans example_server st 0 d) [Ptr [1, 2], Ptr [3, 4]] None = Inr a"
    "fm_repr example_server 0 2 a {[1, 2], [3, 4]}" "fm_exact a {[1, 2], [3, 4]}"
    using example.trans_all[OF empty, of "[Ptr [1, 2], Ptr [3, 4]]", unfolded example_values]
    by (auto simp: hash_example datum_ok_def DatumExtractPointer_def)
  obtain b where b: "foldM (\<lambda>d st. fmsketch_trans example_server st 0 d) [Ptr [3, 4], Ptr [5, 6]] None = Inr b"
    "fm_repr example_server 0 2 b {[3, 4], [5, 6]}" "fm_exact b {[3, 4], [5, 6]}"
    using example.trans_all[OF empty, of "[Ptr [3, 4], Ptr [5, 6]]", unfolded example_values]
    by (auto simp: hash_example datum_ok_def DatumExtractPointer_def)
  have "\<not> (\<exists>s t bs cs. a = Some s \<and> b = Some t \<and> storage s = BIG bs \<and> storage t = BIG cs)"
    using a(3) by (auto simp: fm_exact_def MINVALS_def)
  moreover have "{[1, 2], [3, 4]} \<union> {[3, 4], [5, 6]} = {[1, 2], [3, 4], [5, 6 :: byte]}" by auto
  ultimately show ?thesis
    using fm_merge_union[OF fixed_example qsort_example a(2) b(2), of "\<lambda>x y. x"] a b
    by (auto simp: hash_example MINVALS_def simp del: Un_insert_left Un_insert_right)
qed

text \<open>
  Merging two states in the big representation loses all values: \<open>big_or\<close> writes to a local
  copy of its parameter, and the result holds no bit of either.
\<close>

theorem fm_merge_big_loses:
  assumes "big_ok srv oid L s V" "big_ok srv oid L t W"
  shows "\<exists>u. fmsketch_merge srv (Some s) (Some t) = Inr (Some u) \<and> big_ok srv oid L u {}"
proof -
  obtain bs cs where "storage s = BIG bs" "length bs = 4096" "storage t = BIG cs" "length cs = 4096"
    using assms by (auto simp: big_ok_def)
  moreover have "bits_of {} = replicate 32768 False" by (simp add: bits_of_def map_replicate_const)
  ultimately show ?thesis
    using assms(1) sketch_bits_zero[of 4096]
    by (auto simp: fmsketch_merge_def fm_new_def big_or_def big_ok_def Let_def NMAP_def MD5_HASHLEN_BITS_def
        MD5_HASHLEN_def)
qed

theorem fm_merge_big_loses_witness:
  "\<exists>s u V. big_ok example_server 0 2 s V \<and> V \<noteq> {} \<and> fmsketch_merge example_server (Some s) (Some s) = Inr (Some u) \<and>
     big_ok example_server 0 2 u {}"
proof -
  obtain t where t: "small_ok example_server 0 2 t" using fmsketch_init_small[OF fixed_example] by blast
  have "datum_ok 2 (Ptr [1, 2])" by (simp add: datum_ok_def DatumExtractPointer_def)
  from big_insert[OF fm_new_big[OF t] this hash_example] obtain s where
    "big_ok example_server 0 2 s {datum_value 2 (Ptr [1, 2])}" by blast
  with fm_merge_big_loses[of example_server 0 2 s _ s] show ?thesis by blast
qed

end
