(* ===== verification/Mfv.thy ===== *)
theory Mfv
  imports CountMin
begin

text \<open>
  The sketch of the most frequent values, \<open>methods/sketch/src/pg_gp/mfvsketch.c\<close>: one CountMin sketch
  and an array of at most \<open>max_mfvs\<close> pairs of an offset and a counter.  The values lie behind the
  array, in the same blob; \<open>mfv_data\<close> are the bytes from the end of the array to the end of the blob,
  and an offset counts from the beginning of the transition value.  A blob that is not initialised
  is \<open>None\<close>.
\<close>

section \<open>Data\<close>

record offsetcnt =
  offset :: nat
  cnt :: int64

record mfvtransval =
  max_mfvs :: nat
  next_mfv :: nat
  next_offset :: nat
  mfv_typOid :: nat
  mfv_typLen :: int
  mfv_typByVal :: bool
  mfv_outFuncOid :: nat
  sketch :: countmin
  mfvs :: "offsetcnt list"
  mfv_data :: "byte list"

text \<open>\<open>MFV_TRANSVAL_SZ(i) - VARHDRSZ\<close> on a 64-bit machine: 32 bytes, the sketch, and 16 bytes per entry.\<close>

definition MFV_TRANSVAL_SZ :: "nat \<Rightarrow> nat" where
  "MFV_TRANSVAL_SZ i = 32 + 8 * DEPTH * NUMCOUNTERS + 16 * i"

text \<open>\<open>VARSIZE(blob) - VARHDRSZ\<close>.\<close>

definition blob_size :: "mfvtransval \<Rightarrow> nat" where
  "blob_size t = MFV_TRANSVAL_SZ (max_mfvs t) + length (mfv_data t)"

text \<open>
  \<open>mfv_init_transval\<close>; \<open>initial_size\<close> is an \<open>int\<close>, and for a fixed length it is multiplied by the
  length twice.
\<close>

definition mfv_init_transval :: "server \<Rightarrow> nat \<Rightarrow> nat \<Rightarrow> mfvtransval res" where
  "mfv_init_transval srv maxn oid =
     (let len = typLen (typ_lookup srv oid);
          initial_size = (if len > 0 then len * (int maxn * len) else int maxn * 16)
      in rbind (guard_mem (initial_size < 2 ^ 31)) (\<lambda>_.
         rbind (check (typ_output srv oid \<noteq> 0) ''no outFunc for type'') (\<lambda>_.
           Inr \<lparr>max_mfvs = maxn, next_mfv = 0, next_offset = MFV_TRANSVAL_SZ maxn,
                mfv_typOid = oid, mfv_typLen = len, mfv_typByVal = typByVal (typ_lookup srv oid),
                mfv_outFuncOid = typ_output srv oid, sketch = empty_countmin,
                mfvs = replicate maxn \<lparr>offset = 0, cnt = 0\<rparr>, mfv_data = replicate (nat initial_size) 0\<rparr>)))"

section \<open>Reading and writing a value\<close>

text \<open>
  \<open>mfv_transval_getval\<close>: the bytes from the \<open>i\<close>-th value on.  The code reads the datum before its
  checks, which then see the same value.
\<close>

definition mfv_transval_getval :: "server \<Rightarrow> mfvtransval \<Rightarrow> nat \<Rightarrow> byte list res" where
  "mfv_transval_getval srv t i =
     rbind (nth_res (mfvs t) (int i)) (\<lambda>e.
     rbind (check (\<not> i > next_mfv t) ''attempt to get frequent value at illegal index'') (\<lambda>_.
     rbind (check (\<not> (offset e > blob_size t \<or> offset e < MFV_TRANSVAL_SZ (max_mfvs t)))
              ''illegal offset in mfv sketch'') (\<lambda>_.
     let retval = drop (offset e - MFV_TRANSVAL_SZ (max_mfvs t)) (mfv_data t) in
     rbind (PointerExtractDatum retval (mfv_typByVal t)) (\<lambda>dat.
     rbind (ExtractDatumLen srv dat (mfv_typLen t)) (\<lambda>len.
     rbind (check (\<not> offset e + len > blob_size t) ''value overruns size of mfv sketch'') (\<lambda>_.
       Inr retval))))))"

text \<open>The datum of the \<open>i\<close>-th value.\<close>

definition mfv_datum :: "server \<Rightarrow> mfvtransval \<Rightarrow> nat \<Rightarrow> datum res" where
  "mfv_datum srv t i =
     rbind (mfv_transval_getval srv t i) (\<lambda>p. PointerExtractDatum p (mfv_typByVal t))"

definition mfv_copy_datum :: "server \<Rightarrow> mfvtransval \<Rightarrow> nat \<Rightarrow> datum \<Rightarrow> mfvtransval res" where
  "mfv_copy_datum srv t index dat =
     rbind (ExtractDatumLen srv dat (mfv_typLen t)) (\<lambda>datumLen.
     rbind (mfv_transval_getval srv t index) (\<lambda>curval.
     rbind (guard_mem (datumLen \<le> length curval \<and> datumLen \<le> length (DatumExtractPointer dat))) (\<lambda>_.
       let at = length (mfv_data t) - length curval in
       Inr (t\<lparr>mfv_data := take at (mfv_data t) @ take datumLen (DatumExtractPointer dat) @
                drop (at + datumLen) (mfv_data t)\<rparr>))))"

definition mfv_transval_insert_at :: "server \<Rightarrow> mfvtransval \<Rightarrow> datum \<Rightarrow> nat \<Rightarrow> mfvtransval res" where
  "mfv_transval_insert_at srv t dat i =
     rbind (ExtractDatumLen srv dat (mfv_typLen t)) (\<lambda>datumLen.
     rbind (check (\<not> i > next_mfv t) ''attempt to insert frequent value at illegal index'') (\<lambda>_.
     rbind (if blob_size t - next_offset t < datumLen
            then rbind (nth_res (mfvs t) 0) (\<lambda>e.
              let curspace = blob_size t - offset e
              in Inr (t\<lparr>mfv_data := mfv_data t @ replicate (curspace + datumLen) 0\<rparr>))
            else Inr t) (\<lambda>t.
     rbind (nth_res (mfvs t) (int i)) (\<lambda>e.
     rbind (mfv_copy_datum srv (t\<lparr>mfvs := (mfvs t)[i := e\<lparr>offset := next_offset t\<rparr>]\<rparr>) i dat) (\<lambda>t.
       Inr (t\<lparr>next_offset := next_offset t + datumLen\<rparr>))))))"

definition mfv_transval_append :: "server \<Rightarrow> mfvtransval \<Rightarrow> datum \<Rightarrow> mfvtransval res" where
  "mfv_transval_append srv t dat =
     rbind (check (next_mfv t \<noteq> max_mfvs t) ''attempt to append to a full mfv sketch'') (\<lambda>_.
     rbind (mfv_transval_insert_at srv t dat (next_mfv t)) (\<lambda>t.
       Inr (t\<lparr>next_mfv := next_mfv t + 1\<rparr>)))"

definition mfv_transval_replace :: "server \<Rightarrow> mfvtransval \<Rightarrow> datum \<Rightarrow> nat \<Rightarrow> mfvtransval res" where
  "mfv_transval_replace srv t dat i =
     rbind (ExtractDatumLen srv dat (mfv_typLen t)) (\<lambda>datumLen.
     rbind (mfv_datum srv t i) (\<lambda>oldDat.
     rbind (ExtractDatumLen srv oldDat (mfv_typLen t)) (\<lambda>oldLen.
       if datumLen \<le> oldLen then mfv_copy_datum srv t i dat
       else mfv_transval_insert_at srv t dat i)))"

text \<open>\<open>mfv_find\<close> over the positions; the result is a position or -1.\<close>

fun find_value :: "server \<Rightarrow> mfvtransval \<Rightarrow> datum \<Rightarrow> nat list \<Rightarrow> int res" where
  "find_value srv t val [] = Inr (-1)"
| "find_value srv t val (i # is) =
     rbind (mfv_transval_getval srv t i) (\<lambda>datp.
     rbind (PointerExtractDatum datp (mfv_typByVal t)) (\<lambda>iDat.
     rbind (ExtractDatumLen srv iDat (mfv_typLen t)) (\<lambda>len.
     rbind (ExtractDatumLen srv val (mfv_typLen t)) (\<lambda>vallen.
       if len = vallen
       then rbind (memcmp datp (DatumExtractPointer val) len) (\<lambda>c.
              if c = 0 then Inr (int i) else find_value srv t val is)
       else find_value srv t val is))))"

definition mfv_find :: "server \<Rightarrow> mfvtransval \<Rightarrow> datum \<Rightarrow> int res" where
  "mfv_find srv t val = find_value srv t val [0..<next_mfv t]"

section \<open>Transition\<close>

text \<open>\<open>transval->mfvs[i].cnt = c\<close>.\<close>

definition set_cnt :: "nat \<Rightarrow> int64 \<Rightarrow> mfvtransval \<Rightarrow> mfvtransval res" where
  "set_cnt i c t = rbind (nth_res (mfvs t) (int i)) (\<lambda>e. Inr (t\<lparr>mfvs := (mfvs t)[i := e\<lparr>cnt := c\<rparr>]\<rparr>))"

text \<open>The loop that looks for a free entry, or for one with a smaller counter.\<close>

fun place_value :: "server \<Rightarrow> datum \<Rightarrow> int64 \<Rightarrow> mfvtransval \<Rightarrow> nat list \<Rightarrow> mfvtransval res" where
  "place_value srv dat tmpcnt t [] = Inr t"
| "place_value srv dat tmpcnt t (i # is) =
     (if i = next_mfv t then rbind (mfv_transval_append srv t dat) (set_cnt i tmpcnt)
      else rbind (nth_res (mfvs t) (int i)) (\<lambda>e.
        if cnt e < tmpcnt then rbind (mfv_transval_replace srv t dat i) (set_cnt i tmpcnt)
        else place_value srv dat tmpcnt t is))"

text \<open>\<open>__mfvsketch_trans\<close>; \<open>None\<close> is SQL NULL, and \<open>PG_GETARG_INT32\<close> reads 0 for it.\<close>

definition mfvsketch_trans :: "server \<Rightarrow> mfvtransval option \<Rightarrow> nat \<Rightarrow> datum option \<Rightarrow> nat option \<Rightarrow> mfvtransval option res" where
  "mfvsketch_trans srv transblob oid newdatum nbins =
     rbind (case transblob of
              None \<Rightarrow> mfv_init_transval srv (case nbins of Some m \<Rightarrow> m | None \<Rightarrow> 0) oid
            | Some t \<Rightarrow> Inr t) (\<lambda>t.
     case (newdatum, nbins) of
       (Some dat, Some _) \<Rightarrow>
         rbind (countmin_trans_c srv (sketch t) dat (mfv_typOid t)) (\<lambda>(sk, md5_datum).
         rbind (cmsketch_count_md5_datum sk md5_datum) (\<lambda>n.
         let t = t\<lparr>sketch := sk\<rparr>; tmpcnt = word_of_int n in
         rbind (mfv_find srv t dat) (\<lambda>i.
         rbind (if i > -1 then set_cnt (nat i) tmpcnt t
                else place_value srv dat tmpcnt t [0..<max_mfvs t]) (\<lambda>t.
           Inr (Some t)))))
     | _ \<Rightarrow> Inr (Some t))"

section \<open>Final function\<close>

text \<open>\<open>cnt_cmp_desc\<close> returns the difference of the 64-bit counters as an \<open>int\<close>.\<close>

definition cnt_cmp_desc :: "offsetcnt \<Rightarrow> offsetcnt \<Rightarrow> int" where
  "cnt_cmp_desc i j = to_int32 (uint (cnt j - cnt i))"

text \<open>
  The \<open>qsort\<close> of the C library is a parameter; it sorts the first \<open>next_mfv\<close> entries.
\<close>

type_synonym offsetcnt_sort = "(offsetcnt \<Rightarrow> offsetcnt \<Rightarrow> int) \<Rightarrow> offsetcnt list \<Rightarrow> offsetcnt list"

definition sort_mfvs :: "offsetcnt_sort \<Rightarrow> mfvtransval \<Rightarrow> mfvtransval" where
  "sort_mfvs qsort t = t\<lparr>mfvs := qsort cnt_cmp_desc (take (next_mfv t) (mfvs t)) @ drop (next_mfv t) (mfvs t)\<rparr>"

text \<open>
  \<open>__mfvsketch_final\<close>: the rows of the histogram as pairs of texts.  \<open>OidOutputFunctionCall\<close>, the
  call of an output function of the catalog, is the parameter \<open>output\<close>.
\<close>

definition mfvsketch_final :: "server \<Rightarrow> offsetcnt_sort \<Rightarrow> (nat \<Rightarrow> datum \<Rightarrow> string) \<Rightarrow> mfvtransval option \<Rightarrow>
    (string \<times> string) list option res" where
  "mfvsketch_final srv qsort output transblob =
     (case transblob of
        None \<Rightarrow> Inr None
      | Some t \<Rightarrow>
          let t = sort_mfvs qsort t in
          rbind (mapM (\<lambda>i.
                   rbind (mfv_datum srv t i) (\<lambda>curval.
                   rbind (nth_res (mfvs t) (int i)) (\<lambda>e.
                     Inr (output (mfv_outFuncOid t) curval, output (typ_output srv INT8OID) (Word (cnt e))))))
                 [0..<next_mfv t]) (\<lambda>histo. Inr (Some histo)))"

section \<open>Merging\<close>

text \<open>The loop that recomputes the counters with the merged sketch.\<close>

definition recount :: "server \<Rightarrow> mfvtransval \<Rightarrow> mfvtransval \<Rightarrow> mfvtransval res" where
  "recount srv newval t =
     foldM (\<lambda>i t.
        rbind (mfv_datum srv t i) (\<lambda>dat.
        rbind (cmsketch_count_c srv (sketch newval) dat (mfv_typOid newval)) (\<lambda>n.
          set_cnt i (word_of_int n) t))) [0..<next_mfv t] t"

text \<open>The loop that chooses the largest counters; \<open>room\<close> is \<open>newval->max_mfvs - cnt\<close>.\<close>

fun choose_mfvs :: "server \<Rightarrow> mfvtransval \<Rightarrow> mfvtransval \<Rightarrow> nat \<Rightarrow> nat \<Rightarrow> nat \<Rightarrow> nat \<Rightarrow> mfvtransval \<Rightarrow> mfvtransval res" where
  "choose_mfvs srv t1 t2 0 i j k new = Inr new"
| "choose_mfvs srv t1 t2 (Suc room) i j k new =
     (if j < next_mfv t2 \<or> i < next_mfv t1 then
        if i < next_mfv t1 \<and> (j = next_mfv t2 \<or> cnt (mfvs t1 ! i) \<ge> cnt (mfvs t2 ! j)) then
          rbind (mfv_datum srv t1 i) (\<lambda>iDatum.
          rbind (mfv_transval_append srv new iDatum) (\<lambda>new.
          rbind (set_cnt k (cnt (mfvs t1 ! i)) new) (\<lambda>new.
            choose_mfvs srv t1 t2 room (i + 1) j (k + 1) new)))
        else if j < next_mfv t2 \<and> (i = next_mfv t1 \<or> cnt (mfvs t1 ! i) < cnt (mfvs t2 ! j)) then
          rbind (mfv_datum srv t2 j) (\<lambda>jDatum.
          rbind (mfv_transval_append srv new jDatum) (\<lambda>new.
          rbind (set_cnt k (cnt (mfvs t2 ! j)) new) (\<lambda>new.
            choose_mfvs srv t1 t2 room i (j + 1) (k + 1) new)))
        else choose_mfvs srv t1 t2 room i j (k + 1) new
      else Inr new)"

definition mfvsketch_merge_c :: "server \<Rightarrow> offsetcnt_sort \<Rightarrow> mfvtransval option \<Rightarrow> mfvtransval option \<Rightarrow>
    mfvtransval option res" where
  "mfvsketch_merge_c srv qsort transblob1 transblob2 =
     (if transblob1 = None \<and> transblob2 = None then Inr transblob1
      else
        rbind (case transblob1 of Some t \<Rightarrow> Inr t
               | None \<Rightarrow> mfv_init_transval srv (max_mfvs (the transblob2)) (mfv_typOid (the transblob2))) (\<lambda>t1.
        rbind (case transblob2 of Some t \<Rightarrow> Inr t
               | None \<Rightarrow> mfv_init_transval srv (max_mfvs t1) (mfv_typOid t1)) (\<lambda>t2.
        rbind (mfv_init_transval srv (max_mfvs t1) (mfv_typOid t1)) (\<lambda>newval.
        let newval = newval\<lparr>sketch := add_sketches (sketch t1) (sketch t2)\<rparr> in
        rbind (recount srv newval t1) (\<lambda>t1.
        rbind (recount srv newval t2) (\<lambda>t2.
        rbind (choose_mfvs srv (sort_mfvs qsort t1) (sort_mfvs qsort t2) (max_mfvs newval) 0 0 0 newval) (\<lambda>new.
          Inr (Some new))))))))"

end
