(* ===== verification/MfvFacts.thy ===== *)
theory MfvFacts
  imports Mfv CountMinFacts SortasortFacts
begin

text \<open>
  The most frequent values of values of a fixed length: the transition refines a step on a list of
  values with their counts, the counts never underestimate, and without collisions of the hash the
  list holds the most frequent values with their exact counts.
\<close>

section \<open>The entries\<close>

definition entry_value :: "nat \<Rightarrow> mfvtransval \<Rightarrow> offsetcnt \<Rightarrow> byte list" where
  "entry_value L t e = take L (drop (offset e - MFV_TRANSVAL_SZ (max_mfvs t)) (mfv_data t))"

text \<open>The values and their counts, in the order of the array.\<close>

definition mfv_list :: "nat \<Rightarrow> mfvtransval \<Rightarrow> (byte list \<times> nat) list" where
  "mfv_list L t = map (\<lambda>e. (entry_value L t e, unat (cnt e))) (take (next_mfv t) (mfvs t))"

text \<open>A transition value for a type: every entry points to one of the slots of length \<open>L\<close>.\<close>

definition slots_ok :: "nat \<Rightarrow> mfvtransval \<Rightarrow> bool" where
  "slots_ok L t \<longleftrightarrow> next_offset t = MFV_TRANSVAL_SZ (max_mfvs t) + next_mfv t * L \<and> next_mfv t * L \<le> length (mfv_data t) \<and>
     distinct (map offset (take (next_mfv t) (mfvs t))) \<and>
     (\<forall>e\<in>set (take (next_mfv t) (mfvs t)). \<exists>k<next_mfv t. offset e = MFV_TRANSVAL_SZ (max_mfvs t) + k * L)"

definition mfv_ok :: "server \<Rightarrow> nat \<Rightarrow> nat \<Rightarrow> mfvtransval \<Rightarrow> bool" where
  "mfv_ok srv oid L t \<longleftrightarrow> fixed_type srv oid L \<and> mfv_typOid t = oid \<and> mfv_typLen t = int L \<and>
     mfv_typByVal t = typByVal (typ_lookup srv oid) \<and> mfv_outFuncOid t = typ_output srv oid \<and>
     length (mfvs t) = max_mfvs t \<and> next_mfv t \<le> max_mfvs t \<and> slots_ok L t"

lemma length_mfv_list: "mfv_ok srv oid L t \<Longrightarrow> length (mfv_list L t) = next_mfv t"
  by (simp add: mfv_list_def mfv_ok_def)

lemma nth_mfv_list:
  "mfv_ok srv oid L t \<Longrightarrow> i < next_mfv t \<Longrightarrow>
   mfv_list L t ! i = (entry_value L t (mfvs t ! i), unat (cnt (mfvs t ! i)))"
  by (simp add: mfv_list_def mfv_ok_def)

lemma entry_slot:
  assumes "mfv_ok srv oid L t" "i < next_mfv t"
  obtains k where "k < next_mfv t" "offset (mfvs t ! i) = MFV_TRANSVAL_SZ (max_mfvs t) + k * L"
    "k * L + L \<le> length (mfv_data t)"
proof -
  have "mfvs t ! i \<in> set (take (next_mfv t) (mfvs t))"
    using assms by (auto simp: mfv_ok_def in_set_conv_nth intro!: exI[of _ i])
  then obtain k where k: "k < next_mfv t" "offset (mfvs t ! i) = MFV_TRANSVAL_SZ (max_mfvs t) + k * L"
    using assms(1) by (auto simp: mfv_ok_def slots_ok_def)
  then have "Suc k * L \<le> next_mfv t * L" by (intro mult_le_mono1) simp
  then have "k * L + L \<le> length (mfv_data t)"
    using assms(1) by (simp add: mfv_ok_def slots_ok_def)
  with k that show thesis by blast
qed

lemma getval_at:
  assumes "fixed_type srv oid L" "mfv_typLen t = int L" "mfv_typByVal t = typByVal (typ_lookup srv oid)"
    and "i < length (mfvs t)" "i \<le> next_mfv t"
    and "offset (mfvs t ! i) = MFV_TRANSVAL_SZ (max_mfvs t) + p" "p + L \<le> length (mfv_data t)"
  shows "mfv_transval_getval srv t i = Inr (drop p (mfv_data t))"
proof -
  have "L \<le> length (drop p (mfv_data t))" using assms(7) by simp
  then obtain d where "PointerExtractDatum (drop p (mfv_data t)) (mfv_typByVal t) = Inr d"
    using extract_datum[OF assms(1), of "drop p (mfv_data t)"] unfolding assms(3)[symmetric] by blast
  moreover have "0 < L" using assms(1) by (simp add: fixed_type_def)
  ultimately show ?thesis
    using assms(2-) by (simp add: mfv_transval_getval_def blob_size_def ExtractDatumLen_def)
qed

lemma getval_value:
  assumes "mfv_ok srv oid L t" "i < next_mfv t"
  shows "\<exists>p. mfv_transval_getval srv t i = Inr p \<and> L \<le> length p \<and> take L p = fst (mfv_list L t ! i)"
proof -
  obtain k where k: "offset (mfvs t ! i) = MFV_TRANSVAL_SZ (max_mfvs t) + k * L" "k * L + L \<le> length (mfv_data t)"
    using entry_slot[OF assms] by metis
  then have "mfv_transval_getval srv t i = Inr (drop (k * L) (mfv_data t))"
    using assms by (intro getval_at) (auto simp: mfv_ok_def)
  with k show ?thesis
    using assms by (simp add: nth_mfv_list entry_value_def)
qed

lemma datum_value_at:
  assumes "mfv_ok srv oid L t" "i < next_mfv t"
  shows "\<exists>d. mfv_datum srv t i = Inr d \<and> datum_ok L d \<and> datum_value L d = fst (mfv_list L t ! i)"
proof -
  obtain p where "mfv_transval_getval srv t i = Inr p" "L \<le> length p" "take L p = fst (mfv_list L t ! i)"
    using getval_value[OF assms] by blast
  then show ?thesis
    using extract_datum[of srv oid L p] assms(1) by (auto simp: mfv_datum_def mfv_ok_def)
qed

text \<open>Writing a value into its slot.\<close>

lemma copy_datum_at:
  assumes "fixed_type srv oid L" "mfv_typLen t = int L" "mfv_typByVal t = typByVal (typ_lookup srv oid)"
    and "i < length (mfvs t)" "i \<le> next_mfv t"
    and "offset (mfvs t ! i) = MFV_TRANSVAL_SZ (max_mfvs t) + p" "p + L \<le> length (mfv_data t)" "datum_ok L d"
  shows "mfv_copy_datum srv t i d =
    Inr (t\<lparr>mfv_data := take p (mfv_data t) @ datum_value L d @ drop (p + L) (mfv_data t)\<rparr>)"
proof -
  have "0 < L" using assms(1) by (simp add: fixed_type_def)
  then show ?thesis
    using getval_at[OF assms(1-7)] assms(2,7,8)
    by (simp add: mfv_copy_datum_def ExtractDatumLen_def datum_ok_def datum_value_def)
qed

lemma slot_overwritten: "p + L \<le> length xs \<Longrightarrow> length v = L \<Longrightarrow> take L (drop p (take p xs @ v @ drop (p + L) xs)) = v"
  by simp

lemma before_kept: "a + L \<le> b \<Longrightarrow> b \<le> length xs \<Longrightarrow> take L (drop a (take b xs @ ys)) = take L (drop a xs)"
  by (rule nth_equalityI) (auto simp: nth_append)

lemma slot_kept:
  assumes "length v = L" "k \<noteq> j" "k * L + L \<le> length xs" "j * L + L \<le> length xs"
  shows "take L (drop (j * L) (take (k * L) xs @ v @ drop (k * L + L) xs)) = take L (drop (j * L) xs)"
proof (cases "j < k")
  case True
  then have "Suc j * L \<le> k * L" by (intro mult_le_mono1) simp
  then have "j * L + L \<le> k * L" by simp
  then show ?thesis using assms(3) by (intro before_kept) simp_all
next
  case False
  then have "Suc k * L \<le> j * L" using assms(2) by (intro mult_le_mono1) simp
  then have "k * L + L \<le> j * L" by simp
  then obtain m where "j * L = k * L + L + m" using le_Suc_ex by blast
  then show ?thesis using assms(1,3) by (simp add: add.commute add.left_commute)
qed

text \<open>What stays the same in all updates of the entries.\<close>

definition same_frame :: "mfvtransval \<Rightarrow> mfvtransval \<Rightarrow> bool" where
  "same_frame t t' \<longleftrightarrow> sketch t' = sketch t \<and> max_mfvs t' = max_mfvs t"

lemma set_cnt_value:
  assumes "mfv_ok srv oid L t" "i < next_mfv t"
  shows "\<exists>t'. set_cnt i c t = Inr t' \<and> mfv_ok srv oid L t' \<and> same_frame t t' \<and>
           mfv_list L t' = (mfv_list L t)[i := (fst (mfv_list L t ! i), unat c)]"
proof -
  have i: "i < length (mfvs t)" using assms by (simp add: mfv_ok_def)
  let ?n = "next_mfv t" and ?e = "(mfvs t ! i)\<lparr>cnt := c\<rparr>"
  let ?t = "t\<lparr>mfvs := (mfvs t)[i := ?e]\<rparr>"
  have off: "map offset (take ?n ((mfvs t)[i := ?e])) = map offset (take ?n (mfvs t))"
    using i assms(2) by (simp add: take_update_swap map_update list_update_same_conv)
  have "slots_ok L ?t \<longleftrightarrow> slots_ok L t"
  proof -
    have "(\<forall>e\<in>set (take ?n ((mfvs t)[i := ?e])). Q (offset e)) \<longleftrightarrow> (\<forall>e\<in>set (take ?n (mfvs t)). Q (offset e))" for Q
    proof -
      have "offset ` set (take ?n ((mfvs t)[i := ?e])) = offset ` set (take ?n (mfvs t))"
        using arg_cong[OF off, of set] by simp
      then have "(\<forall>x\<in>offset ` set (take ?n ((mfvs t)[i := ?e])). Q x) \<longleftrightarrow> (\<forall>x\<in>offset ` set (take ?n (mfvs t)). Q x)"
        by (rule arg_cong)
      then show ?thesis by simp
    qed
    from this[of "\<lambda>off. \<exists>k<?n. off = MFV_TRANSVAL_SZ (max_mfvs t) + k * L"] show ?thesis
      using off by (simp add: slots_ok_def)
  qed
  then have "mfv_ok srv oid L ?t" using assms(1) by (simp add: mfv_ok_def)
  moreover have "mfv_list L ?t = (mfv_list L t)[i := (fst (mfv_list L t ! i), unat c)]"
    using assms i by (simp add: mfv_list_def take_update_swap map_update entry_value_def)
  ultimately show ?thesis using i by (simp add: set_cnt_def same_frame_def)
qed

lemma append_value:
  assumes ok: "mfv_ok srv oid L t" and room: "next_mfv t < max_mfvs t" and d: "datum_ok L d"
  shows "\<exists>t'. mfv_transval_append srv t d = Inr t' \<and> mfv_ok srv oid L t' \<and> same_frame t t' \<and>
           (\<exists>c. mfv_list L t' = mfv_list L t @ [(datum_value L d, c)])"
proof -
  let ?n = "next_mfv t" and ?v = "datum_value L d" and ?base = "MFV_TRANSVAL_SZ (max_mfvs t)"
  have ty: "fixed_type srv oid L" "mfv_typLen t = int L" "mfv_typByVal t = typByVal (typ_lookup srv oid)" "0 < L"
    using ok by (simp_all add: mfv_ok_def fixed_type_def)
  have n: "?n < length (mfvs t)" and off: "next_offset t = ?base + ?n * L" and data: "?n * L \<le> length (mfv_data t)"
    using ok room by (simp_all add: mfv_ok_def slots_ok_def)
  obtain zs where grow: "(if blob_size t - next_offset t < L
            then rbind (nth_res (mfvs t) 0) (\<lambda>e.
              let curspace = blob_size t - offset e
              in Inr (t\<lparr>mfv_data := mfv_data t @ replicate (curspace + L) 0\<rparr>))
            else Inr t) = Inr (t\<lparr>mfv_data := mfv_data t @ zs\<rparr>)"
    and fits: "?n * L + L \<le> length (mfv_data t @ zs)"
  proof (cases "blob_size t - next_offset t < L")
    case True
    have "nth_res (mfvs t) 0 = Inr (mfvs t ! 0)" using n by (auto simp: nth_res_def)
    with True data show ?thesis by (intro that[of "replicate (blob_size t - offset (mfvs t ! 0) + L) 0"]) simp_all
  next
    case False
    then show ?thesis using off data by (intro that[of "[]"]) (simp_all add: blob_size_def)
  qed
  define xs where "xs = mfv_data t @ zs"
  let ?e = "(mfvs t ! ?n)\<lparr>offset := next_offset t\<rparr>"
  define u where "u = t\<lparr>mfv_data := xs, mfvs := (mfvs t)[?n := ?e]\<rparr>"
  define w where "w = u\<lparr>mfv_data := take (?n * L) xs @ ?v @ drop (?n * L + L) xs, next_offset := next_offset t + L, next_mfv := ?n + 1\<rparr>"
  have "mfv_copy_datum srv u ?n d = Inr (u\<lparr>mfv_data := take (?n * L) (mfv_data u) @ ?v @ drop (?n * L + L) (mfv_data u)\<rparr>)"
    using ty n off fits d by (intro copy_datum_at) (simp_all add: u_def xs_def)
  then have res: "mfv_transval_append srv t d = Inr w"
    using room n ty(2,4) grow
    by (simp add: mfv_transval_append_def mfv_transval_insert_at_def ExtractDatumLen_def u_def w_def xs_def)
  have v: "length ?v = L" using d by (simp add: datum_ok_def datum_value_def)
  have take: "take (?n + 1) (mfvs w) = take ?n (mfvs t) @ [?e]"
    using n by (simp add: w_def u_def take_Suc_conv_app_nth)
  have old: "entry_value L w e = entry_value L t e" if "e \<in> set (take ?n (mfvs t))" for e
  proof -
    from that ok obtain k where k: "k < ?n" "offset e = ?base + k * L" by (auto simp: mfv_ok_def slots_ok_def)
    then have "Suc k * L \<le> ?n * L" by (intro mult_le_mono1) simp
    then have fit: "k * L + L \<le> length (mfv_data t)" using data by simp
    then have "take L (drop (k * L) (mfv_data w)) = take L (drop (k * L) xs)"
      using slot_kept[OF v, of ?n k xs] k(1) fits by (simp add: w_def xs_def)
    also have "\<dots> = take L (drop (k * L) (mfv_data t))" using fit by (simp add: xs_def)
    finally show ?thesis using k(2) by (simp add: entry_value_def w_def u_def)
  qed
  have new: "entry_value L w ?e = ?v"
    using off fits v slot_overwritten[of "?n * L" L xs ?v] by (simp add: entry_value_def w_def u_def xs_def)
  have "mfv_list L w = mfv_list L t @ [(?v, unat (cnt ?e))]"
    using take old new by (simp add: mfv_list_def w_def)
  moreover have "slots_ok L w"
  proof -
    have "offset e \<noteq> next_offset t" if "e \<in> set (take ?n (mfvs t))" for e
    proof -
      from that ok obtain k where "k < ?n" "offset e = ?base + k * L" by (auto simp: mfv_ok_def slots_ok_def)
      then show ?thesis using off ty(4) by simp
    qed
    then have "distinct (map offset (take (?n + 1) (mfvs w)))"
      using ok unfolding take by (auto simp: mfv_ok_def slots_ok_def)
    moreover have "\<forall>e\<in>set (take (?n + 1) (mfvs w)). \<exists>k<?n + 1. offset e = ?base + k * L"
      using ok off unfolding take by (fastforce simp: mfv_ok_def slots_ok_def less_Suc_eq)
    moreover have "next_mfv w = ?n + 1" "max_mfvs w = max_mfvs t" "next_offset w = next_offset t + L"
      "(?n + 1) * L \<le> length (mfv_data w)"
      using fits v by (simp_all add: w_def u_def xs_def)
    ultimately show ?thesis using off by (simp add: slots_ok_def)
  qed
  then have "mfv_ok srv oid L w" using ok room by (simp add: mfv_ok_def w_def u_def)
  ultimately show ?thesis using res by (auto simp: same_frame_def w_def u_def)
qed

lemma replace_value:
  assumes ok: "mfv_ok srv oid L t" and i: "i < next_mfv t" and d: "datum_ok L d"
  shows "\<exists>t'. mfv_transval_replace srv t d i = Inr t' \<and> mfv_ok srv oid L t' \<and> same_frame t t' \<and>
           (\<exists>c. mfv_list L t' = (mfv_list L t)[i := (datum_value L d, c)])"
proof -
  let ?v = "datum_value L d" and ?n = "next_mfv t" and ?base = "MFV_TRANSVAL_SZ (max_mfvs t)"
  have ty: "fixed_type srv oid L" "mfv_typLen t = int L" "mfv_typByVal t = typByVal (typ_lookup srv oid)" "0 < L"
    using ok by (simp_all add: mfv_ok_def fixed_type_def)
  have il: "i < length (mfvs t)" using ok i by (simp add: mfv_ok_def)
  obtain k where k: "offset (mfvs t ! i) = ?base + k * L" "k * L + L \<le> length (mfv_data t)" "k < ?n"
    using entry_slot[OF ok i] by metis
  define w where "w = t\<lparr>mfv_data := take (k * L) (mfv_data t) @ ?v @ drop (k * L + L) (mfv_data t)\<rparr>"
  have v: "length ?v = L" using d by (simp add: datum_ok_def datum_value_def)
  have "mfv_copy_datum srv t i d = Inr w"
    unfolding w_def using ty il i k d by (intro copy_datum_at) simp_all
  then have res: "mfv_transval_replace srv t d i = Inr w"
    using datum_value_at[OF ok i] ty by (auto simp: mfv_transval_replace_def ExtractDatumLen_def)
  have len: "length (mfv_data w) = length (mfv_data t)" using k(2) v by (simp add: w_def)
  then have ok': "mfv_ok srv oid L w" using ok by (simp add: mfv_ok_def slots_ok_def w_def)
  have "mfv_list L w ! j = ((mfv_list L t)[i := (?v, unat (cnt (mfvs t ! i)))]) ! j" if j: "j < ?n" for j
  proof (cases "j = i")
    case True
    then show ?thesis
      using ok ok' i k(1,2) v slot_overwritten[of "k * L" L "mfv_data t" ?v] length_mfv_list[OF ok]
      by (simp add: nth_mfv_list w_def entry_value_def)
  next
    case False
    obtain l where l: "offset (mfvs t ! j) = ?base + l * L" "l * L + L \<le> length (mfv_data t)"
      using entry_slot[OF ok j] by metis
    have "distinct (map offset (take ?n (mfvs t)))" using ok by (simp add: mfv_ok_def slots_ok_def)
    then have "offset (mfvs t ! i) \<noteq> offset (mfvs t ! j)"
      using False i j ok nth_eq_iff_index_eq[of "map offset (take ?n (mfvs t))" i j] by (simp add: mfv_ok_def)
    then have "l \<noteq> k" using k(1) l(1) by auto
    then have "take L (drop (l * L) (mfv_data w)) = take L (drop (l * L) (mfv_data t))"
      using slot_kept[OF v, of k l] k(2) l(2) by (simp add: w_def)
    then have "mfv_list L w ! j = mfv_list L t ! j"
      using ok ok' j l(1) by (simp add: nth_mfv_list entry_value_def) (simp add: w_def nth_mfv_list entry_value_def)
    with False show ?thesis by simp
  qed
  then have "mfv_list L w = (mfv_list L t)[i := (?v, unat (cnt (mfvs t ! i)))]"
    using length_mfv_list[OF ok] length_mfv_list[OF ok'] by (intro nth_equalityI) (simp_all add: w_def)
  with res ok' show ?thesis by (auto simp: same_frame_def w_def)
qed

lemma find_value_position:
  assumes ok: "mfv_ok srv oid L t" and d: "datum_ok L d" and "\<forall>i\<in>set is. i < next_mfv t"
  shows "\<exists>r. find_value srv t d is = Inr r \<and>
           ((\<exists>i\<in>set is. r = int i \<and> fst (mfv_list L t ! i) = datum_value L d) \<or>
            r = -1 \<and> (\<forall>i\<in>set is. fst (mfv_list L t ! i) \<noteq> datum_value L d))"
  using assms(3)
proof (induction "is")
  case (Cons i "is")
  have ty: "fixed_type srv oid L" "mfv_typLen t = int L" "mfv_typByVal t = typByVal (typ_lookup srv oid)" "0 < L"
    using ok by (simp_all add: mfv_ok_def fixed_type_def)
  obtain p where p: "mfv_transval_getval srv t i = Inr p" "L \<le> length p" "take L p = fst (mfv_list L t ! i)"
    using getval_value[OF ok] Cons.prems by auto
  obtain e where e: "PointerExtractDatum p (mfv_typByVal t) = Inr e"
    using extract_datum[OF ty(1) p(2)] unfolding ty(3) by blast
  have m: "memcmp p (DatumExtractPointer d) L = Inr (sign3 (take L p) (datum_value L d))"
    using p(2) d memcmp_sign3[of L p "DatumExtractPointer d"] by (simp add: datum_ok_def datum_value_def)
  show ?case
  proof (cases "take L p = datum_value L d")
    case True
    then show ?thesis using p e ty m by (simp add: ExtractDatumLen_def)
  next
    case False
    then have "find_value srv t d (i # is) = find_value srv t d is" using p e ty m by (simp add: ExtractDatumLen_def)
    then show ?thesis using Cons.IH Cons.prems False p(3) by auto
  qed
qed simp

lemma mfv_find_value:
  assumes ok: "mfv_ok srv oid L t" and d: "datum_ok L d"
  shows "(\<exists>i<next_mfv t. mfv_find srv t d = Inr (int i) \<and> fst (mfv_list L t ! i) = datum_value L d) \<or>
         mfv_find srv t d = Inr (-1) \<and> datum_value L d \<notin> fst ` set (mfv_list L t)"
proof -
  have "fst ` set (mfv_list L t) = (\<lambda>i. fst (mfv_list L t ! i)) ` {0..<next_mfv t}"
    unfolding image_image[of fst "(!) (mfv_list L t)", symmetric] length_mfv_list[OF ok, symmetric]
    by (simp add: nth_image)
  then show ?thesis
    using find_value_position[OF ok d, of "[0..<next_mfv t]"] by (auto simp: mfv_find_def)
qed

section \<open>The specification\<close>

text \<open>
  A list of values with counts, with room for \<open>k\<close>: a value with a new count updates its entry, or takes
  the place of the first entry with a smaller count, or is appended.
\<close>

fun place :: "nat \<Rightarrow> 'v \<Rightarrow> nat \<Rightarrow> ('v \<times> nat) list \<Rightarrow> ('v \<times> nat) list" where
  "place room v c [] = (if 0 < room then [(v, c)] else [])"
| "place room v c ((w, d) # xs) = (if d < c then (v, c) # xs else (w, d) # place (room - 1) v c xs)"

definition count_value :: "nat \<Rightarrow> 'v \<Rightarrow> nat \<Rightarrow> ('v \<times> nat) list \<Rightarrow> ('v \<times> nat) list" where
  "count_value k v c xs =
     (if v \<in> fst ` set xs then map (\<lambda>(w, d). if w = v then (w, c) else (w, d)) xs else place k v c xs)"

fun mfv_spec :: "nat \<Rightarrow> ('v \<Rightarrow> byte list) \<Rightarrow> 'v list \<Rightarrow> 'v list \<Rightarrow> ('v \<times> nat) list \<Rightarrow> ('v \<times> nat) list" where
  "mfv_spec k hash seen [] xs = xs"
| "mfv_spec k hash seen (v # vs) xs =
     mfv_spec k hash (seen @ [v]) vs (count_value k v (estimate (map hash (seen @ [v])) (hash v)) xs)"

lemma mfv_spec_snoc:
  "mfv_spec k hash seen (vs @ [v]) xs =
   count_value k v (estimate (map hash (seen @ vs @ [v])) (hash v)) (mfv_spec k hash seen vs xs)"
  by (induction vs arbitrary: seen xs) simp_all

lemma place_cases:
  assumes "length xs \<le> room"
  obtains (replace) as w d bs where "xs = as @ (w, d) # bs" "\<forall>(u, e)\<in>set as. c \<le> e" "d < c"
      "place room v c xs = as @ (v, c) # bs"
    | (append) "\<forall>(u, e)\<in>set xs. c \<le> e" "length xs < room" "place room v c xs = xs @ [(v, c)]"
    | (full) "\<forall>(u, e)\<in>set xs. c \<le> e" "length xs = room" "place room v c xs = xs"
  using assms
proof (induction xs arbitrary: room thesis)
  case Nil
  then show ?case by (cases "0 < room") simp_all
next
  case (Cons x xs)
  obtain w d where x: "x = (w, d)" by (cases x)
  show ?case
  proof (cases "d < c")
    case True
    then show ?thesis using Cons.prems(1)[of "[]" w d xs] x by simp
  next
    case False
    have len: "length xs \<le> room - 1" using Cons.prems(4) by simp
    show ?thesis
    proof (rule Cons.IH[OF _ _ _ len])
      fix as u e bs
      assume "xs = as @ (u, e) # bs" "\<forall>(u, e)\<in>set as. c \<le> e" "e < c" "place (room - 1) v c xs = as @ (v, c) # bs"
      then show ?thesis using Cons.prems(1)[of "(w, d) # as" u e bs] False x by simp
    next
      assume "\<forall>(u, e)\<in>set xs. c \<le> e" "length xs < room - 1" "place (room - 1) v c xs = xs @ [(v, c)]"
      then show ?thesis using Cons.prems(2) False x by simp
    next
      assume "\<forall>(u, e)\<in>set xs. c \<le> e" "length xs = room - 1" "place (room - 1) v c xs = xs"
      then show ?thesis using Cons.prems(3,4) False x by simp
    qed
  qed
qed

lemma place_set:
  assumes "length xs \<le> k" "distinct (map fst xs)" "v \<notin> fst ` set xs"
  shows "set (place k v c xs) \<subseteq> insert (v, c) (set xs)" "distinct (map fst (place k v c xs))" "length (place k v c xs) \<le> k"
  by (rule place_cases[OF assms(1), of c v]; use assms in \<open>auto simp: image_iff\<close>)+

section \<open>The transition refines the specification\<close>

lemma same_frame_trans: "same_frame a b \<Longrightarrow> same_frame b c \<Longrightarrow> same_frame a c"
  by (simp add: same_frame_def)

lemma append_counted:
  assumes "mfv_ok srv oid L t" "next_mfv t < max_mfvs t" "datum_ok L d"
  shows "\<exists>t'. rbind (mfv_transval_append srv t d) (set_cnt (next_mfv t) c) = Inr t' \<and> mfv_ok srv oid L t' \<and>
           same_frame t t' \<and> mfv_list L t' = mfv_list L t @ [(datum_value L d, unat c)]"
proof -
  obtain u x where u: "mfv_transval_append srv t d = Inr u" "mfv_ok srv oid L u" "same_frame t u"
    "mfv_list L u = mfv_list L t @ [(datum_value L d, x)]"
    using append_value[OF assms] by blast
  have n: "next_mfv u = Suc (next_mfv t)"
    using length_mfv_list[OF u(2)] length_mfv_list[OF assms(1)] u(4) by simp
  then obtain w where "set_cnt (next_mfv t) c u = Inr w" "mfv_ok srv oid L w" "same_frame u w"
    "mfv_list L w = (mfv_list L u)[next_mfv t := (fst (mfv_list L u ! next_mfv t), unat c)]"
    using set_cnt_value[OF u(2), of "next_mfv t" c] by auto
  then show ?thesis
    using u length_mfv_list[OF assms(1)] same_frame_trans[OF u(3)] by (auto simp: nth_append list_update_append)
qed

lemma replace_counted:
  assumes "mfv_ok srv oid L t" "i < next_mfv t" "datum_ok L d"
  shows "\<exists>t'. rbind (mfv_transval_replace srv t d i) (set_cnt i c) = Inr t' \<and> mfv_ok srv oid L t' \<and>
           same_frame t t' \<and> mfv_list L t' = (mfv_list L t)[i := (datum_value L d, unat c)]"
proof -
  obtain u x where u: "mfv_transval_replace srv t d i = Inr u" "mfv_ok srv oid L u" "same_frame t u"
    "mfv_list L u = (mfv_list L t)[i := (datum_value L d, x)]"
    using replace_value[OF assms] by blast
  have n: "next_mfv u = next_mfv t"
    using length_mfv_list[OF u(2)] length_mfv_list[OF assms(1)] u(4) by simp
  then obtain w where "set_cnt i c u = Inr w" "mfv_ok srv oid L w" "same_frame u w"
    "mfv_list L w = (mfv_list L u)[i := (fst (mfv_list L u ! i), unat c)]"
    using set_cnt_value[OF u(2), of i c] assms(2) by auto
  then show ?thesis
    using u length_mfv_list[OF assms(1)] assms(2) same_frame_trans[OF u(3)] by auto
qed

lemma place_value_refines:
  assumes ok: "mfv_ok srv oid L t" and d: "datum_ok L d" and "i \<le> next_mfv t"
  shows "\<exists>t'. place_value srv d c t [i..<max_mfvs t] = Inr t' \<and> mfv_ok srv oid L t' \<and> same_frame t t' \<and>
           mfv_list L t' = take i (mfv_list L t) @ place (max_mfvs t - i) (datum_value L d) (unat c) (drop i (mfv_list L t))"
  using assms(3)
proof (induction "max_mfvs t - i" arbitrary: i)
  case 0
  then have "i = max_mfvs t" "next_mfv t = max_mfvs t" using ok by (simp_all add: mfv_ok_def)
  then show ?case using ok length_mfv_list[OF ok] by (simp add: same_frame_def)
next
  case (Suc m)
  then have i: "i < max_mfvs t" by simp
  then have up: "[i..<max_mfvs t] = i # [Suc i..<max_mfvs t]" by (rule upt_conv_Cons)
  show ?case
  proof (cases "i = next_mfv t")
    case True
    then have "next_mfv t < max_mfvs t" using i by simp
    then obtain t' where "rbind (mfv_transval_append srv t d) (set_cnt (next_mfv t) c) = Inr t'"
      "mfv_ok srv oid L t'" "same_frame t t'" "mfv_list L t' = mfv_list L t @ [(datum_value L d, unat c)]"
      using append_counted[OF ok _ d] by blast
    then show ?thesis
      using i length_mfv_list[OF ok] unfolding True up[unfolded True] by simp
  next
    case False
    then have i': "i < next_mfv t" "i < length (mfvs t)" using Suc.prems ok by (simp_all add: mfv_ok_def)
    have split: "drop i (mfv_list L t) = (entry_value L t (mfvs t ! i), unat (cnt (mfvs t ! i))) # drop (Suc i) (mfv_list L t)"
      using i' length_mfv_list[OF ok] nth_mfv_list[OF ok i'(1)] by (metis Cons_nth_drop_Suc)
    show ?thesis
    proof (cases "cnt (mfvs t ! i) < c")
      case True
      obtain t' where "rbind (mfv_transval_replace srv t d i) (set_cnt i c) = Inr t'"
        "mfv_ok srv oid L t'" "same_frame t t'" "mfv_list L t' = (mfv_list L t)[i := (datum_value L d, unat c)]"
        using replace_counted[OF ok i'(1) d] by blast
      then show ?thesis
        using True False i' split length_mfv_list[OF ok] unfolding up
        by (simp add: word_less_nat_alt upd_conv_take_nth_drop)
    next
      case lt: False
      then show ?thesis
        using Suc.hyps(1)[of "Suc i"] Suc.hyps(2) False i' split length_mfv_list[OF ok] nth_mfv_list[OF ok i'(1)] unfolding up
        by (simp add: word_less_nat_alt take_Suc_conv_app_nth)
    qed
  qed
qed

text \<open>What the catalog and MD5 give for the type of the values.\<close>

definition mfv_server :: "server \<Rightarrow> nat \<Rightarrow> nat \<Rightarrow> bool" where
  "mfv_server srv oid L \<longleftrightarrow> fixed_type srv oid L \<and> (\<forall>x. length (md5_hash srv x) = 32) \<and> typ_output srv oid \<noteq> 0"

lemma length_value_hash: "mfv_server srv oid L \<Longrightarrow> length (value_hash srv v) = 16"
  by (simp add: mfv_server_def value_hash_def length_hex_to_bytes)

lemma estimate_le: "estimate hs h \<le> length hs"
proof -
  have "Min ((\<lambda>i. hits hs i (col h i)) ` {0..<DEPTH}) \<le> hits hs 0 (col h 0)"
    by (rule Min_le) (simp_all add: DEPTH_def)
  with hits_le[of hs 0 "col h 0"] show ?thesis by (simp add: estimate_def)
qed

lemma count_md5_estimate:
  assumes "length h = 16" "length hs < 2 ^ 63 - 1"
  shows "cmsketch_count_md5_datum (sketch_of hs) h = Inr (int (estimate hs h))"
  using min_rows[OF assms, of DEPTH]
  by (simp add: cmsketch_count_md5_datum_def hash_counters_iterate_def estimate_def DEPTH_def)

lemma unat_estimate:
  assumes "length hs < 2 ^ 63"
  shows "unat (word_of_int (int (estimate hs h)) :: int64) = estimate hs h"
  using estimate_le[of hs h] assms by (simp add: unsigned_of_nat take_bit_nat_eq_self)

text \<open>The transition value after the values \<open>vs\<close>.\<close>

definition mfv_state :: "server \<Rightarrow> nat \<Rightarrow> nat \<Rightarrow> nat \<Rightarrow> byte list list \<Rightarrow> mfvtransval \<Rightarrow> bool" where
  "mfv_state srv oid L k vs t \<longleftrightarrow> mfv_ok srv oid L t \<and> max_mfvs t = k \<and>
     sketch t = sketch_of (map (value_hash srv) vs) \<and> distinct (map fst (mfv_list L t)) \<and>
     mfv_list L t = mfv_spec k (value_hash srv) [] vs []"

lemma update_entry:
  "distinct (map fst xs) \<Longrightarrow> i < length xs \<Longrightarrow> fst (xs ! i) = v \<Longrightarrow>
   xs[i := (v, c)] = map (\<lambda>(w, d). if w = v then (w, c) else (w, d)) xs"
proof (induction xs arbitrary: i)
  case (Cons x xs)
  show ?case
  proof (cases i)
    case 0
    then have "map (\<lambda>(w, d). if w = v then (w, c) else (w, d)) xs = xs"
      using Cons.prems by (intro map_idI) (auto simp: image_iff)
    with 0 Cons.prems show ?thesis by (cases x) simp
  next
    case (Suc j)
    then have "v \<in> fst ` set xs" using Cons.prems by (auto intro!: image_eqI[of _ _ "xs ! j"])
    moreover have "fst x \<notin> fst ` set xs" using Cons.prems(1) by simp
    ultimately have "fst x \<noteq> v" by metis
    with Suc Cons show ?thesis by (cases x) simp
  qed
qed simp

lemma count_value_distinct:
  assumes "length xs \<le> k" "distinct (map fst xs)"
  shows "distinct (map fst (count_value k v c xs))"
proof (cases "v \<in> fst ` set xs")
  case True
  have "map fst (map (\<lambda>(w, d). if w = v then (w, c) else (w, d)) xs) = map fst xs" by auto
  with True show ?thesis using assms(2) by (simp only: count_value_def if_True)
next
  case False
  then show ?thesis using place_set(2)[OF assms False] by (simp add: count_value_def)
qed

lemma mfv_trans_state:
  assumes srv: "mfv_server srv oid L" and st: "mfv_state srv oid L k vs t" and d: "datum_ok L d"
    and len: "length vs + 1 < 2 ^ 63 - 1"
  shows "\<exists>t'. mfvsketch_trans srv (Some t) ty (Some d) (Some m) = Inr (Some t') \<and>
           mfv_state srv oid L k (vs @ [datum_value L d]) t'"
proof -
  let ?v = "datum_value L d" and ?hash = "value_hash srv"
  let ?hs = "map ?hash (vs @ [?v])"
  define c where "c = estimate ?hs (?hash ?v)"
  have ok: "mfv_ok srv oid L t" and k: "max_mfvs t = k" and dist: "distinct (map fst (mfv_list L t))"
    and sk: "sketch t = sketch_of (map ?hash vs)" and spec: "mfv_list L t = mfv_spec k ?hash [] vs []"
    using st unfolding mfv_state_def by blast+
  then have oid: "mfv_typOid t = oid" by (simp add: mfv_ok_def)
  have md5: "md5_value srv d oid = Inr (?hash ?v)" "length (?hash ?v) = 16"
    using md5_value_fixed[OF _ d] srv length_value_hash[OF srv] by (simp_all add: mfv_server_def)
  have trans: "countmin_trans_c srv (sketch t) d (mfv_typOid t) = Inr (sketch_of ?hs, ?hash ?v)"
    using countmin_trans_sketch[OF md5, of "map ?hash vs"] len sk oid by simp
  have count: "cmsketch_count_md5_datum (sketch_of ?hs) (?hash ?v) = Inr (int c)"
    using count_md5_estimate[OF md5(2), of ?hs] len by (simp add: c_def)
  have c: "unat (word_of_int (int c) :: int64) = c"
    using unat_estimate[of ?hs "?hash ?v"] len by (simp add: c_def)
  define u where "u = t\<lparr>sketch := sketch_of ?hs\<rparr>"
  have oku: "mfv_ok srv oid L u" "mfv_list L u = mfv_list L t" "max_mfvs u = k" "next_mfv u = next_mfv t"
    using ok k by (simp_all add: u_def mfv_ok_def slots_ok_def mfv_list_def entry_value_def)
  have trans_u: "mfvsketch_trans srv (Some t) ty (Some d) (Some m) =
      rbind (mfv_find srv u d) (\<lambda>i. rbind (if i > -1 then set_cnt (nat i) (word_of_int (int c)) u
         else place_value srv d (word_of_int (int c)) u [0..<k]) (\<lambda>t. Inr (Some t)))"
    using trans count k by (simp add: mfvsketch_trans_def u_def Let_def del: of_int_of_nat_eq cong: if_cong)
  have n: "length (mfv_list L t) \<le> k" using length_mfv_list[OF ok] ok k by (simp add: mfv_ok_def)
  have result: ?thesis
    if "mfvsketch_trans srv (Some t) ty (Some d) (Some m) = Inr (Some w)" "mfv_ok srv oid L w" "same_frame u w"
      "mfv_list L w = count_value k ?v c (mfv_list L t)" for w
    using that count_value_distinct[OF n dist, of ?v c] spec oku
      mfv_spec_snoc[of k ?hash "[]" vs ?v "[]"]
    by (auto simp: mfv_state_def same_frame_def c_def u_def)
  from mfv_find_value[OF oku(1) d] show ?thesis
  proof (elim disjE exE conjE)
    fix i assume i: "i < next_mfv u" "mfv_find srv u d = Inr (int i)" "fst (mfv_list L u ! i) = ?v"
    obtain w where w: "set_cnt i (word_of_int (int c)) u = Inr w" "mfv_ok srv oid L w" "same_frame u w"
      "mfv_list L w = (mfv_list L t)[i := (?v, c)]"
      using set_cnt_value[OF oku(1) i(1), of "word_of_int (int c)"] i(3) oku(2) c by auto
    have "i < length (mfv_list L t)" using i(1) oku(4) length_mfv_list[OF ok] by simp
    moreover from this have "?v \<in> fst ` set (mfv_list L t)" using i(3) oku(2) by (metis image_eqI nth_mem)
    ultimately have "mfv_list L w = count_value k ?v c (mfv_list L t)"
      using w(4) update_entry[OF dist, of i ?v c] i(3) oku(2) by (simp add: count_value_def)
    with w show ?thesis using trans_u i(2) by (intro result) simp_all
  next
    assume f: "mfv_find srv u d = Inr (-1)" "?v \<notin> fst ` set (mfv_list L u)"
    obtain w where "place_value srv d (word_of_int (int c)) u [0..<k] = Inr w" "mfv_ok srv oid L w" "same_frame u w"
      "mfv_list L w = place k ?v c (mfv_list L t)"
      using place_value_refines[OF oku(1) d, of 0 "word_of_int (int c)"] oku c by auto
    then show ?thesis using trans_u f oku(2) by (intro result) (simp_all add: count_value_def)
  qed
qed

definition mfv_agg :: "server \<Rightarrow> nat \<Rightarrow> nat \<Rightarrow> datum list \<Rightarrow> mfvtransval option res" where
  "mfv_agg srv oid k ds = foldM (\<lambda>d st. mfvsketch_trans srv st oid (Some d) (Some k)) ds None"

lemma mfv_init_state:
  assumes "mfv_server srv oid L" "int L * (int k * int L) < 2 ^ 31"
  shows "\<exists>t. mfv_init_transval srv k oid = Inr t \<and> mfv_state srv oid L k [] t"
  using assms
  by (auto simp: mfv_server_def mfv_init_transval_def Let_def mfv_state_def mfv_ok_def fixed_type_def slots_ok_def
      mfv_list_def sketch_of_Nil)

lemma mfv_agg_rest:
  assumes srv: "mfv_server srv oid L" and "\<forall>d\<in>set ds. datum_ok L d" "length vs + length ds < 2 ^ 63 - 1"
    and "mfv_state srv oid L k vs t"
  shows "\<exists>t'. foldM (\<lambda>d st. mfvsketch_trans srv st oid (Some d) (Some k)) ds (Some t) = Inr (Some t') \<and>
           mfv_state srv oid L k (vs @ map (datum_value L) ds) t'"
  using assms(2-)
proof (induction ds arbitrary: vs t)
  case (Cons d ds)
  obtain u where "mfvsketch_trans srv (Some t) oid (Some d) (Some k) = Inr (Some u)"
    "mfv_state srv oid L k (vs @ [datum_value L d]) u"
    using mfv_trans_state[OF srv Cons.prems(3), of d oid k] Cons.prems by auto
  then show ?case using Cons.IH[of "vs @ [datum_value L d]" u] Cons.prems by simp
qed simp

lemma mfv_agg_state:
  assumes srv: "mfv_server srv oid L" and "int L * (int k * int L) < 2 ^ 31"
    and "\<forall>d\<in>set ds. datum_ok L d" "length ds < 2 ^ 63 - 1" "ds \<noteq> []"
  shows "\<exists>t. mfv_agg srv oid k ds = Inr (Some t) \<and> mfv_state srv oid L k (map (datum_value L) ds) t"
proof -
  obtain t where t: "mfv_init_transval srv k oid = Inr t" "mfv_state srv oid L k [] t"
    using mfv_init_state[OF assms(1,2)] by blast
  obtain d ds' where "ds = d # ds'" using assms(5) by (cases ds) auto
  then have "mfv_agg srv oid k ds = foldM (\<lambda>d st. mfvsketch_trans srv st oid (Some d) (Some k)) ds (Some t)"
    using t(1) by (simp add: mfv_agg_def mfvsketch_trans_def)
  then show ?thesis using mfv_agg_rest[OF srv assms(3) _ t(2)] assms(4) by simp
qed

section \<open>What the specification computes\<close>

lemma count_le_estimate:
  "v \<in> set vs \<Longrightarrow> count_list vs v \<le> estimate (map hash vs) (hash v)"
proof -
  have "count_list vs v = length (filter (\<lambda>w. w = v) vs)" by (induction vs) auto
  also have "\<dots> \<le> length (filter (\<lambda>g. g = hash v) (map hash vs))"
    unfolding filter_map length_map comp_def by (rule length_filter_imp) simp
  also have "\<dots> \<le> estimate (map hash vs) (hash v)" by (rule estimate_ge)
  finally show ?thesis .
qed

lemma mfv_spec_bounds:
  "length (mfv_spec k hash [] vs []) \<le> k \<and> distinct (map fst (mfv_spec k hash [] vs [])) \<and>
   (\<forall>(w, c)\<in>set (mfv_spec k hash [] vs []). w \<in> set vs \<and> count_list vs w \<le> c \<and> c \<le> length vs)"
proof (induction vs rule: rev_induct)
  case (snoc v vs)
  let ?xs = "mfv_spec k hash [] vs []" and ?c = "estimate (map hash (vs @ [v])) (hash v)"
  let ?ys = "mfv_spec k hash [] (vs @ [v]) []"
  have IH: "length ?xs \<le> k" "distinct (map fst ?xs)"
    "\<forall>(w, c)\<in>set ?xs. w \<in> set vs \<and> count_list vs w \<le> c \<and> c \<le> length vs"
    using snoc.IH by simp_all
  have c: "count_list (vs @ [v]) v \<le> ?c" "?c \<le> Suc (length vs)"
    using count_le_estimate[of v "vs @ [v]" hash] estimate_le[of "map hash (vs @ [v])" "hash v"] by simp_all
  have ys: "?ys = count_value k v ?c ?xs" using mfv_spec_snoc[of k hash "[]" vs v "[]"] by simp
  have "set ?ys \<subseteq> insert (v, ?c) (set ?xs) \<and> length ?ys \<le> k \<and> (\<forall>(w, d)\<in>set ?ys. w = v \<longrightarrow> d = ?c)"
  proof (cases "v \<in> fst ` set ?xs")
    case True
    then show ?thesis using IH(1) unfolding ys by (auto simp: count_value_def split: if_splits)
  next
    case False
    then show ?thesis using place_set[OF IH(1,2) False, of ?c] unfolding ys
      by (fastforce simp: count_value_def image_iff)
  qed
  then show ?case
    using IH(3) c count_value_distinct[OF IH(1,2)] unfolding ys by (fastforce simp: count_list_append)
qed simp

text \<open>Two values collide when their hashes have the same column in every row of the sketch.\<close>

definition separated :: "('v \<Rightarrow> byte list) \<Rightarrow> 'v set \<Rightarrow> bool" where
  "separated hash V \<longleftrightarrow> (\<forall>v\<in>V. \<exists>r<DEPTH. \<forall>w\<in>V. w \<noteq> v \<longrightarrow> col (hash w) r \<noteq> col (hash v) r)"

lemma estimate_exact:
  assumes "separated hash V" "set vs \<subseteq> V" "v \<in> set vs"
  shows "estimate (map hash vs) (hash v) = count_list vs v"
proof (rule antisym)
  obtain r where r: "r < DEPTH" "\<forall>w\<in>V. w \<noteq> v \<longrightarrow> col (hash w) r \<noteq> col (hash v) r"
    using assms unfolding separated_def by blast
  have "hits (map hash vs) r (col (hash v) r) = length (filter (\<lambda>w. col (hash w) r = col (hash v) r) vs)"
    by (simp add: hits_def filter_map comp_def)
  also have "filter (\<lambda>w. col (hash w) r = col (hash v) r) vs = filter (\<lambda>w. w = v) vs"
    using r(2) assms(2) by (intro filter_cong) auto
  also have "length \<dots> = count_list vs v" by (induction vs) auto
  finally have "hits (map hash vs) r (col (hash v) r) = count_list vs v" .
  moreover have "estimate (map hash vs) (hash v) \<le> hits (map hash vs) r (col (hash v) r)"
    unfolding estimate_def using r(1) by (intro Min_le) auto
  ultimately show "estimate (map hash vs) (hash v) \<le> count_list vs v" by simp
qed (use count_le_estimate[OF assms(3)] in blast)

text \<open>The list holds exact counts, and what it does not hold occurs no more often than what it holds.\<close>

definition top_counts :: "nat \<Rightarrow> 'v list \<Rightarrow> ('v \<times> nat) list \<Rightarrow> bool" where
  "top_counts k vs xs \<longleftrightarrow> distinct (map fst xs) \<and> length xs \<le> k \<and>
     (\<forall>(w, c)\<in>set xs. w \<in> set vs \<and> c = count_list vs w) \<and>
     (\<forall>u\<in>set vs. u \<notin> fst ` set xs \<longrightarrow> length xs = k \<and> (\<forall>(w, c)\<in>set xs. count_list vs u \<le> c))"

lemma top_countsI:
  assumes "distinct (map fst xs)" "length xs \<le> k"
    and "\<And>w c. (w, c) \<in> set xs \<Longrightarrow> w \<in> set vs \<and> c = count_list vs w"
    and "\<And>u. u \<in> set vs \<Longrightarrow> u \<notin> fst ` set xs \<Longrightarrow> length xs = k \<and> (\<forall>w\<in>fst ` set xs. count_list vs u \<le> count_list vs w)"
  shows "top_counts k vs xs"
  unfolding top_counts_def using assms by force

lemma top_countsD:
  assumes "top_counts k vs xs"
  shows "distinct (map fst xs)" "length xs \<le> k" "\<And>w c. (w, c) \<in> set xs \<Longrightarrow> w \<in> set vs \<and> c = count_list vs w"
    and "\<And>u w. u \<in> set vs \<Longrightarrow> u \<notin> fst ` set xs \<Longrightarrow> w \<in> fst ` set xs \<Longrightarrow> count_list vs u \<le> count_list vs w"
    and "\<And>u. u \<in> set vs \<Longrightarrow> u \<notin> fst ` set xs \<Longrightarrow> length xs = k"
  using assms unfolding top_counts_def by force+

lemma count_list_snoc: "count_list (vs @ [v]) w = count_list vs w + (if w = v then 1 else 0)"
  by (simp add: count_list_append)

lemma top_counts_update:
  assumes "top_counts k vs xs" "v \<in> fst ` set xs"
  shows "top_counts k (vs @ [v]) (map (\<lambda>(w, d). if w = v then (w, count_list vs v + 1) else (w, d)) xs)"
proof (rule top_countsI)
  let ?ys = "map (\<lambda>(w, d). if w = v then (w, count_list vs v + 1) else (w, d)) xs"
  have fst: "map fst ?ys = map fst xs" by auto
  then show "distinct (map fst ?ys)" using top_countsD(1)[OF assms(1)] by (simp only:)
  have set: "fst ` set ?ys = fst ` set xs" using fst by (metis list.set_map)
  show "length ?ys \<le> k" using top_countsD(2)[OF assms(1)] by simp
  fix w c assume "(w, c) \<in> set ?ys"
  then obtain d where "(w, d) \<in> set xs" "c = (if w = v then count_list vs v + 1 else d)"
    by (auto split: if_splits)
  then show "w \<in> set (vs @ [v]) \<and> c = count_list (vs @ [v]) w"
    using top_countsD(3)[OF assms(1)] by (auto simp: count_list_snoc)
next
  let ?ys = "map (\<lambda>(w, d). if w = v then (w, count_list vs v + 1) else (w, d)) xs"
  have "map fst ?ys = map fst xs" by auto
  then have set: "fst ` set ?ys = fst ` set xs" by (metis list.set_map)
  fix u assume "u \<in> set (vs @ [v])" "u \<notin> fst ` set ?ys"
  then have u: "u \<noteq> v" "u \<in> set vs" "u \<notin> fst ` set xs" using assms(2) set by auto
  then have "\<forall>w\<in>fst ` set xs. count_list vs u \<le> count_list vs w" "length xs = k"
    using top_countsD(4,5)[OF assms(1)] by blast+
  then show "length ?ys = k \<and> (\<forall>w\<in>fst ` set ?ys. count_list (vs @ [v]) u \<le> count_list (vs @ [v]) w)"
    unfolding set using u(1) by (simp add: count_list_snoc le_SucI)
qed

lemma top_counts_replace:
  assumes top: "top_counts k vs (as @ (w, d) # bs)" and v: "v \<notin> fst ` set (as @ (w, d) # bs)"
    and d: "d < count_list vs v + 1"
  shows "top_counts k (vs @ [v]) (as @ (v, count_list vs v + 1) # bs)"
proof (rule top_countsI)
  let ?xs = "as @ (w, d) # bs" and ?ys = "as @ (v, count_list vs v + 1) # bs"
  note D = top_countsD[OF top]
  have w: "w \<in> set vs" "d = count_list vs w" "w \<noteq> v" using D(3)[of w d] v by auto
  then have "1 \<le> d" using count_list_0_iff[of vs w] by simp
  then have vs: "v \<in> set vs" using d count_list_0_iff[of vs v] by fastforce
  then have k: "length ?xs = k" "\<And>u. u \<in> fst ` set ?xs \<Longrightarrow> count_list vs v \<le> count_list vs u" using D(4,5) v by blast+
  show "distinct (map fst ?ys)" using D(1) v by auto
  show "length ?ys \<le> k" using D(2) by simp
  show "u \<in> set (vs @ [v]) \<and> c = count_list (vs @ [v]) u" if "(u, c) \<in> set ?ys" for u c
  proof (cases "(u, c) \<in> set ?xs")
    case True
    moreover have "u \<noteq> v" using True v by force
    ultimately show ?thesis using D(3)[of u c] by (simp add: count_list_snoc)
  next
    case False
    with that have "u = v" "c = count_list vs v + 1" by auto
    then show ?thesis by (simp add: count_list_snoc)
  qed
  fix u assume u: "u \<in> set (vs @ [v])" "u \<notin> fst ` set ?ys"
  then have u': "u \<noteq> v" "u \<in> set vs" by auto
  have le: "count_list vs u \<le> count_list vs v"
  proof (cases "u = w")
    case True
    then show ?thesis using w(2) d by simp
  next
    case False
    then have "u \<notin> fst ` set ?xs" using u(2) by auto
    then have "count_list vs u \<le> count_list vs w" using D(4)[OF u'(2), of w] by simp
    then show ?thesis using w(2) d by simp
  qed
  have "count_list (vs @ [v]) u \<le> count_list (vs @ [v]) x" if "x \<in> fst ` set ?ys" for x
  proof (cases "x = v")
    case True
    then show ?thesis using le u'(1) by (simp add: count_list_snoc)
  next
    case False
    then have "x \<in> fst ` set ?xs" using that by auto
    then show ?thesis using k(2)[of x] le u'(1) False by (simp add: count_list_snoc)
  qed
  then show "length ?ys = k \<and> (\<forall>x\<in>fst ` set ?ys. count_list (vs @ [v]) u \<le> count_list (vs @ [v]) x)"
    using k(1) by simp
qed

lemma top_counts_step:
  assumes top: "top_counts k vs xs"
  shows "top_counts k (vs @ [v]) (count_value k v (count_list vs v + 1) xs)"
proof (cases "v \<in> fst ` set xs")
  case True
  with top_counts_update[OF top True] show ?thesis by (simp only: count_value_def if_True)
next
  case False
  note D = top_countsD[OF top]
  let ?c = "count_list vs v + 1"
  have cv: "count_value k v ?c xs = place k v ?c xs" using False by (simp add: count_value_def)
  from D(2) show ?thesis
  proof (cases rule: place_cases[of xs k ?c v])
    case (replace as w d bs)
    then show ?thesis using top_counts_replace[of k vs as w d bs v] top False cv by simp
  next
    case append
    then have v: "v \<notin> set vs" using D(5) False by auto
    have "u \<in> fst ` set xs" if "u \<in> set vs" for u using D(5)[OF that] append(2) by auto
    then show ?thesis
      unfolding cv append(3) using D(1,2) append(2) False v
      by (intro top_countsI) (use D(3) in \<open>force simp: count_list_snoc count_list_0_iff\<close>)+
  next
    case full
    have le: "count_list vs v + 1 \<le> count_list vs w" if "w \<in> fst ` set xs" for w
      using full(1) that D(3) by force
    show ?thesis
      unfolding cv full(3)
    proof (rule top_countsI)
      show "w \<in> set (vs @ [v]) \<and> c = count_list (vs @ [v]) w" if "(w, c) \<in> set xs" for w c
        using D(3)[OF that] that False by (force simp: count_list_snoc)
      fix u assume u: "u \<in> set (vs @ [v])" "u \<notin> fst ` set xs"
      have "count_list (vs @ [v]) u \<le> count_list (vs @ [v]) w" if w: "w \<in> fst ` set xs" for w
      proof (cases "u = v")
        case True
        then show ?thesis using le[OF w] by (simp add: count_list_snoc)
      next
        case False
        then show ?thesis using D(4)[of u w] u w by (auto simp: count_list_snoc)
      qed
      then show "length xs = k \<and> (\<forall>w\<in>fst ` set xs. count_list (vs @ [v]) u \<le> count_list (vs @ [v]) w)"
        using full(2) by blast
    qed (use D in blast)+
  qed
qed

lemma mfv_spec_exact:
  "separated hash (set vs) \<Longrightarrow> top_counts k vs (mfv_spec k hash [] vs [])"
proof -
  have "separated hash V \<Longrightarrow> set vs \<subseteq> V \<Longrightarrow> top_counts k vs (mfv_spec k hash [] vs [])" for V
  proof (induction vs rule: rev_induct)
    case Nil
    then show ?case by (simp add: top_counts_def)
  next
    case (snoc v vs)
    have "estimate (map hash (vs @ [v])) (hash v) = count_list vs v + 1"
      using estimate_exact[OF snoc.prems, of v] by (simp add: count_list_append)
    then show ?case
      using top_counts_step[of k vs "mfv_spec k hash [] vs []" v] snoc mfv_spec_snoc[of k hash "[]" vs v "[]"] by simp
  qed
  then show "separated hash (set vs) \<Longrightarrow> top_counts k vs (mfv_spec k hash [] vs [])" by blast
qed

section \<open>Merging\<close>

definition recounted :: "byte list list \<Rightarrow> server \<Rightarrow> (byte list \<times> nat) list \<Rightarrow> (byte list \<times> nat) list" where
  "recounted hs srv = map (\<lambda>(v, c). (v, estimate hs (value_hash srv v)))"

lemma recount_list:
  assumes srv: "mfv_server srv oid L" and ok: "mfv_ok srv oid L t" and "length hs < 2 ^ 63 - 1"
    and new: "sketch new = sketch_of hs" "mfv_typOid new = oid"
  shows "\<exists>t'. recount srv new t = Inr t' \<and> mfv_ok srv oid L t' \<and> same_frame t t' \<and>
           mfv_list L t' = recounted hs srv (mfv_list L t)"
proof -
  let ?xs = "mfv_list L t"
  have len: "length ?xs = next_mfv t" by (rule length_mfv_list[OF ok])
  have "\<exists>t'. foldM (\<lambda>i t. rbind (mfv_datum srv t i) (\<lambda>dat.
            rbind (cmsketch_count_c srv (sketch new) dat (mfv_typOid new)) (\<lambda>n. set_cnt i (word_of_int n) t))) [0..<m] t = Inr t' \<and>
          mfv_ok srv oid L t' \<and> same_frame t t' \<and> mfv_list L t' = recounted hs srv (take m ?xs) @ drop m ?xs"
    if "m \<le> next_mfv t" for m
    using that
  proof (induction m)
    case 0
    then show ?case using ok by (simp add: same_frame_def recounted_def)
  next
    case (Suc m)
    obtain u where u: "foldM (\<lambda>i t. rbind (mfv_datum srv t i) (\<lambda>dat.
            rbind (cmsketch_count_c srv (sketch new) dat (mfv_typOid new)) (\<lambda>n. set_cnt i (word_of_int n) t))) [0..<m] t = Inr u"
      "mfv_ok srv oid L u" "same_frame t u" "mfv_list L u = recounted hs srv (take m ?xs) @ drop m ?xs"
      using Suc by auto
    have n: "next_mfv u = next_mfv t" "m < next_mfv u"
      using Suc.prems len length_mfv_list[OF u(2)] u(4) by (simp_all add: recounted_def)
    obtain v c where vc: "?xs ! m = (v, c)" by (cases "?xs ! m")
    have m: "mfv_list L u ! m = (v, c)" using u(4) vc n len by (simp add: recounted_def nth_append)
    obtain d where d: "mfv_datum srv u m = Inr d" "datum_ok L d" "datum_value L d = v"
      using datum_value_at[OF u(2) n(2)] m by auto
    have "md5_value srv d oid = Inr (value_hash srv v)" "length (value_hash srv v) = 16"
      using md5_value_fixed[OF _ d(2)] srv length_value_hash[OF srv] d(3) by (simp_all add: mfv_server_def)
    then have cnt: "cmsketch_count_c srv (sketch new) d (mfv_typOid new) = Inr (int (estimate hs (value_hash srv v)))"
      using cmsketch_count_estimate assms(3) new by simp
    let ?w = "word_of_int (int (estimate hs (value_hash srv v))) :: int64"
    obtain w where w: "set_cnt m ?w u = Inr w" "mfv_ok srv oid L w" "same_frame u w"
      "mfv_list L w = (mfv_list L u)[m := (fst (mfv_list L u ! m), unat ?w)]"
      using set_cnt_value[OF u(2) n(2)] by blast
    have "unat ?w = estimate hs (value_hash srv v)" using unat_estimate[of hs] assms(3) by simp
    then have "mfv_list L w = recounted hs srv (take (Suc m) ?xs) @ drop (Suc m) ?xs"
      using w(4) m u(4) vc n len
      by (simp add: recounted_def take_Suc_conv_app_nth list_update_append upd_conv_take_nth_drop
          flip: Cons_nth_drop_Suc del: of_int_of_nat_eq)
    then show ?case
      using u(1) d(1) cnt w(1,2) same_frame_trans[OF u(3) w(3)] by (simp add: foldM_append del: of_int_of_nat_eq)
  qed
  from this[of "next_mfv t"] len show ?thesis by (simp add: recount_def)
qed

lemma to_int32_mod: "to_int32 (x mod 2 ^ 64) = to_int32 x"
proof -
  have "(x mod 2 ^ 64) mod 2 ^ 32 = x mod 2 ^ 32" by (rule mod_mod_cancel) simp
  then show ?thesis unfolding to_int32_def by (metis mod_add_left_eq)
qed

lemma cnt_cmp_desc_order:
  assumes "unat (cnt i) < 2 ^ 31" "unat (cnt j) < 2 ^ 31"
  shows "cnt_cmp_desc i j \<le> 0 \<longleftrightarrow> unat (cnt j) \<le> unat (cnt i)"
proof -
  have "uint (cnt j - cnt i) = (int (unat (cnt j)) - int (unat (cnt i))) mod 2 ^ 64"
    unfolding uint_word_ariths(2) by simp
  then have "cnt_cmp_desc i j = to_int32 (int (unat (cnt j)) - int (unat (cnt i)))"
    unfolding cnt_cmp_desc_def by (simp only: to_int32_mod)
  moreover have "to_int32 (int b - int a) = int b - int a" if "a < 2 ^ 31" "b < 2 ^ 31" for a b
    using that by (intro to_int32_id) simp_all
  ultimately have "cnt_cmp_desc i j = int (unat (cnt j)) - int (unat (cnt i))" using assms by metis
  then show ?thesis by linarith
qed

lemma sort_mfvs_list:
  assumes ok: "mfv_ok srv oid L t" and "sorts qsort" and small: "\<forall>(v, c)\<in>set (mfv_list L t). c < 2 ^ 31"
  shows "mfv_ok srv oid L (sort_mfvs qsort t)" "mset (mfv_list L (sort_mfvs qsort t)) = mset (mfv_list L t)"
    and "sorted_wrt (\<lambda>x y. snd y \<le> snd x) (mfv_list L (sort_mfvs qsort t))" "same_frame t (sort_mfvs qsort t)"
proof -
  define es where "es = take (next_mfv t) (mfvs t)"
  define fs where "fs = qsort cnt_cmp_desc es"
  let ?s = "sort_mfvs qsort t"
  have m: "mset fs = mset es" unfolding fs_def by (rule sorts_mset[OF assms(2)])
  then have len: "length fs = next_mfv t" using ok mset_eq_length[OF m] by (simp add: es_def mfv_ok_def)
  have take: "take (next_mfv ?s) (mfvs ?s) = fs" using len by (simp add: sort_mfvs_def es_def fs_def)
  have list: "mfv_list L ?s = map (\<lambda>e. (entry_value L t e, unat (cnt e))) fs"
    "mfv_list L t = map (\<lambda>e. (entry_value L t e, unat (cnt e))) es"
    unfolding mfv_list_def take es_def by (simp_all add: entry_value_def sort_mfvs_def)
  then show "mset (mfv_list L ?s) = mset (mfv_list L t)" using m by simp
  have c: "unat (cnt e) < 2 ^ 31" if "e \<in> set es" for e using small that list(2) by auto
  have "sorted_wrt (\<lambda>x y. cnt_cmp_desc x y \<le> 0) fs"
    unfolding fs_def by (rule sorts_sorted[OF assms(2)]) (use c cnt_cmp_desc_order in auto)
  then have "sorted_wrt (\<lambda>x y. unat (cnt y) \<le> unat (cnt x)) fs"
    by (rule sorted_wrt_mono_rel[rotated]) (use c cnt_cmp_desc_order mset_eq_setD[OF m] in auto)
  then show "sorted_wrt (\<lambda>x y. snd y \<le> snd x) (mfv_list L ?s)" by (simp add: list sorted_wrt_map)
  show "same_frame t ?s" by (simp add: same_frame_def sort_mfvs_def)
  have "distinct (map offset fs)" using ok mset_eq_imp_distinct_iff[of "map offset fs" "map offset es"] m
    by (simp add: mfv_ok_def slots_ok_def es_def)
  then have "slots_ok L ?s"
    using ok mset_eq_setD[OF m] unfolding slots_ok_def take
    by (simp add: mfv_ok_def slots_ok_def es_def sort_mfvs_def)
  then show "mfv_ok srv oid L ?s"
    using ok len by (simp add: mfv_ok_def sort_mfvs_def es_def fs_def)
qed

text \<open>The first \<open>room\<close> entries of the merge of two lists with decreasing counts.\<close>

fun merge_top :: "nat \<Rightarrow> ('v \<times> nat) list \<Rightarrow> ('v \<times> nat) list \<Rightarrow> ('v \<times> nat) list" where
  "merge_top 0 xs ys = []"
| "merge_top (Suc room) (x # xs) (y # ys) =
     (if snd y \<le> snd x then x # merge_top room xs (y # ys) else y # merge_top room (x # xs) ys)"
| "merge_top (Suc room) (x # xs) [] = x # merge_top room xs []"
| "merge_top (Suc room) [] (y # ys) = y # merge_top room [] ys"
| "merge_top (Suc room) [] [] = []"

definition top_of :: "nat \<Rightarrow> ('v \<times> nat) list \<Rightarrow> ('v \<times> nat) multiset \<Rightarrow> bool" where
  "top_of k xs M \<longleftrightarrow> length xs = min k (size M) \<and> sorted_wrt (\<lambda>x y. snd y \<le> snd x) xs \<and>
     (\<exists>rest. mset xs + rest = M \<and> (\<forall>x\<in>set xs. \<forall>y\<in>#rest. snd y \<le> snd x))"

lemma top_of_Cons:
  assumes "top_of k xs M" "\<forall>y\<in>#M. snd y \<le> snd x"
  shows "top_of (Suc k) (x # xs) (add_mset x M)"
proof -
  obtain rest where rest: "mset xs + rest = M" "\<forall>x\<in>set xs. \<forall>y\<in>#rest. snd y \<le> snd x"
    using assms(1) by (auto simp: top_of_def)
  then have "\<forall>y\<in>set xs \<union> set_mset rest. snd y \<le> snd x" using assms(2) by auto
  then show ?thesis
    using assms(1) rest unfolding top_of_def by (intro conjI exI[of _ rest]) auto
qed

lemma merge_top_of:
  assumes "sorted_wrt (\<lambda>x y. snd y \<le> snd x) xs" "sorted_wrt (\<lambda>x y. snd y \<le> snd x) ys"
  shows "top_of room (merge_top room xs ys) (mset xs + mset ys)"
  using assms
proof (induction room xs ys rule: merge_top.induct)
  case (1 xs ys)
  then show ?case by (simp add: top_of_def)
next
  case (2 room x xs y ys)
  show ?case
  proof (cases "snd y \<le> snd x")
    case True
    then have "top_of room (merge_top room xs (y # ys)) (mset xs + mset (y # ys))" using 2 by simp
    then have "top_of (Suc room) (x # merge_top room xs (y # ys)) (add_mset x (mset xs + mset (y # ys)))"
      by (rule top_of_Cons) (use 2(3,4) True in auto)
    with True show ?thesis by (simp add: add_mset_commute)
  next
    case False
    then have "top_of room (merge_top room (x # xs) ys) (mset (x # xs) + mset ys)" using 2 by simp
    then have "top_of (Suc room) (y # merge_top room (x # xs) ys) (add_mset y (mset (x # xs) + mset ys))"
      by (rule top_of_Cons) (use 2(3,4) False in auto)
    with False show ?thesis by simp
  qed
next
  case (3 room x xs)
  then have "top_of (Suc room) (x # merge_top room xs []) (add_mset x (mset xs + mset []))"
    by (intro top_of_Cons) auto
  then show ?case by simp
next
  case (4 room y ys)
  then have "top_of (Suc room) (y # merge_top room [] ys) (add_mset y (mset [] + mset ys))"
    by (intro top_of_Cons) auto
  then show ?case by simp
next
  case (5 room)
  then show ?case by (simp add: top_of_def)
qed

lemma choose_mfvs_list:
  assumes ok1: "mfv_ok srv oid L t1" and ok2: "mfv_ok srv oid L t2"
  shows "mfv_ok srv oid L new \<Longrightarrow> i \<le> next_mfv t1 \<Longrightarrow> j \<le> next_mfv t2 \<Longrightarrow> next_mfv new = k \<Longrightarrow>
    k + room \<le> max_mfvs new \<Longrightarrow>
    \<exists>t. choose_mfvs srv t1 t2 room i j k new = Inr t \<and> mfv_ok srv oid L t \<and> same_frame new t \<and>
        mfv_list L t = mfv_list L new @ merge_top room (drop i (mfv_list L t1)) (drop j (mfv_list L t2))"
proof (induction room arbitrary: i j k new)
  case 0
  then show ?case by (simp add: same_frame_def)
next
  case (Suc room)
  note len = length_mfv_list[OF ok1] length_mfv_list[OF ok2]
  have split1: "drop i (mfv_list L t1) = mfv_list L t1 ! i # drop (Suc i) (mfv_list L t1)" if "i < next_mfv t1"
    using that len(1) by (simp add: Cons_nth_drop_Suc)
  have split2: "drop j (mfv_list L t2) = mfv_list L t2 ! j # drop (Suc j) (mfv_list L t2)" if "j < next_mfv t2"
    using that len(2) by (simp add: Cons_nth_drop_Suc)
  have copied: "\<exists>w. rbind (mfv_datum srv t m) (\<lambda>d. rbind (mfv_transval_append srv new d) (\<lambda>new.
        rbind (set_cnt k (cnt (mfvs t ! m)) new) f)) = f w \<and> mfv_ok srv oid L w \<and> same_frame new w \<and>
        mfv_list L w = mfv_list L new @ [mfv_list L t ! m]"
    if ok: "mfv_ok srv oid L t" and m: "m < next_mfv t" for t m and f :: "mfvtransval \<Rightarrow> mfvtransval res"
  proof -
    obtain d where d: "mfv_datum srv t m = Inr d" "datum_ok L d" "datum_value L d = fst (mfv_list L t ! m)"
      using datum_value_at[OF ok m] by blast
    obtain w where w: "rbind (mfv_transval_append srv new d) (set_cnt k (cnt (mfvs t ! m))) = Inr w"
      "mfv_ok srv oid L w" "same_frame new w" "mfv_list L w = mfv_list L new @ [(datum_value L d, unat (cnt (mfvs t ! m)))]"
      using append_counted[OF Suc.prems(1) _ d(2), of "cnt (mfvs t ! m)"] Suc.prems(4,5) by auto
    have "rbind (mfv_transval_append srv new d) (\<lambda>new. rbind (set_cnt k (cnt (mfvs t ! m)) new) f) = f w"
      using w(1) by (cases "mfv_transval_append srv new d") simp_all
    then show ?thesis using d w(2-4) nth_mfv_list[OF ok m] by auto
  qed
  have room': "next_mfv w = k + 1" "k + 1 + room \<le> max_mfvs w"
    if "mfv_ok srv oid L w" "same_frame new w" "mfv_list L w = mfv_list L new @ [x]" for w x
    using that length_mfv_list[OF Suc.prems(1)] length_mfv_list[OF that(1)] Suc.prems(4,5) by (simp_all add: same_frame_def)
  have le: "cnt (mfvs t2 ! j) \<le> cnt (mfvs t1 ! i) \<longleftrightarrow> snd (mfv_list L t2 ! j) \<le> snd (mfv_list L t1 ! i)"
    if "i < next_mfv t1" "j < next_mfv t2"
    using that nth_mfv_list[OF ok1] nth_mfv_list[OF ok2] by (simp add: word_le_nat_alt)
  consider (none) "\<not> i < next_mfv t1" "\<not> j < next_mfv t2"
    | (first) "i < next_mfv t1" "\<not> j < next_mfv t2 \<or> cnt (mfvs t2 ! j) \<le> cnt (mfvs t1 ! i)"
    | (second) "j < next_mfv t2" "\<not> i < next_mfv t1 \<or> \<not> cnt (mfvs t2 ! j) \<le> cnt (mfvs t1 ! i)" by blast
  then show ?case
  proof cases
    case none
    then show ?thesis using Suc.prems(1) len by (simp add: same_frame_def)
  next
    case first
    obtain w where w: "choose_mfvs srv t1 t2 (Suc room) i j k new = choose_mfvs srv t1 t2 room (i + 1) j (k + 1) w"
      "mfv_ok srv oid L w" "same_frame new w" "mfv_list L w = mfv_list L new @ [mfv_list L t1 ! i]"
      using copied[OF ok1 first(1), of "choose_mfvs srv t1 t2 room (i + 1) j (k + 1)"] first Suc.prems(3) by auto
    have "i + 1 \<le> next_mfv t1" using first(1) by simp
    then obtain u where u: "choose_mfvs srv t1 t2 room (i + 1) j (k + 1) w = Inr u" "mfv_ok srv oid L u" "same_frame w u"
      "mfv_list L u = mfv_list L w @ merge_top room (drop (Suc i) (mfv_list L t1)) (drop j (mfv_list L t2))"
      using Suc.IH[OF w(2) _ Suc.prems(3) room'[OF w(2-4)], of "i + 1"] by auto
    have "merge_top (Suc room) (drop i (mfv_list L t1)) (drop j (mfv_list L t2)) =
        mfv_list L t1 ! i # merge_top room (drop (Suc i) (mfv_list L t1)) (drop j (mfv_list L t2))"
      using first le[OF first(1)] split1 split2 len(2) by (cases "j < next_mfv t2") simp_all
    then show ?thesis using w u same_frame_trans[OF w(3)] by auto
  next
    case second
    have "choose_mfvs srv t1 t2 (Suc room) i j k new =
        rbind (mfv_datum srv t2 j) (\<lambda>d. rbind (mfv_transval_append srv new d) (\<lambda>new.
          rbind (set_cnt k (cnt (mfvs t2 ! j)) new) (choose_mfvs srv t1 t2 room i (j + 1) (k + 1))))"
      using second Suc.prems(2) by (cases "i < next_mfv t1") (simp_all flip: not_le)
    then obtain w where w: "choose_mfvs srv t1 t2 (Suc room) i j k new = choose_mfvs srv t1 t2 room i (j + 1) (k + 1) w"
      "mfv_ok srv oid L w" "same_frame new w" "mfv_list L w = mfv_list L new @ [mfv_list L t2 ! j]"
      using copied[OF ok2 second(1), of "choose_mfvs srv t1 t2 room i (j + 1) (k + 1)"] by metis
    have "j + 1 \<le> next_mfv t2" using second(1) by simp
    then obtain u where u: "choose_mfvs srv t1 t2 room i (j + 1) (k + 1) w = Inr u" "mfv_ok srv oid L u" "same_frame w u"
      "mfv_list L u = mfv_list L w @ merge_top room (drop i (mfv_list L t1)) (drop (Suc j) (mfv_list L t2))"
      using Suc.IH[OF w(2) Suc.prems(2) _ room'[OF w(2-4)], of "j + 1"] by auto
    have "merge_top (Suc room) (drop i (mfv_list L t1)) (drop j (mfv_list L t2)) =
        mfv_list L t2 ! j # merge_top room (drop i (mfv_list L t1)) (drop (Suc j) (mfv_list L t2))"
      using second le[OF _ second(1)] split1 split2 len(1) by (cases "i < next_mfv t1") simp_all
    then show ?thesis using w u same_frame_trans[OF w(3)] by auto
  qed
qed

text \<open>A transition value, perhaps not initialised.\<close>

definition mfv_repr :: "server \<Rightarrow> nat \<Rightarrow> nat \<Rightarrow> nat \<Rightarrow> byte list list \<Rightarrow> mfvtransval option \<Rightarrow> bool" where
  "mfv_repr srv oid L k vs st \<longleftrightarrow> (case st of None \<Rightarrow> vs = [] | Some t \<Rightarrow> mfv_state srv oid L k vs t)"

definition mfv_entries :: "nat \<Rightarrow> mfvtransval option \<Rightarrow> (byte list \<times> nat) list" where
  "mfv_entries L st = (case st of None \<Rightarrow> [] | Some t \<Rightarrow> mfv_list L t)"

lemma merge_states:
  assumes srv: "mfv_server srv oid L" and size: "int L * (int k * int L) < 2 ^ 31" and qs: "sorts qsort"
    and s1: "mfv_state srv oid L k vs t1" and s2: "mfv_state srv oid L k ws t2"
    and len: "length vs + length ws < 2 ^ 31"
  shows "\<exists>t. mfvsketch_merge_c srv qsort (Some t1) (Some t2) = Inr (Some t) \<and> mfv_ok srv oid L t \<and> max_mfvs t = k \<and>
           sketch t = sketch_of (map (value_hash srv) (vs @ ws)) \<and>
           top_of k (mfv_list L t) (mset (recounted (map (value_hash srv) (vs @ ws)) srv (mfv_list L t1)) +
             mset (recounted (map (value_hash srv) (vs @ ws)) srv (mfv_list L t2)))"
proof -
  let ?hs = "map (value_hash srv) (vs @ ws)"
  have len': "length ?hs < 2 ^ 63 - 1" using len by simp
  have ok: "mfv_ok srv oid L t1" "mfv_ok srv oid L t2" and k: "max_mfvs t1 = k"
    and sk: "sketch t1 = sketch_of (map (value_hash srv) vs)" "sketch t2 = sketch_of (map (value_hash srv) ws)"
    using s1 s2 unfolding mfv_state_def by blast+
  have oid: "mfv_typOid t1 = oid" using ok(1) by (simp add: mfv_ok_def)
  obtain t0 where t0: "mfv_init_transval srv k oid = Inr t0" "mfv_state srv oid L k [] t0"
    using mfv_init_state[OF srv size] by blast
  define new where "new = t0\<lparr>sketch := add_sketches (sketch t1) (sketch t2)\<rparr>"
  have sknew: "sketch new = sketch_of ?hs" using sk by (simp add: new_def add_sketches_append)
  have ok0: "mfv_ok srv oid L t0" "mfv_list L t0 = []" "max_mfvs t0 = k" using t0(2) by (simp_all add: mfv_state_def)
  then have new: "mfv_ok srv oid L new" "mfv_list L new = []" "max_mfvs new = k" "mfv_typOid new = oid"
    by (simp_all add: new_def mfv_ok_def slots_ok_def mfv_list_def)
  then have new0: "next_mfv new = 0" using length_mfv_list[OF new(1)] by simp
  obtain u1 where u1: "recount srv new t1 = Inr u1" "mfv_ok srv oid L u1" "mfv_list L u1 = recounted ?hs srv (mfv_list L t1)"
    using recount_list[OF srv ok(1) len' sknew new(4)] by blast
  obtain u2 where u2: "recount srv new t2 = Inr u2" "mfv_ok srv oid L u2" "mfv_list L u2 = recounted ?hs srv (mfv_list L t2)"
    using recount_list[OF srv ok(2) len' sknew new(4)] by blast
  have small: "\<forall>(v, c)\<in>set (recounted ?hs srv xs). c < 2 ^ 31" for xs
    using le_less_trans[OF estimate_le[of ?hs]] len by (auto simp: recounted_def)
  note so1 = sort_mfvs_list[OF u1(2) qs small[of "mfv_list L t1", folded u1(3)]]
  note so2 = sort_mfvs_list[OF u2(2) qs small[of "mfv_list L t2", folded u2(3)]]
  obtain t where t: "choose_mfvs srv (sort_mfvs qsort u1) (sort_mfvs qsort u2) k 0 0 0 new = Inr t" "mfv_ok srv oid L t"
    "same_frame new t" "mfv_list L t = merge_top k (mfv_list L (sort_mfvs qsort u1)) (mfv_list L (sort_mfvs qsort u2))"
    using choose_mfvs_list[OF so1(1) so2(1) new(1), of 0 0 0 k] new new0 by auto
  have "mfvsketch_merge_c srv qsort (Some t1) (Some t2) = Inr (Some t)"
    using t0(1) u1(1) u2(1) t(1) new(3) ok0(3) k oid by (simp add: mfvsketch_merge_c_def Let_def flip: new_def)
  moreover have "top_of k (mfv_list L t) (mset (mfv_list L u1) + mset (mfv_list L u2))"
    unfolding t(4) so1(2)[symmetric] so2(2)[symmetric] by (rule merge_top_of[OF so1(3) so2(3)])
  ultimately show ?thesis using t(2,3) new(3) sknew u1(3) u2(3) by (auto simp: same_frame_def)
qed

lemma merge_repr:
  assumes srv: "mfv_server srv oid L" and size: "int L * (int k * int L) < 2 ^ 31" and qs: "sorts qsort"
    and r: "mfv_repr srv oid L k vs a" "mfv_repr srv oid L k ws b" "a \<noteq> None \<or> b \<noteq> None"
    and len: "length vs + length ws < 2 ^ 31"
  shows "\<exists>t. mfvsketch_merge_c srv qsort a b = Inr (Some t) \<and> mfv_ok srv oid L t \<and> max_mfvs t = k \<and>
           sketch t = sketch_of (map (value_hash srv) (vs @ ws)) \<and>
           top_of k (mfv_list L t) (mset (recounted (map (value_hash srv) (vs @ ws)) srv (mfv_entries L a)) +
             mset (recounted (map (value_hash srv) (vs @ ws)) srv (mfv_entries L b)))"
proof -
  obtain t0 where t0: "mfv_init_transval srv k oid = Inr t0" "mfv_state srv oid L k [] t0"
    using mfv_init_state[OF srv size] by blast
  have ty: "max_mfvs t = k \<and> mfv_typOid t = oid" if "mfv_state srv oid L k xs t" for xs t
    using that by (simp add: mfv_state_def mfv_ok_def)
  define u where "u = (\<lambda>st. case st of None \<Rightarrow> t0 | Some t \<Rightarrow> t)"
  have "mfv_state srv oid L k vs (u a)" "mfv_state srv oid L k ws (u b)"
    using r(1,2) t0(2) by (auto simp: u_def mfv_repr_def split: option.splits)
  moreover have "mfv_list L t0 = []" using t0(2) by (simp add: mfv_state_def)
  then have "mfv_entries L a = mfv_list L (u a)" "mfv_entries L b = mfv_list L (u b)"
    by (auto simp: u_def mfv_entries_def split: option.splits)
  moreover have "mfvsketch_merge_c srv qsort a b = mfvsketch_merge_c srv qsort (Some (u a)) (Some (u b))"
    using r ty t0(1) by (cases a; cases b) (simp_all add: mfvsketch_merge_c_def u_def mfv_repr_def)
  ultimately show ?thesis using merge_states[OF srv size qs _ _ len] by metis
qed

section \<open>The histogram\<close>

text \<open>The rows of the histogram for a list of values with counts; \<open>es\<close> are datums of the values.\<close>

definition histogram :: "server \<Rightarrow> (nat \<Rightarrow> datum \<Rightarrow> string) \<Rightarrow> nat \<Rightarrow> datum list \<Rightarrow> nat list \<Rightarrow> (string \<times> string) list" where
  "histogram srv output oid es cs =
     map2 (\<lambda>e c. (output (typ_output srv oid) e, output (typ_output srv INT8OID) (Word (of_nat c)))) es cs"

lemma final_rows:
  assumes ok: "mfv_ok srv oid L t" and qs: "sorts qsort" and small: "\<forall>(v, c)\<in>set (mfv_list L t). c < 2 ^ 31"
  shows "\<exists>ys es. mset ys = mset (mfv_list L t) \<and> sorted_wrt (\<lambda>x y. snd y \<le> snd x) ys \<and>
           map (datum_value L) es = map fst ys \<and>
           mfvsketch_final srv qsort output (Some t) = Inr (Some (histogram srv output oid es (map snd ys)))"
proof -
  let ?s = "sort_mfvs qsort t"
  note so = sort_mfvs_list[OF assms]
  let ?n = "next_mfv ?s"
  have len: "length (mfv_list L ?s) = ?n" "?n \<le> length (mfvs ?s)"
    using length_mfv_list[OF so(1)] so(1) by (simp_all add: mfv_ok_def)
  define E where "E = (\<lambda>i. projr (mfv_datum srv ?s i))"
  have E: "mfv_datum srv ?s i = Inr (E i)" "datum_value L (E i) = fst (mfv_list L ?s ! i)" if "i < ?n" for i
    using datum_value_at[OF so(1) that] by (auto simp: E_def)
  define es where "es = map E [0..<?n]"
  have out: "mfv_outFuncOid ?s = typ_output srv oid" using so(1) by (simp add: mfv_ok_def)
  have cnt: "cnt (mfvs ?s ! i) = of_nat (snd (mfv_list L ?s ! i))" if "i < ?n" for i
    using nth_mfv_list[OF so(1) that] by simp
  have "mapM (\<lambda>i. rbind (mfv_datum srv ?s i) (\<lambda>curval. rbind (nth_res (mfvs ?s) (int i)) (\<lambda>e.
            Inr (output (mfv_outFuncOid ?s) curval, output (typ_output srv INT8OID) (Word (cnt e)))))) [0..<?n] =
      Inr (map (\<lambda>i. (output (typ_output srv oid) (E i), output (typ_output srv INT8OID) (Word (of_nat (snd (mfv_list L ?s ! i)))))) [0..<?n])"
    using E(1) cnt len(2) out by (intro mapM_map) simp
  also have "map (\<lambda>i. (output (typ_output srv oid) (E i), output (typ_output srv INT8OID) (Word (of_nat (snd (mfv_list L ?s ! i)))))) [0..<?n] =
      histogram srv output oid es (map snd (mfv_list L ?s))"
    using len(1) by (intro nth_equalityI) (simp_all add: histogram_def es_def)
  finally have "mfvsketch_final srv qsort output (Some t) =
      Inr (Some (histogram srv output oid es (map snd (mfv_list L ?s))))"
    by (simp add: mfvsketch_final_def Let_def)
  moreover have "map (datum_value L) es = map fst (mfv_list L ?s)"
    using E(2) len(1) by (intro nth_equalityI) (simp_all add: es_def)
  ultimately show ?thesis using so(2,3) by blast
qed


section \<open>Properties\<close>

text \<open>
  C12: The transition refines the specification: after any rows of values of a fixed length the array
  holds what \<open>mfv_spec\<close> computes with the estimates of the CountMin sketch of the values.  So the array
  has at most \<open>k\<close> entries, of different values of the rows, and no counter is below the number of
  occurrences of its value or above the number of rows.
\<close>

theorem mfv_refines:
  assumes "mfv_server srv oid L" "int L * (int k * int L) < 2 ^ 31"
    and "\<forall>d\<in>set ds. datum_ok L d" "length ds < 2 ^ 63 - 1" "ds \<noteq> []"
  shows "\<exists>t. mfv_agg srv oid k ds = Inr (Some t) \<and>
           sketch t = sketch_of (map (value_hash srv) (map (datum_value L) ds)) \<and>
           mfv_list L t = mfv_spec k (value_hash srv) [] (map (datum_value L) ds) [] \<and>
           length (mfv_list L t) \<le> k \<and> distinct (map fst (mfv_list L t)) \<and>
           (\<forall>(v, c)\<in>set (mfv_list L t). v \<in> datum_value L ` set ds \<and>
              count_list (map (datum_value L) ds) v \<le> c \<and> c \<le> length ds)"
  using mfv_agg_state[OF assms] mfv_spec_bounds[of k "value_hash srv" "map (datum_value L) ds"]
  by (auto simp: mfv_state_def)

text \<open>A server on which the values [1, 2] and all others have different hashes.\<close>

definition two_hash_server :: server where
  "two_hash_server = example_server\<lparr>md5_hash := (\<lambda>bs. replicate 32 (if bs = [1, 2] then 49 else 50))\<rparr>"

lemma two_hash_mfv: "mfv_server two_hash_server 1 2"
  by (simp add: mfv_server_def two_hash_server_def example_server_def fixed_type_def)

lemma two_hash_value: "value_hash two_hash_server v = replicate 16 (if v = [1, 2] then 0x11 else 0x22)"
proof -
  have "hex_to_bytes (take 32 (replicate 32 49)) = replicate 16 0x11" "hex_to_bytes (take 32 (replicate 32 50)) = replicate 16 0x22"
    by code_simp+
  then show ?thesis by (simp add: value_hash_def two_hash_server_def)
qed

definition example_rows :: "datum list" where
  "example_rows = [Ptr [1, 2], Ptr [3, 4], Ptr [3, 4]]"

lemma example_rows_ok: "\<forall>d\<in>set example_rows. datum_ok 2 d" "map (datum_value 2) example_rows = [[1, 2], [3, 4], [3, 4]]"
  by (simp_all add: example_rows_def datum_ok_def datum_value_def DatumExtractPointer_def numeral_2_eq_2)

theorem mfv_refines_witness:
  "\<exists>t. mfv_agg two_hash_server 1 1 example_rows = Inr (Some t) \<and> length (mfv_list 2 t) \<le> 1"
  using mfv_refines[OF two_hash_mfv, of 1 example_rows] example_rows_ok by (auto simp: example_rows_def)

text \<open>
  C13: When no value collides with the others in every row of the sketch, the histogram lists, in
  the order of decreasing counts, values with their exact number of occurrences, and a value
  of the rows is missing only when there are \<open>k\<close> others that occur at least as often.
\<close>

theorem mfv_exact_histogram:
  assumes "mfv_server srv oid L" "int L * (int k * int L) < 2 ^ 31" "sorts qsort"
    and "\<forall>d\<in>set ds. datum_ok L d" "length ds < 2 ^ 31" "ds \<noteq> []"
    and "separated (value_hash srv) (datum_value L ` set ds)"
  shows "\<exists>st ys es. mfv_agg srv oid k ds = Inr st \<and>
           mfvsketch_final srv qsort output st = Inr (Some (histogram srv output oid es (map snd ys))) \<and>
           map (datum_value L) es = map fst ys \<and> sorted_wrt (\<lambda>x y. snd y \<le> snd x) ys \<and>
           top_counts k (map (datum_value L) ds) ys"
proof -
  let ?vs = "map (datum_value L) ds"
  obtain t where t: "mfv_agg srv oid k ds = Inr (Some t)" "mfv_state srv oid L k ?vs t"
    using mfv_agg_state[OF assms(1,2,4) _ assms(6)] assms(5) by auto
  then have ok: "mfv_ok srv oid L t" and spec: "mfv_list L t = mfv_spec k (value_hash srv) [] ?vs []"
    by (simp_all add: mfv_state_def)
  have top: "top_counts k ?vs (mfv_list L t)"
    using mfv_spec_exact[of "value_hash srv" ?vs k] assms(7) spec by simp
  have "\<forall>(v, c)\<in>set (mfv_list L t). c < 2 ^ 31"
    using mfv_spec_bounds[of k "value_hash srv" ?vs] assms(5) unfolding spec by auto
  from final_rows[OF ok assms(3) this] obtain ys es where ys: "mset ys = mset (mfv_list L t)"
    "sorted_wrt (\<lambda>x y. snd y \<le> snd x) ys" "map (datum_value L) es = map fst ys"
    "mfvsketch_final srv qsort output (Some t) = Inr (Some (histogram srv output oid es (map snd ys)))" by blast
  have "top_counts k ?vs ys"
    using top mset_eq_setD[OF ys(1)] mset_eq_length[OF ys(1)]
      mset_eq_imp_distinct_iff[of "map fst ys" "map fst (mfv_list L t)"] ys(1)
    unfolding top_counts_def by simp
  with t ys show ?thesis by blast
qed

theorem mfv_exact_histogram_witness:
  "\<exists>st ys. mfv_agg two_hash_server 1 1 example_rows = Inr st \<and> top_counts 1 [[1, 2], [3, 4], [3, 4 :: byte]] ys \<and>
     (\<exists>es. mfvsketch_final two_hash_server insertion_sort (\<lambda>_ _. ''x'') st =
        Inr (Some (histogram two_hash_server (\<lambda>_ _. ''x'') 1 es (map snd ys))))"
proof -
  have "col (replicate 16 0x11) 0 \<noteq> col (replicate 16 0x22) 0" by code_simp
  then have "separated (value_hash two_hash_server) V" if "V \<subseteq> {[1, 2], [3, 4]}" for V
    using that unfolding separated_def two_hash_value by (intro ballI exI[of _ 0]) (auto simp: DEPTH_def)
  then have "separated (value_hash two_hash_server) (datum_value 2 ` set example_rows)"
    using arg_cong[OF example_rows_ok(2), of set] by simp
  then show ?thesis
    using mfv_exact_histogram[OF two_hash_mfv _ insertion_sort_sorts example_rows_ok(1), of 1 "\<lambda>_ _. ''x''"]
    unfolding example_rows_ok(2) by (auto simp: example_rows_def)
qed

text \<open>
  Merging two transition values, of which one may be uninitialised, adds the sketches, counts the
  values of both arrays anew, and keeps the \<open>k\<close> entries with the largest counts of the two arrays
  together.  The arrays are joined as multisets: a value that is in both appears twice.
\<close>

theorem mfv_merge_top:
  assumes "mfv_server srv oid L" "int L * (int k * int L) < 2 ^ 31" "sorts qsort"
    and "mfv_repr srv oid L k vs a" "mfv_repr srv oid L k ws b" "a \<noteq> None \<or> b \<noteq> None"
    and "length vs + length ws < 2 ^ 31"
  shows "\<exists>t. mfvsketch_merge_c srv qsort a b = Inr (Some t) \<and>
           sketch t = sketch_of (map (value_hash srv) (vs @ ws)) \<and>
           top_of k (mfv_list L t) (mset (recounted (map (value_hash srv) (vs @ ws)) srv (mfv_entries L a)) +
             mset (recounted (map (value_hash srv) (vs @ ws)) srv (mfv_entries L b)))"
  using merge_repr[OF assms] by blast

theorem mfv_merge_top_witness:
  "\<exists>a t. mfv_agg two_hash_server 1 2 [Ptr [3, 4]] = Inr a \<and>
     mfvsketch_merge_c two_hash_server insertion_sort a a = Inr (Some t) \<and>
     map fst (mfv_list 2 t) = [[3, 4], [3, 4]]"
proof -
  have d: "\<forall>d\<in>set [Ptr [3, 4]]. datum_ok 2 d" "map (datum_value 2) [Ptr [3, 4]] = [[3, 4]]"
    by (simp_all add: datum_ok_def datum_value_def DatumExtractPointer_def numeral_2_eq_2)
  obtain t where t: "mfv_agg two_hash_server 1 2 [Ptr [3, 4]] = Inr (Some t)" "mfv_state two_hash_server 1 2 2 [[3, 4]] t"
    using mfv_agg_state[OF two_hash_mfv _ d(1), of 2] d(2) by auto
  then have repr: "mfv_repr two_hash_server 1 2 2 [[3, 4]] (Some t)" by (simp add: mfv_repr_def)
  obtain c where "mfv_list 2 t = [([3, 4], c)]" using t(2) by (auto simp: mfv_state_def count_value_def)
  moreover obtain u where u: "mfvsketch_merge_c two_hash_server insertion_sort (Some t) (Some t) = Inr (Some u)"
    "top_of 2 (mfv_list 2 u) (mset (recounted (map (value_hash two_hash_server) ([[3, 4]] @ [[3, 4]])) two_hash_server (mfv_entries 2 (Some t))) +
       mset (recounted (map (value_hash two_hash_server) ([[3, 4]] @ [[3, 4]])) two_hash_server (mfv_entries 2 (Some t))))"
    using mfv_merge_top[OF two_hash_mfv _ insertion_sort_sorts repr repr] by auto
  ultimately obtain d where "top_of 2 (mfv_list 2 u) {#([3, 4], d), ([3, 4], d)#}"
    by (simp add: mfv_entries_def recounted_def)
  then obtain rest where r: "mset (mfv_list 2 u) + rest = {#([3, 4], d), ([3, 4], d)#}" "length (mfv_list 2 u) = 2"
    by (auto simp: top_of_def)
  have "size rest = 0" using arg_cong[OF r(1), of size] r(2) by simp
  then have "set (mfv_list 2 u) = {([3, 4], d)}" using arg_cong[OF r(1), of set_mset] by simp
  with r(2) have "mfv_list 2 u = replicate 2 ([3, 4], d)" by (metis replicate_eqI singletonD)
  then show ?thesis using t u by (auto simp: numeral_2_eq_2)
qed

end
