(* ===== verification/Float32.thy ===== *)
theory Float32
  imports Float64
begin

text \<open>
  The C type \<open>float\<close> (\<open>float4\<close> of the server) as its 32-bit pattern.  Conversion to \<open>double\<close> is exact,
  and an operation rounded to \<open>double\<close> and then to \<open>float\<close> is the operation rounded to \<open>float\<close>, because
  a \<open>double\<close> has more than twice the digits of a \<open>float\<close>; so the arithmetic is that of \<open>Float64\<close>
  between conversions.
\<close>

type_synonym float4 = "32 word"

definition f32_inf_bits :: int where
  "f32_inf_bits = 0x7F800000"

definition f32_sign :: "float4 \<Rightarrow> bool" where
  "f32_sign x \<longleftrightarrow> uint x \<ge> 2 ^ 31"

definition f32_mag :: "float4 \<Rightarrow> int" where
  "f32_mag x = uint x mod 2 ^ 31"

definition f32_of_bits :: "bool \<Rightarrow> int \<Rightarrow> float4" where
  "f32_of_bits sg b = word_of_int (b + (if sg then 2 ^ 31 else 0))"

text \<open>The value as a double; a NaN becomes quiet and keeps its sign and the top of its payload.\<close>

definition f64_of_f32 :: "float4 \<Rightarrow> float8" where
  "f64_of_f32 x =
     (let b = f32_mag x; e = b div 2 ^ 23; f = b mod 2 ^ 23 in
      if b > f32_inf_bits then f64_quiet (f64_of_bits (f32_sign x) (f64_inf_bits + f * 2 ^ 29))
      else if b = f32_inf_bits then f64_of_bits (f32_sign x) f64_inf_bits
      else if e = 0 then f64_round (f32_sign x) f (- 149)
      else f64_round (f32_sign x) (f + 2 ^ 23) (e - 150))"

definition f32_of_f64 :: "float8 \<Rightarrow> float4" where
  "f32_of_f64 x =
     (let sg = f64_sign x; b = f64_mag x in
      if b > f64_inf_bits then f32_of_bits sg f32_inf_bits OR word_of_int (b mod 2 ^ 52 div 2 ^ 29) OR 0x00400000
      else if b = f64_inf_bits then f32_of_bits sg f32_inf_bits
      else let (m, e) = f64_unpack b in
           if m = 0 then f32_of_bits sg 0
           else let e' = max (e + bitlen m - 24) (- 149);
                    mant = (if e' \<le> e then m * 2 ^ nat (e - e') else round_shift m (nat (e' - e)))
                in f32_of_bits sg (min ((e' + 149) * 2 ^ 23 + mant) f32_inf_bits))"

definition f32_add :: "float4 \<Rightarrow> float4 \<Rightarrow> float4" where
  "f32_add x y = f32_of_f64 (f64_add (f64_of_f32 x) (f64_of_f32 y))"

definition f32_sub :: "float4 \<Rightarrow> float4 \<Rightarrow> float4" where
  "f32_sub x y = f32_of_f64 (f64_sub (f64_of_f32 x) (f64_of_f32 y))"

definition f32_mul :: "float4 \<Rightarrow> float4 \<Rightarrow> float4" where
  "f32_mul x y = f32_of_f64 (f64_mul (f64_of_f32 x) (f64_of_f32 y))"

definition f32_div :: "float4 \<Rightarrow> float4 \<Rightarrow> float4" where
  "f32_div x y = f32_of_f64 (f64_div (f64_of_f32 x) (f64_of_f32 y))"

definition f32_lt :: "float4 \<Rightarrow> float4 \<Rightarrow> bool" where
  "f32_lt x y \<longleftrightarrow> f64_lt (f64_of_f32 x) (f64_of_f32 y)"

definition f32_eq :: "float4 \<Rightarrow> float4 \<Rightarrow> bool" where
  "f32_eq x y \<longleftrightarrow> f64_eq (f64_of_f32 x) (f64_of_f32 y)"

end
