(* ===== verification/ArrayOps.thy ===== *)
theory ArrayOps
  imports Float32 SketchSupport "HOL-Library.Signed_Division"
begin

text \<open>
  The array operations of \<open>methods/array_ops/src/pg_gp/array_ops.c\<close>: functions on one element, four
  generic loops over arrays, and the SQL functions that combine them.

  A \<open>Datum\<close> is a 64-bit word here: all five element types are passed by value, a narrow one in the low
  bits with zeros above.  \<open>arr_data\<close> are the bytes of the elements that are not NULL, without padding;
  the bytes of a number come least significant first.
\<close>

section \<open>Datums\<close>

type_synonym dat = int64

definition INT2OID :: nat where "INT2OID = 21"
definition INT4OID :: nat where "INT4OID = 23"
definition INT8OID :: nat where "INT8OID = 20"
definition FLOAT4OID :: nat where "FLOAT4OID = 700"
definition FLOAT8OID :: nat where "FLOAT8OID = 701"

definition supported :: "nat \<Rightarrow> bool" where
  "supported ty \<longleftrightarrow> ty = INT2OID \<or> ty = INT4OID \<or> ty = INT8OID \<or> ty = FLOAT4OID \<or> ty = FLOAT8OID"

text \<open>The length of a supported type in the type cache.\<close>

definition type_size :: "nat \<Rightarrow> nat" where
  "type_size ty = (if ty = INT2OID then 2 else if ty = INT4OID \<or> ty = FLOAT4OID then 4 else 8)"

definition DatumGetInt16 :: "dat \<Rightarrow> 16 word" where "DatumGetInt16 d = ucast d"
definition DatumGetInt32 :: "dat \<Rightarrow> 32 word" where "DatumGetInt32 d = ucast d"
definition DatumGetInt64 :: "dat \<Rightarrow> 64 word" where "DatumGetInt64 d = d"
definition DatumGetFloat4 :: "dat \<Rightarrow> float4" where "DatumGetFloat4 d = ucast d"
definition DatumGetFloat8 :: "dat \<Rightarrow> float8" where "DatumGetFloat8 d = d"
definition Int16GetDatum :: "16 word \<Rightarrow> dat" where "Int16GetDatum x = ucast x"
definition Int32GetDatum :: "32 word \<Rightarrow> dat" where "Int32GetDatum x = ucast x"
definition Int64GetDatum :: "64 word \<Rightarrow> dat" where "Int64GetDatum x = x"
definition Float4GetDatum :: "float4 \<Rightarrow> dat" where "Float4GetDatum x = ucast x"
definition Float8GetDatum :: "float8 \<Rightarrow> dat" where "Float8GetDatum x = x"

lemmas datum_defs =
  DatumGetInt16_def DatumGetInt32_def DatumGetInt64_def DatumGetFloat4_def DatumGetFloat8_def
  Int16GetDatum_def Int32GetDatum_def Int64GetDatum_def Float4GetDatum_def Float8GetDatum_def

lemmas oid_defs = INT2OID_def INT4OID_def INT8OID_def FLOAT4OID_def FLOAT8OID_def

text \<open>The switch over the element type that every function has.\<close>

definition switch :: "nat \<Rightarrow> 'a res \<Rightarrow> 'a res \<Rightarrow> 'a res \<Rightarrow> 'a res \<Rightarrow> 'a res \<Rightarrow> 'a res" where
  "switch element_type int2 int4 int8 float4 float8 =
     (if element_type = INT2OID then int2
      else if element_type = INT4OID then int4
      else if element_type = INT8OID then int8
      else if element_type = FLOAT4OID then float4
      else if element_type = FLOAT8OID then float8
      else Inl (Report ''type is not supported''))"

section \<open>Folding functions\<close>

text \<open>
  They take the element, the extra value, the type and the result so far; \<open>element_min\<close> and
  \<open>element_max\<close> change the extra value, which is passed by address.
\<close>

type_synonym fold_fun = "dat \<Rightarrow> dat \<Rightarrow> nat \<Rightarrow> dat \<Rightarrow> (dat \<times> dat) res"

definition element_diff :: fold_fun where
  "element_diff elt1 elt2 element_type result =
     rbind (switch element_type
       (Inr (let d = DatumGetInt16 elt1 - DatumGetInt16 elt2 in Int16GetDatum (DatumGetInt16 result + d * d)))
       (Inr (let d = DatumGetInt32 elt1 - DatumGetInt32 elt2 in Int32GetDatum (DatumGetInt32 result + d * d)))
       (Inr (let d = DatumGetInt64 elt1 - DatumGetInt64 elt2 in Int64GetDatum (DatumGetInt64 result + d * d)))
       (Inr (let d = f32_sub (DatumGetFloat4 elt1) (DatumGetFloat4 elt2)
             in Float4GetDatum (f32_add (DatumGetFloat4 result) (f32_mul d d))))
       (Inr (let d = f64_sub (DatumGetFloat8 elt1) (DatumGetFloat8 elt2)
             in Float8GetDatum (f64_add (DatumGetFloat8 result) (f64_mul d d))))) (\<lambda>r. Inr (r, elt2))"

definition element_sum :: fold_fun where
  "element_sum elt1 flag element_type result =
     rbind (switch element_type
       (Inr (Int16GetDatum (DatumGetInt16 elt1 + DatumGetInt16 result)))
       (Inr (Int32GetDatum (DatumGetInt32 elt1 + DatumGetInt32 result)))
       (Inr (Int64GetDatum (DatumGetInt64 elt1 + DatumGetInt64 result)))
       (Inr (Float4GetDatum (f32_add (DatumGetFloat4 elt1) (DatumGetFloat4 result))))
       (Inr (Float8GetDatum (f64_add (DatumGetFloat8 elt1) (DatumGetFloat8 result))))) (\<lambda>r. Inr (r, flag))"

definition element_min :: fold_fun where
  "element_min elt1 flag element_type result =
     (if DatumGetInt16 flag = 0 then Inr (elt1, 1)
      else rbind (switch element_type
        (Inr (sint (DatumGetInt16 elt1) < sint (DatumGetInt16 result)))
        (Inr (sint (DatumGetInt32 elt1) < sint (DatumGetInt32 result)))
        (Inr (sint (DatumGetInt64 elt1) < sint (DatumGetInt64 result)))
        (Inr (f32_lt (DatumGetFloat4 elt1) (DatumGetFloat4 result)))
        (Inr (f64_lt (DatumGetFloat8 elt1) (DatumGetFloat8 result)))) (\<lambda>less. Inr (if less then elt1 else result, flag)))"

definition element_max :: fold_fun where
  "element_max elt1 flag element_type result =
     (if DatumGetInt16 flag = 0 then Inr (elt1, 1)
      else rbind (switch element_type
        (Inr (sint (DatumGetInt16 elt1) > sint (DatumGetInt16 result)))
        (Inr (sint (DatumGetInt32 elt1) > sint (DatumGetInt32 result)))
        (Inr (sint (DatumGetInt64 elt1) > sint (DatumGetInt64 result)))
        (Inr (f32_lt (DatumGetFloat4 result) (DatumGetFloat4 elt1)))
        (Inr (f64_lt (DatumGetFloat8 result) (DatumGetFloat8 elt1)))) (\<lambda>more. Inr (if more then elt1 else result, flag)))"

text \<open>The products of \<open>element_dot\<close> are computed in the type of the elements, of \<open>int\<close> at least.\<close>

definition element_dot :: "dat \<Rightarrow> dat \<Rightarrow> nat \<Rightarrow> dat \<Rightarrow> dat res" where
  "element_dot elt1 elt2 element_type result =
     rbind (switch element_type
       (Inr (f64_of_int (sint (DatumGetInt16 elt1) * sint (DatumGetInt16 elt2))))
       (Inr (f64_of_int (sint (DatumGetInt32 elt1 * DatumGetInt32 elt2))))
       (Inr (f64_of_int (sint (DatumGetInt64 elt1 * DatumGetInt64 elt2))))
       (Inr (f64_of_f32 (f32_mul (DatumGetFloat4 elt1) (DatumGetFloat4 elt2))))
       (Inr (f64_mul (DatumGetFloat8 elt1) (DatumGetFloat8 elt2)))) (\<lambda>product.
       Inr (Float8GetDatum (f64_add (DatumGetFloat8 result) product)))"

definition element_contains :: "dat \<Rightarrow> dat \<Rightarrow> nat \<Rightarrow> dat \<Rightarrow> dat res" where
  "element_contains elt1 elt2 element_type result =
     rbind (switch element_type
       (Inr (DatumGetInt16 elt1 = DatumGetInt16 elt2 \<or> DatumGetInt16 elt2 = 0))
       (Inr (DatumGetInt32 elt1 = DatumGetInt32 elt2 \<or> DatumGetInt32 elt2 = 0))
       (Inr (DatumGetInt64 elt1 = DatumGetInt64 elt2 \<or> DatumGetInt64 elt2 = 0))
       (Inr (f32_eq (DatumGetFloat4 elt1) (DatumGetFloat4 elt2) \<or> f32_eq (DatumGetFloat4 elt2) 0))
       (Inr (f64_eq (DatumGetFloat8 elt1) (DatumGetFloat8 elt2) \<or> f64_eq (DatumGetFloat8 elt2) f64_zero))) (\<lambda>same.
       Inr (Float8GetDatum (f64_add (DatumGetFloat8 result) (if same then f64_zero else f64_one))))"

section \<open>Mapping functions\<close>

text \<open>The value a mapping function writes to its result buffer, of the length of the type.\<close>

type_synonym map_fun = "dat \<Rightarrow> dat \<Rightarrow> nat \<Rightarrow> dat res"

definition element_set :: map_fun where
  "element_set elt1 elt2 element_type =
     switch element_type (Inr (Int16GetDatum (DatumGetInt16 elt2))) (Inr (Int32GetDatum (DatumGetInt32 elt2)))
       (Inr (Int64GetDatum (DatumGetInt64 elt2))) (Inr (Float4GetDatum (DatumGetFloat4 elt2)))
       (Inr (Float8GetDatum (DatumGetFloat8 elt2)))"

definition element_add :: map_fun where
  "element_add elt1 elt2 element_type =
     switch element_type
       (Inr (Int16GetDatum (DatumGetInt16 elt1 + DatumGetInt16 elt2)))
       (Inr (Int32GetDatum (DatumGetInt32 elt1 + DatumGetInt32 elt2)))
       (Inr (Int64GetDatum (DatumGetInt64 elt1 + DatumGetInt64 elt2)))
       (Inr (Float4GetDatum (f32_add (DatumGetFloat4 elt1) (DatumGetFloat4 elt2))))
       (Inr (Float8GetDatum (f64_add (DatumGetFloat8 elt1) (DatumGetFloat8 elt2))))"

definition element_sub :: map_fun where
  "element_sub elt1 elt2 element_type =
     switch element_type
       (Inr (Int16GetDatum (DatumGetInt16 elt1 - DatumGetInt16 elt2)))
       (Inr (Int32GetDatum (DatumGetInt32 elt1 - DatumGetInt32 elt2)))
       (Inr (Int64GetDatum (DatumGetInt64 elt1 - DatumGetInt64 elt2)))
       (Inr (Float4GetDatum (f32_sub (DatumGetFloat4 elt1) (DatumGetFloat4 elt2))))
       (Inr (Float8GetDatum (f64_sub (DatumGetFloat8 elt1) (DatumGetFloat8 elt2))))"

definition element_mult :: map_fun where
  "element_mult elt1 elt2 element_type =
     switch element_type
       (Inr (Int16GetDatum (DatumGetInt16 elt1 * DatumGetInt16 elt2)))
       (Inr (Int32GetDatum (DatumGetInt32 elt1 * DatumGetInt32 elt2)))
       (Inr (Int64GetDatum (DatumGetInt64 elt1 * DatumGetInt64 elt2)))
       (Inr (Float4GetDatum (f32_mul (DatumGetFloat4 elt1) (DatumGetFloat4 elt2))))
       (Inr (Float8GetDatum (f64_mul (DatumGetFloat8 elt1) (DatumGetFloat8 elt2))))"

text \<open>
  The quotient of the least number and -1 is undefined for the types that are not promoted to
  a larger one.
\<close>

definition int_div :: "'a::len word \<Rightarrow> 'a word \<Rightarrow> 'a word" where
  "int_div x y = word_of_int (sint x sdiv sint y)"

definition element_div :: map_fun where
  "element_div elt1 elt2 element_type =
     (let denominator = (\<lambda>zero quotient. rbind (check (\<not> zero) ''division by zero is not allowed'') (\<lambda>_. quotient)) in
      switch element_type
        (denominator (DatumGetInt16 elt2 = 0)
           (Inr (Int16GetDatum (int_div (DatumGetInt16 elt1) (DatumGetInt16 elt2)))))
        (denominator (DatumGetInt32 elt2 = 0)
           (rbind (guard_mem (\<not> (sint (DatumGetInt32 elt1) = - (2 ^ 31) \<and> sint (DatumGetInt32 elt2) = -1))) (\<lambda>_.
              Inr (Int32GetDatum (int_div (DatumGetInt32 elt1) (DatumGetInt32 elt2))))))
        (denominator (DatumGetInt64 elt2 = 0)
           (rbind (guard_mem (\<not> (sint (DatumGetInt64 elt1) = - (2 ^ 63) \<and> sint (DatumGetInt64 elt2) = -1))) (\<lambda>_.
              Inr (Int64GetDatum (int_div (DatumGetInt64 elt1) (DatumGetInt64 elt2))))))
        (denominator (f32_eq (DatumGetFloat4 elt2) 0)
           (Inr (Float4GetDatum (f32_div (DatumGetFloat4 elt1) (DatumGetFloat4 elt2)))))
        (denominator (f64_eq (DatumGetFloat8 elt2) f64_zero)
           (Inr (Float8GetDatum (f64_div (DatumGetFloat8 elt1) (DatumGetFloat8 elt2))))))"

text \<open>The square root of a negative integer is a NaN, whose conversion to an integer is undefined.\<close>

definition int_sqrt :: "'a::len word \<Rightarrow> 'a word res" where
  "int_sqrt x = (case f64_trunc (f64_sqrt (f64_of_int (sint x))) of
                   None \<Rightarrow> Inl Undefined | Some n \<Rightarrow> Inr (word_of_int n))"

definition element_sqrt :: map_fun where
  "element_sqrt elt1 elt2 element_type =
     switch element_type
       (rbind (int_sqrt (DatumGetInt16 elt1)) (\<lambda>r. Inr (Int16GetDatum r)))
       (rbind (int_sqrt (DatumGetInt32 elt1)) (\<lambda>r. Inr (Int32GetDatum r)))
       (rbind (int_sqrt (DatumGetInt64 elt1)) (\<lambda>r. Inr (Int64GetDatum r)))
       (Inr (Float4GetDatum (f32_of_f64 (f64_sqrt (f64_of_f32 (DatumGetFloat4 elt1))))))
       (Inr (Float8GetDatum (f64_sqrt (DatumGetFloat8 elt1))))"

section \<open>Arrays\<close>

record array =
  arr_ndim :: nat
  arr_dims :: "int list"
  arr_lbounds :: "int list"
  arr_elemtype :: nat
  arr_nullbitmap :: "byte list option"
  arr_data :: "byte list"

definition ARR_HASNULL :: "array \<Rightarrow> bool" where
  "ARR_HASNULL v \<longleftrightarrow> arr_nullbitmap v \<noteq> None"

text \<open>The number of elements, \<open>ArrayGetNItems\<close> of the server.\<close>

definition nitems :: "array \<Rightarrow> nat" where
  "nitems v = nat (prod_list (take (arr_ndim v) (arr_dims v)))"

text \<open>\<open>fetch_att\<close> and the step to the next element.\<close>

definition fetch :: "nat \<Rightarrow> byte list \<Rightarrow> (dat \<times> byte list) res" where
  "fetch ty dat =
     rbind (guard_mem (type_size ty \<le> length dat)) (\<lambda>_.
       Inr (word64_of_bytes (take (type_size ty) dat), drop (type_size ty) dat))"

text \<open>
  \<open>construct_array\<close> of the server, as the code calls it: \<open>n\<close> datums of eight bytes, stored with a length
  of eight bytes each in a one-dimensional array.
\<close>

definition construct_array :: "byte list \<Rightarrow> nat \<Rightarrow> nat \<Rightarrow> array res" where
  "construct_array elems n ty =
     (if n = 0 then Inr \<lparr>arr_ndim = 0, arr_dims = [], arr_lbounds = [], arr_elemtype = ty, arr_nullbitmap = None, arr_data = []\<rparr>
      else rbind (guard_mem (8 * n \<le> length elems)) (\<lambda>_.
             Inr \<lparr>arr_ndim = 1, arr_dims = [int n], arr_lbounds = [1], arr_elemtype = ty, arr_nullbitmap = None,
                  arr_data = take (8 * n) elems\<rparr>))"

definition array_of_float :: "nat \<Rightarrow> array res" where
  "array_of_float k = construct_array (replicate (8 * k) 0) k FLOAT8OID"

definition array_of_bigint :: "nat \<Rightarrow> array res" where
  "array_of_bigint k = construct_array (replicate (8 * k) 0) k INT8OID"

section \<open>Loops\<close>

text \<open>
  The loop over an array with a NULL bitmap.  The position in the bitmap is advanced only after
  an element that is not NULL.
\<close>

fun fold_nulls :: "fold_fun \<Rightarrow> nat \<Rightarrow> nat \<Rightarrow> byte list \<Rightarrow> byte list \<Rightarrow> nat \<Rightarrow> dat \<times> dat \<Rightarrow> nat \<Rightarrow> ((dat \<times> dat) \<times> nat) res" where
  "fold_nulls f ty 0 dat bitmap bitmask acc null_count = Inr (acc, null_count)"
| "fold_nulls f ty (Suc n) dat [] bitmask acc null_count = Inl Undefined"
| "fold_nulls f ty (Suc n) dat (b # bitmap) bitmask acc null_count =
     (if b AND word_of_nat bitmask = 0 then fold_nulls f ty n dat (b # bitmap) bitmask acc (null_count + 1)
      else rbind (fetch ty dat) (\<lambda>(elt, dat).
           rbind (f elt (snd acc) ty (fst acc)) (\<lambda>acc.
             if bitmask * 2 = 0x100 then fold_nulls f ty n dat bitmap 1 acc null_count
             else fold_nulls f ty n dat (b # bitmap) (bitmask * 2) acc null_count)))"

fun fold_data :: "fold_fun \<Rightarrow> nat \<Rightarrow> nat \<Rightarrow> byte list \<Rightarrow> dat \<times> dat \<Rightarrow> (dat \<times> dat) res" where
  "fold_data f ty 0 dat acc = Inr acc"
| "fold_data f ty (Suc n) dat acc =
     rbind (fetch ty dat) (\<lambda>(elt, dat). rbind (f elt (snd acc) ty (fst acc)) (fold_data f ty n dat))"

text \<open>The zero of the element type; its bits are zero in every type.\<close>

definition initial_result :: "nat \<Rightarrow> nat \<Rightarrow> dat res" where
  "initial_result flag element_type =
     (if flag = 0 then
        switch element_type (Inr (Int16GetDatum 0)) (Inr (Int32GetDatum 0)) (Inr (Int64GetDatum 0))
          (Inr (Float4GetDatum 0)) (Inr (Float8GetDatum f64_zero))
      else Inr (Float8GetDatum f64_zero))"

text \<open>
  \<open>General_Array_to_Element\<close>.  With \<open>flag = 1\<close> the type is not tested before the first call of the
  element function.
\<close>

definition General_Array_to_Element :: "array \<Rightarrow> dat \<Rightarrow> fold_fun \<Rightarrow> (dat \<Rightarrow> int \<Rightarrow> dat) \<Rightarrow> nat \<Rightarrow> dat res" where
  "General_Array_to_Element v exta_val element_function finalize_function flag =
     (if arr_ndim v = 0 then Inr 0
      else
        rbind (initial_result flag (arr_elemtype v)) (\<lambda>result.
        rbind (case arr_nullbitmap v of
                 Some bitmap \<Rightarrow>
                   fold_nulls element_function (arr_elemtype v) (nitems v) (arr_data v) bitmap 1 (result, exta_val) 0
               | None \<Rightarrow>
                   rbind (fold_data element_function (arr_elemtype v) (nitems v) (arr_data v) (result, exta_val)) (\<lambda>acc.
                     Inr (acc, 0))) (\<lambda>((result, _), null_count).
          Inr (finalize_function result (int (nitems v) - int null_count)))))"

definition check_shape :: "array \<Rightarrow> array \<Rightarrow> string \<Rightarrow> unit res" where
  "check_shape v1 v2 msg =
     check (\<forall>i<arr_ndim v1. \<not> (arr_dims v1 ! i \<noteq> arr_dims v2 ! i \<or> arr_lbounds v1 ! i \<noteq> arr_lbounds v2 ! i)) msg"

fun fold_data2 :: "(dat \<Rightarrow> dat \<Rightarrow> nat \<Rightarrow> dat \<Rightarrow> dat res) \<Rightarrow> nat \<Rightarrow> nat \<Rightarrow> byte list \<Rightarrow> byte list \<Rightarrow> dat \<Rightarrow> dat res" where
  "fold_data2 f ty 0 dat1 dat2 result = Inr result"
| "fold_data2 f ty (Suc n) dat1 dat2 result =
     rbind (fetch ty dat1) (\<lambda>(elt1, dat1).
     rbind (fetch ty dat2) (\<lambda>(elt2, dat2).
     rbind (f elt1 elt2 ty result) (fold_data2 f ty n dat1 dat2)))"

definition General_2Array_to_Element :: "array \<Rightarrow> array \<Rightarrow> (dat \<Rightarrow> dat \<Rightarrow> nat \<Rightarrow> dat \<Rightarrow> dat res) \<Rightarrow> (dat \<Rightarrow> int \<Rightarrow> dat) \<Rightarrow>
    nat \<Rightarrow> dat res" where
  "General_2Array_to_Element v1 v2 element_function finalize_function flag =
     rbind (check (arr_ndim v1 = arr_ndim v2) ''cannot operate on arrays of different dimention'') (\<lambda>_.
     if arr_ndim v1 = 0 \<or> arr_ndim v2 = 0 then Inr 0
     else
       rbind (check_shape v1 v2 ''cannot compute this operation on arrays of different length'') (\<lambda>_.
       rbind (check (\<not> (ARR_HASNULL v1 \<or> ARR_HASNULL v2)) ''arrays cannot contain nulls'') (\<lambda>_.
       rbind (initial_result flag (arr_elemtype v1)) (\<lambda>result.
       rbind (fold_data2 element_function (arr_elemtype v1) (nitems v1) (arr_data v1) (arr_data v2) result) (\<lambda>result.
         Inr (finalize_function result (int (nitems v1))))))))"

text \<open>The loops that fill the buffer \<open>result\<close>, which has \<open>type_size * nitems\<close> bytes.\<close>

fun map_data2 :: "map_fun \<Rightarrow> nat \<Rightarrow> nat \<Rightarrow> byte list \<Rightarrow> byte list \<Rightarrow> byte list res" where
  "map_data2 f ty 0 dat1 dat2 = Inr []"
| "map_data2 f ty (Suc n) dat1 dat2 =
     rbind (fetch ty dat1) (\<lambda>(elt1, dat1).
     rbind (fetch ty dat2) (\<lambda>(elt2, dat2).
     rbind (f elt1 elt2 ty) (\<lambda>r.
     rbind (map_data2 f ty n dat1 dat2) (\<lambda>rest. Inr (take (type_size ty) (word64_bytes r) @ rest)))))"

fun map_data :: "map_fun \<Rightarrow> dat \<Rightarrow> nat \<Rightarrow> nat \<Rightarrow> byte list \<Rightarrow> byte list res" where
  "map_data f elt2 ty 0 dat1 = Inr []"
| "map_data f elt2 ty (Suc n) dat1 =
     rbind (fetch ty dat1) (\<lambda>(elt1, dat1).
     rbind (f elt1 elt2 ty) (\<lambda>r.
     rbind (map_data f elt2 ty n dat1) (\<lambda>rest. Inr (take (type_size ty) (word64_bytes r) @ rest))))"

text \<open>
  The end of both functions: an array is constructed from the buffer, and its \<open>ndim\<close> is overwritten;
  its dimensions and lower bounds stay those of a one-dimensional array.
\<close>

definition finish_array :: "byte list \<Rightarrow> array \<Rightarrow> array res" where
  "finish_array result v1 =
     rbind (construct_array result (nitems v1) (arr_elemtype v1)) (\<lambda>pgarray.
       Inr (pgarray\<lparr>arr_ndim := arr_ndim v1\<rparr>))"

definition General_2Array_to_Array :: "array \<Rightarrow> array \<Rightarrow> map_fun \<Rightarrow> array res" where
  "General_2Array_to_Array v1 v2 element_function =
     rbind (check (arr_ndim v1 = arr_ndim v2) ''cannot perform operation arrays of different dimention'') (\<lambda>_.
     if arr_ndim v1 = 0 \<and> arr_ndim v2 > 0 then Inr v2
     else if arr_ndim v2 = 0 then Inr v1
     else
       rbind (check_shape v1 v2 ''cannot operate on arrays of different length'') (\<lambda>_.
       rbind (check (\<not> (ARR_HASNULL v1 \<or> ARR_HASNULL v2)) ''arrays cannot contain nulls'') (\<lambda>_.
       rbind (check (supported (arr_elemtype v1)) ''type is not supported'') (\<lambda>_.
       rbind (map_data2 element_function (arr_elemtype v1) (nitems v1) (arr_data v1) (arr_data v2)) (\<lambda>result.
         finish_array result v1)))))"

definition General_Array_to_Array :: "array \<Rightarrow> dat \<Rightarrow> map_fun \<Rightarrow> array res" where
  "General_Array_to_Array v1 elt2 element_function =
     (if arr_ndim v1 = 0 then Inr v1
      else
        rbind (check (\<not> ARR_HASNULL v1) ''arrays cannot contain nulls'') (\<lambda>_.
        rbind (check (supported (arr_elemtype v1)) ''type is not supported'') (\<lambda>_.
        rbind (map_data element_function elt2 (arr_elemtype v1) (nitems v1) (arr_data v1)) (\<lambda>result.
          finish_array result v1))))"

section \<open>SQL functions\<close>

text \<open>An argument that is NULL gives NULL.\<close>

definition null1 :: "'a option \<Rightarrow> ('a \<Rightarrow> 'b res) \<Rightarrow> 'b option res" where
  "null1 a f = (case a of None \<Rightarrow> Inr None | Some x \<Rightarrow> rbind (f x) (\<lambda>r. Inr (Some r)))"

definition null2 :: "'a option \<Rightarrow> 'b option \<Rightarrow> ('a \<Rightarrow> 'b \<Rightarrow> 'c res) \<Rightarrow> 'c option res" where
  "null2 a b f = (case (a, b) of (Some x, Some y) \<Rightarrow> rbind (f x y) (\<lambda>r. Inr (Some r)) | _ \<Rightarrow> Inr None)"

definition noop_finalize :: "dat \<Rightarrow> int \<Rightarrow> dat" where
  "noop_finalize elt n = elt"

definition average_finalize :: "dat \<Rightarrow> int \<Rightarrow> dat" where
  "average_finalize elt n = Float8GetDatum (f64_div (DatumGetFloat8 elt) (f64_of_int n))"

definition average_root_finalize :: "dat \<Rightarrow> int \<Rightarrow> dat" where
  "average_root_finalize elt n = Float8GetDatum (f64_sqrt (f64_div (DatumGetFloat8 elt) (f64_of_int n)))"

definition array_stddev :: "array option \<Rightarrow> dat option res" where
  "array_stddev a = null1 a (\<lambda>v.
     rbind (General_Array_to_Element v (Float8GetDatum f64_zero) element_sum average_finalize 1) (\<lambda>mean.
       General_Array_to_Element v mean element_diff average_root_finalize 1))"

definition array_mean :: "array option \<Rightarrow> dat option res" where
  "array_mean a = null1 a (\<lambda>v. General_Array_to_Element v (Int16GetDatum 0) element_sum average_finalize 1)"

definition array_sum_big :: "array option \<Rightarrow> dat option res" where
  "array_sum_big a = null1 a (\<lambda>v. General_Array_to_Element v (Int16GetDatum 0) element_sum noop_finalize 1)"

definition array_sum :: "array option \<Rightarrow> dat option res" where
  "array_sum a = null1 a (\<lambda>v. General_Array_to_Element v (Int16GetDatum 0) element_sum noop_finalize 0)"

definition array_min :: "array option \<Rightarrow> dat option res" where
  "array_min a = null1 a (\<lambda>v. General_Array_to_Element v (Int16GetDatum 0) element_min noop_finalize 0)"

definition array_max :: "array option \<Rightarrow> dat option res" where
  "array_max a = null1 a (\<lambda>v. General_Array_to_Element v (Int16GetDatum 0) element_max noop_finalize 0)"

definition array_dot :: "array option \<Rightarrow> array option \<Rightarrow> dat option res" where
  "array_dot a b = null2 a b (\<lambda>v1 v2. General_2Array_to_Element v1 v2 element_dot noop_finalize 1)"

definition array_contains :: "array option \<Rightarrow> array option \<Rightarrow> bool option res" where
  "array_contains a b = null2 a b (\<lambda>v1 v2.
     rbind (General_2Array_to_Element v1 v2 element_contains noop_finalize 0) (\<lambda>res. Inr (res = 0)))"

definition array_add :: "array option \<Rightarrow> array option \<Rightarrow> array option res" where
  "array_add a b = null2 a b (\<lambda>v1 v2. General_2Array_to_Array v1 v2 element_add)"

definition array_sub :: "array option \<Rightarrow> array option \<Rightarrow> array option res" where
  "array_sub a b = null2 a b (\<lambda>v1 v2. General_2Array_to_Array v1 v2 element_sub)"

definition array_mult :: "array option \<Rightarrow> array option \<Rightarrow> array option res" where
  "array_mult a b = null2 a b (\<lambda>v1 v2. General_2Array_to_Array v1 v2 element_mult)"

definition array_div :: "array option \<Rightarrow> array option \<Rightarrow> array option res" where
  "array_div a b = null2 a b (\<lambda>v1 v2. General_2Array_to_Array v1 v2 element_div)"

definition array_fill :: "array option \<Rightarrow> dat option \<Rightarrow> array option res" where
  "array_fill a k = null2 a k (\<lambda>v1 v2. General_Array_to_Array v1 v2 element_set)"

definition array_scalar_mult :: "array option \<Rightarrow> dat option \<Rightarrow> array option res" where
  "array_scalar_mult a k = null2 a k (\<lambda>v1 v2. General_Array_to_Array v1 v2 element_mult)"

definition array_sqrt :: "array option \<Rightarrow> array option res" where
  "array_sqrt a = null1 a (\<lambda>v1. General_Array_to_Array v1 0 element_sqrt)"

text \<open>\<open>array_normalize\<close> reads the data as \<open>dim\<close> doubles; it does not look for NULLs.\<close>

definition float8_data :: "nat \<Rightarrow> byte list \<Rightarrow> float8 list res" where
  "float8_data dim dat =
     rbind (guard_mem (8 * dim \<le> length dat)) (\<lambda>_.
       Inr (map (\<lambda>i. word64_of_bytes (take 8 (drop (8 * i) dat))) [0..<dim]))"

definition array_normalize :: "array \<Rightarrow> array res" where
  "array_normalize arg =
     rbind (check (\<not> (arr_ndim arg \<noteq> 1 \<or> arr_elemtype arg \<noteq> FLOAT8OID)) ''called with invalid parameters'') (\<lambda>_.
     rbind (nth_res (arr_dims arg) 0) (\<lambda>dim.
     rbind (float8_data (nat dim) (arr_data arg)) (\<lambda>x.
       let d = fold (\<lambda>xi d. f64_add d (f64_mul xi xi)) x f64_zero in
       if f64_lt f64_zero d \<and> \<not> f64_eq d f64_one then
         rbind (construct_array (replicate (8 * nat dim) 0) (nat dim) FLOAT8OID) (\<lambda>ret.
           Inr (ret\<lparr>arr_data := concat (map (\<lambda>xi. word64_bytes (f64_div xi (f64_sqrt d))) x)\<rparr>))
       else Inr arg)))"

end
