(* ===== verification/Float64Facts.thy ===== *)
theory Float64Facts
  imports Float64
begin

text \<open>
  Facts about rounding: the length of a number in bits, and numbers that are positive or zero.
\<close>

lemma bitlen_bounds:
  "0 < m \<Longrightarrow> 0 < bitlen m \<and> 2 ^ nat (bitlen m - 1) \<le> m \<and> m < 2 ^ nat (bitlen m)"
proof (induction m rule: bitlen.induct)
  case (1 m)
  have step: "bitlen m = 1 + bitlen (m div 2)" using 1(2) by (subst bitlen.simps) simp
  show ?case
  proof (cases "m = 1")
    case True
    then have "bitlen m = 1" using step by (simp add: bitlen.simps[of 0])
    with True show ?thesis by simp
  next
    case False
    then have h: "0 < m div 2" using 1(2) by simp
    then have ih: "0 < bitlen (m div 2)" "2 ^ nat (bitlen (m div 2) - 1) \<le> m div 2" "m div 2 < 2 ^ nat (bitlen (m div 2))"
      using 1(1)[of] 1(2) by simp_all
    define k where "k = nat (bitlen (m div 2)) - 1"
    have k: "nat (bitlen (m div 2)) = Suc k" "nat (bitlen (m div 2) - 1) = k" "nat (bitlen m) = Suc (Suc k)" "nat (bitlen m - 1) = Suc k"
      using ih(1) step by (simp_all add: k_def nat_diff_distrib Suc_nat_eq_nat_zadd1)
    show ?thesis using ih step unfolding k by auto
  qed
qed

lemma round_shift_ge: "m div 2 ^ s \<le> round_shift m s"
  by (simp add: round_shift_def Let_def)

text \<open>The mantissa of a positive number is positive.\<close>

lemma f64_round_bits:
  assumes "0 < m" "- 1074 \<le> e"
  shows "\<exists>b. f64_round sg m e = f64_of_bits sg b \<and> 0 < b \<and> b \<le> f64_inf_bits"
proof -
  define e' where "e' = max (e + bitlen m - 53) (- 1074)"
  define mant where "mant = (if e' \<le> e then m * 2 ^ nat (e - e') else round_shift m (nat (e' - e)))"
  have "0 < mant"
  proof (cases "e' \<le> e")
    case True
    then show ?thesis using assms(1) by (simp add: mant_def)
  next
    case False
    then have s: "e' - e = bitlen m - 53" "53 < bitlen m" using assms(2) by (auto simp: e'_def max_def split: if_splits)
    have "2 ^ nat (e' - e) \<le> (2 :: int) ^ nat (bitlen m - 1)" using s by (intro power_increasing) auto
    then have "2 ^ nat (e' - e) \<le> m" using bitlen_bounds[OF assms(1)] by linarith
    then have "1 \<le> m div 2 ^ nat (e' - e)" by (simp add: zdiv_mono1 pos_imp_zdiv_pos_iff int_one_le_iff_zero_less)
    then show ?thesis using False round_shift_ge[of m "nat (e' - e)"] by (simp add: mant_def)
  qed
  moreover have "0 \<le> e' + 1074" by (simp add: e'_def max_def)
  then have "0 \<le> (e' + 1074) * 2 ^ 52" by (rule mult_nonneg_nonneg) simp
  ultimately have "0 < min ((e' + 1074) * 2 ^ 52 + mant) f64_inf_bits"
    by (simp add: f64_inf_bits_def)
  moreover have "f64_round sg m e = f64_of_bits sg (min ((e' + 1074) * 2 ^ 52 + mant) f64_inf_bits)"
    using assms(1) unfolding f64_round_def Let_def e'_def[symmetric] mant_def[symmetric] by simp
  ultimately show ?thesis by (metis min.cobounded2)
qed

lemma f64_of_bits_pos: "0 \<le> b \<Longrightarrow> b \<le> f64_inf_bits \<Longrightarrow> uint (f64_of_bits False b) = b"
  by (simp add: f64_of_bits_def f64_inf_bits_def take_bit_int_eq_self unsigned_of_int)

lemma f64_quiet_nan: "f64_is_nan x \<Longrightarrow> f64_is_nan (f64_quiet x)"
proof -
  assume nan: "f64_is_nan x"
  have mag: "f64_mag y = take_bit 63 (uint y)" for y :: float8 by (simp add: f64_mag_def take_bit_eq_mod)
  have "f64_mag (f64_quiet x) = take_bit 63 (uint x) OR take_bit 63 0x0008000000000000"
    by (simp add: mag f64_quiet_def unsigned_or_eq)
  also have "\<dots> \<ge> take_bit 63 (uint x)" by (intro or_greater_eq) (simp_all flip: mag)
  finally show ?thesis using nan by (simp add: f64_is_nan_def mag)
qed

end
