(* ===== verification/ArrayOpsFacts.thy ===== *)
theory ArrayOpsFacts
  imports ArrayOps Float64Facts SketchSupportFacts
begin

text \<open>
  The array operations on one-dimensional arrays, written as lists of datums: the generic loops are
  maps and folds over the lists, and an array with NULLs counts as its elements before the first NULL.
\<close>

section \<open>Arrays of datums\<close>

text \<open>The datums of a narrow type have zeros above.\<close>

definition narrow :: "nat \<Rightarrow> dat \<Rightarrow> bool" where
  "narrow ty d \<longleftrightarrow> unat d < 2 ^ (8 * type_size ty)"

definition elem_bytes :: "nat \<Rightarrow> dat list \<Rightarrow> byte list" where
  "elem_bytes ty xs = concat (map (\<lambda>d. take (type_size ty) (word64_bytes d)) xs)"

definition array1 :: "int \<Rightarrow> nat \<Rightarrow> dat list \<Rightarrow> array" where
  "array1 lb ty xs = \<lparr>arr_ndim = 1, arr_dims = [int (length xs)], arr_lbounds = [lb], arr_elemtype = ty,
     arr_nullbitmap = None, arr_data = elem_bytes ty xs\<rparr>"

lemma type_size_le: "0 < type_size ty" "type_size ty \<le> 8"
  by (simp_all add: type_size_def)

lemma length_elem_bytes: "length (elem_bytes ty xs) = type_size ty * length xs"
  using type_size_le(2)[of ty] by (induction xs) (simp_all add: elem_bytes_def min_def)

lemma fetch_elem:
  "narrow ty d \<Longrightarrow> fetch ty (elem_bytes ty (d # ds)) = Inr (d, elem_bytes ty ds)"
  using word64_of_word64_bytes[of "type_size ty" d] type_size_le[of ty]
  by (simp add: fetch_def elem_bytes_def narrow_def min_def)

lemma nitems_array1 [simp]: "nitems (array1 lb ty xs) = length xs"
  by (simp add: nitems_def array1_def)

lemma wide_narrow: "type_size ty = 8 \<Longrightarrow> narrow ty d"
  using unsigned_less[of d] by (simp add: narrow_def)

section \<open>Elementwise operations\<close>

text \<open>
  The contract of a function on the elements of a type of eight bytes that cannot fail, and the
  loops over one and two arrays with such a function.
\<close>

locale elementwise =
  fixes ty :: nat and f :: map_fun and g :: "dat \<Rightarrow> dat \<Rightarrow> dat"
  assumes wide: "supported ty" "type_size ty = 8" and elem: "f x y ty = Inr (g x y)"
begin

lemma map_data2_map2:
  "length xs = length ys \<Longrightarrow> map_data2 f ty (length xs) (elem_bytes ty xs) (elem_bytes ty ys) = Inr (elem_bytes ty (map2 g xs ys))"
proof (induction xs ys rule: list_induct2)
  case (Cons x xs y ys)
  then show ?case
    using elem fetch_elem[OF wide_narrow[OF wide(2)]] by (simp add: elem_bytes_def)
qed (simp add: elem_bytes_def)

lemma map_data_map:
  "map_data f y ty (length xs) (elem_bytes ty xs) = Inr (elem_bytes ty (map (\<lambda>x. g x y) xs))"
proof (induction xs)
  case (Cons x xs)
  then show ?case
    using elem fetch_elem[OF wide_narrow[OF wide(2)]] by (simp add: elem_bytes_def)
qed (simp add: elem_bytes_def)

lemma finish_array_list:
  "length zs = length xs \<Longrightarrow> xs \<noteq> [] \<Longrightarrow> finish_array (elem_bytes ty zs) (array1 lb ty xs) = Inr (array1 1 ty zs)"
  using wide(2) length_elem_bytes[of ty zs]
  by (simp add: finish_array_def construct_array_def) (simp add: array1_def)

lemma two_arrays:
  assumes "length xs = length ys" "xs \<noteq> []"
  shows "General_2Array_to_Array (array1 lb ty xs) (array1 lb ty ys) f = Inr (array1 1 ty (map2 g xs ys))"
proof -
  have "check_shape (array1 lb ty xs) (array1 lb ty ys) msg = Inr ()" for msg
    using assms(1) by (simp add: check_shape_def array1_def)
  then show ?thesis
    using assms wide(1) map_data2_map2[OF assms(1)] finish_array_list[of "map2 g xs ys" xs lb]
    by (simp add: General_2Array_to_Array_def ARR_HASNULL_def) (simp add: array1_def)
qed

lemma one_array:
  assumes "xs \<noteq> []"
  shows "General_Array_to_Array (array1 lb ty xs) y f = Inr (array1 1 ty (map (\<lambda>x. g x y) xs))"
  using assms wide(1) map_data_map[of y xs] finish_array_list[of "map (\<lambda>x. g x y) xs" xs lb]
  by (simp add: General_Array_to_Array_def ARR_HASNULL_def) (simp add: array1_def)

end

lemma wide_types [simp]:
  "supported FLOAT8OID" "type_size FLOAT8OID = 8" "supported INT8OID" "type_size INT8OID = 8"
  by (simp_all add: supported_def type_size_def oid_defs)

lemma switch_simps [simp]:
  "switch INT2OID a b c d e = a" "switch INT4OID a b c d e = b" "switch INT8OID a b c d e = c"
  "switch FLOAT4OID a b c d e = d" "switch FLOAT8OID a b c d e = e"
  by (simp_all add: switch_def oid_defs)

interpretation add_float8: elementwise FLOAT8OID element_add f64_add
  by unfold_locales (simp_all add: element_add_def datum_defs)

interpretation sub_float8: elementwise FLOAT8OID element_sub f64_sub
  by unfold_locales (simp_all add: element_sub_def datum_defs)

interpretation mult_float8: elementwise FLOAT8OID element_mult f64_mul
  by unfold_locales (simp_all add: element_mult_def datum_defs)

interpretation set_float8: elementwise FLOAT8OID element_set "\<lambda>x y. y"
  by unfold_locales (simp_all add: element_set_def datum_defs)

interpretation sqrt_float8: elementwise FLOAT8OID element_sqrt "\<lambda>x y. f64_sqrt x"
  by unfold_locales (simp_all add: element_sqrt_def datum_defs)

interpretation add_int8: elementwise INT8OID element_add "(+)"
  by unfold_locales (simp_all add: element_add_def datum_defs)

interpretation sub_int8: elementwise INT8OID element_sub "(-)"
  by unfold_locales (simp_all add: element_sub_def datum_defs)

interpretation mult_int8: elementwise INT8OID element_mult "(*)"
  by unfold_locales (simp_all add: element_mult_def datum_defs)

interpretation set_int8: elementwise INT8OID element_set "\<lambda>x y. y"
  by unfold_locales (simp_all add: element_set_def datum_defs)

text \<open>Division reports a denominator that is zero, and otherwise divides.\<close>

lemma div_data_float8:
  "length xs = length ys \<Longrightarrow>
   map_data2 element_div FLOAT8OID (length xs) (elem_bytes FLOAT8OID xs) (elem_bytes FLOAT8OID ys) =
     (if \<exists>y\<in>set ys. f64_eq y f64_zero then Inl (Report ''division by zero is not allowed'')
      else Inr (elem_bytes FLOAT8OID (map2 f64_div xs ys)))"
proof (induction xs ys rule: list_induct2)
  case (Cons x xs y ys)
  then show ?case
    using fetch_elem[OF wide_narrow[of FLOAT8OID]]
    by (cases "f64_eq y f64_zero") (simp_all add: elem_bytes_def element_div_def datum_defs)
qed (simp add: elem_bytes_def)

text \<open>
  For integers the first pair with a zero denominator is reported, and the quotient of the least number
  and -1, which is undefined, ends the loop in the same way.
\<close>

definition bad_quotient :: "int64 \<times> int64 \<Rightarrow> bool" where
  "bad_quotient p \<longleftrightarrow> snd p = 0 \<or> sint (fst p) = - (2 ^ 63) \<and> sint (snd p) = -1"

lemma div_data_int8:
  "length xs = length ys \<Longrightarrow>
   map_data2 element_div INT8OID (length xs) (elem_bytes INT8OID xs) (elem_bytes INT8OID ys) =
     (case List.find bad_quotient (zip xs ys) of
        Some (x, y) \<Rightarrow> Inl (if y = 0 then Report ''division by zero is not allowed'' else Undefined)
      | None \<Rightarrow> Inr (elem_bytes INT8OID (map2 int_div xs ys)))"
proof (induction xs ys rule: list_induct2)
  case (Cons x xs y ys)
  have step: "element_div x y INT8OID =
      (if bad_quotient (x, y) then Inl (if y = 0 then Report ''division by zero is not allowed'' else Undefined)
       else Inr (int_div x y))"
    by (auto simp: element_div_def datum_defs bad_quotient_def guard_mem_def)
  show ?case
    using Cons step fetch_elem[OF wide_narrow[of INT8OID]]
    by (cases "List.find bad_quotient (zip xs ys)") (auto simp: elem_bytes_def split: prod.splits)
qed (simp add: elem_bytes_def)

lemma different_shape:
  assumes "length xs \<noteq> length ys \<or> lb \<noteq> lb'"
  shows "General_2Array_to_Array (array1 lb ty xs) (array1 lb' ty ys) f =
    Inl (Report ''cannot operate on arrays of different length'')"
  using assms by (auto simp: General_2Array_to_Array_def check_shape_def array1_def)

section \<open>Folds\<close>

fun foldR :: "fold_fun \<Rightarrow> nat \<Rightarrow> dat list \<Rightarrow> dat \<times> dat \<Rightarrow> (dat \<times> dat) res" where
  "foldR f ty [] acc = Inr acc"
| "foldR f ty (x # xs) acc = rbind (f x (snd acc) ty (fst acc)) (foldR f ty xs)"

lemma fold_data_list:
  "\<forall>x\<in>set xs. narrow ty x \<Longrightarrow> fold_data f ty (length xs) (elem_bytes ty xs) acc = foldR f ty xs acc"
proof (induction xs arbitrary: acc)
  case (Cons x xs)
  then have "fold_data f ty (length (x # xs)) (elem_bytes ty (x # xs)) acc =
      rbind (f x (snd acc) ty (fst acc)) (fold_data f ty (length xs) (elem_bytes ty xs))"
    using fetch_elem[of ty x xs] by simp
  also have "\<dots> = rbind (f x (snd acc) ty (fst acc)) (foldR f ty xs)"
    using Cons by (cases "f x (snd acc) ty (fst acc)") simp_all
  finally show ?case by simp
qed simp

lemma array_to_element:
  assumes "\<forall>x\<in>set xs. narrow ty x"
  shows "General_Array_to_Element (array1 lb ty xs) x f fin flag =
    rbind (initial_result flag ty) (\<lambda>r. rbind (foldR f ty xs (r, x)) (\<lambda>acc. Inr (fin (fst acc) (int (length xs)))))"
proof -
  have "(\<lambda>result. rbind (rbind (foldR f ty xs (result, x)) (\<lambda>acc. Inr (acc, 0))) (\<lambda>((result, _), null_count).
          Inr (fin result (int (length xs) - int null_count)))) =
      (\<lambda>r. rbind (foldR f ty xs (r, x)) (\<lambda>acc. Inr (fin (fst acc) (int (length xs)))))"
  proof
    fix r
    show "rbind (rbind (foldR f ty xs (r, x)) (\<lambda>acc. Inr (acc, 0))) (\<lambda>((result, _), null_count).
          Inr (fin result (int (length xs) - int null_count))) =
        rbind (foldR f ty xs (r, x)) (\<lambda>acc. Inr (fin (fst acc) (int (length xs))))"
      by (cases "foldR f ty xs (r, x)") (auto split: prod.splits)
  qed
  moreover have "arr_ndim (array1 lb ty xs) \<noteq> 0" "arr_elemtype (array1 lb ty xs) = ty"
    "arr_nullbitmap (array1 lb ty xs) = None" "arr_data (array1 lb ty xs) = elem_bytes ty xs"
    by (simp_all add: array1_def)
  ultimately show ?thesis
    using fold_data_list[OF assms] by (simp add: General_Array_to_Element_def)
qed

text \<open>The elements before the first NULL.\<close>

definition before_null :: "dat option list \<Rightarrow> dat list" where
  "before_null vs = map the (takeWhile (\<lambda>v. v \<noteq> None) vs)"

lemma before_null_simps [simp]:
  "before_null [] = []" "before_null (None # vs) = []" "before_null (Some v # vs) = v # before_null vs"
  by (simp_all add: before_null_def)

text \<open>An array with a NULL bitmap; bit \<open>i\<close> of the bitmap is set when element \<open>i\<close> is not NULL.\<close>

definition array_nulls :: "int \<Rightarrow> nat \<Rightarrow> dat option list \<Rightarrow> byte list \<Rightarrow> array" where
  "array_nulls lb ty vs bitmap = \<lparr>arr_ndim = 1, arr_dims = [int (length vs)], arr_lbounds = [lb], arr_elemtype = ty,
     arr_nullbitmap = Some bitmap, arr_data = elem_bytes ty (map the (filter (\<lambda>v. v \<noteq> None) vs))\<rparr>"

definition bitmap_of :: "dat option list \<Rightarrow> nat \<Rightarrow> byte list \<Rightarrow> bool" where
  "bitmap_of vs k bitmap \<longleftrightarrow> (\<forall>i<length vs. (k + i) div 8 < length bitmap \<and>
     (bit (bitmap ! ((k + i) div 8)) ((k + i) mod 8) \<longleftrightarrow> vs ! i \<noteq> None))"

lemma bit_mask: "k < 8 \<Longrightarrow> (b :: byte) AND word_of_nat (2 ^ k) = 0 \<longleftrightarrow> \<not> bit b k"
proof -
  assume k: "k < 8"
  have "word_of_nat (2 ^ k) = (push_bit k 1 :: byte)" by (simp add: push_bit_eq_mult)
  moreover have "b AND push_bit k 1 = 0 \<longleftrightarrow> \<not> bit b k"
  proof
    assume "b AND push_bit k 1 = 0"
    then have "\<not> bit (b AND push_bit k 1) k" by simp
    with k show "\<not> bit b k" by (simp add: bit_simps)
  next
    assume "\<not> bit b k"
    then show "b AND push_bit k 1 = 0" by (intro bit_word_eqI) (auto simp: bit_simps)
  qed
  ultimately show "b AND word_of_nat (2 ^ k) = 0 \<longleftrightarrow> \<not> bit b k" by simp
qed

text \<open>After a NULL the same bit is tested for all other elements.\<close>

lemma fold_nulls_stuck:
  "k < 8 \<Longrightarrow> \<not> bit b k \<Longrightarrow> fold_nulls f ty n dat (b # bitmap) (2 ^ k) acc c = Inr (acc, c + n)"
proof (induction n arbitrary: c)
  case (Suc n)
  then show ?case using bit_mask[of k b] by simp
qed simp

lemma fold_nulls_prefix:
  "bitmap_of vs k bitmap \<Longrightarrow> k < 8 \<Longrightarrow> \<forall>v\<in>set vs. v \<noteq> None \<longrightarrow> narrow ty (the v) \<Longrightarrow>
   fold_nulls f ty (length vs) (elem_bytes ty (map the (filter (\<lambda>v. v \<noteq> None) vs))) bitmap (2 ^ k) acc c =
     rbind (foldR f ty (before_null vs) acc) (\<lambda>acc. Inr (acc, c + (length vs - length (before_null vs))))"
proof (induction vs arbitrary: k bitmap acc)
  case (Cons v vs)
  from Cons.prems(1,2) obtain b bs where bitmap: "bitmap = b # bs" and b: "bit b k \<longleftrightarrow> v \<noteq> None"
    by (cases bitmap) (auto simp: bitmap_of_def dest: spec[of _ 0])
  show ?case
  proof (cases v)
    case None
    then show ?thesis using fold_nulls_stuck[of k b f ty "Suc (length vs)"] Cons.prems(2) b bitmap by simp
  next
    case (Some d)
    have vs: "\<forall>v\<in>set vs. v \<noteq> None \<longrightarrow> narrow ty (the v)" using Cons.prems(3) by simp
    have d: "fetch ty (elem_bytes ty (d # map the (filter (\<lambda>v. v \<noteq> None) vs))) =
        Inr (d, elem_bytes ty (map the (filter (\<lambda>v. v \<noteq> None) vs)))"
      using Cons.prems(3) Some by (intro fetch_elem) simp
    have rest: "bitmap_of vs (Suc k) bitmap"
      using Cons.prems(1) unfolding bitmap_of_def by (intro allI impI) (drule_tac x="Suc i" in spec, simp)
    show ?thesis
    proof (cases "k = 7")
      case True
      have "bitmap_of vs 0 bs"
        using rest unfolding True bitmap bitmap_of_def by (auto simp: div_add1_eq)
      then have "fold_nulls f ty (length vs) (elem_bytes ty (map the (filter (\<lambda>v. v \<noteq> None) vs))) bs 1 acc c =
          rbind (foldR f ty (before_null vs) acc) (\<lambda>acc. Inr (acc, c + (length vs - length (before_null vs))))" for acc
        using Cons.IH[of 0 bs acc] vs by simp
      then show ?thesis
        using Some d b bitmap True bit_mask[of 7 b] by (cases "f d (snd acc) ty (fst acc)") simp_all
    next
      case False
      then have "fold_nulls f ty (length vs) (elem_bytes ty (map the (filter (\<lambda>v. v \<noteq> None) vs))) bitmap (2 ^ Suc k) acc c =
          rbind (foldR f ty (before_null vs) acc) (\<lambda>acc. Inr (acc, c + (length vs - length (before_null vs))))" for acc
        using Cons.IH[OF rest, of acc] Cons.prems(2) vs by simp
      moreover have "2 ^ k * 2 \<noteq> (0x100 :: nat)"
      proof
        assume "2 ^ k * 2 = (0x100 :: nat)"
        then have "(2 :: nat) ^ k = 2 ^ 7" by simp
        then show False using False by (simp only: power_inject_exp)
      qed
      ultimately show ?thesis
        using Some d b bitmap Cons.prems(2) bit_mask[of k b]
        by (cases "f d (snd acc) ty (fst acc)") (simp_all add: mult.commute)
    qed
  qed
qed (simp add: elem_bytes_def)

lemma null_array_prefix:
  assumes "\<forall>v\<in>set vs. v \<noteq> None \<longrightarrow> narrow ty (the v)" "bitmap_of vs 0 bitmap"
  shows "General_Array_to_Element (array_nulls lb ty vs bitmap) x f fin flag =
    General_Array_to_Element (array1 lb ty (before_null vs)) x f fin flag"
proof -
  have len: "length (before_null vs) \<le> length vs"
    by (simp add: before_null_def length_takeWhile_le)
  have narrow: "\<forall>d\<in>set (before_null vs). narrow ty d"
    using assms(1) by (auto simp: before_null_def dest!: set_takeWhileD)
  have "(\<lambda>result. rbind (rbind (foldR f ty (before_null vs) (result, x)) (\<lambda>acc. Inr (acc, length vs - length (before_null vs))))
          (\<lambda>((result, _), null_count). Inr (fin result (int (length vs) - int null_count)))) =
      (\<lambda>r. rbind (foldR f ty (before_null vs) (r, x)) (\<lambda>acc. Inr (fin (fst acc) (int (length (before_null vs))))))"
  proof
    fix r
    show "rbind (rbind (foldR f ty (before_null vs) (r, x)) (\<lambda>acc. Inr (acc, length vs - length (before_null vs))))
          (\<lambda>((result, _), null_count). Inr (fin result (int (length vs) - int null_count))) =
        rbind (foldR f ty (before_null vs) (r, x)) (\<lambda>acc. Inr (fin (fst acc) (int (length (before_null vs)))))"
      using len by (cases "foldR f ty (before_null vs) (r, x)") (auto split: prod.splits simp: of_nat_diff)
  qed
  moreover have "fold_nulls f ty (length vs) (elem_bytes ty (map the (filter (\<lambda>v. v \<noteq> None) vs))) bitmap 1 acc 0 =
      rbind (foldR f ty (before_null vs) acc) (\<lambda>acc. Inr (acc, length vs - length (before_null vs)))" for acc
    using fold_nulls_prefix[OF assms(2) _ assms(1), of f acc 0] by simp
  moreover have "nitems (array_nulls lb ty vs bitmap) = length vs" "arr_ndim (array_nulls lb ty vs bitmap) \<noteq> 0"
    "arr_elemtype (array_nulls lb ty vs bitmap) = ty" "arr_nullbitmap (array_nulls lb ty vs bitmap) = Some bitmap"
    "arr_data (array_nulls lb ty vs bitmap) = elem_bytes ty (map the (filter (\<lambda>v. v \<noteq> None) vs))"
    by (simp_all add: nitems_def array_nulls_def)
  ultimately have "General_Array_to_Element (array_nulls lb ty vs bitmap) x f fin flag =
      rbind (initial_result flag ty) (\<lambda>r. rbind (foldR f ty (before_null vs) (r, x)) (\<lambda>acc.
        Inr (fin (fst acc) (int (length (before_null vs))))))"
    by (simp add: General_Array_to_Element_def)
  then show ?thesis using array_to_element[OF narrow] by simp
qed

lemma foldR_sum_int8: "foldR element_sum INT8OID xs (r, flag) = Inr (r + sum_list xs, flag)"
  by (induction xs arbitrary: r) (simp_all add: element_sum_def datum_defs ac_simps)

lemma foldR_sum_float8: "foldR element_sum FLOAT8OID xs (r, flag) = Inr (fold f64_add xs r, flag)"
  by (induction xs arbitrary: r) (simp_all add: element_sum_def datum_defs)

lemma foldR_diff_float8:
  "foldR element_diff FLOAT8OID xs (r, m) =
     Inr (fold (\<lambda>x r. f64_add r (f64_mul (f64_sub x m) (f64_sub x m))) xs r, m)"
  by (induction xs arbitrary: r) (simp_all add: element_diff_def datum_defs Let_def)

text \<open>The least and the greatest element; the first element sets the flag.\<close>

lemma element_min_int8: "element_min x 1 INT8OID r = Inr (if sint x < sint r then x else r, 1)"
  by (simp add: element_min_def datum_defs)

lemma element_max_int8: "element_max x 1 INT8OID r = Inr (if sint x > sint r then x else r, 1)"
  by (simp add: element_max_def datum_defs)

lemma foldR_min_int8:
  "\<exists>m. foldR element_min INT8OID xs (r, 1) = Inr (m, 1) \<and> m \<in> insert r (set xs) \<and> (\<forall>x\<in>insert r (set xs). sint m \<le> sint x)"
proof (induction xs arbitrary: r)
  case (Cons x xs)
  let ?r = "if sint x < sint r then x else r"
  obtain m where "foldR element_min INT8OID xs (?r, 1) = Inr (m, 1)" "m \<in> insert ?r (set xs)"
    "\<forall>y\<in>insert ?r (set xs). sint m \<le> sint y" using Cons by blast
  then show ?case
    by (intro exI[of _ m]) (auto simp: element_min_int8 split: if_splits)
qed simp

lemma foldR_max_int8:
  "\<exists>m. foldR element_max INT8OID xs (r, 1) = Inr (m, 1) \<and> m \<in> insert r (set xs) \<and> (\<forall>x\<in>insert r (set xs). sint x \<le> sint m)"
proof (induction xs arbitrary: r)
  case (Cons x xs)
  let ?r = "if sint x > sint r then x else r"
  obtain m where "foldR element_max INT8OID xs (?r, 1) = Inr (m, 1)" "m \<in> insert ?r (set xs)"
    "\<forall>y\<in>insert ?r (set xs). sint y \<le> sint m" using Cons by blast
  then show ?case
    by (intro exI[of _ m]) (auto simp: element_max_int8 split: if_splits)
qed simp

lemma initial_result_simps [simp]:
  "initial_result 0 INT8OID = Inr 0" "initial_result 0 FLOAT8OID = Inr f64_zero" "initial_result (Suc 0) ty = Inr f64_zero"
  by (simp_all add: initial_result_def datum_defs)

lemma array_min_int8:
  assumes "xs \<noteq> []"
  shows "\<exists>m. array_min (Some (array1 lb INT8OID xs)) = Inr (Some m) \<and> m \<in> set xs \<and> (\<forall>x\<in>set xs. sint m \<le> sint x)"
proof -
  obtain y ys where xs: "xs = y # ys" using assms by (cases xs) auto
  obtain m where "foldR element_min INT8OID ys (y, 1) = Inr (m, 1)" "m \<in> set xs" "\<forall>x\<in>set xs. sint m \<le> sint x"
    using foldR_min_int8[of ys y] xs by auto
  moreover from this have "foldR element_min INT8OID xs (0, 0) = Inr (m, 1)"
    unfolding xs by (simp add: element_min_def datum_defs)
  ultimately show ?thesis
    using array_to_element[of xs INT8OID lb 0 element_min noop_finalize 0] wide_narrow[of INT8OID]
    by (simp add: array_min_def null1_def noop_finalize_def datum_defs)
qed

lemma array_max_int8:
  assumes "xs \<noteq> []"
  shows "\<exists>m. array_max (Some (array1 lb INT8OID xs)) = Inr (Some m) \<and> m \<in> set xs \<and> (\<forall>x\<in>set xs. sint x \<le> sint m)"
proof -
  obtain y ys where xs: "xs = y # ys" using assms by (cases xs) auto
  obtain m where "foldR element_max INT8OID ys (y, 1) = Inr (m, 1)" "m \<in> set xs" "\<forall>x\<in>set xs. sint x \<le> sint m"
    using foldR_max_int8[of ys y] xs by auto
  moreover from this have "foldR element_max INT8OID xs (0, 0) = Inr (m, 1)"
    unfolding xs by (simp add: element_max_def datum_defs)
  ultimately show ?thesis
    using array_to_element[of xs INT8OID lb 0 element_max noop_finalize 0] wide_narrow[of INT8OID]
    by (simp add: array_max_def null1_def noop_finalize_def datum_defs)
qed

section \<open>Containment\<close>

text \<open>The count of the differences is a double that starts from zero; adding one never gives zero.\<close>

definition count_ok :: "float8 \<Rightarrow> bool" where
  "count_ok c \<longleftrightarrow> 0 \<le> uint c \<and> uint c \<le> f64_inf_bits"

lemma count_fields:
  assumes "count_ok c"
  shows "\<not> f64_sign c" "f64_mag c = uint c" "\<not> f64_is_nan c"
  using assms by (simp_all add: count_ok_def f64_sign_def f64_mag_def f64_is_nan_def f64_inf_bits_def)

lemma unpack_pos: "0 \<le> b \<Longrightarrow> f64_unpack b = (m, e) \<Longrightarrow> 0 \<le> m \<and> (m = 0 \<longleftrightarrow> b = 0) \<and> - 1074 \<le> e"
proof -
  assume b: "0 \<le> b" and u: "f64_unpack b = (m, e)"
  have d: "0 \<le> b div 2 ^ 52" "0 \<le> b mod 2 ^ 52" using b by (simp_all add: pos_imp_zdiv_nonneg_iff)
  have "b = (b div 2 ^ 52) * 2 ^ 52 + b mod 2 ^ 52" by simp
  with d u show ?thesis by (auto simp: f64_unpack_def Let_def split: if_splits)
qed

lemma count_add:
  assumes "count_ok c" "count_ok d"
  shows "count_ok (f64_add c d) \<and> (f64_add c d = 0 \<longleftrightarrow> c = 0 \<and> d = 0)"
proof (cases "f64_is_inf c \<or> f64_is_inf d")
  case True
  moreover have "c \<noteq> 0" if "f64_is_inf c" using that by (auto simp: f64_is_inf_def f64_mag_def f64_inf_bits_def)
  moreover have "d \<noteq> 0" if "f64_is_inf d" using that by (auto simp: f64_is_inf_def f64_mag_def f64_inf_bits_def)
  ultimately show ?thesis
    using assms count_fields[OF assms(1)] count_fields[OF assms(2)] by (auto simp: f64_add_def)
next
  case False
  obtain m1 e1 m2 e2 where u: "f64_unpack (uint c) = (m1, e1)" "f64_unpack (uint d) = (m2, e2)" by fastforce
  define e where "e = min e1 e2"
  define s where "s = m1 * 2 ^ nat (e1 - e) + m2 * 2 ^ nat (e2 - e)"
  note p = unpack_pos[OF _ u(1)] unpack_pos[OF _ u(2)]
  have add: "f64_add c d = (if s = 0 then f64_of_bits False 0 else f64_round (s < 0) \<bar>s\<bar> e)"
    using False u count_fields[OF assms(1)] count_fields[OF assms(2)]
    by (simp add: f64_add_def Let_def e_def s_def)
  have z: "0 \<le> s" "s = 0 \<longleftrightarrow> c = 0 \<and> d = 0" "- 1074 \<le> e"
    using p by (auto simp: s_def e_def add_nonneg_eq_0_iff unsigned_eq_0_iff)
  show ?thesis
  proof (cases "s = 0")
    case True
    then show ?thesis using z add by (simp add: f64_of_bits_def count_ok_def f64_inf_bits_def)
  next
    case False
    have "\<bar>s\<bar> = s" "\<not> s < 0" using z(1) by simp_all
    then have "f64_add c d = f64_round False s e" using False add by (simp only: if_False)
    then obtain b where b: "f64_add c d = f64_of_bits False b" "0 < b" "b \<le> f64_inf_bits"
      using f64_round_bits[of s e False] z False by (metis order_le_less)
    then have "uint (f64_add c d) = b" by (simp add: f64_of_bits_pos)
    with b False z show ?thesis by (auto simp: count_ok_def)
  qed
qed

lemma contains_data_int8:
  "length xs = length ys \<Longrightarrow> count_ok c \<Longrightarrow>
   \<exists>r. fold_data2 element_contains INT8OID (length xs) (elem_bytes INT8OID xs) (elem_bytes INT8OID ys) c = Inr r \<and>
     (r = 0 \<longleftrightarrow> c = 0 \<and> (\<forall>(x, y)\<in>set (zip xs ys). x = y \<or> y = 0))"
proof (induction xs ys arbitrary: c rule: list_induct2)
  case (Cons x xs y ys)
  define c' where "c' = f64_add c (if x = y \<or> y = 0 then f64_zero else f64_one)"
  have ok: "count_ok f64_zero" "count_ok f64_one" by (simp_all add: count_ok_def f64_zero_def f64_one_def f64_inf_bits_def)
  have "count_ok c'" "c' = 0 \<longleftrightarrow> c = 0 \<and> (x = y \<or> y = 0)"
    using count_add[OF Cons.prems ok(1)] count_add[OF Cons.prems ok(2)]
    by (auto simp: c'_def f64_zero_def f64_one_def)
  moreover have "fold_data2 element_contains INT8OID (length (x # xs)) (elem_bytes INT8OID (x # xs)) (elem_bytes INT8OID (y # ys)) c =
      fold_data2 element_contains INT8OID (length xs) (elem_bytes INT8OID xs) (elem_bytes INT8OID ys) c'"
    using fetch_elem[OF wide_narrow[of INT8OID]] by (simp add: element_contains_def datum_defs c'_def)
  ultimately show ?case using Cons.IH[of c'] by auto
qed simp

section \<open>Whole functions\<close>

lemma array_contains_int8:
  assumes "length xs = length ys" "xs \<noteq> []"
  shows "array_contains (Some (array1 lb INT8OID xs)) (Some (array1 lb INT8OID ys)) =
    Inr (Some (\<forall>(x, y)\<in>set (zip xs ys). x = y \<or> y = 0))"
proof -
  have shape: "check_shape (array1 lb INT8OID xs) (array1 lb INT8OID ys) msg = Inr ()" for msg
    using assms(1) by (simp add: check_shape_def array1_def)
  obtain r where r: "fold_data2 element_contains INT8OID (length xs) (elem_bytes INT8OID xs) (elem_bytes INT8OID ys) 0 = Inr r"
      "r = 0 \<longleftrightarrow> (\<forall>(x, y)\<in>set (zip xs ys). x = y \<or> y = 0)"
    using contains_data_int8[OF assms(1), of 0] unfolding count_ok_def f64_inf_bits_def by fastforce
  have "General_2Array_to_Element (array1 lb INT8OID xs) (array1 lb INT8OID ys) element_contains noop_finalize 0 = Inr r"
    using shape r(1) by (simp add: General_2Array_to_Element_def ARR_HASNULL_def) (simp add: array1_def noop_finalize_def)
  then show ?thesis using r(2) by (simp add: array_contains_def null2_def)
qed

lemma div_arrays:
  assumes "length xs = length ys" "xs \<noteq> []"
  shows "General_2Array_to_Array (array1 lb FLOAT8OID xs) (array1 lb FLOAT8OID ys) element_div =
    (if \<exists>y\<in>set ys. f64_eq y f64_zero then Inl (Report ''division by zero is not allowed'')
     else Inr (array1 1 FLOAT8OID (map2 f64_div xs ys)))"
proof -
  have "check_shape (array1 lb FLOAT8OID xs) (array1 lb FLOAT8OID ys) msg = Inr ()" for msg
    using assms(1) by (simp add: check_shape_def array1_def)
  then show ?thesis
    using assms div_data_float8[OF assms(1)] add_float8.finish_array_list[of "map2 f64_div xs ys" xs lb]
    by (simp add: General_2Array_to_Array_def ARR_HASNULL_def) (simp add: array1_def)
qed

lemma div_arrays_int8:
  assumes "length xs = length ys" "xs \<noteq> []"
  shows "General_2Array_to_Array (array1 lb INT8OID xs) (array1 lb INT8OID ys) element_div =
    (case List.find bad_quotient (zip xs ys) of
       Some (x, y) \<Rightarrow> Inl (if y = 0 then Report ''division by zero is not allowed'' else Undefined)
     | None \<Rightarrow> Inr (array1 1 INT8OID (map2 int_div xs ys)))"
proof -
  have "check_shape (array1 lb INT8OID xs) (array1 lb INT8OID ys) msg = Inr ()" for msg
    using assms(1) by (simp add: check_shape_def array1_def)
  then have run: "General_2Array_to_Array (array1 lb INT8OID xs) (array1 lb INT8OID ys) element_div =
      rbind (map_data2 element_div INT8OID (length xs) (elem_bytes INT8OID xs) (elem_bytes INT8OID ys))
        (\<lambda>r. finish_array r (array1 lb INT8OID xs))"
    using assms by (simp add: General_2Array_to_Array_def ARR_HASNULL_def) (simp add: array1_def)
  show ?thesis
    unfolding run div_data_int8[OF assms(1)]
    using assms add_int8.finish_array_list[of "map2 int_div xs ys" xs lb] by (simp split: option.splits prod.splits)
qed

text \<open>A function on elements that reports nothing for a supported type.\<close>

definition total_element :: "nat \<Rightarrow> map_fun \<Rightarrow> bool" where
  "total_element ty f \<longleftrightarrow> (\<forall>x y. \<exists>r. f x y ty = Inr r)"

lemma total_elements:
  "ty \<in> {INT2OID, INT4OID, FLOAT4OID} \<Longrightarrow> total_element ty element_add"
  "ty \<in> {INT2OID, INT4OID, FLOAT4OID} \<Longrightarrow> total_element ty element_sub"
  "ty \<in> {INT2OID, INT4OID, FLOAT4OID} \<Longrightarrow> total_element ty element_mult"
  "ty \<in> {INT2OID, INT4OID, FLOAT4OID} \<Longrightarrow> total_element ty element_set"
  by (auto simp: total_element_def element_add_def element_sub_def element_mult_def element_set_def)

lemma map_data_length:
  "total_element ty f \<Longrightarrow> \<forall>x\<in>set xs. narrow ty x \<Longrightarrow>
   \<exists>r. map_data f k ty (length xs) (elem_bytes ty xs) = Inr r \<and> length r = type_size ty * length xs"
proof (induction xs)
  case (Cons x xs)
  obtain z where "f x k ty = Inr z" using Cons.prems(1) by (auto simp: total_element_def)
  with Cons fetch_elem[of ty x xs] type_size_le(2)[of ty] show ?case by (auto simp: min_def)
qed simp

lemma map_data2_length:
  "length xs = length ys \<Longrightarrow> total_element ty f \<Longrightarrow> \<forall>x\<in>set xs. narrow ty x \<Longrightarrow> \<forall>y\<in>set ys. narrow ty y \<Longrightarrow>
   \<exists>r. map_data2 f ty (length xs) (elem_bytes ty xs) (elem_bytes ty ys) = Inr r \<and> length r = type_size ty * length xs"
proof (induction xs ys rule: list_induct2)
  case (Cons x xs y ys)
  obtain z where "f x y ty = Inr z" using Cons.prems(1) by (auto simp: total_element_def)
  with Cons fetch_elem[of ty x xs] fetch_elem[of ty y ys] type_size_le(2)[of ty] show ?case by (auto simp: min_def)
qed simp

lemma supported_narrow: "ty \<in> {INT2OID, INT4OID, FLOAT4OID} \<Longrightarrow> supported ty \<and> type_size ty < 8"
  by (auto simp: supported_def type_size_def oid_defs)

lemma finish_overread:
  "length r = type_size ty * length xs \<Longrightarrow> type_size ty < 8 \<Longrightarrow> xs \<noteq> [] \<Longrightarrow> finish_array r (array1 lb ty xs) = Inl Undefined"
  by (simp add: finish_array_def construct_array_def guard_mem_def)

lemma narrow_overread1:
  assumes "\<forall>x\<in>set xs. narrow ty x" "xs \<noteq> []" "ty \<in> {INT2OID, INT4OID, FLOAT4OID}" "total_element ty f"
  shows "General_Array_to_Array (array1 lb ty xs) k f = Inl Undefined"
proof -
  obtain r where "map_data f k ty (length xs) (elem_bytes ty xs) = Inr r" "length r = type_size ty * length xs"
    using map_data_length[OF assms(4,1)] by blast
  then show ?thesis
    using finish_overread[of r ty xs lb] supported_narrow[OF assms(3)] assms(2)
    by (simp add: General_Array_to_Array_def ARR_HASNULL_def) (simp add: array1_def)
qed

lemma narrow_overread2:
  assumes "\<forall>x\<in>set xs. narrow ty x" "\<forall>y\<in>set ys. narrow ty y" "length xs = length ys" "xs \<noteq> []"
    "ty \<in> {INT2OID, INT4OID, FLOAT4OID}" "total_element ty f"
  shows "General_2Array_to_Array (array1 lb ty xs) (array1 lb ty ys) f = Inl Undefined"
proof -
  have "check_shape (array1 lb ty xs) (array1 lb ty ys) msg = Inr ()" for msg
    using assms(3) by (simp add: check_shape_def array1_def)
  moreover obtain r where "map_data2 f ty (length xs) (elem_bytes ty xs) (elem_bytes ty ys) = Inr r" "length r = type_size ty * length xs"
    using map_data2_length[OF assms(3,6,1,2)] by blast
  ultimately show ?thesis
    using finish_overread[of r ty xs lb] supported_narrow[OF assms(5)] assms(3,4)
    by (simp add: General_2Array_to_Array_def ARR_HASNULL_def) (simp add: array1_def)
qed

section \<open>Properties\<close>

text \<open>The result of a function on two arrays, whose lengths and lower bounds must be equal.\<close>

definition same_shape :: "int \<Rightarrow> int \<Rightarrow> dat list \<Rightarrow> dat list \<Rightarrow> array res \<Rightarrow> array option res" where
  "same_shape lb lb' xs ys r =
     (if length xs = length ys \<and> lb = lb' then rbind r (\<lambda>v. Inr (Some v))
      else Inl (Report ''cannot operate on arrays of different length''))"

text \<open>
  C14: on non-empty one-dimensional arrays without NULLs.  For doubles and for 64-bit integers the sum, the
  difference, the product and the quotient of two arrays apply the operation of the element type to corresponding
  elements when the arrays have the same length and the same lower bound, and report different lengths otherwise; the
  result starts at index 1.  A double in the second array that is zero is reported.  Of the 64-bit integers
  the first pair decides whose denominator is zero, which is reported, or which is the least number and -1, which
  is undefined; without one the quotients are rounded towards zero.  The scalar product and fill apply to every
  element of both types, the square root to doubles.
\<close>

theorem array_elementwise:
  assumes "xs \<noteq> []"
  shows
    "array_add (Some (array1 lb FLOAT8OID xs)) (Some (array1 lb' FLOAT8OID ys)) =
       same_shape lb lb' xs ys (Inr (array1 1 FLOAT8OID (map2 f64_add xs ys))) \<and>
     array_sub (Some (array1 lb FLOAT8OID xs)) (Some (array1 lb' FLOAT8OID ys)) =
       same_shape lb lb' xs ys (Inr (array1 1 FLOAT8OID (map2 f64_sub xs ys))) \<and>
     array_mult (Some (array1 lb FLOAT8OID xs)) (Some (array1 lb' FLOAT8OID ys)) =
       same_shape lb lb' xs ys (Inr (array1 1 FLOAT8OID (map2 f64_mul xs ys))) \<and>
     array_div (Some (array1 lb FLOAT8OID xs)) (Some (array1 lb' FLOAT8OID ys)) =
       same_shape lb lb' xs ys
         (if \<exists>y\<in>set ys. f64_eq y f64_zero then Inl (Report ''division by zero is not allowed'')
          else Inr (array1 1 FLOAT8OID (map2 f64_div xs ys))) \<and>
     array_scalar_mult (Some (array1 lb FLOAT8OID xs)) (Some k) = Inr (Some (array1 1 FLOAT8OID (map (\<lambda>x. f64_mul x k) xs))) \<and>
     array_sqrt (Some (array1 lb FLOAT8OID xs)) = Inr (Some (array1 1 FLOAT8OID (map f64_sqrt xs))) \<and>
     array_fill (Some (array1 lb FLOAT8OID xs)) (Some k) = Inr (Some (array1 1 FLOAT8OID (replicate (length xs) k))) \<and>
     array_add (Some (array1 lb INT8OID xs)) (Some (array1 lb' INT8OID ys)) =
       same_shape lb lb' xs ys (Inr (array1 1 INT8OID (map2 (+) xs ys))) \<and>
     array_sub (Some (array1 lb INT8OID xs)) (Some (array1 lb' INT8OID ys)) =
       same_shape lb lb' xs ys (Inr (array1 1 INT8OID (map2 (-) xs ys))) \<and>
     array_mult (Some (array1 lb INT8OID xs)) (Some (array1 lb' INT8OID ys)) =
       same_shape lb lb' xs ys (Inr (array1 1 INT8OID (map2 (*) xs ys))) \<and>
     array_div (Some (array1 lb INT8OID xs)) (Some (array1 lb' INT8OID ys)) =
       same_shape lb lb' xs ys
         (case List.find (\<lambda>(x, y). y = 0 \<or> sint x = - (2 ^ 63) \<and> sint y = -1) (zip xs ys) of
            Some (x, y) \<Rightarrow> Inl (if y = 0 then Report ''division by zero is not allowed'' else Undefined)
          | None \<Rightarrow> Inr (array1 1 INT8OID (map2 (\<lambda>x y. word_of_int (sint x sdiv sint y)) xs ys))) \<and>
     array_scalar_mult (Some (array1 lb INT8OID xs)) (Some k) = Inr (Some (array1 1 INT8OID (map (\<lambda>x. x * k) xs))) \<and>
     array_fill (Some (array1 lb INT8OID xs)) (Some k) = Inr (Some (array1 1 INT8OID (replicate (length xs) k)))"
proof (cases "length xs = length ys \<and> lb = lb'")
  case True
  then have len: "length xs = length ys" and lb: "lb' = lb" by simp_all
  have int_div: "int_div = (\<lambda>x y :: int64. word_of_int (sint x sdiv sint y))"
    by (simp add: int_div_def fun_eq_iff)
  have bad: "bad_quotient = (\<lambda>(x, y). y = 0 \<or> sint x = - (2 ^ 63) \<and> sint y = -1)"
    by (auto simp: bad_quotient_def)
  show ?thesis
    using True assms div_arrays[OF len assms] div_arrays_int8[OF len assms, unfolded int_div bad]
    by (simp add: lb same_shape_def array_add_def array_sub_def array_mult_def array_div_def array_scalar_mult_def array_sqrt_def
        array_fill_def null1_def null2_def map_replicate_const add_float8.two_arrays sub_float8.two_arrays mult_float8.two_arrays
        mult_float8.one_array sqrt_float8.one_array set_float8.one_array add_int8.two_arrays sub_int8.two_arrays
        mult_int8.two_arrays mult_int8.one_array set_int8.one_array)
next
  case False
  then have "\<not> (length xs = length ys \<and> lb = lb')" "length xs \<noteq> length ys \<or> lb \<noteq> lb'" by auto
  then show ?thesis
    using assms different_shape[of xs ys lb lb']
    by (simp add: same_shape_def array_add_def array_sub_def array_mult_def array_div_def array_scalar_mult_def array_sqrt_def
        array_fill_def null1_def null2_def map_replicate_const
        mult_float8.one_array sqrt_float8.one_array set_float8.one_array mult_int8.one_array set_int8.one_array)
qed

lemma array_elementwise_witness:
  "array_add (Some (array1 1 INT8OID [1, 2])) (Some (array1 1 INT8OID [3, - 4])) = Inr (Some (array1 1 INT8OID [4, - 2])) \<and>
   array_div (Some (array1 1 INT8OID [1, 2])) (Some (array1 1 INT8OID [3, 0])) = Inl (Report ''division by zero is not allowed'')"
proof
  show "array_add (Some (array1 1 INT8OID [1, 2])) (Some (array1 1 INT8OID [3, - 4])) = Inr (Some (array1 1 INT8OID [4, - 2]))"
    using array_elementwise[of "[1, 2]" 1 1 "[3, - 4]" 0] by (simp add: same_shape_def)
  show "array_div (Some (array1 1 INT8OID [1, 2])) (Some (array1 1 INT8OID [3, 0])) = Inl (Report ''division by zero is not allowed'')"
    using array_elementwise[of "[1, 2]" 1 1 "[3, 0]" 0] by (simp add: same_shape_def)
qed

text \<open>
  C15: the reductions of a non-empty one-dimensional array without NULLs.  Of 64-bit integers \<open>array_sum\<close>,
  \<open>array_min\<close> and \<open>array_max\<close> are the sum modulo \<open>2 ^ 64\<close>, the least and the greatest element, and
  \<open>array_contains\<close> decides whether every element of the second array is zero or equal to the corresponding
  element of the first.  Of doubles \<open>array_sum\<close> is the rounded sum from the left, \<open>array_mean\<close> its
  quotient by the number of elements, and \<open>array_stddev\<close> the square root of the mean of the squared distances
  to the mean.
\<close>

theorem array_reductions:
  assumes "xs \<noteq> []" "length ys = length xs"
  defines "mean \<equiv> f64_div (fold f64_add xs f64_zero) (f64_of_int (int (length xs)))"
  shows
    "array_sum (Some (array1 lb INT8OID xs)) = Inr (Some (sum_list xs)) \<and>
     (\<exists>m. array_min (Some (array1 lb INT8OID xs)) = Inr (Some m) \<and> m \<in> set xs \<and> (\<forall>x\<in>set xs. sint m \<le> sint x)) \<and>
     (\<exists>m. array_max (Some (array1 lb INT8OID xs)) = Inr (Some m) \<and> m \<in> set xs \<and> (\<forall>x\<in>set xs. sint x \<le> sint m)) \<and>
     array_contains (Some (array1 lb INT8OID xs)) (Some (array1 lb INT8OID ys)) =
       Inr (Some (\<forall>(x, y)\<in>set (zip xs ys). x = y \<or> y = 0)) \<and>
     array_sum (Some (array1 lb FLOAT8OID xs)) = Inr (Some (fold f64_add xs f64_zero)) \<and>
     array_mean (Some (array1 lb FLOAT8OID xs)) = Inr (Some mean) \<and>
     array_stddev (Some (array1 lb FLOAT8OID xs)) =
       Inr (Some (f64_sqrt (f64_div
         (fold (\<lambda>x r. f64_add r (f64_mul (f64_sub x mean) (f64_sub x mean))) xs f64_zero) (f64_of_int (int (length xs))))))"
  using array_min_int8[OF assms(1)] array_max_int8[OF assms(1)] array_contains_int8[OF assms(2)[symmetric] assms(1), of lb]
    array_to_element[of xs INT8OID lb] array_to_element[of xs FLOAT8OID lb] wide_narrow[of INT8OID] wide_narrow[of FLOAT8OID]
  by (simp add: array_sum_def array_mean_def array_stddev_def null1_def foldR_sum_int8 foldR_sum_float8 foldR_diff_float8
      noop_finalize_def average_finalize_def average_root_finalize_def datum_defs mean_def)

lemma array_reductions_witness:
  "array_sum (Some (array1 1 INT8OID [1, 2, 3])) = Inr (Some 6) \<and>
   array_contains (Some (array1 1 INT8OID [1, 2, 3])) (Some (array1 1 INT8OID [1, 0, 3])) = Inr (Some True)"
  using array_reductions[of "[1, 2, 3]" "[1, 0, 3]" 1] by simp

text \<open>
  A reduction of an array with NULLs ignores every element after the first NULL, whether it is
  NULL or not, because the position in the NULL bitmap is not advanced at a NULL; the mean divides by
  the length of the prefix.
\<close>

theorem array_nulls_prefix:
  assumes "\<forall>v\<in>set vs. v \<noteq> None \<longrightarrow> narrow ty (the v)" "bitmap_of vs 0 bitmap"
  shows
    "array_sum (Some (array_nulls lb ty vs bitmap)) = array_sum (Some (array1 lb ty (before_null vs))) \<and>
     array_sum_big (Some (array_nulls lb ty vs bitmap)) = array_sum_big (Some (array1 lb ty (before_null vs))) \<and>
     array_min (Some (array_nulls lb ty vs bitmap)) = array_min (Some (array1 lb ty (before_null vs))) \<and>
     array_max (Some (array_nulls lb ty vs bitmap)) = array_max (Some (array1 lb ty (before_null vs))) \<and>
     array_mean (Some (array_nulls lb ty vs bitmap)) = array_mean (Some (array1 lb ty (before_null vs))) \<and>
     array_stddev (Some (array_nulls lb ty vs bitmap)) = array_stddev (Some (array1 lb ty (before_null vs)))"
  using null_array_prefix[OF assms]
  by (simp add: array_sum_def array_sum_big_def array_min_def array_max_def array_mean_def array_stddev_def null1_def)

lemma array_nulls_prefix_witness:
  "array_sum (Some (array_nulls 1 INT8OID [Some 1, None, Some 5] [5])) = array_sum (Some (array1 1 INT8OID [1]))"
proof -
  have "bitmap_of [Some 1, None, Some 5] 0 [5]"
    by (simp add: bitmap_of_def less_Suc_eq numeral_3_eq_3 nth_Cons')
  then show ?thesis
    using array_nulls_prefix[of "[Some 1, None, Some 5]" INT8OID "[5]" 1] wide_narrow[of INT8OID] by simp
qed

text \<open>
  The elementwise functions on arrays of a type of less than eight bytes read past the end of
  their result: the buffer has the length of the type for each element, and is read as datums of
  eight bytes.
\<close>

theorem array_narrow_overread:
  assumes "\<forall>x\<in>set xs. narrow ty x" "\<forall>y\<in>set ys. narrow ty y" "length ys = length xs" "xs \<noteq> []"
    "ty \<in> {INT2OID, INT4OID, FLOAT4OID}"
  shows
    "array_add (Some (array1 lb ty xs)) (Some (array1 lb ty ys)) = Inl Undefined \<and>
     array_sub (Some (array1 lb ty xs)) (Some (array1 lb ty ys)) = Inl Undefined \<and>
     array_mult (Some (array1 lb ty xs)) (Some (array1 lb ty ys)) = Inl Undefined \<and>
     array_scalar_mult (Some (array1 lb ty xs)) (Some k) = Inl Undefined \<and>
     array_fill (Some (array1 lb ty xs)) (Some k) = Inl Undefined"
  using assms narrow_overread2[of xs ty ys] narrow_overread1[of xs ty]
  by (simp add: array_add_def array_sub_def array_mult_def array_scalar_mult_def array_fill_def null1_def null2_def total_elements)

lemma array_narrow_overread_witness:
  "array_add (Some (array1 1 INT4OID [1, 2])) (Some (array1 1 INT4OID [3, 4])) = Inl Undefined"
  using array_narrow_overread[of "[1, 2]" INT4OID "[3, 4]" 1] by (simp add: narrow_def type_size_def oid_defs)

end
