(* ===== verification/DtPrune.thy ===== *)
theory DtPrune
  imports Float64
begin

text \<open>
  Pruning of decision trees, the first part of \<open>methods/cart/src/pg_gp/dt.c\<close>: the additional errors of
  error-based pruning (EBP) and the class counts of reduced-error pruning (REP).  \<open>exp\<close> and \<open>log\<close> of
  the C library are parameters.
\<close>

section \<open>Arrays\<close>

text \<open>
  An array of the server, of which the code uses the number of dimensions and the items:
  \<open>ArrayGetNItems\<close> is the length of \<open>pg_items\<close>.
\<close>

record 'a pg_array =
  pg_ndim :: nat
  pg_items :: "'a list"

definition pg_array1 :: "'a list \<Rightarrow> 'a pg_array" where
  "pg_array1 xs = \<lparr>pg_ndim = 1, pg_items = xs\<rparr>"

lemma pg_array1_simps [simp]: "pg_ndim (pg_array1 xs) = 1" "pg_items (pg_array1 xs) = xs"
  by (simp_all add: pg_array1_def)

definition check_array_dim :: "'a pg_array \<Rightarrow> unit res" where
  "check_array_dim a = check (pg_ndim a = 1) ''invalid array dimension''"

lemma check_array_dim_1 [simp]: "check_array_dim (pg_array1 xs) = Inr ()"
  by (simp add: check_array_dim_def)

section \<open>Error-based pruning\<close>

definition DT_EPSILON :: float8 where "DT_EPSILON = 0x3E112E0BE826D695"

definition dt_is_float_zero :: "float8 \<Rightarrow> bool" where
  "dt_is_float_zero value \<longleftrightarrow> f64_lt value DT_EPSILON \<and> f64_lt (f64_neg DT_EPSILON) value"

text \<open>0, 0.001, 0.005, 0.01, 0.05, 0.1, 0.2, 0.4 and 1.\<close>

definition DT_CONFIDENCE_LEVEL :: "float8 list" where
  "DT_CONFIDENCE_LEVEL = [0, 0x3F50624DD2F1A9FC, 0x3F747AE147AE147B, 0x3F847AE147AE147B, 0x3FA999999999999A,
     0x3FB999999999999A, 0x3FC999999999999A, 0x3FD999999999999A, 0x3FF0000000000000]"

text \<open>4, 3.09, 2.58, 2.33, 1.65, 1.28, 0.84, 0.25 and 0.\<close>

definition DT_CONFIDENCE_DEV :: "float8 list" where
  "DT_CONFIDENCE_DEV = [0x4010000000000000, 0x4008B851EB851EB8, 0x4004A3D70A3D70A4, 0x4002A3D70A3D70A4,
     0x3FFA666666666666, 0x3FF47AE147AE147B, 0x3FEAE147AE147AE1, 0x3FD0000000000000, 0]"

text \<open>
  The bounds are \<open>long double\<close> constants; the least double that is not below 0.001L is 0.001,
  and 100 is exact, so comparing with the doubles is the same.
\<close>

definition MIN_DT_CONFIDENCE_LEVEL :: float8 where "MIN_DT_CONFIDENCE_LEVEL = 0x3F50624DD2F1A9FC"
definition MAX_DT_CONFIDENCE_LEVEL :: float8 where "MAX_DT_CONFIDENCE_LEVEL = 0x4059000000000000"

definition f64_half :: float8 where "f64_half = 0x3FE0000000000000"

text \<open>
  The additional errors.  The function calls itself at most once, with one error, which is not below
  0.9999 (\<open>0x3FEFFF2E48E8A71E\<close>); \<open>0x3EB0C6F7A0B5ED8D\<close> is 1E-6 and \<open>0x3FE570A3D70A3D71\<close> is 0.67.
\<close>

definition few_errors :: "(float8 \<Rightarrow> float8) \<Rightarrow> (float8 \<Rightarrow> float8) \<Rightarrow> float8 \<Rightarrow> float8 \<Rightarrow> float8" where
  "few_errors cexp clog total_cases conf_level =
     f64_mul total_cases (f64_sub f64_one (cexp (f64_div (clog conf_level) total_cases)))"

function dt_ebp_calc_errors_internal ::
    "(float8 \<Rightarrow> float8) \<Rightarrow> (float8 \<Rightarrow> float8) \<Rightarrow> float8 \<Rightarrow> float8 \<Rightarrow> float8 \<Rightarrow> float8 \<Rightarrow> float8" where
  "dt_ebp_calc_errors_internal cexp clog total_cases num_errors conf_level coeff =
     (if f64_lt num_errors 0x3EB0C6F7A0B5ED8D then few_errors cexp clog total_cases conf_level
      else if f64_lt num_errors 0x3FEFFF2E48E8A71E then
        let tmp = few_errors cexp clog total_cases conf_level in
        f64_add tmp (f64_mul num_errors
          (f64_sub (dt_ebp_calc_errors_internal cexp clog total_cases f64_one conf_level coeff) tmp))
      else if f64_le total_cases (f64_add num_errors f64_half) then
        f64_mul 0x3FE570A3D70A3D71 (f64_sub total_cases num_errors)
      else
        let e = f64_add num_errors f64_half;
            half_coeff = f64_div coeff 0x4000000000000000;
            root = f64_sqrt (f64_mul coeff (f64_add (f64_mul e (f64_sub f64_one (f64_div e total_cases)))
                     (f64_div coeff 0x4010000000000000)));
            tmp = f64_div (f64_add (f64_add e half_coeff) root) (f64_add total_cases coeff)
        in f64_sub (f64_mul total_cases tmp) num_errors)"
  by auto

lemma one_above: "\<not> f64_lt f64_one 0x3FEFFF2E48E8A71E"
  by code_simp

termination dt_ebp_calc_errors_internal
  by (relation "measure (\<lambda>(_, _, _, num_errors, _, _). if f64_lt num_errors 0x3FEFFF2E48E8A71E then 1 else 0)")
    (auto simp: one_above)

declare dt_ebp_calc_errors_internal.simps [simp del]

text \<open>\<open>while (conf_level > DT_CONFIDENCE_LEVEL[i]) i++\<close>; past the end of the table it reads outside it.\<close>

fun confidence_index :: "float8 \<Rightarrow> float8 list \<Rightarrow> nat \<Rightarrow> nat res" where
  "confidence_index conf_level [] i = Inl Undefined"
| "confidence_index conf_level (l # ls) i =
     (if f64_lt l conf_level then confidence_index conf_level ls (i + 1) else Inr i)"

definition dt_ebp_calc_errors ::
    "(float8 \<Rightarrow> float8) \<Rightarrow> (float8 \<Rightarrow> float8) \<Rightarrow> float8 \<Rightarrow> float8 \<Rightarrow> float8 \<Rightarrow> float8 res" where
  "dt_ebp_calc_errors cexp clog total_cases probability conf_level =
     (if dt_is_float_zero (f64_sub 0x4059000000000000 conf_level) then Inr f64_one
      else
        rbind (check (\<not> (f64_lt conf_level MIN_DT_CONFIDENCE_LEVEL \<or> f64_lt MAX_DT_CONFIDENCE_LEVEL conf_level))
          ''invalid confidence level'') (\<lambda>_.
        rbind (check (f64_lt f64_zero total_cases) ''invalid number'') (\<lambda>_.
        rbind (check (\<not> (f64_lt probability f64_zero \<or> f64_lt f64_one probability)) ''invalid probability'') (\<lambda>_.
        let conf_level = f64_mul conf_level 0x3F847AE147AE147B in
        rbind (confidence_index conf_level DT_CONFIDENCE_LEVEL 0) (\<lambda>i.
        rbind (check (0 < i \<and> i < length DT_CONFIDENCE_LEVEL) ''invalid value'') (\<lambda>_.
          let dev = (\<lambda>i. DT_CONFIDENCE_DEV ! i); level = (\<lambda>i. DT_CONFIDENCE_LEVEL ! i);
              coeff = f64_add (dev (i - 1))
                (f64_div (f64_mul (f64_sub (dev i) (dev (i - 1))) (f64_sub conf_level (level (i - 1))))
                  (f64_sub (level i) (level (i - 1))));
              coeff = f64_mul coeff coeff;
              num_errors = f64_mul total_cases (f64_sub f64_one probability)
          in Inr (f64_add (dt_ebp_calc_errors_internal cexp clog total_cases num_errors conf_level coeff) num_errors)))))))"

section \<open>Reduced-error pruning\<close>

text \<open>
  The state has the number of misclassified cases first, and then the number of cases of each
  class.  The sizes are 32-bit integers.
\<close>

definition dt_rep_aggr_class_count_sfunc ::
    "int64 pg_array option \<Rightarrow> 32 word \<Rightarrow> 32 word \<Rightarrow> 32 word \<Rightarrow> int64 pg_array res" where
  "dt_rep_aggr_class_count_sfunc state classified_class original_class max_num_of_classes =
     rbind (check (2 \<le> sint max_num_of_classes) ''invalid value: the number of classes'') (\<lambda>_.
     rbind (check (0 < sint original_class \<and> sint original_class \<le> sint max_num_of_classes)
       ''invalid real class value'') (\<lambda>_.
     rbind (check (0 < sint classified_class \<and> sint classified_class \<le> sint max_num_of_classes)
       ''invalid classified class value'') (\<lambda>_.
     rbind (case state of
         None \<Rightarrow>
           rbind (guard_mem (sint max_num_of_classes + 1 < 2 ^ 31)) (\<lambda>_.
             Inr (replicate (nat (sint max_num_of_classes + 1)) 0))
       | Some pg_class_count \<Rightarrow>
           rbind (check_array_dim pg_class_count) (\<lambda>_.
           rbind (check (int (length (pg_items pg_class_count)) = sint max_num_of_classes + 1) ''invalid array length'') (\<lambda>_.
             Inr (pg_items pg_class_count)))) (\<lambda>class_count.
     rbind (if original_class \<noteq> classified_class
            then rbind (nth_res class_count 0) (\<lambda>n. upd_res class_count 0 (n + 1)) else Inr class_count) (\<lambda>class_count.
     rbind (nth_res class_count (sint original_class)) (\<lambda>n.
     rbind (upd_res class_count (sint original_class) (n + 1)) (\<lambda>class_count.
       Inr (pg_array1 class_count))))))))"

definition dt_rep_aggr_class_count_prefunc ::
    "int64 pg_array option \<Rightarrow> int64 pg_array option \<Rightarrow> int64 pg_array option res" where
  "dt_rep_aggr_class_count_prefunc a b =
     (case (a, b) of
        (None, None) \<Rightarrow> Inr None
      | (Some x, None) \<Rightarrow> Inr (Some x)
      | (None, Some y) \<Rightarrow> Inr (Some y)
      | (Some x, Some y) \<Rightarrow>
          rbind (check_array_dim x) (\<lambda>_.
          rbind (check_array_dim y) (\<lambda>_.
          rbind (check (length (pg_items x) = length (pg_items y))
            ''the size of the two array must be the same in prefunction'') (\<lambda>_.
            Inr (Some (x\<lparr>pg_items := map2 (+) (pg_items x) (pg_items y)\<rparr>))))))"

text \<open>The loop over the classes, from the class \<open>i\<close> on.\<close>

fun most_cases :: "int64 list \<Rightarrow> nat \<Rightarrow> int64 \<Rightarrow> nat \<Rightarrow> int64 \<Rightarrow> int64 \<times> nat \<times> int64" where
  "most_cases [] i mx maxid cases_sum = (mx, maxid, cases_sum)"
| "most_cases (n # ns) i mx maxid cases_sum =
     (if sint mx < sint n then most_cases ns (i + 1) n i (cases_sum + n)
      else most_cases ns (i + 1) mx maxid (cases_sum + n))"

definition dt_rep_aggr_class_count_ffunc :: "int64 pg_array \<Rightarrow> int64 pg_array res" where
  "dt_rep_aggr_class_count_ffunc pg_class_count =
     rbind (check_array_dim pg_class_count) (\<lambda>_.
     let class_count = pg_items pg_class_count in
     rbind (nth_res class_count 1) (\<lambda>n.
       let (mx, maxid, cases_sum) = most_cases (drop 2 class_count) 2 n 1 n in
       Inr (pg_array1 [word_of_nat maxid, class_count ! 0 - (cases_sum - mx)])))"

end
