(* ===== verification/DtPruneFacts.thy ===== *)
theory DtPruneFacts
  imports DtPrune Float64Facts
begin

text \<open>
  Correctness of the class counts of reduced-error pruning, and the reads of the confidence table in
  error-based pruning.
\<close>

section \<open>Class counts\<close>

text \<open>Rows are pairs of the class predicted and the class of the record.\<close>

type_synonym rep_row = "nat \<times> nat"

definition rows_ok :: "nat \<Rightarrow> rep_row list \<Rightarrow> bool" where
  "rows_ok K rows \<longleftrightarrow> 2 \<le> K \<and> K + 1 < 2 ^ 31 \<and> (\<forall>(c, r)\<in>set rows. 1 \<le> c \<and> c \<le> K \<and> 1 \<le> r \<and> r \<le> K)"

definition misclassified :: "rep_row list \<Rightarrow> nat" where
  "misclassified rows = length (filter (\<lambda>(c, r). c \<noteq> r) rows)"

definition cases_of :: "nat \<Rightarrow> rep_row list \<Rightarrow> nat" where
  "cases_of k rows = length (filter (\<lambda>(c, r). r = k) rows)"

definition rep_counts :: "nat \<Rightarrow> rep_row list \<Rightarrow> int64 list" where
  "rep_counts K rows = word_of_nat (misclassified rows) # map (\<lambda>k. word_of_nat (cases_of k rows)) [1..<K + 1]"

definition rep_step :: "nat \<Rightarrow> rep_row \<Rightarrow> int64 pg_array option \<Rightarrow> int64 pg_array option res" where
  "rep_step K row state =
     rbind (dt_rep_aggr_class_count_sfunc state (word_of_nat (fst row)) (word_of_nat (snd row)) (word_of_nat K)) (\<lambda>a. Inr (Some a))"

lemma sint_small: "n < 2 ^ 31 \<Longrightarrow> sint (word_of_nat n :: 32 word) = int n"
  by (simp add: signed_of_nat signed_take_bit_int_eq_self)

lemma of_nat_eq_small: "m < 2 ^ 31 \<Longrightarrow> n < 2 ^ 31 \<Longrightarrow> (word_of_nat m :: 32 word) = word_of_nat n \<longleftrightarrow> m = n"
  by (metis of_nat_eq_iff sint_small)

lemma rep_counts_simps:
  "length (rep_counts K rows) = K + 1" "rep_counts K rows ! 0 = word_of_nat (misclassified rows)"
  "1 \<le> k \<Longrightarrow> k \<le> K \<Longrightarrow> rep_counts K rows ! k = word_of_nat (cases_of k rows)"
  by (cases k; simp add: rep_counts_def del: upt_Suc)+

lemma rep_counts_append: "rep_counts K (rows @ rows') = map2 (+) (rep_counts K rows) (rep_counts K rows')"
  by (simp add: rep_counts_def misclassified_def cases_of_def map2_map_map del: upt_Suc)

lemma rep_counts_snoc:
  assumes "1 \<le> r" "r \<le> K"
  shows "rep_counts K (rows @ [(c, r)]) =
    (let cc = (if c \<noteq> r then (rep_counts K rows)[0 := rep_counts K rows ! 0 + 1] else rep_counts K rows) in cc[r := cc ! r + 1])"
  using assms
  by (intro nth_equalityI)
    (auto simp: rep_counts_def misclassified_def cases_of_def nth_Cons' nth_list_update Let_def simp del: upt_Suc)

lemma sfunc_counts:
  assumes "rows_ok K [(c, r)]" "state = Some (pg_array1 (rep_counts K rows)) \<or> state = None \<and> rows = []"
  shows "dt_rep_aggr_class_count_sfunc state (word_of_nat c) (word_of_nat r) (word_of_nat K) =
    Inr (pg_array1 (rep_counts K (rows @ [(c, r)])))"
proof -
  have sizes: "2 \<le> K" "K + 1 < 2 ^ 31" "1 \<le> c" "c \<le> K" "1 \<le> r" "r \<le> K" using assms(1) by (auto simp: rows_ok_def)
  then have s: "sint (word_of_nat c :: 32 word) = int c" "sint (word_of_nat r :: 32 word) = int r"
    "sint (word_of_nat K :: 32 word) = int K" "(word_of_nat r :: 32 word) = word_of_nat c \<longleftrightarrow> c = r"
    using of_nat_eq_small[of r c] by (auto simp: sint_small)
  have "rep_counts K [] = replicate (nat (int K + 1)) 0"
    by (intro nth_equalityI) (auto simp: rep_counts_def misclassified_def cases_of_def nth_Cons' nat_add_distrib simp del: upt_Suc)
  with assms(2) have init: "(case state of
         None \<Rightarrow> rbind (guard_mem (sint (word_of_nat K :: 32 word) + 1 < 2 ^ 31)) (\<lambda>_.
             Inr (replicate (nat (sint (word_of_nat K :: 32 word) + 1)) 0))
       | Some a \<Rightarrow> rbind (check_array_dim a) (\<lambda>_.
           rbind (check (int (length (pg_items a)) = sint (word_of_nat K :: 32 word) + 1) ''invalid array length'') (\<lambda>_.
             Inr (pg_items a)))) = Inr (rep_counts K rows)"
    using sizes by (auto simp: s rep_counts_simps)
  have "nth_res (rep_counts K rows) 0 = Inr (rep_counts K rows ! 0)"
    "upd_res (rep_counts K rows) 0 x = Inr ((rep_counts K rows)[0 := x])" for x
    by (simp_all add: nth_res_def upd_res_def rep_counts_simps(1))
  note nths = this
  show ?thesis
    unfolding dt_rep_aggr_class_count_sfunc_def init
    using sizes by (auto simp: s rep_counts_snoc rep_counts_simps Let_def nths)
qed

lemma rows_ok_snoc: "rows_ok K (rows @ [row]) \<longleftrightarrow> rows_ok K rows \<and> rows_ok K [row]"
  by (auto simp: rows_ok_def)

lemma rep_aggregate:
  "rows_ok K rows \<Longrightarrow> rows \<noteq> [] \<Longrightarrow> foldM (rep_step K) rows None = Inr (Some (pg_array1 (rep_counts K rows)))"
proof (induction rows rule: rev_induct)
  case (snoc row rows)
  obtain c r where row: "row = (c, r)" by fastforce
  then have ok: "rows_ok K rows" "rows_ok K [(c, r)]" using snoc.prems by (simp_all add: rows_ok_snoc)
  show ?case
    using snoc.IH[OF ok(1)] sfunc_counts[OF ok(2), of None rows] sfunc_counts[OF ok(2), of "Some (pg_array1 (rep_counts K rows))" rows] row
    by (cases "rows = []") (simp_all add: foldM_append rep_step_def)
qed simp

section \<open>The most frequent class\<close>

definition first_max :: "(nat \<Rightarrow> nat) \<Rightarrow> nat \<Rightarrow> nat \<Rightarrow> bool" where
  "first_max f n m \<longleftrightarrow> 1 \<le> m \<and> m < n \<and> (\<forall>k. 1 \<le> k \<and> k < n \<longrightarrow> f k \<le> f m) \<and> (\<forall>k. 1 \<le> k \<and> k < m \<longrightarrow> f k < f m)"

lemma first_max_step:
  assumes "first_max f i m"
  shows "first_max f (i + 1) (if f m < f i then i else m)"
proof -
  have old: "f k \<le> f m" if "1 \<le> k" "k < i" for k using assms that by (simp add: first_max_def)
  have le: "f k \<le> (if f m < f i then f i else f m)" if "1 \<le> k" "k < i + 1" for k
    using old[of k] that by (cases "k = i") auto
  have "f k < f i" if "f m < f i" "1 \<le> k" "k < i" for k
    using assms that by (auto simp: first_max_def intro: le_less_trans)
  with le assms show ?thesis by (auto simp: first_max_def)
qed

lemma sint_word_of_nat: "n < 2 ^ 63 \<Longrightarrow> sint (word_of_nat n :: int64) = int n"
  by (simp add: signed_of_nat signed_take_bit_int_eq_self)

lemma most_cases_first:
  assumes "first_max f i m" "i \<le> n" "\<And>k. k < n \<Longrightarrow> f k < 2 ^ 63"
  shows "\<exists>m'. first_max f n m' \<and>
    most_cases (map (\<lambda>k. word_of_nat (f k)) [i..<n]) i (word_of_nat (f m)) m (word_of_nat (sum f {1..<i})) =
      (word_of_nat (f m'), m', word_of_nat (sum f {1..<n}))"
  using assms(1,2)
proof (induction "n - i" arbitrary: i m)
  case 0
  then show ?case by (intro exI[of _ m]) simp
next
  case (Suc d)
  then have i: "i < n" "1 \<le> i" "m < i" by (auto simp: first_max_def)
  then have sints: "sint (word_of_nat (f m) :: int64) = int (f m)" "sint (word_of_nat (f i) :: int64) = int (f i)"
    using assms(3)[of m] assms(3)[of i] by (simp_all add: sint_word_of_nat)
  have total: "word_of_nat (sum f {1..<i}) + word_of_nat (f i) = (word_of_nat (sum f {1..<i + 1}) :: int64)"
    using i(2) by (simp add: sum.atLeastLessThan_Suc)
  define j where "j = (if f m < f i then i else m)"
  have "d = n - (i + 1)" "first_max f (i + 1) j" "i + 1 \<le> n"
    using Suc.hyps(2) i(1) first_max_step[OF Suc.prems(1)] by (simp_all add: j_def)
  from Suc.hyps(1)[OF this] obtain m' where "first_max f n m'"
    "most_cases (map (\<lambda>k. word_of_nat (f k)) [i + 1..<n]) (i + 1) (word_of_nat (f j)) j (word_of_nat (sum f {1..<i + 1})) =
       (word_of_nat (f m'), m', word_of_nat (sum f {1..<n}))" by blast
  moreover have "most_cases (map (\<lambda>k. word_of_nat (f k)) [i..<n]) i (word_of_nat (f m)) m (word_of_nat (sum f {1..<i})) =
      most_cases (map (\<lambda>k. word_of_nat (f k)) [i + 1..<n]) (i + 1) (word_of_nat (f j)) j (word_of_nat (sum f {1..<i + 1}))"
    using i(1,2) by (simp add: upt_conv_Cons sints j_def flip: total)
  ultimately show ?case by auto
qed

lemma sum_cases_of: "rows_ok K rows \<Longrightarrow> sum (\<lambda>k. cases_of k rows) {1..<K + 1} = length rows"
proof (induction rows)
  case (Cons row rows)
  obtain c r where row: "row = (c, r)" by fastforce
  then have r: "r \<in> {1..<K + 1}" "rows_ok K rows" using Cons.prems by (auto simp: rows_ok_def)
  have "sum (\<lambda>k. cases_of k (row # rows)) {1..<K + 1} = sum (\<lambda>k. cases_of k rows + (if k = r then 1 else 0)) {1..<K + 1}"
    by (intro sum.cong) (auto simp: cases_of_def row)
  also have "\<dots> = length rows + 1"
    using Cons.IH[OF r(2)] r(1) by (simp add: sum.distrib)
  finally show ?case by simp
qed (simp add: cases_of_def)

lemma cases_of_le: "cases_of k rows \<le> length rows"
  by (simp add: cases_of_def)

lemma ffunc_counts:
  assumes "rows_ok K rows" "length rows < 2 ^ 63"
  shows "\<exists>m. first_max (\<lambda>k. cases_of k rows) (K + 1) m \<and>
    dt_rep_aggr_class_count_ffunc (pg_array1 (rep_counts K rows)) =
      Inr (pg_array1 [word_of_nat m, word_of_nat (misclassified rows) - word_of_nat (length rows - cases_of m rows)])"
proof -
  let ?f = "\<lambda>k. cases_of k rows"
  have K: "2 \<le> K" using assms(1) by (simp add: rows_ok_def)
  have "first_max ?f 2 1" by (auto simp: first_max_def le_Suc_eq less_Suc_eq numeral_2_eq_2)
  moreover have "?f k < 2 ^ 63" for k using cases_of_le[of k rows] assms(2) by simp
  ultimately obtain m where m: "first_max ?f (K + 1) m"
    "most_cases (map (\<lambda>k. word_of_nat (?f k)) [2..<K + 1]) 2 (word_of_nat (?f 1)) 1 (word_of_nat (sum ?f {1..<2})) =
      (word_of_nat (?f m), m, word_of_nat (sum ?f {1..<K + 1}))"
    using most_cases_first[of ?f 2 1 "K + 1"] K by auto
  have "[1..<K + 1] = 1 # [2..<K + 1]" using K by (simp add: upt_conv_Cons numeral_2_eq_2 del: upt_Suc)
  then have d: "drop 2 (rep_counts K rows) = map (\<lambda>k. word_of_nat (?f k)) [2..<K + 1]"
    by (simp add: rep_counts_def numeral_2_eq_2 del: upt_Suc)
  have "sum ?f {1..<2} = ?f 1" by (simp add: numeral_2_eq_2)
  moreover have "nth_res (rep_counts K rows) 1 = Inr (word_of_nat (?f 1))"
    using K by (simp add: nth_res_def rep_counts_simps)
  moreover have "word_of_nat (length rows) - word_of_nat (?f m) = (word_of_nat (length rows - ?f m) :: int64)"
    using cases_of_le[of m rows] by (simp add: of_nat_diff)
  ultimately have "dt_rep_aggr_class_count_ffunc (pg_array1 (rep_counts K rows)) =
      Inr (pg_array1 [word_of_nat m, word_of_nat (misclassified rows) - word_of_nat (length rows - ?f m)])"
    using m(2) sum_cases_of[OF assms(1)]
    by (simp add: dt_rep_aggr_class_count_ffunc_def d rep_counts_simps del: upt_Suc)
  with m(1) show ?thesis by blast
qed

section \<open>The confidence table\<close>

lemma round_shift_eq:
  "m = q * 2 ^ s + r \<Longrightarrow> 0 \<le> r \<Longrightarrow> 2 * r < 2 ^ s \<Longrightarrow> round_shift m s = q"
  by (simp add: round_shift_def Let_def div_mult_self3)

lemma div_below: "0 < p \<Longrightarrow> m < c * p \<Longrightarrow> m div p < (c :: int)"
proof -
  assume p: "0 < p" and m: "m < c * p"
  have "m div p * p + m mod p = m" by (rule div_mult_mod_eq)
  moreover have "0 \<le> m mod p" using p by (rule pos_mod_sign)
  ultimately have "m div p * p < c * p" using m by linarith
  with p show ?thesis by (simp add: mult_less_cancel_right)
qed

lemma round_shift_le: "m < 2 ^ (s + 53) \<Longrightarrow> round_shift m s \<le> 2 ^ 53"
  using div_below[of "2 ^ s" m "2 ^ 53"] by (simp add: round_shift_def Let_def power_add mult.commute)

text \<open>A number below 1, or one that is rounded to 1, gives a positive double of at most 1.\<close>

lemma round_at_most_1:
  assumes "0 < m" "bitlen m = int s + 53" "- 1074 \<le> e"
    "e + int s \<le> - 53 \<or> e + int s = - 52 \<and> round_shift m s = 2 ^ 52"
  shows "\<exists>b. f64_round False m e = f64_of_bits False b \<and> 0 < b \<and> b \<le> 0x3FF0000000000000"
proof -
  have m: "m < 2 ^ (s + 53)" using bitlen_bounds[OF assms(1)] assms(2) by (simp add: nat_add_distrib)
  have mx: "max (e + bitlen m - 53) (- 1074) = e + int s" using assms(2,3) by simp
  have mant: "(if e + int s \<le> e then m * 2 ^ nat (e - (e + int s)) else round_shift m (nat (e + int s - e))) = round_shift m s"
    by (cases "s = 0") (simp_all add: round_shift_def)
  define X where "X = (e + int s + 1074) * 2 ^ 52 + round_shift m s"
  have "f64_round False m e = f64_of_bits False (min X f64_inf_bits)"
    using assms(1) unfolding f64_round_def Let_def mx mant X_def by simp
  moreover have X: "X \<le> 0x3FF0000000000000"
  proof (cases "e + int s \<le> - 53")
    case True
    then have "(e + int s + 1074) * 2 ^ 52 \<le> 1021 * 2 ^ 52" by (intro mult_right_mono) simp_all
    then show ?thesis using round_shift_le[OF m] by (simp add: X_def)
  next
    case False
    then show ?thesis using assms(4) by (auto simp: X_def)
  qed
  ultimately have rnd: "f64_round False m e = f64_of_bits False X" by (simp add: f64_inf_bits_def)
  have "0 \<le> round_shift m s"
    using round_shift_ge[of m s] pos_imp_zdiv_nonneg_iff[of "2 ^ s" m] assms(1) by simp
  then have "0 \<le> X" using assms(3) by (simp add: X_def)
  then have "uint (f64_of_bits False X) = X" using X by (intro f64_of_bits_pos) (simp_all add: f64_inf_bits_def)
  moreover obtain b where "f64_round False m e = f64_of_bits False b" "0 < b" "b \<le> f64_inf_bits"
    using f64_round_bits[OF assms(1,3)] by blast
  ultimately have "0 < X" using rnd f64_of_bits_pos[of b] by simp
  with X rnd show ?thesis by blast
qed

text \<open>The product of 0.01 and a number of at most 100 is at most 1.\<close>

lemma bitlen_eq: "2 ^ k \<le> m \<Longrightarrow> m < 2 ^ (k + 1) \<Longrightarrow> bitlen m = int k + 1"
proof -
  assume k: "2 ^ k \<le> m" "m < 2 ^ (k + 1)"
  then have "0 < m" by (meson less_le_trans zero_less_numeral zero_less_power)
  note b = bitlen_bounds[OF this]
  have "(2 :: int) ^ k < 2 ^ nat (bitlen m)" "(2 :: int) ^ nat (bitlen m - 1) < 2 ^ (k + 1)" using b k by linarith+
  then have "k < nat (bitlen m)" "nat (bitlen m - 1) < k + 1"
    using power_less_imp_less_exp[of "2 :: int"] by (meson one_less_numeral_iff semiring_norm(76))+
  then show ?thesis using b by linarith
qed

lemma mul_001:
  assumes "2 ^ 52 \<le> m1" "m1 < 2 ^ 53" "- 62 \<le> e1" "e1 \<le> - 46" "m1 * 2 ^ nat (e1 + 62) \<le> 100 * 2 ^ 62"
  shows "\<exists>b. f64_round False (m1 * 0x147AE147AE147B) (e1 - 59) = f64_of_bits False b \<and> 0 < b \<and> b \<le> 0x3FF0000000000000"
proof -
  let ?m = "m1 * 0x147AE147AE147B"
  obtain s where s: "bitlen ?m = int s + 53" "s = 52 \<and> ?m < 2 ^ 105 \<or> s = 53 \<and> 2 ^ 105 \<le> ?m"
  proof (cases "?m < 2 ^ 105")
    case True
    then show ?thesis using that[of 52] bitlen_eq[of 104 ?m] assms(1) by simp
  next
    case False
    then show ?thesis using that[of 53] bitlen_eq[of 105 ?m] assms(2) by simp
  qed
  have "e1 - 59 + int s \<le> - 53 \<or> e1 - 59 + int s = - 52 \<and> round_shift ?m s = 2 ^ 52"
  proof (cases "s = 53 \<and> e1 = - 46")
    case True
    then have "?m = 2 ^ 52 * 2 ^ 53 + (?m - 2 ^ 105)" "0 \<le> ?m - 2 ^ 105" "2 * (?m - 2 ^ 105) < 2 ^ 53"
      using s(2) assms(5) by auto
    from round_shift_eq[OF this] show ?thesis using True by simp
  next
    case False
    then show ?thesis using s(2) assms(4) by auto
  qed
  then show ?thesis using round_at_most_1[OF _ s(1), of "e1 - 59"] assms by simp
qed

text \<open>A confidence level in the range of the checks; a NaN is not.\<close>

definition ebp_valid :: "float8 \<Rightarrow> float8 \<Rightarrow> float8 \<Rightarrow> bool" where
  "ebp_valid total_cases probability conf_level \<longleftrightarrow>
     f64_le MIN_DT_CONFIDENCE_LEVEL conf_level \<and> f64_le conf_level MAX_DT_CONFIDENCE_LEVEL \<and>
     f64_lt f64_zero total_cases \<and> \<not> (f64_lt probability f64_zero \<or> f64_lt f64_one probability)"

lemma level_range:
  assumes "f64_le MIN_DT_CONFIDENCE_LEVEL c" "f64_le c MAX_DT_CONFIDENCE_LEVEL"
  shows "\<not> f64_sign c" "\<not> f64_is_nan c" "f64_mag c = uint c" "0x3F50624DD2F1A9FC \<le> uint c" "uint c \<le> 0x4059000000000000"
proof -
  have k: "f64_key MIN_DT_CONFIDENCE_LEVEL = 0x3F50624DD2F1A9FC" "f64_key MAX_DT_CONFIDENCE_LEVEL = 0x4059000000000000"
    by (simp_all add: MIN_DT_CONFIDENCE_LEVEL_def MAX_DT_CONFIDENCE_LEVEL_def f64_key_def f64_sign_def f64_mag_def)
  have pos: "0 \<le> f64_mag c" by (simp add: f64_mag_def)
  then show sg: "\<not> f64_sign c" using assms(1) k by (auto simp: f64_le_def f64_key_def split: if_splits)
  show "\<not> f64_is_nan c" using assms(1) by (simp add: f64_le_def)
  from sg show "f64_mag c = uint c" by (simp add: f64_sign_def f64_mag_def)
  with sg assms k show "0x3F50624DD2F1A9FC \<le> uint c" "uint c \<le> 0x4059000000000000"
    by (simp_all add: f64_le_def f64_key_def)
qed

lemma level_percent:
  assumes "f64_le MIN_DT_CONFIDENCE_LEVEL c" "f64_le c MAX_DT_CONFIDENCE_LEVEL"
  shows "\<exists>b. f64_mul c 0x3F847AE147AE147B = f64_of_bits False b \<and> 0 < b \<and> b \<le> 0x3FF0000000000000"
proof -
  note c = level_range[OF assms]
  define E where "E = uint c div 2 ^ 52"
  define f where "f = uint c mod 2 ^ 52"
  have Ef: "uint c = E * 2 ^ 52 + f" "0 \<le> f" "f < 2 ^ 52" by (simp_all add: E_def f_def)
  from Ef c(4) have "1013 * 2 ^ 52 < (E + 1) * 2 ^ 52" by simp
  moreover from Ef c(5) have "E * 2 ^ 52 < 1030 * 2 ^ 52" by simp
  ultimately have E: "1013 \<le> E" "E \<le> 1029" by simp_all
  have u: "f64_unpack (uint c) = (f + 2 ^ 52, E - 1075)"
    using E unfolding f64_unpack_def Let_def E_def[symmetric] f_def[symmetric] by simp
  have "f64_unpack (f64_mag 0x3F847AE147AE147B) = (0x147AE147AE147B, - 59)"
    "\<not> f64_sign 0x3F847AE147AE147B" "\<not> f64_is_nan 0x3F847AE147AE147B" "\<not> f64_is_inf 0x3F847AE147AE147B"
    by (simp_all add: f64_unpack_def f64_mag_def f64_sign_def f64_is_nan_def f64_is_inf_def f64_inf_bits_def)
  moreover have "\<not> f64_is_inf c" using c by (simp add: f64_is_inf_def f64_inf_bits_def)
  ultimately have "f64_mul c 0x3F847AE147AE147B = f64_round False ((f + 2 ^ 52) * 0x147AE147AE147B) (E - 1075 - 59)"
    using c u by (simp add: f64_mul_def Let_def)
  moreover have "(f + 2 ^ 52) * 2 ^ nat (E - 1075 + 62) \<le> 100 * 2 ^ 62"
  proof (cases "E = 1029")
    case True
    then show ?thesis using c(5) Ef by simp
  next
    case False
    then have "(2 :: int) ^ nat (E - 1075 + 62) \<le> 2 ^ 15" using E by (intro power_increasing) simp_all
    then have "(f + 2 ^ 52) * 2 ^ nat (E - 1075 + 62) \<le> 2 ^ 53 * 2 ^ 15" using Ef by (intro mult_mono) simp_all
    then show ?thesis by simp
  qed
  ultimately show ?thesis using mul_001[of "f + 2 ^ 52" "E - 1075"] Ef E by simp
qed

lemma confidence_index_range:
  assumes "0 < b" "b \<le> 0x3FF0000000000000"
  shows "\<exists>i. confidence_index (f64_of_bits False b) DT_CONFIDENCE_LEVEL 0 = Inr i \<and> 0 < i \<and> i < length DT_CONFIDENCE_LEVEL"
proof -
  let ?c = "f64_of_bits False b"
  have u: "uint ?c = b" using assms by (intro f64_of_bits_pos) (simp_all add: f64_inf_bits_def)
  then have c: "f64_key ?c = b" "\<not> f64_is_nan ?c"
    using assms by (simp_all add: f64_key_def f64_sign_def f64_mag_def f64_is_nan_def f64_inf_bits_def)
  have "f64_lt 0 ?c" "\<not> f64_lt 0x3FF0000000000000 ?c"
    using assms c by (simp_all add: f64_lt_def f64_key_def[of 0] f64_key_def[of "0x3FF0000000000000"] f64_sign_def f64_mag_def
        f64_is_nan_def f64_inf_bits_def)
  then show ?thesis by (simp add: DT_CONFIDENCE_LEVEL_def)
qed

lemma level_nan: "f64_is_nan c \<Longrightarrow> confidence_index (f64_mul c 0x3F847AE147AE147B) DT_CONFIDENCE_LEVEL 0 = Inr 0"
  by (simp add: f64_mul_def f64_quiet_nan DT_CONFIDENCE_LEVEL_def f64_lt_def)

section \<open>Properties\<close>

text \<open>
  C16: After any rows the state of reduced-error pruning holds the number of misclassified rows and
  the number of rows of each class; the preliminary function combines the states of two sets of rows
  to the state of all rows; and the final function returns the first class with most rows and the
  misclassified rows less the rows outside this class.
\<close>

theorem rep_aggregation:
  assumes "rows_ok K rows" "rows_ok K rows'" "rows \<noteq> []" "length rows < 2 ^ 63"
  shows
    "foldM (rep_step K) rows None = Inr (Some (pg_array1 (rep_counts K rows))) \<and>
     dt_rep_aggr_class_count_prefunc (Some (pg_array1 (rep_counts K rows))) (Some (pg_array1 (rep_counts K rows'))) =
       Inr (Some (pg_array1 (rep_counts K (rows @ rows')))) \<and>
     (\<exists>m. first_max (\<lambda>k. cases_of k rows) (K + 1) m \<and>
        dt_rep_aggr_class_count_ffunc (pg_array1 (rep_counts K rows)) =
          Inr (pg_array1 [word_of_nat m, word_of_nat (misclassified rows) - word_of_nat (length rows - cases_of m rows)]))"
  using rep_aggregate[OF assms(1,3)] ffunc_counts[OF assms(1,4)]
  by (simp add: dt_rep_aggr_class_count_prefunc_def rep_counts_append rep_counts_simps(1) pg_array1_def check_array_dim_def)

lemma rep_aggregation_witness:
  "foldM (rep_step 3) [(1, 2), (2, 2), (3, 3)] None = Inr (Some (pg_array1 [1, 0, 2, 1]))"
proof -
  have "rows_ok 3 [(1, 2), (2, 2), (3, 3)]" "rows_ok 3 []" by (simp_all add: rows_ok_def)
  then have "foldM (rep_step 3) [(1, 2), (2, 2), (3, 3)] None = Inr (Some (pg_array1 (rep_counts 3 [(1, 2), (2, 2), (3, 3)])))"
    using rep_aggregation[of 3 "[(1, 2), (2, 2), (3, 3)]" "[]"] by simp
  moreover have "rep_counts 3 [(1, 2), (2, 2), (3, 3)] = [1, 0, 2, 1]" by code_simp
  ultimately show ?thesis by simp
qed

text \<open>
  C17: The computation of the errors of error-based pruning never reads outside the tables of
  confidence levels, whatever the arguments; it returns exactly when the level is 100 (up to the
  precision of the code) or the arguments are in the documented ranges, and otherwise reports them.
\<close>

theorem ebp_table_reads:
  "dt_ebp_calc_errors cexp clog total_cases probability conf_level \<noteq> Inl Undefined \<and>
   ((\<exists>r. dt_ebp_calc_errors cexp clog total_cases probability conf_level = Inr r) \<longleftrightarrow>
     dt_is_float_zero (f64_sub 0x4059000000000000 conf_level) \<or> ebp_valid total_cases probability conf_level)"
proof (cases "f64_is_nan conf_level")
  case True
  then have "\<not> f64_le MIN_DT_CONFIDENCE_LEVEL conf_level" by (simp add: f64_le_def)
  with True show ?thesis
    by (simp add: dt_ebp_calc_errors_def level_nan ebp_valid_def f64_lt_def check_def)
next
  case False
  have const: "\<not> f64_is_nan MIN_DT_CONFIDENCE_LEVEL" "\<not> f64_is_nan MAX_DT_CONFIDENCE_LEVEL"
    by (simp_all add: MIN_DT_CONFIDENCE_LEVEL_def MAX_DT_CONFIDENCE_LEVEL_def f64_is_nan_def f64_mag_def f64_inf_bits_def)
  show ?thesis
  proof (cases "f64_lt conf_level MIN_DT_CONFIDENCE_LEVEL \<or> f64_lt MAX_DT_CONFIDENCE_LEVEL conf_level")
    case True
    then have "\<not> ebp_valid total_cases probability conf_level" by (auto simp: ebp_valid_def f64_lt_def f64_le_def)
    with True show ?thesis by (simp add: dt_ebp_calc_errors_def)
  next
    case range: False
    with False const have le: "f64_le MIN_DT_CONFIDENCE_LEVEL conf_level" "f64_le conf_level MAX_DT_CONFIDENCE_LEVEL"
      by (simp_all add: f64_lt_def f64_le_def not_less)
    obtain i where "confidence_index (f64_mul conf_level 0x3F847AE147AE147B) DT_CONFIDENCE_LEVEL 0 = Inr i" "0 < i"
      "i < length DT_CONFIDENCE_LEVEL"
      using level_percent[OF le] confidence_index_range by metis
    then show ?thesis
      using range le by (simp add: dt_ebp_calc_errors_def ebp_valid_def check_def Let_def)
  qed
qed

lemma ebp_table_reads_witness:
  "\<exists>r. dt_ebp_calc_errors (\<lambda>x. x) (\<lambda>x. x) 0x4024000000000000 f64_half 0x4039000000000000 = Inr r"
proof -
  have "ebp_valid 0x4024000000000000 f64_half 0x4039000000000000" by code_simp
  then show ?thesis
    using ebp_table_reads[of "\<lambda>x. x" "\<lambda>x. x" "0x4024000000000000" f64_half "0x4039000000000000"] by simp
qed

end
