(* ===== verification/DtText.thy ===== *)
theory DtText
  imports Prelude "HOL-Library.Char_ord"
begin

text \<open>
  \<open>dt_text_format\<close> of \<open>methods/cart/src/pg_gp/dt.c\<close>: the format string is split in place at the percent
  signs that are not escaped, and the escapes of each part are removed in place.  A buffer is a list
  of characters with its terminating NUL; an access outside it is undefined.
\<close>

section \<open>Splitting\<close>

definition NUL :: char where "NUL = CHR 0x00"

text \<open>
  The loop of \<open>dt_split_string\<close> from position \<open>j\<close> on: the buffer with the delimiters replaced, the
  positions of the delimiters, and the length.
\<close>

fun split_loop :: "string \<Rightarrow> nat \<Rightarrow> nat \<Rightarrow> nat list \<Rightarrow> nat \<Rightarrow> (string \<times> nat list \<times> nat) res" where
  "split_loop [] j num_pos position num_cont_escapes = Inr ([], position, j)"
| "split_loop (c # str) j num_pos position num_cont_escapes =
     (if c = CHR ''%'' then
        (if even num_cont_escapes then
           rbind (check (length position < num_pos)
             ''the number of the elements in the array is less than the format string expects.'') (\<lambda>_.
           rbind (split_loop str (j + 1) num_pos (position @ [j]) 0) (\<lambda>(str, position, len).
             Inr (NUL # str, position, len)))
         else rbind (split_loop str (j + 1) num_pos position 0) (\<lambda>(str, r). Inr (c # str, r)))
      else if c = CHR 0x5C then
        rbind (split_loop str (j + 1) num_pos position (num_cont_escapes + 1)) (\<lambda>(str, r). Inr (c # str, r))
      else rbind (split_loop str (j + 1) num_pos position 0) (\<lambda>(str, r). Inr (c # str, r)))"

definition dt_split_string :: "string \<Rightarrow> nat \<Rightarrow> (string \<times> nat list \<times> nat) res" where
  "dt_split_string str num_pos =
     rbind (split_loop str 0 num_pos [] 0) (\<lambda>(str, position, len).
     rbind (check (length position = num_pos)
       ''the number of the elements in the array is greater than the format string expects. '') (\<lambda>_.
       Inr (str, position, len)))"

section \<open>Removing escapes\<close>

text \<open>The inner loop: characters are moved up by \<open>num_escapes\<close> until the next percent sign or the end.\<close>

function move_text :: "string \<Rightarrow> nat \<Rightarrow> nat \<Rightarrow> (string \<times> nat) res" where
  "move_text buf str num_escapes =
     rbind (nth_res buf (int str)) (\<lambda>c.
     rbind (upd_res buf (int str - int num_escapes) c) (\<lambda>buf.
     rbind (nth_res buf (int (str + 1))) (\<lambda>c.
       if c \<noteq> NUL \<and> c \<noteq> CHR ''%'' then move_text buf (str + 1) num_escapes else Inr (buf, str + 1))))"
  by auto
termination
  by (relation "measure (\<lambda>(buf, str, _). length buf - str)") (auto simp: nth_res_def upd_res_def split: if_splits)

declare move_text.simps [simp del]

lemma move_text_forward: "move_text buf str n = Inr (buf', str') \<Longrightarrow> length buf' = length buf \<and> str < str' \<and> str' < length buf"
proof (induction buf str n rule: move_text.induct)
  case (1 buf str n)
  from 1(2) obtain c buf1 c1 where *: "nth_res buf (int str) = Inr c" "upd_res buf (int str - int n) c = Inr buf1"
    "nth_res buf1 (int (str + 1)) = Inr c1"
    "(if c1 \<noteq> NUL \<and> c1 \<noteq> CHR ''%'' then move_text buf1 (str + 1) n else Inr (buf1, str + 1)) = Inr (buf', str')"
    by (subst (asm) move_text.simps) (auto simp: rbind_eq_Inr_iff)
  then have "length buf1 = length buf" "str + 1 < length buf1" by (auto simp: upd_res_def nth_res_def split: if_splits)
  with * 1(1)[OF *(1,2,3)] show ?case by (cases "c1 \<noteq> NUL \<and> c1 \<noteq> CHR ''%''") auto
qed

text \<open>The outer loop, and the terminating NUL it writes.\<close>

function remove_escapes :: "string \<Rightarrow> nat \<Rightarrow> nat \<Rightarrow> string res" where
  "remove_escapes buf str num_escapes =
     rbind (nth_res buf (int str)) (\<lambda>c.
       if c = NUL then (if num_escapes > 0 then upd_res buf (int str - int num_escapes) NUL else Inr buf)
       else if c = CHR ''%'' then
         rbind (nth_res buf (int str - 1)) (\<lambda>d.
         rbind (check (d = CHR 0x5C) ''The char immediately before a % must be a backslash'') (\<lambda>_.
         rbind (move_text buf str (num_escapes + 1)) (\<lambda>r. remove_escapes (fst r) (snd r) (num_escapes + 1))))
       else remove_escapes buf (str + 1) num_escapes)"
  by auto
termination
proof (relation "measure (\<lambda>(buf, str, _). length buf - str)", goal_cases)
  case (2 buf str n c d u r)
  then show ?case using move_text_forward[of buf str "n + 1" "fst r" "snd r"] by (auto simp: nth_res_def split: if_splits)
qed (auto simp: nth_res_def split: if_splits)

declare remove_escapes.simps [simp del]

definition dt_escape_pct_sym :: "string \<Rightarrow> nat \<Rightarrow> string res" where
  "dt_escape_pct_sym buf str = remove_escapes buf str 0"

section \<open>Formatting\<close>

text \<open>The string that starts at a position of the buffer.\<close>

fun cstring :: "string \<Rightarrow> string res" where
  "cstring [] = Inl Undefined"
| "cstring (c # cs) = (if c = NUL then Inr [] else rbind (cstring cs) (\<lambda>r. Inr (c # r)))"

text \<open>The loop over the positions and the values, and the text after the last position.\<close>

fun format_loop :: "string \<Rightarrow> nat \<Rightarrow> nat \<Rightarrow> nat list \<Rightarrow> string list \<Rightarrow> string \<Rightarrow> string res" where
  "format_loop fmt last_pos len_fmt position [] buf =
     (if last_pos < len_fmt then rbind (cstring (drop last_pos fmt)) (\<lambda>s. Inr (buf @ s)) else Inr buf)"
| "format_loop fmt last_pos len_fmt [] (v # vs) buf = Inl Undefined"
| "format_loop fmt last_pos len_fmt (p # position) (v # vs) buf =
     (if last_pos = p then format_loop fmt (last_pos + 1) len_fmt position vs (buf @ v)
      else
        rbind (dt_escape_pct_sym fmt last_pos) (\<lambda>fmt.
        rbind (cstring (drop last_pos fmt)) (\<lambda>s.
          format_loop fmt (p + 1) len_fmt position vs (buf @ s @ v))))"

text \<open>
  The arguments are an array of texts with a NULL bitmap or without; the texts are what the output
  function of the element type returns.
\<close>

record text_array =
  has_nullbitmap :: bool
  text_items :: "string list"

definition dt_text_format :: "string option \<Rightarrow> text_array option \<Rightarrow> string res" where
  "dt_text_format fmt args_array =
     rbind (check (fmt \<noteq> None \<and> args_array \<noteq> None) ''the format string and its arguments must not be null'') (\<lambda>_.
     let fmt = the fmt; args_array = the args_array; nitems = length (text_items args_array) in
     rbind (check (\<not> has_nullbitmap args_array) ''the argument array must not has null value'') (\<lambda>_.
       if nitems = 0 then Inr fmt
       else
         rbind (dt_split_string fmt nitems) (\<lambda>(str, position, len_fmt).
           format_loop (str @ [NUL]) 0 len_fmt position (text_items args_array) [])))"

end
