(* ===== verification/DtTextFacts.thy ===== *)
theory DtTextFacts
  imports DtText
begin

text \<open>
  \<open>dt_text_format\<close> on the buffer computes what a specification on lists of parts says.
\<close>

section \<open>Specification\<close>

text \<open>
  The parts between the delimiters: a percent sign is a delimiter when the number of backslashes
  directly before it is even.  \<open>e\<close> is the number of backslashes before the string.
\<close>

fun parts :: "nat \<Rightarrow> string \<Rightarrow> string list" where
  "parts e [] = [[]]"
| "parts e (c # cs) =
     (if c = CHR ''%'' \<and> even e then [] # parts 0 cs
      else let ps = parts (if c = CHR 0x5C then e + 1 else 0) cs in (c # hd ps) # tl ps)"

text \<open>The backslash directly before a percent sign is dropped.\<close>

fun unescape :: "string \<Rightarrow> string" where
  "unescape [] = []"
| "unescape [c] = [c]"
| "unescape (c # d # cs) = (if c = CHR 0x5C \<and> d = CHR ''%'' then unescape (d # cs) else c # unescape (d # cs))"

text \<open>The parts with the values between them; the last part keeps its escapes.\<close>

fun fill :: "string list \<Rightarrow> string list \<Rightarrow> string" where
  "fill [p] vs = p"
| "fill (p # ps) (v # vs) = unescape p @ v @ fill ps vs"
| "fill ps vs = []"

lemma parts_not_Nil [simp]: "parts e s \<noteq> []"
  by (cases s) (auto simp: Let_def)

section \<open>Splitting\<close>

fun join :: "string list \<Rightarrow> string" where
  "join [] = []"
| "join [p] = p"
| "join (p # ps) = p @ NUL # join ps"

fun delimiters :: "nat \<Rightarrow> string list \<Rightarrow> nat list" where
  "delimiters j (p # q # ps) = (j + length p) # delimiters (j + length p + 1) (q # ps)"
| "delimiters j ps = []"

lemma length_delimiters: "length (delimiters j ps) = length ps - 1"
  by (induction j ps rule: delimiters.induct) simp_all

lemma join_Cons: "ps \<noteq> [] \<Longrightarrow> join (p # ps) = p @ NUL # join ps"
  by (cases ps) simp_all

lemma delimiters_Cons: "ps \<noteq> [] \<Longrightarrow> delimiters j (p # ps) = (j + length p) # delimiters (j + length p + 1) ps"
  by (cases ps) simp_all

lemma join_head: "ps \<noteq> [] \<Longrightarrow> join ((c # hd ps) # tl ps) = c # join ps"
  by (cases ps; cases "tl ps") simp_all

lemma delimiters_head: "ps \<noteq> [] \<Longrightarrow> delimiters j ((c # hd ps) # tl ps) = delimiters (j + 1) ps"
  by (cases ps; cases "tl ps") simp_all

lemma length_join_parts: "length (join (parts e s)) = length s"
  by (induction e s rule: parts.induct) (simp_all add: Let_def join_Cons join_head)

lemma split_loop_parts:
  "length ps \<le> n \<Longrightarrow> split_loop s j n ps e =
     (if length ps + (length (parts e s) - 1) \<le> n
      then Inr (join (parts e s), ps @ delimiters j (parts e s), j + length s)
      else Inl (Report ''the number of the elements in the array is less than the format string expects.''))"
proof (induction s arbitrary: j ps e)
  case (Cons c s)
  have pos: "length (parts e' s) \<ge> 1" for e' using parts_not_Nil[of e' s] by (cases "parts e' s") auto
  have one: "Suc (length (parts e' s) - Suc 0) = length (parts e' s)" for e'
    using parts_not_Nil[of e' s] by (cases "parts e' s") auto
  have full: "\<not> length ps + length (parts 0 s) \<le> n" if "\<not> length ps < n"
    using that pos[of 0] by linarith
  show ?case
  proof (cases "c = CHR ''%'' \<and> even e")
    case True
    then show ?thesis
      using Cons.IH[of "ps @ [j]" "j + 1" 0] Cons.prems one[of 0] full
      by (cases "length ps < n") (simp_all add: join_Cons delimiters_Cons)
  next
    case False
    then have "split_loop (c # s) j n ps e =
        rbind (split_loop s (j + 1) n ps (if c = CHR 0x5C then e + 1 else 0)) (\<lambda>(str, r). Inr (c # str, r))" by auto
    then show ?thesis
      using False Cons.IH[of ps "j + 1" "if c = CHR 0x5C then e + 1 else 0"] Cons.prems
      by (auto simp: Let_def join_head delimiters_head)
  qed
qed simp

lemma split_string_parts:
  "dt_split_string s n =
     (if length (parts 0 s) = n + 1 then Inr (join (parts 0 s), delimiters 0 (parts 0 s), length s)
      else if length (parts 0 s) > n + 1 then
        Inl (Report ''the number of the elements in the array is less than the format string expects.'')
      else Inl (Report ''the number of the elements in the array is greater than the format string expects. ''))"
proof -
  have "length (parts 0 s) \<ge> 1" using parts_not_Nil[of 0 s] by (cases "parts 0 s") auto
  then show ?thesis
    by (auto simp: dt_split_string_def split_loop_parts length_delimiters check_def)
qed

section \<open>Removing escapes\<close>

text \<open>Every percent sign of a part follows a backslash; \<open>d\<close> is the character before the string.\<close>

fun escaped :: "char \<Rightarrow> string \<Rightarrow> bool" where
  "escaped d [] \<longleftrightarrow> True"
| "escaped d (c # cs) \<longleftrightarrow> (c = CHR ''%'' \<longrightarrow> d = CHR 0x5C) \<and> escaped c cs"

lemma parts_escaped:
  "NUL \<notin> set s \<Longrightarrow> (odd e \<Longrightarrow> d = CHR 0x5C) \<Longrightarrow>
   escaped d (hd (parts e s)) \<and> (\<forall>p\<in>set (tl (parts e s)). escaped NUL p) \<and> (\<forall>p\<in>set (parts e s). NUL \<notin> set p)"
proof (induction s arbitrary: d e)
  case (Cons c s)
  show ?case
  proof (cases "c = CHR ''%'' \<and> even e")
    case True
    have "escaped NUL (hd (parts 0 s)) \<and> (\<forall>p\<in>set (tl (parts 0 s)). escaped NUL p) \<and> (\<forall>p\<in>set (parts 0 s). NUL \<notin> set p)"
      using Cons.IH[of 0 NUL] Cons.prems(1) by simp
    then show ?thesis using True parts_not_Nil[of 0 s] by (cases "parts 0 s") auto
  next
    case False
    define e' where "e' = (if c = CHR 0x5C then e + 1 else 0)"
    have "c = CHR 0x5C" if "odd e'" using that by (auto simp: e'_def split: if_splits)
    then have "escaped c (hd (parts e' s)) \<and> (\<forall>p\<in>set (tl (parts e' s)). escaped NUL p) \<and> (\<forall>p\<in>set (parts e' s). NUL \<notin> set p)"
      using Cons.IH[of e' c] Cons.prems(1) by simp
    moreover have "parts e (c # s) = (c # hd (parts e' s)) # tl (parts e' s)"
      using False by (simp add: Let_def e'_def)
    moreover have "c = CHR ''%'' \<longrightarrow> d = CHR 0x5C" "c \<noteq> NUL" using False Cons.prems by auto
    moreover have "set (parts e' s) = insert (hd (parts e' s)) (set (tl (parts e' s)))"
      using parts_not_Nil[of e' s] by (cases "parts e' s") simp_all
    ultimately show ?thesis by simp
  qed
qed simp

text \<open>The text in front of the position, character by character.\<close>

fun absorb :: "string \<Rightarrow> string \<Rightarrow> string" where
  "absorb t [] = t"
| "absorb t (c # cs) = absorb (if c = CHR ''%'' then butlast t @ [c] else t @ [c]) cs"

lemma absorb_unescape: "escaped c s \<Longrightarrow> absorb (t @ [c]) s = t @ unescape (c # s)"
proof (induction s arbitrary: c t)
  case (Cons x s)
  then show ?case using Cons.IH[of x t] Cons.IH[of x "t @ [c]"] by (cases "x = CHR ''%''") simp_all
qed simp

lemma absorb_part: "escaped NUL p \<Longrightarrow> absorb [] p = unescape p"
proof (cases p)
  case (Cons c s)
  assume "escaped NUL p"
  then show ?thesis using Cons absorb_unescape[of c s "[]"] by (auto simp: NUL_def)
qed simp

lemma nth_res_append: "i = int (length xs) \<Longrightarrow> nth_res (xs @ c # ys) i = Inr c"
  by (simp add: nth_res_def)

lemma upd_res_append: "i = int (length xs) \<Longrightarrow> upd_res (xs @ c # ys) i x = Inr (xs @ x # ys)"
  by (simp add: upd_res_def)

text \<open>
  The buffer during the removal: \<open>pre\<close> is in front of the part, \<open>t\<close> is the text so far, \<open>gap\<close> has a
  cell for each escape, and the rest is still to be read.  Moving text copies it to the front of
  the gap, so the gap ends in the last character moved.
\<close>

lemma move_text_part:
  "gap \<noteq> [] \<Longrightarrow> NUL \<notin> set s \<Longrightarrow>
   \<exists>gap'. length gap' = length gap \<and> last gap' = last (c # takeWhile (\<lambda>x. x \<noteq> CHR ''%'') s) \<and>
     move_text (pre @ t @ gap @ c # s @ NUL # post) (length (pre @ t @ gap)) (length gap) =
       Inr (pre @ t @ (c # takeWhile (\<lambda>x. x \<noteq> CHR ''%'') s) @ gap' @ dropWhile (\<lambda>x. x \<noteq> CHR ''%'') s @ NUL # post,
         length (pre @ t @ gap) + 1 + length (takeWhile (\<lambda>x. x \<noteq> CHR ''%'') s))"
proof (induction s arbitrary: c t gap)
  case Nil
  obtain g gs where gap: "gap = g # gs" using Nil by (cases gap) auto
  have "nth_res (pre @ t @ gap @ [c] @ NUL # post) (int (length (pre @ t @ gap))) = Inr c"
    using nth_res_append[of _ "pre @ t @ gap" c "NUL # post"] by simp
  moreover have "upd_res (pre @ t @ gap @ [c] @ NUL # post) (int (length (pre @ t @ gap)) - int (length gap)) c =
      Inr (pre @ t @ c # (gs @ [c]) @ NUL # post)"
    using upd_res_append[of _ "pre @ t" g "gs @ c # NUL # post" c] by (simp add: gap)
  moreover have "nth_res (pre @ t @ c # (gs @ [c]) @ NUL # post) (int (length (pre @ t @ gap) + 1)) = Inr NUL"
    using nth_res_append[of _ "pre @ t @ c # gs @ [c]" NUL post] by (simp add: gap)
  ultimately show ?case
    by (intro exI[of _ "gs @ [c]"]) (subst move_text.simps, simp add: gap)
next
  case (Cons x s)
  obtain g gs where gap: "gap = g # gs" using Cons.prems(1) by (cases gap) auto
  have step: "nth_res (pre @ t @ gap @ c # (x # s) @ NUL # post) (int (length (pre @ t @ gap))) = Inr c"
    "upd_res (pre @ t @ gap @ c # (x # s) @ NUL # post) (int (length (pre @ t @ gap)) - int (length gap)) c =
      Inr (pre @ t @ c # (gs @ [c]) @ x # s @ NUL # post)"
    "nth_res (pre @ t @ c # (gs @ [c]) @ x # s @ NUL # post) (int (length (pre @ t @ gap) + 1)) = Inr x"
    using nth_res_append[of _ "pre @ t @ gap" c "(x # s) @ NUL # post"]
      upd_res_append[of _ "pre @ t" g "gs @ c # (x # s) @ NUL # post" c]
      nth_res_append[of _ "pre @ t @ c # gs @ [c]" x "s @ NUL # post"] by (simp_all add: gap)
  show ?case
  proof (cases "x = CHR ''%''")
    case True
    then show ?thesis
      by (intro exI[of _ "gs @ [c]"]) (subst move_text.simps, use step in \<open>simp add: gap\<close>)
  next
    case False
    have "x \<noteq> NUL" using Cons.prems by auto
    then have "move_text (pre @ t @ gap @ c # (x # s) @ NUL # post) (length (pre @ t @ gap)) (length gap) =
        move_text (pre @ (t @ [c]) @ (gs @ [c]) @ x # s @ NUL # post) (length (pre @ (t @ [c]) @ (gs @ [c]))) (length (gs @ [c]))"
      using step False by (subst move_text.simps) (simp add: gap)
    with Cons.IH[of "gs @ [c]" x "t @ [c]"] Cons.prems False show ?thesis by (simp add: gap)
  qed
qed

lemma escaped_append: "escaped d (u @ w) \<Longrightarrow> escaped (last (d # u)) w"
  by (induction u arbitrary: d) auto

lemma absorb_append: "absorb t (u @ w) = absorb (absorb t u) w"
  by (induction u arbitrary: t) simp_all

lemma absorb_plain: "CHR ''%'' \<notin> set u \<Longrightarrow> absorb t u = t @ u"
  by (induction u arbitrary: t) auto

lemma remove_escapes_part:
  assumes "NUL \<notin> set s" "escaped d s" "if t = [] then d = NUL \<and> gap = [] else d = last t \<and> (gap \<noteq> [] \<longrightarrow> last gap = last t)"
    "gap \<noteq> [] \<longrightarrow> s = [] \<or> hd s = CHR ''%''"
  shows "\<exists>junk. length (absorb t s) + length junk = length t + length gap + length s \<and>
    remove_escapes (pre @ t @ gap @ s @ NUL # post) (length (pre @ t @ gap)) (length gap) =
      Inr (pre @ absorb t s @ NUL # junk @ post)"
  using assms
proof (induction s arbitrary: d t gap rule: length_induct)
  case (1 s)
  show ?case
  proof (cases s)
    case Nil
    have "nth_res (pre @ t @ gap @ NUL # post) (int (length (pre @ t @ gap))) = Inr NUL"
      using nth_res_append[of _ "pre @ t @ gap" NUL post] by simp
    then show ?thesis
    proof (cases gap)
      case gap: (Cons g gs)
      have "upd_res (pre @ t @ gap @ NUL # post) (int (length (pre @ t @ gap)) - int (length gap)) NUL =
          Inr (pre @ t @ NUL # (gs @ [NUL]) @ post)"
        using upd_res_append[of _ "pre @ t" g "gs @ NUL # post" NUL] by (simp add: gap)
      with \<open>nth_res _ _ = _\<close> Nil gap show ?thesis
        by (intro exI[of _ "gs @ [NUL]"]) (subst remove_escapes.simps, simp)
    qed (simp add: Nil remove_escapes.simps)
  next
    case s: (Cons c s')
    have here: "nth_res (pre @ t @ gap @ s @ NUL # post) (int (length (pre @ t @ gap))) = Inr c"
      using nth_res_append[of _ "pre @ t @ gap" c "s' @ NUL # post"] by (simp add: s)
    have c: "c \<noteq> NUL" "NUL \<notin> set s'" using "1.prems"(1) s by auto
    show ?thesis
    proof (cases "c = CHR ''%''")
      case False
      then have gap: "gap = []" using "1.prems"(4) s by auto
      have "remove_escapes (pre @ t @ gap @ s @ NUL # post) (length (pre @ t @ gap)) (length gap) =
          remove_escapes (pre @ (t @ [c]) @ [] @ s' @ NUL # post) (length (pre @ (t @ [c]) @ [])) (length [])"
        using here c False by (subst remove_escapes.simps) (simp add: s gap)
      moreover have "\<exists>junk. length (absorb (t @ [c]) s') + length junk = length (t @ [c]) + length [] + length s' \<and>
          remove_escapes (pre @ (t @ [c]) @ [] @ s' @ NUL # post) (length (pre @ (t @ [c]) @ [])) (length []) =
            Inr (pre @ absorb (t @ [c]) s' @ NUL # junk @ post)"
        using "1.IH"[rule_format, of s' c "t @ [c]" "[]"] "1.prems" c s by simp
      ultimately show ?thesis using False by (simp add: s gap)
    next
      case True
      have d: "d = CHR 0x5C" using "1.prems"(2) True s by simp
      then have t: "t \<noteq> []" "last t = CHR 0x5C" "gap \<noteq> [] \<longrightarrow> last gap = CHR 0x5C"
        using "1.prems"(3) by (auto simp: NUL_def split: if_splits)
      define t0 g0 where "t0 = butlast t" and "g0 = last t # gap"
      have tg: "t @ gap = t0 @ g0" "length g0 = length gap + 1" "g0 \<noteq> []" "last g0 = CHR 0x5C"
        using t append_butlast_last_id[OF t(1)] unfolding t0_def g0_def
        by (metis append.assoc append_Cons append_Nil, simp_all)
      have before: "nth_res (pre @ t @ gap @ s @ NUL # post) (int (length (pre @ t @ gap)) - 1) = Inr (CHR 0x5C)"
      proof -
        have "pre @ t @ gap @ s @ NUL # post = (pre @ t0 @ butlast g0) @ CHR 0x5C # s @ NUL # post"
          using tg by (simp flip: tg(4))
        moreover have "int (length (pre @ t @ gap)) - 1 = int (length (pre @ t0 @ butlast g0))"
          using tg(1,3) arg_cong[OF tg(1), of length] by (simp add: of_nat_diff Suc_leI)
        ultimately show ?thesis using nth_res_append by metis
      qed
      define u w where "u = takeWhile (\<lambda>x. x \<noteq> CHR ''%'') s'" and "w = dropWhile (\<lambda>x. x \<noteq> CHR ''%'') s'"
      have uw: "s' = u @ w" "CHR ''%'' \<notin> set u" "w = [] \<or> hd w = CHR ''%''"
        using hd_dropWhile[of "\<lambda>x. x \<noteq> CHR ''%''" s'] by (auto simp: u_def w_def dest: set_takeWhileD)
      obtain gap' where gap': "length gap' = length g0" "last gap' = last (c # u)"
        "move_text (pre @ t0 @ g0 @ c # s' @ NUL # post) (length (pre @ t0 @ g0)) (length g0) =
           Inr (pre @ t0 @ (c # u) @ gap' @ w @ NUL # post, length (pre @ t0 @ g0) + 1 + length u)"
        using move_text_part[of g0 s' c pre t0 post] tg(3) c(2) unfolding u_def w_def by blast
      have buf: "pre @ t @ gap @ s @ NUL # post = pre @ t0 @ g0 @ c # s' @ NUL # post"
        using tg(1) by (simp add: s)
      have "remove_escapes (pre @ t @ gap @ s @ NUL # post) (length (pre @ t @ gap)) (length gap) =
          remove_escapes (pre @ (t0 @ c # u) @ gap' @ w @ NUL # post) (length (pre @ (t0 @ c # u) @ gap')) (length gap')"
      proof -
        define B N where "B = pre @ t @ gap @ s @ NUL # post" and "N = length (pre @ t @ gap)"
        have "move_text B N (length gap + 1) = Inr (pre @ (t0 @ c # u) @ gap' @ w @ NUL # post, length (pre @ (t0 @ c # u) @ gap'))"
          using gap' tg(2) arg_cong[OF tg(1), of length] unfolding B_def N_def buf by simp
        moreover have "nth_res B (int N) = Inr c" "nth_res B (int N - 1) = Inr (CHR 0x5C)" "length gap' = length gap + 1"
          using here before gap'(1) tg(2) unfolding B_def N_def by simp_all
        ultimately show ?thesis
          using True unfolding B_def[symmetric] N_def[symmetric] by (subst remove_escapes.simps) (simp add: NUL_def)
      qed
      moreover have "length w < length s" using uw(1) by (simp add: s)
      moreover have "NUL \<notin> set w" "escaped (last (c # u)) w"
        using c(2) uw(1) "1.prems"(2) escaped_append[of c u w] s by auto
      ultimately obtain junk where "length (absorb (t0 @ c # u) w) + length junk = length (t0 @ c # u) + length gap' + length w"
        "remove_escapes (pre @ t @ gap @ s @ NUL # post) (length (pre @ t @ gap)) (length gap) =
           Inr (pre @ absorb (t0 @ c # u) w @ NUL # junk @ post)"
        using "1.IH"[rule_format, of w "last (c # u)" "t0 @ c # u" gap'] gap'(2) uw(3) by auto
      moreover have "absorb t s = absorb (t0 @ c # u) w"
        using True uw absorb_plain[OF uw(2), of "t0 @ [c]"] by (simp add: s t0_def absorb_append)
      moreover have "length (t0 @ c # u) + length gap' + length w = length t + length gap + length s"
        using arg_cong[OF tg(1), of length] gap'(1) uw(1) by (simp add: s)
      ultimately show ?thesis by metis
    qed
  qed
qed

lemma escape_part:
  assumes "NUL \<notin> set p" "escaped NUL p"
  shows "\<exists>junk. length (unescape p) + length junk = length p \<and>
    dt_escape_pct_sym (pre @ p @ NUL # post) (length pre) = Inr (pre @ unescape p @ NUL # junk @ post)"
  using remove_escapes_part[OF assms, of "[]" "[]" pre post] absorb_part[OF assms(2)] by (simp add: dt_escape_pct_sym_def)

section \<open>Formatting\<close>

lemma cstring_part: "NUL \<notin> set s \<Longrightarrow> cstring (s @ NUL # post) = Inr s"
  by (induction s) auto

lemma set_unescape: "set (unescape s) \<subseteq> set s"
  by (induction s rule: unescape.induct) auto

lemma format_parts:
  "length ps = length vs + 1 \<Longrightarrow> \<forall>p\<in>set ps. escaped NUL p \<and> NUL \<notin> set p \<Longrightarrow>
   format_loop (pre @ join ps @ [NUL]) (length pre) (length pre + length (join ps)) (delimiters (length pre) ps) vs buf =
     Inr (buf @ fill ps vs)"
proof (induction ps arbitrary: vs pre buf)
  case (Cons p ps)
  show ?case
  proof (cases vs)
    case Nil
    then have "ps = []" using Cons.prems(1) by simp
    then show ?thesis using Nil Cons.prems(2) cstring_part[of p "[]"] by auto
  next
    case vs: (Cons v vs')
    then have ps: "ps \<noteq> []" "length ps = length vs' + 1" using Cons.prems(1) by auto
    have p: "escaped NUL p" "NUL \<notin> set p" "\<forall>p\<in>set ps. escaped NUL p \<and> NUL \<notin> set p" using Cons.prems(2) by auto
    have fill: "fill (p # ps) vs = unescape p @ v @ fill ps vs'" using ps(1) vs by (cases ps) simp_all
    have IH: "format_loop (pre' @ join ps @ [NUL]) (length pre + length p + 1) (length pre + length (join (p # ps)))
        (delimiters (length pre + length p + 1) ps) vs' buf' = Inr (buf' @ fill ps vs')"
      if "length pre' = length pre + length p + 1" for pre' buf'
      using Cons.IH[OF ps(2) p(3), of pre' buf'] that ps(1) by (simp add: join_Cons add.assoc)
    show ?thesis
    proof (cases "p = []")
      case True
      then show ?thesis
        using IH[of "pre @ [NUL]" "buf @ v"] ps(1) vs fill by (simp add: join_Cons delimiters_Cons)
    next
      case False
      obtain junk where junk: "length (unescape p) + length junk = length p"
        "dt_escape_pct_sym (pre @ p @ NUL # join ps @ [NUL]) (length pre) = Inr (pre @ unescape p @ NUL # junk @ join ps @ [NUL])"
        using escape_part[OF p(2,1)] by blast
      moreover have "cstring (drop (length pre) (pre @ unescape p @ NUL # junk @ join ps @ [NUL])) = Inr (unescape p)"
        using cstring_part[of "unescape p"] set_unescape[of p] p(2) by auto
      ultimately show ?thesis
        using IH[of "pre @ unescape p @ NUL # junk" "buf @ unescape p @ v"] False ps(1) vs fill
        by (simp add: join_Cons delimiters_Cons)
    qed
  qed
qed simp

lemma length_parts: "length (parts e s) \<ge> 1"
  using parts_not_Nil[of e s] by (cases "parts e s") auto

section \<open>Property\<close>

text \<open>
  C18: For a format without NUL characters and at least one value, \<open>dt_text_format\<close> splits the format at
  the percent signs with an even number of backslashes directly before them, reports a number of
  values that is not the number of these percent signs, and otherwise puts the values between the
  parts.  The escaped percent signs of every part but the last lose their backslash, while the last
  part is copied as it is.  No access leaves the buffer.
\<close>

theorem text_format_fill:
  assumes "NUL \<notin> set fmt" "vs \<noteq> []"
  shows "dt_text_format (Some fmt) (Some \<lparr>has_nullbitmap = False, text_items = vs\<rparr>) =
    (if length (parts 0 fmt) = length vs + 1 then Inr (fill (parts 0 fmt) vs)
     else if length (parts 0 fmt) > length vs + 1 then
       Inl (Report ''the number of the elements in the array is less than the format string expects.'')
     else Inl (Report ''the number of the elements in the array is greater than the format string expects. ''))"
proof -
  have "escaped NUL (hd (parts 0 fmt)) \<and> (\<forall>p\<in>set (tl (parts 0 fmt)). escaped NUL p) \<and> (\<forall>p\<in>set (parts 0 fmt). NUL \<notin> set p)"
    using parts_escaped[OF assms(1), of 0 NUL] by simp
  then have "\<forall>p\<in>set (parts 0 fmt). escaped NUL p \<and> NUL \<notin> set p"
    using parts_not_Nil[of 0 fmt] by (cases "parts 0 fmt") auto
  then show ?thesis
    using format_parts[of "parts 0 fmt" vs "[]" "[]"] length_join_parts[of 0 fmt] assms(2)
    by (auto simp: dt_text_format_def split_string_parts)
qed

lemma text_format_fill_witness:
  "dt_text_format (Some [CHR ''a'', CHR 0x5C, CHR ''%'', CHR ''%'', CHR 0x5C, CHR ''%'']) (Some \<lparr>has_nullbitmap = False, text_items = [''v'']\<rparr>) =
     Inr [CHR ''a'', CHR ''%'', CHR ''v'', CHR 0x5C, CHR ''%'']"
  using text_format_fill[of "[CHR ''a'', CHR 0x5C, CHR ''%'', CHR ''%'', CHR 0x5C, CHR ''%'']" "[''v'']"] by (simp add: NUL_def)

end
