(* ===== verification/DtSample.thy ===== *)
theory DtSample
  imports DtPrune
begin

text \<open>
  The sampling functions of \<open>methods/cart/src/pg_gp/dt.c\<close>: samples from a range with replacement, and
  the features to split a node on, without replacement.  The values of the successive calls of
  \<open>random\<close> are a sequence \<open>rnd\<close> of numbers below \<open>2 ^ 31\<close>, and the state is the index of the next call.
\<close>

section \<open>Samples from a range\<close>

text \<open>
  The set-returning function keeps a counter and the number of calls in the context of the
  server, whose fields convert the argument with \<open>field\<close>.
\<close>

record sample_fctx =
  call_cntr :: int
  max_calls :: int

definition dt_sample_first :: "(int \<Rightarrow> int) \<Rightarrow> int64 \<Rightarrow> int64 \<Rightarrow> int64 \<Rightarrow> sample_fctx res" where
  "dt_sample_first field sample_size low high =
     rbind (check (sint low \<le> sint high \<and> 0 \<le> sint low)
       ''The low margin must not be greater than the high margin. And negative numbers are not accepted'') (\<lambda>_.
       Inr \<lparr>call_cntr = 0, max_calls = field (sint sample_size)\<rparr>)"

definition f64_2_31 :: float8 where "f64_2_31 = 0x41E0000000000000"

text \<open>The size of the range does not overflow, and the selection has to be a 64-bit integer.\<close>

definition dt_select :: "nat \<Rightarrow> int64 \<Rightarrow> int64 \<Rightarrow> int64 res" where
  "dt_select r low high =
     rbind (guard_mem (sint high - sint low + 1 < 2 ^ 63)) (\<lambda>_.
       let rand_num = f64_div (f64_of_int (int r)) f64_2_31;
           selection = f64_add (f64_mul rand_num (f64_of_int (sint high - sint low + 1))) (f64_of_int (sint low))
       in case f64_trunc selection of
            None \<Rightarrow> Inl Undefined
          | Some n \<Rightarrow> rbind (guard_mem (- (2 ^ 63) \<le> n \<and> n < 2 ^ 63)) (\<lambda>_. Inr (word_of_int n)))"

text \<open>One call: a row, or \<open>None\<close> when there are no more; the server counts the rows.\<close>

definition dt_sample_next :: "nat \<Rightarrow> int64 \<Rightarrow> int64 \<Rightarrow> sample_fctx \<Rightarrow> (int64 option \<times> sample_fctx) res" where
  "dt_sample_next r low high fctx =
     (if call_cntr fctx < max_calls fctx then
        rbind (dt_select r low high) (\<lambda>selection. Inr (Some selection, fctx\<lparr>call_cntr := call_cntr fctx + 1\<rparr>))
      else Inr (None, fctx))"

text \<open>The calls of the server until there are no more rows.\<close>

function sample_scan :: "(nat \<Rightarrow> nat) \<Rightarrow> nat \<Rightarrow> int64 \<Rightarrow> int64 \<Rightarrow> sample_fctx \<Rightarrow> int64 list res" where
  "sample_scan rnd k low high fctx =
     rbind (dt_sample_next (rnd k) low high fctx) (\<lambda>r.
       case fst r of
         None \<Rightarrow> Inr []
       | Some row \<Rightarrow> rbind (sample_scan rnd (k + 1) low high (snd r)) (\<lambda>rows. Inr (row # rows)))"
  by auto
termination
  by (relation "measure (\<lambda>(_, _, _, _, fctx). nat (max_calls fctx - call_cntr fctx))")
    (auto simp: dt_sample_next_def rbind_eq_Inr_iff split: if_splits)

declare sample_scan.simps [simp del]

section \<open>Features of a node\<close>

text \<open>The bitmap has 32 features in a word; feature \<open>fid\<close> counts from zero here.\<close>

definition dt_fid_mask :: "int \<Rightarrow> 32 word" where
  "dt_fid_mask val = push_bit (nat (val mod 32)) 1"

definition fid_used :: "32 word list \<Rightarrow> int \<Rightarrow> bool res" where
  "fid_used bitmap fid =
     rbind (nth_res bitmap (fid div 32)) (\<lambda>w. Inr (w AND dt_fid_mask fid \<noteq> 0))"

definition use_fid :: "int \<Rightarrow> 32 word list \<Rightarrow> 32 word list res" where
  "use_fid fid bitmap =
     rbind (nth_res bitmap (fid div 32)) (\<lambda>w. upd_res bitmap (fid div 32) (w OR dt_fid_mask fid))"

text \<open>\<open>do fid = random() % num_features; while (used)\<close>; it may not return.\<close>

partial_function (option) draw_fid :: "(nat \<Rightarrow> nat) \<Rightarrow> nat \<Rightarrow> 32 word list \<Rightarrow> nat \<Rightarrow> (int \<times> nat) res option" where
  "draw_fid rnd num_features bitmap k =
     (case fid_used bitmap (int (rnd k mod num_features)) of
        Inl e \<Rightarrow> Some (Inl e)
      | Inr used \<Rightarrow>
          if used then draw_fid rnd num_features bitmap (k + 1)
          else Some (Inr (int (rnd k mod num_features), k + 1)))"

text \<open>The loop over the requested features.\<close>

fun sample_fids :: "(nat \<Rightarrow> nat) \<Rightarrow> nat \<Rightarrow> nat \<Rightarrow> 32 word list \<Rightarrow> nat \<Rightarrow> int list res option" where
  "sample_fids rnd num_features 0 bitmap k = Some (Inr [])"
| "sample_fids rnd num_features (Suc n) bitmap k =
     (case draw_fid rnd num_features bitmap k of
        None \<Rightarrow> None
      | Some (Inl e) \<Rightarrow> Some (Inl e)
      | Some (Inr (fid, k)) \<Rightarrow>
          (case use_fid fid bitmap of
             Inl e \<Rightarrow> Some (Inl e)
           | Inr bitmap \<Rightarrow>
               (case sample_fids rnd num_features n bitmap k of
                  None \<Rightarrow> None
                | Some r \<Rightarrow> Some (rbind r (\<lambda>fids. Inr ((fid + 1) # fids))))))"

text \<open>The loop that takes all remaining features, filling the result from its end.\<close>

definition remaining_fids :: "nat \<Rightarrow> 32 word list \<Rightarrow> nat \<Rightarrow> int list res" where
  "remaining_fids num_features bitmap n_remain_fids =
     rbind (foldM (\<lambda>i (n, result).
         rbind (fid_used bitmap (int i)) (\<lambda>used.
           if used then Inr (n, result)
           else rbind (upd_res result (n - 1) (int i + 1)) (\<lambda>result. Inr (n - 1, result))))
       [0..<num_features] (int n_remain_fids, replicate n_remain_fids 0)) (\<lambda>(n, result).
     rbind (check (n = 0) ''the number of random chosen features is wrong'') (\<lambda>_. Inr result))"

definition dt_get_node_split_fids ::
    "(nat \<Rightarrow> nat) \<Rightarrow> nat \<Rightarrow> 32 word option \<Rightarrow> 32 word option \<Rightarrow> 32 word option \<Rightarrow> 32 word pg_array option \<Rightarrow>
     32 word pg_array res option" where
  "dt_get_node_split_fids rnd k num_req_features num_features nid dp_fids =
     (let arg = (\<lambda>a. case a of None \<Rightarrow> 0 | Some x \<Rightarrow> sint x);
          num_req = arg num_req_features; num = arg num_features in
      case
        rbind (check (num_req > 0 \<and> num > 0 \<and> arg nid > 0) ''the first three arguments can not be null'') (\<lambda>_.
        rbind (guard_mem (num + 31 < 2 ^ 31)) (\<lambda>_.
          let bitmap = replicate (nat ((num + 31) div 32)) 0 in
          case dp_fids of
            None \<Rightarrow> Inr (bitmap, num)
          | Some a \<Rightarrow>
              rbind (check_array_dim a) (\<lambda>_.
              rbind (check (int (length (pg_items a)) \<le> num) ''invalid array length'') (\<lambda>_.
              rbind (foldM (\<lambda>fid. use_fid (sint fid - 1)) (pg_items a) bitmap) (\<lambda>bitmap.
                Inr (bitmap, num - int (length (pg_items a)))))))) of
        Inl e \<Rightarrow> Some (Inl e)
      | Inr (bitmap, n_remain_fids) \<Rightarrow>
          (case
             (if n_remain_fids > num_req then sample_fids rnd (nat num) (nat num_req) bitmap k
              else if n_remain_fids = 0 then Some (Inr [1])
              else Some (remaining_fids (nat num) bitmap (nat n_remain_fids))) of
             None \<Rightarrow> None
           | Some r \<Rightarrow> Some (rbind r (\<lambda>result. Inr (pg_array1 (map word_of_int result))))))"

end
