(* ===== verification/Float64Exact.thy ===== *)
theory Float64Exact
  imports Float64Facts Complex_Main
begin

text \<open>
  The value of a finite double as a real number, and operations whose result has 53 significant bits,
  which are exact.
\<close>

section \<open>Values\<close>

abbreviation p2 :: "int \<Rightarrow> real" where
  "p2 e \<equiv> power_int 2 e"

definition f64_finite :: "float8 \<Rightarrow> bool" where
  "f64_finite x \<longleftrightarrow> f64_mag x < f64_inf_bits"

definition f64_val :: "float8 \<Rightarrow> real" where
  "f64_val x = (let (m, e) = f64_unpack (f64_mag x) in (if f64_sign x then - 1 else 1) * of_int m * p2 e)"

text \<open>A number that a double represents; the bound on the exponent leaves out the largest doubles.\<close>

definition f64_exact :: "real \<Rightarrow> bool" where
  "f64_exact r \<longleftrightarrow> (\<exists>V E. r = of_int V * p2 E \<and> \<bar>V\<bar> < 2 ^ 53 \<and> - 1074 \<le> E \<and> E \<le> 900)"

lemma f64_exactI: "r = of_int V * p2 E \<Longrightarrow> \<bar>V\<bar> < 2 ^ 53 \<Longrightarrow> - 1074 \<le> E \<Longrightarrow> E \<le> 900 \<Longrightarrow> f64_exact r"
  unfolding f64_exact_def by blast

lemma f64_exact_minus [simp]: "f64_exact (- r) \<longleftrightarrow> f64_exact r"
proof -
  have "f64_exact (- r)" if "f64_exact r" for r
  proof -
    from that obtain V E where "r = of_int V * p2 E" "\<bar>V\<bar> < 2 ^ 53" "- 1074 \<le> E" "E \<le> 900" by (auto simp: f64_exact_def)
    then show ?thesis by (intro f64_exactI[of _ "- V" E]) auto
  qed
  from this[of r] this[of "- r"] show ?thesis by auto
qed

lemma f64_exact_int: "\<bar>n\<bar> < 2 ^ 53 \<Longrightarrow> f64_exact (of_int n)"
  by (rule f64_exactI[of _ n 0]) simp_all

lemma of_bits_fields:
  assumes "0 \<le> b" "b < 2 ^ 63"
  shows "f64_sign (f64_of_bits sg b) = sg" "f64_mag (f64_of_bits sg b) = b"
proof -
  have small: "uint (word_of_int k :: float8) = k" if "0 \<le> k" "k < 2 ^ 64" for k
    using that by (simp add: take_bit_int_eq_self unsigned_of_int)
  have "uint (f64_of_bits sg b) = b + (if sg then 2 ^ 63 else 0)"
    unfolding f64_of_bits_def using assms by (intro small) auto
  then show "f64_sign (f64_of_bits sg b) = sg" "f64_mag (f64_of_bits sg b) = b"
    using assms by (auto simp: f64_sign_def f64_mag_def)
qed

lemma p2_add: "p2 (a + b) = p2 a * p2 b"
  by (simp add: power_int_add)

lemma p2_nat: "0 \<le> e \<Longrightarrow> p2 e = of_int (2 ^ nat e)"
  by (simp add: power_int_nonneg_exp)

lemma p2_pos [simp]: "0 < p2 e"
  by simp

section \<open>Rounding\<close>

text \<open>A number with at most 53 significant bits is a multiple of the last place.\<close>

lemma last_place_dvd:
  assumes "0 < m" "f64_exact (of_int m * p2 e)" "e' = max (e + bitlen m - 53) (- 1074)" "e < e'"
  shows "2 ^ nat (e' - e) dvd m"
proof -
  obtain V E where V: "of_int m * p2 e = of_int V * p2 E" "\<bar>V\<bar> < 2 ^ 53" "- 1074 \<le> E"
    using assms(2) by (auto simp: f64_exact_def)
  note bl = bitlen_bounds[OF assms(1)]
  have bl0: "0 \<le> bitlen m - 1" using bl by simp
  have "e' \<le> E"
  proof (rule ccontr)
    assume "\<not> e' \<le> E"
    with V(3) have E: "53 + E \<le> bitlen m - 1 + e" using assms(3) by (auto simp: max_def split: if_splits)
    have "p2 (53 + E) \<le> p2 (bitlen m - 1 + e)" using E by (rule power_int_increasing) simp
    also have "\<dots> = of_int (2 ^ nat (bitlen m - 1)) * p2 e" by (simp only: p2_add p2_nat[OF bl0])
    also have "\<dots> \<le> of_int m * p2 e" using bl by (intro mult_right_mono) (simp_all only: of_int_le_iff, simp)
    also have "\<dots> = of_int V * p2 E" by (rule V(1))
    also have "\<dots> < of_int (2 ^ 53) * p2 E" using V(2) by (intro mult_strict_right_mono) (simp_all only: of_int_less_iff, simp_all)
    also have "\<dots> = p2 (53 + E)" by (simp add: p2_add)
    finally show False by simp
  qed
  then have "p2 E = p2 (e' - e) * p2 (E - e') * p2 e" by (simp flip: p2_add)
  then have "of_int m * p2 e = of_int (V * 2 ^ nat (E - e') * 2 ^ nat (e' - e)) * p2 e"
    using V(1) assms(4) \<open>e' \<le> E\<close> by (simp add: p2_nat)
  then have "m = V * 2 ^ nat (E - e') * 2 ^ nat (e' - e)"
    by (simp only: mult_cancel_right of_int_eq_iff) simp
  then show ?thesis by simp
qed

lemma round_shift_dvd: "2 ^ s dvd m \<Longrightarrow> round_shift m s * 2 ^ s = m"
  by (auto simp: round_shift_def Let_def dvd_def)

lemma unpack_bits:
  assumes "0 \<le> mant" "mant < 2 ^ 53" "- 1074 \<le> e" "mant < 2 ^ 52 \<Longrightarrow> e = - 1074"
  shows "f64_unpack ((e + 1074) * 2 ^ 52 + mant) = (mant, e)"
proof (cases "mant < 2 ^ 52")
  case True
  then show ?thesis using assms by (simp add: f64_unpack_def)
next
  case False
  define f where "f = mant - 2 ^ 52"
  have "(e + 1074) * 2 ^ 52 + mant = (e + 1075) * 2 ^ 52 + f" by (simp add: f_def algebra_simps)
  moreover have "0 \<le> f" "f < 2 ^ 52" using False assms(2) by (simp_all add: f_def)
  ultimately have "((e + 1074) * 2 ^ 52 + mant) div 2 ^ 52 = e + 1075" "((e + 1074) * 2 ^ 52 + mant) mod 2 ^ 52 = f"
    by (intro int_div_pos_eq[of _ _ _ f] int_mod_pos_eq[of _ _ "e + 1075"]; simp add: mult.commute)+
  then show ?thesis using assms(3) unfolding f64_unpack_def Let_def by (simp add: f_def)
qed

lemma f64_round_exact:
  assumes "0 \<le> m" "f64_exact (of_int m * p2 e)"
  shows "f64_finite (f64_round sg m e) \<and> f64_sign (f64_round sg m e) = sg \<and>
    f64_val (f64_round sg m e) = (if sg then - 1 else 1) * of_int m * p2 e"
proof (cases "m = 0")
  case True
  then show ?thesis
    using of_bits_fields[of 0 sg]
    by (simp add: f64_round_def f64_finite_def f64_val_def f64_unpack_def f64_inf_bits_def)
next
  case False
  then have m: "0 < m" using assms(1) by simp
  note bl = bitlen_bounds[OF m]
  then have bl0: "0 \<le> bitlen m - 1" "0 \<le> bitlen m" by simp_all
  define e' where "e' = max (e + bitlen m - 53) (- 1074)"
  define mant where "mant = (if e' \<le> e then m * 2 ^ nat (e - e') else round_shift m (nat (e' - e)))"
  have eq: "of_int mant * p2 e' = of_int m * p2 e"
  proof (cases "e' \<le> e")
    case True
    then have "p2 e = p2 (e - e') * p2 e'" by (simp flip: p2_add)
    with True show ?thesis by (simp add: mant_def p2_nat)
  next
    case False
    have "mant * 2 ^ nat (e' - e) = m"
      using False round_shift_dvd[OF last_place_dvd[OF m assms(2) e'_def]] by (simp add: mant_def)
    moreover have "p2 e' = p2 (e' - e) * p2 e" by (simp flip: p2_add)
    ultimately show ?thesis using False by (simp add: p2_nat) (metis of_int_mult of_int_numeral of_int_power)
  qed
  have m_lo: "p2 (bitlen m - 1 + e) \<le> of_int m * p2 e"
  proof -
    have "p2 (bitlen m - 1) \<le> of_int m" using bl by (simp only: p2_nat[OF bl0(1)] of_int_le_iff)
    then show ?thesis by (simp add: p2_add)
  qed
  have m_hi: "of_int m * p2 e < p2 (bitlen m + e)"
  proof -
    have "of_int m < p2 (bitlen m)" using bl by (simp only: p2_nat[OF bl0(2)] of_int_less_iff)
    then show ?thesis by (simp add: p2_add)
  qed
  have pos: "0 < mant"
  proof -
    have "0 < of_int mant * p2 e'" unfolding eq using m by simp
    then show ?thesis using p2_pos[of e'] by (auto simp: zero_less_mult_iff simp del: p2_pos)
  qed
  have hi: "mant < 2 ^ 53"
  proof -
    have "bitlen m + e \<le> 53 + e'" by (simp add: e'_def)
    then have "p2 (bitlen m + e) \<le> p2 (53 + e')" by (rule power_int_increasing) simp
    then have "of_int mant * p2 e' < p2 (53 + e')" unfolding eq using m_hi by linarith
    then have "of_int mant < p2 53" by (simp only: p2_add mult_less_cancel_right_pos p2_pos)
    then show ?thesis by simp
  qed
  have lo: "e' = - 1074" if "mant < 2 ^ 52"
  proof (rule ccontr)
    assume "e' \<noteq> - 1074"
    then have "e' = e + bitlen m - 53" by (simp add: e'_def max_def split: if_splits)
    then have q: "52 + e' = bitlen m - 1 + e" by simp
    have "p2 (52 + e') \<le> of_int mant * p2 e'" unfolding eq q by (rule m_lo)
    then have "p2 52 \<le> of_int mant" by (simp only: p2_add mult_le_cancel_right_pos p2_pos)
    then show False using that by simp
  qed
  have e': "- 1074 \<le> e'" "e' \<le> 954"
  proof -
    show "- 1074 \<le> e'" by (simp add: e'_def)
    obtain V E where V: "of_int m * p2 e = of_int V * p2 E" "\<bar>V\<bar> < 2 ^ 53" "E \<le> 900"
      using assms(2) by (auto simp: f64_exact_def)
    have "p2 (bitlen m - 1 + e) \<le> of_int V * p2 E" using m_lo V(1) by simp
    also have "\<dots> < of_int (2 ^ 53) * p2 E" using V(2) by (intro mult_strict_right_mono) (simp_all only: of_int_less_iff, simp_all)
    also have "\<dots> = p2 (53 + E)" by (simp add: p2_add)
    finally have lt: "p2 (bitlen m - 1 + e) < p2 (53 + E)" .
    have "bitlen m - 1 + e < 53 + E"
    proof (rule ccontr)
      assume "\<not> bitlen m - 1 + e < 53 + E"
      then have "p2 (53 + E) \<le> p2 (bitlen m - 1 + e)" by (intro power_int_increasing) simp_all
      with lt show False by simp
    qed
    then show "e' \<le> 954" using V(3) by (simp add: e'_def)
  qed
  define X where "X = (e' + 1074) * 2 ^ 52 + mant"
  have X: "0 \<le> X" "X < f64_inf_bits"
  proof -
    have "(e' + 1074) * 2 ^ 52 \<le> 2028 * 2 ^ 52" using e' by (intro mult_right_mono) simp_all
    then show "X < f64_inf_bits" using hi by (simp add: X_def f64_inf_bits_def)
    show "0 \<le> X" using e' pos by (simp add: X_def)
  qed
  have rnd: "f64_round sg m e = f64_of_bits sg X"
    using False X unfolding f64_round_def Let_def e'_def[symmetric] mant_def[symmetric] X_def by (simp add: min_def)
  have "f64_unpack X = (mant, e')"
    unfolding X_def using pos hi e' lo by (intro unpack_bits) simp_all
  moreover have "f64_sign (f64_of_bits sg X) = sg" "f64_mag (f64_of_bits sg X) = X"
    using of_bits_fields[of X sg] X by (simp_all add: f64_inf_bits_def)
  ultimately show ?thesis
    using eq X(2) unfolding rnd by (simp add: f64_finite_def f64_val_def mult.assoc)
qed

section \<open>Operations\<close>

lemma finite_not_special: "f64_finite x \<Longrightarrow> \<not> f64_is_nan x \<and> \<not> f64_is_inf x"
  by (simp add: f64_finite_def f64_is_nan_def f64_is_inf_def)

lemma f64_of_int_exact:
  assumes "\<bar>n\<bar> < 2 ^ 53"
  shows "f64_finite (f64_of_int n) \<and> f64_val (f64_of_int n) = of_int n"
proof -
  have "f64_exact (of_int \<bar>n\<bar> * p2 0)" using f64_exact_int[of "\<bar>n\<bar>"] assms by simp
  from f64_round_exact[OF _ this, of "n < 0"] show ?thesis by (simp add: f64_of_int_def)
qed

text \<open>The operands of an operation on finite numbers.\<close>

lemma unpack_val:
  assumes "f64_unpack (f64_mag x) = (m, e)"
  shows "f64_val x = (if f64_sign x then - 1 else 1) * of_int m * p2 e" "0 \<le> m"
proof -
  show "f64_val x = (if f64_sign x then - 1 else 1) * of_int m * p2 e" using assms by (simp add: f64_val_def)
  have "0 \<le> f64_mag x" by (simp add: f64_mag_def)
  then show "0 \<le> m" using assms by (auto simp: f64_unpack_def Let_def split: if_splits)
qed

theorem f64_add_exact:
  assumes "f64_finite x" "f64_finite y" "f64_exact (f64_val x + f64_val y)"
  shows "f64_finite (f64_add x y) \<and> f64_val (f64_add x y) = f64_val x + f64_val y"
proof -
  obtain m1 e1 m2 e2 where u: "f64_unpack (f64_mag x) = (m1, e1)" "f64_unpack (f64_mag y) = (m2, e2)" by fastforce
  define e where "e = min e1 e2"
  define s where "s = (if f64_sign x then - (m1 * 2 ^ nat (e1 - e)) else m1 * 2 ^ nat (e1 - e)) +
    (if f64_sign y then - (m2 * 2 ^ nat (e2 - e)) else m2 * 2 ^ nat (e2 - e))"
  have "p2 e1 = of_int (2 ^ nat (e1 - e)) * p2 e" "p2 e2 = of_int (2 ^ nat (e2 - e)) * p2 e"
    using p2_nat[of "e1 - e"] p2_nat[of "e2 - e"] p2_add[of "e1 - e" e] p2_add[of "e2 - e" e] by (simp_all add: e_def)
  then have val: "of_int s * p2 e = f64_val x + f64_val y"
    by (simp add: unpack_val(1)[OF u(1)] unpack_val(1)[OF u(2)] s_def distrib_right)
  have add: "f64_add x y = (if s = 0 then f64_of_bits (f64_sign x \<and> f64_sign y) 0 else f64_round (s < 0) \<bar>s\<bar> e)"
    using finite_not_special[OF assms(1)] finite_not_special[OF assms(2)]
    unfolding f64_add_def u Let_def prod.case e_def[symmetric] s_def[symmetric] by simp
  show ?thesis
  proof (cases "s = 0")
    case True
    then show ?thesis
      using val add of_bits_fields[of 0] by (simp add: f64_finite_def f64_val_def f64_unpack_def f64_inf_bits_def)
  next
    case False
    have "f64_exact (of_int s * p2 e)" using assms(3) unfolding val .
    then have "f64_exact (of_int \<bar>s\<bar> * p2 e)" using f64_exact_minus[of "of_int s * p2 e"] by (cases "s < 0") simp_all
    from f64_round_exact[OF _ this, of "s < 0"]
    have "f64_finite (f64_add x y) \<and> f64_val (f64_add x y) = of_int s * p2 e"
      using False add by (cases "s < 0") simp_all
    then show ?thesis by (simp only: val)
  qed
qed

theorem f64_mul_exact:
  assumes "f64_finite x" "f64_finite y" "f64_exact (f64_val x * f64_val y)"
  shows "f64_finite (f64_mul x y) \<and> f64_val (f64_mul x y) = f64_val x * f64_val y"
proof -
  obtain m1 e1 m2 e2 where u: "f64_unpack (f64_mag x) = (m1, e1)" "f64_unpack (f64_mag y) = (m2, e2)" by fastforce
  have val: "(if f64_sign x \<noteq> f64_sign y then - 1 else 1) * of_int (m1 * m2) * p2 (e1 + e2) = f64_val x * f64_val y"
    by (simp add: unpack_val(1)[OF u(1)] unpack_val(1)[OF u(2)] p2_add)
  have mul: "f64_mul x y = f64_round (f64_sign x \<noteq> f64_sign y) (m1 * m2) (e1 + e2)"
    using finite_not_special[OF assms(1)] finite_not_special[OF assms(2)] u by (simp add: f64_mul_def Let_def)
  have "of_int (m1 * m2) * p2 (e1 + e2) = (if f64_sign x \<noteq> f64_sign y then - 1 else 1) * (f64_val x * f64_val y)"
    unfolding val[symmetric] by simp
  then have "f64_exact (of_int (m1 * m2) * p2 (e1 + e2))" using assms(3) by (auto split: if_splits)
  from f64_round_exact[OF _ this] show ?thesis
    using unpack_val(2)[OF u(1)] unpack_val(2)[OF u(2)] val mul by simp
qed

text \<open>Division by a power of two.\<close>

theorem f64_div_p2_exact:
  assumes "f64_finite x" "f64_unpack (f64_mag y) = (2 ^ 52, e2)" "f64_finite y" "f64_mag y \<noteq> 0" "\<not> f64_sign y" "f64_exact (f64_val x / f64_val y)"
  shows "f64_finite (f64_div x y) \<and> f64_val (f64_div x y) = f64_val x / f64_val y"
proof -
  obtain m1 e1 where u: "f64_unpack (f64_mag x) = (m1, e1)" by fastforce
  have q: "m1 * 2 ^ 120 div 2 ^ 52 = m1 * 2 ^ 68" "m1 * 2 ^ 120 mod 2 ^ 52 = 0"
    by (intro int_div_pos_eq[of _ _ _ 0] int_mod_pos_eq[of _ _ "m1 * 2 ^ 68"]; simp)+
  have div: "f64_div x y = f64_round (f64_sign x) (2 * (m1 * 2 ^ 68)) (e1 - e2 - 121)"
    using finite_not_special[OF assms(1)] finite_not_special[OF assms(3)] assms(4,5)
    unfolding f64_div_def Let_def u assms(2) prod.case q by simp
  have "p2 (e1 - e2 - 121) = p2 e1 / (p2 e2 * 2 ^ 121)" by (simp add: power_int_diff)
  then have val: "(if f64_sign x then - 1 else 1) * of_int (2 * (m1 * 2 ^ 68)) * p2 (e1 - e2 - 121) = f64_val x / f64_val y"
    using unpack_val(1)[OF u] unpack_val(1)[OF assms(2)] assms(5) by (simp add: p2_add)
  have "f64_exact (of_int (2 * (m1 * 2 ^ 68)) * p2 (e1 - e2 - 121))"
    using assms(6) f64_exact_minus[of "f64_val x / f64_val y"] unfolding val[symmetric] by (cases "f64_sign x") simp_all
  from f64_round_exact[OF _ this, of "f64_sign x"] show ?thesis
    using unpack_val(2)[OF u] val div by simp
qed

text \<open>Truncation of a finite number that is not negative.\<close>

lemma f64_trunc_floor:
  assumes "f64_finite x" "0 \<le> f64_val x"
  shows "f64_trunc x = Some \<lfloor>f64_val x\<rfloor>"
proof -
  obtain m e where u: "f64_unpack (f64_mag x) = (m, e)" by fastforce
  have floor: "\<lfloor>of_int m * p2 e\<rfloor> = (if 0 \<le> e then m * 2 ^ nat e else m div 2 ^ nat (- e))"
  proof (cases "0 \<le> e")
    case True
    then have "of_int m * p2 e = of_int (m * 2 ^ nat e)" by (simp add: p2_nat)
    with True show ?thesis by (simp only: floor_of_int if_True)
  next
    case False
    then have "of_int m * p2 e = of_int m / of_int (2 ^ nat (- e))"
      using power_int_minus[of "2 :: real" "- e"] p2_nat[of "- e"] by (simp add: field_simps)
    with False show ?thesis by (simp only: floor_divide_of_int_eq if_False)
  qed
  have "m = 0" if "f64_sign x"
  proof (rule ccontr)
    assume "m \<noteq> 0"
    then have "0 < of_int m * p2 e" using unpack_val(2)[OF u] by simp
    then show False using assms(2) unpack_val(1)[OF u] that by simp
  qed
  then show ?thesis using assms u floor by (auto simp: f64_trunc_def f64_finite_def f64_val_def)
qed

end
