(* ===== verification/DtSampleFacts.thy ===== *)
theory DtSampleFacts
  imports DtSample Float64Exact
begin

text \<open>
  The samples from a range are exact for limits of at most 22 bits, and the features of a node are
  distinct, not used before, and found by every sequence of random numbers that is fair.
\<close>

section \<open>Samples from a range\<close>

text \<open>The sample for the random number \<open>r\<close>.\<close>

definition sample_of :: "int \<Rightarrow> int \<Rightarrow> nat \<Rightarrow> int" where
  "sample_of low high r = low + (high - low + 1) * int r div 2 ^ 31"

lemma sample_of_range:
  assumes "low \<le> high" "r < 2 ^ 31"
  shows "low \<le> sample_of low high r" "sample_of low high r \<le> high"
proof -
  have "0 \<le> (high - low + 1) * int r" using assms by simp
  then show "low \<le> sample_of low high r" by (simp add: sample_of_def pos_imp_zdiv_nonneg_iff)
  have "(high - low + 1) * int r < (high - low + 1) * 2 ^ 31" using assms by (intro mult_strict_left_mono) simp_all
  then have "(high - low + 1) * int r div 2 ^ 31 < high - low + 1" by (simp add: div_less_iff_less_mult)
  then show "sample_of low high r \<le> high" by (simp add: sample_of_def)
qed

lemma f64_2_31_val: "f64_unpack (f64_mag f64_2_31) = (2 ^ 52, - 21)" "f64_finite f64_2_31" "f64_mag f64_2_31 \<noteq> 0" "\<not> f64_sign f64_2_31"
  by (simp_all add: f64_2_31_def f64_unpack_def f64_mag_def f64_finite_def f64_inf_bits_def f64_sign_def)

lemma val_2_31: "f64_val f64_2_31 = 2 ^ 31"
  using unpack_val(1)[OF f64_2_31_val(1)] f64_2_31_val(4) by (simp add: power_int_minus field_simps)

lemma p2_neg_31: "p2 (- 31) = 1 / 2 ^ 31"
  by (simp add: power_int_minus field_simps)

lemma dt_select_sample:
  assumes "0 \<le> sint low" "sint low \<le> sint high" "sint high < 2 ^ 22" "r < 2 ^ 31"
  shows "dt_select r low high = Inr (word_of_int (sample_of (sint low) (sint high) r))"
proof -
  define n where "n = sint high - sint low + 1"
  have n: "0 < n" "n + sint low \<le> 2 ^ 22" using assms by (simp_all add: n_def)
  have rn: "0 \<le> n * int r" "n * int r + sint low * 2 ^ 31 < 2 ^ 53" "n * int r < 2 ^ 53"
  proof -
    show "0 \<le> n * int r" using n by simp
    have "n * int r < n * 2 ^ 31" using n assms(4) by (intro mult_strict_left_mono) simp_all
    moreover have "(n + sint low) * 2 ^ 31 \<le> 2 ^ 22 * 2 ^ 31" using n(2) by (intro mult_right_mono) simp_all
    ultimately show "n * int r + sint low * 2 ^ 31 < 2 ^ 53" by (simp add: distrib_right)
    with assms(1) show "n * int r < 2 ^ 53" by simp
  qed
  have r: "f64_finite (f64_of_int (int r))" "f64_val (f64_of_int (int r)) = real r"
    using f64_of_int_exact[of "int r"] assms(4) by simp_all
  have i: "f64_finite (f64_of_int n)" "f64_val (f64_of_int n) = of_int n" "f64_finite (f64_of_int (sint low))"
    "f64_val (f64_of_int (sint low)) = of_int (sint low)"
    using f64_of_int_exact[of n] f64_of_int_exact[of "sint low"] n assms by simp_all
  define rand where "rand = f64_div (f64_of_int (int r)) f64_2_31"
  have "f64_exact (real r / 2 ^ 31)"
    using assms(4) by (intro f64_exactI[of _ "int r" "- 31"]) (simp_all add: p2_neg_31)
  then have rand: "f64_finite rand" "f64_val rand = real r / 2 ^ 31"
    using f64_div_p2_exact[OF r(1) f64_2_31_val(1-4)] unfolding val_2_31 r(2) rand_def by simp_all
  define prod where "prod = f64_mul rand (f64_of_int n)"
  have eq: "f64_val rand * f64_val (f64_of_int n) = of_int (n * int r) * p2 (- 31)"
    by (simp add: rand(2) i(2) p2_neg_31)
  have "f64_exact (f64_val rand * f64_val (f64_of_int n))"
    unfolding eq using rn by (intro f64_exactI[of _ "n * int r" "- 31"]) simp_all
  from f64_mul_exact[OF rand(1) i(1) this]
  have prod: "f64_finite prod" "f64_val prod = of_int (n * int r) * p2 (- 31)" unfolding prod_def eq by blast+
  define sel where "sel = f64_add prod (f64_of_int (sint low))"
  have eq: "f64_val prod + f64_val (f64_of_int (sint low)) = of_int (n * int r + sint low * 2 ^ 31) * p2 (- 31)"
    by (simp add: prod(2) i(4) p2_neg_31 field_simps)
  have "f64_exact (f64_val prod + f64_val (f64_of_int (sint low)))"
    unfolding eq using rn assms(1) by (intro f64_exactI[of _ "n * int r + sint low * 2 ^ 31" "- 31"]) simp_all
  from f64_add_exact[OF prod(1) i(3) this]
  have sel: "f64_finite sel" "f64_val sel = of_int (n * int r + sint low * 2 ^ 31) * p2 (- 31)" unfolding sel_def eq by blast+
  have "f64_val sel = of_int (n * int r + sint low * 2 ^ 31) / of_int (2 ^ 31)" by (simp add: sel(2) p2_neg_31)
  then have "\<lfloor>f64_val sel\<rfloor> = (n * int r + sint low * 2 ^ 31) div 2 ^ 31" by (simp only: floor_divide_of_int_eq)
  also have "\<dots> = sample_of (sint low) (sint high) r" by (simp add: sample_of_def n_def)
  finally have floor: "\<lfloor>f64_val sel\<rfloor> = sample_of (sint low) (sint high) r" .
  have "0 \<le> n * int r + sint low * 2 ^ 31" using rn assms(1) by simp
  then have "0 \<le> f64_val sel" unfolding sel(2) by (intro mult_nonneg_nonneg) (simp_all only: of_int_0_le_iff, simp)
  from f64_trunc_floor[OF sel(1) this] floor sample_of_range[OF assms(2,4)] assms n show ?thesis
    by (simp add: dt_select_def Let_def flip: n_def rand_def prod_def sel_def)
qed

lemma sample_scan_rows:
  assumes "0 \<le> sint low" "sint low \<le> sint high" "sint high < 2 ^ 22" "\<And>i. rnd i < 2 ^ 31"
  shows "sample_scan rnd k low high \<lparr>call_cntr = c, max_calls = n\<rparr> =
    Inr (map (\<lambda>i. word_of_int (sample_of (sint low) (sint high) (rnd (k + i)))) [0..<nat (n - c)])"
proof (induction "nat (n - c)" arbitrary: k c)
  case 0
  then show ?case by (simp add: sample_scan.simps dt_sample_next_def)
next
  case (Suc d)
  then have c: "c < n" "d = nat (n - (c + 1))" "nat (n - c) = Suc d" by simp_all
  have "[0..<Suc d] = 0 # map Suc [0..<d]" by (simp add: map_Suc_upt upt_conv_Cons del: upt_Suc)
  then show ?case
    using c Suc.hyps(1)[of "c + 1" "k + 1"] dt_select_sample[OF assms(1-3) assms(4), of k]
    by (subst sample_scan.simps) (simp add: dt_sample_next_def comp_def del: upt_Suc)
qed

section \<open>Features of a node\<close>

text \<open>The bitmap of a set of features.\<close>

definition fid_bitmap :: "nat \<Rightarrow> nat set \<Rightarrow> 32 word list \<Rightarrow> bool" where
  "fid_bitmap num U bitmap \<longleftrightarrow> length bitmap = (num + 31) div 32 \<and>
     (\<forall>f<num. bit (bitmap ! (f div 32)) (f mod 32) \<longleftrightarrow> f \<in> U)"

lemma fid_cell: "(f :: nat) < num \<Longrightarrow> f div 32 < (num + 31) div 32"
  using div_le_mono[of "f + 32" "num + 31" 32] by simp

lemma int_div_mod_32: "int f div 32 = int (f div 32)" "int f mod 32 = int (f mod 32)"
  using zdiv_int[of f 32] zmod_int[of f 32] by simp_all

lemma mask_bit: "(w AND dt_fid_mask (int f) \<noteq> 0) \<longleftrightarrow> bit w (f mod 32)"
proof -
  have m: "dt_fid_mask (int f) = push_bit (f mod 32) 1"
    by (simp add: dt_fid_mask_def int_div_mod_32 del: of_nat_mod)
  show ?thesis
  proof
    assume "w AND dt_fid_mask (int f) \<noteq> 0"
    then obtain i where "bit (w AND dt_fid_mask (int f)) i" by (metis bit_eqI bit_0_eq bot_apply bot_bool_def)
    then show "bit w (f mod 32)" by (auto simp: m bit_simps)
  next
    assume "bit w (f mod 32)"
    then have "bit (w AND dt_fid_mask (int f)) (f mod 32)" by (simp add: m bit_simps)
    then show "w AND dt_fid_mask (int f) \<noteq> 0" by auto
  qed
qed

lemma fid_used_bitmap: "fid_bitmap num U bitmap \<Longrightarrow> f < num \<Longrightarrow> fid_used bitmap (int f) = Inr (f \<in> U)"
  using fid_cell[of f num] mask_bit[of _ f] by (simp add: fid_used_def fid_bitmap_def int_div_mod_32 del: of_nat_div)

lemma use_fid_bitmap:
  assumes "fid_bitmap num U bitmap" "f < num"
  shows "\<exists>bitmap'. use_fid (int f) bitmap = Inr bitmap' \<and> fid_bitmap num (insert f U) bitmap'"
proof -
  have len: "length bitmap = (num + 31) div 32" and bits: "\<And>g. g < num \<Longrightarrow> bit (bitmap ! (g div 32)) (g mod 32) \<longleftrightarrow> g \<in> U"
    using assms(1) by (simp_all add: fid_bitmap_def)
  define bitmap' where "bitmap' = bitmap[f div 32 := bitmap ! (f div 32) OR dt_fid_mask (int f)]"
  have "use_fid (int f) bitmap = Inr bitmap'"
    using fid_cell[OF assms(2)] len by (simp add: use_fid_def int_div_mod_32 bitmap'_def del: of_nat_div)
  moreover have "bit (bitmap' ! (g div 32)) (g mod 32) \<longleftrightarrow> g \<in> insert f U" if "g < num" for g
  proof (cases "g div 32 = f div 32")
    case True
    have m: "dt_fid_mask (int f) = push_bit (f mod 32) 1" by (simp add: dt_fid_mask_def int_div_mod_32 del: of_nat_mod)
    have "bit (dt_fid_mask (int f)) (g mod 32) \<longleftrightarrow> g mod 32 = f mod 32" by (auto simp: m bit_simps)
    also have "\<dots> \<longleftrightarrow> g = f" using True by (metis div_mult_mod_eq)
    finally show ?thesis using True bits[OF that] fid_cell[OF assms(2)] len by (auto simp: bitmap'_def bit_or_iff)
  next
    case False
    then show ?thesis using bits[OF that] by (auto simp: bitmap'_def)
  qed
  ultimately show ?thesis using len by (auto simp: fid_bitmap_def bitmap'_def)
qed

lemma empty_bitmap: "fid_bitmap num {} (replicate ((num + 31) div 32) 0)"
  using fid_cell by (simp add: fid_bitmap_def)

lemma use_fids_bitmap:
  "fid_bitmap num U bitmap \<Longrightarrow> \<forall>x\<in>set xs. 1 \<le> sint x \<and> sint x \<le> int num \<Longrightarrow>
   \<exists>bitmap'. foldM (\<lambda>fid. use_fid (sint (fid :: 32 word) - 1)) xs bitmap = Inr bitmap' \<and>
     fid_bitmap num (U \<union> (\<lambda>x. nat (sint x - 1)) ` set xs) bitmap'"
proof (induction xs arbitrary: U bitmap)
  case (Cons x xs)
  define f where "f = nat (sint x - 1)"
  have f: "sint x - 1 = int f" "f < num" using Cons.prems(2) by (auto simp: f_def)
  obtain b where b: "use_fid (int f) bitmap = Inr b" "fid_bitmap num (insert f U) b"
    using use_fid_bitmap[OF Cons.prems(1) f(2)] by blast
  from Cons.IH[OF b(2)] Cons.prems(2) b(1) show ?case by (auto simp: f)
qed auto

text \<open>
  A fair sequence of random numbers hits every feature again and again; then the loop of draws
  returns with a feature that is not used.
\<close>

definition fair :: "(nat \<Rightarrow> nat) \<Rightarrow> nat \<Rightarrow> bool" where
  "fair rnd num \<longleftrightarrow> (\<forall>f<num. \<forall>k. \<exists>j\<ge>k. rnd j mod num = f)"

lemma draw_fid_step:
  "fid_bitmap num U bitmap \<Longrightarrow> 0 < num \<Longrightarrow>
   draw_fid rnd num bitmap k =
     (if rnd k mod num \<in> U then draw_fid rnd num bitmap (k + 1) else Some (Inr (int (rnd k mod num), k + 1)))"
  using fid_used_bitmap[of num U bitmap "rnd k mod num"] by (subst draw_fid.simps) simp

lemma draw_fid_returns:
  assumes "fid_bitmap num U bitmap" "fair rnd num" "f < num" "f \<notin> U"
  shows "\<exists>g k'. draw_fid rnd num bitmap k = Some (Inr (int g, k')) \<and> g < num \<and> g \<notin> U"
proof -
  obtain j where "k \<le> j" "rnd j mod num \<notin> U" using assms(2-4) unfolding fair_def by metis
  then show ?thesis
  proof (induction "j - k" arbitrary: k)
    case 0
    then show ?case using draw_fid_step[OF assms(1), of rnd k] assms(3) by auto
  next
    case (Suc d)
    show ?case
    proof (cases "rnd k mod num \<in> U")
      case True
      then show ?thesis using Suc draw_fid_step[OF assms(1), of rnd k] assms(3) by simp
    next
      case False
      then show ?thesis using draw_fid_step[OF assms(1), of rnd k] assms(3) by auto
    qed
  qed
qed

lemma sample_fids_returns:
  "fid_bitmap num U bitmap \<Longrightarrow> fair rnd num \<Longrightarrow> finite U \<Longrightarrow> U \<subseteq> {..<num} \<Longrightarrow> n + card U \<le> num \<Longrightarrow>
   \<exists>gs. sample_fids rnd num n bitmap k = Some (Inr (map (\<lambda>g. int g + 1) gs)) \<and>
     length gs = n \<and> distinct gs \<and> set gs \<subseteq> {..<num} - U"
proof (induction n arbitrary: U bitmap k)
  case (Suc n)
  have "\<not> {..<num} \<subseteq> U"
    using Suc.prems(3,5) card_mono[of U "{..<num}"] by auto
  then obtain f where f: "f < num" "f \<notin> U" by auto
  obtain g k' where g: "draw_fid rnd num bitmap k = Some (Inr (int g, k'))" "g < num" "g \<notin> U"
    using draw_fid_returns[OF Suc.prems(1,2) f] by blast
  obtain b where b: "use_fid (int g) bitmap = Inr b" "fid_bitmap num (insert g U) b"
    using use_fid_bitmap[OF Suc.prems(1) g(2)] by blast
  obtain gs where "sample_fids rnd num n b k' = Some (Inr (map (\<lambda>g. int g + 1) gs))"
    "length gs = n" "distinct gs" "set gs \<subseteq> {..<num} - insert g U"
    using Suc.IH[OF b(2) Suc.prems(2), of k'] Suc.prems(3-5) g(2,3) by auto
  then show ?case using g b by (intro exI[of _ "g # gs"]) auto
qed simp

lemma remaining_fids_all:
  assumes "fid_bitmap num U bitmap" "U \<subseteq> {..<num}"
  shows "remaining_fids num bitmap (num - card U) =
    Inr (map (\<lambda>g. int g + 1) (rev (filter (\<lambda>g. g \<notin> U) [0..<num])))"
proof -
  let ?step = "\<lambda>i (n, result). rbind (fid_used bitmap (int i)) (\<lambda>used.
    if used then Inr (n, result) else rbind (upd_res result (n - 1) (int i + 1)) (\<lambda>result. Inr (n - 1, result)))"
  have "foldM ?step [0..<j] (int (m + length (filter (\<lambda>g. g \<notin> U) [0..<j])), replicate (m + length (filter (\<lambda>g. g \<notin> U) [0..<j])) 0) =
      Inr (int m, replicate m 0 @ map (\<lambda>g. int g + 1) (rev (filter (\<lambda>g. g \<notin> U) [0..<j])))" if "j \<le> num" for j m
    using that
  proof (induction j arbitrary: m)
    case (Suc j)
    then have used: "fid_used bitmap (int j) = Inr (j \<in> U)" using fid_used_bitmap[OF assms(1), of j] by simp
    show ?case
    proof (cases "j \<in> U")
      case True
      then show ?thesis using Suc used by (simp add: foldM_append)
    next
      case False
      have "upd_res (replicate (m + 1) 0 @ ys) (int (m + 1) - 1) x = Inr (replicate m 0 @ x # ys)" for x :: int and ys
      proof -
        have "replicate (m + 1) 0 @ ys = replicate m 0 @ (0 :: int) # ys" by (simp add: replicate_app_Cons_same)
        then show ?thesis by (simp add: upd_res_def list_update_append del: replicate_Suc)
      qed
      then show ?thesis using Suc.IH[of "m + 1"] Suc.prems used False by (simp add: foldM_append)
    qed
  qed simp
  from this[of num 0] have "foldM ?step [0..<num] (int (length (filter (\<lambda>g. g \<notin> U) [0..<num])), replicate (length (filter (\<lambda>g. g \<notin> U) [0..<num])) 0) =
      Inr (0, map (\<lambda>g. int g + 1) (rev (filter (\<lambda>g. g \<notin> U) [0..<num])))" by simp
  moreover have "length (filter (\<lambda>g. g \<notin> U) [0..<num]) = num - card U"
  proof -
    have "length (filter (\<lambda>g. g \<notin> U) [0..<num]) = card ({..<num} - U)"
      by (simp flip: distinct_card add: set_diff_eq)
    then show ?thesis using assms(2) by (simp add: card_Diff_subset finite_subset)
  qed
  ultimately show ?thesis by (simp add: remaining_fids_def)
qed

text \<open>The features the array of the ancestors names, counted from zero.\<close>

definition ancestor_fids :: "32 word list \<Rightarrow> nat set" where
  "ancestor_fids dps = (\<lambda>x. nat (sint x - 1)) ` set dps"

definition fids_ok :: "nat \<Rightarrow> 32 word list \<Rightarrow> bool" where
  "fids_ok num dps \<longleftrightarrow> distinct dps \<and> (\<forall>x\<in>set dps. 1 \<le> sint x \<and> sint x \<le> int num)"

lemma ancestor_fids_props:
  assumes "fids_ok num dps"
  shows "finite (ancestor_fids dps)" "ancestor_fids dps \<subseteq> {..<num}" "card (ancestor_fids dps) = length dps" "length dps \<le> num"
proof -
  show fin: "finite (ancestor_fids dps)" by (simp add: ancestor_fids_def)
  show sub: "ancestor_fids dps \<subseteq> {..<num}" using assms by (auto simp: ancestor_fids_def fids_ok_def)
  have "inj_on (\<lambda>x. nat (sint x - 1)) (set dps)"
  proof (rule inj_onI)
    fix x y assume "x \<in> set dps" "y \<in> set dps" "nat (sint x - 1) = nat (sint y - 1)"
    moreover from this have "1 \<le> sint x" "1 \<le> sint y" using assms by (simp_all add: fids_ok_def)
    ultimately have "sint x = sint y" by simp
    then show "x = y" by (rule signed_word_eqI)
  qed
  then show card: "card (ancestor_fids dps) = length dps"
    using assms by (simp add: ancestor_fids_def card_image fids_ok_def distinct_card)
  show "length dps \<le> num" using card_mono[OF _ sub] card by simp
qed

section \<open>Properties\<close>

text \<open>
  For limits below \<open>2 ^ 22\<close> the scan of \<open>dt_sample_within_range\<close> returns exactly the number of rows
  asked for, each of them between the limits: the random number scaled to the range, computed
  without any rounding.
\<close>

theorem sample_within_range:
  assumes "0 \<le> sint low" "sint low \<le> sint high" "sint high < 2 ^ 22" "\<And>i. rnd i < 2 ^ 31"
    "0 \<le> sint sample_size" "field (sint sample_size) = sint sample_size"
  shows "\<exists>rows. rbind (dt_sample_first field sample_size low high) (sample_scan rnd k low high) = Inr rows \<and>
    length rows = nat (sint sample_size) \<and>
    (\<forall>i<length rows. sint (rows ! i) = sint low + (sint high - sint low + 1) * int (rnd (k + i)) div 2 ^ 31 \<and>
       sint low \<le> sint (rows ! i) \<and> sint (rows ! i) \<le> sint high)"
proof -
  define rows where "rows = map (\<lambda>i. word_of_int (sample_of (sint low) (sint high) (rnd (k + i))) :: int64) [0..<nat (sint sample_size)]"
  have scan: "rbind (dt_sample_first field sample_size low high) (sample_scan rnd k low high) = Inr rows"
    using assms sample_scan_rows[of low high rnd k 0 "sint sample_size"] by (simp add: dt_sample_first_def rows_def)
  have len: "length rows = nat (sint sample_size)" by (simp add: rows_def)
  have "sint (word_of_int (sample_of (sint low) (sint high) r) :: int64) = sample_of (sint low) (sint high) r \<and>
      sint low \<le> sample_of (sint low) (sint high) r \<and> sample_of (sint low) (sint high) r \<le> sint high" if "r < 2 ^ 31" for r
    using sample_of_range[OF assms(2) that] assms by (simp only: signed_of_int) (simp add: signed_take_bit_int_eq_self)
  then have "sint (rows ! i) = sample_of (sint low) (sint high) (rnd (k + i)) \<and> sint low \<le> sint (rows ! i) \<and> sint (rows ! i) \<le> sint high"
    if "i < length rows" for i using that assms(4) by (simp only: rows_def length_map length_upt nth_map nth_upt) simp
  then show ?thesis
    unfolding sample_of_def using scan len by blast
qed

lemma sample_within_range_witness:
  "\<exists>rows. rbind (dt_sample_first (\<lambda>n. n) 3 1 10) (sample_scan (\<lambda>i. 1000000000) 0 1 10) = Inr rows \<and> length rows = 3 \<and> sint (rows ! 1) = 5"
  using sample_within_range[of 1 10 "\<lambda>i. 1000000000" 3 "\<lambda>n. n" 0] by auto

text \<open>
  C19: \<open>dt_get_node_split_fids\<close> returns for every fair sequence of random numbers: as many distinct
  features as were asked for, or as remain if these are fewer, and none of them used by an
  ancestor; the first feature if none remains.
\<close>

theorem split_fids_return:
  assumes "0 < sint num_req" "0 < sint num" "0 < sint nid" "sint num + 31 < 2 ^ 31"
    "fids_ok (nat (sint num)) dps" "fair rnd (nat (sint num))"
  shows "\<exists>gs. dt_get_node_split_fids rnd k (Some num_req) (Some num) (Some nid) (Some (pg_array1 dps)) =
      Some (Inr (pg_array1 (map (\<lambda>g. word_of_int (int g + 1)) gs))) \<and> distinct gs \<and>
    (if length dps = nat (sint num) then gs = [0]
     else set gs \<subseteq> {..<nat (sint num)} - ancestor_fids dps \<and>
       length gs = min (nat (sint num_req)) (nat (sint num) - length dps))"
proof -
  define n where "n = nat (sint num)"
  define q where "q = nat (sint num_req)"
  have n: "sint num = int n" "sint num_req = int q" "0 < n" "0 < q" using assms(1,2) by (simp_all add: n_def q_def)
  note anc = ancestor_fids_props[OF assms(5)[folded n_def]]
  have dps: "\<forall>x\<in>set dps. 1 \<le> sint x \<and> sint x \<le> int n" using assms(5) by (simp add: fids_ok_def n_def)
  have len: "nat ((int n + 31) div 32) = (n + 31) div 32" by (simp add: nat_div_distrib nat_add_distrib)
  obtain bitmap where bitmap: "foldM (\<lambda>fid. use_fid (sint fid - 1)) dps (replicate ((n + 31) div 32) 0) = Inr bitmap"
    "fid_bitmap n (ancestor_fids dps) bitmap"
    using use_fids_bitmap[OF empty_bitmap dps] by (auto simp: ancestor_fids_def)
  have start: "dt_get_node_split_fids rnd k (Some num_req) (Some num) (Some nid) (Some (pg_array1 dps)) =
      (case (if int n - int (length dps) > int q then sample_fids rnd n q bitmap k
             else if int n - int (length dps) = 0 then Some (Inr [1])
             else Some (remaining_fids n bitmap (nat (int n - int (length dps))))) of
         None \<Rightarrow> None | Some r \<Rightarrow> Some (rbind r (\<lambda>result. Inr (pg_array1 (map word_of_int result)))))"
    using assms(3,4) n bitmap(1) anc(4) len by (simp add: dt_get_node_split_fids_def Let_def)
  consider "length dps + q < n" | "length dps = n" | "length dps < n" "n \<le> length dps + q" using anc(4) by linarith
  then show ?thesis
  proof cases
    case 1
    obtain gs where "sample_fids rnd n q bitmap k = Some (Inr (map (\<lambda>g. int g + 1) gs))" "length gs = q" "distinct gs"
      "set gs \<subseteq> {..<n} - ancestor_fids dps"
      using sample_fids_returns[OF bitmap(2) assms(6)[folded n_def] anc(1,2), of q k] anc(3) 1 by auto
    then show ?thesis
      using 1 unfolding start n_def[symmetric] q_def[symmetric] by (intro exI[of _ gs]) (simp add: comp_def)
  next
    case 2
    then show ?thesis using n(4) unfolding start n_def[symmetric] q_def[symmetric] by (intro exI[of _ "[0]"]) simp
  next
    case 3
    define gs where "gs = rev (filter (\<lambda>g. g \<notin> ancestor_fids dps) [0..<n])"
    have "length gs = card ({..<n} - ancestor_fids dps)"
      unfolding gs_def by (simp flip: distinct_card add: set_diff_eq)
    also have "\<dots> = n - length dps" using anc by (simp add: card_Diff_subset)
    finally have "length gs = n - length dps" .
    moreover have "nat (int n - int (length dps)) = n - card (ancestor_fids dps)" using anc(3) by simp
    ultimately show ?thesis
      using 3 remaining_fids_all[OF bitmap(2) anc(2)]
      unfolding start n_def[symmetric] q_def[symmetric] by (intro exI[of _ gs]) (auto simp: gs_def comp_def)
  qed
qed

lemma fair_identity: "0 < num \<Longrightarrow> fair (\<lambda>i. i) num"
proof -
  assume "0 < num"
  then have "k \<le> k * num + f \<and> (k * num + f) mod num = f" if "f < num" for f k
    using that \<open>0 < num\<close> by (simp add: trans_le_add1)
  then show ?thesis unfolding fair_def by blast
qed

lemma split_fids_return_witness:
  "\<exists>gs. dt_get_node_split_fids (\<lambda>i. i) 0 (Some 2) (Some 5) (Some 1) (Some (pg_array1 [2, 4])) =
      Some (Inr (pg_array1 (map (\<lambda>g. word_of_int (int g + 1)) gs))) \<and> length gs = 2"
proof -
  have "fids_ok 5 [2, 4]" by (simp add: fids_ok_def)
  then show ?thesis
    using split_fids_return[of 2 5 1 "[2, 4]" "\<lambda>i. i" 0] fair_identity[of 5] by auto
qed

end
