(* ===== verification/Viterbi.thy ===== *)
theory Viterbi
  imports Float64
begin

text \<open>
  The most probable label sequence, \<open>methods/textfex_viterbi/src/pg_gp/viterbi_top1.c\<close>.  \<open>mArray\<close> holds, in
  rows of \<open>nlabel\<close> scores, the start features, the edge features from each label, and the end
  features; \<open>rArray\<close> holds the scores of the labels for each token.  Scores are 32-bit integers.
  \<open>exp\<close> and \<open>log\<close> of the C library are parameters.
\<close>

definition add32 :: "int \<Rightarrow> int \<Rightarrow> int" where
  "add32 x y = to_int32 (x + y)"

definition f64_1000 :: float8 where "f64_1000 = 0x408F400000000000"
definition f64_1000000 :: float8 where "f64_1000000 = 0x412E848000000000"

text \<open>\<open>(int)(log(exp(abs(d)/1000.0) + 1)*1000.0 + 0.5)\<close>; 0.5 is \<open>0x3FE0000000000000\<close>.\<close>

definition log_term :: "(float8 \<Rightarrow> float8) \<Rightarrow> (float8 \<Rightarrow> float8) \<Rightarrow> int \<Rightarrow> int res" where
  "log_term cexp clog d =
     f64_to_int (f64_add (f64_mul (clog (f64_add (cexp (f64_div (f64_of_int (to_int32 \<bar>d\<bar>)) f64_1000)) f64_one)) f64_1000)
       0x3FE0000000000000)"

text \<open>One pass of the loop over \<open>prevlabel\<close>; the state is the cell of the two arrays and of the path.\<close>

definition cell_step ::
    "(float8 \<Rightarrow> float8) \<Rightarrow> (float8 \<Rightarrow> float8) \<Rightarrow> int list \<Rightarrow> int list \<Rightarrow> nat \<Rightarrow> nat \<Rightarrow> nat \<Rightarrow> int list \<Rightarrow> int list \<Rightarrow> nat \<Rightarrow>
     nat \<Rightarrow> int \<times> nat \<times> int \<Rightarrow> (int \<times> nat \<times> int) res" where
  "cell_step cexp clog mArray rArray nlabel doclen start_pos prev_top1 prev_norm currlabel prevlabel cell =
     (case cell of (curr_top1, path, curr_norm) \<Rightarrow>
       rbind (nth_res prev_top1 (int prevlabel)) (\<lambda>top1.
       rbind (nth_res prev_norm (int prevlabel)) (\<lambda>norm.
       rbind (nth_res rArray (int (start_pos * nlabel + currlabel))) (\<lambda>state.
       rbind (nth_res mArray (int ((prevlabel + 1) * nlabel + currlabel))) (\<lambda>edge.
       rbind (if start_pos = doclen - 1 then nth_res mArray (int ((nlabel + 1) * nlabel + currlabel)) else Inr 0) (\<lambda>end_feature.
         let top1_new_score = add32 (add32 (add32 top1 state) edge) end_feature;
             norm_new_score = add32 (add32 (add32 norm state) edge) end_feature;
             (curr_top1, path) =
               (if top1_new_score > curr_top1 then (top1_new_score, prevlabel) else (curr_top1, path))
         in rbind (if curr_norm = 0 then Inr norm_new_score
                   else rbind (log_term cexp clog (to_int32 (norm_new_score - curr_norm))) (\<lambda>z.
                          Inr (add32 (min curr_norm norm_new_score) z))) (\<lambda>curr_norm.
            Inr (curr_top1, path, curr_norm))))))))"

definition first_cell :: "int list \<Rightarrow> int list \<Rightarrow> nat \<Rightarrow> (int \<times> nat \<times> int) res" where
  "first_cell mArray rArray label =
     rbind (nth_res rArray (int label)) (\<lambda>r. rbind (nth_res mArray (int label)) (\<lambda>m. Inr (add32 r m, 0, add32 r m)))"

text \<open>One token: the arrays for its labels and its row of the path.\<close>

definition token_step ::
    "(float8 \<Rightarrow> float8) \<Rightarrow> (float8 \<Rightarrow> float8) \<Rightarrow> int list \<Rightarrow> int list \<Rightarrow> nat \<Rightarrow> nat \<Rightarrow>
     nat \<Rightarrow> int list \<times> int list \<times> nat list list \<Rightarrow> (int list \<times> int list \<times> nat list list) res" where
  "token_step cexp clog mArray rArray nlabel doclen start_pos st =
     (case st of (prev_top1, prev_norm, path) \<Rightarrow>
       rbind (mapM (\<lambda>currlabel.
           if start_pos = 0 then first_cell mArray rArray currlabel
           else foldM (cell_step cexp clog mArray rArray nlabel doclen start_pos prev_top1 prev_norm currlabel) [0..<nlabel] (0, 0, 0))
         [0..<nlabel]) (\<lambda>cells.
         Inr (map fst cells, map (\<lambda>c. snd (snd c)) cells, path @ [map (\<lambda>c. fst (snd c)) cells])))"

text \<open>The label with the highest score, and the score; both start from zero.\<close>

definition last_label :: "int list \<Rightarrow> int \<times> nat" where
  "last_label curr_top1 =
     fold (\<lambda>label (maxscore, top1label).
       if curr_top1 ! label > maxscore then (curr_top1 ! label, label) else (maxscore, top1label)) [0..<length curr_top1] (0, 0)"

text \<open>The labels of the tokens up to \<open>pos\<close>, traced back from the label of the last one.\<close>

fun trace_back :: "nat list list \<Rightarrow> nat \<Rightarrow> nat \<Rightarrow> nat list" where
  "trace_back path 0 top1label = [top1label]"
| "trace_back path (Suc pos) top1label = trace_back path pos (path ! Suc pos ! top1label) @ [top1label]"

fun norm_factor :: "(float8 \<Rightarrow> float8) \<Rightarrow> (float8 \<Rightarrow> float8) \<Rightarrow> int list \<Rightarrow> int \<Rightarrow> int res" where
  "norm_factor cexp clog [] norm = Inr norm"
| "norm_factor cexp clog (c # cs) norm =
     rbind (log_term cexp clog (to_int32 (norm - c))) (\<lambda>z. norm_factor cexp clog cs (add32 (min c norm) z))"

text \<open>
  The labels and the conditional probability.  With no token the label of the last one is written
  in front of the data of the result.
\<close>

definition vcrf_top1_label ::
    "(float8 \<Rightarrow> float8) \<Rightarrow> (float8 \<Rightarrow> float8) \<Rightarrow> int list \<Rightarrow> int list \<Rightarrow> nat \<Rightarrow> (nat list \<times> int) res" where
  "vcrf_top1_label cexp clog mArray rArray nlabel =
     rbind (guard_mem (nlabel \<noteq> 0)) (\<lambda>_.
     let doclen = length rArray div nlabel in
     rbind (guard_mem (doclen \<noteq> 0)) (\<lambda>_.
     rbind (foldM (token_step cexp clog mArray rArray nlabel doclen) [0..<doclen]
       (replicate nlabel 0, replicate nlabel 0, [])) (\<lambda>(curr_top1, curr_norm, path).
       let (maxscore, top1label) = last_label curr_top1;
           labels = trace_back path (doclen - 1) top1label in
       rbind (norm_factor cexp clog (tl curr_norm) (hd curr_norm)) (\<lambda>norm.
       rbind (f64_to_int (f64_mul (cexp (f64_div (f64_of_int (to_int32 (maxscore - norm))) f64_1000)) f64_1000000)) (\<lambda>p.
         Inr (labels, p))))))"

end
