(* ===== verification/ViterbiFacts.thy ===== *)
theory ViterbiFacts
  imports Viterbi
begin

text \<open>
  The labels \<open>vcrf_top1_label\<close> returns have the highest score of all label sequences.
\<close>

section \<open>Scores of sequences\<close>

text \<open>The score of the first label, and of a label after another; the last token has the end feature as well.\<close>

definition first_score :: "int list \<Rightarrow> int list \<Rightarrow> nat \<Rightarrow> int" where
  "first_score mArray rArray y = rArray ! y + mArray ! y"

definition step_score :: "int list \<Rightarrow> int list \<Rightarrow> nat \<Rightarrow> nat \<Rightarrow> nat \<Rightarrow> nat \<Rightarrow> nat \<Rightarrow> int" where
  "step_score mArray rArray n doclen t x y =
     rArray ! (t * n + y) + mArray ! ((x + 1) * n + y) + (if t = doclen - 1 then mArray ! ((n + 1) * n + y) else 0)"

definition label_score :: "int list \<Rightarrow> int list \<Rightarrow> nat \<Rightarrow> nat \<Rightarrow> nat list \<Rightarrow> int" where
  "label_score mArray rArray n doclen ys =
     first_score mArray rArray (hd ys) +
     (\<Sum>t = 1..<length ys. step_score mArray rArray n doclen t (ys ! (t - 1)) (ys ! t))"

lemma label_score_snoc:
  "ys \<noteq> [] \<Longrightarrow> label_score m r n d (ys @ [y]) = label_score m r n d ys + step_score m r n d (length ys) (last ys) y"
proof -
  assume ys: "ys \<noteq> []"
  have "(\<Sum>t = 1..<length ys. step_score m r n d t ((ys @ [y]) ! (t - 1)) ((ys @ [y]) ! t)) =
      (\<Sum>t = 1..<length ys. step_score m r n d t (ys ! (t - 1)) (ys ! t))"
    by (intro sum.cong) (auto simp: nth_append)
  moreover have "1 \<le> length ys" using ys by (cases ys) auto
  moreover have "(ys @ [y]) ! (length ys - 1) = last ys" using ys by (simp add: nth_append last_conv_nth)
  ultimately show ?thesis using ys by (simp add: label_score_def)
qed

text \<open>
  Scores that are positive, with a bound \<open>B\<close>, and a bound \<open>N\<close> of all sums of them; \<open>L\<close> bounds what
  \<open>log_term\<close> adds to the larger of two scores.
\<close>

definition scores_ok :: "int list \<Rightarrow> int list \<Rightarrow> nat \<Rightarrow> nat \<Rightarrow> int \<Rightarrow> int \<Rightarrow> int \<Rightarrow> bool" where
  "scores_ok mArray rArray n doclen B L N \<longleftrightarrow>
     0 < n \<and> 0 < doclen \<and> length rArray = doclen * n \<and> (n + 2) * n \<le> length mArray \<and>
     0 \<le> L \<and> (3 * B + L * int n) * int doclen + L * int n \<le> N \<and> N < 2 ^ 31 \<and>
     (\<forall>x\<in>set rArray. 0 < x \<and> x \<le> B) \<and> (\<forall>x\<in>set mArray. 0 \<le> x \<and> x \<le> B)"

text \<open>
  What the code relies on of \<open>exp\<close> and \<open>log\<close>: for \<open>d\<close> of at most \<open>N\<close> thousandths the conversions to an integer are
  defined, and 1000 times the logarithm of \<open>exp (d / 1000) + 1\<close> lies between \<open>d\<close> and \<open>d + L\<close>.  For the real functions
  \<open>N = 700000\<close> (\<open>exp 700\<close> is finite) and \<open>L = 694\<close> (1000 times the logarithm of 2, rounded) are possible.
\<close>

definition conversions_ok :: "(float8 \<Rightarrow> float8) \<Rightarrow> (float8 \<Rightarrow> float8) \<Rightarrow> int \<Rightarrow> int \<Rightarrow> bool" where
  "conversions_ok cexp clog L N \<longleftrightarrow>
     (\<forall>d\<in>{- N..N}. \<exists>z. log_term cexp clog d = Inr z \<and> \<bar>d\<bar> \<le> z \<and> z \<le> \<bar>d\<bar> + L) \<and>
     (\<forall>d\<in>{- N..0}. \<exists>p. f64_to_int (f64_mul (cexp (f64_div (f64_of_int d) f64_1000)) f64_1000000) = Inr p)"

text \<open>The bound of the scores after \<open>t\<close> tokens.\<close>

definition limit :: "nat \<Rightarrow> int \<Rightarrow> int \<Rightarrow> nat \<Rightarrow> int" where
  "limit n B L t = (3 * B + L * int n) * int t"

lemma limit_le:
  assumes "scores_ok m r n d B L N" "t < d" "0 \<le> B"
  shows "limit n B L t + 3 * B + L * int n \<le> N - L * int n" "0 \<le> limit n B L t" "0 \<le> L * int n" "N < 2 ^ 31"
proof -
  have C: "0 \<le> 3 * B + L * int n" "0 \<le> L" and N: "(3 * B + L * int n) * int d + L * int n \<le> N"
    using assms by (simp_all add: scores_ok_def)
  have "(3 * B + L * int n) * (int t + 1) \<le> (3 * B + L * int n) * int d" using assms(2) C by (intro mult_left_mono) simp_all
  then show "limit n B L t + 3 * B + L * int n \<le> N - L * int n" using N by (simp add: limit_def algebra_simps)
  show "0 \<le> limit n B L t" "0 \<le> L * int n" "N < 2 ^ 31" using C assms(1) by (simp_all add: limit_def scores_ok_def)
qed

section \<open>One token\<close>

lemma mapM_exists:
  "(\<And>x. x \<in> set xs \<Longrightarrow> \<exists>y. f x = Inr y \<and> P x y) \<Longrightarrow> \<exists>ys. mapM f xs = Inr ys \<and> list_all2 P xs ys"
proof (induction xs)
  case (Cons x xs)
  obtain y where "f x = Inr y" "P x y" using Cons.prems[of x] by auto
  moreover obtain ys where "mapM f xs = Inr ys" "list_all2 P xs ys" using Cons by auto
  ultimately show ?case by simp
qed simp

lemma add32_small: "0 \<le> x \<Longrightarrow> 0 \<le> y \<Longrightarrow> x + y < 2 ^ 31 \<Longrightarrow> add32 x y = x + y"
  by (simp add: add32_def)

lemma row_index: "t < d \<Longrightarrow> y < n \<Longrightarrow> t * n + y < d * (n :: nat)"
proof -
  assume "t < d" "y < n"
  then have "t * n + y < (t + 1) * n" by simp
  also have "\<dots> \<le> d * n" using \<open>t < d\<close> by (intro mult_le_mono1) simp
  finally show ?thesis .
qed

lemma scores_at:
  assumes "scores_ok m r n d B L N" "t < d" "y < n" "x < n"
  shows "0 < r ! (t * n + y)" "r ! (t * n + y) \<le> B" "t * n + y < length r"
    "0 \<le> m ! ((x + 1) * n + y)" "m ! ((x + 1) * n + y) \<le> B" "(x + 1) * n + y < length m"
    "0 \<le> m ! ((n + 1) * n + y)" "m ! ((n + 1) * n + y) \<le> B" "(n + 1) * n + y < length m"
    "0 \<le> m ! y" "m ! y \<le> B" "y < length m"
proof -
  show r: "t * n + y < length r" using assms row_index[of t d y n] by (simp add: scores_ok_def)
  have len: "(n + 2) * n \<le> length m" using assms(1) by (simp add: scores_ok_def)
  show m: "(x + 1) * n + y < length m" "(n + 1) * n + y < length m" "y < length m"
    using len row_index[of "x + 1" "n + 2" y n] row_index[of "n + 1" "n + 2" y n] row_index[of 0 "n + 2" y n] assms(3,4) by simp_all
  show "0 < r ! (t * n + y)" "r ! (t * n + y) \<le> B" "0 \<le> m ! ((x + 1) * n + y)" "m ! ((x + 1) * n + y) \<le> B"
    "0 \<le> m ! ((n + 1) * n + y)" "m ! ((n + 1) * n + y) \<le> B" "0 \<le> m ! y" "m ! y \<le> B"
    using assms(1) nth_mem[OF r] nth_mem[OF m(1)] nth_mem[OF m(2)] nth_mem[OF m(3)] by (auto simp: scores_ok_def)
qed

lemma step_score_bounds:
  assumes "scores_ok m r n d B L N" "t < d" "y < n" "x < n"
  shows "0 < step_score m r n d t x y" "step_score m r n d t x y \<le> 3 * B"
proof -
  note s = scores_at[OF assms]
  define e where "e = (if t = d - 1 then m ! ((n + 1) * n + y) else 0)"
  have e: "0 \<le> e" "e \<le> B" using s by (auto simp: e_def)
  show "0 < step_score m r n d t x y" "step_score m r n d t x y \<le> 3 * B"
    unfolding step_score_def e_def[symmetric] using s(1,2,4,5) e by linarith+
qed

text \<open>The sum of two terms, in the code's order: it is at least the larger score, and at most \<open>L\<close> more.\<close>

lemma norm_step:
  assumes "conversions_ok cexp clog L N" "N < 2 ^ 31" "0 \<le> k" "0 \<le> norm" "max k norm + L \<le> N" "0 \<le> L"
  shows "\<exists>norm'. rbind (log_term cexp clog (to_int32 (k - norm))) (\<lambda>z. Inr (add32 (min norm k) z)) = Inr norm' \<and>
    max k norm \<le> norm' \<and> norm' \<le> max k norm + L"
proof -
  have d: "to_int32 (k - norm) = k - norm" using assms by simp
  have "k - norm \<in> {- N..N}" using assms by auto
  then obtain z where z: "log_term cexp clog (k - norm) = Inr z" "\<bar>k - norm\<bar> \<le> z" "z \<le> \<bar>k - norm\<bar> + L"
    using assms(1) unfolding conversions_ok_def by blast
  have "add32 (min norm k) z = min norm k + z" using assms z(2,3) by (intro add32_small) auto
  with z d show ?thesis by auto
qed

lemma cell_step_score:
  assumes "scores_ok m r n d B L N" "conversions_ok cexp clog L N" "0 < t" "t < d" "y < n" "x < n"
    "length tops = n" "length norms = n" "0 < tops ! x" "tops ! x \<le> norms ! x" "norms ! x \<le> limit n B L t"
    "0 \<le> norm" "norm \<le> limit n B L t + 3 * B + L * int n"
  shows "\<exists>norm'. cell_step cexp clog m r n d t tops norms y x (best, p, norm) =
      (let new = tops ! x + step_score m r n d t x y in Inr (if new > best then (new, x, norm') else (best, p, norm'))) \<and>
    tops ! x + step_score m r n d t x y \<le> norm' \<and> norm \<le> norm' \<and> norm' \<le> max (limit n B L t + 3 * B) norm + L"
proof -
  note s = scores_at[OF assms(1,4,5,6)]
  have B: "0 \<le> B" using s by linarith
  note lim = limit_le[OF assms(1,4) B]
  have L: "0 \<le> L" "1 \<le> int n" using assms(1) by (simp_all add: scores_ok_def)
  then have Ln: "L \<le> L * int n" by (simp add: mult_le_cancel_left1)
  define e where "e = (if t = d - 1 then m ! ((n + 1) * n + y) else 0)"
  have e: "0 \<le> e" "e \<le> B" using s by (auto simp: e_def)
  have add: "add32 (add32 (add32 v (r ! (t * n + y))) (m ! ((x + 1) * n + y))) e = v + step_score m r n d t x y"
    if "0 < v" "v \<le> limit n B L t" for v
    unfolding step_score_def e_def[symmetric] using s(1,2,4,5) e lim that by (simp add: add32_small)
  define k where "k = norms ! x + step_score m r n d t x y"
  have sc: "0 < step_score m r n d t x y" "step_score m r n d t x y \<le> 3 * B" using step_score_bounds[OF assms(1,4,5,6)] .
  have k: "0 \<le> k" "k \<le> limit n B L t + 3 * B" "tops ! x + step_score m r n d t x y \<le> k"
    using assms(9-11) sc by (simp_all add: k_def)
  have top: "tops ! x \<le> limit n B L t" "0 < norms ! x" using assms(9-11) by simp_all
  obtain norm' where n': "(if norm = 0 then Inr k else rbind (log_term cexp clog (to_int32 (k - norm))) (\<lambda>z. Inr (add32 (min norm k) z))) =
      Inr norm'" "max k norm \<le> norm'" "norm' \<le> max (limit n B L t + 3 * B) norm + L"
  proof (cases "norm = 0")
    case False
    have "max k norm + L \<le> N" using k(2) assms(13) lim Ln by simp
    from norm_step[OF assms(2) lim(4) k(1) assms(12) this L(1)] show ?thesis using that k(2) False by fastforce
  qed (use that[of k] k L in auto)
  have ends: "(if t = d - 1 then nth_res m (int ((n + 1) * n + y)) else Inr 0) = Inr e"
    unfolding nth_res_Inr[OF s(9)] e_def by simp
  have reads: "nth_res tops (int x) = Inr (tops ! x)" "nth_res norms (int x) = Inr (norms ! x)" using assms(6-8) by simp_all
  have "cell_step cexp clog m r n d t tops norms y x (best, p, norm) =
      (let new = tops ! x + step_score m r n d t x y in Inr (if new > best then (new, x, norm') else (best, p, norm')))"
    unfolding cell_step_def prod.case ends reads nth_res_Inr[OF s(3)] nth_res_Inr[OF s(6)] rbind.simps Let_def
      add[OF assms(9) top(1)] add[OF top(2) assms(11)] k_def[symmetric] n'(1) by simp
  then show ?thesis using n'(2,3) k(3) by (intro exI[of _ norm'] conjI) simp_all
qed

lemma cells_best:
  assumes "scores_ok m r n d B L N" "conversions_ok cexp clog L N" "0 < t" "t < d" "y < n"
    "length tops = n" "length norms = n" "\<forall>x<n. 0 < tops ! x \<and> tops ! x \<le> norms ! x \<and> norms ! x \<le> limit n B L t" "j \<le> n"
  shows "\<exists>best p norm. foldM (cell_step cexp clog m r n d t tops norms y) [0..<j] (0, 0, 0) = Inr (best, p, norm) \<and>
    (if j = 0 then best = 0 else p < j \<and> best = tops ! p + step_score m r n d t p y) \<and>
    (\<forall>x<j. tops ! x + step_score m r n d t x y \<le> best) \<and> best \<le> norm \<and> 0 \<le> norm \<and> norm \<le> limit n B L t + 3 * B + L * int j"
  using assms(9)
proof (induction j)
  case 0
  have "0 \<le> B" using scores_at[OF assms(1,4,5,5)] by linarith
  with limit_le[OF assms(1,4) this] show ?case by simp
next
  case (Suc j)
  then obtain best p norm where IH: "foldM (cell_step cexp clog m r n d t tops norms y) [0..<j] (0, 0, 0) = Inr (best, p, norm)"
    "if j = 0 then best = 0 else p < j \<and> best = tops ! p + step_score m r n d t p y"
    "\<forall>x<j. tops ! x + step_score m r n d t x y \<le> best" "best \<le> norm" "0 \<le> norm" "norm \<le> limit n B L t + 3 * B + L * int j" by auto
  have j: "j < n" using Suc.prems by simp
  then have J: "0 < tops ! j" "tops ! j \<le> norms ! j" "norms ! j \<le> limit n B L t" using assms(8) by auto
  have L: "0 \<le> L" using assms(1) by (simp add: scores_ok_def)
  then have "L * int j \<le> L * int n" using j by (intro mult_left_mono) simp_all
  with IH(6) have N: "norm \<le> limit n B L t + 3 * B + L * int n" by simp
  have pos: "0 < tops ! j + step_score m r n d t j y" using J(1) step_score_bounds[OF assms(1,4,5) j] by simp
  obtain norm' where step: "cell_step cexp clog m r n d t tops norms y j (best, p, norm) =
      (let new = tops ! j + step_score m r n d t j y in Inr (if new > best then (new, j, norm') else (best, p, norm')))"
    and n': "tops ! j + step_score m r n d t j y \<le> norm'" "norm \<le> norm'" "norm' \<le> max (limit n B L t + 3 * B) norm + L"
    using cell_step_score[OF assms(1-5) j assms(6,7) J IH(5) N, of best p] by blast
  have Lj: "0 \<le> L * int j" using L by simp
  have n'': "norm' \<le> limit n B L t + 3 * B + L * int (Suc j)" "0 \<le> norm'" "best \<le> norm'"
    using n' IH(4-6) Lj by (simp_all add: algebra_simps)
  have le: "tops ! x + step_score m r n d t x y \<le> max best (tops ! j + step_score m r n d t j y)" if "x < Suc j" for x
    using IH(3) that by (cases "x = j") (auto intro: order.trans[OF _ max.cobounded1])
  show ?case
  proof (cases "tops ! j + step_score m r n d t j y > best")
    case True
    then have "foldM (cell_step cexp clog m r n d t tops norms y) [0..<Suc j] (0, 0, 0) =
        Inr (tops ! j + step_score m r n d t j y, j, norm')"
      using IH(1) step by (simp add: foldM_append Let_def)
    then show ?thesis using le True n'(1) n'' by (auto simp: max_def split: if_splits)
  next
    case False
    then have "foldM (cell_step cexp clog m r n d t tops norms y) [0..<Suc j] (0, 0, 0) = Inr (best, p, norm')"
      using IH(1) step by (simp add: foldM_append Let_def)
    moreover have "0 < j" using False pos IH(2) by (cases "j = 0") (simp_all del: not_less)
    ultimately show ?thesis using le False IH(2) n'' by (auto simp: max_def less_Suc_eq split: if_splits)
  qed
qed

lemma token_step_best:
  assumes "scores_ok m r n d B L N" "conversions_ok cexp clog L N" "0 < t" "t < d"
    "length tops = n" "length norms = n" "\<forall>x<n. 0 < tops ! x \<and> tops ! x \<le> norms ! x \<and> norms ! x \<le> limit n B L t"
  shows "\<exists>tops' norms' row. token_step cexp clog m r n d t (tops, norms, path) = Inr (tops', norms', path @ [row]) \<and>
    length tops' = n \<and> length norms' = n \<and> length row = n \<and>
    (\<forall>y<n. row ! y < n \<and> tops' ! y = tops ! (row ! y) + step_score m r n d t (row ! y) y \<and>
      (\<forall>x<n. tops ! x + step_score m r n d t x y \<le> tops' ! y) \<and> tops' ! y \<le> norms' ! y \<and> norms' ! y \<le> limit n B L (t + 1))"
proof -
  define P where "P = (\<lambda>y (best, p, norm). p < n \<and> best = tops ! p + step_score m r n d t p y \<and>
    (\<forall>x<n. tops ! x + step_score m r n d t x y \<le> best) \<and> best \<le> norm \<and> norm \<le> limit n B L (t + 1))"
  have n: "0 < n" using assms(1) by (simp add: scores_ok_def)
  have "\<exists>c. (if t = 0 then first_cell m r y else foldM (cell_step cexp clog m r n d t tops norms y) [0..<n] (0, 0, 0)) = Inr c \<and> P y c"
    if "y \<in> set [0..<n]" for y
    using cells_best[OF assms(1-4) _ assms(5-7) order.refl, of y] that n assms(3) by (auto simp: P_def limit_def algebra_simps)
  from mapM_exists[of "[0..<n]" _ P, OF this] obtain cells where
    cells: "mapM (\<lambda>y. if t = 0 then first_cell m r y else foldM (cell_step cexp clog m r n d t tops norms y) [0..<n] (0, 0, 0)) [0..<n] = Inr cells"
      "list_all2 P [0..<n] cells" by blast
  have len: "length cells = n" using cells(2) by (auto dest: list_all2_lengthD)
  have P: "P y (cells ! y)" if "y < n" for y using list_all2_nthD[OF cells(2), of y] that by simp
  have best: "fst (snd (cells ! y)) < n \<and> fst (cells ! y) = tops ! fst (snd (cells ! y)) + step_score m r n d t (fst (snd (cells ! y))) y \<and>
      (\<forall>x<n. tops ! x + step_score m r n d t x y \<le> fst (cells ! y)) \<and> fst (cells ! y) \<le> snd (snd (cells ! y)) \<and> snd (snd (cells ! y)) \<le> limit n B L (t + 1)"
    if "y < n" for y
    using P[OF that] by (cases "cells ! y") (simp add: P_def)
  show ?thesis
    using cells(1) len best
    by (rule_tac exI[of _ "map fst cells"], rule_tac exI[of _ "map (\<lambda>c. snd (snd c)) cells"], rule_tac exI[of _ "map (\<lambda>c. fst (snd c)) cells"])
      (simp add: token_step_def)
qed

lemma first_token:
  assumes "scores_ok m r n d B L N"
  shows "\<exists>row. token_step cexp clog m r n d 0 (tops, norms0, []) =
    Inr (map (first_score m r) [0..<n], map (first_score m r) [0..<n], [row])"
proof -
  have d: "0 < d" using assms by (simp add: scores_ok_def)
  have B: "3 * B < 2 ^ 31" "0 \<le> B" if "y < n" for y
  proof -
    show "0 \<le> B" using scores_at[OF assms d that that] by linarith
    from limit_le[OF assms d this] show "3 * B < 2 ^ 31" by linarith
  qed
  have "first_cell m r y = Inr (first_score m r y, 0, first_score m r y)" if "y < n" for y
    using scores_at[OF assms d that that] B[OF that] by (simp add: first_cell_def first_score_def add32_small)
  then have "mapM (\<lambda>y. if (0::nat) = 0 then first_cell m r y else foldM (cell_step cexp clog m r n d 0 tops norms0 y) [0..<n] (0, 0, 0)) [0..<n] =
      Inr (map (\<lambda>y. (first_score m r y, 0, first_score m r y)) [0..<n])" by (intro mapM_map) simp
  then show ?thesis
    by (intro exI[of _ "replicate n 0"])
      (simp add: token_step_def comp_def map_replicate_const)
qed

section \<open>All tokens\<close>

lemma trace_back_append: "pos < length path \<Longrightarrow> trace_back (path @ rows) pos y = trace_back path pos y"
  by (induction pos arbitrary: y) (simp_all add: nth_append)

definition best_paths :: "int list \<Rightarrow> int list \<Rightarrow> nat \<Rightarrow> nat \<Rightarrow> nat \<Rightarrow> int list \<Rightarrow> nat list list \<Rightarrow> bool" where
  "best_paths m r n d k tops path \<longleftrightarrow> length path = k \<and>
     (\<forall>ys. length ys = k \<and> set ys \<subseteq> {..<n} \<longrightarrow> label_score m r n d ys \<le> tops ! last ys) \<and>
     (\<forall>y<n. length (trace_back path (k - 1) y) = k \<and> set (trace_back path (k - 1) y) \<subseteq> {..<n} \<and>
        last (trace_back path (k - 1) y) = y \<and> label_score m r n d (trace_back path (k - 1) y) = tops ! y)"

lemma best_paths_step:
  assumes "best_paths m r n d k tops path" "0 < k"
    "\<forall>y<n. row ! y < n \<and> tops' ! y = tops ! (row ! y) + step_score m r n d k (row ! y) y \<and>
      (\<forall>x<n. tops ! x + step_score m r n d k x y \<le> tops' ! y)"
  shows "best_paths m r n d (k + 1) tops' (path @ [row])"
  unfolding best_paths_def
proof (intro conjI allI impI)
  have k: "length path = k" "k - 1 < length path" "k = Suc (k - 1)" using assms(1,2) by (simp_all add: best_paths_def)
  then show "length (path @ [row]) = k + 1" by simp
  show "label_score m r n d ys \<le> tops' ! last ys" if ys: "length ys = k + 1 \<and> set ys \<subseteq> {..<n}" for ys
  proof -
    obtain zs y where z: "ys = zs @ [y]" "length zs = k" using ys by (cases ys rule: rev_cases) auto
    then have "zs \<noteq> []" "set zs \<subseteq> {..<n}" "y < n" using ys assms(2) by auto
    then have "label_score m r n d zs \<le> tops ! last zs" "last zs < n"
      using assms(1) z(2) last_in_set[of zs] by (simp_all add: best_paths_def subset_iff)
    moreover from this have "tops ! last zs + step_score m r n d k (last zs) y \<le> tops' ! y" using assms(3) \<open>y < n\<close> by blast
    ultimately show ?thesis using label_score_snoc[OF \<open>zs \<noteq> []\<close>, of m r n d y] z by simp
  qed
  fix y assume y: "y < n"
  define zs where "zs = trace_back path (k - 1) (row ! y)"
  have "row ! y < n" using assms(3) y by blast
  then have zs: "length zs = k" "set zs \<subseteq> {..<n}" "last zs = row ! y" "label_score m r n d zs = tops ! (row ! y)" "zs \<noteq> []"
    using assms(1,2) unfolding zs_def best_paths_def by (blast, blast, blast, blast, fastforce)
  have last_row: "(path @ [row]) ! Suc (k - 1) = row" using k by (simp add: nth_append)
  have "trace_back (path @ [row]) (Suc (k - 1)) y = zs @ [y]"
    unfolding trace_back.simps last_row trace_back_append[OF k(2)] zs_def ..
  then have tr: "trace_back (path @ [row]) (k + 1 - 1) y = zs @ [y]" using k(3) by simp
  show "length (trace_back (path @ [row]) (k + 1 - 1) y) = k + 1" "set (trace_back (path @ [row]) (k + 1 - 1) y) \<subseteq> {..<n}"
    "last (trace_back (path @ [row]) (k + 1 - 1) y) = y"
    unfolding tr using zs y by auto
  show "label_score m r n d (trace_back (path @ [row]) (k + 1 - 1) y) = tops' ! y"
    unfolding tr using label_score_snoc[OF zs(5), of m r n d y] zs assms(3) y by simp
qed

lemma tokens_best:
  assumes "scores_ok m r n d B L N" "conversions_ok cexp clog L N" "0 < k" "k \<le> d"
  shows "\<exists>tops norms path. foldM (token_step cexp clog m r n d) [0..<k] (replicate n 0, replicate n 0, []) = Inr (tops, norms, path) \<and>
    length tops = n \<and> length norms = n \<and> (\<forall>x<n. 0 < tops ! x \<and> tops ! x \<le> norms ! x \<and> norms ! x \<le> limit n B L k) \<and> best_paths m r n d k tops path"
  using assms(3,4)
proof (induction k)
  case (Suc k)
  show ?case
  proof (cases "k = 0")
    case True
    obtain row where tok: "token_step cexp clog m r n d 0 (replicate n 0, replicate n 0, []) =
        Inr (map (first_score m r) [0..<n], map (first_score m r) [0..<n], [row])"
      using first_token[OF assms(1)] by blast
    have d: "0 < d" using Suc.prems by simp
    have "0 < first_score m r x \<and> first_score m r x \<le> limit n B L 1" if "x < n" for x
    proof -
      have "0 \<le> L * int n" using assms(1) by (simp add: scores_ok_def)
      with scores_at[OF assms(1) d that that] show ?thesis unfolding limit_def first_score_def by simp
    qed
    moreover have "best_paths m r n d 1 (map (first_score m r) [0..<n]) [row]"
      by (auto simp: best_paths_def label_score_def length_Suc_conv)
    ultimately show ?thesis using tok True by (intro exI) auto
  next
    case False
    then obtain tops norms path where IH: "foldM (token_step cexp clog m r n d) [0..<k] (replicate n 0, replicate n 0, []) = Inr (tops, norms, path)"
      "length tops = n" "length norms = n" "\<forall>x<n. 0 < tops ! x \<and> tops ! x \<le> norms ! x \<and> norms ! x \<le> limit n B L k" "best_paths m r n d k tops path"
      using Suc by auto
    have k: "0 < k" "k < d" using False Suc.prems by simp_all
    obtain tops' norms' row where tok: "token_step cexp clog m r n d k (tops, norms, path) = Inr (tops', norms', path @ [row])"
      "length tops' = n" "length norms' = n"
      and row: "\<forall>y<n. row ! y < n \<and> tops' ! y = tops ! (row ! y) + step_score m r n d k (row ! y) y \<and>
        (\<forall>x<n. tops ! x + step_score m r n d k x y \<le> tops' ! y)"
      and norms: "\<forall>y<n. tops' ! y \<le> norms' ! y \<and> norms' ! y \<le> limit n B L (k + 1)"
      using token_step_best[OF assms(1,2) k IH(2,3,4), of path] by blast
    have "0 < tops' ! y" if "y < n" for y
    proof -
      have x: "row ! y < n" "tops' ! y = tops ! (row ! y) + step_score m r n d k (row ! y) y" using row that by blast+
      then have "0 < tops ! (row ! y)" using IH(4) by blast
      with x(2) step_score_bounds[OF assms(1) k(2) that x(1)] show ?thesis by simp
    qed
    moreover have "best_paths m r n d (Suc k) tops' (path @ [row])" using best_paths_step[OF IH(5) k(1) row] by simp
    ultimately show ?thesis using IH(1) tok norms by (intro exI) (auto simp: foldM_append)
  qed
qed simp

lemma last_label_max:
  assumes "\<forall>x<length tops. 0 < tops ! x" "tops \<noteq> []"
  shows "snd (last_label tops) < length tops \<and> fst (last_label tops) = tops ! snd (last_label tops) \<and> (\<forall>x<length tops. tops ! x \<le> tops ! snd (last_label tops))"
proof -
  let ?f = "\<lambda>label (maxscore, top1label). if tops ! label > maxscore then (tops ! label, label) else (maxscore, top1label)"
  have "(case fold ?f [0..<j] (0, 0) of (mx, l) \<Rightarrow> (if j = 0 then mx = 0 else l < j \<and> mx = tops ! l) \<and> (\<forall>x<j. tops ! x \<le> mx))"
    if "j \<le> length tops" for j
    using that
  proof (induction j)
    case (Suc j)
    obtain mx l where st: "fold ?f [0..<j] (0, 0) = (mx, l)" by fastforce
    with Suc have IH: "if j = 0 then mx = 0 else l < j \<and> mx = tops ! l" "\<forall>x<j. tops ! x \<le> mx" by auto
    have "0 < tops ! j" using assms(1) Suc.prems by simp
    then have "0 < j" if "\<not> mx < tops ! j" using that IH(1) by (cases "j = 0") (simp_all del: not_less)
    then show ?case
      using IH st by (cases "mx < tops ! j") (auto simp: less_Suc_eq intro: order.trans less_imp_le)
  qed simp
  from this[of "length tops"] show ?thesis
    using assms(2) by (auto simp: last_label_def split: prod.splits)
qed

lemma norm_factor_returns:
  assumes "conversions_ok cexp clog L N" "N < 2 ^ 31" "0 \<le> L"
  shows "\<forall>x\<in>set (c # cs). 0 \<le> x \<and> x \<le> M \<Longrightarrow> M + L * int (length cs) \<le> N \<Longrightarrow>
    \<exists>x. norm_factor cexp clog cs c = Inr x \<and> (\<forall>y\<in>set (c # cs). y \<le> x) \<and> x \<le> M + L * int (length cs)"
proof (induction cs arbitrary: c M)
  case (Cons a cs)
  have "0 \<le> L * int (length cs)" using assms(3) by simp
  then have "max c a + L \<le> N" using Cons.prems by (auto simp: algebra_simps)
  then obtain c' where c': "rbind (log_term cexp clog (to_int32 (c - a))) (\<lambda>z. Inr (add32 (min a c) z)) = Inr c'"
    "max c a \<le> c'" "c' \<le> max c a + L"
    using norm_step[OF assms(1,2), of c a] Cons.prems(1) assms(3) by auto
  then obtain z where z: "log_term cexp clog (to_int32 (c - a)) = Inr z" "add32 (min a c) z = c'"
    by (cases "log_term cexp clog (to_int32 (c - a))") auto
  obtain x where x: "norm_factor cexp clog cs c' = Inr x" "\<forall>y\<in>set (c' # cs). y \<le> x" "x \<le> M + L + L * int (length cs)"
    using Cons.IH[of c' "M + L"] Cons.prems c'(2,3) assms(3) by (fastforce simp: algebra_simps)
  then show ?case using z c'(2) by (auto simp: algebra_simps)
qed auto

section \<open>Property\<close>

text \<open>
  C20: When all state scores (of \<open>rArray\<close>) are positive and no edge score (of \<open>mArray\<close>) is negative, and the sums of the scores stay
  in the range where \<open>exp\<close> is finite, the function returns a sequence of one label for each token whose score is the
  highest of all label sequences.  The score of a sequence adds the start feature and the state score of the first label,
  for every later token its state score and the edge score, and for the last token the end feature if there are two tokens or more: a
  sentence of one token never fires its end feature.  (Scores that are not positive can leave the path at label 0.)
\<close>

theorem viterbi_optimal:
  assumes "scores_ok mArray rArray nlabel doclen B L N" "conversions_ok cexp clog L N"
  shows "\<exists>labels p. vcrf_top1_label cexp clog mArray rArray nlabel = Inr (labels, p) \<and>
    length labels = doclen \<and> set labels \<subseteq> {..<nlabel} \<and>
    (\<forall>ys. length ys = doclen \<and> set ys \<subseteq> {..<nlabel} \<longrightarrow>
       label_score mArray rArray nlabel doclen ys \<le> label_score mArray rArray nlabel doclen labels)"
proof -
  have sizes: "0 < nlabel" "0 < doclen" "length rArray div nlabel = doclen" using assms(1) by (auto simp: scores_ok_def)
  obtain tops norms path where run: "foldM (token_step cexp clog mArray rArray nlabel doclen) [0..<doclen]
      (replicate nlabel 0, replicate nlabel 0, []) = Inr (tops, norms, path)"
    "length tops = nlabel" "length norms = nlabel" "best_paths mArray rArray nlabel doclen doclen tops path"
    and bounds: "\<forall>x<nlabel. 0 < tops ! x \<and> tops ! x \<le> norms ! x \<and> norms ! x \<le> limit nlabel B L doclen"
    using tokens_best[OF assms sizes(2) order.refl] by blast
  define l where "l = snd (last_label tops)"
  have "tops \<noteq> []" using sizes(1) run(2) by auto
  then have l: "l < nlabel" "\<forall>x<nlabel. tops ! x \<le> tops ! l" "last_label tops = (tops ! l, l)"
    using last_label_max[of tops] run(2) bounds by (simp_all add: l_def prod_eq_iff)
  define labels where "labels = trace_back path (doclen - 1) l"
  have labels: "length labels = doclen" "set labels \<subseteq> {..<nlabel}" "label_score mArray rArray nlabel doclen labels = tops ! l"
    using run(4) l(1) by (simp_all add: best_paths_def labels_def)
  have best: "label_score mArray rArray nlabel doclen ys \<le> label_score mArray rArray nlabel doclen labels"
    if "length ys = doclen \<and> set ys \<subseteq> {..<nlabel}" for ys
  proof -
    have "last ys < nlabel" using that sizes(2) last_in_set[of ys] by fastforce
    then show ?thesis using run(4) that l(2) labels(3) by (auto simp: best_paths_def intro: order.trans)
  qed
  have LN: "0 \<le> L" "N < 2 ^ 31" "limit nlabel B L doclen + L * int nlabel \<le> N"
    using assms(1) by (simp_all add: scores_ok_def limit_def)
  obtain c cs where norms: "norms = c # cs" using run(3) sizes(1) by (cases norms) auto
  have "L * int (length cs) \<le> L * int nlabel" using LN(1) norms run(3) by (intro mult_left_mono) auto
  moreover have "\<forall>x\<in>set norms. 0 \<le> x \<and> x \<le> limit nlabel B L doclen"
    using bounds run(3) by (fastforce simp: in_set_conv_nth)
  ultimately obtain norm where norm: "norm_factor cexp clog cs c = Inr norm" "\<forall>y\<in>set norms. y \<le> norm" "norm \<le> N"
    using norm_factor_returns[OF assms(2) LN(2,1), of c cs "limit nlabel B L doclen"] LN(3) unfolding norms by force
  have "norms ! l \<in> set norms" using l(1) run(3) by simp
  then have d: "tops ! l - norm \<in> {- N..0}" using bounds l(1) norm(2,3) by fastforce
  then have "to_int32 (tops ! l - norm) = tops ! l - norm" using LN(2) by simp
  with d obtain p where "f64_to_int (f64_mul (cexp (f64_div (f64_of_int (to_int32 (tops ! l - norm))) f64_1000)) f64_1000000) = Inr p"
    using assms(2) unfolding conversions_ok_def by metis
  then have "vcrf_top1_label cexp clog mArray rArray nlabel = Inr (labels, p)"
    using sizes run(1) norm(1) norms l(3) by (simp add: vcrf_top1_label_def Let_def labels_def)
  with labels(1,2) best show ?thesis by blast
qed

text \<open>Functions that are exact enough for small scores.\<close>

definition near_exp :: "float8 \<Rightarrow> float8" where "near_exp x = x"
definition near_log :: "float8 \<Rightarrow> float8" where "near_log x = f64_sub x f64_one"

lemma near_log_term:
  "log_term near_exp near_log 0 = Inr 0" "log_term near_exp near_log 1 = Inr 1" "log_term near_exp near_log 2 = Inr 2"
  "log_term near_exp near_log 3 = Inr 3" "log_term near_exp near_log 4 = Inr 4" "log_term near_exp near_log 5 = Inr 5"
  "log_term near_exp near_log 6 = Inr 6"
  by (code_simp, code_simp, code_simp, code_simp, code_simp, code_simp, code_simp)

lemma near_probability:
  "f64_to_int (f64_mul (near_exp (f64_div (f64_of_int (- 6)) f64_1000)) f64_1000000) = Inr (- 6000)"
  "f64_to_int (f64_mul (near_exp (f64_div (f64_of_int (- 5)) f64_1000)) f64_1000000) = Inr (- 5000)"
  "f64_to_int (f64_mul (near_exp (f64_div (f64_of_int (- 4)) f64_1000)) f64_1000000) = Inr (- 4000)"
  "f64_to_int (f64_mul (near_exp (f64_div (f64_of_int (- 3)) f64_1000)) f64_1000000) = Inr (- 3000)"
  "f64_to_int (f64_mul (near_exp (f64_div (f64_of_int (- 2)) f64_1000)) f64_1000000) = Inr (- 2000)"
  "f64_to_int (f64_mul (near_exp (f64_div (f64_of_int (- 1)) f64_1000)) f64_1000000) = Inr (- 1000)"
  "f64_to_int (f64_mul (near_exp (f64_div (f64_of_int 0) f64_1000)) f64_1000000) = Inr 0"
  by (code_simp, code_simp, code_simp, code_simp, code_simp, code_simp, code_simp)

lemma small_ranges:
  "[0..6] = [0, 1, 2, 3, 4, 5, 6 :: int]" "[- 6..0] = [- 6, - 5, - 4, - 3, - 2, - 1, 0 :: int]"
  by (code_simp, code_simp)

lemma near_conversions: "conversions_ok near_exp near_log 0 6"
proof -
  have log: "\<forall>d\<in>set [0..6]. log_term near_exp near_log d = Inr d" unfolding small_ranges by (simp add: near_log_term)
  have "log_term near_exp near_log d = Inr \<bar>d\<bar>" if "d \<in> {- 6..6}" for d
  proof -
    have "\<bar>d\<bar> \<in> set [0..6]" using that by auto
    with log have "log_term near_exp near_log \<bar>d\<bar> = Inr \<bar>d\<bar>" by blast
    then show ?thesis unfolding log_term_def abs_idempotent .
  qed
  moreover have "\<forall>d\<in>set [- 6..0]. f64_to_int (f64_mul (near_exp (f64_div (f64_of_int d) f64_1000)) f64_1000000) = Inr (1000 * d)"
    unfolding small_ranges by (simp add: near_probability)
  ultimately show ?thesis unfolding conversions_ok_def set_upto by auto
qed

lemma viterbi_optimal_witness:
  "\<exists>labels p. vcrf_top1_label near_exp near_log [1, 0, 1, 0, 0, 1, 1, 1] [1, 1, 1, 1] 2 = Inr (labels, p) \<and> length labels = 2 \<and>
     label_score [1, 0, 1, 0, 0, 1, 1, 1] [1, 1, 1, 1] 2 2 [1, 1] \<le> label_score [1, 0, 1, 0, 0, 1, 1, 1] [1, 1, 1, 1] 2 2 labels"
proof -
  have "scores_ok [1, 0, 1, 0, 0, 1, 1, 1] [1, 1, 1, 1] 2 2 1 0 6" by (simp add: scores_ok_def)
  from viterbi_optimal[OF this near_conversions] show ?thesis by fastforce
qed

end
