(* ===== verification/Sfv.thy ===== *)
theory Sfv
  imports SvecOps
begin

text \<open>
  Feature vectors of documents, \<open>methods/svec/src/pg_gp/gp_sfv.c\<close>: the words of a document are counted
  at their positions in a sorted dictionary.  \<open>strcoll\<close> of the C library, which depends on the
  locale of the server, is a parameter.
\<close>

section \<open>Arrays of texts\<close>

text \<open>
  An array of the server: the type of its elements is \<open>text\<close> or not, its dimensions, the bitmap
  of the elements that are not NULL (when there is one), and the texts that are not NULL.
\<close>

record text_array =
  is_text :: bool
  dims :: "nat list"
  bitmap :: "byte list option"
  data :: "string list"

definition ArrayGetNItems :: "text_array \<Rightarrow> nat" where
  "ArrayGetNItems a = (if dims a = [] then 0 else prod_list (dims a))"

definition ARR_HASNULL :: "text_array \<Rightarrow> bool" where
  "ARR_HASNULL a \<longleftrightarrow> bitmap a \<noteq> None"

text \<open>The loop over the items; the bitmap is the part from the current byte on.\<close>

fun contents_loop :: "nat \<Rightarrow> byte list option \<Rightarrow> int \<Rightarrow> string list \<Rightarrow> string option list res" where
  "contents_loop 0 bm bitmask ptr = Inr []"
| "contents_loop (Suc n) bm bitmask ptr =
     rbind (case bm of None \<Rightarrow> Inr False
            | Some bs \<Rightarrow> rbind (nth_res bs 0) (\<lambda>b. Inr (uint b AND bitmask = 0))) (\<lambda>null.
     rbind (if null then Inr (None, ptr)
            else rbind (nth_res ptr 0) (\<lambda>s. Inr (Some s, tl ptr))) (\<lambda>(v, ptr).
     let (bm, bitmask) =
           (case bm of None \<Rightarrow> (None, bitmask)
            | Some bs \<Rightarrow> if push_bit 1 bitmask = 0x100 then (Some (tl bs), 1) else (Some bs, push_bit 1 bitmask))
     in rbind (contents_loop n bm bitmask ptr) (\<lambda>vs. Inr (v # vs))))"

text \<open>The items, NULL pointers for NULL; for elements of another type the result is a NULL pointer.\<close>

definition get_text_array_contents :: "text_array \<Rightarrow> string option list option res" where
  "get_text_array_contents a =
     (if \<not> is_text a then Inr None
      else rbind (contents_loop (ArrayGetNItems a) (bitmap a) 1 (data a)) (\<lambda>vs. Inr (Some vs)))"

text \<open>The items behind the pointer; there are none behind a NULL pointer.\<close>

definition items :: "string option list option \<Rightarrow> string option list" where
  "items p = (case p of None \<Rightarrow> [] | Some vs \<Rightarrow> vs)"

section \<open>Counting\<close>

text \<open>\<open>strcoll\<close> of a NULL pointer is undefined.\<close>

definition collate :: "(string \<Rightarrow> string \<Rightarrow> int) \<Rightarrow> string option \<Rightarrow> string option \<Rightarrow> int res" where
  "collate strcoll x y =
     (case (x, y) of (Some s, Some t) \<Rightarrow> Inr (strcoll s t) | _ \<Rightarrow> Inl Undefined)"

text \<open>The loop of \<open>str_bsearch\<close>; its result \<open>-5\<close> means that the word is not there.\<close>

function bsearch_loop ::
    "(string \<Rightarrow> string \<Rightarrow> int) \<Rightarrow> string option \<Rightarrow> string option list \<Rightarrow> int \<Rightarrow> int \<Rightarrow> int res" where
  "bsearch_loop strcoll word features low high =
     (if low > high then Inr (- 5)
      else let mid = low + (high - low) div 2
           in rbind (nth_res features mid) (\<lambda>f.
              rbind (collate strcoll word f) (\<lambda>cmp_result.
                if cmp_result = 0 then Inr mid
                else if cmp_result > 0 then bsearch_loop strcoll word features (mid + 1) high
                else bsearch_loop strcoll word features low (mid - 1))))"
  by pat_completeness auto
termination by (relation "measure (\<lambda>(_, _, _, low, high). nat (high - low + 1))") auto

definition str_bsearch ::
    "(string \<Rightarrow> string \<Rightarrow> int) \<Rightarrow> string option \<Rightarrow> string option list \<Rightarrow> int \<Rightarrow> int res" where
  "str_bsearch strcoll word features num_features = bsearch_loop strcoll word features 0 (num_features - 1)"

definition count_word ::
    "(string \<Rightarrow> string \<Rightarrow> int) \<Rightarrow> string option list \<Rightarrow> int \<Rightarrow> string option \<Rightarrow> float8 list \<Rightarrow> float8 list res" where
  "count_word strcoll features num_features word histogram =
     (if word = None then Inr histogram
      else rbind (str_bsearch strcoll word features num_features) (\<lambda>idx.
        if idx \<ge> 0 then rbind (nth_res histogram idx) (\<lambda>h. upd_res histogram idx (f64_add h f64_one))
        else Inr histogram))"

definition classify_document ::
    "(string \<Rightarrow> string \<Rightarrow> int) \<Rightarrow> string option list \<Rightarrow> nat \<Rightarrow> string option list \<Rightarrow> nat \<Rightarrow> svec res" where
  "classify_document strcoll features num_features document num_words =
     rbind (foldM (\<lambda>i histogram. rbind (nth_res document (int i)) (\<lambda>word.
         count_word strcoll features (int num_features) word histogram))
       [0..<num_words] (replicate num_features f64_zero)) (\<lambda>histogram.
     svec_from_float8arr histogram (int num_features))"

text \<open>The check that every word of the dictionary precedes the following one.\<close>

definition check_order :: "(string \<Rightarrow> string \<Rightarrow> int) \<Rightarrow> string option list \<Rightarrow> nat \<Rightarrow> unit res" where
  "check_order strcoll features num_features =
     foldM (\<lambda>i _. rbind (nth_res features (int i)) (\<lambda>x. rbind (nth_res features (int (i + 1))) (\<lambda>y.
         rbind (collate strcoll x y) (\<lambda>result.
         if result > 0 then Inl (Report ''Dictionary is unsorted'')
         else if result = 0 then Inl (Report ''Dictionary has duplicated word'')
         else Inr ()))))
       [0..<num_features - 1] ()"

text \<open>
  The function of SQL, with the number of its arguments.  A NULL second argument is used as an
  array without a test, and \<open>pfree\<close> is called with the NULL pointers of arrays of another type.
\<close>

definition gp_extract_feature_histogram ::
    "(string \<Rightarrow> string \<Rightarrow> int) \<Rightarrow> nat \<Rightarrow> text_array option \<Rightarrow> text_array option \<Rightarrow> svec option res" where
  "gp_extract_feature_histogram strcoll nargs arg0 arg1 =
     (case arg0 of None \<Rightarrow> Inr None
      | Some arr0 \<Rightarrow>
       rbind (check (nargs = 2) ''wrong number of arguments'') (\<lambda>_.
       case arg1 of None \<Rightarrow> Inl Undefined
       | Some arr1 \<Rightarrow>
         rbind (check (\<not> ARR_HASNULL arr0) ''dictionary argument contains a null entry'') (\<lambda>_.
         rbind (check (dims arr0 \<noteq> []) ''dictionary argument is empty'') (\<lambda>_.
         rbind (get_text_array_contents arr0) (\<lambda>features.
         rbind (get_text_array_contents arr1) (\<lambda>document.
         rbind (check_order strcoll (items features) (length (items features))) (\<lambda>_.
         rbind (classify_document strcoll (items features) (length (items features))
                  (items document) (length (items document))) (\<lambda>sv.
         rbind (guard_mem (features \<noteq> None \<and> document \<noteq> None)) (\<lambda>_. Inr (Some sv))))))))))"

end
