(* ===== verification/SfvFacts.thy ===== *)
theory SfvFacts
  imports Sfv SvecFacts Float64Exact
begin

text \<open>
  Binary search with a comparison function, the contents of an array of texts, and the histogram
  of \<open>gp_extract_feature_histogram\<close>.
\<close>

section \<open>Doubles\<close>

lemma zero_val: "f64_finite f64_zero" "f64_val f64_zero = 0"
  by (simp_all add: f64_finite_def f64_val_def f64_zero_def f64_mag_def f64_unpack_def f64_inf_bits_def)

lemma one_val: "f64_finite f64_one" "f64_val f64_one = 1"
proof -
  have "f64_one = f64_of_int 1" by code_simp
  then show "f64_finite f64_one" "f64_val f64_one = 1" using f64_of_int_exact[of 1] by simp_all
qed

section \<open>Arrays of texts\<close>

text \<open>The array holds the given items, NULLs as \<open>None\<close>; bit \<open>i\<close> of the bitmap is set for an item that is not NULL.\<close>

definition text_array_holds :: "text_array \<Rightarrow> string option list \<Rightarrow> bool" where
  "text_array_holds a its \<longleftrightarrow>
     is_text a \<and> ArrayGetNItems a = length its \<and> data a = map the (filter (\<lambda>x. x \<noteq> None) its) \<and>
     (case bitmap a of None \<Rightarrow> None \<notin> set its
      | Some bs \<Rightarrow> length its \<le> 8 * length bs \<and> (\<forall>i<length its. bit (bs ! (i div 8)) (i mod 8) \<longleftrightarrow> its ! i \<noteq> None))"

lemma contents_without_nulls:
  "None \<notin> set its \<Longrightarrow> contents_loop (length its) None m (map the (filter (\<lambda>x. x \<noteq> None) its)) = Inr its"
proof (induction its)
  case (Cons x its)
  then show ?case using nth_res_Inr[of 0 "map the (filter (\<lambda>x. x \<noteq> None) (x # its))"] by (cases x) auto
qed simp

lemma contents_with_nulls:
  assumes "length its \<le> 8 * length bs" "\<forall>i<length its. bit (bs ! (i div 8)) (i mod 8) \<longleftrightarrow> its ! i \<noteq> None" "i \<le> length its"
  shows "contents_loop (length its - i) (Some (drop (i div 8) bs)) (2 ^ (i mod 8)) (map the (filter (\<lambda>x. x \<noteq> None) (drop i its))) =
    Inr (drop i its)"
  using assms(3)
proof (induction "length its - i" arbitrary: i)
  case (Suc n)
  then have i: "i < length its" "length its - i = Suc (length its - (i + 1))" by simp_all
  then have byte: "i div 8 < length bs" using assms(1) by linarith
  then have read: "nth_res (drop (i div 8) bs) 0 = Inr (bs ! (i div 8))" using nth_res_Inr[of 0 "drop (i div 8) bs"] by simp
  have null: "uint (bs ! (i div 8)) AND 2 ^ (i mod 8) = 0 \<longleftrightarrow> its ! i = None"
    using assms(2) i(1) by (auto simp: and_exp_eq_0_iff_not_bit bit_uint_iff)
  have items: "drop i its = its ! i # drop (i + 1) its" using i(1) by (simp add: Cons_nth_drop_Suc)
  have data: "(if its ! i = None then Inr (None, map the (filter (\<lambda>x. x \<noteq> None) (drop i its)))
      else rbind (nth_res (map the (filter (\<lambda>x. x \<noteq> None) (drop i its))) 0)
        (\<lambda>s. Inr (Some s, tl (map the (filter (\<lambda>x. x \<noteq> None) (drop i its)))))) =
      Inr (its ! i, map the (filter (\<lambda>x. x \<noteq> None) (drop (i + 1) its)))"
    unfolding items using nth_res_Inr[of 0 "the (its ! i) # map the (filter (\<lambda>x. x \<noteq> None) (drop (i + 1) its))"] by auto
  have mask: "(if push_bit 1 (2 ^ (i mod 8)) = (0x100 :: int) then (Some (tl (drop (i div 8) bs)), 1)
      else (Some (drop (i div 8) bs), push_bit 1 (2 ^ (i mod 8)))) = (Some (drop ((i + 1) div 8) bs), 2 ^ ((i + 1) mod 8) :: int)"
  proof (cases "i mod 8 = 7")
    case True
    then have "(i + 1) div 8 = Suc (i div 8)" "(i + 1) mod 8 = 0" by presburger+
    with True show ?thesis by (simp add: push_bit_eq_mult drop_Suc tl_drop)
  next
    case False
    then have next_bit: "(i + 1) div 8 = i div 8" "(i + 1) mod 8 = i mod 8 + 1" "i mod 8 + 1 < 8" by presburger+
    have "2 ^ (i mod 8 + 1) < (2 ^ 8 :: int)" using next_bit(3) by (intro power_strict_increasing) simp_all
    then have "2 * 2 ^ (i mod 8) \<noteq> (0x100 :: int)" by simp
    with next_bit show ?thesis by (simp add: push_bit_eq_mult)
  qed
  have "contents_loop (length its - (i + 1)) (Some (drop ((i + 1) div 8) bs)) (2 ^ ((i + 1) mod 8))
      (map the (filter (\<lambda>x. x \<noteq> None) (drop (i + 1) its))) = Inr (drop (i + 1) its)"
    using Suc by (intro Suc.hyps(1)) simp_all
  then show ?case
    unfolding i(2) contents_loop.simps option.case read rbind.simps null data prod.case mask Let_def unfolding items by simp
qed simp

lemma text_array_contents:
  assumes "text_array_holds a its"
  shows "get_text_array_contents a = Inr (Some its)"
proof (cases "bitmap a")
  case None
  then show ?thesis
    using assms contents_without_nulls[of its 1] by (simp add: text_array_holds_def get_text_array_contents_def)
next
  case (Some bs)
  then show ?thesis
    using assms contents_with_nulls[of its bs 0] by (simp add: text_array_holds_def get_text_array_contents_def)
qed

section \<open>Comparison functions\<close>

text \<open>The numbers of words that compare equal to each entry of the dictionary, as doubles.\<close>

definition word_counts :: "(string \<Rightarrow> string \<Rightarrow> int) \<Rightarrow> string list \<Rightarrow> string option list \<Rightarrow> float8 list \<Rightarrow> bool" where
  "word_counts coll ws doc h \<longleftrightarrow> length h = length ws \<and>
     (\<forall>i<length ws. f64_finite (h ! i) \<and>
        f64_val (h ! i) = real (length (filter (\<lambda>x. x \<noteq> None \<and> coll (the x) (ws ! i) = 0) doc)))"

text \<open>What the code relies on of \<open>strcoll\<close>: its sign is that of a total order of the strings.\<close>

locale collation =
  fixes coll :: "string \<Rightarrow> string \<Rightarrow> int"
  assumes opposite: "coll x y < 0 \<longleftrightarrow> 0 < coll y x"
    and trans: "coll x y \<le> 0 \<Longrightarrow> coll y z \<le> 0 \<Longrightarrow> coll x z \<le> 0"
begin

lemma swap_zero: "coll x y = 0 \<longleftrightarrow> coll y x = 0"
  using opposite[of x y] opposite[of y x] by linarith

lemma less_trans: "coll x y < 0 \<Longrightarrow> coll y z < 0 \<Longrightarrow> coll x z < 0"
proof -
  assume xy: "coll x y < 0" and yz: "coll y z < 0"
  have "coll x z \<le> 0" using trans[of x y z] xy yz by simp
  moreover have "coll x z \<noteq> 0"
  proof
    assume "coll x z = 0"
    then have "coll z y \<le> 0" using trans[of z x y] xy swap_zero[of x z] by simp
    then show False using yz opposite[of y z] by linarith
  qed
  ultimately show ?thesis by linarith
qed

text \<open>In a list that is sorted strictly, at most one element compares equal to a given one.\<close>

lemma after_match: "coll w x = 0 \<Longrightarrow> coll x y < 0 \<Longrightarrow> coll w y < 0"
proof -
  assume wx: "coll w x = 0" and xy: "coll x y < 0"
  have "coll w y \<le> 0" using trans[of w x y] wx xy by simp
  moreover have "coll w y \<noteq> 0"
  proof
    assume "coll w y = 0"
    then have "coll y x \<le> 0" using trans[of y w x] wx swap_zero[of w y] by simp
    then show False using xy opposite[of x y] by linarith
  qed
  ultimately show ?thesis by linarith
qed

lemma greater_trans: "0 < coll w x \<Longrightarrow> coll y x \<le> 0 \<Longrightarrow> 0 < coll w y"
proof -
  assume wx: "0 < coll w x" and yx: "coll y x \<le> 0"
  have "\<not> coll w y \<le> 0" using trans[of w y x] wx yx by linarith
  then show ?thesis by linarith
qed

lemma sorted_from_neighbours:
  "\<forall>i<length xs - 1. coll (xs ! i) (xs ! (i + 1)) < 0 \<Longrightarrow> sorted_wrt (\<lambda>x y. coll x y < 0) xs"
proof (induction xs rule: induct_list012)
  case (3 x y zs)
  have "\<forall>i<length (y # zs) - 1. coll ((y # zs) ! i) ((y # zs) ! (i + 1)) < 0"
    using 3(3) by (metis Suc_eq_plus1 diff_Suc_1 length_Cons less_diff_conv nth_Cons_Suc)
  then have sorted: "sorted_wrt (\<lambda>x y. coll x y < 0) (y # zs)" by (rule 3(2))
  have "coll x y < 0" using 3(3) by (metis One_nat_def diff_Suc_1 length_Cons nth_Cons_0 nth_Cons_Suc plus_1_eq_Suc zero_less_Suc add.commute)
  with sorted less_trans[of x y] show ?case by auto
qed simp_all

text \<open>The binary search, from the invariant of its loop.\<close>

lemma bsearch_loop_correct:
  assumes "sorted_wrt (\<lambda>x y. coll x y < 0) ws" "0 \<le> low" "high < int (length ws)"
    "\<forall>i<length ws. (int i < low \<longrightarrow> 0 < coll w (ws ! i)) \<and> (high < int i \<longrightarrow> coll w (ws ! i) < 0)"
  shows "\<exists>r. bsearch_loop coll (Some w) (map Some ws) low high = Inr r \<and>
    (r = - 5 \<and> (\<forall>i<length ws. coll w (ws ! i) \<noteq> 0) \<or> (\<exists>i<length ws. r = int i \<and> coll w (ws ! i) = 0))"
  using assms
proof (induction "nat (high - low + 1)" arbitrary: low high rule: less_induct)
  case less
  show ?case
  proof (cases "low > high")
    case True
    have "coll w (ws ! i) \<noteq> 0" if "i < length ws" for i
      using less.prems(4) that True by (cases "int i < low") fastforce+
    then show ?thesis using True by simp
  next
    case False
    define m where "m = nat (low + (high - low) div 2)"
    have m: "low + (high - low) div 2 = int m" "low \<le> int m" "int m \<le> high" "m < length ws"
      using False less.prems(2,3) by (auto simp: m_def)
    have loop: "bsearch_loop coll (Some w) (map Some ws) low high =
        (let c = coll w (ws ! m) in
         if c = 0 then Inr (int m)
         else if 0 < c then bsearch_loop coll (Some w) (map Some ws) (int m + 1) high
         else bsearch_loop coll (Some w) (map Some ws) low (int m - 1))"
      unfolding bsearch_loop.simps[of coll "Some w" "map Some ws" low high] m(1) Let_def
      using False m(4) by (simp add: collate_def)
    have sorted: "coll (ws ! i) (ws ! j) < 0" if "i < j" "j < length ws" for i j
      using less.prems(1) that by (simp add: sorted_wrt_iff_nth_less)
    consider "coll w (ws ! m) = 0" | "0 < coll w (ws ! m)" | "coll w (ws ! m) < 0" by linarith
    then show ?thesis
    proof cases
      case 1
      then show ?thesis using loop m(4) by (auto simp: Let_def)
    next
      case 2
      have "0 < coll w (ws ! i)" if "i < length ws" "int i < int m + 1" for i
        using greater_trans[OF 2, of "ws ! i"] sorted[of i m] 2 m(4) that by (cases "i = m") auto
      then have inv: "\<forall>i<length ws. (int i < int m + 1 \<longrightarrow> 0 < coll w (ws ! i)) \<and> (high < int i \<longrightarrow> coll w (ws ! i) < 0)"
        using less.prems(4) by blast
      have "nat (high - (int m + 1) + 1) < nat (high - low + 1)" using m False by linarith
      from less.hyps[OF this less.prems(1) _ less.prems(3) inv] show ?thesis using loop 2 by (simp add: Let_def)
    next
      case 3
      have "coll w (ws ! i) < 0" if "i < length ws" "int m - 1 < int i" for i
        using less_trans[OF 3, of "ws ! i"] sorted[of m i] 3 that by (cases "i = m") auto
      then have inv: "\<forall>i<length ws. (int i < low \<longrightarrow> 0 < coll w (ws ! i)) \<and> (int m - 1 < int i \<longrightarrow> coll w (ws ! i) < 0)"
        using less.prems(4) by blast
      have "nat (int m - 1 - low + 1) < nat (high - low + 1)" "int m - 1 < int (length ws)" using m False by linarith+
      from less.hyps[OF this(1) less.prems(1,2) this(2) inv] show ?thesis using loop 3 by (simp add: Let_def)
    qed
  qed
qed

lemma str_bsearch_correct:
  assumes "sorted_wrt (\<lambda>x y. coll x y < 0) ws"
  shows "\<exists>r. str_bsearch coll (Some w) (map Some ws) (int (length ws)) = Inr r \<and>
    (r = - 5 \<and> (\<forall>i<length ws. coll w (ws ! i) \<noteq> 0) \<or> (\<exists>i<length ws. r = int i \<and> coll w (ws ! i) = 0))"
  unfolding str_bsearch_def using bsearch_loop_correct[OF assms, of 0 "int (length ws) - 1" w] by auto

lemma match_unique:
  assumes "sorted_wrt (\<lambda>x y. coll x y < 0) ws" "i < length ws" "j < length ws" "coll w (ws ! i) = 0" "coll w (ws ! j) = 0"
  shows "i = j"
proof -
  have sorted: "coll (ws ! i) (ws ! j) < 0" if "i < j" "j < length ws" for i j
    using assms(1) that by (simp add: sorted_wrt_iff_nth_less)
  show ?thesis
    using sorted[of i j] sorted[of j i] after_match[of w "ws ! i" "ws ! j"] after_match[of w "ws ! j" "ws ! i"] assms(2-5)
    by (cases i j rule: linorder_cases) auto
qed

section \<open>The histogram\<close>

lemma count_word_step:
  assumes "sorted_wrt (\<lambda>x y. coll x y < 0) ws" "word_counts coll ws doc h" "int (length doc) + 1 < 2 ^ 53"
  shows "\<exists>h'. count_word coll (map Some ws) (int (length ws)) x h = Inr h' \<and> word_counts coll ws (doc @ [x]) h'"
proof (cases x)
  case None
  then show ?thesis using assms(2) by (auto simp: count_word_def word_counts_def)
next
  case (Some w)
  have len: "length h = length ws" using assms(2) by (simp add: word_counts_def)
  obtain r where r: "str_bsearch coll (Some w) (map Some ws) (int (length ws)) = Inr r"
    "r = - 5 \<and> (\<forall>i<length ws. coll w (ws ! i) \<noteq> 0) \<or> (\<exists>i<length ws. r = int i \<and> coll w (ws ! i) = 0)"
    using str_bsearch_correct[OF assms(1)] by blast
  from r(2) show ?thesis
  proof (elim disjE exE conjE)
    assume none: "r = - 5" "\<forall>i<length ws. coll w (ws ! i) \<noteq> 0"
    then show ?thesis using r(1) assms(2) Some by (auto simp: count_word_def word_counts_def)
  next
    fix k assume k: "k < length ws" "r = int k" "coll w (ws ! k) = 0"
    define n where "n = length (filter (\<lambda>x. x \<noteq> None \<and> coll (the x) (ws ! k) = 0) doc)"
    have n: "f64_finite (h ! k)" "f64_val (h ! k) = of_int (int n)" using assms(2) k(1) by (auto simp: word_counts_def n_def)
    have "n \<le> length doc" by (simp add: n_def)
    then have "f64_exact (of_int (int n + 1))" using assms(3) by (intro f64_exact_int) simp
    then have add: "f64_finite (f64_add (h ! k) f64_one)" "f64_val (f64_add (h ! k) f64_one) = real (n + 1)"
      using f64_add_exact[OF n(1), of f64_one] one_val n(2) by (simp_all add: add.commute)
    have "word_counts coll ws (doc @ [x]) (h[k := f64_add (h ! k) f64_one])"
      unfolding word_counts_def
    proof (intro conjI allI impI)
      show "length (h[k := f64_add (h ! k) f64_one]) = length ws" using len by simp
      fix i assume i: "i < length ws"
      have "coll w (ws ! i) \<noteq> 0" if "i \<noteq> k" using match_unique[OF assms(1) i k(1) _ k(3)] that by blast
      then show "f64_finite (h[k := f64_add (h ! k) f64_one] ! i)"
        "f64_val (h[k := f64_add (h ! k) f64_one] ! i) =
           real (length (filter (\<lambda>x. x \<noteq> None \<and> coll (the x) (ws ! i) = 0) (doc @ [x])))"
        using i k add len assms(2) Some by (cases "i = k"; simp add: word_counts_def n_def)+
    qed
    then show ?thesis using r(1) k(1,2) len Some by (simp add: count_word_def)
  qed
qed

lemma count_words_loop:
  assumes "sorted_wrt (\<lambda>x y. coll x y < 0) ws" "int (length doc) < 2 ^ 53"
  shows "\<exists>h. foldM (\<lambda>i histogram. rbind (nth_res doc (int i)) (\<lambda>word.
      count_word coll (map Some ws) (int (length ws)) word histogram)) [0..<length doc] (replicate (length ws) f64_zero) = Inr h \<and>
    word_counts coll ws doc h"
proof -
  have "\<exists>h. foldM (\<lambda>i histogram. rbind (nth_res doc (int i)) (\<lambda>word.
      count_word coll (map Some ws) (int (length ws)) word histogram)) [0..<m] (replicate (length ws) f64_zero) = Inr h \<and>
    word_counts coll ws (take m doc) h" if "m \<le> length doc" for m
    using that
  proof (induction m)
    case 0
    then show ?case by (simp add: word_counts_def zero_val)
  next
    case (Suc m)
    then obtain h where h: "foldM (\<lambda>i histogram. rbind (nth_res doc (int i)) (\<lambda>word.
        count_word coll (map Some ws) (int (length ws)) word histogram)) [0..<m] (replicate (length ws) f64_zero) = Inr h"
      "word_counts coll ws (take m doc) h" by auto
    have "int (length (take m doc)) + 1 < 2 ^ 53" using Suc.prems assms(2) by simp
    from count_word_step[OF assms(1) h(2) this, of "doc ! m"] show ?case
      using h(1) Suc.prems by (auto simp: foldM_append take_Suc_conv_app_nth)
  qed
  from this[of "length doc"] show ?thesis by simp
qed

section \<open>The dictionary\<close>

lemma check_order_sorted:
  "\<forall>i<length ws - 1. coll (ws ! i) (ws ! (i + 1)) < 0 \<Longrightarrow> check_order coll (map Some ws) (length ws) = Inr ()"
  unfolding check_order_def
  by (subst foldM_fold[where g = "\<lambda>i u. ()"]) (auto simp: collate_def simp del: of_nat_Suc)

lemma check_order_unsorted:
  assumes "i < length ws - 1" "\<not> coll (ws ! i) (ws ! (i + 1)) < 0"
  shows "\<exists>msg. check_order coll (map Some ws) (length ws) = Inl (Report msg)"
proof -
  define step where "step = (\<lambda>i (_ :: unit). rbind (nth_res (map Some ws) (int i)) (\<lambda>x. rbind (nth_res (map Some ws) (int (i + 1))) (\<lambda>y.
         rbind (collate coll x y) (\<lambda>result.
         if result > 0 then Inl (Report ''Dictionary is unsorted'')
         else if result = 0 then Inl (Report ''Dictionary has duplicated word'')
         else Inr ()))))"
  have at: "step k u = (if 0 < coll (ws ! k) (ws ! (k + 1)) then Inl (Report ''Dictionary is unsorted'')
      else if coll (ws ! k) (ws ! (k + 1)) = 0 then Inl (Report ''Dictionary has duplicated word'') else Inr ())"
    if "k < length ws - 1" for k u
  proof -
    have k: "k < length (map Some ws)" "k + 1 < length (map Some ws)" using that by simp_all
    show ?thesis unfolding step_def nth_res_Inr[OF k(1)] nth_res_Inr[OF k(2)] rbind.simps using k by (simp add: collate_def)
  qed
  have "(\<exists>msg. foldM step [0..<k] () = Inl (Report msg)) \<or> foldM step [0..<k] () = Inr () \<and> k \<le> i" if "k \<le> length ws - 1" for k
    using that
  proof (induction k)
    case (Suc k)
    then consider "\<exists>msg. foldM step [0..<k] () = Inl (Report msg)" | "foldM step [0..<k] () = Inr ()" "k \<le> i" by auto
    then show ?case
    proof cases
      case 2
      then show ?thesis using at[of k] Suc.prems assms(2) by (cases "k = i") (auto simp: foldM_append)
    qed (auto simp: foldM_append)
  qed simp
  from this[of "length ws - 1"] show ?thesis using assms(1) unfolding check_order_def step_def by auto
qed

text \<open>The result for a non-empty dictionary without NULLs, and its error for one that is not sorted strictly.\<close>

lemma histogram_result:
  assumes "text_array_holds dict (map Some ws)" "bitmap dict = None" "ws \<noteq> []" "int (length ws) < 2 ^ 31"
    "text_array_holds doc words" "int (length words) < 2 ^ 53"
  shows "if \<forall>i<length ws - 1. coll (ws ! i) (ws ! (i + 1)) < 0
    then \<exists>sv h. gp_extract_feature_histogram coll 2 (Some dict) (Some doc) = Inr (Some sv) \<and>
      svec_return_array_internal sv = Inr h \<and> word_counts coll ws words h
    else \<exists>msg. gp_extract_feature_histogram coll 2 (Some dict) (Some doc) = Inl (Report msg)"
proof -
  have "dims dict \<noteq> []" using assms(1,3) by (auto simp: text_array_holds_def ArrayGetNItems_def)
  then have run: "gp_extract_feature_histogram coll 2 (Some dict) (Some doc) =
      rbind (check_order coll (map Some ws) (length ws)) (\<lambda>_.
      rbind (classify_document coll (map Some ws) (length ws) words (length words)) (\<lambda>sv. Inr (Some sv)))"
    using text_array_contents[OF assms(1)] text_array_contents[OF assms(5)] assms(2)
    by (simp add: gp_extract_feature_histogram_def ARR_HASNULL_def items_def)
  show ?thesis
  proof (cases "\<forall>i<length ws - 1. coll (ws ! i) (ws ! (i + 1)) < 0")
    case True
    obtain h where h: "foldM (\<lambda>i histogram. rbind (nth_res words (int i)) (\<lambda>word.
        count_word coll (map Some ws) (int (length ws)) word histogram)) [0..<length words] (replicate (length ws) f64_zero) = Inr h"
      "word_counts coll ws words h"
      using count_words_loop[OF sorted_from_neighbours[OF True] assms(6)] by blast
    have len: "length h = length ws" using h(2) by (simp add: word_counts_def)
    then have "h \<noteq> []" using assms(3) by auto
    then obtain rs where rs: "float8arr_to_sdata h (int (length ws)) = Inr (sd_of_runs rs)" "wf_runs rs" "expand rs = h"
      using arr_to_sdata_runs[of h "int (length ws)"] assms(3,4) len by auto
    have "svec_return_array_internal (svec_from_sparsedata (sd_of_runs rs)) = Inr h"
      using svec_rep_array[OF svec_rep_from_sparsedata[OF sd_rep_of_runs[THEN iffD2, OF rs(2)]]] rs(3) by simp
    then show ?thesis
      using True h check_order_sorted[OF True] rs(1) by (auto simp: run classify_document_def svec_from_float8arr_def)
  next
    case False
    then obtain i where "i < length ws - 1" "\<not> coll (ws ! i) (ws ! (i + 1)) < 0" by blast
    from check_order_unsorted[OF this] show ?thesis using False by (auto simp: run)
  qed
qed

end

text \<open>The comparison of the C locale, which compares the characters.\<close>

fun strcmp :: "string \<Rightarrow> string \<Rightarrow> int" where
  "strcmp [] [] = 0"
| "strcmp [] (_ # _) = - 1"
| "strcmp (_ # _) [] = 1"
| "strcmp (c # s) (d # t) =
     (if c = d then strcmp s t else if (of_char c :: int) < of_char d then - 1 else 1)"

lemma strcmp_opposite: "strcmp s t = - strcmp t s"
proof (induction s t rule: strcmp.induct)
  case (4 c s d t)
  have "c = d" if "\<not> (of_char c :: int) < of_char d" "\<not> (of_char d :: int) < of_char c"
    using that by (metis linorder_neqE of_char_eq_iff)
  then show ?case using 4 by auto
qed simp_all

lemma strcmp_trans: "strcmp s t \<le> 0 \<Longrightarrow> strcmp t u \<le> 0 \<Longrightarrow> strcmp s u \<le> 0"
proof (induction s t arbitrary: u rule: strcmp.induct)
  case (1 u) then show ?case by simp
next
  case (2 d t u) then show ?case by (cases u) simp_all
next
  case (3 c s u) then show ?case by simp
next
  case (4 c s d t)
  then show ?case by (cases u) (auto split: if_splits)
qed

interpretation bytewise: collation strcmp
proof
  show "strcmp x y < 0 \<longleftrightarrow> 0 < strcmp y x" for x y using strcmp_opposite[of x y] by linarith
  show "strcmp x y \<le> 0 \<Longrightarrow> strcmp y z \<le> 0 \<Longrightarrow> strcmp x z \<le> 0" for x y z by (rule strcmp_trans)
qed

section \<open>Property\<close>

text \<open>
  C21: for a comparison of strings that is a total order and a dictionary that is not empty and has no
  NULLs: when each word precedes the following one, the function returns a sparse vector that expands to the
  number of words of the document that compare equal to each entry, NULLs of the document left out; otherwise it
  reports an error.
\<close>

theorem feature_histogram:
  assumes "\<forall>x y. strcoll x y < 0 \<longleftrightarrow> 0 < strcoll y x" "\<forall>x y z. strcoll x y \<le> 0 \<longrightarrow> strcoll y z \<le> 0 \<longrightarrow> strcoll x z \<le> 0"
    "text_array_holds dict (map Some ws)" "bitmap dict = None" "ws \<noteq> []" "int (length ws) < 2 ^ 31"
    "text_array_holds doc words" "int (length words) < 2 ^ 53"
  shows "if \<forall>i<length ws - 1. strcoll (ws ! i) (ws ! (i + 1)) < 0
    then \<exists>sv h. gp_extract_feature_histogram strcoll 2 (Some dict) (Some doc) = Inr (Some sv) \<and>
      svec_return_array_internal sv = Inr h \<and> word_counts strcoll ws words h
    else \<exists>msg. gp_extract_feature_histogram strcoll 2 (Some dict) (Some doc) = Inl (Report msg)"
  using assms(1,2) by (intro collation.histogram_result[OF _ assms(3-8)] collation.intro) blast+

lemma example_bitmap: "\<forall>i<4. bit (0b1011 :: byte) i \<longleftrightarrow> [Some ''b'', Some ''c'', None, Some ''b''] ! i \<noteq> None"
proof -
  have "bit (0b1011 :: byte) 0" "bit (0b1011 :: byte) 1" "\<not> bit (0b1011 :: byte) 2" "bit (0b1011 :: byte) 3" by simp_all
  moreover have "i = 0 \<or> i = 1 \<or> i = 2 \<or> i = 3" if "i < 4" for i :: nat using that by linarith
  ultimately show ?thesis by fastforce
qed

lemma example_document:
  "text_array_holds \<lparr>is_text = True, dims = [4], bitmap = Some [0b1011], data = [''b'', ''c'', ''b'']\<rparr>
      [Some ''b'', Some ''c'', None, Some ''b'']"
proof -
  have "bit ([0b1011 :: byte] ! (i div 8)) (i mod 8) \<longleftrightarrow> [Some ''b'', Some ''c'', None, Some ''b''] ! i \<noteq> None" if "i < 4" for i
    using example_bitmap that by simp
  then show ?thesis unfolding text_array_holds_def ArrayGetNItems_def by simp
qed

lemma feature_histogram_witness:
  "\<exists>sv h. gp_extract_feature_histogram strcmp 2
       (Some \<lparr>is_text = True, dims = [2], bitmap = None, data = [''a'', ''b'']\<rparr>)
       (Some \<lparr>is_text = True, dims = [4], bitmap = Some [0b1011], data = [''b'', ''c'', ''b'']\<rparr>) = Inr (Some sv) \<and>
     svec_return_array_internal sv = Inr h \<and> word_counts strcmp [''a'', ''b''] [Some ''b'', Some ''c'', None, Some ''b''] h"
proof -
  have dict: "text_array_holds \<lparr>is_text = True, dims = [2], bitmap = None, data = [''a'', ''b'']\<rparr> (map Some [''a'', ''b''])"
    by (simp add: text_array_holds_def ArrayGetNItems_def)
  have laws: "\<forall>x y. strcmp x y < 0 \<longleftrightarrow> 0 < strcmp y x" "\<forall>x y z. strcmp x y \<le> 0 \<longrightarrow> strcmp y z \<le> 0 \<longrightarrow> strcmp x z \<le> 0"
    using bytewise.opposite bytewise.trans by blast+
  have sorted: "\<forall>i<length [''a'', ''b''] - 1. strcmp ([''a'', ''b''] ! i) ([''a'', ''b''] ! (i + 1)) < 0" by simp
  show ?thesis using feature_histogram[OF laws dict _ _ _ example_document, unfolded if_P[OF sorted]] by simp
qed

end
