(* ===== verification/KMeans.thy ===== *)
theory KMeans
  imports SvecOps
begin

text \<open>
  Canopies and closest centroids, \<open>methods/kmeans/src/pg_gp/kmeans.c\<close>.  The distances are the
  functions of \<open>SvecOps\<close>; \<open>acos\<close> of the C library is a parameter.  The memory contexts of the code
  have no effect on the results.
\<close>

section \<open>Arguments\<close>

text \<open>
  An array of sparse vectors: its number of dimensions, first dimension and first lower bound,
  which are only there when it has dimensions, and its elements, \<open>None\<close> for NULL.
\<close>

record svec_array =
  ndim :: nat
  dim0 :: int
  lbound0 :: int
  elems :: "svec option list"

record int4_array =
  id_ndim :: nat
  id_dim0 :: int
  id_lbound0 :: int
  id_data :: "int list"

definition verify_arg_nonnull :: "'a option \<Rightarrow> 'a res" where
  "verify_arg_nonnull arg = (case arg of None \<Rightarrow> Inl (Report ''called with NULL argument'') | Some x \<Rightarrow> Inr x)"

text \<open>\<open>deconstruct_array\<close> reports a NULL element when the caller does not ask for the NULLs.\<close>

definition get_svec_array_elms :: "svec_array \<Rightarrow> svec list res" where
  "get_svec_array_elms arr =
     rbind (check (None \<notin> set (elems arr)) ''null array element not allowed in this context'') (\<lambda>_. Inr (map the (elems arr)))"

text \<open>The first lower bound; an array without dimensions has none behind its header.\<close>

definition ARR_LBOUND :: "svec_array \<Rightarrow> int res" where
  "ARR_LBOUND arr = rbind (guard_mem (ndim arr \<noteq> 0)) (\<lambda>_. Inr (lbound0 arr))"

section \<open>Distances\<close>

type_synonym metric = "svec \<Rightarrow> svec \<Rightarrow> float8 option res"

definition get_metric_fn :: "(float8 \<Rightarrow> float8) \<Rightarrow> int \<Rightarrow> metric res" where
  "get_metric_fn acos inMetric =
     (if inMetric = 1 then Inr svec_svec_l1norm
      else if inMetric = 2 then Inr svec_svec_l2norm
      else if inMetric = 3 then Inr (svec_svec_angle acos)
      else if inMetric = 4 then Inr svec_svec_tanimoto_distance
      else Inl (Report ''invalid metric''))"

text \<open>\<open>DirectFunctionCall2\<close> reports a NULL result.\<close>

definition compute_metric :: "metric \<Rightarrow> svec \<Rightarrow> svec \<Rightarrow> float8 res" where
  "compute_metric inMetricFn inVec1 inVec2 =
     rbind (inMetricFn inVec1 inVec2) (\<lambda>distance.
       case distance of None \<Rightarrow> Inl (Report ''function returned NULL'') | Some d \<Rightarrow> Inr d)"

section \<open>Close canopies\<close>

text \<open>The positions from \<open>i\<close> on of the canopies that are closer than the threshold.\<close>

fun close_loop :: "metric \<Rightarrow> svec \<Rightarrow> float8 \<Rightarrow> svec list \<Rightarrow> int \<Rightarrow> int list res" where
  "close_loop metric_fn svec threshold [] i = Inr []"
| "close_loop metric_fn svec threshold (c # cs) i =
     rbind (compute_metric metric_fn svec c) (\<lambda>d.
     rbind (close_loop metric_fn svec threshold cs (i + 1)) (\<lambda>ids.
       Inr (if f64_lt d threshold then (i + 1) # ids else ids)))"

definition internal_get_array_of_close_canopies ::
    "(float8 \<Rightarrow> float8) \<Rightarrow> svec option \<Rightarrow> svec_array option \<Rightarrow> float8 option \<Rightarrow> int option \<Rightarrow> int4_array option res" where
  "internal_get_array_of_close_canopies acos arg0 arg1 arg2 arg3 =
     rbind (verify_arg_nonnull arg0) (\<lambda>svec.
     rbind (verify_arg_nonnull arg1) (\<lambda>arr.
     rbind (get_svec_array_elms arr) (\<lambda>all_canopies.
     rbind (verify_arg_nonnull arg2) (\<lambda>threshold.
     rbind (verify_arg_nonnull arg3) (\<lambda>inMetric.
     rbind (get_metric_fn acos inMetric) (\<lambda>metric_fn.
     rbind (close_loop metric_fn svec threshold all_canopies 0) (\<lambda>close_canopies.
       Inr (if close_canopies = [] then None
            else Some \<lparr>id_ndim = 1, id_dim0 = int (length close_canopies), id_lbound0 = 1, id_data = close_canopies\<rparr>))))))))"

section \<open>The closest centroid\<close>

text \<open>One pass of the loop; the state is the closest centroid so far and its distance.\<close>

definition closest_step ::
    "metric \<Rightarrow> svec \<Rightarrow> int4_array option \<Rightarrow> svec list \<Rightarrow> nat \<Rightarrow> int \<times> float8 \<Rightarrow> (int \<times> float8) res" where
  "closest_step metric_fn svec canopy_ids centroids i st =
     (case st of (closest_centroid, min_distance) \<Rightarrow>
       rbind (case canopy_ids of
                None \<Rightarrow> Inr (int i)
              | Some ids \<Rightarrow> rbind (nth_res (id_data ids) (int i)) (\<lambda>x. Inr (to_int32 (x - id_lbound0 ids)))) (\<lambda>cid.
       rbind (nth_res centroids cid) (\<lambda>c.
       rbind (compute_metric metric_fn svec c) (\<lambda>distance.
         Inr (if f64_lt distance min_distance then (cid, distance) else (closest_centroid, min_distance))))))"

definition INFINITY :: float8 where "INFINITY = 0x7FF0000000000000"

definition internal_kmeans_closest_centroid ::
    "(float8 \<Rightarrow> float8) \<Rightarrow> svec option \<Rightarrow> int4_array option \<Rightarrow> svec_array option \<Rightarrow> int option \<Rightarrow> int res" where
  "internal_kmeans_closest_centroid acos arg0 arg1 arg2 arg3 =
     rbind (verify_arg_nonnull arg0) (\<lambda>svec.
     rbind (case arg1 of None \<Rightarrow> Inr ()
            | Some ids \<Rightarrow> check (id_ndim ids \<noteq> 0) ''array of close canopies cannot be empty'') (\<lambda>_.
     rbind (verify_arg_nonnull arg2) (\<lambda>centroids_arr.
     rbind (get_svec_array_elms centroids_arr) (\<lambda>centroids.
     let num_centroids = (case arg1 of None \<Rightarrow> int (length centroids) | Some ids \<Rightarrow> id_dim0 ids) in
     rbind (verify_arg_nonnull arg3) (\<lambda>inMetric.
     rbind (get_metric_fn acos inMetric) (\<lambda>metric_fn.
     rbind (foldM (closest_step metric_fn svec arg1 centroids) [0..<nat num_centroids] (0, INFINITY)) (\<lambda>(closest_centroid, _).
     rbind (ARR_LBOUND centroids_arr) (\<lambda>lb. Inr (to_int32 (closest_centroid + lb))))))))))"

section \<open>Canopies\<close>

text \<open>Is one of the canopies closer to the point than the threshold?  The loop stops at the first one.\<close>

fun any_close :: "metric \<Rightarrow> svec \<Rightarrow> float8 \<Rightarrow> svec list \<Rightarrow> bool res" where
  "any_close metric_fn point threshold [] = Inr False"
| "any_close metric_fn point threshold (c # cs) =
     rbind (compute_metric metric_fn point c) (\<lambda>d.
       if f64_lt d threshold then Inr True else any_close metric_fn point threshold cs)"

text \<open>\<open>array_set\<close> of the server, which stores an element at a subscript, is a parameter.\<close>

definition internal_kmeans_canopy_transition ::
    "(float8 \<Rightarrow> float8) \<Rightarrow> (svec_array \<Rightarrow> int \<Rightarrow> svec \<Rightarrow> svec_array res) \<Rightarrow>
     svec_array option \<Rightarrow> svec option \<Rightarrow> int option \<Rightarrow> float8 option \<Rightarrow> svec_array res" where
  "internal_kmeans_canopy_transition acos array_set arg0 arg1 arg2 arg3 =
     rbind (verify_arg_nonnull arg0) (\<lambda>canopies_arr.
     rbind (get_svec_array_elms canopies_arr) (\<lambda>canopies.
     rbind (verify_arg_nonnull arg1) (\<lambda>point.
     rbind (verify_arg_nonnull arg2) (\<lambda>inMetric.
     rbind (get_metric_fn acos inMetric) (\<lambda>metric_fn.
     rbind (verify_arg_nonnull arg3) (\<lambda>threshold.
     rbind (any_close metric_fn point threshold canopies) (\<lambda>found.
       if found then Inr canopies_arr
       else array_set canopies_arr (if ndim canopies_arr = 0 then 1 else to_int32 (lbound0 canopies_arr + dim0 canopies_arr)) point)))))))"

text \<open>The canopies that are kept: one that is not close to any kept before it.\<close>

fun keep_distant :: "metric \<Rightarrow> float8 \<Rightarrow> svec list \<Rightarrow> svec list \<Rightarrow> svec list res" where
  "keep_distant metric_fn threshold [] close_canopies = Inr close_canopies"
| "keep_distant metric_fn threshold (c # cs) close_canopies =
     rbind (any_close metric_fn c threshold close_canopies) (\<lambda>found.
       keep_distant metric_fn threshold cs (if found then close_canopies else close_canopies @ [c]))"

definition internal_remove_close_canopies ::
    "(float8 \<Rightarrow> float8) \<Rightarrow> svec_array option \<Rightarrow> int option \<Rightarrow> float8 option \<Rightarrow> svec_array res" where
  "internal_remove_close_canopies acos arg0 arg1 arg2 =
     rbind (verify_arg_nonnull arg0) (\<lambda>all_canopies_arr.
     rbind (get_svec_array_elms all_canopies_arr) (\<lambda>all_canopies.
     rbind (verify_arg_nonnull arg1) (\<lambda>inMetric.
     rbind (get_metric_fn acos inMetric) (\<lambda>metric_fn.
     rbind (verify_arg_nonnull arg2) (\<lambda>threshold.
     rbind (keep_distant metric_fn threshold all_canopies []) (\<lambda>close_canopies.
       Inr \<lparr>ndim = (if close_canopies = [] then 0 else 1), dim0 = int (length close_canopies), lbound0 = 1,
            elems = map Some close_canopies\<rparr>))))))"

end
