(* ===== verification/KMeansFacts.thy ===== *)
theory KMeansFacts
  imports KMeans SparseDataFacts "HOL-Library.Sublist"
begin

text \<open>
  The canopies that are kept and the closest centroid, for a metric that is defined for the vectors.
\<close>

section \<open>Distances\<close>

definition dist :: "metric \<Rightarrow> svec \<Rightarrow> svec \<Rightarrow> float8" where
  "dist fn x y = (case fn x y of Inr (Some d) \<Rightarrow> d | _ \<Rightarrow> f64_zero)"

definition metric_defined :: "metric \<Rightarrow> svec set \<Rightarrow> bool" where
  "metric_defined fn V \<longleftrightarrow> (\<forall>x\<in>V. \<forall>y\<in>V. \<exists>d. fn x y = Inr (Some d))"

lemma compute_dist: "metric_defined fn V \<Longrightarrow> x \<in> V \<Longrightarrow> y \<in> V \<Longrightarrow> compute_metric fn x y = Inr (dist fn x y)"
proof -
  assume "metric_defined fn V" "x \<in> V" "y \<in> V"
  then obtain d where "fn x y = Inr (Some d)" unfolding metric_defined_def by blast
  then show ?thesis by (simp add: compute_metric_def dist_def)
qed

abbreviation close :: "metric \<Rightarrow> float8 \<Rightarrow> svec \<Rightarrow> svec \<Rightarrow> bool" where
  "close fn threshold x y \<equiv> f64_lt (dist fn x y) threshold"

section \<open>Canopies\<close>

lemma any_close_ex:
  "metric_defined fn V \<Longrightarrow> x \<in> V \<Longrightarrow> set cs \<subseteq> V \<Longrightarrow> any_close fn x t cs = Inr (\<exists>c\<in>set cs. close fn t x c)"
  by (induction cs) (auto simp: compute_dist)

text \<open>What is kept of a list of vectors, in front of which \<open>kept\<close> was kept already.\<close>

fun greedy :: "metric \<Rightarrow> float8 \<Rightarrow> svec list \<Rightarrow> svec list \<Rightarrow> svec list" where
  "greedy fn t [] kept = kept"
| "greedy fn t (c # cs) kept = greedy fn t cs (if \<exists>k\<in>set kept. close fn t c k then kept else kept @ [c])"

lemma keep_distant_greedy:
  "metric_defined fn V \<Longrightarrow> set cs \<subseteq> V \<Longrightarrow> set kept \<subseteq> V \<Longrightarrow> keep_distant fn t cs kept = Inr (greedy fn t cs kept)"
  by (induction cs arbitrary: kept) (auto simp: any_close_ex)

lemma greedy_prefix: "\<exists>zs. greedy fn t cs kept = kept @ zs \<and> subseq zs cs"
proof (induction cs arbitrary: kept)
  case (Cons c cs)
  show ?case
  proof (cases "\<exists>k\<in>set kept. close fn t c k")
    case True
    then show ?thesis using Cons[of kept] by auto
  next
    case False
    obtain zs where "greedy fn t cs (kept @ [c]) = (kept @ [c]) @ zs" "subseq zs cs" using Cons[of "kept @ [c]"] by blast
    then show ?thesis using False by (intro exI[of _ "c # zs"]) simp
  qed
qed simp

lemma greedy_apart:
  "sorted_wrt (\<lambda>x y. \<not> close fn t y x) kept \<Longrightarrow> sorted_wrt (\<lambda>x y. \<not> close fn t y x) (greedy fn t cs kept)"
  by (induction cs arbitrary: kept) (auto simp: sorted_wrt_append)

lemma greedy_covers:
  assumes "c \<in> set cs"
  shows "c \<in> set (greedy fn t cs kept) \<or> (\<exists>k\<in>set (greedy fn t cs kept). close fn t c k)"
  using assms
proof (induction cs arbitrary: kept)
  case (Cons x cs)
  show ?case
  proof (cases "c \<in> set cs")
    case True
    then show ?thesis using Cons.IH by simp
  next
    case False
    define kept' where "kept' = (if \<exists>k\<in>set kept. close fn t x k then kept else kept @ [x])"
    have "greedy fn t (x # cs) kept = greedy fn t cs kept'" by (simp add: kept'_def)
    then have "set kept' \<subseteq> set (greedy fn t (x # cs) kept)"
      using greedy_prefix[of fn t cs kept'] by auto
    moreover have "c \<in> set kept' \<or> (\<exists>k\<in>set kept'. close fn t c k)" using False Cons.prems by (auto simp: kept'_def)
    ultimately show ?thesis by blast
  qed
qed simp

text \<open>The transition function keeps a point when no canopy is close to it.\<close>

definition appends :: "(svec_array \<Rightarrow> int \<Rightarrow> svec \<Rightarrow> svec_array res) \<Rightarrow> bool" where
  "appends array_set \<longleftrightarrow> (\<forall>cs v. length cs < 2 ^ 31 - 1 \<longrightarrow>
     array_set \<lparr>ndim = (if cs = [] then 0 else 1), dim0 = int (length cs), lbound0 = 1, elems = map Some cs\<rparr> (int (length cs) + 1) v =
       Inr \<lparr>ndim = 1, dim0 = int (length cs) + 1, lbound0 = 1, elems = map Some (cs @ [v])\<rparr>)"

definition canopy_array :: "svec list \<Rightarrow> svec_array" where
  "canopy_array cs = \<lparr>ndim = (if cs = [] then 0 else 1), dim0 = int (length cs), lbound0 = 1, elems = map Some cs\<rparr>"

lemma elms_canopy_array [simp]: "get_svec_array_elms (canopy_array cs) = Inr cs"
  by (auto simp: get_svec_array_elms_def canopy_array_def comp_def)

lemma transition_step:
  assumes "appends array_set" "get_metric_fn acos m = Inr fn" "metric_defined fn V" "x \<in> V" "set kept \<subseteq> V" "length kept < 2 ^ 31 - 1"
  shows "internal_kmeans_canopy_transition acos array_set (Some (canopy_array kept)) (Some x) (Some m) (Some t) =
    Inr (canopy_array (greedy fn t [x] kept))"
proof -
  have idx: "(if ndim (canopy_array kept) = 0 then 1 else to_int32 (lbound0 (canopy_array kept) + dim0 (canopy_array kept))) = int (length kept) + 1"
    using assms(6) by (simp add: canopy_array_def)
  have app: "array_set (canopy_array kept) (int (length kept) + 1) x = Inr (canopy_array (kept @ [x]))"
    using assms(1,6) by (simp add: appends_def canopy_array_def)
  have "internal_kmeans_canopy_transition acos array_set (Some (canopy_array kept)) (Some x) (Some m) (Some t) =
      (if \<exists>k\<in>set kept. close fn t x k then Inr (canopy_array kept)
       else array_set (canopy_array kept)
         (if ndim (canopy_array kept) = 0 then 1 else to_int32 (lbound0 (canopy_array kept) + dim0 (canopy_array kept))) x)"
    using assms(2) any_close_ex[OF assms(3-5), of t] by (simp add: internal_kmeans_canopy_transition_def verify_arg_nonnull_def)
  then show ?thesis unfolding idx app by simp
qed

lemma transitions_greedy:
  assumes "appends array_set" "get_metric_fn acos m = Inr fn" "metric_defined fn V"
  shows "set ps \<subseteq> V \<Longrightarrow> set kept \<subseteq> V \<Longrightarrow> length kept + length ps < 2 ^ 31 \<Longrightarrow>
    foldM (\<lambda>p state. internal_kmeans_canopy_transition acos array_set (Some state) (Some p) (Some m) (Some t)) ps (canopy_array kept) =
    Inr (canopy_array (greedy fn t ps kept))"
proof (induction ps arbitrary: kept)
  case (Cons p ps)
  define kept' where "kept' = greedy fn t [p] kept"
  have "internal_kmeans_canopy_transition acos array_set (Some (canopy_array kept)) (Some p) (Some m) (Some t) = Inr (canopy_array kept')"
    unfolding kept'_def using Cons.prems by (intro transition_step[OF assms]) simp_all
  moreover have "set kept' \<subseteq> V" "length kept' + length ps < 2 ^ 31" using Cons.prems by (auto simp: kept'_def)
  moreover have "greedy fn t (p # ps) kept = greedy fn t ps kept'" by (simp add: kept'_def)
  ultimately show ?case using Cons.IH[of kept'] Cons.prems by simp
qed simp

lemma remove_greedy:
  assumes "get_metric_fn acos m = Inr fn" "metric_defined fn (set cs)"
  shows "internal_remove_close_canopies acos (Some (canopy_array cs)) (Some m) (Some t) = Inr (canopy_array (greedy fn t cs []))"
proof -
  have "keep_distant fn t cs [] = Inr (greedy fn t cs [])" using keep_distant_greedy[OF assms(2)] by simp
  then show ?thesis
    using assms(1) by (simp add: internal_remove_close_canopies_def verify_arg_nonnull_def)
      (simp add: canopy_array_def)
qed

section \<open>The closest centroid\<close>

text \<open>The positions of the centroids the function looks at.\<close>

definition candidates :: "int4_array option \<Rightarrow> svec list \<Rightarrow> int list" where
  "candidates ids cs = (case ids of None \<Rightarrow> map int [0..<length cs] | Some a \<Rightarrow> map (\<lambda>x. x - id_lbound0 a) (id_data a))"

definition ids_ok :: "int4_array option \<Rightarrow> svec list \<Rightarrow> bool" where
  "ids_ok ids cs \<longleftrightarrow> length cs < 2 ^ 31 \<and> (\<forall>c\<in>set (candidates ids cs). 0 \<le> c \<and> c < int (length cs)) \<and>
     (case ids of None \<Rightarrow> True | Some a \<Rightarrow> id_ndim a = 1 \<and> id_dim0 a = int (length (id_data a)))"

lemma closest_step_candidate:
  assumes "ids_ok ids cs" "metric_defined fn V" "x \<in> V" "set cs \<subseteq> V" "i < length (candidates ids cs)"
  shows "closest_step fn x ids cs i (c, mn) =
    (let cid = candidates ids cs ! i; d = dist fn x (cs ! nat cid) in Inr (if f64_lt d mn then (cid, d) else (c, mn)))"
proof -
  define cid where "cid = candidates ids cs ! i"
  have "cid \<in> set (candidates ids cs)" using assms(5) by (simp add: cid_def)
  then have cid: "0 \<le> cid" "cid < int (length cs)" "length cs < 2 ^ 31" using assms(1) by (auto simp: ids_ok_def)
  have read: "(case ids of None \<Rightarrow> Inr (int i)
      | Some ids \<Rightarrow> rbind (nth_res (id_data ids) (int i)) (\<lambda>x. Inr (to_int32 (x - id_lbound0 ids)))) = Inr cid"
  proof (cases ids)
    case None
    then show ?thesis using assms(5) by (simp add: cid_def candidates_def)
  next
    case (Some a)
    then have "i < length (id_data a)" "id_data a ! i - id_lbound0 a = cid" using assms(5) by (simp_all add: cid_def candidates_def)
    then show ?thesis using cid Some by simp
  qed
  have "nth_res cs cid = Inr (cs ! nat cid)" using cid by (simp add: nth_res_def)
  moreover have "cs ! nat cid \<in> V" using cid assms(4) by (auto simp: subset_iff)
  ultimately show ?thesis
    unfolding closest_step_def prod.case read rbind.simps cid_def[symmetric] Let_def
    using compute_dist[OF assms(2,3)] by simp
qed

lemma closest_loop:
  assumes "ids_ok ids cs" "metric_defined fn V" "x \<in> V" "set cs \<subseteq> V" "k \<le> length (candidates ids cs)"
  shows "\<exists>c mn. foldM (closest_step fn x ids cs) [0..<k] (0, INFINITY) = Inr (c, mn) \<and>
    (mn = INFINITY \<or> c \<in> set (take k (candidates ids cs)) \<and> mn = dist fn x (cs ! nat c) \<and> f64_lt mn INFINITY) \<and>
    (\<forall>e\<in>set (take k (candidates ids cs)). \<not> f64_lt (dist fn x (cs ! nat e)) mn)"
  using assms(5)
proof (induction k)
  case (Suc k)
  then obtain c mn where IH: "foldM (closest_step fn x ids cs) [0..<k] (0, INFINITY) = Inr (c, mn)"
    "mn = INFINITY \<or> c \<in> set (take k (candidates ids cs)) \<and> mn = dist fn x (cs ! nat c) \<and> f64_lt mn INFINITY"
    "\<forall>e\<in>set (take k (candidates ids cs)). \<not> f64_lt (dist fn x (cs ! nat e)) mn" by auto
  define cid where "cid = candidates ids cs ! k"
  define d where "d = dist fn x (cs ! nat cid)"
  have take: "set (take (Suc k) (candidates ids cs)) = insert cid (set (take k (candidates ids cs)))"
    using Suc.prems by (simp add: take_Suc_conv_app_nth cid_def)
  have step: "closest_step fn x ids cs k (c, mn) = Inr (if f64_lt d mn then (cid, d) else (c, mn))"
    using closest_step_candidate[OF assms(1-4)] Suc.prems by (simp add: Let_def cid_def d_def)
  have trans: "f64_lt d mn \<Longrightarrow> \<not> f64_lt y mn \<Longrightarrow> \<not> f64_lt y d" "f64_lt d mn \<Longrightarrow> f64_lt mn INFINITY \<Longrightarrow> f64_lt d INFINITY" for y
    by (auto simp: f64_lt_def)
  have irrefl: "\<not> f64_lt d d" by (simp add: f64_lt_def)
  show ?case
  proof (cases "f64_lt d mn")
    case True
    then have "foldM (closest_step fn x ids cs) [0..<Suc k] (0, INFINITY) = Inr (cid, d)"
      using IH(1) step by (simp add: foldM_append)
    moreover have "f64_lt d INFINITY" using IH(2) True trans(2) by blast
    ultimately show ?thesis unfolding take using IH(3) True trans(1) irrefl d_def by blast
  next
    case False
    then have "foldM (closest_step fn x ids cs) [0..<Suc k] (0, INFINITY) = Inr (c, mn)"
      using IH(1) step by (simp add: foldM_append)
    then show ?thesis unfolding take using IH(2,3) False d_def by blast
  qed
qed simp

section \<open>Properties\<close>

text \<open>
  C22: the transition function folded over a list of points keeps the same canopies as the function that removes
  the close ones of a list: a subsequence of the points in which no vector is closer than the threshold to an
  earlier one, and such that every point is kept or closer than the threshold to one that is.
\<close>

theorem canopies_apart:
  assumes "get_metric_fn acos m = Inr fn" "metric_defined fn (set points)" "length points < 2 ^ 31" "appends array_set"
  shows "\<exists>kept.
    foldM (\<lambda>p state. internal_kmeans_canopy_transition acos array_set (Some state) (Some p) (Some m) (Some threshold))
      points (canopy_array []) = Inr (canopy_array kept) \<and>
    internal_remove_close_canopies acos (Some (canopy_array points)) (Some m) (Some threshold) = Inr (canopy_array kept) \<and>
    subseq kept points \<and> sorted_wrt (\<lambda>x y. \<not> f64_lt (dist fn y x) threshold) kept \<and>
    (\<forall>p\<in>set points. p \<in> set kept \<or> (\<exists>k\<in>set kept. f64_lt (dist fn p k) threshold))"
proof -
  have "subseq (greedy fn threshold points []) points" using greedy_prefix[of fn threshold points "[]"] by auto
  moreover have "sorted_wrt (\<lambda>x y. \<not> f64_lt (dist fn y x) threshold) (greedy fn threshold points [])"
    using greedy_apart[of fn threshold "[]" points] by simp
  ultimately show ?thesis
    using transitions_greedy[OF assms(4,1,2), of points "[]" threshold] remove_greedy[OF assms(1,2), of threshold]
      greedy_covers[of _ points fn threshold "[]"] assms(3)
    by (intro exI[of _ "greedy fn threshold points []"]) auto
qed

text \<open>Two vectors of three equal elements, 1 and 3, and their L1 distances.\<close>

definition ones :: svec where "ones = svec_from_sparsedata (sd_of_runs [(3, 0x3FF0000000000000)])"
definition threes :: svec where "threes = svec_from_sparsedata (sd_of_runs [(3, 0x4008000000000000)])"

lemma example_distances:
  "svec_svec_l1norm ones ones = Inr (Some 0)" "svec_svec_l1norm threes threes = Inr (Some 0)"
  "svec_svec_l1norm ones threes = Inr (Some 0x4018000000000000)" "svec_svec_l1norm threes ones = Inr (Some 0x4018000000000000)"
  by (code_simp, code_simp, code_simp, code_simp)

lemma example_metric: "metric_defined svec_svec_l1norm {ones, threes}"
  by (simp add: metric_defined_def example_distances)

definition append_only :: "svec_array \<Rightarrow> int \<Rightarrow> svec \<Rightarrow> svec_array res" where
  "append_only arr i v =
     Inr \<lparr>ndim = 1, dim0 = int (length (elems arr)) + 1, lbound0 = 1, elems = elems arr @ [Some v]\<rparr>"

lemma canopies_apart_witness:
  "\<exists>kept. internal_remove_close_canopies id (Some (canopy_array [ones, threes])) (Some 1) (Some 0x4000000000000000) =
      Inr (canopy_array kept) \<and> subseq kept [ones, threes]"
proof -
  have "appends append_only" by (simp add: appends_def append_only_def)
  then show ?thesis
    using canopies_apart[of id 1 svec_svec_l1norm "[ones, threes]" append_only "0x4000000000000000"] example_metric
    by (auto simp: get_metric_fn_def)
qed

text \<open>
  The closest centroid is one of the candidates, all centroids or those of the given canopies, and no candidate
  has a smaller distance; the result is its position counted from the lower bound of the array.
\<close>

theorem closest_centroid:
  assumes "get_metric_fn acos m = Inr fn" "metric_defined fn (insert x (set cs))" "ids_ok ids cs"
    "elems arr = map Some cs" "ndim arr \<noteq> 0" "0 \<le> lbound0 arr" "lbound0 arr + int (length cs) < 2 ^ 31"
    "\<exists>c\<in>set (candidates ids cs). f64_lt (dist fn x (cs ! nat c)) INFINITY"
  shows "\<exists>c\<in>set (candidates ids cs).
    internal_kmeans_closest_centroid acos (Some x) ids (Some arr) (Some m) = Inr (c + lbound0 arr) \<and>
    (\<forall>e\<in>set (candidates ids cs). \<not> f64_lt (dist fn x (cs ! nat e)) (dist fn x (cs ! nat c)))"
proof -
  let ?n = "length (candidates ids cs)"
  obtain c mn where loop: "foldM (closest_step fn x ids cs) [0..<?n] (0, INFINITY) = Inr (c, mn)"
    "mn = INFINITY \<or> c \<in> set (candidates ids cs) \<and> mn = dist fn x (cs ! nat c) \<and> f64_lt mn INFINITY"
    "\<forall>e\<in>set (candidates ids cs). \<not> f64_lt (dist fn x (cs ! nat e)) mn"
    using closest_loop[OF assms(3,2), of x ?n] by auto
  have c: "c \<in> set (candidates ids cs)" "mn = dist fn x (cs ! nat c)" using loop(2,3) assms(8) by auto
  then have "0 \<le> c" "c < int (length cs)" using assms(3) by (auto simp: ids_ok_def)
  then have lb: "to_int32 (c + lbound0 arr) = c + lbound0 arr" using assms(6,7) by simp
  have num: "(case ids of None \<Rightarrow> int (length cs) | Some ids \<Rightarrow> id_dim0 ids) = int ?n"
    using assms(3) by (auto simp: ids_ok_def candidates_def split: option.splits)
  have dims: "(case ids of None \<Rightarrow> Inr () | Some ids \<Rightarrow> check (id_ndim ids \<noteq> 0) ''array of close canopies cannot be empty'') = Inr ()"
    using assms(3) by (auto simp: ids_ok_def split: option.splits)
  have cs: "get_svec_array_elms arr = Inr cs" using assms(4) by (auto simp: get_svec_array_elms_def comp_def)
  have "internal_kmeans_closest_centroid acos (Some x) ids (Some arr) (Some m) = Inr (c + lbound0 arr)"
    unfolding internal_kmeans_closest_centroid_def verify_arg_nonnull_def option.case rbind.simps dims cs Let_def num assms(1) nat_int
      loop(1) prod.case ARR_LBOUND_def using assms(5) lb by simp
  with c loop(3) show ?thesis by blast
qed

lemma closest_centroid_witness:
  "internal_kmeans_closest_centroid id (Some ones)
     (Some \<lparr>id_ndim = 1, id_dim0 = 2, id_lbound0 = 1, id_data = [2, 1]\<rparr>)
     (Some (canopy_array [threes, ones])) (Some 1) = Inr 2"
proof -
  define ids where "ids = \<lparr>id_ndim = 1, id_dim0 = 2, id_lbound0 = 1, id_data = [2, 1 :: int]\<rparr>"
  have cand: "candidates (Some ids) [threes, ones] = [1, 0]" by (simp add: candidates_def ids_def)
  then have "ids_ok (Some ids) [threes, ones]" by (simp add: ids_ok_def ids_def)
  moreover have "f64_lt 0 INFINITY" "f64_lt 0 0x4018000000000000" by (code_simp, code_simp)
  moreover have "metric_defined svec_svec_l1norm (insert ones (set [threes, ones]))" using example_metric by (simp add: insert_commute)
  ultimately show ?thesis
    using closest_centroid[of id 1 svec_svec_l1norm ones "[threes, ones]" "Some ids" "canopy_array [threes, ones]"] cand
    by (auto simp: get_metric_fn_def canopy_array_def dist_def example_distances ids_def)
qed

end
