(* ===== verification/Plda.thy ===== *)
theory Plda
  imports Float64
begin

text \<open>
  Latent Dirichlet allocation, \<open>methods/plda/src/pg_gp/plda.c\<close>: word-topic counts and the sampling of
  topics.  The numbers \<open>drand48\<close> and \<open>random\<close> of the C library return are parameters; integers are
  32-bit and wrap around.
\<close>

section \<open>Integer arrays\<close>

text \<open>
  An array: number of dimensions, is its element type \<open>int4\<close>, does it have a NULL bitmap, its first
  dimension and its data.  \<open>construct_array\<close> gives a one-dimensional array, one without dimensions for no element.
\<close>

record int_array =
  int_ndim :: nat
  is_int4 :: bool
  has_nulls :: bool
  int_dim0 :: int
  int_data :: "int list"

definition construct_int4 :: "int list \<Rightarrow> int_array" where
  "construct_int4 xs =
     \<lparr>int_ndim = (if xs = [] then 0 else 1), is_int4 = True, has_nulls = False, int_dim0 = int (length xs), int_data = xs\<rparr>"

text \<open>\<open>palloc0\<close> of \<open>n\<close> datums: a size of a gigabyte or more, which a negative one is as well, is reported.\<close>

definition alloc_datums :: "int \<Rightarrow> int list res" where
  "alloc_datums n =
     rbind (check (0 \<le> n \<and> 8 * n < 2 ^ 30) ''invalid memory alloc request size'') (\<lambda>_. Inr (replicate (nat n) 0))"

definition zero_array :: "int \<Rightarrow> int_array res" where
  "zero_array len = rbind (alloc_datums len) (\<lambda>array. Inr (construct_int4 array))"

section \<open>Word-topic counts\<close>

definition sum_int4array :: "int_array option \<Rightarrow> int_array option \<Rightarrow> int_array res" where
  "sum_int4array arg0 arg1 =
     (case arg1 of None \<Rightarrow> Inl (Report ''called with NULL second argument'')
      | Some arr1 \<Rightarrow>
       rbind (check (int_ndim arr1 = 1 \<and> is_int4 arr1) ''called with invalid parameters'') (\<lambda>_.
       case arg0 of None \<Rightarrow> Inr arr1
       | Some arr0 \<Rightarrow>
         rbind (check (int_ndim arr0 = 1 \<and> is_int4 arr0 \<and> int_dim0 arr1 = int_dim0 arr0) ''called with invalid parameters'') (\<lambda>_.
         rbind (alloc_datums (int_dim0 arr1)) (\<lambda>_.
         rbind (mapM (\<lambda>i. rbind (nth_res (int_data arr0) (int i)) (\<lambda>x. rbind (nth_res (int_data arr1) (int i)) (\<lambda>y.
                  Inr (to_int32 (x + y))))) [0..<nat (int_dim0 arr1)]) (\<lambda>ret_v.
           Inr (construct_int4 ret_v))))))"

definition word_topic_idx :: "int \<Rightarrow> int \<Rightarrow> int \<Rightarrow> int" where
  "word_topic_idx word topic num_topics =
     to_int32 (to_int32 (to_int32 (word - 1) * num_topics) + to_int32 (topic - 1))"

text \<open>One pass of the loop of \<open>cword_count\<close>; \<open>cells\<close> is \<open>dsize * num_topics\<close>.\<close>

definition cword_step :: "int list \<Rightarrow> int list \<Rightarrow> int \<Rightarrow> int \<Rightarrow> nat \<Rightarrow> int list \<Rightarrow> int list res" where
  "cword_step doc topics num_topics cells i count =
     rbind (nth_res doc (int i)) (\<lambda>w. rbind (nth_res topics (int i)) (\<lambda>t.
     let idx = word_topic_idx w t num_topics in
     if idx < 0 \<or> idx \<ge> cells then Inl (Report ''called with invalid parameters'')
     else rbind (nth_res count idx) (\<lambda>c. upd_res count idx (to_int32 (c + 1)))))"

text \<open>
  The transition function, with the test for its use in an aggregate.  With a negative \<open>doclen\<close> the
  loop goes on until it reads past the end of the document.
\<close>

definition cword_count ::
    "bool \<Rightarrow> int_array option \<Rightarrow> int_array \<Rightarrow> int_array \<Rightarrow> int \<Rightarrow> int \<Rightarrow> int \<Rightarrow> int_array res" where
  "cword_count in_aggregate arg0 doc_arr topics_arr doclen num_topics dsize =
     rbind (check in_aggregate ''cword_count not used as part of an aggregate'') (\<lambda>_.
     let cells = to_int32 (dsize * num_topics) in
     rbind (case arg0 of None \<Rightarrow> rbind (alloc_datums cells) (\<lambda>array. Inr (construct_int4 array))
            | Some count_arr \<Rightarrow> Inr count_arr) (\<lambda>count_arr.
     rbind (check (int_ndim count_arr = 1 \<and> is_int4 count_arr \<and> int_ndim doc_arr = 1 \<and> is_int4 doc_arr \<and>
                   int_ndim topics_arr = 1 \<and> is_int4 topics_arr) ''called with invalid parameters'') (\<lambda>_.
     rbind (foldM (cword_step (int_data doc_arr) (int_data topics_arr) num_topics cells)
              [0..<if doclen < 0 then length (int_data doc_arr) + 1 else nat doclen] (int_data count_arr)) (\<lambda>count.
       Inr (count_arr\<lparr>int_data := count\<rparr>)))))"

section \<open>Sampling a topic\<close>

text \<open>The probability of topic \<open>j\<close>, without the contribution of the current word.\<close>

definition topic_pr ::
    "int \<Rightarrow> int \<Rightarrow> int \<Rightarrow> int list \<Rightarrow> int list \<Rightarrow> int list \<Rightarrow> float8 \<Rightarrow> float8 \<Rightarrow> nat \<Rightarrow> float8 res" where
  "topic_pr numtopics widx wtopic global_count local_d topic_counts alpha eta j =
     rbind (nth_res global_count (to_int32 (to_int32 (widx * numtopics) + int j))) (\<lambda>glcount_temp.
     rbind (nth_res local_d (int j)) (\<lambda>locald_temp.
     rbind (nth_res topic_counts (int j)) (\<lambda>topic_count.
     let (glcount_temp, locald_temp) =
           (if int j = wtopic then (to_int32 (glcount_temp - 1), to_int32 (locald_temp - 1)) else (glcount_temp, locald_temp))
     in Inr (f64_div (f64_mul (f64_add (f64_of_int locald_temp) alpha) (f64_add (f64_of_int glcount_temp) eta))
               (f64_add (f64_of_int topic_count) (f64_mul (f64_of_int numtopics) eta))))))"

text \<open>The loop that looks for the topic; the list is what is left of the probabilities.\<close>

fun draw_topic :: "float8 list \<Rightarrow> float8 \<Rightarrow> int \<Rightarrow> int \<Rightarrow> int res" where
  "draw_topic [] r numtopics ret = (if ret = numtopics then Inr ret else Inl Undefined)"
| "draw_topic (p # ps) r numtopics ret =
     (if ret = numtopics \<or> f64_lt r p then Inr ret else draw_topic ps r numtopics (ret + 1))"

text \<open>The cumulative probabilities, and the total.\<close>

fun cumulate :: "float8 list \<Rightarrow> float8 \<Rightarrow> float8 list \<times> float8" where
  "cumulate [] total_unpr = ([], total_unpr)"
| "cumulate (p # ps) total_unpr =
     (let total_unpr = f64_add total_unpr p; (prs, t) = cumulate ps total_unpr in (total_unpr # prs, t))"

definition sampleTopic ::
    "int \<Rightarrow> int \<Rightarrow> int \<Rightarrow> int list \<Rightarrow> int list \<Rightarrow> int list \<Rightarrow> float8 \<Rightarrow> float8 \<Rightarrow> float8 \<Rightarrow> int res" where
  "sampleTopic numtopics widx wtopic global_count local_d topic_counts alpha eta r =
     rbind (alloc_datums numtopics) (\<lambda>_.
     rbind (mapM (topic_pr numtopics (to_int32 (widx - 1)) (to_int32 (wtopic - 1)) global_count local_d topic_counts alpha eta)
              [0..<nat numtopics]) (\<lambda>prs.
     let (topic_prs, total_unpr) = cumulate prs f64_zero in
     rbind (draw_topic (map (\<lambda>p. f64_div p total_unpr) topic_prs) r numtopics 1) (\<lambda>ret.
     rbind (check (1 \<le> ret \<and> ret \<le> numtopics) ''sampleTopic'') (\<lambda>_. Inr ret))))"

section \<open>Topics of a document\<close>

definition check_array_sampleNewTopics :: "int_array \<Rightarrow> unit res" where
  "check_array_sampleNewTopics p_array =
     rbind (check (\<not> has_nulls p_array) ''should not contain null elements'') (\<lambda>_.
     rbind (check (int_ndim p_array = 1) ''the dimension should be 1'') (\<lambda>_.
     check (is_int4 p_array) ''the element type should be INT4''))"

text \<open>A topic is stored for the word and counted.\<close>

definition store_topic :: "nat \<Rightarrow> int \<Rightarrow> int list \<times> int list \<Rightarrow> (int list \<times> int list) res" where
  "store_topic i rtopic st =
     (case st of (ret_topics, ret_topic_d) \<Rightarrow>
       rbind (upd_res ret_topics (int i) rtopic) (\<lambda>ret_topics.
       rbind (nth_res ret_topic_d (rtopic - 1)) (\<lambda>c.
       rbind (upd_res ret_topic_d (rtopic - 1) (to_int32 (c + 1))) (\<lambda>ret_topic_d. Inr (ret_topics, ret_topic_d)))))"

text \<open>The topics of the words and the number of words of each topic; \<open>drand i\<close> is the number drawn for word \<open>i\<close>.\<close>

definition sampleNewTopics ::
    "(nat \<Rightarrow> float8) \<Rightarrow> int_array \<Rightarrow> int_array \<Rightarrow> int_array \<Rightarrow> int_array \<Rightarrow> int_array \<Rightarrow> int \<Rightarrow> int \<Rightarrow> float8 \<Rightarrow> float8 \<Rightarrow>
     (int list \<times> int list) res" where
  "sampleNewTopics drand doc_arr topics_arr topic_d_arr global_count_arr topic_counts_arr num_topics dsize alpha eta =
     rbind (check_array_sampleNewTopics doc_arr) (\<lambda>_. rbind (check_array_sampleNewTopics topics_arr) (\<lambda>_.
     rbind (check_array_sampleNewTopics topic_d_arr) (\<lambda>_. rbind (check_array_sampleNewTopics global_count_arr) (\<lambda>_.
     rbind (check_array_sampleNewTopics topic_counts_arr) (\<lambda>_.
     rbind (alloc_datums (int_dim0 doc_arr)) (\<lambda>ret_topics. rbind (alloc_datums num_topics) (\<lambda>ret_topic_d.
     foldM (\<lambda>i st.
         rbind (nth_res (int_data doc_arr) (int i)) (\<lambda>widx.
         rbind (check (1 \<le> widx \<and> widx \<le> dsize) ''called with invalid parameters'') (\<lambda>_.
         rbind (nth_res (int_data topics_arr) (int i)) (\<lambda>wtopic.
         rbind (sampleTopic num_topics widx wtopic (int_data global_count_arr) (int_data topic_d_arr) (int_data topic_counts_arr)
                  alpha eta (drand i)) (\<lambda>rtopic.
         store_topic i rtopic st)))))
       [0..<nat (int_dim0 doc_arr)] (ret_topics, ret_topic_d))))))))"

text \<open>\<open>random\<close> returns numbers that are not negative; the remainder of a division by zero is undefined.\<close>

definition randomTopics :: "(nat \<Rightarrow> nat) \<Rightarrow> int \<Rightarrow> int \<Rightarrow> (int list \<times> int list) res" where
  "randomTopics random doclen num_topics =
     rbind (alloc_datums doclen) (\<lambda>ret_topics. rbind (alloc_datums num_topics) (\<lambda>ret_topic_d.
     foldM (\<lambda>i st. rbind (guard_mem (num_topics \<noteq> 0)) (\<lambda>_. store_topic i (int (random i) mod num_topics + 1) st))
       [0..<nat doclen] (ret_topics, ret_topic_d)))"

end
