(* ===== verification/PldaFacts.thy ===== *)
theory PldaFacts
  imports Plda "HOL-Library.Multiset"
begin

text \<open>
  The word-topic counts of a corpus, whatever its parts, and the topics sampled for a document.
\<close>

section \<open>Loops\<close>

text \<open>A loop that keeps an invariant up to the pass that reports an error.\<close>

lemma foldM_error_at:
  assumes "P s" "i < n" "\<And>k s. k < i \<Longrightarrow> P s \<Longrightarrow> \<exists>s'. f k s = Inr s' \<and> P s'" "\<And>s. P s \<Longrightarrow> f i s = Inl e"
  shows "foldM f [0..<n] s = Inl e"
proof -
  have "\<exists>s'. foldM f [0..<k] s = Inr s' \<and> P s'" if "k \<le> i" for k
    using that
  proof (induction k)
    case 0
    then show ?case using assms(1) by simp
  next
    case (Suc k)
    then obtain s' where "foldM f [0..<k] s = Inr s'" "P s'" by auto
    then show ?case using assms(3)[of k s'] Suc.prems by (auto simp: foldM_append)
  qed
  then obtain s' where s': "foldM f [0..<i] s = Inr s'" "P s'" by blast
  have "[0..<n] = [0..<i] @ i # [i + 1..<n]" using assms(2) by (metis le_add1 upt_add_eq_append upt_conv_Cons add_0 le_add_diff_inverse less_imp_le Suc_eq_plus1)
  then show ?thesis using s' assms(4) by (simp add: foldM_append)
qed

section \<open>Word-topic counts\<close>

text \<open>A document: its words and the topic of each, in range.\<close>

definition doc_ok :: "int \<Rightarrow> int \<Rightarrow> int list \<times> int list \<Rightarrow> bool" where
  "doc_ok dsize K d \<longleftrightarrow> fst d \<noteq> [] \<and> length (snd d) = length (fst d) \<and>
     (\<forall>w\<in>set (fst d). 1 \<le> w \<and> w \<le> dsize) \<and> (\<forall>t\<in>set (snd d). 1 \<le> t \<and> t \<le> K)"

lemma cell_bounds: "0 \<le> w \<Longrightarrow> w < D \<Longrightarrow> 0 \<le> t \<Longrightarrow> t < K \<Longrightarrow> 0 \<le> w * K + t \<and> w * K + t < D * (K :: int)"
proof -
  assume w: "0 \<le> w" "w < D" and t: "0 \<le> t" "t < K"
  have "(w + 1) * K \<le> D * K" using w t by (intro mult_right_mono) simp_all
  moreover have "0 \<le> w * K" using w t by simp
  ultimately show ?thesis using t by (simp add: algebra_simps)
qed

lemma cell_inj:
  "0 \<le> t \<Longrightarrow> t < K \<Longrightarrow> 0 \<le> t' \<Longrightarrow> t' < K \<Longrightarrow> w * K + t = w' * K + (t' :: int) \<longleftrightarrow> w = w' \<and> t = t'"
proof (intro iffI)
  assume t: "0 \<le> t" "t < K" "0 \<le> t'" "t' < K" and eq: "w * K + t = w' * K + t'"
  have "w = (w * K + t) div K" "w' = (w' * K + t') div K" using t by simp_all
  then show "w = w' \<and> t = t'" using eq by simp
qed simp

lemma word_topic_idx_small:
  assumes "1 \<le> w" "w \<le> D" "1 \<le> t" "t \<le> K" "D * K < 2 ^ 31"
  shows "word_topic_idx w t K = (w - 1) * K + (t - 1)"
proof -
  have b: "0 \<le> (w - 1) * K + (t - 1) \<and> (w - 1) * K + (t - 1) < D * K" using assms(1-4) by (intro cell_bounds) simp_all
  have "D \<le> D * K" "K \<le> D * K" using assms by (simp_all add: mult_le_cancel_left1 mult_le_cancel_right1)
  then have D: "D < 2 ^ 31" "K < 2 ^ 31" using assms(5) by linarith+
  have "0 \<le> (w - 1) * K" using assms by simp
  then have "to_int32 ((w - 1) * K) = (w - 1) * K" using b assms(3,5) by (intro to_int32_id) linarith+
  moreover have "to_int32 ((w - 1) * K + (t - 1)) = (w - 1) * K + (t - 1)" using b assms(5) by (intro to_int32_id) linarith+
  moreover have "to_int32 (w - 1) = w - 1" "to_int32 (t - 1) = t - 1" using assms D by simp_all
  ultimately show ?thesis by (simp add: word_topic_idx_def)
qed

text \<open>The counts modulo the width of an integer: adding 1 to a count that has wrapped around.\<close>

lemma to_int32_plus: "to_int32 (to_int32 x + to_int32 y) = to_int32 (x + y)"
proof -
  have same: "to_int32 z mod 2 ^ 32 = z mod 2 ^ 32" for z unfolding to_int32_def mod_diff_left_eq by (simp only: add_diff_cancel_right')
  have "(to_int32 x + to_int32 y) mod 2 ^ 32 = (x + y) mod 2 ^ 32" using mod_add_cong[OF same[of x] same[of y]] .
  then have "(to_int32 x + to_int32 y + 2 ^ 31) mod 2 ^ 32 = (x + y + 2 ^ 31) mod 2 ^ 32" by (rule mod_add_cong[OF _ refl])
  then show ?thesis unfolding to_int32_def[of "to_int32 x + to_int32 y"] to_int32_def[of "x + y"] by (rule arg_cong)
qed

lemma to_int32_idem [simp]: "to_int32 (to_int32 x) = to_int32 x"
  using to_int32_range[of x] by simp

lemma to_int32_inc: "to_int32 (to_int32 x + 1) = to_int32 (x + 1)" "to_int32 (1 + to_int32 x) = to_int32 (1 + x)"
  using to_int32_plus[of x 1] to_int32_plus[of 1 x] by simp_all

text \<open>The array of the counts of a corpus.\<close>

definition counts_of :: "int \<Rightarrow> int \<Rightarrow> (int \<times> int) list \<Rightarrow> int list" where
  "counts_of D K ps = map (\<lambda>c. to_int32 (int (count_list ps (int c div K + 1, int c mod K + 1)))) [0..<nat (D * K)]"

lemma counts_of_snoc:
  assumes "1 \<le> w" "w \<le> D" "1 \<le> t" "t \<le> K" "c = nat ((w - 1) * K + (t - 1))"
  shows "(counts_of D K ps)[c := to_int32 (counts_of D K ps ! c + 1)] = counts_of D K (ps @ [(w, t)])"
proof (intro nth_equalityI)
  fix i assume "i < length ((counts_of D K ps)[c := to_int32 (counts_of D K ps ! c + 1)])"
  then have i: "i < nat (D * K)" by (simp add: counts_of_def)
  have K: "0 < K" using assms by simp
  have "int c = (w - 1) * K + (t - 1)" using cell_bounds[of "w - 1" D "t - 1" K] assms by simp
  moreover have "(int i div K) * K + int i mod K = int i" by simp
  moreover have r: "0 \<le> int i mod K" "int i mod K < K" "0 \<le> t - 1" "t - 1 < K" using K assms(3,4) by simp_all
  ultimately have "int i = int c \<longleftrightarrow> int i div K = w - 1 \<and> int i mod K = t - 1"
    using cell_inj[OF r, of "int i div K" "w - 1"] by presburger
  then have "i = c \<longleftrightarrow> int i div K + 1 = w \<and> int i mod K + 1 = t" by auto
  then show "(counts_of D K ps)[c := to_int32 (counts_of D K ps ! c + 1)] ! i = counts_of D K (ps @ [(w, t)]) ! i"
    using i by (auto simp: counts_of_def nth_list_update to_int32_inc add.commute)
qed (simp add: counts_of_def)

lemma cword_steps:
  assumes "doc_ok D K (doc, topics)" "D * K < 2 ^ 31" "m \<le> length doc"
  shows "foldM (cword_step doc topics K (D * K)) [0..<m] (counts_of D K ps) = Inr (counts_of D K (ps @ take m (zip doc topics)))"
  using assms(3)
proof (induction m)
  case (Suc m)
  define w t where "w = doc ! m" and "t = topics ! m"
  have len: "m < length doc" "m < length topics" using Suc.prems assms(1) by (simp_all add: doc_ok_def)
  then have b: "1 \<le> w" "w \<le> D" "1 \<le> t" "t \<le> K" using assms(1) by (auto simp: doc_ok_def w_def t_def)
  have c: "0 \<le> (w - 1) * K + (t - 1)" "(w - 1) * K + (t - 1) < D * K" using cell_bounds[of "w - 1" D "t - 1" K] b by simp_all
  define c where "c = nat ((w - 1) * K + (t - 1))"
  have idx: "word_topic_idx w t K = int c" using word_topic_idx_small[OF b assms(2)] c by (simp add: c_def)
  have cl: "c < length (counts_of D K qs)" "int c < D * K" for qs using c by (simp_all add: counts_of_def c_def)
  have "cword_step doc topics K (D * K) m (counts_of D K qs) = Inr (counts_of D K (qs @ [(w, t)]))" for qs
    using len idx cl counts_of_snoc[OF b c_def] by (simp add: cword_step_def Let_def w_def t_def)
  moreover have "take (Suc m) (zip doc topics) = take m (zip doc topics) @ [(w, t)]"
    using len by (simp add: take_Suc_conv_app_nth w_def t_def)
  ultimately show ?case using Suc by (simp add: foldM_append)
qed simp

text \<open>A document adds its pairs to the counts, from a NULL state as from counts of no pairs.\<close>

definition counts_array :: "int \<Rightarrow> int \<Rightarrow> (int \<times> int) list \<Rightarrow> int_array" where
  "counts_array D K ps = construct_int4 (counts_of D K ps)"

lemma counts_of_empty: "counts_of D K [] = replicate (nat (D * K)) 0"
  by (simp add: counts_of_def map_replicate_const)

lemma doc_ok_cells:
  assumes "doc_ok D K d" "D * K < 2 ^ 27"
  shows "0 < D * K" "to_int32 (D * K) = D * K" "alloc_datums (D * K) = Inr (counts_of D K [])"
    "counts_array D K ps = \<lparr>int_ndim = 1, is_int4 = True, has_nulls = False, int_dim0 = D * K, int_data = counts_of D K ps\<rparr>"
proof -
  obtain w t where wt: "w \<in> set (fst d)" "t \<in> set (snd d)" using assms(1) by (cases "fst d"; cases "snd d") (auto simp: doc_ok_def)
  then have "1 \<le> w \<and> w \<le> D" "1 \<le> t \<and> t \<le> K" using assms(1) by (simp_all add: doc_ok_def)
  then show pos: "0 < D * K" by (simp add: zero_less_mult_iff)
  then show "to_int32 (D * K) = D * K" "alloc_datums (D * K) = Inr (counts_of D K [])"
    using assms(2) by (simp_all add: alloc_datums_def counts_of_empty)
  have "counts_of D K ps \<noteq> []" using pos by (simp add: counts_of_def)
  then show "counts_array D K ps = \<lparr>int_ndim = 1, is_int4 = True, has_nulls = False, int_dim0 = D * K, int_data = counts_of D K ps\<rparr>"
    using pos by (simp add: counts_array_def construct_int4_def) (simp add: counts_of_def)
qed

lemma cword_count_doc:
  assumes "doc_ok D K d" "D * K < 2 ^ 27" "st = None \<and> ps = [] \<or> st = Some (counts_array D K ps)"
  shows "cword_count True st (construct_int4 (fst d)) (construct_int4 (snd d)) (int (length (fst d))) K D =
    Inr (counts_array D K (ps @ zip (fst d) (snd d)))"
proof -
  note cells = doc_ok_cells[OF assms(1,2)]
  have state: "(case st of None \<Rightarrow> rbind (alloc_datums (D * K)) (\<lambda>array. Inr (construct_int4 array)) | Some count_arr \<Rightarrow> Inr count_arr) =
      Inr (counts_array D K ps)"
    using assms(3) cells(3) by (auto simp: counts_array_def)
  have "fst d \<noteq> []" "snd d \<noteq> []" using assms(1) by (auto simp: doc_ok_def)
  then have dims: "int_ndim (construct_int4 (fst d)) = 1" "int_ndim (construct_int4 (snd d)) = 1" by (simp_all add: construct_int4_def)
  have ok: "doc_ok D K (fst d, snd d)" using assms(1) by simp
  have len: "length (snd d) = length (fst d)" using assms(1) by (simp add: doc_ok_def)
  have "D * K < 2 ^ 31" using assms(2) by simp
  from cword_steps[OF ok this order.refl, of ps]
  have "foldM (cword_step (fst d) (snd d) K (D * K)) [0..<length (fst d)] (counts_of D K ps) = Inr (counts_of D K (ps @ zip (fst d) (snd d)))"
    using len by simp
  then show ?thesis
    unfolding cword_count_def Let_def cells(2) state using dims cells(4) by (simp add: construct_int4_def)
qed

definition count_corpus :: "int \<Rightarrow> int \<Rightarrow> (int list \<times> int list) list \<Rightarrow> int_array option res" where
  "count_corpus D K ds = foldM (\<lambda>d st. rbind (cword_count True st (construct_int4 (fst d)) (construct_int4 (snd d)) (int (length (fst d))) K D)
     (\<lambda>a. Inr (Some a))) ds None"

definition pairs_of :: "(int list \<times> int list) list \<Rightarrow> (int \<times> int) list" where
  "pairs_of ds = concat (map (\<lambda>d. zip (fst d) (snd d)) ds)"

lemma count_corpus_pairs:
  assumes "D * K < 2 ^ 27"
  shows "\<forall>d\<in>set ds. doc_ok D K d \<Longrightarrow> count_corpus D K ds = Inr (if ds = [] then None else Some (counts_array D K (pairs_of ds)))"
proof (induction ds rule: rev_induct)
  case (snoc d ds)
  then have "count_corpus D K ds = Inr (if ds = [] then None else Some (counts_array D K (pairs_of ds)))" "doc_ok D K d" by simp_all
  then show ?case
    using cword_count_doc[OF _ assms, of d "if ds = [] then None else Some (counts_array D K (pairs_of ds))" "pairs_of ds"]
    by (auto simp: count_corpus_def foldM_append pairs_of_def)
qed (simp add: count_corpus_def)

lemma sum_counts:
  assumes "doc_ok D K d" "D * K < 2 ^ 27"
  shows "sum_int4array (Some (counts_array D K ps)) (Some (counts_array D K qs)) = Inr (counts_array D K (ps @ qs))"
proof -
  note cells = doc_ok_cells[OF assms]
  have len: "length (counts_of D K rs) = nat (D * K)" for rs by (simp add: counts_of_def)
  have "mapM (\<lambda>i. rbind (nth_res (counts_of D K ps) (int i)) (\<lambda>x. rbind (nth_res (counts_of D K qs) (int i)) (\<lambda>y.
      Inr (to_int32 (x + y))))) [0..<nat (D * K)] = Inr (map (\<lambda>i. to_int32 (counts_of D K ps ! i + counts_of D K qs ! i)) [0..<nat (D * K)])"
    by (intro mapM_map) (simp add: len)
  moreover have "map (\<lambda>i. to_int32 (counts_of D K ps ! i + counts_of D K qs ! i)) [0..<nat (D * K)] = counts_of D K (ps @ qs)"
    by (intro nth_equalityI) (simp_all add: counts_of_def to_int32_plus)
  ultimately show ?thesis
    unfolding sum_int4array_def using cells(3) by (simp add: cells(4)[of ps] cells(4)[of qs]) (simp add: counts_array_def)
qed

lemma counts_of_nth:
  assumes "1 \<le> w" "w \<le> D" "1 \<le> t" "t \<le> K"
  shows "counts_of D K ps ! nat ((w - 1) * K + (t - 1)) = to_int32 (int (count_list ps (w, t)))"
proof -
  have b: "0 \<le> (w - 1) * K + (t - 1) \<and> (w - 1) * K + (t - 1) < D * K" using assms by (intro cell_bounds) simp_all
  have "((w - 1) * K + (t - 1)) div K = w - 1" "((w - 1) * K + (t - 1)) mod K = t - 1" using assms by simp_all
  with b show ?thesis by (simp add: counts_of_def)
qed

section \<open>Sampling\<close>

text \<open>The topic drawn is the first one whose cumulative probability exceeds the number drawn, or the last one.\<close>

lemma draw_topic_first:
  "1 \<le> ret \<Longrightarrow> ret \<le> K \<Longrightarrow> int (length ps) = K - ret + 1 \<Longrightarrow>
   \<exists>j. draw_topic ps r K ret = Inr (ret + int j) \<and> ret + int j \<le> K \<and> (\<forall>i<j. \<not> f64_lt r (ps ! i)) \<and>
     (ret + int j = K \<or> f64_lt r (ps ! j))"
proof (induction ps arbitrary: ret)
  case (Cons p ps)
  show ?case
  proof (cases "ret = K \<or> f64_lt r p")
    case True
    then show ?thesis using Cons.prems by (intro exI[of _ 0]) auto
  next
    case False
    then obtain j where "draw_topic ps r K (ret + 1) = Inr (ret + 1 + int j)" "ret + 1 + int j \<le> K" "\<forall>i<j. \<not> f64_lt r (ps ! i)"
      "ret + 1 + int j = K \<or> f64_lt r (ps ! j)"
      using Cons.IH[of "ret + 1"] Cons.prems by auto
    then show ?thesis using False by (intro exI[of _ "Suc j"]) (auto simp: nth_Cons split: nat.splits)
  qed
qed simp

lemma cumulate_length: "length (fst (cumulate ps s)) = length ps"
  by (induction ps arbitrary: s) (simp_all add: Let_def split: prod.splits, metis fst_conv)

lemma sampleTopic_range:
  assumes "1 \<le> K" "K < 2 ^ 27" "1 \<le> w" "w \<le> D" "D * K < 2 ^ 31" "D * K \<le> int (length global_count)"
    "K \<le> int (length local_d)" "K \<le> int (length topic_counts)"
  shows "\<exists>t. sampleTopic K w wtopic global_count local_d topic_counts alpha eta r = Inr t \<and> 1 \<le> t \<and> t \<le> K"
proof -
  have D: "D \<le> D * K" using assms(1,3,4) by (simp add: mult_le_cancel_left1)
  have pr: "\<exists>p. topic_pr K (to_int32 (w - 1)) (to_int32 (wtopic - 1)) global_count local_d topic_counts alpha eta j = Inr p"
    if "j < nat K" for j
  proof -
    have b: "0 \<le> (w - 1) * K + int j \<and> (w - 1) * K + int j < D * K" using that assms(1,3,4) by (intro cell_bounds) simp_all
    have "0 \<le> (w - 1) * K" using assms(1,3) by simp
    then have "to_int32 ((w - 1) * K) = (w - 1) * K" using b assms(5) by (intro to_int32_id) linarith+
    moreover have "to_int32 ((w - 1) * K + int j) = (w - 1) * K + int j" using b assms(5) by (intro to_int32_id) linarith+
    moreover have "to_int32 (w - 1) = w - 1" using assms(3-5) D by (intro to_int32_id) linarith+
    moreover have "j < length local_d" "j < length topic_counts" using that assms(7,8) by linarith+
    moreover have "nth_res global_count ((w - 1) * K + int j) = Inr (global_count ! nat ((w - 1) * K + int j))"
      using b assms(6) by (simp add: nth_res_def)
    ultimately show ?thesis by (simp add: topic_pr_def Let_def split: prod.splits)
  qed
  then have "mapM (topic_pr K (to_int32 (w - 1)) (to_int32 (wtopic - 1)) global_count local_d topic_counts alpha eta) [0..<nat K] =
      Inr (map (\<lambda>j. projr (topic_pr K (to_int32 (w - 1)) (to_int32 (wtopic - 1)) global_count local_d topic_counts alpha eta j)) [0..<nat K])"
    (is "_ = Inr ?prs") by (intro mapM_map) fastforce
  moreover obtain prs total where c: "cumulate ?prs f64_zero = (prs, total)" by fastforce
  moreover have "length prs = nat K" using cumulate_length[of ?prs f64_zero] c by simp
  then have "\<exists>j. draw_topic (map (\<lambda>p. f64_div p total) prs) r K 1 = Inr (1 + int j) \<and> 1 + int j \<le> K"
    using draw_topic_first[of 1 K "map (\<lambda>p. f64_div p total) prs" r] assms(1) by auto
  ultimately show ?thesis
    using assms(1,2) by (auto simp: sampleTopic_def alloc_datums_def)
qed

text \<open>Storing one topic for each word leaves the topics and the number of words of each.\<close>

definition topic_d_of :: "int \<Rightarrow> int list \<Rightarrow> int list" where
  "topic_d_of K ts = map (\<lambda>k. int (count_list ts (int k + 1))) [0..<nat K]"

lemma store_topic_next:
  assumes "1 \<le> t" "t \<le> K" "length ts < n" "n < 2 ^ 31"
  shows "store_topic (length ts) t (ts @ replicate (n - length ts) 0, topic_d_of K ts) =
    Inr ((ts @ [t]) @ replicate (n - length (ts @ [t])) 0, topic_d_of K (ts @ [t]))"
proof -
  have k: "t - 1 = int (nat (t - 1))" "nat (t - 1) < length (topic_d_of K ts)" using assms(1,2) by (simp_all add: topic_d_of_def)
  have "count_list ts t \<le> length ts" by (rule count_le_length)
  then have "topic_d_of K ts ! nat (t - 1) = int (count_list ts t)" "int (count_list ts t) + 1 < 2 ^ 31"
    using k(2) assms by (simp_all add: topic_d_of_def)
  moreover have "(topic_d_of K ts)[nat (t - 1) := int (count_list ts t) + 1] = topic_d_of K (ts @ [t])"
    using assms(1,2) by (intro nth_equalityI) (auto simp: topic_d_of_def nth_list_update)
  moreover have "nth_res (topic_d_of K ts) (t - 1) = Inr (topic_d_of K ts ! nat (t - 1))"
    "\<And>c. upd_res (topic_d_of K ts) (t - 1) c = Inr ((topic_d_of K ts)[nat (t - 1) := c])"
    using k(2) assms(1) by (simp_all add: nth_res_def upd_res_def)
  moreover obtain m where "n - length ts = Suc m" using assms(3) by (metis Suc_diff_Suc)
  ultimately show ?thesis
    using assms(3) by (simp add: store_topic_def list_update_append)
qed

lemma store_topics:
  assumes "\<And>i. i < n \<Longrightarrow> 1 \<le> t i \<and> t i \<le> K" "n < 2 ^ 31" "0 \<le> K"
    "\<And>i st. i < n \<Longrightarrow> step i st = store_topic i (t i) st"
  shows "foldM step [0..<n] (replicate n 0, replicate (nat K) 0) = Inr (map t [0..<n], topic_d_of K (map t [0..<n]))"
proof -
  have "foldM step [0..<m] (replicate n 0, replicate (nat K) 0) =
      Inr (map t [0..<m] @ replicate (n - m) 0, topic_d_of K (map t [0..<m]))" if "m \<le> n" for m
    using that
  proof (induction m)
    case 0
    then show ?case by (simp add: topic_d_of_def map_replicate_const)
  next
    case (Suc m)
    then show ?case
      using store_topic_next[of "t m" K "map t [0..<m]" n] assms(1)[of m] assms(2,4) by (simp add: foldM_append)
  qed
  from this[of n] show ?thesis by simp
qed

definition topics_ok :: "int \<Rightarrow> int \<Rightarrow> int list \<times> int list \<Rightarrow> bool" where
  "topics_ok len K res \<longleftrightarrow> int (length (fst res)) = len \<and> (\<forall>t\<in>set (fst res). 1 \<le> t \<and> t \<le> K) \<and>
     int (length (snd res)) = K \<and> (\<forall>k<nat K. snd res ! k = int (count_list (fst res) (int k + 1))) \<and> sum_list (snd res) = len"

lemma topic_d_sum_list: "sum_list (topic_d_of K ts) = (\<Sum>k<nat K. int (count_list ts (int k + 1)))"
  by (simp add: topic_d_of_def interv_sum_list_conv_sum_set_nat atLeast0LessThan)

lemma topic_d_sum:
  "\<forall>t\<in>set ts. 1 \<le> t \<and> t \<le> K \<Longrightarrow> sum_list (topic_d_of K ts) = int (length ts)"
proof (induction ts)
  case (Cons t ts)
  have "(\<Sum>k<nat K. int (count_list (t # ts) (int k + 1))) =
      (\<Sum>k<nat K. (if k = nat (t - 1) then 1 else 0) + int (count_list ts (int k + 1)))"
    using Cons.prems by (intro sum.cong) auto
  also have "\<dots> = (\<Sum>k<nat K. if k = nat (t - 1) then 1 else 0) + (\<Sum>k<nat K. int (count_list ts (int k + 1)))"
    by (rule sum.distrib)
  also have "(\<Sum>k<nat K. if k = nat (t - 1) then 1 else 0) = (1 :: int)" using Cons.prems by auto
  finally show ?case using Cons by (simp add: topic_d_sum_list)
qed (simp add: topic_d_sum_list)

lemma topics_ok_store:
  "\<forall>i<n. 1 \<le> t i \<and> t i \<le> K \<Longrightarrow> 0 \<le> K \<Longrightarrow> topics_ok (int n) K (map t [0..<n], topic_d_of K (map t [0..<n]))"
  using topic_d_sum[of "map t [0..<n]" K] by (auto simp: topics_ok_def) (simp_all add: topic_d_of_def)

lemma store_topic_lengths:
  assumes "length (fst st) = n" "int (length (snd st)) = K" "i < n" "1 \<le> t" "t \<le> K"
  shows "\<exists>st'. store_topic i t st = Inr st' \<and> length (fst st') = n \<and> int (length (snd st')) = K"
proof -
  have "0 \<le> t - 1" "t - 1 < int (length (snd st))" using assms(2,4,5) by simp_all
  with assms(1-3) show ?thesis by (cases st) (simp add: store_topic_def nth_res_def upd_res_def)
qed

text \<open>A loop that stores a topic in every pass, or reports the first word that is not valid.\<close>

lemma sampling_loop:
  assumes "\<And>i st. i < n \<Longrightarrow> ok i \<Longrightarrow> step i st = store_topic i (t i) st" "\<And>i. i < n \<Longrightarrow> ok i \<Longrightarrow> 1 \<le> t i \<and> t i \<le> K"
    "\<And>i st. i < n \<Longrightarrow> \<not> ok i \<Longrightarrow> step i st = Inl (Report msg)" "n < 2 ^ 31" "0 \<le> K"
  shows "if \<forall>i<n. ok i
    then \<exists>res. foldM step [0..<n] (replicate n 0, replicate (nat K) 0) = Inr res \<and> topics_ok (int n) K res
    else foldM step [0..<n] (replicate n 0, replicate (nat K) 0) = Inl (Report msg)"
proof (cases "\<forall>i<n. ok i")
  case True
  then have "foldM step [0..<n] (replicate n 0, replicate (nat K) 0) = Inr (map t [0..<n], topic_d_of K (map t [0..<n]))"
    using store_topics[of n t K step] assms by simp
  then show ?thesis using True topics_ok_store[of n t K] assms(2,5) by auto
next
  case False
  then obtain i where i: "i < n" "\<not> ok i" "\<And>k. k < i \<Longrightarrow> k < n \<Longrightarrow> ok k"
    using exists_least_iff[of "\<lambda>i. i < n \<and> \<not> ok i"] by blast
  have "foldM step [0..<n] (replicate n 0, replicate (nat K) 0) = Inl (Report msg)"
  proof (rule foldM_error_at[where P = "\<lambda>st. length (fst st) = n \<and> int (length (snd st)) = K" and i = i])
    show "\<exists>s'. step k s = Inr s' \<and> length (fst s') = n \<and> int (length (snd s')) = K"
      if "k < i" "length (fst s) = n \<and> int (length (snd s)) = K" for k s
      using store_topic_lengths[of s n K k "t k"] assms(1,2)[of k] i(1) i(3)[OF that(1)] that by simp
  qed (use i assms(3,5) in auto)
  with False show ?thesis by simp
qed

section \<open>Properties\<close>

text \<open>
  C23: the transition function counts the topics of the words of a corpus, modulo the width of the counters; the
  sum of the counts of two corpora is the count of both together, so the parts of a corpus can be counted separately.
\<close>

theorem word_topic_counts:
  assumes "\<forall>d\<in>set (ds1 @ ds2). doc_ok D K d" "ds1 \<noteq> []" "ds2 \<noteq> []" "D * K < 2 ^ 27"
  shows "\<exists>a b c. count_corpus D K ds1 = Inr (Some a) \<and> count_corpus D K ds2 = Inr (Some b) \<and> sum_int4array (Some a) (Some b) = Inr c \<and>
    count_corpus D K (ds1 @ ds2) = Inr (Some c) \<and>
    (\<forall>w\<in>{1..D}. \<forall>t\<in>{1..K}. int_data c ! nat ((w - 1) * K + (t - 1)) =
       to_int32 (int (count_list (pairs_of (ds1 @ ds2)) (w, t))))"
proof -
  have "doc_ok D K (hd ds1)" using assms(1,2) by simp
  note cells = doc_ok_cells(4)[OF this assms(4)] and sum = sum_counts[OF this assms(4)]
  have "pairs_of (ds1 @ ds2) = pairs_of ds1 @ pairs_of ds2" by (simp add: pairs_of_def)
  then show ?thesis
    using count_corpus_pairs[OF assms(4), of ds1] count_corpus_pairs[OF assms(4), of ds2] count_corpus_pairs[OF assms(4), of "ds1 @ ds2"]
      assms(1-3) sum[of "pairs_of ds1" "pairs_of ds2"] counts_of_nth[of _ D _ K]
    by (auto simp: cells)
qed

lemma word_topic_counts_witness:
  "\<exists>a b c. count_corpus 2 2 [([1, 2], [1, 1])] = Inr (Some a) \<and> count_corpus 2 2 [([2], [1])] = Inr (Some b) \<and>
     sum_int4array (Some a) (Some b) = Inr c \<and> int_data c ! 2 = 2"
proof -
  have "pairs_of ([([1, 2], [1, 1])] @ [([2], [1])]) = [(1, 1), (2, 1), (2, 1)]" by (simp add: pairs_of_def)
  moreover have "(2 :: int) \<in> {1..2}" "(1 :: int) \<in> {1..2}" by simp_all
  ultimately show ?thesis
    using word_topic_counts[of "[([1, 2], [1, 1])]" "[([2], [1])]" 2 2] by (fastforce simp: doc_ok_def)
qed

text \<open>
  C24: for every number drawn the sampling functions return one topic between 1 and \<open>num_topics\<close> for each word and the
  numbers of words of the topics, which add up to the length of the document; \<open>sampleNewTopics\<close> reports a word
  outside the dictionary.
\<close>

theorem new_topics_counted:
  assumes "doc \<noteq> []" "1 \<le> D" "1 \<le> K" "K < 2 ^ 27" "length doc < 2 ^ 27" "D * K < 2 ^ 31" "length doc \<le> length topics"
    "D * K \<le> int (length global_count)" "K \<le> int (length topic_d)" "K \<le> int (length topic_counts)"
  shows "(if \<forall>w\<in>set doc. 1 \<le> w \<and> w \<le> D
     then \<exists>res. sampleNewTopics drand (construct_int4 doc) (construct_int4 topics) (construct_int4 topic_d)
         (construct_int4 global_count) (construct_int4 topic_counts) K D alpha eta = Inr res \<and> topics_ok (int (length doc)) K res
     else \<exists>msg. sampleNewTopics drand (construct_int4 doc) (construct_int4 topics) (construct_int4 topic_d)
         (construct_int4 global_count) (construct_int4 topic_counts) K D alpha eta = Inl (Report msg)) \<and>
    (\<exists>res. randomTopics random (int (length doc)) K = Inr res \<and> topics_ok (int (length doc)) K res)"
proof -
  define step where "step = (\<lambda>i st.
         rbind (nth_res doc (int i)) (\<lambda>widx.
         rbind (check (1 \<le> widx \<and> widx \<le> D) ''called with invalid parameters'') (\<lambda>_.
         rbind (nth_res topics (int i)) (\<lambda>wtopic.
         rbind (sampleTopic K widx wtopic global_count topic_d topic_counts alpha eta (drand i)) (\<lambda>rtopic.
         store_topic i rtopic st)))))"
  define t where "t = (\<lambda>i. projr (sampleTopic K (doc ! i) (topics ! i) global_count topic_d topic_counts alpha eta (drand i)))"
  let ?n = "length doc"
  have "1 \<le> D * K" using assms(2,3) mult_mono[of 1 D 1 K] by simp
  then have "topics \<noteq> []" "global_count \<noteq> []" "topic_d \<noteq> []" "topic_counts \<noteq> []" using assms(1-3,7-10) by auto
  then have "check_array_sampleNewTopics (construct_int4 xs) = Inr ()" if "xs \<in> {doc, topics, topic_d, global_count, topic_counts}" for xs
    using that assms(1) by (auto simp: check_array_sampleNewTopics_def construct_int4_def)
  then have run: "sampleNewTopics drand (construct_int4 doc) (construct_int4 topics) (construct_int4 topic_d)
      (construct_int4 global_count) (construct_int4 topic_counts) K D alpha eta =
      foldM step [0..<?n] (replicate ?n 0, replicate (nat K) 0)"
    using assms(3-5) by (simp add: sampleNewTopics_def alloc_datums_def step_def) (simp add: construct_int4_def)
  have valid: "step i st = store_topic i (t i) st" "1 \<le> t i \<and> t i \<le> K" if bnd: "i < ?n" "1 \<le> doc ! i" "doc ! i \<le> D" for i st
  proof -
    obtain u where "sampleTopic K (doc ! i) (topics ! i) global_count topic_d topic_counts alpha eta (drand i) = Inr u" "1 \<le> u" "u \<le> K"
      using sampleTopic_range[OF assms(3,4) bnd(2,3) assms(6,8,9,10)] by blast
    with bnd assms(7) show "step i st = store_topic i (t i) st" "1 \<le> t i \<and> t i \<le> K" by (simp_all add: step_def t_def)
  qed
  have "if \<forall>i<?n. 1 \<le> doc ! i \<and> doc ! i \<le> D
     then \<exists>res. foldM step [0..<?n] (replicate ?n 0, replicate (nat K) 0) = Inr res \<and> topics_ok (int ?n) K res
     else foldM step [0..<?n] (replicate ?n 0, replicate (nat K) 0) = Inl (Report ''called with invalid parameters'')"
    using valid assms(3,5) by (intro sampling_loop[where t = t]) (auto simp: step_def)
  moreover have "(\<forall>i<?n. 1 \<le> doc ! i \<and> doc ! i \<le> D) \<longleftrightarrow> (\<forall>w\<in>set doc. 1 \<le> w \<and> w \<le> D)" by (auto simp: all_set_conv_all_nth)
  ultimately have sample: "if \<forall>w\<in>set doc. 1 \<le> w \<and> w \<le> D
     then \<exists>res. foldM step [0..<?n] (replicate ?n 0, replicate (nat K) 0) = Inr res \<and> topics_ok (int ?n) K res
     else \<exists>msg. foldM step [0..<?n] (replicate ?n 0, replicate (nat K) 0) = Inl (Report msg)"
    by (simp split: if_splits)
  have "if \<forall>i<?n. True
     then \<exists>res. foldM (\<lambda>i st. rbind (guard_mem (K \<noteq> 0)) (\<lambda>_. store_topic i (int (random i) mod K + 1) st)) [0..<?n]
       (replicate ?n 0, replicate (nat K) 0) = Inr res \<and> topics_ok (int ?n) K res
     else foldM (\<lambda>i st. rbind (guard_mem (K \<noteq> 0)) (\<lambda>_. store_topic i (int (random i) mod K + 1) st)) [0..<?n]
       (replicate ?n 0, replicate (nat K) 0) = Inl (Report [])"
    using assms(3,5) by (intro sampling_loop[where t = "\<lambda>i. int (random i) mod K + 1"]) (auto simp: add1_zle_eq)
  then have "\<exists>res. randomTopics random (int ?n) K = Inr res \<and> topics_ok (int ?n) K res"
    using assms(3-5) by (simp add: randomTopics_def alloc_datums_def)
  with sample show ?thesis unfolding run by blast
qed

lemma new_topics_counted_witness:
  "\<exists>res. sampleNewTopics (\<lambda>_. 0) (construct_int4 [1, 2, 1]) (construct_int4 [1, 1, 2]) (construct_int4 [2, 1])
     (construct_int4 [1, 1, 1, 0]) (construct_int4 [2, 1]) 2 2 0x3FF0000000000000 0x3FF0000000000000 = Inr res \<and> topics_ok 3 2 res"
  using new_topics_counted[of "[1, 2, 1]" 2 2 "[1, 1, 2]" "[1, 1, 1, 0]" "[2, 1]" "[2, 1]" "\<lambda>_. 0" "0x3FF0000000000000" "0x3FF0000000000000"]
  by simp

end
