(* ===== verification/DtScv.thy ===== *)
theory DtScv
  imports DtPrune
begin

text \<open>
  The aggregate for splitting criteria of decision trees, \<open>methods/cart/src/pg_gp/dt.c\<close>: the step
  function reads rows of the attribute-class statistics, the pre-function combines the states of two
  segments, and the final function computes entropy, split information, gini index and gains.
  \<open>log\<close> of the C library is a parameter.
\<close>

section \<open>The state\<close>

text \<open>The elements of the state array, in the order of \<open>DT_SCV_STATE_ARRAY_INDEX\<close>.\<close>

record scv_state =
  CURR_FEATURE_VALUE :: float8
  CURR_FEATURE_ELEM_COUNT :: float8
  LESS_ELEM_COUNT :: float8
  GREAT_ELEM_COUNT :: float8
  TOTAL_ELEM_COUNT :: float8
  ENTROPY_DATA :: float8
  SPLIT_INFO_DATA :: float8
  GINI_DATA :: float8
  SPLIT_CRIT :: float8
  IS_CONT :: float8
  INIT_SCV :: float8
  TRUE_TOTAL_COUNT :: float8
  MAX_CLASS_ID :: float8
  MAX_CLASS_ELEM_COUNT :: float8

definition state_of_items :: "float8 list \<Rightarrow> scv_state" where
  "state_of_items xs =
     \<lparr>CURR_FEATURE_VALUE = xs ! 0, CURR_FEATURE_ELEM_COUNT = xs ! 1, LESS_ELEM_COUNT = xs ! 2, GREAT_ELEM_COUNT = xs ! 3,
      TOTAL_ELEM_COUNT = xs ! 4, ENTROPY_DATA = xs ! 5, SPLIT_INFO_DATA = xs ! 6, GINI_DATA = xs ! 7, SPLIT_CRIT = xs ! 8,
      IS_CONT = xs ! 9, INIT_SCV = xs ! 10, TRUE_TOTAL_COUNT = xs ! 11, MAX_CLASS_ID = xs ! 12, MAX_CLASS_ELEM_COUNT = xs ! 13\<rparr>"

definition items_of_state :: "scv_state \<Rightarrow> float8 list" where
  "items_of_state s =
     [CURR_FEATURE_VALUE s, CURR_FEATURE_ELEM_COUNT s, LESS_ELEM_COUNT s, GREAT_ELEM_COUNT s, TOTAL_ELEM_COUNT s, ENTROPY_DATA s,
      SPLIT_INFO_DATA s, GINI_DATA s, SPLIT_CRIT s, IS_CONT s, INIT_SCV s, TRUE_TOTAL_COUNT s, MAX_CLASS_ID s, MAX_CLASS_ELEM_COUNT s]"

text \<open>The checks of a state array, which all three functions begin with.\<close>

definition read_state :: "float8 pg_array \<Rightarrow> scv_state res" where
  "read_state a =
     rbind (check_array_dim a) (\<lambda>_.
     rbind (check (length (pg_items a) = 14) ''invalid array length'') (\<lambda>_. Inr (state_of_items (pg_items a))))"

definition DT_SC_INFOGAIN :: int where "DT_SC_INFOGAIN = 1"
definition DT_SC_GAINRATIO :: int where "DT_SC_GAINRATIO = 2"
definition DT_SC_GINI :: int where "DT_SC_GINI = 3"

definition check_criterion :: "int \<Rightarrow> unit res" where
  "check_criterion c = check (c = DT_SC_INFOGAIN \<or> c = DT_SC_GAINRATIO \<or> c = DT_SC_GINI) ''invalid split criterion''"

section \<open>The step function\<close>

text \<open>The value before the split.\<close>

definition dt_accumulate_pre_split_scv ::
    "(float8 \<Rightarrow> float8) \<Rightarrow> scv_state \<Rightarrow> float8 \<Rightarrow> float8 \<Rightarrow> int \<Rightarrow> scv_state res" where
  "dt_accumulate_pre_split_scv clog s curr_class_count total_elem_count split_criterion =
     rbind (check_criterion split_criterion) (\<lambda>_.
     rbind (check (f64_lt f64_zero total_elem_count) ''total element count must be greater than 0'') (\<lambda>_.
     rbind (check (f64_le f64_zero curr_class_count) ''current class count must be greater than or equal to 0'') (\<lambda>_.
       let p = f64_div curr_class_count total_elem_count in
       Inr (if split_criterion = DT_SC_INFOGAIN \<or> split_criterion = DT_SC_GAINRATIO
            then s\<lparr>INIT_SCV := f64_add (INIT_SCV s) (if f64_lt f64_zero p then f64_mul p (clog (f64_div f64_one p)) else f64_zero)\<rparr>
            else s\<lparr>INIT_SCV := f64_sub (INIT_SCV s) (f64_mul p p)\<rparr>))))"

text \<open>The class with the most elements so far.\<close>

definition max_class :: "float8 \<Rightarrow> float8 \<Rightarrow> scv_state \<Rightarrow> scv_state" where
  "max_class class n s =
     (if f64_lt (MAX_CLASS_ELEM_COUNT s) n then s\<lparr>MAX_CLASS_ELEM_COUNT := n, MAX_CLASS_ID := class\<rparr> else s)"

definition add_split_info :: "(float8 \<Rightarrow> float8) \<Rightarrow> float8 \<Rightarrow> scv_state \<Rightarrow> scv_state" where
  "add_split_info clog n s =
     (if dt_is_float_zero n then s else s\<lparr>SPLIT_INFO_DATA := f64_add (SPLIT_INFO_DATA s) (f64_mul n (clog n))\<rparr>)"

text \<open>The part of a class with \<open>n\<close> of the \<open>cnt\<close> elements of a side of the split.\<close>

definition add_part :: "(float8 \<Rightarrow> float8) \<Rightarrow> int \<Rightarrow> float8 \<Rightarrow> float8 \<Rightarrow> scv_state \<Rightarrow> scv_state" where
  "add_part clog split_criterion n cnt s =
     (if split_criterion = DT_SC_GAINRATIO \<or> split_criterion = DT_SC_INFOGAIN then
        if \<not> dt_is_float_zero (f64_sub n cnt) \<and> f64_lt f64_zero n \<and> f64_lt f64_zero cnt
        then s\<lparr>ENTROPY_DATA := f64_add (ENTROPY_DATA s) (f64_mul n (clog (f64_div cnt n)))\<rparr> else s
      else if f64_lt f64_zero cnt then s\<lparr>GINI_DATA := f64_add (GINI_DATA s) (f64_div (f64_mul n n) cnt)\<rparr> else s)"

text \<open>The elements that the first row sets.\<close>

definition init_state :: "int \<Rightarrow> bool \<Rightarrow> float8 \<Rightarrow> scv_state \<Rightarrow> scv_state" where
  "init_state split_criterion is_cont_feature true_total_count s =
     (if dt_is_float_zero (TOTAL_ELEM_COUNT s)
      then s\<lparr>SPLIT_CRIT := f64_of_int split_criterion,
             INIT_SCV := (if split_criterion = DT_SC_GINI then f64_one else f64_zero),
             IS_CONT := (if is_cont_feature then f64_one else f64_zero),
             TRUE_TOTAL_COUNT := true_total_count\<rparr>
      else s)"

text \<open>A row without a feature value: the number of elements, or that of a class.\<close>

definition null_row :: "(float8 \<Rightarrow> float8) \<Rightarrow> int \<Rightarrow> float8 \<Rightarrow> bool \<Rightarrow> float8 \<Rightarrow> scv_state \<Rightarrow> scv_state res" where
  "null_row clog split_criterion class is_cont_feature le s =
     (if is_cont_feature then Inl (Report ''continuous features must not have null feature value'')
      else if f64_lt class f64_zero then Inr (s\<lparr>TOTAL_ELEM_COUNT := le\<rparr>)
      else let s = max_class class le s in dt_accumulate_pre_split_scv clog s le (TOTAL_ELEM_COUNT s) split_criterion)"

text \<open>A row without a class: the number of elements of a feature value.\<close>

definition total_row :: "(float8 \<Rightarrow> float8) \<Rightarrow> int \<Rightarrow> float8 \<Rightarrow> bool \<Rightarrow> float8 \<Rightarrow> float8 \<Rightarrow> scv_state \<Rightarrow> scv_state" where
  "total_row clog split_criterion feature_val is_cont_feature le gt s =
     (if \<not> is_cont_feature then
        let s = s\<lparr>CURR_FEATURE_VALUE := feature_val, CURR_FEATURE_ELEM_COUNT := le\<rparr>
        in if split_criterion = DT_SC_GAINRATIO then add_split_info clog le s else s
      else
        let s = s\<lparr>LESS_ELEM_COUNT := le, GREAT_ELEM_COUNT := gt\<rparr>;
            s = (if split_criterion = DT_SC_GAINRATIO then add_split_info clog gt (add_split_info clog le s) else s)
        in s\<lparr>TOTAL_ELEM_COUNT := f64_add le gt\<rparr>)"

text \<open>A row with a feature value and a class.\<close>

definition class_row :: "(float8 \<Rightarrow> float8) \<Rightarrow> int \<Rightarrow> float8 \<Rightarrow> bool \<Rightarrow> float8 \<Rightarrow> float8 \<Rightarrow> scv_state \<Rightarrow> scv_state res" where
  "class_row clog split_criterion class is_cont_feature le gt s =
     (if \<not> is_cont_feature then Inr (add_part clog split_criterion le (CURR_FEATURE_ELEM_COUNT s) s)
      else
        let n = f64_add le gt; s = max_class class n s in
        rbind (dt_accumulate_pre_split_scv clog s n (TOTAL_ELEM_COUNT s) split_criterion) (\<lambda>s.
          Inr (add_part clog split_criterion gt (GREAT_ELEM_COUNT s) (add_part clog split_criterion le (LESS_ELEM_COUNT s) s))))"

text \<open>The function on a row; \<open>None\<close> is NULL.\<close>

record acs_row =
  fval :: "float8 option"
  class_id :: "float8 option"
  is_cont :: "bool option"
  le_count :: "float8 option"
  gt_count :: "float8 option"
  true_total :: "float8 option"

definition or_default :: "'a \<Rightarrow> 'a option \<Rightarrow> 'a" where
  "or_default d x = (case x of None \<Rightarrow> d | Some v \<Rightarrow> v)"

definition scv_step :: "(float8 \<Rightarrow> float8) \<Rightarrow> int \<Rightarrow> acs_row \<Rightarrow> scv_state \<Rightarrow> scv_state res" where
  "scv_step clog split_criterion row s =
     (let class = or_default (f64_of_int (- 1)) (class_id row);
          is_cont_feature = or_default False (is_cont row);
          le = or_default f64_zero (le_count row);
          gt = or_default f64_zero (gt_count row)
      in rbind (check_criterion split_criterion) (\<lambda>_.
         let s = init_state split_criterion is_cont_feature (or_default f64_zero (true_total row)) s
         in case fval row of
              None \<Rightarrow> null_row clog split_criterion class is_cont_feature le s
            | Some feature_val \<Rightarrow>
                if f64_lt class f64_zero then Inr (total_row clog split_criterion feature_val is_cont_feature le gt s)
                else class_row clog split_criterion class is_cont_feature le gt s))"

definition dt_scv_aggr_sfunc ::
    "(float8 \<Rightarrow> float8) \<Rightarrow> float8 pg_array \<Rightarrow> int \<Rightarrow> acs_row \<Rightarrow> float8 pg_array res" where
  "dt_scv_aggr_sfunc clog scv_state_array split_criterion row =
     rbind (read_state scv_state_array) (\<lambda>s.
     rbind (scv_step clog split_criterion row s) (\<lambda>s. Inr (pg_array1 (items_of_state s))))"

section \<open>Combining two states\<close>

definition combine_scv :: "scv_state \<Rightarrow> scv_state \<Rightarrow> scv_state" where
  "combine_scv s s2 =
     (let s = s\<lparr>TOTAL_ELEM_COUNT := f64_add (TOTAL_ELEM_COUNT s) (TOTAL_ELEM_COUNT s2),
                ENTROPY_DATA := f64_add (ENTROPY_DATA s) (ENTROPY_DATA s2),
                SPLIT_INFO_DATA := f64_add (SPLIT_INFO_DATA s) (SPLIT_INFO_DATA s2),
                GINI_DATA := f64_add (GINI_DATA s) (GINI_DATA s2)\<rparr>;
          s = (if dt_is_float_zero (SPLIT_CRIT s)
               then s\<lparr>SPLIT_CRIT := SPLIT_CRIT s2, TRUE_TOTAL_COUNT := TRUE_TOTAL_COUNT s2, IS_CONT := IS_CONT s2\<rparr> else s)
      in max_class (MAX_CLASS_ID s2) (MAX_CLASS_ELEM_COUNT s2) s)"

definition dt_scv_aggr_prefunc :: "float8 pg_array \<Rightarrow> float8 pg_array \<Rightarrow> float8 pg_array res" where
  "dt_scv_aggr_prefunc scv_state_array scv_state_array2 =
     rbind (read_state scv_state_array) (\<lambda>s.
     rbind (read_state scv_state_array2) (\<lambda>s2. Inr (pg_array1 (items_of_state (combine_scv s s2)))))"

section \<open>The final function\<close>

text \<open>The elements of the result, in the order of \<open>DT_SCV_FINAL_ARRAY_INDEX\<close>.\<close>

record scv_final =
  FINAL_ENTROPY :: float8
  FINAL_SPLIT_INFO :: float8
  FINAL_GINI :: float8
  FINAL_SPLIT_CRITERION :: float8
  FINAL_INFO_GAIN :: float8
  FINAL_GAIN_RATIO :: float8
  FINAL_GINI_GAIN :: float8
  FINAL_IS_CONT_FEATURE :: float8
  FINAL_CLASS_ID :: float8
  FINAL_CLASS_PROB :: float8
  FINAL_TOTAL_COUNT :: float8

definition items_of_final :: "scv_final \<Rightarrow> float8 list" where
  "items_of_final r =
     [FINAL_ENTROPY r, FINAL_SPLIT_INFO r, FINAL_GINI r, FINAL_SPLIT_CRITERION r, FINAL_INFO_GAIN r, FINAL_GAIN_RATIO r,
      FINAL_GINI_GAIN r, FINAL_IS_CONT_FEATURE r, FINAL_CLASS_ID r, FINAL_CLASS_PROB r, FINAL_TOTAL_COUNT r]"

text \<open>The gains of the entropy criteria, and of the gini index.\<close>

definition entropy_gains :: "(float8 \<Rightarrow> float8) \<Rightarrow> int \<Rightarrow> scv_state \<Rightarrow> float8 \<Rightarrow> scv_final \<Rightarrow> scv_final" where
  "entropy_gains clog criterion s ratio r =
     (let entropy = f64_div (ENTROPY_DATA s) (TOTAL_ELEM_COUNT s);
          gain = f64_mul (f64_sub (INIT_SCV s) entropy) ratio;
          r = r\<lparr>FINAL_ENTROPY := entropy, FINAL_INFO_GAIN := gain\<rparr>
      in if criterion = DT_SC_GAINRATIO then
           let info = f64_sub (clog (TOTAL_ELEM_COUNT s)) (f64_div (SPLIT_INFO_DATA s) (TOTAL_ELEM_COUNT s))
           in r\<lparr>FINAL_SPLIT_INFO := info,
                FINAL_GAIN_RATIO := (if \<not> dt_is_float_zero info \<and> \<not> dt_is_float_zero gain then f64_div gain info else f64_zero)\<rparr>
         else r)"

definition gini_gains :: "scv_state \<Rightarrow> float8 \<Rightarrow> scv_final \<Rightarrow> scv_final" where
  "gini_gains s ratio r =
     (let gini = f64_sub f64_one (f64_div (GINI_DATA s) (TOTAL_ELEM_COUNT s))
      in r\<lparr>FINAL_GINI := gini, FINAL_GINI_GAIN := f64_mul (f64_sub (INIT_SCV s) gini) ratio\<rparr>)"

definition dt_scv_aggr_ffunc :: "(float8 \<Rightarrow> float8) \<Rightarrow> float8 pg_array \<Rightarrow> float8 pg_array res" where
  "dt_scv_aggr_ffunc clog scv_state_array =
     rbind (read_state scv_state_array) (\<lambda>s.
     let s = (if f64_lt f64_zero (TRUE_TOTAL_COUNT s) then s else s\<lparr>TRUE_TOTAL_COUNT := TOTAL_ELEM_COUNT s\<rparr>) in
     rbind (check (f64_lt f64_zero (TRUE_TOTAL_COUNT s)) ''true total count should be greater than 0'') (\<lambda>_.
     let ratio = f64_div (TOTAL_ELEM_COUNT s) (TRUE_TOTAL_COUNT s);
         r = \<lparr>FINAL_ENTROPY = f64_zero, FINAL_SPLIT_INFO = f64_zero, FINAL_GINI = f64_zero, FINAL_SPLIT_CRITERION = SPLIT_CRIT s,
              FINAL_INFO_GAIN = f64_zero, FINAL_GAIN_RATIO = f64_zero, FINAL_GINI_GAIN = f64_zero,
              FINAL_IS_CONT_FEATURE = IS_CONT s, FINAL_CLASS_ID = MAX_CLASS_ID s,
              FINAL_CLASS_PROB = f64_div (MAX_CLASS_ELEM_COUNT s) (TRUE_TOTAL_COUNT s), FINAL_TOTAL_COUNT = TRUE_TOTAL_COUNT s\<rparr>
     in rbind (check (\<not> dt_is_float_zero (TOTAL_ELEM_COUNT s)) ''number of total element counts'') (\<lambda>_.
        rbind (f64_to_int (SPLIT_CRIT s)) (\<lambda>criterion.
        rbind (check_criterion criterion) (\<lambda>_.
          Inr (pg_array1 (items_of_final
            (if criterion = DT_SC_INFOGAIN \<or> criterion = DT_SC_GAINRATIO then entropy_gains clog criterion s ratio r
             else gini_gains s ratio r))))))))"

end
