(* ===== verification/DtScvFacts.thy ===== *)
theory DtScvFacts
  imports DtScv Complex_Main
begin

text \<open>
  The criteria of a discrete feature as formulas over the rows, for every stream of rows in the order of the
  attribute-class statistics, and the identities of the comment in front of the aggregate, by which these formulas
  are the weighted entropy and the weighted gini index of the split in exact arithmetic.
\<close>

section \<open>States as arrays\<close>

lemma state_of_items_of_state [simp]: "state_of_items (items_of_state s) = s"
  by (cases s) (simp add: state_of_items_def items_of_state_def)

lemma read_state_items [simp]: "read_state (pg_array1 (items_of_state s)) = Inr s"
  by (simp add: read_state_def) (simp add: items_of_state_def)

text \<open>The aggregate over arrays is the fold of the steps over states.\<close>

lemma sfunc_steps:
  "foldM (scv_step clog cr) rows s = Inr s' \<Longrightarrow>
   foldM (\<lambda>row a. dt_scv_aggr_sfunc clog a cr row) rows (pg_array1 (items_of_state s)) = Inr (pg_array1 (items_of_state s'))"
proof (induction rows arbitrary: s)
  case (Cons row rows)
  then obtain t where "scv_step clog cr row s = Inr t" "foldM (scv_step clog cr) rows t = Inr s'"
    by (auto simp: rbind_eq_Inr_iff)
  with Cons.IH[of t] show ?case by (simp add: dt_scv_aggr_sfunc_def)
qed simp

section \<open>The rows of a discrete feature\<close>

text \<open>
  The total number of elements, the number of elements of each class, and for each value of the feature the
  number of its elements and of its elements of each class.
\<close>

definition row :: "float8 option \<Rightarrow> float8 option \<Rightarrow> float8 \<Rightarrow> float8 \<Rightarrow> acs_row" where
  "row v k n ttc = \<lparr>fval = v, class_id = k, is_cont = Some False, le_count = Some n, gt_count = None, true_total = Some ttc\<rparr>"

type_synonym 'a class_counts = "('a \<times> 'a) list"
type_synonym 'a value_group = "'a \<times> 'a \<times> 'a class_counts"

definition group_rows :: "float8 \<Rightarrow> float8 value_group \<Rightarrow> acs_row list" where
  "group_rows ttc g = (case g of (v, stc, cs) \<Rightarrow> row (Some v) None stc ttc # map (\<lambda>(k, c). row (Some v) (Some k) c ttc) cs)"

definition discrete_rows :: "float8 \<Rightarrow> float8 \<Rightarrow> float8 class_counts \<Rightarrow> float8 value_group list \<Rightarrow> acs_row list" where
  "discrete_rows ttc tc classes groups =
     row None None tc ttc # map (\<lambda>(k, n). row None (Some k) n ttc) classes @ concat (map (group_rows ttc) groups)"

section \<open>The formulas\<close>

text \<open>The formulas are over the operations of an arithmetic: that of doubles, or that of real numbers.\<close>

record 'a arith =
  a_zero :: 'a
  a_one :: 'a
  a_add :: "'a \<Rightarrow> 'a \<Rightarrow> 'a"
  a_sub :: "'a \<Rightarrow> 'a \<Rightarrow> 'a"
  a_mul :: "'a \<Rightarrow> 'a \<Rightarrow> 'a"
  a_div :: "'a \<Rightarrow> 'a \<Rightarrow> 'a"
  a_less :: "'a \<Rightarrow> 'a \<Rightarrow> bool"
  a_is_zero :: "'a \<Rightarrow> bool"
  a_log :: "'a \<Rightarrow> 'a"

definition f64_arith :: "(float8 \<Rightarrow> float8) \<Rightarrow> float8 arith" where
  "f64_arith clog = \<lparr>a_zero = f64_zero, a_one = f64_one, a_add = f64_add, a_sub = f64_sub, a_mul = f64_mul, a_div = f64_div,
     a_less = f64_lt, a_is_zero = dt_is_float_zero, a_log = clog\<rparr>"

definition real_arith :: "real arith" where
  "real_arith = \<lparr>a_zero = 0, a_one = 1, a_add = (+), a_sub = (-), a_mul = (*), a_div = (/), a_less = (<),
     a_is_zero = (\<lambda>x. x = 0), a_log = ln\<rparr>"

lemma f64_arith_simps [simp]:
  "a_zero (f64_arith clog) = f64_zero" "a_one (f64_arith clog) = f64_one" "a_add (f64_arith clog) = f64_add"
  "a_sub (f64_arith clog) = f64_sub" "a_mul (f64_arith clog) = f64_mul" "a_div (f64_arith clog) = f64_div"
  "a_less (f64_arith clog) = f64_lt" "a_is_zero (f64_arith clog) = dt_is_float_zero" "a_log (f64_arith clog) = clog"
  by (simp_all add: f64_arith_def)

lemma real_arith_simps [simp]:
  "a_zero real_arith = 0" "a_one real_arith = 1" "a_add real_arith = (+)" "a_sub real_arith = (-)" "a_mul real_arith = (*)"
  "a_div real_arith = (/)" "a_less real_arith = (<)" "a_is_zero real_arith x \<longleftrightarrow> x = 0" "a_log real_arith = ln"
  by (simp_all add: real_arith_def)

definition a_sum :: "'a arith \<Rightarrow> 'a list \<Rightarrow> 'a" where "a_sum A xs = foldl (a_add A) (a_zero A) xs"

text \<open>The value before the split: 1 less the squares of the class probabilities, or the sum of \<open>p*log(1/p)\<close>.\<close>

definition before_split :: "'a arith \<Rightarrow> int \<Rightarrow> 'a \<Rightarrow> 'a class_counts \<Rightarrow> 'a" where
  "before_split A cr tc classes =
     (if cr = DT_SC_GINI then foldl (a_sub A) (a_one A) (map (\<lambda>(k, n). a_mul A (a_div A n tc) (a_div A n tc)) classes)
      else a_sum A (map (\<lambda>(k, n). let p = a_div A n tc in
             if a_less A (a_zero A) p then a_mul A p (a_log A (a_div A (a_one A) p)) else a_zero A) classes))"

text \<open>\<open>c^2/STC\<close>, or \<open>c*log(STC/c)\<close>, for the classes of the values of the feature; zero terms are left out.\<close>

definition part_terms :: "'a arith \<Rightarrow> int \<Rightarrow> 'a \<Rightarrow> 'a \<times> 'a \<Rightarrow> 'a list" where
  "part_terms A cr stc kc = (case kc of (k, c) \<Rightarrow>
     if cr = DT_SC_GINI then (if a_less A (a_zero A) stc then [a_div A (a_mul A c c) stc] else [])
     else if \<not> a_is_zero A (a_sub A c stc) \<and> a_less A (a_zero A) c \<and> a_less A (a_zero A) stc
     then [a_mul A c (a_log A (a_div A stc c))] else [])"

definition split_terms :: "'a arith \<Rightarrow> int \<Rightarrow> 'a value_group list \<Rightarrow> 'a list" where
  "split_terms A cr groups = concat (map (\<lambda>(v, stc, cs). concat (map (part_terms A cr stc) cs)) groups)"

definition info_terms :: "'a arith \<Rightarrow> 'a value_group list \<Rightarrow> 'a list" where
  "info_terms A groups = concat (map (\<lambda>(v, stc, cs). if a_is_zero A stc then [] else [a_mul A stc (a_log A stc)]) groups)"

text \<open>The value after the split, the gain, the split information and the gain ratio.\<close>

definition after_split :: "'a arith \<Rightarrow> int \<Rightarrow> 'a \<Rightarrow> 'a value_group list \<Rightarrow> 'a" where
  "after_split A cr tc groups =
     (let q = a_div A (a_sum A (split_terms A cr groups)) tc in if cr = DT_SC_GINI then a_sub A (a_one A) q else q)"

definition split_gain :: "'a arith \<Rightarrow> int \<Rightarrow> 'a \<Rightarrow> 'a \<Rightarrow> 'a class_counts \<Rightarrow> 'a value_group list \<Rightarrow> 'a" where
  "split_gain A cr ttc tc classes groups =
     a_mul A (a_sub A (before_split A cr tc classes) (after_split A cr tc groups)) (a_div A tc ttc)"

definition split_info :: "'a arith \<Rightarrow> 'a \<Rightarrow> 'a value_group list \<Rightarrow> 'a" where
  "split_info A tc groups = a_sub A (a_log A tc) (a_div A (a_sum A (info_terms A groups)) tc)"

definition gain_ratio :: "'a arith \<Rightarrow> 'a \<Rightarrow> 'a \<Rightarrow> 'a" where
  "gain_ratio A info gain = (if \<not> a_is_zero A info \<and> \<not> a_is_zero A gain then a_div A gain info else a_zero A)"

text \<open>The result of the aggregate, with the most frequent class and its count.\<close>

definition scv_formula :: "float8 arith \<Rightarrow> int \<Rightarrow> float8 \<Rightarrow> float8 \<Rightarrow> float8 class_counts \<Rightarrow> float8 value_group list \<Rightarrow> float8 \<times> float8 \<Rightarrow> scv_final" where
  "scv_formula A cr ttc tc classes groups most =
     (let after = after_split A cr tc groups; gain = split_gain A cr ttc tc classes groups; info = split_info A tc groups
      in \<lparr>FINAL_ENTROPY = (if cr = DT_SC_GINI then f64_zero else after),
          FINAL_SPLIT_INFO = (if cr = DT_SC_GAINRATIO then info else f64_zero),
          FINAL_GINI = (if cr = DT_SC_GINI then after else f64_zero),
          FINAL_SPLIT_CRITERION = f64_of_int cr,
          FINAL_INFO_GAIN = (if cr = DT_SC_GINI then f64_zero else gain),
          FINAL_GAIN_RATIO = (if cr = DT_SC_GAINRATIO then gain_ratio A info gain else f64_zero),
          FINAL_GINI_GAIN = (if cr = DT_SC_GINI then gain else f64_zero),
          FINAL_IS_CONT_FEATURE = f64_zero,
          FINAL_CLASS_ID = fst most,
          FINAL_CLASS_PROB = f64_div (snd most) ttc,
          FINAL_TOTAL_COUNT = ttc\<rparr>)"

section \<open>The most frequent class\<close>

text \<open>The first class with the most elements, and their number; 0 and 0 when no class has elements.\<close>

definition first_most_frequent :: "float8 class_counts \<Rightarrow> float8 \<times> float8 \<Rightarrow> bool" where
  "first_most_frequent classes most \<longleftrightarrow>
     most = (f64_zero, f64_zero) \<and> (\<forall>(k, n)\<in>set classes. \<not> f64_lt f64_zero n) \<or>
     (\<exists>before after. classes = before @ most # after \<and> f64_lt f64_zero (snd most) \<and>
        (\<forall>(k, n)\<in>set before. f64_lt n (snd most)) \<and> (\<forall>(k, n)\<in>set after. \<not> f64_lt (snd most) n))"

definition most_frequent :: "float8 class_counts \<Rightarrow> float8 \<times> float8" where
  "most_frequent classes = foldl (\<lambda>(id, m) (k, n). if f64_lt m n then (k, n) else (id, m)) (f64_zero, f64_zero) classes"

lemma most_frequent_snoc:
  "most_frequent (xs @ [(k, n)]) = (if f64_lt (snd (most_frequent xs)) n then (k, n) else most_frequent xs)"
  by (simp add: most_frequent_def split: prod.splits)

lemma most_frequent_first:
  "\<forall>(k, n)\<in>set classes. f64_le f64_zero n \<Longrightarrow> first_most_frequent classes (most_frequent classes)"
proof (induction classes rule: rev_induct)
  case Nil
  then show ?case by (simp add: first_most_frequent_def most_frequent_def)
next
  case (snoc kn xs)
  obtain k n where kn: "kn = (k, n)" by fastforce
  define r where "r = most_frequent xs"
  have nan: "\<not> f64_is_nan n" "\<forall>(k, n)\<in>set xs. \<not> f64_is_nan n" using snoc.prems kn by (auto simp: f64_le_def)
  from snoc have "first_most_frequent xs r" by (simp add: r_def)
  then consider (none) "r = (f64_zero, f64_zero)" "\<forall>(k, n)\<in>set xs. \<not> f64_lt f64_zero n"
    | (some) before after where "xs = before @ r # after" "f64_lt f64_zero (snd r)"
        "\<forall>(k, n)\<in>set before. f64_lt n (snd r)" "\<forall>(k, n)\<in>set after. \<not> f64_lt (snd r) n"
    unfolding first_most_frequent_def by blast
  then show ?case
  proof cases
    case none
    have zero: "\<not> f64_is_nan f64_zero" by code_simp
    show ?thesis
    proof (cases "f64_lt f64_zero n")
      case True
      have "\<forall>(k', n')\<in>set xs. f64_lt n' n" using none(2) nan True zero by (fastforce simp: f64_lt_def not_less)
      then have "first_most_frequent (xs @ [kn]) kn"
        unfolding first_most_frequent_def using True kn by (intro disjI2 exI[of _ xs] exI[of _ "[]"]) auto
      then show ?thesis using True none(1) by (simp add: kn most_frequent_snoc flip: r_def)
    next
      case False
      then show ?thesis using none by (simp add: kn most_frequent_snoc first_most_frequent_def flip: r_def)
    qed
  next
    case some
    show ?thesis
    proof (cases "f64_lt (snd r) n")
      case True
      have "\<forall>(k', n')\<in>set xs. f64_lt n' n"
        using some(1,3,4) nan True by (fastforce simp: f64_lt_def not_less)
      moreover have "f64_lt f64_zero n" using some(2) True by (auto simp: f64_lt_def)
      ultimately have "first_most_frequent (xs @ [kn]) kn"
        unfolding first_most_frequent_def using kn by (intro disjI2 exI[of _ xs] exI[of _ "[]"]) auto
      then show ?thesis using True by (simp add: kn most_frequent_snoc flip: r_def)
    next
      case False
      have "first_most_frequent (xs @ [kn]) r"
        unfolding first_most_frequent_def using some False kn by (intro disjI2 exI[of _ before] exI[of _ "after @ [kn]"]) auto
      then show ?thesis using False by (simp add: kn most_frequent_snoc flip: r_def)
    qed
  qed
qed

section \<open>The formulas in exact arithmetic\<close>

text \<open>The entropy and the gini index of probabilities, and counts that add up.\<close>

definition entropy :: "real list \<Rightarrow> real" where "entropy ps = (\<Sum>p\<leftarrow>ps. if p = 0 then 0 else p * ln (1 / p))"

definition gini_index :: "real list \<Rightarrow> real" where "gini_index ps = 1 - (\<Sum>p\<leftarrow>ps. p\<^sup>2)"

definition impurity :: "int \<Rightarrow> real list \<Rightarrow> real" where
  "impurity cr = (if cr = DT_SC_GINI then gini_index else entropy)"

definition counts_add_up :: "real \<Rightarrow> real class_counts \<Rightarrow> real value_group list \<Rightarrow> bool" where
  "counts_add_up T classes groups \<longleftrightarrow> 0 < T \<and> (\<forall>(k, n)\<in>set classes. 0 \<le> n) \<and> (\<Sum>(v, S, cs)\<leftarrow>groups. S) = T \<and>
     (\<forall>(v, S, cs)\<in>set groups. 0 < S \<and> (\<forall>(k, c)\<in>set cs. 0 \<le> c) \<and> (\<Sum>(k, c)\<leftarrow>cs. c) = S)"

lemma foldl_plus: "foldl (+) (a :: real) xs = a + sum_list xs"
  by (induction xs arbitrary: a) (simp_all add: ac_simps)

lemma foldl_minus: "foldl (-) (a :: real) xs = a - sum_list xs"
  by (induction xs arbitrary: a) simp_all

lemma a_sum_real: "a_sum real_arith xs = sum_list xs"
  by (simp add: a_sum_def foldl_plus)

lemma sum_list_cong: "(\<And>x. x \<in> set xs \<Longrightarrow> f x = g x) \<Longrightarrow> (\<Sum>x\<leftarrow>xs. f x) = (\<Sum>x\<leftarrow>xs. g x)"
  by (rule arg_cong[where f = sum_list]) simp

lemma before_split_impurity:
  assumes "0 < T" "\<forall>(k, n)\<in>set classes. 0 \<le> n"
  shows "before_split real_arith cr T classes = impurity cr (map (\<lambda>(k, n). n / T) classes)"
proof -
  have "(\<Sum>(k, n)\<leftarrow>classes. if 0 < n / T then n / T * ln (1 / (n / T)) else 0) =
      (\<Sum>(k, n)\<leftarrow>classes. if n / T = 0 then 0 else n / T * ln (1 / (n / T)))"
    using assms by (intro sum_list_cong) (auto simp: zero_less_divide_iff)
  then show ?thesis
    by (simp add: before_split_def impurity_def gini_index_def entropy_def a_sum_real foldl_minus Let_def power2_eq_square
        comp_def case_prod_unfold cong: if_cong)
qed

text \<open>The terms of a group are \<open>STC\<close> times its entropy, or \<open>STC\<close> times 1 less its gini index.\<close>

lemma part_terms_entropy:
  assumes "cr \<noteq> DT_SC_GINI" "0 < S" "\<forall>(k, c)\<in>set cs. 0 \<le> c"
  shows "sum_list (concat (map (part_terms real_arith cr S) cs)) = S * entropy (map (\<lambda>(k, c). c / S) cs)"
  using assms(3)
proof (induction cs)
  case (Cons kc cs)
  obtain k c where kc: "kc = (k, c)" by fastforce
  have "sum_list (part_terms real_arith cr S (k, c)) = S * (if c / S = 0 then 0 else c / S * ln (1 / (c / S)))"
    using assms(1,2) Cons.prems kc by (auto simp: part_terms_def)
  with Cons show ?case by (simp add: kc entropy_def distrib_left)
qed (simp add: entropy_def)

lemma part_terms_gini:
  assumes "0 < S"
  shows "sum_list (concat (map (part_terms real_arith DT_SC_GINI S) cs)) = S * (1 - gini_index (map (\<lambda>(k, c). c / S) cs))"
  using assms by (induction cs) (auto simp: part_terms_def gini_index_def power2_eq_square field_simps)

lemma after_split_impurity:
  assumes "counts_add_up T classes groups"
  shows "after_split real_arith cr T groups = (\<Sum>(v, S, cs)\<leftarrow>groups. S / T * impurity cr (map (\<lambda>(k, c). c / S) cs))"
proof -
  define f where "f = (\<lambda>(v :: real, S, cs :: real class_counts). S * impurity cr (map (\<lambda>(k, c). c / S) cs))"
  have T: "0 < T" "(\<Sum>(v, S, cs)\<leftarrow>groups. S) = T" using assms by (simp_all add: counts_add_up_def)
  have flat: "sum_list (split_terms real_arith cr gs) =
      (\<Sum>(v, S, cs)\<leftarrow>gs. sum_list (concat (map (part_terms real_arith cr S) cs)))" for gs
    by (induction gs) (auto simp: split_terms_def)
  have "after_split real_arith cr T groups = (\<Sum>g\<leftarrow>groups. f g) / T"
  proof (cases "cr = DT_SC_GINI")
    case True
    have "(\<Sum>(v, S, cs)\<leftarrow>groups. sum_list (concat (map (part_terms real_arith cr S) cs))) =
        (\<Sum>g\<leftarrow>groups. fst (snd g) - f g)"
      using assms part_terms_gini True
      by (intro sum_list_cong) (fastforce simp: counts_add_up_def f_def impurity_def right_diff_distrib)
    also have "\<dots> = T - (\<Sum>g\<leftarrow>groups. f g)" using T(2) by (simp add: sum_list_subtractf case_prod_unfold)
    finally show ?thesis using True T(1) unfolding after_split_def a_sum_real flat by (simp add: diff_divide_distrib)
  next
    case False
    have "(\<Sum>(v, S, cs)\<leftarrow>groups. sum_list (concat (map (part_terms real_arith cr S) cs))) = (\<Sum>g\<leftarrow>groups. f g)"
      using assms part_terms_entropy[OF False] False
      by (intro sum_list_cong) (fastforce simp: counts_add_up_def f_def impurity_def)
    then show ?thesis using False unfolding after_split_def a_sum_real flat by simp
  qed
  also have "\<dots> = (\<Sum>(v, S, cs)\<leftarrow>groups. S / T * impurity cr (map (\<lambda>(k, c). c / S) cs))"
    by (simp add: divide_inverse f_def case_prod_unfold flip: sum_list_mult_const) (simp add: ac_simps)
  finally show ?thesis .
qed

lemma split_info_entropy:
  assumes "counts_add_up T classes groups"
  shows "split_info real_arith T groups = entropy (map (\<lambda>(v, S, cs). S / T) groups)"
proof -
  have T: "0 < T" "(\<Sum>(v, S, cs)\<leftarrow>groups. S) = T" "\<forall>(v, S, cs)\<in>set groups. 0 < S"
    using assms by (auto simp: counts_add_up_def)
  have flat: "sum_list (info_terms real_arith gs) = (\<Sum>(v, S, cs)\<leftarrow>gs. S * ln S)" for gs
    by (induction gs) (auto simp: info_terms_def)
  have "entropy (map (\<lambda>(v, S, cs). S / T) groups) = (\<Sum>(v, S, cs)\<leftarrow>groups. (S * ln T - S * ln S) / T)"
    unfolding entropy_def map_map
    by (intro sum_list_cong) (use T in \<open>auto simp: ln_div right_diff_distrib diff_divide_distrib\<close>)
  also have "\<dots> = (\<Sum>(v, S, cs)\<leftarrow>groups. S) * ln T / T - (\<Sum>(v, S, cs)\<leftarrow>groups. S * ln S) / T"
    by (simp add: divide_inverse case_prod_unfold sum_list_subtractf left_diff_distrib flip: sum_list_mult_const)
  finally show ?thesis using T(1,2) by (simp add: split_info_def a_sum_real flat)
qed

section \<open>The phases of the aggregate\<close>

definition criterion_ok :: "int \<Rightarrow> bool" where
  "criterion_ok cr \<longleftrightarrow> cr = DT_SC_INFOGAIN \<or> cr = DT_SC_GAINRATIO \<or> cr = DT_SC_GINI"

lemma criteria: "DT_SC_INFOGAIN \<noteq> DT_SC_GINI" "DT_SC_GAINRATIO \<noteq> DT_SC_GINI" "DT_SC_INFOGAIN \<noteq> DT_SC_GAINRATIO"
  by (simp_all add: DT_SC_INFOGAIN_def DT_SC_GAINRATIO_def DT_SC_GINI_def)

lemma check_criterion_ok: "criterion_ok cr \<Longrightarrow> check_criterion cr = Inr ()"
  by (simp add: criterion_ok_def check_criterion_def)

lemma init_state_running: "\<not> dt_is_float_zero (TOTAL_ELEM_COUNT s) \<Longrightarrow> init_state cr c t s = s"
  by (simp add: init_state_def)

definition pre_term :: "(float8 \<Rightarrow> float8) \<Rightarrow> int \<Rightarrow> float8 \<Rightarrow> float8 \<Rightarrow> float8 \<Rightarrow> float8" where
  "pre_term clog cr tc a n =
     (let p = f64_div n tc in
      if cr = DT_SC_GINI then f64_sub a (f64_mul p p)
      else f64_add a (if f64_lt f64_zero p then f64_mul p (clog (f64_div f64_one p)) else f64_zero))"

lemma class_step:
  assumes "criterion_ok cr" "\<not> dt_is_float_zero (TOTAL_ELEM_COUNT s)" "f64_lt f64_zero (TOTAL_ELEM_COUNT s)"
    "\<not> f64_lt k f64_zero" "f64_le f64_zero n"
  shows "scv_step clog cr (row None (Some k) n ttc) s =
    Inr ((max_class k n s)\<lparr>INIT_SCV := pre_term clog cr (TOTAL_ELEM_COUNT s) (INIT_SCV s) n\<rparr>)"
  using assms criteria
  by (auto simp: scv_step_def row_def or_default_def check_criterion_ok init_state_running null_row_def Let_def
      dt_accumulate_pre_split_scv_def pre_term_def max_class_def criterion_ok_def)

lemma class_steps:
  assumes "criterion_ok cr" "\<not> dt_is_float_zero (TOTAL_ELEM_COUNT s)" "f64_lt f64_zero (TOTAL_ELEM_COUNT s)"
    "\<forall>(k, n)\<in>set classes. \<not> f64_lt k f64_zero \<and> f64_le f64_zero n"
  shows "foldM (scv_step clog cr) (map (\<lambda>(k, n). row None (Some k) n ttc) classes) s =
    (let (id, m) = foldl (\<lambda>(id, m) (k, n). if f64_lt m n then (k, n) else (id, m)) (MAX_CLASS_ID s, MAX_CLASS_ELEM_COUNT s) classes
     in Inr (s\<lparr>INIT_SCV := foldl (\<lambda>a (k, n). pre_term clog cr (TOTAL_ELEM_COUNT s) a n) (INIT_SCV s) classes,
               MAX_CLASS_ID := id, MAX_CLASS_ELEM_COUNT := m\<rparr>))"
  using assms(2-4)
proof (induction classes arbitrary: s)
  case (Cons kn classes)
  obtain k n where kn: "kn = (k, n)" by fastforce
  define t where "t = (max_class k n s)\<lparr>INIT_SCV := pre_term clog cr (TOTAL_ELEM_COUNT s) (INIT_SCV s) n\<rparr>"
  have step: "scv_step clog cr (row None (Some k) n ttc) s = Inr t"
    unfolding t_def using Cons.prems kn by (intro class_step[OF assms(1)]) auto
  have t: "TOTAL_ELEM_COUNT t = TOTAL_ELEM_COUNT s" by (simp add: t_def max_class_def)
  have "\<forall>(k, n)\<in>set classes. \<not> f64_lt k f64_zero \<and> f64_le f64_zero n" using Cons.prems(3) by simp
  from Cons.IH[OF _ _ this, of t] show ?case
    using step t Cons.prems(1,2) by (simp add: kn t_def max_class_def Let_def split: prod.splits)
qed simp

text \<open>The terms of the groups go to the field of the criterion.\<close>

definition add_terms :: "int \<Rightarrow> float8 list \<Rightarrow> float8 list \<Rightarrow> scv_state \<Rightarrow> scv_state" where
  "add_terms cr terms info s =
     s\<lparr>ENTROPY_DATA := (if cr = DT_SC_GINI then ENTROPY_DATA s else foldl f64_add (ENTROPY_DATA s) terms),
       GINI_DATA := (if cr = DT_SC_GINI then foldl f64_add (GINI_DATA s) terms else GINI_DATA s),
       SPLIT_INFO_DATA := (if cr = DT_SC_GAINRATIO then foldl f64_add (SPLIT_INFO_DATA s) info else SPLIT_INFO_DATA s)\<rparr>"

lemma add_terms_append: "add_terms cr (xs @ ys) (is @ js) s = add_terms cr ys js (add_terms cr xs is s)"
  by (simp add: add_terms_def)

lemma minus_one_negative: "f64_lt (f64_of_int (- 1)) f64_zero"
  by code_simp

lemma part_step:
  assumes "criterion_ok cr" "\<not> dt_is_float_zero (TOTAL_ELEM_COUNT s)" "\<not> f64_lt k f64_zero"
  shows "scv_step clog cr (row (Some v) (Some k) c ttc) s =
    Inr (add_terms cr (part_terms (f64_arith clog) cr (CURR_FEATURE_ELEM_COUNT s) (k, c)) [] s)"
  using assms criteria
  by (auto simp: scv_step_def row_def or_default_def check_criterion_ok init_state_running class_row_def Let_def
      add_part_def part_terms_def add_terms_def criterion_ok_def)

lemma part_steps:
  assumes "criterion_ok cr" "\<not> dt_is_float_zero (TOTAL_ELEM_COUNT s)" "\<forall>(k, c)\<in>set cs. \<not> f64_lt k f64_zero"
  shows "foldM (scv_step clog cr) (map (\<lambda>(k, c). row (Some v) (Some k) c ttc) cs) s =
    Inr (add_terms cr (concat (map (part_terms (f64_arith clog) cr (CURR_FEATURE_ELEM_COUNT s)) cs)) [] s)"
  using assms(2,3)
proof (induction cs arbitrary: s)
  case Nil
  then show ?case by (simp add: add_terms_def)
next
  case (Cons kc cs)
  obtain k c where kc: "kc = (k, c)" by fastforce
  define t where "t = add_terms cr (part_terms (f64_arith clog) cr (CURR_FEATURE_ELEM_COUNT s) (k, c)) [] s"
  have step: "scv_step clog cr (row (Some v) (Some k) c ttc) s = Inr t"
    unfolding t_def using Cons.prems kc by (intro part_step[OF assms(1)]) auto
  have t: "TOTAL_ELEM_COUNT t = TOTAL_ELEM_COUNT s" "CURR_FEATURE_ELEM_COUNT t = CURR_FEATURE_ELEM_COUNT s"
    by (simp_all add: t_def add_terms_def)
  show ?case
    using step Cons.IH[of t] Cons.prems t add_terms_append[of cr "part_terms (f64_arith clog) cr (CURR_FEATURE_ELEM_COUNT s) (k, c)" _ "[]" "[]" s]
    by (simp add: kc t_def)
qed

lemma total_step:
  assumes "criterion_ok cr" "\<not> dt_is_float_zero (TOTAL_ELEM_COUNT s)"
  shows "scv_step clog cr (row (Some v) None stc ttc) s =
    Inr (add_terms cr [] (if dt_is_float_zero stc then [] else [f64_mul stc (clog stc)])
      (s\<lparr>CURR_FEATURE_VALUE := v, CURR_FEATURE_ELEM_COUNT := stc\<rparr>))"
  using assms criteria minus_one_negative
  by (auto simp: scv_step_def row_def or_default_def check_criterion_ok init_state_running total_row_def Let_def
      add_split_info_def add_terms_def criterion_ok_def)

text \<open>Fields that the rows of the groups leave alone.\<close>

definition same_totals :: "scv_state \<Rightarrow> scv_state \<Rightarrow> bool" where
  "same_totals s t \<longleftrightarrow> TOTAL_ELEM_COUNT t = TOTAL_ELEM_COUNT s \<and> SPLIT_CRIT t = SPLIT_CRIT s \<and> IS_CONT t = IS_CONT s \<and>
     INIT_SCV t = INIT_SCV s \<and> TRUE_TOTAL_COUNT t = TRUE_TOTAL_COUNT s \<and> MAX_CLASS_ID t = MAX_CLASS_ID s \<and>
     MAX_CLASS_ELEM_COUNT t = MAX_CLASS_ELEM_COUNT s"

lemma group_steps:
  assumes "criterion_ok cr"
  shows "\<not> dt_is_float_zero (TOTAL_ELEM_COUNT s) \<Longrightarrow> \<forall>(v, stc, cs)\<in>set groups. \<forall>(k, c)\<in>set cs. \<not> f64_lt k f64_zero \<Longrightarrow>
    \<exists>t. foldM (scv_step clog cr) (concat (map (group_rows ttc) groups)) s = Inr t \<and> same_totals s t \<and>
      ENTROPY_DATA t = (if cr = DT_SC_GINI then ENTROPY_DATA s else foldl f64_add (ENTROPY_DATA s) (split_terms (f64_arith clog) cr groups)) \<and>
      GINI_DATA t = (if cr = DT_SC_GINI then foldl f64_add (GINI_DATA s) (split_terms (f64_arith clog) cr groups) else GINI_DATA s) \<and>
      SPLIT_INFO_DATA t = (if cr = DT_SC_GAINRATIO then foldl f64_add (SPLIT_INFO_DATA s) (info_terms (f64_arith clog) groups) else SPLIT_INFO_DATA s)"
proof (induction groups arbitrary: s)
  case Nil
  then show ?case by (simp add: same_totals_def split_terms_def info_terms_def)
next
  case (Cons g groups)
  obtain v stc cs where g: "g = (v, stc, cs)" by (cases g) auto
  define s1 where "s1 = add_terms cr [] (if dt_is_float_zero stc then [] else [f64_mul stc (clog stc)])
      (s\<lparr>CURR_FEATURE_VALUE := v, CURR_FEATURE_ELEM_COUNT := stc\<rparr>)"
  define s2 where "s2 = add_terms cr (concat (map (part_terms (f64_arith clog) cr stc) cs)) [] s1"
  have s1: "TOTAL_ELEM_COUNT s1 = TOTAL_ELEM_COUNT s" "CURR_FEATURE_ELEM_COUNT s1 = stc" by (simp_all add: s1_def add_terms_def)
  have "scv_step clog cr (row (Some v) None stc ttc) s = Inr s1" unfolding s1_def by (rule total_step[OF assms Cons.prems(1)])
  moreover have "foldM (scv_step clog cr) (map (\<lambda>(k, c). row (Some v) (Some k) c ttc) cs) s1 = Inr s2"
    unfolding s2_def s1(2)[symmetric] using Cons.prems s1(1) g by (intro part_steps[OF assms]) auto
  ultimately have group: "foldM (scv_step clog cr) (group_rows ttc g) s = Inr s2" by (simp add: g group_rows_def)
  have s2: "TOTAL_ELEM_COUNT s2 = TOTAL_ELEM_COUNT s" "same_totals s s2"
    "ENTROPY_DATA s2 = (if cr = DT_SC_GINI then ENTROPY_DATA s else foldl f64_add (ENTROPY_DATA s) (concat (map (part_terms (f64_arith clog) cr stc) cs)))"
    "GINI_DATA s2 = (if cr = DT_SC_GINI then foldl f64_add (GINI_DATA s) (concat (map (part_terms (f64_arith clog) cr stc) cs)) else GINI_DATA s)"
    "SPLIT_INFO_DATA s2 = (if cr = DT_SC_GAINRATIO \<and> \<not> dt_is_float_zero stc then f64_add (SPLIT_INFO_DATA s) (f64_mul stc (clog stc)) else SPLIT_INFO_DATA s)"
    by (simp_all add: s2_def s1_def add_terms_def same_totals_def)
  have rest: "\<not> dt_is_float_zero (TOTAL_ELEM_COUNT s2)" "\<forall>(v, stc, cs)\<in>set groups. \<forall>(k, c)\<in>set cs. \<not> f64_lt k f64_zero"
    using Cons.prems s2(1) by simp_all
  obtain t where t: "foldM (scv_step clog cr) (concat (map (group_rows ttc) groups)) s2 = Inr t" "same_totals s2 t"
    "ENTROPY_DATA t = (if cr = DT_SC_GINI then ENTROPY_DATA s2 else foldl f64_add (ENTROPY_DATA s2) (split_terms (f64_arith clog) cr groups))"
    "GINI_DATA t = (if cr = DT_SC_GINI then foldl f64_add (GINI_DATA s2) (split_terms (f64_arith clog) cr groups) else GINI_DATA s2)"
    "SPLIT_INFO_DATA t = (if cr = DT_SC_GAINRATIO then foldl f64_add (SPLIT_INFO_DATA s2) (info_terms (f64_arith clog) groups) else SPLIT_INFO_DATA s2)"
    using Cons.IH[OF rest] by blast
  have "same_totals s t" using s2(2) t(2) by (simp add: same_totals_def)
  with group t(1) show ?case
    by (intro exI[of _ t]) (simp add: foldM_append t(3-5) s2(3-5) g split_terms_def info_terms_def)
qed

section \<open>Property\<close>

lemma before_split_fold:
  "criterion_ok cr \<Longrightarrow> before_split (f64_arith clog) cr tc classes =
    foldl (\<lambda>a (k, n). pre_term clog cr tc a n) (if cr = DT_SC_GINI then f64_one else f64_zero) classes"
proof -
  have "foldl f64_sub a (map (\<lambda>(k, n). f64_mul (f64_div n tc) (f64_div n tc)) classes) =
      foldl (\<lambda>a (k, n). pre_term clog DT_SC_GINI tc a n) a classes" for a
    by (induction classes arbitrary: a) (auto simp: pre_term_def Let_def)
  moreover have "foldl f64_add a (map (\<lambda>(k, n). let p = f64_div n tc in if f64_lt f64_zero p then f64_mul p (clog (f64_div f64_one p)) else f64_zero) classes) =
      foldl (\<lambda>a (k, n). pre_term clog cr tc a n) a classes" if "cr \<noteq> DT_SC_GINI" for a
    using that by (induction classes arbitrary: a) (auto simp: pre_term_def Let_def)
  ultimately show ?thesis by (auto simp: before_split_def a_sum_def Let_def cong: if_cong)
qed

lemma criterion_to_int: "criterion_ok cr \<Longrightarrow> f64_to_int (f64_of_int cr) = Inr cr"
proof -
  assume cr: "criterion_ok cr"
  have "f64_to_int (f64_of_int 1) = Inr 1" "f64_to_int (f64_of_int 2) = Inr 2" "f64_to_int (f64_of_int 3) = Inr 3"
    by (code_simp, code_simp, code_simp)
  with cr show ?thesis by (auto simp: criterion_ok_def DT_SC_INFOGAIN_def DT_SC_GAINRATIO_def DT_SC_GINI_def)
qed

text \<open>The state of a new aggregate, and the state after the row with the number of elements.\<close>

definition new_state :: scv_state where "new_state = state_of_items (replicate 14 f64_zero)"

lemma new_state_items: "pg_array1 (replicate 14 f64_zero) = pg_array1 (items_of_state new_state)"
  by (simp add: new_state_def state_of_items_def items_of_state_def eval_nat_numeral)

lemma first_step:
  assumes "criterion_ok cr"
  shows "scv_step clog cr (row None None tc ttc) new_state =
    Inr (new_state\<lparr>TOTAL_ELEM_COUNT := tc, SPLIT_CRIT := f64_of_int cr, INIT_SCV := (if cr = DT_SC_GINI then f64_one else f64_zero),
      IS_CONT := f64_zero, TRUE_TOTAL_COUNT := ttc\<rparr>)"
proof -
  have "dt_is_float_zero f64_zero" by code_simp
  then have "dt_is_float_zero (TOTAL_ELEM_COUNT new_state)" by (simp add: new_state_def state_of_items_def)
  then show ?thesis
    using minus_one_negative
    by (simp add: scv_step_def row_def or_default_def check_criterion_ok[OF assms] init_state_def null_row_def Let_def)
qed

text \<open>
  C25: On the rows of a discrete feature the aggregate computes, with the operations of doubles and for each of the three criteria:
  the value before the split, \<open>1 - (n/TC)^2 - ...\<close> or the sum of \<open>(n/TC)*log(TC/n)\<close> over the classes; the value after it,
  \<open>1 - (c^2/STC + ...)/TC\<close> or \<open>(c*log(STC/c) + ...)/TC\<close> over the classes of each value; the gain, their
  difference discounted by \<open>TC/TTC\<close>; for the gain ratio the split information \<open>log TC - (STC*log STC + ...)/TC\<close> and the quotient of
  gain and split information; and the first of the classes with the most elements, its part of the \<open>TTC\<close> records, and
  \<open>TTC\<close>.  The second part says what these formulas are in exact arithmetic, when the counts add up: the entropy or the
  gini index of the classes, their average over the values of the feature weighted by \<open>STC/TC\<close>, as the comment in
  front of the aggregate derives, and the entropy of the values of the feature.  The comments on two elements of the result do not agree with the
  code, nor with this property: the gain ratio is not the quotient of entropy and split information, and the total count is
  that of all records, also of those whose value is NULL.
\<close>

theorem scv_discrete_formula:
  assumes "cr = DT_SC_INFOGAIN \<or> cr = DT_SC_GAINRATIO \<or> cr = DT_SC_GINI" "\<not> dt_is_float_zero tc" "f64_lt f64_zero tc" "f64_lt f64_zero ttc"
    "\<forall>(k, n)\<in>set classes. \<not> f64_lt k f64_zero \<and> f64_le f64_zero n"
    "\<forall>(v, stc, cs)\<in>set groups. \<forall>(k, c)\<in>set cs. \<not> f64_lt k f64_zero"
  shows "(\<exists>st most. foldM (\<lambda>row a. dt_scv_aggr_sfunc clog a cr row) (discrete_rows ttc tc classes groups) (pg_array1 (replicate 14 f64_zero)) = Inr st \<and>
      first_most_frequent classes most \<and>
      dt_scv_aggr_ffunc clog st = Inr (pg_array1 (items_of_final (scv_formula (f64_arith clog) cr ttc tc classes groups most)))) \<and>
    (counts_add_up T rclasses rgroups \<longrightarrow>
      before_split real_arith cr T rclasses = impurity cr (map (\<lambda>(k, n). n / T) rclasses) \<and>
      after_split real_arith cr T rgroups = (\<Sum>(v, S, cs)\<leftarrow>rgroups. S / T * impurity cr (map (\<lambda>(k, c). c / S) cs)) \<and>
      split_info real_arith T rgroups = entropy (map (\<lambda>(v, S, cs). S / T) rgroups))"
proof -
  have cr: "criterion_ok cr" using assms(1) by (simp add: criterion_ok_def)
  define s1 where "s1 = new_state\<lparr>TOTAL_ELEM_COUNT := tc, SPLIT_CRIT := f64_of_int cr, INIT_SCV := (if cr = DT_SC_GINI then f64_one else f64_zero),
      IS_CONT := f64_zero, TRUE_TOTAL_COUNT := ttc\<rparr>"
  have s1: "TOTAL_ELEM_COUNT s1 = tc" "INIT_SCV s1 = (if cr = DT_SC_GINI then f64_one else f64_zero)" "MAX_CLASS_ID s1 = f64_zero"
    "MAX_CLASS_ELEM_COUNT s1 = f64_zero" "SPLIT_CRIT s1 = f64_of_int cr" "IS_CONT s1 = f64_zero" "TRUE_TOTAL_COUNT s1 = ttc"
    "ENTROPY_DATA s1 = f64_zero" "GINI_DATA s1 = f64_zero" "SPLIT_INFO_DATA s1 = f64_zero"
    by (simp_all add: s1_def new_state_def state_of_items_def)
  define s2 where "s2 = s1\<lparr>INIT_SCV := before_split (f64_arith clog) cr tc classes, MAX_CLASS_ID := fst (most_frequent classes),
      MAX_CLASS_ELEM_COUNT := snd (most_frequent classes)\<rparr>"
  have classes: "foldM (scv_step clog cr) (map (\<lambda>(k, n). row None (Some k) n ttc) classes) s1 = Inr s2"
    using class_steps[OF cr _ _ assms(5), of s1 clog ttc] assms(2,3)
    by (simp add: s1(1-4) s2_def most_frequent_def before_split_fold[OF cr] Let_def split: prod.splits)
  obtain t where t: "foldM (scv_step clog cr) (concat (map (group_rows ttc) groups)) s2 = Inr t" "same_totals s2 t"
    "ENTROPY_DATA t = (if cr = DT_SC_GINI then ENTROPY_DATA s2 else foldl f64_add (ENTROPY_DATA s2) (split_terms (f64_arith clog) cr groups))"
    "GINI_DATA t = (if cr = DT_SC_GINI then foldl f64_add (GINI_DATA s2) (split_terms (f64_arith clog) cr groups) else GINI_DATA s2)"
    "SPLIT_INFO_DATA t = (if cr = DT_SC_GAINRATIO then foldl f64_add (SPLIT_INFO_DATA s2) (info_terms (f64_arith clog) groups) else SPLIT_INFO_DATA s2)"
    using group_steps[OF cr _ assms(6), of s2 clog ttc] assms(2) by (auto simp: s2_def s1(1))
  have t': "TOTAL_ELEM_COUNT t = tc" "SPLIT_CRIT t = f64_of_int cr" "IS_CONT t = f64_zero" "INIT_SCV t = before_split (f64_arith clog) cr tc classes"
    "TRUE_TOTAL_COUNT t = ttc" "MAX_CLASS_ID t = fst (most_frequent classes)" "MAX_CLASS_ELEM_COUNT t = snd (most_frequent classes)"
    "ENTROPY_DATA t = (if cr = DT_SC_GINI then f64_zero else a_sum (f64_arith clog) (split_terms (f64_arith clog) cr groups))"
    "GINI_DATA t = (if cr = DT_SC_GINI then a_sum (f64_arith clog) (split_terms (f64_arith clog) cr groups) else f64_zero)"
    "SPLIT_INFO_DATA t = (if cr = DT_SC_GAINRATIO then a_sum (f64_arith clog) (info_terms (f64_arith clog) groups) else f64_zero)"
    using t(2-5) by (simp_all add: same_totals_def s2_def s1 a_sum_def)
  have "foldM (scv_step clog cr) (discrete_rows ttc tc classes groups) new_state = Inr t"
    using first_step[OF cr, of clog tc ttc] classes t(1) by (simp add: discrete_rows_def s1_def[symmetric] foldM_append)
  then have "foldM (\<lambda>row a. dt_scv_aggr_sfunc clog a cr row) (discrete_rows ttc tc classes groups) (pg_array1 (replicate 14 f64_zero)) =
      Inr (pg_array1 (items_of_state t))"
    unfolding new_state_items by (rule sfunc_steps)
  moreover have "dt_scv_aggr_ffunc clog (pg_array1 (items_of_state t)) =
      Inr (pg_array1 (items_of_final (scv_formula (f64_arith clog) cr ttc tc classes groups (most_frequent classes))))"
    using assms(1-4) criteria criterion_to_int[OF cr] check_criterion_ok[OF cr]
    by (auto simp: dt_scv_aggr_ffunc_def Let_def t' scv_formula_def after_split_def split_gain_def split_info_def gain_ratio_def entropy_gains_def gini_gains_def)
  moreover have "first_most_frequent classes (most_frequent classes)"
    using assms(5) by (intro most_frequent_first) auto
  moreover have "before_split real_arith cr T rclasses = impurity cr (map (\<lambda>(k, n). n / T) rclasses) \<and>
      after_split real_arith cr T rgroups = (\<Sum>(v, S, cs)\<leftarrow>rgroups. S / T * impurity cr (map (\<lambda>(k, c). c / S) cs)) \<and>
      split_info real_arith T rgroups = entropy (map (\<lambda>(v, S, cs). S / T) rgroups)"
    if "counts_add_up T rclasses rgroups"
    using that before_split_impurity after_split_impurity split_info_entropy by (auto simp: counts_add_up_def)
  ultimately show ?thesis by blast
qed

text \<open>Four elements of two classes, two of each; the feature splits them into three (2 and 1) and one.\<close>

lemma scv_discrete_formula_witness:
  "\<exists>st. foldM (\<lambda>row a. dt_scv_aggr_sfunc (\<lambda>x. x) a 3 row)
      (discrete_rows 0x4010000000000000 0x4010000000000000 [(0x3FF0000000000000, 0x4000000000000000), (0x4000000000000000, 0x4000000000000000)]
        [(0, 0x4008000000000000, [(0x3FF0000000000000, 0x4000000000000000), (0x4000000000000000, 0x3FF0000000000000)]),
         (1, 0x3FF0000000000000, [(0x4000000000000000, 0x3FF0000000000000)])])
      (pg_array1 (replicate 14 f64_zero)) = Inr st \<and> (\<exists>r. dt_scv_aggr_ffunc (\<lambda>x. x) st = Inr r)"
proof -
  have "\<not> dt_is_float_zero 0x4010000000000000" "f64_lt f64_zero 0x4010000000000000" "\<not> f64_lt 0x3FF0000000000000 f64_zero"
    "\<not> f64_lt 0x4000000000000000 f64_zero" "f64_le f64_zero 0x4000000000000000"
    by (code_simp, code_simp, code_simp, code_simp, code_simp)
  then show ?thesis
    using scv_discrete_formula[of 3 "0x4010000000000000" "0x4010000000000000"
      "[(0x3FF0000000000000, 0x4000000000000000), (0x4000000000000000, 0x4000000000000000)]"
      "[(0, 0x4008000000000000, [(0x3FF0000000000000, 0x4000000000000000), (0x4000000000000000, 0x3FF0000000000000)]),
         (1, 0x3FF0000000000000, [(0x4000000000000000, 0x3FF0000000000000)])]" "\<lambda>x. x", THEN conjunct1]
    by (auto simp: DT_SC_GINI_def)
qed

text \<open>
  The pre-function combines with the initial state of a segment without rows: the value before the split is lost,
  since only the criterion, the total and the kind of the feature are copied.
\<close>

lemma scv_merge_loses_init:
  "\<exists>s'. dt_scv_aggr_prefunc (pg_array1 (replicate 14 f64_zero)) (pg_array1 (items_of_state s)) = Inr (pg_array1 (items_of_state s')) \<and>
     INIT_SCV s' = f64_zero \<and> SPLIT_CRIT s' = SPLIT_CRIT s \<and> IS_CONT s' = IS_CONT s \<and> TRUE_TOTAL_COUNT s' = TRUE_TOTAL_COUNT s"
proof -
  have "dt_is_float_zero f64_zero" by code_simp
  then have "dt_is_float_zero (SPLIT_CRIT new_state)" "INIT_SCV new_state = f64_zero" by (simp_all add: new_state_def state_of_items_def)
  then show ?thesis
    unfolding new_state_items by (intro exI[of _ "combine_scv new_state s"]) (simp add: dt_scv_aggr_prefunc_def combine_scv_def max_class_def Let_def)
qed

end
