(* ===== verification/OnlineSv.thy ===== *)
theory OnlineSv
  imports Float64
begin

text \<open>
  Online support vector machines, \<open>methods/kernel_machines/src/pg_gp/online_sv.c\<close>.  Parameters:
  the lookup of a kernel function by its name, the call of the function with an identifier, and \<open>exp\<close>
  and \<open>pow\<close> of the C library.
\<close>

section \<open>Arrays\<close>

text \<open>
  An array of doubles or of another type: its dimensions, does it have a NULL bitmap, and its data.
\<close>

record sv_array =
  sv_dims :: "int list"
  is_float8 :: bool
  has_bitmap :: bool
  sv_data :: "float8 list"

definition float8_array :: "float8 list \<Rightarrow> sv_array" where
  "float8_array xs = \<lparr>sv_dims = [int (length xs)], is_float8 = True, has_bitmap = False, sv_data = xs\<rparr>"

definition array_items :: "sv_array \<Rightarrow> int" where
  "array_items a = (if sv_dims a = [] then 0 else prod_list (sv_dims a))"

text \<open>
  The data of \<open>construct_zero_array\<close>, with its size as an \<open>int\<close>: \<open>palloc0\<close> reports a size of a gigabyte or
  more, and a size that has wrapped around is too small for the data.
\<close>

definition construct_zero_array :: "int \<Rightarrow> float8 list res" where
  "construct_zero_array n =
     (let size = to_int32 (8 * n) + 24 in
      rbind (check (0 \<le> size \<and> size < 2 ^ 30) ''invalid memory alloc request size'') (\<lambda>_.
      rbind (guard_mem (size = 8 * n + 24)) (\<lambda>_. Inr (replicate (nat n) f64_zero))))"

text \<open>\<open>memcpy\<close> from an array: \<open>n\<close> elements from \<open>start\<close> on.\<close>

definition read_block :: "float8 list \<Rightarrow> int \<Rightarrow> int \<Rightarrow> float8 list res" where
  "read_block xs start n =
     rbind (guard_mem (0 \<le> start \<and> 0 \<le> n \<and> start + n \<le> int (length xs))) (\<lambda>_. Inr (take (nat n) (drop (nat start) xs)))"

text \<open>
  The passes of \<open>for (i=0; i!=n; i++)\<close> over an array of \<open>len\<close> elements: for a negative \<open>n\<close> one more than the
  array has elements.
\<close>

definition passes :: "int \<Rightarrow> nat \<Rightarrow> nat list" where
  "passes n len = [0..<if n < 0 then len + 1 else nat n]"

section \<open>Kernels\<close>

definition check_vectors :: "sv_array \<Rightarrow> sv_array \<Rightarrow> unit res" where
  "check_vectors arg1 arg2 =
     rbind (check (length (sv_dims arg1) = 1 \<and> is_float8 arg1 \<and> length (sv_dims arg2) = 1 \<and> is_float8 arg2) ''called with invalid parameters'') (\<lambda>_.
     check (hd (sv_dims arg1) = hd (sv_dims arg2)) ''called with invalid parameters'')"

definition dot_loop :: "(float8 \<Rightarrow> float8 \<Rightarrow> float8) \<Rightarrow> sv_array \<Rightarrow> sv_array \<Rightarrow> float8 res" where
  "dot_loop term arg1 arg2 =
     rbind (check_vectors arg1 arg2) (\<lambda>_.
     foldM (\<lambda>i ret. rbind (nth_res (sv_data arg1) (int i)) (\<lambda>x. rbind (nth_res (sv_data arg2) (int i)) (\<lambda>y.
         Inr (f64_add ret (term x y))))) (passes (hd (sv_dims arg1)) (length (sv_data arg1))) f64_zero)"

definition svm_dot :: "sv_array \<Rightarrow> sv_array \<Rightarrow> float8 res" where
  "svm_dot arg1 arg2 = dot_loop f64_mul arg1 arg2"

definition svm_polynomial :: "(float8 \<Rightarrow> float8 \<Rightarrow> float8) \<Rightarrow> sv_array \<Rightarrow> sv_array \<Rightarrow> float8 \<Rightarrow> float8 res" where
  "svm_polynomial cpow arg1 arg2 degree = rbind (dot_loop f64_mul arg1 arg2) (\<lambda>ret. Inr (cpow ret degree))"

definition svm_gaussian :: "(float8 \<Rightarrow> float8) \<Rightarrow> sv_array \<Rightarrow> sv_array \<Rightarrow> float8 \<Rightarrow> float8 res" where
  "svm_gaussian cexp arg1 arg2 gamma =
     rbind (dot_loop (\<lambda>x y. f64_mul (f64_sub x y) (f64_sub x y)) arg1 arg2) (\<lambda>ret.
       Inr (cexp (f64_mul (f64_mul (f64_of_int (- 1)) gamma) ret)))"

section \<open>Prediction\<close>

type_synonym kernel_call = "nat \<Rightarrow> sv_array \<Rightarrow> sv_array \<Rightarrow> float8 res"

definition svm_predict_eval ::
    "kernel_call \<Rightarrow> nat \<Rightarrow> float8 list \<Rightarrow> float8 list \<Rightarrow> sv_array \<Rightarrow> int \<Rightarrow> int \<Rightarrow> float8 res" where
  "svm_predict_eval apply_kernel koid weights spvs ind nsvs ind_dim =
     rbind (construct_zero_array ind_dim) (\<lambda>_.
     foldM (\<lambda>i ret.
         rbind (read_block spvs (to_int32 (ind_dim * int i)) ind_dim) (\<lambda>spp_vec.
         rbind (nth_res weights (int i)) (\<lambda>w.
         rbind (apply_kernel koid (float8_array spp_vec) ind) (\<lambda>k.
           Inr (f64_add ret (f64_mul w k))))) ) (passes nsvs (length weights)) f64_zero)"

definition plain_vector :: "sv_array \<Rightarrow> bool" where
  "plain_vector a \<longleftrightarrow> \<not> has_bitmap a \<and> length (sv_dims a) = 1 \<and> is_float8 a"

definition svm_predict_sub ::
    "kernel_call \<Rightarrow> (string \<Rightarrow> nat res) \<Rightarrow> int \<Rightarrow> int \<Rightarrow> sv_array \<Rightarrow> sv_array \<Rightarrow> sv_array \<Rightarrow> string \<Rightarrow> float8 res" where
  "svm_predict_sub apply_kernel lookup nsvs ind_dim weights_arr supp_vecs_arr ind_arr kname =
     rbind (check (plain_vector weights_arr \<and> plain_vector supp_vecs_arr \<and> plain_vector ind_arr) ''called with invalid parameters'') (\<lambda>_.
     rbind (lookup kname) (\<lambda>koid.
       svm_predict_eval apply_kernel koid (sv_data weights_arr) (sv_data supp_vecs_arr) ind_arr nsvs ind_dim))"

section \<open>Support vectors\<close>

definition blocksize :: int where "blocksize = 100"

definition addNewWeight :: "sv_array \<Rightarrow> float8 \<Rightarrow> int \<Rightarrow> sv_array res" where
  "addNewWeight weights weight nsvs =
     (if nsvs mod blocksize = 0 then
        rbind (construct_zero_array (to_int32 (nsvs + blocksize))) (\<lambda>ret.
        rbind (read_block (sv_data weights) 0 nsvs) (\<lambda>old.
        rbind (upd_res (old @ drop (nat nsvs) ret) nsvs weight) (\<lambda>ret. Inr (float8_array ret))))
      else rbind (upd_res (sv_data weights) nsvs weight) (\<lambda>ws. Inr (weights\<lparr>sv_data := ws\<rparr>)))"

text \<open>The loop that stores the elements of the new vector from \<open>start\<close> on.\<close>

definition store_vector :: "float8 list \<Rightarrow> int \<Rightarrow> int \<Rightarrow> float8 list \<Rightarrow> float8 list res" where
  "store_vector ind dim start spvs =
     foldM (\<lambda>i spvs. rbind (nth_res ind (int i)) (\<lambda>x. upd_res spvs (to_int32 (start + int i)) x)) (passes dim (length ind)) spvs"

definition addNewSV :: "sv_array \<Rightarrow> float8 list \<Rightarrow> int \<Rightarrow> int \<Rightarrow> sv_array res" where
  "addNewSV spvs ind nsvs dim =
     (if nsvs mod blocksize = 0 then
        rbind (construct_zero_array (to_int32 (to_int32 (nsvs + blocksize) * dim))) (\<lambda>ret.
        rbind (read_block (sv_data spvs) 0 (nsvs * dim)) (\<lambda>old.
        rbind (store_vector ind dim (to_int32 (nsvs * dim)) (old @ drop (nat (nsvs * dim)) ret)) (\<lambda>ret. Inr (float8_array ret))))
      else rbind (store_vector ind dim (to_int32 (nsvs * dim)) (sv_data spvs)) (\<lambda>data. Inr (spvs\<lparr>sv_data := data\<rparr>)))"

section \<open>The model\<close>

text \<open>
  The attributes of the composite value, and whether one of the two arrays, or of the other
  attributes, is NULL: a NULL array is used as a pointer before the test for NULLs.
\<close>

record sv_model =
  inds :: int
  cum_err :: float8
  epsilon :: float8
  rho :: float8
  bias :: float8
  nsvs :: int
  ind_dim :: int
  weights :: sv_array
  individuals :: sv_array
  kernel_oid :: nat
  null_array :: bool
  null_scalar :: bool

text \<open>The part that the three update functions have in common: the model with its dimension and kernel.\<close>

definition read_model :: "(string \<Rightarrow> nat res) \<Rightarrow> sv_model \<Rightarrow> sv_array \<Rightarrow> string \<Rightarrow> sv_model res" where
  "read_model lookup m ind_arr kname =
     rbind (check (plain_vector ind_arr) ''called with invalid parameter'') (\<lambda>_.
     rbind (guard_mem (\<not> null_array m)) (\<lambda>_.
     rbind (check (\<not> null_scalar m) ''error reading support vector model'') (\<lambda>_.
     let dim = (if ind_dim m = 0 then array_items ind_arr else ind_dim m) in
     rbind (if kernel_oid m = 0 then lookup kname else Inr (kernel_oid m)) (\<lambda>koid.
     rbind (check (nsvs m > 0 \<longrightarrow> plain_vector (weights m) \<and> plain_vector (individuals m)) ''called with invalid parameters'') (\<lambda>_.
       Inr (m\<lparr>ind_dim := dim, kernel_oid := koid\<rparr>))))))"

definition predict :: "kernel_call \<Rightarrow> sv_model \<Rightarrow> sv_array \<Rightarrow> float8 res" where
  "predict apply_kernel m ind_arr =
     svm_predict_eval apply_kernel (kernel_oid m) (sv_data (weights m)) (sv_data (individuals m)) ind_arr (nsvs m) (ind_dim m)"

text \<open>The weights are multiplied by a factor; very small ones are set to zero.\<close>

definition DBL_MIN :: float8 where "DBL_MIN = 0x0010000000000000"

definition discount :: "(float8 \<Rightarrow> bool) \<Rightarrow> float8 \<Rightarrow> sv_model \<Rightarrow> sv_model res" where
  "discount tiny factor m =
     rbind (foldM (\<lambda>i ws. rbind (nth_res ws (int i)) (\<lambda>w. upd_res ws (int i) (if tiny w then f64_zero else f64_mul w factor)))
       (passes (nsvs m) (length (sv_data (weights m)))) (sv_data (weights m))) (\<lambda>ws.
       Inr (m\<lparr>weights := (weights m)\<lparr>sv_data := ws\<rparr>\<rparr>))"

definition add_vector :: "sv_array \<Rightarrow> float8 \<Rightarrow> sv_model \<Rightarrow> sv_model res" where
  "add_vector ind_arr weight m =
     rbind (addNewWeight (weights m) weight (nsvs m)) (\<lambda>weights_arr.
     rbind (addNewSV (individuals m) (sv_data ind_arr) (nsvs m) (ind_dim m)) (\<lambda>supp_vecs_arr.
       Inr (m\<lparr>weights := weights_arr, individuals := supp_vecs_arr, nsvs := to_int32 (nsvs m + 1)\<rparr>)))"

section \<open>Learning\<close>

text \<open>0.1 is \<open>0x3FB999999999999A\<close>, 1.15 is \<open>0x3FF2666666666666\<close>.\<close>

definition f64_tenth :: float8 where "f64_tenth = 0x3FB999999999999A"

definition check_rates :: "float8 \<Rightarrow> float8 \<Rightarrow> bool" where
  "check_rates eta nu \<longleftrightarrow> \<not> (f64_le eta f64_zero \<or> f64_lt f64_one eta \<or> f64_le nu f64_zero \<or> f64_lt f64_one nu)"

definition svm_reg_update ::
    "kernel_call \<Rightarrow> (string \<Rightarrow> nat res) \<Rightarrow> sv_model \<Rightarrow> sv_array \<Rightarrow> float8 \<Rightarrow> string \<Rightarrow> float8 \<Rightarrow> float8 \<Rightarrow> float8 \<Rightarrow> sv_model res" where
  "svm_reg_update apply_kernel lookup m ind_arr label kname eta nu slambda =
     rbind (check (check_rates eta nu \<and> \<not> f64_lt f64_one (f64_mul eta slambda)) ''called with invalid parameter'') (\<lambda>_.
     rbind (read_model lookup m ind_arr kname) (\<lambda>m.
     rbind (predict apply_kernel m ind_arr) (\<lambda>s.
     let p = f64_add s (bias m);
         diff = f64_sub label p;
         error = f64_fabs diff;
         m = m\<lparr>inds := to_int32 (inds m + 1), cum_err := f64_add (cum_err m) error\<rparr>;
         factor = f64_sub f64_one (f64_mul eta slambda);
         cap = f64_add f64_tenth (f64_div f64_one factor)
     in if f64_lt (epsilon m) error then
          rbind (discount (\<lambda>w. f64_lt (f64_fabs w) (f64_mul (f64_add cap f64_tenth) DBL_MIN)) factor m) (\<lambda>m.
          let weight = (if f64_lt diff f64_zero then f64_neg eta else eta) in
          rbind (add_vector ind_arr weight m) (\<lambda>m.
            Inr (m\<lparr>bias := f64_add (bias m) weight, epsilon := f64_add (epsilon m) (f64_mul (f64_sub f64_one nu) eta)\<rparr>)))
        else Inr (m\<lparr>epsilon := f64_sub (epsilon m) (f64_mul eta nu)\<rparr>))))"

definition svm_cls_update ::
    "kernel_call \<Rightarrow> (string \<Rightarrow> nat res) \<Rightarrow> sv_model \<Rightarrow> sv_array \<Rightarrow> float8 \<Rightarrow> string \<Rightarrow> float8 \<Rightarrow> float8 \<Rightarrow> sv_model res" where
  "svm_cls_update apply_kernel lookup m ind_arr label kname eta nu =
     rbind (check (check_rates eta nu) ''called with invalid parameter'') (\<lambda>_.
     rbind (read_model lookup m ind_arr kname) (\<lambda>m.
     rbind (predict apply_kernel m ind_arr) (\<lambda>s.
     let p = f64_mul label (f64_add s (bias m));
         m = m\<lparr>inds := to_int32 (inds m + 1)\<rparr>;
         eta = f64_div eta (f64_sqrt (f64_mul (f64_of_int (inds m)) f64_one));
         m = (if f64_le p f64_zero then m\<lparr>cum_err := f64_add (cum_err m) f64_one\<rparr> else m)
     in if f64_le p (rho m) then
          rbind (discount (\<lambda>w. f64_lt (f64_fabs w) (f64_mul 0x3FF2666666666666 DBL_MIN)) (f64_sub f64_one (f64_mul f64_tenth eta)) m) (\<lambda>m.
          rbind (add_vector ind_arr (f64_mul label eta) m) (\<lambda>m.
            Inr (m\<lparr>bias := f64_add (bias m) (f64_mul eta label), rho := f64_sub (rho m) (f64_mul eta (f64_sub f64_one nu))\<rparr>)))
        else Inr (m\<lparr>rho := f64_add (rho m) (f64_mul eta nu)\<rparr>))))"

definition svm_nd_update ::
    "kernel_call \<Rightarrow> (string \<Rightarrow> nat res) \<Rightarrow> sv_model \<Rightarrow> sv_array \<Rightarrow> string \<Rightarrow> float8 \<Rightarrow> float8 \<Rightarrow> sv_model res" where
  "svm_nd_update apply_kernel lookup m ind_arr kname eta nu =
     rbind (check (check_rates eta nu) ''called with invalid parameter'') (\<lambda>_.
     rbind (read_model lookup m ind_arr kname) (\<lambda>m.
     rbind (predict apply_kernel m ind_arr) (\<lambda>p.
     let m = m\<lparr>inds := to_int32 (inds m + 1)\<rparr>
     in if f64_lt p (rho m) then
          rbind (discount (\<lambda>w. f64_lt w (f64_mul 0x3FF2666666666666 DBL_MIN)) (f64_sub f64_one (f64_mul f64_tenth eta)) m) (\<lambda>m.
          rbind (add_vector ind_arr eta m) (\<lambda>m.
            Inr (m\<lparr>rho := f64_sub (rho m) (f64_mul eta (f64_sub f64_one nu))\<rparr>)))
        else Inr (m\<lparr>rho := f64_add (rho m) (f64_mul eta nu)\<rparr>))))"

section \<open>Stochastic gradient descent\<close>

text \<open>Hinge loss.\<close>

definition dloss :: "float8 \<Rightarrow> float8 \<Rightarrow> float8" where
  "dloss a y = (let z = f64_mul a y in if f64_lt f64_one z then f64_zero else y)"

record lsvm_model =
  lweights :: sv_array
  wDivisor :: float8
  wBias :: float8
  lind_dim :: int
  linds :: int
  lcum_err :: int
  lnull_array :: bool
  lnull_scalar :: bool

text \<open>The loops over the elements of the vector that are not zero, and over the weights.\<close>

definition sparse_dot :: "float8 list \<Rightarrow> float8 list \<Rightarrow> int \<Rightarrow> float8 res" where
  "sparse_dot ws0 ind dim =
     foldM (\<lambda>i s. rbind (nth_res ind (int i)) (\<lambda>x.
         if f64_eq x f64_zero then Inr s
         else rbind (nth_res ws0 (int i)) (\<lambda>w. Inr (f64_add s (f64_mul w x))))) (passes dim (length ind)) f64_zero"

definition scale_weights :: "float8 \<Rightarrow> int \<Rightarrow> float8 list \<Rightarrow> float8 list res" where
  "scale_weights factor dim ws0 =
     foldM (\<lambda>i ws. rbind (nth_res ws (int i)) (\<lambda>w. upd_res ws (int i) (f64_mul w factor))) (passes dim (length ws0)) ws0"

definition add_gradient :: "float8 list \<Rightarrow> float8 \<Rightarrow> int \<Rightarrow> float8 list \<Rightarrow> float8 list res" where
  "add_gradient ind c dim ws0 =
     foldM (\<lambda>i ws. rbind (nth_res ind (int i)) (\<lambda>x.
         if f64_eq x f64_zero then Inr ws
         else rbind (nth_res ws (int i)) (\<lambda>w. upd_res ws (int i) (f64_add w (f64_mul x c))))) (passes dim (length ind)) ws0"

text \<open>1e5 is \<open>0x40F86A0000000000\<close>, 0.01 is \<open>0x3F847AE147AE147B\<close>.\<close>

definition lsvm_sgd_update :: "lsvm_model \<Rightarrow> sv_array \<Rightarrow> float8 \<Rightarrow> float8 \<Rightarrow> float8 \<Rightarrow> lsvm_model res" where
  "lsvm_sgd_update m ind_arr label eta0 lambda =
     rbind (guard_mem (\<not> lnull_array m)) (\<lambda>_.
     rbind (check (\<not> lnull_scalar m) ''error reading support vector model'') (\<lambda>_.
     rbind (if lind_dim m = 0
            then rbind (construct_zero_array (array_items ind_arr)) (\<lambda>ws. Inr (m\<lparr>lind_dim := array_items ind_arr, lweights := float8_array ws\<rparr>))
            else Inr m) (\<lambda>m.
     let ind = sv_data ind_arr; ws = sv_data (lweights m); dim = lind_dim m;
         eta = f64_div eta0 (f64_add f64_one (f64_mul (f64_mul lambda eta0) (f64_of_int (linds m))));
         m = m\<lparr>linds := to_int32 (linds m + 1)\<rparr>
     in rbind (sparse_dot ws ind dim) (\<lambda>s.
     let s = f64_add (f64_div s (wDivisor m)) (wBias m);
         m = (if f64_lt (f64_mul s label) f64_zero then m\<lparr>lcum_err := to_int32 (lcum_err m + 1)\<rparr> else m);
         div1 = f64_div (wDivisor m) (f64_sub f64_one (f64_mul eta lambda))
     in rbind (if f64_lt 0x40F86A0000000000 div1 \<and> \<not> f64_eq div1 f64_one
               then rbind (scale_weights (f64_div f64_one div1) dim ws) (\<lambda>ws. Inr (ws, f64_one))
               else Inr (ws, div1)) (\<lambda>(ws, div1).
     let d = dloss s label
     in rbind (if f64_eq d f64_zero then Inr ws
               else add_gradient ind (f64_mul (f64_mul eta d) div1) dim ws) (\<lambda>ws.
        Inr (m\<lparr>lweights := (lweights m)\<lparr>sv_data := ws\<rparr>, wDivisor := div1,
               wBias := f64_add (wBias m) (f64_mul (f64_mul eta 0x3F847AE147AE147B) d)\<rparr>)))))))"

end
