(* ===== verification/OnlineSvFacts.thy ===== *)
theory OnlineSvFacts
  imports OnlineSv
begin

text \<open>
  The arrays of a support vector model as a list of weighted vectors, and the learning functions as
  functions on such models.
\<close>

section \<open>Loops over arrays\<close>

lemma passes_nat [simp]: "passes (int n) len = [0..<n]"
  by (simp add: passes_def)

lemma foldM_update_prefix:
  assumes "n \<le> length xs"
  shows "foldM (\<lambda>i ys. rbind (nth_res ys (int i)) (\<lambda>y. upd_res ys (int i) (f y))) [0..<n] xs = Inr (map f (take n xs) @ drop n xs)"
  using assms
proof (induction n)
  case (Suc n)
  then have "drop n xs = xs ! n # drop (Suc n) xs" by (simp add: Cons_nth_drop_Suc)
  with Suc show ?case by (simp add: foldM_append nth_append list_update_append take_Suc_conv_app_nth)
qed simp

text \<open>Storing a vector replaces a block of the array.\<close>

lemma store_vector_block:
  assumes "start + length x \<le> length data" "length data < 2 ^ 31"
  shows "store_vector x (int (length x)) (int start) data = Inr (take start data @ x @ drop (start + length x) data)"
proof -
  have "foldM (\<lambda>i spvs. rbind (nth_res x (int i)) (\<lambda>y. upd_res spvs (to_int32 (int start + int i)) y)) [0..<m] data =
      Inr (take start data @ take m x @ drop (start + m) data)" if "m \<le> length x" for m
    using that
  proof (induction m)
    case (Suc m)
    then have m: "m < length x" "start + m < length data" using assms(1) by simp_all
    have idx: "to_int32 (int start + int m) = int (start + m)" using m assms(2) by simp
    have "drop (start + m) data = data ! (start + m) # drop (start + Suc m) data" using m(2) by (simp add: Cons_nth_drop_Suc)
    then have "(take start data @ take m x @ drop (start + m) data)[start + m := x ! m] =
        take start data @ take (Suc m) x @ drop (start + Suc m) data"
      using m assms(1) by (simp add: list_update_append take_Suc_conv_app_nth)
    moreover have "upd_res (take start data @ take m x @ drop (start + m) data) (int (start + m)) (x ! m) =
        Inr ((take start data @ take m x @ drop (start + m) data)[start + m := x ! m])"
      using m assms(1) by (intro upd_res_Inr) simp
    ultimately show ?case
      using Suc m(1) unfolding upt_Suc_append[OF zero_le] foldM_append by (simp add: idx)
  qed simp
  from this[of "length x"] show ?thesis by (simp add: store_vector_def)
qed

section \<open>Models\<close>

text \<open>The number of places for \<open>n\<close> support vectors.\<close>

definition capacity :: "nat \<Rightarrow> nat" where "capacity n = (n + 99) div 100 * 100"

lemma capacity_split:
  assumes "r < 100"
  shows "capacity (q * 100 + r) = (if r = 0 then q * 100 else q * 100 + 100)"
proof (cases "r = 0")
  case True
  then show ?thesis by (simp add: capacity_def)
next
  case False
  then have "(q * 100 + r + 99) div 100 = q + 1" using assms by (intro div_nat_eqI) simp_all
  then show ?thesis using False by (simp add: capacity_def)
qed

lemma capacity_cases:
  fixes n :: nat
  obtains q r where "n = q * 100 + r" "r < 100" "n mod 100 = r"
  by (metis div_mult_mod_eq mod_less_divisor zero_less_numeral)

lemma capacity_mod: "n mod 100 = 0 \<Longrightarrow> capacity n = n \<and> capacity (n + 1) = n + 100"
proof -
  assume "n mod 100 = 0"
  then obtain q where "n = q * 100 + 0" using capacity_cases[of n] by metis
  then show ?thesis using capacity_split[of 0 q] capacity_split[of 1 q] by simp
qed

lemma capacity_no_mod: "n mod 100 \<noteq> 0 \<Longrightarrow> capacity (n + 1) = capacity n \<and> n < capacity n"
proof -
  assume n: "n mod 100 \<noteq> 0"
  obtain q r where r: "n = q * 100 + r" "r < 100" "n mod 100 = r" by (rule capacity_cases)
  show ?thesis
  proof (cases "r = 99")
    case True
    then show ?thesis using r capacity_split[of 99 q] capacity_split[of 0 "q + 1"] by simp
  next
    case False
    then show ?thesis using r n capacity_split[of r q] capacity_split[of "r + 1" q] by simp
  qed
qed

lemma capacity_le: "n \<le> capacity n" "capacity n \<le> n + 99"
proof -
  obtain q r where r: "n = q * 100 + r" "r < 100" "n mod 100 = r" by (rule capacity_cases)
  then show "n \<le> capacity n" "capacity n \<le> n + 99" using capacity_split[of r q] by simp_all
qed

text \<open>An array of blocks of \<open>d\<close> elements for \<open>n\<close> support vectors; it is not used while there is none.\<close>

definition blocks_ok :: "nat \<Rightarrow> nat \<Rightarrow> sv_array \<Rightarrow> bool" where
  "blocks_ok d n a \<longleftrightarrow> n = 0 \<or> plain_vector a \<and> length (sv_data a) = capacity n * d"

definition block :: "nat \<Rightarrow> nat \<Rightarrow> float8 list \<Rightarrow> float8 list" where
  "block d i xs = take d (drop (i * d) xs)"

text \<open>A place for the next vector: the old blocks are kept.\<close>

definition extends :: "nat \<Rightarrow> nat \<Rightarrow> sv_array \<Rightarrow> float8 list \<Rightarrow> sv_array \<Rightarrow> bool" where
  "extends d n a x a' \<longleftrightarrow> blocks_ok d (n + 1) a' \<and> take (n * d) (sv_data a') = take (n * d) (sv_data a) \<and> block d n (sv_data a') = x"

definition small :: "nat \<Rightarrow> nat \<Rightarrow> bool" where
  "small d n \<longleftrightarrow> 0 < d \<and> 8 * ((n + 100) * d) + 24 < 2 ^ 30"

lemma small_limits:
  assumes "small d n"
  shows "(n + 100) * d < 2 ^ 27" "n * d + d \<le> (n + 100) * d" "n + 100 \<le> (n + 100) * d" "capacity n * d < 2 ^ 27" "n < 2 ^ 27" "d < 2 ^ 27"
proof -
  have "8 * A + 24 < 2 ^ 30 \<Longrightarrow> A < 2 ^ 27" for A :: nat by simp
  then show lim: "(n + 100) * d < 2 ^ 27" using assms unfolding small_def by blast
  show "n * d + d \<le> (n + 100) * d" by (simp add: algebra_simps)
  show n: "n + 100 \<le> (n + 100) * d" using assms by (simp add: small_def)
  have "capacity n * d \<le> (n + 100) * d" using capacity_le(2)[of n] by (intro mult_le_mono1) simp
  then show "capacity n * d < 2 ^ 27" using lim by (rule le_less_trans)
  show "n < 2 ^ 27" using lim n by linarith
  have "1 * d \<le> (n + 100) * d" by (intro mult_le_mono1) simp
  then show "d < 2 ^ 27" using lim by linarith
qed

lemma construct_zero_small: "8 * n + 24 < 2 ^ 30 \<Longrightarrow> construct_zero_array (int n) = Inr (replicate n f64_zero)"
  by (simp add: construct_zero_array_def)

lemma to_int32_nat: "k < 2 ^ 27 \<Longrightarrow> to_int32 (int k) = int k"
  by simp

lemma mod_blocksize: "int n mod blocksize = int (n mod 100)"
  by (simp add: blocksize_def zmod_int)

lemma read_prefix: "k \<le> length xs \<Longrightarrow> read_block xs 0 (int k) = Inr (take k xs)"
  by (simp add: read_block_def)

lemma addNewSV_extends:
  assumes "small d n" "blocks_ok d n a" "length x = d"
  shows "\<exists>a'. addNewSV a x (int n) (int d) = Inr a' \<and> extends d n a x a'"
proof -
  note lim = small_limits[OF assms(1)]
  have "n * d < 2 ^ 27" using lim(1,2) by linarith
  from to_int32_nat[OF this] have start: "to_int32 (int n * int d) = int (n * d)" by simp
  have "n + 100 < 2 ^ 27" using lim(1,3) by linarith
  from to_int32_nat[OF this] to_int32_nat[OF lim(1)] have num: "to_int32 (to_int32 (int n + blocksize) * int d) = int ((n + 100) * d)"
    by (simp add: blocksize_def)
  show ?thesis
  proof (cases "n mod 100 = 0")
    case True
    then have mod: "int n mod blocksize = 0" by (simp add: mod_blocksize)
    have zero: "construct_zero_array (int ((n + 100) * d)) = Inr (replicate ((n + 100) * d) f64_zero)"
      using assms(1) by (intro construct_zero_small) (simp add: small_def)
    define old where "old = take (n * d) (sv_data a)"
    have len: "n * d \<le> length (sv_data a)" using assms(2) True capacity_mod[OF True] by (auto simp: blocks_ok_def)
    then have read: "read_block (sv_data a) 0 (int n * int d) = Inr old" using read_prefix[of "n * d" "sv_data a"] by (simp add: old_def)
    define fresh where "fresh = old @ drop (n * d) (replicate ((n + 100) * d) f64_zero)"
    have copy: "old @ drop (nat (int n * int d)) (replicate ((n + 100) * d) f64_zero) = fresh" by (simp add: fresh_def nat_mult_distrib)
    have fresh: "length fresh = (n + 100) * d" "take (n * d) fresh = old" using len by (simp_all add: fresh_def old_def algebra_simps)
    have store: "store_vector x (int d) (int (n * d)) fresh = Inr (old @ x @ drop (n * d + d) fresh)"
      using store_vector_block[of "n * d" x fresh] lim(1,2) fresh assms(3) by simp
    have "addNewSV a x (int n) (int d) = Inr (float8_array (old @ x @ drop (n * d + d) fresh))"
      unfolding addNewSV_def if_P[OF mod] num zero rbind.simps read copy start store ..
    moreover have "length (old @ x @ drop (n * d + d) fresh) = (n + 100) * d"
      using len fresh(1) assms(3) lim(2) by (simp add: old_def algebra_simps)
    moreover have "length old = n * d" using len by (simp add: old_def)
    ultimately show ?thesis
      using capacity_mod[OF True] assms(3)
      by (auto simp: extends_def blocks_ok_def plain_vector_def float8_array_def block_def old_def)
  next
    case False
    then have "int n mod blocksize \<noteq> 0" by (simp add: mod_blocksize)
    moreover have ok: "plain_vector a" "length (sv_data a) = capacity n * d" using assms(2) False by (auto simp: blocks_ok_def)
    have room: "n * d + d \<le> capacity n * d" using capacity_no_mod[OF False] mult_le_mono1[of "n + 1" "capacity n" d] by simp
    have "store_vector x (int d) (int (n * d)) (sv_data a) = Inr (take (n * d) (sv_data a) @ x @ drop (n * d + d) (sv_data a))"
      using store_vector_block[of "n * d" x "sv_data a"] ok(2) room lim(4) assms(3) by simp
    ultimately have "addNewSV a x (int n) (int d) =
        Inr (a\<lparr>sv_data := take (n * d) (sv_data a) @ x @ drop (n * d + d) (sv_data a)\<rparr>)"
      unfolding addNewSV_def using start by simp
    moreover have "plain_vector (a\<lparr>sv_data := ys\<rparr>)" for ys using ok(1) by (simp add: plain_vector_def)
    ultimately show ?thesis
      using ok room capacity_no_mod[OF False] assms(3) by (auto simp: extends_def blocks_ok_def block_def)
  qed
qed

text \<open>A weight is a vector of one element.\<close>

lemma addNewWeight_vector: "n < 2 ^ 27 \<Longrightarrow> addNewWeight a w (int n) = addNewSV a [w] (int n) 1"
proof -
  assume n: "n < 2 ^ 27"
  have one: "passes 1 (length [w]) = [0]" by (simp add: passes_def)
  have "store_vector [w] 1 (int n) data = upd_res data (int n) w" for data
  proof -
    have "nth_res [w] 0 = Inr w" using nth_res_Inr[of 0 "[w]"] by simp
    moreover have "rbind r Inr = r" for r :: "float8 list res" by (cases r) simp_all
    moreover have "foldM f [] = Inr" for f :: "nat \<Rightarrow> float8 list \<Rightarrow> float8 list res" by (rule ext) simp
    ultimately show ?thesis unfolding store_vector_def one using n by simp
  qed
  then show ?thesis using n by (simp add: addNewWeight_def addNewSV_def blocksize_def)
qed

lemma small_one: "small d n \<Longrightarrow> small 1 n"
proof -
  assume "small d n"
  then have "n + 100 \<le> (n + 100) * d" "8 * ((n + 100) * d) + 24 < 2 ^ 30" using small_limits(3) by (simp_all only: small_def)
  then show ?thesis unfolding small_def mult_1_right
    by (meson add_le_mono1 le_less_trans mult_le_mono2 zero_less_one)
qed

lemma addNewWeight_extends:
  assumes "small d n" "blocks_ok 1 n a"
  shows "\<exists>a'. addNewWeight a w (int n) = Inr a' \<and> extends 1 n a [w] a'"
  using addNewSV_extends[OF small_one[OF assms(1)] assms(2), of "[w]"] addNewWeight_vector[OF small_limits(5)[OF assms(1)], of a w] by simp

section \<open>Models as lists of weighted vectors\<close>

definition model_ok :: "nat \<Rightarrow> nat \<Rightarrow> sv_model \<Rightarrow> bool" where
  "model_ok d koid m \<longleftrightarrow> \<not> null_array m \<and> \<not> null_scalar m \<and> 0 \<le> nsvs m \<and>
     (ind_dim m = int d \<or> ind_dim m = 0 \<and> nsvs m = 0) \<and> (kernel_oid m = 0 \<or> kernel_oid m = koid) \<and>
     blocks_ok 1 (nat (nsvs m)) (weights m) \<and> blocks_ok d (nat (nsvs m)) (individuals m)"

definition support :: "nat \<Rightarrow> sv_model \<Rightarrow> (float8 \<times> float8 list) list" where
  "support d m = map (\<lambda>i. (sv_data (weights m) ! i, block d i (sv_data (individuals m)))) [0..<nat (nsvs m)]"

text \<open>What is used of the kernel: it is found by its name, and defined for two vectors of the dimension.\<close>

definition kernel_ok :: "kernel_call \<Rightarrow> (string \<Rightarrow> nat res) \<Rightarrow> string \<Rightarrow> nat \<Rightarrow> nat \<Rightarrow> (float8 list \<Rightarrow> float8 list \<Rightarrow> float8) \<Rightarrow> bool" where
  "kernel_ok apply_kernel lookup kname koid d K \<longleftrightarrow> lookup kname = Inr koid \<and>
     (\<forall>v x. length v = d \<and> length x = d \<longrightarrow> apply_kernel koid (float8_array v) (float8_array x) = Inr (K v x))"

definition sum_kernels :: "(float8 list \<Rightarrow> float8 list \<Rightarrow> float8) \<Rightarrow> (float8 \<times> float8 list) list \<Rightarrow> float8 list \<Rightarrow> float8" where
  "sum_kernels K svs x = foldl (\<lambda>ret (w, v). f64_add ret (f64_mul w (K v x))) f64_zero svs"

lemma read_block_block:
  assumes "i < n" "n * d \<le> length xs" "length xs < 2 ^ 27"
  shows "read_block xs (to_int32 (int d * int i)) (int d) = Inr (block d i xs)" "length (block d i xs) = d"
proof -
  have "(i + 1) * d \<le> n * d" using assms(1) by (intro mult_le_mono1) simp
  then have le: "i * d + d \<le> length xs" using assms(2) by simp
  then have "i * d < 2 ^ 27" using assms(3) by linarith
  from to_int32_nat[OF this] have "to_int32 (int d * int i) = int (i * d)" by (simp add: mult.commute)
  moreover have "read_block xs (int (i * d)) (int d) = Inr (take d (drop (i * d) xs))"
  proof -
    have "int (i * d) + int d \<le> int (length xs)" using le by (simp only: of_nat_add[symmetric] of_nat_le_iff)
    then show ?thesis unfolding read_block_def nat_int by (simp del: of_nat_mult)
  qed
  ultimately show "read_block xs (to_int32 (int d * int i)) (int d) = Inr (block d i xs)" "length (block d i xs) = d"
    using le by (simp_all add: block_def)
qed

lemma predict_eval_sum:
  assumes "kernel_ok apply_kernel lookup kname koid d K" "length x = d" "8 * d + 24 < 2 ^ 30"
    "n \<le> length ws" "n * d \<le> length vs" "length vs < 2 ^ 27"
  shows "svm_predict_eval apply_kernel koid ws vs (float8_array x) (int n) (int d) =
    Inr (sum_kernels K (map (\<lambda>i. (ws ! i, block d i vs)) [0..<n]) x)"
proof -
  let ?f = "\<lambda>i ret. rbind (read_block vs (to_int32 (int d * int i)) (int d)) (\<lambda>spp_vec.
         rbind (nth_res ws (int i)) (\<lambda>w.
         rbind (apply_kernel koid (float8_array spp_vec) (float8_array x)) (\<lambda>k. Inr (f64_add ret (f64_mul w k)))))"
  have "foldM ?f [0..<m] f64_zero = Inr (sum_kernels K (map (\<lambda>i. (ws ! i, block d i vs)) [0..<m]) x)" if "m \<le> n" for m
    using that
  proof (induction m)
    case (Suc m)
    then have m: "m < n" by simp
    have "apply_kernel koid (float8_array (block d m vs)) (float8_array x) = Inr (K (block d m vs) x)"
      using assms(1,2) read_block_block(2)[OF m assms(5,6)] by (simp add: kernel_ok_def)
    then have "?f m ret = Inr (f64_add ret (f64_mul (ws ! m) (K (block d m vs) x)))" for ret
      using read_block_block(1)[OF m assms(5,6)] m assms(4) by simp
    then show ?case using Suc by (simp add: foldM_append sum_kernels_def)
  qed (simp add: sum_kernels_def)
  from this[of n] show ?thesis
    unfolding svm_predict_eval_def construct_zero_small[OF assms(3)] rbind.simps passes_nat by simp
qed

text \<open>The model after the dimension and the kernel are set.\<close>

lemma read_model_ok:
  assumes "model_ok d koid m" "kernel_ok apply_kernel lookup kname koid d K" "length x = d"
  shows "read_model lookup m (float8_array x) kname = Inr (m\<lparr>ind_dim := int d, kernel_oid := koid\<rparr>)"
proof -
  have "(if ind_dim m = 0 then array_items (float8_array x) else ind_dim m) = int d"
    using assms(1,3) by (auto simp: model_ok_def array_items_def float8_array_def)
  moreover have "(if kernel_oid m = 0 then lookup kname else Inr (kernel_oid m)) = Inr koid"
    using assms(1,2) by (auto simp: model_ok_def kernel_ok_def)
  moreover have "nsvs m > 0 \<longrightarrow> plain_vector (weights m) \<and> plain_vector (individuals m)"
    using assms(1) by (auto simp: model_ok_def blocks_ok_def)
  moreover have "plain_vector (float8_array x)" by (simp add: plain_vector_def float8_array_def)
  ultimately show ?thesis using assms(1) by (simp add: read_model_def model_ok_def)
qed

lemma predict_sum:
  assumes "model_ok d koid m" "ind_dim m = int d" "kernel_oid m = koid" "kernel_ok apply_kernel lookup kname koid d K" "length x = d"
    "small d (nat (nsvs m))"
  shows "predict apply_kernel m (float8_array x) = Inr (sum_kernels K (support d m) x)"
proof -
  define n where "n = nat (nsvs m)"
  have n: "nsvs m = int n" using assms(1) by (simp add: model_ok_def n_def)
  note lim = small_limits[OF assms(6)[folded n_def]]
  have blocks: "n \<le> length (sv_data (weights m))" "n * d \<le> length (sv_data (individuals m))" "length (sv_data (individuals m)) < 2 ^ 27 \<or> n = 0"
  proof -
    have "n * d \<le> capacity n * d" using capacity_le(1) by (intro mult_le_mono1)
    then show "n \<le> length (sv_data (weights m))" "n * d \<le> length (sv_data (individuals m))"
      "length (sv_data (individuals m)) < 2 ^ 27 \<or> n = 0"
      using assms(1) capacity_le(1)[of n] lim(4) by (auto simp: model_ok_def blocks_ok_def n_def)
  qed
  have "1 * d \<le> (n + 100) * d" by (intro mult_le_mono1) simp
  then have d: "8 * d + 24 < 2 ^ 30" using assms(6)[folded n_def] unfolding small_def by linarith
  show ?thesis
  proof (cases "n = 0")
    case True
    then show ?thesis
      using assms(2) n by (simp add: predict_def svm_predict_eval_def construct_zero_small[OF d] support_def sum_kernels_def passes_def)
  next
    case False
    then show ?thesis
      using predict_eval_sum[OF assms(4,5) d blocks(1,2)] blocks(3) assms(2,3) n by (simp add: predict_def support_def)
  qed
qed

lemma discount_support:
  assumes "model_ok d koid m"
  shows "\<exists>m'. discount tiny factor m = Inr m' \<and> model_ok d koid m' \<and> m' = m\<lparr>weights := weights m'\<rparr> \<and>
    support d m' = map (\<lambda>(w, v). (if tiny w then f64_zero else f64_mul w factor, v)) (support d m)"
proof -
  define n where "n = nat (nsvs m)"
  have n: "nsvs m = int n" using assms by (simp add: model_ok_def n_def)
  have len: "n \<le> length (sv_data (weights m))"
    using assms capacity_le(1)[of n] by (auto simp: model_ok_def blocks_ok_def n_def)
  let ?f = "\<lambda>w. if tiny w then f64_zero else f64_mul w factor"
  define ws where "ws = map ?f (take n (sv_data (weights m))) @ drop n (sv_data (weights m))"
  define m' where "m' = m\<lparr>weights := (weights m)\<lparr>sv_data := ws\<rparr>\<rparr>"
  have "discount tiny factor m = Inr m'"
    unfolding discount_def n passes_nat foldM_update_prefix[OF len] rbind.simps ws_def[symmetric] m'_def ..
  moreover have "length ws = length (sv_data (weights m))" by (simp add: ws_def)
  then have "model_ok d koid m'" using assms by (auto simp: m'_def model_ok_def blocks_ok_def plain_vector_def)
  moreover have "support d m' = map (\<lambda>(w, v). (?f w, v)) (support d m)"
    using len n by (auto simp: support_def m'_def ws_def nth_append)
  moreover have "m' = m\<lparr>weights := weights m'\<rparr>" by (simp add: m'_def)
  ultimately show ?thesis by blast
qed

lemma extends_nth:
  assumes "extends d n a x a'" "i < n" "n * d \<le> length (sv_data a)"
  shows "block d i (sv_data a') = block d i (sv_data a)"
proof -
  have "(i + 1) * d \<le> n * d" using assms(2) by (intro mult_le_mono1) simp
  then have "min d (n * d - i * d) = d" by simp
  then have "block d i ys = take d (drop (i * d) (take (n * d) ys))" for ys :: "float8 list"
    by (simp add: block_def drop_take min.commute)
  then show ?thesis using assms(1) by (metis extends_def)
qed

lemma add_vector_support:
  assumes "model_ok d koid m" "ind_dim m = int d" "length x = d" "small d (nat (nsvs m))"
  shows "\<exists>m'. add_vector (float8_array x) w m = Inr m' \<and> model_ok d koid m' \<and> nsvs m' = nsvs m + 1 \<and>
    m' = m\<lparr>weights := weights m', individuals := individuals m', nsvs := nsvs m'\<rparr> \<and> support d m' = support d m @ [(w, x)]"
proof -
  define n where "n = nat (nsvs m)"
  have n: "nsvs m = int n" using assms(1) by (simp add: model_ok_def n_def)
  note small = assms(4)[folded n_def]
  have ok: "blocks_ok 1 n (weights m)" "blocks_ok d n (individuals m)" using assms(1) by (simp_all add: model_ok_def n_def)
  obtain ws where ws: "addNewWeight (weights m) w (int n) = Inr ws" "extends 1 n (weights m) [w] ws"
    using addNewWeight_extends[OF small ok(1)] by blast
  obtain vs where vs: "addNewSV (individuals m) x (int n) (int d) = Inr vs" "extends d n (individuals m) x vs"
    using addNewSV_extends[OF small ok(2) assms(3)] by blast
  define m' where "m' = m\<lparr>weights := ws, individuals := vs, nsvs := int (n + 1)\<rparr>"
  have "to_int32 (int n + 1) = int (n + 1)" using small_limits(5)[OF small] by simp
  then have "add_vector (float8_array x) w m = Inr m'"
    unfolding add_vector_def n assms(2) using ws(1) vs(1) by (simp add: float8_array_def m'_def)
  moreover have "nat (1 + int n) = Suc n" by simp
  then have "model_ok d koid m'" using assms(1,2) ws(2) vs(2) by (simp add: m'_def model_ok_def extends_def)
  moreover have "support d m' = support d m @ [(w, x)]"
  proof -
    have len: "n * 1 \<le> length (sv_data (weights m))" "n * d \<le> length (sv_data (individuals m))"
      using ok capacity_le(1)[of n] by (auto simp: blocks_ok_def intro: mult_le_mono1)
    have nth: "take 1 (drop (i * 1) (sv_data ws)) = take 1 (drop (i * 1) (sv_data (weights m)))" if "i < n" for i
      using extends_nth[OF ws(2) that len(1)] by (simp add: block_def)
    have ws_len: "n < length (sv_data ws)" using ws(2) capacity_le(1)[of "n + 1"] by (auto simp: extends_def blocks_ok_def)
    have hd: "sv_data ws ! i = sv_data (weights m) ! i" if "i < n" for i
      using nth[OF that] that ws_len len(1) by (simp add: take_Suc hd_drop_conv_nth)
    have "sv_data ws ! n = w" using ws(2) ws_len by (simp add: extends_def block_def take_Suc hd_drop_conv_nth)
    moreover have "block d n (sv_data vs) = x" using vs(2) by (simp add: extends_def)
    ultimately show ?thesis
      unfolding support_def m'_def using n hd extends_nth[OF vs(2) _ len(2)] by (simp add: nat_add_distrib)
  qed
  ultimately show ?thesis using n by (intro exI[of _ m']) (simp add: m'_def)
qed

section \<open>The learning functions on lists of vectors\<close>

record svm =
  s_inds :: int
  s_cum_err :: float8
  s_epsilon :: float8
  s_rho :: float8
  s_bias :: float8
  s_support :: "(float8 \<times> float8 list) list"

definition svm_of :: "nat \<Rightarrow> sv_model \<Rightarrow> svm" where
  "svm_of d m = \<lparr>s_inds = inds m, s_cum_err = cum_err m, s_epsilon = epsilon m, s_rho = rho m, s_bias = bias m, s_support = support d m\<rparr>"

definition rescale :: "(float8 \<Rightarrow> bool) \<Rightarrow> float8 \<Rightarrow> (float8 \<times> float8 list) list \<Rightarrow> (float8 \<times> float8 list) list" where
  "rescale tiny factor svs = map (\<lambda>(w, v). (if tiny w then f64_zero else f64_mul w factor, v)) svs"

text \<open>Regression: a prediction that is off by more than epsilon adds the vector.\<close>

definition reg_spec :: "(float8 list \<Rightarrow> float8 list \<Rightarrow> float8) \<Rightarrow> float8 \<Rightarrow> float8 \<Rightarrow> float8 \<Rightarrow> float8 list \<times> float8 \<Rightarrow> svm \<Rightarrow> svm" where
  "reg_spec K eta nu slambda e s = (case e of (x, y) \<Rightarrow>
     let diff = f64_sub y (f64_add (sum_kernels K (s_support s) x) (s_bias s));
         factor = f64_sub f64_one (f64_mul eta slambda);
         cap = f64_add (f64_add f64_tenth (f64_div f64_one factor)) f64_tenth;
         w = (if f64_lt diff f64_zero then f64_neg eta else eta);
         s = s\<lparr>s_inds := to_int32 (s_inds s + 1), s_cum_err := f64_add (s_cum_err s) (f64_fabs diff)\<rparr>
     in if f64_lt (s_epsilon s) (f64_fabs diff)
        then s\<lparr>s_support := rescale (\<lambda>w. f64_lt (f64_fabs w) (f64_mul cap DBL_MIN)) factor (s_support s) @ [(w, x)],
               s_bias := f64_add (s_bias s) w, s_epsilon := f64_add (s_epsilon s) (f64_mul (f64_sub f64_one nu) eta)\<rparr>
        else s\<lparr>s_epsilon := f64_sub (s_epsilon s) (f64_mul eta nu)\<rparr>)"

text \<open>Classification: a margin of at most rho adds the vector, with a rate that decreases with the number of examples.\<close>

definition cls_spec :: "(float8 list \<Rightarrow> float8 list \<Rightarrow> float8) \<Rightarrow> float8 \<Rightarrow> float8 \<Rightarrow> float8 list \<times> float8 \<Rightarrow> svm \<Rightarrow> svm" where
  "cls_spec K eta nu e s = (case e of (x, y) \<Rightarrow>
     let p = f64_mul y (f64_add (sum_kernels K (s_support s) x) (s_bias s));
         k = to_int32 (s_inds s + 1);
         rate = f64_div eta (f64_sqrt (f64_mul (f64_of_int k) f64_one));
         s = s\<lparr>s_inds := k, s_cum_err := (if f64_le p f64_zero then f64_add (s_cum_err s) f64_one else s_cum_err s)\<rparr>
     in if f64_le p (s_rho s)
        then s\<lparr>s_support := rescale (\<lambda>w. f64_lt (f64_fabs w) (f64_mul 0x3FF2666666666666 DBL_MIN)) (f64_sub f64_one (f64_mul f64_tenth rate))
                 (s_support s) @ [(f64_mul y rate, x)],
               s_bias := f64_add (s_bias s) (f64_mul rate y), s_rho := f64_sub (s_rho s) (f64_mul rate (f64_sub f64_one nu))\<rparr>
        else s\<lparr>s_rho := f64_add (s_rho s) (f64_mul rate nu)\<rparr>)"

text \<open>Novelty detection: a value below rho adds the vector.\<close>

definition nd_spec :: "(float8 list \<Rightarrow> float8 list \<Rightarrow> float8) \<Rightarrow> float8 \<Rightarrow> float8 \<Rightarrow> float8 list \<Rightarrow> svm \<Rightarrow> svm" where
  "nd_spec K eta nu x s =
     (let p = sum_kernels K (s_support s) x; s = s\<lparr>s_inds := to_int32 (s_inds s + 1)\<rparr>
      in if f64_lt p (s_rho s)
         then s\<lparr>s_support := rescale (\<lambda>w. f64_lt w (f64_mul 0x3FF2666666666666 DBL_MIN)) (f64_sub f64_one (f64_mul f64_tenth eta))
                  (s_support s) @ [(eta, x)],
                s_rho := f64_sub (s_rho s) (f64_mul eta (f64_sub f64_one nu))\<rparr>
         else s\<lparr>s_rho := f64_add (s_rho s) (f64_mul eta nu)\<rparr>)"

section \<open>Training\<close>

lemma small_mono: "small d n \<Longrightarrow> k \<le> n \<Longrightarrow> small d k"
proof -
  assume "small d n" "k \<le> n"
  then have "8 * ((k + 100) * d) + 24 \<le> 8 * ((n + 100) * d) + 24" by (intro add_le_mono1 mult_le_mono2 mult_le_mono1) simp
  with \<open>small d n\<close> show ?thesis unfolding small_def by linarith
qed

text \<open>
  An update function that refines a function on abstract models: a training run over a list of
  examples computes the fold of that function.  \<open>valid\<close> stands for the tests of the parameters, and
  \<open>room k m\<close> for a model that can take \<open>k\<close> more examples.
\<close>

locale online_learner =
  fixes update :: "'e \<Rightarrow> 'm \<Rightarrow> 'm res" and spec :: "'e \<Rightarrow> 'a \<Rightarrow> 'a" and abs_of :: "'m \<Rightarrow> 'a"
    and room :: "nat \<Rightarrow> 'm \<Rightarrow> bool" and valid :: bool and good :: "'e \<Rightarrow> bool"
  assumes step: "valid \<Longrightarrow> room (Suc k) m \<Longrightarrow> good e \<Longrightarrow> \<exists>m'. update e m = Inr m' \<and> room k m' \<and> abs_of m' = spec e (abs_of m)"
begin

lemma training:
  assumes valid
  shows "room (length es) m \<Longrightarrow> \<forall>e\<in>set es. good e \<Longrightarrow>
    \<exists>m'. foldM update es m = Inr m' \<and> room 0 m' \<and> abs_of m' = fold spec es (abs_of m)"
proof (induction es arbitrary: m)
  case (Cons e es)
  then obtain m' where m': "update e m = Inr m'" "room (length es) m'" "abs_of m' = spec e (abs_of m)"
    using step[OF assms, of "length es" m e] by auto
  with Cons.IH[OF m'(2)] Cons.prems(2) show ?case by simp
qed simp

end

text \<open>What the three functions do with a model whose dimension and kernel are set.\<close>

lemma read_and_predict:
  assumes "kernel_ok apply_kernel lookup kname koid d K" "model_ok d koid m" "length x = d" "small d (nat (nsvs m))"
  shows "\<exists>m1. read_model lookup m (float8_array x) kname = Inr m1 \<and> model_ok d koid m1 \<and> ind_dim m1 = int d \<and> nsvs m1 = nsvs m \<and>
    svm_of d m1 = svm_of d m \<and> predict apply_kernel m1 (float8_array x) = Inr (sum_kernels K (support d m1) x)"
proof -
  define m1 where "m1 = m\<lparr>ind_dim := int d, kernel_oid := koid\<rparr>"
  have ok: "model_ok d koid m1" using assms(2) by (simp add: model_ok_def m1_def)
  have "predict apply_kernel m1 (float8_array x) = Inr (sum_kernels K (support d m1) x)"
    using predict_sum[OF ok _ _ assms(1,3)] assms(4) by (simp add: m1_def)
  then show ?thesis
    using read_model_ok[OF assms(2,1,3)] ok by (intro exI[of _ m1]) (simp add: m1_def svm_of_def support_def)
qed

lemma learn_step:
  assumes "model_ok d koid m" "ind_dim m = int d" "length x = d" "small d (nat (nsvs m))"
  shows "\<exists>m1 m2. discount tiny factor m = Inr m1 \<and> add_vector (float8_array x) w m1 = Inr m2 \<and> model_ok d koid m2 \<and> nsvs m2 = nsvs m + 1 \<and>
    svm_of d m2 = (svm_of d m)\<lparr>s_support := rescale tiny factor (support d m) @ [(w, x)]\<rparr>"
proof -
  obtain m1 where m1: "discount tiny factor m = Inr m1" "model_ok d koid m1" "m1 = m\<lparr>weights := weights m1\<rparr>"
    "support d m1 = rescale tiny factor (support d m)"
    using discount_support[OF assms(1), of tiny factor] unfolding rescale_def by blast
  have same: "nsvs m1 = nsvs m" "ind_dim m1 = ind_dim m" by (subst m1(3), simp)+
  obtain m2 where m2: "add_vector (float8_array x) w m1 = Inr m2" "model_ok d koid m2" "nsvs m2 = nsvs m1 + 1"
    "m2 = m1\<lparr>weights := weights m2, individuals := individuals m2, nsvs := nsvs m2\<rparr>" "support d m2 = support d m1 @ [(w, x)]"
    using add_vector_support[OF m1(2) _ assms(3), of w] assms(2,4) same by auto
  have "inds m2 = inds m" "cum_err m2 = cum_err m" "epsilon m2 = epsilon m" "rho m2 = rho m" "bias m2 = bias m"
    by (subst m2(4), subst m1(3), simp)+
  then show ?thesis using m1 m2 same by (simp add: svm_of_def)
qed

text \<open>Changes of the counters do not touch the arrays.\<close>

lemma support_updates [simp]:
  "support d (m\<lparr>inds := i\<rparr>) = support d m" "support d (m\<lparr>cum_err := c\<rparr>) = support d m" "support d (m\<lparr>epsilon := e\<rparr>) = support d m"
  "support d (m\<lparr>rho := r\<rparr>) = support d m" "support d (m\<lparr>bias := b\<rparr>) = support d m"
  by (simp_all add: support_def)

lemma model_ok_updates [simp]:
  "model_ok d koid (m\<lparr>inds := i\<rparr>) = model_ok d koid m" "model_ok d koid (m\<lparr>cum_err := c\<rparr>) = model_ok d koid m"
  "model_ok d koid (m\<lparr>epsilon := e\<rparr>) = model_ok d koid m" "model_ok d koid (m\<lparr>rho := r\<rparr>) = model_ok d koid m"
  "model_ok d koid (m\<lparr>bias := b\<rparr>) = model_ok d koid m"
  by (simp_all add: model_ok_def)

lemmas svm_fields = svm_of_def rescale_def

lemma reg_step:
  assumes "kernel_ok apply_kernel lookup kname koid d K \<and> check_rates eta nu \<and> \<not> f64_lt f64_one (f64_mul eta slambda)"
    "model_ok d koid m" "length x = d" "small d (nat (nsvs m))"
  shows "\<exists>m'. svm_reg_update apply_kernel lookup m (float8_array x) y kname eta nu slambda = Inr m' \<and> model_ok d koid m' \<and>
    svm_of d m' = reg_spec K eta nu slambda (x, y) (svm_of d m) \<and> nsvs m' \<le> nsvs m + 1"
proof -
  obtain m1 where m1: "read_model lookup m (float8_array x) kname = Inr m1" "model_ok d koid m1" "ind_dim m1 = int d" "nsvs m1 = nsvs m"
    "svm_of d m1 = svm_of d m" "predict apply_kernel m1 (float8_array x) = Inr (sum_kernels K (support d m1) x)"
    using read_and_predict[OF _ assms(2-4)] assms(1) by blast
  define diff where "diff = f64_sub y (f64_add (sum_kernels K (support d m1) x) (bias m1))"
  define m2 where "m2 = m1\<lparr>inds := to_int32 (inds m1 + 1), cum_err := f64_add (cum_err m1) (f64_fabs diff)\<rparr>"
  define factor where "factor = f64_sub f64_one (f64_mul eta slambda)"
  define tiny where "tiny = (\<lambda>w. f64_lt (f64_fabs w) (f64_mul (f64_add (f64_add f64_tenth (f64_div f64_one factor)) f64_tenth) DBL_MIN))"
  define w where "w = (if f64_lt diff f64_zero then f64_neg eta else eta)"
  have m2: "model_ok d koid m2" "ind_dim m2 = int d" "nsvs m2 = nsvs m" "support d m2 = support d m1" using m1(2-4) by (simp_all add: m2_def)
  obtain m3 m4 where m4: "discount tiny factor m2 = Inr m3" "add_vector (float8_array x) w m3 = Inr m4" "model_ok d koid m4"
    "nsvs m4 = nsvs m2 + 1" "svm_of d m4 = (svm_of d m2)\<lparr>s_support := rescale tiny factor (support d m2) @ [(w, x)]\<rparr>"
    using learn_step[OF m2(1,2) assms(3), of tiny factor w] assms(4) m2(3) by auto
  have spec: "reg_spec K eta nu slambda (x, y) (svm_of d m) =
      (if f64_lt (epsilon m2) (f64_fabs diff)
       then (svm_of d m4)\<lparr>s_bias := f64_add (bias m4) w, s_epsilon := f64_add (epsilon m4) (f64_mul (f64_sub f64_one nu) eta)\<rparr>
       else (svm_of d m2)\<lparr>s_epsilon := f64_sub (epsilon m2) (f64_mul eta nu)\<rparr>)"
    unfolding m1(5)[symmetric]
    using m4(5) m2(4) by (simp add: reg_spec_def Let_def svm_of_def m2_def diff_def w_def tiny_def factor_def)
  have run: "svm_reg_update apply_kernel lookup m (float8_array x) y kname eta nu slambda =
      (if f64_lt (epsilon m2) (f64_fabs diff)
       then Inr (m4\<lparr>bias := f64_add (bias m4) w, epsilon := f64_add (epsilon m4) (f64_mul (f64_sub f64_one nu) eta)\<rparr>)
       else Inr (m2\<lparr>epsilon := f64_sub (epsilon m2) (f64_mul eta nu)\<rparr>))"
    using assms(1) m1(1,6) m4(1,2)
    by (simp add: svm_reg_update_def Let_def m2_def diff_def w_def tiny_def factor_def)
  show ?thesis unfolding run spec using m2 m4 by (auto simp: svm_of_def)
qed

lemma cls_step:
  assumes "kernel_ok apply_kernel lookup kname koid d K \<and> check_rates eta nu"
    "model_ok d koid m" "length x = d" "small d (nat (nsvs m))"
  shows "\<exists>m'. svm_cls_update apply_kernel lookup m (float8_array x) y kname eta nu = Inr m' \<and> model_ok d koid m' \<and>
    svm_of d m' = cls_spec K eta nu (x, y) (svm_of d m) \<and> nsvs m' \<le> nsvs m + 1"
proof -
  obtain m1 where m1: "read_model lookup m (float8_array x) kname = Inr m1" "model_ok d koid m1" "ind_dim m1 = int d" "nsvs m1 = nsvs m"
    "svm_of d m1 = svm_of d m" "predict apply_kernel m1 (float8_array x) = Inr (sum_kernels K (support d m1) x)"
    using read_and_predict[OF _ assms(2-4)] assms(1) by blast
  define p where "p = f64_mul y (f64_add (sum_kernels K (support d m1) x) (bias m1))"
  define m2 where "m2 = m1\<lparr>inds := to_int32 (inds m1 + 1), cum_err := (if f64_le p f64_zero then f64_add (cum_err m1) f64_one else cum_err m1)\<rparr>"
  define rate where "rate = f64_div eta (f64_sqrt (f64_mul (f64_of_int (to_int32 (inds m1 + 1))) f64_one))"
  define factor where "factor = f64_sub f64_one (f64_mul f64_tenth rate)"
  define tiny where "tiny = (\<lambda>w. f64_lt (f64_fabs w) (f64_mul 0x3FF2666666666666 DBL_MIN))"
  have m2: "model_ok d koid m2" "ind_dim m2 = int d" "nsvs m2 = nsvs m" "support d m2 = support d m1" using m1(2-4) by (simp_all add: m2_def)
  obtain m3 m4 where m4: "discount tiny factor m2 = Inr m3" "add_vector (float8_array x) (f64_mul y rate) m3 = Inr m4" "model_ok d koid m4"
    "nsvs m4 = nsvs m2 + 1" "svm_of d m4 = (svm_of d m2)\<lparr>s_support := rescale tiny factor (support d m2) @ [(f64_mul y rate, x)]\<rparr>"
    using learn_step[OF m2(1,2) assms(3), of tiny factor "f64_mul y rate"] assms(4) m2(3) by auto
  have spec: "cls_spec K eta nu (x, y) (svm_of d m) =
      (if f64_le p (rho m2)
       then (svm_of d m4)\<lparr>s_bias := f64_add (bias m4) (f64_mul rate y), s_rho := f64_sub (rho m4) (f64_mul rate (f64_sub f64_one nu))\<rparr>
       else (svm_of d m2)\<lparr>s_rho := f64_add (rho m2) (f64_mul rate nu)\<rparr>)"
    unfolding m1(5)[symmetric]
    using m4(5) m2(4) by (simp add: cls_spec_def Let_def svm_of_def m2_def p_def rate_def tiny_def factor_def)
  have m2_if: "f64_le p f64_zero \<Longrightarrow> m2 = m1\<lparr>inds := to_int32 (inds m1 + 1), cum_err := f64_add (cum_err m1) f64_one\<rparr>"
    "\<not> f64_le p f64_zero \<Longrightarrow> m2 = m1\<lparr>inds := to_int32 (inds m1 + 1)\<rparr>"
    by (simp_all add: m2_def)
  have run: "svm_cls_update apply_kernel lookup m (float8_array x) y kname eta nu =
      (if f64_le p (rho m2)
       then Inr (m4\<lparr>bias := f64_add (bias m4) (f64_mul rate y), rho := f64_sub (rho m4) (f64_mul rate (f64_sub f64_one nu))\<rparr>)
       else Inr (m2\<lparr>rho := f64_add (rho m2) (f64_mul rate nu)\<rparr>))"
  proof (cases "f64_le p f64_zero")
    case True
    note m2_eq = m2_if(1)[OF True]
    show ?thesis using assms(1) m1(1,6) m4(1,2) True
      by (simp add: svm_cls_update_def Let_def m2_eq p_def rate_def tiny_def factor_def)
  next
    case False
    note m2_eq = m2_if(2)[OF False]
    show ?thesis using assms(1) m1(1,6) m4(1,2) False
      by (simp add: svm_cls_update_def Let_def m2_eq p_def rate_def tiny_def factor_def)
  qed
  show ?thesis unfolding run spec using m2 m4 by (auto simp: svm_of_def)
qed

lemma nd_step:
  assumes "kernel_ok apply_kernel lookup kname koid d K \<and> check_rates eta nu"
    "model_ok d koid m" "length x = d" "small d (nat (nsvs m))"
  shows "\<exists>m'. svm_nd_update apply_kernel lookup m (float8_array x) kname eta nu = Inr m' \<and> model_ok d koid m' \<and>
    svm_of d m' = nd_spec K eta nu x (svm_of d m) \<and> nsvs m' \<le> nsvs m + 1"
proof -
  obtain m1 where m1: "read_model lookup m (float8_array x) kname = Inr m1" "model_ok d koid m1" "ind_dim m1 = int d" "nsvs m1 = nsvs m"
    "svm_of d m1 = svm_of d m" "predict apply_kernel m1 (float8_array x) = Inr (sum_kernels K (support d m1) x)"
    using read_and_predict[OF _ assms(2-4)] assms(1) by blast
  define m2 where "m2 = m1\<lparr>inds := to_int32 (inds m1 + 1)\<rparr>"
  define factor where "factor = f64_sub f64_one (f64_mul f64_tenth eta)"
  define tiny where "tiny = (\<lambda>w. f64_lt w (f64_mul 0x3FF2666666666666 DBL_MIN))"
  have m2: "model_ok d koid m2" "ind_dim m2 = int d" "nsvs m2 = nsvs m" "support d m2 = support d m1" using m1(2-4) by (simp_all add: m2_def)
  obtain m3 m4 where m4: "discount tiny factor m2 = Inr m3" "add_vector (float8_array x) eta m3 = Inr m4" "model_ok d koid m4"
    "nsvs m4 = nsvs m2 + 1" "svm_of d m4 = (svm_of d m2)\<lparr>s_support := rescale tiny factor (support d m2) @ [(eta, x)]\<rparr>"
    using learn_step[OF m2(1,2) assms(3), of tiny factor eta] assms(4) m2(3) by auto
  have spec: "nd_spec K eta nu x (svm_of d m) =
      (if f64_lt (sum_kernels K (support d m1) x) (rho m2)
       then (svm_of d m4)\<lparr>s_rho := f64_sub (rho m4) (f64_mul eta (f64_sub f64_one nu))\<rparr>
       else (svm_of d m2)\<lparr>s_rho := f64_add (rho m2) (f64_mul eta nu)\<rparr>)"
    unfolding m1(5)[symmetric]
    using m4(5) m2(4) by (simp add: nd_spec_def Let_def svm_of_def m2_def tiny_def factor_def)
  have run: "svm_nd_update apply_kernel lookup m (float8_array x) kname eta nu =
      (if f64_lt (sum_kernels K (support d m1) x) (rho m2)
       then Inr (m4\<lparr>rho := f64_sub (rho m4) (f64_mul eta (f64_sub f64_one nu))\<rparr>)
       else Inr (m2\<lparr>rho := f64_add (rho m2) (f64_mul eta nu)\<rparr>))"
    using assms(1) m1(1,6) m4(1,2) by (simp add: svm_nd_update_def Let_def m2_def tiny_def factor_def)
  show ?thesis unfolding run spec using m2 m4 by (auto simp: svm_of_def)
qed

text \<open>The room that a model has: its arrays can be extended for \<open>k\<close> more vectors.\<close>

definition has_room :: "nat \<Rightarrow> nat \<Rightarrow> nat \<Rightarrow> sv_model \<Rightarrow> bool" where
  "has_room d koid k m \<longleftrightarrow> model_ok d koid m \<and> small d (nat (nsvs m) + k)"

lemma has_room_next:
  assumes "has_room d koid (Suc k) m" "model_ok d koid m'" "nsvs m' \<le> nsvs m + 1"
  shows "has_room d koid k m'"
proof -
  have "0 \<le> nsvs m" using assms(1) by (simp add: has_room_def model_ok_def)
  then have "nat (nsvs m') + k \<le> nat (nsvs m) + Suc k" using assms(3) by simp
  then show ?thesis using small_mono assms(1,2) unfolding has_room_def by blast
qed

lemma has_room_now: "has_room d koid k m \<Longrightarrow> model_ok d koid m \<and> small d (nat (nsvs m))"
  using small_mono[of d "nat (nsvs m) + k"] by (simp add: has_room_def)

interpretation reg: online_learner "\<lambda>(x, y) m. svm_reg_update apply_kernel lookup m (float8_array x) y kname eta nu slambda"
  "reg_spec K eta nu slambda" "svm_of d" "has_room d koid"
  "kernel_ok apply_kernel lookup kname koid d K \<and> check_rates eta nu \<and> \<not> f64_lt f64_one (f64_mul eta slambda)" "\<lambda>(x, y). length x = d"
  for apply_kernel lookup kname eta nu slambda K d koid
proof (unfold_locales, clarify)
  fix k m and x :: "float8 list" and y
  assume "kernel_ok apply_kernel lookup kname koid (length x) K" "check_rates eta nu" "\<not> f64_lt f64_one (f64_mul eta slambda)"
    "has_room (length x) koid (Suc k) m" "d = length x"
  then show "\<exists>m'. svm_reg_update apply_kernel lookup m (float8_array x) y kname eta nu slambda = Inr m' \<and>
      has_room (length x) koid k m' \<and> svm_of (length x) m' = reg_spec K eta nu slambda (x, y) (svm_of (length x) m)"
    using reg_step[of apply_kernel lookup kname koid "length x" K eta nu slambda m x y] has_room_now has_room_next by blast
qed

interpretation cls: online_learner "\<lambda>(x, y) m. svm_cls_update apply_kernel lookup m (float8_array x) y kname eta nu"
  "cls_spec K eta nu" "svm_of d" "has_room d koid" "kernel_ok apply_kernel lookup kname koid d K \<and> check_rates eta nu" "\<lambda>(x, y). length x = d"
  for apply_kernel lookup kname eta nu K d koid
proof (unfold_locales, clarify)
  fix k m and x :: "float8 list" and y
  assume "kernel_ok apply_kernel lookup kname koid (length x) K" "check_rates eta nu" "has_room (length x) koid (Suc k) m" "d = length x"
  then show "\<exists>m'. svm_cls_update apply_kernel lookup m (float8_array x) y kname eta nu = Inr m' \<and>
      has_room (length x) koid k m' \<and> svm_of (length x) m' = cls_spec K eta nu (x, y) (svm_of (length x) m)"
    using cls_step[of apply_kernel lookup kname koid "length x" K eta nu m x y] has_room_now has_room_next by blast
qed

interpretation nd: online_learner "\<lambda>x m. svm_nd_update apply_kernel lookup m (float8_array x) kname eta nu"
  "nd_spec K eta nu" "svm_of d" "has_room d koid" "kernel_ok apply_kernel lookup kname koid d K \<and> check_rates eta nu" "\<lambda>x. length x = d"
  for apply_kernel lookup kname eta nu K d koid
proof (unfold_locales, clarify)
  fix k m and x :: "float8 list"
  assume "kernel_ok apply_kernel lookup kname koid (length x) K" "check_rates eta nu" "has_room (length x) koid (Suc k) m" "d = length x"
  then show "\<exists>m'. svm_nd_update apply_kernel lookup m (float8_array x) kname eta nu = Inr m' \<and>
      has_room (length x) koid k m' \<and> svm_of (length x) m' = nd_spec K eta nu x (svm_of (length x) m)"
    using nd_step[of apply_kernel lookup kname koid "length x" K eta nu m x] has_room_now has_room_next by blast
qed

section \<open>Stochastic gradient descent\<close>

text \<open>The weights are a list; there are no indices and no errors.\<close>

record linear_svm =
  g_weights :: "float8 list"
  g_divisor :: float8
  g_bias :: float8
  g_inds :: int
  g_cum_err :: int

definition sgd_spec :: "float8 \<Rightarrow> float8 \<Rightarrow> float8 list \<times> float8 \<Rightarrow> linear_svm \<Rightarrow> linear_svm" where
  "sgd_spec eta0 lambda e g = (case e of (x, y) \<Rightarrow>
     let eta = f64_div eta0 (f64_add f64_one (f64_mul (f64_mul lambda eta0) (f64_of_int (g_inds g))));
         dot = foldl (\<lambda>s (w, xi). if f64_eq xi f64_zero then s else f64_add s (f64_mul w xi)) f64_zero (zip (g_weights g) x);
         s = f64_add (f64_div dot (g_divisor g)) (g_bias g);
         divisor = f64_div (g_divisor g) (f64_sub f64_one (f64_mul eta lambda));
         big = f64_lt 0x40F86A0000000000 divisor;
         ws = (if big then map (\<lambda>w. f64_mul w (f64_div f64_one divisor)) (g_weights g) else g_weights g);
         divisor = (if big then f64_one else divisor);
         d = dloss s y;
         c = f64_mul (f64_mul eta d) divisor
     in \<lparr>g_weights = (if f64_eq d f64_zero then ws else map2 (\<lambda>w xi. if f64_eq xi f64_zero then w else f64_add w (f64_mul xi c)) ws x),
         g_divisor = divisor, g_bias = f64_add (g_bias g) (f64_mul (f64_mul eta 0x3F847AE147AE147B) d),
         g_inds = to_int32 (g_inds g + 1),
         g_cum_err = (if f64_lt (f64_mul s y) f64_zero then to_int32 (g_cum_err g + 1) else g_cum_err g)\<rparr>)"

text \<open>A model without a dimension has weights of zero for vectors of any dimension.\<close>

definition linear_of :: "nat \<Rightarrow> lsvm_model \<Rightarrow> linear_svm" where
  "linear_of d m = \<lparr>g_weights = (if lind_dim m = 0 then replicate d f64_zero else sv_data (lweights m)),
     g_divisor = wDivisor m, g_bias = wBias m, g_inds = linds m, g_cum_err = lcum_err m\<rparr>"

definition linear_ok :: "nat \<Rightarrow> lsvm_model \<Rightarrow> bool" where
  "linear_ok d m \<longleftrightarrow> \<not> lnull_array m \<and> \<not> lnull_scalar m \<and> 0 < d \<and> 8 * d + 24 < 2 ^ 30 \<and>
     (lind_dim m = 0 \<or> lind_dim m = int d \<and> length (sv_data (lweights m)) = d)"

lemma sparse_dot_zip:
  assumes "length ws = length x"
  shows "sparse_dot ws x (int (length x)) =
    Inr (foldl (\<lambda>s (w, xi). if f64_eq xi f64_zero then s else f64_add s (f64_mul w xi)) f64_zero (zip ws x))"
proof -
  have "foldM (\<lambda>i s. rbind (nth_res x (int i)) (\<lambda>x. if f64_eq x f64_zero then Inr s
         else rbind (nth_res ws (int i)) (\<lambda>w. Inr (f64_add s (f64_mul w x))))) [0..<m] f64_zero =
      Inr (foldl (\<lambda>s (w, xi). if f64_eq xi f64_zero then s else f64_add s (f64_mul w xi)) f64_zero (take m (zip ws x)))"
    if "m \<le> length x" for m
    using that
    by (induction m) (simp_all add: foldM_append take_Suc_conv_app_nth assms)
  from this[of "length x"] show ?thesis by (simp add: sparse_dot_def assms)
qed

lemma add_gradient_map2:
  assumes "length ws = length x"
  shows "add_gradient x c (int (length x)) ws = Inr (map2 (\<lambda>w xi. if f64_eq xi f64_zero then w else f64_add w (f64_mul xi c)) ws x)"
proof -
  let ?g = "\<lambda>(w, xi). if f64_eq xi f64_zero then w else f64_add w (f64_mul xi c)"
  have "foldM (\<lambda>i ws. rbind (nth_res x (int i)) (\<lambda>x. if f64_eq x f64_zero then Inr ws
         else rbind (nth_res ws (int i)) (\<lambda>w. upd_res ws (int i) (f64_add w (f64_mul x c))))) [0..<m] ws =
      Inr (map ?g (take m (zip ws x)) @ drop m ws)" if "m \<le> length x" for m
    using that
  proof (induction m)
    case (Suc m)
    then have m: "m < length x" "m < length ws" using assms by simp_all
    then have "drop m ws = ws ! m # drop (Suc m) ws" by (simp add: Cons_nth_drop_Suc)
    then show ?case
      using Suc m by (simp add: foldM_append nth_append list_update_append take_Suc_conv_app_nth)
  qed simp
  from this[of "length x"] show ?thesis by (simp add: add_gradient_def assms)
qed

lemma scale_weights_map: "scale_weights factor (int (length ws)) ws = Inr (map (\<lambda>w. f64_mul w factor) ws)"
  using foldM_update_prefix[of "length ws" ws "\<lambda>w. f64_mul w factor"] by (simp add: scale_weights_def)

lemma big_not_one: "f64_lt 0x40F86A0000000000 x \<and> \<not> f64_eq x f64_one \<longleftrightarrow> f64_lt 0x40F86A0000000000 x"
proof -
  have "\<not> f64_key 0x40F86A0000000000 < f64_key f64_one" by code_simp
  then show ?thesis by (auto simp: f64_lt_def f64_eq_def)
qed

lemma sgd_step:
  assumes "linear_ok d m" "length x = d"
  shows "\<exists>m'. lsvm_sgd_update m (float8_array x) y eta0 lambda = Inr m' \<and> linear_ok d m' \<and>
    linear_of d m' = sgd_spec eta0 lambda (x, y) (linear_of d m)"
proof -
  define m1 where "m1 = (if lind_dim m = 0 then m\<lparr>lind_dim := int d, lweights := float8_array (replicate d f64_zero)\<rparr> else m)"
  have zero: "construct_zero_array (int d) = Inr (replicate d f64_zero)" using assms(1) by (intro construct_zero_small) (simp add: linear_ok_def)
  have init: "(if lind_dim m = 0
      then rbind (construct_zero_array (array_items (float8_array x)))
        (\<lambda>ws. Inr (m\<lparr>lind_dim := array_items (float8_array x), lweights := float8_array ws\<rparr>)) else Inr m) = Inr m1"
    using assms(2) zero by (simp add: m1_def array_items_def float8_array_def)
  have m1: "lind_dim m1 = int d" "length (sv_data (lweights m1)) = d" "sv_data (lweights m1) = g_weights (linear_of d m)"
    "\<not> lnull_array m" "\<not> lnull_scalar m" "0 < d"
    "wDivisor m1 = wDivisor m" "wBias m1 = wBias m" "linds m1 = linds m" "lcum_err m1 = lcum_err m"
    "\<not> lnull_array m1" "\<not> lnull_scalar m1" "8 * d + 24 < 2 ^ 30"
    using assms(1) by (auto simp: m1_def linear_ok_def linear_of_def float8_array_def)
  define ws where "ws = sv_data (lweights m1)"
  have len: "length ws = length x" using m1(2) assms(2) by (simp add: ws_def)
  have scale: "scale_weights factor (int (length x)) ws = Inr (map (\<lambda>w. f64_mul w factor) ws)" for factor
    using scale_weights_map[of factor ws] by (simp only: len)
  have grad: "length vs = length x \<Longrightarrow> add_gradient x c (int (length x)) vs =
      Inr (map2 (\<lambda>w xi. if f64_eq xi f64_zero then w else f64_add w (f64_mul xi c)) vs x)" for vs c by (rule add_gradient_map2)
  have lin: "linear_of d m = \<lparr>g_weights = ws, g_divisor = wDivisor m1, g_bias = wBias m1, g_inds = linds m1, g_cum_err = lcum_err m1\<rparr>"
    using m1 by (simp add: linear_of_def ws_def)
  have dim: "lind_dim m1 = int (length x)" using m1(1) assms(2) by simp
  let ?k = "to_int32 (linds m1 + 1)"
  have if_err: "(if c then m1\<lparr>linds := ?k, lcum_err := e\<rparr> else m1\<lparr>linds := ?k\<rparr>) = m1\<lparr>linds := ?k, lcum_err := if c then e else lcum_err m1\<rparr>" for c e
    by simp
  define g where "g = sgd_spec eta0 lambda (x, y) (linear_of d m)"
  have "lsvm_sgd_update m (float8_array x) y eta0 lambda =
      Inr (m1\<lparr>linds := g_inds g, lcum_err := g_cum_err g, lweights := (lweights m1)\<lparr>sv_data := g_weights g\<rparr>, wDivisor := g_divisor g, wBias := g_bias g\<rparr>)"
    unfolding lsvm_sgd_update_def init g_def lin
    using m1(4,5) len
    by (simp add: Let_def ws_def[symmetric] float8_array_def dim sparse_dot_zip[OF len] big_not_one scale grad if_err sgd_spec_def)
  moreover have "length (g_weights g) = d" using len assms(2) by (simp add: g_def lin sgd_spec_def Let_def)
  ultimately show ?thesis using m1 by (intro exI conjI) (auto simp: linear_of_def linear_ok_def g_def)
qed

interpretation sgd: online_learner "\<lambda>(x, y) m. lsvm_sgd_update m (float8_array x) y eta0 lambda"
  "sgd_spec eta0 lambda" "linear_of d" "\<lambda>_. linear_ok d" True "\<lambda>(x, y). length x = d"
  for eta0 lambda d
  using sgd_step by unfold_locales auto

section \<open>Kernels\<close>

text \<open>The linear kernel on lists: the sum of the products from left to right.\<close>

definition dot_spec :: "float8 list \<Rightarrow> float8 list \<Rightarrow> float8" where
  "dot_spec v x = foldl (\<lambda>ret (a, b). f64_add ret (f64_mul a b)) f64_zero (zip v x)"

lemma svm_dot_spec:
  assumes "length v = length x"
  shows "svm_dot (float8_array v) (float8_array x) = Inr (dot_spec v x)"
proof -
  have "foldM (\<lambda>i ret. rbind (nth_res v (int i)) (\<lambda>a. rbind (nth_res x (int i)) (\<lambda>b. Inr (f64_add ret (f64_mul a b))))) [0..<m] f64_zero =
      Inr (foldl (\<lambda>ret (a, b). f64_add ret (f64_mul a b)) f64_zero (take m (zip v x)))" if "m \<le> length x" for m
    using that by (induction m) (simp_all add: foldM_append take_Suc_conv_app_nth assms)
  from this[of "length x"] show ?thesis
    by (simp add: svm_dot_def dot_loop_def check_vectors_def float8_array_def dot_spec_def assms)
qed

lemma kernel_ok_dot: "kernel_ok (\<lambda>_. svm_dot) (\<lambda>_. Inr 1) kname 1 d dot_spec"
  by (simp add: kernel_ok_def svm_dot_spec)

definition empty_model :: sv_model where
  "empty_model = \<lparr>inds = 0, cum_err = f64_zero, epsilon = f64_zero, rho = f64_zero, bias = f64_zero, nsvs = 0, ind_dim = 0,
     weights = float8_array [], individuals = float8_array [], kernel_oid = 0, null_array = False, null_scalar = False\<rparr>"

lemma has_room_empty: "0 < d \<Longrightarrow> 8 * ((k + 100) * d) + 24 < 2 ^ 30 \<Longrightarrow> has_room d koid k empty_model"
  by (simp add: has_room_def model_ok_def blocks_ok_def empty_model_def small_def)

section \<open>Properties\<close>

text \<open>
  C26: the three learning functions compute on the arrays of a model what their description computes on a
  list of weighted vectors: from a model with room for the examples, a training run ends without an error,
  and the support vectors, the weights and the other parameters are those of the description; while it runs,
  the arrays grow by blocks of 100 vectors, and the older vectors are kept.
\<close>

theorem svm_learning_refines:
  assumes "kernel_ok apply_kernel lookup kname koid d K" "check_rates eta nu" "\<not> f64_lt f64_one (f64_mul eta slambda)"
    "has_room d koid (length es) m" "\<forall>(x, y)\<in>set es. length x = d"
  shows "(\<exists>r. foldM (\<lambda>(x, y) m. svm_reg_update apply_kernel lookup m (float8_array x) y kname eta nu slambda) es m = Inr r \<and>
        has_room d koid 0 r \<and> svm_of d r = fold (reg_spec K eta nu slambda) es (svm_of d m)) \<and>
    (\<exists>c. foldM (\<lambda>(x, y) m. svm_cls_update apply_kernel lookup m (float8_array x) y kname eta nu) es m = Inr c \<and>
        has_room d koid 0 c \<and> svm_of d c = fold (cls_spec K eta nu) es (svm_of d m)) \<and>
    (\<exists>n. foldM (\<lambda>x m. svm_nd_update apply_kernel lookup m (float8_array x) kname eta nu) (map fst es) m = Inr n \<and>
        has_room d koid 0 n \<and> svm_of d n = fold (nd_spec K eta nu) (map fst es) (svm_of d m))"
proof (intro conjI)
  have vectors: "\<forall>x\<in>set (map fst es). length x = d" using assms(5) by auto
  have room: "has_room d koid (length (map fst es)) m" using assms(4) by simp
  show "\<exists>n. foldM (\<lambda>x m. svm_nd_update apply_kernel lookup m (float8_array x) kname eta nu) (map fst es) m = Inr n \<and>
      has_room d koid 0 n \<and> svm_of d n = fold (nd_spec K eta nu) (map fst es) (svm_of d m)"
    using nd.training[OF _ room vectors] assms(1,2) by blast
  show "\<exists>r. foldM (\<lambda>(x, y) m. svm_reg_update apply_kernel lookup m (float8_array x) y kname eta nu slambda) es m = Inr r \<and>
      has_room d koid 0 r \<and> svm_of d r = fold (reg_spec K eta nu slambda) es (svm_of d m)"
    using reg.training[OF _ assms(4,5)] assms(1-3) by blast
  show "\<exists>c. foldM (\<lambda>(x, y) m. svm_cls_update apply_kernel lookup m (float8_array x) y kname eta nu) es m = Inr c \<and>
      has_room d koid 0 c \<and> svm_of d c = fold (cls_spec K eta nu) es (svm_of d m)"
    using cls.training[OF _ assms(4,5)] assms(1,2) by blast
qed

theorem svm_learning_refines_witness:
  "(\<exists>r. foldM (\<lambda>(x, y) m. svm_reg_update (\<lambda>_. svm_dot) (\<lambda>_. Inr 1) m (float8_array x) y ''svm_dot'' f64_one f64_one f64_one)
      [([f64_one], f64_one), ([f64_one], f64_zero)] empty_model = Inr r \<and>
    svm_of 1 r = fold (reg_spec dot_spec f64_one f64_one f64_one) [([f64_one], f64_one), ([f64_one], f64_zero)] (svm_of 1 empty_model))"
proof -
  have rates: "check_rates f64_one f64_one" "\<not> f64_lt f64_one (f64_mul f64_one f64_one)" by code_simp+
  have room: "has_room 1 1 (length [([f64_one], f64_one), ([f64_one], f64_zero)]) empty_model" by (rule has_room_empty) simp_all
  have "\<forall>(x, y)\<in>set [([f64_one], f64_one), ([f64_one], f64_zero)]. length x = 1" by simp
  from svm_learning_refines[OF kernel_ok_dot rates room this] show ?thesis by blast
qed

text \<open>
  The prediction is the sum of the kernel values of the support vectors with the new vector, each
  multiplied by the weight of the vector, in the order in which the vectors were learnt.
\<close>

theorem svm_predict_sum:
  assumes "kernel_ok apply_kernel lookup kname koid d K" "has_room d koid k m" "0 < nsvs m" "length x = d"
  shows "svm_predict_sub apply_kernel lookup (nsvs m) (ind_dim m) (weights m) (individuals m) (float8_array x) kname =
    Inr (sum_kernels K (s_support (svm_of d m)) x)"
proof -
  have ok: "model_ok d koid m" "small d (nat (nsvs m))" using has_room_now[OF assms(2)] by simp_all
  define m1 where "m1 = m\<lparr>kernel_oid := koid\<rparr>"
  have "model_ok d koid m1" "ind_dim m1 = int d" using ok(1) assms(3) by (auto simp: m1_def model_ok_def)
  then have "predict apply_kernel m1 (float8_array x) = Inr (sum_kernels K (support d m1) x)"
    using predict_sum[of d koid m1 apply_kernel lookup kname K x] assms(1,4) ok(2) by (simp add: m1_def)
  moreover have "plain_vector (weights m)" "plain_vector (individuals m)"
    using ok(1) assms(3) by (auto simp: model_ok_def blocks_ok_def)
  moreover have "plain_vector (float8_array x)" by (simp add: plain_vector_def float8_array_def)
  ultimately show ?thesis
    using assms(1) by (simp add: svm_predict_sub_def kernel_ok_def predict_def m1_def svm_of_def support_def)
qed

definition one_vector :: sv_model where
  "one_vector = empty_model\<lparr>nsvs := 1, ind_dim := 1, weights := float8_array (replicate 100 f64_one), individuals := float8_array (replicate 100 f64_one)\<rparr>"

theorem svm_predict_sum_witness:
  "svm_predict_sub (\<lambda>_. svm_dot) (\<lambda>_. Inr 1) 1 1 (float8_array (replicate 100 f64_one)) (float8_array (replicate 100 f64_one))
    (float8_array [f64_one]) ''svm_dot'' = Inr f64_one"
proof -
  have "has_room 1 1 0 one_vector"
    by (simp add: has_room_def model_ok_def blocks_ok_def one_vector_def empty_model_def small_def plain_vector_def float8_array_def capacity_def)
  moreover have "support 1 one_vector = [(f64_one, [f64_one])]"
    by (simp add: support_def one_vector_def float8_array_def block_def)
  moreover have "f64_mul f64_one f64_one = f64_one" "f64_add f64_zero f64_one = f64_one" by code_simp+
  then have "sum_kernels dot_spec [(f64_one, [f64_one])] [f64_one] = f64_one" by (simp add: sum_kernels_def dot_spec_def)
  ultimately show ?thesis
    using svm_predict_sum[OF kernel_ok_dot[of "''svm_dot''" 1], of 0 one_vector "[f64_one]"]
    by (simp add: one_vector_def svm_of_def)
qed

lemma one_step:
  "f64_mul f64_zero f64_one = f64_zero" "f64_of_int 1 = f64_one" "f64_add f64_one f64_one = 0x4000000000000000"
  "f64_div f64_one 0x4000000000000000 = 0x3FE0000000000000" "\<not> f64_eq f64_one f64_zero" "f64_add f64_zero f64_zero = f64_zero"
  "f64_div f64_zero f64_one = f64_zero" "f64_mul 0x3FE0000000000000 f64_one = 0x3FE0000000000000"
  "f64_sub f64_one 0x3FE0000000000000 = 0x3FE0000000000000" "f64_div f64_one 0x3FE0000000000000 = 0x4000000000000000"
  "\<not> f64_lt 0x40F86A0000000000 0x4000000000000000" "f64_mul 0x3FE0000000000000 0x4000000000000000 = f64_one"
  "\<not> f64_lt f64_one f64_zero" "f64_mul f64_one f64_one = f64_one" "f64_add f64_zero f64_one = f64_one" "f64_zero \<noteq> f64_one"
  by code_simp+

text \<open>
  A training run of the linear classifier computes the steps of stochastic gradient descent on a list of
  weights: the dimension is that of the first example, the elements that are zero are skipped, and the
  weights are divided by their common divisor when this becomes large.
\<close>

theorem sgd_learning_refines:
  assumes "linear_ok d m" "\<forall>(x, y)\<in>set es. length x = d"
  shows "\<exists>m'. foldM (\<lambda>(x, y) m. lsvm_sgd_update m (float8_array x) y eta0 lambda) es m = Inr m' \<and> linear_ok d m' \<and>
    linear_of d m' = fold (sgd_spec eta0 lambda) es (linear_of d m)"
  using sgd.training[OF _ assms] by simp

theorem sgd_learning_refines_witness:
  "\<exists>m'. foldM (\<lambda>(x, y) m. lsvm_sgd_update m (float8_array x) y f64_one f64_one) [([f64_one], f64_one)]
      \<lparr>lweights = float8_array [], wDivisor = f64_one, wBias = f64_zero, lind_dim = 0, linds = 1, lcum_err = 0, lnull_array = False, lnull_scalar = False\<rparr>
    = Inr m' \<and> sv_data (lweights m') = [f64_one] \<and> linds m' = 2"
proof -
  define m where "m = \<lparr>lweights = float8_array [], wDivisor = f64_one, wBias = f64_zero, lind_dim = 0, linds = 1, lcum_err = 0,
    lnull_array = False, lnull_scalar = False\<rparr>"
  have "g_weights (sgd_spec f64_one f64_one ([f64_one], f64_one)
      \<lparr>g_weights = [f64_zero], g_divisor = f64_one, g_bias = f64_zero, g_inds = 1, g_cum_err = 0\<rparr>) = [f64_one]"
    by (simp add: sgd_spec_def Let_def dloss_def one_step)
  moreover have "linear_of 1 m = \<lparr>g_weights = [f64_zero], g_divisor = f64_one, g_bias = f64_zero, g_inds = 1, g_cum_err = 0\<rparr>"
    by (simp add: linear_of_def m_def)
  moreover obtain m' where m': "foldM (\<lambda>(x, y) m. lsvm_sgd_update m (float8_array x) y f64_one f64_one) [([f64_one], f64_one)] m = Inr m'"
    "linear_of 1 m' = fold (sgd_spec f64_one f64_one) [([f64_one], f64_one)] (linear_of 1 m)"
    using sgd_learning_refines[of 1 m "[([f64_one], f64_one)]" f64_one f64_one] by (auto simp: linear_ok_def m_def)
  moreover have "(if lind_dim m' = 0 then replicate 1 f64_zero else sv_data (lweights m')) = g_weights (linear_of 1 m')"
    "linds m' = g_inds (linear_of 1 m')" by (simp_all add: linear_of_def)
  moreover note one_step(16)
  ultimately have "sv_data (lweights m') = [f64_one]" by (auto split: if_splits)
  moreover have "linds m' = 2"
    using \<open>linds m' = g_inds (linear_of 1 m')\<close> m'(2) by (simp add: linear_of_def m_def sgd_spec_def Let_def)
  ultimately show ?thesis using m'(1) unfolding m_def by blast
qed

end
