(* ===== verification/Prob.thy ===== *)
theory Prob
  imports Float64
begin

text \<open>
  The distribution functions of \<open>modules/prob\<close> (\<open>boost.cpp\<close>, \<open>kolmogorov.cpp\<close>, \<open>student.cpp\<close>).  An exception
  is an error value.  Parameters: the functions of Boost and of the C library, which are collected in a record.
\<close>

section \<open>Libraries\<close>

record mathlib =
  boost_normal :: "float8 \<Rightarrow> float8 \<Rightarrow> float8 \<Rightarrow> float8 res"
  boost_chi_squared :: "float8 \<Rightarrow> float8 \<Rightarrow> float8 res"
  boost_fisher_f :: "float8 \<Rightarrow> float8 \<Rightarrow> float8 \<Rightarrow> float8 res"
  boost_students_t :: "float8 \<Rightarrow> float8 \<Rightarrow> float8 res"
  libm_exp :: "float8 \<Rightarrow> float8"
  libm_log :: "float8 \<Rightarrow> float8"
  libm_atan :: "float8 \<Rightarrow> float8"
  libm_pow :: "float8 \<Rightarrow> float8 \<Rightarrow> float8"

definition f64_infinity :: float8 where "f64_infinity = 0x7FF0000000000000"
definition quiet_NaN :: float8 where "quiet_NaN = 0x7FF8000000000000"
definition f64_two :: float8 where "f64_two = 0x4000000000000000"
definition f64_half :: float8 where "f64_half = 0x3FE0000000000000"

section \<open>Functions of Boost\<close>

definition chiSquaredCDF :: "mathlib \<Rightarrow> float8 \<Rightarrow> float8 \<Rightarrow> float8 res" where
  "chiSquaredCDF lib t nu =
     (if f64_le nu f64_zero \<or> f64_is_nan t \<or> f64_is_nan nu then Inr quiet_NaN
      else if f64_eq t f64_infinity then Inr f64_one
      else if f64_lt t f64_zero then Inr f64_zero
      else boost_chi_squared lib nu t)"

definition chi_squared_cdf :: "mathlib \<Rightarrow> float8 \<Rightarrow> float8 \<Rightarrow> float8 res" where
  "chi_squared_cdf lib t nu =
     rbind (check (\<not> f64_le nu f64_zero) ''Chi Squared distribution undefined for degree of freedom <= 0'') (\<lambda>_. chiSquaredCDF lib t nu)"

definition fisherF_CDF :: "mathlib \<Rightarrow> float8 \<Rightarrow> float8 \<Rightarrow> float8 \<Rightarrow> float8 res" where
  "fisherF_CDF lib t df1 df2 =
     (if f64_le df1 f64_zero \<or> f64_le df2 f64_zero \<or> f64_is_nan t \<or> f64_is_nan df1 \<or> f64_is_nan df2 then Inr quiet_NaN
      else if f64_eq t f64_infinity then Inr f64_one
      else if f64_lt t f64_zero then Inr f64_zero
      else boost_fisher_f lib df1 df2 t)"

definition fisher_f_cdf :: "mathlib \<Rightarrow> float8 \<Rightarrow> float8 \<Rightarrow> float8 \<Rightarrow> float8 res" where
  "fisher_f_cdf lib t df1 df2 =
     rbind (check (\<not> (f64_le df1 f64_zero \<or> f64_le df2 f64_zero)) ''Fisher F distribution undefined for degrees of freedom <= 0'')
       (\<lambda>_. fisherF_CDF lib t df1 df2)"

definition normalCDF :: "mathlib \<Rightarrow> float8 \<Rightarrow> float8 \<Rightarrow> float8 \<Rightarrow> float8 res" where
  "normalCDF lib t mu sigma =
     (if f64_lt sigma f64_zero \<or> f64_is_nan t \<or> f64_is_nan mu \<or> f64_is_nan sigma then Inr quiet_NaN
      else if f64_eq t f64_infinity then Inr f64_one
      else if f64_eq t (f64_neg f64_infinity) then Inr f64_zero
      else boost_normal lib mu sigma t)"

definition normal_cdf :: "mathlib \<Rightarrow> float8 \<Rightarrow> float8 \<Rightarrow> float8 \<Rightarrow> float8 res" where
  "normal_cdf lib t mu sigma =
     rbind (check (\<not> f64_lt sigma f64_zero) ''Normal distribtion distribution undefined for standard deviation < 0'') (\<lambda>_. normalCDF lib t mu sigma)"

section \<open>The Kolmogorov distribution\<close>

definition Nint :: "float8 \<Rightarrow> int res" where
  "Nint x =
     (if f64_le f64_zero x then
        rbind (f64_to_int (f64_add x f64_half)) (\<lambda>i.
          Inr (if f64_eq (f64_add x f64_half) (f64_of_int i) \<and> odd i then i - 1 else i))
      else
        rbind (f64_to_int (f64_sub x f64_half)) (\<lambda>i.
          Inr (if f64_eq (f64_sub x f64_half) (f64_of_int i) \<and> odd i then i + 1 else i)))"

text \<open>The factors -2, -8, -18, -32, and the constants 2.50662827, -1.2337..., -11.1033..., -30.8425....\<close>

definition kolmogorov_fj :: "float8 list" where
  "kolmogorov_fj = [0xC000000000000000, 0xC020000000000000, 0xC032000000000000, 0xC040000000000000]"
definition kolmogorov_w :: float8 where "kolmogorov_w = 0x40040D931F570850"
definition kolmogorov_c1 :: float8 where "kolmogorov_c1 = 0xBFF3BD3CC9BE45DE"
definition kolmogorov_c2 :: float8 where "kolmogorov_c2 = 0xC02634E462F60E9A"
definition kolmogorov_c3 :: float8 where "kolmogorov_c3 = 0xC03ED7AEFB394D2B"

text \<open>
  The loop writes \<open>maxj\<close> elements of an array of four; the first one is not initialised before.
  The limits of the branches are 0.2, 0.755 and 6.8116.
\<close>

definition fill_terms :: "mathlib \<Rightarrow> int \<Rightarrow> float8 \<Rightarrow> float8 list \<Rightarrow> float8 list res" where
  "fill_terms lib maxj v r =
     foldM (\<lambda>j r. rbind (nth_res kolmogorov_fj (int j)) (\<lambda>f. upd_res r (int j) (libm_exp lib (f64_mul f v)))) [0..<nat maxj] r"

definition KolmogorovProb :: "mathlib \<Rightarrow> float8 \<Rightarrow> float8 res" where
  "KolmogorovProb lib z =
     (let u = f64_fabs z in
      if f64_lt u 0x3FC999999999999A then Inr f64_one
      else if f64_lt u 0x3FE828F5C28F5C29 then
        let v = f64_div f64_one (f64_mul u u);
            s = f64_add (f64_add (libm_exp lib (f64_mul kolmogorov_c1 v)) (libm_exp lib (f64_mul kolmogorov_c2 v))) (libm_exp lib (f64_mul kolmogorov_c3 v))
        in Inr (f64_sub f64_one (f64_div (f64_mul kolmogorov_w s) u))
      else if f64_lt u 0x401B3F141205BC02 then
        let v = f64_mul u u in
        rbind (Nint (f64_div 0x4008000000000000 u)) (\<lambda>n.
        rbind (fill_terms lib (max 1 n) v (replicate 4 f64_zero)) (\<lambda>r.
          Inr (f64_mul f64_two (f64_sub (f64_add (f64_sub (r ! 0) (r ! 1)) (r ! 2)) (r ! 3)))))
      else Inr f64_zero)"

definition kolmogorovCDF :: "mathlib \<Rightarrow> float8 \<Rightarrow> float8 res" where
  "kolmogorovCDF lib t =
     (if f64_is_nan t then Inr quiet_NaN
      else if f64_eq t f64_infinity then Inr f64_one
      else if f64_lt t f64_zero then Inr f64_zero
      else rbind (KolmogorovProb lib t) (\<lambda>p. Inr (f64_sub f64_one p)))"

section \<open>The Student-t distribution\<close>

text \<open>1.5 is \<open>0x3FF8000000000000\<close>.\<close>

definition studentT_cdf_approx :: "mathlib \<Rightarrow> float8 \<Rightarrow> float8 \<Rightarrow> float8 res" where
  "studentT_cdf_approx lib t nu =
     (let g = f64_div (f64_sub nu 0x3FF8000000000000) (f64_mul (f64_sub nu f64_one) (f64_sub nu f64_one));
          z = f64_sqrt (f64_div (libm_log lib (f64_add f64_one (f64_div (f64_mul t t) nu))) g);
          z = (if f64_lt t f64_zero then f64_mul z (f64_neg f64_one) else z)
      in normalCDF lib z f64_zero f64_one)"

text \<open>The two loops: \<open>j\<close> goes up by two while it is at most \<open>lim\<close>; the arguments are the product and the sum.\<close>

function odd_series :: "float8 \<Rightarrow> int \<Rightarrow> int \<Rightarrow> float8 \<Rightarrow> float8 \<Rightarrow> float8" where
  "odd_series z lim j prd acc =
     (if j \<le> lim then
        let prd = f64_div (f64_mul prd (f64_of_int j)) (f64_mul (f64_of_int (j + 1)) z)
        in odd_series z lim (j + 2) prd (f64_add acc prd)
      else acc)"
  by pat_completeness auto
termination by (relation "measure (\<lambda>(z, lim, j, prd, acc). nat (lim + 1 - j))") auto

function even_series :: "float8 \<Rightarrow> int \<Rightarrow> int \<Rightarrow> float8 \<Rightarrow> float8 \<Rightarrow> float8" where
  "even_series z lim j prd acc =
     (if j \<le> lim then
        let prd = f64_div (f64_mul prd (f64_of_int (j - 1))) (f64_mul (f64_of_int j) z)
        in even_series z lim (j + 2) prd (f64_add acc prd)
      else acc)"
  by pat_completeness auto
termination by (relation "measure (\<lambda>(z, lim, j, prd, acc). nat (lim + 1 - j))") auto

declare odd_series.simps [simp del] even_series.simps [simp del]

text \<open>The series for a natural number of degrees of freedom; \<open>2 / M_PI\<close> is \<open>0x3FE45F306DC9C883\<close>.\<close>

definition student_A :: "mathlib \<Rightarrow> float8 \<Rightarrow> int \<Rightarrow> float8" where
  "student_A lib t nu =
     (let z = f64_add f64_one (f64_div (f64_mul t t) (f64_of_int nu));
          t_by_sqrt_nu = f64_div (f64_fabs t) (f64_sqrt (f64_of_int nu))
      in if nu = 1 then f64_mul 0x3FE45F306DC9C883 (libm_atan lib t_by_sqrt_nu)
         else if odd nu then
           f64_mul 0x3FE45F306DC9C883 (f64_add (libm_atan lib t_by_sqrt_nu)
             (f64_mul (f64_div t_by_sqrt_nu z) (odd_series z (nu - 3) 2 f64_one f64_one)))
         else f64_mul (f64_div t_by_sqrt_nu (f64_sqrt z)) (even_series z (nu - 2) 2 f64_one f64_one))"

text \<open>
  The closest integer is computed with \<open>floor\<close>, which is the truncation of a positive number.  The limits are
  1000000, 200 and 0.01.
\<close>

definition studentT_CDF :: "mathlib \<Rightarrow> float8 \<Rightarrow> float8 \<Rightarrow> float8 res" where
  "studentT_CDF lib t inNu =
     (if f64_le inNu f64_zero \<or> f64_is_nan t \<or> f64_is_nan inNu then Inr quiet_NaN
      else if f64_eq t f64_infinity then Inr f64_one
      else if f64_eq t (f64_neg f64_infinity) then Inr f64_zero
      else if f64_le 0x412E848000000000 inNu then normalCDF lib t f64_zero f64_one
      else if f64_le 0x4069000000000000 inNu then studentT_cdf_approx lib t inNu
      else rbind (f64_to_int (f64_add inNu f64_half)) (\<lambda>nu.
        if f64_lt 0x3F847AE147AE147B (f64_div (f64_fabs (f64_sub inNu (f64_of_int nu))) inNu) then boost_students_t lib inNu t
        else
          let A = student_A lib t nu;
              A = (if f64_lt f64_one A then f64_one else if f64_lt A f64_zero then f64_zero else A);
              p = f64_mul f64_half (f64_sub f64_one A)
          in Inr (if f64_lt t f64_zero then p else f64_sub f64_one p)))"

definition student_t_cdf :: "mathlib \<Rightarrow> float8 \<Rightarrow> float8 \<Rightarrow> float8 res" where
  "student_t_cdf lib t nu =
     rbind (check (\<not> f64_le nu f64_zero) ''Student-t distribution undefined for degree of freedom <= 0'') (\<lambda>_. studentT_CDF lib t nu)"

end
