(* ===== verification/RankTests.thy ===== *)
theory RankTests
  imports Prob
begin

text \<open>
  The aggregates of the rank tests in \<open>modules/stats\<close>: Mann-Whitney (\<open>mann_whitney_test.cpp\<close>), Wilcoxon
  (\<open>wilcoxon_signed_rank_test.cpp\<close>) and Kolmogorov-Smirnov (\<open>kolmogorov_smirnov_test.cpp\<close>), with
  \<open>almostEqual\<close> of \<open>utils/Math.hpp\<close>.  The transition state is an array of doubles in the database; a state object
  binds its fields to positions of that array.
\<close>

section \<open>States and numbers\<close>

text \<open>\<open>operator[]\<close> of an array handle.\<close>

definition handle_at :: "float8 list \<Rightarrow> nat \<Rightarrow> float8 res" where
  "handle_at storage i = rbind (check (i < length storage) ''Out-of-bounds array access detected.'') (\<lambda>_. Inr (storage ! i))"

text \<open>Binding a field checks the position of its first element.\<close>

definition bind_fields :: "float8 list \<Rightarrow> nat list \<Rightarrow> unit res" where
  "bind_fields storage is = foldM (\<lambda>i _. rbind (handle_at storage i) (\<lambda>_. Inr ())) is ()"

text \<open>Vectors of the two samples, with their sum, product and smaller element.\<close>

type_synonym vector2 = "float8 \<times> float8"

fun at2 :: "nat \<Rightarrow> vector2 \<Rightarrow> float8" where
  "at2 i (a, b) = (if i = 0 then a else b)"

fun upd2 :: "nat \<Rightarrow> (float8 \<Rightarrow> float8) \<Rightarrow> vector2 \<Rightarrow> vector2" where
  "upd2 i f (a, b) = (if i = 0 then (f a, b) else (a, f b))"

fun sum2 :: "vector2 \<Rightarrow> float8" where "sum2 (a, b) = f64_add a b"
fun prod2 :: "vector2 \<Rightarrow> float8" where "prod2 (a, b) = f64_mul a b"
fun minCoeff2 :: "vector2 \<Rightarrow> float8" where "minCoeff2 (a, b) = (if f64_lt b a then b else a)"

fun ne2 :: "vector2 \<Rightarrow> vector2 \<Rightarrow> bool" where
  "ne2 (a, b) (c, d) \<longleftrightarrow> \<not> (f64_eq a c \<and> f64_eq b d)"

definition f64_epsilon :: float8 where "f64_epsilon = 0x3CB0000000000000"

definition f64_max :: "float8 \<Rightarrow> float8 \<Rightarrow> float8" where
  "f64_max a b = (if f64_lt a b then b else a)"

definition almostEqual :: "float8 \<Rightarrow> float8 \<Rightarrow> int \<Rightarrow> bool" where
  "almostEqual x y ulp \<longleftrightarrow>
     f64_le (f64_fabs (f64_sub x y)) (f64_mul (f64_mul f64_epsilon (f64_max (f64_fabs x) (f64_fabs y))) (f64_of_int ulp))"

section \<open>Ranks\<close>

text \<open>
  Sample sizes, numbers of ties with the last value, and sums of ranks.  A tie moves the ranks of the
  values that it is tied with by a half; the new value gets the mean of the ranks of the ties.
\<close>

record ranks =
  num :: vector2
  numTies :: vector2
  rankSum :: vector2

definition shift_ranks :: "'a ranks_scheme \<Rightarrow> 'a ranks_scheme" where
  "shift_ranks s = s\<lparr>rankSum := (f64_add (at2 0 (rankSum s)) (f64_mul (at2 0 (numTies s)) f64_half),
                               f64_add (at2 1 (rankSum s)) (f64_mul (at2 1 (numTies s)) f64_half))\<rparr>"

definition add_rank :: "nat \<Rightarrow> 'a ranks_scheme \<Rightarrow> 'a ranks_scheme" where
  "add_rank sample s =
     (let s = s\<lparr>num := upd2 sample (\<lambda>n. f64_add n f64_one) (num s)\<rparr>;
          r = f64_div (f64_sub (f64_mul f64_two (sum2 (num s))) (sum2 (numTies s))) f64_two;
          s = s\<lparr>rankSum := upd2 sample (\<lambda>x. f64_add x r) (rankSum s)\<rparr>
      in s\<lparr>numTies := upd2 sample (\<lambda>n. f64_add n f64_one) (numTies s)\<rparr>)"

section \<open>The Mann-Whitney test\<close>

record mw_state = ranks +
  mw_last :: float8

definition mw_load :: "float8 list \<Rightarrow> mw_state res" where
  "mw_load a = rbind (bind_fields a [0, 2, 4, 6]) (\<lambda>_.
     Inr \<lparr>num = (a ! 0, a ! 1), numTies = (a ! 2, a ! 3), rankSum = (a ! 4, a ! 5), mw_last = a ! 6\<rparr>)"

definition mw_store :: "mw_state \<Rightarrow> float8 list" where
  "mw_store s = [at2 0 (num s), at2 1 (num s), at2 0 (numTies s), at2 1 (numTies s), at2 0 (rankSum s), at2 1 (rankSum s), mw_last s]"

definition mw_step :: "bool \<Rightarrow> float8 \<Rightarrow> mw_state \<Rightarrow> mw_state res" where
  "mw_step first val s =
     (let sample = (if first then 0 else 1) in
      rbind (if almostEqual (mw_last s) val 2 then Inr (shift_ranks s)
             else if f64_lt (mw_last s) val then Inr (s\<lparr>numTies := (f64_zero, f64_zero)\<rparr>)
             else if f64_lt f64_zero (sum2 (num s)) then Inl (Report ''Must be used as an ordered aggregate'')
             else Inr s) (\<lambda>s. Inr ((add_rank sample s)\<lparr>mw_last := val\<rparr>)))"

text \<open>The fields cover the seven elements of the state; further elements stay as they are.\<close>

definition mw_test_transition :: "float8 list \<Rightarrow> bool \<Rightarrow> float8 \<Rightarrow> float8 list res" where
  "mw_test_transition a first val =
     rbind (mw_load a) (\<lambda>s. rbind (mw_step first val s) (\<lambda>s. Inr (mw_store s @ drop 7 a)))"

text \<open>The z statistic, the U statistic, and the two p-values.  12 is \<open>0x4028000000000000\<close>.\<close>

definition mw_U :: "mw_state \<Rightarrow> vector2" where
  "mw_U s =
     (let n = at2 1 (num s);
          U0 = f64_sub (at2 1 (rankSum s)) (f64_div (f64_mul n (f64_add n f64_one)) f64_two)
      in (U0, f64_sub (prod2 (num s)) U0))"

definition mw_test_final :: "mathlib \<Rightarrow> float8 list \<Rightarrow> (float8 \<times> float8 \<times> float8 \<times> float8) res" where
  "mw_test_final lib a =
     rbind (mw_load a) (\<lambda>s.
     let numProd = prod2 (num s);
         u_statistic = minCoeff2 (mw_U s);
         z_statistic = f64_div (f64_sub u_statistic (f64_div numProd f64_two))
           (f64_sqrt (f64_div (f64_mul numProd (f64_add (sum2 (num s)) f64_one)) 0x4028000000000000))
     in rbind (normalCDF lib z_statistic f64_zero f64_one) (\<lambda>p1.
        rbind (normalCDF lib (f64_fabs z_statistic) f64_zero f64_one) (\<lambda>p2.
          Inr (z_statistic, u_statistic, f64_sub f64_one p1, f64_mul f64_two (f64_sub f64_one p2)))))"

section \<open>The Wilcoxon signed-rank test\<close>

record wsr_state = ranks +
  lastAbs :: float8
  lastAbsUpperBound :: float8
  reduceVariance :: float8

definition wsr_load :: "float8 list \<Rightarrow> wsr_state res" where
  "wsr_load a = rbind (bind_fields a [0, 2, 4, 6, 7, 8]) (\<lambda>_.
     Inr \<lparr>num = (a ! 0, a ! 1), numTies = (a ! 2, a ! 3), rankSum = (a ! 4, a ! 5),
          lastAbs = a ! 6, lastAbsUpperBound = a ! 7, reduceVariance = a ! 8\<rparr>)"

definition wsr_store :: "wsr_state \<Rightarrow> float8 list" where
  "wsr_store s = [at2 0 (num s), at2 1 (num s), at2 0 (numTies s), at2 1 (numTies s), at2 0 (rankSum s), at2 1 (rankSum s),
     lastAbs s, lastAbsUpperBound s, reduceVariance s]"

text \<open>A step for a value that is not zero; 1/16 is \<open>0x3FB0000000000000\<close>.\<close>

definition wsr_step :: "float8 \<Rightarrow> float8 \<Rightarrow> wsr_state \<Rightarrow> wsr_state res" where
  "wsr_step prec val s =
     (let absValue = f64_fabs val; sample = (if f64_lt f64_zero val then 0 else 1) in
      rbind (if f64_lt f64_zero (sum2 (num s)) then
               if f64_lt absValue (lastAbs s) then Inl (Report ''Must be used as an ordered aggregate'')
               else if f64_le (f64_sub absValue prec) (lastAbsUpperBound s) then
                 let s = shift_ranks s; t = sum2 (numTies s)
                 in Inr (s\<lparr>reduceVariance := f64_add (reduceVariance s) (f64_mul (f64_mul 0x3FB0000000000000 t) (f64_add t f64_one))\<rparr>)
               else Inr (s\<lparr>numTies := (f64_zero, f64_zero)\<rparr>)
             else Inr s) (\<lambda>s.
      let s = (add_rank sample s)\<lparr>lastAbs := absValue\<rparr>
      in Inr (if f64_lt (lastAbsUpperBound s) (f64_add absValue prec) then s\<lparr>lastAbsUpperBound := f64_add absValue prec\<rparr> else s)))"

definition wsr_test_transition :: "float8 list \<Rightarrow> float8 \<Rightarrow> float8 option \<Rightarrow> float8 list res" where
  "wsr_test_transition a val precisionArg =
     rbind (wsr_load a) (\<lambda>s.
     let prec = (case precisionArg of None \<Rightarrow> f64_mul val f64_epsilon | Some p \<Rightarrow> p) in
     if f64_eq val f64_zero then Inr a
     else rbind (wsr_step prec val s) (\<lambda>s. Inr (wsr_store s @ drop 9 a)))"

text \<open>4 is \<open>0x4010000000000000\<close>, 24 is \<open>0x4038000000000000\<close>; the number of values is converted to an integer.\<close>

definition wsr_test_final ::
    "mathlib \<Rightarrow> float8 list \<Rightarrow> (float8 \<times> float8 \<times> float8 \<times> int option \<times> float8 \<times> float8 \<times> float8) res" where
  "wsr_test_final lib a =
     rbind (wsr_load a) (\<lambda>s.
     let n = sum2 (num s);
         n_n1 = f64_mul n (f64_add n f64_one);
         z_statistic = f64_div (f64_sub (at2 0 (rankSum s)) (f64_div n_n1 0x4010000000000000))
           (f64_sqrt (f64_sub (f64_div (f64_mul n_n1 (f64_add (f64_mul f64_two n) f64_one)) 0x4038000000000000) (reduceVariance s)))
     in rbind (normalCDF lib z_statistic f64_zero f64_one) (\<lambda>p1.
        rbind (normalCDF lib (f64_fabs z_statistic) f64_zero f64_one) (\<lambda>p2.
          Inr (minCoeff2 (rankSum s), at2 0 (rankSum s), at2 1 (rankSum s), f64_trunc n, z_statistic,
               f64_sub f64_one p1, f64_mul f64_two (f64_sub f64_one p2)))))"

section \<open>The Kolmogorov-Smirnov test\<close>

record ks_state =
  ks_num :: vector2
  ks_last :: float8
  maxDiff :: float8
  expectedNum :: vector2

definition ks_load :: "float8 list \<Rightarrow> ks_state res" where
  "ks_load a = rbind (bind_fields a [0, 2, 3, 4]) (\<lambda>_.
     rbind (check (6 \<le> length a) ''Out-of-bounds array access detected.'') (\<lambda>_.
     Inr \<lparr>ks_num = (a ! 0, a ! 1), ks_last = a ! 2, maxDiff = a ! 3, expectedNum = (a ! 4, a ! 5)\<rparr>))"

definition ks_store :: "ks_state \<Rightarrow> float8 list" where
  "ks_store s = [at2 0 (ks_num s), at2 1 (ks_num s), ks_last s, maxDiff s, at2 0 (expectedNum s), at2 1 (expectedNum s)]"

definition ks_step :: "bool \<Rightarrow> float8 \<Rightarrow> int \<Rightarrow> int \<Rightarrow> ks_state \<Rightarrow> ks_state res" where
  "ks_step first val n1 n2 s =
     (let sample = (if first then 0 else 1); expected = (f64_of_int n1, f64_of_int n2) in
      rbind (if ne2 (expectedNum s) expected then
               if f64_lt f64_zero (sum2 (ks_num s)) then Inl (Report ''Number of samples must be constant parameters.'')
               else Inr (s\<lparr>expectedNum := expected\<rparr>)
             else Inr s) (\<lambda>s.
      if f64_lt val (ks_last s) \<and> f64_lt f64_zero (sum2 (ks_num s)) then Inl (Report ''Must be used as an ordered aggregate'')
      else
        let s = s\<lparr>ks_num := upd2 sample (\<lambda>n. f64_add n f64_one) (ks_num s), ks_last := val\<rparr>;
            diff = f64_fabs (f64_sub (f64_div (at2 0 (ks_num s)) (at2 0 (expectedNum s))) (f64_div (at2 1 (ks_num s)) (at2 1 (expectedNum s))))
        in Inr (if f64_lt (maxDiff s) diff then s\<lparr>maxDiff := diff\<rparr> else s)))"

definition ks_test_transition :: "float8 list \<Rightarrow> bool \<Rightarrow> float8 \<Rightarrow> int \<Rightarrow> int \<Rightarrow> float8 list res" where
  "ks_test_transition a first val n1 n2 =
     rbind (ks_load a) (\<lambda>s. rbind (ks_step first val n1 n2 s) (\<lambda>s. Inr (ks_store s @ drop 6 a)))"

text \<open>0.12 is \<open>0x3FBEB851EB851EB8\<close>, 0.11 is \<open>0x3FBC28F5C28F5C29\<close>.\<close>

definition ks_test_final :: "mathlib \<Rightarrow> float8 list \<Rightarrow> (float8 \<times> float8 \<times> float8) res" where
  "ks_test_final lib a =
     rbind (ks_load a) (\<lambda>s.
     rbind (check (\<not> ne2 (ks_num s) (expectedNum s)) ''Actual sample sizes differ from specified sizes.'') (\<lambda>_.
     let root = f64_sqrt (f64_div (prod2 (ks_num s)) (sum2 (ks_num s)));
         k = f64_mul (f64_add (f64_add root 0x3FBEB851EB851EB8) (f64_div 0x3FBC28F5C28F5C29 root)) (maxDiff s)
     in rbind (kolmogorovCDF lib k) (\<lambda>p. Inr (maxDiff s, k, f64_sub f64_one p))))"

end
