(* ===== verification/Float64Order.thy ===== *)
theory Float64Order
  imports Float64Exact
begin

text \<open>
  The order of doubles and of their values, and what rounding does to it: a result that is not exact lies
  on the same side of every double as the number that is rounded.
\<close>

section \<open>Magnitudes\<close>

definition mag_val :: "int \<Rightarrow> real" where
  "mag_val B = (let (m, e) = f64_unpack B in of_int m * p2 e)"

lemma unpack_cases:
  assumes "0 \<le> B"
  obtains m e where "f64_unpack B = (m, e)" "0 \<le> m" "m < 2 ^ 53" "- 1074 \<le> e" "m < 2 ^ 52 \<Longrightarrow> e = - 1074"
    "B = (e + 1074) * 2 ^ 52 + m" "mag_val B = of_int m * p2 e"
proof -
  define E where "E = B div 2 ^ 52"
  define f where "f = B mod 2 ^ 52"
  have B: "B = E * 2 ^ 52 + f" "0 \<le> f" "f < 2 ^ 52" by (simp_all add: E_def f_def)
  have "0 \<le> E" using assms by (simp add: E_def)
  show ?thesis
  proof (cases "E = 0")
    case True
    then have "f64_unpack B = (f, - 1074)" by (simp add: f64_unpack_def Let_def E_def f_def)
    then show ?thesis using B True by (intro that[of f "- 1074"]) (simp_all add: mag_val_def)
  next
    case False
    then have "f64_unpack B = (f + 2 ^ 52, E - 1075)" unfolding f64_unpack_def Let_def E_def[symmetric] f_def[symmetric] by simp
    then show ?thesis using B False \<open>0 \<le> E\<close> by (intro that[of "f + 2 ^ 52" "E - 1075"]) (simp_all add: mag_val_def)
  qed
qed

lemma p2_mono: "a \<le> b \<Longrightarrow> p2 a \<le> p2 b"
  by (rule power_int_increasing) simp_all

lemma p2_53: "p2 (53 + e) = 2 ^ 53 * p2 e" "p2 (52 + e) = 2 ^ 52 * p2 e"
  by (simp_all add: p2_add)

lemma mag_val_less:
  assumes "0 \<le> A" "A < B"
  shows "mag_val A < mag_val B"
proof -
  obtain m1 e1 where a: "f64_unpack A = (m1, e1)" "0 \<le> m1" "m1 < 2 ^ 53" "- 1074 \<le> e1" "m1 < 2 ^ 52 \<Longrightarrow> e1 = - 1074"
    "A = (e1 + 1074) * 2 ^ 52 + m1" "mag_val A = of_int m1 * p2 e1" using unpack_cases[OF assms(1)] by metis
  have "0 \<le> B" using assms by simp
  then obtain m2 e2 where b: "f64_unpack B = (m2, e2)" "0 \<le> m2" "m2 < 2 ^ 53" "- 1074 \<le> e2" "m2 < 2 ^ 52 \<Longrightarrow> e2 = - 1074"
    "B = (e2 + 1074) * 2 ^ 52 + m2" "mag_val B = of_int m2 * p2 e2" using unpack_cases by metis
  consider "e1 = e2" | "e1 < e2" | "e2 < e1" by linarith
  then show ?thesis
  proof cases
    case 1
    then show ?thesis using a(6,7) b(6,7) assms(2) by simp
  next
    case 2
    then have "2 ^ 52 \<le> m2" using b(5) a(4) by force
    then have "2 ^ 52 * p2 e2 \<le> of_int m2 * p2 e2" by (intro mult_right_mono) (simp_all flip: of_int_le_iff)
    moreover have "of_int m1 * p2 e1 < 2 ^ 53 * p2 e1" using a(3) by (intro mult_strict_right_mono) (simp_all flip: of_int_less_iff)
    moreover have "p2 (53 + e1) \<le> p2 (52 + e2)" using 2 by (intro p2_mono) simp
    ultimately show ?thesis unfolding a(7) b(7) p2_53 by linarith
  next
    case 3
    then have "2 ^ 52 \<le> m1" using a(5) b(4) by force
    moreover have "(e2 + 1 + 1074) * 2 ^ 52 \<le> (e1 + 1074) * 2 ^ 52" using 3 by (intro mult_right_mono) simp_all
    ultimately show ?thesis using a(6) b(6) b(3) assms(2) by (simp add: algebra_simps)
  qed
qed

lemma mag_val_le: "0 \<le> A \<Longrightarrow> A \<le> B \<Longrightarrow> mag_val A \<le> mag_val B"
  using mag_val_less[of A B] by (cases "A = B") simp_all

lemma mag_val_le_iff: "0 \<le> A \<Longrightarrow> 0 \<le> B \<Longrightarrow> mag_val A \<le> mag_val B \<longleftrightarrow> A \<le> B"
  using mag_val_le[of A B] mag_val_less[of B A] by (meson not_le)

lemma mag_val_zero [simp]: "mag_val 0 = 0"
  by (simp add: mag_val_def f64_unpack_def)

lemma mag_val_nonneg: "0 \<le> B \<Longrightarrow> 0 \<le> mag_val B"
  using mag_val_le[of 0 B] by simp

section \<open>Rounding\<close>

lemma round_shift_bounds:
  fixes N :: int
  shows "of_int m \<le> of_int N * (2 :: real) ^ s \<Longrightarrow> round_shift m s \<le> N" "of_int N * (2 :: real) ^ s \<le> of_int m \<Longrightarrow> N \<le> round_shift m s"
proof -
  have real: "(of_int N * (2 :: real) ^ s) = of_int (N * 2 ^ s)" by simp
  have split: "m = m div 2 ^ s * 2 ^ s + m mod 2 ^ s" by (rule div_mult_mod_eq[symmetric])
  have rest: "0 \<le> m mod 2 ^ s" by simp
  show "round_shift m s \<le> N" if "of_int m \<le> of_int N * (2 :: real) ^ s"
  proof -
    have le: "m \<le> N * 2 ^ s" using that unfolding real of_int_le_iff .
    show ?thesis
    proof (cases "m mod 2 ^ s = 0")
      case True
      then have "m div 2 ^ s * 2 ^ s \<le> N * 2 ^ s" using le split(1) by simp
      then show ?thesis using True by (simp add: round_shift_def)
    next
      case False
      then have "m div 2 ^ s * 2 ^ s < N * 2 ^ s" using le split rest by linarith
      then show ?thesis by (simp add: round_shift_def Let_def)
    qed
  qed
  show "N \<le> round_shift m s" if "of_int N * (2 :: real) ^ s \<le> of_int m"
  proof -
    have "N * 2 ^ s \<le> m" using that unfolding real of_int_le_iff .
    then have "N \<le> m div 2 ^ s" using zdiv_mono1[of "N * 2 ^ s" m "2 ^ s"] by simp
    then show ?thesis using round_shift_ge[of m s] by linarith
  qed
qed

text \<open>The rounded significand of a positive number, and the exponent that goes with it.\<close>

lemma round_parts:
  assumes "0 < m"
  obtains X mant e' where "f64_round sg m e = f64_of_bits sg (min X f64_inf_bits)" "X = (e' + 1074) * 2 ^ 52 + mant" "- 1074 \<le> e'"
    "of_int m * p2 e < p2 (53 + e')" "e' \<noteq> - 1074 \<Longrightarrow> p2 (52 + e') \<le> of_int m * p2 e"
    "\<And>N. of_int m * p2 e \<le> of_int N * p2 e' \<Longrightarrow> mant \<le> N" "\<And>N. of_int N * p2 e' \<le> of_int m * p2 e \<Longrightarrow> N \<le> mant"
proof -
  note bl = bitlen_bounds[OF assms]
  then have bl0: "0 \<le> bitlen m - 1" "0 \<le> bitlen m" by simp_all
  define e' where "e' = max (e + bitlen m - 53) (- 1074)"
  define mant where "mant = (if e' \<le> e then m * 2 ^ nat (e - e') else round_shift m (nat (e' - e)))"
  have cancel: "p2 e = p2 (e - e') * p2 e'" by (simp flip: p2_add)
  have up: "mant \<le> N" if "of_int m * p2 e \<le> of_int N * p2 e'" for N
  proof (cases "e' \<le> e")
    case True
    have "of_int m * p2 (e - e') * p2 e' \<le> of_int N * p2 e'" using that cancel by (simp add: mult.assoc)
    then have "of_int m * p2 (e - e') \<le> of_int N" by (simp only: mult_le_cancel_right_pos p2_pos)
    then have "(of_int (m * 2 ^ nat (e - e')) :: real) \<le> of_int N" using True by (simp add: p2_nat)
    then show ?thesis using True by (simp only: of_int_le_iff mant_def if_True)
  next
    case False
    have "p2 e' = p2 (e' - e) * p2 e" by (simp flip: p2_add)
    then have "of_int m * p2 e \<le> of_int N * p2 (e' - e) * p2 e" using that by (simp add: mult.assoc)
    then have "of_int m \<le> of_int N * p2 (e' - e)" by (simp only: mult_le_cancel_right_pos p2_pos)
    then show ?thesis using False round_shift_bounds(1)[of m N] by (simp add: mant_def p2_nat)
  qed
  have down: "N \<le> mant" if "of_int N * p2 e' \<le> of_int m * p2 e" for N
  proof (cases "e' \<le> e")
    case True
    have "of_int N * p2 e' \<le> of_int m * p2 (e - e') * p2 e'" using that cancel by (simp add: mult.assoc)
    then have "of_int N \<le> of_int m * p2 (e - e')" by (simp only: mult_le_cancel_right_pos p2_pos)
    then have "(of_int N :: real) \<le> of_int (m * 2 ^ nat (e - e'))" using True by (simp add: p2_nat)
    then show ?thesis using True by (simp only: of_int_le_iff mant_def if_True)
  next
    case False
    have "p2 e' = p2 (e' - e) * p2 e" by (simp flip: p2_add)
    then have "of_int N * p2 (e' - e) * p2 e \<le> of_int m * p2 e" using that by (simp add: mult.assoc)
    then have "of_int N * p2 (e' - e) \<le> of_int m" by (simp only: mult_le_cancel_right_pos p2_pos)
    then show ?thesis using False round_shift_bounds(2)[of N "nat (e' - e)" m] by (simp add: mant_def p2_nat)
  qed
  have "of_int m < p2 (bitlen m)" using bl by (simp only: p2_nat[OF bl0(2)] of_int_less_iff)
  then have "of_int m * p2 e < p2 (bitlen m + e)" by (simp add: p2_add)
  moreover have "p2 (bitlen m + e) \<le> p2 (53 + e')" by (intro p2_mono) (simp add: e'_def)
  ultimately have hi: "of_int m * p2 e < p2 (53 + e')" by linarith
  have lo: "p2 (52 + e') \<le> of_int m * p2 e" if "e' \<noteq> - 1074"
  proof -
    have "52 + e' = bitlen m - 1 + e" using that by (auto simp: e'_def max_def split: if_splits)
    moreover have "p2 (bitlen m - 1) \<le> of_int m" using bl by (simp only: p2_nat[OF bl0(1)] of_int_le_iff)
    ultimately show ?thesis by (simp only: p2_add[of "bitlen m - 1" e] mult_le_cancel_right_pos p2_pos)
  qed
  show ?thesis
    using assms by (intro that[of "(e' + 1074) * 2 ^ 52 + mant" e' mant] hi lo up down)
      (simp_all add: f64_round_def Let_def e'_def[symmetric] mant_def[symmetric], simp add: e'_def)
qed

lemma round_mag_le:
  assumes "0 \<le> m" "0 \<le> B" "B < f64_inf_bits" "of_int m * p2 e \<le> mag_val B"
  shows "f64_mag (f64_round sg m e) \<le> B"
proof (cases "m = 0")
  case True
  then show ?thesis using assms(2) of_bits_fields(2)[of 0 sg] by (simp add: f64_round_def)
next
  case False
  then have "0 < m" using assms(1) by simp
  then obtain X mant e' where r: "f64_round sg m e = f64_of_bits sg (min X f64_inf_bits)" "X = (e' + 1074) * 2 ^ 52 + mant" "- 1074 \<le> e'"
    "of_int m * p2 e < p2 (53 + e')" "e' \<noteq> - 1074 \<Longrightarrow> p2 (52 + e') \<le> of_int m * p2 e"
    "\<And>N. of_int m * p2 e \<le> of_int N * p2 e' \<Longrightarrow> mant \<le> N" "\<And>N. of_int N * p2 e' \<le> of_int m * p2 e \<Longrightarrow> N \<le> mant"
    using round_parts by metis
  obtain mB eB where b: "0 \<le> mB" "mB < 2 ^ 53" "- 1074 \<le> eB" "mB < 2 ^ 52 \<Longrightarrow> eB = - 1074"
    "B = (eB + 1074) * 2 ^ 52 + mB" "mag_val B = of_int mB * p2 eB" using unpack_cases[OF assms(2)] by metis
  have mant: "0 \<le> mant" "mant \<le> 2 ^ 53"
    using r(7)[of 0] r(6)[of "2 ^ 53"] r(4) assms(1) by (simp_all add: p2_add)
  have "X \<le> B"
  proof -
    consider "eB = e'" | "e' < eB" | "eB < e'" by linarith
    then show ?thesis
    proof cases
      case 1
      then show ?thesis using r(6)[of mB] assms(4) b(5,6) r(2) by simp
    next
      case 2
      then have "2 ^ 52 \<le> mB" using b(4) r(3) by force
      moreover have "(e' + 1 + 1074) * 2 ^ 52 \<le> (eB + 1074) * 2 ^ 52" using 2 by (intro mult_right_mono) simp_all
      ultimately show ?thesis using mant(2) r(2) b(5) by (simp add: algebra_simps)
    next
      case 3
      then have "p2 (52 + e') \<le> mag_val B" using r(5) b(3) assms(4) by force
      moreover have "mag_val B < 2 ^ 53 * p2 eB" unfolding b(6) using b(2) by (intro mult_strict_right_mono) (simp_all flip: of_int_less_iff)
      moreover have "p2 (53 + eB) \<le> p2 (52 + e')" using 3 by (intro p2_mono) simp
      ultimately show ?thesis unfolding p2_53 by linarith
    qed
  qed
  moreover have "0 \<le> X" using r(2,3) mant(1) by simp
  ultimately show ?thesis using r(1) of_bits_fields(2)[of "min X f64_inf_bits" sg] assms(3) by (simp add: f64_inf_bits_def)
qed

lemma round_mag_ge:
  assumes "0 \<le> m" "0 \<le> B" "B < f64_inf_bits" "mag_val B \<le> of_int m * p2 e"
  shows "B \<le> f64_mag (f64_round sg m e)"
proof (cases "m = 0")
  case True
  then have "mag_val B \<le> mag_val 0" using assms(4) by simp
  then have "B \<le> 0" using mag_val_le_iff[of B 0] assms(2) by simp
  then show ?thesis by (simp add: f64_mag_def)
next
  case False
  then have "0 < m" using assms(1) by simp
  then obtain X mant e' where r: "f64_round sg m e = f64_of_bits sg (min X f64_inf_bits)" "X = (e' + 1074) * 2 ^ 52 + mant" "- 1074 \<le> e'"
    "of_int m * p2 e < p2 (53 + e')" "e' \<noteq> - 1074 \<Longrightarrow> p2 (52 + e') \<le> of_int m * p2 e"
    "\<And>N. of_int m * p2 e \<le> of_int N * p2 e' \<Longrightarrow> mant \<le> N" "\<And>N. of_int N * p2 e' \<le> of_int m * p2 e \<Longrightarrow> N \<le> mant"
    using round_parts by metis
  obtain mB eB where b: "0 \<le> mB" "mB < 2 ^ 53" "- 1074 \<le> eB" "mB < 2 ^ 52 \<Longrightarrow> eB = - 1074"
    "B = (eB + 1074) * 2 ^ 52 + mB" "mag_val B = of_int mB * p2 eB" using unpack_cases[OF assms(2)] by metis
  have mant: "0 \<le> mant" using r(7)[of 0] assms(1) by simp
  have "B \<le> X"
  proof -
    consider "eB = e'" | "e' < eB" | "eB < e'" by linarith
    then show ?thesis
    proof cases
      case 1
      then show ?thesis using r(7)[of mB] assms(4) b(5,6) r(2) by simp
    next
      case 2
      then have "2 ^ 52 \<le> mB" using b(4) r(3) by force
      then have "2 ^ 52 * p2 eB \<le> mag_val B" unfolding b(6) by (intro mult_right_mono) (simp_all flip: of_int_le_iff)
      moreover have "p2 (53 + e') \<le> p2 (52 + eB)" using 2 by (intro p2_mono) simp
      ultimately show ?thesis using r(4) assms(4) unfolding p2_53 by linarith
    next
      case 3
      then have "p2 (52 + e') \<le> of_int m * p2 e" using r(5) b(3) by force
      then have "2 ^ 52 \<le> mant" using r(7)[of "2 ^ 52"] by (simp add: p2_add)
      moreover have "(eB + 1 + 1074) * 2 ^ 52 \<le> (e' + 1074) * 2 ^ 52" using 3 by (intro mult_right_mono) simp_all
      ultimately show ?thesis using b(2,5) r(2) by (simp add: algebra_simps)
    qed
  qed
  moreover have "0 \<le> X" using r(2,3) mant by simp
  ultimately show ?thesis using r(1) of_bits_fields(2)[of "min X f64_inf_bits" sg] assms(3) by (simp add: f64_inf_bits_def)
qed

section \<open>The order of values\<close>

lemma f64_val_mag: "f64_val x = (if f64_sign x then - mag_val (f64_mag x) else mag_val (f64_mag x))"
  by (simp add: f64_val_def mag_val_def case_prod_unfold Let_def)

lemma f64_mag_nonneg: "0 \<le> f64_mag x"
  by (simp add: f64_mag_def)

lemma key_le_iff: "f64_key x \<le> f64_key y \<longleftrightarrow> f64_val x \<le> f64_val y"
proof -
  note nonneg = mag_val_nonneg[OF f64_mag_nonneg, of x] mag_val_nonneg[OF f64_mag_nonneg, of y]
  have "- mag_val (f64_mag x) \<le> mag_val (f64_mag y)" using nonneg by simp
  moreover have "mag_val (f64_mag x) \<le> - mag_val (f64_mag y) \<longleftrightarrow> f64_mag x \<le> - f64_mag y"
    using nonneg mag_val_le_iff[of "f64_mag x" 0] mag_val_le_iff[of "f64_mag y" 0] f64_mag_nonneg[of x] f64_mag_nonneg[of y]
    by (smt (verit) mag_val_zero)
  moreover have "- f64_mag x \<le> f64_mag y" using f64_mag_nonneg[of x] f64_mag_nonneg[of y] by linarith
  ultimately show ?thesis
    using mag_val_le_iff[OF f64_mag_nonneg f64_mag_nonneg, of x y] mag_val_le_iff[OF f64_mag_nonneg f64_mag_nonneg, of y x]
    by (auto simp: f64_key_def f64_val_mag)
qed

lemma key_eq_iff: "f64_key x = f64_key y \<longleftrightarrow> f64_val x = f64_val y"
  using key_le_iff[of x y] key_le_iff[of y x] by auto

lemma key_less_iff: "f64_key x < f64_key y \<longleftrightarrow> f64_val x < f64_val y"
  using key_le_iff[of y x] by auto

lemmas finite_simps = f64_finite_def f64_is_nan_def f64_is_inf_def

lemma f64_order_val:
  assumes "f64_finite x" "f64_finite y"
  shows "f64_le x y \<longleftrightarrow> f64_val x \<le> f64_val y" "f64_lt x y \<longleftrightarrow> f64_val x < f64_val y" "f64_eq x y \<longleftrightarrow> f64_val x = f64_val y"
  using assms key_le_iff[of x y] key_less_iff[of x y] key_eq_iff[of x y] by (auto simp: f64_le_def f64_lt_def f64_eq_def finite_simps)

text \<open>\<open>z\<close> is the number \<open>r\<close> after rounding: no double lies between them.\<close>

definition rounds_to :: "real \<Rightarrow> float8 \<Rightarrow> bool" where
  "rounds_to r z \<longleftrightarrow> \<not> f64_is_nan z \<and> (\<forall>c. f64_finite c \<longrightarrow> (r \<le> f64_val c \<longrightarrow> f64_key z \<le> f64_key c) \<and> (f64_val c \<le> r \<longrightarrow> f64_key c \<le> f64_key z))"

lemma rounds_to_le: "rounds_to r z \<Longrightarrow> f64_finite c \<Longrightarrow> r \<le> f64_val c \<Longrightarrow> f64_le z c"
  by (auto simp: rounds_to_def f64_le_def finite_simps)

lemma rounds_to_ge: "rounds_to r z \<Longrightarrow> f64_finite c \<Longrightarrow> f64_val c \<le> r \<Longrightarrow> f64_le c z"
  by (auto simp: rounds_to_def f64_le_def finite_simps)

lemma rounds_to_self:
  assumes "rounds_to (f64_val c) z" "f64_finite c"
  shows "f64_finite z" "f64_val z = f64_val c"
proof -
  have key: "f64_key z = f64_key c" using assms unfolding rounds_to_def by (meson antisym order_refl)
  then show "f64_val z = f64_val c" by (simp add: key_eq_iff)
  have "f64_mag z = f64_mag c" using key f64_mag_nonneg[of z] f64_mag_nonneg[of c] by (auto simp: f64_key_def split: if_splits)
  then show "f64_finite z" using assms(2) by (simp add: f64_finite_def)
qed

lemma rounds_to_value:
  assumes "rounds_to r z" "f64_finite c" "f64_val c = r"
  shows "f64_finite z \<and> f64_val z = r"
  using rounds_to_self[of c z] assms by simp

lemma zero_one_values [simp]: "f64_finite f64_zero" "f64_finite f64_one" "f64_val f64_zero = 0" "f64_val f64_one = 1"
  by (simp_all add: f64_finite_def f64_val_def f64_mag_def f64_sign_def f64_unpack_def f64_inf_bits_def f64_zero_def f64_one_def power_int_minus)

lemma rounds_toI:
  assumes "f64_sign z = sg" "r = (if sg then - 1 else 1) * a" "0 \<le> a" "\<not> f64_is_nan z"
    "\<And>B. 0 \<le> B \<Longrightarrow> B < f64_inf_bits \<Longrightarrow> (a \<le> mag_val B \<longrightarrow> f64_mag z \<le> B) \<and> (mag_val B \<le> a \<longrightarrow> B \<le> f64_mag z)"
  shows "rounds_to r z"
  unfolding rounds_to_def
proof (intro conjI allI impI)
  fix c assume c: "f64_finite c"
  define B where "B = f64_mag c"
  have B: "0 \<le> B" "B < f64_inf_bits" "f64_val c = (if f64_sign c then - mag_val B else mag_val B)" "f64_key c = (if f64_sign c then - B else B)"
    using c by (simp_all add: B_def f64_finite_def f64_val_mag f64_key_def f64_mag_nonneg)
  note close = assms(5)[OF B(1,2)]
  have key: "f64_key z = (if sg then - f64_mag z else f64_mag z)" using assms(1) by (simp add: f64_key_def)
  have zero: "f64_mag z = 0" if "a = 0" using assms(5)[of 0] that f64_mag_nonneg[of z] by (simp add: f64_inf_bits_def)
  have cz: "B = 0" if "mag_val B \<le> 0" using that mag_val_le_iff[of B 0] B(1) by simp
  note nonneg = mag_val_nonneg[OF B(1)] f64_mag_nonneg[of z] B(1) assms(3)
  show "f64_key z \<le> f64_key c" if "r \<le> f64_val c"
    using that close nonneg zero cz unfolding assms(2) B(3,4) key by (cases sg; cases "f64_sign c") auto
  show "f64_key c \<le> f64_key z" if "f64_val c \<le> r"
    using that close nonneg zero cz unfolding assms(2) B(3,4) key by (cases sg; cases "f64_sign c") auto
qed (rule assms(4))

lemma round_fields:
  assumes "0 \<le> m"
  shows "f64_sign (f64_round sg m e) = sg" "\<not> f64_is_nan (f64_round sg m e)"
proof -
  have "f64_sign (f64_round sg m e) = sg \<and> f64_mag (f64_round sg m e) \<le> f64_inf_bits"
  proof (cases "m = 0")
    case True
    then show ?thesis using of_bits_fields[of 0 sg] by (simp add: f64_round_def f64_inf_bits_def)
  next
    case False
    then have "0 < m" using assms by simp
    then obtain X mant e' where r: "f64_round sg m e = f64_of_bits sg (min X f64_inf_bits)" "X = (e' + 1074) * 2 ^ 52 + mant" "- 1074 \<le> e'"
      "\<And>N. of_int N * p2 e' \<le> of_int m * p2 e \<Longrightarrow> N \<le> mant" using round_parts by metis
    have "0 \<le> X" using r(2,3) r(4)[of 0] assms by simp
    then show ?thesis using r(1) of_bits_fields[of "min X f64_inf_bits" sg] by (simp add: f64_inf_bits_def)
  qed
  then show "f64_sign (f64_round sg m e) = sg" "\<not> f64_is_nan (f64_round sg m e)" by (simp_all add: f64_is_nan_def)
qed

lemma rounds_round: "0 \<le> m \<Longrightarrow> rounds_to ((if sg then - 1 else 1) * (of_int m * p2 e)) (f64_round sg m e)"
  using round_fields[of m sg e] round_mag_le[of m _ e sg] round_mag_ge[of m _ e sg]
  by (intro rounds_toI[of _ sg _ "of_int m * p2 e"]) auto

section \<open>Operations\<close>

lemma rounds_zero: "f64_mag z = 0 \<Longrightarrow> rounds_to 0 z"
proof -
  assume z: "f64_mag z = 0"
  have "(0 \<le> mag_val B \<longrightarrow> f64_mag z \<le> B) \<and> (mag_val B \<le> 0 \<longrightarrow> B \<le> f64_mag z)" if "0 \<le> B" for B
    using z that mag_val_le_iff[of B 0] by simp
  then show ?thesis using z by (intro rounds_toI[of _ "f64_sign z" _ 0]) (simp_all add: f64_is_nan_def f64_inf_bits_def)
qed

theorem f64_add_rounds:
  assumes "f64_finite x" "f64_finite y"
  shows "rounds_to (f64_val x + f64_val y) (f64_add x y)"
proof -
  obtain m1 e1 m2 e2 where u: "f64_unpack (f64_mag x) = (m1, e1)" "f64_unpack (f64_mag y) = (m2, e2)" by fastforce
  define e where "e = min e1 e2"
  define s where "s = (if f64_sign x then - (m1 * 2 ^ nat (e1 - e)) else m1 * 2 ^ nat (e1 - e)) +
    (if f64_sign y then - (m2 * 2 ^ nat (e2 - e)) else m2 * 2 ^ nat (e2 - e))"
  have "p2 e1 = of_int (2 ^ nat (e1 - e)) * p2 e" "p2 e2 = of_int (2 ^ nat (e2 - e)) * p2 e"
    using p2_nat[of "e1 - e"] p2_nat[of "e2 - e"] p2_add[of "e1 - e" e] p2_add[of "e2 - e" e] by (simp_all add: e_def)
  then have val: "of_int s * p2 e = f64_val x + f64_val y"
    by (simp add: unpack_val(1)[OF u(1)] unpack_val(1)[OF u(2)] s_def distrib_right)
  have add: "f64_add x y = (if s = 0 then f64_of_bits (f64_sign x \<and> f64_sign y) 0 else f64_round (s < 0) \<bar>s\<bar> e)"
    using finite_not_special[OF assms(1)] finite_not_special[OF assms(2)]
    unfolding f64_add_def u Let_def prod.case e_def[symmetric] s_def[symmetric] by simp
  show ?thesis
  proof (cases "s = 0")
    case True
    then show ?thesis using val add rounds_zero of_bits_fields(2)[of 0] by simp
  next
    case False
    have "(if s < 0 then - 1 else 1) * (of_int \<bar>s\<bar> * p2 e) = f64_val x + f64_val y" unfolding val[symmetric] by simp
    then show ?thesis using rounds_round[of "\<bar>s\<bar>" "s < 0" e] False add by simp
  qed
qed

theorem f64_mul_rounds:
  assumes "f64_finite x" "f64_finite y"
  shows "rounds_to (f64_val x * f64_val y) (f64_mul x y)"
proof -
  obtain m1 e1 m2 e2 where u: "f64_unpack (f64_mag x) = (m1, e1)" "f64_unpack (f64_mag y) = (m2, e2)" by fastforce
  have "(if f64_sign x \<noteq> f64_sign y then - 1 else 1) * (of_int (m1 * m2) * p2 (e1 + e2)) = f64_val x * f64_val y"
    by (simp add: unpack_val(1)[OF u(1)] unpack_val(1)[OF u(2)] p2_add)
  moreover have "f64_mul x y = f64_round (f64_sign x \<noteq> f64_sign y) (m1 * m2) (e1 + e2)"
    using finite_not_special[OF assms(1)] finite_not_special[OF assms(2)] u by (simp add: f64_mul_def Let_def)
  ultimately show ?thesis
    using rounds_round[of "m1 * m2" "f64_sign x \<noteq> f64_sign y" "e1 + e2"] unpack_val(2)[OF u(1)] unpack_val(2)[OF u(2)] by simp
qed

text \<open>
  A quotient is rounded from its integer part and a bit that tells if there is a remainder: it lies on the
  same side of every double as the quotient, which has more bits than a double.
\<close>

lemma sticky_side:
  assumes "0 \<le> B" "2 ^ 52 \<le> q" "of_int q \<le> y" "y < of_int q + 1" "st = (if y = of_int q then 0 else 1)"
  shows "y * p2 (E + 1) \<le> mag_val B \<longrightarrow> of_int (2 * q + st) * p2 E \<le> mag_val B"
    "mag_val B \<le> y * p2 (E + 1) \<longrightarrow> mag_val B \<le> of_int (2 * q + st) * p2 E"
proof -
  obtain mB eB where b: "0 \<le> mB" "mB < 2 ^ 53" "mag_val B = of_int mB * p2 eB" using unpack_cases[OF assms(1)] by metis
  have y: "y * p2 (E + 1) = 2 * y * p2 E" by (simp add: p2_add)
  have q: "of_int (2 * q) * p2 E \<le> 2 * y * p2 E" using assms(3) by simp
  have "(y * p2 (E + 1) \<le> mag_val B \<longrightarrow> of_int (2 * q + st) * p2 E \<le> mag_val B) \<and>
      (mag_val B \<le> y * p2 (E + 1) \<longrightarrow> mag_val B \<le> of_int (2 * q + st) * p2 E)"
  proof (cases "eB \<le> E")
    case True
    have "mag_val B < 2 ^ 53 * p2 eB" unfolding b(3) using b(2) by (intro mult_strict_right_mono) (simp_all flip: of_int_less_iff)
    also have "\<dots> \<le> of_int (2 * q) * p2 E"
    proof (rule mult_mono)
      have "2 ^ 53 \<le> 2 * q" using assms(2) by simp
      then show "2 ^ 53 \<le> real_of_int (2 * q)" by (simp only: of_int_le_iff[symmetric, where 'a = real]) simp
    qed (use True p2_mono assms(2) in simp_all)
    finally have "mag_val B < of_int (2 * q) * p2 E" .
    moreover have "of_int (2 * q) * p2 E \<le> of_int (2 * q + st) * p2 E" using assms(5) by simp
    ultimately show ?thesis using q unfolding y by linarith
  next
    case False
    define K where "K = mB * 2 ^ nat (eB - (E + 1))"
    have "p2 eB = p2 (eB - (E + 1)) * p2 1 * p2 E" by (simp only: p2_add[symmetric]) simp
    then have B: "mag_val B = of_int (2 * K) * p2 E" using False by (simp add: b(3) K_def p2_nat)
    have "(y \<le> of_int K \<longrightarrow> 2 * q + st \<le> 2 * K) \<and> (of_int K \<le> y \<longrightarrow> 2 * K \<le> 2 * q + st)"
    proof (cases "y = of_int q")
      case False
      then have "of_int q < y" using assms(3) by simp
      have "q < K" if "y \<le> of_int K"
      proof -
        have "real_of_int q < of_int K" using that \<open>of_int q < y\<close> by linarith
        then show ?thesis by (simp only: of_int_less_iff)
      qed
      moreover have "K < q + 1" if "of_int K \<le> y"
      proof -
        have "real_of_int K < of_int (q + 1)" using that assms(4) by simp
        then show ?thesis by (simp only: of_int_less_iff)
      qed
      ultimately have "y \<le> of_int K \<longrightarrow> q < K" "of_int K \<le> y \<longrightarrow> K < q + 1" by blast+
      then show ?thesis using False assms(5) by auto
    qed (use assms(5) in simp)
    moreover have "2 * y * p2 E \<le> of_int (2 * K) * p2 E \<longleftrightarrow> y \<le> of_int K" "of_int (2 * K) * p2 E \<le> 2 * y * p2 E \<longleftrightarrow> of_int K \<le> y"
      by (simp_all only: mult_le_cancel_right_pos p2_pos) simp_all
    moreover have "of_int (2 * q + st) * p2 E \<le> of_int (2 * K) * p2 E \<longleftrightarrow> 2 * q + st \<le> 2 * K"
      "of_int (2 * K) * p2 E \<le> of_int (2 * q + st) * p2 E \<longleftrightarrow> 2 * K \<le> 2 * q + st"
      by (simp_all only: mult_le_cancel_right_pos p2_pos of_int_le_iff)
    ultimately show ?thesis unfolding B y by blast
  qed
  then show "y * p2 (E + 1) \<le> mag_val B \<longrightarrow> of_int (2 * q + st) * p2 E \<le> mag_val B"
    "mag_val B \<le> y * p2 (E + 1) \<longrightarrow> mag_val B \<le> of_int (2 * q + st) * p2 E" by blast+
qed

lemma rounds_sticky:
  assumes "2 ^ 52 \<le> q" "of_int q \<le> y" "y < of_int q + 1" "st = (if y = of_int q then 0 else 1)"
  shows "rounds_to ((if sg then - 1 else 1) * (y * p2 (E + 1))) (f64_round sg (2 * q + st) E)"
proof -
  have "(0 :: int) \<le> 2 ^ 52" by simp
  then have q: "0 \<le> 2 * q + st" using assms(1,4) by simp
  have "0 \<le> y" using assms(1,2) \<open>0 \<le> 2 ^ 52\<close> by (smt (verit) of_int_0_le_iff)
  then show ?thesis
    using round_fields[OF q, of sg E] round_mag_le[OF q, of _ E sg] round_mag_ge[OF q, of _ E sg] sticky_side[OF _ assms, of _ E]
    by (intro rounds_toI[of _ sg _ "y * p2 (E + 1)"]) auto
qed

theorem f64_div_rounds:
  assumes "f64_finite x" "f64_finite y" "f64_val y \<noteq> 0"
  shows "rounds_to (f64_val x / f64_val y) (f64_div x y)"
proof -
  obtain m1 e1 m2 e2 where u: "f64_unpack (f64_mag x) = (m1, e1)" "f64_unpack (f64_mag y) = (m2, e2)" by fastforce
  have m2: "0 < m2" "m2 < 2 ^ 53"
  proof -
    show "0 < m2" using unpack_val[OF u(2)] assms(3) by (cases "m2 = 0") auto
    show "m2 < 2 ^ 53" using unpack_cases[OF f64_mag_nonneg, of y] u(2) by (metis prod.inject)
  qed
  have "f64_mag y \<noteq> 0" using assms(3) by (metis f64_val_mag mag_val_zero neg_equal_0_iff_equal)
  define n where "n = m1 * 2 ^ 120"
  define sg where "sg = (f64_sign x \<noteq> f64_sign y)"
  have div: "f64_div x y = f64_round sg (2 * (n div m2) + (if n mod m2 = 0 then 0 else 1)) (e1 - e2 - 121)"
    using finite_not_special[OF assms(1)] finite_not_special[OF assms(2)] \<open>f64_mag y \<noteq> 0\<close> u
    by (simp add: f64_div_def Let_def n_def sg_def)
  have "p2 (e1 - e2 - 120) = p2 e1 / (p2 e2 * 2 ^ 120)" by (simp add: power_int_diff)
  then have val: "(if sg then - 1 else 1) * (of_int n / of_int m2 * p2 (e1 - e2 - 121 + 1)) = f64_val x / f64_val y"
    using m2(1) by (simp add: unpack_val(1)[OF u(1)] unpack_val(1)[OF u(2)] n_def sg_def field_simps)
  show ?thesis
  proof (cases "m1 = 0")
    case True
    then have "f64_mag (f64_div x y) = 0" using div of_bits_fields(2)[of 0] by (simp add: n_def f64_round_def)
    moreover have "f64_val x / f64_val y = 0" using val True by (simp add: n_def)
    ultimately show ?thesis using rounds_zero by (simp only:)
  next
    case False
    then have "1 \<le> m1" using unpack_val(2)[OF u(1)] by simp
    have split: "of_int n = (of_int (n div m2) * of_int m2 + of_int (n mod m2) :: real)"
      by (simp only: of_int_mult[symmetric] of_int_add[symmetric] div_mult_mod_eq)
    have "2 ^ 52 * m2 \<le> 2 ^ 52 * 2 ^ 53" using m2 by simp
    also have "\<dots> \<le> n" using \<open>1 \<le> m1\<close> by (simp add: n_def)
    finally have q: "2 ^ 52 \<le> n div m2" using zdiv_mono1[of "2 ^ 52 * m2" n m2] m2 by simp
    have rem: "0 \<le> n mod m2" "n mod m2 < m2" using m2 by simp_all
    have "of_int (n div m2) \<le> of_int n / (of_int m2 :: real)"
      using rem m2 by (simp add: pos_le_divide_eq split)
    moreover have "of_int n / (of_int m2 :: real) < of_int (n div m2) + 1"
    proof -
      have "(of_int (n mod m2) :: real) < of_int m2" using rem by (simp only: of_int_less_iff)
      then show ?thesis using m2 by (simp add: pos_divide_less_eq split algebra_simps)
    qed
    moreover have "(if n mod m2 = 0 then 0 else 1) = (if of_int n / (of_int m2 :: real) = of_int (n div m2) then 0 else 1 :: int)"
      using m2 by (simp add: divide_eq_eq split)
    ultimately show ?thesis
      using rounds_sticky[OF q, of "of_int n / of_int m2" _ sg "e1 - e2 - 121"] unfolding div val by blast
  qed
qed

section \<open>Signs\<close>

lemma f64_mag_bits: "f64_mag x = take_bit 63 (uint x)"
  by (simp add: f64_mag_def take_bit_eq_mod)

lemma f64_sign_bit: "f64_sign x \<longleftrightarrow> bit (uint x) 63"
proof -
  have "uint x < 2 ^ 64" using uint_lt2p[of x] by simp
  moreover have "0 \<le> uint x" by simp
  ultimately have "uint x div 2 ^ 63 = (if 2 ^ 63 \<le> uint x then 1 else 0)" by (auto intro: int_div_pos_eq[of _ _ _ "uint x - 2 ^ 63"])
  then show ?thesis by (simp add: f64_sign_def bit_iff_odd)
qed

lemma f64_neg_fields: "f64_sign (f64_neg x) = (\<not> f64_sign x)" "f64_mag (f64_neg x) = f64_mag x"
proof -
  have u: "uint (f64_neg x) = xor (uint x) (2 ^ 63)" by (simp add: f64_neg_def unsigned_xor_eq)
  show "f64_sign (f64_neg x) = (\<not> f64_sign x)" unfolding f64_sign_bit u by (simp add: bit_simps)
  show "f64_mag (f64_neg x) = f64_mag x" unfolding f64_mag_bits u by (simp add: take_bit_xor)
qed

lemma f64_neg_val [simp]: "f64_val (f64_neg x) = - f64_val x" "f64_finite (f64_neg x) = f64_finite x" "f64_is_nan (f64_neg x) = f64_is_nan x"
  by (simp_all add: f64_val_mag f64_neg_fields f64_finite_def f64_is_nan_def)

lemma f64_fabs_fields: "\<not> f64_sign (f64_fabs x)" "f64_mag (f64_fabs x) = f64_mag x"
proof -
  have "uint (0x7FFFFFFFFFFFFFFF :: float8) = mask 63" by (simp add: mask_eq_exp_minus_1)
  then have u: "uint (f64_fabs x) = take_bit 63 (uint x)" by (simp only: f64_fabs_def unsigned_and_eq take_bit_eq_mask)
  show "\<not> f64_sign (f64_fabs x)" unfolding f64_sign_bit u by (simp add: bit_simps)
  show "f64_mag (f64_fabs x) = f64_mag x" unfolding f64_mag_bits u by simp
qed

lemma f64_fabs_val [simp]: "f64_val (f64_fabs x) = \<bar>f64_val x\<bar>" "f64_finite (f64_fabs x) = f64_finite x" "f64_is_nan (f64_fabs x) = f64_is_nan x"
  using mag_val_nonneg[OF f64_mag_nonneg, of x] by (auto simp: f64_val_mag f64_fabs_fields f64_finite_def f64_is_nan_def)

lemma f64_sub_add: "f64_finite x \<Longrightarrow> f64_finite y \<Longrightarrow> f64_sub x y = f64_add x (f64_neg y)"
  using finite_not_special by (simp add: f64_sub_def)

theorem f64_sub_exact:
  assumes "f64_finite x" "f64_finite y" "f64_exact (f64_val x - f64_val y)"
  shows "f64_finite (f64_sub x y) \<and> f64_val (f64_sub x y) = f64_val x - f64_val y"
  using f64_add_exact[of x "f64_neg y"] assms by (simp add: f64_sub_add)

theorem f64_sub_rounds:
  assumes "f64_finite x" "f64_finite y"
  shows "rounds_to (f64_val x - f64_val y) (f64_sub x y)"
  using f64_add_rounds[of x "f64_neg y"] assms by (simp add: f64_sub_add)

end
