(* ===== verification/RankTestsFacts.thy ===== *)
theory RankTestsFacts
  imports RankTests Float64Order
begin

text \<open>
  The rank tests compute the statistics of their definitions.  The numbers of values and the sums of ranks are
  multiples of a half, with which doubles compute exactly.
\<close>

section \<open>Multiples of a half\<close>

definition halves :: "float8 \<Rightarrow> int \<Rightarrow> bool" where
  "halves x k \<longleftrightarrow> f64_finite x \<and> f64_val x = of_int k / 2"

lemma half_exact: "\<bar>k\<bar> < 2 ^ 53 \<Longrightarrow> f64_exact (of_int k / 2)"
  by (rule f64_exactI[of _ k "- 1"]) (simp_all add: power_int_minus)

lemma constant_values [simp]:
  "f64_finite f64_two" "f64_finite f64_half" "f64_val f64_two = 2" "f64_val f64_half = 1 / 2"
  by (simp_all add: f64_finite_def f64_val_def f64_mag_def f64_sign_def f64_unpack_def f64_inf_bits_def f64_two_def f64_half_def power_int_minus)

lemma halves_constants [simp]: "halves f64_zero 0" "halves f64_one 2" "halves f64_two 4" "halves f64_half 1"
  by (simp_all add: halves_def)

lemma halves_fields: "halves x k \<Longrightarrow> f64_finite x" "halves x k \<Longrightarrow> f64_val x = of_int k / 2"
  by (simp_all add: halves_def)

lemma halvesI:
  assumes "f64_exact r \<Longrightarrow> f64_finite z \<and> f64_val z = r" "r = of_int k / 2" "\<bar>k\<bar> < 2 ^ 53"
  shows "halves z k"
  using assms(1) half_exact[OF assms(3)] unfolding assms(2) halves_def by blast

lemma halves_add:
  assumes "halves x k" "halves y l" "\<bar>k + l\<bar> < 2 ^ 53"
  shows "halves (f64_add x y) (k + l)"
proof -
  have "f64_val x + f64_val y = of_int (k + l) / 2" using assms(1,2) by (simp add: halves_def add_divide_distrib)
  from halvesI[OF f64_add_exact[OF halves_fields(1)[OF assms(1)] halves_fields(1)[OF assms(2)]] this assms(3)] show ?thesis .
qed

lemma halves_sub:
  assumes "halves x k" "halves y l" "\<bar>k - l\<bar> < 2 ^ 53"
  shows "halves (f64_sub x y) (k - l)"
proof -
  have "f64_val x - f64_val y = of_int (k - l) / 2" using assms(1,2) by (simp add: halves_def diff_divide_distrib)
  from halvesI[OF f64_sub_exact[OF halves_fields(1)[OF assms(1)] halves_fields(1)[OF assms(2)]] this assms(3)] show ?thesis .
qed

lemma halves_mul:
  assumes "halves x k" "halves y (2 * l)" "\<bar>k * l\<bar> < 2 ^ 53"
  shows "halves (f64_mul x y) (k * l)" "halves (f64_mul y x) (k * l)"
proof -
  note fin = halves_fields(1)[OF assms(1)] halves_fields(1)[OF assms(2)]
  have val: "f64_val x * f64_val y = of_int (k * l) / 2" "f64_val y * f64_val x = of_int (k * l) / 2"
    using assms(1,2) by (simp_all add: halves_def)
  from halvesI[OF f64_mul_exact[OF fin] val(1) assms(3)] show "halves (f64_mul x y) (k * l)" .
  from halvesI[OF f64_mul_exact[OF fin(2,1)] val(2) assms(3)] show "halves (f64_mul y x) (k * l)" .
qed

lemma halves_mul_half:
  assumes "halves x (2 * k)" "\<bar>k\<bar> < 2 ^ 53"
  shows "halves (f64_mul x f64_half) k"
proof -
  have "f64_val x * f64_val f64_half = of_int k / 2" using assms(1) by (simp add: halves_def)
  then show ?thesis using f64_mul_exact[of x f64_half] half_exact[OF assms(2)] assms(1) by (simp add: halves_def)
qed

lemma f64_two_unpack: "f64_unpack (f64_mag f64_two) = (2 ^ 52, - 51)" "f64_mag f64_two \<noteq> 0" "\<not> f64_sign f64_two"
  by (simp_all add: f64_mag_def f64_sign_def f64_unpack_def f64_two_def)

lemma halves_div_two:
  assumes "halves x (2 * k)" "\<bar>k\<bar> < 2 ^ 53"
  shows "halves (f64_div x f64_two) k"
proof -
  have "f64_val x / f64_val f64_two = of_int k / 2" using assms(1) by (simp add: halves_def)
  then show ?thesis
    using f64_div_p2_exact[OF _ f64_two_unpack(1) _ f64_two_unpack(2,3)] half_exact[OF assms(2)] assms(1) by (simp add: halves_def)
qed

lemma halves_order:
  assumes "halves x k" "halves y l"
  shows "f64_lt x y \<longleftrightarrow> k < l" "f64_le x y \<longleftrightarrow> k \<le> l" "f64_eq x y \<longleftrightarrow> k = l"
  using assms f64_order_val[of x y] by (auto simp: halves_def divide_less_cancel divide_le_cancel)

section \<open>Ranks\<close>

text \<open>Twice the number of values below \<open>v\<close>, where a value that is equal counts half.\<close>

definition below2 :: "real list \<Rightarrow> real \<Rightarrow> int" where
  "below2 vs v = sum_list (map (\<lambda>w. if w < v then 2 else if w = v then 1 else 0) vs)"

text \<open>Twice the sum of the ranks of \<open>ws\<close> among \<open>vs\<close>: the rank is the mean of the positions of equal values.\<close>

definition ranks2 :: "real list \<Rightarrow> real list \<Rightarrow> int" where
  "ranks2 vs ws = sum_list (map (\<lambda>v. below2 vs v + 1) ws)"

definition eq_count :: "real list \<Rightarrow> real \<Rightarrow> int" where
  "eq_count vs v = int (count_list vs v)"

lemma below2_snoc: "below2 (vs @ [w]) v = below2 vs v + (if w < v then 2 else if w = v then 1 else 0)"
  by (simp add: below2_def)

lemma below2_top: "\<forall>w\<in>set vs. w \<le> v \<Longrightarrow> below2 vs v = 2 * int (length vs) - eq_count vs v"
  by (induction vs) (auto simp: below2_def eq_count_def)

lemma ranks2_snoc_top:
  assumes "\<forall>w\<in>set ws. w \<le> v"
  shows "ranks2 (vs @ [v]) ws = ranks2 vs ws + eq_count ws v"
  using assms by (induction ws) (auto simp: ranks2_def eq_count_def below2_snoc)

lemma ranks2_snoc: "ranks2 vs (ws @ [w]) = ranks2 vs ws + (below2 vs w + 1)"
  by (simp add: ranks2_def)

lemma below2_bounds: "0 \<le> below2 vs v" "below2 vs v \<le> 2 * int (length vs)"
  by (induction vs) (auto simp: below2_def)

lemma ranks2_bounds: "0 \<le> ranks2 vs ws" "ranks2 vs ws \<le> int (length ws) * (2 * int (length vs) + 1)"
proof -
  have "0 \<le> ranks2 vs ws \<and> ranks2 vs ws \<le> int (length ws) * (2 * int (length vs) + 1)"
  proof (induction ws)
    case (Cons w ws)
    then show ?case using below2_bounds[of vs w] by (simp add: ranks2_def algebra_simps)
  qed (simp add: ranks2_def)
  then show "0 \<le> ranks2 vs ws" "ranks2 vs ws \<le> int (length ws) * (2 * int (length vs) + 1)" by simp_all
qed

text \<open>The values of a sample; the rows say if a value is in the first sample.\<close>

definition sample_of :: "nat \<Rightarrow> (bool \<times> real) list \<Rightarrow> real list" where
  "sample_of i rows = map snd (filter (\<lambda>(first, v). first = (i = 0)) rows)"

lemma sample_of_snoc: "i < 2 \<Longrightarrow> sample_of i (rows @ [(first, v)]) = sample_of i rows @ (if (if first then 0 else 1) = i then [v] else [])"
  by (auto simp: sample_of_def)

lemma sample_lengths: "length (sample_of 0 rows) + length (sample_of 1 rows) = length rows"
  by (induction rows) (auto simp: sample_of_def)

lemma eq_count_samples: "eq_count (sample_of 0 rows) v + eq_count (sample_of 1 rows) v = eq_count (map snd rows) v"
  by (induction rows) (auto simp: sample_of_def eq_count_def)

lemma eq_count_bounds: "0 \<le> eq_count vs v" "eq_count vs v \<le> int (length vs)"
  by (simp_all add: eq_count_def count_le_length)

text \<open>The sums of a state after the rows, where the ties are those with \<open>v\<close>.\<close>

definition ranks_ok :: "(bool \<times> real) list \<Rightarrow> real \<Rightarrow> 'a ranks_scheme \<Rightarrow> bool" where
  "ranks_ok rows v s \<longleftrightarrow> (\<forall>i<2. halves (at2 i (num s)) (2 * int (length (sample_of i rows))) \<and>
     halves (at2 i (numTies s)) (2 * eq_count (sample_of i rows) v) \<and>
     halves (at2 i (rankSum s)) (ranks2 (map snd rows) (sample_of i rows)))"

lemma less_two: "(\<forall>i<2. P i) \<longleftrightarrow> P 0 \<and> P (1 :: nat)"
  by (auto simp: less_2_cases_iff)

text \<open>A value that is at least the last one, after the ties are updated.\<close>

definition ranks_shifted :: "(bool \<times> real) list \<Rightarrow> real \<Rightarrow> 'a ranks_scheme \<Rightarrow> bool" where
  "ranks_shifted rows v s \<longleftrightarrow> (\<forall>i<2. halves (at2 i (num s)) (2 * int (length (sample_of i rows))) \<and>
     halves (at2 i (numTies s)) (2 * eq_count (sample_of i rows) v) \<and>
     halves (at2 i (rankSum s)) (ranks2 (map snd rows) (sample_of i rows) + eq_count (sample_of i rows) v))"

text \<open>The number of rows for which everything is exact.\<close>

definition few_rows :: "nat \<Rightarrow> bool" where "few_rows n \<longleftrightarrow> n < 2 ^ 25"

lemma few_limits:
  assumes "few_rows n" "a \<le> int n" "b \<le> int n" "0 \<le> a" "0 \<le> b"
  shows "a * (2 * b + 4) < 2 ^ 52" "2 * b + 2 < 2 ^ 27"
proof -
  have n: "int n < 2 ^ 25" using assms(1) by (simp add: few_rows_def)
  have "a * (2 * b + 4) \<le> 2 ^ 25 * (2 ^ 26 + 4)" using assms n by (intro mult_mono) simp_all
  then show "a * (2 * b + 4) < 2 ^ 52" by simp
  show "2 * b + 2 < 2 ^ 27" using assms n by simp
qed

lemma shift_ranks_ok:
  assumes "ranks_ok rows v s" "few_rows (length rows)"
  shows "ranks_shifted rows v (shift_ranks s)"
proof -
  have "halves (f64_add (at2 i (rankSum s)) (f64_mul (at2 i (numTies s)) f64_half))
      (ranks2 (map snd rows) (sample_of i rows) + eq_count (sample_of i rows) v)" if "i < 2" for i
  proof -
    have ok: "halves (at2 i (numTies s)) (2 * eq_count (sample_of i rows) v)"
      "halves (at2 i (rankSum s)) (ranks2 (map snd rows) (sample_of i rows))"
      using assms(1) that by (simp_all add: ranks_ok_def)
    have len: "length (sample_of i rows) \<le> length rows" by (simp add: sample_of_def)
    note eq = eq_count_bounds[of "sample_of i rows" v] and rk = ranks2_bounds[of "map snd rows" "sample_of i rows"]
    have "int (length (sample_of i rows)) * (2 * int (length rows) + 4) < 2 ^ 52" using few_limits(1)[OF assms(2)] len by simp
    then have "ranks2 (map snd rows) (sample_of i rows) + eq_count (sample_of i rows) v < 2 ^ 53" using eq rk by (simp add: algebra_simps)
    moreover have "eq_count (sample_of i rows) v < 2 ^ 27" using eq few_limits(2)[OF assms(2), of _ "int (length rows)"] len by force
    ultimately show ?thesis using halves_add[OF ok(2) halves_mul_half[OF ok(1)]] eq rk by simp
  qed
  then show ?thesis using assms(1) unfolding ranks_shifted_def ranks_ok_def less_two by (simp add: shift_ranks_def)
qed

lemma at2_simps [simp]:
  "sum2 p = f64_add (at2 0 p) (at2 1 p)" "prod2 p = f64_mul (at2 0 p) (at2 1 p)" "at2 i (upd2 j f p) = (if (i = 0) = (j = 0) then f (at2 i p) else at2 i p)"
  by (cases p; simp)+

lemma add_rank_ok:
  assumes "ranks_shifted rows v s" "few_rows (length rows)" "\<forall>w\<in>set (map snd rows). w \<le> v"
  shows "ranks_ok (rows @ [(first, v)]) v (add_rank (if first then 0 else 1) s)"
proof -
  let ?j = "if first then 0 else 1 :: nat"
  define N where "N = int (length rows)"
  define T where "T = eq_count (map snd rows) v"
  have N: "0 \<le> N" "N < 2 ^ 25" "0 \<le> T" "T \<le> N"
    using assms(2) eq_count_bounds[of "map snd rows" v] by (simp_all add: N_def few_rows_def T_def)
  have old: "halves (at2 i (num s)) (2 * int (length (sample_of i rows)))" "halves (at2 i (numTies s)) (2 * eq_count (sample_of i rows) v)"
    "halves (at2 i (rankSum s)) (ranks2 (map snd rows) (sample_of i rows) + eq_count (sample_of i rows) v)" if "i < 2" for i
    using assms(1) that by (simp_all add: ranks_shifted_def)
  have len: "int (length (sample_of i rows)) \<le> N" for i by (simp add: sample_of_def N_def)
  have len: "int (length (sample_of i rows)) \<le> N" "eq_count (sample_of i rows) v \<le> N" for i
    using eq_count_bounds(2)[of "sample_of i rows" v] len[of i] by simp_all
  define s1 where "s1 = s\<lparr>num := upd2 ?j (\<lambda>n. f64_add n f64_one) (num s)\<rparr>"
  have num1: "halves (at2 i (num s1)) (2 * int (length (sample_of i (rows @ [(first, v)]))))" if "i < 2" for i
    using halves_add[OF old(1)[OF that] halves_constants(2)] old(1)[OF that] len(1)[of i] N that
    by (auto simp: s1_def sample_of_snoc less_2_cases_iff algebra_simps)
  have lens: "int (length (sample_of 0 (rows @ [(first, v)]))) + int (length (sample_of 1 (rows @ [(first, v)]))) = N + 1"
    using sample_lengths[of "rows @ [(first, v)]"] by (simp only: of_nat_add[symmetric]) (simp add: N_def)
  have total: "halves (sum2 (num s1)) (2 * (N + 1))"
    using halves_add[OF num1[of 0] num1[of 1]] lens N by (simp add: distrib_left[symmetric] del: distrib_left_numeral)
  have ties: "halves (sum2 (numTies s)) (2 * T)"
    using halves_add[OF old(2)[of 0] old(2)[of 1]] eq_count_samples[of rows v] N T_def
    by (simp add: distrib_left[symmetric] del: distrib_left_numeral)
  define r where "r = f64_div (f64_sub (f64_mul f64_two (sum2 (num s1))) (sum2 (numTies s))) f64_two"
  have "halves (f64_mul f64_two (sum2 (num s1))) (4 * (N + 1))" using halves_mul(1)[OF halves_constants(3) total] N by simp
  then have "halves (f64_sub (f64_mul f64_two (sum2 (num s1))) (sum2 (numTies s))) (2 * (2 * (N + 1) - T))"
    using halves_sub[OF _ ties, of _ "4 * (N + 1)"] N by (simp add: algebra_simps)
  then have r: "halves r (2 * (N + 1) - T)" unfolding r_def using N by (intro halves_div_two) simp_all
  have rank: "below2 (map snd rows @ [v]) v + 1 = 2 * (N + 1) - T"
    using below2_top[OF assms(3)] by (simp add: below2_snoc N_def T_def)
  have sample_le: "\<forall>w\<in>set (sample_of i rows). w \<le> v" for i using assms(3) by (auto simp: sample_of_def)
  have sums: "ranks2 (map snd rows @ [v]) (sample_of i rows) = ranks2 (map snd rows) (sample_of i rows) + eq_count (sample_of i rows) v" for i
    by (rule ranks2_snoc_top[OF sample_le])
  have "halves (at2 i (upd2 ?j (\<lambda>x. f64_add x r) (rankSum s))) (ranks2 (map snd rows @ [v]) (sample_of i (rows @ [(first, v)])))" if i: "i < 2" for i
  proof (cases "?j = i")
    case True
    have "int (length (sample_of i rows)) * (2 * N + 4) < 2 ^ 52" using few_limits(1)[OF assms(2)] len(1)[of i] N(1) by (simp add: N_def)
    moreover have "ranks2 (map snd rows) (sample_of i rows) \<le> int (length (sample_of i rows)) * (2 * N + 1)"
      using ranks2_bounds(2)[of "map snd rows" "sample_of i rows"] by (simp add: N_def)
    ultimately have "ranks2 (map snd rows) (sample_of i rows) + eq_count (sample_of i rows) v + (2 * (N + 1) - T) < 2 ^ 53"
      using len(2)[of i] N by (simp add: algebra_simps)
    then have "halves (f64_add (at2 i (rankSum s)) r) (ranks2 (map snd rows) (sample_of i rows) + eq_count (sample_of i rows) v + (2 * (N + 1) - T))"
      using halves_add[OF old(3)[OF i] r] ranks2_bounds(1)[of "map snd rows" "sample_of i rows"] eq_count_bounds(1)[of "sample_of i rows" v] N by simp
    moreover have "ranks2 (map snd rows @ [v]) (sample_of i (rows @ [(first, v)])) =
        ranks2 (map snd rows) (sample_of i rows) + eq_count (sample_of i rows) v + (2 * (N + 1) - T)"
      using True unfolding sample_of_snoc[OF i] by (simp only: simp_thms if_True ranks2_snoc sums rank)
    moreover have "at2 i (upd2 ?j (\<lambda>x. f64_add x r) (rankSum s)) = f64_add (at2 i (rankSum s)) r" using True by auto
    ultimately show ?thesis by simp
  next
    case False
    then show ?thesis using old(3)[OF i] i sums[of i] by (auto simp: sample_of_snoc less_2_cases_iff)
  qed
  moreover have "halves (at2 i (upd2 ?j (\<lambda>n. f64_add n f64_one) (numTies s))) (2 * eq_count (sample_of i (rows @ [(first, v)])) v)" if "i < 2" for i
    using halves_add[OF old(2)[OF that] halves_constants(2)] old(2)[OF that] len(2)[of i] eq_count_bounds(1)[of "sample_of i rows" v] N that
    by (auto simp: sample_of_snoc less_2_cases_iff algebra_simps eq_count_def)
  moreover have "add_rank ?j s = s1\<lparr>rankSum := upd2 ?j (\<lambda>x. f64_add x r) (rankSum s), numTies := upd2 ?j (\<lambda>n. f64_add n f64_one) (numTies s)\<rparr>"
    unfolding add_rank_def Let_def s1_def r_def by simp
  ultimately show ?thesis using num1 unfolding ranks_ok_def by (simp del: at2_simps)
qed

section \<open>The Mann-Whitney test\<close>

text \<open>Rows with the values of the doubles.\<close>

definition row_vals :: "(bool \<times> float8) list \<Rightarrow> (bool \<times> real) list" where
  "row_vals rows = map (\<lambda>(first, v). (first, f64_val v)) rows"

lemma row_vals_simps [simp]:
  "length (row_vals rows) = length rows" "map snd (row_vals rows) = map (\<lambda>r. f64_val (snd r)) rows"
  "row_vals (rows @ [(first, v)]) = row_vals rows @ [(first, f64_val v)]" "row_vals [] = []"
  by (auto simp: row_vals_def)

text \<open>Finite numbers in ascending order, where the only numbers that are almost equal are equal.\<close>

definition ordered_values :: "float8 list \<Rightarrow> bool" where
  "ordered_values vs \<longleftrightarrow> (\<forall>v\<in>set vs. f64_finite v) \<and> sorted (map f64_val vs) \<and>
     (\<forall>v\<in>set vs. \<forall>w\<in>set vs. almostEqual v w 2 \<longleftrightarrow> f64_val v = f64_val w)"

lemma ordered_values_snoc:
  assumes "ordered_values (vs @ [v])"
  shows "ordered_values vs" "f64_finite v" "\<forall>w\<in>set vs. f64_val w \<le> f64_val v \<and> f64_finite w \<and> (almostEqual w v 2 \<longleftrightarrow> f64_val w = f64_val v)"
  using assms by (auto simp: ordered_values_def sorted_append)

definition mw_ok :: "(bool \<times> float8) list \<Rightarrow> mw_state \<Rightarrow> bool" where
  "mw_ok rows s \<longleftrightarrow> ranks_ok (row_vals rows) (f64_val (mw_last s)) s \<and> (rows \<noteq> [] \<longrightarrow> mw_last s = snd (last rows))"

lemma eq_count_above: "\<forall>w\<in>set vs. w < v \<Longrightarrow> eq_count vs v = 0"
  by (auto simp: eq_count_def count_list_0_iff)

lemma ranks_ok_Nil: "ranks_ok [] v s = ranks_ok [] w s" "ranks_ok [] v s = ranks_shifted [] w s"
  by (simp_all add: ranks_ok_def ranks_shifted_def sample_of_def eq_count_def)

lemma ranks_reset:
  assumes "ranks_ok rows u s" "\<forall>w\<in>set (map snd rows). w < v"
  shows "ranks_shifted rows v (s\<lparr>numTies := (f64_zero, f64_zero)\<rparr>)"
proof -
  have "eq_count (sample_of i rows) v = 0" for i using assms(2) by (intro eq_count_above) (auto simp: sample_of_def)
  then show ?thesis using assms(1) by (simp add: ranks_shifted_def ranks_ok_def less_two)
qed

lemma mw_step_ok:
  assumes "mw_ok rows s" "ordered_values (map snd rows @ [v])" "few_rows (length rows)"
  shows "\<exists>s'. mw_step first v s = Inr s' \<and> mw_ok (rows @ [(first, v)]) s'"
proof -
  note v = ordered_values_snoc[OF assms(2)]
  have le: "\<forall>w\<in>set (map snd (row_vals rows)). w \<le> f64_val v" using v(3) by auto
  define s1 where "s1 = (if almostEqual (mw_last s) v 2 then shift_ranks s
    else if f64_lt (mw_last s) v then s\<lparr>numTies := (f64_zero, f64_zero)\<rparr> else s)"
  have nonempty: "mw_last s \<in> set (map snd rows)" "\<forall>w\<in>set (map snd rows). f64_val w \<le> f64_val (mw_last s)" if "rows \<noteq> []"
  proof -
    have last: "mw_last s = last (map snd rows)" using assms(1) that by (simp add: mw_ok_def last_map)
    then show "mw_last s \<in> set (map snd rows)" using that last_in_set[of "map snd rows"] by simp
    have "map snd rows = butlast (map snd rows) @ [mw_last s]" using that last by simp
    then have "ordered_values (butlast (map snd rows) @ [mw_last s])" using v(1) by (simp only:)
    moreover have "set (map snd rows) = insert (mw_last s) (set (butlast (map snd rows)))"
      by (subst \<open>map snd rows = butlast (map snd rows) @ [mw_last s]\<close>) simp
    ultimately show "\<forall>w\<in>set (map snd rows). f64_val w \<le> f64_val (mw_last s)" by (auto dest: ordered_values_snoc(3))
  qed
  have ok: "ranks_ok (row_vals rows) (f64_val (mw_last s)) s" using assms(1) by (simp add: mw_ok_def)
  have step: "mw_step first v s = Inr ((add_rank (if first then 0 else 1) s1)\<lparr>mw_last := v\<rparr>) \<and> ranks_shifted (row_vals rows) (f64_val v) s1"
  proof (cases "rows = []")
    case True
    then have "\<not> f64_lt f64_zero (sum2 (num s))"
      using ok halves_add[of "at2 0 (num s)" 0 "at2 1 (num s)" 0] halves_order(1)[OF halves_constants(1)]
      by (auto simp: ranks_ok_def less_two sample_of_def)
    moreover have "ranks_shifted (row_vals rows) (f64_val v) s1"
    proof -
      have "ranks_ok [] (f64_val v) s" using ok True ranks_ok_Nil(1) by fastforce
      then have "ranks_shifted [] (f64_val v) s" "ranks_shifted [] (f64_val v) (shift_ranks s)"
        "ranks_shifted [] (f64_val v) (s\<lparr>numTies := (f64_zero, f64_zero)\<rparr>)"
        using ranks_ok_Nil(2) shift_ranks_ok[of "[]" _ s] ranks_reset[of "[]" _ s] by (blast, simp add: few_rows_def, simp)
      then show ?thesis using True by (simp add: s1_def)
    qed
    ultimately show ?thesis unfolding mw_step_def s1_def by auto
  next
    case False
    note last = nonempty[OF False]
    then have fin: "f64_finite (mw_last s)" "f64_val (mw_last s) \<le> f64_val v" "almostEqual (mw_last s) v 2 \<longleftrightarrow> f64_val (mw_last s) = f64_val v"
      using v(3) by auto
    show ?thesis
    proof (cases "f64_val (mw_last s) = f64_val v")
      case True
      then show ?thesis using ok shift_ranks_ok[OF ok] assms(3) fin(3) by (simp add: mw_step_def s1_def)
    next
      case diff: False
      then have "f64_lt (mw_last s) v" using f64_order_val(2)[OF fin(1) v(2)] fin(2) by simp
      moreover have "\<forall>w\<in>set (map snd (row_vals rows)). w < f64_val v" using last(2) diff fin(2) by fastforce
      ultimately show ?thesis using ranks_reset[OF ok] fin(3) diff by (simp add: mw_step_def s1_def)
    qed
  qed
  from add_rank_ok[OF conjunct2[OF step], of first] le assms(3)
  have "ranks_ok (row_vals rows @ [(first, f64_val v)]) (f64_val v) (add_rank (if first then 0 else 1) s1)" by simp
  then have "mw_ok (rows @ [(first, v)]) ((add_rank (if first then 0 else 1) s1)\<lparr>mw_last := v\<rparr>)"
    by (simp add: mw_ok_def ranks_ok_def)
  then show ?thesis using step by blast
qed

lemma bind_fields_ok: "\<forall>i\<in>set is. i < length a \<Longrightarrow> bind_fields a is = Inr ()"
  by (induction "is") (simp_all add: bind_fields_def handle_at_def)

lemma mw_load_store: "mw_load (mw_store s) = Inr s"
  by (cases "num s"; cases "numTies s"; cases "rankSum s") (simp add: mw_load_def bind_fields_ok mw_store_def)

definition mw_zero :: mw_state where
  "mw_zero = \<lparr>num = (f64_zero, f64_zero), numTies = (f64_zero, f64_zero), rankSum = (f64_zero, f64_zero), mw_last = f64_zero\<rparr>"

lemma mw_zero_store: "mw_store mw_zero = replicate 7 f64_zero"
  by (simp add: mw_store_def mw_zero_def numeral_eq_Suc)

lemma mw_zero_ok: "mw_ok [] mw_zero"
  by (simp add: mw_ok_def mw_zero_def ranks_ok_def less_two sample_of_def eq_count_def ranks2_def)

lemma few_rows_mono: "few_rows n \<Longrightarrow> m \<le> n \<Longrightarrow> few_rows m"
  by (simp add: few_rows_def)

lemma mw_rows:
  assumes "ordered_values (map snd rows)" "few_rows (length rows)"
  shows "\<exists>s. foldM (\<lambda>(first, v) a. mw_test_transition a first v) rows (replicate 7 f64_zero) = Inr (mw_store s) \<and> mw_ok rows s"
  using assms
proof (induction rows rule: rev_induct)
  case Nil
  then show ?case using mw_zero_store mw_zero_ok by (intro exI[of _ mw_zero]) simp
next
  case (snoc row rows)
  obtain first v where row: "row = (first, v)" by fastforce
  have vals: "ordered_values (map snd rows @ [v])" and few: "few_rows (length rows)"
    using snoc.prems few_rows_mono by (auto simp: row)
  then obtain s where s: "foldM (\<lambda>(first, v) a. mw_test_transition a first v) rows (replicate 7 f64_zero) = Inr (mw_store s)" "mw_ok rows s"
    using snoc.IH ordered_values_snoc(1) by blast
  obtain s' where s': "mw_step first v s = Inr s'" "mw_ok (rows @ [(first, v)]) s'" using mw_step_ok[OF s(2) vals few] by blast
  have "drop 7 (mw_store s) = []" by (simp add: mw_store_def)
  then have "mw_test_transition (mw_store s) first v = Inr (mw_store s')" using s'(1) by (simp add: mw_test_transition_def mw_load_store)
  then show ?case using s(1) s'(2) by (intro exI[of _ s']) (simp add: foldM_append row)
qed

text \<open>The sum of the ranks within one sample, and the statistic of two samples.\<close>

lemma ranks2_Cons: "ranks2 (a # vs) ws = ranks2 vs ws + sum_list (map (\<lambda>w. if a < w then 2 else if a = w then 1 else 0) ws)"
  by (induction ws) (simp_all add: ranks2_def below2_def)

lemma ranks2_own: "ranks2 vs vs = int (length vs) * (int (length vs) + 1)"
proof (induction vs)
  case (Cons a vs)
  have "sum_list (map (\<lambda>w. if a < w then 2 else if a = w then 1 else 0) vs) + below2 vs a = 2 * int (length vs)"
    by (induction vs) (auto simp: below2_def)
  moreover have "ranks2 (a # vs) (a # vs) = ranks2 vs vs + sum_list (map (\<lambda>w. if a < w then 2 else if a = w then 1 else 0) vs) + (below2 vs a + 2)"
    unfolding ranks2_Cons by (simp add: ranks2_def)
  ultimately show ?case using Cons by (simp add: algebra_simps)
qed (simp add: ranks2_def)

lemma below2_samples: "below2 (map snd rows) v = below2 (sample_of 0 rows) v + below2 (sample_of 1 rows) v"
  by (induction rows) (auto simp: below2_def sample_of_def)

text \<open>Twice the number of pairs of a value of \<open>xs\<close> below a value of \<open>ys\<close>, where equal values count half.\<close>

definition pairs2 :: "real list \<Rightarrow> real list \<Rightarrow> int" where
  "pairs2 xs ys = sum_list (map (below2 xs) ys)"

lemma ranks2_pairs: "ranks2 (map snd rows) ws = pairs2 (sample_of 0 rows) ws + ranks2 (sample_of 1 rows) ws"
  by (induction ws) (simp_all add: ranks2_def pairs2_def below2_samples)

lemma pairs2_Cons: "pairs2 (a # xs) ys = pairs2 xs ys + sum_list (map (\<lambda>y. if a < y then 2 else if a = y then 1 else 0) ys)"
  by (induction ys) (simp_all add: pairs2_def below2_def)

lemma pairs2_swap: "pairs2 xs ys + pairs2 ys xs = 2 * (int (length xs) * int (length ys))"
proof (induction xs)
  case (Cons a xs)
  have "sum_list (map (\<lambda>y. if a < y then 2 else if a = y then 1 else 0) ys) + below2 ys a = 2 * int (length ys)"
    by (induction ys) (auto simp: below2_def)
  moreover have "pairs2 ys (a # xs) = below2 ys a + pairs2 ys xs" by (simp add: pairs2_def)
  ultimately show ?case using Cons unfolding pairs2_Cons by (simp add: algebra_simps)
qed (simp add: pairs2_def below2_def, induction ys; simp add: below2_def)

lemma mw_U_pairs:
  assumes "ranks_ok rows v s" "few_rows (length rows)"
  shows "halves (at2 0 (mw_U s)) (pairs2 (sample_of 0 rows) (sample_of 1 rows))"
    "halves (at2 1 (mw_U s)) (pairs2 (sample_of 1 rows) (sample_of 0 rows))"
proof -
  define a where "a = int (length (sample_of 0 rows))"
  define b where "b = int (length (sample_of 1 rows))"
  have ab: "0 \<le> a" "0 \<le> b" "a + b < 2 ^ 25"
    using sample_lengths[of rows] assms(2) by (simp_all add: a_def b_def few_rows_def flip: of_nat_add)
  have small: "x * y < 2 ^ 51" if "0 \<le> x" "x \<le> 2 ^ 25" "0 \<le> y" "y \<le> 2 ^ 25" for x y :: int
  proof -
    have "x * y \<le> 2 ^ 25 * 2 ^ 25" using that by (intro mult_mono) simp_all
    then show ?thesis by simp
  qed
  have n: "halves (at2 0 (num s)) (2 * a)" "halves (at2 1 (num s)) (2 * b)"
    "halves (at2 1 (rankSum s)) (pairs2 (sample_of 0 rows) (sample_of 1 rows) + b * (b + 1))"
    using assms(1) by (simp_all add: ranks_ok_def less_two a_def b_def ranks2_pairs ranks2_own)
  have "halves (f64_add (at2 1 (num s)) f64_one) (2 * (b + 1))" using halves_add[OF n(2) halves_constants(2)] ab by simp
  then have "halves (f64_mul (at2 1 (num s)) (f64_add (at2 1 (num s)) f64_one)) (2 * b * (b + 1))"
    using halves_mul(1)[OF n(2), of _ "b + 1"] small[of b "b + 1"] ab by simp
  then have half: "halves (f64_div (f64_mul (at2 1 (num s)) (f64_add (at2 1 (num s)) f64_one)) f64_two) (b * (b + 1))"
    using small[of b "b + 1"] ab by (intro halves_div_two) (simp_all add: mult.assoc)
  have swap: "pairs2 (sample_of 0 rows) (sample_of 1 rows) + pairs2 (sample_of 1 rows) (sample_of 0 rows) = 2 * (a * b)"
    using pairs2_swap by (simp add: a_def b_def)
  have pos: "0 \<le> pairs2 xs ys" for xs ys using below2_bounds(1) by (auto simp: pairs2_def intro!: sum_list_nonneg)
  have ab_small: "2 * (a * b) < 2 ^ 52" using small[of a b] ab by simp
  have U0: "halves (at2 0 (mw_U s)) (pairs2 (sample_of 0 rows) (sample_of 1 rows))"
    using halves_sub[OF n(3) half] pos[of "sample_of 0 rows" "sample_of 1 rows"] pos[of "sample_of 1 rows" "sample_of 0 rows"] swap ab_small
    by (simp add: mw_U_def Let_def)
  have "halves (prod2 (num s)) (2 * a * b)" using halves_mul(1)[OF n(1,2)] ab_small ab by (simp add: mult.assoc)
  then have "halves (f64_sub (prod2 (num s)) (at2 0 (mw_U s))) (2 * a * b - pairs2 (sample_of 0 rows) (sample_of 1 rows))"
    using halves_sub[OF _ U0] pos[of "sample_of 0 rows" "sample_of 1 rows"] pos[of "sample_of 1 rows" "sample_of 0 rows"] swap ab_small
    by (simp add: mult.assoc)
  moreover have "2 * a * b - pairs2 (sample_of 0 rows) (sample_of 1 rows) = pairs2 (sample_of 1 rows) (sample_of 0 rows)" using swap by (simp add: mult.assoc)
  ultimately show "halves (at2 1 (mw_U s)) (pairs2 (sample_of 1 rows) (sample_of 0 rows))" by (simp add: mw_U_def Let_def)
  show "halves (at2 0 (mw_U s)) (pairs2 (sample_of 0 rows) (sample_of 1 rows))" by (rule U0)
qed

lemma minCoeff2_halves: "halves (at2 0 p) k \<Longrightarrow> halves (at2 1 p) l \<Longrightarrow> halves (minCoeff2 p) (min k l)"
  using halves_order(1)[of "at2 1 p" l "at2 0 p" k] by (cases p) (auto simp: min_def)

text \<open>
  What the final functions rely on in the library: its standard normal distribution has a value at every
  finite number.  Infinities and NaNs are not passed on to it.
\<close>

definition standard_normal :: "mathlib \<Rightarrow> bool" where
  "standard_normal lib \<longleftrightarrow> (\<forall>t. f64_finite t \<longrightarrow> (\<exists>p. boost_normal lib f64_zero f64_one t = Inr p))"

lemma normalCDF_returns:
  assumes "standard_normal lib"
  shows "\<exists>p. normalCDF lib t f64_zero f64_one = Inr p"
proof (cases "f64_finite t")
  case True
  then show ?thesis using assms by (simp add: normalCDF_def standard_normal_def)
next
  case False
  have key: "f64_key f64_infinity = f64_inf_bits" "f64_key (f64_neg f64_infinity) = - f64_inf_bits"
    "\<not> f64_is_nan f64_infinity" "\<not> f64_is_nan (f64_neg f64_infinity)"
    by code_simp+
  have "f64_key t = f64_inf_bits \<or> f64_key t = - f64_inf_bits" if "\<not> f64_is_nan t"
    using False that by (auto simp: f64_finite_def f64_is_nan_def f64_key_def)
  then have "f64_is_nan t \<or> f64_eq t f64_infinity \<or> f64_eq t (f64_neg f64_infinity)"
    using key by (auto simp: f64_eq_def)
  then show ?thesis by (auto simp: normalCDF_def)
qed

text \<open>
  C27: The Mann-Whitney aggregate.  For fewer than \<open>2 ^ 25\<close> rows in ascending order of their finite values, of which only
  equal ones are almost equal, the transitions return no error, and the final function returns as the U statistic
  the smaller of the two numbers of pairs in which the value of one sample is below the value of the other
  sample, where pairs of equal values count half.
\<close>

theorem mann_whitney_u:
  assumes "ordered_values (map snd rows)" "length rows < 2 ^ 25" "standard_normal lib"
  shows "\<exists>a z u p1 p2. foldM (\<lambda>(first, v) a. mw_test_transition a first v) rows (replicate 7 f64_zero) = Inr a \<and>
    mw_test_final lib a = Inr (z, u, p1, p2) \<and> f64_finite u \<and>
    f64_val u = of_int (min (pairs2 (sample_of 0 (row_vals rows)) (sample_of 1 (row_vals rows)))
      (pairs2 (sample_of 1 (row_vals rows)) (sample_of 0 (row_vals rows)))) / 2"
proof -
  have few: "few_rows (length rows)" using assms(2) by (simp add: few_rows_def)
  obtain s where s: "foldM (\<lambda>(first, v) a. mw_test_transition a first v) rows (replicate 7 f64_zero) = Inr (mw_store s)" "mw_ok rows s"
    using mw_rows[OF assms(1) few] by blast
  have "halves (minCoeff2 (mw_U s)) (min (pairs2 (sample_of 0 (row_vals rows)) (sample_of 1 (row_vals rows)))
      (pairs2 (sample_of 1 (row_vals rows)) (sample_of 0 (row_vals rows))))"
    using mw_U_pairs[of "row_vals rows" _ s] s(2) few by (intro minCoeff2_halves) (auto simp: mw_ok_def)
  moreover obtain p where "normalCDF lib t f64_zero f64_one = Inr (p t)" for t using normalCDF_returns[OF assms(3)] by metis
  then have "\<exists>z p1 p2. mw_test_final lib (mw_store s) = Inr (z, minCoeff2 (mw_U s), p1, p2)"
    by (simp add: mw_test_final_def mw_load_store Let_def)
  ultimately show ?thesis using s(1) unfolding halves_def by blast
qed

definition half_lib :: mathlib where
  "half_lib = \<lparr>boost_normal = (\<lambda>_ _ _. Inr f64_half), boost_chi_squared = (\<lambda>_ _. Inr f64_half), boost_fisher_f = (\<lambda>_ _ _. Inr f64_half),
     boost_students_t = (\<lambda>_ _. Inr f64_half), libm_exp = (\<lambda>_. f64_half), libm_log = (\<lambda>_. f64_half), libm_atan = (\<lambda>_. f64_half), libm_pow = (\<lambda>_ _. f64_half)\<rparr>"

text \<open>A library whose normal distribution fails, as that of Boost, when an argument is not finite or the deviation not positive.\<close>

definition strict_lib :: mathlib where
  "strict_lib = half_lib\<lparr>boost_normal := (\<lambda>mu sigma t.
     if f64_finite mu \<and> f64_finite sigma \<and> f64_lt f64_zero sigma \<and> f64_finite t then Inr f64_half else Inl (Report ''domain error''))\<rparr>"

lemma strict_lib_normal: "standard_normal strict_lib"
proof -
  have "f64_finite f64_zero" "f64_finite f64_one" "f64_lt f64_zero f64_one" by code_simp+
  then show ?thesis by (simp add: standard_normal_def strict_lib_def)
qed

lemma example_ordered: "ordered_values [f64_one, f64_two, f64_two]"
proof -
  have "almostEqual f64_one f64_one 2" "\<not> almostEqual f64_one f64_two 2" "\<not> almostEqual f64_two f64_one 2" "almostEqual f64_two f64_two 2"
    by code_simp+
  then show ?thesis by (simp add: ordered_values_def)
qed

theorem mann_whitney_u_witness:
  "\<exists>a z u p1 p2. foldM (\<lambda>(first, v) a. mw_test_transition a first v) [(True, f64_one), (False, f64_two), (True, f64_two)] (replicate 7 f64_zero) = Inr a \<and>
    mw_test_final strict_lib a = Inr (z, u, p1, p2) \<and> f64_finite u \<and> f64_val u = 1 / 2"
  using mann_whitney_u[of "[(True, f64_one), (False, f64_two), (True, f64_two)]" strict_lib] example_ordered strict_lib_normal
  by (simp add: row_vals_def sample_of_def pairs2_def below2_def del: foldM.simps)

section \<open>The Wilcoxon test\<close>

lemma num_positive:
  assumes "ranks_ok rows v s" "few_rows (length rows)"
  shows "halves (sum2 (num s)) (2 * int (length rows))" "f64_lt f64_zero (sum2 (num s)) \<longleftrightarrow> rows \<noteq> []"
proof -
  have eq: "2 * int (length (sample_of 0 rows)) + 2 * int (length (sample_of 1 rows)) = 2 * int (length rows)"
    using sample_lengths[of rows] by (simp flip: of_nat_add)
  have "int (length rows) < 2 ^ 25" using assms(2) by (simp add: few_rows_def)
  moreover have "halves (at2 0 (num s)) (2 * int (length (sample_of 0 rows)))" "halves (at2 1 (num s)) (2 * int (length (sample_of 1 rows)))"
    using assms(1) unfolding ranks_ok_def less_two by blast+
  from halves_add[OF this] have "\<bar>2 * int (length rows)\<bar> < 2 ^ 53 \<Longrightarrow> halves (sum2 (num s)) (2 * int (length rows))" unfolding eq at2_simps .
  ultimately show total: "halves (sum2 (num s)) (2 * int (length rows))" by simp
  show "f64_lt f64_zero (sum2 (num s)) \<longleftrightarrow> rows \<noteq> []" using halves_order(1)[OF halves_constants(1) total] by simp
qed

text \<open>
  A step for any of the two decisions about a tie: the state has the ranks of rows in which a tie has the level
  of the last row, and another value has a higher level.
\<close>

lemma wsr_step_level:
  assumes "ranks_ok rows u s" "few_rows (length rows)" "\<forall>w\<in>set (map snd rows). w \<le> u"
    "rows \<noteq> [] \<Longrightarrow> \<not> f64_lt (f64_fabs v) (lastAbs s) \<and> (if f64_le (f64_sub (f64_fabs v) prec) (lastAbsUpperBound s) then u' = u else u < u')"
  shows "\<exists>s'. wsr_step prec v s = Inr s' \<and> ranks_ok (rows @ [(f64_lt f64_zero v, u')]) u' s' \<and> lastAbs s' = f64_fabs v \<and>
    lastAbsUpperBound s' = (if f64_lt (lastAbsUpperBound s) (f64_add (f64_fabs v) prec) then f64_add (f64_fabs v) prec else lastAbsUpperBound s)"
proof -
  define s1 where "s1 = (if rows = [] then s
    else if f64_le (f64_sub (f64_fabs v) prec) (lastAbsUpperBound s) then
      (shift_ranks s)\<lparr>reduceVariance := f64_add (reduceVariance s) (f64_mul (f64_mul 0x3FB0000000000000 (sum2 (numTies s))) (f64_add (sum2 (numTies s)) f64_one))\<rparr>
    else s\<lparr>numTies := (f64_zero, f64_zero)\<rparr>)"
  have same: "lastAbsUpperBound s1 = lastAbsUpperBound s" by (simp add: s1_def shift_ranks_def)
  have var: "ranks_shifted rows u (s\<lparr>reduceVariance := c\<rparr>) = ranks_shifted rows u s" for rows u c and s :: wsr_state
    by (simp add: ranks_shifted_def)
  have shifted: "ranks_shifted rows u' s1 \<and> (\<forall>w\<in>set (map snd rows). w \<le> u')"
  proof (cases "rows = []")
    case True
    then show ?thesis using assms(1) ranks_ok_Nil(2)[of u s u'] by (simp add: s1_def)
  next
    case False
    show ?thesis
    proof (cases "f64_le (f64_sub (f64_fabs v) prec) (lastAbsUpperBound s)")
      case True
      then show ?thesis using False assms(3) assms(4)[OF False] shift_ranks_ok[OF assms(1,2)] by (simp add: s1_def var)
    next
      case no_tie: False
      then have less: "u < u'" using assms(4)[OF False] by simp
      then have "\<forall>w\<in>set (map snd rows). w < u'" using assms(3) by fastforce
      then show ?thesis using False no_tie less ranks_reset[OF assms(1)] by (auto simp: s1_def)
    qed
  qed
  let ?s2 = "(add_rank (if f64_lt f64_zero v then 0 else 1) s1)\<lparr>lastAbs := f64_fabs v\<rparr>"
  define s' where "s' = (if f64_lt (lastAbsUpperBound s) (f64_add (f64_fabs v) prec) then ?s2\<lparr>lastAbsUpperBound := f64_add (f64_fabs v) prec\<rparr> else ?s2)"
  have bound: "lastAbsUpperBound (add_rank i s1) = lastAbsUpperBound s" for i by (simp add: add_rank_def Let_def same)
  have ties: "numTies (shift_ranks s) = numTies s" "reduceVariance (shift_ranks s) = reduceVariance s" by (simp_all add: shift_ranks_def)
  have upd: "(if rows \<noteq> [] then
        if f64_lt (f64_fabs v) (lastAbs s) then Inl (Report ''Must be used as an ordered aggregate'')
        else if f64_le (f64_sub (f64_fabs v) prec) (lastAbsUpperBound s)
          then Inr ((shift_ranks s)\<lparr>reduceVariance := f64_add (reduceVariance (shift_ranks s))
            (f64_mul (f64_mul 0x3FB0000000000000 (sum2 (numTies (shift_ranks s)))) (f64_add (sum2 (numTies (shift_ranks s))) f64_one))\<rparr>)
          else Inr (s\<lparr>numTies := (f64_zero, f64_zero)\<rparr>)
      else Inr s) = Inr s1"
    using assms(4) unfolding s1_def ties by (cases "rows = []") (simp_all del: at2_simps)
  have "wsr_step prec v s = Inr s'"
    unfolding wsr_step_def Let_def num_positive(2)[OF assms(1,2)] upd rbind.simps s'_def by (simp add: bound)
  moreover have "ranks_ok (rows @ [(f64_lt f64_zero v, u')]) u' s'"
    using add_rank_ok[OF conjunct1[OF shifted] assms(2) conjunct2[OF shifted], of "f64_lt f64_zero v"]
    by (simp add: s'_def ranks_ok_def)
  ultimately show ?thesis by (simp add: s'_def bound)
qed

lemma wsr_load_store: "wsr_load (wsr_store s) = Inr s" "drop 9 (wsr_store s) = []"
  by (cases "num s"; cases "numTies s"; cases "rankSum s"; simp add: wsr_load_def bind_fields_ok wsr_store_def)+

definition wsr_zero :: wsr_state where
  "wsr_zero = \<lparr>num = (f64_zero, f64_zero), numTies = (f64_zero, f64_zero), rankSum = (f64_zero, f64_zero),
     lastAbs = f64_zero, lastAbsUpperBound = f64_zero, reduceVariance = f64_zero\<rparr>"

lemma wsr_zero_store: "wsr_store wsr_zero = replicate 9 f64_zero"
  by (simp add: wsr_store_def wsr_zero_def numeral_eq_Suc)

lemma wsr_zero_ok: "ranks_ok [] u wsr_zero"
  by (simp add: wsr_zero_def ranks_ok_def less_two sample_of_def eq_count_def ranks2_def)

lemma wsr_transition_step:
  "\<not> f64_eq v f64_zero \<Longrightarrow> wsr_step (case p of None \<Rightarrow> f64_mul v f64_epsilon | Some p \<Rightarrow> p) v s = Inr s' \<Longrightarrow>
    wsr_test_transition (wsr_store s) v p = Inr (wsr_store s')"
  by (simp add: wsr_test_transition_def wsr_load_store Let_def)

definition abs_rows :: "float8 list \<Rightarrow> (bool \<times> real) list" where
  "abs_rows vs = map (\<lambda>v. (f64_lt f64_zero v, \<bar>f64_val v\<bar>)) vs"

definition wsr_ok :: "float8 list \<Rightarrow> wsr_state \<Rightarrow> bool" where
  "wsr_ok vs s \<longleftrightarrow> ranks_ok (abs_rows vs) (f64_val (lastAbs s)) s \<and> f64_finite (lastAbs s) \<and> f64_finite (lastAbsUpperBound s) \<and>
     f64_val (lastAbsUpperBound s) = f64_val (lastAbs s) \<and> 0 \<le> f64_val (lastAbs s) \<and> (\<forall>v\<in>set vs. \<bar>f64_val v\<bar> \<le> f64_val (lastAbs s)) \<and>
     (if vs = [] then f64_val (lastAbs s) = 0 else \<exists>v\<in>set vs. f64_val (lastAbs s) = \<bar>f64_val v\<bar>)"

lemma wsr_row:
  assumes "wsr_ok vs s" "few_rows (length vs)" "f64_finite v" "f64_val v \<noteq> 0" "\<forall>w\<in>set vs. \<bar>f64_val w\<bar> \<le> \<bar>f64_val v\<bar>"
  shows "\<exists>s'. wsr_test_transition (wsr_store s) v (Some f64_zero) = Inr (wsr_store s') \<and> wsr_ok (vs @ [v]) s'"
proof -
  let ?a = "f64_fabs v"
  have ok: "ranks_ok (abs_rows vs) (f64_val (lastAbs s)) s" "f64_finite (lastAbs s)" "f64_finite (lastAbsUpperBound s)"
    "f64_val (lastAbsUpperBound s) = f64_val (lastAbs s)" "0 \<le> f64_val (lastAbs s)" "\<forall>v\<in>set vs. \<bar>f64_val v\<bar> \<le> f64_val (lastAbs s)"
    "f64_val (lastAbs s) \<le> \<bar>f64_val v\<bar>"
    using assms(1,5) by (auto simp: wsr_ok_def split: if_splits)
  have fin: "f64_finite ?a" using assms(3) by simp
  have "rounds_to (f64_val ?a) (f64_sub ?a f64_zero)" "rounds_to (f64_val ?a) (f64_add ?a f64_zero)"
    using f64_sub_rounds[OF fin, of f64_zero] f64_add_rounds[OF fin, of f64_zero] by simp_all
  note sub = rounds_to_self[OF this(1) fin] and add = rounds_to_self[OF this(2) fin]
  have level: "\<not> f64_lt ?a (lastAbs s) \<and>
      (if f64_le (f64_sub ?a f64_zero) (lastAbsUpperBound s) then \<bar>f64_val v\<bar> = f64_val (lastAbs s) else f64_val (lastAbs s) < \<bar>f64_val v\<bar>)"
    if "abs_rows vs \<noteq> []"
    using ok(4) ok(7) that f64_order_val(1)[OF sub(1) ok(3)] f64_order_val(2)[OF fin ok(2)] sub(2) by (auto simp: abs_rows_def)
  have below: "\<forall>w\<in>set (map snd (abs_rows vs)). w \<le> f64_val (lastAbs s)" using ok(6) by (simp add: abs_rows_def)
  have few: "few_rows (length (abs_rows vs))" using assms(2) by (simp add: abs_rows_def)
  from wsr_step_level[OF ok(1) few below level] obtain s' where
    s': "wsr_step f64_zero v s = Inr s'" "ranks_ok (abs_rows vs @ [(f64_lt f64_zero v, \<bar>f64_val v\<bar>)]) \<bar>f64_val v\<bar> s'" "lastAbs s' = ?a"
    "lastAbsUpperBound s' = (if f64_lt (lastAbsUpperBound s) (f64_add ?a f64_zero) then f64_add ?a f64_zero else lastAbsUpperBound s)"
    by blast
  have bound: "f64_finite (lastAbsUpperBound s') \<and> f64_val (lastAbsUpperBound s') = \<bar>f64_val v\<bar>"
    using s'(4) add ok(3,4,7) f64_order_val(2)[OF ok(3) add(1)] by auto
  have nz: "\<not> f64_eq v f64_zero" using f64_order_val(3)[OF assms(3), of f64_zero] assms(4) by simp
  have "wsr_ok (vs @ [v]) s'" using s'(2,3) bound assms(3,5) by (auto simp: wsr_ok_def abs_rows_def)
  then show ?thesis using wsr_transition_step[OF nz, of "Some f64_zero"] s'(1) by auto
qed

text \<open>Values that are zero leave the state as it is.\<close>

abbreviation not_zero :: "float8 \<Rightarrow> bool" where "not_zero v \<equiv> f64_val v \<noteq> 0"

lemma wsr_zero_value:
  assumes "f64_finite v" "\<not> not_zero v"
  shows "wsr_test_transition (wsr_store s) v prec = Inr (wsr_store s)"
proof -
  have "f64_eq v f64_zero" using f64_order_val(3)[OF assms(1), of f64_zero] assms(2) by simp
  then show ?thesis by (simp add: wsr_test_transition_def wsr_load_store)
qed

lemma wsr_rows:
  assumes "\<forall>v\<in>set vs. f64_finite v" "sorted (map (\<lambda>v. \<bar>f64_val v\<bar>) (filter not_zero vs))" "few_rows (length vs)"
  shows "\<exists>s. foldM (\<lambda>v a. wsr_test_transition a v (Some f64_zero)) vs (replicate 9 f64_zero) = Inr (wsr_store s) \<and>
    wsr_ok (filter not_zero vs) s"
  using assms
proof (induction vs rule: rev_induct)
  case Nil
  have "wsr_ok [] wsr_zero" using wsr_zero_ok by (simp add: wsr_ok_def abs_rows_def) (simp add: wsr_zero_def)
  then show ?case using wsr_zero_store by (intro exI[of _ wsr_zero]) simp
next
  case (snoc v vs)
  have few: "few_rows (length vs)" using snoc.prems(3) few_rows_mono by auto
  then have few': "few_rows (length (filter not_zero vs))" using few_rows_mono length_filter_le by blast
  obtain s where s: "foldM (\<lambda>v a. wsr_test_transition a v (Some f64_zero)) vs (replicate 9 f64_zero) = Inr (wsr_store s)"
    "wsr_ok (filter not_zero vs) s"
    using snoc.IH snoc.prems few by (auto simp: sorted_append split: if_splits)
  show ?case
  proof (cases "not_zero v")
    case True
    have "\<forall>w\<in>set (filter not_zero vs). \<bar>f64_val w\<bar> \<le> \<bar>f64_val v\<bar>" using snoc.prems(2) True by (auto simp: sorted_append)
    then obtain s' where "wsr_test_transition (wsr_store s) v (Some f64_zero) = Inr (wsr_store s')" "wsr_ok (filter not_zero vs @ [v]) s'"
      using wsr_row[OF s(2) few', of v] snoc.prems(1) True by auto
    then show ?thesis using s(1) True by (intro exI[of _ s']) (simp add: foldM_append)
  next
    case False
    then show ?thesis using s wsr_zero_value[of v s] snoc.prems(1) by (intro exI[of _ s]) (simp add: foldM_append)
  qed
qed

text \<open>
  C28: the Wilcoxon aggregate with the explicit precision 0.  For fewer than \<open>2 ^ 25\<close> finite values, those that are not zero
  in ascending order of their absolute values, the transitions return no error, and the final function returns the number
  of values that are not zero, the sums of the ranks of the positive and of the negative values among their absolute
  values, where equal absolute values have the mean of their ranks, and the smaller of the two sums as the statistic.
  (With the default precision, a multiple of the signed value, the ranks of ties can be different; \<open>wilcoxon_default_precision\<close>.)
\<close>

theorem wilcoxon_rank_sums:
  assumes "\<forall>v\<in>set vs. f64_finite v" "length vs < 2 ^ 25" "standard_normal lib"
  defines "nz \<equiv> filter (\<lambda>v. f64_val v \<noteq> 0) vs"
  assumes "sorted (map (\<lambda>v. \<bar>f64_val v\<bar>) nz)"
  shows "\<exists>a st pos neg z p1 p2. foldM (\<lambda>v a. wsr_test_transition a v (Some f64_zero)) vs (replicate 9 f64_zero) = Inr a \<and>
    wsr_test_final lib a = Inr (st, pos, neg, Some (int (length nz)), z, p1, p2) \<and>
    f64_val pos = of_int (ranks2 (map (\<lambda>v. \<bar>f64_val v\<bar>) nz) (sample_of 0 (abs_rows nz))) / 2 \<and>
    f64_val neg = of_int (ranks2 (map (\<lambda>v. \<bar>f64_val v\<bar>) nz) (sample_of 1 (abs_rows nz))) / 2 \<and>
    f64_val st = min (f64_val pos) (f64_val neg)"
proof -
  have few: "few_rows (length vs)" using assms(2) by (simp add: few_rows_def)
  have few': "few_rows (length nz)" unfolding nz_def using few few_rows_mono length_filter_le by blast
  obtain s where s: "foldM (\<lambda>v a. wsr_test_transition a v (Some f64_zero)) vs (replicate 9 f64_zero) = Inr (wsr_store s)" "wsr_ok nz s"
    using wsr_rows[OF assms(1) _ few] assms(5) unfolding nz_def by blast
  have ok: "ranks_ok (abs_rows nz) (f64_val (lastAbs s)) s" and len: "length (abs_rows nz) = length nz"
    and vals: "map snd (abs_rows nz) = map (\<lambda>v. \<bar>f64_val v\<bar>) nz" using s(2) by (simp_all add: wsr_ok_def abs_rows_def comp_def)
  define P where "P = ranks2 (map (\<lambda>v. \<bar>f64_val v\<bar>) nz) (sample_of 0 (abs_rows nz))"
  define N where "N = ranks2 (map (\<lambda>v. \<bar>f64_val v\<bar>) nz) (sample_of 1 (abs_rows nz))"
  have sums: "halves (at2 0 (rankSum s)) P" "halves (at2 1 (rankSum s)) N" using ok by (simp_all add: ranks_ok_def less_two P_def N_def vals)
  have st: "halves (minCoeff2 (rankSum s)) (min P N)" by (rule minCoeff2_halves[OF sums])
  have n: "halves (sum2 (num s)) (2 * int (length nz))" using num_positive(1)[OF ok] few' len by simp
  then have "f64_trunc (sum2 (num s)) = Some (int (length nz))" using f64_trunc_floor by (simp add: halves_def)
  moreover obtain p where "normalCDF lib t f64_zero f64_one = Inr (p t)" for t using normalCDF_returns[OF assms(3)] by metis
  ultimately have "\<exists>z p1 p2. wsr_test_final lib (wsr_store s) =
      Inr (minCoeff2 (rankSum s), at2 0 (rankSum s), at2 1 (rankSum s), Some (int (length nz)), z, p1, p2)"
    by (simp add: wsr_test_final_def wsr_load_store Let_def)
  then show ?thesis using s(1) sums st unfolding halves_def P_def[symmetric] N_def[symmetric] by (auto simp: min_def intro!: exI)
qed

theorem wilcoxon_rank_sums_witness:
  "\<exists>a st pos neg z p1 p2. foldM (\<lambda>v a. wsr_test_transition a v (Some f64_zero)) [f64_one, f64_zero, f64_neg f64_one, f64_two] (replicate 9 f64_zero) = Inr a \<and>
    wsr_test_final strict_lib a = Inr (st, pos, neg, Some 3, z, p1, p2) \<and> f64_val pos = 9 / 2 \<and> f64_val neg = 3 / 2 \<and>
    f64_val st = min (f64_val pos) (f64_val neg)"
proof -
  have "f64_lt f64_zero f64_one" "\<not> f64_lt f64_zero (f64_neg f64_one)" "f64_lt f64_zero f64_two" by (simp_all add: f64_order_val)
  then show ?thesis
    using wilcoxon_rank_sums[of "[f64_one, f64_zero, f64_neg f64_one, f64_two]" strict_lib] strict_lib_normal
    by (simp add: abs_rows_def sample_of_def ranks2_def below2_def del: foldM.simps)
qed

text \<open>The default precision is the value times the machine epsilon, which is negative for a negative value.\<close>

definition minus_one :: float8 where "minus_one = f64_neg f64_one"

lemma default_precision:
  "f64_fabs minus_one = f64_one" "f64_fabs f64_one = f64_one" "\<not> f64_lt f64_one f64_one" "\<not> f64_lt f64_zero minus_one" "f64_lt f64_zero f64_one"
  "\<not> f64_eq minus_one f64_zero" "\<not> f64_eq f64_one f64_zero"
  "f64_add f64_one (f64_mul minus_one f64_epsilon) = 0x3FEFFFFFFFFFFFFE" "f64_sub f64_one (f64_mul minus_one f64_epsilon) = 0x3FF0000000000001"
  "f64_add f64_one (f64_mul f64_one f64_epsilon) = 0x3FF0000000000001" "f64_sub f64_one (f64_mul f64_one f64_epsilon) = 0x3FEFFFFFFFFFFFFE"
  "f64_lt f64_zero 0x3FEFFFFFFFFFFFFE" "f64_lt f64_zero 0x3FF0000000000001" "f64_lt 0x3FEFFFFFFFFFFFFE 0x3FF0000000000001"
  "\<not> f64_lt 0x3FF0000000000001 0x3FEFFFFFFFFFFFFE" "\<not> f64_lt 0x3FEFFFFFFFFFFFFE 0x3FEFFFFFFFFFFFFE" "\<not> f64_lt 0x3FF0000000000001 0x3FF0000000000001"
  "f64_le 0x3FEFFFFFFFFFFFFE 0x3FEFFFFFFFFFFFFE" "f64_le 0x3FF0000000000001 0x3FF0000000000001" "\<not> f64_le 0x3FF0000000000001 0x3FEFFFFFFFFFFFFE"
  by code_simp+

lemma three_rows:
  assumes "wsr_step (f64_mul v1 f64_epsilon) v1 wsr_zero = Inr s1" "wsr_step (f64_mul v2 f64_epsilon) v2 s1 = Inr s2"
    "wsr_step (f64_mul v3 f64_epsilon) v3 s2 = Inr s3" "\<not> f64_eq v1 f64_zero" "\<not> f64_eq v2 f64_zero" "\<not> f64_eq v3 f64_zero"
  shows "foldM (\<lambda>v a. wsr_test_transition a v None) [v1, v2, v3] (replicate 9 f64_zero) = Inr (wsr_store s3)"
  unfolding wsr_zero_store[symmetric]
  using wsr_transition_step[OF assms(4), of None] wsr_transition_step[OF assms(5), of None] wsr_transition_step[OF assms(6), of None] assms(1-3)
  by (simp del: replicate.simps)

text \<open>
  Without a precision argument the result of the Wilcoxon aggregate depends on the order of values with the
  same absolute value, although each of these orders is accepted: two equal negative values are not taken for a
  tie, so that -1, -1, 1 has the rank sum 2.5 for the positive value and 1, -1, -1 the correct sum 2.
\<close>

theorem wilcoxon_default_precision:
  "\<exists>a b. foldM (\<lambda>v a. wsr_test_transition a v None) [minus_one, minus_one, f64_one] (replicate 9 f64_zero) = Inr a \<and>
    foldM (\<lambda>v a. wsr_test_transition a v None) [f64_one, minus_one, minus_one] (replicate 9 f64_zero) = Inr b \<and>
    f64_val (a ! 4) = 5 / 2 \<and> f64_val (b ! 4) = 2"
proof -
  note c = default_precision
  have bound0: "lastAbsUpperBound wsr_zero = f64_zero" by (simp add: wsr_zero_def)
  have few: "few_rows n" if "n < 3" for n using that by (simp add: few_rows_def)
  obtain s1 where s1: "wsr_step (f64_mul minus_one f64_epsilon) minus_one wsr_zero = Inr s1" "ranks_ok [(False, 1)] 1 s1"
    "lastAbs s1 = f64_one" "lastAbsUpperBound s1 = 0x3FEFFFFFFFFFFFFE"
    using wsr_step_level[OF wsr_zero_ok[of 0], of minus_one "f64_mul minus_one f64_epsilon" 1] few c bound0 by auto
  obtain s2 where s2: "wsr_step (f64_mul minus_one f64_epsilon) minus_one s1 = Inr s2" "ranks_ok [(False, 1), (False, 2)] 2 s2"
    "lastAbs s2 = f64_one" "lastAbsUpperBound s2 = 0x3FEFFFFFFFFFFFFE"
    using wsr_step_level[OF s1(2), of minus_one "f64_mul minus_one f64_epsilon" 2] few c s1(3,4) by auto
  obtain s3 where s3: "wsr_step (f64_mul f64_one f64_epsilon) f64_one s2 = Inr s3" "ranks_ok [(False, 1), (False, 2), (True, 2)] 2 s3"
    using wsr_step_level[OF s2(2), of f64_one "f64_mul f64_one f64_epsilon" 2] few c s2(3,4) by auto
  obtain t1 where t1: "wsr_step (f64_mul f64_one f64_epsilon) f64_one wsr_zero = Inr t1" "ranks_ok [(True, 1)] 1 t1"
    "lastAbs t1 = f64_one" "lastAbsUpperBound t1 = 0x3FF0000000000001"
    using wsr_step_level[OF wsr_zero_ok[of 0], of f64_one "f64_mul f64_one f64_epsilon" 1] few c bound0 by auto
  obtain t2 where t2: "wsr_step (f64_mul minus_one f64_epsilon) minus_one t1 = Inr t2" "ranks_ok [(True, 1), (False, 1)] 1 t2"
    "lastAbs t2 = f64_one" "lastAbsUpperBound t2 = 0x3FF0000000000001"
    using wsr_step_level[OF t1(2), of minus_one "f64_mul minus_one f64_epsilon" 1] few c t1(3,4) by auto
  obtain t3 where t3: "wsr_step (f64_mul minus_one f64_epsilon) minus_one t2 = Inr t3" "ranks_ok [(True, 1), (False, 1), (False, 1)] 1 t3"
    using wsr_step_level[OF t2(2), of minus_one "f64_mul minus_one f64_epsilon" 1] few c t2(3,4) by auto
  have "f64_val (wsr_store s3 ! 4) = 5 / 2" "f64_val (wsr_store t3 ! 4) = 2"
    using s3(2) t3(2) by (simp_all add: ranks_ok_def less_two wsr_store_def halves_def ranks2_def below2_def sample_of_def)
  then show ?thesis using three_rows[OF s1(1) s2(1) s3(1) c(6,6,7)] three_rows[OF t1(1) t2(1) t3(1) c(7,6,6)] by blast
qed

section \<open>The Kolmogorov-Smirnov test\<close>

lemma ks_load_store: "ks_load (ks_store s) = Inr s" "drop 6 (ks_store s) = []"
  by (cases "ks_num s"; cases "expectedNum s"; simp add: ks_load_def bind_fields_ok ks_store_def)+

lemma of_int_one: "f64_of_int 1 = f64_one"
  by code_simp

text \<open>The difference of the two empirical distributions after a row, for samples of one value.\<close>

lemma one_quotient:
  assumes "f64_finite n" "f64_val n = 0 \<or> f64_val n = 1"
  shows "f64_finite (f64_div n f64_one) \<and> f64_val (f64_div n f64_one) = f64_val n"
  using rounds_to_value[OF f64_div_rounds[OF assms(1), of f64_one] assms(1)] by simp

lemma one_difference:
  assumes "f64_finite m" "f64_val m = 1" "f64_finite n" "f64_val n = 0 \<or> f64_val n = 1"
  shows "f64_finite (f64_fabs (f64_sub (f64_div m f64_one) (f64_div n f64_one))) \<and>
    f64_val (f64_fabs (f64_sub (f64_div m f64_one) (f64_div n f64_one))) = 1 - f64_val n"
proof -
  note q = one_quotient[OF assms(1) disjI2[OF assms(2)]] one_quotient[OF assms(3,4)]
  have "rounds_to (f64_val (f64_div m f64_one) - f64_val (f64_div n f64_one)) (f64_sub (f64_div m f64_one) (f64_div n f64_one))"
    using q by (intro f64_sub_rounds) simp_all
  then have r: "rounds_to (1 - f64_val n) (f64_sub (f64_div m f64_one) (f64_div n f64_one))" using q assms(2) by simp
  have "f64_finite (f64_sub (f64_div m f64_one) (f64_div n f64_one)) \<and> f64_val (f64_sub (f64_div m f64_one) (f64_div n f64_one)) = 1 - f64_val n"
    using assms(4)
  proof
    assume "f64_val n = 0"
    then show ?thesis using rounds_to_value[OF r, of f64_one] by simp
  next
    assume "f64_val n = 1"
    then show ?thesis using rounds_to_value[OF r, of f64_zero] by simp
  qed
  then show ?thesis using assms(4) by auto
qed

text \<open>
  Equal values of the two samples are not taken together.  For two samples that consist of the same single
  value the Kolmogorov-Smirnov statistic, the largest difference of the two empirical distributions, is 0; the
  aggregate compares the distributions between the two rows and returns 1, the largest possible value.
\<close>

theorem ks_tied_samples:
  assumes "f64_finite x"
  shows "\<exists>a. foldM (\<lambda>(first, v) a. ks_test_transition a first v 1 1) [(True, x), (False, x)] (replicate 6 f64_zero) = Inr a \<and> f64_val (a ! 3) = 1"
proof -
  define n where "n = f64_add f64_zero f64_one"
  have n: "f64_finite n" "f64_val n = 1"
    using rounds_to_value[OF f64_add_rounds[of f64_zero f64_one], of f64_one] by (simp_all add: n_def)
  define zero where "zero = \<lparr>ks_num = (f64_zero, f64_zero), ks_last = f64_zero, maxDiff = f64_zero, expectedNum = (f64_zero, f64_zero)\<rparr>"
  define d where "d = f64_fabs (f64_sub (f64_div n f64_one) (f64_div f64_zero f64_one))"
  have d: "f64_finite d" "f64_val d = 1" using one_difference[OF n, of f64_zero] by (simp_all add: d_def)
  define s1 where "s1 = \<lparr>ks_num = (n, f64_zero), ks_last = x, maxDiff = d, expectedNum = (f64_one, f64_one)\<rparr>"
  have "\<not> f64_eq f64_zero f64_one" "f64_eq f64_one f64_one" by (simp_all add: f64_order_val)
  moreover have "\<not> f64_lt f64_zero (f64_add f64_zero f64_zero)"
    using rounds_to_value[OF f64_add_rounds[of f64_zero f64_zero], of f64_zero] by (simp add: f64_order_val)
  moreover have "f64_lt f64_zero d" using d by (simp add: f64_order_val)
  ultimately have one: "ks_step True x 1 1 zero = Inr s1"
    by (simp add: ks_step_def Let_def of_int_one zero_def s1_def n_def[symmetric] d_def[symmetric])
  define s2 where "s2 = \<lparr>ks_num = (n, n), ks_last = x, maxDiff = d, expectedNum = (f64_one, f64_one)\<rparr>"
  have "\<not> f64_lt d (f64_fabs (f64_sub (f64_div n f64_one) (f64_div n f64_one)))"
    using one_difference[OF n n(1)] n(2) d by (simp add: f64_order_val)
  moreover have "\<not> f64_lt x x" using assms by (simp add: f64_order_val)
  ultimately have two: "ks_step False x 1 1 s1 = Inr s2"
    using \<open>f64_eq f64_one f64_one\<close> by (simp add: ks_step_def Let_def of_int_one s1_def s2_def n_def[symmetric])
  have "replicate 6 f64_zero = ks_store zero" by (simp add: ks_store_def zero_def numeral_eq_Suc)
  then have "foldM (\<lambda>(first, v) a. ks_test_transition a first v 1 1) [(True, x), (False, x)] (replicate 6 f64_zero) = Inr (ks_store s2)"
    using one two by (simp add: ks_test_transition_def ks_load_store)
  moreover have "f64_val (ks_store s2 ! 3) = 1" using d by (simp add: ks_store_def s2_def)
  ultimately show ?thesis by blast
qed

theorem ks_tied_samples_witness:
  "\<exists>a. foldM (\<lambda>(first, v) a. ks_test_transition a first v 1 1) [(True, f64_two), (False, f64_two)] (replicate 6 f64_zero) = Inr a \<and> f64_val (a ! 3) = 1"
  by (rule ks_tied_samples) simp

end
