(* ===== verification/Anova.thy ===== *)
theory Anova
  imports RankTests
begin

text \<open>
  The aggregate of the one-way analysis of variance, \<open>modules/stats/one_way_anova.cpp\<close>, with \<open>nextPowerOfTwo\<close> of
  \<open>utils/Math.hpp\<close>.  Parameters: the sum of the elements of an Eigen vector, and the mathematical library.
\<close>

section \<open>Powers of two\<close>

text \<open>\<open>nextPowerOfTwo\<close> for \<open>uint16_t\<close>: the loop shifts by 1, 2, 4 and 8.\<close>

definition smear :: "nat \<Rightarrow> 16 word \<Rightarrow> 16 word" where
  "smear i v = v OR drop_bit i v"

definition nextPowerOfTwo :: "16 word \<Rightarrow> 16 word" where
  "nextPowerOfTwo v = fold smear [1, 2, 4, 8] (v - 1) + 1"

section \<open>The transition state\<close>

text \<open>
  The groups in ascending order, for each its index, and for each index the number of values, their sum, and
  the sum of their squared deviations.  All vectors have the reserved length; \<open>owa_rest\<close> are
  elements of the array behind them.
\<close>

record owa_state =
  numGroups :: "16 word"
  groupValues :: "float8 list"
  posToIndices :: "float8 list"
  owa_num :: "float8 list"
  owa_sum :: "float8 list"
  corrected_square_sum :: "float8 list"
  owa_rest :: "float8 list"

text \<open>The conversion of a double to an unsigned integer of \<open>w\<close> bits.\<close>

definition f64_to_uint :: "nat \<Rightarrow> float8 \<Rightarrow> int res" where
  "f64_to_uint w x = (case f64_trunc x of
     None \<Rightarrow> Inl Undefined
   | Some n \<Rightarrow> rbind (guard_mem (0 \<le> n \<and> n < 2 ^ w)) (\<lambda>_. Inr n))"

definition arraySize :: "nat \<Rightarrow> nat" where
  "arraySize reserved = 1 + 5 * reserved"

definition slice :: "nat \<Rightarrow> nat \<Rightarrow> float8 list \<Rightarrow> float8 list" where
  "slice start n xs = take n (drop start xs)"

definition owa_rebind :: "float8 list \<Rightarrow> 16 word \<Rightarrow> nat \<Rightarrow> owa_state res" where
  "owa_rebind a n reserved =
     rbind (check (arraySize reserved \<le> length a) ''Out-of-bounds array access detected.'') (\<lambda>_.
     rbind (bind_fields a [0, 1, 1 + reserved, 1 + 2 * reserved, 1 + 3 * reserved, 1 + 4 * reserved]) (\<lambda>_.
       Inr \<lparr>numGroups = n, groupValues = slice 1 reserved a, posToIndices = slice (1 + reserved) reserved a,
            owa_num = slice (1 + 2 * reserved) reserved a, owa_sum = slice (1 + 3 * reserved) reserved a,
            corrected_square_sum = slice (1 + 4 * reserved) reserved a, owa_rest = drop (arraySize reserved) a\<rparr>))"

definition owa_load :: "float8 list \<Rightarrow> owa_state res" where
  "owa_load a =
     rbind (handle_at a 0) (\<lambda>x. rbind (f64_to_uint 16 x) (\<lambda>n.
       let n = word_of_int n in owa_rebind a n (unat (nextPowerOfTwo n))))"

definition owa_store :: "owa_state \<Rightarrow> float8 list" where
  "owa_store s = f64_of_int (uint (numGroups s)) # groupValues s @ posToIndices s @ owa_num s @ owa_sum s @ corrected_square_sum s @ owa_rest s"

section \<open>Groups\<close>

text \<open>\<open>std::lower_bound\<close> on a sorted range: the position of the first element that is not less.\<close>

definition lower_bound :: "float8 list \<Rightarrow> float8 \<Rightarrow> nat" where
  "lower_bound xs v = length (takeWhile (\<lambda>x. f64_lt x v) xs)"

text \<open>
  The first \<open>n\<close> elements move up by one from \<open>pos\<close> on, and \<open>x\<close> is stored there.  The code calls \<open>std::copy\<close> for
  this, whose behaviour for these overlapping ranges is that of \<open>memmove\<close> in the GNU library.
\<close>

definition insert_at :: "nat \<Rightarrow> nat \<Rightarrow> float8 \<Rightarrow> float8 list \<Rightarrow> float8 list" where
  "insert_at pos n x xs = take pos xs @ x # take (n - pos) (drop pos xs) @ drop (n + 1) xs"

text \<open>The copy into an array that is twice as large, or has one element.\<close>

definition owa_grow :: "nat \<Rightarrow> float8 \<Rightarrow> 16 word \<Rightarrow> owa_state \<Rightarrow> owa_state res" where
  "owa_grow pos v reserved s =
     (let reserved = unat (if reserved = 0 then 1 else reserved * 2);
          n = unat (numGroups s);
          grow = (\<lambda>xs. take n xs @ replicate (reserved - n) f64_zero)
      in rbind (owa_rebind (replicate (arraySize reserved) f64_zero) (numGroups s + 1) reserved) (\<lambda>t.
         Inr (t\<lparr>groupValues := insert_at pos n v (grow (groupValues s)),
                posToIndices := insert_at pos n (f64_of_int (int n)) (grow (posToIndices s)),
                owa_num := grow (owa_num s), owa_sum := grow (owa_sum s), corrected_square_sum := grow (corrected_square_sum s)\<rparr>)))"

text \<open>The index of a group in a state that can be changed; a new group is added.\<close>

definition idxOfGroup_mutable :: "16 word \<Rightarrow> owa_state \<Rightarrow> (owa_state \<times> nat) res" where
  "idxOfGroup_mutable inValue s =
     (let v = f64_of_int (uint inValue); n = unat (numGroups s); pos = lower_bound (take n (groupValues s)) v in
      rbind (if n \<le> pos \<or> \<not> f64_eq (groupValues s ! pos) v then
               let reserved = nextPowerOfTwo (numGroups s) in
               if numGroups s < reserved then
                 Inr (s\<lparr>groupValues := insert_at pos n v (groupValues s),
                        posToIndices := insert_at pos n (f64_of_int (int n)) (posToIndices s),
                        numGroups := numGroups s + 1\<rparr>)
               else owa_grow pos v reserved s
             else Inr s) (\<lambda>s.
      rbind (nth_res (posToIndices s) (int pos)) (\<lambda>x. rbind (f64_to_uint 32 x) (\<lambda>idx. Inr (s, nat idx)))))"

text \<open>The one of a state that cannot be changed returns the position.\<close>

definition idxOfGroup_const :: "16 word \<Rightarrow> owa_state \<Rightarrow> nat res" where
  "idxOfGroup_const inValue s =
     (let v = f64_of_int (uint inValue); n = unat (numGroups s); pos = lower_bound (take n (groupValues s)) v in
      rbind (check (\<not> (n \<le> pos \<or> \<not> f64_eq (groupValues s ! pos) v)) ''Could not find a grouping value during one-way ANOVA.'') (\<lambda>_.
        Inr pos))"

section \<open>Sums of squares\<close>

type_synonym moments = "float8 \<times> float8 \<times> float8"

text \<open>\<open>updateCorrectedSumOfSquares\<close>: number of values, sum, and corrected sum of squares.\<close>

fun updateCorrectedSumOfSquares :: "moments \<Rightarrow> moments \<Rightarrow> moments" where
  "updateCorrectedSumOfSquares (leftWeight, leftSum, leftSquares) (rightWeight, rightSum, rightSquares) =
     (if f64_le rightWeight f64_zero then (leftWeight, leftSum, leftSquares)
      else
        let squares = (if f64_le leftWeight f64_zero then rightSquares
              else
                let diff = f64_sub (f64_mul (f64_div rightWeight leftWeight) leftSum) rightSum
                in f64_add leftSquares (f64_add rightSquares
                     (f64_mul (f64_mul (f64_div leftWeight (f64_mul rightWeight (f64_add leftWeight rightWeight))) diff) diff)))
        in (f64_add leftWeight rightWeight, f64_add leftSum rightSum, squares))"

text \<open>An element of an Eigen vector, whose index is checked.\<close>

definition eigen_at :: "float8 list \<Rightarrow> nat \<Rightarrow> float8 res" where
  "eigen_at xs i = rbind (check (i < length xs) ''Internal error. Eigen assertion failed'') (\<lambda>_. Inr (xs ! i))"

definition moments_at :: "nat \<Rightarrow> owa_state \<Rightarrow> moments res" where
  "moments_at idx s =
     rbind (eigen_at (owa_num s) idx) (\<lambda>n. rbind (eigen_at (owa_sum s) idx) (\<lambda>t. rbind (eigen_at (corrected_square_sum s) idx) (\<lambda>c. Inr (n, t, c))))"

definition update_group :: "nat \<Rightarrow> moments \<Rightarrow> owa_state \<Rightarrow> owa_state res" where
  "update_group idx r s =
     rbind (moments_at idx s) (\<lambda>l.
     let (n, t, c) = updateCorrectedSumOfSquares l r
     in Inr (s\<lparr>owa_num := (owa_num s)[idx := n], owa_sum := (owa_sum s)[idx := t],
               corrected_square_sum := (corrected_square_sum s)[idx := c]\<rparr>))"

section \<open>The aggregate\<close>

text \<open>The group, an \<open>int32_t\<close>, is passed as a \<open>uint16_t\<close>.\<close>

definition owa_step :: "int \<Rightarrow> float8 \<Rightarrow> owa_state \<Rightarrow> owa_state res" where
  "owa_step grp val s =
     rbind (idxOfGroup_mutable (word_of_int grp) s) (\<lambda>(s, idx). update_group idx (f64_one, val, f64_zero) s)"

definition one_way_anova_transition :: "float8 list \<Rightarrow> int \<Rightarrow> float8 \<Rightarrow> float8 list res" where
  "one_way_anova_transition a grp val = rbind (owa_load a) (\<lambda>s. rbind (owa_step grp val s) (\<lambda>s. Inr (owa_store s)))"

definition merge_group :: "owa_state \<Rightarrow> nat \<Rightarrow> owa_state \<Rightarrow> owa_state res" where
  "merge_group right posRight left =
     rbind (f64_to_uint 16 (groupValues right ! posRight)) (\<lambda>g.
     rbind (idxOfGroup_const (word_of_int g) right) (\<lambda>idxRight.
     rbind (idxOfGroup_mutable (word_of_int g) left) (\<lambda>(left, idxLeft).
     rbind (moments_at idxRight right) (\<lambda>r. update_group idxLeft r left))))"

definition one_way_anova_merge_states :: "float8 list \<Rightarrow> float8 list \<Rightarrow> float8 list res" where
  "one_way_anova_merge_states a b =
     rbind (owa_load a) (\<lambda>left. rbind (owa_load b) (\<lambda>right.
     rbind (foldM (merge_group right) [0..<unat (numGroups right)] left) (\<lambda>left. Inr (owa_store left))))"

definition sum_squares_between :: "mathlib \<Rightarrow> float8 \<Rightarrow> owa_state \<Rightarrow> float8 res" where
  "sum_squares_between lib grand_mean s =
     foldM (\<lambda>idx ssb. rbind (moments_at idx s) (\<lambda>(n, t, c).
         Inr (f64_add ssb (f64_mul n (libm_pow lib (f64_sub (f64_div t n) grand_mean) f64_two)))))
       [0..<unat (numGroups s)] f64_zero"

record anova_result =
  ssb :: float8
  ssw :: float8
  df_between :: int
  df_within :: int
  msb :: float8
  msw :: float8
  anova_statistic :: float8
  anova_p :: float8

definition one_way_anova_final :: "(float8 list \<Rightarrow> float8) \<Rightarrow> mathlib \<Rightarrow> float8 list \<Rightarrow> anova_result option res" where
  "one_way_anova_final vector_sum lib a =
     rbind (owa_load a) (\<lambda>s.
     if numGroups s = 0 then Inr None
     else
       let grand_mean = f64_div (vector_sum (owa_sum s)) (vector_sum (owa_num s)) in
       rbind (sum_squares_between lib grand_mean s) (\<lambda>between.
       let within = vector_sum (corrected_square_sum s);
           dfb = uint (numGroups s) - 1
       in case f64_trunc (f64_sub (vector_sum (owa_num s)) (f64_of_int (uint (numGroups s)))) of
            None \<Rightarrow> Inl Undefined
          | Some dfw \<Rightarrow>
              let ms_between = f64_div between (f64_of_int dfb);
                  ms_within = f64_div within (f64_of_int dfw);
                  statistic = f64_div ms_between ms_within
              in rbind (fisherF_CDF lib statistic (f64_of_int dfb) (f64_of_int dfw)) (\<lambda>p.
                   Inr (Some \<lparr>ssb = between, ssw = within, df_between = dfb, df_within = dfw, msb = ms_between, msw = ms_within,
                     anova_statistic = statistic, anova_p = f64_sub f64_one p\<rparr>))))"

end
