(* ===== verification/AnovaFacts.thy ===== *)
theory AnovaFacts
  imports Anova RankTestsFacts
begin

text \<open>
  The transition state of the analysis of variance as a map from groups to their moments.
\<close>

section \<open>Powers of two\<close>

lemma bit_smear_window:
  assumes "\<And>i. bit w i \<longleftrightarrow> (\<exists>d<n. bit v (i + d))"
  shows "bit (smear n w) i \<longleftrightarrow> (\<exists>d<n + n. bit v (i + d))"
proof -
  have "(\<exists>d<n + n. bit v (i + d)) \<longleftrightarrow> (\<exists>d<n. bit v (i + d)) \<or> (\<exists>d<n. bit v (i + n + d))"
  proof
    assume "\<exists>d<n + n. bit v (i + d)"
    then obtain d where d: "d < n + n" "bit v (i + d)" by blast
    show "(\<exists>d<n. bit v (i + d)) \<or> (\<exists>d<n. bit v (i + n + d))"
    proof (cases "d < n")
      case False
      then have "d - n < n" "bit v (i + n + (d - n))" using d by simp_all
      then show ?thesis by blast
    qed (use d in blast)
  next
    assume "(\<exists>d<n. bit v (i + d)) \<or> (\<exists>d<n. bit v (i + n + d))"
    then show "\<exists>d<n + n. bit v (i + d)" by (metis add.assoc nat_add_left_cancel_less trans_less_add1)
  qed
  then show ?thesis using assms[of i] assms[of "i + n"] by (simp add: smear_def bit_or_iff bit_drop_bit_eq add.commute)
qed

lemma smear_16: "bit (fold smear [1, 2, 4, 8] v) i \<longleftrightarrow> (\<exists>d<16. bit v (i + d))"
proof -
  have 1: "bit (smear 1 v) j \<longleftrightarrow> (\<exists>d<1 + 1. bit v (j + d))" for j by (rule bit_smear_window) simp
  have 2: "bit (smear 2 (smear 1 v)) j \<longleftrightarrow> (\<exists>d<2 + 2. bit v (j + d))" for j
    by (rule bit_smear_window) (simp only: 1 one_add_one)
  have 4: "bit (smear 4 (smear 2 (smear 1 v))) j \<longleftrightarrow> (\<exists>d<4 + 4. bit v (j + d))" for j
    by (rule bit_smear_window) (simp only: 2 numeral_plus_numeral add_num_simps)
  have "bit (smear 8 (smear 4 (smear 2 (smear 1 v)))) i \<longleftrightarrow> (\<exists>d<8 + 8. bit v (i + d))"
    by (rule bit_smear_window) (simp only: 4 numeral_plus_numeral add_num_simps)
  then show ?thesis by simp
qed

lemma nextPowerOfTwo_range:
  assumes "0 < n" "n \<le> 2 ^ 15"
  shows "\<exists>k. unat (nextPowerOfTwo (of_nat n)) = 2 ^ k \<and> n \<le> 2 ^ k \<and> 2 ^ k < 2 * n"
proof (cases "n = 1")
  case True
  have "fold smear [1, 2, 4, 8] (0 :: 16 word) = 0" by code_simp
  then show ?thesis using True by (intro exI[of _ 0]) (simp add: nextPowerOfTwo_def)
next
  case False
  define k where "k = (LEAST k. n \<le> 2 ^ k)"
  have k: "n \<le> 2 ^ k" unfolding k_def by (rule LeastI[of _ 15]) (rule assms(2))
  have "k \<le> 15" unfolding k_def by (rule Least_le) (rule assms(2))
  have "k \<noteq> 0" using k False assms(1) by (cases k) auto
  then have below: "2 ^ (k - 1) < n" using not_less_Least[of "k - 1" "\<lambda>k. n \<le> 2 ^ k"] by (simp add: k_def[symmetric])
  define v where "v = (of_nat (n - 1) :: 16 word)"
  have "n - 1 < 2 ^ 16" using assms by simp
  then have "unat v = n - 1" unfolding v_def by (intro of_nat_inverse[OF refl]) simp
  moreover have "uint v = int (unat v)" by simp
  ultimately have v: "uint v = int n - 1" using assms(1) by linarith
  have bits: "bit v j \<longleftrightarrow> bit (int n - 1) j" for j using v by (metis bit_uint_iff bit_imp_le_length)
  have top: "bit (int n - 1) (k - 1)" 
  proof -
    have "(int n - 1) div 2 ^ (k - 1) = 1"
    proof (rule int_div_pos_eq[of _ _ _ "int n - 1 - 2 ^ (k - 1)"])
      have "2 ^ k = 2 * (2 :: int) ^ (k - 1)" using \<open>k \<noteq> 0\<close> by (cases k) simp_all
      moreover have "int n \<le> 2 ^ k" using k by (simp only: of_nat_le_iff[symmetric, where 'a = int] of_nat_power) simp
      moreover have "2 ^ (k - 1) < int n" using below by (simp only: of_nat_less_iff[symmetric, where 'a = int] of_nat_power) simp
      ultimately show "0 \<le> int n - 1 - 2 ^ (k - 1)" "int n - 1 - 2 ^ (k - 1) < 2 ^ (k - 1)" by linarith+
    qed simp
    then show ?thesis by (simp add: bit_iff_odd)
  qed
  have high: "\<not> bit (int n - 1) j" if "k \<le> j" for j
  proof -
    have "int n \<le> 2 ^ k" using k by (simp only: of_nat_le_iff[symmetric, where 'a = int] of_nat_power) simp
    also have "\<dots> \<le> 2 ^ j" using that by (rule power_increasing) simp
    finally have "int n - 1 < 2 ^ j" by linarith
    then have "(int n - 1) div 2 ^ j = 0" using assms(1) by (intro div_pos_pos_trivial) simp_all
    then show ?thesis by (simp add: bit_iff_odd)
  qed
  have "fold smear [1, 2, 4, 8] v = mask k"
  proof (rule bit_word_eqI)
    fix i assume "i < LENGTH(16)"
    show "bit (fold smear [1, 2, 4, 8] v) i \<longleftrightarrow> bit (mask k :: 16 word) i"
      unfolding smear_16 bits
    proof
      assume "\<exists>d<16. bit (int n - 1) (i + d)"
      then have "i < k" using high by (metis le_add1 le_trans not_le)
      then show "bit (mask k :: 16 word) i" using \<open>i < LENGTH(16)\<close> by (simp add: bit_mask_iff)
    next
      assume "bit (mask k :: 16 word) i"
      then have "i < k" by (simp add: bit_mask_iff)
      then have "k - 1 - i < 16" "bit (int n - 1) (i + (k - 1 - i))" using top \<open>k \<le> 15\<close> by simp_all
      then show "\<exists>d<16. bit (int n - 1) (i + d)" by blast
    qed
  qed
  moreover have "of_nat n - 1 = v" using assms(1) by (simp add: v_def of_nat_diff)
  ultimately have "nextPowerOfTwo (of_nat n) = 2 ^ k" by (simp add: nextPowerOfTwo_def mask_eq_exp_minus_1)
  moreover have "(2 :: nat) ^ k < 2 ^ 16" using \<open>k \<le> 15\<close> by (intro power_strict_increasing) simp_all
  then have "unat (2 ^ k :: 16 word) = 2 ^ k" by (intro of_nat_inverse[of "2 ^ k"]) simp_all
  moreover have "2 ^ k < 2 * n" using below \<open>k \<noteq> 0\<close> by (cases k) simp_all
  ultimately show ?thesis using k by auto
qed

definition reserved :: "nat \<Rightarrow> nat" where
  "reserved n = unat (nextPowerOfTwo (of_nat n))"

lemma reserved_zero: "reserved 0 = 0"
  unfolding reserved_def by code_simp

lemma power_unique:
  fixes n :: nat
  assumes "n \<le> 2 ^ j" "2 ^ j < 2 * n" "n \<le> 2 ^ k" "2 ^ k < 2 * n"
  shows "j = k"
proof -
  have "\<not> a < b" if "n \<le> 2 ^ a" "2 ^ b < 2 * n" for a b :: nat
  proof
    assume "a < b"
    then have "(2 :: nat) ^ Suc a \<le> 2 ^ b" by (intro power_increasing) simp_all
    then show False using that by simp
  qed
  then show ?thesis using assms by (meson nat_neq_iff)
qed

lemma reserved_ge: "n \<le> 2 ^ 15 \<Longrightarrow> n \<le> reserved n"
  using nextPowerOfTwo_range[of n] by (cases "n = 0") (auto simp: reserved_def)

lemma reserved_Suc:
  assumes "n < 2 ^ 15"
  shows "reserved (Suc n) = (if n < reserved n then reserved n else if n = 0 then 1 else 2 * reserved n)"
proof (cases "n = 0")
  case True
  have "reserved 1 = 1" unfolding reserved_def by code_simp
  then show ?thesis using True by (simp add: reserved_zero)
next
  case False
  obtain k where k: "reserved n = 2 ^ k" "n \<le> 2 ^ k" "2 ^ k < 2 * n" using nextPowerOfTwo_range[of n] assms False by (auto simp: reserved_def)
  obtain j where j: "reserved (Suc n) = 2 ^ j" "Suc n \<le> 2 ^ j" "2 ^ j < 2 * Suc n" using nextPowerOfTwo_range[of "Suc n"] assms by (auto simp: reserved_def)
  show ?thesis
  proof (cases "n < 2 ^ k")
    case True
    then show ?thesis using power_unique[OF j(2,3), of k] k j(1) by simp
  next
    case False
    then have "n = 2 ^ k" using k(2) by simp
    then show ?thesis using power_unique[OF j(2,3), of "Suc k"] k(1) j(1) \<open>n \<noteq> 0\<close> by simp
  qed
qed

section \<open>The state as a map\<close>

definition mv :: "owa_state \<Rightarrow> nat \<Rightarrow> moments" where
  "mv s i = (owa_num s ! i, owa_sum s ! i, corrected_square_sum s ! i)"

definition no_moments :: moments where
  "no_moments = (f64_zero, f64_zero, f64_zero)"

definition has_length :: "nat \<Rightarrow> owa_state \<Rightarrow> bool" where
  "has_length r s \<longleftrightarrow> length (groupValues s) = r \<and> length (posToIndices s) = r \<and> length (owa_num s) = r \<and> length (owa_sum s) = r \<and>
     length (corrected_square_sum s) = r"

definition owa_wf :: "owa_state \<Rightarrow> int list \<Rightarrow> nat list \<Rightarrow> bool" where
  "owa_wf s gs ixs \<longleftrightarrow> numGroups s = of_nat (length gs) \<and> length gs \<le> 2 ^ 15 \<and> sorted_wrt (<) gs \<and> set gs \<subseteq> {0..<2 ^ 16} \<and>
     length ixs = length gs \<and> distinct ixs \<and> set ixs = {..<length gs} \<and> has_length (reserved (length gs)) s \<and>
     take (length gs) (groupValues s) = map f64_of_int gs \<and> take (length gs) (posToIndices s) = map (\<lambda>i. f64_of_int (int i)) ixs \<and>
     (\<forall>i. length gs \<le> i \<and> i < reserved (length gs) \<longrightarrow> mv s i = no_moments) \<and> (gs = [] \<longrightarrow> owa_rest s \<noteq> [])"

definition group_map :: "owa_state \<Rightarrow> int list \<Rightarrow> nat list \<Rightarrow> int \<Rightarrow> moments option" where
  "group_map s gs ixs g = map_option (mv s) (map_of (zip gs ixs) g)"

lemma small_order:
  assumes "\<bar>a\<bar> < 2 ^ 53" "\<bar>b\<bar> < 2 ^ 53"
  shows "f64_lt (f64_of_int a) (f64_of_int b) \<longleftrightarrow> a < b" "f64_eq (f64_of_int a) (f64_of_int b) \<longleftrightarrow> a = b"
  using f64_of_int_exact[OF assms(1)] f64_of_int_exact[OF assms(2)] by (simp_all add: f64_order_val)

lemma uint_of_int:
  assumes "0 \<le> k" "k < 2 ^ w" "w \<le> 32"
  shows "f64_to_uint w (f64_of_int k) = Inr k"
proof -
  have "(2 :: int) ^ w \<le> 2 ^ 32" using assms(3) by (intro power_increasing) simp_all
  then have "\<bar>k\<bar> < 2 ^ 53" using assms by simp
  from f64_of_int_exact[OF this] have "f64_trunc (f64_of_int k) = Some k" using f64_trunc_floor assms(1) by simp
  then show ?thesis using assms by (simp add: f64_to_uint_def)
qed

lemma wf_length_16:
  assumes "owa_wf s gs ixs"
  shows "unat (numGroups s) = length gs"
proof (rule of_nat_inverse)
  show "of_nat (length gs) = numGroups s" using assms by (simp add: owa_wf_def)
  show "length gs < 2 ^ LENGTH(16)" using assms by (simp add: owa_wf_def)
qed

lemma slices:
  assumes "length a = r" "length b = r" "length c = r" "length d = r" "length e = r"
  shows "slice 1 r (x # a @ b @ c @ d @ e @ f) = a" "slice (1 + r) r (x # a @ b @ c @ d @ e @ f) = b" "slice (1 + 2 * r) r (x # a @ b @ c @ d @ e @ f) = c"
    "slice (1 + 3 * r) r (x # a @ b @ c @ d @ e @ f) = d" "slice (1 + 4 * r) r (x # a @ b @ c @ d @ e @ f) = e" "drop (arraySize r) (x # a @ b @ c @ d @ e @ f) = f"
  using assms by (simp_all add: slice_def arraySize_def)

lemma owa_load_store:
  assumes "owa_wf s gs ixs"
  shows "owa_load (owa_store s) = Inr s"
proof -
  define r where "r = reserved (length gs)"
  have len: "length (groupValues s) = r" "length (posToIndices s) = r" "length (owa_num s) = r" "length (owa_sum s) = r" "length (corrected_square_sum s) = r"
    using assms by (simp_all add: owa_wf_def has_length_def r_def)
  have n: "uint (numGroups s) < 2 ^ 16" using uint_lt2p[of "numGroups s"] by simp
  have size: "length (owa_store s) = arraySize r + length (owa_rest s)" using len by (simp add: owa_store_def arraySize_def)
  have "gs = [] \<Longrightarrow> owa_rest s \<noteq> []" using assms by (simp add: owa_wf_def)
  moreover have "gs \<noteq> [] \<Longrightarrow> 0 < r" using reserved_ge[of "length gs"] assms by (auto simp: owa_wf_def r_def)
  ultimately have "0 < r \<or> 0 < length (owa_rest s)" by auto
  then have bind: "bind_fields (owa_store s) [0, 1, 1 + r, 1 + 2 * r, 1 + 3 * r, 1 + 4 * r] = Inr ()"
    using size by (intro bind_fields_ok) (auto simp: arraySize_def)
  have "unat (nextPowerOfTwo (numGroups s)) = r" using assms by (simp add: owa_wf_def r_def reserved_def)
  then have "owa_load (owa_store s) = owa_rebind (owa_store s) (numGroups s) r"
    using uint_of_int[of "uint (numGroups s)" 16] n by (simp add: owa_load_def handle_at_def owa_store_def Let_def)
  also have "\<dots> = Inr s" using size bind slices[OF len] by (simp add: owa_rebind_def) (simp add: owa_store_def)
  finally show ?thesis .
qed

section \<open>Looking up and adding groups\<close>

text \<open>The groups before the first one that is not below \<open>g\<close>.\<close>

lemma lower_bound_groups:
  assumes "set gs \<subseteq> {0..<2 ^ 16}" "0 \<le> g" "g < 2 ^ 16"
  shows "lower_bound (map f64_of_int gs) (f64_of_int g) = length (takeWhile (\<lambda>x. x < g) gs)"
proof -
  have "takeWhile (\<lambda>x. f64_lt (f64_of_int x) (f64_of_int g)) gs = takeWhile (\<lambda>x. x < g) gs"
    using assms by (intro takeWhile_cong refl small_order(1)) force+
  then show ?thesis by (simp add: lower_bound_def takeWhile_map comp_def)
qed

lemma sorted_split:
  fixes g :: int
  assumes "sorted_wrt (<) gs"
  shows "\<forall>x\<in>set (takeWhile (\<lambda>x. x < g) gs). x < g" "\<forall>x\<in>set (dropWhile (\<lambda>x. x < g) gs). g \<le> x"
    "g \<in> set gs \<longleftrightarrow> (\<exists>B. dropWhile (\<lambda>x. x < g) gs = g # B)"
proof -
  show 1: "\<forall>x\<in>set (takeWhile (\<lambda>x. x < g) gs). x < g" by (auto dest: set_takeWhileD)
  show 2: "\<forall>x\<in>set (dropWhile (\<lambda>x. x < g) gs). g \<le> x"
  proof (cases "dropWhile (\<lambda>x. x < g) gs")
    case (Cons b B)
    then have "\<not> b < g" using hd_dropWhile[of "\<lambda>x. x < g" gs] by simp
    moreover have "sorted_wrt (<) (b # B)" using assms Cons by (metis sorted_wrt_append takeWhile_dropWhile_id)
    ultimately show ?thesis using Cons by auto
  next
    case Nil
    show ?thesis unfolding Nil by (simp only: list.set ball_empty)
  qed
  show "g \<in> set gs \<longleftrightarrow> (\<exists>B. dropWhile (\<lambda>x. x < g) gs = g # B)"
  proof
    assume "g \<in> set gs"
    then have "g \<in> set (dropWhile (\<lambda>x. x < g) gs)" using 1 by (metis Un_iff less_irrefl set_append takeWhile_dropWhile_id)
    then obtain b B where b: "dropWhile (\<lambda>x. x < g) gs = b # B" "g \<in> set (b # B)" by (cases "dropWhile (\<lambda>x. x < g) gs") auto
    have "sorted_wrt (<) (b # B)" using assms b(1) by (metis sorted_wrt_append takeWhile_dropWhile_id)
    then have "b = g" using b 2 by fastforce
    then show "\<exists>B. dropWhile (\<lambda>x. x < g) gs = g # B" using b(1) by blast
  next
    assume "\<exists>B. dropWhile (\<lambda>x. x < g) gs = g # B"
    then show "g \<in> set gs" by (metis list.set_intros(1) set_dropWhileD)
  qed
qed

lemma insert_at_split:
  assumes "take n xs = A @ B" "length (A @ B) = n" "n < length xs"
  shows "take (Suc n) (insert_at (length A) n x xs) = A @ x # B" "length (insert_at (length A) n x xs) = length xs"
    "drop (Suc n) (insert_at (length A) n x xs) = drop (Suc n) xs"
proof -
  have xs: "xs = A @ B @ drop n xs" using assms(1) by (metis append_take_drop_id append.assoc)
  have "take (length A) xs = A" "take (n - length A) (drop (length A) xs) = B" using assms(2) by (subst xs; simp)+
  then have eq: "insert_at (length A) n x xs = A @ x # B @ drop (Suc n) xs" by (simp add: insert_at_def)
  then show "take (Suc n) (insert_at (length A) n x xs) = A @ x # B" "drop (Suc n) (insert_at (length A) n x xs) = drop (Suc n) xs"
    using assms(2) by (auto simp: Suc_diff_le)
  show "length (insert_at (length A) n x xs) = length xs" using eq assms(2,3) by simp
qed

text \<open>The position of a group: the lists before and from it.\<close>

lemma wf_split:
  assumes "owa_wf s gs ixs" "0 \<le> g" "g < 2 ^ 16"
  obtains A B IA IB where "gs = A @ B" "ixs = IA @ IB" "length IA = length A" "length IB = length B" "\<forall>x\<in>set A. x < g" "\<forall>x\<in>set B. g \<le> x"
    "g \<in> set gs \<longleftrightarrow> (\<exists>B'. B = g # B')" "lower_bound (take (unat (numGroups s)) (groupValues s)) (f64_of_int g) = length A"
    "take (length gs) (groupValues s) = map f64_of_int A @ map f64_of_int B"
    "take (length gs) (posToIndices s) = map (\<lambda>i. f64_of_int (int i)) IA @ map (\<lambda>i. f64_of_int (int i)) IB"
proof -
  define A where "A = takeWhile (\<lambda>x. x < g) gs"
  define B where "B = dropWhile (\<lambda>x. x < g) gs"
  have gs: "gs = A @ B" by (simp add: A_def B_def)
  have wf: "sorted_wrt (<) gs" "set gs \<subseteq> {0..<2 ^ 16}" "length ixs = length gs" "take (length gs) (groupValues s) = map f64_of_int gs"
    "take (length gs) (posToIndices s) = map (\<lambda>i. f64_of_int (int i)) ixs" using assms(1) by (simp_all add: owa_wf_def)
  show ?thesis
  proof (rule that[of A B "take (length A) ixs" "drop (length A) ixs"])
    show "lower_bound (take (unat (numGroups s)) (groupValues s)) (f64_of_int g) = length A"
      unfolding wf_length_16[OF assms(1)] wf(4) A_def by (rule lower_bound_groups[OF wf(2) assms(2,3)])
    show "take (length gs) (groupValues s) = map f64_of_int A @ map f64_of_int B" unfolding wf(4) by (simp add: gs)
    show "take (length gs) (posToIndices s) = map (\<lambda>i. f64_of_int (int i)) (take (length A) ixs) @ map (\<lambda>i. f64_of_int (int i)) (drop (length A) ixs)"
      unfolding wf(5) by (simp flip: map_append)
    show "length (take (length A) ixs) = length A" "length (drop (length A) ixs) = length B" using wf(3) by (simp_all add: gs)
  qed (use gs sorted_split[OF wf(1), of g] in \<open>simp_all add: A_def B_def\<close>)
qed

lemma take_eq_nth:
  assumes "take n xs = ys" "i < length ys"
  shows "xs ! i = ys ! i"
  using assms by auto

lemma idx_known:
  assumes "owa_wf s gs ixs" "g = uint gw" "g \<in> set gs"
  shows "\<exists>i. idxOfGroup_mutable gw s = Inr (s, i) \<and> map_of (zip gs ixs) g = Some i \<and> i < length gs"
proof -
  have g: "0 \<le> g" "g < 2 ^ 16" using assms(2) uint_lt2p[of gw] by simp_all
  obtain A B IA IB where sp: "gs = A @ B" "ixs = IA @ IB" "length IA = length A" "length IB = length B" "\<forall>x\<in>set A. x < g"
    "g \<in> set gs \<longleftrightarrow> (\<exists>B'. B = g # B')" "lower_bound (take (unat (numGroups s)) (groupValues s)) (f64_of_int g) = length A"
    "take (length gs) (groupValues s) = map f64_of_int A @ map f64_of_int B"
    "take (length gs) (posToIndices s) = map (\<lambda>i. f64_of_int (int i)) IA @ map (\<lambda>i. f64_of_int (int i)) IB"
    using wf_split[OF assms(1) g] by metis
  obtain B' where B: "B = g # B'" using sp(6) assms(3) by blast
  then obtain i IB' where IB: "IB = i # IB'" using sp(4) by (cases IB) auto
  have val: "groupValues s ! length A = f64_of_int g" using take_eq_nth[OF sp(8)] by (simp add: B nth_append)
  have ix: "posToIndices s ! length A = f64_of_int (int i)" using take_eq_nth[OF sp(9)] sp(3) by (simp add: IB nth_append)
  have i: "i < length gs" using assms(1) by (auto simp: owa_wf_def sp(2) IB)
  have "length gs \<le> 2 ^ 15" "length (posToIndices s) = reserved (length gs)" using assms(1) by (auto simp: owa_wf_def has_length_def)
  then have "length A < length (posToIndices s)" "int i < 2 ^ 32" using i reserved_ge[of "length gs"] by (simp_all add: sp(1) B)
  moreover have "f64_eq (f64_of_int g) (f64_of_int g)" using small_order(2)[of g g] g by simp
  moreover have "length A < length gs" by (simp add: sp(1) B)
  ultimately have "idxOfGroup_mutable gw s = Inr (s, i)"
    using sp(7) val ix uint_of_int[of "int i" 32] wf_length_16[OF assms(1)] by (simp add: idxOfGroup_mutable_def Let_def flip: assms(2))
  moreover have "map_of (zip gs ixs) g = Some i"
    using sp(3,5) by (auto simp: sp(1,2) B IB map_add_def split: option.splits dest!: map_of_SomeD set_zip_leftD)
  ultimately show ?thesis using i by blast
qed

lemma wf_added:
  assumes wf: "owa_wf s gs ixs" "length gs < 2 ^ 15" "0 \<le> g" "g < 2 ^ 16" "g \<notin> set gs"
    and sp: "gs = A @ B" "ixs = IA @ IB" "length IA = length A" "length IB = length B" "\<forall>x\<in>set A. x < g" "\<forall>x\<in>set B. g \<le> x"
    and new: "numGroups s' = numGroups s + 1" "has_length (reserved (Suc (length gs))) s'"
      "groupValues s' = insert_at (length A) (length gs) (f64_of_int g) G" "take (length gs) G = take (length gs) (groupValues s)"
      "posToIndices s' = insert_at (length A) (length gs) (f64_of_int (int (length gs))) H" "take (length gs) H = take (length gs) (posToIndices s)"
      "length G = reserved (Suc (length gs))" "length H = reserved (Suc (length gs))"
      "\<forall>i. length gs \<le> i \<and> i < reserved (Suc (length gs)) \<longrightarrow> mv s' i = no_moments"
  shows "owa_wf s' (A @ g # B) (IA @ length gs # IB)" "posToIndices s' ! length A = f64_of_int (int (length gs))"
proof -
  have r: "length gs < reserved (Suc (length gs))" using reserved_ge[of "Suc (length gs)"] wf(2) by simp
  have G: "take (length gs) G = map f64_of_int A @ map f64_of_int B" and H: "take (length gs) H = map (\<lambda>i. f64_of_int (int i)) IA @ map (\<lambda>i. f64_of_int (int i)) IB"
    using wf(1) new(4,6) by (simp_all add: owa_wf_def sp(1,2) flip: map_append)
  note ins = insert_at_split[OF G, of "f64_of_int g"] insert_at_split[OF H, of "f64_of_int (int (length gs))"]
  have gv: "take (Suc (length gs)) (groupValues s') = map f64_of_int (A @ g # B)"
    using insert_at_split(1)[OF G, of "f64_of_int g"] r new(3,7) sp by simp
  have pv: "take (Suc (length gs)) (posToIndices s') = map (\<lambda>i. f64_of_int (int i)) (IA @ length gs # IB)"
    using insert_at_split(1)[OF H, of "f64_of_int (int (length gs))"] r new(5,8) sp by simp
  show "posToIndices s' ! length A = f64_of_int (int (length gs))"
    using take_eq_nth[OF pv, of "length A"] sp by (simp add: nth_append)
  have "sorted_wrt (<) (A @ g # B)"
    using wf(1,5) sp(1,5,6) by (auto simp: owa_wf_def sorted_wrt_append order_less_le)
  moreover have "distinct (IA @ length gs # IB)" "set (IA @ length gs # IB) = {..<Suc (length gs)}"
  proof -
    have "set (IA @ IB) = {..<length gs}" "distinct (IA @ IB)" using wf(1) sp(2) by (simp_all add: owa_wf_def)
    then show "distinct (IA @ length gs # IB)" "set (IA @ length gs # IB) = {..<Suc (length gs)}"
      by (auto simp: lessThan_Suc)
  qed
  moreover have "set (A @ g # B) \<subseteq> {0..<2 ^ 16}" using wf(1,3,4) sp(1) by (auto simp: owa_wf_def)
  ultimately show "owa_wf s' (A @ g # B) (IA @ length gs # IB)"
    using gv pv new(1,2,9) wf(1,2) sp by (simp add: owa_wf_def)
qed

lemma owa_wf_mv_rest: "owa_wf s gs ixs \<Longrightarrow> length gs \<le> i \<Longrightarrow> i < reserved (length gs) \<Longrightarrow> mv s i = no_moments"
  by (simp add: owa_wf_def)

lemma owa_rebind_zeros:
  assumes "0 < r"
  shows "\<exists>t. owa_rebind (replicate (arraySize r) f64_zero) m r = Inr t \<and> numGroups t = m"
proof -
  have "bind_fields (replicate (arraySize r) f64_zero) [0, 1, 1 + r, 1 + 2 * r, 1 + 3 * r, 1 + 4 * r] = Inr ()"
    using assms by (intro bind_fields_ok) (auto simp: arraySize_def)
  then show ?thesis by (simp add: owa_rebind_def)
qed

lemma idx_new:
  assumes wf: "owa_wf s gs ixs" and g: "g = uint gw" "g \<notin> set gs" and small: "length gs < 2 ^ 15"
  shows "\<exists>s' gs' ixs'. idxOfGroup_mutable gw s = Inr (s', length gs) \<and> owa_wf s' gs' ixs' \<and> length gs' = Suc (length gs) \<and>
    map_of (zip gs' ixs') = (map_of (zip gs ixs))(g \<mapsto> length gs) \<and> set gs' = insert g (set gs) \<and>
    (\<forall>i<length gs. mv s' i = mv s i) \<and> mv s' (length gs) = no_moments"
proof -
  have range: "0 \<le> g" "g < 2 ^ 16" using g(1) uint_lt2p[of gw] by simp_all
  obtain A B IA IB where sp: "gs = A @ B" "ixs = IA @ IB" "length IA = length A" "length IB = length B" "\<forall>x\<in>set A. x < g" "\<forall>x\<in>set B. g \<le> x"
    "g \<in> set gs \<longleftrightarrow> (\<exists>B'. B = g # B')" "lower_bound (take (unat (numGroups s)) (groupValues s)) (f64_of_int g) = length A"
    "take (length gs) (groupValues s) = map f64_of_int A @ map f64_of_int B"
    "take (length gs) (posToIndices s) = map (\<lambda>i. f64_of_int (int i)) IA @ map (\<lambda>i. f64_of_int (int i)) IB"
    using wf_split[OF wf range] by metis
  define n where "n = length gs"
  have spn: "length A + length B = n" using sp(1) by (simp add: n_def)
  note un = wf_length_16[OF wf, folded n_def]
  have len: "has_length (reserved n) s" using wf by (simp add: owa_wf_def n_def)
  have res: "unat (nextPowerOfTwo (numGroups s)) = reserved n" using wf by (simp add: owa_wf_def n_def reserved_def)
  have above: "n \<le> length A \<or> \<not> f64_eq (groupValues s ! length A) (f64_of_int g)"
  proof (cases B)
    case (Cons b B')
    then have "groupValues s ! length A = f64_of_int b" using take_eq_nth[OF sp(9)] by (simp add: nth_append)
    moreover have "b \<noteq> g" "0 \<le> b" "b < 2 ^ 16" using sp(7) g(2) Cons wf sp(1) by (auto simp: owa_wf_def)
    ultimately show ?thesis using small_order(2)[of b g] range by simp
  qed (simp add: n_def sp(1))
  have ix: "f64_to_uint 32 (f64_of_int (int n)) = Inr (int n)" using small by (intro uint_of_int) (simp_all add: n_def)
  have maps: "map_of (zip (A @ g # B) (IA @ n # IB)) = (map_of (zip gs ixs))(g \<mapsto> n)"
  proof -
    have "map_of (zip A IA) g = None" using g(2) sp(1) by (auto simp: map_of_eq_None_iff dest: set_zip_leftD)
    then have "map_of (zip A IA @ (g, n) # zip B IB) = (map_of (zip A IA @ zip B IB))(g \<mapsto> n)"
      by (auto simp: map_add_def fun_eq_iff split: option.split)
    then show ?thesis using sp(3,4) by (simp add: sp(1,2))
  qed
  define grow where "grow = (\<lambda>xs. take n xs @ replicate (reserved (Suc n) - n) f64_zero)"
  have r: "n < reserved (Suc n)" using reserved_ge[of "Suc n"] small by (simp add: n_def)
  obtain s' G H where s': "idxOfGroup_mutable gw s = rbind (nth_res (posToIndices s') (int (length A))) (\<lambda>x. rbind (f64_to_uint 32 x) (\<lambda>i. Inr (s', nat i)))"
    "numGroups s' = numGroups s + 1" "has_length (reserved (Suc n)) s'"
    "groupValues s' = insert_at (length A) n (f64_of_int g) G" "take n G = take n (groupValues s)"
    "posToIndices s' = insert_at (length A) n (f64_of_int (int n)) H" "take n H = take n (posToIndices s)"
    "length G = reserved (Suc n)" "length H = reserved (Suc n)"
    "\<forall>i. n \<le> i \<and> i < reserved (Suc n) \<longrightarrow> mv s' i = no_moments" "\<forall>i<n. mv s' i = mv s i"
  proof (cases "n < reserved n")
    case True
    let ?s = "s\<lparr>groupValues := insert_at (length A) n (f64_of_int g) (groupValues s),
        posToIndices := insert_at (length A) n (f64_of_int (int n)) (posToIndices s), numGroups := numGroups s + 1\<rparr>"
    have rS: "reserved (Suc n) = reserved n" using reserved_Suc[of n] True small by (simp add: n_def)
    have lt: "numGroups s < nextPowerOfTwo (numGroups s)" using True by (simp add: word_less_nat_alt un res)
    have lens: "length (groupValues s) = reserved n" "length (posToIndices s) = reserved n" using len by (simp_all add: has_length_def)
    have "has_length (reserved (Suc n)) ?s"
      using len insert_at_split(2)[OF sp(9)[folded n_def]] insert_at_split(2)[OF sp(10)[folded n_def]] True spn sp(3,4) by (simp add: has_length_def rS)
    moreover have "idxOfGroup_mutable gw s = rbind (nth_res (posToIndices ?s) (int (length A))) (\<lambda>x. rbind (f64_to_uint 32 x) (\<lambda>i. Inr (?s, nat i)))"
      using above sp(8) lt by (simp add: idxOfGroup_mutable_def Let_def un flip: g(1))
    moreover have "\<forall>i. n \<le> i \<and> i < reserved (Suc n) \<longrightarrow> mv ?s i = no_moments"
      using owa_wf_mv_rest[OF wf, folded n_def] by (simp add: rS mv_def)
    ultimately show ?thesis using lens rS by (intro that[of ?s "groupValues s" "posToIndices s"]) (simp_all add: mv_def)
  next
    case False
    then have eq: "reserved n = n" using reserved_ge[of n] small by (simp add: n_def)
    then have rS: "reserved (Suc n) = (if n = 0 then 1 else 2 * n)" using reserved_Suc[of n] small by (simp add: n_def)
    have ge: "\<not> numGroups s < nextPowerOfTwo (numGroups s)" by (simp add: word_less_nat_alt un res eq)
    have dbl: "unat (if nextPowerOfTwo (numGroups s) = 0 then 1 else nextPowerOfTwo (numGroups s) * 2) = reserved (Suc n)"
    proof (cases "n = 0")
      case False
      then have "nextPowerOfTwo (numGroups s) \<noteq> 0" using res eq by auto
      moreover have "unat (nextPowerOfTwo (numGroups s) * 2) = 2 * n" using res eq small by (subst unat_mult_lem[THEN iffD1]) (simp_all add: n_def)
      ultimately show ?thesis using rS False by simp
    qed (use res eq rS in \<open>simp add: unat_eq_zero\<close>)
    obtain t where t: "owa_rebind (replicate (arraySize (reserved (Suc n))) f64_zero) (numGroups s + 1) (reserved (Suc n)) = Inr t" "numGroups t = numGroups s + 1"
      using owa_rebind_zeros[of "reserved (Suc n)"] r by auto
    let ?s = "t\<lparr>groupValues := insert_at (length A) n (f64_of_int g) (grow (groupValues s)),
       posToIndices := insert_at (length A) n (f64_of_int (int n)) (grow (posToIndices s)),
       owa_num := grow (owa_num s), owa_sum := grow (owa_sum s), corrected_square_sum := grow (corrected_square_sum s)\<rparr>"
    have lens: "length (groupValues s) = n" "length (posToIndices s) = n" "length (owa_num s) = n" "length (owa_sum s) = n" "length (corrected_square_sum s) = n"
      using len eq by (simp_all add: has_length_def)
    have lg: "length (grow xs) = reserved (Suc n)" "take n (grow xs) = take n xs" if "length xs = n" for xs using that r by (simp_all add: grow_def)
    have mvs: "mv ?s i = (if i < n then mv s i else no_moments)" if "i < reserved (Suc n)" for i
      using that lens by (simp add: mv_def grow_def nth_append no_moments_def)
    have "has_length (reserved (Suc n)) ?s"
      using lg lens insert_at_split(2)[of n "grow (groupValues s)" "map f64_of_int A" "map f64_of_int B"]
        insert_at_split(2)[of n "grow (posToIndices s)" "map (\<lambda>i. f64_of_int (int i)) IA" "map (\<lambda>i. f64_of_int (int i)) IB"] spn sp(3,4) sp(9,10)[folded n_def] r
      by (simp add: has_length_def)
    moreover have "idxOfGroup_mutable gw s = rbind (nth_res (posToIndices ?s) (int (length A))) (\<lambda>x. rbind (f64_to_uint 32 x) (\<lambda>i. Inr (?s, nat i)))"
      using above sp(8) ge t(1) dbl by (simp add: idxOfGroup_mutable_def owa_grow_def Let_def un grow_def flip: g(1))
    ultimately show ?thesis using lg lens mvs t(2) r by (intro that[of ?s "grow (groupValues s)" "grow (posToIndices s)"]) simp_all
  qed
  note added = wf_added[OF wf small range g(2) sp(1-6), of s' G H, folded n_def, OF s'(2-10)]
  have "length A < length (posToIndices s')" using s'(3) r spn by (simp add: has_length_def)
  then have "idxOfGroup_mutable gw s = Inr (s', n)" using s'(1) added(2) ix by simp
  then have "idxOfGroup_mutable gw s = Inr (s', n) \<and> owa_wf s' (A @ g # B) (IA @ n # IB) \<and> length (A @ g # B) = Suc n \<and>
    map_of (zip (A @ g # B) (IA @ n # IB)) = (map_of (zip gs ixs))(g \<mapsto> n) \<and> set (A @ g # B) = insert g (set gs) \<and>
    (\<forall>i<n. mv s' i = mv s i) \<and> mv s' n = no_moments"
    using added(1) maps s'(10,11) r spn by (auto simp: sp(1))
  then show ?thesis unfolding n_def by blast
qed

section \<open>The aggregate as a map from groups to their moments\<close>

lemma zip_injective:
  assumes "distinct ixs" "map_of (zip gs ixs) a = Some i" "map_of (zip gs ixs) b = Some i"
  shows "a = b"
  using assms by (auto dest!: map_of_SomeD simp: in_set_zip nth_eq_iff_index_eq)

lemma update_group_wf:
  assumes wf: "owa_wf s gs ixs" and i: "map_of (zip gs ixs) g = Some i"
  shows "\<exists>s'. update_group i r s = Inr s' \<and> owa_wf s' gs ixs \<and>
    group_map s' gs ixs = (group_map s gs ixs)(g \<mapsto> updateCorrectedSumOfSquares (mv s i) r)"
proof -
  have "i \<in> set ixs" using i by (auto dest!: map_of_SomeD set_zip_rightD)
  then have lt: "i < length gs" using wf by (simp add: owa_wf_def)
  moreover have len: "length (owa_num s) = reserved (length gs)" "length (owa_sum s) = reserved (length gs)" "length (corrected_square_sum s) = reserved (length gs)"
    using wf by (simp_all add: owa_wf_def has_length_def)
  ultimately have small: "i < reserved (length gs)" using reserved_ge[of "length gs"] wf by (simp add: owa_wf_def)
  obtain n t c where upd: "updateCorrectedSumOfSquares (mv s i) r = (n, t, c)" by (cases "updateCorrectedSumOfSquares (mv s i) r")
  let ?s = "s\<lparr>owa_num := (owa_num s)[i := n], owa_sum := (owa_sum s)[i := t], corrected_square_sum := (corrected_square_sum s)[i := c]\<rparr>"
  have step: "update_group i r s = Inr ?s"
    using upd len small by (simp add: update_group_def moments_at_def eigen_at_def check_def mv_def)
  have mvs: "mv ?s j = (if j = i then (n, t, c) else mv s j)" for j using len small by (simp add: mv_def)
  have "owa_wf ?s gs ixs" using wf lt mvs by (simp add: owa_wf_def has_length_def)
  moreover have "group_map ?s gs ixs = (group_map s gs ixs)(g \<mapsto> (n, t, c))"
  proof
    fix g'
    have "distinct ixs" using wf by (simp add: owa_wf_def)
    then show "group_map ?s gs ixs g' = ((group_map s gs ixs)(g \<mapsto> (n, t, c))) g'"
      using i mvs zip_injective[of ixs gs g' i g] by (cases "map_of (zip gs ixs) g'") (auto simp: group_map_def)
  qed
  ultimately show ?thesis using step upd by auto
qed

text \<open>
  The moments \<open>r\<close> are combined with those of the group \<open>g\<close>; the groups in the order in which they arrived.
\<close>

definition combine :: "int \<Rightarrow> moments \<Rightarrow> (int \<Rightarrow> moments option) \<Rightarrow> int \<Rightarrow> moments option" where
  "combine g r m = m(g \<mapsto> updateCorrectedSumOfSquares (case m g of None \<Rightarrow> no_moments | Some t \<Rightarrow> t) r)"

definition arrive :: "int \<Rightarrow> int list \<Rightarrow> int list" where
  "arrive g arr = (if g \<in> set arr then arr else arr @ [g])"

lemma set_arrive [simp]: "set (arrive g arr) = insert g (set arr)"
  by (auto simp: arrive_def)

lemma set_fold_arrive [simp]: "set (fold (arrive \<circ> f) xs arr) = f ` set xs \<union> set arr"
  by (induction xs arbitrary: arr) auto

definition owa_rep :: "owa_state \<Rightarrow> int list \<Rightarrow> (int \<Rightarrow> moments option) \<Rightarrow> bool" where
  "owa_rep s arr m \<longleftrightarrow> (\<exists>gs ixs. owa_wf s gs ixs \<and> length arr = length gs \<and> distinct arr \<and> set gs = set arr \<and>
     map_of (zip gs ixs) = map_of (zip arr [0..<length arr]) \<and> group_map s gs ixs = m)"

lemma map_of_snoc: "map_of xs g = None \<Longrightarrow> map_of (xs @ [(g, n)]) = (map_of xs)(g \<mapsto> n)"
  by (auto simp: map_add_def fun_eq_iff split: option.splits)

lemma group_step:
  assumes rep: "owa_rep s arr m" and g: "g = uint gw" and room: "card (insert g (set arr)) \<le> 2 ^ 15"
  shows "\<exists>s'. rbind (idxOfGroup_mutable gw s) (\<lambda>(s, i). update_group i r s) = Inr s' \<and> owa_rep s' (arrive g arr) (combine g r m)"
proof -
  obtain gs ixs where wf: "owa_wf s gs ixs" and arr: "length arr = length gs" "distinct arr" "set gs = set arr"
    "map_of (zip gs ixs) = map_of (zip arr [0..<length arr])" and m: "group_map s gs ixs = m" using rep by (auto simp: owa_rep_def)
  show ?thesis
  proof (cases "g \<in> set gs")
    case True
    from idx_known[OF wf g True] obtain i where i: "idxOfGroup_mutable gw s = Inr (s, i)" "map_of (zip gs ixs) g = Some i" by blast
    from update_group_wf[OF wf i(2), of r] obtain s' where
      s': "update_group i r s = Inr s'" "owa_wf s' gs ixs" "group_map s' gs ixs = (group_map s gs ixs)(g \<mapsto> updateCorrectedSumOfSquares (mv s i) r)"
      by blast
    have "group_map s gs ixs g = Some (mv s i)" using i(2) by (simp add: group_map_def)
    then have "group_map s' gs ixs = combine g r m" using s'(3) m by (auto simp add: combine_def)
    then have "owa_rep s' (arrive g arr) (combine g r m)" using s'(2) arr True by (auto simp: owa_rep_def arrive_def)
    then show ?thesis using i(1) s'(1) by simp
  next
    case False
    have "length gs < 2 ^ 15" using room False arr by (simp add: distinct_card)
    from idx_new[OF wf g False this] obtain s1 gs1 ixs1 where
      s1: "idxOfGroup_mutable gw s = Inr (s1, length gs)" "owa_wf s1 gs1 ixs1" "length gs1 = Suc (length gs)"
        "map_of (zip gs1 ixs1) = (map_of (zip gs ixs))(g \<mapsto> length gs)"
        "set gs1 = insert g (set gs)" "\<forall>i<length gs. mv s1 i = mv s i" "mv s1 (length gs) = no_moments" by blast
    have "map_of (zip gs1 ixs1) g = Some (length gs)" using s1(4) by simp
    from update_group_wf[OF s1(2) this, of r] obtain s' where
      s': "update_group (length gs) r s1 = Inr s'" "owa_wf s' gs1 ixs1"
        "group_map s' gs1 ixs1 = (group_map s1 gs1 ixs1)(g \<mapsto> updateCorrectedSumOfSquares (mv s1 (length gs)) r)" by blast
    have "group_map s' gs1 ixs1 = combine g r m"
    proof
      fix g'
      have "i < length gs" if "map_of (zip gs ixs) g' = Some i" for i
        using wf that by (auto simp: owa_wf_def dest!: map_of_SomeD set_zip_rightD)
      moreover have "map_of (zip gs ixs) g = None" using wf False by (simp add: owa_wf_def)
      then have "m g = None" using m by (auto simp: group_map_def)
      ultimately show "group_map s' gs1 ixs1 g' = combine g r m g'"
        using s1(4,6,7) s'(3) m by (cases "map_of (zip gs ixs) g'") (auto simp: combine_def group_map_def)
    qed
    moreover have "map_of (zip arr [0..<length arr]) g = None" using False arr(3) by simp
    then have "map_of (zip (arr @ [g]) [0..<length (arr @ [g])]) = (map_of (zip arr [0..<length arr]))(g \<mapsto> length arr)"
      using map_of_snoc[of "zip arr [0..<length arr]" g "length arr"] by simp
    ultimately have "owa_rep s' (arrive g arr) (combine g r m)"
      using s'(2) s1(3-5) arr False unfolding owa_rep_def arrive_def by (intro exI[of _ gs1] exI[of _ ixs1]) simp
    then show ?thesis using s1(1) s'(1) by simp
  qed
qed

lemma owa_load_rep: "owa_rep s arr m \<Longrightarrow> owa_load (owa_store s) = Inr s"
  using owa_load_store by (auto simp: owa_rep_def)

text \<open>The array holds the groups \<open>arr\<close>, in the order of their arrival, and their moments \<open>m\<close>.\<close>

definition anova_rep :: "float8 list \<Rightarrow> int list \<Rightarrow> (int \<Rightarrow> moments option) \<Rightarrow> bool" where
  "anova_rep a arr m \<longleftrightarrow> (\<exists>s. a = owa_store s \<and> owa_rep s arr m)"

lemma anova_rep_initial: "anova_rep [f64_zero, f64_zero] [] Map.empty"
proof -
  define s where "s = \<lparr>numGroups = 0, groupValues = [], posToIndices = [], owa_num = [], owa_sum = [], corrected_square_sum = [], owa_rest = [f64_zero]\<rparr>"
  have "owa_store s = [f64_zero, f64_zero]" by (simp add: s_def owa_store_def, code_simp)
  moreover have "owa_wf s [] []" by (simp add: s_def owa_wf_def has_length_def reserved_zero)
  moreover have "group_map s [] [] = Map.empty" by (simp add: group_map_def fun_eq_iff)
  ultimately have "owa_rep s [] Map.empty" by (auto simp: owa_rep_def)
  then show ?thesis unfolding anova_rep_def \<open>owa_store s = [f64_zero, f64_zero]\<close>[symmetric] by blast
qed

text \<open>A row updates the moments of its group, whose number is taken modulo $2^{16}$.\<close>

definition group_of :: "int \<times> float8 \<Rightarrow> int" where
  "group_of row = fst row mod 2 ^ 16"

definition add_value :: "int \<times> float8 \<Rightarrow> (int \<Rightarrow> moments option) \<Rightarrow> int \<Rightarrow> moments option" where
  "add_value row = combine (group_of row) (f64_one, snd row, f64_zero)"

lemma anova_rep_step:
  assumes "anova_rep a arr m" "card (insert (group_of (grp, v)) (set arr)) \<le> 2 ^ 15"
  shows "\<exists>b. one_way_anova_transition a grp v = Inr b \<and> anova_rep b (arrive (group_of (grp, v)) arr) (add_value (grp, v) m)"
proof -
  obtain s where s: "a = owa_store s" "owa_rep s arr m" using assms(1) by (auto simp: anova_rep_def)
  have "group_of (grp, v) = uint (word_of_int grp :: 16 word)" by (simp add: group_of_def uint_word_of_int)
  from group_step[OF s(2) this assms(2), of "(f64_one, v, f64_zero)"] obtain s' where
    s': "owa_step grp v s = Inr s'" "owa_rep s' (arrive (group_of (grp, v)) arr) (add_value (grp, v) m)" by (auto simp: owa_step_def add_value_def)
  have "one_way_anova_transition a grp v = Inr (owa_store s')"
    using owa_load_rep[OF s(2)] s'(1) by (simp add: one_way_anova_transition_def s(1))
  then show ?thesis using s'(2) by (auto simp: anova_rep_def)
qed

lemma anova_rep_fold:
  assumes "anova_rep a arr m" "card (group_of ` set rows \<union> set arr) \<le> 2 ^ 15"
  shows "\<exists>b. foldM (\<lambda>(grp, v) a. one_way_anova_transition a grp v) rows a = Inr b \<and>
    anova_rep b (fold (arrive \<circ> group_of) rows arr) (fold add_value rows m)"
  using assms
proof (induction rows arbitrary: a arr m)
  case (Cons row rows)
  obtain grp v where row: "row = (grp, v)" by (cases row)
  have "card (insert (group_of row) (set arr)) \<le> card (group_of ` set (row # rows) \<union> set arr)" by (intro card_mono) auto
  then have "card (insert (group_of row) (set arr)) \<le> 2 ^ 15" using Cons.prems(2) by linarith
  from anova_rep_step[OF Cons.prems(1) this[unfolded row]] obtain b where
    b: "one_way_anova_transition a grp v = Inr b" "anova_rep b (arrive (group_of row) arr) (add_value row m)" by (auto simp: row)
  from Cons.IH[OF b(2)] Cons.prems(2) show ?case using b(1) by (auto simp: row)
qed auto

section \<open>Merging\<close>

lemma const_idx:
  assumes "owa_wf s gs ixs" "pos < length gs"
  shows "f64_to_uint 16 (groupValues s ! pos) = Inr (gs ! pos)" "idxOfGroup_const (word_of_int (gs ! pos)) s = Inr pos"
proof -
  have wf: "sorted_wrt (<) gs" "set gs \<subseteq> {0..<2 ^ 16}" "take (length gs) (groupValues s) = map f64_of_int gs" using assms(1) by (simp_all add: owa_wf_def)
  have g: "0 \<le> gs ! pos" "gs ! pos < 2 ^ 16" using subsetD[OF wf(2) nth_mem[OF assms(2)]] by simp_all
  have val: "groupValues s ! pos = f64_of_int (gs ! pos)" using take_eq_nth[OF wf(3)] assms(2) by simp
  show "f64_to_uint 16 (groupValues s ! pos) = Inr (gs ! pos)" unfolding val using g by (intro uint_of_int) simp_all
  have u: "uint (word_of_int (gs ! pos) :: 16 word) = gs ! pos" using g by (simp add: uint_word_of_int)
  have "takeWhile (\<lambda>x. x < gs ! pos) gs = take pos gs"
    using wf(1) assms(2) by (intro takeWhile_eq_take_P_nth) (auto simp: sorted_wrt_iff_nth_less)
  then have lb: "lower_bound (take (length gs) (groupValues s)) (f64_of_int (gs ! pos)) = pos"
    unfolding wf(3) using lower_bound_groups[OF wf(2) g] assms(2) by simp
  have "f64_eq (f64_of_int (gs ! pos)) (f64_of_int (gs ! pos))" using small_order(2)[of "gs ! pos" "gs ! pos"] g by simp
  then show "idxOfGroup_const (word_of_int (gs ! pos)) s = Inr pos"
    using assms(2) lb val by (simp add: idxOfGroup_const_def Let_def wf_length_16[OF assms(1)] u check_def)
qed

lemma merge_group_step:
  assumes right: "owa_wf s gs ixs" "pos < length gs" and left: "owa_rep l arr m" "card (insert (gs ! pos) (set arr)) \<le> 2 ^ 15"
  shows "\<exists>l'. merge_group s pos l = Inr l' \<and> owa_rep l' (arrive (gs ! pos) arr) (combine (gs ! pos) (mv s pos) m)"
proof -
  have "gs ! pos \<in> {0..<2 ^ 16}" using subsetD[OF _ nth_mem[OF right(2)]] right(1) unfolding owa_wf_def by metis
  then have "gs ! pos = uint (word_of_int (gs ! pos) :: 16 word)" by (simp add: uint_word_of_int)
  from group_step[OF left(1) this left(2), of "mv s pos"] obtain l' where
    l': "rbind (idxOfGroup_mutable (word_of_int (gs ! pos)) l) (\<lambda>(s', i). update_group i (mv s pos) s') = Inr l'"
      "owa_rep l' (arrive (gs ! pos) arr) (combine (gs ! pos) (mv s pos) m)" by auto
  have "pos < reserved (length gs)" using right reserved_ge[of "length gs"] by (auto simp: owa_wf_def)
  then have "moments_at pos s = Inr (mv s pos)" using right(1) by (simp add: owa_wf_def has_length_def moments_at_def eigen_at_def check_def mv_def)
  then show ?thesis using l' const_idx[OF right] by (simp add: merge_group_def)
qed

lemma merge_groups:
  assumes right: "owa_wf s gs ixs" and left: "owa_rep l arr m" "card (set gs \<union> set arr) \<le> 2 ^ 15" and n: "n \<le> length gs"
  shows "\<exists>l'. foldM (merge_group s) [0..<n] l = Inr l' \<and> owa_rep l' (fold arrive (take n gs) arr) (fold (\<lambda>p. combine (gs ! p) (mv s p)) [0..<n] m)"
  using n
proof (induction n)
  case (Suc n)
  then obtain l' where l': "foldM (merge_group s) [0..<n] l = Inr l'"
    "owa_rep l' (fold arrive (take n gs) arr) (fold (\<lambda>p. combine (gs ! p) (mv s p)) [0..<n] m)" by auto
  have "set (fold arrive (take n gs) arr) = set (take n gs) \<union> set arr" using set_fold_arrive[of "\<lambda>x. x" "take n gs" arr] by (simp add: comp_def)
  then have "insert (gs ! n) (set (fold arrive (take n gs) arr)) \<subseteq> set gs \<union> set arr"
    using Suc.prems nth_mem[of n gs] set_take_subset[of n gs] by auto
  then have "card (insert (gs ! n) (set (fold arrive (take n gs) arr))) \<le> 2 ^ 15"
    using card_mono[of "set gs \<union> set arr"] left(2) by (metis List.finite_set finite_Un order_trans)
  from merge_group_step[OF right _ l'(2) this] Suc.prems obtain l'' where
    "merge_group s n l' = Inr l''" "owa_rep l'' (arrive (gs ! n) (fold arrive (take n gs) arr)) (combine (gs ! n) (mv s n) (fold (\<lambda>p. combine (gs ! p) (mv s p)) [0..<n] m))"
    by auto
  then show ?case using l'(1) Suc.prems by (simp add: foldM_append take_Suc_conv_app_nth)
qed (use left(1) in simp)

lemma fold_positions:
  assumes "length xs = n" "length ys = n" "\<And>p. p < n \<Longrightarrow> F p = G (xs ! p, ys ! p)"
  shows "fold F [0..<n] m = fold G (zip xs ys) m"
proof -
  have "zip xs ys = map (\<lambda>p. (xs ! p, ys ! p)) [0..<n]" using assms(1,2) by (intro nth_equalityI) simp_all
  then have "fold G (zip xs ys) m = fold (\<lambda>p. G (xs ! p, ys ! p)) [0..<n] m" by (simp add: fold_map comp_def)
  also have "\<dots> = fold F [0..<n] m" using assms(3) by (intro fold_cong) simp_all
  finally show ?thesis by simp
qed

text \<open>
  C29: the transitions of \<open>one_way_anova_transition\<close> from the initial state represent the map that gives each group, modulo
  $2^{16}$, the number of its values, their sum and their corrected sum of squares, updated row by row.  The array grows as new groups arrive, in
  any order, as long as there are at most $2^{15}$ of them.
\<close>

theorem anova_refines_map:
  assumes "card (group_of ` set rows) \<le> 2 ^ 15"
  shows "\<exists>b. foldM (\<lambda>(grp, v) a. one_way_anova_transition a grp v) rows [f64_zero, f64_zero] = Inr b \<and>
    anova_rep b (fold (arrive \<circ> group_of) rows []) (fold add_value rows Map.empty)"
  using anova_rep_fold[OF anova_rep_initial, of rows] assms by simp

theorem anova_refines_map_witness:
  "\<exists>b. foldM (\<lambda>(grp, v) a. one_way_anova_transition a grp v) [(7, f64_one), (3, f64_two), (65543, f64_one)] [f64_zero, f64_zero] = Inr b \<and>
    anova_rep b [7, 3] (fold add_value [(7, f64_one), (3, f64_two), (65543, f64_one)] Map.empty)"
  using anova_refines_map[of "[(7, f64_one), (3, f64_two), (65543, f64_one)]"] by (simp add: group_of_def arrive_def card_insert_if)

text \<open>
  \<open>one_way_anova_merge_states\<close> looks up the groups of the right state in ascending order, and adds to the group at position \<open>p\<close> of this
  order the moments of the group that arrived as number \<open>p\<close>, because the lookup in a constant state returns the position and not the index.
  The merge is the union of the two maps only if the groups of the right state arrived in ascending order.
\<close>

theorem anova_merge_positions:
  assumes "anova_rep a arr m" "anova_rep b arr' m'" "card (set arr' \<union> set arr) \<le> 2 ^ 15"
  shows "\<exists>c. one_way_anova_merge_states a b = Inr c \<and>
    anova_rep c (fold arrive (sort arr') arr) (fold (\<lambda>(g, h). combine g (the (m' h))) (zip (sort arr') arr') m)"
proof -
  obtain l where l: "a = owa_store l" "owa_rep l arr m" using assms(1) by (auto simp: anova_rep_def)
  obtain s gs ixs where s: "b = owa_store s" "owa_rep s arr' m'" "owa_wf s gs ixs" "length arr' = length gs" "distinct arr'" "set gs = set arr'"
    "map_of (zip gs ixs) = map_of (zip arr' [0..<length arr'])" "group_map s gs ixs = m'" using assms(2) unfolding anova_rep_def owa_rep_def by metis
  have "sorted_wrt (<) gs" using s(3) by (simp add: owa_wf_def)
  then have gs: "sort arr' = gs" using s(5,6) by (intro sorted_distinct_set_unique) (simp_all add: strict_sorted_iff)
  have "mv s p = the (m' (arr' ! p))" if "p < length gs" for p
  proof -
    have "map_of (zip arr' [0..<length arr']) (arr' ! p) = Some p" using that s(4,5) by (simp add: map_of_zip_nth)
    then show ?thesis using s(7,8) by (auto simp: group_map_def)
  qed
  then have "fold (\<lambda>p. combine (gs ! p) (mv s p)) [0..<length gs] m = fold (\<lambda>(g, h). combine g (the (m' h))) (zip (sort arr') arr') m"
    unfolding gs using s(4) by (intro fold_positions) simp_all
  moreover from merge_groups[OF s(3) l(2), of "length gs"] assms(3) s(6) obtain l' where
    "foldM (merge_group s) [0..<length gs] l = Inr l'" "owa_rep l' (fold arrive gs arr) (fold (\<lambda>p. combine (gs ! p) (mv s p)) [0..<length gs] m)" by auto
  ultimately show ?thesis
    using owa_load_rep[OF l(2)] owa_load_rep[OF s(2)] wf_length_16[OF s(3)] gs
    by (auto simp: one_way_anova_merge_states_def l(1) s(1) anova_rep_def)
qed

text \<open>The rows of the groups 2 and 1, in this order, merged into the initial state: the moments are exchanged.\<close>

theorem anova_merge_positions_witness:
  "\<exists>b c. foldM (\<lambda>(grp, v) a. one_way_anova_transition a grp v) [(2, f64_one), (1, f64_half)] [f64_zero, f64_zero] = Inr b \<and>
    one_way_anova_merge_states [f64_zero, f64_zero] b = Inr c \<and>
    anova_rep c [1, 2] (let m = fold add_value [(2, f64_one), (1, f64_half)] Map.empty
      in combine 2 (the (m 1)) (combine 1 (the (m 2)) Map.empty))"
proof -
  let ?rows = "[(2, f64_one), (1, f64_half)]"
  obtain b where b: "foldM (\<lambda>(grp, v) a. one_way_anova_transition a grp v) ?rows [f64_zero, f64_zero] = Inr b"
    "anova_rep b (fold (arrive \<circ> group_of) ?rows []) (fold add_value ?rows Map.empty)"
    using anova_rep_fold[OF anova_rep_initial, of ?rows] by (auto simp: group_of_def)
  have "fold (arrive \<circ> group_of) ?rows [] = [2, 1]" by (simp add: group_of_def arrive_def)
  then show ?thesis using b(1) anova_merge_positions[OF anova_rep_initial b(2)] by (simp add: arrive_def Let_def)
qed

end
