(* ===== verification/Float64Int.thy ===== *)
theory Float64Int
  imports Float64Order
begin

text \<open>Doubles whose value is an integer, and the operations that compute exactly with them.\<close>

definition int_is :: "float8 \<Rightarrow> int \<Rightarrow> bool" where
  "int_is x n \<longleftrightarrow> f64_finite x \<and> f64_val x = of_int n"

lemma int_is_finite: "int_is x n \<Longrightarrow> f64_finite x"
  by (simp add: int_is_def)

lemma int_is_of_int: "\<bar>n\<bar> < 2 ^ 53 \<Longrightarrow> int_is (f64_of_int n) n"
  using f64_of_int_exact by (simp add: int_is_def)

lemma int_is_constants [simp]: "int_is f64_zero 0" "int_is f64_one 1"
  by (simp_all add: int_is_def)

lemma int_isI:
  assumes "f64_exact r \<Longrightarrow> f64_finite z \<and> f64_val z = r" "r = of_int n" "\<bar>n\<bar> < 2 ^ 53"
  shows "int_is z n"
  using assms(1) f64_exact_int[OF assms(3)] unfolding assms(2) int_is_def by blast

lemma int_is_add:
  assumes "int_is x a" "int_is y b" "\<bar>a + b\<bar> < 2 ^ 53"
  shows "int_is (f64_add x y) (a + b)"
proof -
  have "f64_val x + f64_val y = of_int (a + b)" using assms(1,2) by (simp add: int_is_def)
  from int_isI[OF f64_add_exact[OF int_is_finite[OF assms(1)] int_is_finite[OF assms(2)]] this assms(3)] show ?thesis .
qed

lemma int_is_sub:
  assumes "int_is x a" "int_is y b" "\<bar>a - b\<bar> < 2 ^ 53"
  shows "int_is (f64_sub x y) (a - b)"
proof -
  have "f64_val x - f64_val y = of_int (a - b)" using assms(1,2) by (simp add: int_is_def)
  from int_isI[OF f64_sub_exact[OF int_is_finite[OF assms(1)] int_is_finite[OF assms(2)]] this assms(3)] show ?thesis .
qed

lemma int_is_mul:
  assumes "int_is x a" "int_is y b" "\<bar>a * b\<bar> < 2 ^ 53"
  shows "int_is (f64_mul x y) (a * b)"
proof -
  have "f64_val x * f64_val y = of_int (a * b)" using assms(1,2) by (simp add: int_is_def)
  from int_isI[OF f64_mul_exact[OF int_is_finite[OF assms(1)] int_is_finite[OF assms(2)]] this assms(3)] show ?thesis .
qed

lemma f64_one_unpack: "f64_unpack (f64_mag f64_one) = (2 ^ 52, - 52)" "f64_mag f64_one \<noteq> 0" "\<not> f64_sign f64_one"
  by (simp_all add: f64_mag_def f64_sign_def f64_unpack_def f64_one_def)

lemma int_is_div_one:
  assumes "int_is x a" "\<bar>a\<bar> < 2 ^ 53"
  shows "int_is (f64_div x f64_one) a"
  using f64_div_p2_exact[OF int_is_finite[OF assms(1)] f64_one_unpack(1) _ f64_one_unpack(2,3)] assms f64_exact_int[OF assms(2)]
  by (simp add: int_is_def)

lemma int_is_order:
  assumes "int_is x a" "int_is y b"
  shows "f64_lt x y \<longleftrightarrow> a < b" "f64_le x y \<longleftrightarrow> a \<le> b" "f64_eq x y \<longleftrightarrow> a = b"
  using assms by (simp_all add: int_is_def f64_order_val)

lemma int_is_trunc:
  assumes "int_is x n"
  shows "f64_trunc x = Some n"
proof -
  obtain m e where u: "f64_unpack (f64_mag x) = (m, e)" by (cases "f64_unpack (f64_mag x)")
  have x: "f64_finite x" "f64_val x = of_int n" using assms by (simp_all add: int_is_def)
  have val: "of_int n = (if f64_sign x then - 1 else 1) * of_int m * p2 e" "0 \<le> m" using unpack_val[OF u] x(2) by simp_all
  have "f64_trunc (f64_fabs x) = Some \<bar>n\<bar>" using f64_trunc_floor[of "f64_fabs x"] x by (simp flip: of_int_abs)
  moreover have "0 \<le> of_int m * p2 e" using val(2) by (intro mult_nonneg_nonneg) (auto intro: less_imp_le)
  then have "(if f64_sign x then - \<bar>n\<bar> else \<bar>n\<bar>) = n" using val(1) by (cases "f64_sign x") (auto simp: mult.assoc)
  ultimately show ?thesis using x(1) by (auto simp: f64_trunc_def f64_fabs_fields u f64_finite_def split: if_splits)
qed

section \<open>Zero and one\<close>

lemma key_zero [simp]: "f64_key f64_zero = 0" "\<not> f64_is_nan f64_zero" "\<not> f64_is_nan f64_one"
  by (simp_all add: f64_key_def f64_zero_def f64_one_def f64_mag_def f64_is_nan_def f64_inf_bits_def)

lemma key_one [simp]: "f64_key f64_one = 0x3FF0000000000000"
  by (simp add: f64_key_def f64_sign_def f64_mag_def f64_one_def)

lemma zero_eq_zero [simp]: "f64_eq f64_zero f64_zero"
  by (simp add: f64_eq_def)

text \<open>A number between zero and a finite number is finite.\<close>

lemma between_finite_bound:
  assumes "f64_le f64_zero x" "f64_le x c" "f64_finite c"
  shows "f64_finite x"
proof (rule ccontr)
  assume "\<not> f64_finite x"
  then have "f64_mag x = f64_inf_bits" using assms(1) by (auto simp: finite_simps f64_le_def)
  moreover have "0 \<le> f64_key x" "f64_key x \<le> f64_key c" using assms(1,2) by (simp_all add: f64_le_def)
  moreover have "f64_mag c < f64_inf_bits" "0 \<le> f64_mag c" using assms(3) by (simp_all add: f64_finite_def f64_mag_nonneg)
  ultimately show False by (auto simp: f64_key_def f64_inf_bits_def split: if_splits)
qed

end
