(* ===== verification/ProbFacts.thy ===== *)
theory ProbFacts
  imports RankTestsFacts Float64Int
begin

text \<open>
  The computation of the Kolmogorov distribution stays within its array of four terms, and the values of the distribution functions are
  probabilities.
\<close>

lemma constant_0_755: "f64_finite 0x3FE828F5C28F5C29" "3 / 4 \<le> f64_val 0x3FE828F5C28F5C29"
proof -
  have unpack: "f64_unpack (f64_mag 0x3FE828F5C28F5C29) = (6800435437329449, - 53)" by (simp add: f64_mag_def f64_unpack_def)
  have "\<not> f64_sign 0x3FE828F5C28F5C29" by (simp add: f64_sign_def)
  then have "f64_val 0x3FE828F5C28F5C29 = 6800435437329449 * p2 (- 53)" using unpack_val(1)[OF unpack] by simp
  then show "3 / 4 \<le> f64_val 0x3FE828F5C28F5C29" by (simp add: power_int_minus inverse_eq_divide)
  show "f64_finite 0x3FE828F5C28F5C29" by (simp add: f64_finite_def f64_mag_def f64_inf_bits_def)
qed

lemma constant_6_8116: "f64_finite 0x401B3F141205BC02"
  by (simp add: f64_finite_def f64_mag_def f64_inf_bits_def)

lemma constant_3: "int_is 0x4008000000000000 3"
  by (simp add: int_is_def f64_finite_def f64_val_def f64_mag_def f64_sign_def f64_unpack_def f64_inf_bits_def power_int_minus)

lemma constant_4_5: "f64_finite 0x4012000000000000" "f64_val 0x4012000000000000 = 9 / 2"
  by (simp_all add: f64_finite_def f64_val_def f64_mag_def f64_sign_def f64_unpack_def f64_inf_bits_def power_int_minus)

lemma constant_half: "f64_finite f64_half" "f64_val f64_half = 1 / 2"
  by (simp_all add: f64_finite_def f64_val_def f64_mag_def f64_sign_def f64_unpack_def f64_inf_bits_def f64_half_def power_int_minus)

text \<open>The closest integer of a number between 0 and 4 is between 0 and 4.\<close>

lemma Nint_range:
  assumes "f64_finite x" "0 \<le> f64_val x" "f64_val x \<le> 4"
  shows "\<exists>n. Nint x = Inr n \<and> - 1 \<le> n \<and> n \<le> 4"
proof -
  have le: "f64_le f64_zero x" using f64_order_val(1)[of f64_zero x] assms by simp
  have r: "rounds_to (f64_val x + 1 / 2) (f64_add x f64_half)" using f64_add_rounds[OF assms(1) constant_half(1)] by (simp add: constant_half(2))
  have up: "f64_le (f64_add x f64_half) 0x4012000000000000" using assms(3) constant_4_5 by (intro rounds_to_le[OF r]) simp_all
  have low: "f64_le f64_zero (f64_add x f64_half)" using assms(2) by (intro rounds_to_ge[OF r]) simp_all
  have fin: "f64_finite (f64_add x f64_half)" using between_finite_bound[OF low up constant_4_5(1)] .
  have val: "0 \<le> f64_val (f64_add x f64_half)" "f64_val (f64_add x f64_half) \<le> 9 / 2"
    using f64_order_val(1)[of f64_zero "f64_add x f64_half"] f64_order_val(1)[OF fin constant_4_5(1)] low up fin constant_4_5(2) by simp_all
  define m where "m = \<lfloor>f64_val (f64_add x f64_half)\<rfloor>"
  have "f64_trunc (f64_add x f64_half) = Some m" unfolding m_def by (rule f64_trunc_floor[OF fin val(1)])
  moreover have "0 \<le> m" "m \<le> 4" using val by (simp_all add: m_def floor_le_iff)
  ultimately show ?thesis using le by (auto simp: Nint_def f64_to_int_def)
qed

lemma fill_terms_run:
  assumes "1 \<le> n" "n \<le> 4"
  shows "\<exists>r. fill_terms lib n v (replicate 4 f64_zero) = Inr r \<and> length r = 4"
proof -
  have "nth_res kolmogorov_fj (int j) = Inr (kolmogorov_fj ! j)" if "j < 4" for j using that by (simp add: kolmogorov_fj_def)
  moreover have "upd_res r (int j) e = Inr (r[j := e])" if "j < 4" "length r = 4" for r j and e :: float8 using that by simp
  ultimately have "\<exists>r'. foldM (\<lambda>j r. rbind (nth_res kolmogorov_fj (int j)) (\<lambda>f. upd_res r (int j) (libm_exp lib (f64_mul f v)))) js r = Inr r' \<and> length r' = 4"
    if "\<forall>j\<in>set js. j < 4" "length r = 4" for js r
    using that by (induction js arbitrary: r) simp_all
  note run = this
  show ?thesis unfolding fill_terms_def by (rule run) (use assms in auto)
qed

text \<open>
  The computation of the Kolmogorov distribution writes only elements of its array of four terms and converts only numbers in the
  range of its integers: it returns for every argument that is a number.
\<close>

theorem kolmogorov_returns:
  assumes "\<not> f64_is_nan z"
  shows "\<exists>p. kolmogorovCDF lib z = Inr p"
proof -
  have "\<exists>p. KolmogorovProb lib z = Inr p"
  proof -
    define u where "u = f64_fabs z"
    show ?thesis
    proof (cases "f64_lt u 0x3FE828F5C28F5C29 \<or> \<not> f64_lt u 0x401B3F141205BC02")
      case True
      then show ?thesis by (auto simp: KolmogorovProb_def Let_def simp flip: u_def)
    next
      case False
      have nan: "\<not> f64_is_nan u" using assms by (simp add: u_def)
      have u: "f64_finite u"
      proof (rule between_finite_bound)
        show "f64_le f64_zero u" using f64_fabs_fields[of z] nan f64_mag_nonneg[of z] by (simp add: f64_le_def u_def f64_key_def[of "f64_fabs z"])
        show "f64_le u 0x401B3F141205BC02" using False by (simp add: f64_lt_def f64_le_def)
      qed (rule constant_6_8116)
      have low: "3 / 4 \<le> f64_val u" using False f64_order_val(2)[OF u constant_0_755(1)] constant_0_755(2) by simp
      then have pos: "0 < f64_val u" by simp
      have three: "f64_finite 0x4008000000000000" "f64_val 0x4008000000000000 = 3" using constant_3 by (simp_all add: int_is_def)
      have r: "rounds_to (3 / f64_val u) (f64_div 0x4008000000000000 u)" using f64_div_rounds[OF three(1) u] pos three(2) by simp
      have four: "int_is (f64_of_int 4) 4" by (rule int_is_of_int) simp
      have "3 / f64_val u \<le> 4" using low pos by (simp add: divide_le_eq)
      then have up: "f64_le (f64_div 0x4008000000000000 u) (f64_of_int 4)" using four by (intro rounds_to_le[OF r]) (simp_all add: int_is_def)
      have ge: "f64_le f64_zero (f64_div 0x4008000000000000 u)" using pos by (intro rounds_to_ge[OF r]) simp_all
      have fin: "f64_finite (f64_div 0x4008000000000000 u)" using between_finite_bound[OF ge up int_is_finite[OF four]] .
      have "0 \<le> f64_val (f64_div 0x4008000000000000 u)" "f64_val (f64_div 0x4008000000000000 u) \<le> 4"
        using f64_order_val(1)[of f64_zero "f64_div 0x4008000000000000 u"] f64_order_val(1)[OF fin int_is_finite[OF four]] ge up fin four
        by (simp_all add: int_is_def)
      from Nint_range[OF fin this] obtain n where n: "Nint (f64_div 0x4008000000000000 u) = Inr n" "n \<le> 4" by blast
      obtain r where "fill_terms lib (max 1 n) (f64_mul u u) (replicate 4 f64_zero) = Inr r" using fill_terms_run[of "max 1 n" lib "f64_mul u u"] n(2) by auto
      then show ?thesis using n(1) by (simp add: KolmogorovProb_def Let_def flip: u_def)
    qed
  qed
  then obtain p where "KolmogorovProb lib z = Inr p" by blast
  then show ?thesis by (simp add: kolmogorovCDF_def)
qed

theorem kolmogorov_returns_witness: "\<not> f64_is_nan f64_one \<and> (\<exists>p. kolmogorovCDF half_lib f64_one = Inr p)"
proof -
  have "\<not> f64_is_nan f64_one" using finite_not_special[OF zero_one_values(2)] by simp
  then show ?thesis using kolmogorov_returns by blast
qed

section \<open>Probabilities\<close>

definition probability :: "float8 \<Rightarrow> bool" where
  "probability p \<longleftrightarrow> f64_is_nan p \<or> f64_le f64_zero p \<and> f64_le p f64_one"

lemma probability_constants: "probability f64_zero" "probability f64_one" "probability quiet_NaN"
  by (simp_all add: probability_def f64_le_def) (simp add: f64_is_nan_def f64_mag_def quiet_NaN_def f64_inf_bits_def)

lemma probability_val:
  assumes "\<not> f64_is_nan p" "probability p"
  shows "f64_finite p" "0 \<le> f64_val p" "f64_val p \<le> 1"
proof -
  have le: "f64_le f64_zero p" "f64_le p f64_one" using assms by (simp_all add: probability_def)
  show fin: "f64_finite p" by (rule between_finite_bound[OF le]) simp
  show "0 \<le> f64_val p" "f64_val p \<le> 1" using le f64_order_val(1)[of f64_zero p] f64_order_val(1)[of p f64_one] fin by simp_all
qed

lemma rounds_probability: "rounds_to r p \<Longrightarrow> 0 \<le> r \<Longrightarrow> r \<le> 1 \<Longrightarrow> probability p"
  using rounds_to_ge[of r p f64_zero] rounds_to_le[of r p f64_one] by (simp add: probability_def)

lemma probability_complement:
  assumes "probability p"
  shows "probability (f64_sub f64_one p)"
proof (cases "f64_is_nan p")
  case True
  then show ?thesis by (simp add: probability_def f64_sub_def f64_quiet_nan)
next
  case False
  note val = probability_val[OF False assms]
  from f64_sub_rounds[OF zero_one_values(2) val(1)] show ?thesis by (rule rounds_probability) (use val in simp_all)
qed

lemma probability_half:
  assumes "probability p"
  shows "probability (f64_mul f64_half p)"
proof (cases "f64_is_nan p")
  case True
  have "\<not> f64_is_nan f64_half" using finite_not_special[OF constant_half(1)] by simp
  then show ?thesis using True by (simp add: probability_def f64_mul_def f64_quiet_nan Let_def)
next
  case False
  note val = probability_val[OF False assms]
  from f64_mul_rounds[OF constant_half(1) val(1)] show ?thesis by (rule rounds_probability) (use val in \<open>simp_all add: constant_half(2)\<close>)
qed

text \<open>The functions of Boost return probabilities.\<close>

definition boost_laws :: "mathlib \<Rightarrow> bool" where
  "boost_laws lib \<longleftrightarrow> (\<forall>m s t p. boost_normal lib m s t = Inr p \<longrightarrow> probability p) \<and> (\<forall>nu t p. boost_students_t lib nu t = Inr p \<longrightarrow> probability p)"

lemma normalCDF_probability: "boost_laws lib \<Longrightarrow> normalCDF lib t m s = Inr p \<Longrightarrow> probability p"
  by (auto simp: normalCDF_def boost_laws_def probability_constants split: if_splits)

lemma clamp_probability: "\<not> f64_lt f64_one A \<Longrightarrow> \<not> f64_lt A f64_zero \<Longrightarrow> probability A"
  by (cases "f64_is_nan A") (auto simp: probability_def f64_lt_def f64_le_def)

text \<open>
  The value of Student's distribution is between 0 and 1 or not a number, for every argument and every number of degrees of freedom, if the
  library functions for the normal distribution and Student's distribution have this property.
\<close>

theorem studentT_probability:
  assumes "boost_laws lib" "studentT_CDF lib t nu = Inr p"
  shows "f64_is_nan p \<or> f64_le f64_zero p \<and> f64_le p f64_one"
proof -
  have boost: "probability p" if "boost_students_t lib nu t = Inr p" for p using assms(1) that by (auto simp: boost_laws_def)
  have "probability p"
    using assms(2) boost normalCDF_probability[OF assms(1)]
    unfolding studentT_CDF_def studentT_cdf_approx_def rbind_eq_Inr_iff Let_def
    by (auto simp: rbind_eq_Inr_iff probability_constants intro!: probability_half probability_complement intro: clamp_probability split: if_splits)
  then show ?thesis by (simp add: probability_def)
qed

theorem studentT_probability_witness:
  "boost_laws half_lib \<and> studentT_CDF half_lib f64_one 0x412E848000000000 = Inr f64_half \<and>
    (f64_is_nan f64_half \<or> f64_le f64_zero f64_half \<and> f64_le f64_half f64_one)"
proof -
  have "probability f64_half" using f64_order_val(1)[of f64_zero f64_half] f64_order_val(1)[of f64_half f64_one] by (simp add: probability_def)
  then have laws: "boost_laws half_lib" by (simp add: boost_laws_def half_lib_def)
  have nu: "\<not> f64_le 0x412E848000000000 f64_zero" "f64_le 0x412E848000000000 0x412E848000000000" "\<not> f64_is_nan 0x412E848000000000"
    by (simp_all add: f64_le_def f64_key_def[of "0x412E848000000000"] f64_is_nan_def f64_mag_def f64_sign_def f64_inf_bits_def)
  have t: "\<not> f64_eq f64_one f64_infinity" "\<not> f64_eq f64_one (f64_neg f64_infinity)"
    by (simp_all add: f64_eq_def f64_infinity_def f64_neg_def f64_key_def f64_mag_def f64_sign_def f64_one_def)
  have "\<not> f64_lt f64_one f64_zero" by (simp add: f64_lt_def)
  then have run: "studentT_CDF half_lib f64_one 0x412E848000000000 = Inr f64_half"
    using nu t by (simp add: studentT_CDF_def normalCDF_def half_lib_def)
  show ?thesis using laws run studentT_probability[OF laws run] by blast
qed

end
