(* ===== verification/StatTests.thy ===== *)
theory StatTests
  imports Anova
begin

text \<open>
  The aggregates of the t-tests and the F-test, \<open>modules/stats/t_test.cpp\<close>, and of the chi-squared goodness-of-fit test,
  \<open>modules/stats/chi_squared_test.cpp\<close>.  NULL is \<open>None\<close>.
\<close>

section \<open>The t-tests\<close>

text \<open>Number of values, sum, and corrected sum of squares of the two samples.\<close>

record ttest_state =
  momentsX :: moments
  momentsY :: moments

definition ttest_load :: "float8 list \<Rightarrow> ttest_state res" where
  "ttest_load a = rbind (bind_fields a [0, 1, 2, 3, 4, 5]) (\<lambda>_.
     Inr \<lparr>momentsX = (a ! 0, a ! 1, a ! 2), momentsY = (a ! 3, a ! 4, a ! 5)\<rparr>)"

definition ttest_store :: "ttest_state \<Rightarrow> float8 list" where
  "ttest_store s = (case (momentsX s, momentsY s) of ((n, t, c), (n', t', c')) \<Rightarrow> [n, t, c, n', t', c'])"

definition t_test_one_transition :: "float8 list \<Rightarrow> float8 \<Rightarrow> float8 list res" where
  "t_test_one_transition a x =
     rbind (ttest_load a) (\<lambda>s.
       Inr (ttest_store (s\<lparr>momentsX := updateCorrectedSumOfSquares (momentsX s) (f64_one, x, f64_zero)\<rparr>) @ drop 6 a))"

definition t_test_two_transition :: "float8 list \<Rightarrow> bool \<Rightarrow> float8 \<Rightarrow> float8 list res" where
  "t_test_two_transition a firstSample x =
     rbind (ttest_load a) (\<lambda>s.
     let r = (f64_one, x, f64_zero);
         s = (if firstSample then s\<lparr>momentsX := updateCorrectedSumOfSquares (momentsX s) r\<rparr>
              else s\<lparr>momentsY := updateCorrectedSumOfSquares (momentsY s) r\<rparr>)
     in Inr (ttest_store s @ drop 6 a))"

text \<open>
  The fields of a state that cannot be changed are read as unsigned integers of 64 bits, and converted back where
  a double is needed.
\<close>

definition read_moments :: "moments \<Rightarrow> (int \<times> float8 \<times> float8) res" where
  "read_moments = (\<lambda>(n, t, c). rbind (f64_to_uint 64 n) (\<lambda>n. Inr (n, t, c)))"

definition t_test_merge_states :: "float8 list \<Rightarrow> float8 list \<Rightarrow> float8 list res" where
  "t_test_merge_states a b =
     rbind (ttest_load a) (\<lambda>left. rbind (ttest_load b) (\<lambda>right.
     rbind (read_moments (momentsX right)) (\<lambda>(n, t, c). rbind (read_moments (momentsY right)) (\<lambda>(n', t', c').
       Inr (ttest_store \<lparr>momentsX = updateCorrectedSumOfSquares (momentsX left) (f64_of_int n, t, c),
                         momentsY = updateCorrectedSumOfSquares (momentsY left) (f64_of_int n', t', c')\<rparr> @ drop 6 a)))))"

text \<open>The statistic, the degrees of freedom, and the one-sided and two-sided p-values.\<close>

type_synonym ttest_result = "float8 \<times> float8 \<times> float8 \<times> float8"

definition tStatsToResult :: "mathlib \<Rightarrow> float8 \<Rightarrow> float8 \<Rightarrow> ttest_result res" where
  "tStatsToResult lib t df =
     rbind (studentT_CDF lib t df) (\<lambda>p1. rbind (studentT_CDF lib (f64_fabs t) df) (\<lambda>p2.
       Inr (t, df, f64_sub f64_one p1, f64_mul f64_two (f64_sub f64_one p2))))"

definition t_test_one_final :: "mathlib \<Rightarrow> float8 list \<Rightarrow> ttest_result option res" where
  "t_test_one_final lib a =
     rbind (ttest_load a) (\<lambda>s. rbind (read_moments (momentsX s)) (\<lambda>(numX, x_sum, squares).
     if numX \<le> 1 then Inr None
     else
       let degreeOfFreedom = f64_of_int (numX - 1);
           sampleVariance = f64_div squares degreeOfFreedom;
           t = f64_mul (f64_sqrt (f64_div (f64_of_int numX) sampleVariance)) (f64_div x_sum (f64_of_int numX))
       in rbind (tStatsToResult lib t degreeOfFreedom) (\<lambda>r. Inr (Some r))))"

text \<open>The sum of the two numbers of values wraps around at 64 bits.\<close>

definition t_test_two_pooled_final :: "mathlib \<Rightarrow> float8 list \<Rightarrow> ttest_result option res" where
  "t_test_two_pooled_final lib a =
     rbind (ttest_load a) (\<lambda>s.
     rbind (read_moments (momentsX s)) (\<lambda>(numX, x_sum, squaresX). rbind (read_moments (momentsY s)) (\<lambda>(numY, y_sum, squaresY).
     if numX = 0 \<or> numY = 0 \<or> (numX + numY) mod 2 ^ 64 \<le> 2 then Inr None
     else
       let dfEqualVar = f64_of_int ((numX + numY - 2) mod 2 ^ 64);
           diffInMeans = f64_sub (f64_div x_sum (f64_of_int numX)) (f64_div y_sum (f64_of_int numY));
           sampleVariancePooled = f64_div (f64_add squaresX squaresY) dfEqualVar;
           tDenomEqualVar = f64_sqrt (f64_mul sampleVariancePooled
             (f64_add (f64_div f64_one (f64_of_int numX)) (f64_div f64_one (f64_of_int numY))))
       in rbind (tStatsToResult lib (f64_div diffInMeans tDenomEqualVar) dfEqualVar) (\<lambda>r. Inr (Some r)))))"

definition t_test_two_unpooled_final :: "mathlib \<Rightarrow> float8 list \<Rightarrow> ttest_result option res" where
  "t_test_two_unpooled_final lib a =
     rbind (ttest_load a) (\<lambda>s.
     rbind (read_moments (momentsX s)) (\<lambda>(numX, x_sum, squaresX). rbind (read_moments (momentsY s)) (\<lambda>(numY, y_sum, squaresY).
     if numX \<le> 1 \<or> numY \<le> 1 then Inr None
     else
       let sampleVarianceX = f64_div squaresX (f64_of_int (numX - 1));
           sampleVarianceY = f64_div squaresY (f64_of_int (numY - 1));
           x_over_n = f64_div sampleVarianceX (f64_of_int numX);
           y_over_n = f64_div sampleVarianceY (f64_of_int numY);
           dfUnequalVar = f64_div (libm_pow lib (f64_add x_over_n y_over_n) f64_two)
             (f64_add (f64_div (libm_pow lib x_over_n f64_two) (f64_sub (f64_of_int numX) f64_one))
                      (f64_div (libm_pow lib y_over_n f64_two) (f64_sub (f64_of_int numY) f64_one)));
           diffInMeans = f64_sub (f64_div x_sum (f64_of_int numX)) (f64_div y_sum (f64_of_int numY));
           tDenomUnequalVar = f64_sqrt (f64_add x_over_n y_over_n)
       in rbind (tStatsToResult lib (f64_div diffInMeans tDenomUnequalVar) dfUnequalVar) (\<lambda>r. Inr (Some r)))))"

definition f64_min :: "float8 \<Rightarrow> float8 \<Rightarrow> float8" where
  "f64_min a b = (if f64_lt b a then b else a)"

definition f_test_final :: "mathlib \<Rightarrow> float8 list \<Rightarrow> (float8 \<times> float8 \<times> float8 \<times> float8 \<times> float8) option res" where
  "f_test_final lib a =
     rbind (ttest_load a) (\<lambda>s.
     rbind (read_moments (momentsX s)) (\<lambda>(numX, x_sum, squaresX). rbind (read_moments (momentsY s)) (\<lambda>(numY, y_sum, squaresY).
     if numX \<le> 1 \<or> numY \<le> 1 then Inr None
     else
       let dfX = f64_of_int (numX - 1); dfY = f64_of_int (numY - 1);
           statistic = f64_div (f64_div squaresX dfX) (f64_div squaresY dfY)
       in rbind (fisherF_CDF lib statistic dfX dfY) (\<lambda>p.
          let pvalue_one_sided = f64_sub f64_one p;
              pvalue_two_sided = f64_mul f64_two (f64_min pvalue_one_sided (f64_sub f64_one pvalue_one_sided))
          in Inr (Some (statistic, dfX, dfY, pvalue_one_sided, pvalue_two_sided))))))"

section \<open>The chi-squared goodness-of-fit test\<close>

record chi2_state =
  chi2_numRows :: float8
  sum_expect :: float8
  sum_obs_square_over_expect :: float8
  sum_obs :: float8
  sumSquaredDeviations :: float8
  uniformDist :: float8
  chi2_df :: float8

definition chi2_load :: "float8 list \<Rightarrow> chi2_state res" where
  "chi2_load a = rbind (bind_fields a [0, 1, 2, 3, 4, 5, 6]) (\<lambda>_.
     Inr \<lparr>chi2_numRows = a ! 0, sum_expect = a ! 1, sum_obs_square_over_expect = a ! 2, sum_obs = a ! 3,
          sumSquaredDeviations = a ! 4, uniformDist = a ! 5, chi2_df = a ! 6\<rparr>)"

definition chi2_store :: "chi2_state \<Rightarrow> float8 list" where
  "chi2_store s = [chi2_numRows s, sum_expect s, sum_obs_square_over_expect s, sum_obs s, sumSquaredDeviations s, uniformDist s, chi2_df s]"

text \<open>The arguments of the right side are the number of rows, and the four sums.\<close>

definition updateSumSquaredDeviations :: "float8 \<Rightarrow> float8 \<Rightarrow> float8 \<Rightarrow> float8 \<Rightarrow> float8 \<Rightarrow> chi2_state \<Rightarrow> chi2_state" where
  "updateSumSquaredDeviations n e q o' d s =
     (if f64_le n f64_zero then s
      else s\<lparr>sumSquaredDeviations := f64_add (sumSquaredDeviations s)
               (f64_sub (f64_add (f64_add d (f64_mul (sum_expect s) q)) (f64_mul (sum_obs_square_over_expect s) e))
                  (f64_mul (f64_mul f64_two (sum_obs s)) o')),
             chi2_numRows := f64_add (chi2_numRows s) n,
             sum_expect := f64_add (sum_expect s) e,
             sum_obs_square_over_expect := f64_add (sum_obs_square_over_expect s) q,
             sum_obs := f64_add (sum_obs s) o'\<rparr>)"

definition bool_to_f64 :: "bool \<Rightarrow> float8" where
  "bool_to_f64 b = (if b then f64_one else f64_zero)"

text \<open>
  Missing arguments are treated like NULL; the expected number is then 1, and the degrees of freedom -1.  The fields of a state that can be changed
  are compared as doubles.
\<close>

definition chi2_parameters :: "float8 option \<Rightarrow> int option \<Rightarrow> chi2_state \<Rightarrow> chi2_state res" where
  "chi2_parameters expectedArg dfArg s =
     (let uniform = bool_to_f64 (expectedArg = None); df = (case dfArg of None \<Rightarrow> - 1 | Some n \<Rightarrow> n) in
      rbind (if \<not> f64_eq (uniformDist s) uniform then
               rbind (check (\<not> f64_lt f64_zero (chi2_numRows s)) ''Expected number of observations must be given for all events or must be NULL for all events, in which case a discrete uniform distribution is assumed.'')
                 (\<lambda>_. Inr (s\<lparr>uniformDist := uniform\<rparr>))
             else Inr s) (\<lambda>s.
      if dfArg \<noteq> None \<and> df \<le> 0 then Inl (Report ''Degree of freedom must be positive.'')
      else if \<not> f64_eq (chi2_df s) (f64_of_int df) then
        rbind (check (\<not> f64_lt f64_zero (chi2_numRows s)) ''Degree of freedom must be constant.'') (\<lambda>_. Inr (s\<lparr>chi2_df := f64_of_int df\<rparr>))
      else Inr s))"

definition chi2_step :: "int \<Rightarrow> float8 option \<Rightarrow> int option \<Rightarrow> chi2_state \<Rightarrow> chi2_state res" where
  "chi2_step observed expectedArg dfArg s =
     (let expected = (case expectedArg of None \<Rightarrow> f64_one | Some e \<Rightarrow> e); obs = f64_of_int observed in
      rbind (chi2_parameters expectedArg dfArg s) (\<lambda>s.
        Inr (updateSumSquaredDeviations f64_one expected (f64_div (f64_mul obs obs) expected) obs f64_zero s)))"

definition chi2_gof_test_transition :: "float8 list \<Rightarrow> int \<Rightarrow> float8 option \<Rightarrow> int option \<Rightarrow> float8 list res" where
  "chi2_gof_test_transition a observed expectedArg dfArg =
     rbind (chi2_load a) (\<lambda>s. rbind (chi2_step observed expectedArg dfArg s) (\<lambda>s. Inr (chi2_store s @ drop 7 a)))"

text \<open>
  In the merge the right state is read as integers and a truth value, and compared with the doubles on the left; an assignment copies the double.
\<close>

definition f64_to_int64 :: "float8 \<Rightarrow> int res" where
  "f64_to_int64 x = (case f64_trunc x of
     None \<Rightarrow> Inl Undefined
   | Some n \<Rightarrow> rbind (guard_mem (- (2 ^ 63) \<le> n \<and> n < 2 ^ 63)) (\<lambda>_. Inr n))"

definition chi2_gof_test_merge_states :: "float8 list \<Rightarrow> float8 list \<Rightarrow> float8 list res" where
  "chi2_gof_test_merge_states a b =
     rbind (chi2_load a) (\<lambda>left. rbind (chi2_load b) (\<lambda>right.
     let empty = f64_eq (chi2_numRows left) f64_zero in
     rbind (f64_to_uint 64 (chi2_numRows right)) (\<lambda>n.
     rbind (f64_to_int64 (chi2_df right)) (\<lambda>df.
     rbind (if \<not> f64_eq (uniformDist left) (bool_to_f64 (\<not> f64_eq (uniformDist right) f64_zero)) then
              if empty then Inr (left\<lparr>uniformDist := uniformDist right\<rparr>)
              else rbind (check (\<not> 0 < n) ''Expected number of observations must be given for all events or must be NULL for all events, in which case a discrete uniform distribution is assumed.'')
                (\<lambda>_. Inr left)
            else Inr left) (\<lambda>left.
     rbind (if \<not> f64_eq (chi2_df left) (f64_of_int df) then
              if empty then Inr (left\<lparr>chi2_df := chi2_df right\<rparr>)
              else rbind (check (\<not> 0 < n) ''Degree of freedom must be constant.'') (\<lambda>_. Inr left)
            else Inr left) (\<lambda>left.
       Inr (chi2_store (updateSumSquaredDeviations (f64_of_int n) (sum_expect right) (sum_obs_square_over_expect right) (sum_obs right)
              (sumSquaredDeviations right) left) @ drop 7 a)))))))"

text \<open>Statistic, p-value, degrees of freedom, phi and the contingency coefficient.\<close>

definition chi2_gof_test_final :: "mathlib \<Rightarrow> float8 list \<Rightarrow> (float8 \<times> float8 \<times> int \<times> float8 \<times> float8) option res" where
  "chi2_gof_test_final lib a =
     rbind (chi2_load a) (\<lambda>s.
     rbind (f64_to_uint 64 (chi2_numRows s)) (\<lambda>n.
     if n = 0 then Inr None
     else rbind (f64_to_int64 (chi2_df s)) (\<lambda>df.
       let degreeOfFreedom = (if df < 0 then n - 1 else df);
           statistic = f64_div (sumSquaredDeviations s) (sum_obs s);
           phi = f64_sqrt (f64_div statistic (f64_of_int n));
           C = f64_sqrt (f64_div statistic (f64_add (f64_of_int n) statistic))
       in rbind (chiSquaredCDF lib statistic (f64_of_int degreeOfFreedom)) (\<lambda>p.
            Inr (Some (statistic, f64_sub f64_one p, degreeOfFreedom, phi, C))))))"

end
