(* ===== verification/StateArray.thy ===== *)
theory StateArray
  imports Prelude
begin

text \<open>
  The transition states of the aggregates in \<open>src/modules\<close> are objects over an array of the database: a constructor reads
  the fields from the array, and the conversion to the backend's type is the array.  The locale states this interface; a transition function
  that reads the state, steps, and returns the array, runs like its steps on the states.
\<close>

locale state_array =
  fixes load :: "'a list \<Rightarrow> 's res" and store :: "'s \<Rightarrow> 'a list" and valid :: "'s \<Rightarrow> bool"
  assumes load_store: "valid s \<Longrightarrow> load (store s) = Inr s"
begin

lemma fold_transition:
  assumes step: "\<And>x s s'. valid s \<Longrightarrow> step x s = Inr s' \<Longrightarrow> valid s'"
    and run: "\<And>x s. valid s \<Longrightarrow> transition x (store s) = rbind (load (store s)) (\<lambda>s. rbind (step x s) (\<lambda>s. Inr (store s)))"
    and s: "valid s"
  shows "foldM transition xs (store s) = rbind (foldM step xs s) (\<lambda>s. Inr (store s))"
  using s
proof (induction xs arbitrary: s)
  case (Cons x xs)
  have "transition x (store s) = rbind (step x s) (\<lambda>s. Inr (store s))" using run[OF Cons.prems] load_store[OF Cons.prems] by simp
  then show ?case using Cons.IH step[OF Cons.prems, of x] by (cases "step x s") simp_all
qed simp

end

end
