(* ===== verification/StatTestsFacts.thy ===== *)
theory StatTestsFacts
  imports StatTests AnovaFacts Float64Int StateArray
begin

text \<open>
  With counts for which no event has an expected number, the chi-squared aggregate computes exactly with integers, and its statistic
  is the rounded value of Pearson's statistic.
\<close>

section \<open>The chi-squared state of integer counts\<close>

definition squares :: "int list \<Rightarrow> int" where
  "squares os = sum_list (map (\<lambda>x. x * x) os)"

lemma squares_simps [simp]: "squares [] = 0" "squares (os @ [x]) = squares os + x * x"
  by (simp_all add: squares_def)

lemma squares_bounds:
  assumes "\<forall>x\<in>set os. 0 \<le> x"
  shows "0 \<le> sum_list os" "0 \<le> squares os" "squares os \<le> sum_list os * sum_list os"
  using assms
proof (induction os)
  case (Cons x os)
  { case 1 then show ?case using Cons by simp
  next case 2 then show ?case using Cons by (simp add: squares_def)
  next case 3
    then have "0 \<le> x * sum_list os" using Cons(1) by simp
    then show ?case using Cons(3) 3 by (simp add: squares_def algebra_simps) }
qed (simp_all add: squares_def)

text \<open>The state after the counts \<open>os\<close>.\<close>

definition chi2_fields :: "int list \<Rightarrow> chi2_state \<Rightarrow> bool" where
  "chi2_fields os s \<longleftrightarrow> int_is (chi2_numRows s) (int (length os)) \<and> int_is (sum_expect s) (int (length os)) \<and>
     int_is (sum_obs_square_over_expect s) (squares os) \<and> int_is (sum_obs s) (sum_list os) \<and>
     int_is (sumSquaredDeviations s) (int (length os) * squares os - sum_list os * sum_list os)"

lemma chi2_fields_step:
  assumes s: "chi2_fields os s" and pos: "\<forall>o'\<in>set (os @ [x]). 0 \<le> o'"
    and small: "int (length (os @ [x])) * (sum_list (os @ [x]) * sum_list (os @ [x])) < 2 ^ 51" "length (os @ [x]) < 2 ^ 51"
  shows "chi2_fields (os @ [x]) (updateSumSquaredDeviations f64_one f64_one (f64_div (f64_mul (f64_of_int x) (f64_of_int x)) f64_one) (f64_of_int x) f64_zero s)"
proof -
  define k where "k = int (length os)"
  define S where "S = sum_list os"
  define Q where "Q = squares os"
  have b: "0 \<le> S" "0 \<le> Q" "Q \<le> S * S" "0 \<le> x" "0 \<le> k" using squares_bounds[of os] pos by (simp_all add: S_def Q_def k_def)
  have p53: "(2 :: int) ^ 53 = 9007199254740992" by simp
  have T: "(k + 1) * ((S + x) * (S + x)) < 2251799813685248" "k + 1 < 2251799813685248" using small by (simp_all add: k_def S_def algebra_simps)
  have "1 * ((S + x) * (S + x)) \<le> (k + 1) * ((S + x) * (S + x))" using b by (intro mult_right_mono) simp_all
  then have T2: "(S + x) * (S + x) < 2251799813685248" using T(1) by linarith
  have le: "S * S \<le> (S + x) * (S + x)" "x * x \<le> (S + x) * (S + x)" "S * x \<le> (S + x) * (S + x)" "Q + x * x \<le> (S + x) * (S + x)" "S + x \<le> (S + x) * (S + x)"
  proof -
    have "0 \<le> S * x" "0 \<le> x * x" "0 \<le> S * S" using b by simp_all
    then show "S * S \<le> (S + x) * (S + x)" "x * x \<le> (S + x) * (S + x)" "S * x \<le> (S + x) * (S + x)" "Q + x * x \<le> (S + x) * (S + x)"
      using b(3) by (simp_all add: algebra_simps)
    show "S + x \<le> (S + x) * (S + x)" using b by (cases "S + x = 0") (auto simp: mult_le_cancel_left1)
  qed
  have kk: "k * (x * x) \<le> (k + 1) * ((S + x) * (S + x))" "k * Q \<le> (k + 1) * ((S + x) * (S + x))" "(k + 1) * (Q + x * x) \<le> (k + 1) * ((S + x) * (S + x))"
    using b le by (auto intro!: mult_mono order_trans[OF b(3) le(1)])
  have nn: "0 \<le> k * (x * x)" "0 \<le> k * Q" "0 \<le> S * x" "0 \<le> x * x" "0 \<le> S * S" using b by simp_all
  have x: "int_is (f64_of_int x) x" using le(5) T2 b by (intro int_is_of_int; (simp only: p53)?; linarith)
  have xx: "int_is (f64_div (f64_mul (f64_of_int x) (f64_of_int x)) f64_one) (x * x)"
    using le(2) T2 nn by (intro int_is_div_one int_is_mul x; (simp only: p53)?; linarith)
  have two: "int_is f64_two 2" by (simp add: int_is_def)
  have f: "int_is (chi2_numRows s) k" "int_is (sum_expect s) k" "int_is (sum_obs_square_over_expect s) Q" "int_is (sum_obs s) S"
    "int_is (sumSquaredDeviations s) (k * Q - S * S)" using s by (simp_all add: chi2_fields_def k_def S_def Q_def)
  let ?q = "f64_div (f64_mul (f64_of_int x) (f64_of_int x)) f64_one"
  have ek: "int_is (f64_mul (sum_expect s) ?q) (k * (x * x))" using kk(1) T(1) nn by (intro int_is_mul f xx; (simp only: p53)?; linarith)
  then have e1: "int_is (f64_add f64_zero (f64_mul (sum_expect s) ?q)) (k * (x * x))" 
    using int_is_add[OF int_is_constants(1) ek] kk(1) T(1) nn by simp
  have e2: "int_is (f64_mul (sum_obs_square_over_expect s) f64_one) Q"
    using int_is_mul[OF f(3) int_is_constants(2)] le(4) T2 nn b by simp
  have e3: "int_is (f64_add (f64_add f64_zero (f64_mul (sum_expect s) ?q)) (f64_mul (sum_obs_square_over_expect s) f64_one)) (k * (x * x) + Q)"
    using kk(1) T(1) le(4) T2 nn b by (intro int_is_add e1 e2; (simp only: p53)?; linarith)
  have tS: "int_is (f64_mul f64_two (sum_obs s)) (2 * S)" using le(5) T2 b by (intro int_is_mul two f; (simp only: p53)?; linarith)
  have e4: "int_is (f64_mul (f64_mul f64_two (sum_obs s)) (f64_of_int x)) (2 * S * x)"
    using le(3) T2 nn by (intro int_is_mul[OF tS x]; (simp only: p53)?; linarith)
  have e5: "int_is (f64_sub (f64_add (f64_add f64_zero (f64_mul (sum_expect s) ?q)) (f64_mul (sum_obs_square_over_expect s) f64_one))
     (f64_mul (f64_mul f64_two (sum_obs s)) (f64_of_int x))) (k * (x * x) + Q - 2 * S * x)"
    using kk(1) T(1) le(3,4) T2 nn b by (intro int_is_sub e3 e4; (simp only: p53)?; linarith)
  have "0 \<le> (k + 1) * (Q + x * x)" "0 \<le> (S + x) * (S + x)" using b by simp_all
  then have diff: "\<bar>(k + 1) * (Q + x * x) - (S + x) * (S + x)\<bar> < 2 ^ 53" using kk(3) T(1) T2 unfolding p53 by linarith
  have "k * Q - S * S + (k * (x * x) + Q - 2 * S * x) = (k + 1) * (Q + x * x) - (S + x) * (S + x)" by (simp add: algebra_simps)
  then have "int_is (f64_add (sumSquaredDeviations s) (f64_sub (f64_add (f64_add f64_zero (f64_mul (sum_expect s) ?q)) (f64_mul (sum_obs_square_over_expect s) f64_one))
     (f64_mul (f64_mul f64_two (sum_obs s)) (f64_of_int x)))) ((k + 1) * (Q + x * x) - (S + x) * (S + x))"
    using int_is_add[OF f(5) e5] diff by simp
  moreover have "int_is (f64_add (chi2_numRows s) f64_one) (k + 1)" "int_is (f64_add (sum_expect s) f64_one) (k + 1)"
    using T(2) b by (auto intro!: int_is_add f)
  moreover have "int_is (f64_add (sum_obs_square_over_expect s) ?q) (Q + x * x)" using le(4) T2 nn b by (intro int_is_add f xx; (simp only: p53)?; linarith)
  moreover have "int_is (f64_add (sum_obs s) (f64_of_int x)) (S + x)" using le(5) T2 b by (intro int_is_add f x; (simp only: p53)?; linarith)
  moreover have "\<not> f64_le f64_one f64_zero" using int_is_order(2)[of f64_one 1 f64_zero 0] by simp
  ultimately show ?thesis
    by (simp add: updateSumSquaredDeviations_def chi2_fields_def k_def[symmetric] S_def[symmetric] Q_def[symmetric] add.commute[of 1] mult.commute)
qed

text \<open>The first row sets the parameters.\<close>

definition chi2_no_parameters :: "bool \<Rightarrow> chi2_state \<Rightarrow> bool" where
  "chi2_no_parameters started s \<longleftrightarrow> uniformDist s = bool_to_f64 started \<and> chi2_df s = (if started then f64_of_int (- 1) else f64_zero)"

lemma minus_one_is: "int_is (f64_of_int (- 1)) (- 1)"
  by (rule int_is_of_int) simp

lemma chi2_parameters_none:
  assumes "chi2_no_parameters (os \<noteq> []) s" "chi2_fields os s"
  shows "chi2_parameters None None s = Inr (s\<lparr>uniformDist := f64_one, chi2_df := f64_of_int (- 1)\<rparr>)"
proof -
  have n: "int_is (chi2_numRows s) (int (length os))" using assms(2) by (simp add: chi2_fields_def)
  note ords = int_is_order[OF int_is_constants(1) n] int_is_order(3)[OF int_is_constants(1) int_is_constants(2)] int_is_order(3)[OF int_is_constants(2) int_is_constants(2)]
    int_is_order(3)[OF int_is_constants(1) minus_one_is] int_is_order(3)[OF minus_one_is minus_one_is]
  show ?thesis
  proof (cases "os = []")
    case True
    then have "uniformDist s = f64_zero" "chi2_df s = f64_zero" using assms(1) by (simp_all add: chi2_no_parameters_def bool_to_f64_def)
    then show ?thesis using ords True by (simp add: chi2_parameters_def bool_to_f64_def)
  next
    case False
    then have "uniformDist s = f64_one" "chi2_df s = f64_of_int (- 1)" using assms(1) by (simp_all add: chi2_no_parameters_def bool_to_f64_def)
    then show ?thesis using ords by (simp add: chi2_parameters_def bool_to_f64_def)
  qed
qed

lemma update_parameters [simp]:
  "uniformDist (updateSumSquaredDeviations n e q o' d s) = uniformDist s" "chi2_df (updateSumSquaredDeviations n e q o' d s) = chi2_df s"
  by (simp_all add: updateSumSquaredDeviations_def)

definition chi2_initial :: chi2_state where
  "chi2_initial = \<lparr>chi2_numRows = f64_zero, sum_expect = f64_zero, sum_obs_square_over_expect = f64_zero, sum_obs = f64_zero,
     sumSquaredDeviations = f64_zero, uniformDist = f64_zero, chi2_df = f64_zero\<rparr>"

lemma chi2_steps:
  assumes "\<forall>x\<in>set os. 0 \<le> x" "int (length os) * (sum_list os * sum_list os) < 2 ^ 51" "length os < 2 ^ 51"
  shows "\<exists>s. foldM (\<lambda>x. chi2_step x None None) os chi2_initial = Inr s \<and> chi2_fields os s \<and> chi2_no_parameters (os \<noteq> []) s"
  using assms
proof (induction os rule: rev_induct)
  case Nil
  then show ?case by (simp add: chi2_fields_def chi2_no_parameters_def chi2_initial_def bool_to_f64_def)
next
  case (snoc x os)
  have b: "0 \<le> sum_list os" "0 \<le> x" using squares_bounds(1)[of os] snoc.prems(1) by simp_all
  have "int (length os) * (sum_list os * sum_list os) \<le> int (length (os @ [x])) * (sum_list (os @ [x]) * sum_list (os @ [x]))"
    using b by (intro mult_mono) simp_all
  then have "int (length os) * (sum_list os * sum_list os) < 2 ^ 51" using snoc.prems(2) by (rule le_less_trans)
  then obtain s where s: "foldM (\<lambda>x. chi2_step x None None) os chi2_initial = Inr s" "chi2_fields os s" "chi2_no_parameters (os \<noteq> []) s"
    using snoc by auto
  let ?s = "s\<lparr>uniformDist := f64_one, chi2_df := f64_of_int (- 1)\<rparr>"
  have "chi2_fields os ?s" using s(2) by (simp add: chi2_fields_def)
  note fields = chi2_fields_step[OF this snoc.prems]
  have "chi2_step x None None s = Inr (updateSumSquaredDeviations f64_one f64_one (f64_div (f64_mul (f64_of_int x) (f64_of_int x)) f64_one) (f64_of_int x) f64_zero ?s)"
    using chi2_parameters_none[OF s(3,2)] by (simp add: chi2_step_def Let_def)
  then show ?case using s(1) fields by (simp add: foldM_append chi2_no_parameters_def bool_to_f64_def)
qed

section \<open>Pearson's statistic\<close>

lemma chi2_load_store: "chi2_load (chi2_store s) = Inr s"
  by (simp add: chi2_load_def bind_fields_ok chi2_store_def)

interpretation chi2: state_array chi2_load chi2_store "\<lambda>_. True"
  by unfold_locales (rule chi2_load_store)

lemma chi2_fold_store:
  "foldM (\<lambda>x a. chi2_gof_test_transition a x e d) os (chi2_store s) = rbind (foldM (\<lambda>x. chi2_step x e d) os s) (\<lambda>s. Inr (chi2_store s))"
proof -
  have "drop 7 (chi2_store s) = []" for s by (simp add: chi2_store_def)
  then show ?thesis by (intro chi2.fold_transition) (simp_all add: chi2_gof_test_transition_def)
qed

definition pearson :: "int list \<Rightarrow> real" where
  "pearson os = (let m = of_int (sum_list os) / of_nat (length os) in sum_list (map (\<lambda>x. (of_int x - m)\<^sup>2 / m) os))"

lemma pearson_eq:
  assumes "0 < sum_list os"
  shows "pearson os = of_int (int (length os) * squares os - sum_list os * sum_list os) / of_int (sum_list os)"
proof -
  have sum: "sum_list (map (\<lambda>x. (of_int x - m)\<^sup>2 / m) xs) =
      (of_int (squares xs) - 2 * m * of_int (sum_list xs) + of_nat (length xs) * m * m) / (m :: real)" for m xs
    by (induction xs) (simp_all add: squares_def power2_eq_square add_divide_distrib algebra_simps diff_divide_distrib)
  have "os \<noteq> []" using assms by auto
  then show ?thesis unfolding pearson_def Let_def sum using assms by (simp add: field_simps)
qed

text \<open>
  For counts without expected numbers the transitions of the chi-squared test succeed, and the statistic of the final function is the rounded value
  of Pearson's statistic for the uniform distribution; the degrees of freedom are the number of events minus one.
\<close>

theorem chi2_uniform_pearson:
  assumes "\<forall>x\<in>set os. 0 \<le> x" "0 < sum_list os" "int (length os) * (sum_list os * sum_list os) < 2 ^ 51"
  shows "\<exists>a statistic phi C. foldM (\<lambda>x a. chi2_gof_test_transition a x None None) os (replicate 7 f64_zero) = Inr a \<and>
    rounds_to (pearson os) statistic \<and>
    chi2_gof_test_final lib a = rbind (chiSquaredCDF lib statistic (f64_of_int (int (length os) - 1)))
      (\<lambda>p. Inr (Some (statistic, f64_sub f64_one p, int (length os) - 1, phi, C)))"
proof -
  have "1 * 1 \<le> sum_list os * sum_list os" using assms(2) by (intro mult_mono) simp_all
  then have "int (length os) * 1 \<le> int (length os) * (sum_list os * sum_list os)" by (intro mult_left_mono) simp_all
  then have len: "int (length os) < 2 ^ 51" using assms(3) by linarith
  then have "length os < 2 ^ 51" by simp
  from chi2_steps[OF assms(1,3) this] obtain s where
    s: "foldM (\<lambda>x. chi2_step x None None) os chi2_initial = Inr s" "chi2_fields os s" "chi2_no_parameters (os \<noteq> []) s" by blast
  have "replicate 7 f64_zero = chi2_store chi2_initial" by (simp add: chi2_initial_def chi2_store_def eval_nat_numeral)
  then have run: "foldM (\<lambda>x a. chi2_gof_test_transition a x None None) os (replicate 7 f64_zero) = Inr (chi2_store s)"
    using chi2_fold_store s(1) by simp
  have f: "int_is (chi2_numRows s) (int (length os))" "int_is (sum_obs s) (sum_list os)"
    "int_is (sumSquaredDeviations s) (int (length os) * squares os - sum_list os * sum_list os)" using s(2) by (simp_all add: chi2_fields_def)
  have n: "f64_to_uint 64 (chi2_numRows s) = Inr (int (length os))" using int_is_trunc[OF f(1)] len by (simp add: f64_to_uint_def)
  have "os \<noteq> []" using assms(2) by auto
  then have "chi2_df s = f64_of_int (- 1)" using s(3) by (simp add: chi2_no_parameters_def)
  then have df: "f64_to_int64 (chi2_df s) = Inr (- 1)" using int_is_trunc[OF minus_one_is] by (simp add: f64_to_int64_def)
  have "rounds_to (pearson os) (f64_div (sumSquaredDeviations s) (sum_obs s))"
    using f64_div_rounds[of "sumSquaredDeviations s" "sum_obs s"] f(2,3) assms(2) pearson_eq[OF assms(2)] by (simp add: int_is_def)
  then show ?thesis using run chi2_load_store[of s] n df \<open>os \<noteq> []\<close>
    by (intro exI[of _ "chi2_store s"] exI[of _ "f64_div (sumSquaredDeviations s) (sum_obs s)"] exI)
      (simp add: chi2_gof_test_final_def Let_def)
qed

theorem chi2_uniform_pearson_witness:
  "\<exists>a statistic phi C. foldM (\<lambda>x a. chi2_gof_test_transition a x None None) [3, 0, 9] (replicate 7 f64_zero) = Inr a \<and>
    rounds_to (pearson [3, 0, 9]) statistic \<and>
    chi2_gof_test_final half_lib a = rbind (chiSquaredCDF half_lib statistic (f64_of_int 2))
      (\<lambda>p. Inr (Some (statistic, f64_sub f64_one p, 2, phi, C)))"
  using chi2_uniform_pearson[of "[3, 0, 9]" half_lib] by (simp del: foldM.simps)

section \<open>Numbers of values of the t-tests\<close>

lemma ttest_load_store: "ttest_load (ttest_store s) = Inr s"
  by (cases s) (auto simp: ttest_load_def bind_fields_ok ttest_store_def split: prod.splits)

interpretation ttest: state_array ttest_load ttest_store "\<lambda>_. True"
  by unfold_locales (rule ttest_load_store)

definition ttest_step :: "bool \<times> float8 \<Rightarrow> ttest_state \<Rightarrow> ttest_state" where
  "ttest_step = (\<lambda>(first, v) s.
     if first then s\<lparr>momentsX := updateCorrectedSumOfSquares (momentsX s) (f64_one, v, f64_zero)\<rparr>
     else s\<lparr>momentsY := updateCorrectedSumOfSquares (momentsY s) (f64_one, v, f64_zero)\<rparr>)"

definition ttest_zero :: ttest_state where
  "ttest_zero = \<lparr>momentsX = no_moments, momentsY = no_moments\<rparr>"

definition values_in :: "bool \<Rightarrow> (bool \<times> float8) list \<Rightarrow> int" where
  "values_in first rows = int (length (filter (\<lambda>(f, v). f = first) rows))"

lemma values_in_snoc: "values_in first (rows @ [(f, v)]) = values_in first rows + (if f = first then 1 else 0)"
  by (simp add: values_in_def)

lemma values_in_bounds: "0 \<le> values_in first rows" "values_in first rows \<le> int (length rows)"
  by (simp_all add: values_in_def)

lemma update_count:
  assumes "int_is (fst m) n" "\<bar>n + 1\<bar> < 2 ^ 53"
  shows "int_is (fst (updateCorrectedSumOfSquares m (f64_one, v, f64_zero))) (n + 1)"
proof -
  obtain w t c where m: "m = (w, t, c)" by (cases m)
  have "\<not> f64_le f64_one f64_zero" by (simp add: f64_le_def)
  then show ?thesis using int_is_add[OF _ int_is_constants(2) assms(2)] assms(1) by (simp add: m Let_def)
qed

lemma ttest_counts:
  assumes "length rows < 2 ^ 53"
  shows "int_is (fst (momentsX (fold ttest_step rows ttest_zero))) (values_in True rows) \<and>
    int_is (fst (momentsY (fold ttest_step rows ttest_zero))) (values_in False rows)"
  using assms
proof (induction rows rule: rev_induct)
  case (snoc row rows)
  obtain f v where row: "row = (f, v)" by (cases row)
  have "int (length rows) + 1 < 2 ^ 53" using snoc.prems by simp
  then have small: "\<bar>values_in b rows + 1\<bar> < 2 ^ 53" for b using values_in_bounds[of b rows] by linarith
  show ?case using snoc update_count[OF _ small] by (auto simp: row values_in_snoc ttest_step_def)
qed (simp add: values_in_def ttest_zero_def no_moments_def)

lemma read_moments_count:
  assumes "int_is (fst m) n" "0 \<le> n" "n < 2 ^ 53"
  shows "\<exists>t c. read_moments m = Inr (n, t, c)"
proof -
  obtain w t c where m: "m = (w, t, c)" by (cases m)
  then show ?thesis using int_is_trunc[of w n] assms by (simp add: read_moments_def f64_to_uint_def)
qed

lemma rbind_Some [simp]: "rbind m (\<lambda>r. Inr (Some (f r))) \<noteq> Inr None"
  by (cases m) simp_all

text \<open>
  The two-sample tests and the F-test return NULL exactly when there are too few values: when a sample has less than two values, and for
  equal variances when a sample is empty or the two samples have at most two values together.
\<close>

theorem t_test_null:
  assumes "length rows < 2 ^ 53"
  shows "\<exists>a. foldM (\<lambda>(first, v) a. t_test_two_transition a first v) rows (replicate 6 f64_zero) = Inr a \<and>
    (t_test_two_unpooled_final lib a = Inr None \<longleftrightarrow> values_in True rows \<le> 1 \<or> values_in False rows \<le> 1) \<and>
    (f_test_final lib a = Inr None \<longleftrightarrow> values_in True rows \<le> 1 \<or> values_in False rows \<le> 1) \<and>
    (t_test_two_pooled_final lib a = Inr None \<longleftrightarrow>
       values_in True rows = 0 \<or> values_in False rows = 0 \<or> values_in True rows + values_in False rows \<le> 2)"
proof -
  define s where "s = fold ttest_step rows ttest_zero"
  have "drop 6 (ttest_store s) = []" for s by (simp add: ttest_store_def split: prod.split)
  then have "foldM (\<lambda>(first, v) a. t_test_two_transition a first v) rows (ttest_store ttest_zero) =
      rbind (foldM (\<lambda>row s. Inr (ttest_step row s)) rows ttest_zero) (\<lambda>s. Inr (ttest_store s))"
    by (intro ttest.fold_transition) (auto simp: t_test_two_transition_def ttest_step_def ttest_load_store)
  moreover have "foldM (\<lambda>row s. Inr (ttest_step row s)) rows ttest_zero = Inr s" unfolding s_def by (rule foldM_fold) simp
  moreover have "ttest_store ttest_zero = replicate 6 f64_zero" by (simp add: ttest_store_def ttest_zero_def no_moments_def eval_nat_numeral)
  ultimately have run: "foldM (\<lambda>(first, v) a. t_test_two_transition a first v) rows (replicate 6 f64_zero) = Inr (ttest_store s)" by simp
  define n where "n = values_in True rows"
  define m where "m = values_in False rows"
  have "int (length rows) < 2 ^ 53" using assms by simp
  then have b: "0 \<le> n" "n < 2 ^ 53" "0 \<le> m" "m < 2 ^ 53" using values_in_bounds[of True rows] values_in_bounds[of False rows] by (simp_all add: n_def m_def)
  obtain t c where X: "read_moments (momentsX s) = Inr (n, t, c)" using read_moments_count[of "momentsX s" n] ttest_counts[OF assms] b(1,2) unfolding s_def n_def by blast
  obtain t' c' where Y: "read_moments (momentsY s) = Inr (m, t', c')" using read_moments_count[of "momentsY s" m] ttest_counts[OF assms] b(3,4) unfolding s_def m_def by blast
  have "t_test_two_unpooled_final lib (ttest_store s) = Inr None \<longleftrightarrow> n \<le> 1 \<or> m \<le> 1"
    using X Y by (simp add: t_test_two_unpooled_final_def ttest_load_store Let_def)
  moreover have "f_test_final lib (ttest_store s) = Inr None \<longleftrightarrow> n \<le> 1 \<or> m \<le> 1"
    using X Y by (simp add: f_test_final_def ttest_load_store Let_def)
  moreover have "(n + m) mod 2 ^ 64 = n + m" using b by simp
  then have "t_test_two_pooled_final lib (ttest_store s) = Inr None \<longleftrightarrow> n = 0 \<or> m = 0 \<or> n + m \<le> 2"
    using X Y by (simp add: t_test_two_pooled_final_def ttest_load_store Let_def)
  ultimately show ?thesis using run unfolding n_def m_def by blast
qed

theorem t_test_null_witness:
  "\<exists>a. foldM (\<lambda>(first, v) a. t_test_two_transition a first v) [(True, f64_one), (False, f64_two), (True, f64_half)] (replicate 6 f64_zero) = Inr a \<and>
    t_test_two_unpooled_final half_lib a = Inr None \<and> f_test_final half_lib a = Inr None \<and> t_test_two_pooled_final half_lib a \<noteq> Inr None"
proof -
  have "values_in True [(True, f64_one), (False, f64_two), (True, f64_half)] = 2" "values_in False [(True, f64_one), (False, f64_two), (True, f64_half)] = 1"
    by (simp_all add: values_in_def)
  then show ?thesis using t_test_null[of "[(True, f64_one), (False, f64_two), (True, f64_half)]" half_lib] by (simp del: foldM.simps)
qed

end
