(* ===== verification/Linear.thy ===== *)
theory Linear
  imports RankTests Anova
begin

text \<open>
  The aggregate of linear regression, \<open>modules/regress/linear.cpp\<close>, with the eigen decomposition of
  \<open>dbal/EigenIntegration\<close>.  A matrix is the list of its columns, one after the other.  Parameters: the reductions and
  decompositions of the Eigen library; its operations on elements are modelled by the operations on each element.
\<close>

section \<open>Eigen\<close>

type_synonym vec = "float8 list"
type_synonym mat = "float8 list"

text \<open>
  \<open>eig_dot\<close>, the product of a square matrix and a vector, the quadratic form \<open>trans(d) * M * d\<close>, the eigenvalues in
  increasing order, eigenvalues and eigenvectors, the inverse by a Cholesky decomposition, and
  \<open>V * diagonal * trans(V)\<close>.  The decompositions only use the lower triangle.
\<close>

record eigen =
  eig_dot :: "vec \<Rightarrow> vec \<Rightarrow> float8"
  eig_mult :: "mat \<Rightarrow> vec \<Rightarrow> vec"
  eig_form :: "mat \<Rightarrow> vec \<Rightarrow> float8"
  eig_values :: "nat \<Rightarrow> mat \<Rightarrow> vec"
  eig_vectors :: "nat \<Rightarrow> mat \<Rightarrow> vec \<times> mat"
  eig_ldlt_inverse :: "nat \<Rightarrow> mat \<Rightarrow> mat"
  eig_compose :: "mat \<Rightarrow> vec \<Rightarrow> mat"

definition same_size :: "'a list \<Rightarrow> 'b list \<Rightarrow> unit res" where
  "same_size xs ys = check (length xs = length ys) ''Internal error. Eigen assertion failed''"

definition vec_op :: "(float8 \<Rightarrow> float8 \<Rightarrow> float8) \<Rightarrow> vec \<Rightarrow> vec \<Rightarrow> vec res" where
  "vec_op f xs ys = rbind (same_size xs ys) (\<lambda>_. Inr (map2 f xs ys))"

text \<open>\<open>is_finite\<close> of \<open>EigenPlugin.hpp\<close>.\<close>

definition is_finite :: "float8 list \<Rightarrow> bool" where
  "is_finite xs \<longleftrightarrow> (\<forall>x\<in>set xs. f64_mag x < f64_inf_bits)"

text \<open>\<open>triangularView<Lower>(M) += x * trans(x)\<close>, where \<open>f\<close> scales the products.\<close>

definition lower_add :: "(float8 \<Rightarrow> float8) \<Rightarrow> vec \<Rightarrow> mat \<Rightarrow> mat" where
  "lower_add f x M =
     map (\<lambda>k. let i = k mod length x; j = k div length x
              in if j \<le> i then f64_add (M ! k) (f (f64_mul (x ! i) (x ! j))) else M ! k) [0..<length M]"

definition diagonal :: "nat \<Rightarrow> mat \<Rightarrow> vec" where
  "diagonal w M = map (\<lambda>i. M ! (i * w + i)) [0..<w]"

section \<open>The eigen decomposition of a symmetric positive definite matrix\<close>

text \<open>Eigenvalues and pseudo-inverse.\<close>

record spd =
  spd_eigenvalues :: vec
  spd_pinv :: mat

definition conditionNo :: "vec \<Rightarrow> float8 res" where
  "conditionNo ev =
     rbind (eigen_at ev (length ev - 1)) (\<lambda>numerator. rbind (eigen_at ev 0) (\<lambda>denominator.
     let denominator = (if f64_lt denominator f64_zero then f64_zero else denominator)
     in Inr (if f64_le numerator f64_zero then f64_infinity else f64_div numerator denominator)))"

definition eigenvectorsInverted :: "nat \<Rightarrow> vec \<Rightarrow> vec res" where
  "eigenvectorsInverted rows ev =
     rbind (eigen_at ev (length ev - 1)) (\<lambda>m.
     let epsilon = f64_mul (f64_mul (f64_of_int (int rows)) m) f64_epsilon
     in Inr (map (\<lambda>e. if f64_lt e epsilon then f64_zero else f64_div f64_one e) ev))"

text \<open>1000 is \<open>0x408F400000000000\<close>.\<close>

definition spd_decompose :: "eigen \<Rightarrow> nat \<Rightarrow> mat \<Rightarrow> spd res" where
  "spd_decompose eig w M =
     (let ev = eig_values eig w M in
      rbind (conditionNo ev) (\<lambda>c.
      if f64_lt c 0x408F400000000000 then Inr \<lparr>spd_eigenvalues = ev, spd_pinv = eig_ldlt_inverse eig w M\<rparr>
      else
        let (ev, vectors) = eig_vectors eig w M
        in rbind (eigenvectorsInverted w ev) (\<lambda>inverted. Inr \<lparr>spd_eigenvalues = ev, spd_pinv = eig_compose eig vectors inverted\<rparr>)))"

section \<open>The transition state\<close>

record linregr_state =
  lr_numRows :: float8
  lr_widthOfX :: float8
  y_sum :: float8
  y_square_sum :: float8
  X_transp_Y :: vec
  lr_padding :: "float8 list"
  X_transp_X :: mat
  lr_rest :: "float8 list"

text \<open>The size is computed with 32-bit integers, whose overflow is undefined.\<close>

definition linregr_arraySize :: "nat \<Rightarrow> nat res" where
  "linregr_arraySize w = rbind (guard_mem (w * w < 2 ^ 31 \<and> 4 + w + w mod 2 + w * w < 2 ^ 31)) (\<lambda>_. Inr (4 + w + w mod 2 + w * w))"

text \<open>Only the first element of the vector and of the matrix is checked; the other elements must lie in the array as well.\<close>

definition linregr_rebind :: "float8 list \<Rightarrow> nat \<Rightarrow> linregr_state res" where
  "linregr_rebind a w =
     (let m = 4 + w + w mod 2 in
      rbind (bind_fields a [0, 1, 2, 3, 4, m]) (\<lambda>_.
      rbind (guard_mem (m + w * w \<le> length a)) (\<lambda>_.
        Inr \<lparr>lr_numRows = a ! 0, lr_widthOfX = a ! 1, y_sum = a ! 2, y_square_sum = a ! 3, X_transp_Y = slice 4 w a,
             lr_padding = slice (4 + w) (w mod 2) a, X_transp_X = slice m (w * w) a, lr_rest = drop (m + w * w) a\<rparr>)))"

definition linregr_load :: "float8 list \<Rightarrow> linregr_state res" where
  "linregr_load a = rbind (handle_at a 1) (\<lambda>x. rbind (f64_to_uint 16 x) (\<lambda>w. linregr_rebind a (nat w)))"

definition linregr_store :: "linregr_state \<Rightarrow> float8 list" where
  "linregr_store s = [lr_numRows s, lr_widthOfX s, y_sum s, y_square_sum s] @ X_transp_Y s @ lr_padding s @ X_transp_X s @ lr_rest s"

definition linregr_initialize :: "nat \<Rightarrow> linregr_state res" where
  "linregr_initialize w =
     rbind (linregr_arraySize w) (\<lambda>n. rbind (linregr_rebind (replicate n f64_zero) w) (\<lambda>s. Inr (s\<lparr>lr_widthOfX := f64_of_int (int w)\<rparr>)))"

section \<open>The aggregate\<close>

definition linregr_row :: "float8 \<Rightarrow> vec \<Rightarrow> linregr_state \<Rightarrow> linregr_state res" where
  "linregr_row y x s =
     rbind (vec_op (\<lambda>t xi. f64_add t (f64_mul xi y)) (X_transp_Y s) x) (\<lambda>xy.
       Inr (s\<lparr>lr_numRows := f64_add (lr_numRows s) f64_one, y_sum := f64_add (y_sum s) y,
              y_square_sum := f64_add (y_square_sum s) (f64_mul y y), X_transp_Y := xy,
              X_transp_X := lower_add id x (X_transp_X s)\<rparr>))"

definition linregr_step :: "float8 \<Rightarrow> vec \<Rightarrow> linregr_state \<Rightarrow> linregr_state res" where
  "linregr_step y x s =
     rbind (check (is_finite [y]) ''Dependent variables are not finite.'') (\<lambda>_.
     rbind (check (is_finite x) ''Design matrix is not finite.'') (\<lambda>_.
     rbind (if f64_eq (lr_numRows s) f64_zero then
              rbind (check (length x \<le> 65535) ''Number of independent variables cannot be larger than 65535.'') (\<lambda>_. linregr_initialize (length x))
            else Inr s) (linregr_row y x)))"

definition linregr_transition :: "float8 list \<Rightarrow> float8 \<Rightarrow> vec \<Rightarrow> float8 list res" where
  "linregr_transition a y x = rbind (linregr_load a) (\<lambda>s. rbind (linregr_step y x s) (\<lambda>s. Inr (linregr_store s)))"

text \<open>The sum adds the whole arrays, and then restores the width.\<close>

definition linregr_plus :: "float8 list \<Rightarrow> float8 list \<Rightarrow> float8 list res" where
  "linregr_plus a b =
     rbind (check (length a = length b) ''Internal error: Incompatible transition states'') (\<lambda>_. Inr ((map2 f64_add a b)[1 := b ! 1]))"

definition linregr_merge_states :: "float8 list \<Rightarrow> float8 list \<Rightarrow> float8 list res" where
  "linregr_merge_states a b =
     rbind (linregr_load a) (\<lambda>left. rbind (linregr_load b) (\<lambda>right.
     if f64_eq (lr_numRows left) f64_zero then Inr b
     else rbind (f64_to_uint 64 (lr_numRows right)) (\<lambda>n. if n = 0 then Inr a else linregr_plus a b)))"

section \<open>The result\<close>

text \<open>Explained and total sum of squares, which are adjusted, and the coefficient of determination.\<close>

definition linregr_sums :: "eigen \<Rightarrow> int \<Rightarrow> vec \<Rightarrow> linregr_state \<Rightarrow> float8 \<times> float8" where
  "linregr_sums eig n coef s =
     (let c = f64_div (f64_mul (y_sum s) (y_sum s)) (f64_of_int n);
          ess = f64_sub (eig_dot eig (X_transp_Y s) coef) c;
          tss = f64_sub (y_square_sum s) c;
          tss = (if f64_lt tss f64_zero then f64_zero else tss);
          ess = (if f64_lt ess f64_zero then f64_zero else ess);
          ess = (if f64_lt tss ess then tss else ess)
      in (ess, tss))"

definition r_squared :: "float8 \<Rightarrow> float8 \<Rightarrow> float8" where
  "r_squared ess tss = (if f64_eq tss f64_zero then f64_one else f64_div ess tss)"

text \<open>Standard error and t statistic of a coefficient.\<close>

definition coef_stats :: "float8 \<Rightarrow> float8 \<Rightarrow> float8 \<Rightarrow> float8 \<times> float8" where
  "coef_stats variance v c =
     (let stdErr = (if f64_lt v f64_zero then f64_zero else f64_sqrt (f64_mul variance v))
      in (stdErr, if f64_eq c f64_zero \<and> f64_eq stdErr f64_zero then f64_zero else f64_div c stdErr))"

text \<open>The degrees of freedom are the difference of an unsigned integer of 64 bits and one of 16 bits.\<close>

definition degrees_of_freedom :: "int \<Rightarrow> int \<Rightarrow> int" where
  "degrees_of_freedom n w = (n - w) mod 2 ^ 64"

record linregr_result =
  lr_coef :: vec
  lr_r2 :: float8
  lr_stdErr :: vec
  lr_tStats :: vec
  lr_pValues :: vec
  lr_conditionNo :: float8

definition linregr_final :: "eigen \<Rightarrow> mathlib \<Rightarrow> float8 list \<Rightarrow> linregr_result option res" where
  "linregr_final eig lib a =
     rbind (linregr_load a) (\<lambda>s. rbind (f64_to_uint 64 (lr_numRows s)) (\<lambda>n. rbind (f64_to_uint 16 (lr_widthOfX s)) (\<lambda>w.
     if n = 0 then Inr None
     else rbind (check (is_finite (X_transp_X s) \<and> is_finite (X_transp_Y s)) ''Design matrix is not finite.'') (\<lambda>_.
     rbind (spd_decompose eig (nat w) (X_transp_X s)) (\<lambda>d.
     let coef = eig_mult eig (spd_pinv d) (X_transp_Y s);
         (ess, tss) = linregr_sums eig n coef s;
         variance = f64_div (f64_sub tss ess) (f64_of_int (degrees_of_freedom n w));
         stats = map2 (coef_stats variance) (diagonal (nat w) (spd_pinv d)) coef
     in rbind (mapM (\<lambda>t. rbind (studentT_CDF lib (f64_fabs t) (f64_of_int (degrees_of_freedom n w))) (\<lambda>p.
            Inr (f64_mul f64_two (f64_sub f64_one p)))) (map snd stats)) (\<lambda>pValues.
        rbind (conditionNo (spd_eigenvalues d)) (\<lambda>condition.
          Inr (Some \<lparr>lr_coef = coef, lr_r2 = r_squared ess tss, lr_stdErr = map fst stats, lr_tStats = map snd stats,
             lr_pValues = pValues, lr_conditionNo = condition\<rparr>))))))))"

end
