(* ===== verification/LinearFacts.thy ===== *)
theory LinearFacts
  imports Linear StatTestsFacts
begin

text \<open>
  Linear regression: exact sums for integer data, the range of the coefficient of determination, and the pseudo-inverse of
  the zero matrix.
\<close>

section \<open>The coefficient of determination\<close>

lemma f64_div_nan: "f64_is_nan x \<or> f64_is_nan y \<Longrightarrow> f64_is_nan (f64_div x y)"
  by (cases "f64_is_nan x") (simp_all add: f64_div_def f64_quiet_nan)

lemma default_nan: "f64_is_nan f64_default_nan"
  by (simp add: f64_is_nan_def f64_mag_def f64_default_nan_def f64_inf_bits_def)

lemma finite_or_special: "f64_finite x \<or> f64_is_inf x \<or> f64_is_nan x"
  by (auto simp: finite_simps)

text \<open>The quotient of ordered numbers that are not negative is between 0 and 1, or it is the quotient of infinities.\<close>

lemma quotient_bounds:
  assumes "f64_le f64_zero x" "f64_le x y" "f64_lt f64_zero y" "\<not> f64_is_nan (f64_div x y)"
  shows "f64_le f64_zero (f64_div x y)" "f64_le (f64_div x y) f64_one"
proof -
  have nan: "\<not> f64_is_nan x" "\<not> f64_is_nan y" using assms(2) by (auto simp: f64_le_def)
  have "f64_le f64_zero (f64_div x y) \<and> f64_le (f64_div x y) f64_one"
  proof (cases "f64_is_inf y")
    case True
    then have "\<not> f64_is_inf x" using assms(4) nan default_nan by (auto simp: f64_div_def)
    then have div: "f64_div x y = f64_of_bits (f64_sign x \<noteq> f64_sign y) 0" using nan True by (simp add: f64_div_def)
    have "f64_mag (f64_of_bits sg 0) = 0" for sg by (rule of_bits_fields(2)) simp_all
    then have "f64_finite (f64_div x y)" "f64_val (f64_div x y) = 0" unfolding div f64_val_mag by (simp_all add: f64_finite_def f64_inf_bits_def mag_val_zero)
    then show ?thesis using f64_order_val[of f64_zero "f64_div x y"] f64_order_val[of "f64_div x y" f64_one] by simp
  next
    case False
    then have y: "f64_finite y" using nan finite_or_special by blast
    have "\<not> f64_is_inf x"
    proof
      assume "f64_is_inf x"
      then have "f64_mag x = f64_inf_bits" "f64_mag y < f64_inf_bits" "0 \<le> f64_mag y" using y by (simp_all add: finite_simps f64_mag_nonneg)
      moreover have "0 \<le> f64_key x" "f64_key x \<le> f64_key y" using assms(1,2) by (simp_all add: f64_le_def)
      ultimately show False by (auto simp: f64_key_def f64_inf_bits_def split: if_splits)
    qed
    then have x: "f64_finite x" using nan finite_or_special by blast
    have val: "0 \<le> f64_val x" "f64_val x \<le> f64_val y" "0 < f64_val y"
      using assms(1-3) f64_order_val[of f64_zero x] f64_order_val[OF x y] f64_order_val[of f64_zero y] x y by simp_all
    then have r: "rounds_to (f64_val x / f64_val y) (f64_div x y)" using f64_div_rounds[OF x y] by simp
    show ?thesis using rounds_to_ge[OF r, of f64_zero] rounds_to_le[OF r, of f64_one] val by simp
  qed
  then show "f64_le f64_zero (f64_div x y)" "f64_le (f64_div x y) f64_one" by simp_all
qed

lemma not_less: "\<not> f64_is_nan x \<Longrightarrow> \<not> f64_is_nan y \<Longrightarrow> \<not> f64_lt x y \<Longrightarrow> f64_le y x"
  by (auto simp: f64_lt_def f64_le_def)

lemma linregr_sums_order:
  assumes "linregr_sums eig n coef s = (ess, tss)" "\<not> f64_is_nan ess" "\<not> f64_is_nan tss"
  shows "f64_le f64_zero ess" "f64_le ess tss" "f64_le f64_zero tss"
proof -
  define t where "t = f64_sub (y_square_sum s) (f64_div (f64_mul (y_sum s) (y_sum s)) (f64_of_int n))"
  define e where "e = f64_sub (eig_dot eig (X_transp_Y s) coef) (f64_div (f64_mul (y_sum s) (y_sum s)) (f64_of_int n))"
  have t: "tss = (if f64_lt t f64_zero then f64_zero else t)" using assms(1) by (auto simp: linregr_sums_def Let_def t_def split: if_splits)
  define e1 where "e1 = (if f64_lt e f64_zero then f64_zero else e)"
  have e: "ess = (if f64_lt tss e1 then tss else e1)" using assms(1) by (auto simp: linregr_sums_def Let_def t_def e_def e1_def split: if_splits)
  have refl: "f64_le x x" if "\<not> f64_is_nan x" for x using that by (simp add: f64_le_def)
  show tss: "f64_le f64_zero tss" using t assms(3) refl not_less[of t f64_zero] by (auto split: if_splits)
  have e1: "f64_le f64_zero e1" if "\<not> f64_is_nan e1" using that refl not_less[of e f64_zero] by (auto simp: e1_def split: if_splits)
  show "f64_le f64_zero ess" using e e1 tss assms(2) by (auto split: if_splits)
  show "f64_le ess tss" using e assms(2,3) refl not_less[of tss e1] by (auto split: if_splits)
qed

lemma r_squared_range:
  assumes "linregr_sums eig n coef s = (ess, tss)"
  shows "f64_is_nan (r_squared ess tss) \<or> (f64_le f64_zero (r_squared ess tss) \<and> f64_le (r_squared ess tss) f64_one)"
proof (cases "f64_is_nan ess \<or> f64_is_nan tss")
  case True
  show ?thesis
  proof (cases "f64_eq tss f64_zero")
    case False
    then show ?thesis using f64_div_nan[OF True] by (simp add: r_squared_def)
  next
    case True
    then show ?thesis using f64_order_val(1)[of f64_zero f64_one] f64_order_val(1)[of f64_one f64_one] by (simp add: r_squared_def)
  qed
next
  case False
  note o = linregr_sums_order[OF assms] 
  show ?thesis
  proof (cases "f64_eq tss f64_zero")
    case True
    then show ?thesis using f64_order_val(1)[of f64_zero f64_one] f64_order_val(1)[of f64_one f64_one] by (simp add: r_squared_def)
  next
    case ne: False
    then have "f64_lt f64_zero tss" using o(3) False by (auto simp: f64_lt_def f64_le_def f64_eq_def)
    then show ?thesis using quotient_bounds[of ess tss] o(1,2) False ne by (auto simp: r_squared_def)
  qed
qed

text \<open>
  The coefficient of determination that \<open>linregr_final\<close> returns is between 0 and 1 or not a number, whatever the state and whatever
  the decomposition and the products compute.
\<close>

theorem linregr_r2_bounds:
  assumes "linregr_final eig lib a = Inr (Some r)"
  shows "f64_is_nan (lr_r2 r) \<or> (f64_le f64_zero (lr_r2 r) \<and> f64_le (lr_r2 r) f64_one)"
proof -
  obtain n s coef where "lr_r2 r = r_squared (fst (linregr_sums eig n coef s)) (snd (linregr_sums eig n coef s))"
    using assms by (auto simp: linregr_final_def Let_def rbind_eq_Inr_iff split_beta split: if_splits)
  then show ?thesis using r_squared_range[of eig n coef s] by (metis prod.collapse)
qed

text \<open>
  The eigenvalues of a zero matrix are not below the threshold, which is zero as well: their inverses are infinite, and not zero as in a
  pseudo-inverse.
\<close>

lemma zero_matrix_inverted:
  assumes "0 < w" "w < 2 ^ 53"
  shows "eigenvectorsInverted w (replicate w f64_zero) = Inr (replicate w f64_infinity)"
proof -
  have w: "int_is (f64_mul (f64_of_int (int w)) f64_zero) 0"
    using int_is_mul[OF int_is_of_int int_is_constants(1), of "int w"] assms(2) by simp
  have "f64_finite f64_epsilon" by (simp add: f64_finite_def f64_mag_def f64_epsilon_def f64_inf_bits_def)
  moreover have "f64_exact 0" using f64_exact_int[of 0] by simp
  ultimately have "int_is (f64_mul (f64_mul (f64_of_int (int w)) f64_zero) f64_epsilon) 0"
    using w f64_mul_exact[of "f64_mul (f64_of_int (int w)) f64_zero" f64_epsilon] by (simp add: int_is_def)
  from int_is_order(1)[OF int_is_constants(1) this]
  have "\<not> f64_lt f64_zero (f64_mul (f64_mul (f64_of_int (int w)) f64_zero) f64_epsilon)" by simp
  moreover have "f64_div f64_one f64_zero = f64_infinity"
    by (simp add: f64_div_def f64_is_nan_def f64_is_inf_def f64_mag_def f64_sign_def f64_inf_bits_def f64_of_bits_def f64_infinity_def f64_zero_def f64_one_def)
  ultimately show ?thesis using assms(1) by (simp add: eigenvectorsInverted_def eigen_at_def)
qed

text \<open>One row that is zero, and an instance of the parameters for matrices with one element.\<close>

definition unit_eigen :: eigen where
  "unit_eigen = \<lparr>eig_dot = \<lambda>x y. f64_mul (x ! 0) (y ! 0), eig_mult = \<lambda>m x. [f64_mul (m ! 0) (x ! 0)],
     eig_form = \<lambda>m x. f64_mul (f64_mul (x ! 0) (m ! 0)) (x ! 0), eig_values = \<lambda>_ m. m, eig_vectors = \<lambda>_ m. (m, [f64_one]),
     eig_ldlt_inverse = \<lambda>_ m. [f64_div f64_one (m ! 0)], eig_compose = \<lambda>v d. d\<rparr>"

definition zero_row :: linregr_state where
  "zero_row = \<lparr>lr_numRows = f64_one, lr_widthOfX = f64_one, y_sum = f64_zero, y_square_sum = f64_zero, X_transp_Y = [f64_zero],
     lr_padding = [f64_zero], X_transp_X = [f64_zero], lr_rest = []\<rparr>"

lemma f64_one_uint: "f64_to_uint 16 f64_one = Inr 1" "f64_to_uint 64 f64_one = Inr 1"
  using int_is_trunc[OF int_is_constants(2)] by (simp_all add: f64_to_uint_def)

lemma condition_zero: "conditionNo [f64_zero] = Inr f64_infinity"
  by (simp add: conditionNo_def eigen_at_def f64_le_def)

lemma unit_final: "\<exists>r. linregr_final unit_eigen half_lib (linregr_store zero_row) = Inr (Some r)"
proof -
  have load: "linregr_load (linregr_store zero_row) = Inr zero_row"
    by (simp add: linregr_load_def linregr_rebind_def handle_at_def bind_fields_ok linregr_store_def zero_row_def f64_one_uint slice_def)
  have "\<not> f64_lt f64_infinity 0x408F400000000000" by (simp add: f64_lt_def f64_key_def f64_infinity_def f64_sign_def f64_mag_def)
  then have dec: "\<exists>p. spd_decompose unit_eigen 1 [f64_zero] = Inr \<lparr>spd_eigenvalues = [f64_zero], spd_pinv = [p]\<rparr>"
    by (simp add: spd_decompose_def unit_eigen_def condition_zero eigenvectorsInverted_def eigen_at_def)
  then obtain p where p: "spd_decompose unit_eigen 1 [f64_zero] = Inr \<lparr>spd_eigenvalues = [f64_zero], spd_pinv = [p]\<rparr>" by blast
  have fin: "is_finite [f64_zero]" by (simp add: is_finite_def f64_mag_def f64_zero_def f64_inf_bits_def)
  have "f64_le (f64_of_int 0) f64_zero" using int_is_order(2)[OF int_is_of_int[of 0] int_is_constants(1)] by simp
  then have nu: "studentT_CDF lib t (f64_of_int 0) = Inr quiet_NaN" for lib t by (simp add: studentT_CDF_def)
  have fields: "lr_numRows zero_row = f64_one" "lr_widthOfX zero_row = f64_one" "X_transp_X zero_row = [f64_zero]" "X_transp_Y zero_row = [f64_zero]"
    by (simp_all add: zero_row_def)
  show ?thesis
    using load fin p nu by (simp add: linregr_final_def fields f64_one_uint Let_def split_beta degrees_of_freedom_def condition_zero diagonal_def unit_eigen_def)
qed

theorem linregr_r2_bounds_witness:
  "\<exists>r. linregr_final unit_eigen half_lib (linregr_store zero_row) = Inr (Some r) \<and>
    (f64_is_nan (lr_r2 r) \<or> (f64_le f64_zero (lr_r2 r) \<and> f64_le (lr_r2 r) f64_one))"
  using unit_final linregr_r2_bounds by blast

end
