(* ===== verification/LinearSums.thy ===== *)
theory LinearSums
  imports LinearFacts
begin

text \<open>The transition state of linear regression holds the exact sums over the rows, when the data are integers of bounded size.\<close>

section \<open>Sums over rows\<close>

type_synonym rows = "(int \<times> int list) list"

definition row_sum :: "(int \<times> int list \<Rightarrow> int) \<Rightarrow> rows \<Rightarrow> int" where
  "row_sum f rows = sum_list (map f rows)"

lemma row_sum_simps [simp]: "row_sum f [] = 0" "row_sum f (rows @ rows') = row_sum f rows + row_sum f rows'" "row_sum f [r] = f r"
  by (simp_all add: row_sum_def)

lemma row_sum_bound: "(\<And>r. r \<in> set rows \<Longrightarrow> \<bar>f r\<bar> \<le> C) \<Longrightarrow> \<bar>row_sum f rows\<bar> \<le> int (length rows) * C"
proof (induction rows)
  case (Cons r rows)
  then have "\<bar>f r\<bar> \<le> C" "\<bar>row_sum f rows\<bar> \<le> int (length rows) * C" by simp_all
  then show ?case by (simp add: row_sum_def algebra_simps)
qed simp

text \<open>The terms of the sums: elements of $X^T y$, and of the lower triangle of $X^T X$ by their position in the matrix.\<close>

definition xy_term :: "nat \<Rightarrow> int \<times> int list \<Rightarrow> int" where
  "xy_term i = (\<lambda>(y, x). x ! i * y)"

definition xx_term :: "nat \<Rightarrow> nat \<Rightarrow> int \<times> int list \<Rightarrow> int" where
  "xx_term w k = (\<lambda>(y, x). if k div w \<le> k mod w then x ! (k mod w) * x ! (k div w) else 0)"

definition bounded :: "int \<Rightarrow> nat \<Rightarrow> rows \<Rightarrow> bool" where
  "bounded B w rows \<longleftrightarrow> 1 \<le> B \<and> 0 < w \<and> w \<le> 46000 \<and> int (length rows) * (B * B) < 2 ^ 53 \<and> int (length rows) < 2 ^ 53 \<and>
     (\<forall>(y, x)\<in>set rows. \<bar>y\<bar> \<le> B \<and> length x = w \<and> (\<forall>v\<in>set x. \<bar>v\<bar> \<le> B))"

lemma bounded_append:
  assumes "bounded B w (rows @ rows')"
  shows "bounded B w rows" "bounded B w rows'"
proof -
  have "int (length rows) * (B * B) \<le> int (length (rows @ rows')) * (B * B)" "int (length rows') * (B * B) \<le> int (length (rows @ rows')) * (B * B)"
    by (intro mult_right_mono; simp)+
  moreover have "int (length (rows @ rows')) * (B * B) < 2 ^ 53" using assms unfolding bounded_def by blast
  ultimately have "int (length rows) * (B * B) < 2 ^ 53" "int (length rows') * (B * B) < 2 ^ 53" by (blast intro: le_less_trans)+
  then show "bounded B w rows" "bounded B w rows'" using assms unfolding bounded_def by auto
qed

lemma bounded_product: "\<bar>a\<bar> \<le> B \<Longrightarrow> \<bar>b\<bar> \<le> B \<Longrightarrow> \<bar>a * b\<bar> \<le> B * (B :: int)"
  by (simp add: abs_mult mult_mono')

lemma bounded_sums:
  assumes "bounded B w rows"
  shows "\<bar>row_sum fst rows\<bar> < 2 ^ 53" "\<bar>row_sum (\<lambda>(y, x). y * y) rows\<bar> < 2 ^ 53" "i < w \<Longrightarrow> \<bar>row_sum (xy_term i) rows\<bar> < 2 ^ 53"
    "k < w * w \<Longrightarrow> \<bar>row_sum (xx_term w k) rows\<bar> < 2 ^ 53"
proof -
  have n: "int (length rows) * (B * B) < 2 ^ 53" "1 \<le> B" "0 < w" using assms by (simp_all add: bounded_def)
  have row: "\<bar>y\<bar> \<le> B \<and> length x = w \<and> (\<forall>v\<in>set x. \<bar>v\<bar> \<le> B)" if "(y, x) \<in> set rows" for y x
    using assms that by (auto simp: bounded_def)
  have r: "\<bar>y\<bar> \<le> B" "length x = w" "\<And>i. i < w \<Longrightarrow> \<bar>x ! i\<bar> \<le> B" if "(y, x) \<in> set rows" for y x
    using row[OF that] by simp_all
  have B: "B \<le> B * B" "0 \<le> B * B" using n(2) by simp_all
  show "\<bar>row_sum fst rows\<bar> < 2 ^ 53"
    by (rule le_less_trans[OF row_sum_bound[where C = "B * B"] n(1)]) (use r(1) B in force)
  show "\<bar>row_sum (\<lambda>(y, x). y * y) rows\<bar> < 2 ^ 53"
    by (rule le_less_trans[OF row_sum_bound[where C = "B * B"] n(1)]) (use r(1) bounded_product in fastforce)
  show "\<bar>row_sum (xy_term i) rows\<bar> < 2 ^ 53" if "i < w"
    by (rule le_less_trans[OF row_sum_bound[where C = "B * B"] n(1)]) (use r(1,3) that bounded_product in \<open>fastforce simp: xy_term_def\<close>)
  show "\<bar>row_sum (xx_term w k) rows\<bar> < 2 ^ 53" if "k < w * w"
  proof (rule le_less_trans[OF row_sum_bound[where C = "B * B"] n(1)])
    fix row assume row: "row \<in> set rows"
    obtain y x where yx: "row = (y, x)" by (cases row)
    have "k mod w < w" "k div w < w" using n(3) that by (simp_all add: less_mult_imp_div_less)
    then show "\<bar>xx_term w k row\<bar> \<le> B * B" using r(3)[of y x] row B(2) bounded_product by (simp add: xx_term_def yx)
  qed
qed

section \<open>The state of a list of rows\<close>

abbreviation ints :: "float8 list \<Rightarrow> int list \<Rightarrow> bool" where
  "ints \<equiv> list_all2 int_is"

definition lin_ok :: "nat \<Rightarrow> rows \<Rightarrow> linregr_state \<Rightarrow> bool" where
  "lin_ok w rows s \<longleftrightarrow>
     ints [lr_numRows s, lr_widthOfX s, y_sum s, y_square_sum s] [int (length rows), int w, row_sum fst rows, row_sum (\<lambda>(y, x). y * y) rows] \<and>
     ints (X_transp_Y s) (map (\<lambda>i. row_sum (xy_term i) rows) [0..<w]) \<and> ints (lr_padding s) (replicate (w mod 2) 0) \<and>
     ints (X_transp_X s) (map (\<lambda>k. row_sum (xx_term w k) rows) [0..<w * w]) \<and> lr_rest s = []"

lemma lin_ok_lengths:
  assumes "lin_ok w rows s"
  shows "length (X_transp_Y s) = w" "length (lr_padding s) = w mod 2" "length (X_transp_X s) = w * w" "lr_rest s = []"
  using assms by (auto simp: lin_ok_def dest!: list_all2_lengthD)

lemma drop4: "drop (4 + n) (a # b # c # d # xs) = drop n xs" "drop 4 (a # b # c # d # xs) = xs"
  by (simp_all add: eval_nat_numeral)

lemma linregr_load_store:
  assumes "lin_ok w rows s" "0 < w" "w \<le> 46000"
  shows "linregr_load (linregr_store s) = Inr s"
proof -
  note len = lin_ok_lengths[OF assms(1)]
  have w: "int_is (lr_widthOfX s) (int w)" using assms(1) by (simp add: lin_ok_def)
  have "f64_to_uint 16 (lr_widthOfX s) = Inr (int w)" using int_is_trunc[OF w] assms(3) by (simp add: f64_to_uint_def)
  then show ?thesis using len assms(2)
    by (simp add: linregr_load_def handle_at_def linregr_store_def linregr_rebind_def Let_def bind_fields_ok slice_def drop4 add.assoc)
qed

lemma ints_nth: "ints xs ns \<Longrightarrow> i < length ns \<Longrightarrow> int_is (xs ! i) (ns ! i)"
  by (simp add: list_all2_nthD2)

lemma linregr_row_ok:
  assumes "lin_ok w rows s" "bounded B w (rows @ [(y, x)])"
  shows "\<exists>s'. linregr_row (f64_of_int y) (map f64_of_int x) s = Inr s' \<and> lin_ok w (rows @ [(y, x)]) s'"
proof -
  note len = lin_ok_lengths[OF assms(1)]
  note small = bounded_sums[OF assms(2), unfolded row_sum_simps] and small0 = bounded_sums[OF bounded_append(1)[OF assms(2)]]
  note one = bounded_sums[OF bounded_append(2)[OF assms(2)], unfolded row_sum_simps prod.case fst_conv]
  have w: "0 < w" "length x = w" "int (length rows) + 1 < 2 ^ 53" using assms(2) by (simp_all add: bounded_def)
  have y: "int_is (f64_of_int y) y" using one(1) by (rule int_is_of_int)
  have x: "int_is (f64_of_int (x ! i)) (x ! i)" if "i < w" for i
  proof (rule int_is_of_int)
    have "1 * 1 \<le> B * B" using assms(2) by (intro mult_mono) (simp_all add: bounded_def)
    then have "B * 1 \<le> B * B" using assms(2) by (intro mult_left_mono) (simp_all add: bounded_def)
    moreover have "1 * (B * B) \<le> int (length (rows @ [(y, x)])) * (B * B)" by (intro mult_right_mono) simp_all
    moreover have "\<bar>x ! i\<bar> \<le> B" using assms(2) that w(2) by (simp add: bounded_def)
    ultimately have "\<bar>x ! i\<bar> \<le> int (length (rows @ [(y, x)])) * (B * B)" by linarith
    then show "\<bar>x ! i\<bar> < 2 ^ 53" using assms(2) unfolding bounded_def by (blast intro: le_less_trans)
  qed
  let ?xs = "map f64_of_int x"
  let ?s = "s\<lparr>lr_numRows := f64_add (lr_numRows s) f64_one, y_sum := f64_add (y_sum s) (f64_of_int y),
     y_square_sum := f64_add (y_square_sum s) (f64_mul (f64_of_int y) (f64_of_int y)),
     X_transp_Y := map2 (\<lambda>t xi. f64_add t (f64_mul xi (f64_of_int y))) (X_transp_Y s) ?xs, X_transp_X := lower_add id ?xs (X_transp_X s)\<rparr>"
  have run: "linregr_row (f64_of_int y) ?xs s = Inr ?s" using len w by (simp add: linregr_row_def vec_op_def same_size_def)
  have f: "int_is (lr_numRows s) (int (length rows))" "int_is (lr_widthOfX s) (int w)" "int_is (y_sum s) (row_sum fst rows)"
    "int_is (y_square_sum s) (row_sum (\<lambda>(y, x). y * y) rows)" using assms(1) by (simp_all add: lin_ok_def)
  have "int_is (f64_add (lr_numRows s) f64_one) (int (length rows) + 1)" using w(3) by (intro int_is_add f) simp_all
  moreover have "int_is (f64_add (y_sum s) (f64_of_int y)) (row_sum fst rows + y)" using small(1) by (intro int_is_add f y) simp
  moreover have "int_is (f64_add (y_square_sum s) (f64_mul (f64_of_int y) (f64_of_int y))) (row_sum (\<lambda>(y, x). y * y) rows + y * y)"
    using small(2) one(2) by (intro int_is_add int_is_mul f y) simp_all
  ultimately have scalars: "ints [lr_numRows ?s, lr_widthOfX ?s, y_sum ?s, y_square_sum ?s]
      [int (length (rows @ [(y, x)])), int w, row_sum fst (rows @ [(y, x)]), row_sum (\<lambda>(y, x). y * y) (rows @ [(y, x)])]"
    using f(2) by (simp add: add.commute)
  have vector: "ints (X_transp_Y ?s) (map (\<lambda>i. row_sum (xy_term i) (rows @ [(y, x)])) [0..<w])"
  proof (rule list_all2_all_nthI)
    show "length (X_transp_Y ?s) = length (map (\<lambda>i. row_sum (xy_term i) (rows @ [(y, x)])) [0..<w])" using len w by simp
    fix i assume "i < length (X_transp_Y ?s)"
    then have i: "i < w" using len w by simp
    have "int_is (X_transp_Y s ! i) (row_sum (xy_term i) rows)"
      using assms(1) i ints_nth[of "X_transp_Y s" "map (\<lambda>i. row_sum (xy_term i) rows) [0..<w]" i] by (simp add: lin_ok_def)
    moreover have "int_is (f64_mul (f64_of_int (x ! i)) (f64_of_int y)) (x ! i * y)"
      using one(3)[OF i] by (intro int_is_mul x y i) (simp add: xy_term_def)
    ultimately have "int_is (f64_add (X_transp_Y s ! i) (f64_mul (f64_of_int (x ! i)) (f64_of_int y))) (row_sum (xy_term i) rows + x ! i * y)"
      using small(3)[OF i] by (intro int_is_add) (simp_all add: xy_term_def)
    then show "int_is (X_transp_Y ?s ! i) (map (\<lambda>i. row_sum (xy_term i) (rows @ [(y, x)])) [0..<w] ! i)" using i len w by (simp add: xy_term_def)
  qed
  have matrix: "ints (X_transp_X ?s) (map (\<lambda>k. row_sum (xx_term w k) (rows @ [(y, x)])) [0..<w * w])"
  proof (rule list_all2_all_nthI)
    show "length (X_transp_X ?s) = length (map (\<lambda>k. row_sum (xx_term w k) (rows @ [(y, x)])) [0..<w * w])" using len by (simp add: lower_add_def)
    fix k assume "k < length (X_transp_X ?s)"
    then have k: "k < w * w" using len by (simp add: lower_add_def)
    have m: "k mod w < w" "k div w < w" using w(1) k by (simp_all add: less_mult_imp_div_less)
    have old: "int_is (X_transp_X s ! k) (row_sum (xx_term w k) rows)"
      using assms(1) k ints_nth[of "X_transp_X s" "map (\<lambda>k. row_sum (xx_term w k) rows) [0..<w * w]" k] by (simp add: lin_ok_def)
    have "int_is (lower_add id ?xs (X_transp_X s) ! k) (row_sum (xx_term w k) rows + xx_term w k (y, x))"
    proof (cases "k div w \<le> k mod w")
      case True
      have "int_is (f64_mul (f64_of_int (x ! (k mod w))) (f64_of_int (x ! (k div w)))) (x ! (k mod w) * x ! (k div w))"
        using one(4)[OF k] True by (intro int_is_mul x m) (simp add: xx_term_def)
      then have "int_is (f64_add (X_transp_X s ! k) (f64_mul (f64_of_int (x ! (k mod w))) (f64_of_int (x ! (k div w)))))
          (row_sum (xx_term w k) rows + x ! (k mod w) * x ! (k div w))"
        using small(4)[OF k] True by (intro int_is_add old) (simp_all add: xx_term_def)
      then show ?thesis using k m w(2) len(3) True by (simp add: lower_add_def xx_term_def)
    next
      case False
      then show ?thesis using old k w(2) len(3) by (simp add: lower_add_def xx_term_def)
    qed
    then show "int_is (X_transp_X ?s ! k) (map (\<lambda>k. row_sum (xx_term w k) (rows @ [(y, x)])) [0..<w * w] ! k)" using k by simp
  qed
  have "ints (lr_padding s) (replicate (w mod 2) 0)" using assms(1) by (simp add: lin_ok_def)
  then have "lin_ok w (rows @ [(y, x)]) ?s" using scalars vector matrix len(4) unfolding lin_ok_def by simp
  then show ?thesis using run by blast
qed

section \<open>Transitions and merge\<close>

lemma linregr_initialize_ok:
  assumes "0 < w" "w \<le> 46000"
  shows "\<exists>s. linregr_initialize w = Inr s \<and> lin_ok w [] s"
proof -
  have "w * w \<le> 46000 * 46000" using assms(2) by (intro mult_mono) simp_all
  then have size: "w * w < 2 ^ 31" "4 + w + w mod 2 + w * w < 2 ^ 31" using assms(2) by simp_all
  have w: "int_is (f64_of_int (int w)) (int w)" using assms(2) by (intro int_is_of_int) simp
  have "list_all2 int_is (replicate n f64_zero) (replicate n 0)" for n by (rule list_all2_all_nthI) simp_all
  moreover have "slice k n (replicate (k + n + m) f64_zero) = replicate n f64_zero" for k n m by (simp add: slice_def)
  moreover have "map (\<lambda>i. 0) [0..<n] = replicate n (0 :: int)" for n by (simp add: map_replicate_const)
  ultimately show ?thesis using size assms(1) w
    by (simp add: linregr_initialize_def linregr_arraySize_def linregr_rebind_def bind_fields_ok lin_ok_def slice_def nth_Cons' min_def)
qed

text \<open>The array of a list of rows; before the first row it consists of five zeros.\<close>

definition lin_rep :: "nat \<Rightarrow> rows \<Rightarrow> float8 list \<Rightarrow> bool" where
  "lin_rep w rows a \<longleftrightarrow> (if rows = [] then a = replicate 5 f64_zero else \<exists>s. a = linregr_store s \<and> lin_ok w rows s)"

definition lin_start :: linregr_state where
  "lin_start = \<lparr>lr_numRows = f64_zero, lr_widthOfX = f64_zero, y_sum = f64_zero, y_square_sum = f64_zero, X_transp_Y = [], lr_padding = [],
     X_transp_X = [], lr_rest = [f64_zero]\<rparr>"

lemma linregr_load_start: "linregr_load (replicate 5 f64_zero) = Inr lin_start"
proof -
  have "f64_to_uint 16 f64_zero = Inr 0" using int_is_trunc[OF int_is_constants(1)] by (simp add: f64_to_uint_def)
  then show ?thesis by (simp add: linregr_load_def handle_at_def linregr_rebind_def bind_fields_ok slice_def lin_start_def)
qed

lemma finite_ints: "\<forall>v\<in>set x. \<bar>v\<bar> < 2 ^ 53 \<Longrightarrow> is_finite (map f64_of_int x)"
  using int_is_finite[OF int_is_of_int] by (auto simp: is_finite_def f64_finite_def)

lemma linregr_transition_ok:
  assumes rep: "lin_rep w rows a" and b: "bounded B w (rows @ [(y, x)])"
  shows "\<exists>a'. linregr_transition a (f64_of_int y) (map f64_of_int x) = Inr a' \<and> lin_rep w (rows @ [(y, x)]) a'"
proof -
  have w: "0 < w" "w \<le> 46000" "length x = w" using b by (simp_all add: bounded_def)
  have "bounded B w [(y, x)]" using bounded_append(2)[OF b] .
  then have "1 \<le> B" "B * B < 2 ^ 53" "\<bar>y\<bar> \<le> B" "\<forall>v\<in>set x. \<bar>v\<bar> \<le> B" by (simp_all add: bounded_def)
  moreover from this have "B * 1 \<le> B * B" by (intro mult_left_mono) simp_all
  then have "B < 2 ^ 53" using \<open>B * B < 2 ^ 53\<close> by linarith
  ultimately have "\<bar>y\<bar> < 2 ^ 53" "\<forall>v\<in>set x. \<bar>v\<bar> < 2 ^ 53" by (auto intro: le_less_trans)
  then have fin: "is_finite [f64_of_int y]" "is_finite (map f64_of_int x)" using finite_ints[of "[y]"] finite_ints[of x] by simp_all
  obtain s s0 where s: "linregr_load a = Inr s" "lin_ok w rows s0"
    "(if f64_eq (lr_numRows s) f64_zero then rbind (check (length (map f64_of_int x) \<le> 65535) ''Number of independent variables cannot be larger than 65535.'')
       (\<lambda>_. linregr_initialize (length (map f64_of_int x))) else Inr s) = Inr s0"
  proof (cases "rows = []")
    case True
    obtain s0 where "linregr_initialize w = Inr s0" "lin_ok w [] s0" using linregr_initialize_ok[OF w(1,2)] by blast
    moreover have "f64_eq (lr_numRows lin_start) f64_zero" using int_is_order(3)[OF int_is_constants(1,1)] by (simp add: lin_start_def)
    ultimately show ?thesis using that[of lin_start s0] rep True linregr_load_start w by (simp add: lin_rep_def)
  next
    case False
    then obtain s where s: "a = linregr_store s" "lin_ok w rows s" using rep by (auto simp: lin_rep_def)
    then have "int_is (lr_numRows s) (int (length rows))" by (simp add: lin_ok_def)
    then have "\<not> f64_eq (lr_numRows s) f64_zero" using int_is_order(3)[OF _ int_is_constants(1)] False by simp
    then show ?thesis using that[of s s] s linregr_load_store[OF s(2) w(1,2)] by simp
  qed
  obtain s' where s': "linregr_row (f64_of_int y) (map f64_of_int x) s0 = Inr s'" "lin_ok w (rows @ [(y, x)]) s'"
    using linregr_row_ok[OF s(2) b] by blast
  have "linregr_transition a (f64_of_int y) (map f64_of_int x) = Inr (linregr_store s')"
    using s s'(1) fin by (simp add: linregr_transition_def linregr_step_def)
  then show ?thesis using s'(2) by (auto simp: lin_rep_def)
qed

definition linregr_rows :: "rows \<Rightarrow> float8 list \<Rightarrow> float8 list res" where
  "linregr_rows rows a = foldM (\<lambda>(y, x) a. linregr_transition a (f64_of_int y) (map f64_of_int x)) rows a"

lemma linregr_rows_ok:
  assumes "bounded B w rows"
  shows "\<exists>a. linregr_rows rows (replicate 5 f64_zero) = Inr a \<and> lin_rep w rows a"
  using assms
proof (induction rows rule: rev_induct)
  case Nil
  then show ?case by (simp add: linregr_rows_def lin_rep_def)
next
  case (snoc row rows)
  obtain y x where row: "row = (y, x)" by (cases row)
  obtain a where a: "linregr_rows rows (replicate 5 f64_zero) = Inr a" "lin_rep w rows a" using snoc bounded_append(1) by blast
  from linregr_transition_ok[OF a(2)] snoc.prems row obtain a' where
    "linregr_transition a (f64_of_int y) (map f64_of_int x) = Inr a'" "lin_rep w (rows @ [(y, x)]) a'" by blast
  then show ?case using a(1) by (simp add: linregr_rows_def foldM_append row)
qed

lemma ints_add:
  assumes "ints xs as" "ints ys bs" "length as = length bs" "\<And>i. i < length as \<Longrightarrow> \<bar>as ! i + bs ! i\<bar> < 2 ^ 53"
  shows "ints (map2 f64_add xs ys) (map2 (+) as bs)"
proof (rule list_all2_all_nthI)
  have len: "length xs = length as" "length ys = length bs" using assms(1,2) by (simp_all add: list_all2_lengthD)
  then show "length (map2 f64_add xs ys) = length (map2 (+) as bs)" by simp
  fix i assume "i < length (map2 f64_add xs ys)"
  then have i: "i < length as" using len by simp
  show "int_is (map2 f64_add xs ys ! i) (map2 (+) as bs ! i)"
    using int_is_add[OF ints_nth[OF assms(1) i] ints_nth[OF assms(2)] assms(4)[OF i]] i len assms(3) by simp
qed

lemma map2_map: "map2 f (map g xs) (map h xs) = map (\<lambda>x. f (g x) (h x)) xs"
  by (induction xs) simp_all

lemma linregr_plus_ok:
  assumes ok: "lin_ok w rows s" "lin_ok w rows' s'" and b: "bounded B w (rows @ rows')"
  shows "\<exists>t. linregr_plus (linregr_store s) (linregr_store s') = Inr (linregr_store t) \<and> lin_ok w (rows @ rows') t"
proof -
  note len = lin_ok_lengths[OF ok(1)] lin_ok_lengths[OF ok(2)]
  note small = bounded_sums[OF b, unfolded row_sum_simps]
  let ?t = "\<lparr>lr_numRows = f64_add (lr_numRows s) (lr_numRows s'), lr_widthOfX = lr_widthOfX s', y_sum = f64_add (y_sum s) (y_sum s'),
    y_square_sum = f64_add (y_square_sum s) (y_square_sum s'), X_transp_Y = map2 f64_add (X_transp_Y s) (X_transp_Y s'),
    lr_padding = map2 f64_add (lr_padding s) (lr_padding s'), X_transp_X = map2 f64_add (X_transp_X s) (X_transp_X s'), lr_rest = []\<rparr>"
  have "linregr_plus (linregr_store s) (linregr_store s') = Inr (linregr_store ?t)"
    using len by (simp add: linregr_plus_def linregr_store_def)
  moreover have "ints (X_transp_Y ?t) (map2 (+) (map (\<lambda>i. row_sum (xy_term i) rows) [0..<w]) (map (\<lambda>i. row_sum (xy_term i) rows') [0..<w]))"
    using ok small(3) by (simp only: linregr_state.simps) (intro ints_add; simp add: lin_ok_def)
  moreover have "ints (X_transp_X ?t) (map2 (+) (map (\<lambda>k. row_sum (xx_term w k) rows) [0..<w * w]) (map (\<lambda>k. row_sum (xx_term w k) rows') [0..<w * w]))"
    using ok small(4) by (simp only: linregr_state.simps) (intro ints_add; simp add: lin_ok_def)
  moreover have "ints (lr_padding ?t) (map2 (+) (replicate (w mod 2) 0) (replicate (w mod 2) 0))"
    using ok by (simp only: linregr_state.simps) (intro ints_add; simp add: lin_ok_def)
  moreover have "int_is (f64_add (lr_numRows s) (lr_numRows s')) (int (length rows) + int (length rows'))"
    "int_is (f64_add (y_sum s) (y_sum s')) (row_sum fst rows + row_sum fst rows')"
    "int_is (f64_add (y_square_sum s) (y_square_sum s')) (row_sum (\<lambda>(y, x). y * y) rows + row_sum (\<lambda>(y, x). y * y) rows')"
    using ok b small(1,2) by (auto intro!: int_is_add simp: lin_ok_def bounded_def)
  ultimately show ?thesis using ok by (intro exI[of _ ?t]) (simp add: lin_ok_def map2_map zip_replicate)
qed

text \<open>
  C31: for integer data of bounded size the transitions of linear regression hold the exact number of rows, sums of $y$ and $y^2$,
  the vector $X^T y$, and the lower triangle of $X^T X$, and the merge of the states of two parts of the data is the state of all the data.
\<close>

theorem linregr_exact_sums:
  assumes "bounded B w (rows @ rows')"
  shows "\<exists>a b c. linregr_rows rows (replicate 5 f64_zero) = Inr a \<and> linregr_rows rows' (replicate 5 f64_zero) = Inr b \<and>
    linregr_merge_states a b = Inr c \<and> lin_rep w (rows @ rows') c"
proof -
  have w: "0 < w" "w \<le> 46000" using assms by (simp_all add: bounded_def)
  obtain a where a: "linregr_rows rows (replicate 5 f64_zero) = Inr a" "lin_rep w rows a"
    using linregr_rows_ok[OF bounded_append(1)[OF assms]] by blast
  obtain b where b: "linregr_rows rows' (replicate 5 f64_zero) = Inr b" "lin_rep w rows' b"
    using linregr_rows_ok[OF bounded_append(2)[OF assms]] by blast
  have zero: "f64_eq f64_zero f64_zero" using int_is_order(3)[OF int_is_constants(1,1)] by simp
  have load: "\<exists>s. linregr_load a = Inr s \<and> int_is (lr_numRows s) (int (length rows)) \<and> (rows \<noteq> [] \<longrightarrow> a = linregr_store s \<and> lin_ok w rows s)"
    if "lin_rep w rows a" for rows a
  proof (cases "rows = []")
    case True
    then show ?thesis using that linregr_load_start by (simp add: lin_rep_def lin_start_def)
  next
    case False
    then have "\<exists>s. a = linregr_store s \<and> lin_ok w rows s" using that by (simp add: lin_rep_def)
    then obtain s where s: "a = linregr_store s" "lin_ok w rows s" by blast
    then show ?thesis using linregr_load_store[OF s(2) w] by (auto simp: lin_ok_def)
  qed
  obtain s where "linregr_load a = Inr s \<and> int_is (lr_numRows s) (int (length rows)) \<and> (rows \<noteq> [] \<longrightarrow> a = linregr_store s \<and> lin_ok w rows s)"
    using load[OF a(2)] by (elim exE)
  then have s: "linregr_load a = Inr s" "int_is (lr_numRows s) (int (length rows))" "rows \<noteq> [] \<Longrightarrow> a = linregr_store s \<and> lin_ok w rows s"
    by simp_all
  obtain s' where "linregr_load b = Inr s' \<and> int_is (lr_numRows s') (int (length rows')) \<and> (rows' \<noteq> [] \<longrightarrow> b = linregr_store s' \<and> lin_ok w rows' s')"
    using load[OF b(2)] by (elim exE)
  then have s': "linregr_load b = Inr s'" "int_is (lr_numRows s') (int (length rows'))" "rows' \<noteq> [] \<Longrightarrow> b = linregr_store s' \<and> lin_ok w rows' s'"
    by simp_all
  have n': "f64_to_uint 64 (lr_numRows s') = Inr (int (length rows'))"
    using int_is_trunc[OF s'(2)] assms by (simp add: f64_to_uint_def bounded_def)
  have eq: "f64_eq (lr_numRows s) f64_zero \<longleftrightarrow> rows = []" using int_is_order(3)[OF s(2) int_is_constants(1)] by simp
  consider "rows = []" | "rows \<noteq> []" "rows' = []" | "rows \<noteq> []" "rows' \<noteq> []" by blast
  then have "\<exists>c. linregr_merge_states a b = Inr c \<and> lin_rep w (rows @ rows') c"
  proof cases
    case 3
    from linregr_plus_ok[OF _ _ assms, of s s'] s(3) s'(3) 3 obtain t where
      "linregr_plus a b = Inr (linregr_store t)" "lin_ok w (rows @ rows') t" by blast
    then show ?thesis using s(1) s'(1) n' eq 3 by (intro exI[of _ "linregr_store t"]) (auto simp: linregr_merge_states_def lin_rep_def)
  qed (use s(1) s'(1) n' eq a b in \<open>simp_all add: linregr_merge_states_def\<close>)
  then show ?thesis using a(1) b(1) by blast
qed

theorem linregr_exact_sums_witness:
  "\<exists>a b c. linregr_rows [(3, [1, - 2]), (0, [4, 5])] (replicate 5 f64_zero) = Inr a \<and> linregr_rows [(- 7, [1, 1])] (replicate 5 f64_zero) = Inr b \<and>
    linregr_merge_states a b = Inr c \<and> lin_rep 2 [(3, [1, - 2]), (0, [4, 5]), (- 7, [1, 1])] c"
  using linregr_exact_sums[of 7 2 "[(3, [1, - 2]), (0, [4, 5])]" "[(- 7, [1, 1])]"] by (simp add: bounded_def)

end
