(* ===== verification/Logistic.thy ===== *)
theory Logistic
  imports Linear
begin

text \<open>
  The aggregates of logistic regression, \<open>modules/regress/logistic.cpp\<close>, for the method of conjugate gradients (\<open>cg\<close>),
  iteratively reweighted least squares (\<open>irls\<close>), and incremental gradient descent (\<open>igd\<close>).  An exception is an error value.
\<close>

section \<open>Shared definitions\<close>

text \<open>Sizes and positions are computed with 32-bit integers.\<close>

definition int_size :: "nat \<Rightarrow> nat res" where
  "int_size n = rbind (guard_mem (n < 2 ^ 31)) (\<lambda>_. Inr n)"

text \<open>The width of a vector is passed as an integer of 16 bits.\<close>

definition width16 :: "vec \<Rightarrow> nat" where
  "width16 x = length x mod 2 ^ 16"

text \<open>The assignment of a state copies as many elements as the array on the left has.\<close>

definition assign_elements :: "nat \<Rightarrow> float8 list \<Rightarrow> float8 list res" where
  "assign_elements n p = rbind (check (n \<le> length p) ''Out-of-bounds array access detected.'') (\<lambda>_. Inr (take n p))"

definition sigma :: "mathlib \<Rightarrow> float8 \<Rightarrow> float8" where
  "sigma lib x = f64_div f64_one (f64_add f64_one (libm_exp lib (f64_neg x)))"

text \<open>The dependent variable as 1 or -1.\<close>

definition signed_y :: "bool \<Rightarrow> float8" where
  "signed_y b = (if b then f64_one else f64_neg f64_one)"

definition row_dot :: "eigen \<Rightarrow> vec \<Rightarrow> vec \<Rightarrow> float8 res" where
  "row_dot eig x coef = rbind (same_size x coef) (\<lambda>_. Inr (eig_dot eig x coef))"

definition add_log_likelihood :: "mathlib \<Rightarrow> float8 \<Rightarrow> float8 \<Rightarrow> float8 \<Rightarrow> float8" where
  "add_log_likelihood lib y xc ll = f64_sub ll (libm_log lib (f64_add f64_one (libm_exp lib (f64_mul (f64_neg y) xc))))"

text \<open>\<open>M += x * trans(x) * a\<close> on the lower triangle.\<close>

definition add_weighted :: "float8 \<Rightarrow> vec \<Rightarrow> mat \<Rightarrow> mat" where
  "add_weighted a x M = lower_add (\<lambda>p. f64_mul p a) x M"

definition zeros :: "'a list \<Rightarrow> float8 list" where
  "zeros xs = replicate (length xs) f64_zero"

definition scaled_add :: "float8 \<Rightarrow> vec \<Rightarrow> vec \<Rightarrow> vec res" where
  "scaled_add c x v = vec_op (\<lambda>vi xi. f64_add vi (f64_mul c xi)) v x"

definition vec_add :: "vec \<Rightarrow> vec \<Rightarrow> vec res" where
  "vec_add = vec_op f64_add"

text \<open>The merge compares the sizes of the arrays, and a width that is read as a double with one that is read as an integer.\<close>

definition compatible :: "float8 list \<Rightarrow> float8 list \<Rightarrow> float8 \<Rightarrow> float8 \<Rightarrow> unit res" where
  "compatible a b wl wr =
     rbind (f64_to_uint 16 wr) (\<lambda>w.
       check (length a = length b \<and> f64_eq wl (f64_of_int w)) ''Internal error: Incompatible transition states'')"

record logregr_result =
  lg_coef :: vec
  lg_logLikelihood :: float8
  lg_stdErr :: vec
  waldZStats :: vec
  waldPValues :: vec
  oddsRatios :: vec
  lg_conditionNo :: float8

definition stateToResult :: "mathlib \<Rightarrow> vec \<Rightarrow> vec \<Rightarrow> float8 \<Rightarrow> float8 \<Rightarrow> logregr_result res" where
  "stateToResult lib coef diag logLikelihood condition =
     rbind (check (length coef \<le> length diag) ''Internal error. Eigen assertion failed'') (\<lambda>_.
     let stdErr = map f64_sqrt (take (length coef) diag);
         z = map2 f64_div coef stdErr
     in rbind (mapM (\<lambda>z. rbind (normalCDF lib (f64_neg (f64_fabs z)) f64_zero f64_one) (\<lambda>p. Inr (f64_mul f64_two p))) z) (\<lambda>pValues.
          Inr \<lparr>lg_coef = coef, lg_logLikelihood = logLikelihood, lg_stdErr = stdErr, waldZStats = z, waldPValues = pValues,
               oddsRatios = map (libm_exp lib) coef, lg_conditionNo = condition\<rparr>))"

section \<open>Conjugate gradients\<close>

record cg_state =
  cg_iteration :: float8
  cg_widthOfX :: float8
  cg_coef :: vec
  cg_dir :: vec
  cg_grad :: vec
  cg_beta :: float8
  cg_numRows :: float8
  gradNew :: vec
  cg_X_transp_AX :: mat
  cg_logLikelihood :: float8
  cg_rest :: "float8 list"

definition cg_arraySize :: "nat \<Rightarrow> nat res" where
  "cg_arraySize w = int_size (5 + w * w + 4 * w)"

definition cg_rebind :: "float8 list \<Rightarrow> nat \<Rightarrow> cg_state res" where
  "cg_rebind a w =
     rbind (int_size (4 + w * w + 4 * w)) (\<lambda>last.
     rbind (bind_fields a [0, 1, 2, 2 + w, 2 + 2 * w, 2 + 3 * w, 3 + 3 * w, 4 + 3 * w, 4 + 4 * w, last]) (\<lambda>_.
       Inr \<lparr>cg_iteration = a ! 0, cg_widthOfX = a ! 1, cg_coef = slice 2 w a, cg_dir = slice (2 + w) w a, cg_grad = slice (2 + 2 * w) w a,
            cg_beta = a ! (2 + 3 * w), cg_numRows = a ! (3 + 3 * w), gradNew = slice (4 + 3 * w) w a,
            cg_X_transp_AX = slice (4 + 4 * w) (w * w) a, cg_logLikelihood = a ! last, cg_rest = drop (last + 1) a\<rparr>))"

definition cg_load :: "float8 list \<Rightarrow> cg_state res" where
  "cg_load a = rbind (handle_at a 1) (\<lambda>x. rbind (f64_to_uint 16 x) (\<lambda>w. cg_rebind a (nat w)))"

definition cg_store :: "cg_state \<Rightarrow> float8 list" where
  "cg_store s = [cg_iteration s, cg_widthOfX s] @ cg_coef s @ cg_dir s @ cg_grad s @ [cg_beta s, cg_numRows s] @ gradNew s @ cg_X_transp_AX s @
     [cg_logLikelihood s] @ cg_rest s"

definition cg_initialize :: "nat \<Rightarrow> cg_state res" where
  "cg_initialize w =
     rbind (cg_arraySize w) (\<lambda>n. rbind (cg_rebind (replicate n f64_zero) w) (\<lambda>s. Inr (s\<lparr>cg_widthOfX := f64_of_int (int w)\<rparr>)))"

definition cg_reset :: "cg_state \<Rightarrow> cg_state" where
  "cg_reset s = s\<lparr>cg_numRows := f64_zero, cg_X_transp_AX := zeros (cg_X_transp_AX s), gradNew := zeros (gradNew s), cg_logLikelihood := f64_zero\<rparr>"

definition cg_assign :: "nat \<Rightarrow> float8 list \<Rightarrow> cg_state res" where
  "cg_assign w p =
     rbind (cg_load p) (\<lambda>_. rbind (cg_arraySize w) (\<lambda>n. rbind (assign_elements n p) (\<lambda>a. cg_rebind a w)))"

text \<open>The state for the first row of an iteration.\<close>

definition cg_first :: "float8 list option \<Rightarrow> nat \<Rightarrow> cg_state res" where
  "cg_first prev w =
     rbind (cg_initialize w) (\<lambda>s. case prev of None \<Rightarrow> Inr s | Some p \<Rightarrow> rbind (cg_assign w p) (\<lambda>s. Inr (cg_reset s)))"

definition cg_row :: "eigen \<Rightarrow> mathlib \<Rightarrow> float8 \<Rightarrow> vec \<Rightarrow> cg_state \<Rightarrow> cg_state res" where
  "cg_row eig lib y x s =
     rbind (row_dot eig x (cg_coef s)) (\<lambda>xc.
     rbind (scaled_add (f64_mul (sigma lib (f64_mul (f64_neg y) xc)) y) x (gradNew s)) (\<lambda>g.
     let a = f64_mul (sigma lib xc) (sigma lib (f64_neg xc))
     in Inr (s\<lparr>cg_numRows := f64_add (cg_numRows s) f64_one, gradNew := g, cg_X_transp_AX := add_weighted a x (cg_X_transp_AX s),
               cg_logLikelihood := add_log_likelihood lib y xc (cg_logLikelihood s)\<rparr>)))"

definition logregr_cg_step_transition ::
    "eigen \<Rightarrow> mathlib \<Rightarrow> float8 list \<Rightarrow> bool \<Rightarrow> vec \<Rightarrow> float8 list option \<Rightarrow> float8 list res" where
  "logregr_cg_step_transition eig lib a b x prev =
     rbind (cg_load a) (\<lambda>s.
     rbind (check (is_finite x) ''Design matrix is not finite.'') (\<lambda>_.
     rbind (if f64_eq (cg_numRows s) f64_zero then cg_first prev (width16 x) else Inr s) (\<lambda>s.
     rbind (cg_row eig lib (signed_y b) x s) (\<lambda>s. Inr (cg_store s)))))"

definition cg_plus :: "float8 list \<Rightarrow> float8 list \<Rightarrow> cg_state \<Rightarrow> cg_state \<Rightarrow> int \<Rightarrow> cg_state res" where
  "cg_plus a b l r n =
     rbind (compatible a b (cg_widthOfX l) (cg_widthOfX r)) (\<lambda>_.
     rbind (vec_add (gradNew l) (gradNew r)) (\<lambda>g. rbind (vec_add (cg_X_transp_AX l) (cg_X_transp_AX r)) (\<lambda>m.
       Inr (l\<lparr>cg_numRows := f64_add (cg_numRows l) (f64_of_int n), gradNew := g, cg_X_transp_AX := m,
              cg_logLikelihood := f64_add (cg_logLikelihood l) (cg_logLikelihood r)\<rparr>))))"

definition logregr_cg_step_merge_states :: "float8 list \<Rightarrow> float8 list \<Rightarrow> float8 list res" where
  "logregr_cg_step_merge_states a b =
     rbind (cg_load a) (\<lambda>l. rbind (cg_load b) (\<lambda>r.
     if f64_eq (cg_numRows l) f64_zero then Inr b
     else rbind (f64_to_uint 64 (cg_numRows r)) (\<lambda>n. if n = 0 then Inr a else rbind (cg_plus a b l r n) (\<lambda>s. Inr (cg_store s)))))"

text \<open>The formula of Hestenes and Stiefel, with a restart of the direction.\<close>

definition cg_direction :: "eigen \<Rightarrow> cg_state \<Rightarrow> cg_state res" where
  "cg_direction eig s =
     (if f64_eq (cg_iteration s) f64_zero then Inr (s\<lparr>cg_dir := gradNew s, cg_grad := gradNew s\<rparr>)
      else
        rbind (vec_op f64_sub (gradNew s) (cg_grad s)) (\<lambda>diff.
        let beta = f64_div (eig_dot eig (gradNew s) diff) (eig_dot eig (cg_dir s) diff);
            beta = (if f64_lt (f64_div (eig_dot eig (gradNew s) diff) (eig_dot eig (cg_grad s) (cg_grad s))) f64_zero then f64_zero else beta)
        in rbind (vec_op (\<lambda>g d. f64_sub g (f64_mul beta d)) (gradNew s) (cg_dir s)) (\<lambda>d.
             Inr (s\<lparr>cg_beta := beta, cg_dir := d, cg_grad := gradNew s\<rparr>))))"

definition cg_scale :: "eigen \<Rightarrow> cg_state \<Rightarrow> float8" where
  "cg_scale eig s = f64_div (eig_dot eig (cg_grad s) (cg_dir s)) (eig_form eig (cg_X_transp_AX s) (cg_dir s))"

definition logregr_cg_step_final :: "eigen \<Rightarrow> float8 list \<Rightarrow> float8 list option res" where
  "logregr_cg_step_final eig a =
     rbind (cg_load a) (\<lambda>s.
     if f64_eq (cg_numRows s) f64_zero then Inr None
     else rbind (cg_direction eig s) (\<lambda>s.
     rbind (scaled_add (cg_scale eig s) (cg_dir s) (cg_coef s)) (\<lambda>c.
     rbind (check (is_finite c) ''Over- or underflow in conjugate-gradient step, while updating coefficients. Input data is likely of poor numerical condition.'') (\<lambda>_.
       Inr (Some (cg_store (s\<lparr>cg_coef := c, cg_iteration := f64_add (cg_iteration s) f64_one\<rparr>)))))))"

definition internal_logregr_cg_step_distance :: "float8 list \<Rightarrow> float8 list \<Rightarrow> float8 res" where
  "internal_logregr_cg_step_distance a b =
     rbind (cg_load a) (\<lambda>l. rbind (cg_load b) (\<lambda>r. Inr (f64_fabs (f64_sub (cg_logLikelihood l) (cg_logLikelihood r)))))"

definition internal_logregr_cg_result :: "eigen \<Rightarrow> mathlib \<Rightarrow> float8 list \<Rightarrow> logregr_result res" where
  "internal_logregr_cg_result eig lib a =
     rbind (cg_load a) (\<lambda>s.
     rbind (spd_decompose eig (length (cg_coef s)) (cg_X_transp_AX s)) (\<lambda>d. rbind (conditionNo (spd_eigenvalues d)) (\<lambda>c.
       stateToResult lib (cg_coef s) (diagonal (length (cg_coef s)) (spd_pinv d)) (cg_logLikelihood s) c)))"

section \<open>Iteratively reweighted least squares\<close>

record irls_state =
  irls_widthOfX :: float8
  irls_coef :: vec
  irls_numRows :: float8
  X_transp_Az :: vec
  irls_X_transp_AX :: mat
  irls_logLikelihood :: float8
  irls_rest :: "float8 list"

definition irls_arraySize :: "nat \<Rightarrow> nat res" where
  "irls_arraySize w = int_size (3 + w * w + 2 * w)"

definition irls_rebind :: "float8 list \<Rightarrow> nat \<Rightarrow> irls_state res" where
  "irls_rebind a w =
     rbind (int_size (2 + w * w + 2 * w)) (\<lambda>last.
     rbind (bind_fields a [0, 1, 1 + w, 2 + w, 2 + 2 * w, last]) (\<lambda>_.
       Inr \<lparr>irls_widthOfX = a ! 0, irls_coef = slice 1 w a, irls_numRows = a ! (1 + w), X_transp_Az = slice (2 + w) w a,
            irls_X_transp_AX = slice (2 + 2 * w) (w * w) a, irls_logLikelihood = a ! last, irls_rest = drop (last + 1) a\<rparr>))"

definition irls_load :: "float8 list \<Rightarrow> irls_state res" where
  "irls_load a = rbind (handle_at a 0) (\<lambda>x. rbind (f64_to_uint 16 x) (\<lambda>w. irls_rebind a (nat w)))"

definition irls_store :: "irls_state \<Rightarrow> float8 list" where
  "irls_store s = [irls_widthOfX s] @ irls_coef s @ [irls_numRows s] @ X_transp_Az s @ irls_X_transp_AX s @ [irls_logLikelihood s] @ irls_rest s"

definition irls_initialize :: "nat \<Rightarrow> irls_state res" where
  "irls_initialize w =
     rbind (irls_arraySize w) (\<lambda>n. rbind (irls_rebind (replicate n f64_zero) w) (\<lambda>s. Inr (s\<lparr>irls_widthOfX := f64_of_int (int w)\<rparr>)))"

definition irls_reset :: "irls_state \<Rightarrow> irls_state" where
  "irls_reset s = s\<lparr>irls_numRows := f64_zero, X_transp_Az := zeros (X_transp_Az s), irls_X_transp_AX := zeros (irls_X_transp_AX s),
     irls_logLikelihood := f64_zero\<rparr>"

definition irls_assign :: "nat \<Rightarrow> float8 list \<Rightarrow> irls_state res" where
  "irls_assign w p =
     rbind (irls_load p) (\<lambda>_. rbind (irls_arraySize w) (\<lambda>n. rbind (assign_elements n p) (\<lambda>a. irls_rebind a w)))"

definition irls_first :: "float8 list option \<Rightarrow> nat \<Rightarrow> irls_state res" where
  "irls_first prev w =
     rbind (irls_initialize w) (\<lambda>s. case prev of None \<Rightarrow> Inr s | Some p \<Rightarrow> rbind (irls_assign w p) (\<lambda>s. Inr (irls_reset s)))"

definition irls_row :: "eigen \<Rightarrow> mathlib \<Rightarrow> float8 \<Rightarrow> vec \<Rightarrow> irls_state \<Rightarrow> irls_state res" where
  "irls_row eig lib y x s =
     rbind (row_dot eig x (irls_coef s)) (\<lambda>xc.
     let a = f64_mul (sigma lib xc) (sigma lib (f64_neg xc));
         az = f64_add (f64_mul xc a) (f64_mul (sigma lib (f64_mul (f64_neg y) xc)) y)
     in rbind (vec_op (\<lambda>t xi. f64_add t (f64_mul xi az)) (X_transp_Az s) x) (\<lambda>v.
          Inr (s\<lparr>irls_numRows := f64_add (irls_numRows s) f64_one, X_transp_Az := v, irls_X_transp_AX := add_weighted a x (irls_X_transp_AX s),
                 irls_logLikelihood := add_log_likelihood lib y xc (irls_logLikelihood s)\<rparr>)))"

definition logregr_irls_step_transition ::
    "eigen \<Rightarrow> mathlib \<Rightarrow> float8 list \<Rightarrow> bool \<Rightarrow> vec \<Rightarrow> float8 list option \<Rightarrow> float8 list res" where
  "logregr_irls_step_transition eig lib a b x prev =
     rbind (irls_load a) (\<lambda>s.
     rbind (check (is_finite x) ''Design matrix is not finite.'') (\<lambda>_.
     rbind (if f64_eq (irls_numRows s) f64_zero then irls_first prev (width16 x) else Inr s) (\<lambda>s.
     rbind (irls_row eig lib (signed_y b) x s) (\<lambda>s. Inr (irls_store s)))))"

definition irls_plus :: "float8 list \<Rightarrow> float8 list \<Rightarrow> irls_state \<Rightarrow> irls_state \<Rightarrow> int \<Rightarrow> irls_state res" where
  "irls_plus a b l r n =
     rbind (compatible a b (irls_widthOfX l) (irls_widthOfX r)) (\<lambda>_.
     rbind (vec_add (X_transp_Az l) (X_transp_Az r)) (\<lambda>v. rbind (vec_add (irls_X_transp_AX l) (irls_X_transp_AX r)) (\<lambda>m.
       Inr (l\<lparr>irls_numRows := f64_add (irls_numRows l) (f64_of_int n), X_transp_Az := v, irls_X_transp_AX := m,
              irls_logLikelihood := f64_add (irls_logLikelihood l) (irls_logLikelihood r)\<rparr>))))"

definition logregr_irls_step_merge_states :: "float8 list \<Rightarrow> float8 list \<Rightarrow> float8 list res" where
  "logregr_irls_step_merge_states a b =
     rbind (irls_load a) (\<lambda>l. rbind (irls_load b) (\<lambda>r.
     if f64_eq (irls_numRows l) f64_zero then Inr b
     else rbind (f64_to_uint 64 (irls_numRows r)) (\<lambda>n. if n = 0 then Inr a else rbind (irls_plus a b l r n) (\<lambda>s. Inr (irls_store s)))))"

text \<open>The diagonal of the pseudo-inverse and the condition number replace fields that the next iteration sets anew.\<close>

definition logregr_irls_step_final :: "eigen \<Rightarrow> float8 list \<Rightarrow> float8 list option res" where
  "logregr_irls_step_final eig a =
     rbind (irls_load a) (\<lambda>s.
     if f64_eq (irls_numRows s) f64_zero then Inr None
     else rbind (check (is_finite (irls_X_transp_AX s) \<and> is_finite (X_transp_Az s))
         ''Over- or underflow in intermediate calulation. Input data is likely of poor numerical condition.'') (\<lambda>_.
     rbind (spd_decompose eig (length (irls_coef s)) (irls_X_transp_AX s)) (\<lambda>d.
     let c = eig_mult eig (spd_pinv d) (X_transp_Az s) in
     rbind (check (is_finite c) ''Over- or underflow in Newton step, while updating coefficients. Input data is likely of poor numerical condition.'') (\<lambda>_.
     rbind (conditionNo (spd_eigenvalues d)) (\<lambda>condition.
       Inr (Some (irls_store (s\<lparr>irls_coef := c, X_transp_Az := diagonal (length (irls_coef s)) (spd_pinv d),
         irls_X_transp_AX := (irls_X_transp_AX s)[0 := condition]\<rparr>))))))))"

definition internal_logregr_irls_step_distance :: "float8 list \<Rightarrow> float8 list \<Rightarrow> float8 res" where
  "internal_logregr_irls_step_distance a b =
     rbind (irls_load a) (\<lambda>l. rbind (irls_load b) (\<lambda>r. Inr (f64_fabs (f64_sub (irls_logLikelihood l) (irls_logLikelihood r)))))"

definition internal_logregr_irls_result :: "mathlib \<Rightarrow> float8 list \<Rightarrow> logregr_result res" where
  "internal_logregr_irls_result lib a =
     rbind (irls_load a) (\<lambda>s. rbind (eigen_at (irls_X_transp_AX s) 0) (\<lambda>c.
       stateToResult lib (irls_coef s) (X_transp_Az s) (irls_logLikelihood s) c))"

section \<open>Incremental gradient descent\<close>

record igd_state =
  igd_widthOfX :: float8
  stepsize :: float8
  igd_coef :: vec
  igd_numRows :: float8
  igd_X_transp_AX :: mat
  igd_logLikelihood :: float8
  igd_rest :: "float8 list"

definition igd_arraySize :: "nat \<Rightarrow> nat res" where
  "igd_arraySize w = int_size (4 + w * w + w)"

definition igd_rebind :: "float8 list \<Rightarrow> nat \<Rightarrow> igd_state res" where
  "igd_rebind a w =
     rbind (int_size (3 + w * w + w)) (\<lambda>last.
     rbind (bind_fields a [0, 1, 2, 2 + w, 3 + w, last]) (\<lambda>_.
       Inr \<lparr>igd_widthOfX = a ! 0, stepsize = a ! 1, igd_coef = slice 2 w a, igd_numRows = a ! (2 + w),
            igd_X_transp_AX = slice (3 + w) (w * w) a, igd_logLikelihood = a ! last, igd_rest = drop (last + 1) a\<rparr>))"

definition igd_load :: "float8 list \<Rightarrow> igd_state res" where
  "igd_load a = rbind (handle_at a 0) (\<lambda>x. rbind (f64_to_uint 16 x) (\<lambda>w. igd_rebind a (nat w)))"

definition igd_store :: "igd_state \<Rightarrow> float8 list" where
  "igd_store s = [igd_widthOfX s, stepsize s] @ igd_coef s @ [igd_numRows s] @ igd_X_transp_AX s @ [igd_logLikelihood s] @ igd_rest s"

definition igd_initialize :: "nat \<Rightarrow> igd_state res" where
  "igd_initialize w =
     rbind (igd_arraySize w) (\<lambda>n. rbind (igd_rebind (replicate n f64_zero) w) (\<lambda>s. Inr (s\<lparr>igd_widthOfX := f64_of_int (int w)\<rparr>)))"

text \<open>0.1 is \<open>0x3FB999999999999A\<close>.\<close>

definition igd_reset :: "igd_state \<Rightarrow> igd_state" where
  "igd_reset s = s\<lparr>stepsize := 0x3FB999999999999A, igd_numRows := f64_zero, igd_X_transp_AX := zeros (igd_X_transp_AX s), igd_logLikelihood := f64_zero\<rparr>"

definition igd_assign :: "nat \<Rightarrow> float8 list \<Rightarrow> igd_state res" where
  "igd_assign w p =
     rbind (igd_load p) (\<lambda>_. rbind (igd_arraySize w) (\<lambda>n. rbind (assign_elements n p) (\<lambda>a. igd_rebind a w)))"

definition igd_first :: "float8 list option \<Rightarrow> nat \<Rightarrow> igd_state res" where
  "igd_first prev w =
     rbind (igd_initialize w) (\<lambda>s. case prev of None \<Rightarrow> Inr s | Some p \<Rightarrow> rbind (igd_assign w p) (\<lambda>s. Inr (igd_reset s)))"

text \<open>The coefficients of the previous state are used for the matrix and the likelihood.\<close>

definition igd_diagnostics :: "eigen \<Rightarrow> mathlib \<Rightarrow> float8 \<Rightarrow> vec \<Rightarrow> float8 list option \<Rightarrow> igd_state \<Rightarrow> igd_state res" where
  "igd_diagnostics eig lib y x prev s =
     (case prev of None \<Rightarrow> Inr s
      | Some p \<Rightarrow>
        rbind (igd_load p) (\<lambda>previous. rbind (row_dot eig x (igd_coef previous)) (\<lambda>xc.
        let a = f64_mul (sigma lib xc) (sigma lib (f64_neg xc))
        in rbind (check (length (igd_X_transp_AX s) = length x * length x) ''Internal error. Eigen assertion failed'') (\<lambda>_.
          Inr (s\<lparr>igd_X_transp_AX := add_weighted a x (igd_X_transp_AX s), igd_logLikelihood := add_log_likelihood lib y xc (igd_logLikelihood s)\<rparr>)))))"

definition igd_row :: "eigen \<Rightarrow> mathlib \<Rightarrow> float8 \<Rightarrow> vec \<Rightarrow> float8 list option \<Rightarrow> igd_state \<Rightarrow> igd_state res" where
  "igd_row eig lib y x prev s =
     rbind (row_dot eig x (igd_coef s)) (\<lambda>xc.
     let scale = f64_mul (f64_mul (stepsize s) (sigma lib (f64_mul (f64_neg xc) y))) y
     in rbind (scaled_add scale x (igd_coef s)) (\<lambda>c.
          igd_diagnostics eig lib y x prev (s\<lparr>igd_numRows := f64_add (igd_numRows s) f64_one, igd_coef := c\<rparr>)))"

definition logregr_igd_step_transition ::
    "eigen \<Rightarrow> mathlib \<Rightarrow> float8 list \<Rightarrow> bool \<Rightarrow> vec \<Rightarrow> float8 list option \<Rightarrow> float8 list res" where
  "logregr_igd_step_transition eig lib a b x prev =
     rbind (igd_load a) (\<lambda>s.
     rbind (check (is_finite x) ''Design matrix is not finite.'') (\<lambda>_.
     rbind (if f64_eq (igd_numRows s) f64_zero then igd_first prev (width16 x) else Inr s) (\<lambda>s.
     rbind (igd_row eig lib (signed_y b) x prev s) (\<lambda>s. Inr (igd_store s)))))"

text \<open>The merged coefficients are the means, weighted by the numbers of rows.\<close>

definition igd_plus :: "float8 list \<Rightarrow> float8 list \<Rightarrow> igd_state \<Rightarrow> igd_state \<Rightarrow> int \<Rightarrow> igd_state res" where
  "igd_plus a b l r n =
     rbind (compatible a b (igd_widthOfX l) (igd_widthOfX r)) (\<lambda>_.
     let totalNumRows = f64_add (igd_numRows l) (f64_of_int n);
         wl = f64_div (igd_numRows l) totalNumRows; wr = f64_div (f64_of_int n) totalNumRows
     in rbind (vec_op (\<lambda>cl cr. f64_add (f64_mul wl cl) (f64_mul wr cr)) (igd_coef l) (igd_coef r)) (\<lambda>c.
        rbind (vec_add (igd_X_transp_AX l) (igd_X_transp_AX r)) (\<lambda>m.
          Inr (l\<lparr>igd_coef := c, igd_numRows := f64_add (igd_numRows l) (f64_of_int n), igd_X_transp_AX := m,
                 igd_logLikelihood := f64_add (igd_logLikelihood l) (igd_logLikelihood r)\<rparr>))))"

definition logregr_igd_step_merge_states :: "float8 list \<Rightarrow> float8 list \<Rightarrow> float8 list res" where
  "logregr_igd_step_merge_states a b =
     rbind (igd_load a) (\<lambda>l. rbind (igd_load b) (\<lambda>r.
     if f64_eq (igd_numRows l) f64_zero then Inr b
     else rbind (f64_to_uint 64 (igd_numRows r)) (\<lambda>n. if n = 0 then Inr a else rbind (igd_plus a b l r n) (\<lambda>s. Inr (igd_store s)))))"

text \<open>The final function reads its argument as a state of the reweighted least squares.\<close>

definition logregr_igd_step_final :: "float8 list \<Rightarrow> float8 list option res" where
  "logregr_igd_step_final a =
     rbind (irls_load a) (\<lambda>s.
     rbind (check (is_finite (irls_coef s)) ''Over- or underflow in incremental-gradient iteration. Input data is likely of poor numerical condition.'') (\<lambda>_.
     rbind (f64_to_uint 64 (irls_numRows s)) (\<lambda>n. Inr (if n = 0 then None else Some a))))"

definition internal_logregr_igd_step_distance :: "float8 list \<Rightarrow> float8 list \<Rightarrow> float8 res" where
  "internal_logregr_igd_step_distance a b =
     rbind (igd_load a) (\<lambda>l. rbind (igd_load b) (\<lambda>r. Inr (f64_fabs (f64_sub (igd_logLikelihood l) (igd_logLikelihood r)))))"

definition internal_logregr_igd_result :: "eigen \<Rightarrow> mathlib \<Rightarrow> float8 list \<Rightarrow> logregr_result res" where
  "internal_logregr_igd_result eig lib a =
     rbind (igd_load a) (\<lambda>s.
     rbind (spd_decompose eig (length (igd_coef s)) (igd_X_transp_AX s)) (\<lambda>d. rbind (conditionNo (spd_eigenvalues d)) (\<lambda>c.
       stateToResult lib (igd_coef s) (diagonal (length (igd_coef s)) (spd_pinv d)) (igd_logLikelihood s) c)))"

end
