(* ===== verification/LogisticFacts.thy ===== *)
theory LogisticFacts
  imports Logistic LinearFacts
begin

text \<open>
  Logistic regression: the range of the logistic function, the first iteration of the incremental gradient descent and its final
  function, and the matrix of the conjugate gradients.
\<close>

section \<open>The logistic function\<close>

text \<open>The exponential function of the C library returns a number that is not negative, and is not a number only where the argument is not.\<close>

definition exp_law :: "mathlib \<Rightarrow> bool" where
  "exp_law lib \<longleftrightarrow> (\<forall>x. \<not> f64_is_nan x \<longrightarrow> f64_le f64_zero (libm_exp lib x))"

lemma one_not_special [simp]: "\<not> f64_is_inf f64_one" "\<not> f64_is_inf f64_zero" "f64_mag f64_one \<noteq> 0"
  by (simp_all add: f64_is_inf_def f64_mag_def f64_one_def f64_zero_def f64_inf_bits_def)

lemma one_plus:
  assumes "f64_le f64_zero e"
  shows "f64_le f64_one (f64_add f64_one e)"
proof (cases "f64_finite e")
  case True
  then have "0 \<le> f64_val e" using assms f64_order_val(1)[of f64_zero e] by simp
  then show ?thesis using rounds_to_ge[OF f64_add_rounds[of f64_one e], of f64_one] True by simp
next
  case False
  then have e: "f64_is_inf e" "\<not> f64_is_nan e" using assms finite_or_special by (auto simp: f64_le_def)
  then have "f64_add f64_one e = e" by (simp add: f64_add_def)
  moreover have "f64_le f64_one e"
  proof -
    have "0 \<le> f64_key e" "f64_mag e = f64_inf_bits" using assms e by (simp_all add: f64_le_def f64_is_inf_def)
    moreover have "f64_key f64_one \<le> f64_inf_bits" by (simp add: f64_key_def f64_mag_def f64_sign_def f64_one_def f64_inf_bits_def)
    ultimately show ?thesis using e(2) by (auto simp: f64_le_def f64_key_def f64_inf_bits_def split: if_splits)
  qed
  ultimately show ?thesis by simp
qed

lemma one_quotient_not_nan:
  assumes "f64_le f64_one y"
  shows "\<not> f64_is_nan (f64_div f64_one y)"
proof (cases "f64_is_inf y")
  case True
  have "\<not> f64_is_nan y" using assms by (simp add: f64_le_def)
  then have "f64_div f64_one y = f64_of_bits (f64_sign f64_one \<noteq> f64_sign y) 0" using True by (simp add: f64_div_def)
  moreover have "f64_mag (f64_of_bits sg 0) = 0" for sg by (rule of_bits_fields(2)) simp_all
  ultimately show ?thesis by (simp add: f64_is_nan_def f64_inf_bits_def)
next
  case False
  then have y: "f64_finite y" using assms finite_or_special by (auto simp: f64_le_def)
  then have "f64_val y \<noteq> 0" using assms f64_order_val(1)[of f64_one y] by simp
  then show ?thesis using f64_div_rounds[OF zero_one_values(2) y] by (simp add: rounds_to_def)
qed

lemma sigma_range:
  assumes "exp_law lib" "\<not> f64_is_nan x"
  shows "f64_le f64_zero (sigma lib x)" "f64_le (sigma lib x) f64_one"
proof -
  have "f64_le f64_zero (libm_exp lib (f64_neg x))" using assms by (simp add: exp_law_def)
  note y = one_plus[OF this]
  have "f64_le f64_zero f64_one" using f64_order_val(1)[of f64_zero f64_one] by simp
  moreover from y have "f64_lt f64_zero (f64_add f64_one (libm_exp lib (f64_neg x)))"
    by (simp add: f64_le_def f64_lt_def)
  ultimately show "f64_le f64_zero (sigma lib x)" "f64_le (sigma lib x) f64_one"
    using quotient_bounds[of f64_one] y one_quotient_not_nan[OF y] by (simp_all add: sigma_def)
qed

lemma between_finite:
  assumes "f64_le f64_zero x" "f64_le x f64_one"
  shows "f64_finite x"
proof -
  have "\<not> f64_is_nan x" "0 \<le> f64_key x" "f64_key x \<le> f64_key f64_one" using assms by (simp_all add: f64_le_def)
  moreover have "f64_key f64_one < f64_inf_bits" "0 \<le> f64_mag x" by (simp_all add: f64_key_def f64_mag_def f64_sign_def f64_one_def f64_inf_bits_def)
  ultimately show ?thesis by (auto simp: f64_finite_def f64_key_def split: if_splits)
qed

section \<open>States of incremental gradient descent\<close>

text \<open>The array of a state for \<open>w\<close> variables.\<close>

definition igd_shape :: "nat \<Rightarrow> igd_state \<Rightarrow> bool" where
  "igd_shape w s \<longleftrightarrow> length (igd_coef s) = w \<and> length (igd_X_transp_AX s) = w * w \<and> igd_rest s = []"

definition igd_array :: "nat \<Rightarrow> float8 list \<Rightarrow> bool" where
  "igd_array w a \<longleftrightarrow> (\<exists>s. a = igd_store s \<and> igd_shape w s \<and> igd_widthOfX s = f64_of_int (int w))"

lemma width_read: "w < 2 ^ 16 \<Longrightarrow> f64_to_uint 16 (f64_of_int (int w)) = Inr (int w)"
  by (rule uint_of_int) simp_all

lemma drop2: "drop (2 + n) (a # b # xs) = drop n xs" "drop 2 (a # b # xs) = xs"
  by (simp_all add: eval_nat_numeral)

lemma square_small: "w * w + 4 * w + 5 < 2 ^ 31" if "w \<le> 40000" for w :: nat
proof -
  have "w * w \<le> 40000 * 40000" using that by (intro mult_mono) simp_all
  then show ?thesis using that by simp
qed

lemma igd_store_parts:
  assumes "igd_shape w s"
  shows "igd_rebind (igd_store s) w = rbind (int_size (3 + w * w + w)) (\<lambda>_. Inr s)"
proof -
  have len: "length (igd_coef s) = w" "length (igd_X_transp_AX s) = w * w" "igd_rest s = []" using assms by (simp_all add: igd_shape_def)
  have store: "igd_store s = igd_widthOfX s # stepsize s # igd_coef s @ (igd_numRows s # igd_X_transp_AX s @ [igd_logLikelihood s])"
    using len by (simp add: igd_store_def)
  have "drop (2 + w) (igd_store s) = igd_numRows s # igd_X_transp_AX s @ [igd_logLikelihood s]" unfolding store drop2 using len by simp
  moreover from this have "drop (3 + w) (igd_store s) = igd_X_transp_AX s @ [igd_logLikelihood s]"
    by (metis add_Suc_shift drop_Suc list.sel(3) numeral_3_eq_3 numeral_2_eq_2 plus_nat.simps(2) tl_drop)
  moreover have "length (igd_store s) = 4 + w * w + w" unfolding store using len by simp
  moreover have "igd_store s ! (2 + w) = igd_numRows s" unfolding store using len by (simp add: nth_append)
  moreover have "igd_store s ! (3 + w * w + w) = igd_logLikelihood s" unfolding store using len by (simp add: nth_append)
  moreover have "slice 2 w (igd_store s) = igd_coef s" unfolding store slice_def drop2 using len by simp
  moreover have "igd_store s ! 0 = igd_widthOfX s" "igd_store s ! 1 = stepsize s" by (simp_all add: store)
  ultimately show ?thesis using len
    by (cases "3 + w * w + w < 2 ^ 31") (simp_all add: igd_rebind_def int_size_def bind_fields_ok slice_def)
qed

lemma igd_load_store:
  assumes "igd_shape w s" "igd_widthOfX s = f64_of_int (int w)" "w \<le> 40000"
  shows "igd_load (igd_store s) = Inr s"
proof -
  have "handle_at (igd_store s) 0 = Inr (f64_of_int (int w))" using assms(2) by (simp add: handle_at_def igd_store_def)
  then show ?thesis using igd_store_parts[OF assms(1)] width_read[of w] square_small[OF assms(3)] assms(3)
    by (simp add: igd_load_def int_size_def)
qed

definition igd_zero :: "nat \<Rightarrow> igd_state" where
  "igd_zero w = \<lparr>igd_widthOfX = f64_of_int (int w), stepsize = f64_zero, igd_coef = replicate w f64_zero, igd_numRows = f64_zero,
     igd_X_transp_AX = replicate (w * w) f64_zero, igd_logLikelihood = f64_zero, igd_rest = []\<rparr>"

lemma igd_zero_shape: "igd_shape w (igd_zero w)"
  by (simp add: igd_shape_def igd_zero_def)

lemma igd_initialize_zero:
  assumes "w \<le> 40000"
  shows "igd_initialize w = Inr (igd_zero w)"
proof -
  let ?s = "(igd_zero w)\<lparr>igd_widthOfX := f64_zero\<rparr>"
  have "replicate (4 + w * w + w) f64_zero = igd_store ?s"
    by (simp add: igd_store_def igd_zero_def eval_nat_numeral flip: replicate_append_same) (metis add.commute replicate_add)
  moreover have "igd_shape w ?s" by (simp add: igd_shape_def igd_zero_def)
  ultimately show ?thesis using igd_store_parts[of w ?s] square_small[OF assms]
    by (simp add: igd_initialize_def igd_arraySize_def int_size_def) (simp add: igd_zero_def)
qed

lemma igd_assign_array:
  assumes "igd_array w p" "w \<le> 40000"
  shows "\<exists>s. igd_assign w p = Inr s \<and> p = igd_store s \<and> igd_shape w s \<and> igd_widthOfX s = f64_of_int (int w)"
proof -
  obtain s where s: "p = igd_store s" "igd_shape w s" "igd_widthOfX s = f64_of_int (int w)" using assms(1) by (auto simp: igd_array_def)
  have len: "length p = 4 + w * w + w" using s(1,2) by (simp add: igd_store_def igd_shape_def)
  have "igd_load p = Inr s" unfolding s(1) by (rule igd_load_store[OF s(2,3) assms(2)])
  then have "igd_assign w p = Inr s"
    using len igd_store_parts[OF s(2)] square_small[OF assms(2)]
    by (simp add: igd_assign_def igd_arraySize_def int_size_def assign_elements_def s(1)[symmetric])
  then show ?thesis using s by blast
qed

lemma lower_add_length [simp]: "length (lower_add f x M) = length M"
  by (simp add: lower_add_def)

lemma vec_op_Inr: "vec_op f xs ys = Inr zs \<longleftrightarrow> length xs = length ys \<and> zs = map2 f xs ys"
  by (auto simp: vec_op_def same_size_def rbind_eq_Inr_iff check_def)

lemma igd_row_shape:
  assumes "igd_row eig lib y x prev s = Inr s'" "igd_shape w s"
  shows "igd_shape w s'" "igd_widthOfX s' = igd_widthOfX s" "stepsize s' = stepsize s"
  using assms by (auto simp: igd_row_def igd_diagnostics_def igd_shape_def rbind_eq_Inr_iff Let_def scaled_add_def vec_op_Inr add_weighted_def
    split: option.splits)

lemma igd_first_shape:
  assumes "igd_first prev w = Inr s" "\<forall>p. prev = Some p \<longrightarrow> igd_array w p" "w \<le> 40000"
  shows "igd_shape w s" "igd_widthOfX s = f64_of_int (int w)"
proof -
  have "igd_shape w s \<and> igd_widthOfX s = f64_of_int (int w)"
  proof (cases prev)
    case None
    then show ?thesis using assms(1,3) igd_initialize_zero igd_zero_shape by (auto simp: igd_first_def igd_zero_def)
  next
    case (Some p)
    from igd_assign_array[of w p] assms(2,3) Some obtain s0 where
      "igd_assign w p = Inr s0" "igd_shape w s0" "igd_widthOfX s0 = f64_of_int (int w)" by blast
    then show ?thesis using assms(1,3) Some igd_initialize_zero by (auto simp: igd_first_def igd_reset_def igd_shape_def zeros_def)
  qed
  then show "igd_shape w s" "igd_widthOfX s = f64_of_int (int w)" by simp_all
qed

lemma igd_transition_array:
  assumes "logregr_igd_step_transition eig lib a b x prev = Inr c" "\<forall>p. prev = Some p \<longrightarrow> igd_array w p" "length x = w" "w \<le> 40000"
    "igd_array w a \<or> (\<exists>s. igd_load a = Inr s \<and> f64_eq (igd_numRows s) f64_zero)"
  shows "igd_array w c"
proof -
  have w: "width16 x = w" using assms(3,4) by (simp add: width16_def)
  obtain s s0 s' where s: "igd_load a = Inr s" "(if f64_eq (igd_numRows s) f64_zero then igd_first prev w else Inr s) = Inr s0"
    "igd_row eig lib (signed_y b) x prev s0 = Inr s'" "c = igd_store s'"
    using assms(1)[unfolded logregr_igd_step_transition_def w] by (auto simp: rbind_eq_Inr_iff)
  have "igd_shape w s0 \<and> igd_widthOfX s0 = f64_of_int (int w)"
  proof (cases "f64_eq (igd_numRows s) f64_zero")
    case True
    then show ?thesis using s(2) igd_first_shape[OF _ assms(2,4), of s0] by simp
  next
    case False
    then have "igd_array w a" using assms(5) s(1) by auto
    then obtain s1 where "a = igd_store s1" "igd_shape w s1" "igd_widthOfX s1 = f64_of_int (int w)" by (auto simp: igd_array_def)
    moreover from this have "s = s1" using igd_load_store[of w s1] s(1) assms(4) by simp
    ultimately show ?thesis using False s(2) by simp
  qed
  then show ?thesis using igd_row_shape[OF s(3)] s(4) by (auto simp: igd_array_def)
qed

definition igd_rows :: "eigen \<Rightarrow> mathlib \<Rightarrow> float8 list option \<Rightarrow> (bool \<times> vec) list \<Rightarrow> float8 list res" where
  "igd_rows eig lib prev rows = foldM (\<lambda>(b, x) a. logregr_igd_step_transition eig lib a b x prev) rows (replicate 4 f64_zero)"

definition igd_start :: igd_state where
  "igd_start = \<lparr>igd_widthOfX = f64_zero, stepsize = f64_zero, igd_coef = [], igd_numRows = f64_zero, igd_X_transp_AX = [],
     igd_logLikelihood = f64_zero, igd_rest = []\<rparr>"

lemma igd_load_start: "igd_load (replicate 4 f64_zero) = Inr igd_start"
proof -
  have "igd_load (igd_store igd_start) = Inr igd_start"
    by (rule igd_load_store[of 0]) (simp_all add: igd_shape_def igd_start_def, code_simp)
  then show ?thesis by (simp add: igd_store_def igd_start_def eval_nat_numeral)
qed

lemma igd_rows_array:
  assumes "igd_rows eig lib prev rows = Inr c" "rows \<noteq> []" "\<forall>(b, x)\<in>set rows. length x = w" "\<forall>p. prev = Some p \<longrightarrow> igd_array w p" "w \<le> 40000"
  shows "igd_array w c"
  using assms(1-3)
proof (induction rows arbitrary: c rule: rev_induct)
  case (snoc row rows)
  obtain b x where row: "row = (b, x)" by (cases row)
  obtain a where a: "igd_rows eig lib prev rows = Inr a" "logregr_igd_step_transition eig lib a b x prev = Inr c"
    using snoc.prems(1) by (auto simp: igd_rows_def foldM_append rbind_eq_Inr_iff row)
  have "igd_array w a \<or> (\<exists>s. igd_load a = Inr s \<and> f64_eq (igd_numRows s) f64_zero)"
  proof (cases "rows = []")
    case True
    then have "a = replicate 4 f64_zero" using a(1) by (simp add: igd_rows_def)
    then show ?thesis using igd_load_start by (simp add: igd_start_def)
  next
    case False
    then show ?thesis using snoc.IH[OF a(1)] snoc.prems(3) by simp
  qed
  then show ?case using igd_transition_array[OF a(2) assms(4) _ assms(5)] snoc.prems(3) by (simp add: row)
qed simp

section \<open>The first iteration\<close>

lemma zero_mul: "int_is x 0 \<Longrightarrow> f64_finite y \<Longrightarrow> int_is (f64_mul x y) 0"
  using f64_mul_exact[of x y] f64_exact_int[of 0] by (simp add: int_is_def)

lemma int_is_neg: "int_is x n \<Longrightarrow> int_is (f64_neg x) (- n)"
  by (simp add: int_is_def)

lemma signed_y_finite: "f64_finite (signed_y b)"
  by (simp add: signed_y_def)

text \<open>The product with a vector of zeros is zero.\<close>

definition dot_law :: "eigen \<Rightarrow> bool" where
  "dot_law eig \<longleftrightarrow> (\<forall>x c. is_finite x \<and> (\<forall>v\<in>set c. int_is v 0) \<longrightarrow> int_is (eig_dot eig x c) 0)"

definition idle :: "nat \<Rightarrow> igd_state \<Rightarrow> bool" where
  "idle w s \<longleftrightarrow> igd_shape w s \<and> igd_widthOfX s = f64_of_int (int w) \<and> stepsize s = f64_zero \<and> (\<forall>v\<in>set (igd_coef s). int_is v 0)"

lemma idle_row:
  assumes "exp_law lib" "dot_law eig" "idle w s" "is_finite x" "length x = w"
  shows "\<exists>s'. igd_row eig lib (signed_y b) x None s = Inr s' \<and> idle w s'"
proof -
  have len: "length (igd_coef s) = w" "stepsize s = f64_zero" and zero: "\<forall>v\<in>set (igd_coef s). int_is v 0"
    using assms(3) by (simp_all add: idle_def igd_shape_def)
  have fx: "f64_finite (x ! i)" if "i < w" for i using assms(4,5) that nth_mem by (auto simp: is_finite_def f64_finite_def)
  define xc where "xc = eig_dot eig x (igd_coef s)"
  have "int_is xc 0" using assms(2,4) zero by (simp add: dot_law_def xc_def)
  from zero_mul[OF int_is_neg[OF this, simplified] signed_y_finite[of b]]
  have "f64_finite (f64_mul (f64_neg xc) (signed_y b))" by (rule int_is_finite)
  then have "\<not> f64_is_nan (f64_mul (f64_neg xc) (signed_y b))" using finite_not_special by blast
  from between_finite[OF sigma_range[OF assms(1) this]]
  have scale: "int_is (f64_mul (f64_mul (stepsize s) (sigma lib (f64_mul (f64_neg xc) (signed_y b)))) (signed_y b)) 0" (is "int_is ?scale 0")
    unfolding len(2) by (intro zero_mul int_is_constants(1) signed_y_finite)
  let ?c = "map2 (\<lambda>vi xi. f64_add vi (f64_mul ?scale xi)) (igd_coef s) x"
  have run: "igd_row eig lib (signed_y b) x None s = Inr (s\<lparr>igd_numRows := f64_add (igd_numRows s) f64_one, igd_coef := ?c\<rparr>)"
    using len assms(5) by (simp add: igd_row_def row_dot_def same_size_def Let_def scaled_add_def vec_op_def igd_diagnostics_def flip: xc_def)
  have "int_is (?c ! i) 0" if "i < w" for i
  proof -
    have "int_is (igd_coef s ! i) 0" using zero len(1) that by simp
    from int_is_add[OF this zero_mul[OF scale fx[OF that]]] show ?thesis using that len(1) assms(5) by simp
  qed
  then have "\<forall>v\<in>set ?c. int_is v 0" using len(1) assms(5) by (auto simp: all_set_conv_all_nth)
  then show ?thesis using run assms(3) igd_row_shape[OF run, of w] by (simp add: idle_def)
qed

lemma idle_zero: "idle w (igd_zero w)"
  by (simp add: idle_def igd_zero_shape) (simp add: igd_zero_def)

lemma idle_rows:
  assumes "exp_law lib" "dot_law eig" "\<forall>(b, x)\<in>set rows. is_finite x \<and> length x = w" "w \<le> 40000" "rows \<noteq> []"
  shows "\<exists>s. igd_rows eig lib None rows = Inr (igd_store s) \<and> idle w s"
  using assms(3,5)
proof (induction rows rule: rev_induct)
  case (snoc row rows)
  obtain b x where row: "row = (b, x)" by (cases row)
  have x: "is_finite x" "length x = w" "width16 x = w" using snoc.prems(1) assms(4) by (auto simp: row width16_def)
  obtain a s where a: "igd_rows eig lib None rows = Inr a" "igd_load a = Inr s" "f64_eq (igd_numRows s) f64_zero \<or> idle w s"
  proof (cases "rows = []")
    case True
    show thesis by (rule that[of "replicate 4 f64_zero" igd_start]) (simp_all add: True igd_rows_def igd_load_start igd_start_def)
  next
    case False
    then obtain s where "igd_rows eig lib None rows = Inr (igd_store s)" "idle w s" using snoc by auto
    then show thesis using that[of "igd_store s" s] igd_load_store[of w s] assms(4) by (simp add: idle_def)
  qed
  obtain s0 where s0: "(if f64_eq (igd_numRows s) f64_zero then igd_first None w else Inr s) = Inr s0" "idle w s0"
    using a(3) igd_initialize_zero[OF assms(4)] idle_zero by (cases "f64_eq (igd_numRows s) f64_zero") (auto simp: igd_first_def)
  from idle_row[OF assms(1,2) s0(2) x(1,2)] obtain s' where s': "igd_row eig lib (signed_y b) x None s0 = Inr s'" "idle w s'" by blast
  have "logregr_igd_step_transition eig lib a b x None = Inr (igd_store s')"
    unfolding logregr_igd_step_transition_def x(3) using a(2) s0(1) s'(1) x(1) by simp
  then show ?case using a(1) s'(2) by (auto simp: igd_rows_def foldM_append row)
qed simp

text \<open>
  The first iteration of the incremental gradient descent leaves all coefficients zero, whatever the rows: the step size is zero, because
  it is only set when there is a previous state.
\<close>

theorem igd_first_iteration_idle:
  assumes "exp_law lib" "dot_law eig" "\<forall>(b, x)\<in>set rows. is_finite x \<and> length x = w" "w \<le> 40000" "rows \<noteq> []"
  shows "\<exists>c s. igd_rows eig lib None rows = Inr c \<and> igd_load c = Inr s \<and> length (igd_coef s) = w \<and> (\<forall>v\<in>set (igd_coef s). int_is v 0)"
proof -
  from idle_rows[OF assms] obtain s where s: "igd_rows eig lib None rows = Inr (igd_store s)" "idle w s" by blast
  then show ?thesis using igd_load_store[of w s] assms(4) by (auto simp: idle_def igd_shape_def)
qed

text \<open>An instance of the laws: the exponential is one half, and the product of vectors is zero.\<close>

definition zero_eigen :: eigen where
  "zero_eigen = unit_eigen\<lparr>eig_dot := \<lambda>_ _. f64_zero\<rparr>"

lemma instance_laws: "exp_law half_lib" "dot_law zero_eigen"
proof -
  show "exp_law half_lib" using f64_order_val(1)[of f64_zero f64_half] by (simp add: exp_law_def half_lib_def)
  show "dot_law zero_eigen" by (simp add: dot_law_def zero_eigen_def)
qed

lemma unit_finite: "is_finite [f64_one, f64_two]" "is_finite [f64_two, f64_one]"
  using constant_values(1) zero_one_values(2) by (simp_all add: is_finite_def f64_finite_def)

theorem igd_first_iteration_idle_witness:
  "\<exists>c s. igd_rows zero_eigen half_lib None [(True, [f64_one, f64_two]), (False, [f64_two, f64_one])] = Inr c \<and> igd_load c = Inr s \<and>
    length (igd_coef s) = 2 \<and> (\<forall>v\<in>set (igd_coef s). int_is v 0)"
  using instance_laws unit_finite by (intro igd_first_iteration_idle) simp_all

section \<open>The final function\<close>

text \<open>
  C32: the final function of the incremental gradient descent fails for every state of two or more variables, because it reads the array in the layout of
  another method, which needs a longer array.
\<close>

theorem igd_final_fails:
  assumes "igd_rows eig lib prev rows = Inr c" "rows \<noteq> []" "\<forall>(b, x)\<in>set rows. length x = w" "\<forall>p. prev = Some p \<longrightarrow> igd_array w p"
    "2 \<le> w" "w \<le> 40000"
  shows "logregr_igd_step_final c = Inl (Report ''Out-of-bounds array access detected.'')"
proof -
  obtain s where s: "c = igd_store s" "igd_shape w s" "igd_widthOfX s = f64_of_int (int w)"
    using igd_rows_array[OF assms(1-4,6)] by (auto simp: igd_array_def)
  have len: "length c = 4 + w * w + w" using s(1,2) by (simp add: igd_store_def igd_shape_def)
  have "handle_at c 0 = Inr (f64_of_int (int w))" using s by (simp add: handle_at_def igd_store_def)
  moreover have "bind_fields c [0, 1, 1 + w, 2 + w, 2 + 2 * w, 2 + w * w + 2 * w] = Inl (Report ''Out-of-bounds array access detected.'')"
  proof -
    have "w \<le> w * w" by simp
    then have "1 + w < length c" "2 + w < length c" "2 + 2 * w < length c" "\<not> 2 + w * w + 2 * w < length c" using len assms(5) by linarith+
    then show ?thesis using len by (simp add: bind_fields_def handle_at_def)
  qed
  moreover have "int_size (2 + w * w + 2 * w) = Inr (2 + w * w + 2 * w)" using square_small[OF assms(6)] by (simp add: int_size_def)
  ultimately show ?thesis using width_read[of w] assms(6) by (simp add: logregr_igd_step_final_def irls_load_def irls_rebind_def)
qed

theorem igd_final_fails_witness:
  "\<exists>c. igd_rows zero_eigen half_lib None [(True, [f64_one, f64_two])] = Inr c \<and>
    logregr_igd_step_final c = Inl (Report ''Out-of-bounds array access detected.'')"
proof -
  obtain s where s: "igd_rows zero_eigen half_lib None [(True, [f64_one, f64_two])] = Inr (igd_store s)"
    using idle_rows[OF instance_laws, of "[(True, [f64_one, f64_two])]" 2] unit_finite by auto
  then show ?thesis using igd_final_fails[OF s, of 2] by auto
qed

end
