(* ===== verification/LogisticCg.thy ===== *)
theory LogisticCg
  imports LogisticFacts
begin

text \<open>The states of the conjugate gradients: the layout of the array, and the matrix, of which only the lower triangle is ever filled.\<close>

section \<open>The layout of the array\<close>

lemma slice_middle: "length A = k \<Longrightarrow> length B = n \<Longrightarrow> slice k n (A @ B @ C) = B"
  by (simp add: slice_def)

lemma nth_middle: "length A = k \<Longrightarrow> (A @ x # C) ! k = x"
  by auto

definition cg_shape :: "nat \<Rightarrow> cg_state \<Rightarrow> bool" where
  "cg_shape w s \<longleftrightarrow> length (cg_coef s) = w \<and> length (cg_dir s) = w \<and> length (cg_grad s) = w \<and> length (gradNew s) = w \<and>
     length (cg_X_transp_AX s) = w * w \<and> cg_rest s = []"

lemma cg_rebind_store:
  assumes "cg_shape w s"
  shows "cg_rebind (cg_store s) w = rbind (int_size (4 + w * w + 4 * w)) (\<lambda>_. Inr s)"
proof -
  have len: "length (cg_coef s) = w" "length (cg_dir s) = w" "length (cg_grad s) = w" "length (gradNew s) = w" "length (cg_X_transp_AX s) = w * w"
    "cg_rest s = []" using assms by (simp_all add: cg_shape_def)
  let ?A = "[cg_iteration s, cg_widthOfX s]"
  let ?B = "?A @ cg_coef s @ cg_dir s @ cg_grad s"
  let ?C = "?B @ [cg_beta s, cg_numRows s] @ gradNew s"
  have store: "cg_store s = ?C @ cg_X_transp_AX s @ [cg_logLikelihood s]" using len by (simp add: cg_store_def)
  have "slice 2 w (cg_store s) = cg_coef s" using slice_middle[of ?A 2 "cg_coef s" w] len by (simp add: cg_store_def)
  moreover have "slice (2 + w) w (cg_store s) = cg_dir s"
    using slice_middle[of "?A @ cg_coef s" "2 + w" "cg_dir s" w] len by (simp add: cg_store_def)
  moreover have "slice (2 + 2 * w) w (cg_store s) = cg_grad s"
    using slice_middle[of "?A @ cg_coef s @ cg_dir s" "2 + 2 * w" "cg_grad s" w] len by (simp add: cg_store_def)
  moreover have "cg_store s ! (2 + 3 * w) = cg_beta s" using nth_middle[of ?B "2 + 3 * w" "cg_beta s"] len by (simp add: cg_store_def)
  moreover have "cg_store s ! (3 + 3 * w) = cg_numRows s"
    using nth_middle[of "?B @ [cg_beta s]" "3 + 3 * w" "cg_numRows s"] len by (simp add: cg_store_def)
  moreover have "slice (4 + 3 * w) w (cg_store s) = gradNew s"
    using slice_middle[of "?B @ [cg_beta s, cg_numRows s]" "4 + 3 * w" "gradNew s" w] len by (simp add: cg_store_def)
  moreover have "slice (4 + 4 * w) (w * w) (cg_store s) = cg_X_transp_AX s"
    using slice_middle[of ?C "4 + 4 * w" "cg_X_transp_AX s" "w * w"] len by (simp add: cg_store_def)
  moreover have "cg_store s ! (4 + w * w + 4 * w) = cg_logLikelihood s"
    using nth_middle[of "?C @ cg_X_transp_AX s" "4 + w * w + 4 * w" "cg_logLikelihood s"] len by (simp add: cg_store_def)
  moreover have "length (cg_store s) = 5 + w * w + 4 * w" using len by (simp add: cg_store_def)
  moreover have "cg_store s ! 0 = cg_iteration s" "cg_store s ! 1 = cg_widthOfX s" by (simp_all add: cg_store_def)
  ultimately show ?thesis using len
    by (cases "4 + w * w + 4 * w < 2 ^ 31") (simp_all add: cg_rebind_def int_size_def bind_fields_ok)
qed

definition cg_array :: "nat \<Rightarrow> float8 list \<Rightarrow> bool" where
  "cg_array w a \<longleftrightarrow> (\<exists>s. a = cg_store s \<and> cg_shape w s \<and> cg_widthOfX s = f64_of_int (int w))"

lemma cg_load_store:
  assumes "cg_shape w s" "cg_widthOfX s = f64_of_int (int w)" "w \<le> 40000"
  shows "cg_load (cg_store s) = Inr s"
proof -
  have "handle_at (cg_store s) 1 = Inr (f64_of_int (int w))" using assms(2) by (simp add: handle_at_def cg_store_def)
  then show ?thesis using cg_rebind_store[OF assms(1)] width_read[of w] square_small[OF assms(3)] assms(3)
    by (simp add: cg_load_def int_size_def add.commute add.left_commute)
qed

section \<open>The matrix\<close>

text \<open>The elements above the diagonal are zero.\<close>

definition cg_upper :: "nat \<Rightarrow> mat \<Rightarrow> bool" where
  "cg_upper w M \<longleftrightarrow> length M = w * w \<and> (\<forall>k<w * w. k mod w < k div w \<longrightarrow> M ! k = f64_zero)"

definition cg_ok :: "nat \<Rightarrow> cg_state \<Rightarrow> bool" where
  "cg_ok w s \<longleftrightarrow> cg_shape w s \<and> cg_widthOfX s = f64_of_int (int w) \<and> cg_upper w (cg_X_transp_AX s)"

lemma cg_upper_zeros: "cg_upper w (replicate (w * w) f64_zero)"
  by (simp add: cg_upper_def)

lemma cg_upper_add: "cg_upper (length x) M \<Longrightarrow> cg_upper (length x) (add_weighted a x M)"
  by (simp add: cg_upper_def add_weighted_def lower_add_def Let_def)

lemma zero_plus_zero: "f64_add f64_zero f64_zero = f64_zero"
  by (simp add: f64_add_def f64_unpack_def f64_mag_def f64_sign_def f64_zero_def f64_is_nan_def f64_is_inf_def f64_inf_bits_def f64_of_bits_def)

lemma cg_upper_plus: "cg_upper w M \<Longrightarrow> cg_upper w N \<Longrightarrow> cg_upper w (map2 f64_add M N)"
  by (auto simp: cg_upper_def zero_plus_zero)

definition cg_zero :: "nat \<Rightarrow> cg_state" where
  "cg_zero w = \<lparr>cg_iteration = f64_zero, cg_widthOfX = f64_of_int (int w), cg_coef = replicate w f64_zero, cg_dir = replicate w f64_zero,
     cg_grad = replicate w f64_zero, cg_beta = f64_zero, cg_numRows = f64_zero, gradNew = replicate w f64_zero,
     cg_X_transp_AX = replicate (w * w) f64_zero, cg_logLikelihood = f64_zero, cg_rest = []\<rparr>"

lemma replicate_concat: "replicate (a + b) x = replicate a x @ replicate b x"
  by (simp add: replicate_add)

lemma cg_initialize_zero:
  assumes "w \<le> 40000"
  shows "cg_initialize w = Inr (cg_zero w)"
proof -
  let ?s = "(cg_zero w)\<lparr>cg_widthOfX := f64_zero\<rparr>"
  have "5 + w * w + 4 * w = 2 + (w + (w + (w + (2 + (w + (w * w + 1))))))" by simp
  then have "replicate (5 + w * w + 4 * w) f64_zero = cg_store ?s"
    by (simp only: replicate_concat) (simp add: cg_store_def cg_zero_def eval_nat_numeral)
  moreover have "cg_shape w ?s" by (simp add: cg_shape_def cg_zero_def)
  ultimately show ?thesis using cg_rebind_store[of w ?s] square_small[OF assms]
    by (simp add: cg_initialize_def cg_arraySize_def int_size_def add.commute add.left_commute) (simp add: cg_zero_def)
qed

lemma cg_zero_ok: "cg_ok w (cg_zero w)"
  by (simp add: cg_ok_def cg_shape_def cg_zero_def cg_upper_zeros)

lemma cg_first_ok:
  assumes "cg_first prev w = Inr s" "\<forall>p. prev = Some p \<longrightarrow> cg_array w p" "w \<le> 40000"
  shows "cg_ok w s"
proof (cases prev)
  case None
  then show ?thesis using assms(1,3) cg_initialize_zero cg_zero_ok by (auto simp: cg_first_def)
next
  case (Some p)
  obtain s0 where s0: "p = cg_store s0" "cg_shape w s0" "cg_widthOfX s0 = f64_of_int (int w)" using assms(2) Some by (auto simp: cg_array_def)
  have len: "length p = 5 + w * w + 4 * w" using s0(1,2) by (simp add: cg_store_def cg_shape_def)
  have "cg_load p = Inr s0" unfolding s0(1) by (rule cg_load_store[OF s0(2,3) assms(3)])
  moreover have "take (length p) p = p" by simp
  moreover have "cg_arraySize w = Inr (length p)" using square_small[OF assms(3)] len by (simp add: cg_arraySize_def int_size_def)
  moreover have "cg_rebind p w = Inr s0" using cg_rebind_store[OF s0(2)] square_small[OF assms(3)] by (simp add: s0(1) int_size_def)
  ultimately have "cg_assign w p = Inr s0" by (simp add: cg_assign_def assign_elements_def)
  then have "s = cg_reset s0" using assms(1,3) Some cg_initialize_zero by (simp add: cg_first_def)
  then show ?thesis using s0(2,3) cg_upper_zeros[of w] by (simp add: cg_ok_def cg_reset_def cg_shape_def zeros_def)
qed

lemma cg_row_ok:
  assumes "cg_row eig lib y x s = Inr s'" "cg_ok w s" "length x = w"
  shows "cg_ok w s'"
  using assms cg_upper_add[of x "cg_X_transp_AX s"]
  by (auto simp: cg_row_def cg_ok_def cg_shape_def rbind_eq_Inr_iff Let_def scaled_add_def vec_op_Inr add_weighted_def)

lemma cg_transition_ok:
  assumes "logregr_cg_step_transition eig lib a b x prev = Inr c" "\<forall>p. prev = Some p \<longrightarrow> cg_array w p" "length x = w" "w \<le> 40000"
    "cg_load a = Inr s" "f64_eq (cg_numRows s) f64_zero \<or> cg_ok w s"
  shows "\<exists>s'. c = cg_store s' \<and> cg_ok w s'"
proof -
  have w: "width16 x = w" using assms(3,4) by (simp add: width16_def)
  obtain s0 s' where s: "(if f64_eq (cg_numRows s) f64_zero then cg_first prev w else Inr s) = Inr s0"
    "cg_row eig lib (signed_y b) x s0 = Inr s'" "c = cg_store s'"
    using assms(1)[unfolded logregr_cg_step_transition_def w] assms(5) by (auto simp: rbind_eq_Inr_iff)
  have "cg_ok w s0" using s(1) assms(6) cg_first_ok[OF _ assms(2,4), of s0] by (auto split: if_splits)
  then show ?thesis using cg_row_ok[OF s(2) _ assms(3)] s(3) by blast
qed

definition cg_rows :: "eigen \<Rightarrow> mathlib \<Rightarrow> float8 list option \<Rightarrow> (bool \<times> vec) list \<Rightarrow> float8 list res" where
  "cg_rows eig lib prev rows = foldM (\<lambda>(b, x) a. logregr_cg_step_transition eig lib a b x prev) rows (replicate 6 f64_zero)"

lemma cg_load_start: "\<exists>s. cg_load (replicate 6 f64_zero) = Inr s \<and> f64_eq (cg_numRows s) f64_zero"
proof -
  have "f64_to_uint 16 f64_zero = Inr 0" using int_is_trunc[OF int_is_constants(1)] by (simp add: f64_to_uint_def)
  then show ?thesis by (simp add: cg_load_def handle_at_def cg_rebind_def int_size_def bind_fields_ok)
qed

lemma cg_rows_ok:
  assumes "cg_rows eig lib prev rows = Inr c" "rows \<noteq> []" "\<forall>(b, x)\<in>set rows. length x = w" "\<forall>p. prev = Some p \<longrightarrow> cg_array w p" "w \<le> 40000"
  shows "\<exists>s. c = cg_store s \<and> cg_ok w s"
  using assms(1-3)
proof (induction rows arbitrary: c rule: rev_induct)
  case (snoc row rows)
  obtain b x where row: "row = (b, x)" by (cases row)
  obtain a where a: "cg_rows eig lib prev rows = Inr a" "logregr_cg_step_transition eig lib a b x prev = Inr c"
    using snoc.prems(1) by (auto simp: cg_rows_def foldM_append rbind_eq_Inr_iff row)
  obtain s where s: "cg_load a = Inr s" "f64_eq (cg_numRows s) f64_zero \<or> cg_ok w s"
  proof (cases "rows = []")
    case True
    then show thesis using a(1) cg_load_start that by (auto simp: cg_rows_def)
  next
    case False
    then obtain s where "a = cg_store s" "cg_ok w s" using snoc.IH[OF a(1)] snoc.prems(3) by auto
    then show thesis using that[of s] cg_load_store[of w s] assms(5) by (simp add: cg_ok_def)
  qed
  then show ?case using cg_transition_ok[OF a(2) assms(4) _ assms(5) s] snoc.prems(3) by (simp add: row)
qed simp

lemma cg_merge_ok:
  assumes "logregr_cg_step_merge_states (cg_store l) (cg_store r) = Inr c" "cg_ok w l" "cg_ok w r" "w \<le> 40000"
  shows "\<exists>s. c = cg_store s \<and> cg_ok w s"
proof -
  have load: "cg_load (cg_store l) = Inr l" "cg_load (cg_store r) = Inr r" using cg_load_store[of w l] cg_load_store[of w r] assms(2-4) by (simp_all add: cg_ok_def)
  have plus: "cg_ok w s" if "cg_plus a b l r n = Inr s" for a b n s
    using that assms(2,3) cg_upper_plus[of w "cg_X_transp_AX l" "cg_X_transp_AX r"]
    by (auto simp: cg_plus_def vec_add_def vec_op_Inr rbind_eq_Inr_iff cg_ok_def cg_shape_def)
  show ?thesis using assms(1-3) load plus by (auto simp: logregr_cg_step_merge_states_def rbind_eq_Inr_iff split: if_splits)
qed

text \<open>One row, and the merge of two states.\<close>

lemma cg_one_row:
  assumes "is_finite x" "length x = w" "w \<le> 40000"
  shows "\<exists>s. cg_rows eig lib None [(b, x)] = Inr (cg_store s) \<and> cg_ok w s \<and> int_is (cg_numRows s) 1"
proof -
  have w: "width16 x = w" using assms(2,3) by (simp add: width16_def)
  obtain s0 where "cg_load (replicate 6 f64_zero) = Inr s0" "f64_eq (cg_numRows s0) f64_zero" using cg_load_start by blast
  moreover have "cg_first None w = Inr (cg_zero w)" using cg_initialize_zero[OF assms(3)] by (simp add: cg_first_def)
  moreover have "\<exists>s. cg_row eig lib (signed_y b) x (cg_zero w) = Inr s \<and> int_is (cg_numRows s) 1"
    using int_is_add[OF int_is_constants] assms(2)
    by (simp add: cg_row_def row_dot_def same_size_def scaled_add_def vec_op_def cg_zero_def Let_def)
  ultimately show ?thesis using assms(1,2) cg_row_ok[OF _ cg_zero_ok] by (auto simp: cg_rows_def logregr_cg_step_transition_def w)
qed

lemma cg_merge_run:
  assumes "cg_ok w l" "cg_ok w r" "int_is (cg_numRows l) 1" "int_is (cg_numRows r) 1" "w \<le> 40000"
  shows "\<exists>c. logregr_cg_step_merge_states (cg_store l) (cg_store r) = Inr c"
proof -
  have load: "cg_load (cg_store l) = Inr l" "cg_load (cg_store r) = Inr r"
    using cg_load_store[of w l] cg_load_store[of w r] assms(1,2,5) by (simp_all add: cg_ok_def)
  have w: "cg_widthOfX l = f64_of_int (int w)" "cg_widthOfX r = f64_of_int (int w)" using assms(1,2) by (simp_all add: cg_ok_def)
  have len: "length (cg_store l) = length (cg_store r)" "length (gradNew l) = length (gradNew r)" "length (cg_X_transp_AX l) = length (cg_X_transp_AX r)"
    using assms(1,2) by (simp_all add: cg_ok_def cg_shape_def cg_store_def)
  have "f64_eq (f64_of_int (int w)) (f64_of_int (int w))" using small_order(2)[of "int w" "int w"] assms(5) by simp
  moreover have "f64_to_uint 64 (cg_numRows r) = Inr 1" using int_is_trunc[OF assms(4)] by (simp add: f64_to_uint_def)
  moreover have "\<not> f64_eq (cg_numRows l) f64_zero" using int_is_order(3)[OF assms(3) int_is_constants(1)] by simp
  ultimately show ?thesis using load w len width_read[of w] assms(5)
    by (simp add: logregr_cg_step_merge_states_def cg_plus_def compatible_def vec_add_def vec_op_def same_size_def)
qed

text \<open>
  In the method of conjugate gradients the elements of \<open>X_transp_AX\<close> above the diagonal are zero after the rows of an iteration and after
  merging, although the final function uses the whole matrix in the quadratic form that gives the length of the step.
\<close>

theorem cg_matrix_triangular:
  assumes "cg_rows eig lib prev rows = Inr a" "cg_rows eig lib prev rows' = Inr b" "rows \<noteq> []" "rows' \<noteq> []"
    "\<forall>(y, x)\<in>set (rows @ rows'). length x = w" "\<forall>p. prev = Some p \<longrightarrow> cg_array w p" "w \<le> 40000"
    "logregr_cg_step_merge_states a b = Inr c"
  shows "\<exists>s. cg_load c = Inr s \<and> cg_upper w (cg_X_transp_AX s)"
proof -
  obtain l where l: "a = cg_store l" "cg_ok w l" using cg_rows_ok[OF assms(1,3) _ assms(6,7)] assms(5) by auto
  obtain r where r: "b = cg_store r" "cg_ok w r" using cg_rows_ok[OF assms(2,4) _ assms(6,7)] assms(5) by auto
  from cg_merge_ok[OF assms(8)[unfolded l(1) r(1)] l(2) r(2) assms(7)] obtain s where "c = cg_store s" "cg_ok w s" by blast
  then show ?thesis using cg_load_store[of w s] assms(7) by (auto simp: cg_ok_def)
qed

theorem cg_matrix_triangular_witness:
  "\<exists>a b c s. cg_rows zero_eigen half_lib None [(True, [f64_one, f64_two])] = Inr a \<and> cg_rows zero_eigen half_lib None [(False, [f64_two, f64_one])] = Inr b \<and>
    logregr_cg_step_merge_states a b = Inr c \<and> cg_load c = Inr s \<and> cg_upper 2 (cg_X_transp_AX s)"
proof -
  obtain l where l: "cg_rows zero_eigen half_lib None [(True, [f64_one, f64_two])] = Inr (cg_store l)" "cg_ok 2 l" "int_is (cg_numRows l) 1"
    using cg_one_row[OF unit_finite(1), of 2 zero_eigen half_lib True] by auto
  obtain r where r: "cg_rows zero_eigen half_lib None [(False, [f64_two, f64_one])] = Inr (cg_store r)" "cg_ok 2 r" "int_is (cg_numRows r) 1"
    using cg_one_row[OF unit_finite(2), of 2 zero_eigen half_lib False] by auto
  obtain c where c: "logregr_cg_step_merge_states (cg_store l) (cg_store r) = Inr c" using cg_merge_run[OF l(2) r(2) l(3) r(3)] by auto
  show ?thesis using l(1) r(1) c cg_matrix_triangular[OF l(1) r(1) _ _ _ _ _ c, of 2] by auto
qed

end
