(* ===== verification/OutBuffer.thy ===== *)
theory OutBuffer
  imports Prelude
begin

text \<open>
  The stream buffer for messages to the client, \<open>src/dbal/OutputStreamBufferBase_impl.hpp\<close>, with the output to the server
  of \<open>src/ports/postgres/dbconnector/OutputStreamBuffer_impl.hpp\<close>.

  The put area of \<open>std::basic_streambuf\<close> is the offsets \<open>pptr\<close> and \<open>epptr\<close> into the storage (\<open>pbase\<close> is its beginning).  The storage has a
  \<open>None\<close> at each character that is not initialised.  An \<open>int_type\<close> is a character, as a number from 0 on, or \<open>eof\<close>.
\<close>

definition kInitialBufferSize :: nat where "kInitialBufferSize = 1024"
definition kMaxBufferSize :: nat where "kMaxBufferSize = 16384"

definition eof :: int where "eof = -1"

record outbuf =
  mStorageSize :: nat
  mStorage :: "byte option list"
  pptr :: nat
  epptr :: nat

definition setp :: "nat \<Rightarrow> outbuf \<Rightarrow> outbuf" where
  "setp n b = b\<lparr>pptr := 0, epptr := n\<rparr>"

definition new_outbuf :: outbuf where
  "new_outbuf = setp kInitialBufferSize
     \<lparr>mStorageSize = kInitialBufferSize, mStorage = replicate (kInitialBufferSize + 1) None, pptr = 0, epptr = 0\<rparr>"

text \<open>\<open>put_char\<close> is \<open>*pptr() = c; pbump(1)\<close>.\<close>

definition put_char :: "int \<Rightarrow> outbuf \<Rightarrow> outbuf res" where
  "put_char c b =
     rbind (upd_res (mStorage b) (int (pptr b)) (Some (word_of_int c))) (\<lambda>st.
       Inr (b\<lparr>mStorage := st, pptr := pptr b + 1\<rparr>))"

definition grow :: "outbuf \<Rightarrow> outbuf res" where
  "grow b =
     (let newStorageSize = mStorageSize b * 2
      in rbind (guard_mem (mStorageSize b \<le> length (mStorage b))) (\<lambda>_.
         rbind (check (pptr b = epptr b \<and> pptr b = mStorageSize b)
                  ''Internal error: Logging buffer has become inconsistent'') (\<lambda>_.
           Inr ((setp newStorageSize
                   (b\<lparr>mStorage := take (mStorageSize b) (mStorage b) @ replicate (newStorageSize + 1 - mStorageSize b) None\<rparr>))
                \<lparr>pptr := mStorageSize b, mStorageSize := newStorageSize\<rparr>))))"

definition not_eof :: "int \<Rightarrow> int" where
  "not_eof c = (if c = eof then 0 else c)"

definition overflow :: "int \<Rightarrow> outbuf \<Rightarrow> (int \<times> outbuf) res" where
  "overflow c b =
     (if pptr b \<ge> epptr b then
        (if mStorageSize b \<ge> kMaxBufferSize then Inr (eof, b)
         else rbind (grow b) (\<lambda>b. rbind (put_char c b) (\<lambda>b. Inr (not_eof c, b))))
      else if c = eof then Inr (eof, b)
      else rbind (put_char c b) (\<lambda>b. Inr (not_eof c, b)))"

text \<open>
  \<open>message_text\<close> is the string a pointer to the storage denotes, up to the terminating null character.
\<close>

fun message_text :: "byte option list \<Rightarrow> byte list res" where
  "message_text [] = Inl Undefined"
| "message_text (None # cs) = Inl Undefined"
| "message_text (Some c # cs) = (if c = 0 then Inr [] else rbind (message_text cs) (\<lambda>xs. Inr (c # xs)))"

text \<open>
  The output sends the message to the client; \<open>ereport\<close> tells whether the server raises an error on it.  The result
  are the messages so far.
\<close>

definition output_msg :: "(byte list \<Rightarrow> bool) \<Rightarrow> byte option list \<Rightarrow> byte list list \<Rightarrow> byte list list res" where
  "output_msg ereport inMsg msgs =
     rbind (message_text inMsg) (\<lambda>msg.
     rbind (check (\<not> ereport msg) ''An exception occured during message output.'') (\<lambda>_.
       Inr (msgs @ [msg])))"

definition sync :: "(byte list \<Rightarrow> bool) \<Rightarrow> outbuf \<times> byte list list \<Rightarrow> (outbuf \<times> byte list list) res" where
  "sync ereport st =
     (case st of (b, msgs) \<Rightarrow>
        rbind (upd_res (mStorage b) (int (pptr b)) (Some 0)) (\<lambda>storage.
        rbind (output_msg ereport storage msgs) (\<lambda>msgs.
          Inr (setp (mStorageSize b) (b\<lparr>mStorage := storage\<rparr>), msgs))))"

text \<open>
  How \<open>std::basic_streambuf\<close> calls the buffer: \<open>sputc\<close> puts a character into the put area and calls \<open>overflow\<close> when it is
  full; \<open>sputn\<close> puts characters until \<open>eof\<close>, and counts them.
\<close>

definition sputc :: "byte \<Rightarrow> outbuf \<Rightarrow> (int \<times> outbuf) res" where
  "sputc c b =
     (if pptr b < epptr b then rbind (put_char (uint c) b) (\<lambda>b. Inr (uint c, b)) else overflow (uint c) b)"

fun sputn :: "byte list \<Rightarrow> outbuf \<Rightarrow> (nat \<times> outbuf) res" where
  "sputn [] b = Inr (0, b)"
| "sputn (c # cs) b =
     rbind (sputc c b) (\<lambda>(r, b).
       if r = eof then Inr (0, b) else rbind (sputn cs b) (\<lambda>(n, b). Inr (n + 1, b)))"

text \<open>A writer that flushes after each of its messages, as the manipulator \<open>endl\<close> does.\<close>

definition write_messages :: "(byte list \<Rightarrow> bool) \<Rightarrow> byte list list \<Rightarrow> outbuf \<times> byte list list \<Rightarrow>
    (outbuf \<times> byte list list) res" where
  "write_messages ereport =
     foldM (\<lambda>cs (b, msgs). rbind (sputn cs b) (\<lambda>(_, b). sync ereport (b, msgs)))"

end
