(* ===== verification/OutBufferFacts.thy ===== *)
theory OutBufferFacts
  imports OutBuffer
begin

text \<open>The stream buffer as a bounded list of characters.\<close>

text \<open>
  What a writer relies on: a sink for characters that takes them until a limit is reached, and hands over what
  it holds when it is flushed.
\<close>

locale char_sink =
  fixes put :: "'c \<Rightarrow> 's \<Rightarrow> (int \<times> 's) res" and putn :: "'c list \<Rightarrow> 's \<Rightarrow> (nat \<times> 's) res"
    and holds :: "'s \<Rightarrow> 'c list \<Rightarrow> bool" and limit :: nat
  assumes put_room: "holds s xs \<Longrightarrow> length xs < limit \<Longrightarrow> \<exists>r s'. put c s = Inr (r, s') \<and> r \<noteq> -1 \<and> holds s' (xs @ [c])"
    and put_full: "holds s xs \<Longrightarrow> length xs = limit \<Longrightarrow> put c s = Inr (-1, s)"
    and putn_Nil: "putn [] s = Inr (0, s)"
    and putn_Cons: "put c s = Inr (r, s') \<Longrightarrow>
      putn (c # cs) s = (if r = -1 then Inr (0, s') else rbind (putn cs s') (\<lambda>(n, s). Inr (n + 1, s)))"
begin

lemma putn_holds:
  "holds s xs \<Longrightarrow> length xs \<le> limit \<Longrightarrow>
   \<exists>s'. putn cs s = Inr (min (length cs) (limit - length xs), s') \<and> holds s' (take limit (xs @ cs))"
proof (induction cs arbitrary: s xs)
  case Nil
  then show ?case by (simp add: putn_Nil)
next
  case (Cons c cs)
  show ?case
  proof (cases "length xs < limit")
    case True
    then obtain r s' where put: "put c s = Inr (r, s')" "r \<noteq> -1" "holds s' (xs @ [c])"
      using put_room[OF Cons.prems(1), of c] by blast
    have "min (length cs) (limit - Suc (length xs)) + 1 = min (length (c # cs)) (limit - length xs)"
      using True by simp
    with Cons.IH[OF put(3)] putn_Cons[OF put(1)] put(2) True show ?thesis by auto
  next
    case False
    then show ?thesis
      using Cons.prems putn_Cons[OF put_full[OF Cons.prems(1), of c]] by simp
  qed
qed

end

section \<open>The buffer\<close>

definition buffer_size :: "nat \<Rightarrow> bool" where
  "buffer_size n \<longleftrightarrow> n \<in> {1024, 2048, 4096, 8192, 16384}"

definition buf_holds :: "outbuf \<Rightarrow> byte list \<Rightarrow> bool" where
  "buf_holds b xs \<longleftrightarrow> buffer_size (mStorageSize b) \<and> length (mStorage b) = mStorageSize b + 1 \<and>
     epptr b = mStorageSize b \<and> pptr b = length xs \<and> length xs \<le> mStorageSize b \<and>
     take (length xs) (mStorage b) = map Some xs"

lemma new_outbuf_holds: "buf_holds new_outbuf []"
  by (simp add: buf_holds_def new_outbuf_def setp_def buffer_size_def kInitialBufferSize_def)

lemma put_char_holds:
  assumes "buf_holds b xs" "length xs < mStorageSize b"
  shows "\<exists>b'. put_char (uint c) b = Inr b' \<and> buf_holds b' (xs @ [c])"
  using assms by (auto simp: put_char_def buf_holds_def take_Suc_conv_app_nth)

lemma grow_holds:
  assumes "buf_holds b xs" "length xs = mStorageSize b" "mStorageSize b < kMaxBufferSize"
  shows "\<exists>b'. grow b = Inr b' \<and> buf_holds b' xs \<and> mStorageSize b' = 2 * length xs"
  using assms
  by (auto simp: grow_def buf_holds_def setp_def Let_def buffer_size_def kMaxBufferSize_def)

lemma byte_not_eof: "uint (c :: byte) \<noteq> eof"
  unfolding eof_def using uint_ge_0[of c] by linarith

lemma buffer_limit: "buf_holds b xs \<Longrightarrow> length xs \<le> kMaxBufferSize"
  by (auto simp: buf_holds_def buffer_size_def kMaxBufferSize_def)

lemma sputc_room:
  assumes "buf_holds b xs" "length xs < kMaxBufferSize"
  shows "\<exists>r b'. sputc c b = Inr (r, b') \<and> r \<noteq> -1 \<and> buf_holds b' (xs @ [c])"
proof (cases "length xs < mStorageSize b")
  case True
  with put_char_holds[OF assms(1), of c] assms(1) byte_not_eof[of c] show ?thesis
    by (auto simp: sputc_def buf_holds_def eof_def)
next
  case False
  then have full: "length xs = mStorageSize b" using assms(1) by (simp add: buf_holds_def)
  then obtain b' where b': "grow b = Inr b'" "buf_holds b' xs" "mStorageSize b' = 2 * length xs"
    using grow_holds[OF assms(1)] assms(2) by auto
  have "0 < length xs" using assms(1) full by (auto simp: buf_holds_def buffer_size_def)
  with b' put_char_holds[OF b'(2), of c] full assms byte_not_eof[of c] show ?thesis
    by (auto simp: sputc_def overflow_def buf_holds_def eof_def not_eof_def)
qed

lemma sputc_full:
  assumes "buf_holds b xs" "length xs = kMaxBufferSize"
  shows "sputc c b = Inr (-1, b)"
  using assms by (auto simp: sputc_def overflow_def buf_holds_def eof_def buffer_size_def kMaxBufferSize_def)

interpretation sink: char_sink sputc sputn buf_holds kMaxBufferSize
  by unfold_locales (auto simp: sputc_room sputc_full eof_def)

section \<open>Messages\<close>

lemma message_text_terminated: "message_text (map Some xs @ Some 0 # ys) = Inr (takeWhile (\<lambda>c. c \<noteq> 0) xs)"
  by (induction xs) auto

lemma sync_holds:
  assumes "buf_holds b xs" "\<not> ereport (takeWhile (\<lambda>c. c \<noteq> 0) xs)"
  shows "\<exists>b'. sync ereport (b, msgs) = Inr (b', msgs @ [takeWhile (\<lambda>c. c \<noteq> 0) xs]) \<and> buf_holds b' []"
proof -
  have len: "length xs < length (mStorage b)" using assms(1) by (simp add: buf_holds_def)
  have "(mStorage b)[length xs := Some 0] = map Some xs @ Some 0 # drop (Suc (length xs)) (mStorage b)"
    using assms(1) len by (simp add: upd_conv_take_nth_drop buf_holds_def)
  then show ?thesis
    using assms len by (simp add: sync_def output_msg_def buf_holds_def setp_def message_text_terminated)
qed

definition sent :: "byte list \<Rightarrow> byte list" where
  "sent cs = takeWhile (\<lambda>c. c \<noteq> 0) (take kMaxBufferSize cs)"

lemma write_messages_from:
  assumes "\<forall>cs\<in>set css. \<not> ereport (sent cs)" "buf_holds b []"
  shows "\<exists>b'. write_messages ereport css (b, msgs) = Inr (b', msgs @ map sent css) \<and> buf_holds b' []"
  using assms
proof (induction css arbitrary: b msgs)
  case Nil
  then show ?case by (simp add: write_messages_def)
next
  case (Cons cs css)
  obtain n b1 where b1: "sputn cs b = Inr (n, b1)" "buf_holds b1 (take kMaxBufferSize cs)"
    using sink.putn_holds[OF Cons.prems(2), of cs] by auto
  obtain b2 where b2: "sync ereport (b1, msgs) = Inr (b2, msgs @ [sent cs])" "buf_holds b2 []"
    using sync_holds[OF b1(2), of ereport msgs] Cons.prems(1) by (auto simp: sent_def)
  from Cons.IH[OF _ b2(2), of "msgs @ [sent cs]"] Cons.prems(1) show ?case
    by (simp add: write_messages_def b1(1) b2(1))
qed

text \<open>
  C34: Messages that are each flushed arrive at the client in their order, whatever the sizes the buffer has grown to: of each the first 16384
  characters, up to the first null character.  No write leaves the storage and the check for consistency never fails.
\<close>

theorem messages_sent:
  assumes "\<forall>cs\<in>set css. \<not> ereport (takeWhile (\<lambda>c. c \<noteq> 0) (take kMaxBufferSize cs))"
  shows "\<exists>b. write_messages ereport css (new_outbuf, []) =
           Inr (b, map (\<lambda>cs. takeWhile (\<lambda>c. c \<noteq> 0) (take kMaxBufferSize cs)) css)"
  using write_messages_from[of css ereport new_outbuf "[]"] new_outbuf_holds assms
  by (simp add: sent_def[abs_def]) blast

theorem messages_sent_witness:
  "\<exists>b. write_messages (\<lambda>_. False) [[72, 105, 0, 33], replicate 20000 7] (new_outbuf, []) =
     Inr (b, [[72, 105], replicate 16384 7])"
proof -
  have "takeWhile (\<lambda>c. c \<noteq> 0) (take kMaxBufferSize (replicate 20000 7)) = (replicate 16384 7 :: byte list)"
    by (simp add: kMaxBufferSize_def)
  moreover have "takeWhile (\<lambda>c. c \<noteq> 0) (take kMaxBufferSize [72, 105, 0, 33]) = ([72, 105] :: byte list)"
    by (simp add: kMaxBufferSize_def)
  ultimately show ?thesis
    using messages_sent[of "[[72, 105, 0, 33], replicate 20000 7]" "\<lambda>_. False"] by simp
qed

end
