(* ===== verification/Alloc.thy ===== *)
theory Alloc
  imports CompWord
begin

text \<open>
  The allocator of the C++ layer, \<open>src/ports/postgres/dbconnector/Allocator_impl.hpp\<close>, the operators \<open>new\<close> and \<open>delete\<close> of
  \<open>NewDelete.cpp\<close>, and \<open>MallocAllocator\<close> of \<open>src/utils\<close>, on a 64-bit machine with \<open>MAXIMUM_ALIGNOF = 8\<close>.

  The state is the memory and the variables of the server the code touches; \<open>agg_context\<close> is what \<open>AggCheckCallContext\<close> finds.  The
  allocation functions of the server are parameters: they return \<open>None\<close> when they raise an error of the server, which
  the code catches with \<open>PG_TRY\<close>.  A null pointer is 0.
\<close>

type_synonym addr = "64 word"

record 'x backend =
  mem :: "addr \<Rightarrow> byte"
  CurrentMemoryContext :: nat
  InterruptHoldoffCount :: "32 word"
  agg_context :: "nat option"
  server_state :: 'x

record 'x pg_alloc =
  palloc :: "bool \<Rightarrow> addr \<Rightarrow> 'x backend \<Rightarrow> addr option \<times> 'x backend"
  repalloc :: "addr \<Rightarrow> addr \<Rightarrow> 'x backend \<Rightarrow> addr option \<times> 'x backend"
  pfree :: "addr \<Rightarrow> 'x backend \<Rightarrow> unit option \<times> 'x backend"
  FlushErrorState :: "'x backend \<Rightarrow> 'x backend"

datatype memory_context = FunctionContext | AggregateContext
datatype zero_memory = DoZero | DoNotZero
datatype on_failure = ReturnNULL | ThrowBadAlloc
datatype reallocate_memory = NewAllocation | Reallocation

definition bad_alloc :: err where "bad_alloc = Report ''bad_alloc''"

section \<open>Memory\<close>

definition write_bytes :: "addr \<Rightarrow> byte list \<Rightarrow> (addr \<Rightarrow> byte) \<Rightarrow> addr \<Rightarrow> byte" where
  "write_bytes a bs m = (\<lambda>x. if unat (x - a) < length bs then bs ! unat (x - a) else m x)"

definition read_bytes :: "(addr \<Rightarrow> byte) \<Rightarrow> addr \<Rightarrow> nat \<Rightarrow> byte list" where
  "read_bytes m a n = map (\<lambda>i. m (a + of_nat i)) [0..<n]"

definition word_bytes :: "nat \<Rightarrow> 64 word \<Rightarrow> byte list" where
  "word_bytes n w = map (\<lambda>i. ucast (drop_bit (8 * i) w)) [0..<n]"

definition HOLD_INTERRUPTS :: "'x backend \<Rightarrow> 'x backend" where
  "HOLD_INTERRUPTS s = s\<lparr>InterruptHoldoffCount := InterruptHoldoffCount s + 1\<rparr>"

definition RESUME_INTERRUPTS :: "'x backend \<Rightarrow> 'x backend" where
  "RESUME_INTERRUPTS s = s\<lparr>InterruptHoldoffCount := InterruptHoldoffCount s - 1\<rparr>"

section \<open>Aligned blocks\<close>

definition align16 :: "addr \<Rightarrow> addr" where
  "align16 p = (p AND NOT 15) + 16"

definition makeAligned :: "addr \<Rightarrow> 'x backend \<Rightarrow> addr \<times> 'x backend" where
  "makeAligned inPtr s =
     (if inPtr = 0 then (0, s)
      else (align16 inPtr, s\<lparr>mem := write_bytes (align16 inPtr - 8) (word_bytes 8 inPtr) (mem s)\<rparr>))"

definition unaligned :: "addr \<Rightarrow> 'x backend \<Rightarrow> addr" where
  "unaligned inPtr s = load64 (read_bytes (mem s) (inPtr - 8) 8)"

definition aligned_result :: "addr option \<times> 'x backend \<Rightarrow> addr option \<times> 'x backend" where
  "aligned_result r =
     (case r of
        (None, s) \<Rightarrow> (None, s)
      | (Some raw, s) \<Rightarrow> (case makeAligned raw s of (p, s) \<Rightarrow> (Some p, s)))"

definition internalPalloc :: "'x pg_alloc \<Rightarrow> zero_memory \<Rightarrow> addr \<Rightarrow> 'x backend \<Rightarrow> addr option \<times> 'x backend" where
  "internalPalloc srv zm inSize s =
     (if inSize > - 1 - 16 then (Some 0, s)
      else aligned_result (palloc srv (zm = DoZero) (inSize + 16) s))"

definition internalRePalloc :: "'x pg_alloc \<Rightarrow> zero_memory \<Rightarrow> addr \<Rightarrow> addr \<Rightarrow> 'x backend \<Rightarrow>
    addr option \<times> 'x backend" where
  "internalRePalloc srv zm inPtr inSize s =
     (if inSize > - 1 - 16 then
        (case pfree srv (unaligned inPtr s) s of (None, s) \<Rightarrow> (None, s) | (Some _, s) \<Rightarrow> (Some 0, s))
      else aligned_result
        (case repalloc srv (unaligned inPtr s) (inSize + 16) s of
           (None, s) \<Rightarrow> (None, s)
         | (Some raw, s) \<Rightarrow>
             (Some raw,
              if zm = DoZero then s\<lparr>mem := write_bytes raw (replicate (unat inSize) 0) (mem s)\<rparr> else s)))"

section \<open>Allocation\<close>

definition alloc_call :: "'x pg_alloc \<Rightarrow> zero_memory \<Rightarrow> reallocate_memory \<Rightarrow> addr \<Rightarrow> addr \<Rightarrow> 'x backend \<Rightarrow>
    addr option \<times> 'x backend" where
  "alloc_call srv zm r inPtr inSize s =
     (if r = Reallocation then internalRePalloc srv zm inPtr inSize s else internalPalloc srv zm inSize s)"

text \<open>
  The \<open>PG_TRY\<close> block.  It yields \<open>errorOccurred\<close>, the pointer (not set is 0: it is not read then), the context to switch back
  to, and whether an error of the server was raised.
\<close>

definition try_block :: "'x pg_alloc \<Rightarrow> memory_context \<Rightarrow> zero_memory \<Rightarrow> reallocate_memory \<Rightarrow> addr \<Rightarrow> addr \<Rightarrow>
    'x backend \<Rightarrow> bool \<times> addr \<times> nat option \<times> bool \<times> 'x backend" where
  "try_block srv mc zm r inPtr inSize s =
     (if mc = AggregateContext then
        (case agg_context s of
           None \<Rightarrow> (True, 0, None, False, s)
         | Some aggContext \<Rightarrow>
             (let oldContext = CurrentMemoryContext s
              in case alloc_call srv zm r inPtr inSize (s\<lparr>CurrentMemoryContext := aggContext\<rparr>) of
                   (Some p, s) \<Rightarrow> (False, p, Some oldContext, False, s\<lparr>CurrentMemoryContext := oldContext\<rparr>)
                 | (None, s) \<Rightarrow> (False, 0, Some oldContext, True, s)))
      else
        (case alloc_call srv zm r inPtr inSize s of
           (Some p, s) \<Rightarrow> (False, p, None, False, s)
         | (None, s) \<Rightarrow> (False, 0, None, True, s)))"

definition internalAllocate :: "'x pg_alloc \<Rightarrow> memory_context \<Rightarrow> zero_memory \<Rightarrow> on_failure \<Rightarrow> reallocate_memory \<Rightarrow>
    addr \<Rightarrow> addr \<Rightarrow> 'x backend \<Rightarrow> addr res \<times> 'x backend" where
  "internalAllocate srv mc zm f r inPtr inSize s =
     (let s = (if f = ReturnNULL then HOLD_INTERRUPTS s else s)
      in case try_block srv mc zm r inPtr inSize s of
           (errorOccurred, ptr, oldContext, raised, s) \<Rightarrow>
             (let (errorOccurred, ptr, s) =
                    (if raised then
                       (if f = ReturnNULL then (errorOccurred, 0, FlushErrorState srv s) else (True, ptr, s))
                     else (errorOccurred, ptr, s));
                  s = (if errorOccurred
                       then (case oldContext of None \<Rightarrow> s | Some c \<Rightarrow> s\<lparr>CurrentMemoryContext := c\<rparr>) else s);
                  s = (if f = ReturnNULL then RESUME_INTERRUPTS s else s)
              in if errorOccurred \<or> ptr = 0 then (Inl bad_alloc, s) else (Inr ptr, s)))"

definition allocate :: "'x pg_alloc \<Rightarrow> memory_context \<Rightarrow> zero_memory \<Rightarrow> on_failure \<Rightarrow> addr \<Rightarrow> 'x backend \<Rightarrow>
    addr res \<times> 'x backend" where
  "allocate srv mc zm f inSize = internalAllocate srv mc zm f NewAllocation 0 inSize"

definition reallocate :: "'x pg_alloc \<Rightarrow> memory_context \<Rightarrow> zero_memory \<Rightarrow> on_failure \<Rightarrow> addr \<Rightarrow> addr \<Rightarrow>
    'x backend \<Rightarrow> addr res \<times> 'x backend" where
  "reallocate srv mc zm f inPtr inSize = internalAllocate srv mc zm f Reallocation inPtr inSize"

definition free :: "'x pg_alloc \<Rightarrow> addr \<Rightarrow> 'x backend \<Rightarrow> 'x backend" where
  "free srv inPtr s =
     (if inPtr = 0 then s
      else RESUME_INTERRUPTS
        (case pfree srv (unaligned inPtr s) (HOLD_INTERRUPTS s) of
           (None, s) \<Rightarrow> FlushErrorState srv s
         | (Some _, s) \<Rightarrow> s))"

section \<open>Arrays of the server\<close>

text \<open>
  \<open>sizeof(ArrayType)\<close> is 16, and the dimension and the lower bound take 4 bytes each.  The header of a variable-length value is
  its size, shifted by two bits.
\<close>

definition ARR_OVERHEAD :: addr where "ARR_OVERHEAD = 24"

definition array_header :: "addr \<Rightarrow> 64 word \<Rightarrow> 64 word \<Rightarrow> byte list" where
  "array_header sz elemtype n =
     word_bytes 4 (push_bit 2 sz) @ word_bytes 4 1 @ word_bytes 4 0 @ word_bytes 4 elemtype @
     word_bytes 4 n @ word_bytes 4 1"

definition allocateArray :: "'x pg_alloc \<Rightarrow> memory_context \<Rightarrow> on_failure \<Rightarrow> 64 word \<Rightarrow> addr \<Rightarrow> addr \<Rightarrow> 'x backend \<Rightarrow>
    addr res \<times> 'x backend" where
  "allocateArray srv mc f elemtype elem_size inNumElements s =
     (if (- 1 - ARR_OVERHEAD) div elem_size < inNumElements then (Inl bad_alloc, s)
      else let sz = elem_size * inNumElements + ARR_OVERHEAD
           in case allocate srv mc DoZero f sz s of
                (Inl e, s) \<Rightarrow> (Inl e, s)
              | (Inr array, s) \<Rightarrow>
                  (Inr array, s\<lparr>mem := write_bytes array (array_header sz elemtype inNumElements) (mem s)\<rparr>))"

section \<open>The operators of C++\<close>

definition operator_new :: "'x pg_alloc \<Rightarrow> addr \<Rightarrow> 'x backend \<Rightarrow> addr res \<times> 'x backend" where
  "operator_new srv n = allocate srv FunctionContext DoNotZero ThrowBadAlloc n"

text \<open>
  The operator of \<open>std::nothrow\<close> is declared \<open>throw()\<close>: an exception that leaves it does not reach the caller, but calls
  \<open>std::unexpected\<close>, which terminates the process.
\<close>

datatype nothrow_outcome = Returns addr | Unexpected err

definition operator_new_nothrow :: "'x pg_alloc \<Rightarrow> addr \<Rightarrow> 'x backend \<Rightarrow> nothrow_outcome \<times> 'x backend" where
  "operator_new_nothrow srv n s =
     (case allocate srv FunctionContext DoNotZero ReturnNULL n s of
        (Inr ptr, s) \<Rightarrow> (Returns ptr, s)
      | (Inl e, s) \<Rightarrow> (Unexpected e, s))"

definition operator_delete :: "'x pg_alloc \<Rightarrow> addr \<Rightarrow> 'x backend \<Rightarrow> 'x backend" where
  "operator_delete srv ptr = free srv ptr"

text \<open>\<open>MallocAllocator\<close>; \<open>malloc n\<close> is the pointer the C library returns for a block of \<open>n\<close> bytes.\<close>

definition malloc_max_size :: "addr \<Rightarrow> addr" where
  "malloc_max_size elem_size = - 1 div elem_size"

definition malloc_allocate :: "(addr \<Rightarrow> addr) \<Rightarrow> addr \<Rightarrow> addr \<Rightarrow> addr res" where
  "malloc_allocate malloc elem_size n =
     (if n > malloc_max_size elem_size then Inl bad_alloc
      else let ptr = malloc (n * elem_size) in if ptr = 0 then Inl bad_alloc else Inr ptr)"

end
