(* ===== verification/AllocFacts.thy ===== *)
theory AllocFacts
  imports Alloc
begin

text \<open>
  The blocks of the allocator are aligned and lie within the blocks of the server, and what happens when the server has no
  memory.
\<close>

section \<open>Memory\<close>

lemma read_write_bytes:
  assumes "length bs < 2 ^ 64"
  shows "read_bytes (write_bytes a bs m) a (length bs) = bs"
proof (rule nth_equalityI)
  fix i assume "i < length (read_bytes (write_bytes a bs m) a (length bs))"
  then have i: "i < length bs" by (simp add: read_bytes_def)
  then have "unat (of_nat i :: addr) = i"
    using assms by (simp add: unat_of_nat)
  with i show "read_bytes (write_bytes a bs m) a (length bs) ! i = bs ! i"
    by (simp add: read_bytes_def write_bytes_def)
qed (simp add: read_bytes_def)

lemma length_word_bytes [simp]: "length (word_bytes n w) = n"
  by (simp add: word_bytes_def)

lemma load_word_bytes: "load64 (word_bytes 8 w) = w"
  using load64_bytes[of w "[]"] by (simp add: word_bytes_def upt_rec numeral_eq_Suc)

lemma unaligned_made [simp]:
  "makeAligned raw s = (p, s') \<Longrightarrow> raw \<noteq> 0 \<Longrightarrow> unaligned p s' = raw"
  using read_write_bytes[of "word_bytes 8 raw" "align16 raw - 8" "mem s"]
  by (auto simp: makeAligned_def unaligned_def load_word_bytes)

lemma align16_uint:
  assumes "uint p + 16 < 2 ^ 64"
  shows "uint (align16 p) = uint p - uint p mod 16 + 16"
proof -
  have low: "(15 :: addr) = mask 4" by (simp add: mask_eq_exp_minus_1)
  have "p AND NOT 15 = push_bit 4 (drop_bit 4 p)"
    unfolding low by (rule bit_word_eqI) (auto simp: bit_simps)
  then have "uint (p AND NOT 15) = (uint p div 16 * 16) mod 2 ^ 64"
    by (simp add: push_bit_eq_mult drop_bit_eq_div uint_word_ariths uint_div)
  moreover have "uint p div 16 * 16 = uint p - uint p mod 16"
    by (simp add: minus_mod_eq_div_mult)
  moreover have "0 \<le> uint p div 16 * 16" "uint p - uint p mod 16 < 2 ^ 64"
    using uint_lt2p[of p] pos_mod_sign[of 16 "uint p"] by (simp_all add: pos_imp_zdiv_nonneg_iff)
  ultimately have low: "uint (p AND NOT 15) = uint p - uint p mod 16"
    by (metis mod_pos_pos_trivial)
  moreover have "uint (p AND NOT 15) + 16 < 2 ^ 64"
    using low assms pos_mod_sign[of 16 "uint p"] by linarith
  moreover have "uint (q + 16) = (uint q + 16) mod 2 ^ 64" for q :: addr
    by (simp add: uint_word_ariths)
  moreover have "0 \<le> uint (p AND NOT 15) + 16" using uint_ge_0[of "p AND NOT 15"] by linarith
  ultimately show ?thesis
    by (metis align16_def mod_pos_pos_trivial)
qed

lemma align16_bounds:
  assumes "uint p + 16 < 2 ^ 64" "uint p mod 8 = 0"
  shows "uint p + 8 \<le> uint (align16 p)" "uint (align16 p) \<le> uint p + 16" "uint (align16 p) mod 16 = 0"
proof -
  have "uint p mod 16 \<le> 8" "0 \<le> uint p mod 16" using assms(2) by presburger+
  then show "uint p + 8 \<le> uint (align16 p)" "uint (align16 p) \<le> uint p + 16"
    by (simp_all add: align16_uint[OF assms(1)])
  show "uint (align16 p) mod 16 = 0"
    unfolding align16_uint[OF assms(1)] by presburger
qed

section \<open>The server\<close>

text \<open>
  What the code relies on: a block is aligned to words, lies in the address space and is not at address 0, and allocating it changes
  none of the variables; an error of the server resets the count of holds on interrupts to 0.  Flushing the error does not touch the
  variables.
\<close>

definition alloc_law :: "addr \<Rightarrow> 'x backend \<Rightarrow> addr option \<times> 'x backend \<Rightarrow> bool" where
  "alloc_law n s r \<longleftrightarrow>
     (case r of
        (Some raw, s') \<Rightarrow> raw \<noteq> 0 \<and> uint raw mod 8 = 0 \<and> uint raw + uint n < 2 ^ 64 \<and>
          CurrentMemoryContext s' = CurrentMemoryContext s \<and> InterruptHoldoffCount s' = InterruptHoldoffCount s
      | (None, s') \<Rightarrow> InterruptHoldoffCount s' = 0)"

definition pg_laws :: "'x pg_alloc \<Rightarrow> bool" where
  "pg_laws srv \<longleftrightarrow> (\<forall>z n s. alloc_law n s (palloc srv z n s)) \<and>
     (\<forall>s. CurrentMemoryContext (FlushErrorState srv s) = CurrentMemoryContext s \<and>
          InterruptHoldoffCount (FlushErrorState srv s) = InterruptHoldoffCount s)"

definition usable :: "addr \<Rightarrow> addr \<Rightarrow> 'x backend \<Rightarrow> bool" where
  "usable n p s \<longleftrightarrow> uint p mod 16 = 0 \<and> unaligned p s \<noteq> 0 \<and> uint n + 16 < 2 ^ 64 \<and>
     uint (unaligned p s) + 8 \<le> uint p \<and> uint p + uint n \<le> uint (unaligned p s) + uint (n + 16) \<and>
     uint (unaligned p s) + uint (n + 16) < 2 ^ 64"

lemma word_size_ok: "\<not> n > - 1 - (16 :: addr) \<longleftrightarrow> uint n + 16 < 2 ^ 64"
  by (simp add: word_less_def not_less) linarith

lemma internalPalloc_usable:
  assumes "pg_laws srv" "internalPalloc srv zm n s = (Some p, s')" "p \<noteq> 0"
  shows "usable n p s' \<and> (\<exists>s''. palloc srv (zm = DoZero) (n + 16) s = (Some (unaligned p s'), s'')) \<and>
     CurrentMemoryContext s' = CurrentMemoryContext s \<and> InterruptHoldoffCount s' = InterruptHoldoffCount s"
proof -
  have n: "uint n + 16 < 2 ^ 64"
    using assms(2,3) word_size_ok[of n] by (auto simp: internalPalloc_def split: if_splits)
  then have n16: "uint (n + 16) = uint n + 16" by (simp add: uint_word_ariths)
  obtain raw t where raw: "palloc srv (zm = DoZero) (n + 16) s = (Some raw, t)" "makeAligned raw t = (p, s')"
    using assms(2) n word_size_ok[of n]
    by (auto simp: internalPalloc_def aligned_result_def split: option.splits prod.splits if_splits)
  have "alloc_law (n + 16) s (Some raw, t)" using assms(1) raw(1) by (metis pg_laws_def)
  then have law: "raw \<noteq> 0" "uint raw mod 8 = 0" "uint raw + uint (n + 16) < 2 ^ 64"
    "CurrentMemoryContext t = CurrentMemoryContext s" "InterruptHoldoffCount t = InterruptHoldoffCount s"
    by (simp_all add: alloc_law_def)
  have p: "p = align16 raw" "CurrentMemoryContext s' = CurrentMemoryContext t"
    "InterruptHoldoffCount s' = InterruptHoldoffCount t"
    using raw(2) law(1) by (auto simp: makeAligned_def)
  have "uint raw + 16 < 2 ^ 64" using law(3) n16 uint_ge_0[of n] by linarith
  note b = align16_bounds[OF this law(2)]
  have un: "unaligned p s' = raw" using raw(2) law(1) by simp
  show ?thesis
    using b law p raw(1) n n16 by (simp add: usable_def un[unfolded p(1)])
qed

lemma try_block_new:
  assumes "pg_laws srv" "try_block srv mc zm NewAllocation 0 n s = (e, p, oldc, raised, s')"
  shows "if e then oldc = None \<and> \<not> raised \<and> s' = s
    else if raised then InterruptHoldoffCount s' = 0
    else CurrentMemoryContext s' = CurrentMemoryContext s \<and> InterruptHoldoffCount s' = InterruptHoldoffCount s \<and>
      (p \<noteq> 0 \<longrightarrow> usable n p s' \<and> (\<exists>t t'. palloc srv (zm = DoZero) (n + 16) t = (Some (unaligned p s'), t')))"
proof -
  have call: "case internalPalloc srv zm n t of
      (None, t') \<Rightarrow> InterruptHoldoffCount t' = 0
    | (Some p, t') \<Rightarrow> CurrentMemoryContext t' = CurrentMemoryContext t \<and>
        InterruptHoldoffCount t' = InterruptHoldoffCount t \<and>
        (p \<noteq> 0 \<longrightarrow> usable n p t' \<and> (\<exists>u u'. palloc srv (zm = DoZero) (n + 16) u = (Some (unaligned p t'), u')))" for t
  proof (cases "internalPalloc srv zm n t")
    case (Pair q t')
    show ?thesis
    proof (cases q)
      case None
      with Pair obtain r where "palloc srv (zm = DoZero) (n + 16) t = (None, t')"
        by (auto simp: internalPalloc_def aligned_result_def split: if_splits option.splits prod.splits)
      then have "alloc_law (n + 16) t (None, t')" using assms(1) by (metis pg_laws_def)
      with Pair None show ?thesis by (simp add: alloc_law_def)
    next
      case (Some p)
      show ?thesis
      proof (cases "p = 0")
        case True
        have "CurrentMemoryContext t' = CurrentMemoryContext t \<and> InterruptHoldoffCount t' = InterruptHoldoffCount t"
        proof (cases "n > - 1 - 16")
          case False
          then obtain raw u where u: "palloc srv (zm = DoZero) (n + 16) t = (Some raw, u)" "makeAligned raw u = (p, t')"
            using Pair Some by (auto simp: internalPalloc_def aligned_result_def split: option.splits prod.splits)
          then have "alloc_law (n + 16) t (Some raw, u)" using assms(1) by (metis pg_laws_def)
          with u show ?thesis by (auto simp: alloc_law_def makeAligned_def)
        qed (use Pair in \<open>simp add: internalPalloc_def\<close>)
        with Pair Some True show ?thesis by simp
      next
        case False
        with internalPalloc_usable[OF assms(1), of zm n t p t'] Pair Some show ?thesis by auto
      qed
    qed
  qed
  show ?thesis
  proof (cases "mc = AggregateContext")
    case True
    show ?thesis
    proof (cases "agg_context s")
      case None
      with assms(2) True show ?thesis by (auto simp: try_block_def)
    next
      case (Some c)
      with assms(2) True call[of "s\<lparr>CurrentMemoryContext := c\<rparr>"] show ?thesis
        by (auto simp: try_block_def alloc_call_def usable_def unaligned_def Let_def split: prod.splits option.splits) blast
    qed
  next
    case False
    with assms(2) call[of s] show ?thesis
      by (auto simp: try_block_def alloc_call_def split: prod.splits option.splits)
  qed
qed

section \<open>Allocation\<close>

text \<open>
  C35: An allocation that succeeds returns a pointer to a block that is aligned to 16 bytes and has room for the requested size within a block of
  the server, whose address is found in front of it, which is what \<open>free\<close> hands back to the server; the memory context and the holds on interrupts are as before.
  Otherwise it throws \<open>bad_alloc\<close>, also when it was asked to return a null pointer instead.
\<close>

theorem allocate_block:
  assumes "pg_laws srv"
  shows "case allocate srv mc zm f n s of
           (Inl e, s') \<Rightarrow> e = bad_alloc
         | (Inr p, s') \<Rightarrow> (\<exists>raw t t'. palloc srv (zm = DoZero) (n + 16) t = (Some raw, t') \<and>
             uint p mod 16 = 0 \<and> uint raw + 8 \<le> uint p \<and> uint p + uint n \<le> uint raw + uint (n + 16) \<and>
             uint raw + uint (n + 16) < 2 ^ 64 \<and>
             free srv p s' = RESUME_INTERRUPTS (case pfree srv raw (HOLD_INTERRUPTS s') of
               (None, u) \<Rightarrow> FlushErrorState srv u | (Some _, u) \<Rightarrow> u)) \<and>
             CurrentMemoryContext s' = CurrentMemoryContext s \<and> InterruptHoldoffCount s' = InterruptHoldoffCount s"
proof -
  define h where "h = (if f = ReturnNULL then HOLD_INTERRUPTS s else s)"
  obtain e p oldc raised t where tb: "try_block srv mc zm NewAllocation 0 n h = (e, p, oldc, raised, t)"
    by (metis prod_cases5)
  note new = try_block_new[OF assms tb]
  show ?thesis
  proof (cases "e \<or> raised \<or> p = 0")
    case True
    then show ?thesis
      using tb by (auto simp: allocate_def internalAllocate_def Let_def simp flip: h_def)
  next
    case False
    define s' where "s' = (if f = ReturnNULL then RESUME_INTERRUPTS t else t)"
    have run: "allocate srv mc zm f n s = (Inr p, s')"
      using False tb by (simp add: allocate_def internalAllocate_def Let_def s'_def flip: h_def)
    have kept: "CurrentMemoryContext s' = CurrentMemoryContext s" "InterruptHoldoffCount s' = InterruptHoldoffCount s"
      using False new by (auto simp: s'_def h_def HOLD_INTERRUPTS_def RESUME_INTERRUPTS_def)
    have u: "usable n p t" "\<exists>v v'. palloc srv (zm = DoZero) (n + 16) v = (Some (unaligned p t), v')"
      using False new by auto
    have same: "unaligned p s' = unaligned p t"
      by (simp add: s'_def unaligned_def RESUME_INTERRUPTS_def)
    have "p \<noteq> 0" using False by simp
    with run kept u same show ?thesis
      by (auto simp: usable_def free_def)
  qed
qed

text \<open>
  C36: When the server has no memory, or the size with the space for the alignment exceeds the address space, the allocation that is to
  return a null pointer throws \<open>bad_alloc\<close>.  The \<open>operator new\<close> of \<open>std::nothrow\<close>, which makes this allocation and may not throw,
  therefore terminates the process by \<open>std::unexpected\<close> instead of returning a null pointer.  At this point, and for a caller of
  the allocator that catches the exception, an error of the server has left the count of holds on interrupts at its largest value,
  so that interrupts are not processed any more.
\<close>

theorem nothrow_allocation_fails:
  assumes "pg_laws srv"
    and "palloc srv False (n + 16) (HOLD_INTERRUPTS s) = (None, t) \<or> 2 ^ 64 \<le> uint n + 16"
  shows "\<exists>s'. allocate srv FunctionContext DoNotZero ReturnNULL n s = (Inl bad_alloc, s') \<and>
    operator_new_nothrow srv n s = (Unexpected bad_alloc, s') \<and>
    InterruptHoldoffCount s' = (if uint n + 16 < 2 ^ 64 then 2 ^ 32 - 1 else InterruptHoldoffCount s)"
proof -
  have "\<exists>s'. allocate srv FunctionContext DoNotZero ReturnNULL n s = (Inl bad_alloc, s') \<and>
      InterruptHoldoffCount s' = (if uint n + 16 < 2 ^ 64 then 2 ^ 32 - 1 else InterruptHoldoffCount s)"
  proof (cases "uint n + 16 < 2 ^ 64")
    case True
    then have none: "palloc srv False (n + 16) (HOLD_INTERRUPTS s) = (None, t)" using assms(2) by simp
    then have "alloc_law (n + 16) (HOLD_INTERRUPTS s) (None, t)" using assms(1) by (metis pg_laws_def)
    then have "InterruptHoldoffCount (FlushErrorState srv t) = 0"
      using assms(1) by (simp add: alloc_law_def pg_laws_def)
    then show ?thesis
      using none True word_size_ok[of n]
      by (simp add: allocate_def internalAllocate_def try_block_def alloc_call_def
          internalPalloc_def aligned_result_def Let_def RESUME_INTERRUPTS_def)
  next
    case False
    then show ?thesis
      using word_size_ok[of n]
      by (simp add: allocate_def internalAllocate_def try_block_def alloc_call_def
          internalPalloc_def Let_def RESUME_INTERRUPTS_def HOLD_INTERRUPTS_def)
  qed
  then show ?thesis by (auto simp: operator_new_nothrow_def)
qed

section \<open>A server\<close>

text \<open>A server that hands out one block after the other, from an address that is a multiple of 8 on, up to a limit.\<close>

definition bump_alloc :: "addr \<Rightarrow> addr pg_alloc" where
  "bump_alloc limit =
     \<lparr>palloc = (\<lambda>zero n s.
        if uint (server_state s) mod 8 = 0 \<and> server_state s \<noteq> 0 \<and> uint (server_state s) + uint n < uint limit
        then (Some (server_state s), s\<lparr>server_state := server_state s + ((n + 7) div 8) * 8\<rparr>)
        else (None, s\<lparr>InterruptHoldoffCount := 0\<rparr>)),
      repalloc = (\<lambda>p n s. (None, s\<lparr>InterruptHoldoffCount := 0\<rparr>)),
      pfree = (\<lambda>p s. (Some (), s)), FlushErrorState = (\<lambda>s. s)\<rparr>"

lemma bump_alloc_laws: "pg_laws (bump_alloc limit)"
  using uint_lt2p[of limit] by (auto simp: pg_laws_def alloc_law_def bump_alloc_def)

definition start_state :: "addr backend" where
  "start_state = \<lparr>mem = (\<lambda>_. 0), CurrentMemoryContext = 1, InterruptHoldoffCount = 0, agg_context = None,
     server_state = 1000\<rparr>"

theorem allocate_block_witness:
  "\<exists>s'. allocate (bump_alloc 100000) FunctionContext DoNotZero ThrowBadAlloc 40 start_state = (Inr 1008, s') \<and>
     InterruptHoldoffCount s' = 0"
proof -
  have "fst (allocate (bump_alloc 100000) FunctionContext DoNotZero ThrowBadAlloc 40 start_state) = Inr 1008"
    by code_simp
  then obtain s' where run: "allocate (bump_alloc 100000) FunctionContext DoNotZero ThrowBadAlloc 40 start_state = (Inr 1008, s')"
    by (metis prod.collapse)
  have "case allocate (bump_alloc 100000) FunctionContext DoNotZero ThrowBadAlloc 40 start_state of
      (Inl e, s') \<Rightarrow> e = bad_alloc | (Inr p, s') \<Rightarrow> InterruptHoldoffCount s' = InterruptHoldoffCount start_state"
    using allocate_block[OF bump_alloc_laws[of 100000], where mc = FunctionContext and zm = DoNotZero and f = ThrowBadAlloc and n = 40 and s = start_state]
    by (auto split: prod.splits sum.splits)
  with run show ?thesis by (simp add: start_state_def)
qed

theorem nothrow_allocation_fails_witness:
  "\<exists>s'. operator_new_nothrow (bump_alloc 0) 40 start_state = (Unexpected bad_alloc, s') \<and> InterruptHoldoffCount s' = 2 ^ 32 - 1"
proof -
  have "palloc (bump_alloc 0) z n s = (None, s\<lparr>InterruptHoldoffCount := 0\<rparr>)" for z n s
  proof -
    have "\<not> uint (server_state s) + uint n < 0"
      using uint_ge_0[of n] uint_ge_0[of "server_state s"] by linarith
    then show ?thesis by (simp add: bump_alloc_def)
  qed
  then show ?thesis
    using nothrow_allocation_fails[OF bump_alloc_laws[of 0], of 40 start_state] by auto
qed

end
