(* ===== verification/Catalog.thy ===== *)
theory Catalog
  imports Prelude
begin

text \<open>
  The cache of the system catalog in the C++ layer, \<open>src/ports/postgres/dbconnector/SystemInformation_impl.hpp\<close>.

  The catalog of the server is a parameter: a lookup is \<open>None\<close> when there is no row, and a call that can raise an error of the server is \<open>None\<close>
  when it does (the wrappers of \<open>Backend.hpp\<close> turn that into a \<open>PGException\<close>).  An entry of a hash table is allocated before it is
  filled; what is not filled yet is \<open>None\<close>, and reading it is undefined behaviour.
\<close>

section \<open>Exceptions\<close>

datatype exn =
  Bad_alloc | Invalid_argument string | Domain_error string | Range_error string | Overflow_error string
| Underflow_error string | NoSolutionFound string | Out_of_range string | Logic_error string | Runtime_error string
| PGException | Unknown_exception | Undefined_behaviour

text \<open>A computation on a state that may throw.\<close>

type_synonym ('s, 'a) xm = "'s \<Rightarrow> (exn + 'a) \<times> 's"

definition xret :: "'a \<Rightarrow> ('s, 'a) xm" where "xret a = (\<lambda>s. (Inr a, s))"

definition xthrow :: "exn \<Rightarrow> ('s, 'a) xm" where "xthrow e = (\<lambda>s. (Inl e, s))"

definition xbind :: "('s, 'a) xm \<Rightarrow> ('a \<Rightarrow> ('s, 'b) xm) \<Rightarrow> ('s, 'b) xm" where
  "xbind m f = (\<lambda>s. case m s of (Inl e, s) \<Rightarrow> (Inl e, s) | (Inr a, s) \<Rightarrow> f a s)"

definition xassert :: "bool \<Rightarrow> exn \<Rightarrow> ('s, unit) xm" where
  "xassert b e = (if b then xret () else xthrow e)"

definition xoption :: "'a option \<Rightarrow> exn \<Rightarrow> ('s, 'a) xm" where
  "xoption v e = (case v of None \<Rightarrow> xthrow e | Some a \<Rightarrow> xret a)"

definition xupdate :: "('s \<Rightarrow> 's) \<Rightarrow> ('s, unit) xm" where "xupdate f = (\<lambda>s. (Inr (), f s))"

definition xget :: "('s \<Rightarrow> 'a) \<Rightarrow> ('s, 'a) xm" where "xget f = (\<lambda>s. (Inr (f s), s))"

lemma xret_simps [simp]: "xret a = Pair (Inr a)" "xthrow e = Pair (Inl e)"
  by (simp_all add: xret_def xthrow_def fun_eq_iff)

lemma xbind_simps [simp]: "xbind (Pair (Inr a)) f = f a" "xbind (Pair (Inl e)) f = Pair (Inl e)"
  by (simp_all add: xbind_def)

lemma xoption_simps [simp]:
  "xassert True e = Pair (Inr ())" "xassert False e = Pair (Inl e)"
  "xoption (Some a) e = Pair (Inr a)" "xoption None e = Pair (Inl e)"
  by (simp_all add: xassert_def xoption_def)

lemma xrun_simps [simp]: "xupdate f s = (Inr (), f s)" "xget g s = (Inr (g s), s)"
  by (simp_all add: xupdate_def xget_def)

text \<open>To run a computation, the simplifier evaluates its first step and then continues.\<close>

fun xcont :: "('a \<Rightarrow> ('s, 'b) xm) \<Rightarrow> (exn + 'a) \<times> 's \<Rightarrow> (exn + 'b) \<times> 's" where
  "xcont f (Inl e, s) = (Inl e, s)"
| "xcont f (Inr a, s) = f a s"

lemma xbind_step: "xbind m f s = xcont f (m s)"
  by (cases "m s"; cases "fst (m s)") (auto simp: xbind_def)

lemma xbind_run: "xbind m f s = (case m s of (Inl e, s) \<Rightarrow> (Inl e, s) | (Inr a, s) \<Rightarrow> f a s)"
  by (simp add: xbind_def)

section \<open>The catalog of the server\<close>

type_synonym oid = nat
type_synonym tupdesc = "oid list"

definition InvalidOid :: oid where "InvalidOid = 0"
definition OIDOID :: oid where "OIDOID = 26"
definition RECORDOID :: oid where "RECORDOID = 2249"

datatype typtype = TYPTYPE_BASE | TYPTYPE_COMPOSITE | TYPTYPE_DOMAIN | TYPTYPE_ENUM | TYPTYPE_PSEUDO

record type_row =
  typname :: string
  typ_len :: int
  typbyval :: bool
  typ_type :: typtype

record oid_array =
  oa_ndim :: int
  oa_dim :: int
  oa_hasnull :: bool
  oa_elemtype :: oid
  oa_items :: "oid list"

record proc_row =
  proargtypes :: "oid list"
  pronargs :: nat
  prorettype :: oid
  proisstrict :: bool
  prosecdef :: bool
  proallargtypes :: "oid_array option"

text \<open>
  \<open>fn_expr\<close> are the types of the arguments in the expression parse tree, when there is one; \<open>call_result\<close> is what
  \<open>get_call_result_type\<close> finds.
\<close>

record fmgr_info =
  fn_oid :: oid
  fn_expr :: "(nat \<Rightarrow> oid) option"
  call_result :: "(oid \<times> tupdesc option) option"

record catalog =
  search_type :: "oid \<Rightarrow> type_row option"
  search_proc :: "oid \<Rightarrow> proc_row option"
  rowtype_tupdesc :: "oid \<Rightarrow> tupdesc option"
  record_tupdesc :: "int \<Rightarrow> tupdesc option"
  may_execute :: "oid \<Rightarrow> bool"

section \<open>The cache\<close>

record type_info =
  ti_oid :: oid
  ti_row :: "type_row option"
  ti_tupdesc :: "tupdesc option option"

record func_head =
  fh_nargs :: nat
  fh_polymorphic :: bool
  fh_isstrict :: bool
  fh_secdef :: bool

record func_rest =
  fr_argtypes :: "oid list"
  fr_rettype :: oid
  fr_tupdesc :: "tupdesc option"

record func_info =
  fi_oid :: oid
  fi_flinfo :: "fmgr_info option"
  fi_head :: "func_head option"
  fi_rest :: "func_rest option"

record sysinfo =
  entryFuncOID :: oid
  collationOID :: oid
  typeTable :: "oid \<rightharpoonup> type_info"
  funcTable :: "oid \<rightharpoonup> func_info"

text \<open>The cache is created by the first call, in the place where the server keeps a pointer for the function.\<close>

definition SystemInformation_get :: "oid \<Rightarrow> oid \<Rightarrow> sysinfo option \<Rightarrow> sysinfo" where
  "SystemInformation_get fn collation sysInfo =
     (case sysInfo of
        Some si \<Rightarrow> si
      | None \<Rightarrow> \<lparr>entryFuncOID = fn, collationOID = collation, typeTable = Map.empty, funcTable = Map.empty\<rparr>)"

definition set_type :: "type_info \<Rightarrow> (sysinfo, unit) xm" where
  "set_type t = xupdate (\<lambda>si. si\<lparr>typeTable := (typeTable si)(ti_oid t \<mapsto> t)\<rparr>)"

definition set_func :: "func_info \<Rightarrow> (sysinfo, unit) xm" where
  "set_func f = xupdate (\<lambda>si. si\<lparr>funcTable := (funcTable si)(fi_oid f \<mapsto> f)\<rparr>)"

definition fill_type :: "catalog \<Rightarrow> oid \<Rightarrow> (sysinfo, type_info) xm" where
  "fill_type cat inTypeID =
     xbind (xoption (search_type cat inTypeID)
              (Runtime_error ''Error while looking up a type in the system catalog.'')) (\<lambda>pgType.
       let t = \<lparr>ti_oid = inTypeID, ti_row = Some pgType, ti_tupdesc = None\<rparr>
       in xbind (set_type t) (\<lambda>_.
          xbind (if typ_type pgType = TYPTYPE_COMPOSITE
                 then xbind (xoption (rowtype_tupdesc cat inTypeID) PGException) (\<lambda>d. xret (Some d))
                 else xret None) (\<lambda>d.
          xbind (set_type (t\<lparr>ti_tupdesc := Some d\<rparr>)) (\<lambda>_. xret (t\<lparr>ti_tupdesc := Some d\<rparr>)))))"

definition typeInformation :: "catalog \<Rightarrow> oid \<Rightarrow> (sysinfo, type_info) xm" where
  "typeInformation cat inTypeID =
     xbind (xget (\<lambda>si. typeTable si inTypeID)) (\<lambda>found.
       case found of
         Some t \<Rightarrow> xret t
       | None \<Rightarrow>
           xbind (set_type \<lparr>ti_oid = inTypeID, ti_row = None, ti_tupdesc = None\<rparr>) (\<lambda>_. fill_type cat inTypeID))"

text \<open>Reading the fields of an entry.\<close>

definition getType :: "type_info \<Rightarrow> ('s, typtype) xm" where
  "getType t = xbind (xoption (ti_row t) Undefined_behaviour) (\<lambda>r. xret (typ_type r))"

definition getName :: "type_info \<Rightarrow> ('s, string) xm" where
  "getName t = xbind (xoption (ti_row t) Undefined_behaviour) (\<lambda>r. xret (typname r))"

definition isCompositeType :: "type_info \<Rightarrow> ('s, bool) xm" where
  "isCompositeType t =
     (if ti_oid t = RECORDOID then xret True
      else xbind (getType t) (\<lambda>k. xret (k = TYPTYPE_COMPOSITE)))"

definition getTupleDesc :: "catalog \<Rightarrow> int \<Rightarrow> type_info \<Rightarrow> ('s, tupdesc option) xm" where
  "getTupleDesc cat inTypeMod t =
     xbind (xoption (ti_tupdesc t) Undefined_behaviour) (\<lambda>d.
       if d \<noteq> None then xret d
       else if ti_oid t = RECORDOID \<and> 0 \<le> inTypeMod then xret (record_tupdesc cat inTypeMod)
       else xret None)"

text \<open>The loop over the arguments, which ends at the first one of a pseudo type.\<close>

fun any_pseudo :: "catalog \<Rightarrow> oid list \<Rightarrow> nat \<Rightarrow> (sysinfo, bool) xm" where
  "any_pseudo cat allargs 0 = xret False"
| "any_pseudo cat [] (Suc n) = xthrow Undefined_behaviour"
| "any_pseudo cat (a # allargs) (Suc n) =
     xbind (typeInformation cat a) (\<lambda>t.
     xbind (getType t) (\<lambda>k.
       if k = TYPTYPE_PSEUDO then xret True else any_pseudo cat allargs n))"

definition all_args :: "proc_row \<Rightarrow> ('s, oid list) xm" where
  "all_args pgFunc =
     (case proallargtypes pgFunc of
        None \<Rightarrow> xret (proargtypes pgFunc)
      | Some arr \<Rightarrow>
          xbind (xassert (oa_ndim arr = 1 \<and> 0 \<le> oa_dim arr \<and> \<not> oa_hasnull arr \<and> oa_elemtype arr = OIDOID \<and>
                   int (pronargs pgFunc) \<le> oa_dim arr)
                   (Runtime_error ''proallargtypes is not a vaid one-dimensional Oid array'')) (\<lambda>_.
            xret (oa_items arr)))"

definition fill_func :: "catalog \<Rightarrow> oid \<Rightarrow> (sysinfo, func_info) xm" where
  "fill_func cat inFuncID =
     xbind (xoption (search_proc cat inFuncID)
              (Runtime_error ''Error while looking up a function in the system catalog.'')) (\<lambda>pgFunc.
       let h = \<lparr>fh_nargs = length (proargtypes pgFunc), fh_polymorphic = False, fh_isstrict = proisstrict pgFunc,
                fh_secdef = prosecdef pgFunc\<rparr>;
           f = \<lparr>fi_oid = inFuncID, fi_flinfo = None, fi_head = Some h, fi_rest = None\<rparr>
       in xbind (set_func f) (\<lambda>_.
          xbind (all_args pgFunc) (\<lambda>allargs.
          xbind (any_pseudo cat allargs (pronargs pgFunc)) (\<lambda>p.
            let f = f\<lparr>fi_head := Some (h\<lparr>fh_polymorphic := p\<rparr>),
                      fi_rest := Some \<lparr>fr_argtypes = proargtypes pgFunc, fr_rettype = prorettype pgFunc,
                                       fr_tupdesc = None\<rparr>\<rparr>
            in xbind (set_func f) (\<lambda>_. xret f)))))"

definition functionInformation :: "catalog \<Rightarrow> oid \<Rightarrow> (sysinfo, func_info) xm" where
  "functionInformation cat inFuncID =
     xbind (xget (\<lambda>si. funcTable si inFuncID)) (\<lambda>found.
       case found of
         Some f \<Rightarrow> xret f
       | None \<Rightarrow>
           xbind (set_func \<lparr>fi_oid = inFuncID, fi_flinfo = None, fi_head = None, fi_rest = None\<rparr>) (\<lambda>_.
             fill_func cat inFuncID))"

section \<open>Functions\<close>

definition getFuncMgrInfo :: "catalog \<Rightarrow> func_info \<Rightarrow> (sysinfo, fmgr_info) xm" where
  "getFuncMgrInfo cat f =
     (case fi_flinfo f of
        Some m \<Rightarrow> xret m
      | None \<Rightarrow>
          xbind (xoption (fi_head f) Undefined_behaviour) (\<lambda>_.
          xbind (xassert (may_execute cat (fi_oid f)) (Invalid_argument ''No privilege to run function'')) (\<lambda>_.
            let m = \<lparr>fn_oid = fi_oid f, fn_expr = None, call_result = None\<rparr>
            in xbind (set_func (f\<lparr>fi_flinfo := Some m\<rparr>)) (\<lambda>_. xret m))))"

definition getArgumentType :: "catalog \<Rightarrow> func_info \<Rightarrow> nat \<Rightarrow> fmgr_info option \<Rightarrow> (sysinfo, oid) xm" where
  "getArgumentType cat f inArgID inFmgrInfo =
     xbind (case inFmgrInfo of None \<Rightarrow> getFuncMgrInfo cat f | Some m \<Rightarrow> xret m) (\<lambda>m.
     xbind (xassert (fi_oid f = fn_oid m) (Runtime_error ''Invalid arguments passed to getArgumentType()'')) (\<lambda>_.
     xbind (xoption (fi_rest f) Undefined_behaviour) (\<lambda>r.
     xbind (xassert (inArgID < length (fr_argtypes r)) Undefined_behaviour) (\<lambda>_.
       let typeID = fr_argtypes r ! inArgID
       in xbind (typeInformation cat typeID) (\<lambda>t.
          xbind (getType t) (\<lambda>k.
            case fn_expr m of
              Some ex \<Rightarrow> xret (if k = TYPTYPE_PSEUDO then ex inArgID else typeID)
            | None \<Rightarrow> xret typeID))))))"

definition getReturnType :: "catalog \<Rightarrow> func_info \<Rightarrow> fmgr_info \<Rightarrow> (sysinfo, oid) xm" where
  "getReturnType cat f m =
     xbind (xassert (fi_oid f = fn_oid m) (Runtime_error ''Invalid arguments passed to getReturnType()'')) (\<lambda>_.
     xbind (xoption (fi_rest f) Undefined_behaviour) (\<lambda>r.
       if fr_rettype r = RECORDOID then xret (fr_rettype r)
       else xbind (typeInformation cat (fr_rettype r)) (\<lambda>t.
            xbind (getType t) (\<lambda>k.
              if k = TYPTYPE_PSEUDO then
                xbind (xoption (fi_head f) Undefined_behaviour) (\<lambda>h.
                xbind (xassert (fh_polymorphic h)
                         (Logic_error ''Function returns non-record pseudo type but is not polymorphic.'')) (\<lambda>_.
                xbind (xoption (call_result m) PGException) (\<lambda>(ty, _). xret ty)))
              else xret (fr_rettype r)))))"

definition getReturnTupleDesc :: "catalog \<Rightarrow> func_info \<Rightarrow> fmgr_info \<Rightarrow> (sysinfo, tupdesc option) xm" where
  "getReturnTupleDesc cat f m =
     xbind (xassert (fi_oid f = fn_oid m) (Runtime_error ''Invalid arguments passed to getReturnTupleDesc()'')) (\<lambda>_.
     xbind (xoption (fi_rest f) Undefined_behaviour) (\<lambda>r.
       if fr_tupdesc r \<noteq> None then xret (fr_tupdesc r)
       else if fr_rettype r = RECORDOID then
         xbind (xoption (call_result m) PGException) (\<lambda>(_, d).
         xbind (xoption (fi_head f) Undefined_behaviour) (\<lambda>h.
           if fh_polymorphic h then xret d
           else xbind (xoption d Undefined_behaviour) (\<lambda>d'.
                xbind (set_func (f\<lparr>fi_rest := Some (r\<lparr>fr_tupdesc := Some d'\<rparr>)\<rparr>)) (\<lambda>_. xret d))))
       else xbind (typeInformation cat (fr_rettype r)) (\<lambda>t.
            xbind (getType t) (\<lambda>k.
              if k = TYPTYPE_COMPOSITE then xoption (ti_tupdesc t) Undefined_behaviour else xret None))))"

end
