(* ===== verification/CatalogFacts.thy ===== *)
theory CatalogFacts
  imports Catalog
begin

text \<open>
  The cache of the catalog: what is cached, and what a sequence of lookups returns.
\<close>

lemma xbind_Inr: "xbind m f s = (Inr b, s') \<longleftrightarrow> (\<exists>a t. m s = (Inr a, t) \<and> f a t = (Inr b, s'))"
  by (auto simp: xbind_run split: prod.splits sum.splits)

section \<open>Lookups that are cached\<close>

text \<open>
  A table is filled on the first lookup of a key, whether this succeeds or not; then a lookup only reads the
  table.
\<close>

locale cached_lookup =
  fixes look :: "'k \<Rightarrow> ('s, 'v) xm" and table :: "'s \<Rightarrow> 'k \<rightharpoonup> 'v"
  assumes hit: "table s k = Some v \<Longrightarrow> look k s = (Inr v, s)"
    and miss: "table s k = None \<Longrightarrow> k \<in> dom (table (snd (look k s)))"
    and kept: "dom (table s) \<subseteq> dom (table (snd (look k s)))"
begin

lemma second_lookup: "\<exists>v. look k (snd (look k s)) = (Inr v, snd (look k s))"
proof -
  have "k \<in> dom (table (snd (look k s)))"
    using hit[of s k] miss[of s k] by (cases "table s k") auto
  then show ?thesis using hit by blast
qed

lemma later_lookup: "k \<in> dom (table s) \<Longrightarrow> \<exists>v. look k (snd (look j s)) = (Inr v, snd (look j s))"
  using kept[of s j] hit by blast

end

lemma set_type_run [simp]: "set_type t s = (Inr (), s\<lparr>typeTable := (typeTable s)(ti_oid t \<mapsto> t)\<rparr>)"
  by (simp add: set_type_def)

lemma set_func_run [simp]: "set_func f s = (Inr (), s\<lparr>funcTable := (funcTable s)(fi_oid f \<mapsto> f)\<rparr>)"
  by (simp add: set_func_def)

section \<open>Types\<close>

definition full_type :: "catalog \<Rightarrow> oid \<Rightarrow> type_info option" where
  "full_type cat k =
     (case search_type cat k of
        None \<Rightarrow> None
      | Some r \<Rightarrow>
          if typ_type r = TYPTYPE_COMPOSITE
          then map_option (\<lambda>d. \<lparr>ti_oid = k, ti_row = Some r, ti_tupdesc = Some (Some d)\<rparr>) (rowtype_tupdesc cat k)
          else Some \<lparr>ti_oid = k, ti_row = Some r, ti_tupdesc = Some None\<rparr>)"

definition failed_type :: "catalog \<Rightarrow> oid \<Rightarrow> type_info" where
  "failed_type cat k = \<lparr>ti_oid = k, ti_row = search_type cat k, ti_tupdesc = None\<rparr>"

definition type_error :: "catalog \<Rightarrow> oid \<Rightarrow> exn" where
  "type_error cat k =
     (if search_type cat k = None then Runtime_error ''Error while looking up a type in the system catalog.'' else PGException)"

definition type_entry :: "catalog \<Rightarrow> oid \<Rightarrow> type_info" where
  "type_entry cat k = (case full_type cat k of Some t \<Rightarrow> t | None \<Rightarrow> failed_type cat k)"

lemma ti_oid_entry [simp]: "ti_oid (type_entry cat k) = k"
  by (auto simp: type_entry_def full_type_def failed_type_def split: option.splits if_splits)

lemma typeInformation_hit: "typeTable s k = Some t \<Longrightarrow> typeInformation cat k s = (Inr t, s)"
  by (simp add: typeInformation_def xbind_run)

lemma typeInformation_miss:
  "typeTable s k = None \<Longrightarrow> typeInformation cat k s =
     (case full_type cat k of Some t \<Rightarrow> Inr t | None \<Rightarrow> Inl (type_error cat k),
      s\<lparr>typeTable := (typeTable s)(k \<mapsto> type_entry cat k)\<rparr>)"
  by (auto simp: typeInformation_def fill_type_def xbind_run full_type_def type_entry_def failed_type_def type_error_def Let_def
      split: option.splits)

interpretation type_cache: cached_lookup "typeInformation cat" typeTable for cat
proof (unfold_locales, goal_cases)
  case (3 s k)
  then show ?case
    by (cases "typeTable s k") (auto simp: typeInformation_hit typeInformation_miss)
qed (simp_all add: typeInformation_hit typeInformation_miss)

definition type_cache_ok :: "catalog \<Rightarrow> sysinfo \<Rightarrow> bool" where
  "type_cache_ok cat si \<longleftrightarrow> (\<forall>k\<in>dom (typeTable si). typeTable si k = Some (type_entry cat k))"

lemma typeInformation_spec:
  assumes "type_cache_ok cat s"
  shows "\<exists>s'. typeInformation cat k s =
      (if full_type cat k = None \<and> k \<notin> dom (typeTable s) then Inl (type_error cat k) else Inr (type_entry cat k), s') \<and>
    type_cache_ok cat s' \<and> dom (typeTable s') = insert k (dom (typeTable s)) \<and> funcTable s' = funcTable s"
proof (cases "typeTable s k")
  case None
  then show ?thesis
    using assms by (auto simp: typeInformation_miss type_cache_ok_def type_entry_def split: option.splits)
next
  case (Some t)
  moreover from this have "t = type_entry cat k" using assms by (force simp: type_cache_ok_def)
  ultimately show ?thesis
    using assms by (auto simp: typeInformation_hit)
qed

primrec lookups :: "catalog \<Rightarrow> oid list \<Rightarrow> sysinfo \<Rightarrow> (exn + type_info) list" where
  "lookups cat [] si = []"
| "lookups cat (k # ks) si = (case typeInformation cat k si of (r, si) \<Rightarrow> r # lookups cat ks si)"

primrec looked_up :: "catalog \<Rightarrow> oid set \<Rightarrow> oid list \<Rightarrow> (exn + type_info) list" where
  "looked_up cat seen [] = []"
| "looked_up cat seen (k # ks) =
     (case full_type cat k of
        Some t \<Rightarrow> Inr t
      | None \<Rightarrow> if k \<in> seen then Inr (failed_type cat k) else Inl (type_error cat k)) # looked_up cat (insert k seen) ks"

lemma lookups_from:
  "type_cache_ok cat s \<Longrightarrow> lookups cat ks s = looked_up cat (dom (typeTable s)) ks"
proof (induction ks arbitrary: s)
  case (Cons k ks)
  obtain s' where s': "typeInformation cat k s =
      (if full_type cat k = None \<and> k \<notin> dom (typeTable s) then Inl (type_error cat k) else Inr (type_entry cat k), s')"
    "type_cache_ok cat s'" "dom (typeTable s') = insert k (dom (typeTable s))"
    using typeInformation_spec[OF Cons.prems, of k] by blast
  from Cons.IH[OF s'(2)] s'(1,3) show ?case
    by (auto simp: type_entry_def split: option.splits)
qed simp

text \<open>
  A sequence of lookups of types through a new cache returns for each type what the catalog says, if it knows the type (and, for
  a composite type, its fields); for any other type the first lookup throws, and every later one returns an
  entry that is not filled.
\<close>

theorem catalog_cache:
  "lookups cat ks (SystemInformation_get fn coll None) = looked_up cat {} ks"
  using lookups_from[of cat "SystemInformation_get fn coll None" ks]
  by (simp add: type_cache_ok_def SystemInformation_get_def)

section \<open>Functions\<close>

lemma functionInformation_hit: "funcTable s k = Some f \<Longrightarrow> functionInformation cat k s = (Inr f, s)"
  by (simp add: functionInformation_def xbind_run)

text \<open>Filling an entry only adds entries.\<close>

definition adds_funcs :: "(sysinfo, 'a) xm \<Rightarrow> bool" where
  "adds_funcs m \<longleftrightarrow> (\<forall>s. dom (funcTable s) \<subseteq> dom (funcTable (snd (m s))))"

lemma adds_funcs_simps [simp]:
  "adds_funcs (xret a)" "adds_funcs (xthrow e)" "adds_funcs (xassert b e)" "adds_funcs (xoption v e)"
  "adds_funcs (set_func f)" "adds_funcs (set_type t)" "adds_funcs (xget g)" "adds_funcs (Pair r)"
  by (auto simp: adds_funcs_def xassert_def xoption_def split: option.splits)

lemma adds_funcs_bind [intro]:
  assumes "adds_funcs m" "\<And>a. adds_funcs (f a)"
  shows "adds_funcs (xbind m f)"
  unfolding adds_funcs_def
proof
  fix s
  obtain r t where m: "m s = (r, t)" by (cases "m s")
  have mono: "dom (funcTable s) \<subseteq> dom (funcTable t)" using assms(1) m by (metis adds_funcs_def snd_conv)
  show "dom (funcTable s) \<subseteq> dom (funcTable (snd (xbind m f s)))"
  proof (cases r)
    case (Inl e)
    with m mono show ?thesis by (simp add: xbind_run)
  next
    case (Inr a)
    have "dom (funcTable t) \<subseteq> dom (funcTable (snd (f a t)))" using assms(2) by (simp add: adds_funcs_def)
    with m mono Inr show ?thesis by (simp add: xbind_run)
  qed
qed

lemma adds_funcs_type: "adds_funcs (typeInformation cat k)"
  unfolding typeInformation_def fill_type_def Let_def
  by (auto intro!: adds_funcs_bind split: option.splits)

lemma adds_funcs_pseudo: "adds_funcs (any_pseudo cat as n)"
  by (induction cat as n rule: any_pseudo.induct) (auto simp: adds_funcs_type getType_def intro!: adds_funcs_bind)

lemma adds_funcs_fill: "adds_funcs (fill_func cat k)"
  unfolding fill_func_def all_args_def Let_def
  by (auto simp: adds_funcs_pseudo intro!: adds_funcs_bind split: option.splits)

lemma functionInformation_miss:
  "funcTable s k = None \<Longrightarrow> functionInformation cat k s =
     fill_func cat k (s\<lparr>funcTable := (funcTable s)(k \<mapsto> \<lparr>fi_oid = k, fi_flinfo = None, fi_head = None, fi_rest = None\<rparr>)\<rparr>)"
  by (simp add: functionInformation_def xbind_run)

interpretation func_cache: cached_lookup "functionInformation cat" funcTable for cat
proof (unfold_locales, goal_cases)
  case (1 s k v)
  then show ?case by (rule functionInformation_hit)
next
  case (2 s k)
  then show ?case
    using adds_funcs_fill[of cat k, unfolded adds_funcs_def, rule_format,
      of "s\<lparr>funcTable := (funcTable s)(k \<mapsto> \<lparr>fi_oid = k, fi_flinfo = None, fi_head = None, fi_rest = None\<rparr>)\<rparr>"]
    by (simp add: functionInformation_miss)
next
  case (3 s k)
  then show ?case
    using adds_funcs_fill[of cat k, unfolded adds_funcs_def, rule_format,
      of "s\<lparr>funcTable := (funcTable s)(k \<mapsto> \<lparr>fi_oid = k, fi_flinfo = None, fi_head = None, fi_rest = None\<rparr>)\<rparr>"]
    by (cases "funcTable s k") (simp_all add: functionInformation_hit functionInformation_miss)
qed

end
