(* ===== verification/AnyValue.thy ===== *)
theory AnyValue
  imports Catalog
begin

text \<open>
  Values of the server in the C++ layer (\<open>src/ports/postgres/dbconnector\<close>): the proxy \<open>AnyType\<close> (\<open>AnyType_impl.hpp\<close>), the types it
  is converted to (\<open>TypeTraits.hpp\<close>), the entry point of the functions (\<open>UDF_impl.hpp\<close>) and calls of functions by their id
  (\<open>FunctionHandle_impl.hpp\<close>).

  A \<open>Datum\<close> is a 64-bit word.  Parameters are the catalog and the functions of the server on tuples.  All calls in one entry share one cache
  of the catalog, which is the state; a function that is \<open>SECURITY DEFINER\<close> would have a cache of its own.
\<close>

type_synonym datum = "64 word"

record heap_tuple =
  ht_typeid :: oid
  ht_typmod :: int
  ht_attrs :: "(datum \<times> bool) list"

text \<open>
  \<open>get_attr\<close> is \<open>GetAttributeByNum\<close>, which yields a datum and whether it is NULL; \<open>datum_tuple\<close> is \<open>DatumGetHeapTupleHeader\<close>; \<open>form_tuple\<close> is
  \<open>heap_form_tuple\<close>; \<open>call_function\<close> calls a function of the server with datums and their NULL flags.
\<close>

record server =
  cat :: catalog
  get_attr :: "heap_tuple \<Rightarrow> nat \<Rightarrow> (datum \<times> bool) option"
  datum_tuple :: "datum \<Rightarrow> heap_tuple option"
  form_tuple :: "tupdesc \<Rightarrow> datum list \<Rightarrow> bool list \<Rightarrow> datum option"
  call_function :: "oid \<Rightarrow> (datum \<times> bool) list \<Rightarrow> (datum \<times> bool) option"

record call_info =
  flinfo :: fmgr_info
  call_args :: "(datum \<times> bool) list"
  in_aggregate :: bool

section \<open>Types of C++\<close>

record 'a type_traits =
  tt_oid :: oid
  tt_typeName :: "string option"
  tt_isMutable :: bool
  tt_toDatum :: "'a \<Rightarrow> datum"
  tt_toCXX :: "datum \<Rightarrow> bool \<Rightarrow> 'a option"

definition traits_double :: "64 word type_traits" where
  "traits_double = \<lparr>tt_oid = 701, tt_typeName = None, tt_isMutable = False, tt_toDatum = (\<lambda>x. x), tt_toCXX = (\<lambda>d _. Some d)\<rparr>"

definition traits_float :: "32 word type_traits" where
  "traits_float = \<lparr>tt_oid = 700, tt_typeName = None, tt_isMutable = False, tt_toDatum = ucast, tt_toCXX = (\<lambda>d _. Some (ucast d))\<rparr>"

definition traits_int64 :: "64 word type_traits" where
  "traits_int64 = \<lparr>tt_oid = 20, tt_typeName = None, tt_isMutable = False, tt_toDatum = (\<lambda>x. x), tt_toCXX = (\<lambda>d _. Some d)\<rparr>"

definition traits_int32 :: "32 word type_traits" where
  "traits_int32 = \<lparr>tt_oid = 23, tt_typeName = None, tt_isMutable = False, tt_toDatum = ucast, tt_toCXX = (\<lambda>d _. Some (ucast d))\<rparr>"

definition traits_bool :: "bool type_traits" where
  "traits_bool = \<lparr>tt_oid = 16, tt_typeName = None, tt_isMutable = False, tt_toDatum = of_bool,
     tt_toCXX = (\<lambda>d _. Some ((ucast d :: byte) \<noteq> 0))\<rparr>"

text \<open>
  An array of doubles is a pointer; \<open>detoast\<close> and \<open>copy\<close> are \<open>DatumGetArrayTypeP\<close> and \<open>DatumGetArrayTypePCopy\<close>.
\<close>

definition traits_array :: "(datum \<Rightarrow> datum option) \<Rightarrow> datum type_traits" where
  "traits_array detoast = \<lparr>tt_oid = 1022, tt_typeName = None, tt_isMutable = False, tt_toDatum = (\<lambda>x. x),
     tt_toCXX = (\<lambda>d _. detoast d)\<rparr>"

definition traits_mutable_array :: "(datum \<Rightarrow> datum option) \<Rightarrow> (datum \<Rightarrow> datum option) \<Rightarrow> datum type_traits" where
  "traits_mutable_array detoast copy = \<lparr>tt_oid = 1022, tt_typeName = None, tt_isMutable = True, tt_toDatum = (\<lambda>x. x),
     tt_toCXX = (\<lambda>d clone. if clone then copy d else detoast d)\<rparr>"

section \<open>Values\<close>

datatype content = CNull | CScalar | CFunctionComposite | CNativeComposite | CReturnComposite

datatype any_type = AnyType (mContent: content) (mDatum: datum) (fcinfo: "call_info option") (mSysInfo: bool)
  (mTupleHeader: "heap_tuple option") (mTypeID: oid) (mTypeName: "string option") (mIsMutable: bool)
  (mChildren: "any_type list")

definition any_null :: any_type where
  "any_null = AnyType CNull 0 None False None InvalidOid None False []"

definition any_function :: "call_info \<Rightarrow> any_type" where
  "any_function call = AnyType CFunctionComposite 0 (Some call) True None InvalidOid None False []"

definition any_native :: "server \<Rightarrow> heap_tuple \<Rightarrow> datum \<Rightarrow> oid \<Rightarrow> (sysinfo, any_type) xm" where
  "any_native srv tup d typeID =
     xbind (typeInformation (cat srv) typeID) (\<lambda>t.
     xbind (getName t) (\<lambda>n. xret (AnyType CNativeComposite d None True (Some tup) typeID (Some n) False [])))"

definition any_scalar :: "server \<Rightarrow> datum \<Rightarrow> oid \<Rightarrow> bool \<Rightarrow> (sysinfo, any_type) xm" where
  "any_scalar srv d typeID isMutable =
     xbind (typeInformation (cat srv) typeID) (\<lambda>t.
     xbind (getName t) (\<lambda>n. xret (AnyType CScalar d None True None typeID (Some n) isMutable [])))"

definition any_value :: "'a type_traits \<Rightarrow> 'a \<Rightarrow> any_type" where
  "any_value T x = AnyType CScalar (tt_toDatum T x) None False None (tt_oid T) (tt_typeName T) False []"

definition kMsg :: exn where
  "kMsg = Logic_error ''Inconsistency detected while converting between PostgreSQL and C++ types.''"

definition consistencyCheck :: "any_type \<Rightarrow> ('s, unit) xm" where
  "consistencyCheck a =
     xbind (xassert (mContent a \<noteq> CNull \<or> (mDatum a = 0 \<and> fcinfo a = None \<and> \<not> mSysInfo a \<and> mTupleHeader a = None \<and>
              mTypeID a = InvalidOid \<and> mTypeName a = None \<and> mChildren a = [])) kMsg) (\<lambda>_.
     xbind (xassert (mContent a \<noteq> CFunctionComposite \<or> fcinfo a \<noteq> None) kMsg) (\<lambda>_.
     xbind (xassert (mContent a \<noteq> CNativeComposite \<or> mTupleHeader a \<noteq> None) kMsg) (\<lambda>_.
     xbind (xassert (mContent a \<noteq> CReturnComposite \<or> (mChildren a \<noteq> [] \<and> mTypeID a = InvalidOid)) kMsg) (\<lambda>_.
     xbind (xassert (mContent a = CReturnComposite \<or> mChildren a = []) kMsg) (\<lambda>_.
       xassert ((mContent a \<noteq> CFunctionComposite \<and> mContent a \<noteq> CNativeComposite) \<or> mSysInfo a) kMsg)))))"

definition isNull :: "any_type \<Rightarrow> bool" where
  "isNull a \<longleftrightarrow> mContent a = CNull"

definition isComposite :: "any_type \<Rightarrow> bool" where
  "isComposite a \<longleftrightarrow> mContent a \<in> {CFunctionComposite, CNativeComposite, CReturnComposite}"

definition numFields :: "any_type \<Rightarrow> 16 word" where
  "numFields a =
     (case mContent a of
        CNull \<Rightarrow> 0
      | CScalar \<Rightarrow> 1
      | CReturnComposite \<Rightarrow> of_nat (length (mChildren a))
      | CFunctionComposite \<Rightarrow> (case fcinfo a of None \<Rightarrow> 0 | Some c \<Rightarrow> of_nat (length (call_args c)))
      | CNativeComposite \<Rightarrow> (case mTupleHeader a of None \<Rightarrow> 0 | Some t \<Rightarrow> of_nat (length (ht_attrs t))))"

text \<open>The name of a type, for an error message.\<close>

definition type_name :: "server \<Rightarrow> oid \<Rightarrow> (sysinfo, string) xm" where
  "type_name srv typeID = xbind (typeInformation (cat srv) typeID) getName"

text \<open>
  \<open>getAs\<close>: the comparison of the names only builds a message, which it does not throw.
\<close>

definition getAs :: "server \<Rightarrow> 'a type_traits \<Rightarrow> any_type \<Rightarrow> (sysinfo, 'a) xm" where
  "getAs srv T a =
     xbind (consistencyCheck a) (\<lambda>_.
     xbind (xassert (\<not> isNull a) (Invalid_argument ''Invalid type conversion. Null where not expected.'')) (\<lambda>_.
     xbind (xassert (\<not> isComposite a) (Invalid_argument ''Invalid type conversion. Composite type where not expected.'')) (\<lambda>_.
     xbind (if tt_oid T \<noteq> InvalidOid \<and> mTypeID a \<noteq> tt_oid T then
              xbind (if mSysInfo a then xbind (type_name srv (tt_oid T)) (\<lambda>_. type_name srv (mTypeID a)) else xret [])
                (\<lambda>_. xthrow (Invalid_argument ''Invalid type conversion. Expected type ID''))
            else xret ()) (\<lambda>_.
     xbind (xassert (tt_typeName T = None \<or> mTypeName a \<noteq> None) Undefined_behaviour) (\<lambda>_.
       xoption (tt_toCXX T (mDatum a) (tt_isMutable T \<and> \<not> mIsMutable a)) PGException)))))"

definition field_value :: "server \<Rightarrow> datum \<Rightarrow> oid \<Rightarrow> bool \<Rightarrow> (sysinfo, any_type) xm" where
  "field_value srv d typeID isMutable =
     xbind (xassert (typeID \<noteq> InvalidOid) (Invalid_argument ''Backend returned invalid type ID.'')) (\<lambda>_.
     xbind (typeInformation (cat srv) typeID) (\<lambda>t.
     xbind (isCompositeType t) (\<lambda>composite.
       if composite then xbind (xoption (datum_tuple srv d) PGException) (\<lambda>tup. any_native srv tup d typeID)
       else any_scalar srv d typeID isMutable)))"

definition function_field :: "server \<Rightarrow> call_info \<Rightarrow> nat \<Rightarrow> (sysinfo, any_type) xm" where
  "function_field srv call inID =
     xbind (xassert (inID < length (call_args call)) (Out_of_range ''Access behind end of argument list.'')) (\<lambda>_.
       if snd (call_args call ! inID) then xret any_null
       else xbind (functionInformation (cat srv) (fn_oid (flinfo call))) (\<lambda>f.
            xbind (getArgumentType (cat srv) f inID (Some (flinfo call))) (\<lambda>typeID.
              field_value srv (fst (call_args call ! inID)) typeID (inID = 0 \<and> in_aggregate call))))"

definition native_field :: "server \<Rightarrow> heap_tuple \<Rightarrow> nat \<Rightarrow> (sysinfo, any_type) xm" where
  "native_field srv tup inID =
     xbind (typeInformation (cat srv) (ht_typeid tup)) (\<lambda>t.
     xbind (getTupleDesc (cat srv) (ht_typmod tup) t) (\<lambda>d.
     xbind (xoption d Undefined_behaviour) (\<lambda>attrs.
     xbind (xassert (inID < length attrs) (Out_of_range ''Access behind end of composite object.'')) (\<lambda>_.
     xbind (xoption (get_attr srv tup inID) PGException) (\<lambda>(d, isnull).
       if isnull then xret any_null else field_value srv d (attrs ! inID) False)))))"

text \<open>\<open>operator[]\<close>.\<close>

definition any_field :: "server \<Rightarrow> any_type \<Rightarrow> nat \<Rightarrow> (sysinfo, any_type) xm" where
  "any_field srv a inID =
     xbind (consistencyCheck a) (\<lambda>_.
     xbind (xassert (\<not> isNull a) (Invalid_argument ''Invalid type conversion. Null where not expected.'')) (\<lambda>_.
     xbind (xassert (isComposite a) (Invalid_argument ''Invalid type conversion. Composite type where not expected.'')) (\<lambda>_.
       case (mContent a, fcinfo a, mTupleHeader a) of
         (CFunctionComposite, Some call, _) \<Rightarrow> function_field srv call inID
       | (CNativeComposite, _, Some tup) \<Rightarrow> native_field srv tup inID
       | _ \<Rightarrow> (if inID < length (mChildren a) then xret (mChildren a ! inID) else xthrow Undefined_behaviour))))"

text \<open>\<open>operator<<\<close>.\<close>

definition any_append :: "any_type \<Rightarrow> any_type \<Rightarrow> ('s, any_type) xm" where
  "any_append a inValue =
     xbind (consistencyCheck a) (\<lambda>_.
     xbind (xassert (mContent a \<in> {CNull, CReturnComposite})
              (Logic_error ''Internal inconsistency while creating composite return value.'')) (\<lambda>_.
       case a of AnyType c d f s t i n m cs \<Rightarrow> xret (AnyType CReturnComposite d f s t i n m (cs @ [inValue]))))"

section \<open>Conversion to the server\<close>

definition target_of :: "server \<Rightarrow> call_info \<Rightarrow> oid \<Rightarrow> (sysinfo, oid \<times> tupdesc option) xm" where
  "target_of srv call inTargetTypeID =
     xbind (functionInformation (cat srv) (fn_oid (flinfo call))) (\<lambda>f.
       if inTargetTypeID = InvalidOid then
         xbind (getReturnType (cat srv) f (flinfo call)) (\<lambda>ty.
         xbind (getReturnTupleDesc (cat srv) f (flinfo call)) (\<lambda>d. xret (ty, d)))
       else
         xbind (typeInformation (cat srv) inTargetTypeID) (\<lambda>t.
         xbind (getTupleDesc (cat srv) (-1) t) (\<lambda>d. xret (inTargetTypeID, d))))"

definition simple_datum :: "server \<Rightarrow> any_type \<Rightarrow> oid \<Rightarrow> (sysinfo, datum) xm" where
  "simple_datum srv a ty =
     (if mTypeID a \<noteq> InvalidOid \<and> ty \<noteq> mTypeID a then
        xbind (type_name srv ty) (\<lambda>_. xbind (type_name srv (mTypeID a)) (\<lambda>_.
          xthrow (Invalid_argument ''Invalid type conversion. Backend expects type ID'')))
      else
        (case mTypeName a of
           None \<Rightarrow> xret (mDatum a)
         | Some n \<Rightarrow>
             xbind (type_name srv ty) (\<lambda>n'.
             xbind (xassert (n = n') (Invalid_argument ''Invalid type conversion. Backend expects type'')) (\<lambda>_.
               xret (mDatum a)))))"

fun getAsDatum :: "server \<Rightarrow> call_info \<Rightarrow> oid \<Rightarrow> any_type \<Rightarrow> (sysinfo, datum) xm"
  and child_datums :: "server \<Rightarrow> call_info \<Rightarrow> tupdesc \<Rightarrow> any_type list \<Rightarrow> (sysinfo, (datum \<times> bool) list) xm"
where
  "getAsDatum srv call inTargetTypeID (AnyType c d f s t i n m cs) =
     (let a = AnyType c d f s t i n m cs
      in xbind (consistencyCheck a) (\<lambda>_.
         if isNull a then xret 0
         else xbind (target_of srv call inTargetTypeID) (\<lambda>(ty, desc).
              case desc of
                Some attrs \<Rightarrow>
                  xbind (xassert (isComposite a)
                    (Runtime_error ''Simple type supplied but backend expects composite type.'')) (\<lambda>_.
                  xbind (xassert (length cs \<le> length attrs)
                    (Runtime_error ''Internal composite type has more elements than backend composite type.'')) (\<lambda>_.
                  xbind (child_datums srv call attrs cs) (\<lambda>vs.
                    let rest = length attrs - length cs
                    in xoption (form_tuple srv attrs (map fst vs @ replicate rest 0) (map snd vs @ replicate rest True))
                         PGException)))
              | None \<Rightarrow>
                  xbind (xassert (\<not> isComposite a)
                    (Runtime_error ''Composite type supplied but backend expects simple type.'')) (\<lambda>_.
                    simple_datum srv a ty))))"
| "child_datums srv call attrs [] = xret []"
| "child_datums srv call [] (c # cs) = xthrow Undefined_behaviour"
| "child_datums srv call (ty # attrs) (c # cs) =
     xbind (getAsDatum srv call ty c) (\<lambda>d.
     xbind (child_datums srv call attrs cs) (\<lambda>vs. xret ((d, isNull c) # vs)))"

section \<open>Entry points\<close>

datatype sqlerrcode = ERRCODE_OUT_OF_MEMORY | ERRCODE_INVALID_PARAMETER_VALUE | ERRCODE_DATA_EXCEPTION | ERRCODE_INTERNAL_ERROR

datatype udf_result = Return_null | Return_datum datum | Ereport sqlerrcode string | Crash

text \<open>\<open>handle\<close> is the sequence of \<open>catch\<close> clauses; the message buffer has 2048 characters.\<close>

fun handle :: "exn \<Rightarrow> udf_result" where
  "handle Bad_alloc = Ereport ERRCODE_OUT_OF_MEMORY ''Memory allocation failed.''"
| "handle (Invalid_argument m) = Ereport ERRCODE_INVALID_PARAMETER_VALUE (take 2047 m)"
| "handle (Domain_error m) = Ereport ERRCODE_INVALID_PARAMETER_VALUE (take 2047 m)"
| "handle (Range_error m) = Ereport ERRCODE_DATA_EXCEPTION (take 2047 m)"
| "handle (Overflow_error m) = Ereport ERRCODE_DATA_EXCEPTION (take 2047 m)"
| "handle (Underflow_error m) = Ereport ERRCODE_DATA_EXCEPTION (take 2047 m)"
| "handle (NoSolutionFound m) = Ereport ERRCODE_DATA_EXCEPTION (take 2047 m)"
| "handle (Out_of_range m) = Ereport ERRCODE_INTERNAL_ERROR (take 2047 m)"
| "handle (Logic_error m) = Ereport ERRCODE_INTERNAL_ERROR (take 2047 m)"
| "handle (Runtime_error m) = Ereport ERRCODE_INTERNAL_ERROR (take 2047 m)"
| "handle PGException = Ereport ERRCODE_INTERNAL_ERROR ''The backend raised an exception.''"
| "handle Unknown_exception = Ereport ERRCODE_INTERNAL_ERROR ''Internal error: Unknown exception was raised.''"
| "handle Undefined_behaviour = Crash"

text \<open>\<open>run\<close> is the body of the function; \<open>sysInfo\<close> is the cache an earlier call of the query has left.\<close>

definition UDF_call :: "server \<Rightarrow> (any_type \<Rightarrow> (sysinfo, any_type) xm) \<Rightarrow> call_info \<Rightarrow> oid \<Rightarrow> sysinfo option \<Rightarrow>
    udf_result \<times> sysinfo" where
  "UDF_call srv run call collation sysInfo =
     (case xbind (functionInformation (cat srv) (fn_oid (flinfo call))) (\<lambda>_.
           xbind (run (any_function call)) (\<lambda>result.
             if isNull result then xret Return_null
             else xbind (getAsDatum srv call InvalidOid result) (\<lambda>d. xret (Return_datum d))))
         (SystemInformation_get (fn_oid (flinfo call)) collation sysInfo) of
        (Inr r, si) \<Rightarrow> (r, si)
      | (Inl e, si) \<Rightarrow> (handle e, si))"

section \<open>Calls by function id\<close>

fun arg_datums :: "server \<Rightarrow> call_info \<Rightarrow> func_info \<Rightarrow> any_type \<Rightarrow> nat list \<Rightarrow> (sysinfo, (datum \<times> bool) list) xm" where
  "arg_datums srv call f a [] = xret []"
| "arg_datums srv call f a (i # is) =
     xbind (any_field srv a i) (\<lambda>v.
     xbind (getArgumentType (cat srv) f i (Some (flinfo call))) (\<lambda>ty.
     xbind (getAsDatum srv call ty v) (\<lambda>d.
     xbind (arg_datums srv call f a is) (\<lambda>ds. xret ((d, isNull v) # ds)))))"

definition invoke :: "server \<Rightarrow> func_info \<Rightarrow> any_type \<Rightarrow> (sysinfo, any_type) xm" where
  "invoke srv f a =
     xbind (xassert (isComposite a) (Logic_error ''FunctionHandle::invoke() called with simple type.'')) (\<lambda>_.
     xbind (getFuncMgrInfo (cat srv) f) (\<lambda>m.
     xbind (xoption (fi_head f) Undefined_behaviour) (\<lambda>h.
     xbind (xoption (fi_rest f) Undefined_behaviour) (\<lambda>r.
     xbind (xassert (unat (numFields a) \<le> fh_nargs h) (Invalid_argument ''More arguments given than expected'')) (\<lambda>_.
     xbind (arg_datums srv \<lparr>flinfo = m, call_args = [], in_aggregate = False\<rparr> f a [0..<unat (numFields a)]) (\<lambda>ds.
       if fh_isstrict h \<and> (\<exists>d\<in>set ds. snd d) then xret any_null
       else xbind (xoption (call_function srv (fi_oid f) ds) (Runtime_error ''Exception while invoking'')) (\<lambda>(result, isnull).
            if isnull then xret any_null else any_scalar srv result (fr_rettype r) True)))))))"

text \<open>
  \<open>getArgumentType(i)\<close> uses the \<open>FmgrInfo\<close> of the function that \<open>getFuncMgrInfo\<close> has stored before.
  \<open>operator()\<close> with a list of arguments; without any it passes a Null value.\<close>

fun append_all :: "any_type \<Rightarrow> any_type list \<Rightarrow> ('s, any_type) xm" where
  "append_all a [] = xret a"
| "append_all a (v # vs) = xbind (any_append a v) (\<lambda>a. append_all a vs)"

definition call_handle :: "server \<Rightarrow> func_info \<Rightarrow> any_type list \<Rightarrow> (sysinfo, any_type) xm" where
  "call_handle srv f vs = xbind (append_all any_null vs) (invoke srv f)"

end
