(* ===== verification/AnyValueFacts.thy ===== *)
theory AnyValueFacts
  imports AnyValue CatalogFacts
begin

text \<open>
  Values passed between the server and the C++ functions: results that are records, the fields of records, and conversions.
\<close>

section \<open>Known types\<close>

definition simple_type :: "catalog \<Rightarrow> oid \<Rightarrow> bool" where
  "simple_type c k \<longleftrightarrow> k \<noteq> InvalidOid \<and> k \<noteq> RECORDOID \<and>
     (\<exists>r. search_type c k = Some r \<and> typ_type r \<noteq> TYPTYPE_COMPOSITE)"

definition record_type :: "catalog \<Rightarrow> oid \<Rightarrow> tupdesc \<Rightarrow> bool" where
  "record_type c k attrs \<longleftrightarrow> k \<noteq> InvalidOid \<and> k \<noteq> RECORDOID \<and> rowtype_tupdesc c k = Some attrs \<and>
     (\<exists>r. search_type c k = Some r \<and> typ_type r = TYPTYPE_COMPOSITE)"

lemma known_types:
  "simple_type c k \<Longrightarrow> full_type c k = Some (type_entry c k)"
  "record_type c k attrs \<Longrightarrow> full_type c k = Some (type_entry c k)"
  "full_type c k \<noteq> None \<Longrightarrow> full_type c k = Some (type_entry c k)"
  by (auto simp: simple_type_def record_type_def full_type_def type_entry_def)

lemma simple_entry:
  assumes "simple_type c k"
  shows "\<exists>r. ti_row (type_entry c k) = Some r \<and> typ_type r \<noteq> TYPTYPE_COMPOSITE \<and> ti_tupdesc (type_entry c k) = Some None"
  using assms by (auto simp: simple_type_def full_type_def type_entry_def)

lemma record_entry:
  assumes "record_type c k attrs"
  shows "\<exists>r. ti_row (type_entry c k) = Some r \<and> typ_type r = TYPTYPE_COMPOSITE \<and> ti_tupdesc (type_entry c k) = Some (Some attrs)"
  using assms by (auto simp: record_type_def full_type_def type_entry_def)

lemma full_row: "full_type c k \<noteq> None \<Longrightarrow> \<exists>r. ti_row (type_entry c k) = Some r"
  by (auto simp: full_type_def type_entry_def split: option.splits if_splits)

text \<open>A lookup of a known type in a cache, in the form in which it is used below.\<close>

lemma lookup_known:
  assumes "type_cache_ok c s" "full_type c k \<noteq> None"
  obtains s' where "typeInformation c k s = (Inr (type_entry c k), s')" "type_cache_ok c s'" "funcTable s' = funcTable s"
  using typeInformation_spec[OF assms(1), of k] assms(2) by auto

section \<open>The function that is called\<close>

definition plain_proc :: "catalog \<Rightarrow> oid \<Rightarrow> proc_row \<Rightarrow> bool" where
  "plain_proc c fn p \<longleftrightarrow> search_proc c fn = Some p \<and> proallargtypes p = None \<and> pronargs p = length (proargtypes p) \<and>
     (\<forall>k\<in>set (proargtypes p). full_type c k \<noteq> None)"

definition pseudo_type :: "catalog \<Rightarrow> oid \<Rightarrow> bool" where
  "pseudo_type c k \<longleftrightarrow> (\<exists>r. search_type c k = Some r \<and> typ_type r = TYPTYPE_PSEUDO)"

definition proc_entry :: "catalog \<Rightarrow> oid \<Rightarrow> proc_row \<Rightarrow> func_info" where
  "proc_entry c fn p = \<lparr>fi_oid = fn, fi_flinfo = None,
     fi_head = Some \<lparr>fh_nargs = length (proargtypes p), fh_polymorphic = (\<exists>k\<in>set (proargtypes p). pseudo_type c k),
                     fh_isstrict = proisstrict p, fh_secdef = prosecdef p\<rparr>,
     fi_rest = Some \<lparr>fr_argtypes = proargtypes p, fr_rettype = prorettype p, fr_tupdesc = None\<rparr>\<rparr>"

lemma entry_pseudo:
  "full_type c k \<noteq> None \<Longrightarrow> ti_row (type_entry c k) = Some r \<Longrightarrow> typ_type r = TYPTYPE_PSEUDO \<longleftrightarrow> pseudo_type c k"
  by (auto simp: full_type_def type_entry_def pseudo_type_def split: option.splits if_splits)

lemma any_pseudo_known:
  assumes "type_cache_ok c s" "\<forall>k\<in>set ks. full_type c k \<noteq> None"
  shows "\<exists>s'. any_pseudo c ks (length ks) s = (Inr (\<exists>k\<in>set ks. pseudo_type c k), s') \<and> type_cache_ok c s' \<and>
    funcTable s' = funcTable s"
  using assms
proof (induction ks arbitrary: s)
  case (Cons k ks)
  then have known: "full_type c k \<noteq> None" by simp
  then obtain r where r: "ti_row (type_entry c k) = Some r" using full_row by blast
  obtain s1 where s1: "typeInformation c k s = (Inr (type_entry c k), s1)" "type_cache_ok c s1" "funcTable s1 = funcTable s"
    using lookup_known[OF Cons.prems(1) known] .
  from Cons.IH[OF s1(2)] Cons.prems(2) s1 r entry_pseudo[OF known r] show ?case
    by (auto simp: xbind_step getType_def)
qed simp

lemma function_known:
  assumes "type_cache_ok c s" "plain_proc c fn p" "funcTable s fn = None"
  shows "\<exists>s'. functionInformation c fn s = (Inr (proc_entry c fn p), s') \<and> type_cache_ok c s' \<and>
    funcTable s' fn = Some (proc_entry c fn p)"
proof -
  let ?s0 = "s\<lparr>funcTable := (funcTable s)(fn \<mapsto> \<lparr>fi_oid = fn, fi_flinfo = None, fi_head = None, fi_rest = None\<rparr>)\<rparr>"
  let ?h = "\<lparr>fh_nargs = length (proargtypes p), fh_polymorphic = False, fh_isstrict = proisstrict p, fh_secdef = prosecdef p\<rparr>"
  let ?s1 = "?s0\<lparr>funcTable := (funcTable ?s0)(fn \<mapsto> \<lparr>fi_oid = fn, fi_flinfo = None, fi_head = Some ?h, fi_rest = None\<rparr>)\<rparr>"
  have ok: "type_cache_ok c ?s1" using assms(1) by (simp add: type_cache_ok_def)
  obtain s2 where s2: "any_pseudo c (proargtypes p) (length (proargtypes p)) ?s1 =
      (Inr (\<exists>k\<in>set (proargtypes p). pseudo_type c k), s2)" "type_cache_ok c s2"
    using any_pseudo_known[OF ok] assms(2) by (auto simp: plain_proc_def)
  have "type_cache_ok c (s2\<lparr>funcTable := g\<rparr>)" for g using s2(2) by (simp add: type_cache_ok_def)
  then show ?thesis
    using assms(2,3) s2(1)
    by (auto simp: functionInformation_miss fill_func_def xbind_step plain_proc_def all_args_def Let_def proc_entry_def)
qed

section \<open>Results\<close>

text \<open>A value to return: NULL, or a scalar of the type of its field.\<close>

definition field_ok :: "oid \<Rightarrow> any_type \<Rightarrow> bool" where
  "field_ok ty v \<longleftrightarrow> v = any_null \<or> (\<exists>d. v = AnyType CScalar d None False None ty None False [])"

lemma any_value_not_null [simp]: "\<not> isNull (any_value T x)"
  by (simp add: any_value_def isNull_def)

lemma any_value_field: "tt_typeName T = None \<Longrightarrow> field_ok (tt_oid T) (any_value T x)"
  by (simp add: field_ok_def any_value_def)

definition run_ok :: "server \<Rightarrow> call_info \<Rightarrow> proc_row \<Rightarrow> sysinfo \<Rightarrow> bool" where
  "run_ok srv call p s \<longleftrightarrow> type_cache_ok (cat srv) s \<and>
     funcTable s (fn_oid (flinfo call)) = Some (proc_entry (cat srv) (fn_oid (flinfo call)) p)"

lemma run_ok_type:
  assumes "run_ok srv call p s" "full_type (cat srv) k \<noteq> None"
  shows "\<exists>s'. typeInformation (cat srv) k s = (Inr (type_entry (cat srv) k), s') \<and> run_ok srv call p s'"
proof -
  obtain s' where "typeInformation (cat srv) k s = (Inr (type_entry (cat srv) k), s')" "type_cache_ok (cat srv) s'"
    "funcTable s' = funcTable s"
    using lookup_known[of "cat srv" s k] assms unfolding run_ok_def by metis
  with assms(1) show ?thesis by (simp add: run_ok_def)
qed

lemma field_datum:
  assumes "run_ok srv call p s" "simple_type (cat srv) ty" "field_ok ty v"
  shows "\<exists>s'. getAsDatum srv call ty v s = (Inr (mDatum v), s') \<and> run_ok srv call p s'"
proof (cases "v = any_null")
  case True
  with assms(1) show ?thesis
    by (simp add: any_null_def consistencyCheck_def isNull_def Let_def)
next
  case False
  then obtain d where v: "v = AnyType CScalar d None False None ty None False []" using assms(3) by (auto simp: field_ok_def)
  have ty: "ty \<noteq> InvalidOid" "ty \<noteq> RECORDOID" using assms(2) by (simp_all add: simple_type_def)
  obtain s' where s': "typeInformation (cat srv) ty s = (Inr (type_entry (cat srv) ty), s')" "run_ok srv call p s'"
    using run_ok_type[OF assms(1), of ty] known_types(1)[OF assms(2)] by auto
  have "functionInformation (cat srv) (fn_oid (flinfo call)) s = (Inr (proc_entry (cat srv) (fn_oid (flinfo call)) p), s)"
    using assms(1) by (intro functionInformation_hit) (simp add: run_ok_def)
  with s' ty simple_entry[OF assms(2)] show ?thesis
    by (auto simp: v consistencyCheck_def isNull_def isComposite_def Let_def target_of_def getTupleDesc_def simple_datum_def
        xbind_step)
qed

lemma field_datums:
  assumes "run_ok srv call p s" "length vs \<le> length attrs" "\<forall>ty\<in>set attrs. simple_type (cat srv) ty"
    "list_all2 field_ok (take (length vs) attrs) vs"
  shows "\<exists>s'. child_datums srv call attrs vs s = (Inr (map (\<lambda>v. (mDatum v, isNull v)) vs), s') \<and> run_ok srv call p s'"
  using assms
proof (induction vs arbitrary: attrs s)
  case (Cons v vs)
  obtain ty tys where attrs: "attrs = ty # tys" using Cons.prems by (cases attrs) auto
  obtain s1 where s1: "getAsDatum srv call ty v s = (Inr (mDatum v), s1)" "run_ok srv call p s1"
    using field_datum[OF Cons.prems(1), of ty v] Cons.prems attrs by auto
  obtain s2 where "child_datums srv call tys vs s1 = (Inr (map (\<lambda>v. (mDatum v, isNull v)) vs), s2)" "run_ok srv call p s2"
    using Cons.IH[OF s1(2), of tys] Cons.prems attrs by auto
  with s1 attrs show ?case by (simp add: xbind_step)
qed simp

lemma append_all_null:
  "vs \<noteq> [] \<Longrightarrow> append_all any_null vs = xret (AnyType CReturnComposite 0 None False None InvalidOid None False vs)"
proof -
  have more: "append_all (AnyType CReturnComposite 0 None False None InvalidOid None False us) vs =
      xret (AnyType CReturnComposite 0 None False None InvalidOid None False (us @ vs))" if "us \<noteq> []" for us vs
    using that by (induction vs arbitrary: us) (auto simp: any_append_def consistencyCheck_def)
  assume "vs \<noteq> []"
  then obtain w ws where "vs = w # ws" by (cases vs) auto
  then show ?thesis
    using more[of "[w]" ws] by (simp add: any_append_def consistencyCheck_def any_null_def)
qed

lemma return_target:
  assumes "run_ok srv call p s" "record_type (cat srv) (prorettype p) attrs"
  shows "\<exists>s'. target_of srv call InvalidOid s = (Inr (prorettype p, Some attrs), s') \<and> run_ok srv call p s'"
proof -
  let ?fn = "fn_oid (flinfo call)" and ?c = "cat srv"
  have f: "functionInformation ?c ?fn s = (Inr (proc_entry ?c ?fn p), s)"
    using assms(1) by (intro functionInformation_hit) (simp add: run_ok_def)
  have rec: "prorettype p \<noteq> RECORDOID" "full_type ?c (prorettype p) \<noteq> None"
    using assms(2) known_types(2)[OF assms(2)] by (simp_all add: record_type_def)
  obtain s1 where s1: "typeInformation ?c (prorettype p) s = (Inr (type_entry ?c (prorettype p)), s1)" "run_ok srv call p s1"
    using run_ok_type[OF assms(1) rec(2)] by blast
  obtain s2 where s2: "typeInformation ?c (prorettype p) s1 = (Inr (type_entry ?c (prorettype p)), s2)" "run_ok srv call p s2"
    using run_ok_type[OF s1(2) rec(2)] by blast
  obtain r where r: "ti_row (type_entry ?c (prorettype p)) = Some r" "typ_type r = TYPTYPE_COMPOSITE"
    "ti_tupdesc (type_entry ?c (prorettype p)) = Some (Some attrs)"
    using record_entry[OF assms(2)] by blast
  have fields: "fi_oid (proc_entry ?c ?fn p) = ?fn"
    "fi_rest (proc_entry ?c ?fn p) = Some \<lparr>fr_argtypes = proargtypes p, fr_rettype = prorettype p, fr_tupdesc = None\<rparr>"
    by (simp_all add: proc_entry_def)
  have "getReturnType ?c (proc_entry ?c ?fn p) (flinfo call) s = (Inr (prorettype p), s1)"
    using s1(1) r rec by (simp add: getReturnType_def fields getType_def xbind_step)
  moreover have "getReturnTupleDesc ?c (proc_entry ?c ?fn p) (flinfo call) s1 = (Inr (Some attrs), s2)"
    using s2(1) r rec by (simp add: getReturnTupleDesc_def fields getType_def xbind_step)
  ultimately show ?thesis
    using f s2(2) by (simp add: target_of_def xbind_step)
qed

text \<open>
  C38: A function whose result type is a record, and whose body appends values of the types of the record's fields to a Null value, returns
  the record with these values, in their order, the remaining fields NULL; NULL if it appends nothing; and an error is
  reported if it appends too many values, or if the server cannot form the record.
\<close>

theorem record_returned:
  assumes "plain_proc (cat srv) (fn_oid (flinfo call)) p" "record_type (cat srv) (prorettype p) attrs"
    "\<forall>ty\<in>set attrs. simple_type (cat srv) ty" "list_all2 field_ok (take (length vs) attrs) (take (length attrs) vs)"
  shows "fst (UDF_call srv (\<lambda>_. append_all any_null vs) call coll None) =
     (if vs = [] then Return_null
      else if length attrs < length vs
      then Ereport ERRCODE_INTERNAL_ERROR ''Internal composite type has more elements than backend composite type.''
      else case form_tuple srv attrs (map mDatum vs @ replicate (length attrs - length vs) 0)
                (map isNull vs @ replicate (length attrs - length vs) True) of
             Some d \<Rightarrow> Return_datum d
           | None \<Rightarrow> Ereport ERRCODE_INTERNAL_ERROR ''The backend raised an exception.'')"
proof -
  let ?fn = "fn_oid (flinfo call)" and ?c = "cat srv"
  have "type_cache_ok ?c (SystemInformation_get ?fn coll None)" "funcTable (SystemInformation_get ?fn coll None) ?fn = None"
    by (simp_all add: SystemInformation_get_def type_cache_ok_def)
  from function_known[OF this(1) assms(1) this(2)] obtain s1 where
    s1: "functionInformation ?c ?fn (SystemInformation_get ?fn coll None) = (Inr (proc_entry ?c ?fn p), s1)" "run_ok srv call p s1"
    by (auto simp: run_ok_def)
  show ?thesis
  proof (cases "vs = []")
    case True
    with s1 show ?thesis by (simp add: UDF_call_def xbind_step any_null_def isNull_def)
  next
    case False
    let ?a = "AnyType CReturnComposite 0 None False None InvalidOid None False vs"
    obtain s2 where s2: "target_of srv call InvalidOid s1 = (Inr (prorettype p, Some attrs), s2)" "run_ok srv call p s2"
      using return_target[OF s1(2) assms(2)] by blast
    have check: "consistencyCheck ?a = (xret () :: (sysinfo, unit) xm)" "\<not> isNull ?a" "isComposite ?a"
      using False by (simp_all add: consistencyCheck_def isNull_def isComposite_def)
    show ?thesis
    proof (cases "length attrs < length vs")
      case True
      with False s1 s2 check show ?thesis
        by (simp add: UDF_call_def append_all_null xbind_step Let_def)
    next
      case ok: False
      then obtain s3 where "child_datums srv call attrs vs s2 = (Inr (map (\<lambda>v. (mDatum v, isNull v)) vs), s3)"
        using field_datums[OF s2(2), of vs attrs] assms(3,4) by auto
      with False ok s1 s2 check show ?thesis
        by (simp add: UDF_call_def append_all_null xbind_step Let_def comp_def split: option.split)
    qed
  qed
qed

section \<open>Fields of a record\<close>

text \<open>\<open>GetAttributeByNum\<close> numbers the attributes of a tuple from 1 on, raises an error for 0, and gives NULL behind the end.\<close>

definition attr_numbers_from_one :: "server \<Rightarrow> bool" where
  "attr_numbers_from_one srv \<longleftrightarrow> (\<forall>t n. get_attr srv t n =
     (if n = 0 then None else Some (if n \<le> length (ht_attrs t) then ht_attrs t ! (n - 1) else (0, True))))"

definition type_label :: "catalog \<Rightarrow> oid \<Rightarrow> string" where
  "type_label c k = (case search_type c k of None \<Rightarrow> [] | Some r \<Rightarrow> typname r)"

lemma field_value_simple:
  assumes "type_cache_ok (cat srv) s" "simple_type (cat srv) ty"
  shows "fst (field_value srv d ty m s) = Inr (AnyType CScalar d None True None ty (Some (type_label (cat srv) ty)) m [])"
proof -
  let ?t = "type_entry (cat srv) ty"
  have ty: "ty \<noteq> InvalidOid" "ty \<noteq> RECORDOID" "full_type (cat srv) ty \<noteq> None"
    using assms(2) known_types(1)[OF assms(2)] by (simp_all add: simple_type_def)
  obtain s1 where s1: "typeInformation (cat srv) ty s = (Inr ?t, s1)" "type_cache_ok (cat srv) s1" "funcTable s1 = funcTable s"
    using lookup_known[OF assms(1) ty(3)] .
  obtain s2 where s2: "typeInformation (cat srv) ty s1 = (Inr ?t, s2)" "type_cache_ok (cat srv) s2" "funcTable s2 = funcTable s1"
    using lookup_known[OF s1(2) ty(3)] .
  obtain r where r: "search_type (cat srv) ty = Some r" "typ_type r \<noteq> TYPTYPE_COMPOSITE"
    using assms(2) by (auto simp: simple_type_def)
  then have row: "ti_row ?t = Some r" by (simp add: type_entry_def full_type_def)
  have "isCompositeType ?t = (xret False :: (sysinfo, bool) xm)" "getName ?t = (xret (typname r) :: (sysinfo, string) xm)"
    using ty row r by (simp_all add: isCompositeType_def getType_def getName_def)
  with s1(1) s2(1) ty r show ?thesis
    by (simp add: field_value_def any_scalar_def xbind_step type_label_def)
qed

text \<open>
  Reading a field of a record by its number, which \<open>operator[]\<close> counts from 0 on, but \<open>GetAttributeByNum\<close> from 1 on: the first field
  cannot be read, and each later one is read as a value of its own type with the contents of the field in front of it.
\<close>

theorem native_fields_shifted:
  assumes "attr_numbers_from_one srv" "type_cache_ok (cat srv) s" "record_type (cat srv) (ht_typeid tup) attrs"
    "length (ht_attrs tup) = length attrs" "\<forall>ty\<in>set attrs. simple_type (cat srv) ty" "k < length attrs"
  shows "fst (any_field srv (AnyType CNativeComposite d None True (Some tup) ty (Some nm) False []) k s) =
     (case k of
        0 \<Rightarrow> Inl PGException
      | Suc j \<Rightarrow> Inr (if snd (ht_attrs tup ! j) then any_null
                   else AnyType CScalar (fst (ht_attrs tup ! j)) None True None (attrs ! Suc j)
                          (Some (type_label (cat srv) (attrs ! Suc j))) False []))"
proof -
  let ?a = "AnyType CNativeComposite d None True (Some tup) ty (Some nm) False []" and ?t = "type_entry (cat srv) (ht_typeid tup)"
  have check: "consistencyCheck ?a = (xret () :: (sysinfo, unit) xm)" "\<not> isNull ?a" "isComposite ?a"
    by (simp_all add: consistencyCheck_def isNull_def isComposite_def)
  have full: "full_type (cat srv) (ht_typeid tup) \<noteq> None" using known_types(2)[OF assms(3)] by simp
  obtain s1 where s1: "typeInformation (cat srv) (ht_typeid tup) s = (Inr ?t, s1)" "type_cache_ok (cat srv) s1" "funcTable s1 = funcTable s"
    using lookup_known[OF assms(2) full] .
  have desc: "getTupleDesc (cat srv) (ht_typmod tup) ?t = (xret (Some attrs) :: (sysinfo, tupdesc option) xm)"
    using record_entry[OF assms(3)] by (auto simp: getTupleDesc_def)
  have run: "any_field srv ?a k s = xbind (xoption (get_attr srv tup k) PGException)
      (\<lambda>(d, isnull). if isnull then xret any_null else field_value srv d (attrs ! k) False) s1"
    using s1(1) desc check assms(6) by (simp add: any_field_def native_field_def xbind_step)
  show ?thesis
  proof (cases k)
    case 0
    then show ?thesis using assms(1) unfolding run by (simp add: attr_numbers_from_one_def)
  next
    case (Suc j)
    then have attr: "get_attr srv tup k = Some (ht_attrs tup ! j)"
      using assms(1,4,6) by (simp add: attr_numbers_from_one_def)
    have simple: "simple_type (cat srv) (attrs ! Suc j)" using assms(5,6) Suc by simp
    show ?thesis
      using field_value_simple[OF s1(2) simple] unfolding run attr by (simp add: Suc split_beta)
  qed
qed

section \<open>Other conversions\<close>

lemma ucast_32_64: "ucast (ucast (y :: 32 word) :: 64 word) = y"
  by (rule bit_word_eqI) (auto simp: bit_simps)

lemma value_conversions:
  "getAs srv traits_double (any_value traits_double x) s = (Inr x, s)"
  "getAs srv traits_float (any_value traits_float y) s = (Inr y, s)"
  "getAs srv traits_int64 (any_value traits_int64 x) s = (Inr x, s)"
  "getAs srv traits_int32 (any_value traits_int32 y) s = (Inr y, s)"
  "getAs srv traits_bool (any_value traits_bool b) s = (Inr b, s)"
  by (simp_all add: getAs_def any_value_def consistencyCheck_def isNull_def isComposite_def traits_double_def traits_float_def
      traits_int64_def traits_int32_def traits_bool_def xbind_step ucast_32_64)

text \<open>A type whose name differs from the expected one is not reported.\<close>

lemma name_not_checked:
  assumes "tt_oid T = InvalidOid" "tt_typeName T = Some n" "m \<noteq> n" "tt_toCXX T d (tt_isMutable T) = Some x"
  shows "getAs srv T (AnyType CScalar d None True None ty (Some m) False []) s = (Inr x, s)"
  using assms by (simp add: getAs_def consistencyCheck_def isNull_def isComposite_def xbind_step)

text \<open>A function cannot be called without arguments.\<close>

lemma no_arguments_fails:
  "call_handle srv f [] s = (Inl (Logic_error ''FunctionHandle::invoke() called with simple type.''), s)"
  by (simp add: call_handle_def invoke_def any_null_def isComposite_def)

text \<open>A record that was an argument and is returned as it is loses its fields.\<close>

lemma native_result_lost:
  assumes "target_of srv call ty s = (Inr (ty', Some attrs), s')" "form_tuple srv attrs (replicate (length attrs) 0) (replicate (length attrs) True) = Some r"
  shows "getAsDatum srv call ty (AnyType CNativeComposite d None True (Some tup) k n False []) s = (Inr r, s')"
  using assms by (simp add: consistencyCheck_def isNull_def isComposite_def Let_def xbind_step)

section \<open>An example\<close>

definition example_row :: "string \<Rightarrow> typtype \<Rightarrow> type_row" where
  "example_row n k = \<lparr>typname = n, typ_len = 8, typbyval = True, typ_type = k\<rparr>"

definition example_catalog :: catalog where
  "example_catalog =
     \<lparr>search_type = [23 \<mapsto> example_row ''int4'' TYPTYPE_BASE, 701 \<mapsto> example_row ''float8'' TYPTYPE_BASE,
                     5000 \<mapsto> example_row ''result'' TYPTYPE_COMPOSITE],
      search_proc = [100 \<mapsto> \<lparr>proargtypes = [701], pronargs = 1, prorettype = 5000, proisstrict = True, prosecdef = False,
                             proallargtypes = None\<rparr>],
      rowtype_tupdesc = [5000 \<mapsto> [23, 701, 701]], record_tupdesc = Map.empty, may_execute = (\<lambda>_. True)\<rparr>"

definition example_server :: server where
  "example_server =
     \<lparr>cat = example_catalog,
      get_attr = (\<lambda>t n. if n = 0 then None else Some (if n \<le> length (ht_attrs t) then ht_attrs t ! (n - 1) else (0, True))),
      datum_tuple = (\<lambda>_. None), form_tuple = (\<lambda>_ vs ns. Some (vs ! 0 + 10 * of_nat (length (filter id ns)))),
      call_function = (\<lambda>_ _. None)\<rparr>"

lemma example_types:
  "simple_type example_catalog 23" "simple_type example_catalog 701" "record_type example_catalog 5000 [23, 701, 701]"
  by (simp_all add: simple_type_def record_type_def example_catalog_def example_row_def InvalidOid_def RECORDOID_def)

theorem record_returned_witness:
  "fst (UDF_call example_server (\<lambda>_. append_all any_null [any_value traits_int32 7, any_value traits_double 5])
     \<lparr>flinfo = \<lparr>fn_oid = 100, fn_expr = None, call_result = None\<rparr>, call_args = [(3, False)], in_aggregate = False\<rparr> 0 None) =
     Return_datum 17"
proof -
  let ?p = "\<lparr>proargtypes = [701], pronargs = 1, prorettype = 5000, proisstrict = True, prosecdef = False, proallargtypes = None\<rparr>"
  let ?call = "\<lparr>flinfo = \<lparr>fn_oid = 100, fn_expr = None, call_result = None\<rparr>, call_args = [(3, False)], in_aggregate = False\<rparr>"
  have cat: "cat example_server = example_catalog" by (simp add: example_server_def)
  have proc: "plain_proc (cat example_server) (fn_oid (flinfo ?call)) ?p"
    using known_types(1)[OF example_types(2)] by (simp add: cat plain_proc_def) (simp add: example_catalog_def)
  have fields: "list_all2 field_ok [23, 701] [any_value traits_int32 7, any_value traits_double 5]"
    using any_value_field[of traits_int32 7] any_value_field[of traits_double 5] by (simp add: traits_int32_def traits_double_def)
  have vals: "mDatum (any_value traits_int32 7) = 7"
    by (simp add: any_value_def traits_int32_def)
  show ?thesis
    using record_returned[of example_server ?call ?p "[23, 701, 701]" "[any_value traits_int32 7, any_value traits_double 5]" 0]
      proc example_types fields vals
    by (simp add: cat) (simp add: example_server_def)
qed

theorem native_fields_shifted_witness:
  "fst (any_field example_server (AnyType CNativeComposite 0 None True
       (Some \<lparr>ht_typeid = 5000, ht_typmod = -1, ht_attrs = [(7, False), (5, False), (6, False)]\<rparr>) 5000 (Some ''result'') False []) 1
     (SystemInformation_get 100 0 None)) = Inr (AnyType CScalar 7 None True None 701 (Some ''float8'') False [])"
proof -
  have cat: "cat example_server = example_catalog" by (simp add: example_server_def)
  have "attr_numbers_from_one example_server" by (simp add: attr_numbers_from_one_def example_server_def)
  moreover have "type_cache_ok example_catalog (SystemInformation_get 100 0 None)"
    by (simp add: type_cache_ok_def SystemInformation_get_def)
  moreover have "type_label example_catalog 701 = ''float8''"
    by (simp add: type_label_def example_catalog_def example_row_def)
  ultimately show ?thesis
    using native_fields_shifted[of example_server "SystemInformation_get 100 0 None"
        "\<lparr>ht_typeid = 5000, ht_typmod = -1, ht_attrs = [(7, False), (5, False), (6, False)]\<rparr>" "[23, 701, 701]" 1 0 5000 "''result''"]
      example_types by (simp add: cat)
qed

end
