(* ===== verification/Spec2Isabelle.thy ===== *)
theory Spec2Isabelle
  imports SparseDataFacts SparseEigenFacts SparseOpsFacts SvecAgg SvecFacts SvecAggFacts CountMinFacts FmFacts MfvFacts ArrayOpsFacts DtPruneFacts DtTextFacts DtSampleFacts ViterbiFacts SfvFacts KMeansFacts PldaFacts DtScvFacts OnlineSvFacts RankTestsFacts AnovaFacts ProbFacts StatTestsFacts LinearFacts LinearSums LogisticFacts LogisticCg OutBufferFacts AllocFacts CatalogFacts AnyValueFacts
begin

text \<open>
  Verification of the functions MADlib adds to PostgreSQL and Greenplum: the C functions of \<open>src/methods\<close> and the
  C++ modules of \<open>src/src/modules\<close>.  File names below are relative to these two directories.

  \<^bold>\<open>The program.\<close>  Each file exports functions the server calls.  They take and return values of the server (numbers,
  arrays, byte strings, records), keep no state between the calls except the transition value of an aggregate, and report
  an error with \<open>ereport\<close> or a C++ exception.  An aggregate is a transition function over rows, a merge function over the
  states of two segments, and a final function.

  \<^bold>\<open>How the model reads.\<close>  A C \<open>struct\<close> is a record and a tagged union a datatype; a function has the name it has in the
  code, and a loop of a long function is a definition of its own, in front of it.  A call that does not return normally is a
  value of \<open>err\<close> (\<open>Prelude\<close>): \<open>Report\<close> with the message for an error, \<open>Undefined\<close> for an access outside of the memory
  the code owns and for undefined behaviour of C.  A C \<open>int\<close> is an \<open>int\<close> of HOL, with \<open>to_int32\<close> where the code converts to it; words are used
  where the code works on bits.  A \<open>double\<close> is its 64 bits (\<open>Float64\<close>), with the arithmetic of IEEE 754 and the NaNs of
  x86-64; a \<open>float\<close> likewise (\<open>Float32\<close>).

  \<^bold>\<open>Theories.\<close>
  \<^item> \<open>Prelude\<close>, \<open>Runs\<close>, \<open>Float32\<close>, \<open>Float64\<close>: the shared vocabulary.  \<open>Float64Facts\<close>, \<open>Float64Exact\<close>, \<open>Float64Order\<close>
    and \<open>Float64Int\<close> show that rounding is monotone, what is computed exactly, and the order of the values.
  \<^item> \<open>CompWord\<close>, \<open>SparseData\<close>, \<open>SparseOps\<close>, \<open>Svec\<close>, \<open>SvecOps\<close>, \<open>SvecAgg\<close>: \<open>svec/src/pg_gp\<close> (\<open>SparseData.h\<close>,
    \<open>SparseData.c\<close>, \<open>sparse_vector.c\<close>, \<open>operators.c\<close>), sparse vectors in run-length encoding.  The counts of the runs are a
    byte string of entries of 1, 3, 5 or 9 bytes; the operations walk it with a cursor.  The facts relate a structure to the array it stands for
    (\<open>sd_rep\<close>, \<open>svec_rep\<close>): the codec and the conversions round trip, arithmetic and comparisons are pointwise, selection finds the k-th
    element, and \<open>svec_pivot\<close> appends.  \<open>SparseEigen\<close> models the conversion from and to the sparse vectors of Eigen
    (\<open>src/ports/postgres/dbconnector/SparseVector_impl.hpp\<close>).
  \<^item> \<open>Sfv\<close>: \<open>svec/src/pg_gp/gp_sfv.c\<close>, histograms of the words of a document over a sorted dictionary.
  \<^item> \<open>SketchSupport\<close>, \<open>CountMin\<close>, \<open>Sortasort\<close>, \<open>Fm\<close>, \<open>Mfv\<close>: \<open>sketch/src/pg_gp\<close>.  \<open>Fm\<close> counts distinct values, exactly in a
    sortasort while there are few; \<open>Mfv\<close> keeps the most frequent values with the counts of a CountMin sketch.  The facts
    state each aggregate as a function of the set or the multiset of its values; those about a sortasort are for values of a fixed length,
    since the code compares values of variable length only up to the length of one of them.
  \<^item> \<open>ArrayOps\<close>: \<open>array_ops/src/pg_gp/array_ops.c\<close>, element-wise operations and reductions of arrays of five types.
  \<^item> \<open>DtPrune\<close>, \<open>DtSample\<close>, \<open>DtText\<close>, \<open>DtScv\<close>: the parts of \<open>cart/src/pg_gp/dt.c\<close>, decision trees.  The formulas of the splitting
    criteria in \<open>DtScvFacts\<close> are over an arithmetic: the aggregate computes them with doubles, and over the real numbers they are the weighted entropy
    and gini index.
  \<^item> \<open>Viterbi\<close>: \<open>textfex_viterbi/src/pg_gp/viterbi_top1.c\<close>; \<open>KMeans\<close>: \<open>kmeans/src/pg_gp/kmeans.c\<close>; \<open>Plda\<close>: \<open>plda/src/pg_gp/plda.c\<close>;
    \<open>OnlineSv\<close>: \<open>kernel_machines/src/pg_gp/online_sv.c\<close>.
    The optimality of the label sequence needs positive state scores and edge scores that are not negative.
  \<^item> \<open>Prob\<close>: \<open>prob/*.cpp\<close>; \<open>RankTests\<close>, \<open>Anova\<close>, \<open>StatTests\<close>: \<open>stats/*.cpp\<close>; \<open>Linear\<close>, \<open>Logistic\<close>: \<open>regress/*.cpp\<close> with the
    eigen decomposition of \<open>src/dbal/EigenIntegration\<close>.
  \<^item> \<open>OutBuffer\<close>, \<open>Alloc\<close>, \<open>Catalog\<close>, \<open>AnyValue\<close>: the C++ layer between the modules and the server (\<open>src/dbal\<close>,
    \<open>src/ports/postgres/dbconnector\<close>): the stream buffer for messages, the aligned allocator on top of \<open>palloc\<close>, the cache of the system catalog, and the
    proxy \<open>AnyType\<close> with the entry point \<open>UDF::call\<close> and \<open>FunctionHandle\<close>.  The facts show what a client receives, that blocks are aligned and inside the blocks of the server,
    what a sequence of lookups returns, and how a record is returned and read.
  A theory \<open>XFacts\<close> holds the theorems about \<open>X\<close>; \<open>LinearSums\<close> and \<open>LogisticCg\<close> hold further ones.

  \<^bold>\<open>Interfaces.\<close>  The locales are \<open>count_cursor\<close> (a cursor over the counts of runs), \<open>run_index\<close> (the run that holds an
  element, for the dense and the sparse search), \<open>elementwise\<close> (a function on elements of one type), \<open>value_store\<close> and \<open>fm_type\<close>
  (the small and the big state of \<open>Fm\<close>, for a type of the server), \<open>collation\<close> (a comparison of texts), \<open>online_learner\<close> (an update of
  a support vector model), \<open>state_array\<close> (a transition state in an array), \<open>char_sink\<close> (a bounded buffer for characters), and \<open>cached_lookup\<close>
  (a table that is filled on demand).

  \<^bold>\<open>Bounds and fuel.\<close>  The search of a sortasort (\<open>find_loop\<close>) gets \<open>num_vals + 1\<close> units of fuel, and every step
  shortens the interval; \<open>grow_and_insert\<close> gets one, because its first pass succeeds; \<open>partition_select\<close> takes one random number
  per pass, and a pass leaves fewer values.  Whatever the order of the dictionary, the search ends.  In \<open>sample_fids\<close> the loop ends when the random numbers are fair, which is a
  theorem.  Sizes and counts are below \<open>2 ^ 31\<close> where a theorem says so.

  \<^bold>\<open>Parameters.\<close>  Code outside of the repository is an argument of the definitions: the random numbers (\<open>random\<close>, \<open>drand48\<close>, as
  sequences), \<open>exp\<close>, \<open>log\<close>, \<open>pow\<close>, \<open>acos\<close>, \<open>strcoll\<close>, \<open>qsort\<close> and \<open>qsort_arg\<close>, the MD5 hash, the catalog and the type output functions of the
  server, the kernel functions of support vector machines, the distributions of Boost, and the reductions, products and
  decompositions of Eigen.  Element-wise expressions of Eigen are computed element by element.

  \<^bold>\<open>Not modelled.\<close>  Allocation does not fail and freeing has no effect; memory contexts do not matter for the results.
  Of the C functions these are left out: the printing ones (\<open>printSparseData\<close>, \<open>cmsketch_dump\<close>, \<open>bit_print\<close>, debugging output),
  \<open>table_exists\<close> of \<open>dt.c\<close> (a query of the server through SPI), \<open>safe_log2\<close>, and the casts of \<open>float4\<close> and \<open>numeric\<close>
  (a conversion of the server in front of \<open>svec_make_scalar\<close>).  The element types of \<open>SparseData\<close> other than \<open>float8\<close> are never
  built by the code.  Overflow of 32-bit sizes in the values of \<open>Mfv\<close> is left out.  The record types of the server that
  carry a result of the C functions are tuples here.  In the aggregates of \<open>src/src/modules\<close> an allocation does not fail and the transition state is the array itself: the
  templates \<open>Reference\<close>, \<open>HandleMap\<close>, \<open>TransparentHandle\<close> and \<open>HandleTraits\<close>, which give typed access to it, have no state of their own.  The macros of
  \<open>dbconnector.hpp\<close> and the wrappers of \<open>Backend.hpp\<close> appear in the definitions that use them, as an exception where the server raises an error.  In \<open>AnyValue\<close> all calls share one
  cache of the catalog, and the text of an error message is a tag.  The Python and SQL parts of MADlib are not C code.
\<close>

end
